(* ===== verification/Prelude.thy ===== *)
theory Prelude
  imports Complex_Main "HOL-Library.AList"
begin

text \<open>
  Generic material that the component theories share: ECMAScript's insertion-ordered
  \<^verbatim>\<open>Map\<close> and \<^verbatim>\<open>Set\<close>, the stable \<^verbatim>\<open>Array.prototype.sort\<close>, results that may be
  thrown errors, and the theorem collections of the development.

  A \<^verbatim>\<open>Map\<close> is an association list in insertion order. \<^verbatim>\<open>map.set\<close> on a present key keeps
  the key's position and replaces its value, on an absent key it appends, which is what
  \<^theory_text>\<open>AList.update\<close> computes; \<^verbatim>\<open>map.delete\<close> is \<^theory_text>\<open>AList.delete\<close>, \<^verbatim>\<open>map.get\<close> is
  \<^theory_text>\<open>map_of\<close>. A \<^verbatim>\<open>Set\<close> is a duplicate-free list in insertion order.
\<close>

named_theorems inv_intros "every operation of a component keeps the component's invariant"
named_theorems num_intros "bounds of rounded arithmetic on numbers"
named_theorems js_simps "characteristic equations of the modelled containers"

section \<open>Results and errors\<close>

text \<open>A thrown \<^verbatim>\<open>Error\<close> is the left injection, a returned value the right one.\<close>

type_synonym ('e, 'a) result = "'e + 'a"

abbreviation throw :: "'e \<Rightarrow> ('e, 'a) result" where
  "throw e \<equiv> Inl e"

abbreviation return :: "'a \<Rightarrow> ('e, 'a) result" where
  "return a \<equiv> Inr a"

fun is_return :: "('e, 'a) result \<Rightarrow> bool" where
  "is_return (Inl e) = False"
| "is_return (Inr a) = True"

text \<open>Sequencing of calls that may throw.\<close>

definition and_then :: "('e, 'a) result \<Rightarrow> ('a \<Rightarrow> ('e, 'b) result) \<Rightarrow> ('e, 'b) result" where
  "and_then r f = (case r of Inl e \<Rightarrow> throw e | Inr x \<Rightarrow> f x)"

lemma and_then_simps [simp]: "and_then (Inl e) f = Inl e" "and_then (Inr x) f = f x"
  by (simp_all add: and_then_def)

lemma and_then_return: "and_then r f = Inr y \<longleftrightarrow> (\<exists>x. r = Inr x \<and> f x = Inr y)"
  by (cases r) simp_all

text \<open>\<^verbatim>\<open>xs.map(f)\<close> for a callback that may throw.\<close>

fun map_result :: "('a \<Rightarrow> ('e, 'b) result) \<Rightarrow> 'a list \<Rightarrow> ('e, 'b list) result" where
  "map_result f [] = return []"
| "map_result f (x # xs) = and_then (f x) (\<lambda>y. and_then (map_result f xs) (\<lambda>ys. return (y # ys)))"

section \<open>Insertion-ordered maps\<close>

type_synonym ('k, 'v) jsmap = "('k \<times> 'v) list"

abbreviation map_get :: "('k, 'v) jsmap \<Rightarrow> 'k \<Rightarrow> 'v option" where
  "map_get m k \<equiv> map_of m k"

abbreviation map_set :: "('k, 'v) jsmap \<Rightarrow> 'k \<Rightarrow> 'v \<Rightarrow> ('k, 'v) jsmap" where
  "map_set m k v \<equiv> AList.update k v m"

abbreviation map_delete :: "('k, 'v) jsmap \<Rightarrow> 'k \<Rightarrow> ('k, 'v) jsmap" where
  "map_delete m k \<equiv> AList.delete k m"

abbreviation map_keys :: "('k, 'v) jsmap \<Rightarrow> 'k list" where
  "map_keys m \<equiv> map fst m"

abbreviation map_values :: "('k, 'v) jsmap \<Rightarrow> 'v list" where
  "map_values m \<equiv> map snd m"

definition map_has :: "('k, 'v) jsmap \<Rightarrow> 'k \<Rightarrow> bool" where
  "map_has m k \<longleftrightarrow> map_get m k \<noteq> None"

text \<open>\<^verbatim>\<open>m.delete(k); m.set(k, v)\<close>: moves the key to the end of the iteration order.\<close>

definition map_touch :: "('k, 'v) jsmap \<Rightarrow> 'k \<Rightarrow> 'v \<Rightarrow> ('k, 'v) jsmap" where
  "map_touch m k v = map_set (map_delete m k) k v"

definition wf_map :: "('k, 'v) jsmap \<Rightarrow> bool" where
  "wf_map m \<longleftrightarrow> distinct (map_keys m)"

lemma wf_map_Nil [simp, inv_intros]: "wf_map []"
  by (simp add: wf_map_def)

lemma wf_map_Cons: "wf_map ((k, v) # m) \<longleftrightarrow> k \<notin> set (map_keys m) \<and> wf_map m"
  by (simp add: wf_map_def)

lemma wf_map_set [simp, inv_intros]: "wf_map m \<Longrightarrow> wf_map (map_set m k v)"
  by (simp add: wf_map_def distinct_update)

lemma wf_map_delete [simp, inv_intros]: "wf_map m \<Longrightarrow> wf_map (map_delete m k)"
  by (simp add: wf_map_def distinct_delete)

lemma wf_map_touch [simp, inv_intros]: "wf_map m \<Longrightarrow> wf_map (map_touch m k v)"
  by (simp add: map_touch_def)

lemma wf_map_filter [inv_intros]: "wf_map m \<Longrightarrow> wf_map (filter P m)"
  by (induction m) (auto simp: wf_map_def)

lemma get_set [js_simps]: "map_get (map_set m k v) k' = (if k' = k then Some v else map_get m k')"
  by (simp add: update_conv)

lemma get_delete [js_simps]: "map_get (map_delete m k) k' = (if k' = k then None else map_get m k')"
  by (simp add: delete_conv)

lemma get_touch [js_simps]: "map_get (map_touch m k v) k' = (if k' = k then Some v else map_get m k')"
  by (simp add: map_touch_def js_simps)

lemma keys_delete [js_simps]: "map_keys (map_delete m k) = removeAll k (map_keys m)"
  by (simp add: AList.delete_keys)

lemma keys_set [js_simps]:
  "map_keys (map_set m k v) = (if k \<in> set (map_keys m) then map_keys m else map_keys m @ [k])"
  by (simp add: AList.update_keys)

lemma set_keys_set: "set (map_keys (map_set m k v)) = insert k (set (map_keys m))"
  by (subst keys_set) auto

lemma keys_touch [js_simps]: "map_keys (map_touch m k v) = removeAll k (map_keys m) @ [k]"
  by (simp add: map_touch_def js_simps)

lemma set_map_set: "set (map_set m k v) \<subseteq> insert (k, v) (set m)"
  by (induction m) auto

lemma set_fresh: "k \<notin> set (map_keys m) \<Longrightarrow> map_set m k v = m @ [(k, v)]"
  by (induction m) auto

lemma map_touch_eq: "map_touch m k v = map_delete m k @ [(k, v)]"
  unfolding map_touch_def by (rule set_fresh) (simp add: js_simps)

lemma get_filter_keys:
  "map_get (filter (\<lambda>(k, v). P k) m) k = (if P k then map_get m k else None)"
  by (induction m) auto

lemma get_filter:
  "wf_map m \<Longrightarrow> map_get (filter P m) k =
     (case map_get m k of None \<Rightarrow> None | Some v \<Rightarrow> if P (k, v) then Some v else None)"
proof (induction m)
  case (Cons p m)
  obtain k' v' where p: "p = (k', v')" by (cases p)
  have fresh: "k' \<notin> set (map_keys m)" and wf: "wf_map m"
    using Cons.prems by (auto simp: p wf_map_Cons)
  have "map_get (filter P m) k' = None" "map_get m k' = None"
    using fresh by (auto simp: map_of_eq_None_iff)
  with Cons.IH[OF wf] show ?case by (simp add: p)
qed simp

lemma delete_absent: "map_get m k = None \<Longrightarrow> map_delete m k = m"
  by (induction m) (auto split: if_splits)

lemma delete_first: "wf_map ((k, v) # m) \<Longrightarrow> map_delete ((k, v) # m) k = m"
  by (simp add: wf_map_Cons delete_absent map_of_eq_None_iff)

lemma length_delete:
  "wf_map m \<Longrightarrow> length (map_delete m k) + (if map_get m k = None then 0 else 1) = length m"
proof (induction m)
  case (Cons p m)
  obtain k' v where p: "p = (k', v)" by (cases p)
  show ?case
  proof (cases "k' = k")
    case True
    with Cons.prems p show ?thesis using delete_first[of k v m] by simp
  next
    case False
    with Cons p show ?thesis by (simp add: wf_map_Cons)
  qed
qed simp

lemma map_split:
  assumes "wf_map m" "map_get m k = Some v"
  obtains before after where "m = before @ (k, v) # after" "map_delete m k = before @ after"
proof -
  from map_of_SomeD[OF assms(2)] obtain before after where m: "m = before @ (k, v) # after"
    by (meson split_list)
  with assms(1) have "map_get before k = None" "map_get after k = None"
    by (auto simp: wf_map_def map_of_eq_None_iff)
  from this[THEN delete_absent] have "map_delete m k = before @ after"
    by (simp add: m AList.delete_eq)
  with m that show ?thesis by blast
qed

text \<open>\<^verbatim>\<open>m.get(k)?.change()\<close>: changes the container stored under a key, if there is one.\<close>

definition map_adjust :: "('k, 'v) jsmap \<Rightarrow> 'k \<Rightarrow> ('v \<Rightarrow> 'v) \<Rightarrow> ('k, 'v) jsmap" where
  "map_adjust m k f = (case map_get m k of None \<Rightarrow> m | Some v \<Rightarrow> map_set m k (f v))"

lemma get_adjust [js_simps]:
  "map_get (map_adjust m k f) k' = (if k' = k then map_option f (map_get m k) else map_get m k')"
  by (auto simp: map_adjust_def js_simps split: option.split)

lemma wf_map_adjust [simp, inv_intros]: "wf_map m \<Longrightarrow> wf_map (map_adjust m k f)"
  by (simp add: map_adjust_def split: option.split)

lemma keys_adjust [simp, js_simps]: "map_keys (map_adjust m k f) = map_keys m"
  by (cases "map_get m k") (force simp: map_adjust_def keys_set dest: map_of_SomeD)+

lemma get_fold_adjust:
  "distinct ks \<Longrightarrow> map_get (fold (\<lambda>k m. map_adjust m k f) ks m) k' =
     (if k' \<in> set ks then map_option f (map_get m k') else map_get m k')"
  by (induction ks arbitrary: m) (auto simp: get_adjust)

lemma wf_fold_adjust: "wf_map m \<Longrightarrow> wf_map (fold (\<lambda>k m. map_adjust m k f) ks m)"
  by (induction ks arbitrary: m) auto

lemma keys_fold_adjust: "map_keys (fold (\<lambda>k m. map_adjust m k f) ks m) = map_keys m"
  by (induction ks arbitrary: m) auto

section \<open>Insertion-ordered sets\<close>

definition set_add :: "'a \<Rightarrow> 'a list \<Rightarrow> 'a list" where
  "set_add x xs = (if x \<in> set xs then xs else xs @ [x])"

definition set_delete :: "'a \<Rightarrow> 'a list \<Rightarrow> 'a list" where
  "set_delete x xs = removeAll x xs"

text \<open>\<^verbatim>\<open>new Set(xs)\<close>: the first occurrence of every element, in order.\<close>

definition new_set :: "'a list \<Rightarrow> 'a list" where
  "new_set xs = fold set_add xs []"

lemma set_set_add [simp, js_simps]: "set (set_add x xs) = insert x (set xs)"
  by (auto simp: set_add_def)

lemma set_set_delete [simp, js_simps]: "set (set_delete x xs) = set xs - {x}"
  by (auto simp: set_delete_def)

lemma set_delete_Nil_iff: "set_delete x xs = [] \<longleftrightarrow> set xs \<subseteq> {x}"
  by (auto simp: set_delete_def removeAll_filter_not_eq filter_empty_conv)

lemma distinct_set_add [simp, inv_intros]: "distinct xs \<Longrightarrow> distinct (set_add x xs)"
  by (simp add: set_add_def)

lemma distinct_set_delete [simp, inv_intros]: "distinct xs \<Longrightarrow> distinct (set_delete x xs)"
  by (simp add: set_delete_def distinct_removeAll)

lemma fold_set_add: "set (fold set_add ys xs) = set xs \<union> set ys"
  by (induction ys arbitrary: xs) auto

lemma fold_set_delete: "set (fold set_delete ys xs) = set xs - set ys"
  by (induction ys arbitrary: xs) auto

lemma distinct_fold_set_add: "distinct xs \<Longrightarrow> distinct (fold set_add ys xs)"
  by (induction ys arbitrary: xs) auto

lemma distinct_fold_set_delete: "distinct xs \<Longrightarrow> distinct (fold set_delete ys xs)"
  by (induction ys arbitrary: xs) auto

lemma set_new_set [simp, js_simps]: "set (new_set xs) = set xs"
  by (simp add: new_set_def fold_set_add)

lemma distinct_new_set [simp, inv_intros]: "distinct (new_set xs)"
  by (simp add: new_set_def distinct_fold_set_add)

lemma new_set_distinct: "distinct xs \<Longrightarrow> new_set xs = xs"
proof -
  have "distinct (ys @ xs) \<Longrightarrow> fold set_add xs ys = ys @ xs" for ys
    by (induction xs arbitrary: ys) (auto simp: set_add_def)
  then show "distinct xs \<Longrightarrow> new_set xs = xs" by (simp add: new_set_def)
qed

lemma length_set_add: "length (set_add x xs) \<le> Suc (length xs)"
  by (simp add: set_add_def)

lemma length_set_delete_less: "x \<in> set xs \<Longrightarrow> length (set_delete x xs) < length xs"
  by (simp add: set_delete_def length_removeAll_less)

lemma length_set_delete:
  "distinct xs \<Longrightarrow> length (set_delete x xs) = length xs - (if x \<in> set xs then 1 else 0)"
  by (simp add: set_delete_def distinct_remove1_removeAll[symmetric] length_remove1)

section \<open>Bounded recency lists\<close>

text \<open>
  \<^verbatim>\<open>while (map.size > limit) map.delete(map.keys().next().value)\<close>: several components bound
  a map this way, always right after storing one entry.
\<close>

fun drop_oldest :: "nat \<Rightarrow> ('k, 'v) jsmap \<Rightarrow> ('k, 'v) jsmap" where
  "drop_oldest limit [] = []"
| "drop_oldest limit (p # m) = (if limit < length (p # m) then drop_oldest limit m else p # m)"

lemma drop_oldest_drop: "drop_oldest limit m = drop (length m - limit) m"
  by (induction m) (auto simp: Suc_diff_le not_less)

lemma length_drop_oldest: "length (drop_oldest limit m) \<le> limit"
  by (simp add: drop_oldest_drop)

lemma wf_map_drop [inv_intros]: "wf_map m \<Longrightarrow> wf_map (drop n m)"
  unfolding wf_map_def by (simp add: drop_map[symmetric])

lemma wf_map_drop_oldest [inv_intros]: "wf_map m \<Longrightarrow> wf_map (drop_oldest limit m)"
  by (simp add: drop_oldest_drop inv_intros)

lemma get_drop_some: "wf_map m \<Longrightarrow> map_get (drop n m) k = Some v \<Longrightarrow> map_get m k = Some v"
  unfolding wf_map_def by (meson in_set_dropD map_of_SomeD map_of_is_SomeI)

lemma get_drop_oldest_some:
  "wf_map m \<Longrightarrow> map_get (drop_oldest limit m) k = Some v \<Longrightarrow> map_get m k = Some v"
  by (simp add: drop_oldest_drop get_drop_some)

lemma drop_oldest_last: "0 < limit \<Longrightarrow> (k, v) \<in> set (drop_oldest limit (m @ [(k, v)]))"
  by (simp add: drop_oldest_drop)

lemma get_drop_oldest_touch:
  assumes "wf_map m" "0 < limit"
  shows "map_get (drop_oldest limit (map_touch m k v)) k = Some v"
proof -
  have "(k, v) \<in> set (drop_oldest limit (map_touch m k v))"
    using drop_oldest_last[OF assms(2), of k v "map_delete m k"] by (simp add: map_touch_eq)
  moreover have "wf_map (drop_oldest limit (map_touch m k v))"
    using assms(1) by (intro inv_intros)
  ultimately show ?thesis by (simp add: wf_map_def)
qed

section \<open>Stable sorting\<close>

text \<open>
  \<^verbatim>\<open>Array.prototype.sort\<close> is stable, so for a comparator that is a total preorder its result
  is unique: every element goes after the elements that compare less or equal. \<open>sort_by\<close>
  takes the comparator as the predicate "\<open>x\<close> must come strictly after \<open>y\<close>"
  (\<^verbatim>\<open>compare(x, y) > 0\<close>) and inserts from the right, which keeps equal elements in order.
\<close>

fun insert_by :: "('a \<Rightarrow> 'a \<Rightarrow> bool) \<Rightarrow> 'a \<Rightarrow> 'a list \<Rightarrow> 'a list" where
  "insert_by after x [] = [x]"
| "insert_by after x (y # ys) = (if after x y then y # insert_by after x ys else x # y # ys)"

fun sort_by :: "('a \<Rightarrow> 'a \<Rightarrow> bool) \<Rightarrow> 'a list \<Rightarrow> 'a list" where
  "sort_by after [] = []"
| "sort_by after (x # xs) = insert_by after x (sort_by after xs)"

lemma set_insert_by [simp]: "set (insert_by after x ys) = insert x (set ys)"
  by (induction ys) auto

lemma set_sort_by [simp]: "set (sort_by after xs) = set xs"
  by (induction xs) auto

lemma length_insert_by [simp]: "length (insert_by after x ys) = Suc (length ys)"
  by (induction ys) auto

lemma length_sort_by [simp]: "length (sort_by after xs) = length xs"
  by (induction xs) auto

lemma sort_by_Nil_iff [simp]: "sort_by after xs = [] \<longleftrightarrow> xs = []"
  by (metis length_0_conv length_sort_by)

lemma distinct_map_insert_by:
  "distinct (map f (insert_by after x ys)) \<longleftrightarrow> f x \<notin> f ` set ys \<and> distinct (map f ys)"
  by (induction ys) auto

lemma distinct_map_sort_by: "distinct (map f (sort_by after xs)) \<longleftrightarrow> distinct (map f xs)"
  by (induction xs) (auto simp: distinct_map_insert_by)

text \<open>Sortedness for a comparator given by a transitive and total "not after" relation.\<close>

lemma sorted_insert_by:
  assumes "sorted_wrt (\<lambda>a b. \<not> after a b) ys"
    and trans: "\<And>a b c. \<lbrakk>P a; P b; P c; \<not> after a b; \<not> after b c\<rbrakk> \<Longrightarrow> \<not> after a c"
    and asym: "\<And>a b. \<lbrakk>P a; P b; after a b\<rbrakk> \<Longrightarrow> \<not> after b a"
    and "P x" "\<forall>y\<in>set ys. P y"
  shows "sorted_wrt (\<lambda>a b. \<not> after a b) (insert_by after x ys)"
  using assms(1,4,5)
proof (induction ys)
  case (Cons y ys)
  show ?case
  proof (cases "after x y")
    case True
    with Cons asym[of x y] show ?thesis by auto
  next
    case False
    have "\<not> after x z" if "z \<in> set ys" for z
      using trans[of x y z] False that Cons.prems by auto
    with False Cons show ?thesis by auto
  qed
qed simp

lemma sorted_sort_by:
  assumes "\<And>a b c. \<lbrakk>P a; P b; P c; \<not> after a b; \<not> after b c\<rbrakk> \<Longrightarrow> \<not> after a c"
    and "\<And>a b. \<lbrakk>P a; P b; after a b\<rbrakk> \<Longrightarrow> \<not> after b a"
    and "\<forall>x\<in>set xs. P x"
  shows "sorted_wrt (\<lambda>a b. \<not> after a b) (sort_by after xs)"
  using assms(3)
proof (induction xs)
  case (Cons x xs)
  then show ?case
    using sorted_insert_by[where P = P and after = after, OF _ assms(1,2)] by simp
qed simp

section \<open>Lists\<close>

lemma sum_list_removeAll_single:
  fixes f :: "'a \<Rightarrow> nat"
  assumes "distinct xs" "x \<in> set xs"
  shows "sum_list (map f (removeAll x xs)) + f x = sum_list (map f xs)"
  using assms by (induction xs) (auto simp: removeAll_id)

lemma takeWhile_prefix_all: "\<forall>x\<in>set (takeWhile P xs). P x"
  by (auto dest: set_takeWhileD)

section \<open>Runs of a component\<close>

text \<open>The contract of every event-driven component: each of its steps keeps the invariant, so every
  run does.\<close>

locale kept_by_steps =
  fixes step :: "'e \<Rightarrow> 's \<Rightarrow> 's" and inv :: "'s \<Rightarrow> bool"
  assumes kept: "inv s \<Longrightarrow> inv (step e s)"
begin

lemma run: "inv s \<Longrightarrow> inv (fold step es s)"
  by (induction es arbitrary: s) (simp_all add: kept)

end

end
