(* ===== verification/JsNumber.thy ===== *)
theory JsNumber
  imports Prelude "HOL-Library.Log_Nat"
begin

text \<open>
  ECMAScript numbers: IEEE-754 binary64 with round-to-nearest, ties to even. A finite number
  is the rational it denotes; \<open>rnd\<close> rounds a rational to the nearest representable one
  (normal or subnormal) and \<open>toNumber\<close> overflows to an infinity. The four operations
  compute the exact rational result and round it once, as the standard prescribes, so the
  formulas of the code are evaluated with the rounding the code has, and the bounds proved
  below hold for the rounded values.

  The sign of zero is not represented: the modelled code never divides by a zero that could
  be negative, nor prints one.
\<close>

section \<open>Rounding to 53 significant bits\<close>

text \<open>
  \<open>flog2 q\<close> is the exponent of the leading bit, \<open>round_even\<close> rounds to an integer, ties to
  even, and \<open>ulp_exp q\<close> is the exponent of the last bit kept, at least \<open>emin\<close> (subnormals).
\<close>

definition flog2 :: "rat \<Rightarrow> int" where
  "flog2 q = (case quotient_of q of (a, b) \<Rightarrow>
     (let k = bitlen a - bitlen b in if 2 powi k \<le> q then k else k - 1))"

definition round_even :: "rat \<Rightarrow> int" where
  "round_even q = (let n = \<lfloor>q\<rfloor>; r = q - of_int n in
     if r < 1 / 2 then n else if r > 1 / 2 then n + 1 else if even n then n else n + 1)"

definition emin :: int where
  "emin = -1074"

definition ulp_exp :: "rat \<Rightarrow> int" where
  "ulp_exp q = max emin (flog2 q - 52)"

definition rnd_pos :: "rat \<Rightarrow> rat" where
  "rnd_pos q = of_int (round_even (q / 2 powi ulp_exp q)) * 2 powi ulp_exp q"

definition rnd :: "rat \<Rightarrow> rat" where
  "rnd q = (if q = 0 then 0 else if q > 0 then rnd_pos q else - rnd_pos (- q))"

lemma flog2_spec:
  assumes "0 < q"
  shows "2 powi flog2 q \<le> q" and "q < 2 powi (flog2 q + 1)"
proof -
  obtain a b where ab: "quotient_of q = (a, b)" by (cases "quotient_of q")
  have b: "b > 0" using ab by (rule quotient_of_denom_pos)
  have q: "q = of_int a / of_int b" using ab by (rule quotient_of_div)
  have a: "a > 0" using assms b by (simp add: q zero_less_divide_iff)
  define la where "la = bitlen a"
  define lb where "lb = bitlen b"
  have "2 ^ nat (la - 1) \<le> a \<and> a < 2 ^ nat la" unfolding la_def
    using a bitlen_bounds by auto
  moreover have "la > 0" unfolding la_def using a by (simp add: bitlen_eq_zero_iff bitlen_nonneg le_neq_trans)
  ultimately have a2: "(2::rat) powi (la - 1) \<le> of_int a" "of_int a < (2::rat) powi la"
    by (auto simp: power_int_def simp flip: of_int_power) 
  have "2 ^ nat (lb - 1) \<le> b \<and> b < 2 ^ nat lb" unfolding lb_def
    using b bitlen_bounds by auto
  moreover have "lb > 0" unfolding lb_def using b by (simp add: bitlen_eq_zero_iff bitlen_nonneg le_neq_trans)
  ultimately have b2: "(2::rat) powi (lb - 1) \<le> of_int b" "of_int b < (2::rat) powi lb"
    by (auto simp: power_int_def simp flip: of_int_power)
  have pos: "0 < (2::rat) powi k" for k by simp
  have up: "q < 2 powi (la - lb + 1)"
  proof -
    have "q \<le> of_int a / 2 powi (lb - 1)"
      unfolding q using b2(1) a by (intro divide_left_mono) (auto intro!: mult_pos_pos simp: b)
    also have "\<dots> < 2 powi la / 2 powi (lb - 1)"
      using a2(2) pos by (intro divide_strict_right_mono)
    also have "\<dots> = 2 powi (la - lb + 1)"
      by (simp flip: power_int_diff add: algebra_simps)
    finally show ?thesis .
  qed
  have lo: "2 powi (la - lb - 1) \<le> q"
  proof -
    have "(2::rat) powi (la - lb - 1) = 2 powi (la - 1) / 2 powi lb"
      by (simp flip: power_int_diff add: algebra_simps)
    also have "\<dots> \<le> of_int a / 2 powi lb"
      using a2(1) pos[of lb] by (intro divide_right_mono) auto
    also have "\<dots> \<le> q"
      unfolding q using b2(2) a b by (intro divide_left_mono) (auto intro!: mult_pos_pos)
    finally show ?thesis .
  qed
  have eq: "flog2 q = (if 2 powi (la - lb) \<le> q then la - lb else la - lb - 1)"
    by (simp add: flog2_def ab la_def lb_def Let_def)
  show "2 powi flog2 q \<le> q" using lo by (simp add: eq)
  show "q < 2 powi (flog2 q + 1)" using up by (simp add: eq)
qed


lemma pow2_less_iff [simp]: "(2::rat) powi a < 2 powi b \<longleftrightarrow> a < b"
  by (meson linorder_not_less one_less_numeral_iff power_int_increasing power_int_strict_increasing semiring_norm(76) order_less_imp_le not_less)

lemma pow2_le_iff [simp]: "(2::rat) powi a \<le> 2 powi b \<longleftrightarrow> a \<le> b"
  by (simp flip: not_less)

lemma flog2_unique:
  assumes "2 powi e \<le> q" "q < 2 powi (e + 1)"
  shows "flog2 q = e"
proof -
  have q: "0 < q" using assms(1) by (meson less_le_trans zero_less_numeral zero_less_power_int)
  have "(2::rat) powi e < 2 powi (flog2 q + 1)" using assms(1) flog2_spec(2)[OF q] by linarith
  moreover have "(2::rat) powi (flog2 q) < 2 powi (e + 1)" using assms(2) flog2_spec(1)[OF q] by linarith
  ultimately show ?thesis by simp
qed

lemma flog2_mono: "0 < p \<Longrightarrow> p \<le> q \<Longrightarrow> flog2 p \<le> flog2 q"
proof -
  assume p: "0 < p" "p \<le> q"
  then have "(2::rat) powi (flog2 p) < 2 powi (flog2 q + 1)"
    using flog2_spec(1)[of p] flog2_spec(2)[of q] by linarith
  then show ?thesis by simp
qed

lemma round_even_bounds: "\<lfloor>q\<rfloor> \<le> round_even q" "round_even q \<le> \<lfloor>q\<rfloor> + 1"
  by (auto simp: round_even_def Let_def)

lemma round_even_of_int [simp]: "round_even (of_int n) = n"
  by (simp add: round_even_def)

lemma round_even_mono: "p \<le> q \<Longrightarrow> round_even p \<le> round_even q"
proof (cases "\<lfloor>p\<rfloor> = \<lfloor>q\<rfloor>")
  case True
  assume "p \<le> q"
  with True show ?thesis by (auto simp: round_even_def Let_def)
next
  case False
  assume "p \<le> q"
  with False have "\<lfloor>p\<rfloor> + 1 \<le> \<lfloor>q\<rfloor>" using floor_mono[of p q] by linarith
  then show ?thesis using round_even_bounds[of p] round_even_bounds[of q] by linarith
qed

lemma round_even_nonneg: "0 \<le> q \<Longrightarrow> 0 \<le> round_even q"
  using round_even_mono[of 0 q] round_even_of_int[of 0] by simp

lemma round_even_le: "q \<le> of_int n \<Longrightarrow> round_even q \<le> n"
  using round_even_mono[of q "of_int n"] by simp

lemma round_even_ge: "of_int n \<le> q \<Longrightarrow> n \<le> round_even q"
  using round_even_mono[of "of_int n" q] by simp

lemma scaled_less: "0 < q \<Longrightarrow> q / 2 powi ulp_exp q < 2 powi 53"
proof -
  assume q: "0 < q"
  have "q < 2 powi (flog2 q + 1)" using q by (rule flog2_spec)
  also have "\<dots> \<le> 2 powi (53 + ulp_exp q)" by (simp add: ulp_exp_def)
  also have "\<dots> = 2 powi 53 * 2 powi ulp_exp q" by (simp add: power_int_add)
  finally show ?thesis by (simp add: divide_less_eq)
qed

lemma scaled_ge: "0 < q \<Longrightarrow> emin < ulp_exp q \<Longrightarrow> 2 powi 52 \<le> q / 2 powi ulp_exp q"
proof -
  assume q: "0 < q" "emin < ulp_exp q"
  have "(2::rat) powi 52 * 2 powi ulp_exp q = 2 powi (52 + ulp_exp q)" by (simp add: power_int_add)
  also have "\<dots> = 2 powi flog2 q" using q(2) by (simp add: ulp_exp_def max_def split: if_splits)
  also have "\<dots> \<le> q" using q(1) by (rule flog2_spec)
  finally show ?thesis by (simp add: le_divide_eq)
qed

lemma rnd_pos_mono:
  assumes "0 < p" "p \<le> q"
  shows "rnd_pos p \<le> rnd_pos q"
proof -
  have le: "ulp_exp p \<le> ulp_exp q" using flog2_mono[OF assms] by (auto simp: ulp_exp_def)
  have q: "0 < q" using assms by simp
  show ?thesis
  proof (cases "ulp_exp p = ulp_exp q")
    case True
    have "round_even (p / 2 powi ulp_exp q) \<le> round_even (q / 2 powi ulp_exp q)"
      using assms(2) by (intro round_even_mono divide_right_mono) auto
    then show ?thesis by (simp add: rnd_pos_def True)
  next
    case False
    then have lt: "ulp_exp p + 1 \<le> ulp_exp q" using le by simp
    have "round_even (p / 2 powi ulp_exp p) \<le> 2 ^ 53"
      using scaled_less[OF assms(1)] by (intro round_even_le) simp
    then have "(of_int (round_even (p / 2 powi ulp_exp p)) :: rat) \<le> of_int (2 ^ 53)"
      by (simp only: of_int_le_iff)
    then have "rnd_pos p \<le> 2 powi 53 * 2 powi ulp_exp p"
      unfolding rnd_pos_def by (intro mult_right_mono) simp_all
    also have "\<dots> = 2 powi 52 * 2 powi (ulp_exp p + 1)" by (simp add: power_int_add)
    also have "\<dots> \<le> 2 powi 52 * 2 powi ulp_exp q" using lt by (intro mult_left_mono) auto
    also have "\<dots> \<le> rnd_pos q"
    proof -
      have "emin < ulp_exp q" using lt by (simp add: ulp_exp_def)
      from scaled_ge[OF q this] have "2 ^ 52 \<le> round_even (q / 2 powi ulp_exp q)"
        by (intro round_even_ge) simp
      then have "(of_int (2 ^ 52) :: rat) \<le> of_int (round_even (q / 2 powi ulp_exp q))"
        by (simp only: of_int_le_iff)
      then show ?thesis unfolding rnd_pos_def
        by (intro mult_right_mono) simp_all
    qed
    finally show ?thesis .
  qed
qed

lemma rnd_pos_nonneg: "0 < q \<Longrightarrow> 0 \<le> rnd_pos q"
  by (simp add: rnd_pos_def round_even_nonneg)

lemma rnd_0 [simp]: "rnd 0 = 0" by (simp add: rnd_def)
lemma rnd_minus: "rnd (- q) = - rnd q" by (simp add: rnd_def)
lemma rnd_nonneg: "0 \<le> q \<Longrightarrow> 0 \<le> rnd q" by (auto simp: rnd_def rnd_pos_nonneg)

lemma rnd_mono: "p \<le> q \<Longrightarrow> rnd p \<le> rnd q"
proof -
  assume le: "p \<le> q"
  consider "0 < p" | "p \<le> 0" "0 \<le> q" | "q < 0" using le by linarith
  then show ?thesis
  proof cases
    case 1 with le show ?thesis by (simp add: rnd_def rnd_pos_mono)
  next
    case 2
    then have "0 \<le> rnd (- p)" "0 \<le> rnd q" by (auto intro: rnd_nonneg)
    then show ?thesis by (simp add: rnd_minus)
  next
    case 3
    with le have "rnd_pos (- q) \<le> rnd_pos (- p)" by (intro rnd_pos_mono) auto
    with 3 le show ?thesis by (simp add: rnd_def)
  qed
qed

text \<open>Every multiple \<open>m * 2 powi e\<close> with at most 53 bits of \<open>m\<close> is a fixpoint.\<close>

lemma rnd_pos_fix:
  assumes "q = of_int m * 2 powi e" "0 < q" "ulp_exp q \<le> e"
  shows "rnd_pos q = q"
proof -
  define d where "d = nat (e - ulp_exp q)"
  have "(2::rat) powi e = 2 ^ d * 2 powi ulp_exp q"
    using assms(3) power_int_add[of "2::rat" "int d" "ulp_exp q"]
    by (simp add: d_def power_int_def)
  with assms(1) have q: "q = of_int (m * 2 ^ d) * 2 powi ulp_exp q"
    by (simp add: mult.assoc)
  have "q / 2 powi ulp_exp q = of_int (m * 2 ^ d)"
    by (subst (1) q) simp
  then have "round_even (q / 2 powi ulp_exp q) = m * 2 ^ d"
    by (simp only: round_even_of_int)
  with q show ?thesis by (simp add: rnd_pos_def)
qed


lemma ulp_exp_le: "0 < q \<Longrightarrow> q < 2 powi (e + 53) \<Longrightarrow> emin \<le> e \<Longrightarrow> ulp_exp q \<le> e"
  using flog2_spec(1)[of q] order_le_less_trans[of "2 powi flog2 q" q "2 powi (e + 53)"]
  by (simp add: ulp_exp_def)

lemma rnd_fix:
  assumes "q = of_int m * 2 powi e" "\<bar>m\<bar> \<le> 2 ^ 53" "emin \<le> e"
  shows "rnd q = q"
proof -
  have pos: "rnd_pos q = q" if "q = of_int m * 2 powi e" "0 < q" "\<bar>m\<bar> \<le> 2 ^ 53" for q m
  proof (cases "m = 2 ^ 53")
    case True
    then have q: "q = of_int 1 * 2 powi (e + 53)" using that by (simp add: power_int_add)
    have "ulp_exp q \<le> e + 53"
      using q that(2) assms(3) by (intro ulp_exp_le) simp_all
    with q that(2) show ?thesis by (intro rnd_pos_fix)
  next
    case False
    have "m < 2 ^ 53" using that(3) False by linarith
    then have "(of_int m :: rat) < of_int (2 ^ 53)" by (simp only: of_int_less_iff)
    then have "q < 2 powi 53 * 2 powi e" using that(1) by simp
    then have "q < 2 powi (e + 53)" by (simp add: power_int_add mult.commute)
    then have "ulp_exp q \<le> e" using that(2) assms(3) by (intro ulp_exp_le)
    with that show ?thesis by (intro rnd_pos_fix)
  qed
  consider "q = 0" | "0 < q" | "q < 0" by linarith
  then show ?thesis
  proof cases
    case 2 then show ?thesis using pos[OF assms(1) _ assms(2)] by (simp add: rnd_def)
  next
    case 3
    have "- q = of_int (- m) * 2 powi e" using assms(1) by simp
    from pos[OF this] 3 assms(2) show ?thesis by (simp add: rnd_def)
  qed simp
qed

lemma rnd_rnd_pos: "0 < q \<Longrightarrow> rnd (rnd_pos q) = rnd_pos q"
proof -
  assume q: "0 < q"
  let ?n = "round_even (q / 2 powi ulp_exp q)"
  have "q / 2 powi ulp_exp q \<le> of_int (2 ^ 53)" using scaled_less[OF q] by simp
  then have "?n \<le> 2 ^ 53" by (rule round_even_le)
  moreover have "0 \<le> ?n" using q by (intro round_even_nonneg) simp
  ultimately show ?thesis
    by (intro rnd_fix[of _ ?n "ulp_exp q"]) (simp_all add: rnd_pos_def ulp_exp_def)
qed

lemma rnd_idem [simp]: "rnd (rnd q) = rnd q"
proof -
  consider "q = 0" | "0 < q" | "q < 0" by linarith
  then show ?thesis
  proof cases
    case 3
    then have "rnd q = - rnd_pos (- q)" by (simp add: rnd_def)
    then show ?thesis using 3 rnd_rnd_pos[of "- q"] by (simp add: rnd_minus)
  qed (simp_all add: rnd_def[of q] rnd_rnd_pos)
qed

lemma rnd_of_int: "\<bar>n\<bar> \<le> 2 ^ 53 \<Longrightarrow> rnd (of_int n) = of_int n"
  by (rule rnd_fix[of _ n 0]) (simp_all add: emin_def)

text \<open>
  Every rounded value is a multiple of the smallest subnormal, so the difference of two
  distinct rounded values never rounds to zero: comparing numbers by the sign of their
  difference, as the code's comparators do, is exact.
\<close>

definition on_grid :: "rat \<Rightarrow> bool" where
  "on_grid q \<longleftrightarrow> q * 2 powi (- emin) \<in> \<int>"

lemma on_grid_rnd: "on_grid (rnd q)"
proof -
  have pos: "on_grid (rnd_pos q)" for q
  proof -
    have "ulp_exp q - emin \<ge> 0" by (simp add: ulp_exp_def)
    then have "(2::rat) powi ulp_exp q * 2 powi (- emin) = 2 ^ nat (ulp_exp q - emin)"
      using power_int_add[of "2::rat" "ulp_exp q" "- emin"] by (simp add: power_int_def)
    then have "rnd_pos q * 2 powi (- emin) = of_int (round_even (q / 2 powi ulp_exp q) * 2 ^ nat (ulp_exp q - emin))"
      by (simp add: rnd_pos_def mult.assoc)
    then show ?thesis unfolding on_grid_def by (metis Ints_of_int)
  qed
  then have "on_grid (- rnd_pos (- q))" unfolding on_grid_def by (metis Ints_minus mult_minus_left)
  with pos show ?thesis by (simp add: rnd_def) (simp add: on_grid_def)
qed

lemma rnd_diff_pos:
  assumes "on_grid p" "on_grid q" "p < q"
  shows "0 < rnd (q - p)"
proof -
  have "(q - p) * 2 powi (- emin) \<in> \<int>"
    using assms unfolding on_grid_def by (simp add: left_diff_distrib Ints_diff)
  then obtain n where n: "(q - p) * 2 powi (- emin) = of_int n" by (auto elim: Ints_cases)
  have "0 < (q - p) * 2 powi (- emin)" using assms(3) by simp
  then have "1 \<le> n" using n by simp
  then have "1 \<le> (q - p) * 2 powi (- emin)" using n by simp
  then have ge: "2 powi emin \<le> q - p"
    by (simp add: power_int_minus field_simps)
  have "rnd (2 powi emin) = 2 powi emin" by (rule rnd_fix[of _ 1 emin]) simp_all
  with rnd_mono[OF ge] have "2 powi emin \<le> rnd (q - p)" by simp
  moreover have "0 < (2::rat) powi emin" by simp
  ultimately show ?thesis by linarith
qed


section \<open>Numbers\<close>

datatype number = Num rat | Infinity | NegInfinity | NaN

definition max_finite :: rat where
  "max_finite = (2 ^ 53 - 1) * 2 ^ 971"

definition toNumber :: "rat \<Rightarrow> number" where
  "toNumber q = (let r = rnd q in
     if r > max_finite then Infinity else if r < - max_finite then NegInfinity else Num r)"

text \<open>The number an integer denotes, exact up to \<open>2 ^ 53\<close>.\<close>

abbreviation int_number :: "int \<Rightarrow> number" where
  "int_number n \<equiv> Num (of_int n)"

abbreviation nat_number :: "nat \<Rightarrow> number" where
  "nat_number n \<equiv> Num (of_nat n)"

text \<open>A decimal literal of the source is the rounded rational it writes.\<close>

abbreviation lit :: "rat \<Rightarrow> number" where
  "lit q \<equiv> toNumber q"

fun isFinite :: "number \<Rightarrow> bool" where
  "isFinite (Num q) = True"
| "isFinite _ = False"

fun isNaN :: "number \<Rightarrow> bool" where
  "isNaN NaN = True"
| "isNaN _ = False"

text \<open>\<^verbatim>\<open>Number.isSafeInteger\<close>.\<close>

fun isSafeInteger :: "number \<Rightarrow> bool" where
  "isSafeInteger (Num q) = (of_int \<lfloor>q\<rfloor> = q \<and> \<bar>q\<bar> \<le> 2 ^ 53 - 1)"
| "isSafeInteger _ = False"

instantiation number :: "{zero, one, plus, uminus, minus, times, inverse, ord}"
begin

definition zero_number :: number where
  "zero_number = Num 0"

definition one_number :: number where
  "one_number = Num 1"

fun uminus_number :: "number \<Rightarrow> number" where
  "- Num a = Num (- a)"
| "- Infinity = NegInfinity"
| "- NegInfinity = Infinity"
| "- NaN = NaN"

fun plus_number :: "number \<Rightarrow> number \<Rightarrow> number" where
  "Num a + Num b = toNumber (a + b)"
| "NaN + _ = NaN"
| "_ + NaN = NaN"
| "Infinity + NegInfinity = NaN"
| "NegInfinity + Infinity = NaN"
| "Infinity + _ = Infinity"
| "_ + Infinity = Infinity"
| "NegInfinity + _ = NegInfinity"
| "_ + NegInfinity = NegInfinity"

definition minus_number :: "number \<Rightarrow> number \<Rightarrow> number" where
  "x - y = x + (- y :: number)"

fun sign_number :: "number \<Rightarrow> int" where
  "sign_number (Num a) = (if a < 0 then -1 else if a = 0 then 0 else 1)"
| "sign_number Infinity = 1"
| "sign_number NegInfinity = -1"
| "sign_number NaN = 0"

definition infinity_of_sign :: "int \<Rightarrow> number" where
  "infinity_of_sign s = (if s < 0 then NegInfinity else if s = 0 then NaN else Infinity)"

fun times_number :: "number \<Rightarrow> number \<Rightarrow> number" where
  "Num a * Num b = toNumber (a * b)"
| "NaN * _ = NaN"
| "_ * NaN = NaN"
| "x * y = infinity_of_sign (sign_number x * sign_number y)"

fun divide_number :: "number \<Rightarrow> number \<Rightarrow> number" where
  "divide_number (Num a) (Num b) =
     (if b = 0 then infinity_of_sign (sign_number (Num a)) else toNumber (a / b))"
| "divide_number NaN _ = NaN"
| "divide_number _ NaN = NaN"
| "divide_number (Num a) _ = Num 0"
| "divide_number x (Num b) =
     infinity_of_sign (sign_number x * (if b < 0 then -1 else 1))"
| "divide_number _ _ = NaN"

definition inverse_number :: "number \<Rightarrow> number" where
  "inverse_number x = divide 1 x"

fun less_number :: "number \<Rightarrow> number \<Rightarrow> bool" where
  "Num a < Num b = (a < b)"
| "NaN < _ = False"
| "_ < NaN = False"
| "NegInfinity < NegInfinity = False"
| "NegInfinity < _ = True"
| "_ < NegInfinity = False"
| "Infinity < _ = False"
| "_ < Infinity = True"

definition less_eq_number :: "number \<Rightarrow> number \<Rightarrow> bool" where
  "(x :: number) \<le> y \<longleftrightarrow> x < y \<or> (x = y \<and> x \<noteq> NaN)"

instance ..

end

text \<open>\<^verbatim>\<open>Math.max\<close>, \<^verbatim>\<open>Math.min\<close>, \<^verbatim>\<open>Math.floor\<close>, \<^verbatim>\<open>Math.ceil\<close> and the code's \<^verbatim>\<open>clamp\<close>.\<close>

definition math_max :: "number \<Rightarrow> number \<Rightarrow> number" where
  "math_max x y = (if x = NaN \<or> y = NaN then NaN else if x < y then y else x)"

definition math_min :: "number \<Rightarrow> number \<Rightarrow> number" where
  "math_min x y = (if x = NaN \<or> y = NaN then NaN else if y < x then y else x)"

fun math_floor :: "number \<Rightarrow> number" where
  "math_floor (Num q) = Num (of_int \<lfloor>q\<rfloor>)"
| "math_floor x = x"

fun math_ceil :: "number \<Rightarrow> number" where
  "math_ceil (Num q) = Num (of_int \<lceil>q\<rceil>)"
| "math_ceil x = x"

text \<open>A number as a condition is false when it is zero or NaN; \<^verbatim>\<open>x || y\<close> picks by it.\<close>

definition truthy :: "number \<Rightarrow> bool" where
  "truthy x \<longleftrightarrow> x \<noteq> NaN \<and> x \<noteq> 0"

definition num_or :: "number \<Rightarrow> number \<Rightarrow> number" where
  "num_or x y = (if truthy x then x else y)"

section \<open>Order\<close>

lemma less_number_cases [js_simps]:
  "(x :: number) < y \<longleftrightarrow>
     (case (x, y) of
        (Num a, Num b) \<Rightarrow> a < b
      | (NegInfinity, Num b) \<Rightarrow> True | (NegInfinity, Infinity) \<Rightarrow> True
      | (Num a, Infinity) \<Rightarrow> True | _ \<Rightarrow> False)"
  by (cases x; cases y) simp_all

lemma le_Num [simp]: "Num a \<le> Num b \<longleftrightarrow> a \<le> b"
  by (auto simp: less_eq_number_def)

lemma not_le_NaN [simp]: "\<not> NaN \<le> x" "\<not> x \<le> NaN"
  by (cases x; simp add: less_eq_number_def)+

lemma not_less_NaN [simp]: "\<not> NaN < x" "\<not> x < NaN"
  by (cases x; simp)+

lemma le_Infinity [simp]: "x \<le> Infinity \<longleftrightarrow> x \<noteq> NaN"
  by (cases x) (auto simp: less_eq_number_def)

lemma Infinity_le [simp]: "Infinity \<le> x \<longleftrightarrow> x = Infinity"
  by (cases x) (auto simp: less_eq_number_def)

lemma NegInfinity_le [simp]: "NegInfinity \<le> x \<longleftrightarrow> x \<noteq> NaN"
  by (cases x) (auto simp: less_eq_number_def)

lemma le_NegInfinity [simp]: "x \<le> NegInfinity \<longleftrightarrow> x = NegInfinity"
  by (cases x) (auto simp: less_eq_number_def)

lemma number_le_trans [trans]: "(x :: number) \<le> y \<Longrightarrow> y \<le> z \<Longrightarrow> x \<le> z"
  by (cases x; cases y; cases z) auto

lemma number_le_refl: "x \<noteq> NaN \<Longrightarrow> x \<le> (x :: number)"
  by (simp add: less_eq_number_def)

lemma number_antisym: "(x :: number) \<le> y \<Longrightarrow> y \<le> x \<Longrightarrow> x = y"
  by (cases x; cases y) auto

lemma number_not_less: "x \<noteq> NaN \<Longrightarrow> y \<noteq> NaN \<Longrightarrow> \<not> x < y \<longleftrightarrow> y \<le> (x :: number)"
  by (cases x; cases y) (auto simp: less_eq_number_def)

lemma number_less_imp_le: "x < y \<Longrightarrow> x \<le> (y :: number)"
  by (simp add: less_eq_number_def)

lemma number_le_less_trans: "(x :: number) \<le> y \<Longrightarrow> y < z \<Longrightarrow> x < z"
  by (cases x; cases y; cases z) auto

lemma number_less_le_trans: "(x :: number) < y \<Longrightarrow> y \<le> z \<Longrightarrow> x < z"
  by (cases x; cases y; cases z) auto

lemma isFinite_iff: "isFinite x \<longleftrightarrow> (\<exists>q. x = Num q)"
  by (cases x) auto

lemma isFiniteE [elim]: "isFinite x \<Longrightarrow> (\<And>q. x = Num q \<Longrightarrow> P) \<Longrightarrow> P"
  by (cases x) auto

lemma finite_between: "Num a \<le> x \<Longrightarrow> x \<le> Num b \<Longrightarrow> isFinite x"
  by (cases x) auto

section \<open>Bounds of rounded arithmetic\<close>

lemma max_finite_ge: "2 ^ 53 \<le> max_finite"
  by (simp add: max_finite_def)

lemma toNumber_code [code]:
  "toNumber q = (let r = rnd q in
     if \<bar>r\<bar> \<le> 2 ^ 53 then Num r
     else if r > max_finite then Infinity else if r < - max_finite then NegInfinity else Num r)"
  using max_finite_ge by (auto simp: toNumber_def Let_def)

lemma toNumber_0 [simp]: "toNumber 0 = 0"
  using max_finite_ge by (simp add: toNumber_def zero_number_def)

lemma toNumber_not_NaN [simp]: "toNumber q \<noteq> NaN"
  by (simp add: toNumber_def Let_def)

lemma rnd_below:
  assumes "q \<le> of_nat n * (1 - 1 / 2 ^ 53)" "0 < n" "n \<le> 2 ^ 53"
  shows "rnd q < of_nat n"
proof -
  define u :: rat where "u = of_nat n * (1 - 1 / 2 ^ 53)"
  define k where "k = flog2 (of_nat n)"
  have k: "2 powi k \<le> (of_nat n :: rat)" "(of_nat n :: rat) < 2 powi (k + 1)"
    using flog2_spec[of "of_nat n"] assms(2) by (auto simp: k_def)
  have big: "(of_nat n :: rat) \<le> 2 powi 53" using assms(3) by (metis of_nat_le_iff of_nat_numeral of_nat_power power_int_numeral)
  have n1: "(1 :: rat) \<le> of_nat n" using assms(2) by simp
  have "0 \<le> k" using order_le_less_trans[OF n1 k(2)] pow2_less_iff[of 0 "k + 1"] by simp
  have "k \<le> 53" using order_trans[OF k(1) big] by (simp only: pow2_le_iff)
  have "rnd u < of_nat n"
  proof (cases "of_nat n = (2 powi k :: rat)")
    case True
    have "u = of_int (2 ^ 53 - 1) * 2 powi (k - 53)"
      by (simp add: u_def True power_int_diff field_simps)
    moreover have "emin \<le> k - 53" using \<open>0 \<le> k\<close> by (simp add: emin_def)
    ultimately have "rnd u = u" by (intro rnd_fix[of u "2 ^ 53 - 1" "k - 53"]) simp_all
    then show ?thesis using n1 by (simp add: u_def)
  next
    case False
    then have less: "2 powi k < (of_nat n :: rat)" using k(1) by simp
    have "k < 53" using less_le_trans[OF less big] by (simp only: pow2_less_iff)
    define N :: int where "N = int n * 2 ^ nat (52 - k)"
    have N: "(of_int N :: rat) = of_nat n * 2 powi (52 - k)"
      using \<open>k < 53\<close> by (simp add: N_def power_int_def)
    have pow: "(2 :: rat) ^ nat k = 2 powi k" using \<open>0 \<le> k\<close> by (simp add: power_int_def)
    have "2 ^ nat k < n" using less 
      unfolding pow[symmetric] of_nat_less_iff[where 'a = rat, symmetric] by simp
    then have "2 powi k + 1 \<le> (of_nat n :: rat)" 
      unfolding pow[symmetric] using of_nat_mono[of "Suc (2 ^ nat k)" n, where 'a = rat] by simp
    moreover have u: "u = of_nat n - of_nat n / 2 ^ 53" by (simp add: u_def right_diff_distrib)
    have "(of_nat n :: rat) / 2 ^ 53 \<le> 1" "0 < (of_nat n :: rat) / 2 ^ 53"
      using big n1 by (simp_all add: divide_le_eq)
    then have "of_nat n - 1 \<le> u" "u < of_nat n" unfolding u by linarith+
    ultimately have "flog2 u = k" using k(2) by (intro flog2_unique) simp_all
    then have e: "ulp_exp u = k - 52" using \<open>0 \<le> k\<close> by (simp add: ulp_exp_def emin_def)
    have sc: "u / 2 powi ulp_exp u = of_int N - of_nat n / 2 powi (k + 1)"
      unfolding e N by (simp add: u_def power_int_diff power_int_add field_simps)
    have half: "1 / 2 < (of_nat n :: rat) / 2 powi (k + 1)" "(of_nat n :: rat) / 2 powi (k + 1) < 1"
      using less k(2) by (simp_all add: power_int_add field_simps)
    have "\<lfloor>u / 2 powi ulp_exp u\<rfloor> = N - 1" using half sc by linarith
    moreover have "u / 2 powi ulp_exp u - of_int (N - 1) < 1 / 2" using half sc by simp
    ultimately have "round_even (u / 2 powi ulp_exp u) = N - 1" by (simp add: round_even_def)
    moreover have "0 < u" using n1 by (simp add: u_def)
    ultimately have "rnd u = of_int (N - 1) * 2 powi (k - 52)" by (simp add: rnd_def rnd_pos_def e)
    also have "\<dots> < of_int N * 2 powi (k - 52)" by simp
    also have "\<dots> = of_nat n" by (simp add: N power_int_diff field_simps)
    finally show ?thesis .
  qed
  with rnd_mono[of q u] assms(1) show ?thesis by (simp add: u_def)
qed

lemma toNumber_mono: "p \<le> q \<Longrightarrow> toNumber p \<le> toNumber q"
  using rnd_mono[of p q] by (auto simp: toNumber_def Let_def)

lemma toNumber_fix: "rnd q = q \<Longrightarrow> \<bar>q\<bar> \<le> max_finite \<Longrightarrow> toNumber q = Num q"
  by (auto simp: toNumber_def Let_def)

lemma toNumber_of_int: "\<bar>n\<bar> \<le> 2 ^ 53 \<Longrightarrow> toNumber (of_int n) = int_number n"
proof -
  assume n: "\<bar>n\<bar> \<le> 2 ^ 53"
  then have "(of_int \<bar>n\<bar> :: rat) \<le> of_int (2 ^ 53)" by (simp only: of_int_le_iff)
  then have "\<bar>of_int n\<bar> \<le> (2 ^ 53 :: rat)" by simp
  with n show ?thesis using max_finite_ge by (intro toNumber_fix rnd_of_int) linarith+
qed

lemma int_number_plus: "\<bar>m + n\<bar> \<le> 2 ^ 53 \<Longrightarrow> int_number m + int_number n = int_number (m + n)"
  using toNumber_of_int[of "m + n"] by simp

lemma nat_number_plus: "m + n \<le> 2 ^ 53 \<Longrightarrow> nat_number m + nat_number n = nat_number (m + n)"
  using int_number_plus[of "int m" "int n"] by simp

lemma int_number_minus: "\<bar>m - n\<bar> \<le> 2 ^ 53 \<Longrightarrow> int_number m - int_number n = int_number (m - n)"
  using int_number_plus[of m "- n"] by (simp add: minus_number_def)

lemma zero_le_Num [simp]: "0 \<le> Num a \<longleftrightarrow> 0 \<le> a"
  by (simp add: zero_number_def)

lemma Num_le_zero [simp]: "Num a \<le> 0 \<longleftrightarrow> a \<le> 0"
  by (simp add: zero_number_def)

lemma number_zero_neq [simp]:
  "NaN \<noteq> 0" "0 \<noteq> NaN" "Infinity \<noteq> 0" "0 \<noteq> Infinity" "NegInfinity \<noteq> 0" "0 \<noteq> NegInfinity"
  "Num a = 0 \<longleftrightarrow> a = 0" "0 = Num a \<longleftrightarrow> a = 0"
  by (auto simp: zero_number_def)

lemma number_one_neq [simp]:
  "NaN \<noteq> 1" "1 \<noteq> NaN" "Infinity \<noteq> 1" "1 \<noteq> Infinity" "NegInfinity \<noteq> 1" "1 \<noteq> NegInfinity"
  "Num a = 1 \<longleftrightarrow> a = 1" "1 = Num a \<longleftrightarrow> a = 1"
  by (auto simp: one_number_def)

lemma number_unit_order [simp]:
  "0 < Num a \<longleftrightarrow> 0 < a" "Num a < 0 \<longleftrightarrow> a < 0" "1 < Num a \<longleftrightarrow> 1 < a" "Num a < 1 \<longleftrightarrow> a < 1"
  "1 \<le> Num a \<longleftrightarrow> 1 \<le> a" "Num a \<le> 1 \<longleftrightarrow> a \<le> 1"
  by (simp_all add: zero_number_def one_number_def)

lemma number_unit_values [simp]:
  "(0 :: number) \<le> 0" "(1 :: number) \<le> 1" "(0 :: number) \<le> 1" "(0 :: number) < 1"
  "\<not> (0 :: number) < 0" "\<not> (1 :: number) < 1" "\<not> (1 :: number) \<le> 0" "\<not> (1 :: number) < 0"
  by (simp_all add: zero_number_def one_number_def)

lemma number_finite_units [simp]: "isFinite 0" "isFinite 1"
  by (simp_all add: zero_number_def one_number_def)

lemma zero_le_toNumber [num_intros]: "0 \<le> q \<Longrightarrow> 0 \<le> toNumber q"
  using toNumber_mono[of 0 q] by simp

lemma plus_nonneg_mono:
  assumes "0 \<le> a" "a \<le> A" "0 \<le> b" "b \<le> B"
  shows "0 \<le> a + b" "a + b \<le> A + (B :: number)"
proof -
  show "0 \<le> a + b" using assms(1,3)
    by (cases a; cases b) (auto simp: zero_number_def intro: zero_le_toNumber[unfolded zero_number_def])
  show "a + b \<le> A + B" using assms
    by (cases a; cases b; cases A; cases B) (auto simp: zero_number_def intro!: toNumber_mono)
qed

lemma times_nonneg_mono:
  assumes "0 \<le> a" "a \<le> Num A" "0 \<le> b" "b \<le> Num B"
  shows "0 \<le> a * b" "a * b \<le> Num A * Num B"
proof -
  obtain a' b' where ab: "a = Num a'" "b = Num b'"
    using assms by (cases a; cases b) (auto simp: zero_number_def)
  with assms have h: "0 \<le> a'" "a' \<le> A" "0 \<le> b'" "b' \<le> B" by auto
  then have "0 \<le> a' * b'" by simp
  then show "0 \<le> a * b" by (auto simp: ab intro: zero_le_toNumber)
  have "a' * b' \<le> A * B" using h by (intro mult_mono) auto
  then show "a * b \<le> Num A * Num B" by (auto simp: ab intro: toNumber_mono)
qed

lemma divide_unit:
  assumes "0 \<le> a" "a \<le> b" "0 < b"
  shows "0 \<le> Num a / Num b" "Num a / Num b \<le> 1"
proof -
  have "0 \<le> a / b" "a / b \<le> 1" using assms by auto
  then have "0 \<le> toNumber (a / b)" "toNumber (a / b) \<le> toNumber (of_int 1)"
    by (auto intro!: toNumber_mono zero_le_toNumber)
  then show "0 \<le> Num a / Num b" "Num a / Num b \<le> 1"
    using assms(3) toNumber_of_int[of 1] by (auto simp: one_number_def)
qed

lemma num_diff_le: "0 \<le> y \<Longrightarrow> isFinite y \<Longrightarrow> rnd q = q \<Longrightarrow> \<bar>q\<bar> \<le> max_finite \<Longrightarrow> Num q - y \<le> Num q"
proof -
  assume h: "0 \<le> y" "isFinite y" "rnd q = q" "\<bar>q\<bar> \<le> max_finite"
  then obtain c where y: "y = Num c" "0 \<le> c" by auto
  then have "toNumber (q - c) \<le> toNumber q" by (intro toNumber_mono) simp
  then show ?thesis using toNumber_fix[OF h(3,4)] by (simp add: y minus_number_def)
qed

section \<open>Minimum, maximum, clamping\<close>

lemma math_max_Num [simp]: "math_max (Num a) (Num b) = Num (max a b)"
  by (simp add: math_max_def max_def)

lemma math_min_Num [simp]: "math_min (Num a) (Num b) = Num (min a b)"
  by (simp add: math_min_def min_def)

lemma math_max_ge: "x \<noteq> NaN \<Longrightarrow> y \<noteq> NaN \<Longrightarrow> x \<le> math_max x y \<and> y \<le> math_max x y"
  by (auto simp: math_max_def number_not_less number_le_refl number_less_imp_le)

lemma math_min_le: "x \<noteq> NaN \<Longrightarrow> y \<noteq> NaN \<Longrightarrow> math_min x y \<le> x \<and> math_min x y \<le> y"
  by (auto simp: math_min_def number_not_less number_le_refl number_less_imp_le)

lemma math_max_finite [simp]: "isFinite x \<Longrightarrow> isFinite y \<Longrightarrow> isFinite (math_max x y)"
  by (auto simp: math_max_def)

lemma math_min_finite [simp]: "isFinite x \<Longrightarrow> isFinite y \<Longrightarrow> isFinite (math_min x y)"
  by (auto simp: math_min_def)

definition clamp :: "number \<Rightarrow> number \<Rightarrow> number \<Rightarrow> number" where
  "clamp v minimum maximum = math_min maximum (math_max minimum v)"

lemma clamp_bounds:
  "v \<noteq> NaN \<Longrightarrow> lo \<le> hi \<Longrightarrow> lo \<le> clamp v lo hi \<and> clamp v lo hi \<le> hi"
  by (cases "lo = NaN"; cases "hi = NaN")
    (auto simp: clamp_def math_max_def math_min_def number_not_less number_le_refl
      number_less_imp_le split: if_splits intro: number_le_trans)

lemma clamp_id: "lo \<le> v \<Longrightarrow> v \<le> hi \<Longrightarrow> clamp v lo hi = v"
  by (cases v; cases lo; cases hi)
    (auto simp: clamp_def math_max_def math_min_def)

text \<open>\<^verbatim>\<open>Math.min(1, Math.max(0, value))\<close>\<close>

lemma clamp_unit: "v \<noteq> NaN \<Longrightarrow> 0 \<le> clamp v 0 1 \<and> clamp v 0 1 \<le> 1"
  by (rule clamp_bounds) (simp_all add: zero_number_def one_number_def)

section \<open>Comparing by the sign of a difference\<close>

fun grid_number :: "number \<Rightarrow> bool" where
  "grid_number (Num q) = on_grid q"
| "grid_number _ = False"

lemma grid_toNumber: "isFinite (toNumber q) \<Longrightarrow> grid_number (toNumber q)"
  by (auto simp: toNumber_def Let_def on_grid_rnd split: if_splits)

lemma diff_sign:
  assumes "grid_number x" "grid_number y"
  shows "x - y > 0 \<longleftrightarrow> x > y" and "x - y < 0 \<longleftrightarrow> x < y" and "truthy (x - y) \<longleftrightarrow> x \<noteq> y"
proof -
  obtain a b where xy: "x = Num a" "y = Num b" and g: "on_grid a" "on_grid b"
    using assms by (cases x; cases y) auto
  have eq: "x - y = toNumber (a - b)" by (simp add: xy minus_number_def)
  have pos: "0 < toNumber q" if "0 < rnd q" for q
    using that max_finite_ge by (auto simp: toNumber_def Let_def zero_number_def)
  have neg: "toNumber q < 0" if "rnd q < 0" for q
    using that max_finite_ge by (auto simp: toNumber_def Let_def zero_number_def)
  define d where "d = toNumber (a - b)"
  consider "a < b" | "a = b" | "b < a" by linarith
  then have "(d > 0 \<longleftrightarrow> x > y) \<and> (d < 0 \<longleftrightarrow> x < y) \<and> (truthy d \<longleftrightarrow> x \<noteq> y)"
  proof cases
    case 1
    from rnd_diff_pos[OF g 1] have "rnd (a - b) < 0" using rnd_minus[of "b - a"] by simp
    from neg[OF this] 1 show ?thesis unfolding d_def[symmetric] xy
      by (cases d) (auto simp: truthy_def zero_number_def)
  next
    case 2
    then show ?thesis by (simp add: d_def xy truthy_def)
  next
    case 3
    from pos[OF rnd_diff_pos[OF g(2,1) 3]] 3 show ?thesis unfolding d_def[symmetric] xy
      by (cases d) (auto simp: truthy_def zero_number_def)
  qed
  then show "x - y > 0 \<longleftrightarrow> x > y" and "x - y < 0 \<longleftrightarrow> x < y" and "truthy (x - y) \<longleftrightarrow> x \<noteq> y"
    by (auto simp: eq d_def)
qed

text \<open>Values of JavaScript are already rounded: a representable slack is a fixpoint of rounding.\<close>

definition representable :: "number \<Rightarrow> bool" where
  "representable x = (case x of Num q \<Rightarrow> rnd q = q \<and> \<bar>q\<bar> \<le> max_finite | _ \<Rightarrow> True)"

lemma toNumber_representable: "representable (toNumber q)"
  unfolding representable_def toNumber_def Let_def by (simp add: rnd_idem abs_le_iff)

lemma minus_le_self:
  assumes "representable x" "isFinite x" "0 \<le> y" "isFinite y"
  shows "x - y \<le> x" "representable (x - y)"
proof -
  obtain p q where pq: "x = Num p" "y = Num q" using assms(2,4) by (auto simp: isFinite_iff)
  have eq: "x - y = toNumber (p - q)" by (simp add: pq minus_number_def)
  have "toNumber (p - q) \<le> toNumber p" using assms pq by (intro toNumber_mono) simp
  moreover have "toNumber p = x"
    using assms(1) by (simp add: pq representable_def toNumber_fix)
  ultimately show "x - y \<le> x" by (simp add: eq)
  show "representable (x - y)" by (simp add: eq toNumber_representable)
qed

lemma representable_plus: "representable (x + y)"
  by (cases x; cases y) (simp_all add: toNumber_representable, simp_all add: representable_def)

lemma representable_int: "\<bar>n\<bar> \<le> 2 ^ 53 \<Longrightarrow> representable (int_number n)"
  using toNumber_representable[of "of_int n"] by (simp add: toNumber_of_int)

lemma minus_nonneg:
  assumes "isFinite x" "0 \<le> y" "\<not> y > x" "y \<noteq> NaN"
  shows "0 \<le> x - y"
proof -
  obtain p q where pq: "x = Num p" "y = Num q" "q \<le> p"
    using assms by (cases x; cases y) auto
  then show ?thesis by (simp add: minus_number_def zero_le_toNumber)
qed

section \<open>Exponential moving averages\<close>

text \<open>
  \<^verbatim>\<open>alpha * observed + (1 - alpha) * previous\<close> with \<^verbatim>\<open>alpha = 0.3\<close>: the two rounded weights
  add up to 1, so an average of values in \<open>[0, 2 ^ k]\<close> stays there in spite of rounding.
\<close>

definition ema_weight :: number where
  "ema_weight = lit (3 / 10)"

lemma ema_weight_eq: "ema_weight = Num (5404319552844595 / 2 ^ 54)"
  by code_simp

lemma ema_rest_eq: "1 - ema_weight = Num (6305039478318694 / 2 ^ 53)"
  by code_simp

definition exponentialMovingAverage :: "number \<Rightarrow> number \<Rightarrow> number" where
  "exponentialMovingAverage previous observed = ema_weight * observed + (1 - ema_weight) * previous"

text \<open>The magnitude up to which averages of latencies and bandwidths are followed.\<close>

definition metric_bound :: rat where
  "metric_bound = 2 ^ 900"

lemma toNumber_scaled:
  assumes "\<bar>m\<bar> \<le> 2 ^ 53" "- 1000 \<le> e" "e \<le> 900"
  shows "toNumber (of_int m * 2 powi e) = Num (of_int m * 2 powi e)"
proof (rule toNumber_fix)
  show "rnd (of_int m * 2 powi e) = of_int m * 2 powi e"
    using assms by (intro rnd_fix) (auto simp: emin_def)
  have "(of_int \<bar>m\<bar> :: rat) \<le> of_int (2 ^ 53)" using assms(1) by (simp only: of_int_le_iff)
  then have m: "\<bar>of_int m\<bar> \<le> (2 ^ 53 :: rat)" by simp
  have "\<bar>of_int m * 2 powi e\<bar> = \<bar>of_int m\<bar> * (2 powi e :: rat)" by (simp add: abs_mult)
  also have "\<dots> \<le> 2 ^ 53 * 2 powi 900"
    by (rule mult_mono[OF m pow2_le_iff[THEN iffD2, OF assms(3)]]) simp_all
  also have "\<dots> \<le> max_finite" by (simp add: max_finite_def)
  finally show "\<bar>of_int m * 2 powi e\<bar> \<le> max_finite" .
qed

lemma ema_sum_bound:
  assumes "k \<le> 900"
  shows "ema_weight * Num (2 ^ k) + (1 - ema_weight) * Num (2 ^ k) \<le> Num (2 ^ k)"
proof -
  have pow: "(2::rat) powi (int k - n) = 2 ^ k / 2 powi n" for n by (simp add: power_int_diff)
  have "toNumber (of_int 5404319552844595 * 2 powi (int k - 54)) =
      Num (of_int 5404319552844595 * 2 powi (int k - 54))"
    using assms by (intro toNumber_scaled) auto
  then have a: "ema_weight * Num (2 ^ k) = Num (5404319552844595 / 2 ^ 54 * 2 ^ k)"
    by (simp add: ema_weight_eq pow)
  have "toNumber (of_int 6305039478318694 * 2 powi (int k - 53)) =
      Num (of_int 6305039478318694 * 2 powi (int k - 53))"
    using assms by (intro toNumber_scaled) auto
  then have b: "(1 - ema_weight) * Num (2 ^ k) = Num (6305039478318694 / 2 ^ 53 * 2 ^ k)"
    by (simp add: ema_rest_eq pow)
  have "5404319552844595 / 2 ^ 54 * 2 ^ k + 6305039478318694 / 2 ^ 53 * 2 ^ k \<le> (2 ^ k :: rat)"
    by (simp add: field_simps)
  from toNumber_mono[OF this] have
    "toNumber (5404319552844595 / 2 ^ 54 * 2 ^ k + 6305039478318694 / 2 ^ 53 * 2 ^ k) \<le> toNumber (2 ^ k)" .
  moreover have "toNumber (2 ^ k) = Num (2 ^ k)"
    using toNumber_scaled[of 1 "int k"] assms by simp
  ultimately show ?thesis unfolding a b by simp
qed

lemma ema_bounds [num_intros]:
  assumes "k \<le> 900" "0 \<le> p" "p \<le> Num (2 ^ k)" "0 \<le> v" "v \<le> Num (2 ^ k)"
  shows "0 \<le> exponentialMovingAverage p v" "exponentialMovingAverage p v \<le> Num (2 ^ k)"
proof -
  have w: "0 \<le> ema_weight" "ema_weight \<le> Num (5404319552844595 / 2 ^ 54)"
    unfolding ema_weight_eq by simp_all
  have r: "0 \<le> 1 - ema_weight" "1 - ema_weight \<le> Num (6305039478318694 / 2 ^ 53)"
    unfolding ema_rest_eq by simp_all
  have "0 \<le> ema_weight * v" "ema_weight * v \<le> ema_weight * Num (2 ^ k)"
    using times_nonneg_mono[OF w assms(4,5)] by (simp_all only: ema_weight_eq)
  moreover have "0 \<le> (1 - ema_weight) * p" "(1 - ema_weight) * p \<le> (1 - ema_weight) * Num (2 ^ k)"
    using times_nonneg_mono[OF r assms(2,3)] by (simp_all only: ema_rest_eq)
  ultimately have "0 \<le> ema_weight * v + (1 - ema_weight) * p"
    "ema_weight * v + (1 - ema_weight) * p \<le> ema_weight * Num (2 ^ k) + (1 - ema_weight) * Num (2 ^ k)"
    by (auto intro: plus_nonneg_mono)
  then show "0 \<le> exponentialMovingAverage p v" "exponentialMovingAverage p v \<le> Num (2 ^ k)"
    using ema_sum_bound[OF assms(1)] unfolding exponentialMovingAverage_def
    by (auto intro: number_le_trans)
qed

lemma ema_unit:
  assumes "0 \<le> p" "p \<le> 1" "0 \<le> v" "v \<le> 1"
  shows "0 \<le> exponentialMovingAverage p v" "exponentialMovingAverage p v \<le> 1"
  using ema_bounds[of 0 p v] assms by (auto simp: one_number_def)

lemma ema_metric:
  assumes "0 \<le> p" "p \<le> Num metric_bound" "0 \<le> v" "v \<le> Num metric_bound"
  shows "0 \<le> exponentialMovingAverage p v" "exponentialMovingAverage p v \<le> Num metric_bound"
  using ema_bounds[of 900 p v] assms by (auto simp: metric_bound_def)

end
