(* ===== verification/JsValue.thy ===== *)
theory JsValue
  imports JsNumber "HOL-Library.Sublist" "HOL-Library.Char_ord"
begin

text \<open>
  Untyped ECMAScript values (what \<^verbatim>\<open>JSON.parse\<close> returns and \<^verbatim>\<open>unknown\<close> parameters hold) and
  the string operations the code uses. Strings are lists of 8-bit code units; the modelled
  code only compares, splits, trims and measures them.
\<close>

section \<open>Values\<close>

datatype jsval =
    Undefined
  | Null
  | Boolean bool
  | Number number
  | Str string
  | Array "jsval list"
  | Object "(string \<times> jsval) list"

text \<open>\<^verbatim>\<open>value !== null && typeof value === "object" && !Array.isArray(value)\<close>\<close>

fun isRecord :: "jsval \<Rightarrow> bool" where
  "isRecord (Object ps) = True"
| "isRecord _ = False"

text \<open>Reading a property of a record; a missing one is \<^verbatim>\<open>undefined\<close>.\<close>

fun get_prop :: "jsval \<Rightarrow> string \<Rightarrow> jsval" where
  "get_prop (Object ps) k = (case map_of ps k of None \<Rightarrow> Undefined | Some v \<Rightarrow> v)"
| "get_prop _ k = Undefined"

fun is_string :: "jsval \<Rightarrow> bool" where
  "is_string (Str s) = True"
| "is_string _ = False"

fun to_string :: "jsval \<Rightarrow> string option" where
  "to_string (Str s) = Some s"
| "to_string _ = None"

fun is_array :: "jsval \<Rightarrow> bool" where
  "is_array (Array vs) = True"
| "is_array _ = False"

text \<open>\<^verbatim>\<open>typeof v === "number" && Number.isFinite(v)\<close>\<close>

fun is_finite_number :: "jsval \<Rightarrow> bool" where
  "is_finite_number (Number x) = isFinite x"
| "is_finite_number _ = False"

fun opt_value :: "('a \<Rightarrow> jsval) \<Rightarrow> 'a option \<Rightarrow> jsval" where
  "opt_value f None = Undefined"
| "opt_value f (Some x) = f x"

lemma opt_value_Undefined [simp]:
  "(\<And>x. f x \<noteq> Undefined) \<Longrightarrow> opt_value f v = Undefined \<longleftrightarrow> v = None"
  by (cases v) auto

lemma is_string_iff: "is_string v \<longleftrightarrow> (\<exists>s. v = Str s)"
  by (cases v) auto

lemma is_finite_number_iff: "is_finite_number v \<longleftrightarrow> (\<exists>x. v = Number x \<and> isFinite x)"
  by (cases v) auto

section \<open>Strings\<close>

text \<open>\<^verbatim>\<open>s.split(sep)\<close> for a one-character separator: never empty.\<close>

fun js_split :: "char \<Rightarrow> string \<Rightarrow> string list" where
  "js_split c [] = [[]]"
| "js_split c (x # xs) =
     (if x = c then [] # js_split c xs
      else (case js_split c xs of [] \<Rightarrow> [[x]] | p # ps \<Rightarrow> (x # p) # ps))"

fun js_join :: "string \<Rightarrow> string list \<Rightarrow> string" where
  "js_join sep [] = []"
| "js_join sep [x] = x"
| "js_join sep (x # y # ys) = x @ sep @ js_join sep (y # ys)"

text \<open>White space and line terminators among the 8-bit code units (of \<^verbatim>\<open>trim\<close> and of white-space classes).\<close>

definition is_space :: "char \<Rightarrow> bool" where
  "is_space c \<longleftrightarrow> (of_char c :: nat) \<in> {9, 10, 11, 12, 13, 32, 160}"

definition js_trim :: "string \<Rightarrow> string" where
  "js_trim s = rev (dropWhile is_space (rev (dropWhile is_space s)))"

definition starts_with :: "string \<Rightarrow> string \<Rightarrow> bool" where
  "starts_with s p \<longleftrightarrow> prefix p s"

definition ends_with :: "string \<Rightarrow> string \<Rightarrow> bool" where
  "ends_with s p \<longleftrightarrow> suffix p s"

definition is_digit :: "char \<Rightarrow> bool" where
  "is_digit c \<longleftrightarrow> CHR ''0'' \<le> c \<and> c \<le> CHR ''9''"

definition is_hex_lower :: "char \<Rightarrow> bool" where
  "is_hex_lower c \<longleftrightarrow> is_digit c \<or> (CHR ''a'' \<le> c \<and> c \<le> CHR ''f'')"

definition is_alnum :: "char \<Rightarrow> bool" where
  "is_alnum c \<longleftrightarrow> is_digit c \<or> (CHR ''A'' \<le> c \<and> c \<le> CHR ''Z'') \<or> (CHR ''a'' \<le> c \<and> c \<le> CHR ''z'')"

text \<open>\<^verbatim>\<open>xs.at(-n)\<close> for a positive \<open>n\<close>.\<close>

definition at_end :: "'a list \<Rightarrow> nat \<Rightarrow> 'a option" where
  "at_end xs n = (if n \<le> length xs \<and> 0 < n then Some (xs ! (length xs - n)) else None)"

lemma js_split_nonempty [simp]: "js_split c s \<noteq> []"
  by (induction s) (auto split: list.splits)

lemma js_split_no_sep: "c \<notin> set s \<Longrightarrow> js_split c s = [s]"
  by (induction s) auto

lemma js_split_append: "c \<notin> set s \<Longrightarrow> js_split c (s @ c # t) = s # js_split c t"
  by (induction s) auto

lemma js_split_parts: "p \<in> set (js_split c s) \<Longrightarrow> c \<notin> set p"
  by (induction s arbitrary: p) (auto split: if_splits list.splits)

lemma js_join_split: "js_join [c] (js_split c s) = s"
proof (induction s)
  case (Cons x s)
  obtain p ps where sp: "js_split c s = p # ps" by (cases "js_split c s") auto
  have "js_join [c] ((x # p) # ps) = x # js_join [c] (p # ps)" by (cases ps) auto
  with Cons sp show ?case by (cases ps) auto
qed simp

lemma js_split_join:
  "ps \<noteq> [] \<Longrightarrow> \<forall>p\<in>set ps. c \<notin> set p \<Longrightarrow> js_split c (js_join [c] ps) = ps"
  by (induction "[c]" ps rule: js_join.induct) (auto simp: js_split_no_sep js_split_append)

lemma at_end_in_set: "at_end xs n = Some x \<Longrightarrow> x \<in> set xs"
  by (auto simp: at_end_def split: if_splits)

end
