(* ===== verification/Common.thy ===== *)
theory Common
  imports JsValue
begin

text \<open>
  The shared package (\<^verbatim>\<open>common/src/index.ts\<close>): the records exchanged by tracker, peers and
  SDK, the traffic counters and their validation, media segment names, rendition
  directories, reconnect jitter and the check of peer base URLs.
\<close>

section \<open>Decimal and hexadecimal digits\<close>

definition digit_char :: "nat \<Rightarrow> char" where
  "digit_char d = char_of (48 + d)"

fun nat_string :: "nat \<Rightarrow> string" where
  "nat_string n = (if n < 10 then [digit_char n] else nat_string (n div 10) @ [digit_char (n mod 10)])"

declare nat_string.simps [simp del]

definition hex_value :: "char \<Rightarrow> nat" where
  "hex_value c = (if is_digit c then of_char c - 48 else of_char c - 87)"

definition parse_hex :: "string \<Rightarrow> nat" where
  "parse_hex s = fold (\<lambda>c n. 16 * n + hex_value c) s 0"

definition to_lower :: "string \<Rightarrow> string" where
  "to_lower s = map (\<lambda>c. if CHR ''A'' \<le> c \<and> c \<le> CHR ''Z'' then char_of (of_char c + 32 :: nat) else c) s"

section \<open>Peer base URLs\<close>

text \<open>
  The parsed URL: the fields of \<^verbatim>\<open>URL\<close> the code reads. Parsing itself (\<^verbatim>\<open>new URL\<close>, which throws
  on an invalid address) is the parameter \<open>parse_url\<close>.
\<close>

record url =
  protocol :: string
  username :: string
  password :: string
  hostname :: string
  pathname :: string
  search :: string
  url_hash :: string

datatype peer_url_error =
    InvalidUrl
  | NotHttp
  | HasCredentials
  | ReservedEndpoint
  | HasQueryOrFragment

definition UNSAFE_PEER_HOSTNAMES :: "string list" where
  "UNSAFE_PEER_HOSTNAMES =
     [''0.0.0.0'', ''::'', ''::1'', ''localhost'', ''metadata.google.internal'']"

definition hex_group :: "string \<Rightarrow> bool" where
  "hex_group s \<longleftrightarrow> 1 \<le> length s \<and> length s \<le> 4 \<and> list_all is_hex_lower s"

definition mappedIpv4 :: "string \<Rightarrow> string option" where
  "mappedIpv4 h =
     (if starts_with h ''::ffff:'' then
        (case js_split CHR '':'' (drop 7 h) of
           [a, b] \<Rightarrow>
             (if hex_group a \<and> hex_group b then
                (let high = parse_hex a; low = parse_hex b in
                 Some (js_join ''.'' (map nat_string [high div 256, high mod 256, low div 256, low mod 256])))
              else None)
         | _ \<Rightarrow> None)
      else None)"

text \<open>\<^verbatim>\<open>.replace(/^\[|\]$/g, "")\<close>\<close>

definition strip_brackets :: "string \<Rightarrow> string" where
  "strip_brackets s =
     (let t = (case s of c # cs \<Rightarrow> if c = CHR ''['' then cs else s | [] \<Rightarrow> [])
      in if t \<noteq> [] \<and> last t = CHR '']'' then butlast t else t)"

text \<open>\<^verbatim>\<open>/^fe[89ab][0-9a-f]:/\<close>, the IPv6 link-local prefix.\<close>

definition link_local :: "string \<Rightarrow> bool" where
  "link_local h \<longleftrightarrow> starts_with h ''fe'' \<and>
     (case drop 2 h of
        a # b # c # _ \<Rightarrow> a \<in> set ''89ab'' \<and> is_hex_lower b \<and> c = CHR '':''
      | _ \<Rightarrow> False)"

definition reserved_hostname :: "string \<Rightarrow> bool" where
  "reserved_hostname h \<longleftrightarrow>
     h \<in> set UNSAFE_PEER_HOSTNAMES \<or> ends_with h ''.localhost'' \<or>
     starts_with h ''127.'' \<or> starts_with h ''169.254.'' \<or> link_local h"

definition effective_hostname :: "url \<Rightarrow> string" where
  "effective_hostname u =
     (let literal = strip_brackets (to_lower (hostname u)) in
      case mappedIpv4 literal of None \<Rightarrow> literal | Some h \<Rightarrow> h)"

definition validatePeerHttpBaseUrl ::
    "(string \<Rightarrow> url option) \<Rightarrow> string \<Rightarrow> (peer_url_error, url) result" where
  "validatePeerHttpBaseUrl parse_url address =
     (case parse_url address of
        None \<Rightarrow> throw InvalidUrl
      | Some u \<Rightarrow>
          if protocol u \<noteq> ''http:'' \<and> protocol u \<noteq> ''https:'' then throw NotHttp
          else if username u \<noteq> [] \<or> password u \<noteq> [] then throw HasCredentials
          else if reserved_hostname (effective_hostname u) then throw ReservedEndpoint
          else if search u \<noteq> [] \<or> url_hash u \<noteq> [] then throw HasQueryOrFragment
          else return u)"

section \<open>Broadcasts and peers\<close>

type_synonym metadata = "(string, string) jsmap"

record BroadcastRegistration =
  reg_id :: string
  reg_playlistUrl :: string
  reg_metadata :: "metadata option"

text \<open>Timestamps are \<^verbatim>\<open>Date.toISOString()\<close> texts of a millisecond clock; the model keeps the
  milliseconds.\<close>

record Broadcast =
  bc_id :: string
  bc_playlistUrl :: string
  bc_metadata :: "metadata option"
  bc_createdAt :: int
  bc_updatedAt :: int

record PeerJoinRequest =
  join_id :: string
  join_address :: string
  join_uploadBandwidthBps :: "number option"
  join_metadata :: "metadata option"

record PeerHeartbeat =
  hb_latencyMs :: "number option"
  hb_uploadBandwidthBps :: "number option"
  hb_successRate :: "number option"

record Peer =
  peer_id :: string
  peer_address :: string
  peer_uploadBandwidthBps :: "number option"
  peer_metadata :: "metadata option"
  peer_segments :: "string list"
  peer_joinedAt :: int
  peer_lastSeenAt :: int
  peer_latencyMs :: number
  peer_successRate :: number
  peer_trustScore :: number

datatype failure_reason = ConnectionFailure | TimeoutFailure | IntegrityFailure | HttpFailure

record PeerFailureReport =
  reporterId :: string
  failure_reason :: failure_reason

section \<open>Traffic counters\<close>

record PeerTrafficStats =
  bytesDownloadedP2P :: number
  bytesDownloadedOrigin :: number
  bytesUploadedP2P :: number
  p2pRequests :: number
  p2pSuccesses :: number
  p2pFailures :: number
  originRequests :: number
  integrityFailures :: number
  fallbacks :: number
  segmentsCached :: number

datatype stat_key =
    BytesDownloadedP2P | BytesDownloadedOrigin | BytesUploadedP2P | P2pRequests | P2pSuccesses
  | P2pFailures | OriginRequests | IntegrityFailures | Fallbacks | SegmentsCached

definition peerTrafficStatKeys :: "stat_key list" where
  "peerTrafficStatKeys =
     [BytesDownloadedP2P, BytesDownloadedOrigin, BytesUploadedP2P, P2pRequests, P2pSuccesses,
      P2pFailures, OriginRequests, IntegrityFailures, Fallbacks, SegmentsCached]"

fun stat_name :: "stat_key \<Rightarrow> string" where
  "stat_name BytesDownloadedP2P = ''bytesDownloadedP2P''"
| "stat_name BytesDownloadedOrigin = ''bytesDownloadedOrigin''"
| "stat_name BytesUploadedP2P = ''bytesUploadedP2P''"
| "stat_name P2pRequests = ''p2pRequests''"
| "stat_name P2pSuccesses = ''p2pSuccesses''"
| "stat_name P2pFailures = ''p2pFailures''"
| "stat_name OriginRequests = ''originRequests''"
| "stat_name IntegrityFailures = ''integrityFailures''"
| "stat_name Fallbacks = ''fallbacks''"
| "stat_name SegmentsCached = ''segmentsCached''"

text \<open>\<^verbatim>\<open>stats[key]\<close> and \<^verbatim>\<open>stats[key] = value\<close>.\<close>

fun stat_get :: "stat_key \<Rightarrow> PeerTrafficStats \<Rightarrow> number" where
  "stat_get BytesDownloadedP2P s = bytesDownloadedP2P s"
| "stat_get BytesDownloadedOrigin s = bytesDownloadedOrigin s"
| "stat_get BytesUploadedP2P s = bytesUploadedP2P s"
| "stat_get P2pRequests s = p2pRequests s"
| "stat_get P2pSuccesses s = p2pSuccesses s"
| "stat_get P2pFailures s = p2pFailures s"
| "stat_get OriginRequests s = originRequests s"
| "stat_get IntegrityFailures s = integrityFailures s"
| "stat_get Fallbacks s = fallbacks s"
| "stat_get SegmentsCached s = segmentsCached s"

fun stat_set :: "stat_key \<Rightarrow> number \<Rightarrow> PeerTrafficStats \<Rightarrow> PeerTrafficStats" where
  "stat_set BytesDownloadedP2P v s = s\<lparr>bytesDownloadedP2P := v\<rparr>"
| "stat_set BytesDownloadedOrigin v s = s\<lparr>bytesDownloadedOrigin := v\<rparr>"
| "stat_set BytesUploadedP2P v s = s\<lparr>bytesUploadedP2P := v\<rparr>"
| "stat_set P2pRequests v s = s\<lparr>p2pRequests := v\<rparr>"
| "stat_set P2pSuccesses v s = s\<lparr>p2pSuccesses := v\<rparr>"
| "stat_set P2pFailures v s = s\<lparr>p2pFailures := v\<rparr>"
| "stat_set OriginRequests v s = s\<lparr>originRequests := v\<rparr>"
| "stat_set IntegrityFailures v s = s\<lparr>integrityFailures := v\<rparr>"
| "stat_set Fallbacks v s = s\<lparr>fallbacks := v\<rparr>"
| "stat_set SegmentsCached v s = s\<lparr>segmentsCached := v\<rparr>"

definition createEmptyPeerTrafficStats :: PeerTrafficStats where
  "createEmptyPeerTrafficStats =
     \<lparr>bytesDownloadedP2P = 0, bytesDownloadedOrigin = 0, bytesUploadedP2P = 0, p2pRequests = 0,
      p2pSuccesses = 0, p2pFailures = 0, originRequests = 0, integrityFailures = 0,
      fallbacks = 0, segmentsCached = 0\<rparr>"

definition addPeerTrafficStats :: "PeerTrafficStats \<Rightarrow> PeerTrafficStats \<Rightarrow> PeerTrafficStats" where
  "addPeerTrafficStats target source =
     fold (\<lambda>key t. stat_set key (stat_get key t + stat_get key source) t) peerTrafficStatKeys target"

datatype stats_error = StatsNotObject | StatInvalid stat_key

fun parse_stats_loop ::
    "jsval \<Rightarrow> stat_key list \<Rightarrow> PeerTrafficStats \<Rightarrow> (stats_error, PeerTrafficStats) result" where
  "parse_stats_loop rec [] stats = return stats"
| "parse_stats_loop rec (key # keys) stats =
     (case get_prop rec (stat_name key) of
        Number metric \<Rightarrow>
          if \<not> isFinite metric \<or> metric < 0 then throw (StatInvalid key)
          else parse_stats_loop rec keys (stat_set key metric stats)
      | _ \<Rightarrow> throw (StatInvalid key))"

definition parsePeerTrafficStats :: "jsval \<Rightarrow> (stats_error, PeerTrafficStats) result" where
  "parsePeerTrafficStats v =
     (if \<not> isRecord v then throw StatsNotObject
      else parse_stats_loop v peerTrafficStatKeys createEmptyPeerTrafficStats)"

record TrafficTotals = PeerTrafficStats +
  total_peers :: nat

section \<open>Media segments, renditions, jitter\<close>

definition media_segment_extension :: "string \<Rightarrow> bool" where
  "media_segment_extension v \<longleftrightarrow> ends_with v ''.ts'' \<or> ends_with v ''.m4s''"

definition file_name_char :: "char \<Rightarrow> bool" where
  "file_name_char c \<longleftrightarrow> is_alnum c \<or> c \<in> set ''-_.''"

definition isMediaSegmentPath :: "string \<Rightarrow> bool" where
  "isMediaSegmentPath v \<longleftrightarrow>
     v \<noteq> [] \<and> list_all (\<lambda>c. file_name_char c \<or> c = CHR ''/'') v \<and> media_segment_extension v"

definition isMediaSegmentFileName :: "string \<Rightarrow> bool" where
  "isMediaSegmentFileName v \<longleftrightarrow>
     v \<noteq> [] \<and> list_all file_name_char v \<and> media_segment_extension v"

definition renditionDirectory :: "string \<Rightarrow> string option" where
  "renditionDirectory path = at_end (filter (\<lambda>part. part \<noteq> []) (js_split CHR ''/'' path)) 2"

definition jitteredDelay :: "number \<Rightarrow> number \<Rightarrow> number" where
  "jitteredDelay delayMs random = delayMs / Num 2 + random * (delayMs / Num 2)"

section \<open>Laws of the traffic counters\<close>

lemma set_stat_keys [simp]: "set peerTrafficStatKeys = UNIV"
  by (auto simp: peerTrafficStatKeys_def intro: stat_key.exhaust)

lemma distinct_stat_keys [simp]: "distinct peerTrafficStatKeys"
  by (simp add: peerTrafficStatKeys_def)

lemma stat_get_set [simp, js_simps]: "stat_get k (stat_set k' v s) = (if k = k' then v else stat_get k s)"
  by (cases k'; cases k) simp_all

lemma stat_get_empty [simp, js_simps]: "stat_get k createEmptyPeerTrafficStats = 0"
  by (cases k) (simp_all add: createEmptyPeerTrafficStats_def)

lemma stats_eqI: "(\<And>k. stat_get k a = stat_get k b) \<Longrightarrow> a = (b :: PeerTrafficStats)"
  by (metis PeerTrafficStats.equality old.unit.exhaust stat_get.simps)

lemma stat_get_fold_set:
  "distinct keys \<Longrightarrow>
     stat_get k (fold (\<lambda>key t. stat_set key (f key (stat_get key t)) t) keys t) =
     (if k \<in> set keys then f k (stat_get k t) else stat_get k t)"
  by (induction keys arbitrary: t) auto

lemma stat_get_add [simp, js_simps]:
  "stat_get k (addPeerTrafficStats t s) = stat_get k t + stat_get k s"
  unfolding addPeerTrafficStats_def
  using stat_get_fold_set[of peerTrafficStatKeys k "\<lambda>key v. v + stat_get key s" t] by simp

text \<open>Counters that are whole numbers, as sanitised reports are, add up exactly.\<close>

definition nat_stats :: "(stat_key \<Rightarrow> nat) \<Rightarrow> PeerTrafficStats" where
  "nat_stats c =
     \<lparr>bytesDownloadedP2P = nat_number (c BytesDownloadedP2P),
      bytesDownloadedOrigin = nat_number (c BytesDownloadedOrigin),
      bytesUploadedP2P = nat_number (c BytesUploadedP2P),
      p2pRequests = nat_number (c P2pRequests), p2pSuccesses = nat_number (c P2pSuccesses),
      p2pFailures = nat_number (c P2pFailures), originRequests = nat_number (c OriginRequests),
      integrityFailures = nat_number (c IntegrityFailures), fallbacks = nat_number (c Fallbacks),
      segmentsCached = nat_number (c SegmentsCached)\<rparr>"

lemma stat_get_nat [simp]: "stat_get k (nat_stats c) = nat_number (c k)"
  by (cases k) (simp_all add: nat_stats_def)

lemma nat_stats_zero: "nat_stats (\<lambda>_. 0) = createEmptyPeerTrafficStats"
  by (rule stats_eqI) (simp add: zero_number_def)

lemma add_nat_stats:
  "(\<And>k. c k + d k \<le> 2 ^ 53) \<Longrightarrow>
     addPeerTrafficStats (nat_stats c) (nat_stats d) = nat_stats (\<lambda>k. c k + d k)"
  by (rule stats_eqI) (simp only: stat_get_add stat_get_nat nat_number_plus)

lemma nat_stats_inject: "nat_stats c = nat_stats d \<longleftrightarrow> c = d"
proof
  assume eq: "nat_stats c = nat_stats d"
  show "c = d"
  proof
    fix k
    from eq have "stat_get k (nat_stats c) = stat_get k (nat_stats d)" by simp
    then show "c k = d k" by simp
  qed
qed simp

section \<open>Validation of reported counters\<close>

definition stats_value :: "PeerTrafficStats \<Rightarrow> jsval" where
  "stats_value s = Object (map (\<lambda>k. (stat_name k, Number (stat_get k s))) peerTrafficStatKeys)"

definition valid_stat :: "number \<Rightarrow> bool" where
  "valid_stat x \<longleftrightarrow> isFinite x \<and> 0 \<le> x"

lemma stat_name_inject [simp]: "stat_name k = stat_name k' \<longleftrightarrow> k = k'"
  by (cases k; cases k') simp_all

lemma get_stats_value [simp]: "get_prop (stats_value s) (stat_name k) = Number (stat_get k s)"
  by (cases k) (simp_all add: stats_value_def peerTrafficStatKeys_def)

lemma valid_stat_iff: "valid_stat x \<longleftrightarrow> \<not> (\<not> isFinite x \<or> x < 0)"
  by (cases x) (auto simp: valid_stat_def zero_number_def)

lemma parse_loop_ok:
  "distinct keys \<Longrightarrow> parse_stats_loop v keys stats = return r \<Longrightarrow>
     (\<forall>k\<in>set keys. get_prop v (stat_name k) = Number (stat_get k r) \<and> valid_stat (stat_get k r)) \<and>
     (\<forall>k. k \<notin> set keys \<longrightarrow> stat_get k r = stat_get k stats)"
  by (induction v keys stats rule: parse_stats_loop.induct)
    (auto simp: valid_stat_iff split: jsval.splits if_splits)

lemma parse_loop_value:
  "(\<And>k. k \<in> set keys \<Longrightarrow> valid_stat (stat_get k s)) \<Longrightarrow>
     \<exists>r. parse_stats_loop (stats_value s) keys stats = return r"
  by (induction keys arbitrary: stats) (auto simp: valid_stat_iff)

lemma parse_sound:
  assumes "parsePeerTrafficStats v = return r"
  shows "get_prop v (stat_name k) = Number (stat_get k r)" "valid_stat (stat_get k r)"
proof -
  from assms have "parse_stats_loop v peerTrafficStatKeys createEmptyPeerTrafficStats = return r"
    by (simp add: parsePeerTrafficStats_def split: if_splits)
  from parse_loop_ok[OF distinct_stat_keys this] show
    "get_prop v (stat_name k) = Number (stat_get k r)" "valid_stat (stat_get k r)" by auto
qed

lemma parse_stats_value:
  assumes "\<And>k. valid_stat (stat_get k s)"
  shows "parsePeerTrafficStats (stats_value s) = return s"
proof -
  obtain r where "parse_stats_loop (stats_value s) peerTrafficStatKeys createEmptyPeerTrafficStats = return r"
    using parse_loop_value assms by blast
  then have r: "parsePeerTrafficStats (stats_value s) = return r"
    by (simp add: parsePeerTrafficStats_def stats_value_def)
  have "r = s"
  proof (rule stats_eqI)
    fix k
    from parse_sound(1)[OF r, of k] show "stat_get k r = stat_get k s" by simp
  qed
  with r show ?thesis by simp
qed

section \<open>Reserved endpoints behind IPv4-mapped addresses\<close>

lemma nat_string_small: "n < 10 \<Longrightarrow> nat_string n = [digit_char n]"
  by (simp add: nat_string.simps)

lemma js_join_Cons: "ys \<noteq> [] \<Longrightarrow> js_join sep (x # ys) = x @ sep @ js_join sep ys"
  by (cases ys) auto

lemma split_mapped:
  assumes "hex_group a" "hex_group b"
  shows "js_split CHR '':'' (a @ CHR '':'' # b) = [a, b]"
proof -
  have "CHR '':'' \<notin> set s" if "hex_group s" for s
    using that by (auto simp: hex_group_def list_all_iff is_hex_lower_def is_digit_def less_eq_char_def)
  then show ?thesis using assms by (simp add: js_split_append js_split_no_sep)
qed

lemma mappedIpv4_eq:
  assumes "hex_group a" "hex_group b"
  shows "mappedIpv4 (''::ffff:'' @ a @ CHR '':'' # b) =
     Some (nat_string (parse_hex a div 256) @ ''.'' @ nat_string (parse_hex a mod 256) @ ''.'' @
       nat_string (parse_hex b div 256) @ ''.'' @ nat_string (parse_hex b mod 256))"
proof -
  have s: "starts_with (''::ffff:'' @ a @ CHR '':'' # b) ''::ffff:''"
    by (simp add: starts_with_def)
  have d: "drop 7 (''::ffff:'' @ a @ CHR '':'' # b) = a @ CHR '':'' # b" by simp
  show ?thesis
    unfolding mappedIpv4_def d split_mapped[OF assms] using assms s by (simp add: Let_def)
qed

lemma mapped_loopback_reserved:
  assumes "hex_group a" "hex_group b"
    and "strip_brackets (to_lower (hostname u)) = ''::ffff:'' @ a @ CHR '':'' # b"
    and "parse_hex a div 256 = 127 \<or> parse_hex a = 169 * 256 + 254"
  shows "reserved_hostname (effective_hostname u)"
proof -
  have n: "nat_string 127 = ''127''" "nat_string 169 = ''169''" "nat_string 254 = ''254''"
    by code_simp+
  have e: "effective_hostname u =
     nat_string (parse_hex a div 256) @ ''.'' @ nat_string (parse_hex a mod 256) @ ''.'' @
       nat_string (parse_hex b div 256) @ ''.'' @ nat_string (parse_hex b mod 256)"
    unfolding effective_hostname_def Let_def assms(3) mappedIpv4_eq[OF assms(1,2)] by simp
  from assms(4) show ?thesis
  proof
    assume "parse_hex a div 256 = 127"
    then show ?thesis by (simp add: reserved_hostname_def e n starts_with_def)
  next
    assume "parse_hex a = 169 * 256 + 254"
    then have "parse_hex a div 256 = 169" "parse_hex a mod 256 = 254" by simp_all
    then show ?thesis by (simp add: reserved_hostname_def e n starts_with_def)
  qed
qed

section \<open>Jitter\<close>

lemma half_number: "n \<le> 2 ^ 53 \<Longrightarrow> nat_number n / Num 2 = Num (of_nat n / 2)"
  using toNumber_scaled[of "int n" "-1"] by (simp add: power_int_minus field_simps)

lemma jittered_bounds:
  assumes "n \<le> 2 ^ 53" "0 \<le> r" "r \<le> Num 1"
  shows "Num (of_nat n / 2) \<le> jitteredDelay (nat_number n) r"
    and "jitteredDelay (nat_number n) r \<le> nat_number n"
proof -
  define h where "h = (of_nat n / 2 :: rat)"
  have one: "toNumber h = Num h"
    using half_number[OF assms(1)] by (simp add: h_def)
  have n: "toNumber (h + h) = nat_number n"
    using toNumber_of_int[of "int n"] assms(1) by (simp add: h_def)
  have h: "0 \<le> Num h" "Num h \<le> Num h" by (simp_all add: h_def)
  from times_nonneg_mono[OF assms(2,3) h] have m: "0 \<le> r * Num h" "r * Num h \<le> Num h"
    by (simp_all add: one)
  have eq: "jitteredDelay (nat_number n) r = Num h + r * Num h"
    by (simp only: jitteredDelay_def half_number[OF assms(1)] h_def)
  have "Num h + r * Num h \<le> Num h + Num h"
    by (rule plus_nonneg_mono(2)[OF h m])
  then show "jitteredDelay (nat_number n) r \<le> nat_number n" using n by (simp add: eq)
  obtain c where c: "r * Num h = Num c" "0 \<le> c" using m by (cases "r * Num h") (auto simp: zero_number_def)
  have "toNumber h \<le> toNumber (h + c)" using c(2) by (intro toNumber_mono) simp
  then show "Num (of_nat n / 2) \<le> jitteredDelay (nat_number n) r" using one c(1) by (simp add: eq h_def)
qed

end
