(* ===== verification/SchedulerPlan.thy ===== *)
theory SchedulerPlan
  imports Common
begin

text \<open>
  Scheduling plans and their validation (\<^verbatim>\<open>common/src/scheduler.ts\<close> and the scheduling types of
  \<^verbatim>\<open>common/src/index.ts\<close>). A scheduler returns a typed plan; the validator receives it as an
  untyped value, as in the code, so it is defined on arbitrary \<^typ>\<open>jsval\<close>s and the plan is
  passed through \<open>plan_value\<close>. A validation failure is represented by its code; the
  diagnostic message is not modelled.
\<close>

section \<open>Scheduling data\<close>

record SchedulingPeer =
  sp_id :: string
  sp_latencyMs :: number
  sp_successRate :: number
  sp_uploadBandwidthBps :: number
  sp_trustScore :: number
  sp_segments :: "string list"
  sp_originalIndex :: "nat option"

datatype DeadlineKind = PlayerDerived | PlaylistDerived | Synthetic | UnknownDeadline

record SegmentDeadline =
  dl_kind :: DeadlineKind
  dl_slackMs :: number
  dl_segmentDurationMs :: "number option"
  dl_bufferAheadMs :: "number option"

record SegmentSchedulingContext =
  cx_segmentId :: string
  cx_segmentsAhead :: "number option"
  cx_deadline :: "SegmentDeadline option"
  cx_candidates :: "SchedulingPeer list"
  cx_selfPeerId :: string
  cx_maximumParallelism :: number

record RankedPeer =
  rp_peerId :: string
  rp_score :: "number option"
  rp_rank :: number
  rp_reasons :: "string list"

datatype SchedulingReason =
    UrgentOrigin | NoCandidates | NoEligibleCandidates | PeerSelected | ParallelPeerProbe
  | PeerFailed | OriginFallback | DeadlineOrigin | DeadlineHedged | DeadlineRelaxedP2p
  | DeadlineUnknownLegacy

datatype strategy = LegacyP2pFirst | OriginOnly | HedgedOrigin

record SegmentExecutionHints =
  ex_strategy :: strategy
  ex_peerAttemptBudgetMs :: "number option"
  ex_originHedgeDelayMs :: "number option"
  ex_deadlineSlackMs :: "number option"

datatype plan_mode = OriginMode | SinglePeer | ParallelPeers

record SegmentSchedulingPlan =
  pl_policy :: string
  pl_mode :: plan_mode
  pl_peerIds :: "string list"
  pl_rankedPeers :: "RankedPeer list"
  pl_reason :: SchedulingReason
  pl_execution :: "SegmentExecutionHints option"

record PeerFetchObservation =
  ob_peerId :: string
  ob_succeeded :: bool
  ob_latencyMs :: number
  ob_bytes :: number
  ob_failureReason :: "failure_reason option"

section \<open>Plans and deadlines as untyped values\<close>

fun kind_name :: "DeadlineKind \<Rightarrow> string" where
  "kind_name PlayerDerived = ''player-derived''"
| "kind_name PlaylistDerived = ''playlist-derived''"
| "kind_name Synthetic = ''synthetic''"
| "kind_name UnknownDeadline = ''unknown''"

fun strategy_name :: "strategy \<Rightarrow> string" where
  "strategy_name LegacyP2pFirst = ''legacy-p2p-first''"
| "strategy_name OriginOnly = ''origin-only''"
| "strategy_name HedgedOrigin = ''hedged-origin''"

fun mode_name :: "plan_mode \<Rightarrow> string" where
  "mode_name OriginMode = ''origin''"
| "mode_name SinglePeer = ''single-peer''"
| "mode_name ParallelPeers = ''parallel-peers''"

definition deadline_value :: "SegmentDeadline \<Rightarrow> jsval" where
  "deadline_value d = Object
     [(''kind'', Str (kind_name (dl_kind d))), (''slackMs'', Number (dl_slackMs d)),
      (''segmentDurationMs'', opt_value Number (dl_segmentDurationMs d)),
      (''bufferAheadMs'', opt_value Number (dl_bufferAheadMs d))]"

definition ranked_value :: "RankedPeer \<Rightarrow> jsval" where
  "ranked_value r = Object
     [(''peerId'', Str (rp_peerId r)), (''score'', opt_value Number (rp_score r)),
      (''rank'', Number (rp_rank r)), (''reasons'', Array (map Str (rp_reasons r)))]"

definition hints_value :: "SegmentExecutionHints \<Rightarrow> jsval" where
  "hints_value e = Object
     [(''strategy'', Str (strategy_name (ex_strategy e))),
      (''peerAttemptBudgetMs'', opt_value Number (ex_peerAttemptBudgetMs e)),
      (''originHedgeDelayMs'', opt_value Number (ex_originHedgeDelayMs e)),
      (''deadlineSlackMs'', opt_value Number (ex_deadlineSlackMs e))]"

definition plan_value :: "SegmentSchedulingPlan \<Rightarrow> jsval" where
  "plan_value p = Object
     [(''policy'', Str (pl_policy p)), (''mode'', Str (mode_name (pl_mode p))),
      (''peerIds'', Array (map Str (pl_peerIds p))),
      (''rankedPeers'', Array (map ranked_value (pl_rankedPeers p))),
      (''execution'', opt_value hints_value (pl_execution p))]"

section \<open>Validation\<close>

datatype failure_code =
    InvalidPlan | InvalidMode | PolicyMismatch | InvalidPeerCount | DuplicatePeer | UnknownPeer
  | SelfPeer | SegmentUnavailable | ParallelismExceeded | InvalidRank | NonFiniteScore
  | InvalidDeadline | InvalidExecutionHints

definition supportedDeadlineKinds :: "string list" where
  "supportedDeadlineKinds = [''player-derived'', ''playlist-derived'', ''synthetic'', ''unknown'']"

definition supportedExecutionStrategies :: "string list" where
  "supportedExecutionStrategies = [''legacy-p2p-first'', ''origin-only'', ''hedged-origin'']"

text \<open>Whether the field is acceptable; a failure is pushed exactly when it is not.\<close>

fun validateOptionalNonNegativeFiniteNumber :: "jsval \<Rightarrow> bool" where
  "validateOptionalNonNegativeFiniteNumber Undefined = True"
| "validateOptionalNonNegativeFiniteNumber (Number x) = (isFinite x \<and> 0 \<le> x)"
| "validateOptionalNonNegativeFiniteNumber _ = False"

definition fail_unless :: "bool \<Rightarrow> failure_code \<Rightarrow> failure_code list" where
  "fail_unless ok code = (if ok then [] else [code])"

definition validate_deadline :: "jsval \<Rightarrow> failure_code list" where
  "validate_deadline deadline =
     (if deadline = Undefined then []
      else if \<not> isRecord deadline then [InvalidDeadline]
      else
        fail_unless (case get_prop deadline ''kind'' of
            Str k \<Rightarrow> k \<in> set supportedDeadlineKinds | _ \<Rightarrow> False) InvalidDeadline @
        fail_unless (is_finite_number (get_prop deadline ''slackMs'')) InvalidDeadline @
        fail_unless (validateOptionalNonNegativeFiniteNumber
            (get_prop deadline ''segmentDurationMs'')) InvalidDeadline @
        fail_unless (validateOptionalNonNegativeFiniteNumber
            (get_prop deadline ''bufferAheadMs'')) InvalidDeadline)"

definition validate_mode_policy :: "jsval \<Rightarrow> string \<Rightarrow> failure_code list" where
  "validate_mode_policy plan policyName =
     fail_unless (get_prop plan ''mode'' \<in>
        {Str ''origin'', Str ''single-peer'', Str ''parallel-peers''}) InvalidMode @
     fail_unless (get_prop plan ''policy'' = Str policyName) PolicyMismatch"

text \<open>\<^verbatim>\<open>peerIds\<close>: the string entries of the array, none when the field is not an array.\<close>

definition plan_peer_ids :: "jsval \<Rightarrow> string list" where
  "plan_peer_ids plan =
     (case get_prop plan ''peerIds'' of Array vs \<Rightarrow> List.map_filter to_string vs | _ \<Rightarrow> [])"

definition validate_peer_ids :: "jsval \<Rightarrow> number \<Rightarrow> failure_code list" where
  "validate_peer_ids plan maximumParallelism =
     (let mode = get_prop plan ''mode'' in
      case get_prop plan ''peerIds'' of
        Array vs \<Rightarrow>
          fail_unless (length (plan_peer_ids plan) = length vs) InvalidPlan @
          fail_unless (\<not> ((mode = Str ''origin'' \<and> length vs \<noteq> 0) \<or>
             (mode = Str ''single-peer'' \<and> length vs \<noteq> 1) \<or>
             (mode = Str ''parallel-peers'' \<and> length vs < 1))) InvalidPeerCount @
          fail_unless (\<not> nat_number (length vs) > maximumParallelism) ParallelismExceeded
      | _ \<Rightarrow> [InvalidPlan])"

text \<open>The loop over \<^verbatim>\<open>seenPeerIds\<close>: every entry that occurred before, once.\<close>

fun duplicates :: "'a list \<Rightarrow> 'a list \<Rightarrow> 'a list \<Rightarrow> 'a list" where
  "duplicates seen dups [] = dups"
| "duplicates seen dups (x # xs) =
     duplicates (set_add x seen) (if x \<in> set seen then set_add x dups else dups) xs"

text \<open>\<^verbatim>\<open>new Map(candidates.map(c => [c.id, c]))\<close>: a later candidate with the same id wins.\<close>

definition candidates_by_id :: "SchedulingPeer list \<Rightarrow> (string, SchedulingPeer) jsmap" where
  "candidates_by_id cs = fold (\<lambda>c m. map_set m (sp_id c) c) cs []"

definition validate_selected ::
    "SegmentSchedulingContext \<Rightarrow> string \<Rightarrow> failure_code list" where
  "validate_selected context peerId =
     (let candidate = map_get (candidates_by_id (cx_candidates context)) peerId in
      fail_unless (candidate \<noteq> None) UnknownPeer @
      fail_unless (peerId \<noteq> cx_selfPeerId context) SelfPeer @
      fail_unless (case candidate of
          None \<Rightarrow> True
        | Some c \<Rightarrow> \<not> (cx_segmentId context \<noteq> [] \<and>
            cx_segmentId context \<notin> set (sp_segments c))) SegmentUnavailable)"

definition valid_rank :: "jsval \<Rightarrow> nat \<Rightarrow> bool" where
  "valid_rank rank n = (case rank of
     Number r \<Rightarrow> isSafeInteger r \<and> \<not> r < 1 \<and> \<not> r > nat_number n | _ \<Rightarrow> False)"

definition valid_score :: "jsval \<Rightarrow> bool" where
  "valid_score score \<longleftrightarrow> score = Undefined \<or> is_finite_number score"

text \<open>One ranked entry: its failures, and its rank when it is a valid one.\<close>

definition validate_ranked_entry ::
    "SegmentSchedulingContext \<Rightarrow> nat \<Rightarrow> jsval \<Rightarrow> failure_code list \<times> jsval option" where
  "validate_ranked_entry context n entry =
     (case get_prop entry ''peerId'' of
        Str peerId \<Rightarrow>
          (fail_unless (map_has (candidates_by_id (cx_candidates context)) peerId) UnknownPeer @
           fail_unless (peerId \<noteq> cx_selfPeerId context) SelfPeer @
           fail_unless (valid_rank (get_prop entry ''rank'') n) InvalidRank @
           fail_unless (valid_score (get_prop entry ''score'')) NonFiniteScore,
           if valid_rank (get_prop entry ''rank'') n then Some (get_prop entry ''rank'') else None)
      | _ \<Rightarrow> ([InvalidPlan], None))"

definition validate_ranked :: "SegmentSchedulingContext \<Rightarrow> jsval list \<Rightarrow> failure_code list" where
  "validate_ranked context entries =
     (let n = length entries; checked = map (validate_ranked_entry context n) entries in
      concat (map fst checked) @
      fail_unless (duplicates [] [] (List.map_filter snd checked) = []) InvalidRank)"

definition validate_execution ::
    "jsval \<Rightarrow> jsval \<Rightarrow> string list \<Rightarrow> jsval \<Rightarrow> failure_code list" where
  "validate_execution mode deadline peerIds execution =
     (if execution = Undefined then []
      else if \<not> isRecord execution then [InvalidExecutionHints]
      else
        (let strategy = get_prop execution ''strategy'';
             budget = get_prop execution ''peerAttemptBudgetMs'';
             hedge = get_prop execution ''originHedgeDelayMs'';
             executionSlack = get_prop execution ''deadlineSlackMs'';
             validHedge = validateOptionalNonNegativeFiniteNumber hedge;
             validSlack = validateOptionalNonNegativeFiniteNumber executionSlack;
             slack = (if validSlack \<and> executionSlack \<noteq> Undefined then executionSlack
                      else get_prop deadline ''slackMs'') in
         fail_unless (case strategy of
             Str s \<Rightarrow> s \<in> set supportedExecutionStrategies | _ \<Rightarrow> False) InvalidExecutionHints @
         fail_unless (validateOptionalNonNegativeFiniteNumber budget) InvalidExecutionHints @
         fail_unless validHedge InvalidExecutionHints @
         fail_unless validSlack InvalidExecutionHints @
         fail_unless (\<not> (budget \<noteq> Undefined \<and> peerIds = [])) InvalidExecutionHints @
         fail_unless (\<not> (hedge \<noteq> Undefined \<and>
             (strategy = Str ''origin-only'' \<or> mode = Str ''origin''))) InvalidExecutionHints @
         fail_unless (\<not> (validHedge \<and>
             (case (hedge, slack) of
                (Number h, Number s) \<Rightarrow> isFinite s \<and> h > s | _ \<Rightarrow> False))) InvalidExecutionHints))"

definition validateSchedulerPlan ::
    "jsval \<Rightarrow> string \<Rightarrow> SegmentSchedulingContext \<Rightarrow> failure_code list" where
  "validateSchedulerPlan plan policyName context =
     (if \<not> isRecord plan then [InvalidPlan]
      else
        (let deadline = opt_value deadline_value (cx_deadline context);
             peerIds = plan_peer_ids plan in
         validate_deadline deadline @
         validate_mode_policy plan policyName @
         validate_peer_ids plan (cx_maximumParallelism context) @
         fail_unless (duplicates [] [] peerIds = []) DuplicatePeer @
         concat (map (validate_selected context) peerIds) @
         (case get_prop plan ''rankedPeers'' of
            Array entries \<Rightarrow>
              validate_ranked context entries @
              validate_execution (get_prop plan ''mode'') deadline peerIds
                (get_prop plan ''execution'')
          | _ \<Rightarrow> [InvalidPlan])))"

section \<open>Safe planning\<close>

text \<open>
  A scheduler is a policy name and a planning function on its own state, which may throw.
\<close>

type_synonym ('e, 's) scheduler = "SegmentSchedulingContext \<Rightarrow> 's \<Rightarrow> ('e, SegmentSchedulingPlan) result \<times> 's"

definition originFallbackPlan :: "string \<Rightarrow> SegmentSchedulingPlan" where
  "originFallbackPlan policy =
     \<lparr>pl_policy = policy, pl_mode = OriginMode, pl_peerIds = [], pl_rankedPeers = [],
      pl_reason = OriginFallback, pl_execution = None\<rparr>"

definition planSegmentSafely ::
    "string \<Rightarrow> ('e, 's) scheduler \<Rightarrow> SegmentSchedulingContext \<Rightarrow> 's \<Rightarrow>
     (SegmentSchedulingPlan \<times> failure_code list) \<times> 's" where
  "planSegmentSafely policyName planSegment context s =
     (case planSegment context s of
        (Inr candidatePlan, s') \<Rightarrow>
          (let warnings = validateSchedulerPlan (plan_value candidatePlan) policyName context in
           if warnings = [] then ((candidatePlan, warnings), s')
           else ((originFallbackPlan policyName, warnings), s'))
      | (Inl e, s') \<Rightarrow> ((originFallbackPlan policyName, [InvalidPlan]), s'))"

section \<open>Batch planning\<close>

record BatchSegmentRequest =
  br_segmentId :: string
  br_segmentsAhead :: "number option"

record BatchAssignment =
  ba_segmentId :: string
  ba_peerId :: "string option"
  ba_mode :: plan_mode

datatype batch_error = MaximumParallelismInvalid

text \<open>
  \<^verbatim>\<open>[...new Map(requests.map(r => [r.segmentId, r])).values()].reverse()\<close>
\<close>

definition prioritize :: "BatchSegmentRequest list \<Rightarrow> BatchSegmentRequest list" where
  "prioritize requests =
     rev (map_values (fold (\<lambda>r m. map_set m (br_segmentId r) r) requests []))"

definition batch_context ::
    "SchedulingPeer list \<Rightarrow> string \<Rightarrow> number \<Rightarrow> number option \<Rightarrow> string list \<Rightarrow>
     BatchSegmentRequest \<Rightarrow> SegmentSchedulingContext" where
  "batch_context candidates selfPeerId maximumParallelism segmentDurationMs assigned request =
     \<lparr>cx_segmentId = br_segmentId request,
      cx_segmentsAhead = br_segmentsAhead request,
      cx_deadline =
        (case (segmentDurationMs, br_segmentsAhead request) of
           (Some d, Some ahead) \<Rightarrow>
             Some \<lparr>dl_kind = Synthetic, dl_slackMs = ahead * d, dl_segmentDurationMs = Some d,
                   dl_bufferAheadMs = None\<rparr>
         | _ \<Rightarrow> None),
      cx_candidates = filter (\<lambda>c. sp_id c \<notin> set assigned) candidates,
      cx_selfPeerId = selfPeerId,
      cx_maximumParallelism = maximumParallelism\<rparr>"

text \<open>
  One wave: the requests in order, each planned over the candidates that no earlier
  request of the wave was assigned. \<open>mk\<close> builds the context from the peers assigned so far.
\<close>

fun plan_wave ::
    "string \<Rightarrow> ('e, 's) scheduler \<Rightarrow> (string list \<Rightarrow> BatchSegmentRequest \<Rightarrow> SegmentSchedulingContext) \<Rightarrow>
     string list \<Rightarrow> BatchSegmentRequest list \<Rightarrow> 's \<Rightarrow>
     (BatchAssignment list \<times> (string \<times> failure_code) list) \<times> 's" where
  "plan_wave policyName planSegment mk assigned [] s = (([], []), s)"
| "plan_wave policyName planSegment mk assigned (request # wave) s =
     (case planSegmentSafely policyName planSegment (mk assigned request) s of
        ((plan, segmentWarnings), s') \<Rightarrow>
          (let warned = map (\<lambda>code. (br_segmentId request, code)) segmentWarnings;
               peerId = (if pl_mode plan = OriginMode then None
                         else case pl_peerIds plan of [] \<Rightarrow> None | p # _ \<Rightarrow> Some p) in
           case peerId of
             None \<Rightarrow>
               (case plan_wave policyName planSegment mk assigned wave s' of
                  ((rest, warnings), s'') \<Rightarrow>
                    ((\<lparr>ba_segmentId = br_segmentId request, ba_peerId = None, ba_mode = OriginMode\<rparr>
                        # rest, warned @ warnings), s''))
           | Some p \<Rightarrow>
               (case plan_wave policyName planSegment mk (set_add p assigned) wave s' of
                  ((rest, warnings), s'') \<Rightarrow>
                    ((\<lparr>ba_segmentId = br_segmentId request, ba_peerId = Some p, ba_mode = SinglePeer\<rparr>
                        # rest, warned @ warnings), s''))))"

function plan_waves ::
    "string \<Rightarrow> ('e, 's) scheduler \<Rightarrow> (string list \<Rightarrow> BatchSegmentRequest \<Rightarrow> SegmentSchedulingContext) \<Rightarrow>
     nat \<Rightarrow> BatchSegmentRequest list \<Rightarrow> 's \<Rightarrow>
     (BatchAssignment list \<times> (string \<times> failure_code) list) \<times> 's" where
  "plan_waves policyName planSegment mk n prioritized s =
     (if prioritized = [] \<or> n = 0 then (([], []), s)
      else case plan_wave policyName planSegment mk [] (take n prioritized) s of
        ((assignments, warnings), s') \<Rightarrow>
          (case plan_waves policyName planSegment mk n (drop n prioritized) s' of
             ((assignments', warnings'), s'') \<Rightarrow>
               ((assignments @ assignments', warnings @ warnings'), s'')))"
  by pat_completeness auto
termination
  by (relation "measure (\<lambda>(_, _, _, _, rs, _). length rs)") auto

declare plan_waves.simps [simp del]

text \<open>The number of segments in a wave, for an integral parallelism.\<close>

fun wave_width :: "number \<Rightarrow> nat" where
  "wave_width (Num q) = nat \<lfloor>q\<rfloor>"
| "wave_width _ = 0"

definition planBatch ::
    "string \<Rightarrow> ('e, 's) scheduler \<Rightarrow> BatchSegmentRequest list \<Rightarrow> SchedulingPeer list \<Rightarrow> string \<Rightarrow>
     number \<Rightarrow> number option \<Rightarrow> 's \<Rightarrow>
     (batch_error, (BatchAssignment list \<times> (string \<times> failure_code) list) \<times> 's) result" where
  "planBatch policyName planSegment requests candidates selfPeerId maximumParallelism
       segmentDurationMs s =
     (if \<not> isSafeInteger maximumParallelism \<or> maximumParallelism \<le> 0
      then throw MaximumParallelismInvalid
      else return (plan_waves policyName planSegment
        (batch_context candidates selfPeerId maximumParallelism segmentDurationMs)
        (wave_width maximumParallelism) (prioritize requests) s))"

end
