(* ===== verification/SchedulerSpec.thy ===== *)
theory SchedulerSpec
  imports SchedulerPlan
begin

text \<open>
  What the scheduling layer promises: the acceptance predicate \<open>plan_ok\<close> that the validator
  implements, the contract of a scheduler as a locale, safe planning for any scheduler, and
  the guarantees of batch planning.
\<close>

section \<open>The acceptance predicate\<close>

text \<open>The candidate an id refers to: the last one with that id.\<close>

definition candidate_of :: "SegmentSchedulingContext \<Rightarrow> string \<Rightarrow> SchedulingPeer option" where
  "candidate_of context peerId = find (\<lambda>c. sp_id c = peerId) (rev (cx_candidates context))"

definition offers :: "SegmentSchedulingContext \<Rightarrow> string \<Rightarrow> bool" where
  "offers context peerId \<longleftrightarrow> peerId \<noteq> cx_selfPeerId context \<and>
     (case candidate_of context peerId of
        None \<Rightarrow> False
      | Some c \<Rightarrow> cx_segmentId context = [] \<or> cx_segmentId context \<in> set (sp_segments c))"

definition nonneg_opt :: "number option \<Rightarrow> bool" where
  "nonneg_opt v = (case v of None \<Rightarrow> True | Some x \<Rightarrow> isFinite x \<and> 0 \<le> x)"

definition deadline_ok :: "SegmentDeadline option \<Rightarrow> bool" where
  "deadline_ok deadline = (case deadline of
     None \<Rightarrow> True
   | Some d \<Rightarrow> isFinite (dl_slackMs d) \<and> nonneg_opt (dl_segmentDurationMs d) \<and>
       nonneg_opt (dl_bufferAheadMs d))"

fun count_ok :: "plan_mode \<Rightarrow> nat \<Rightarrow> bool" where
  "count_ok OriginMode n = (n = 0)"
| "count_ok SinglePeer n = (n = 1)"
| "count_ok ParallelPeers n = (1 \<le> n)"

definition rank_ok :: "number \<Rightarrow> nat \<Rightarrow> bool" where
  "rank_ok r n \<longleftrightarrow> isSafeInteger r \<and> \<not> r < 1 \<and> \<not> r > nat_number n"

definition ranked_ok :: "SegmentSchedulingContext \<Rightarrow> RankedPeer list \<Rightarrow> bool" where
  "ranked_ok context rs \<longleftrightarrow>
     (\<forall>r\<in>set rs. candidate_of context (rp_peerId r) \<noteq> None \<and> rp_peerId r \<noteq> cx_selfPeerId context \<and>
        rank_ok (rp_rank r) (length rs) \<and>
        (case rp_score r of None \<Rightarrow> True | Some x \<Rightarrow> isFinite x)) \<and>
     distinct (map rp_rank rs)"

definition hints_ok ::
    "plan_mode \<Rightarrow> SegmentDeadline option \<Rightarrow> string list \<Rightarrow> SegmentExecutionHints option \<Rightarrow> bool" where
  "hints_ok mode deadline peerIds execution = (case execution of
     None \<Rightarrow> True
   | Some e \<Rightarrow>
       nonneg_opt (ex_peerAttemptBudgetMs e) \<and> nonneg_opt (ex_originHedgeDelayMs e) \<and>
       nonneg_opt (ex_deadlineSlackMs e) \<and>
       (ex_peerAttemptBudgetMs e \<noteq> None \<longrightarrow> peerIds \<noteq> []) \<and>
       (ex_originHedgeDelayMs e \<noteq> None \<longrightarrow> ex_strategy e \<noteq> OriginOnly \<and> mode \<noteq> OriginMode) \<and>
       (case (ex_originHedgeDelayMs e,
              if ex_deadlineSlackMs e \<noteq> None then ex_deadlineSlackMs e
              else map_option dl_slackMs deadline) of
          (Some h, Some s) \<Rightarrow> isFinite s \<longrightarrow> \<not> h > s
        | _ \<Rightarrow> True))"

definition plan_ok :: "string \<Rightarrow> SegmentSchedulingContext \<Rightarrow> SegmentSchedulingPlan \<Rightarrow> bool" where
  "plan_ok policyName context plan \<longleftrightarrow>
     deadline_ok (cx_deadline context) \<and>
     pl_policy plan = policyName \<and>
     count_ok (pl_mode plan) (length (pl_peerIds plan)) \<and>
     \<not> nat_number (length (pl_peerIds plan)) > cx_maximumParallelism context \<and>
     distinct (pl_peerIds plan) \<and>
     (\<forall>p\<in>set (pl_peerIds plan). offers context p) \<and>
     ranked_ok context (pl_rankedPeers plan) \<and>
     hints_ok (pl_mode plan) (cx_deadline context) (pl_peerIds plan) (pl_execution plan)"

section \<open>The validator implements it\<close>

lemma fail_unless_Nil [simp]: "fail_unless b c = [] \<longleftrightarrow> b"
  by (simp add: fail_unless_def)

lemma duplicates_Nil:
  "duplicates seen dups xs = [] \<longleftrightarrow> dups = [] \<and> distinct xs \<and> set xs \<inter> set seen = {}"
  by (induction seen dups xs rule: duplicates.induct) (auto simp: set_add_def)

lemma map_filter_Str [simp]: "List.map_filter to_string (map Str xs) = xs"
  by (induction xs) (simp_all add: map_filter_simps)

lemma map_filter_total:
  "(\<And>x. x \<in> set xs \<Longrightarrow> f (h x) = Some (g x)) \<Longrightarrow> List.map_filter f (map h xs) = map g xs"
  by (induction xs) (simp_all add: map_filter_simps)

lemma candidate_of_SomeD:
  assumes "candidate_of context p = Some c"
  shows "c \<in> set (cx_candidates context)" "sp_id c = p"
proof -
  have "c \<in> set cs \<and> sp_id c = p" if "find (\<lambda>c. sp_id c = p) cs = Some c" for cs
    using that by (induction cs) (auto split: if_splits)
  from this[of "rev (cx_candidates context)"] assms
  show "c \<in> set (cx_candidates context)" "sp_id c = p" by (simp_all add: candidate_of_def)
qed

lemma candidates_by_id_get:
  "map_get (candidates_by_id (cx_candidates context)) peerId = candidate_of context peerId"
proof -
  have "map_get (fold (\<lambda>c m. map_set m (sp_id c) c) cs m) peerId =
      (case find (\<lambda>c. sp_id c = peerId) (rev cs) of None \<Rightarrow> map_get m peerId | Some c \<Rightarrow> Some c)"
    for cs m
  proof (induction cs rule: rev_induct)
    case (snoc c cs)
    then show ?case by (auto simp: get_set)
  qed simp
  from this[of "cx_candidates context" "[]"] show ?thesis
    by (simp add: candidates_by_id_def candidate_of_def split: option.splits)
qed

lemma kind_supported [simp]: "kind_name k \<in> set supportedDeadlineKinds"
  by (cases k) (simp_all add: supportedDeadlineKinds_def)

lemma strategy_supported [simp]: "strategy_name k \<in> set supportedExecutionStrategies"
  by (cases k) (simp_all add: supportedExecutionStrategies_def)

lemma nonneg_opt_value [simp]:
  "validateOptionalNonNegativeFiniteNumber (opt_value Number v) = nonneg_opt v"
  by (cases v) (simp_all add: nonneg_opt_def)

lemma validate_deadline_value:
  "validate_deadline (opt_value deadline_value d) = [] \<longleftrightarrow> deadline_ok d"
  by (cases d) (simp_all add: validate_deadline_def deadline_ok_def deadline_value_def)

lemma plan_peer_ids_value [simp]: "plan_peer_ids (plan_value p) = pl_peerIds p"
  by (simp add: plan_peer_ids_def plan_value_def)

lemma validate_mode_value:
  "validate_mode_policy (plan_value p) policyName = [] \<longleftrightarrow> pl_policy p = policyName"
  by (cases "pl_mode p") (auto simp: validate_mode_policy_def plan_value_def)

lemma validate_peer_ids_value:
  "validate_peer_ids (plan_value p) m = [] \<longleftrightarrow>
     count_ok (pl_mode p) (length (pl_peerIds p)) \<and> \<not> nat_number (length (pl_peerIds p)) > m"
proof -
  have f: "get_prop (plan_value p) ''peerIds'' = Array (map Str (pl_peerIds p))"
    "get_prop (plan_value p) ''mode'' = Str (mode_name (pl_mode p))"
    by (simp_all add: plan_value_def)
  show ?thesis unfolding validate_peer_ids_def f
    by (cases "pl_mode p") (auto simp: Let_def Suc_le_eq)
qed

lemma validate_selected_ok: "validate_selected context p = [] \<longleftrightarrow> offers context p"
  by (auto simp: validate_selected_def offers_def candidates_by_id_get split: option.splits)

lemma ranked_entry_value:
  "validate_ranked_entry context n (ranked_value r) =
     (fail_unless (candidate_of context (rp_peerId r) \<noteq> None) UnknownPeer @
      fail_unless (rp_peerId r \<noteq> cx_selfPeerId context) SelfPeer @
      fail_unless (rank_ok (rp_rank r) n) InvalidRank @
      fail_unless (case rp_score r of None \<Rightarrow> True | Some x \<Rightarrow> isFinite x) NonFiniteScore,
      if rank_ok (rp_rank r) n then Some (Number (rp_rank r)) else None)"
  by (cases "rp_score r")
    (simp_all add: validate_ranked_entry_def ranked_value_def map_has_def candidates_by_id_get
      valid_rank_def rank_ok_def valid_score_def)

lemma validate_ranked_value:
  "validate_ranked context (map ranked_value rs) = [] \<longleftrightarrow> ranked_ok context rs"
proof (cases "\<forall>r\<in>set rs. rank_ok (rp_rank r) (length rs)")
  case True
  then have "List.map_filter snd (map (validate_ranked_entry context (length rs)) (map ranked_value rs)) =
      map (Number \<circ> rp_rank) rs"
    unfolding list.map_comp by (intro map_filter_total) (simp add: ranked_entry_value)
  moreover have "distinct (map (Number \<circ> rp_rank) rs) = distinct (map rp_rank rs)"
    by (simp add: distinct_map inj_on_def)
  ultimately show ?thesis using True
    by (simp add: validate_ranked_def Let_def duplicates_Nil del: map_map)
      (auto simp: ranked_ok_def ranked_entry_value)
next
  case False
  then show ?thesis
    by (auto simp: validate_ranked_def Let_def ranked_ok_def ranked_entry_value)
qed

lemma validate_execution_value:
  "validate_execution (Str (mode_name m)) (opt_value deadline_value d) ids (opt_value hints_value e) = []
     \<longleftrightarrow> hints_ok m d ids e"
proof (cases e)
  case None
  then show ?thesis by (simp add: validate_execution_def hints_ok_def)
next
  case (Some h)
  have slack: "get_prop (opt_value deadline_value d) ''slackMs'' = opt_value Number (map_option dl_slackMs d)"
    by (cases d) (simp_all add: deadline_value_def)
  have origin: "mode_name m = ''origin'' \<longleftrightarrow> m = OriginMode" by (cases m) simp_all
  have strat: "strategy_name s = ''origin-only'' \<longleftrightarrow> s = OriginOnly" for s by (cases s) simp_all
  have opt: "(case (opt_value Number a, opt_value Number b) of
      (Number x, Number y) \<Rightarrow> P x y | _ \<Rightarrow> False) =
      (case (a, b) of (Some x, Some y) \<Rightarrow> P x y | _ \<Rightarrow> False)" for a b P
    by (cases a; cases b) simp_all
  show ?thesis
    unfolding Some opt_value.simps
    by (cases "ex_originHedgeDelayMs h"; cases "ex_deadlineSlackMs h"; cases "map_option dl_slackMs d")
      (auto simp: validate_execution_def hints_value_def Let_def hints_ok_def slack origin strat opt
        nonneg_opt_def)
qed

lemma validate_accepts_iff:
  "validateSchedulerPlan (plan_value p) policyName context = [] \<longleftrightarrow> plan_ok policyName context p"
proof -
  have f: "isRecord (plan_value p)"
    "get_prop (plan_value p) ''rankedPeers'' = Array (map ranked_value (pl_rankedPeers p))"
    "get_prop (plan_value p) ''mode'' = Str (mode_name (pl_mode p))"
    "get_prop (plan_value p) ''execution'' = opt_value hints_value (pl_execution p)"
    by (simp_all add: plan_value_def)
  show ?thesis
    unfolding validateSchedulerPlan_def
    by (simp add: f Let_def validate_deadline_value validate_mode_value validate_peer_ids_value
        duplicates_Nil validate_selected_ok validate_ranked_value validate_execution_value plan_ok_def)
qed

section \<open>Safe planning\<close>

lemma fallback_ok:
  "plan_ok policyName context (originFallbackPlan policyName) \<longleftrightarrow>
     deadline_ok (cx_deadline context) \<and> \<not> nat_number 0 > cx_maximumParallelism context"
  by (auto simp: plan_ok_def originFallbackPlan_def ranked_ok_def hints_ok_def)

lemma planSegmentSafely_cases:
  obtains (accepted) plan s' where "planSegment context s = (Inr plan, s')"
      "plan_ok policyName context plan"
      "planSegmentSafely policyName planSegment context s = ((plan, []), s')"
  | (rejected) warnings s' where "warnings \<noteq> []"
      "planSegmentSafely policyName planSegment context s = ((originFallbackPlan policyName, warnings), s')"
proof (cases "planSegment context s")
  case (Pair r s')
  show ?thesis
  proof (cases r)
    case (Inl e)
    with Pair rejected[of "[InvalidPlan]" s'] show ?thesis by (simp add: planSegmentSafely_def)
  next
    case (Inr plan)
    show ?thesis
    proof (cases "validateSchedulerPlan (plan_value plan) policyName context = []")
      case True
      with Pair Inr accepted[of plan s'] show ?thesis
        by (simp add: planSegmentSafely_def validate_accepts_iff Let_def)
    next
      case False
      with Pair Inr rejected[OF False, of s'] show ?thesis
        by (simp add: planSegmentSafely_def Let_def)
    qed
  qed
qed

text \<open>
  The contract of \<^verbatim>\<open>SegmentScheduler\<close>: under its invariant a scheduler returns, without
  throwing, a plan the validator accepts for every admissible context.
\<close>

locale segment_scheduler =
  fixes policyName :: string
    and planSegment :: "('e, 's) scheduler"
    and invar :: "'s \<Rightarrow> bool"
    and admissible :: "SegmentSchedulingContext \<Rightarrow> bool"
  assumes plans: "\<lbrakk>invar s; admissible c\<rbrakk> \<Longrightarrow>
      \<exists>p s'. planSegment c s = (Inr p, s') \<and> plan_ok policyName c p"
    and keeps: "invar s \<Longrightarrow> admissible c \<Longrightarrow> invar (snd (planSegment c s))"
begin

lemma safely_transparent:
  assumes "invar s" "admissible c"
  shows "\<exists>p s'. planSegment c s = (Inr p, s') \<and> invar s' \<and> plan_ok policyName c p \<and>
    planSegmentSafely policyName planSegment c s = ((p, []), s')"
proof -
  obtain p s' where p: "planSegment c s = (Inr p, s')" "plan_ok policyName c p"
    using plans[OF assms] by blast
  moreover have "invar s'" using keeps[OF assms] p(1) by simp
  ultimately show ?thesis
    by (simp add: planSegmentSafely_def Let_def validate_accepts_iff)
qed

end

section \<open>Batches\<close>

lemma fold_requests_keys:
  "map_keys (fold (\<lambda>r m. map_set m (br_segmentId r) r) rs m) =
     fold set_add (map br_segmentId rs) (map_keys m)"
  by (induction rs arbitrary: m) (simp_all add: keys_set set_add_def)

lemma fold_requests_value:
  "(k, r) \<in> set (fold (\<lambda>r m. map_set m (br_segmentId r) r) rs m) \<Longrightarrow>
     (\<forall>(k, r)\<in>set m. br_segmentId r = k) \<Longrightarrow> br_segmentId r = k"
proof (induction rs arbitrary: m)
  case (Cons x rs)
  have "\<forall>(k, r)\<in>set (map_set m (br_segmentId x) x). br_segmentId r = k"
    using Cons.prems(2) by (induction m) auto
  with Cons show ?case by simp
qed auto

lemma prioritize_ids: "map br_segmentId (prioritize requests) = rev (new_set (map br_segmentId requests))"
proof -
  let ?m = "fold (\<lambda>r m. map_set m (br_segmentId r) r) requests []"
  have "map br_segmentId (map_values ?m) = map_keys ?m"
    using fold_requests_value[of _ _ requests "[]"] by (auto simp: list.map_comp comp_def intro!: map_cong)
  then show ?thesis
    using fold_requests_keys[of requests "[]"] by (simp add: prioritize_def new_set_def flip: rev_map)
qed

abbreviation assigned_peers :: "BatchAssignment list \<Rightarrow> string list" where
  "assigned_peers asg \<equiv> List.map_filter ba_peerId asg"

lemma safely_peer_offered:
  assumes "planSegmentSafely policyName planSegment context s = ((plan, w), s')"
    and "pl_mode plan \<noteq> OriginMode" "pl_peerIds plan = p # ps"
  shows "offers context p"
  using assms
  by (cases rule: planSegmentSafely_cases[of planSegment "context" s policyName])
    (auto simp: plan_ok_def originFallbackPlan_def)

lemma plan_wave_spec:
  assumes "plan_wave policyName planSegment mk assigned wave s = ((asg, ws), s')"
  shows "map ba_segmentId asg = map br_segmentId wave"
    and "distinct (assigned_peers asg) \<and> set (assigned_peers asg) \<inter> set assigned = {} \<or>
      \<not> (\<forall>assigned r p. offers (mk assigned r) p \<longrightarrow> p \<notin> set assigned)"
    and "\<forall>a\<in>set asg. \<forall>p. ba_peerId a = Some p \<longrightarrow>
      (\<exists>assigned r. offers (mk assigned r) p \<and> br_segmentId r = ba_segmentId a)"
    and "\<forall>a\<in>set asg. ba_mode a = (if ba_peerId a = None then OriginMode else SinglePeer)"
proof -
  have "map ba_segmentId asg = map br_segmentId wave \<and>
    (distinct (assigned_peers asg) \<and> set (assigned_peers asg) \<inter> set assigned = {} \<or>
      \<not> (\<forall>assigned r p. offers (mk assigned r) p \<longrightarrow> p \<notin> set assigned)) \<and>
    (\<forall>a\<in>set asg. \<forall>p. ba_peerId a = Some p \<longrightarrow>
      (\<exists>assigned r. offers (mk assigned r) p \<and> br_segmentId r = ba_segmentId a)) \<and>
    (\<forall>a\<in>set asg. ba_mode a = (if ba_peerId a = None then OriginMode else SinglePeer))"
    using assms
  proof (induction wave arbitrary: assigned s asg ws s')
    case (Cons r wave)
    obtain plan w s1 where safe: "planSegmentSafely policyName planSegment (mk assigned r) s = ((plan, w), s1)"
      by (metis prod.exhaust)
    show ?case
    proof (cases "pl_mode plan = OriginMode \<or> pl_peerIds plan = []")
      case True
      obtain asg' ws' s2 where rest:
        "plan_wave policyName planSegment mk assigned wave s1 = ((asg', ws'), s2)"
        by (metis prod.exhaust)
      have asg: "asg = \<lparr>ba_segmentId = br_segmentId r, ba_peerId = None, ba_mode = OriginMode\<rparr> # asg'"
        using Cons.prems True by (auto simp: safe rest Let_def split: list.splits)
      from Cons.IH[OF rest] show ?thesis by (simp add: asg map_filter_simps)
    next
      case False
      then obtain p ps where p: "pl_peerIds plan = p # ps" by (cases "pl_peerIds plan") auto
      obtain asg' ws' s2 where rest:
        "plan_wave policyName planSegment mk (set_add p assigned) wave s1 = ((asg', ws'), s2)"
        by (metis prod.exhaust)
      have asg: "asg = \<lparr>ba_segmentId = br_segmentId r, ba_peerId = Some p, ba_mode = SinglePeer\<rparr> # asg'"
        using Cons.prems False by (auto simp: safe rest Let_def p)
      have off: "offers (mk assigned r) p" using safely_peer_offered[OF safe] False p by auto
      from Cons.IH[OF rest] off show ?thesis by (auto simp: asg map_filter_simps)
    qed
  qed (auto simp: map_filter_simps)
  then show "map ba_segmentId asg = map br_segmentId wave"
    and "distinct (assigned_peers asg) \<and> set (assigned_peers asg) \<inter> set assigned = {} \<or>
      \<not> (\<forall>assigned r p. offers (mk assigned r) p \<longrightarrow> p \<notin> set assigned)"
    and "\<forall>a\<in>set asg. \<forall>p. ba_peerId a = Some p \<longrightarrow>
      (\<exists>assigned r. offers (mk assigned r) p \<and> br_segmentId r = ba_segmentId a)"
    and "\<forall>a\<in>set asg. ba_mode a = (if ba_peerId a = None then OriginMode else SinglePeer)"
    by auto
qed

lemma offersD:
  assumes "offers context p"
  obtains c where "c \<in> set (cx_candidates context)" "sp_id c = p" "p \<noteq> cx_selfPeerId context"
    "cx_segmentId context = [] \<or> cx_segmentId context \<in> set (sp_segments c)"
proof -
  obtain c where "candidate_of context p = Some c"
    "p \<noteq> cx_selfPeerId context" "cx_segmentId context = [] \<or> cx_segmentId context \<in> set (sp_segments c)"
    using assms unfolding offers_def by (auto split: option.splits)
  with candidate_of_SomeD[of "context" p c] that show ?thesis by blast
qed

lemma batch_context_fields [simp]:
  "cx_candidates (batch_context candidates selfPeerId m d assigned r) =
     filter (\<lambda>c. sp_id c \<notin> set assigned) candidates"
  "cx_selfPeerId (batch_context candidates selfPeerId m d assigned r) = selfPeerId"
  "cx_segmentId (batch_context candidates selfPeerId m d assigned r) = br_segmentId r"
  by (simp_all add: batch_context_def)

lemma batch_offer_fresh:
  "offers (batch_context candidates selfPeerId m d assigned r) p \<Longrightarrow> p \<notin> set assigned"
  by (auto elim!: offersD)

text \<open>A batch offer is an offer of the whole candidate list.\<close>

definition batch_offer :: "SchedulingPeer list \<Rightarrow> string \<Rightarrow> string \<Rightarrow> string \<Rightarrow> bool" where
  "batch_offer candidates selfPeerId segmentId p \<longleftrightarrow> p \<noteq> selfPeerId \<and>
     (\<exists>c\<in>set candidates. sp_id c = p \<and> (segmentId = [] \<or> segmentId \<in> set (sp_segments c)))"

lemma batch_offerI:
  "offers (batch_context candidates selfPeerId m d assigned r) p \<Longrightarrow>
     batch_offer candidates selfPeerId (br_segmentId r) p"
  by (auto simp: batch_offer_def elim!: offersD)

lemma plan_waves_spec:
  assumes "plan_waves policyName planSegment mk n rs s = ((asg, ws), s')" "0 < n"
    and fresh: "\<And>assigned r p. offers (mk assigned r) p \<Longrightarrow> p \<notin> set assigned"
  shows "map ba_segmentId asg = map br_segmentId rs"
    and "distinct (assigned_peers (take n (drop (k * n) asg)))"
    and "\<forall>a\<in>set asg. \<forall>p. ba_peerId a = Some p \<longrightarrow>
      (\<exists>assigned r. offers (mk assigned r) p \<and> br_segmentId r = ba_segmentId a)"
proof -
  have "map ba_segmentId asg = map br_segmentId rs \<and>
    (\<forall>k. distinct (assigned_peers (take n (drop (k * n) asg)))) \<and>
    (\<forall>a\<in>set asg. \<forall>p. ba_peerId a = Some p \<longrightarrow>
      (\<exists>assigned r. offers (mk assigned r) p \<and> br_segmentId r = ba_segmentId a))"
    using assms(1)
  proof (induction "length rs" arbitrary: rs s asg ws s' rule: less_induct)
    case less
    show ?case
    proof (cases "rs = []")
      case True
      with less.prems show ?thesis by (simp add: plan_waves.simps map_filter_simps)
    next
      case False
      obtain a1 w1 s1 where w: "plan_wave policyName planSegment mk [] (take n rs) s = ((a1, w1), s1)"
        by (metis prod.exhaust)
      obtain a2 w2 s2 where r: "plan_waves policyName planSegment mk n (drop n rs) s1 = ((a2, w2), s2)"
        by (metis prod.exhaust)
      have asg: "asg = a1 @ a2" using less.prems False assms(2)
        by (subst (asm) plan_waves.simps) (simp add: w r)
      note A = plan_wave_spec[OF w]
      from False assms(2) less.hyps[OF _ r] have B:
        "map ba_segmentId a2 = map br_segmentId (drop n rs)"
        "\<forall>k. distinct (assigned_peers (take n (drop (k * n) a2)))"
        "\<forall>a\<in>set a2. \<forall>p. ba_peerId a = Some p \<longrightarrow>
          (\<exists>assigned r. offers (mk assigned r) p \<and> br_segmentId r = ba_segmentId a)" by auto
      have len: "length a1 = min n (length rs)"
        using arg_cong[OF A(1), of length] by simp
      have len2: "length a2 = length rs - n"
        using arg_cong[OF B(1), of length] by simp
      have d: "distinct (assigned_peers (take n (drop (k * n) asg)))" for k
      proof (cases k)
        case 0
        have "take n asg = a1" using len len2 by (cases "n \<le> length rs") (simp_all add: asg)
        with 0 A(2) fresh show ?thesis by auto
      next
        case (Suc j)
        have "drop (k * n) asg = drop (j * n) a2"
          using len len2 by (cases "n \<le> length rs") (auto simp: asg Suc)
        with B(2) show ?thesis by simp
      qed
      have "map ba_segmentId asg = map br_segmentId rs"
        using A(1) B(1) by (simp add: asg) (metis append_take_drop_id map_append)
      with d A(3) B(3) show ?thesis by (auto simp: asg)
    qed
  qed
  then show "map ba_segmentId asg = map br_segmentId rs"
    and "distinct (assigned_peers (take n (drop (k * n) asg)))"
    and "\<forall>a\<in>set asg. \<forall>p. ba_peerId a = Some p \<longrightarrow>
      (\<exists>assigned r. offers (mk assigned r) p \<and> br_segmentId r = ba_segmentId a)" by auto
qed

section \<open>Properties\<close>



text \<open>C16: Batch planning with any scheduler assigns every distinct requested segment exactly
  once, most urgent (last listed) first; a peer assigned to a segment is a candidate other
  than the local peer that advertises the segment; no peer is used twice within a wave of
  \<^verbatim>\<open>maximumParallelism\<close> segments; and it throws exactly when the parallelism is no positive safe
  integer.\<close>

theorem batch_assignments:
  "case planBatch policyName planSegment requests candidates selfPeerId m duration s of
     Inl e \<Rightarrow> \<not> (isSafeInteger m \<and> 0 < m)
   | Inr ((asg, warnings), s') \<Rightarrow>
       isSafeInteger m \<and> 0 < m \<and>
       map ba_segmentId asg = rev (new_set (map br_segmentId requests)) \<and>
       list_all (\<lambda>a. case ba_peerId a of None \<Rightarrow> True
          | Some p \<Rightarrow> batch_offer candidates selfPeerId (ba_segmentId a) p) asg \<and>
       (\<forall>k. distinct (assigned_peers (take (wave_width m) (drop (k * wave_width m) asg))))"
proof (cases "isSafeInteger m \<and> 0 < m")
  case False
  then have "planBatch policyName planSegment requests candidates selfPeerId m duration s =
      throw MaximumParallelismInvalid"
    by (cases m) (auto simp: planBatch_def zero_number_def)
  with False show ?thesis by simp
next
  case True
  then obtain q where m: "m = Num q" "of_int \<lfloor>q\<rfloor> = q" "0 < q"
    by (cases m) (auto simp: zero_number_def)
  define n where "n = wave_width m"
  have "1 \<le> \<lfloor>q\<rfloor>" using m by linarith
  then have n: "0 < n" by (simp add: n_def m(1))
  let ?mk = "batch_context candidates selfPeerId m duration"
  obtain asg ws s' where r: "plan_waves policyName planSegment ?mk n (prioritize requests) s = ((asg, ws), s')"
    by (metis prod.exhaust)
  have eq: "planBatch policyName planSegment requests candidates selfPeerId m duration s = return ((asg, ws), s')"
    using True r m by (auto simp: planBatch_def n_def zero_number_def)
  note spec = plan_waves_spec[OF r n batch_offer_fresh]
  have "list_all (\<lambda>a. case ba_peerId a of None \<Rightarrow> True
      | Some p \<Rightarrow> batch_offer candidates selfPeerId (ba_segmentId a) p) asg"
    using spec(3) batch_offerI by (fastforce simp: list_all_iff split: option.splits)
  then show ?thesis
    using True spec(1,2) by (auto simp: eq prioritize_ids n_def)
qed

end
