(* ===== verification/WeightedScore.thy ===== *)
theory WeightedScore
  imports SchedulerSpec
begin

text \<open>
  The Node peer's scheduling policy (\<^verbatim>\<open>peer/src/weighted-score-scheduler.ts\<close>): peers are scored
  by smoothed latency, success rate, upload bandwidth and trust; the best eligible one is
  selected. The state is the two maps of the class.
\<close>

section \<open>Scores\<close>

definition MINIMUM_TRUST_SCORE :: number where
  "MINIMUM_TRUST_SCORE = lit (3 / 10)"

definition LATENCY_WEIGHT :: number where
  "LATENCY_WEIGHT = lit (3 / 10)"

definition SUCCESS_RATE_WEIGHT :: number where
  "SUCCESS_RATE_WEIGHT = lit (3 / 10)"

definition UPLOAD_BANDWIDTH_WEIGHT :: number where
  "UPLOAD_BANDWIDTH_WEIGHT = lit (2 / 10)"

definition TRUST_SCORE_WEIGHT :: number where
  "TRUST_SCORE_WEIGHT = lit (2 / 10)"

record PeerQualityMetrics =
  qm_latencyMs :: number
  qm_successRate :: number
  qm_uploadBandwidthBps :: number
  qm_trustScore :: number

definition latency_score :: "number \<Rightarrow> number" where
  "latency_score latencyMs = 1 - math_min (math_max latencyMs 0 / Num 1000) 1"

definition bandwidth_score :: "number \<Rightarrow> number \<Rightarrow> number" where
  "bandwidth_score uploadBandwidthBps maximumUploadBandwidthBps =
     (if maximumUploadBandwidthBps \<le> 0 then 0
      else clamp (uploadBandwidthBps / maximumUploadBandwidthBps) 0 1)"

definition calculatePeerScore :: "PeerQualityMetrics \<Rightarrow> number \<Rightarrow> number" where
  "calculatePeerScore metrics maximumUploadBandwidthBps =
     LATENCY_WEIGHT * latency_score (qm_latencyMs metrics) +
     SUCCESS_RATE_WEIGHT * clamp (qm_successRate metrics) 0 1 +
     UPLOAD_BANDWIDTH_WEIGHT * bandwidth_score (qm_uploadBandwidthBps metrics) maximumUploadBandwidthBps +
     TRUST_SCORE_WEIGHT * clamp (qm_trustScore metrics) 0 1"

section \<open>State and observations\<close>

record weighted_state =
  urgentThresholdSegments :: number
  peerMetrics :: "(string, PeerQualityMetrics) jsmap"
  peerTrustScores :: "(string, number) jsmap"

definition new_weighted :: "number option \<Rightarrow> weighted_state" where
  "new_weighted threshold =
     \<lparr>urgentThresholdSegments = (case threshold of None \<Rightarrow> Num 2 | Some t \<Rightarrow> t),
      peerMetrics = [], peerTrustScores = []\<rparr>"

definition finiteOrZero :: "number \<Rightarrow> number" where
  "finiteOrZero v = (if isFinite v then v else 0)"

definition smoothMetrics :: "PeerQualityMetrics \<Rightarrow> PeerQualityMetrics \<Rightarrow> PeerQualityMetrics" where
  "smoothMetrics previous observed =
     \<lparr>qm_latencyMs = exponentialMovingAverage (qm_latencyMs previous) (qm_latencyMs observed),
      qm_successRate = exponentialMovingAverage (qm_successRate previous) (qm_successRate observed),
      qm_uploadBandwidthBps =
        exponentialMovingAverage (qm_uploadBandwidthBps previous) (qm_uploadBandwidthBps observed),
      qm_trustScore = exponentialMovingAverage (qm_trustScore previous) (qm_trustScore observed)\<rparr>"

definition tracker_metrics :: "SchedulingPeer \<Rightarrow> PeerQualityMetrics" where
  "tracker_metrics peer =
     \<lparr>qm_latencyMs = math_max 0 (finiteOrZero (sp_latencyMs peer)),
      qm_successRate = clamp (finiteOrZero (sp_successRate peer)) 0 1,
      qm_uploadBandwidthBps = math_max 0 (finiteOrZero (sp_uploadBandwidthBps peer)),
      qm_trustScore = clamp (finiteOrZero (sp_trustScore peer)) 0 1\<rparr>"

definition metricsFor :: "SchedulingPeer \<Rightarrow> weighted_state \<Rightarrow> PeerQualityMetrics \<times> weighted_state" where
  "metricsFor peer s =
     (let observed = tracker_metrics peer;
          s1 = s\<lparr>peerTrustScores := map_set (peerTrustScores s) (sp_id peer) (qm_trustScore observed)\<rparr> in
      case map_get (peerMetrics s1) (sp_id peer) of
        None \<Rightarrow> (observed, s1\<lparr>peerMetrics := map_set (peerMetrics s1) (sp_id peer) observed\<rparr>)
      | Some previous \<Rightarrow>
          (let smoothed = smoothMetrics previous observed in
           (smoothed, s1\<lparr>peerMetrics := map_set (peerMetrics s1) (sp_id peer) smoothed\<rparr>)))"

definition observed_metrics :: "PeerFetchObservation \<Rightarrow> number \<Rightarrow> PeerQualityMetrics" where
  "observed_metrics observation trust =
     (let latencyMs = math_max 0 (finiteOrZero (ob_latencyMs observation));
          bytes = math_max 0 (finiteOrZero (ob_bytes observation));
          elapsedSeconds = math_max latencyMs 1 / Num 1000 in
      \<lparr>qm_latencyMs = latencyMs,
       qm_successRate = (if ob_succeeded observation then 1 else 0),
       qm_uploadBandwidthBps =
         (if ob_succeeded observation then (bytes * Num 8) / elapsedSeconds else 0),
       qm_trustScore =
         (if ob_failureReason observation = Some IntegrityFailure then 0 else trust)\<rparr>)"

definition observePeer :: "PeerFetchObservation \<Rightarrow> weighted_state \<Rightarrow> weighted_state" where
  "observePeer observation s =
     (case map_get (peerMetrics s) (ob_peerId observation) of
        None \<Rightarrow> s
      | Some previous \<Rightarrow>
          (let trust = (case map_get (peerTrustScores s) (ob_peerId observation) of
                 None \<Rightarrow> qm_trustScore previous | Some t \<Rightarrow> t);
               observed = observed_metrics observation trust in
           s\<lparr>peerMetrics := map_set (peerMetrics s) (ob_peerId observation)
               (smoothMetrics previous observed)\<rparr>))"

definition reconcilePeers :: "SchedulingPeer list \<Rightarrow> weighted_state \<Rightarrow> weighted_state" where
  "reconcilePeers peers s =
     fold (\<lambda>peerId s.
        if peerId \<in> sp_id ` set peers then s
        else s\<lparr>peerMetrics := map_delete (peerMetrics s) peerId,
               peerTrustScores := map_delete (peerTrustScores s) peerId\<rparr>)
       (map_keys (peerMetrics s)) s"

definition reset_weighted :: "weighted_state \<Rightarrow> weighted_state" where
  "reset_weighted s = s\<lparr>peerMetrics := [], peerTrustScores := []\<rparr>"

definition getPeerMetrics :: "weighted_state \<Rightarrow> string \<Rightarrow> PeerQualityMetrics option" where
  "getPeerMetrics s peerId = map_get (peerMetrics s) peerId"

section \<open>Planning\<close>

definition originPlan :: "string \<Rightarrow> SchedulingReason \<Rightarrow> SegmentSchedulingPlan" where
  "originPlan policy reason =
     \<lparr>pl_policy = policy, pl_mode = OriginMode, pl_peerIds = [], pl_rankedPeers = [],
      pl_reason = reason, pl_execution = None\<rparr>"

record RankedCandidate =
  rc_peer :: SchedulingPeer
  rc_metrics :: PeerQualityMetrics
  rc_inputIndex :: nat

definition eligible :: "SegmentSchedulingContext \<Rightarrow> SchedulingPeer \<Rightarrow> bool" where
  "eligible context peer \<longleftrightarrow>
     sp_id peer \<noteq> cx_selfPeerId context \<and> MINIMUM_TRUST_SCORE \<le> sp_trustScore peer \<and>
     (cx_segmentId context = [] \<or> cx_segmentId context \<in> set (sp_segments peer))"

text \<open>\<^verbatim>\<open>.map(({peer, inputIndex}) => ({..., metrics: this.metricsFor(peer)}))\<close>, in order.\<close>

fun measure_all ::
    "(SchedulingPeer \<times> nat) list \<Rightarrow> weighted_state \<Rightarrow> RankedCandidate list \<times> weighted_state" where
  "measure_all [] s = ([], s)"
| "measure_all ((peer, i) # ps) s =
     (case metricsFor peer s of (metrics, s') \<Rightarrow>
        (case measure_all ps s' of (rest, s'') \<Rightarrow>
           (\<lparr>rc_peer = peer, rc_metrics = metrics, rc_inputIndex = i\<rparr> # rest, s'')))"

definition tie_index :: "RankedCandidate \<Rightarrow> nat" where
  "tie_index c = (case sp_originalIndex (rc_peer c) of None \<Rightarrow> rc_inputIndex c | Some i \<Rightarrow> i)"

text \<open>
  The comparator \<^verbatim>\<open>right.score - left.score || leftIndex - rightIndex\<close>; a positive value puts
  \<^verbatim>\<open>left\<close> after \<^verbatim>\<open>right\<close>. Indexes are list positions, so their difference is exact.
\<close>

definition ranked_after :: "(RankedCandidate \<times> number) \<Rightarrow> (RankedCandidate \<times> number) \<Rightarrow> bool" where
  "ranked_after left right =
     (num_or (snd right - snd left)
        (int_number (int (tie_index (fst left)) - int (tie_index (fst right)))) > 0)"

definition rank_candidates :: "RankedCandidate list \<Rightarrow> (RankedCandidate \<times> number) list" where
  "rank_candidates candidates =
     (let maximumUploadBandwidthBps =
        fold math_max (map (\<lambda>c. qm_uploadBandwidthBps (rc_metrics c)) candidates) 0 in
      sort_by ranked_after
        (map (\<lambda>c. (c, calculatePeerScore (rc_metrics c) maximumUploadBandwidthBps)) candidates))"

definition ranked_entries :: "(RankedCandidate \<times> number) list \<Rightarrow> RankedPeer list" where
  "ranked_entries ranked =
     map (\<lambda>(index, (c, score)).
        \<lparr>rp_peerId = sp_id (rc_peer c), rp_score = Some score, rp_rank = nat_number (index + 1),
         rp_reasons = [''trusted'', ''segment_available'', ''weighted_score'']\<rparr>)
       (enumerate 0 ranked)"

definition weighted_policy :: string where
  "weighted_policy = ''weighted-score''"

definition planSegment ::
    "SegmentSchedulingContext \<Rightarrow> weighted_state \<Rightarrow> SegmentSchedulingPlan \<times> weighted_state" where
  "planSegment context s =
     (if (case cx_segmentsAhead context of
            None \<Rightarrow> False | Some ahead \<Rightarrow> ahead < urgentThresholdSegments s)
      then (originPlan weighted_policy UrgentOrigin, s)
      else if cx_candidates context = [] then (originPlan weighted_policy NoCandidates, s)
      else
        (case measure_all (filter (\<lambda>(peer, i). eligible context peer)
             (zip (cx_candidates context) [0..<length (cx_candidates context)])) s of
           (measured, s') \<Rightarrow>
             (let candidates = filter (\<lambda>c. MINIMUM_TRUST_SCORE \<le> qm_trustScore (rc_metrics c)) measured in
              case rank_candidates candidates of
                [] \<Rightarrow> (originPlan weighted_policy NoEligibleCandidates, s')
              | (selected, score) # rest \<Rightarrow>
                  (\<lparr>pl_policy = weighted_policy, pl_mode = SinglePeer,
                    pl_peerIds = [sp_id (rc_peer selected)],
                    pl_rankedPeers = ranked_entries ((selected, score) # rest),
                    pl_reason = PeerSelected, pl_execution = None\<rparr>, s'))))"

text \<open>As a \<^verbatim>\<open>SegmentScheduler\<close>: it never throws.\<close>

definition weighted_scheduler :: "(string, weighted_state) scheduler" where
  "weighted_scheduler context s = (case planSegment context s of (p, s') \<Rightarrow> (Inr p, s'))"

record SchedulerDecision =
  sd_policy :: string
  sd_mode :: plan_mode
  sd_reason :: SchedulingReason
  sd_candidateCount :: nat
  sd_eligibleCount :: nat
  sd_selectedPeerCount :: nat

definition schedulerDecisionFor :: "SegmentSchedulingPlan \<Rightarrow> nat \<Rightarrow> SchedulerDecision" where
  "schedulerDecisionFor plan candidateCount =
     \<lparr>sd_policy = pl_policy plan, sd_mode = pl_mode plan, sd_reason = pl_reason plan,
      sd_candidateCount = candidateCount, sd_eligibleCount = length (pl_rankedPeers plan),
      sd_selectedPeerCount = length (pl_peerIds plan)\<rparr>"

end
