(* ===== verification/WeightedSpec.thy ===== *)
theory WeightedSpec
  imports WeightedScore
begin

text \<open>
  Correctness of the weighted-score policy: scores in the unit interval in spite of
  rounding, the metric invariant under every operation, ranking order, and the
  interpretation of the scheduler contract.
\<close>

section \<open>Scores lie in the unit interval\<close>

text \<open>The weights as the dyadic rationals the literals denote, and their rounded sum.\<close>

lemma lit_three_tenths: "lit (3 / 10) = Num (5404319552844595 / 2 ^ 54)"
  by code_simp

lemma lit_two_tenths: "lit (2 / 10) = Num (3602879701896397 / 2 ^ 54)"
  by code_simp

lemmas weights_eq =
  LATENCY_WEIGHT_def[unfolded lit_three_tenths] SUCCESS_RATE_WEIGHT_def[unfolded lit_three_tenths]
  UPLOAD_BANDWIDTH_WEIGHT_def[unfolded lit_two_tenths] TRUST_SCORE_WEIGHT_def[unfolded lit_two_tenths]

lemma dyadic_number:
  "\<bar>m\<bar> \<le> 2 ^ 53 \<Longrightarrow> - 1000 \<le> e \<Longrightarrow> e \<le> 900 \<Longrightarrow> q = of_int m * 2 powi e \<Longrightarrow> toNumber q = Num q"
  using toNumber_scaled[of m e] by simp

lemma weight_times_one:
  "Num (5404319552844595 / 2 ^ 54) * 1 = Num (5404319552844595 / 2 ^ 54)"
  "Num (3602879701896397 / 2 ^ 54) * 1 = Num (3602879701896397 / 2 ^ 54)"
  using dyadic_number[of 5404319552844595 "-54" "5404319552844595 / 2 ^ 54"]
    dyadic_number[of 3602879701896397 "-54" "3602879701896397 / 2 ^ 54"]
  by (simp_all add: one_number_def power_int_minus)

lemma weight_sum_two:
  "Num (5404319552844595 / 2 ^ 54) + Num (5404319552844595 / 2 ^ 54) = Num (5404319552844595 / 2 ^ 53)"
  using dyadic_number[of 5404319552844595 "-53" "5404319552844595 / 2 ^ 53"]
  by (simp add: power_int_minus)

lemma weight_sum_three:
  "Num (5404319552844595 / 2 ^ 53) + Num (3602879701896397 / 2 ^ 54) = Num (7205759403792794 / 2 ^ 53)"
  by code_simp

lemma weight_sum_four:
  "Num (7205759403792794 / 2 ^ 53) + Num (3602879701896397 / 2 ^ 54) = 1"
  by code_simp

lemma weights_sum:
  "LATENCY_WEIGHT * 1 + SUCCESS_RATE_WEIGHT * 1 + UPLOAD_BANDWIDTH_WEIGHT * 1 + TRUST_SCORE_WEIGHT * 1 = 1"
  unfolding weights_eq weight_times_one weight_sum_two weight_sum_three weight_sum_four ..

lemma weight_unit:
  assumes "0 \<le> Num w" "0 \<le> x" "x \<le> 1"
  shows "0 \<le> Num w * x" "Num w * x \<le> Num w * 1"
  using times_nonneg_mono[of "Num w" w x 1] assms by (simp_all add: one_number_def)

definition metrics_ok :: "PeerQualityMetrics \<Rightarrow> bool" where
  "metrics_ok m \<longleftrightarrow>
     0 \<le> qm_latencyMs m \<and> qm_latencyMs m \<le> Num metric_bound \<and>
     0 \<le> qm_successRate m \<and> qm_successRate m \<le> 1 \<and>
     0 \<le> qm_uploadBandwidthBps m \<and> qm_uploadBandwidthBps m \<le> Num metric_bound \<and>
     0 \<le> qm_trustScore m \<and> qm_trustScore m \<le> 1"

lemma latency_score_unit:
  assumes "0 \<le> x" "x \<le> Num B"
  shows "0 \<le> latency_score x" "latency_score x \<le> 1"
proof -
  obtain a where a: "x = Num a" "0 \<le> a" using assms by (cases x) (auto simp: zero_number_def)
  define c where "c = math_min (math_max x 0 / Num 1000) 1"
  have "math_max x 0 / Num 1000 = toNumber (a / 1000)" using a by (simp add: zero_number_def)
  moreover have "0 \<le> toNumber (a / 1000)" using a by (intro zero_le_toNumber) simp
  ultimately have "0 \<le> c" "c \<le> 1" unfolding c_def
    by (auto simp: math_min_def one_number_def number_not_less number_less_imp_le)
  then obtain d where d: "c = Num d" "0 \<le> d" "d \<le> 1"
    by (cases c) (auto simp: zero_number_def one_number_def)
  have "latency_score x = 1 - c" by (simp only: latency_score_def c_def)
  also have "1 - c = toNumber (1 - d)" by (simp add: d(1) one_number_def minus_number_def)
  finally have "latency_score x = toNumber (1 - d)" .
  moreover have "toNumber (1 - d) \<le> toNumber (of_int 1)" using d by (intro toNumber_mono) simp
  ultimately show "0 \<le> latency_score x" "latency_score x \<le> 1"
    using d toNumber_of_int[of 1] by (auto simp: one_number_def intro: zero_le_toNumber)
qed

lemma bandwidth_score_unit:
  assumes "isFinite x" "isFinite m"
  shows "0 \<le> bandwidth_score x m" "bandwidth_score x m \<le> 1"
proof -
  obtain a b where ab: "x = Num a" "m = Num b" using assms by (auto simp: isFinite_iff)
  have "x / m \<noteq> NaN" if "0 < b" using that by (simp add: ab)
  then show "0 \<le> bandwidth_score x m" "bandwidth_score x m \<le> 1"
    using clamp_unit[of "x / m"] ab
    by (auto simp: bandwidth_score_def zero_number_def one_number_def not_le)
qed

lemma score_unit:
  assumes "metrics_ok m" "isFinite M"
  shows "0 \<le> calculatePeerScore m M" "calculatePeerScore m M \<le> 1"
proof -
  have fin: "isFinite (qm_uploadBandwidthBps m)"
    using assms(1) by (cases "qm_uploadBandwidthBps m") (auto simp: metrics_ok_def zero_number_def)
  have clamps: "0 \<le> clamp v 0 1" "clamp v 0 1 \<le> 1" if "0 \<le> v" for v :: number
    using clamp_unit[of v] that by (cases v; auto)+
  note l = latency_score_unit[of "qm_latencyMs m" metric_bound] and b = bandwidth_score_unit[OF fin assms(2)]
  have w: "0 \<le> Num (5404319552844595 / 2 ^ 54)" "0 \<le> Num (3602879701896397 / 2 ^ 54)" by simp_all
  have 1: "0 \<le> LATENCY_WEIGHT * latency_score (qm_latencyMs m)"
    "LATENCY_WEIGHT * latency_score (qm_latencyMs m) \<le> LATENCY_WEIGHT * 1"
    unfolding weights_eq using assms(1) l weight_unit[OF w(1)] by (auto simp only: metrics_ok_def)
  have 2: "0 \<le> SUCCESS_RATE_WEIGHT * clamp (qm_successRate m) 0 1"
    "SUCCESS_RATE_WEIGHT * clamp (qm_successRate m) 0 1 \<le> SUCCESS_RATE_WEIGHT * 1"
    unfolding weights_eq using assms(1) clamps weight_unit[OF w(1)] by (auto simp only: metrics_ok_def)
  have 3: "0 \<le> UPLOAD_BANDWIDTH_WEIGHT * bandwidth_score (qm_uploadBandwidthBps m) M"
    "UPLOAD_BANDWIDTH_WEIGHT * bandwidth_score (qm_uploadBandwidthBps m) M \<le> UPLOAD_BANDWIDTH_WEIGHT * 1"
    unfolding weights_eq using b weight_unit[OF w(2)] by auto
  have 4: "0 \<le> TRUST_SCORE_WEIGHT * clamp (qm_trustScore m) 0 1"
    "TRUST_SCORE_WEIGHT * clamp (qm_trustScore m) 0 1 \<le> TRUST_SCORE_WEIGHT * 1"
    unfolding weights_eq using assms(1) clamps weight_unit[OF w(2)] by (auto simp only: metrics_ok_def)
  note s2 = plus_nonneg_mono[OF 1 2]
  note s3 = plus_nonneg_mono[OF s2 3]
  note s4 = plus_nonneg_mono[OF s3 4]
  show "0 \<le> calculatePeerScore m M" unfolding calculatePeerScore_def by (rule s4(1))
  show "calculatePeerScore m M \<le> 1" unfolding calculatePeerScore_def using s4(2) weights_sum by simp
qed

lemma grid_plus: "isFinite (x + y) \<Longrightarrow> grid_number (x + y)"
  by (cases x; cases y) (auto intro: grid_toNumber simp: isFinite_iff)

lemma unit_finite: "0 \<le> x \<Longrightarrow> x \<le> 1 \<Longrightarrow> isFinite x"
  by (cases x) (auto simp: zero_number_def one_number_def)

lemma score_grid:
  assumes "metrics_ok m" "isFinite M"
  shows "grid_number (calculatePeerScore m M)"
  using unit_finite[OF score_unit[OF assms]] unfolding calculatePeerScore_def by (rule grid_plus)

section \<open>The metric invariant\<close>

definition weighted_inv :: "weighted_state \<Rightarrow> bool" where
  "weighted_inv s \<longleftrightarrow> wf_map (peerMetrics s) \<and>
     (\<forall>k m. map_get (peerMetrics s) k = Some m \<longrightarrow> metrics_ok m) \<and>
     (\<forall>k t. map_get (peerTrustScores s) k = Some t \<longrightarrow> 0 \<le> t \<and> t \<le> 1)"

text \<open>Reported latencies and bandwidths below the astronomic \<open>metric_bound\<close>.\<close>

definition peer_bounded :: "SchedulingPeer \<Rightarrow> bool" where
  "peer_bounded p \<longleftrightarrow> finiteOrZero (sp_latencyMs p) \<le> Num metric_bound \<and>
     finiteOrZero (sp_uploadBandwidthBps p) \<le> Num metric_bound"

definition observation_bounded :: "PeerFetchObservation \<Rightarrow> bool" where
  "observation_bounded ob \<longleftrightarrow> finiteOrZero (ob_latencyMs ob) \<le> Num metric_bound \<and>
     finiteOrZero (ob_bytes ob) \<le> Num (2 ^ 800)"

lemma finiteOrZero_finite [simp]: "isFinite (finiteOrZero v)"
  by (simp add: finiteOrZero_def zero_number_def)

lemma max0_bounds:
  assumes "finiteOrZero v \<le> Num B" "0 \<le> B"
  shows "0 \<le> math_max 0 (finiteOrZero v)" "math_max 0 (finiteOrZero v) \<le> Num B"
  using assms finiteOrZero_finite[of v] by (cases "finiteOrZero v"; simp add: zero_number_def)+

lemma metric_bound_pos: "1 \<le> metric_bound" "0 \<le> metric_bound"
  by (simp_all add: metric_bound_def)

lemma clamp_finite_unit: "0 \<le> clamp (finiteOrZero v) 0 1 \<and> clamp (finiteOrZero v) 0 1 \<le> 1"
  using finiteOrZero_finite[of v] by (intro clamp_unit) (cases "finiteOrZero v"; auto)

lemma tracker_metrics_ok: "peer_bounded p \<Longrightarrow> metrics_ok (tracker_metrics p)"
  using max0_bounds[of "sp_latencyMs p" metric_bound] max0_bounds[of "sp_uploadBandwidthBps p" metric_bound]
    metric_bound_pos clamp_finite_unit
  by (simp add: metrics_ok_def tracker_metrics_def peer_bounded_def)

lemma smooth_ok: "metrics_ok p \<Longrightarrow> metrics_ok v \<Longrightarrow> metrics_ok (smoothMetrics p v)"
  unfolding metrics_ok_def smoothMetrics_def by (simp add: ema_metric ema_unit)

lemma metricsFor_ok:
  assumes "weighted_inv s" "peer_bounded p" "metricsFor p s = (m, s')"
  shows "metrics_ok m" "weighted_inv s'"
proof -
  let ?o = "tracker_metrics p"
  have o: "metrics_ok ?o" by (rule tracker_metrics_ok[OF assms(2)])
  then have t: "0 \<le> qm_trustScore ?o \<and> qm_trustScore ?o \<le> 1" by (simp add: metrics_ok_def)
  have "metrics_ok m \<and> weighted_inv s'"
  proof (cases "map_get (peerMetrics s) (sp_id p)")
    case None
    with assms(1,3) o t show ?thesis
      by (auto simp: metricsFor_def weighted_inv_def Let_def get_set split: if_splits)
  next
    case (Some q)
    then have "metrics_ok q" using assms(1) by (auto simp: weighted_inv_def)
    then have "metrics_ok (smoothMetrics q ?o)" using o by (rule smooth_ok)
    with Some assms(1,3) t show ?thesis
      by (auto simp: metricsFor_def weighted_inv_def Let_def get_set split: if_splits)
  qed
  then show "metrics_ok m" "weighted_inv s'" by auto
qed

lemma elapsed_bounds:
  assumes "0 \<le> lat" "lat \<le> Num metric_bound"
  obtains e where "math_max lat 1 / Num 1000 = Num e" "2 powi (-10) \<le> e"
proof -
  obtain a where a: "lat = Num a" "0 \<le> a" "a \<le> metric_bound"
    using assms by (cases lat) (auto simp: zero_number_def)
  have eq: "math_max lat 1 / Num 1000 = toNumber (max a 1 / 1000)"
    by (simp add: a one_number_def)
  have "toNumber (1 * 2 powi (-10)) \<le> toNumber (max a 1 / 1000)"
    by (intro toNumber_mono) (simp add: power_int_minus field_simps)
  moreover have "toNumber (max a 1 / 1000) \<le> toNumber (2 ^ 900)"
    using a metric_bound_pos by (intro toNumber_mono) (simp add: metric_bound_def)
  moreover have "toNumber (1 * 2 powi (-10)) = Num (2 powi (-10))"
    using toNumber_scaled[of 1 "-10"] by simp
  moreover have "toNumber (2 ^ 900) = Num (2 ^ 900)"
    using toNumber_scaled[of 1 900] by simp
  ultimately have "Num (2 powi (-10)) \<le> math_max lat 1 / Num 1000" "math_max lat 1 / Num 1000 \<le> Num (2 ^ 900)"
    by (simp_all only: eq)
  then show ?thesis using that by (cases "math_max lat 1 / Num 1000") auto
qed

lemma observed_bandwidth:
  assumes "0 \<le> lat" "lat \<le> Num metric_bound" "0 \<le> bytes" "bytes \<le> Num (2 ^ 800)"
  shows "0 \<le> (bytes * Num 8) / (math_max lat 1 / Num 1000)"
    "(bytes * Num 8) / (math_max lat 1 / Num 1000) \<le> Num metric_bound"
proof -
  obtain e where e: "math_max lat 1 / Num 1000 = Num e" "2 powi (-10) \<le> e"
    using elapsed_bounds[OF assms(1,2)] .
  then have e': "1 / 1024 \<le> e" by (simp add: power_int_minus)
  have m: "0 \<le> bytes * Num 8" "bytes * Num 8 \<le> Num (2 ^ 800) * Num 8"
    using times_nonneg_mono[OF assms(3,4), of "Num 8" 8] by simp_all
  have "Num (2 ^ 800) * Num 8 = Num (2 ^ 803)"
    using toNumber_scaled[of 1 803] by simp
  then obtain x where x: "bytes * Num 8 = Num x" "0 \<le> x" "x \<le> 2 ^ 803"
    using m by (cases "bytes * Num 8") (auto simp: zero_number_def)
  have "x / e \<le> 2 ^ 803 / (1 / 1024)" using x e' by (intro frac_le) auto
  also have "\<dots> \<le> 2 ^ 900" by simp
  finally have "toNumber (x / e) \<le> toNumber (2 ^ 900)" by (rule toNumber_mono)
  moreover have "toNumber (2 ^ 900) = Num metric_bound"
    using toNumber_scaled[of 1 900] by (simp add: metric_bound_def)
  moreover have "0 \<le> x / e" "0 < e" using x e' by auto
  ultimately show "0 \<le> (bytes * Num 8) / (math_max lat 1 / Num 1000)"
    "(bytes * Num 8) / (math_max lat 1 / Num 1000) \<le> Num metric_bound"
    by (simp_all add: x(1) e(1) zero_le_toNumber)
qed

lemma observed_ok:
  assumes "observation_bounded ob" "0 \<le> t" "t \<le> 1"
  shows "metrics_ok (observed_metrics ob t)"
proof -
  have "0 \<le> math_max 0 (finiteOrZero (ob_latencyMs ob))"
    "math_max 0 (finiteOrZero (ob_latencyMs ob)) \<le> Num metric_bound"
    "0 \<le> math_max 0 (finiteOrZero (ob_bytes ob))"
    "math_max 0 (finiteOrZero (ob_bytes ob)) \<le> Num (2 ^ 800)"
    using assms(1) max0_bounds metric_bound_pos unfolding observation_bounded_def by auto
  with observed_bandwidth[OF this] assms(2,3) metric_bound_pos show ?thesis
    by (simp add: metrics_ok_def observed_metrics_def Let_def)
qed

lemma observePeer_inv [inv_intros]:
  assumes "weighted_inv s" "observation_bounded ob"
  shows "weighted_inv (observePeer ob s)"
proof (cases "map_get (peerMetrics s) (ob_peerId ob)")
  case None
  with assms show ?thesis by (simp add: observePeer_def)
next
  case (Some p)
  have p: "metrics_ok p" using assms(1) Some by (auto simp: weighted_inv_def)
  define t where "t = (case map_get (peerTrustScores s) (ob_peerId ob) of
    None \<Rightarrow> qm_trustScore p | Some t \<Rightarrow> t)"
  have "0 \<le> t \<and> t \<le> 1" using assms(1) p
    by (auto simp: t_def weighted_inv_def metrics_ok_def split: option.splits)
  then have "metrics_ok (smoothMetrics p (observed_metrics ob t))"
    using smooth_ok[OF p] observed_ok[OF assms(2)] by blast
  with assms(1) Some show ?thesis
    by (auto simp: observePeer_def weighted_inv_def Let_def get_set t_def[symmetric])
qed

lemma reset_inv [inv_intros]: "weighted_inv (reset_weighted s)"
  by (simp add: reset_weighted_def weighted_inv_def)

lemma new_weighted_inv [inv_intros]: "weighted_inv (new_weighted t)"
  by (simp add: new_weighted_def weighted_inv_def)

lemma reconcile_fold:
  "fold (\<lambda>peerId s. if P peerId then s
        else s\<lparr>peerMetrics := map_delete (peerMetrics s) peerId,
               peerTrustScores := map_delete (peerTrustScores s) peerId\<rparr>) ks s =
   s\<lparr>peerMetrics := fold (\<lambda>k m. map_delete m k) (filter (\<lambda>k. \<not> P k) ks) (peerMetrics s),
     peerTrustScores := fold (\<lambda>k m. map_delete m k) (filter (\<lambda>k. \<not> P k) ks) (peerTrustScores s)\<rparr>"
  by (induction ks arbitrary: s) auto

lemma get_fold_delete:
  "map_get (fold (\<lambda>k m. map_delete m k) ks m) k = (if k \<in> set ks then None else map_get m k)"
  by (induction ks arbitrary: m) (auto simp: get_delete)

lemma wf_fold_delete: "wf_map m \<Longrightarrow> wf_map (fold (\<lambda>k m. map_delete m k) ks m)"
  by (induction ks arbitrary: m) auto

lemma reconcile_get:
  "map_get (peerMetrics (reconcilePeers peers s)) k =
     (if k \<in> sp_id ` set peers then map_get (peerMetrics s) k else None)"
proof -
  have "map_get (peerMetrics s) k = None" if "k \<notin> set (map_keys (peerMetrics s))"
    using that by (simp add: map_of_eq_None_iff)
  then show ?thesis
    by (auto simp: reconcilePeers_def reconcile_fold get_fold_delete)
qed

lemma reconcile_inv [inv_intros]: "weighted_inv s \<Longrightarrow> weighted_inv (reconcilePeers peers s)"
  by (auto simp: weighted_inv_def reconcilePeers_def reconcile_fold get_fold_delete wf_fold_delete)

lemma measure_all_spec:
  assumes "weighted_inv s" "\<forall>(p, i)\<in>set ps. peer_bounded p" "measure_all ps s = (cs, s')"
  shows "map (\<lambda>c. (rc_peer c, rc_inputIndex c)) cs = ps" "\<forall>c\<in>set cs. metrics_ok (rc_metrics c)" "weighted_inv s'"
proof -
  have "map (\<lambda>c. (rc_peer c, rc_inputIndex c)) cs = ps \<and> (\<forall>c\<in>set cs. metrics_ok (rc_metrics c)) \<and> weighted_inv s'"
    using assms
  proof (induction ps s arbitrary: cs s' rule: measure_all.induct)
    case (2 p i ps s)
    obtain m s1 where m: "metricsFor p s = (m, s1)" by (metis prod.exhaust)
    obtain r s2 where r: "measure_all ps s1 = (r, s2)" by (metis prod.exhaust)
    have "metrics_ok m" "weighted_inv s1" using metricsFor_ok[OF 2(2) _ m] 2(3) by auto
    with "2.IH"[OF m[symmetric] _ _ r] 2(3,4) m r show ?case by auto
  qed auto
  then show "map (\<lambda>c. (rc_peer c, rc_inputIndex c)) cs = ps" "\<forall>c\<in>set cs. metrics_ok (rc_metrics c)" "weighted_inv s'"
    by auto
qed

section \<open>Ranking\<close>

lemma num_or_positive:
  assumes "grid_number x" "grid_number y"
  shows "num_or (y - x) (int_number i) > 0 \<longleftrightarrow> y > x \<or> (y = x \<and> i > 0)"
proof (cases "y = x")
  case True
  with diff_sign(3)[OF assms(2,1)] show ?thesis by (simp add: num_or_def zero_number_def) (use assms in \<open>cases x; simp\<close>)
next
  case False
  with diff_sign(1,3)[OF assms(2,1)] show ?thesis by (simp add: num_or_def)
qed

definition scored :: "(RankedCandidate \<times> number) \<Rightarrow> bool" where
  "scored p \<longleftrightarrow> grid_number (snd p)"

lemma ranked_after_iff:
  "scored l \<Longrightarrow> scored r \<Longrightarrow>
     ranked_after l r \<longleftrightarrow> snd r > snd l \<or> (snd r = snd l \<and> tie_index (fst l) > tie_index (fst r))"
  unfolding ranked_after_def scored_def by (subst num_or_positive) auto

lemma grid_finite: "grid_number x \<Longrightarrow> \<exists>q. x = Num q"
  by (cases x) auto

lemma rank_sorted:
  assumes "\<forall>p\<in>set ps. scored p"
  shows "sorted_wrt (\<lambda>l r. \<not> ranked_after l r) (sort_by ranked_after ps)"
  using _ _ assms
proof (rule sorted_sort_by)
  fix a b c
  assume s: "scored a" "scored b" "scored c"
  show "\<not> ranked_after a b \<Longrightarrow> \<not> ranked_after b c \<Longrightarrow> \<not> ranked_after a c"
  proof -
    obtain x y z where "snd a = Num x" "snd b = Num y" "snd c = Num z"
      using s grid_finite unfolding scored_def by metis
    then show "\<not> ranked_after a b \<Longrightarrow> \<not> ranked_after b c \<Longrightarrow> \<not> ranked_after a c"
      using s by (simp add: ranked_after_iff) linarith
  qed
next
  fix a b
  assume "scored a" "scored b" "ranked_after a b"
  moreover from this obtain x y where "snd a = Num x" "snd b = Num y"
    using grid_finite unfolding scored_def by metis
  ultimately show "\<not> ranked_after b a"
    by (simp add: ranked_after_iff) linarith
qed

lemma fold_max_finite:
  "isFinite m \<Longrightarrow> \<forall>x\<in>set xs. isFinite x \<Longrightarrow> isFinite (fold math_max xs m)"
  by (induction xs arbitrary: m) auto

lemma metrics_ok_finite: "metrics_ok m \<Longrightarrow> isFinite (qm_uploadBandwidthBps m)"
  by (cases "qm_uploadBandwidthBps m") (auto simp: metrics_ok_def zero_number_def)

lemma rank_candidates_spec:
  assumes "\<forall>c\<in>set cs. metrics_ok (rc_metrics c)"
  shows "\<forall>p\<in>set (rank_candidates cs). fst p \<in> set cs \<and> scored p \<and> 0 \<le> snd p \<and> snd p \<le> 1"
    and "sorted_wrt (\<lambda>l r. \<not> ranked_after l r) (rank_candidates cs)"
    and "length (rank_candidates cs) = length cs"
    and "fst ` set (rank_candidates cs) = set cs"
proof -
  define M where "M = fold math_max (map (\<lambda>c. qm_uploadBandwidthBps (rc_metrics c)) cs) 0"
  have M: "isFinite M" unfolding M_def
    using assms by (intro fold_max_finite) (auto simp: metrics_ok_finite zero_number_def)
  have eq: "rank_candidates cs = sort_by ranked_after (map (\<lambda>c. (c, calculatePeerScore (rc_metrics c) M)) cs)"
    by (simp add: rank_candidates_def M_def)
  show 1: "\<forall>p\<in>set (rank_candidates cs). fst p \<in> set cs \<and> scored p \<and> 0 \<le> snd p \<and> snd p \<le> 1"
    using assms M score_unit score_grid by (auto simp: eq scored_def)
  show "sorted_wrt (\<lambda>l r. \<not> ranked_after l r) (rank_candidates cs)"
    unfolding eq using 1 by (intro rank_sorted) (auto simp: eq)
  show "length (rank_candidates cs) = length cs" by (simp add: eq)
  show "fst ` set (rank_candidates cs) = set cs" by (force simp: eq)
qed

lemma ranked_entries_spec:
  "length (ranked_entries ps) = length ps"
  "i < length ps \<Longrightarrow> ranked_entries ps ! i =
     \<lparr>rp_peerId = sp_id (rc_peer (fst (ps ! i))), rp_score = Some (snd (ps ! i)),
      rp_rank = nat_number (i + 1),
      rp_reasons = [''trusted'', ''segment_available'', ''weighted_score'']\<rparr>"
  by (simp_all add: ranked_entries_def nth_enumerate_eq split: prod.split)

lemma rank_ok_index: "i < n \<Longrightarrow> n < 2 ^ 53 \<Longrightarrow> rank_ok (nat_number (i + 1)) n"
proof -
  assume i: "i < n" "n < 2 ^ 53"
  then have "int (i + 1) \<le> 2 ^ 53 - 1" by simp
  then have "(of_int (int (i + 1)) :: rat) \<le> of_int (2 ^ 53 - 1)" by (simp only: of_int_le_iff)
  with i show ?thesis by (simp add: rank_ok_def one_number_def)
qed

lemma ranked_entries_ok:
  assumes "\<forall>p\<in>set ps. candidate_of context (sp_id (rc_peer (fst p))) \<noteq> None \<and>
      sp_id (rc_peer (fst p)) \<noteq> cx_selfPeerId context \<and> isFinite (snd p)"
    and "length ps < 2 ^ 53"
  shows "ranked_ok context (ranked_entries ps)"
proof -
  let ?rs = "ranked_entries ps"
  have "candidate_of context (rp_peerId r) \<noteq> None \<and> rp_peerId r \<noteq> cx_selfPeerId context \<and>
      rank_ok (rp_rank r) (length ?rs) \<and> (case rp_score r of None \<Rightarrow> True | Some x \<Rightarrow> isFinite x)"
    if mem: "r \<in> set ?rs" for r
  proof -
    obtain i where i: "i < length ps" "r = ?rs ! i" 
      using mem unfolding in_set_conv_nth ranked_entries_spec(1) by blast
    have q: "ps ! i \<in> set ps" using i(1) by simp
    note r = i(2)[unfolded ranked_entries_spec(2)[OF i(1)]]
    show ?thesis
      using bspec[OF assms(1) q] rank_ok_index[OF i(1) assms(2)]
      by (simp only: r RankedPeer.simps ranked_entries_spec(1) option.case simp_thms)
  qed
  moreover have "distinct (map rp_rank ?rs)"
    by (simp add: distinct_conv_nth ranked_entries_spec)
  ultimately show ?thesis by (simp add: ranked_ok_def)
qed

section \<open>Plans\<close>

text \<open>
  The contexts the policy is used in: distinct candidates whose numbers are below the metric
  bound, room for one peer, a valid deadline.
\<close>

definition weighted_admissible :: "SegmentSchedulingContext \<Rightarrow> bool" where
  "weighted_admissible context \<longleftrightarrow>
     deadline_ok (cx_deadline context) \<and> \<not> 1 > cx_maximumParallelism context \<and>
     distinct (map sp_id (cx_candidates context)) \<and>
     (\<forall>p\<in>set (cx_candidates context). peer_bounded p) \<and>
     length (cx_candidates context) < 2 ^ 53"

lemma candidate_of_distinct:
  assumes "distinct (map sp_id (cx_candidates context))" "p \<in> set (cx_candidates context)"
  shows "candidate_of context (sp_id p) = Some p"
proof -
  have "find (\<lambda>c. sp_id c = sp_id p) cs = Some p" if "distinct (map sp_id cs)" "p \<in> set cs" for cs
    using that by (induction cs) (auto simp: rev_image_eqI)
  from this[of "rev (cx_candidates context)"] assms show ?thesis
    by (simp add: candidate_of_def flip: rev_map)
qed

lemma not_less_zero_one: "\<not> 1 > m \<Longrightarrow> \<not> (0::number) > m" "\<not> 1 > m \<Longrightarrow> \<not> nat_number 0 > m"
    "\<not> 1 > m \<Longrightarrow> \<not> nat_number (Suc 0) > m"
  by (cases m; auto simp: zero_number_def one_number_def)+

lemma originPlan_ok:
  "deadline_ok (cx_deadline context) \<Longrightarrow> \<not> 1 > cx_maximumParallelism context \<Longrightarrow>
     plan_ok policy context (originPlan policy reason)"
  using not_less_zero_one(2) by (simp add: plan_ok_def originPlan_def ranked_ok_def hints_ok_def)

text \<open>The measured and still trusted candidates a selection was made from.\<close>

lemma planSegment_cases:
  assumes "weighted_inv s" "weighted_admissible context" "planSegment context s = (plan, s')"
  obtains (origin) reason where "plan = originPlan weighted_policy reason" "weighted_inv s'"
  | (peer) ranked c score rest where
      "ranked = (c, score) # rest" "weighted_inv s'"
      "plan = \<lparr>pl_policy = weighted_policy, pl_mode = SinglePeer, pl_peerIds = [sp_id (rc_peer c)],
         pl_rankedPeers = ranked_entries ranked, pl_reason = PeerSelected, pl_execution = None\<rparr>"
      "\<forall>p\<in>set ranked. rc_peer (fst p) \<in> set (cx_candidates context) \<and>
         eligible context (rc_peer (fst p)) \<and> MINIMUM_TRUST_SCORE \<le> qm_trustScore (rc_metrics (fst p)) \<and>
         scored p \<and> 0 \<le> snd p \<and> snd p \<le> 1"
      "sorted_wrt (\<lambda>l r. \<not> ranked_after l r) ranked"
      "length ranked \<le> length (cx_candidates context)"
proof -
  let ?zs = "filter (\<lambda>(peer, i). eligible context peer)
      (zip (cx_candidates context) [0..<length (cx_candidates context)])"
  obtain ms s1 where m: "measure_all ?zs s = (ms, s1)" by (metis prod.exhaust)
  let ?cs = "filter (\<lambda>c. MINIMUM_TRUST_SCORE \<le> qm_trustScore (rc_metrics c)) ms"
  have in_zip: "peer \<in> set (cx_candidates context)" if "(peer, i) \<in> set ?zs" for peer i
    using that by (auto dest: set_zip_leftD)
  have bounded: "\<forall>(p, i)\<in>set ?zs. peer_bounded p"
    using assms(2) in_zip unfolding weighted_admissible_def by blast
  note M = measure_all_spec[OF assms(1) bounded m]
  have ok: "\<forall>c\<in>set ?cs. metrics_ok (rc_metrics c)" using M(2) by simp
  note R = rank_candidates_spec[OF ok]
  have elig: "rc_peer c \<in> set (cx_candidates context) \<and> eligible context (rc_peer c)" if "c \<in> set ms" for c
  proof -
    have "(rc_peer c, rc_inputIndex c) \<in> set ?zs" using that M(1) by (metis (mono_tags) image_eqI list.set_map)
    then show ?thesis using in_zip by auto
  qed
  have len: "length ms \<le> length (cx_candidates context)"
    using arg_cong[OF M(1), of length] length_filter_le[of _ "zip (cx_candidates context) [0..<length (cx_candidates context)]"]
    by simp
  show ?thesis
  proof (cases "(case cx_segmentsAhead context of
      None \<Rightarrow> False | Some ahead \<Rightarrow> ahead < urgentThresholdSegments s) \<or> cx_candidates context = []")
    case True
    with assms(1,3) show ?thesis by (auto simp: planSegment_def split: if_splits intro: origin)
  next
    case False
    then have red: "planSegment context s = (case rank_candidates ?cs of
        [] \<Rightarrow> (originPlan weighted_policy NoEligibleCandidates, s1)
      | (selected, score) # rest \<Rightarrow>
          (\<lparr>pl_policy = weighted_policy, pl_mode = SinglePeer,
            pl_peerIds = [sp_id (rc_peer selected)],
            pl_rankedPeers = ranked_entries ((selected, score) # rest),
            pl_reason = PeerSelected, pl_execution = None\<rparr>, s1))"
      by (simp add: planSegment_def m)
    show ?thesis
    proof (cases "rank_candidates ?cs")
      case Nil
      with red assms(3) M(3) show ?thesis by (auto intro: origin)
    next
      case (Cons a rest)
      obtain c score where a: "a = (c, score)" by (cases a)
      show ?thesis
      proof (rule peer)
        show "rank_candidates ?cs = (c, score) # rest" using Cons a by simp
        show "weighted_inv s'" using red assms(3) M(3) Cons a by simp
        show "plan = \<lparr>pl_policy = weighted_policy, pl_mode = SinglePeer, pl_peerIds = [sp_id (rc_peer c)],
            pl_rankedPeers = ranked_entries (rank_candidates ?cs), pl_reason = PeerSelected, pl_execution = None\<rparr>"
          using red assms(3) Cons a by simp
        show "\<forall>p\<in>set (rank_candidates ?cs). rc_peer (fst p) \<in> set (cx_candidates context) \<and>
            eligible context (rc_peer (fst p)) \<and> MINIMUM_TRUST_SCORE \<le> qm_trustScore (rc_metrics (fst p)) \<and>
            scored p \<and> 0 \<le> snd p \<and> snd p \<le> 1"
          using R(1) elig by auto
        show "sorted_wrt (\<lambda>l r. \<not> ranked_after l r) (rank_candidates ?cs)" by (rule R(2))
        show "length (rank_candidates ?cs) \<le> length (cx_candidates context)"
          using R(3) len length_filter_le[of _ ms] by (metis le_trans)
      qed
    qed
  qed
qed

lemma planSegment_ok:
  assumes "weighted_inv s" "weighted_admissible context" "planSegment context s = (plan, s')"
  shows "plan_ok weighted_policy context plan" "weighted_inv s'"
proof -
  note adm = assms(2)[unfolded weighted_admissible_def]
  have "plan_ok weighted_policy context plan \<and> weighted_inv s'"
    using assms
  proof (cases rule: planSegment_cases)
    case (origin reason)
    with adm originPlan_ok show ?thesis by auto
  next
    case (peer ranked c score rest)
    have cand: "candidate_of context (sp_id (rc_peer (fst p))) = Some (rc_peer (fst p))" if "p \<in> set ranked" for p
      using candidate_of_distinct adm peer(4) that by auto
    have "ranked_ok context (ranked_entries ranked)"
      using peer(4,6) adm cand unit_finite by (intro ranked_entries_ok) (auto simp: eligible_def)
    moreover have "offers context (sp_id (rc_peer c))"
      using cand[of "(c, score)"] peer(1,4) by (auto simp: offers_def eligible_def)
    ultimately show ?thesis
      using adm not_less_zero_one(3) peer(2) by (simp add: peer(3) plan_ok_def hints_ok_def)
  qed
  then show "plan_ok weighted_policy context plan" "weighted_inv s'" by auto
qed

interpretation weighted: segment_scheduler weighted_policy weighted_scheduler weighted_inv weighted_admissible
proof
  fix s c
  assume "weighted_inv s" "weighted_admissible c"
  then show "\<exists>p s'. weighted_scheduler c s = (Inr p, s') \<and> plan_ok weighted_policy c p"
    and "weighted_inv (snd (weighted_scheduler c s))"
    using planSegment_ok by (cases "planSegment c s"; auto simp: weighted_scheduler_def)+
qed

section \<open>Properties\<close>

text \<open>Scores are normalised: for metrics in range the weighted score, computed in rounded
  binary64 arithmetic, lies between 0 and 1.\<close>

theorem peer_score_unit:
  assumes "metrics_ok metrics" "isFinite maximumUploadBandwidthBps"
  shows "0 \<le> calculatePeerScore metrics maximumUploadBandwidthBps \<and>
    calculatePeerScore metrics maximumUploadBandwidthBps \<le> 1"
  using score_unit[OF assms] by simp

definition sample_metrics :: PeerQualityMetrics where
  "sample_metrics = \<lparr>qm_latencyMs = Num 100, qm_successRate = 1, qm_uploadBandwidthBps = Num 500,
     qm_trustScore = 1\<rparr>"

theorem peer_score_unit_witness:
  "0 \<le> calculatePeerScore sample_metrics (Num 1000) \<and> calculatePeerScore sample_metrics (Num 1000) \<le> 1"
  by (rule peer_score_unit)
    (simp_all add: sample_metrics_def metrics_ok_def zero_number_def one_number_def metric_bound_def)

text \<open>For every admissible context the policy's plan passes validation, so safe planning
  hands it on unchanged and without warnings, and the metric invariant is kept.\<close>

theorem weighted_plan_accepted:
  assumes "weighted_inv s" "weighted_admissible context"
  shows "\<exists>plan s'. weighted_scheduler context s = (Inr plan, s') \<and> weighted_inv s' \<and>
    plan_ok weighted_policy context plan \<and>
    planSegmentSafely weighted_policy weighted_scheduler context s = ((plan, []), s')"
  using weighted.safely_transparent[OF assms] .

definition sample_peer :: "string \<Rightarrow> SchedulingPeer" where
  "sample_peer i = \<lparr>sp_id = i, sp_latencyMs = Num 20, sp_successRate = 1,
     sp_uploadBandwidthBps = Num 1000, sp_trustScore = 1, sp_segments = [''s1.ts''],
     sp_originalIndex = None\<rparr>"

definition sample_context :: SegmentSchedulingContext where
  "sample_context = \<lparr>cx_segmentId = ''s1.ts'', cx_segmentsAhead = Some (Num 5), cx_deadline = None,
     cx_candidates = [sample_peer ''a'', sample_peer ''b''], cx_selfPeerId = ''me'',
     cx_maximumParallelism = Num 3\<rparr>"

lemma sample_admissible: "weighted_admissible sample_context"
  by (simp add: weighted_admissible_def sample_context_def sample_peer_def peer_bounded_def
      finiteOrZero_def metric_bound_def deadline_ok_def one_number_def)

theorem weighted_plan_accepted_witness:
  "\<exists>plan s'. weighted_scheduler sample_context (new_weighted None) = (Inr plan, s') \<and> weighted_inv s' \<and>
    plan_ok weighted_policy sample_context plan \<and>
    planSegmentSafely weighted_policy weighted_scheduler sample_context (new_weighted None) = ((plan, []), s')"
  by (rule weighted_plan_accepted[OF new_weighted_inv sample_admissible])

lemma ranked_scores_sorted:
  assumes "sorted_wrt (\<lambda>l r. \<not> ranked_after l r) ps" "\<forall>p\<in>set ps. scored p"
  shows "sorted_wrt (\<lambda>a b. the (rp_score b) \<le> the (rp_score a)) (ranked_entries ps)"
proof -
  have "snd r \<le> snd l" if "scored l" "scored r" "\<not> ranked_after l r" for l r
    using that grid_finite[of "snd l"] grid_finite[of "snd r"] ranked_after_iff[of l r]
    unfolding scored_def by auto
  with assms show ?thesis
    by (simp add: sorted_wrt_iff_nth_less ranked_entries_spec)
qed

text \<open>The best peer is selected: unless the plan is the Origin, it selects exactly the head of
  the ranking, scores never increase along the ranking, and every ranked peer is a trusted
  candidate other than the local one that advertises the segment.\<close>

theorem weighted_selects_best:
  assumes "weighted_inv s" "weighted_admissible context"
  shows "case planSegment context s of (plan, s') \<Rightarrow>
    pl_mode plan = OriginMode \<or>
    pl_peerIds plan = [rp_peerId (hd (pl_rankedPeers plan))] \<and>
    sorted_wrt (\<lambda>a b. the (rp_score b) \<le> the (rp_score a)) (pl_rankedPeers plan) \<and>
    list_all (\<lambda>r. list_ex (\<lambda>peer. sp_id peer = rp_peerId r \<and> eligible context peer) (cx_candidates context))
      (pl_rankedPeers plan)"
proof -
  obtain plan s' where p: "planSegment context s = (plan, s')" by fastforce
  from assms p show ?thesis
  proof (cases rule: planSegment_cases)
    case (origin reason)
    then show ?thesis by (simp add: p originPlan_def)
  next
    case (peer ranked c score rest)
    have "\<exists>q\<in>set ranked. rp_peerId r = sp_id (rc_peer (fst q))" if mem: "r \<in> set (ranked_entries ranked)" for r
    proof -
      obtain i where i: "i < length ranked" "r = ranked_entries ranked ! i"
        using mem unfolding in_set_conv_nth ranked_entries_spec(1) by blast
      then show ?thesis using ranked_entries_spec(2)[OF i(1)] nth_mem[OF i(1)] by auto
    qed
    then have "list_all (\<lambda>r. list_ex (\<lambda>peer. sp_id peer = rp_peerId r \<and> eligible context peer) (cx_candidates context))
        (ranked_entries ranked)"
      using peer(4) by (fastforce simp: list_all_iff list_ex_iff)
    moreover have "hd (ranked_entries ranked) = ranked_entries ranked ! 0"
      using peer(1) by (intro hd_conv_nth) (simp add: ranked_entries_def)
    ultimately show ?thesis
      using peer(4) ranked_scores_sorted[OF peer(5)] ranked_entries_spec(2)[of 0 ranked] peer(1)
      by (simp add: p peer(3))
  qed
qed

theorem weighted_selects_best_witness:
  "case planSegment sample_context (new_weighted None) of (plan, s') \<Rightarrow>
    pl_mode plan = OriginMode \<or>
    pl_peerIds plan = [rp_peerId (hd (pl_rankedPeers plan))] \<and>
    sorted_wrt (\<lambda>a b. the (rp_score b) \<le> the (rp_score a)) (pl_rankedPeers plan) \<and>
    list_all (\<lambda>r. list_ex (\<lambda>peer. sp_id peer = rp_peerId r \<and> eligible sample_context peer)
      (cx_candidates sample_context)) (pl_rankedPeers plan)"
  by (rule weighted_selects_best[OF new_weighted_inv sample_admissible])

text \<open>The operations of the scheduler object, in any order.\<close>

datatype weighted_op =
    PlanOp SegmentSchedulingContext
  | ObserveOp PeerFetchObservation
  | ReconcileOp "SchedulingPeer list"
  | ResetOp

fun apply_op :: "weighted_op \<Rightarrow> weighted_state \<Rightarrow> weighted_state" where
  "apply_op (PlanOp context) s = snd (planSegment context s)"
| "apply_op (ObserveOp ob) s = observePeer ob s"
| "apply_op (ReconcileOp peers) s = reconcilePeers peers s"
| "apply_op ResetOp s = reset_weighted s"

fun op_bounded :: "weighted_op \<Rightarrow> bool" where
  "op_bounded (PlanOp context) = weighted_admissible context"
| "op_bounded (ObserveOp ob) = observation_bounded ob"
| "op_bounded (ReconcileOp peers) = True"
| "op_bounded ResetOp = True"

lemma planSegment_inv [inv_intros]:
  "weighted_inv s \<Longrightarrow> weighted_admissible context \<Longrightarrow> weighted_inv (snd (planSegment context s))"
  by (cases "planSegment context s") (simp add: planSegment_ok(2))

lemma apply_op_inv: "weighted_inv s \<Longrightarrow> op_bounded x \<Longrightarrow> weighted_inv (apply_op x s)"
  by (cases x) (simp_all add: inv_intros)

lemma fold_op_inv: "weighted_inv s \<Longrightarrow> \<forall>x\<in>set xs. op_bounded x \<Longrightarrow> weighted_inv (fold apply_op xs s)"
  by (induction xs arbitrary: s) (simp_all add: apply_op_inv)

text \<open>After any sequence of plans, observations, reconciliations and resets, with reported
  values below the metric bound, every remembered metric is in range: latency and bandwidth
  non-negative, success rate and trust between 0 and 1.\<close>

theorem weighted_metrics_in_range:
  assumes "list_all op_bounded ops"
  shows "case getPeerMetrics (fold apply_op ops (new_weighted threshold)) peerId of
    None \<Rightarrow> True | Some m \<Rightarrow> metrics_ok m"
  using fold_op_inv[OF new_weighted_inv, of ops threshold] assms
  by (auto simp: list_all_iff weighted_inv_def getPeerMetrics_def split: option.split)

theorem weighted_metrics_in_range_witness:
  "case getPeerMetrics (fold apply_op [PlanOp sample_context, ObserveOp \<lparr>ob_peerId = ''a'', ob_succeeded = False,
      ob_latencyMs = Num 5000, ob_bytes = 0, ob_failureReason = None\<rparr>] (new_weighted None)) ''a'' of
    None \<Rightarrow> True | Some m \<Rightarrow> metrics_ok m"
  by (rule weighted_metrics_in_range)
    (simp add: sample_admissible observation_bounded_def finiteOrZero_def metric_bound_def)

end
