(* ===== verification/OriginLatency.thy ===== *)
theory OriginLatency
  imports JsNumber
begin

text \<open>
  The Origin latency estimate of a Node peer (\<^verbatim>\<open>peer/src/origin-latency-estimator.ts\<close>): an
  exponentially weighted average clamped to configured bounds, in rounded arithmetic.
\<close>

section \<open>Model\<close>

record OriginLatencyEstimatorOptions =
  opt_initialEstimateMs :: "number option"
  opt_alpha :: "number option"
  opt_minMs :: "number option"
  opt_maxMs :: "number option"

record OriginLatencyEstimator =
  initialEstimateMs :: number
  alpha :: number
  minMs :: number
  maxMs :: number
  currentEstimateMs :: number

datatype estimator_error =
    MustBeFinite string
  | AlphaOutOfRange
  | MinNegative
  | MaxBelowMin

definition opt_or :: "'a option \<Rightarrow> 'a \<Rightarrow> 'a" where
  "opt_or v d = (case v of None \<Rightarrow> d | Some x \<Rightarrow> x)"

definition new_estimator ::
    "OriginLatencyEstimatorOptions \<Rightarrow> (estimator_error, OriginLatencyEstimator) result" where
  "new_estimator options =
     (let initial = opt_or (opt_initialEstimateMs options) (Num 500);
          a = opt_or (opt_alpha options) (lit (3 / 10));
          lo = opt_or (opt_minMs options) (Num 50);
          hi = opt_or (opt_maxMs options) (Num 10000) in
      if \<not> isFinite initial then throw (MustBeFinite ''initialEstimateMs'')
      else if \<not> isFinite a then throw (MustBeFinite ''alpha'')
      else if \<not> isFinite lo then throw (MustBeFinite ''minMs'')
      else if \<not> isFinite hi then throw (MustBeFinite ''maxMs'')
      else if a \<le> 0 \<or> a > 1 then throw AlphaOutOfRange
      else if lo < 0 then throw MinNegative
      else if hi < lo then throw MaxBelowMin
      else return \<lparr>initialEstimateMs = clamp initial lo hi, alpha = a, minMs = lo, maxMs = hi,
                   currentEstimateMs = clamp initial lo hi\<rparr>)"

definition estimateMs :: "OriginLatencyEstimator \<Rightarrow> number" where
  "estimateMs s = currentEstimateMs s"

definition observe :: "number \<Rightarrow> OriginLatencyEstimator \<Rightarrow> OriginLatencyEstimator" where
  "observe latencyMs s =
     (if \<not> isFinite latencyMs then s
      else
        (let boundedLatencyMs = clamp latencyMs (minMs s) (maxMs s) in
         s\<lparr>currentEstimateMs :=
             clamp (alpha s * boundedLatencyMs + (1 - alpha s) * currentEstimateMs s)
               (minMs s) (maxMs s)\<rparr>))"

definition reset_estimator :: "OriginLatencyEstimator \<Rightarrow> OriginLatencyEstimator" where
  "reset_estimator s = s\<lparr>currentEstimateMs := initialEstimateMs s\<rparr>"

section \<open>The estimate stays within its bounds\<close>

definition estimator_inv :: "OriginLatencyEstimator \<Rightarrow> bool" where
  "estimator_inv s \<longleftrightarrow>
     isFinite (alpha s) \<and> 0 < alpha s \<and> alpha s \<le> 1 \<and> isFinite (maxMs s) \<and> 0 \<le> minMs s \<and>
     minMs s \<le> initialEstimateMs s \<and> initialEstimateMs s \<le> maxMs s \<and>
     minMs s \<le> currentEstimateMs s \<and> currentEstimateMs s \<le> maxMs s"

lemma nonneg_times: "0 \<le> Num a \<Longrightarrow> 0 \<le> Num b \<Longrightarrow> 0 \<le> Num a * Num b"
  by (simp add: zero_le_toNumber)

lemma nonneg_plus: "0 \<le> x \<Longrightarrow> 0 \<le> y \<Longrightarrow> 0 \<le> x + (y :: number)"
  by (cases x; cases y) (auto intro: zero_le_toNumber)

lemma nonneg_not_NaN: "0 \<le> x \<Longrightarrow> x \<noteq> (NaN :: number)"
  by (cases x) auto

lemma between_finite: "0 \<le> lo \<Longrightarrow> lo \<le> x \<Longrightarrow> x \<le> hi \<Longrightarrow> isFinite hi \<Longrightarrow> \<exists>q. x = Num q \<and> 0 \<le> q"
  by (cases x; cases lo; cases hi) (auto simp: zero_number_def)

lemma one_minus_nonneg: "isFinite a \<Longrightarrow> a \<le> 1 \<Longrightarrow> 0 \<le> 1 - a"
  by (cases a) (auto simp: one_number_def minus_number_def intro: zero_le_toNumber)

lemma one_minus_finite:
  assumes "isFinite a" "0 < a" "a \<le> 1"
  shows "\<exists>q. 1 - a = Num q \<and> 0 \<le> q"
proof -
  obtain x where x: "a = Num x" "0 < x" "x \<le> 1"
    using assms by (cases a) (auto simp: zero_number_def one_number_def)
  have "1 - a = toNumber (1 - x)" by (simp add: x(1) one_number_def minus_number_def)
  moreover have "toNumber (1 - x) \<le> toNumber (of_int 1)" using x by (intro toNumber_mono) simp
  moreover have "0 \<le> toNumber (1 - x)" using x by (intro zero_le_toNumber) simp
  ultimately show ?thesis using toNumber_of_int[of 1] by (cases "toNumber (1 - x)") auto
qed

lemma new_estimator_inv:
  assumes "new_estimator options = return s"
  shows "estimator_inv s"
proof -
  obtain i a lo hi where v: "isFinite i" "isFinite a" "isFinite lo" "isFinite hi"
    "\<not> a \<le> 0" "\<not> a > 1" "\<not> lo < 0" "\<not> hi < lo"
    and s: "s = \<lparr>initialEstimateMs = clamp i lo hi, alpha = a, minMs = lo, maxMs = hi,
      currentEstimateMs = clamp i lo hi\<rparr>"
    using assms by (auto simp: new_estimator_def Let_def split: if_splits)
  have "i \<noteq> NaN" "lo \<le> hi" "0 \<le> lo" "0 < a" "a \<le> 1"
    using v(1,2,5,6) number_not_less[of hi lo] number_not_less[of lo 0] v(3,4,7,8) by (auto elim!: isFiniteE)
  then show ?thesis using v clamp_bounds[of i lo hi] by (simp add: s estimator_inv_def)
qed

lemma observe_inv [inv_intros]:
  assumes "estimator_inv s"
  shows "estimator_inv (observe latencyMs s)"
proof (cases "isFinite latencyMs")
  case True
  note i = assms[unfolded estimator_inv_def]
  have le: "minMs s \<le> maxMs s" using i number_le_trans by blast
  obtain a where a: "alpha s = Num a" "0 \<le> a"
    using i by (cases "alpha s") (auto simp: zero_number_def)
  obtain r where r: "1 - alpha s = Num r" "0 \<le> r" using i one_minus_finite by blast
  obtain c where c: "currentEstimateMs s = Num c" "0 \<le> c" using i between_finite by blast
  have "latencyMs \<noteq> NaN" using True by auto
  then have "minMs s \<le> clamp latencyMs (minMs s) (maxMs s)" "clamp latencyMs (minMs s) (maxMs s) \<le> maxMs s"
    using clamp_bounds le by blast+
  then obtain b where b: "clamp latencyMs (minMs s) (maxMs s) = Num b" "0 \<le> b"
    using i between_finite by blast
  have "0 \<le> alpha s * Num b + (1 - alpha s) * currentEstimateMs s"
    unfolding a(1) r(1)[unfolded a(1)] c(1) using a r c b by (intro nonneg_plus nonneg_times) simp_all
  then have "alpha s * Num b + (1 - alpha s) * currentEstimateMs s \<noteq> NaN" by (rule nonneg_not_NaN)
  from clamp_bounds[OF this le] show ?thesis
    using i True by (simp add: observe_def Let_def b(1) estimator_inv_def)
qed (use assms in \<open>simp add: observe_def\<close>)

lemma reset_estimator_inv [inv_intros]: "estimator_inv s \<Longrightarrow> estimator_inv (reset_estimator s)"
  by (simp add: estimator_inv_def reset_estimator_def)

lemma fold_observe_inv: "estimator_inv s \<Longrightarrow> estimator_inv (fold observe latencies s)"
  by (induction latencies arbitrary: s) (simp_all add: observe_inv)

lemma observe_bounds_kept [simp]:
  "minMs (observe l s) = minMs s" "maxMs (observe l s) = maxMs s"
  by (simp_all add: observe_def Let_def)

lemma fold_observe_bounds [simp]:
  "minMs (fold observe ls s) = minMs s" "maxMs (fold observe ls s) = maxMs s"
  by (induction ls arbitrary: s) simp_all

lemma estimate_valid:
  assumes "estimator_inv s"
  shows "isFinite (estimateMs s)" "0 \<le> estimateMs s"
  using assms between_finite[of "minMs s" "estimateMs s" "maxMs s"]
  by (auto simp: estimator_inv_def estimateMs_def)

section \<open>Properties\<close>

text \<open>Whatever options the constructor accepts and whatever latencies are observed after it
  (infinite and NaN ones included), the estimate stays within the configured bounds.\<close>

theorem origin_estimate_bounded:
  "case new_estimator options of
     Inl e \<Rightarrow> True
   | Inr s \<Rightarrow> minMs s \<le> estimateMs (fold observe latencies s) \<and>
       estimateMs (fold observe latencies s) \<le> maxMs s"
  using fold_observe_inv[OF new_estimator_inv, of options _ latencies]
  by (auto simp: estimator_inv_def estimateMs_def split: sum.split)

end
