(* ===== verification/DeadlineAware.thy ===== *)
theory DeadlineAware
  imports WeightedSpec OriginLatency
begin

text \<open>
  Deadline-aware scheduling, the Node peer's \<^verbatim>\<open>peer/src/deadline-aware-scheduler.ts\<close> and the
  browser SDK's \<^verbatim>\<open>sdk/src/deadline-aware-scheduler.ts\<close>: a wrapper that turns the deadline slack
  and the Origin latency estimate into execution hints around the plan of any base scheduler.
\<close>

section \<open>Model\<close>

record deadline_config =
  safetyMarginMs :: number
  maximumPeerProbeWindowMs :: number
  maximumHedgeDelayMs :: number

record deadline_options =
  opt_safetyMarginMs :: "number option"
  opt_maximumPeerProbeWindowMs :: "number option"
  opt_maximumHedgeDelayMs :: "number option"

definition nonnegative_finite :: "number \<Rightarrow> bool" where
  "nonnegative_finite v \<longleftrightarrow> \<not> (\<not> isFinite v \<or> v < 0)"

text \<open>The error is the name of the offending option.\<close>

definition new_deadline_aware :: "deadline_options \<Rightarrow> (string, deadline_config) result" where
  "new_deadline_aware options =
     (let config =
        \<lparr>safetyMarginMs = opt_or (opt_safetyMarginMs options) (Num 200),
         maximumPeerProbeWindowMs = opt_or (opt_maximumPeerProbeWindowMs options) (Num 3000),
         maximumHedgeDelayMs = opt_or (opt_maximumHedgeDelayMs options) (Num 1500)\<rparr> in
      if \<not> nonnegative_finite (safetyMarginMs config) then throw ''safetyMarginMs''
      else if \<not> nonnegative_finite (maximumPeerProbeWindowMs config)
        then throw ''maximumPeerProbeWindowMs''
      else if \<not> nonnegative_finite (maximumHedgeDelayMs config) then throw ''maximumHedgeDelayMs''
      else return config)"

definition deadline_policy :: string where
  "deadline_policy = ''deadline-aware''"

definition executionSlack :: "number option \<Rightarrow> number option" where
  "executionSlack slackMs = (case slackMs of
     Some s \<Rightarrow> if isFinite s then Some (math_max 0 s) else None | None \<Rightarrow> None)"

definition deadline_originPlan :: "SchedulingReason \<Rightarrow> number option \<Rightarrow> SegmentSchedulingPlan" where
  "deadline_originPlan reason deadlineSlackMs =
     \<lparr>pl_policy = deadline_policy, pl_mode = OriginMode, pl_peerIds = [], pl_rankedPeers = [],
      pl_reason = reason,
      pl_execution = Some \<lparr>ex_strategy = OriginOnly, ex_peerAttemptBudgetMs = None,
        ex_originHedgeDelayMs = None, ex_deadlineSlackMs = executionSlack deadlineSlackMs\<rparr>\<rparr>"

definition copyPlan ::
    "SegmentSchedulingPlan \<Rightarrow> SchedulingReason \<Rightarrow> SegmentExecutionHints \<Rightarrow> SegmentSchedulingPlan" where
  "copyPlan plan reason execution =
     plan\<lparr>pl_policy := deadline_policy, pl_reason := reason, pl_execution := Some execution\<rparr>"

definition context_slack :: "SegmentSchedulingContext \<Rightarrow> number option" where
  "context_slack context = map_option dl_slackMs (cx_deadline context)"

definition decorateBasePlan ::
    "string \<Rightarrow> ('e, 's) scheduler \<Rightarrow> SegmentSchedulingContext \<Rightarrow> SchedulingReason \<Rightarrow> strategy \<Rightarrow>
     number option \<Rightarrow> 's \<Rightarrow> SegmentSchedulingPlan \<times> 's" where
  "decorateBasePlan basePolicy base context reason strategy hedgeDelayMs s =
     (case planSegmentSafely basePolicy base context s of
        ((plan, warnings), s') \<Rightarrow>
          (let deadlineSlackMs = context_slack context in
           if warnings \<noteq> [] then
             (deadline_originPlan OriginFallback (executionSlack deadlineSlackMs), s')
           else if pl_mode plan = OriginMode \<or> pl_peerIds plan = [] then
             (deadline_originPlan reason (executionSlack deadlineSlackMs), s')
           else
             (copyPlan plan reason
               \<lparr>ex_strategy = strategy, ex_peerAttemptBudgetMs = hedgeDelayMs,
                ex_originHedgeDelayMs = hedgeDelayMs,
                ex_deadlineSlackMs = executionSlack deadlineSlackMs\<rparr>, s')))"

text \<open>The Node peer's planning step; \<open>estimate\<close> is \<^verbatim>\<open>originLatencyEstimator.estimateMs\<close>.\<close>

definition peer_deadline_plan ::
    "deadline_config \<Rightarrow> number \<Rightarrow> string \<Rightarrow> ('e, 's) scheduler \<Rightarrow> SegmentSchedulingContext \<Rightarrow> 's \<Rightarrow>
     SegmentSchedulingPlan \<times> 's" where
  "peer_deadline_plan config estimate basePolicy base context s =
     (case cx_deadline context of
        None \<Rightarrow> decorateBasePlan basePolicy base context DeadlineUnknownLegacy LegacyP2pFirst None s
      | Some deadline \<Rightarrow>
          if dl_kind deadline = UnknownDeadline then
            decorateBasePlan basePolicy base context DeadlineUnknownLegacy LegacyP2pFirst None s
          else
            (let slackMs = dl_slackMs deadline in
             if \<not> isFinite slackMs then (deadline_originPlan OriginFallback None, s)
             else
               (let latestSafeOriginStartMs = slackMs - estimate - safetyMarginMs config in
                if latestSafeOriginStartMs \<le> 0 then
                  (deadline_originPlan DeadlineOrigin (Some slackMs), s)
                else if latestSafeOriginStartMs > maximumPeerProbeWindowMs config then
                  decorateBasePlan basePolicy base context DeadlineRelaxedP2p LegacyP2pFirst None s
                else
                  (let hedgeDelayMs =
                     math_min (maximumHedgeDelayMs config) (math_max 0 latestSafeOriginStartMs) in
                   decorateBasePlan basePolicy base context DeadlineHedged HedgedOrigin
                     (Some hedgeDelayMs) s))))"

text \<open>The browser's planning step, which also guards against a foreign estimator.\<close>

definition sdk_deadline_plan ::
    "deadline_config \<Rightarrow> number \<Rightarrow> string \<Rightarrow> ('e, 's) scheduler \<Rightarrow> SegmentSchedulingContext \<Rightarrow> 's \<Rightarrow>
     SegmentSchedulingPlan \<times> 's" where
  "sdk_deadline_plan config estimate basePolicy base context s =
     (case cx_deadline context of
        None \<Rightarrow> decorateBasePlan basePolicy base context DeadlineUnknownLegacy LegacyP2pFirst None s
      | Some deadline \<Rightarrow>
          if dl_kind deadline = UnknownDeadline then
            decorateBasePlan basePolicy base context DeadlineUnknownLegacy LegacyP2pFirst None s
          else
            (let slackMs = dl_slackMs deadline in
             if \<not> isFinite slackMs then (deadline_originPlan OriginFallback None, s)
             else if \<not> isFinite estimate \<or> estimate < 0 then
               (deadline_originPlan OriginFallback (executionSlack (Some slackMs)), s)
             else
               (let latestSafeOriginStartMs = slackMs - estimate - safetyMarginMs config in
                if latestSafeOriginStartMs \<le> 0 then
                  (deadline_originPlan DeadlineOrigin (Some slackMs), s)
                else if latestSafeOriginStartMs > maximumPeerProbeWindowMs config then
                  decorateBasePlan basePolicy base context DeadlineRelaxedP2p LegacyP2pFirst None s
                else
                  (let hedgeDelayMs =
                     math_min (maximumHedgeDelayMs config) (math_max 0 latestSafeOriginStartMs) in
                   decorateBasePlan basePolicy base context DeadlineHedged HedgedOrigin
                     (Some hedgeDelayMs) s))))"

section \<open>Hedge delays\<close>

definition config_ok :: "deadline_config \<Rightarrow> bool" where
  "config_ok c \<longleftrightarrow> isFinite (safetyMarginMs c) \<and> 0 \<le> safetyMarginMs c \<and>
     isFinite (maximumPeerProbeWindowMs c) \<and> 0 \<le> maximumPeerProbeWindowMs c \<and>
     isFinite (maximumHedgeDelayMs c) \<and> 0 \<le> maximumHedgeDelayMs c"

lemma nonnegative_finite_iff: "nonnegative_finite v \<longleftrightarrow> isFinite v \<and> 0 \<le> v"
  by (cases v) (auto simp: nonnegative_finite_def)

lemma new_deadline_config: "new_deadline_aware options = return c \<Longrightarrow> config_ok c"
  by (auto simp: new_deadline_aware_def Let_def nonnegative_finite_iff config_ok_def split: if_splits)

lemma latest_start_le_slack:
  assumes "representable slack" "isFinite slack" "isFinite estimate" "0 \<le> estimate"
    "isFinite margin" "0 \<le> margin" "\<not> slack - estimate - margin \<le> 0"
  shows "slack - estimate - margin \<le> slack" "0 \<le> slack - estimate - margin" "isFinite (slack - estimate - margin)"
proof -
  define d where "d = slack - estimate"
  have d: "d \<le> slack" "representable d" using minus_le_self[OF assms(1,2,4,3)] by (simp_all add: d_def)
  have fin: "isFinite d"
  proof (cases d)
    case NegInfinity
    then have "d - margin = NegInfinity" using assms(5) by (auto simp: minus_number_def)
    with assms(7) show ?thesis by (simp flip: d_def)
  next
    case NaN with d(1) show ?thesis by simp
  next
    case Infinity with d(1) assms(2) show ?thesis by auto
  qed simp
  define r where "r = d - margin"
  have "r \<le> d" unfolding r_def using minus_le_self(1)[OF d(2) fin assms(6,5)] .
  with d(1) have le: "r \<le> slack" using number_le_trans by blast
  moreover have nn: "0 \<le> r" using assms(7) le by (cases r) (auto simp flip: d_def r_def)
  moreover have "isFinite r" using nn le assms(2) by (cases r) auto
  ultimately show "slack - estimate - margin \<le> slack" "0 \<le> slack - estimate - margin"
    "isFinite (slack - estimate - margin)" by (simp_all add: r_def d_def)
qed

section \<open>Decorated plans are acceptable\<close>

lemma deadline_originPlan_ok:
  assumes "deadline_ok (cx_deadline context)" "\<not> nat_number 0 > cx_maximumParallelism context"
  shows "plan_ok deadline_policy context (deadline_originPlan reason slack)"
proof -
  have "nonneg_opt (executionSlack slack)"
    by (auto simp: nonneg_opt_def executionSlack_def zero_number_def split: option.split elim!: isFiniteE)
  with assms show ?thesis
    by (simp add: plan_ok_def deadline_originPlan_def ranked_ok_def hints_ok_def nonneg_opt_def)
qed

definition hedge_ok :: "SegmentSchedulingContext \<Rightarrow> strategy \<Rightarrow> number option \<Rightarrow> bool" where
  "hedge_ok context strategy hedge = (case hedge of None \<Rightarrow> strategy \<noteq> OriginOnly
     | Some h \<Rightarrow> strategy \<noteq> OriginOnly \<and> isFinite h \<and> 0 \<le> h \<and>
         (case cx_deadline context of None \<Rightarrow> True | Some d \<Rightarrow> h \<le> dl_slackMs d))"

lemma decorated_ok:
  assumes "deadline_ok (cx_deadline context)" "\<not> nat_number 0 > cx_maximumParallelism context"
    "hedge_ok context strategy hedge"
  shows "plan_ok deadline_policy context
    (fst (decorateBasePlan basePolicy base context reason strategy hedge s))"
proof (cases rule: planSegmentSafely_cases[of base "context" s basePolicy])
  case (rejected warnings s')
  then show ?thesis using deadline_originPlan_ok[OF assms(1,2)] by (simp add: decorateBasePlan_def)
next
  case (accepted plan s')
  show ?thesis
  proof (cases "pl_mode plan = OriginMode \<or> pl_peerIds plan = []")
    case True
    with accepted show ?thesis using deadline_originPlan_ok[OF assms(1,2)] by (simp add: decorateBasePlan_def)
  next
    case False
    have slack: "nonneg_opt (executionSlack (context_slack context))"
      by (auto simp: nonneg_opt_def executionSlack_def zero_number_def split: option.split elim!: isFiniteE)
    have "hints_ok (pl_mode plan) (cx_deadline context) (pl_peerIds plan)
        (Some \<lparr>ex_strategy = strategy, ex_peerAttemptBudgetMs = hedge, ex_originHedgeDelayMs = hedge,
          ex_deadlineSlackMs = executionSlack (context_slack context)\<rparr>)"
    proof (cases "cx_deadline context")
      case None
      with False assms(3) slack show ?thesis
        by (auto simp: hints_ok_def hedge_ok_def nonneg_opt_def context_slack_def executionSlack_def
            split: option.splits)
    next
      case (Some d)
      then obtain q where q: "dl_slackMs d = Num q" using assms(1) by (auto simp: deadline_ok_def)
      have "\<not> h > math_max 0 (Num q)" if "isFinite h" "h \<le> Num q" for h
        using that by (auto simp: zero_number_def elim!: isFiniteE)
      with Some q False assms(3) slack show ?thesis
        by (auto simp: hints_ok_def hedge_ok_def nonneg_opt_def context_slack_def executionSlack_def
            split: option.splits)
    qed
    with accepted False show ?thesis
      by (simp add: decorateBasePlan_def copyPlan_def plan_ok_def)
  qed
qed

text \<open>Contexts with a valid deadline and a non-negative parallelism.\<close>

definition deadline_admissible :: "SegmentSchedulingContext \<Rightarrow> bool" where
  "deadline_admissible context \<longleftrightarrow> deadline_ok (cx_deadline context) \<and>
     \<not> nat_number 0 > cx_maximumParallelism context \<and>
     (case cx_deadline context of None \<Rightarrow> True | Some d \<Rightarrow> representable (dl_slackMs d))"

lemma hedged_ok:
  assumes "config_ok config" "isFinite estimate" "0 \<le> estimate" "deadline_admissible context"
    "cx_deadline context = Some d" "\<not> dl_slackMs d - estimate - safetyMarginMs config \<le> 0"
  shows "hedge_ok context HedgedOrigin
    (Some (math_min (maximumHedgeDelayMs config)
      (math_max 0 (dl_slackMs d - estimate - safetyMarginMs config))))"
proof -
  define l where "l = dl_slackMs d - estimate - safetyMarginMs config"
  have d: "representable (dl_slackMs d)" "isFinite (dl_slackMs d)"
    using assms(4,5) by (simp_all add: deadline_admissible_def deadline_ok_def)
  have l: "l \<le> dl_slackMs d" "0 \<le> l" "isFinite l"
    unfolding l_def using latest_start_le_slack[OF d assms(2,3) _ _ assms(6)] assms(1) by (simp_all add: config_ok_def)
  obtain x y z where "l = Num x" "maximumHedgeDelayMs config = Num y" "dl_slackMs d = Num z" "0 \<le> y"
    using l d assms(1) by (auto simp: config_ok_def elim!: isFiniteE)
  with l show ?thesis unfolding l_def[symmetric] hedge_ok_def assms(5)
    by (simp add: zero_number_def)
qed

lemma peer_deadline_plan_ok:
  assumes "config_ok config" "isFinite estimate" "0 \<le> estimate" "deadline_admissible context"
  shows "plan_ok deadline_policy context
    (fst (peer_deadline_plan config estimate basePolicy base context s))"
proof -
  have adm: "deadline_ok (cx_deadline context)" "\<not> nat_number 0 > cx_maximumParallelism context"
    using assms(4) by (simp_all add: deadline_admissible_def)
  note origin = deadline_originPlan_ok[OF adm] and base = decorated_ok[OF adm]
  have legacy: "hedge_ok context LegacyP2pFirst None" by (simp add: hedge_ok_def)
  show ?thesis
  proof (cases "cx_deadline context")
    case None
    then show ?thesis using base[OF legacy] by (simp add: peer_deadline_plan_def)
  next
    case (Some d)
    then show ?thesis
      using base[OF legacy] origin base[OF hedged_ok[OF assms Some]]
      unfolding peer_deadline_plan_def Let_def by (auto split: if_split)
  qed
qed

section \<open>The scheduler object\<close>

record 's deadline_state =
  ds_config :: deadline_config
  ds_estimator :: OriginLatencyEstimator
  ds_base :: 's

definition deadline_scheduler ::
    "string \<Rightarrow> ('e, 's) scheduler \<Rightarrow> ('e, 's deadline_state) scheduler" where
  "deadline_scheduler basePolicy base context st =
     (case peer_deadline_plan (ds_config st) (estimateMs (ds_estimator st)) basePolicy base context
         (ds_base st) of
       (plan, s') \<Rightarrow> (Inr plan, st\<lparr>ds_base := s'\<rparr>))"

definition deadline_observePeer ::
    "(PeerFetchObservation \<Rightarrow> 's \<Rightarrow> 's) \<Rightarrow> PeerFetchObservation \<Rightarrow> 's deadline_state \<Rightarrow> 's deadline_state" where
  "deadline_observePeer base_observe observation st =
     st\<lparr>ds_base := base_observe observation (ds_base st)\<rparr>"

definition deadline_reconcilePeers ::
    "(SchedulingPeer list \<Rightarrow> 's \<Rightarrow> 's) \<Rightarrow> SchedulingPeer list \<Rightarrow> 's deadline_state \<Rightarrow> 's deadline_state" where
  "deadline_reconcilePeers base_reconcile peers st =
     st\<lparr>ds_base := base_reconcile peers (ds_base st)\<rparr>"

text \<open>\<^verbatim>\<open>try { base.reset() } finally { estimator.reset() }\<close>: the estimator is reset also when the
  base scheduler throws, and the error is passed on.\<close>

definition deadline_reset ::
    "('s \<Rightarrow> ('e, unit) result \<times> 's) \<Rightarrow> 's deadline_state \<Rightarrow> ('e, unit) result \<times> 's deadline_state" where
  "deadline_reset base_reset st =
     (case base_reset (ds_base st) of
        (r, s') \<Rightarrow> (r, st\<lparr>ds_base := s', ds_estimator := reset_estimator (ds_estimator st)\<rparr>))"

definition deadline_inv :: "'s deadline_state \<Rightarrow> bool" where
  "deadline_inv st \<longleftrightarrow> config_ok (ds_config st) \<and> estimator_inv (ds_estimator st)"

text \<open>Around any base scheduler, also one that throws, the wrapper keeps the scheduler contract.\<close>

interpretation deadline: segment_scheduler deadline_policy
  "deadline_scheduler basePolicy (base :: ('e, 's) scheduler)"
  deadline_inv deadline_admissible
proof
  fix st :: "'s deadline_state" and c
  assume inv: "deadline_inv st" and adm: "deadline_admissible c"
  obtain plan s' where p: "peer_deadline_plan (ds_config st) (estimateMs (ds_estimator st)) basePolicy base c
      (ds_base st) = (plan, s')" by fastforce
  have "plan_ok deadline_policy c plan"
    using peer_deadline_plan_ok[of "ds_config st" "estimateMs (ds_estimator st)" c basePolicy base "ds_base st"]
      inv adm estimate_valid p by (simp add: deadline_inv_def)
  then show "\<exists>p s'. deadline_scheduler basePolicy base c st = (Inr p, s') \<and> plan_ok deadline_policy c p"
    by (simp add: deadline_scheduler_def p)
  show "deadline_inv (snd (deadline_scheduler basePolicy base c st))"
    using inv by (simp add: deadline_scheduler_def p deadline_inv_def)
qed

lemma deadline_reset_inv [inv_intros]: "deadline_inv st \<Longrightarrow> deadline_inv (snd (deadline_reset r st))"
  by (auto simp: deadline_inv_def deadline_reset_def reset_estimator_inv split: prod.split)

section \<open>Properties\<close>

text \<open>Whatever the base scheduler does (throw, return an invalid plan, or a valid one), the
  deadline-aware wrapper's plan passes validation: in particular its hedge delay never exceeds
  the deadline slack, and safe planning hands it on without warnings.\<close>

theorem deadline_plan_accepted:
  assumes "deadline_inv st" "deadline_admissible context"
  shows "\<exists>plan st'. deadline_scheduler basePolicy base context st = (Inr plan, st') \<and> deadline_inv st' \<and>
    plan_ok deadline_policy context plan \<and>
    planSegmentSafely deadline_policy (deadline_scheduler basePolicy base) context st = ((plan, []), st')"
  using deadline.safely_transparent[OF assms] .

definition sample_estimator :: OriginLatencyEstimator where
  "sample_estimator = \<lparr>initialEstimateMs = Num 500, alpha = Num (1 / 2), minMs = Num 50,
     maxMs = Num 10000, currentEstimateMs = Num 500\<rparr>"

definition sample_deadline_state :: "weighted_state deadline_state" where
  "sample_deadline_state =
     \<lparr>ds_config = \<lparr>safetyMarginMs = Num 200, maximumPeerProbeWindowMs = Num 3000,
        maximumHedgeDelayMs = Num 1500\<rparr>,
      ds_estimator = sample_estimator, ds_base = new_weighted None\<rparr>"

lemma sample_deadline_inv: "deadline_inv sample_deadline_state"
  by (simp add: deadline_inv_def sample_deadline_state_def sample_estimator_def config_ok_def
      estimator_inv_def)

definition sample_deadline_context :: SegmentSchedulingContext where
  "sample_deadline_context = sample_context\<lparr>cx_deadline := Some \<lparr>dl_kind = PlayerDerived,
     dl_slackMs = int_number 2000, dl_segmentDurationMs = None, dl_bufferAheadMs = None\<rparr>\<rparr>"

lemma sample_deadline_admissible: "deadline_admissible sample_deadline_context"
  unfolding deadline_admissible_def sample_deadline_context_def
  using representable_int[of 2000]
  by (simp add: sample_context_def deadline_ok_def nonneg_opt_def)

theorem deadline_plan_accepted_witness:
  "\<exists>plan st'. deadline_scheduler weighted_policy weighted_scheduler sample_deadline_context
      sample_deadline_state = (Inr plan, st') \<and> deadline_inv st' \<and>
    plan_ok deadline_policy sample_deadline_context plan \<and>
    planSegmentSafely deadline_policy
      (deadline_scheduler weighted_policy weighted_scheduler) sample_deadline_context sample_deadline_state = ((plan, []), st')"
  by (rule deadline_plan_accepted[OF sample_deadline_inv sample_deadline_admissible])

text \<open>The browser's and the Node peer's wrapper decide alike for every estimate a Node
  estimator can produce; for any other estimate the browser falls back to the Origin whenever
  the deadline is known and finite.\<close>

theorem sdk_plan_agrees:
  "sdk_deadline_plan config estimate basePolicy base context s =
     (if isFinite estimate \<and> 0 \<le> estimate \<or> cx_deadline context = None \<or>
         map_option dl_kind (cx_deadline context) = Some UnknownDeadline \<or>
         map_option isFinite (context_slack context) = Some False
      then peer_deadline_plan config estimate basePolicy base context s
      else (deadline_originPlan OriginFallback (context_slack context), s))"
proof -
  have "executionSlack (executionSlack v) = executionSlack v" for v
    by (auto simp: executionSlack_def zero_number_def elim!: isFiniteE split: option.split)
  then have idem: "deadline_originPlan r (executionSlack v) = deadline_originPlan r v" for r v
    by (simp add: deadline_originPlan_def)
  have "estimate < 0 \<longleftrightarrow> \<not> 0 \<le> estimate" if "isFinite estimate" using that by (cases estimate) auto
  then show ?thesis
    by (auto simp: sdk_deadline_plan_def peer_deadline_plan_def Let_def idem context_slack_def
        split: option.splits)
qed

end
