(* ===== verification/TrustLatency.thy ===== *)
theory TrustLatency
  imports DeadlineAware
begin

text \<open>
  The browser SDK's stateless policy (\<^verbatim>\<open>sdk/src/trust-latency-probe-scheduler.ts\<close>): candidates
  ordered by trust, then latency, then position; the first few are probed in parallel.
\<close>

section \<open>Model\<close>

definition MAX_PARALLEL_PEER_PROBES :: number where
  "MAX_PARALLEL_PEER_PROBES = Num 3"

definition trust_policy :: string where
  "trust_policy = ''trust-latency-probe''"

definition compareTrustAndLatency :: "SchedulingPeer \<Rightarrow> SchedulingPeer \<Rightarrow> number" where
  "compareTrustAndLatency left right =
     num_or (sp_trustScore right - sp_trustScore left) (sp_latencyMs left - sp_latencyMs right)"

definition position :: "SchedulingPeer \<times> nat \<Rightarrow> nat" where
  "position p = (case sp_originalIndex (fst p) of None \<Rightarrow> snd p | Some i \<Rightarrow> i)"

text \<open>The comparator of the sort: positive when \<^verbatim>\<open>left\<close> goes after \<^verbatim>\<open>right\<close>.\<close>

definition trust_after :: "SchedulingPeer \<times> nat \<Rightarrow> SchedulingPeer \<times> nat \<Rightarrow> bool" where
  "trust_after left right =
     (num_or (compareTrustAndLatency (fst left) (fst right))
        (int_number (int (position left) - int (position right))) > 0)"

definition trust_ranked :: "SegmentSchedulingContext \<Rightarrow> (SchedulingPeer \<times> nat) list" where
  "trust_ranked context =
     (let others = filter (\<lambda>peer. sp_id peer \<noteq> cx_selfPeerId context) (cx_candidates context) in
      sort_by trust_after (zip others [0..<length others]))"

definition trust_planSegment :: "SegmentSchedulingContext \<Rightarrow> SegmentSchedulingPlan" where
  "trust_planSegment context =
     (if cx_candidates context = [] then originPlan trust_policy NoCandidates
      else
        (let ranked = trust_ranked context in
         if ranked = [] then originPlan trust_policy NoEligibleCandidates
         else
           (let parallelism =
                  math_max 0 (math_min MAX_PARALLEL_PEER_PROBES (cx_maximumParallelism context));
                peerIds = map (\<lambda>(peer, _). sp_id peer) (take (wave_width parallelism) ranked) in
            if peerIds = [] then originPlan trust_policy NoEligibleCandidates
            else
              \<lparr>pl_policy = trust_policy, pl_mode = ParallelPeers, pl_peerIds = peerIds,
               pl_rankedPeers =
                 map (\<lambda>(index, (peer, _)).
                     \<lparr>rp_peerId = sp_id peer, rp_score = None, rp_rank = nat_number (index + 1),
                      rp_reasons = [''trusted'', ''latency_ranked'', ''parallel_probe'']\<rparr>)
                   (enumerate 0 ranked),
               pl_reason = ParallelPeerProbe, pl_execution = None\<rparr>)))"

definition trust_scheduler :: "(string, unit) scheduler" where
  "trust_scheduler context s = (Inr (trust_planSegment context), s)"

section \<open>The ranking\<close>

text \<open>Trust and latency as the tracker sends them: finite numbers.\<close>

definition peer_numbers :: "SchedulingPeer \<Rightarrow> bool" where
  "peer_numbers p \<longleftrightarrow> grid_number (sp_trustScore p) \<and> grid_number (sp_latencyMs p)"

definition preferred :: "SchedulingPeer \<times> nat \<Rightarrow> SchedulingPeer \<times> nat \<Rightarrow> bool" where
  "preferred a b \<longleftrightarrow>
     sp_trustScore (fst a) > sp_trustScore (fst b) \<or>
     sp_trustScore (fst a) = sp_trustScore (fst b) \<and>
       (sp_latencyMs (fst a) < sp_latencyMs (fst b) \<or>
        sp_latencyMs (fst a) = sp_latencyMs (fst b) \<and> position a < position b)"

lemma grid_self_diff: "grid_number x \<Longrightarrow> \<not> truthy (x - x)"
  using diff_sign(3)[of x x] by simp

lemma grid_irrefl: "grid_number x \<Longrightarrow> \<not> x < x"
  by (cases x) simp_all

lemma trust_after_iff:
  assumes "peer_numbers (fst l)" "peer_numbers (fst r)"
  shows "trust_after l r \<longleftrightarrow> preferred r l"
proof -
  define tl tr ll lr where v: "tl = sp_trustScore (fst l)" "tr = sp_trustScore (fst r)"
    "ll = sp_latencyMs (fst l)" "lr = sp_latencyMs (fst r)"
  define i where "i = int (position l) - int (position r)"
  have g: "grid_number tl" "grid_number tr" "grid_number ll" "grid_number lr"
    using assms by (simp_all add: v peer_numbers_def)
  have idx: "int_number i > 0 \<longleftrightarrow> position r < position l" by (simp add: i_def)
  have "num_or (num_or (tr - tl) (ll - lr)) (int_number i) > 0 \<longleftrightarrow>
      tr > tl \<or> tr = tl \<and> (lr < ll \<or> lr = ll \<and> position r < position l)"
  proof (cases "tr = tl")
    case True
    then have "num_or (tr - tl) (ll - lr) = ll - lr" using grid_self_diff[OF g(1)] by (simp add: num_or_def)
    moreover have "num_or (ll - lr) (int_number i) > 0 \<longleftrightarrow> ll > lr \<or> (ll = lr \<and> i > 0)"
      by (rule num_or_positive[OF g(4,3)])
    moreover have "i > 0 \<longleftrightarrow> position r < position l" by (simp add: i_def)
    ultimately show ?thesis using True grid_irrefl[OF g(1)] by metis
  next
    case False
    then show ?thesis using diff_sign(1,3)[OF g(2,1)] by (simp add: num_or_def)
  qed
  then show ?thesis by (simp add: trust_after_def compareTrustAndLatency_def preferred_def v i_def)
qed

lemma trust_sorted:
  assumes "\<forall>p\<in>set ps. peer_numbers (fst p)"
  shows "sorted_wrt (\<lambda>a b. \<not> preferred b a) (sort_by trust_after ps)"
proof -
  have "sorted_wrt (\<lambda>a b. \<not> trust_after a b) (sort_by trust_after ps)"
    using _ _ assms
  proof (rule sorted_sort_by)
    fix a b c :: "SchedulingPeer \<times> nat"
    assume s: "peer_numbers (fst a)" "peer_numbers (fst b)" "peer_numbers (fst c)"
    have "\<exists>t m. sp_trustScore (fst x) = Num t \<and> sp_latencyMs (fst x) = Num m" if "peer_numbers (fst x)"
      for x :: "SchedulingPeer \<times> nat"
      using that grid_finite by (auto simp: peer_numbers_def)
    from this[OF s(1)] this[OF s(2)] this[OF s(3)]
    show "\<not> trust_after a b \<Longrightarrow> \<not> trust_after b c \<Longrightarrow> \<not> trust_after a c"
      unfolding trust_after_iff[OF s(1,2)] trust_after_iff[OF s(2,3)] trust_after_iff[OF s(1,3)] preferred_def
      by (elim exE conjE) (simp, linarith)
  next
    fix a b :: "SchedulingPeer \<times> nat"
    assume s: "peer_numbers (fst a)" "peer_numbers (fst b)"
    have "\<exists>t m. sp_trustScore (fst x) = Num t \<and> sp_latencyMs (fst x) = Num m" if "peer_numbers (fst x)"
      for x :: "SchedulingPeer \<times> nat"
      using that grid_finite by (auto simp: peer_numbers_def)
    from this[OF s(1)] this[OF s(2)] show "trust_after a b \<Longrightarrow> \<not> trust_after b a"
      unfolding trust_after_iff[OF s(1,2)] trust_after_iff[OF s(2,1)] preferred_def
      by (elim exE conjE) (simp, linarith)
  qed
  moreover have "\<forall>p\<in>set (sort_by trust_after ps). peer_numbers (fst p)" using assms by simp
  ultimately show ?thesis
    by (elim sorted_wrt_mono_rel[rotated]) (simp add: trust_after_iff)
qed

lemma fst_zip_upt: "map fst (zip xs [0..<length xs]) = xs"
  by (rule map_fst_zip) simp

lemma trust_ranked_set:
  "fst ` set (trust_ranked context) =
     {peer \<in> set (cx_candidates context). sp_id peer \<noteq> cx_selfPeerId context}"
proof -
  let ?os = "filter (\<lambda>peer. sp_id peer \<noteq> cx_selfPeerId context) (cx_candidates context)"
  have "fst ` set (zip ?os [0..<length ?os]) = set ?os" by (metis fst_zip_upt list.set_map)
  then show ?thesis by (simp add: trust_ranked_def Let_def)
qed

lemma trust_ranked_distinct:
  assumes "distinct (map sp_id (cx_candidates context))"
  shows "distinct (map (\<lambda>p. sp_id (fst p)) (trust_ranked context))"
proof -
  let ?os = "filter (\<lambda>peer. sp_id peer \<noteq> cx_selfPeerId context) (cx_candidates context)"
  have "map (\<lambda>p. sp_id (fst p)) zs = map sp_id (map fst zs)" for zs :: "(SchedulingPeer \<times> nat) list"
    by simp
  then have "map (\<lambda>p. sp_id (fst p)) (zip ?os [0..<length ?os]) = map sp_id ?os" by (simp only: fst_zip_upt)
  then have "distinct (map (\<lambda>p. sp_id (fst p)) (zip ?os [0..<length ?os]))"
    using assms by (simp add: distinct_map_filter)
  then show ?thesis by (simp add: trust_ranked_def Let_def distinct_map_sort_by)
qed

lemma length_trust_ranked: "length (trust_ranked context) \<le> length (cx_candidates context)"
  by (simp add: trust_ranked_def Let_def)

section \<open>Its plans are acceptable\<close>

text \<open>The callers pass only candidates that offer the segment.\<close>

definition trust_admissible :: "SegmentSchedulingContext \<Rightarrow> bool" where
  "trust_admissible context \<longleftrightarrow>
     deadline_ok (cx_deadline context) \<and> 0 \<le> cx_maximumParallelism context \<and>
     distinct (map sp_id (cx_candidates context)) \<and>
     (\<forall>p\<in>set (cx_candidates context). cx_segmentId context = [] \<or> cx_segmentId context \<in> set (sp_segments p)) \<and>
     length (cx_candidates context) < 2 ^ 53"

lemma probe_width:
  assumes "0 \<le> m"
  shows "\<not> nat_number (min n (wave_width (math_max 0 (math_min MAX_PARALLEL_PEER_PROBES m)))) > m"
proof (cases m)
  case (Num q)
  then have q: "0 \<le> q" using assms by simp
  have "rat_of_nat (nat \<lfloor>min 3 q\<rfloor>) \<le> q" using q by (simp add: le_floor_iff[symmetric] floor_mono)
  then have "rat_of_nat (min n (nat \<lfloor>min 3 q\<rfloor>)) \<le> q" by (simp add: min_def)
  with q show ?thesis by (simp add: Num MAX_PARALLEL_PEER_PROBES_def zero_number_def max_absorb2)
qed (use assms in \<open>auto simp: MAX_PARALLEL_PEER_PROBES_def math_min_def\<close>)

lemma trust_entries_ok:
  assumes "\<forall>p\<in>set ps. candidate_of context (sp_id (fst p)) \<noteq> None \<and> sp_id (fst p) \<noteq> cx_selfPeerId context"
    and "length ps < 2 ^ 53"
  shows "ranked_ok context (map (\<lambda>(index, (peer, _)).
     \<lparr>rp_peerId = sp_id peer, rp_score = None, rp_rank = nat_number (index + 1), rp_reasons = rs\<rparr>) (enumerate 0 ps))"
    (is "ranked_ok context ?es")
proof -
  have nth: "?es ! i = \<lparr>rp_peerId = sp_id (fst (ps ! i)), rp_score = None, rp_rank = nat_number (i + 1), rp_reasons = rs\<rparr>"
    if "i < length ps" for i
    using that by (simp add: nth_enumerate_eq split: prod.split)
  have len: "length ?es = length ps" by simp
  have "candidate_of context (rp_peerId r) \<noteq> None \<and> rp_peerId r \<noteq> cx_selfPeerId context \<and>
      rank_ok (rp_rank r) (length ?es) \<and> (case rp_score r of None \<Rightarrow> True | Some x \<Rightarrow> isFinite x)"
    if mem: "r \<in> set ?es" for r
  proof -
    obtain i where i: "i < length ps" "?es ! i = r"
      using mem unfolding in_set_conv_nth len by blast
    have q: "ps ! i \<in> set ps" using i(1) by simp
    show ?thesis
      unfolding i(2)[symmetric] nth[OF i(1)] len
      using bspec[OF assms(1) q] rank_ok_index[OF i(1) assms(2)] by simp
  qed
  moreover have "distinct (map rp_rank ?es)"
    unfolding distinct_conv_nth length_map
    by (simp add: nth_enumerate_eq split: prod.split)
  ultimately show ?thesis unfolding ranked_ok_def by blast
qed

lemma trust_plan_ok:
  assumes "trust_admissible context"
  shows "plan_ok trust_policy context (trust_planSegment context)"
proof -
  note adm = assms[unfolded trust_admissible_def]
  have pos: "\<not> nat_number 0 > cx_maximumParallelism context"
    using adm by (cases "cx_maximumParallelism context") auto
  have origin: "plan_ok trust_policy context (originPlan trust_policy r)" for r
    using adm pos by (simp add: plan_ok_def originPlan_def ranked_ok_def hints_ok_def)
  let ?w = "wave_width (math_max 0 (math_min MAX_PARALLEL_PEER_PROBES (cx_maximumParallelism context)))"
  let ?ids = "map (\<lambda>(peer, _). sp_id peer) (take ?w (trust_ranked context))"
  have cand: "candidate_of context (sp_id (fst p)) = Some (fst p) \<and> sp_id (fst p) \<noteq> cx_selfPeerId context \<and>
      fst p \<in> set (cx_candidates context)" if "p \<in> set (trust_ranked context)" for p
  proof -
    have "fst p \<in> {peer \<in> set (cx_candidates context). sp_id peer \<noteq> cx_selfPeerId context}"
      using that trust_ranked_set by blast
    then show ?thesis using candidate_of_distinct[of "context" "fst p"] adm by auto
  qed
  show ?thesis
  proof (cases "cx_candidates context = [] \<or> trust_ranked context = [] \<or> ?ids = []")
    case True
    then show ?thesis using origin by (auto simp: trust_planSegment_def Let_def)
  next
    case False
    have ids: "?ids = map (\<lambda>p. sp_id (fst p)) (take ?w (trust_ranked context))"
      by (simp add: case_prod_beta)
    have "distinct (take ?w (map (\<lambda>p. sp_id (fst p)) (trust_ranked context)))"
      using trust_ranked_distinct adm by (intro distinct_take) blast
    then have "distinct ?ids" by (simp only: ids take_map)
    moreover have "offers context p" if mem: "p \<in> set ?ids" for p
    proof -
      obtain q where q: "q \<in> set (trust_ranked context)" "p = sp_id (fst q)"
        using mem unfolding ids by (auto dest: in_set_takeD)
      from cand[OF q(1)] adm show ?thesis by (auto simp: offers_def q(2))
    qed
    moreover have "\<not> nat_number (length ?ids) > cx_maximumParallelism context"
      using probe_width[of "cx_maximumParallelism context" "length (trust_ranked context)"] adm by simp
    moreover have "ranked_ok context (pl_rankedPeers (trust_planSegment context))"
      using False trust_entries_ok[of "trust_ranked context" "context"] cand adm
        order_le_less_trans[OF length_trust_ranked, of "context" "2 ^ 53"]
      by (simp add: trust_planSegment_def Let_def)
    ultimately show ?thesis
      using False adm by (simp add: trust_planSegment_def Let_def plan_ok_def hints_ok_def Suc_le_eq)
  qed
qed

interpretation trust: segment_scheduler trust_policy trust_scheduler "\<lambda>_. True" trust_admissible
  by unfold_locales (simp_all add: trust_scheduler_def trust_plan_ok)

section \<open>Properties\<close>

text \<open>For candidates that offer the segment the browser policy's plan passes validation.\<close>

theorem trust_plan_accepted:
  assumes "trust_admissible context"
  shows "planSegmentSafely trust_policy trust_scheduler context s = ((trust_planSegment context, []), s) \<and>
    plan_ok trust_policy context (trust_planSegment context)"
  using trust.safely_transparent[OF TrueI assms, of s] by (auto simp: trust_scheduler_def)

lemma sample_trust_admissible: "trust_admissible sample_context"
  by (simp add: trust_admissible_def sample_context_def sample_peer_def deadline_ok_def)

theorem trust_plan_accepted_witness:
  "planSegmentSafely trust_policy trust_scheduler sample_context () = ((trust_planSegment sample_context, []), ()) \<and>
    plan_ok trust_policy sample_context (trust_planSegment sample_context)"
  by (rule trust_plan_accepted[OF sample_trust_admissible])

text \<open>The probed peers are the best ones: the ranking holds exactly the other candidates, no
  candidate stands before a preferred one (higher trust, then lower latency, then position),
  and the plan probes a prefix of the ranking.\<close>

theorem probes_are_best:
  assumes "list_all peer_numbers (cx_candidates context)"
  shows "fst ` set (trust_ranked context) =
      {peer \<in> set (cx_candidates context). sp_id peer \<noteq> cx_selfPeerId context} \<and>
    sorted_wrt (\<lambda>a b. \<not> preferred b a) (trust_ranked context) \<and>
    (\<exists>n. pl_peerIds (trust_planSegment context) = take n (map (\<lambda>p. sp_id (fst p)) (trust_ranked context)))"
proof (intro conjI trust_ranked_set)
  let ?os = "filter (\<lambda>peer. sp_id peer \<noteq> cx_selfPeerId context) (cx_candidates context)"
  have "\<forall>p\<in>set (zip ?os [0..<length ?os]). peer_numbers (fst p)"
    using assms by (auto simp: list_all_iff dest: set_zip_leftD)
  from trust_sorted[OF this] show "sorted_wrt (\<lambda>a b. \<not> preferred b a) (trust_ranked context)"
    by (simp add: trust_ranked_def Let_def)
  have "pl_peerIds (trust_planSegment context) = take 0 (map (\<lambda>p. sp_id (fst p)) (trust_ranked context)) \<or>
    pl_peerIds (trust_planSegment context) =
      take (wave_width (math_max 0 (math_min MAX_PARALLEL_PEER_PROBES (cx_maximumParallelism context))))
        (map (\<lambda>p. sp_id (fst p)) (trust_ranked context))"
    by (simp add: trust_planSegment_def Let_def originPlan_def take_map case_prod_beta)
  then show "\<exists>n. pl_peerIds (trust_planSegment context) = take n (map (\<lambda>p. sp_id (fst p)) (trust_ranked context))"
    by blast
qed

lemma sample_peer_numbers: "list_all peer_numbers (cx_candidates sample_context)"
  using grid_toNumber[of "of_int 1"] grid_toNumber[of "of_int 20"] toNumber_of_int[of 1] toNumber_of_int[of 20]
  by (simp add: sample_context_def sample_peer_def peer_numbers_def one_number_def)

theorem probes_are_best_witness:
  "fst ` set (trust_ranked sample_context) =
      {peer \<in> set (cx_candidates sample_context). sp_id peer \<noteq> cx_selfPeerId sample_context} \<and>
    sorted_wrt (\<lambda>a b. \<not> preferred b a) (trust_ranked sample_context) \<and>
    (\<exists>n. pl_peerIds (trust_planSegment sample_context) =
      take n (map (\<lambda>p. sp_id (fst p)) (trust_ranked sample_context)))"
  by (rule probes_are_best[OF sample_peer_numbers])

end
