(* ===== verification/TokenBucket.thy ===== *)
theory TokenBucket
  imports Common OriginLatency
begin

text \<open>
  The token buckets of the tracker and of a Node peer: the inventory rate limiter
  (\<^verbatim>\<open>tracker/src/inventory-limits.ts\<close>), the REST rate limiter (\<^verbatim>\<open>IpRateLimiter\<close> in
  \<^verbatim>\<open>tracker/src/server.ts\<close>) and the upload bandwidth limiter (\<^verbatim>\<open>peer/src/bandwidth-limiter.ts\<close>),
  with the contract they share as a locale.
  \<^verbatim>\<open>Date.now()\<close> is an integer number of milliseconds, so differences of its values are exact.
\<close>

section \<open>The contract of a bucket\<close>

text \<open>Requests decided one after the other: the decisions and the final state.\<close>

fun run_requests :: "('r \<Rightarrow> 's \<Rightarrow> bool \<times> 's) \<Rightarrow> 'r list \<Rightarrow> 's \<Rightarrow> bool list \<times> 's" where
  "run_requests step [] s = ([], s)"
| "run_requests step (r # rs) s =
     (case step r s of (d, s') \<Rightarrow> (case run_requests step rs s' of (ds, s'') \<Rightarrow> (d # ds, s'')))"

text \<open>The cost of the requests that were accepted.\<close>

fun accepted_cost :: "('r \<Rightarrow> nat) \<Rightarrow> 'r list \<Rightarrow> bool list \<Rightarrow> nat" where
  "accepted_cost cost (r # rs) (d # ds) = (if d then cost r else 0) + accepted_cost cost rs ds"
| "accepted_cost cost _ _ = 0"

locale token_bucket =
  fixes step :: "'r \<Rightarrow> 's \<Rightarrow> bool \<times> 's"
    and cost :: "'r \<Rightarrow> nat"
    and level :: "'s \<Rightarrow> number"
    and instant :: "'r \<Rightarrow> 's \<Rightarrow> bool"
  assumes accepts: "instant r s \<Longrightarrow> level s = nat_number n \<Longrightarrow> n \<le> 2 ^ 53 \<Longrightarrow>
      fst (step r s) \<longleftrightarrow> cost r \<le> n"
    and charges: "instant r s \<Longrightarrow> level s = nat_number n \<Longrightarrow> n \<le> 2 ^ 53 \<Longrightarrow>
      level (snd (step r s)) = nat_number (if cost r \<le> n then n - cost r else n)"
    and stays: "instant r s \<Longrightarrow> instant r' s \<Longrightarrow> instant r' (snd (step r s))"
begin

lemma accepted_within_level:
  assumes "\<forall>r\<in>set rs. instant r s" "level s = nat_number n" "n \<le> 2 ^ 53"
  shows "accepted_cost cost rs (fst (run_requests step rs s)) \<le> n"
  using assms
proof (induction rs arbitrary: s n)
  case (Cons r rs)
  obtain d s' where st: "step r s = (d, s')" by fastforce
  define n' where "n' = (if cost r \<le> n then n - cost r else n)"
  have "level s' = nat_number n'" "d \<longleftrightarrow> cost r \<le> n" "\<forall>r\<in>set rs. instant r s'"
    using charges[of r s n] accepts[of r s n] stays[of r s] Cons.prems st by (auto simp: n'_def)
  moreover have "n' \<le> 2 ^ 53" using Cons.prems(3) by (auto simp: n'_def)
  ultimately have "accepted_cost cost rs (fst (run_requests step rs s')) \<le> n'"
    using Cons.IH by blast
  with \<open>d \<longleftrightarrow> cost r \<le> n\<close> show ?case
    by (auto simp: st n'_def split: prod.split if_splits)
qed simp

end

section \<open>Refilling\<close>

definition refill :: "number \<Rightarrow> number \<Rightarrow> number \<Rightarrow> number \<Rightarrow> number" where
  "refill burst perSecond tokens elapsedSeconds =
     math_min burst (tokens + elapsedSeconds * perSecond)"

lemma nonneg_times': "0 \<le> x \<Longrightarrow> isFinite x \<Longrightarrow> 0 \<le> y \<Longrightarrow> isFinite y \<Longrightarrow> 0 \<le> x * (y :: number)"
  by (auto simp: zero_le_toNumber elim!: isFiniteE)

lemma refill_bounds:
  assumes "0 \<le> tokens" "0 \<le> elapsed" "isFinite elapsed" "0 \<le> perSecond" "isFinite perSecond" "0 \<le> burst"
  shows "0 \<le> refill burst perSecond tokens elapsed" "refill burst perSecond tokens elapsed \<le> burst"
proof -
  define x where "x = tokens + elapsed * perSecond"
  have x: "0 \<le> x" unfolding x_def using assms by (intro nonneg_plus nonneg_times')
  then have "x \<noteq> NaN" "burst \<noteq> NaN" using assms(6) nonneg_not_NaN by blast+
  then show "0 \<le> refill burst perSecond tokens elapsed" "refill burst perSecond tokens elapsed \<le> burst"
    using x assms(6) by (auto simp: refill_def math_min_def number_not_less number_less_imp_le number_le_refl simp flip: x_def)
qed

lemma refill_instant:
  assumes "tokens = nat_number n" "n \<le> 2 ^ 53" "tokens \<le> burst" "isFinite perSecond"
  shows "refill burst perSecond tokens (int_number 0 / Num 1000) = tokens"
proof -
  obtain r where r: "perSecond = Num r" using assms(4) by auto
  have "int_number 0 / Num 1000 * perSecond = 0" by (simp add: r zero_number_def)
  then have sum: "tokens + int_number 0 / Num 1000 * perSecond = tokens"
    using nat_number_plus[of n 0] assms(1,2) by (simp add: zero_number_def)
  then show ?thesis using assms(3) unfolding refill_def sum
    by (cases burst) (auto simp: assms(1) math_min_def)
qed

lemma elapsed_nonneg:
  assumes "0 \<le> d" "d \<le> 2 ^ 53"
  shows "0 \<le> int_number d / Num 1000" "isFinite (int_number d / Num 1000)"
proof -
  have d: "(of_int d :: rat) \<le> of_int (2 ^ 53)" using assms(2) by (simp only: of_int_le_iff)
  have eq: "int_number d / Num 1000 = toNumber (of_int d / 1000)" by simp
  show 0: "0 \<le> int_number d / Num 1000" unfolding eq using assms(1) by (intro zero_le_toNumber) simp
  have "toNumber (of_int d / 1000) \<le> toNumber (of_int (2 ^ 53))"
    using d assms(1) by (intro toNumber_mono) simp
  then have "int_number d / Num 1000 \<le> int_number (2 ^ 53)" unfolding eq using toNumber_of_int[of "2 ^ 53"] by simp
  with 0 show "isFinite (int_number d / Num 1000)" unfolding zero_number_def by (rule finite_between)
qed

section \<open>Inventory reports\<close>

definition MAX_SEGMENTS_PER_REPORT :: nat where "MAX_SEGMENTS_PER_REPORT = 512"
definition MAX_SEGMENT_ID_LENGTH :: nat where "MAX_SEGMENT_ID_LENGTH = 512"
definition INVENTORY_CHARACTERS_PER_SECOND :: nat where "INVENTORY_CHARACTERS_PER_SECOND = 16 * 1024"
definition INVENTORY_BURST_CHARACTERS :: nat where "INVENTORY_BURST_CHARACTERS = 256 * 1024"
definition IDLE_BUCKET_MS :: int where
  "IDLE_BUCKET_MS = int (INVENTORY_BURST_CHARACTERS div INVENTORY_CHARACTERS_PER_SECOND * 1000)"
definition SWEEP_EVERY_CONSUMES :: nat where "SWEEP_EVERY_CONSUMES = 1024"

fun valid_segment_id :: "jsval \<Rightarrow> bool" where
  "valid_segment_id (Str s) = (s \<noteq> [] \<and> length s \<le> MAX_SEGMENT_ID_LENGTH)"
| "valid_segment_id _ = False"

definition segmentIdList :: "jsval \<Rightarrow> string list option" where
  "segmentIdList v = (case v of
     Array vs \<Rightarrow>
       if length vs > MAX_SEGMENTS_PER_REPORT \<or> list_ex (\<lambda>s. \<not> valid_segment_id s) vs then None
       else Some (List.map_filter to_string vs)
   | _ \<Rightarrow> None)"

record InventoryBucket =
  ib_characters :: number
  ib_updatedAt :: int

record InventoryRateLimiter =
  il_charactersPerSecond :: number
  il_burstCharacters :: number
  il_buckets :: "(string, InventoryBucket) jsmap"
  il_consumesSinceSweep :: nat

definition new_inventory_limiter :: "number \<Rightarrow> number \<Rightarrow> InventoryRateLimiter" where
  "new_inventory_limiter charactersPerSecond burstCharacters =
     \<lparr>il_charactersPerSecond = charactersPerSecond, il_burstCharacters = burstCharacters,
      il_buckets = [], il_consumesSinceSweep = 0\<rparr>"

definition bucket_key :: "string \<Rightarrow> string \<Rightarrow> string" where
  "bucket_key broadcastId peerId = broadcastId @ [CHR 0x0A] @ peerId"

definition inventory_sweep :: "int \<Rightarrow> InventoryRateLimiter \<Rightarrow> InventoryRateLimiter" where
  "inventory_sweep now l =
     (let l' = l\<lparr>il_consumesSinceSweep := il_consumesSinceSweep l + 1\<rparr> in
      if il_consumesSinceSweep l' < SWEEP_EVERY_CONSUMES then l'
      else l'\<lparr>il_consumesSinceSweep := 0,
              il_buckets := filter (\<lambda>(key, bucket). \<not> now - ib_updatedAt bucket \<ge> IDLE_BUCKET_MS)
                (il_buckets l')\<rparr>)"

definition report_characters :: "string list list \<Rightarrow> nat" where
  "report_characters segmentLists = sum_list (map (\<lambda>segments. sum_list (map length segments)) segmentLists)"

definition inventory_consume ::
    "string \<Rightarrow> string \<Rightarrow> string list list \<Rightarrow> int \<Rightarrow> InventoryRateLimiter \<Rightarrow> bool \<times> InventoryRateLimiter" where
  "inventory_consume broadcastId peerId segmentLists now l0 =
     (let characters = nat_number (report_characters segmentLists);
          l = inventory_sweep now l0;
          key = bucket_key broadcastId peerId;
          bucket = (case map_get (il_buckets l) key of
            None \<Rightarrow> \<lparr>ib_characters = il_burstCharacters l, ib_updatedAt = now\<rparr> | Some b \<Rightarrow> b);
          available = refill (il_burstCharacters l) (il_charactersPerSecond l) (ib_characters bucket)
            (int_number (now - ib_updatedAt bucket) / Num 1000);
          store = (\<lambda>c. l\<lparr>il_buckets := map_set (il_buckets l) key
            \<lparr>ib_characters = c, ib_updatedAt = now\<rparr>\<rparr>) in
      if characters > available then (False, store available)
      else (True, store (available - characters)))"

text \<open>What a peer may report at a time: the refilled level of its bucket, a full one when
  there is none.\<close>

definition inventory_level :: "InventoryRateLimiter \<Rightarrow> string \<Rightarrow> int \<Rightarrow> number" where
  "inventory_level l key now = (case map_get (il_buckets l) key of
     None \<Rightarrow> il_burstCharacters l
   | Some b \<Rightarrow> refill (il_burstCharacters l) (il_charactersPerSecond l) (ib_characters b)
       (int_number (now - ib_updatedAt b) / Num 1000))"

definition default_limits :: "InventoryRateLimiter \<Rightarrow> bool" where
  "default_limits l \<longleftrightarrow>
     il_charactersPerSecond l = nat_number INVENTORY_CHARACTERS_PER_SECOND \<and>
     il_burstCharacters l = nat_number INVENTORY_BURST_CHARACTERS"

definition inventory_inv :: "int \<Rightarrow> InventoryRateLimiter \<Rightarrow> bool" where
  "inventory_inv now l \<longleftrightarrow> default_limits l \<and> wf_map (il_buckets l) \<and> 0 \<le> now \<and> now \<le> 2 ^ 53 \<and>
     (\<forall>k b. map_get (il_buckets l) k = Some b \<longrightarrow>
        0 \<le> ib_characters b \<and> ib_characters b \<le> il_burstCharacters l \<and> 0 \<le> ib_updatedAt b \<and> ib_updatedAt b \<le> now)"

lemma bucket_bounds:
  assumes "inventory_inv now l" "map_get (il_buckets l) k = Some b"
  shows "0 \<le> ib_characters b" "ib_characters b \<le> il_burstCharacters l" "0 \<le> ib_updatedAt b" "ib_updatedAt b \<le> now"
  using assms by (auto simp: inventory_inv_def)

lemma idle_ms: "IDLE_BUCKET_MS = 16000"
  by (simp add: IDLE_BUCKET_MS_def INVENTORY_BURST_CHARACTERS_def INVENTORY_CHARACTERS_PER_SECOND_def)

lemma refill_full:
  assumes "0 \<le> tokens" "16000 \<le> d" "d \<le> 2 ^ 53"
  shows "refill (Num 262144) (Num 16384) tokens (int_number d / Num 1000) = Num 262144"
proof -
  obtain e where e: "int_number d / Num 1000 = Num e" using elapsed_nonneg(2)[of d] assms by auto
  have "(16000 :: rat) \<le> of_int d" using assms(2) by linarith
  then have "toNumber (of_int 16) \<le> toNumber (of_int d / 1000)" by (intro toNumber_mono) simp
  then have "16 \<le> e" using e toNumber_of_int[of 16] by simp
  then have "toNumber (of_int 262144) \<le> toNumber (e * 16384)" by (intro toNumber_mono) simp
  then have le: "Num 262144 \<le> Num e * Num 16384" using toNumber_of_int[of 262144] by simp
  have "Num 262144 \<le> tokens + Num e * Num 16384"
  proof -
    define y where "y = Num e * Num 16384"
    have le': "Num 262144 \<le> y" using le by (simp only: y_def)
    have "Num 262144 \<le> tokens + y"
    proof (cases y)
      case (Num b)
      with le' have b: "262144 \<le> b" by simp
      show ?thesis
      proof (cases tokens)
        case (Num a)
        with assms(1) b have "toNumber (of_int 262144) \<le> toNumber (a + b)" by (intro toNumber_mono) simp
        then show ?thesis using toNumber_of_int[of 262144] by (simp add: Num \<open>y = Num b\<close>)
      qed (use assms(1) Num in auto)
    next
      case Infinity
      with assms(1) show ?thesis by (cases tokens) auto
    qed (use le' in auto)
    then show ?thesis by (simp add: y_def)
  qed
  then show ?thesis unfolding refill_def e
    by (cases "tokens + Num e * Num 16384") (auto simp: math_min_def)
qed

lemma sweep_inv: "inventory_inv now l \<Longrightarrow> inventory_inv now (inventory_sweep now l)"
  by (auto simp: inventory_inv_def inventory_sweep_def Let_def default_limits_def get_filter wf_map_filter
      split: option.splits if_splits)

lemma sweep_level:
  assumes "inventory_inv now l" "now \<le> t" "t \<le> 2 ^ 53"
  shows "inventory_level (inventory_sweep now l) key t = inventory_level l key t"
proof (cases "il_consumesSinceSweep l + 1 < SWEEP_EVERY_CONSUMES")
  case True
  then show ?thesis by (simp add: inventory_sweep_def inventory_level_def split: option.split)
next
  case False
  have wf: "wf_map (il_buckets l)" using assms(1) by (simp add: inventory_inv_def)
  show ?thesis
  proof (cases "map_get (il_buckets l) key")
    case None
    with False show ?thesis by (simp add: inventory_sweep_def inventory_level_def get_filter[OF wf])
  next
    case (Some b)
    show ?thesis
    proof (cases "now - ib_updatedAt b \<ge> IDLE_BUCKET_MS")
      case True
      have "16000 \<le> t - ib_updatedAt b" "t - ib_updatedAt b \<le> 2 ^ 53" "0 \<le> ib_characters b"
        using True assms(2,3) bucket_bounds[OF assms(1) Some] unfolding idle_ms by linarith+
      from refill_full[OF this(3,1,2)] have "inventory_level l key t = il_burstCharacters l"
        using assms(1) Some by (simp add: inventory_level_def inventory_inv_def default_limits_def
            INVENTORY_BURST_CHARACTERS_def INVENTORY_CHARACTERS_PER_SECOND_def)
      with False True Some show ?thesis
        by (simp add: inventory_sweep_def inventory_level_def get_filter[OF wf])
    next
      case fresh: False
      with False Some show ?thesis by (simp add: inventory_sweep_def inventory_level_def get_filter[OF wf])
    qed
  qed
qed

lemma default_values:
  "default_limits l \<longleftrightarrow> il_charactersPerSecond l = Num 16384 \<and> il_burstCharacters l = Num 262144"
  by (simp add: default_limits_def INVENTORY_BURST_CHARACTERS_def INVENTORY_CHARACTERS_PER_SECOND_def)

lemma level_fresh:
  assumes "default_limits l"
  shows "refill (il_burstCharacters l) (il_charactersPerSecond l) (il_burstCharacters l) (int_number 0 / Num 1000) =
     il_burstCharacters l"
proof -
  have "refill (Num 262144) (Num 16384) (Num 262144) (int_number 0 / Num 1000) = Num 262144"
    using refill_instant[of "Num 262144" 262144 "Num 262144" "Num 16384"] by (simp only: of_nat_numeral) simp
  then show ?thesis using assms by (simp add: default_values)
qed

text \<open>One report in terms of the level: accepted iff it fits, and then charged.\<close>

lemma consume_unfold:
  assumes "inventory_inv now l"
  shows "inventory_consume broadcastId peerId reports now l =
    (let key = bucket_key broadcastId peerId; c = nat_number (report_characters reports);
         available = inventory_level l key now; l' = inventory_sweep now l;
         store = (\<lambda>v. l'\<lparr>il_buckets := map_set (il_buckets l') key \<lparr>ib_characters = v, ib_updatedAt = now\<rparr>\<rparr>) in
     if c > available then (False, store available) else (True, store (available - c)))"
proof -
  have inv': "inventory_inv now (inventory_sweep now l)" using assms by (rule sweep_inv)
  then have d: "default_limits (inventory_sweep now l)" and n: "now \<le> 2 ^ 53" by (simp_all add: inventory_inv_def)
  have "inventory_level l (bucket_key broadcastId peerId) now = inventory_level (inventory_sweep now l) (bucket_key broadcastId peerId) now"
    using sweep_level[OF assms order_refl n] by simp
  also have "\<dots> = (let bucket = (case map_get (il_buckets (inventory_sweep now l)) (bucket_key broadcastId peerId) of
            None \<Rightarrow> \<lparr>ib_characters = il_burstCharacters (inventory_sweep now l), ib_updatedAt = now\<rparr> | Some b \<Rightarrow> b) in
      refill (il_burstCharacters (inventory_sweep now l)) (il_charactersPerSecond (inventory_sweep now l))
        (ib_characters bucket) (int_number (now - ib_updatedAt bucket) / Num 1000))"
    using level_fresh[OF d] by (auto simp: inventory_level_def Let_def split: option.split)
  finally show ?thesis by (simp add: inventory_consume_def Let_def)
qed

lemma level_bounds:
  assumes "inventory_inv now l" "now \<le> t" "t \<le> 2 ^ 53"
  shows "0 \<le> inventory_level l key t" "inventory_level l key t \<le> il_burstCharacters l"
proof -
  have d: "il_charactersPerSecond l = Num 16384" "il_burstCharacters l = Num 262144"
    using assms(1) by (simp_all add: inventory_inv_def default_values)
  have "0 \<le> inventory_level l key t \<and> inventory_level l key t \<le> il_burstCharacters l"
  proof (cases "map_get (il_buckets l) key")
    case (Some b)
    then have b: "0 \<le> ib_characters b" "0 \<le> t - ib_updatedAt b" "t - ib_updatedAt b \<le> 2 ^ 53"
      using assms(2,3) bucket_bounds[OF assms(1) Some] by linarith+
    show ?thesis
      using Some b refill_bounds[of "ib_characters b" _ "Num 16384" "Num 262144", OF b(1) elapsed_nonneg[OF b(2,3)]]
      by (simp add: inventory_level_def d)
  qed (simp add: inventory_level_def d)
  then show "0 \<le> inventory_level l key t" "inventory_level l key t \<le> il_burstCharacters l" by auto
qed

lemma level_representable:
  assumes "default_limits l"
  shows "representable (inventory_level l key now)"
proof -
  have "representable (Num 262144)" using representable_int[of 262144] by simp
  moreover have "representable (refill (Num 262144) p x e)" for p x e
    using calculation representable_plus by (simp add: refill_def math_min_def representable_def[of NaN])
  ultimately show ?thesis
    using assms by (auto simp: inventory_level_def default_values split: option.split)
qed

lemma consume_inv:
  assumes "inventory_inv now l"
  shows "inventory_inv now (snd (inventory_consume broadcastId peerId reports now l))"
proof -
  define key where "key = bucket_key broadcastId peerId"
  define av where "av = inventory_level l key now"
  define c where "c = nat_number (report_characters reports)"
  have n: "now \<le> 2 ^ 53" using assms by (simp add: inventory_inv_def)
  have av: "0 \<le> av" "av \<le> il_burstCharacters l" unfolding av_def by (rule level_bounds[OF assms order_refl n])+
  have d: "il_burstCharacters l = Num 262144" using assms by (simp add: inventory_inv_def default_values)
  have fin: "isFinite av" using av d finite_between[of 0 av 262144] by (simp add: zero_number_def)
  have rep: "representable av" unfolding av_def using assms by (simp add: level_representable inventory_inv_def)
  have inv': "inventory_inv now (inventory_sweep now l)" using assms by (rule sweep_inv)
  have burst': "il_burstCharacters (inventory_sweep now l) = il_burstCharacters l"
    by (simp add: inventory_sweep_def Let_def)
  have store: "inventory_inv now ((inventory_sweep now l)\<lparr>il_buckets := map_set (il_buckets (inventory_sweep now l)) key
      \<lparr>ib_characters = v, ib_updatedAt = now\<rparr>\<rparr>)" if "0 \<le> v" "v \<le> il_burstCharacters l" for v
    using inv' that by (auto simp: inventory_inv_def default_limits_def get_set burst')
  have "0 \<le> av - c \<and> av - c \<le> il_burstCharacters l" if "\<not> c > av"
    using minus_nonneg[OF fin, of c] minus_le_self(1)[OF rep fin, of c] that number_le_trans av(2)
    by (auto simp: c_def)
  with store[of av] store[of "av - c"] av show ?thesis
    by (simp add: consume_unfold[OF assms] Let_def flip: key_def av_def c_def)
qed

lemma consume_level:
  assumes "inventory_inv now l" "inventory_level l (bucket_key broadcastId peerId) now = nat_number n" "n \<le> 2 ^ 53"
  shows "fst (inventory_consume broadcastId peerId reports now l) \<longleftrightarrow> report_characters reports \<le> n"
    and "inventory_level (snd (inventory_consume broadcastId peerId reports now l)) (bucket_key broadcastId peerId) now =
      nat_number (if report_characters reports \<le> n then n - report_characters reports else n)"
proof -
  define c where "c = report_characters reports"
  have d: "il_charactersPerSecond l = Num 16384" "il_burstCharacters l = Num 262144"
    using assms(1) by (simp_all add: inventory_inv_def default_values)
  have sw: "il_burstCharacters (inventory_sweep now l) = Num 262144" "il_charactersPerSecond (inventory_sweep now l) = Num 16384"
    using d by (simp_all add: inventory_sweep_def Let_def)
  have nb: "now \<le> 2 ^ 53" using assms(1) by (simp add: inventory_inv_def)
  have le: "nat_number n \<le> Num 262144"
    using level_bounds(2)[OF assms(1) order_refl nb, of "bucket_key broadcastId peerId"] assms(2) d by simp
  show "fst (inventory_consume broadcastId peerId reports now l) \<longleftrightarrow> report_characters reports \<le> n"
    by (simp add: consume_unfold[OF assms(1)] Let_def assms(2) not_less)
  have sub: "nat_number n - nat_number c = nat_number (n - c)" if "c \<le> n"
    using int_number_minus[of "int n" "int c"] that assms(3) by (simp add: of_nat_diff)
  have le': "nat_number (n - c) \<le> Num 262144"
  proof -
    have "rat_of_nat (n - c) \<le> rat_of_nat n" by simp
    also have "\<dots> \<le> 262144" using le by simp
    finally show ?thesis by simp
  qed
  have "snd (inventory_consume broadcastId peerId reports now l) = (inventory_sweep now l)\<lparr>il_buckets :=
      map_set (il_buckets (inventory_sweep now l)) (bucket_key broadcastId peerId)
        \<lparr>ib_characters = nat_number (if c \<le> n then n - c else n), ib_updatedAt = now\<rparr>\<rparr>"
    unfolding consume_unfold[OF assms(1)] Let_def assms(2) c_def[symmetric] using sub by (cases "c \<le> n") simp_all
  then have "inventory_level (snd (inventory_consume broadcastId peerId reports now l)) (bucket_key broadcastId peerId) now =
      refill (Num 262144) (Num 16384) (nat_number (if c \<le> n then n - c else n)) (int_number 0 / Num 1000)"
    by (simp only: inventory_level_def) (simp add: get_set sw)
  also have "\<dots> = nat_number (if c \<le> n then n - c else n)"
    using le le' assms(3) by (intro refill_instant[OF refl]) (auto split: if_splits)
  finally show "inventory_level (snd (inventory_consume broadcastId peerId reports now l)) (bucket_key broadcastId peerId) now =
      nat_number (if report_characters reports \<le> n then n - report_characters reports else n)"
    by (simp only: c_def)
qed

interpretation inventory: token_bucket
  "\<lambda>reports. inventory_consume broadcastId peerId reports now" report_characters
  "\<lambda>l. inventory_level l (bucket_key broadcastId peerId) now" "\<lambda>_. inventory_inv now"
  by unfold_locales (use consume_level consume_inv in blast)+

section \<open>REST requests\<close>

record TokenBucket =
  tb_tokens :: number
  tb_lastRefillMs :: int

record IpRateLimiter =
  rl_requestsPerSecond :: number
  rl_burst :: number
  rl_buckets :: "(string, TokenBucket) jsmap"
  rl_operations :: nat

definition new_ip_limiter :: "number \<Rightarrow> number \<Rightarrow> IpRateLimiter" where
  "new_ip_limiter requestsPerSecond burst =
     \<lparr>rl_requestsPerSecond = requestsPerSecond, rl_burst = burst, rl_buckets = [], rl_operations = 0\<rparr>"

definition ip_sweep :: "int \<Rightarrow> IpRateLimiter \<Rightarrow> IpRateLimiter" where
  "ip_sweep nowMs l0 =
     (let l = l0\<lparr>rl_operations := rl_operations l0 + 1\<rparr> in
      if rl_operations l mod 1000 \<noteq> 0 then l
      else
        (let idleCutoff = int_number nowMs -
               math_max (Num 60000) ((rl_burst l / rl_requestsPerSecond l) * Num 2000) in
         l\<lparr>rl_buckets := filter (\<lambda>(ip, candidate). \<not> int_number (tb_lastRefillMs candidate) < idleCutoff)
             (rl_buckets l)\<rparr>))"

text \<open>\<^verbatim>\<open>undefined\<close> accepts the request, a number is the \<^verbatim>\<open>Retry-After\<close> of the rejection.\<close>

definition ip_consume :: "string \<Rightarrow> int \<Rightarrow> IpRateLimiter \<Rightarrow> number option \<times> IpRateLimiter" where
  "ip_consume clientIp nowMs l0 =
     (let l = ip_sweep nowMs l0;
          bucket = (case map_get (rl_buckets l) clientIp of
            None \<Rightarrow> \<lparr>tb_tokens = rl_burst l, tb_lastRefillMs = nowMs\<rparr> | Some b \<Rightarrow> b);
          elapsedSeconds = math_max 0 (int_number (nowMs - tb_lastRefillMs bucket)) / Num 1000;
          tokens = refill (rl_burst l) (rl_requestsPerSecond l) (tb_tokens bucket) elapsedSeconds;
          store = (\<lambda>t. l\<lparr>rl_buckets := map_set (rl_buckets l) clientIp
            \<lparr>tb_tokens = t, tb_lastRefillMs = nowMs\<rparr>\<rparr>) in
      if 1 \<le> tokens then (None, store (tokens - 1))
      else (Some (math_max 1 (math_ceil ((1 - tokens) / rl_requestsPerSecond l))), store tokens))"

definition ip_accepts :: "string \<Rightarrow> int \<Rightarrow> IpRateLimiter \<Rightarrow> bool \<times> IpRateLimiter" where
  "ip_accepts clientIp nowMs l = (case ip_consume clientIp nowMs l of (r, l') \<Rightarrow> (r = None, l'))"

text \<open>The level of a client's bucket at the instant of its last request.\<close>

definition ip_level :: "IpRateLimiter \<Rightarrow> string \<Rightarrow> number" where
  "ip_level l ip = (case map_get (rl_buckets l) ip of None \<Rightarrow> rl_burst l | Some b \<Rightarrow> tb_tokens b)"

definition ip_instant :: "string \<Rightarrow> int \<Rightarrow> nat \<Rightarrow> IpRateLimiter \<Rightarrow> bool" where
  "ip_instant ip now burst l \<longleftrightarrow> wf_map (rl_buckets l) \<and> \<bar>now\<bar> \<le> 2 ^ 53 \<and> burst \<le> 2 ^ 53 \<and>
     rl_burst l = nat_number burst \<and> isFinite (rl_requestsPerSecond l) \<and> 0 < rl_requestsPerSecond l \<and>
     (case map_get (rl_buckets l) ip of None \<Rightarrow> True
      | Some b \<Rightarrow> tb_lastRefillMs b = now \<and> tb_tokens b \<le> rl_burst l)"

lemma cutoff_before_now:
  assumes "isFinite rate" "0 < rate" "\<bar>now\<bar> \<le> 2 ^ 53"
  shows "\<not> int_number now < int_number now - math_max (Num 60000) ((nat_number burst / rate) * Num 2000)"
proof -
  obtain r where r: "rate = Num r" "0 < r" using assms(1,2) by (auto simp: isFinite_iff)
  define q where "q = nat_number burst / rate"
  have q: "0 \<le> q" using r by (simp add: q_def zero_le_toNumber)
  have "q * Num 2000 \<noteq> NaN" using q by (cases q) (auto simp: infinity_of_sign_def)
  then obtain "0 \<le> math_max (Num 60000) (q * Num 2000)"
    using math_max_ge[of "Num 60000" "q * Num 2000"] number_le_trans[of 0 "Num 60000"] by auto
  moreover define M where "M = math_max (Num 60000) (q * Num 2000)"
  ultimately have M: "0 \<le> M" by simp
  have "\<not> int_number now < int_number now - M"
  proof (cases M)
    case (Num m)
    have "int_number now - M \<le> int_number now"
      using minus_le_self(1)[OF representable_int[OF assms(3)], of M] M Num by simp
    then show ?thesis by (cases "int_number now - M") auto
  qed (use M in \<open>auto simp: minus_number_def\<close>)
  then show ?thesis unfolding M_def q_def .
qed

lemma ip_sweep_keeps:
  assumes "ip_instant ip now burst l"
  shows "map_get (rl_buckets (ip_sweep now l)) ip = map_get (rl_buckets l) ip"
    "rl_burst (ip_sweep now l) = rl_burst l" "rl_requestsPerSecond (ip_sweep now l) = rl_requestsPerSecond l"
    "wf_map (rl_buckets (ip_sweep now l))"
proof -
  note i = assms[unfolded ip_instant_def]
  then have wf: "wf_map (rl_buckets l)" by simp
  have "\<not> int_number now < int_number now - math_max (Num 60000) ((rl_burst l / rl_requestsPerSecond l) * Num 2000)"
    using i cutoff_before_now[of "rl_requestsPerSecond l" now burst] by simp
  then show "map_get (rl_buckets (ip_sweep now l)) ip = map_get (rl_buckets l) ip"
    using i by (auto simp: ip_sweep_def Let_def get_filter[OF wf] split: option.split)
  show "rl_burst (ip_sweep now l) = rl_burst l" "rl_requestsPerSecond (ip_sweep now l) = rl_requestsPerSecond l"
    "wf_map (rl_buckets (ip_sweep now l))"
    using wf by (simp_all add: ip_sweep_def Let_def wf_map_filter)
qed

lemma ip_consume_level:
  assumes "ip_instant ip now burst l" "ip_level l ip = nat_number n" "n \<le> 2 ^ 53"
  shows "fst (ip_accepts ip now l) \<longleftrightarrow> 1 \<le> n"
    and "ip_level (snd (ip_accepts ip now l)) ip = nat_number (if 1 \<le> n then n - 1 else n)"
    and "ip_instant ip now burst (snd (ip_accepts ip now l))"
proof -
  note k = ip_sweep_keeps[OF assms(1)] and i = assms(1)[unfolded ip_instant_def]
  define b where "b = (case map_get (rl_buckets l) ip of
    None \<Rightarrow> \<lparr>tb_tokens = rl_burst l, tb_lastRefillMs = now\<rparr> | Some b \<Rightarrow> b)"
  have b: "tb_tokens b = nat_number n" "tb_lastRefillMs b = now" "tb_tokens b \<le> rl_burst l"
    using assms(2) i by (auto simp: b_def ip_level_def split: option.splits)
  have "refill (rl_burst l) (rl_requestsPerSecond l) (tb_tokens b) (math_max 0 (int_number (now - tb_lastRefillMs b)) / Num 1000) =
      nat_number n"
    using refill_instant[OF b(1) assms(3) b(3)] i by (simp add: b zero_number_def)
  moreover have b': "(case map_get (rl_buckets (ip_sweep now l)) ip of
      None \<Rightarrow> \<lparr>tb_tokens = rl_burst (ip_sweep now l), tb_lastRefillMs = now\<rparr> | Some b \<Rightarrow> b) = b"
    unfolding b_def k ..
  ultimately have c: "ip_consume ip now l = (let store = (\<lambda>t. (ip_sweep now l)\<lparr>rl_buckets :=
        map_set (rl_buckets (ip_sweep now l)) ip \<lparr>tb_tokens = t, tb_lastRefillMs = now\<rparr>\<rparr>) in
      if 1 \<le> nat_number n then (None, store (nat_number n - 1))
      else (Some (math_max 1 (math_ceil ((1 - nat_number n) / rl_requestsPerSecond l))), store (nat_number n)))"
    unfolding ip_consume_def Let_def b' k(2,3) by (simp only:)
  have one: "1 \<le> nat_number n \<longleftrightarrow> 1 \<le> n" by simp
  have sub: "nat_number n - 1 = nat_number (n - 1)" if "1 \<le> n"
    using int_number_minus[of "int n" 1] that assms(3) by (simp add: of_nat_diff one_number_def)
  show "fst (ip_accepts ip now l) \<longleftrightarrow> 1 \<le> n" by (auto simp: ip_accepts_def c Let_def one)
  show "ip_level (snd (ip_accepts ip now l)) ip = nat_number (if 1 \<le> n then n - 1 else n)"
    using sub by (auto simp: ip_accepts_def c Let_def one ip_level_def get_set)
  have "rat_of_nat (n - 1) \<le> rat_of_nat n" by simp
  moreover have "rl_burst l = nat_number burst" using i by blast
  then have "rat_of_nat n \<le> rat_of_nat burst" using b(3) unfolding b(1) by simp
  ultimately have "rat_of_nat (n - 1) \<le> rat_of_nat burst" "rat_of_nat n \<le> rat_of_nat burst"
    by (blast intro: order_trans)+
  then show "ip_instant ip now burst (snd (ip_accepts ip now l))"
    using i k sub by (auto simp: ip_accepts_def c Let_def one ip_instant_def get_set)
qed

definition ip_integral :: "string \<Rightarrow> IpRateLimiter \<Rightarrow> bool" where
  "ip_integral ip l \<longleftrightarrow> (\<exists>n\<le>2 ^ 53. ip_level l ip = nat_number n)"

lemma ip_consume_integral:
  assumes "ip_instant ip now burst l" "ip_integral ip l"
  shows "ip_instant ip now burst (snd (ip_accepts ip now l))" "ip_integral ip (snd (ip_accepts ip now l))"
proof -
  obtain n where n: "n \<le> 2 ^ 53" "ip_level l ip = nat_number n" using assms(2) by (auto simp: ip_integral_def)
  show "ip_instant ip now burst (snd (ip_accepts ip now l))" by (rule ip_consume_level(3)[OF assms(1) n(2,1)])
  from ip_consume_level(2)[OF assms(1) n(2,1)] show "ip_integral ip (snd (ip_accepts ip now l))"
    unfolding ip_integral_def using n(1) by (intro exI[of _ "if 1 \<le> n then n - 1 else n"]) auto
qed

interpretation rest: token_bucket
  "\<lambda>_ :: unit. ip_accepts ip now" "\<lambda>_. 1" "\<lambda>l. ip_level l ip"
  "\<lambda>_ l. ip_instant ip now burst l \<and> ip_integral ip l"
  by unfold_locales (auto intro: ip_consume_integral simp: ip_consume_level simp del: One_nat_def)

section \<open>Upload bandwidth\<close>

record BandwidthLimiter =
  bl_bytesPerSecond :: number
  bl_tokens :: number
  bl_lastRefill :: number

definition MAX_CHUNK_BYTES :: number where
  "MAX_CHUNK_BYTES = Num (64 * 1024)"

definition new_bandwidth_limiter :: "number \<Rightarrow> number \<Rightarrow> (string, BandwidthLimiter) result" where
  "new_bandwidth_limiter bytesPerSecond now =
     (if \<not> isFinite bytesPerSecond \<or> bytesPerSecond \<le> 0 then throw ''Upload speed must be positive''
      else return \<lparr>bl_bytesPerSecond = bytesPerSecond, bl_tokens = bytesPerSecond, bl_lastRefill = now\<rparr>)"

definition maximumChunkBytes :: "BandwidthLimiter \<Rightarrow> number" where
  "maximumChunkBytes l = math_max 1 (math_min MAX_CHUNK_BYTES (math_floor (bl_bytesPerSecond l)))"

definition bandwidth_refill :: "number \<Rightarrow> BandwidthLimiter \<Rightarrow> BandwidthLimiter" where
  "bandwidth_refill now l =
     l\<lparr>bl_tokens := refill (bl_bytesPerSecond l) (bl_bytesPerSecond l) (bl_tokens l)
         (math_max 0 (now - bl_lastRefill l) / Num 1000),
       bl_lastRefill := now\<rparr>"

text \<open>
  The waiting loop. Every round finds the abort signal raised or not and a clock value; when
  the tokens do not suffice it waits for a timer and goes round again. The rounds are given as
  a list, which ends when nobody looks any more: \<open>Waiting\<close> carries the last timer.
\<close>

datatype consume_outcome = Consumed | Aborted | Waiting

fun bandwidth_consume ::
    "number \<Rightarrow> (bool \<times> number) list \<Rightarrow> BandwidthLimiter \<Rightarrow> consume_outcome \<times> BandwidthLimiter" where
  "bandwidth_consume bytes [] l = (Waiting, l)"
| "bandwidth_consume bytes ((aborted, now) # rounds) l =
     (if aborted then (Aborted, l)
      else
        (let l' = bandwidth_refill now l in
         if bytes \<le> bl_tokens l' then (Consumed, l'\<lparr>bl_tokens := bl_tokens l' - bytes\<rparr>)
         else bandwidth_consume bytes rounds l'))"

text \<open>The timer of a waiting round.\<close>

definition bandwidth_wait :: "number \<Rightarrow> BandwidthLimiter \<Rightarrow> number" where
  "bandwidth_wait bytes l =
     math_max 1 (((bytes - bl_tokens l) / bl_bytesPerSecond l) * Num 1000)"

definition bandwidth_inv :: "BandwidthLimiter \<Rightarrow> bool" where
  "bandwidth_inv l \<longleftrightarrow> isFinite (bl_bytesPerSecond l) \<and> 0 < bl_bytesPerSecond l \<and>
     representable (bl_bytesPerSecond l) \<and>
     0 \<le> bl_tokens l \<and> bl_tokens l \<le> bl_bytesPerSecond l"

lemma refill_second:
  assumes "isFinite rate" "0 < rate" "representable rate" "0 \<le> tokens" "Num 1000 \<le> d"
  shows "refill rate rate tokens (d / Num 1000) = rate"
proof -
  obtain r where r: "rate = Num r" "0 < r" using assms(1,2) by (auto simp: isFinite_iff)
  have fix_r: "toNumber r = Num r" using assms(3) by (simp add: r representable_def toNumber_fix)
  have "Num r \<le> d / Num 1000 * Num r"
  proof (cases d)
    case (Num x)
    with assms(5) have x: "1000 \<le> x" by simp
    then have "toNumber (of_int 1) \<le> toNumber (x / 1000)" by (intro toNumber_mono) simp
    then have e: "1 \<le> d / Num 1000" using Num toNumber_of_int[of 1] by (simp add: one_number_def)
    show ?thesis
    proof (cases "d / Num 1000")
      case (Num y)
      with e have "r \<le> y * r" using r(2) by (simp add: mult_le_cancel_right1)
      then have "toNumber r \<le> toNumber (y * r)" by (rule toNumber_mono)
      then show ?thesis by (simp add: Num fix_r)
    qed (use e r in \<open>auto simp: infinity_of_sign_def\<close>)
  next
    case Infinity
    then show ?thesis using r by (simp add: infinity_of_sign_def)
  qed (use assms(5) in auto)
  then obtain y where y: "y = d / Num 1000 * Num r" "Num r \<le> y" by blast
  have "Num r \<le> tokens + y"
  proof (cases y)
    case (Num b)
    show ?thesis
    proof (cases tokens)
      case (Num a)
      with assms(4) y(2) \<open>y = Num b\<close> have "toNumber r \<le> toNumber (a + b)" by (intro toNumber_mono) simp
      then show ?thesis by (simp add: Num \<open>y = Num b\<close> fix_r)
    qed (use assms(4) Num in auto)
  next
    case Infinity
    with assms(4) show ?thesis by (cases tokens) auto
  qed (use y(2) in auto)
  then show ?thesis unfolding refill_def r(1) y(1)[symmetric]
    by (cases "tokens + y") (auto simp: math_min_def)
qed

lemma elapsed_seconds_nonneg:
  assumes "isFinite now" "isFinite before"
  shows "0 \<le> math_max 0 (now - before) / Num 1000"
proof -
  define x where "x = now - before"
  have "x \<noteq> NaN" using assms by (auto simp: x_def minus_number_def elim!: isFiniteE)
  then show ?thesis unfolding x_def[symmetric]
    by (cases x) (auto simp: zero_number_def math_max_def infinity_of_sign_def
        intro: zero_le_toNumber[unfolded zero_number_def])
qed

lemma bandwidth_refill_inv [inv_intros]:
  assumes "bandwidth_inv l" "isFinite now" "isFinite (bl_lastRefill l)"
  shows "bandwidth_inv (bandwidth_refill now l)"
proof -
  note i = assms(1)[unfolded bandwidth_inv_def]
  obtain r where r: "bl_bytesPerSecond l = Num r" "0 < r" using i by (auto simp: isFinite_iff)
  define e where "e = math_max 0 (now - bl_lastRefill l) / Num 1000"
  have "0 \<le> e" unfolding e_def by (rule elapsed_seconds_nonneg[OF assms(2,3)])
  then have "0 \<le> e * Num r" using r(2) by (cases e) (auto simp: zero_le_toNumber infinity_of_sign_def)
  then have "0 \<le> bl_tokens l + e * Num r" using i by (intro nonneg_plus) simp
  then have "0 \<le> refill (Num r) (Num r) (bl_tokens l) e \<and> refill (Num r) (Num r) (bl_tokens l) e \<le> Num r"
    unfolding refill_def using r(2)
    by (cases "bl_tokens l + e * Num r") (auto simp: math_min_def)
  with i show ?thesis by (simp add: bandwidth_inv_def bandwidth_refill_def r flip: e_def)
qed

section \<open>Properties\<close>

text \<open>In one instant a peer gets at most its bucket's level of inventory characters accepted,
  however its reports are split: the accepted ones add up to at most the level before them.\<close>

theorem inventory_burst_bounded:
  assumes "inventory_inv now l" "inventory_level l (bucket_key broadcastId peerId) now = nat_number n" "n \<le> 2 ^ 53"
  shows "accepted_cost report_characters reports
    (fst (run_requests (\<lambda>r. inventory_consume broadcastId peerId r now) reports l)) \<le> n"
  using inventory.accepted_within_level[of reports now l broadcastId peerId n] assms by simp

lemma new_inventory_inv: "inventory_inv 0 (new_inventory_limiter (Num 16384) (Num 262144))"
  by (simp add: inventory_inv_def new_inventory_limiter_def default_values)

theorem inventory_burst_bounded_witness:
  "accepted_cost report_characters [[[''a.ts'']], [[''b.ts'', ''c.ts'']]]
    (fst (run_requests (\<lambda>r. inventory_consume ''b'' ''p'' r 0) [[[''a.ts'']], [[''b.ts'', ''c.ts'']]]
      (new_inventory_limiter (Num 16384) (Num 262144)))) \<le> 262144"
  by (rule inventory_burst_bounded[OF new_inventory_inv])
    (simp_all add: inventory_level_def new_inventory_limiter_def)

text \<open>Forgetting idle buckets is not observable: at any later time every peer's level is the
  same with and without the sweep, because a bucket is only dropped when it is full again.\<close>

theorem inventory_sweep_invisible:
  assumes "inventory_inv now l" "now \<le> later" "later \<le> 2 ^ 53"
  shows "inventory_level (inventory_sweep now l) key later = inventory_level l key later"
  by (rule sweep_level[OF assms])

definition idle_limiter :: InventoryRateLimiter where
  "idle_limiter = \<lparr>il_charactersPerSecond = Num 16384, il_burstCharacters = Num 262144,
     il_buckets = [(''k'', \<lparr>ib_characters = 0, ib_updatedAt = 0\<rparr>)], il_consumesSinceSweep = 1023\<rparr>"

lemma idle_limiter_inv: "inventory_inv 20000 idle_limiter"
  by (simp add: inventory_inv_def idle_limiter_def default_values wf_map_def zero_number_def)

theorem inventory_sweep_invisible_witness:
  "inventory_level (inventory_sweep 20000 idle_limiter) ''k'' 20000 = inventory_level idle_limiter ''k'' 20000 \<and>
    il_buckets (inventory_sweep 20000 idle_limiter) = []"
  using inventory_sweep_invisible[OF idle_limiter_inv, of 20000 "''k''"]
  by (simp add: inventory_sweep_def idle_limiter_def SWEEP_EVERY_CONSUMES_def idle_ms)

text \<open>A new client gets at most its burst of REST requests accepted in one instant, whatever
  sweeps happen in between.\<close>

theorem rest_burst_bounded:
  assumes "map_get (rl_buckets l) ip = None" "wf_map (rl_buckets l)" "\<bar>now\<bar> \<le> 2 ^ 53"
    "rl_burst l = nat_number burst" "burst \<le> 2 ^ 53"
    "isFinite (rl_requestsPerSecond l)" "0 < rl_requestsPerSecond l"
  shows "accepted_cost (\<lambda>_. 1) requests (fst (run_requests (\<lambda>_ :: unit. ip_accepts ip now) requests l)) \<le> burst"
proof (rule rest.accepted_within_level)
  have "ip_level l ip = nat_number burst" by (simp add: ip_level_def assms)
  then show "\<forall>r\<in>set requests. ip_instant ip now burst l \<and> ip_integral ip l" and "ip_level l ip = nat_number burst"
    using assms by (auto simp: ip_instant_def ip_integral_def)
qed (rule assms)

theorem rest_burst_bounded_witness:
  "accepted_cost (\<lambda>_. 1) [(), (), ()] (fst (run_requests (\<lambda>_ :: unit. ip_accepts ''10.0.0.1'' 0) [(), (), ()]
    (new_ip_limiter (Num 1) (nat_number 2)))) \<le> 2"
  by (rule rest_burst_bounded) (simp_all add: new_ip_limiter_def)

text \<open>Uploads are not starved: a chunk of at most one second's bytes is granted in the first
  round a second or more after the last refill.\<close>

theorem upload_granted_after_second:
  assumes "bandwidth_inv l" "Num 1000 \<le> now - bl_lastRefill l" "bytes \<le> bl_bytesPerSecond l"
  shows "fst (bandwidth_consume bytes ((False, now) # rounds) l) = Consumed"
proof -
  have "math_max 0 (now - bl_lastRefill l) = now - bl_lastRefill l"
    using assms(2) by (cases "now - bl_lastRefill l") (auto simp: math_max_def zero_number_def)
  with refill_second[of "bl_bytesPerSecond l" "bl_tokens l" "now - bl_lastRefill l"] assms
  show ?thesis by (simp add: bandwidth_inv_def bandwidth_refill_def Let_def)
qed

definition sample_bandwidth :: BandwidthLimiter where
  "sample_bandwidth = \<lparr>bl_bytesPerSecond = int_number 1000, bl_tokens = 0, bl_lastRefill = 0\<rparr>"

lemma sample_bandwidth_inv: "bandwidth_inv sample_bandwidth"
  using representable_int[of 1000] by (simp add: bandwidth_inv_def sample_bandwidth_def)

theorem upload_granted_after_second_witness:
  "fst (bandwidth_consume (int_number 500) [(False, int_number 1000)] sample_bandwidth) = Consumed"
proof (rule upload_granted_after_second[OF sample_bandwidth_inv])
  show "Num 1000 \<le> int_number 1000 - bl_lastRefill sample_bandwidth"
    using int_number_minus[of 1000 0] by (simp add: sample_bandwidth_def zero_number_def)
qed (simp add: sample_bandwidth_def)

text \<open>A limiter below one byte per second never grants the smallest chunk
  \<^verbatim>\<open>maximumChunkBytes\<close> allows: however long it waits, no round consumes.\<close>

theorem slow_upload_starves:
  assumes "bandwidth_inv l" "bl_bytesPerSecond l < 1" "isFinite (bl_lastRefill l)"
    "list_all (\<lambda>(aborted, now). isFinite now) rounds"
  shows "maximumChunkBytes l = 1 \<and> fst (bandwidth_consume (maximumChunkBytes l) rounds l) \<noteq> Consumed"
proof
  obtain r where r: "bl_bytesPerSecond l = Num r" "0 < r" "r < 1"
    using assms(1,2) by (auto simp: bandwidth_inv_def isFinite_iff)
  then have "\<lfloor>r\<rfloor> = 0" by linarith
  then show m: "maximumChunkBytes l = 1"
    by (simp add: maximumChunkBytes_def r(1) MAX_CHUNK_BYTES_def one_number_def)
  have "fst (bandwidth_consume 1 rounds l) \<noteq> Consumed"
    using assms
  proof (induction rounds arbitrary: l)
    case (Cons round rounds)
    obtain aborted now where round: "round = (aborted, now)" by (cases round)
    define l' where "l' = bandwidth_refill now l"
    have fields: "bl_bytesPerSecond l' = bl_bytesPerSecond l" "bl_lastRefill l' = now"
      by (simp_all add: l'_def bandwidth_refill_def)
    have inv: "bandwidth_inv l'" using Cons.prems round by (simp add: l'_def bandwidth_refill_inv)
    have "\<not> 1 \<le> bl_tokens l'"
      using inv Cons.prems(2) number_le_less_trans[of "bl_tokens l'" "bl_bytesPerSecond l" 1]
      by (cases "bl_tokens l'") (auto simp: bandwidth_inv_def fields)
    moreover have "fst (bandwidth_consume 1 rounds l') \<noteq> Consumed"
      using Cons.IH[OF inv] Cons.prems round by (simp add: fields)
    ultimately show ?case by (simp add: round Let_def flip: l'_def)
  qed simp
  then show "fst (bandwidth_consume (maximumChunkBytes l) rounds l) \<noteq> Consumed" by (simp add: m)
qed

definition slow_bandwidth :: BandwidthLimiter where
  "slow_bandwidth = \<lparr>bl_bytesPerSecond = Num (1 / 2), bl_tokens = Num (1 / 2), bl_lastRefill = 0\<rparr>"

lemma slow_bandwidth_inv: "bandwidth_inv slow_bandwidth"
proof -
  have "toNumber (1 / 2) = Num (1 / 2)" using toNumber_scaled[of 1 "-1"] by (simp add: power_int_minus)
  then have "representable (Num (1 / 2))" using toNumber_representable[of "1 / 2"] by simp
  then show ?thesis by (simp add: bandwidth_inv_def slow_bandwidth_def)
qed

theorem slow_upload_starves_witness:
  "maximumChunkBytes slow_bandwidth = 1 \<and>
    fst (bandwidth_consume (maximumChunkBytes slow_bandwidth) [(False, Num 1000), (False, Num 100000)] slow_bandwidth)
      \<noteq> Consumed"
  by (rule slow_upload_starves[OF slow_bandwidth_inv]) (simp_all add: slow_bandwidth_def)

end
