(* ===== verification/BufferPool.thy ===== *)
theory BufferPool
  imports Prelude JsNumber "HOL-Library.Multiset"
begin

text \<open>
  The Node peer's pool of segment buffers (\<^verbatim>\<open>peer/src/buffer-pool.ts\<close>). Buffers are objects:
  an allocation (\<open>backing\<close>) and the views handed out have identities, the bytes live in a
  memory indexed by the backing's identity. The invariant says that no backing is handed out
  twice: retained and leased backings are pairwise different.
\<close>

section \<open>Model\<close>

text \<open>A dedicated allocation and a view of its first bytes.\<close>

record backing =
  bk_id :: nat
  bk_bytes :: nat

record view =
  vw_id :: nat
  vw_backing :: nat
  vw_bytes :: nat

record BufferPool =
  maxPooledBufferBytes :: nat
  maxRetainedPerBucket :: nat
  maxRetainedBytes :: nat
  available :: "(nat, backing list) jsmap"
  leases :: "(nat, backing) jsmap"
  retainedBytes :: nat
  next_object :: nat
  memory :: "nat \<Rightarrow> nat list"

definition positive_safe :: "number \<Rightarrow> bool" where
  "positive_safe x \<longleftrightarrow> \<not> (\<not> isSafeInteger x \<or> x \<le> 0)"

fun to_nat :: "number \<Rightarrow> nat" where
  "to_nat (Num q) = nat \<lfloor>q\<rfloor>"
| "to_nat _ = 0"

definition new_buffer_pool ::
    "number \<Rightarrow> number \<Rightarrow> number \<Rightarrow> (nat \<Rightarrow> nat list) \<Rightarrow> (string, BufferPool) result" where
  "new_buffer_pool pooled perBucket retained uninitialised =
     (if \<not> positive_safe pooled then throw ''Maximum pooled buffer size must be a positive integer''
      else if \<not> positive_safe perBucket then throw ''Retained buffers per bucket must be a positive integer''
      else if \<not> positive_safe retained then throw ''Maximum retained bytes must be a positive integer''
      else return \<lparr>maxPooledBufferBytes = to_nat pooled, maxRetainedPerBucket = to_nat perBucket,
        maxRetainedBytes = to_nat retained, available = [], leases = [], retainedBytes = 0,
        next_object = 0, memory = uninitialised\<rparr>)"

text \<open>\<^verbatim>\<open>while (bucket < wanted) bucket *= 2\<close>, from 1; a zero bucket never arises.\<close>

function double_until :: "nat \<Rightarrow> nat \<Rightarrow> nat" where
  "double_until bucket wanted = (if 0 < bucket \<and> bucket < wanted then double_until (bucket * 2) wanted else bucket)"
  by pat_completeness auto
termination by (relation "measure (\<lambda>(bucket, wanted). wanted - bucket)") auto

declare double_until.simps [simp del]

definition bucketSize :: "BufferPool \<Rightarrow> nat \<Rightarrow> nat" where
  "bucketSize p wanted = (if wanted > maxPooledBufferBytes p then wanted else double_until 1 wanted)"

definition fresh_object :: "BufferPool \<Rightarrow> nat \<times> BufferPool" where
  "fresh_object p = (next_object p, p\<lparr>next_object := next_object p + 1\<rparr>)"

text \<open>\<^verbatim>\<open>this.available.get(bucketSize)?.pop()\<close> with the byte count, or a new allocation.\<close>

definition take_backing :: "nat \<Rightarrow> BufferPool \<Rightarrow> backing \<times> BufferPool" where
  "take_backing bucket p =
     (case map_get (available p) bucket of
        Some (b # bs) \<Rightarrow>
          (let reused = last (b # bs) in
           (reused, p\<lparr>available := map_set (available p) bucket (butlast (b # bs)),
                      retainedBytes := retainedBytes p - bk_bytes reused\<rparr>))
      | _ \<Rightarrow>
          (case fresh_object p of (i, p') \<Rightarrow> (\<lparr>bk_id = i, bk_bytes = bucket\<rparr>, p')))"

definition acquire :: "nat \<Rightarrow> BufferPool \<Rightarrow> (string, view) result \<times> BufferPool" where
  "acquire wanted p =
     (if wanted = 0 then (throw ''Buffer size must be a positive integer'', p)
      else
        (let bucket = bucketSize p wanted in
         case take_backing bucket p of
           (b, p1) \<Rightarrow>
             (case fresh_object p1 of
                (i, p2) \<Rightarrow>
                  (let v = \<lparr>vw_id = i, vw_backing = bk_id b, vw_bytes = wanted\<rparr> in
                   (return v,
                    if bucket \<le> maxPooledBufferBytes p then p2\<lparr>leases := map_set (leases p2) i b\<rparr> else p2)))))"

definition view_bytes :: "BufferPool \<Rightarrow> view \<Rightarrow> nat list" where
  "view_bytes p v = take (vw_bytes v) (memory p (vw_backing v))"

text \<open>\<^verbatim>\<open>target.set(source)\<close> overwrites the first bytes of the view's backing.\<close>

definition copy_bytes :: "nat list \<Rightarrow> BufferPool \<Rightarrow> (string, view) result \<times> BufferPool" where
  "copy_bytes source p =
     (case acquire (length source) p of
        (Inl e, p') \<Rightarrow> (Inl e, p')
      | (Inr v, p') \<Rightarrow>
          (Inr v, p'\<lparr>memory := (memory p')(vw_backing v :=
             source @ drop (length source) (memory p' (vw_backing v)))\<rparr>))"

definition release_view :: "view \<Rightarrow> BufferPool \<Rightarrow> BufferPool" where
  "release_view v p =
     (case map_get (leases p) (vw_id v) of
        None \<Rightarrow> p
      | Some b \<Rightarrow>
          (let p1 = p\<lparr>leases := map_delete (leases p) (vw_id v)\<rparr>;
               bucket = bk_bytes b;
               retained = (case map_get (available p1) bucket of None \<Rightarrow> [] | Some bs \<Rightarrow> bs) in
           if length retained \<ge> maxRetainedPerBucket p1 \<or>
              retainedBytes p1 + bucket > maxRetainedBytes p1 then p1
           else p1\<lparr>memory := (memory p1)(bk_id b := replicate bucket 0),
                   available := map_set (available p1) bucket (retained @ [b]),
                   retainedBytes := retainedBytes p1 + bucket\<rparr>))"

definition retainedCount :: "nat option \<Rightarrow> BufferPool \<Rightarrow> nat" where
  "retainedCount bucket p = (case bucket of
     Some k \<Rightarrow> (case map_get (available p) k of None \<Rightarrow> 0 | Some bs \<Rightarrow> length bs)
   | None \<Rightarrow> sum_list (map length (map_values (available p))))"

definition allocationSize :: "view \<Rightarrow> BufferPool \<Rightarrow> nat" where
  "allocationSize v p = (case map_get (leases p) (vw_id v) of None \<Rightarrow> vw_bytes v | Some b \<Rightarrow> bk_bytes b)"

section \<open>Size classes\<close>

lemma double_until_ge: "0 < bucket \<Longrightarrow> wanted \<le> double_until bucket wanted"
  by (induction bucket wanted rule: double_until.induct) (subst double_until.simps, auto)

lemma double_until_power:
  "\<exists>k. double_until bucket wanted = bucket * 2 ^ k"
proof (induction bucket wanted rule: double_until.induct)
  case (1 bucket wanted)
  show ?case
  proof (cases "0 < bucket \<and> bucket < wanted")
    case True
    with 1 obtain k where "double_until (bucket * 2) wanted = bucket * 2 * 2 ^ k" by blast
    then have "double_until bucket wanted = bucket * 2 ^ Suc k" using True by (subst double_until.simps) simp
    then show ?thesis by blast
  next
    case False
    then have "double_until bucket wanted = bucket * 2 ^ 0" by (subst double_until.simps) auto
    then show ?thesis by blast
  qed
qed

lemma double_until_less: "0 < bucket \<Longrightarrow> bucket < wanted \<Longrightarrow> double_until bucket wanted < 2 * wanted"
proof (induction bucket wanted rule: double_until.induct)
  case (1 bucket wanted)
  show ?case
  proof (cases "bucket * 2 < wanted")
    case True
    with 1 show ?thesis by (subst double_until.simps) simp
  next
    case False
    with 1(2,3) show ?thesis by (subst double_until.simps, subst double_until.simps) simp
  qed
qed

lemma bucketSize_ge: "wanted \<le> bucketSize p wanted"
  by (simp add: bucketSize_def double_until_ge)

section \<open>No backing is handed out twice\<close>

definition retained :: "BufferPool \<Rightarrow> backing list" where
  "retained p = concat (map_values (available p))"

definition leased :: "BufferPool \<Rightarrow> backing list" where
  "leased p = map_values (leases p)"

definition owned :: "BufferPool \<Rightarrow> nat multiset" where
  "owned p = image_mset bk_id (mset (retained p)) + image_mset bk_id (mset (leased p))"

definition pool_inv :: "BufferPool \<Rightarrow> bool" where
  "pool_inv p \<longleftrightarrow> wf_map (available p) \<and> wf_map (leases p) \<and>
     (\<forall>k bs. map_get (available p) k = Some bs \<longrightarrow>
        length bs \<le> maxRetainedPerBucket p \<and> (\<forall>b\<in>set bs. bk_bytes b = k)) \<and>
     retainedBytes p = sum_list (map bk_bytes (retained p)) \<and> retainedBytes p \<le> maxRetainedBytes p \<and>
     (\<forall>i. count (owned p) i \<le> 1) \<and>
     (\<forall>i\<in>#owned p. i < next_object p) \<and>
     (\<forall>i\<in>set (map_keys (leases p)). i < next_object p)"

lemma mset_values_set:
  "mset (map_values (map_set m k v)) + (case map_get m k of None \<Rightarrow> {#} | Some w \<Rightarrow> {#w#}) =
     add_mset v (mset (map_values m))"
  by (induction m) (auto split: option.splits)

lemma mset_values_delete:
  "wf_map m \<Longrightarrow> map_get m k = Some v \<Longrightarrow> add_mset v (mset (map_values (map_delete m k))) = mset (map_values m)"
proof (induction m)
  case (Cons p m)
  obtain k' w where p: "p = (k', w)" by (cases p)
  show ?case
  proof (cases "k' = k")
    case True
    with Cons.prems p show ?thesis using delete_first[of k w m] by simp
  next
    case False
    with Cons p show ?thesis by (simp add: wf_map_Cons)
  qed
qed simp

lemma mset_concat_set:
  "mset (concat (map_values (map_set m k v))) + (case map_get m k of None \<Rightarrow> {#} | Some w \<Rightarrow> mset w) =
     mset v + mset (concat (map_values m))"
  by (induction m) (auto split: option.splits simp: ac_simps)

lemma sum_bytes_mset: "sum_list (map bk_bytes bs) = sum_mset (image_mset bk_bytes (mset bs))"
  by (simp flip: sum_mset_sum_list)

text \<open>Popping a retained backing.\<close>

lemma mset_butlast: "bs \<noteq> [] \<Longrightarrow> add_mset (last bs) (mset (butlast bs)) = mset bs"
proof -
  assume "bs \<noteq> []"
  then have "mset bs = mset (butlast bs @ [last bs])" by simp
  then show ?thesis by simp
qed

lemma take_backing_spec:
  assumes inv: "pool_inv p" and take: "take_backing bucket p = (b, p')"
  shows "bk_bytes b = bucket"
    and "leases p' = leases p" and "memory p' = memory p"
    and "maxPooledBufferBytes p' = maxPooledBufferBytes p" "maxRetainedPerBucket p' = maxRetainedPerBucket p"
      "maxRetainedBytes p' = maxRetainedBytes p"
    and "(mset (retained p) = add_mset b (mset (retained p')) \<and> next_object p' = next_object p) \<or>
      (bk_id b = next_object p \<and> retained p' = retained p \<and> next_object p' = next_object p + 1)"
    and "pool_inv p'"
    and "bk_id b \<notin># owned p'"
proof -
  note i = inv[unfolded pool_inv_def]
  have all: "bk_bytes b = bucket \<and> leases p' = leases p \<and> memory p' = memory p \<and>
    maxPooledBufferBytes p' = maxPooledBufferBytes p \<and> maxRetainedPerBucket p' = maxRetainedPerBucket p \<and>
    maxRetainedBytes p' = maxRetainedBytes p \<and>
    ((mset (retained p) = add_mset b (mset (retained p')) \<and> next_object p' = next_object p) \<or>
      (bk_id b = next_object p \<and> retained p' = retained p \<and> next_object p' = next_object p + 1)) \<and>
    pool_inv p'"
  proof (cases "map_get (available p) bucket = None \<or> map_get (available p) bucket = Some []")
    case True
    then have "b = \<lparr>bk_id = next_object p, bk_bytes = bucket\<rparr>" "p' = p\<lparr>next_object := next_object p + 1\<rparr>"
      using take by (auto simp: take_backing_def fresh_object_def split: option.splits list.splits)
    moreover have "owned p' = owned p" "retained p' = retained p"
      by (simp_all add: calculation owned_def retained_def leased_def)
    ultimately show ?thesis using i by (auto simp: pool_inv_def less_Suc_eq)
  next
    case False
    then obtain bs where bs: "map_get (available p) bucket = Some bs" "bs \<noteq> []" by auto
    then have b: "b = last bs" and p': "p' = p\<lparr>available := map_set (available p) bucket (butlast bs),
        retainedBytes := retainedBytes p - bk_bytes (last bs)\<rparr>"
      using take by (auto simp: take_backing_def Let_def split: option.splits list.splits)
    have size: "bk_bytes b = bucket" and len: "length bs \<le> maxRetainedPerBucket p"
      using i bs b last_in_set[OF bs(2)] by auto
    then have len': "length bs - Suc 0 \<le> maxRetainedPerBucket p" by linarith
    have "mset (retained p') + mset bs = mset (butlast bs) + mset (retained p)"
      using mset_concat_set[where m = "available p" and k = bucket and v = "butlast bs"] bs by (simp add: retained_def p')
    then have "mset (butlast bs) + mset (retained p) = mset (butlast bs) + add_mset b (mset (retained p'))"
      by (simp add: b mset_butlast[OF bs(2), symmetric] ac_simps)
    then have ret: "mset (retained p) = add_mset b (mset (retained p'))" by (rule add_left_imp_eq)
    have own: "owned p = add_mset (bk_id b) (owned p')"
      using ret by (simp add: owned_def leased_def p')
    have sum: "sum_list (map bk_bytes (retained p)) = bk_bytes b + sum_list (map bk_bytes (retained p'))"
      using ret by (simp add: sum_bytes_mset)
    have "pool_inv p'"
      unfolding pool_inv_def
    proof (intro conjI allI impI)
      show "wf_map (available p')" "wf_map (leases p')" using i by (simp_all add: p')
      fix k cs assume "map_get (available p') k = Some cs"
      then have "map_get (available p) k = Some cs \<or> (k = bucket \<and> cs = butlast bs)"
        by (auto simp: p' get_set split: if_splits)
      then show "length cs \<le> maxRetainedPerBucket p'" "\<forall>b\<in>set cs. bk_bytes b = k"
        using i bs len' by (auto simp: p' dest: in_set_butlastD)
    next
      have "retainedBytes p' = retainedBytes p - bk_bytes b" by (simp add: p' b)
      moreover have "retainedBytes p = sum_list (map bk_bytes (retained p))" using i by blast
      ultimately show "retainedBytes p' = sum_list (map bk_bytes (retained p'))"
        unfolding sum by linarith
      have "retainedBytes p \<le> maxRetainedBytes p" using i by blast
      then show "retainedBytes p' \<le> maxRetainedBytes p'" by (simp add: p')
      show "count (owned p') j \<le> 1" for j
        using i own by (metis count_add_mset le_SucI le_trans linorder_le_cases not_less_eq_eq)
      show "\<forall>j\<in>#owned p'. j < next_object p'" using i own by (simp add: p')
      show "\<forall>j\<in>set (map_keys (leases p')). j < next_object p'" using i by (simp add: p')
    qed
    with ret size show ?thesis by (simp add: p')
  qed
  then show "bk_bytes b = bucket" "leases p' = leases p" "memory p' = memory p"
    "maxPooledBufferBytes p' = maxPooledBufferBytes p" "maxRetainedPerBucket p' = maxRetainedPerBucket p"
    "maxRetainedBytes p' = maxRetainedBytes p" "pool_inv p'"
    "(mset (retained p) = add_mset b (mset (retained p')) \<and> next_object p' = next_object p) \<or>
      (bk_id b = next_object p \<and> retained p' = retained p \<and> next_object p' = next_object p + 1)"
    by auto
  have cnt: "count (owned p) (bk_id b) \<le> 1" and bound: "\<forall>i\<in>#owned p. i < next_object p" using i by auto
  from all show "bk_id b \<notin># owned p'"
  proof (elim conjE disjE)
    assume "mset (retained p) = add_mset b (mset (retained p'))" "leases p' = leases p"
    then have "owned p = add_mset (bk_id b) (owned p')" by (simp add: owned_def leased_def)
    with cnt show ?thesis by (simp add: not_in_iff)
  next
    assume "bk_id b = next_object p" "retained p' = retained p" "leases p' = leases p"
    moreover have "owned p' = owned p" by (simp add: owned_def leased_def calculation)
    ultimately show ?thesis using bound by auto
  qed
qed

section \<open>Views in use\<close>

text \<open>A view that was acquired and not released: its backing is not in the pool, and no other
  lease covers it.\<close>

definition live :: "BufferPool \<Rightarrow> view \<Rightarrow> bool" where
  "live p v \<longleftrightarrow> vw_backing v < next_object p \<and> vw_id v < next_object p \<and>
     vw_backing v \<notin> bk_id ` set (retained p) \<and>
     (case map_get (leases p) (vw_id v) of
        Some b \<Rightarrow> bk_id b = vw_backing v
      | None \<Rightarrow> vw_backing v \<notin> bk_id ` set (leased p))"

lemma mem_owned: "i \<in># owned p \<longleftrightarrow> i \<in> bk_id ` set (retained p) \<or> i \<in> bk_id ` set (leased p)"
  by (auto simp: owned_def)

lemma leased_member: "map_get (leases p) k = Some b \<Longrightarrow> b \<in> set (leased p)"
  unfolding leased_def by (force dest: map_of_SomeD)

lemma copy_spec:
  assumes inv: "pool_inv p" and copy: "copy_bytes source p = (Inr v, p')"
  shows "pool_inv p'" "live p' v" "vw_bytes v = length source" "view_bytes p' v = source"
    and "live p w \<Longrightarrow> live p' w \<and> view_bytes p' w = view_bytes p w \<and> vw_backing w \<noteq> vw_backing v \<and> vw_id w \<noteq> vw_id v"
    and "next_object p \<le> vw_id v"
proof -
  define bucket where "bucket = bucketSize p (length source)"
  obtain b p1 where t: "take_backing bucket p = (b, p1)" by fastforce
  have ne: "source \<noteq> []" using copy by (auto simp: copy_bytes_def acquire_def)
  note T = take_backing_spec[OF inv t]
  define i where "i = next_object p1"
  define p2 where "p2 = p1\<lparr>next_object := next_object p1 + 1\<rparr>"
  define p3 where "p3 = (if bucket \<le> maxPooledBufferBytes p then p2\<lparr>leases := map_set (leases p2) i b\<rparr> else p2)"
  have v: "v = \<lparr>vw_id = i, vw_backing = bk_id b, vw_bytes = length source\<rparr>"
    and p': "p' = p3\<lparr>memory := (memory p3)(bk_id b := source @ drop (length source) (memory p3 (bk_id b)))\<rparr>"
    using copy ne by (auto simp: copy_bytes_def acquire_def Let_def fresh_object_def t i_def p2_def p3_def
        simp flip: bucket_def split: if_splits)
  note i1 = T(8)[unfolded pool_inv_def]
  have fresh_lease: "map_get (leases p1) i = None"
    using i1 by (auto simp: i_def map_of_eq_None_iff)
  have next_le: "next_object p \<le> i" using T(7) by (auto simp: i_def)
  have ids: "bk_id b < next_object p1" "bk_id b \<notin> bk_id ` set (retained p1)" "bk_id b \<notin> bk_id ` set (leased p1)"
  proof -
    show "bk_id b < next_object p1"
      using T(7)
    proof (elim disjE conjE)
      assume r: "mset (retained p) = add_mset b (mset (retained p1))" "next_object p1 = next_object p"
      then have "bk_id b \<in># owned p" by (simp add: owned_def)
      then show ?thesis using inv r(2) by (auto simp: pool_inv_def)
    qed simp
    show "bk_id b \<notin> bk_id ` set (retained p1)" "bk_id b \<notin> bk_id ` set (leased p1)" using T(9) by (auto simp: mem_owned)
  qed
  have ret3: "retained p3 = retained p1" and next3: "next_object p3 = i + 1" and mem3: "memory p3 = memory p"
    by (simp_all add: p3_def p2_def retained_def i_def T(3))
  have leased3: "mset (leased p3) = (if bucket \<le> maxPooledBufferBytes p then add_mset b (mset (leased p1)) else mset (leased p1))"
    using mset_values_set[where m = "leases p1" and k = i and v = b] fresh_lease by (simp add: p3_def p2_def leased_def)
  have own3: "owned p3 = (if bucket \<le> maxPooledBufferBytes p then add_mset (bk_id b) (owned p1) else owned p1)"
    using leased3 by (simp add: owned_def ret3)
  have inv3: "pool_inv p3"
    unfolding pool_inv_def
  proof (intro conjI allI)
    show "count (owned p3) j \<le> 1" for j
      using T(9) i1 by (auto simp: own3 not_in_iff)
    show "\<forall>j\<in>#owned p3. j < next_object p3" using i1 ids(1) by (auto simp: own3 next3 i_def)
    have "set (map_keys (leases p3)) \<subseteq> insert i (set (map_keys (leases p1)))"
      unfolding p3_def p2_def using set_keys_set[where m = "leases p1" and k = i and v = b] by auto
    then show "\<forall>j\<in>set (map_keys (leases p3)). j < next_object p3"
      using i1 unfolding next3 i_def by fastforce
  qed (use i1 in \<open>auto simp: p3_def p2_def retained_def\<close>)
  show "pool_inv p'" using inv3 by (simp add: p' pool_inv_def owned_def retained_def leased_def)
  have same: "retained p' = retained p3" "leased p' = leased p3" "leases p' = leases p3" "next_object p' = next_object p3"
    by (simp_all add: p' retained_def leased_def)
  have live3: "live p' w \<longleftrightarrow> live p3 w" for w by (simp only: live_def same)
  have own_lease: "map_get (leases p3) i = (if bucket \<le> maxPooledBufferBytes p then Some b else None)"
    using fresh_lease by (simp add: p3_def p2_def get_set)
  have "bk_id b \<notin> bk_id ` set (leased p3)" if "\<not> bucket \<le> maxPooledBufferBytes p"
    using ids(3) that by (simp add: p3_def p2_def leased_def)
  then show "live p' v"
    unfolding live3 using ids own_lease by (auto simp: live_def v ret3 next3 i_def)
  show "vw_bytes v = length source" "view_bytes p' v = source" by (simp_all add: v p' view_bytes_def)
  show "next_object p \<le> vw_id v" using next_le by (simp add: v)
  assume w: "live p w"
  have neq: "vw_backing w \<noteq> bk_id b"
  proof
    assume eq: "vw_backing w = bk_id b"
    from T(7) show False
    proof (elim disjE conjE)
      assume "mset (retained p) = add_mset b (mset (retained p1))"
      then have "b \<in> set (retained p)" by (metis set_mset_mset union_single_eq_member)
      with w eq show False by (simp add: live_def)
    qed (use w eq in \<open>simp add: live_def\<close>)
  qed
  have id_neq: "vw_id w \<noteq> i" using w next_le by (auto simp: live_def)
  have sub: "set (retained p1) \<subseteq> set (retained p)"
    using T(7) by (metis set_mset_mset set_mset_add_mset_insert subset_insertI order_refl)
  have lw: "map_get (leases p3) (vw_id w) = map_get (leases p) (vw_id w)"
    using id_neq T(2) by (simp add: p3_def p2_def get_set)
  have ls: "set (leased p3) \<subseteq> insert b (set (leased p))"
    using leased3 T(2) by (metis (no_types, lifting) leased_def set_mset_mset set_mset_add_mset_insert subset_insertI order_refl)
  have "live p3 w"
    using w neq sub ls next_le by (auto simp: live_def lw ret3 next3 split: option.splits)
  then show "live p' w \<and> view_bytes p' w = view_bytes p w \<and> vw_backing w \<noteq> vw_backing v \<and> vw_id w \<noteq> vw_id v"
    using neq id_neq by (simp add: live3) (simp add: view_bytes_def p' mem3 v)
qed

lemma release_spec:
  assumes inv: "pool_inv p" and v: "live p v"
  shows "pool_inv (release_view v p)"
    and "live p w \<Longrightarrow> vw_backing w \<noteq> vw_backing v \<Longrightarrow> vw_id w \<noteq> vw_id v \<Longrightarrow>
      live (release_view v p) w \<and> view_bytes (release_view v p) w = view_bytes p w"
proof -
  note i = inv[unfolded pool_inv_def]
  have "pool_inv (release_view v p) \<and> (live p w \<longrightarrow> vw_backing w \<noteq> vw_backing v \<longrightarrow> vw_id w \<noteq> vw_id v \<longrightarrow>
      live (release_view v p) w \<and> view_bytes (release_view v p) w = view_bytes p w)" for w
  proof (cases "map_get (leases p) (vw_id v)")
    case None
    then show ?thesis using inv by (simp add: release_view_def)
  next
    case (Some b)
    have bk: "bk_id b = vw_backing v" using v Some by (simp add: live_def)
    define p1 where "p1 = p\<lparr>leases := map_delete (leases p) (vw_id v)\<rparr>"
    define old where "old = (case map_get (available p1) (bk_bytes b) of None \<Rightarrow> [] | Some bs \<Rightarrow> bs)"
    define p2 where "p2 = p1\<lparr>memory := (memory p1)(bk_id b := replicate (bk_bytes b) 0),
        available := map_set (available p1) (bk_bytes b) (old @ [b]),
        retainedBytes := retainedBytes p1 + bk_bytes b\<rparr>"
    have rel: "release_view v p = (if length old \<ge> maxRetainedPerBucket p1 \<or>
        retainedBytes p1 + bk_bytes b > maxRetainedBytes p1 then p1 else p2)"
      by (simp add: release_view_def Some Let_def old_def p2_def flip: p1_def)
    have leased1: "mset (leased p) = add_mset b (mset (leased p1))"
      using mset_values_delete[OF _ Some] i by (simp add: leased_def p1_def)
    have ret1: "retained p1 = retained p" by (simp add: retained_def p1_def)
    have own1: "owned p = add_mset (bk_id b) (owned p1)" by (simp add: owned_def ret1 leased1)
    have cnt: "count (owned p) j \<le> 1" for j using i by blast
    have b_notin: "bk_id b \<notin># owned p1"
      using cnt[of "bk_id b"] by (simp add: own1 not_in_iff)
    have keys1: "set (map_keys (leases p1)) \<subseteq> set (map_keys (leases p))"
      unfolding p1_def by (auto simp: keys_delete simp del: set_map)
    have inv1: "pool_inv p1"
      unfolding pool_inv_def
    proof (intro conjI allI)
      show "count (owned p1) j \<le> 1" for j using cnt[of j] by (simp add: own1 split: if_splits)
      show "\<forall>j\<in>#owned p1. j < next_object p1" using i own1 by (simp add: p1_def)
      have "next_object p1 = next_object p" by (simp add: p1_def)
      with i keys1 show "\<forall>j\<in>set (map_keys (leases p1)). j < next_object p1" by (metis subsetD)
      show "retainedBytes p1 = sum_list (map bk_bytes (retained p1))" unfolding ret1 using i by (simp add: p1_def)
    qed (use i in \<open>auto simp: p1_def\<close>)
    have ret2: "mset (retained p2) = add_mset b (mset (retained p1))"
      using mset_concat_set[where m = "available p1" and k = "bk_bytes b" and v = "old @ [b]"]
      by (auto simp: retained_def p2_def old_def split: option.splits)
    have leased2: "leased p2 = leased p1" by (simp add: p2_def leased_def)
    have own2: "owned p2 = owned p" unfolding own1 unfolding owned_def ret2 leased2 by simp
    have inv2: "pool_inv p2" if g: "\<not> (length old \<ge> maxRetainedPerBucket p1 \<or> retainedBytes p1 + bk_bytes b > maxRetainedBytes p1)"
      unfolding pool_inv_def
    proof (intro conjI allI impI)
      fix k bs assume "map_get (available p2) k = Some bs"
      then have "map_get (available p) k = Some bs \<or> (k = bk_bytes b \<and> bs = old @ [b])"
        by (auto simp: p2_def p1_def get_set split: if_splits)
      moreover have "\<forall>b'\<in>set old. bk_bytes b' = bk_bytes b"
        using i by (cases "map_get (available p) (bk_bytes b)") (auto simp: old_def p1_def)
      ultimately show "length bs \<le> maxRetainedPerBucket p2" "\<forall>b\<in>set bs. bk_bytes b = k"
        using i g by (auto simp: p2_def p1_def)
    next
      have "retainedBytes p1 = sum_list (map bk_bytes (retained p1))" using inv1 by (simp add: pool_inv_def)
      then show "retainedBytes p2 = sum_list (map bk_bytes (retained p2))"
        using arg_cong[OF ret2, of "\<lambda>x. sum_mset (image_mset bk_bytes x)"] by (simp add: p2_def flip: sum_bytes_mset)
      show "count (owned p2) j \<le> 1" for j unfolding own2 by (rule cnt)
      show "\<forall>j\<in>#owned p2. j < next_object p2" unfolding own2 using i by (simp add: p2_def p1_def)
      show "\<forall>j\<in>set (map_keys (leases p2)). j < next_object p2" using inv1 by (simp add: pool_inv_def p2_def)
    qed (use inv1 g in \<open>auto simp: pool_inv_def p2_def\<close>)
    have other: "live p1 w \<and> live p2 w \<and> view_bytes p1 w = view_bytes p w \<and> view_bytes p2 w = view_bytes p w"
      if w: "live p w" "vw_backing w \<noteq> vw_backing v" "vw_id w \<noteq> vw_id v"
    proof -
      have "set (leased p1) \<subseteq> set (leased p)"
        by (metis leased1 set_mset_mset set_mset_add_mset_insert subset_insertI)
      moreover have "set (retained p2) = insert b (set (retained p1))"
        by (metis ret2 set_mset_mset set_mset_add_mset_insert)
      moreover have "map_get (leases p1) (vw_id w) = map_get (leases p) (vw_id w)"
        using w(3) by (simp add: p1_def get_delete)
      moreover have "leases p2 = leases p1" "leased p2 = leased p1" by (simp_all add: p2_def leased_def)
      ultimately have "live p1 w \<and> live p2 w"
        using w bk ret1 by (auto simp: live_def split: option.splits) (auto simp: p1_def p2_def)
      then show ?thesis using w(2) bk by (auto simp: view_bytes_def p1_def p2_def)
    qed
    show ?thesis using inv1 inv2 other by (simp add: rel)
  qed
  then show "pool_inv (release_view v p)"
    and "live p w \<Longrightarrow> vw_backing w \<noteq> vw_backing v \<Longrightarrow> vw_id w \<noteq> vw_id v \<Longrightarrow>
      live (release_view v p) w \<and> view_bytes (release_view v p) w = view_bytes p w" by blast+
qed

lemma copy_succeeds: "source \<noteq> [] \<Longrightarrow> \<exists>v p'. copy_bytes source p = (Inr v, p')"
  by (cases "take_backing (bucketSize p (length source)) p")
    (simp add: copy_bytes_def acquire_def Let_def fresh_object_def)

lemma new_pool_inv:
  "new_buffer_pool a b c mem = Inr p \<Longrightarrow> pool_inv p"
  by (auto simp: new_buffer_pool_def pool_inv_def owned_def retained_def leased_def split: if_splits)

lemma allocationSize_copy:
  assumes "pool_inv p" "copy_bytes source p = (Inr v, p')"
  shows "allocationSize v p' =
      (if bucketSize p (length source) \<le> maxPooledBufferBytes p then bucketSize p (length source) else length source)"
    and "length source \<le> allocationSize v p'"
proof -
  obtain b p1 where t: "take_backing (bucketSize p (length source)) p = (b, p1)" by fastforce
  have ne: "source \<noteq> []" using assms(2) by (auto simp: copy_bytes_def acquire_def)
  note T = take_backing_spec[OF assms(1) t]
  have "map_get (leases p1) (next_object p1) = None"
    using T(8) by (auto simp: pool_inv_def map_of_eq_None_iff)
  then show eq: "allocationSize v p' =
      (if bucketSize p (length source) \<le> maxPooledBufferBytes p then bucketSize p (length source) else length source)"
    using assms(2) ne T(1)
    by (auto simp: copy_bytes_def acquire_def Let_def fresh_object_def t allocationSize_def get_set split: if_splits)
  show "length source \<le> allocationSize v p'" unfolding eq using bucketSize_ge[of "length source" p] by simp
qed

section \<open>Properties\<close>

text \<open>Pooled buffers come in power-of-two size classes that waste less than half: the class of
  a request up to the pooled maximum is a power of two, at least the request and less than
  twice as large.\<close>

theorem size_class_tight:
  assumes "0 < n" "n \<le> maxPooledBufferBytes p"
  shows "(\<exists>k. bucketSize p n = 2 ^ k) \<and> n \<le> bucketSize p n \<and> bucketSize p n < 2 * n"
proof -
  have "bucketSize p n = double_until 1 n" using assms(2) by (simp add: bucketSize_def)
  moreover have "double_until 1 n < 2 * n"
  proof (cases "n = 1")
    case True
    then show ?thesis by (subst double_until.simps) simp
  next
    case False
    then show ?thesis using assms(1) by (intro double_until_less) auto
  qed
  ultimately show ?thesis using double_until_power[of 1 n] double_until_ge[of 1 n] by simp
qed

definition sample_pool :: BufferPool where
  "sample_pool = \<lparr>maxPooledBufferBytes = 1024, maxRetainedPerBucket = 2, maxRetainedBytes = 4096,
     available = [], leases = [], retainedBytes = 0, next_object = 0, memory = (\<lambda>_. [])\<rparr>"

theorem size_class_tight_witness:
  "(\<exists>k. bucketSize sample_pool 5 = 2 ^ k) \<and> 5 \<le> bucketSize sample_pool 5 \<and> bucketSize sample_pool 5 < 2 * 5"
  by (rule size_class_tight) (simp_all add: sample_pool_def)

end
