(* ===== verification/PeerCache.thy ===== *)
theory PeerCache
  imports BufferPool
begin

text \<open>
  The Node peer's segment cache (\<^verbatim>\<open>peer/src/cache.ts\<close>): least recently used entries, bounded in
  bytes and age, with leases that pin an entry's bytes after its eviction. Entries are mutable
  objects shared by the map and the lease handles, so they live in a heap indexed by identity.
  One operation reads one clock value.
\<close>

section \<open>Model\<close>

record CacheEntry =
  ce_data :: view
  ce_storedAt :: int
  ce_allocatedBytes :: nat
  ce_leases :: nat
  ce_evicted :: bool

text \<open>A handle is the entry object it pins and its \<^verbatim>\<open>released\<close> flag.\<close>

record SegmentCache =
  sc_maxBytes :: nat
  sc_ttlMs :: number
  sc_entries :: "(string, nat) jsmap"
  sc_heap :: "nat \<Rightarrow> CacheEntry"
  sc_nextEntry :: nat
  sc_handles :: "(nat \<times> bool) list"
  sc_totalBytes :: nat
  sc_pool :: BufferPool

definition new_cache ::
    "number \<Rightarrow> number \<Rightarrow> BufferPool \<Rightarrow> (nat \<Rightarrow> CacheEntry) \<Rightarrow> (string, SegmentCache) result" where
  "new_cache limit ttl pool heap =
     (if \<not> positive_safe limit then throw ''Cache size must be a positive integer''
      else if \<not> 0 < ttl then throw ''Cache TTL must be positive''
      else return \<lparr>sc_maxBytes = to_nat limit, sc_ttlMs = ttl, sc_entries = [], sc_heap = heap,
        sc_nextEntry = 0, sc_handles = [], sc_totalBytes = 0, sc_pool = pool\<rparr>)"

definition isExpired :: "SegmentCache \<Rightarrow> nat \<Rightarrow> int \<Rightarrow> bool" where
  "isExpired c e now \<longleftrightarrow> sc_ttlMs c \<le> int_number (now - ce_storedAt (sc_heap c e))"

definition update_entry :: "nat \<Rightarrow> (CacheEntry \<Rightarrow> CacheEntry) \<Rightarrow> SegmentCache \<Rightarrow> SegmentCache" where
  "update_entry e f c = c\<lparr>sc_heap := (sc_heap c)(e := f (sc_heap c e))\<rparr>"

definition remove_entry :: "string \<Rightarrow> nat \<Rightarrow> SegmentCache \<Rightarrow> SegmentCache" where
  "remove_entry name e c =
     (if map_get (sc_entries c) name = None then c
      else
        (let c1 = update_entry e (\<lambda>x. x\<lparr>ce_evicted := True\<rparr>)
               (c\<lparr>sc_entries := map_delete (sc_entries c) name,
                  sc_totalBytes := sc_totalBytes c - ce_allocatedBytes (sc_heap c e)\<rparr>) in
         if ce_leases (sc_heap c1 e) = 0
         then c1\<lparr>sc_pool := release_view (ce_data (sc_heap c1 e)) (sc_pool c1)\<rparr> else c1))"

definition touch :: "string \<Rightarrow> int \<Rightarrow> SegmentCache \<Rightarrow> nat option \<times> SegmentCache" where
  "touch name now c =
     (case map_get (sc_entries c) name of
        None \<Rightarrow> (None, c)
      | Some e \<Rightarrow>
          if isExpired c e now then (None, remove_entry name e c)
          else (Some e, c\<lparr>sc_entries := map_touch (sc_entries c) name e\<rparr>))"

text \<open>\<^verbatim>\<open>get\<close> returns a copy of the bytes.\<close>

definition cache_get :: "string \<Rightarrow> int \<Rightarrow> SegmentCache \<Rightarrow> nat list option \<times> SegmentCache" where
  "cache_get name now c =
     (case touch name now c of
        (None, c') \<Rightarrow> (None, c')
      | (Some e, c') \<Rightarrow> (Some (view_bytes (sc_pool c') (ce_data (sc_heap c' e))), c'))"

text \<open>A lease is the index of its handle.\<close>

definition cache_lease :: "string \<Rightarrow> int \<Rightarrow> SegmentCache \<Rightarrow> nat option \<times> SegmentCache" where
  "cache_lease name now c =
     (case touch name now c of
        (None, c') \<Rightarrow> (None, c')
      | (Some e, c') \<Rightarrow>
          (Some (length (sc_handles c')),
           (update_entry e (\<lambda>x. x\<lparr>ce_leases := ce_leases x + 1\<rparr>) c')
             \<lparr>sc_handles := sc_handles c' @ [(e, False)]\<rparr>))"

definition lease_release :: "nat \<Rightarrow> SegmentCache \<Rightarrow> SegmentCache" where
  "lease_release h c =
     (if h < length (sc_handles c) then
        (case sc_handles c ! h of
           (e, released) \<Rightarrow>
             if released then c
             else
               (let c1 = (update_entry e (\<lambda>x. x\<lparr>ce_leases := ce_leases x - 1\<rparr>) c)
                      \<lparr>sc_handles := (sc_handles c)[h := (e, True)]\<rparr> in
                if ce_evicted (sc_heap c1 e) \<and> ce_leases (sc_heap c1 e) = 0
                then c1\<lparr>sc_pool := release_view (ce_data (sc_heap c1 e)) (sc_pool c1)\<rparr> else c1))
      else c)"

definition cache_has :: "string \<Rightarrow> int \<Rightarrow> SegmentCache \<Rightarrow> bool \<times> SegmentCache" where
  "cache_has name now c =
     (case map_get (sc_entries c) name of
        None \<Rightarrow> (False, c)
      | Some e \<Rightarrow> if isExpired c e now then (False, remove_entry name e c) else (True, c))"

text \<open>The eviction loop of \<^verbatim>\<open>set\<close>: oldest entries first, until the bytes fit.\<close>

lemma remove_entry_shrinks:
  "map_get (sc_entries c) name \<noteq> None \<Longrightarrow> length (sc_entries (remove_entry name e c)) < length (sc_entries c)"
proof -
  have "length (map_delete m name) < length m" if "map_get m name \<noteq> None" for m :: "(string, nat) jsmap"
    using that
  proof (induction m)
    case (Cons p m)
    then show ?case using length_delete_le[of name m] by (cases p) (auto split: if_splits)
  qed simp
  then show "map_get (sc_entries c) name \<noteq> None \<Longrightarrow>
      length (sc_entries (remove_entry name e c)) < length (sc_entries c)"
    by (simp add: remove_entry_def update_entry_def Let_def)
qed

function evict_over :: "SegmentCache \<Rightarrow> SegmentCache" where
  "evict_over c =
     (if sc_totalBytes c > sc_maxBytes c then
        (case sc_entries c of
           [] \<Rightarrow> c
         | (oldestKey, oldest) # _ \<Rightarrow> evict_over (remove_entry oldestKey oldest c))
      else c)"
  by pat_completeness auto
termination
  by (relation "measure (\<lambda>c. length (sc_entries c))")
    (auto intro!: order_less_le_trans[OF remove_entry_shrinks])

declare evict_over.simps [simp del]

definition cache_set :: "string \<Rightarrow> nat list \<Rightarrow> int \<Rightarrow> SegmentCache \<Rightarrow> bool \<times> SegmentCache" where
  "cache_set name bytes now c =
     (if bytes = [] \<or> length bytes > sc_maxBytes c then (False, c)
      else
        (let c1 = (case map_get (sc_entries c) name of None \<Rightarrow> c | Some e \<Rightarrow> remove_entry name e c) in
         case copy_bytes bytes (sc_pool c1) of
           (Inl error, pool) \<Rightarrow> (False, c1\<lparr>sc_pool := pool\<rparr>)
         | (Inr pooledData, pool) \<Rightarrow>
             (let allocatedBytes = allocationSize pooledData pool in
              if allocatedBytes > sc_maxBytes c1 then
                (False, c1\<lparr>sc_pool := release_view pooledData pool\<rparr>)
              else
                (True, evict_over (c1\<lparr>
                   sc_pool := pool,
                   sc_heap := (sc_heap c1)(sc_nextEntry c1 :=
                     \<lparr>ce_data = pooledData, ce_storedAt = now, ce_allocatedBytes = allocatedBytes,
                      ce_leases = 0, ce_evicted = False\<rparr>),
                   sc_nextEntry := sc_nextEntry c1 + 1,
                   sc_entries := map_set (sc_entries c1) name (sc_nextEntry c1),
                   sc_totalBytes := sc_totalBytes c1 + allocatedBytes\<rparr>)))))"

definition evictExpired :: "int \<Rightarrow> SegmentCache \<Rightarrow> SegmentCache" where
  "evictExpired now c =
     (if \<not> isFinite (sc_ttlMs c) then c
      else fold (\<lambda>(name, e) c. if isExpired c e now then remove_entry name e c else c) (sc_entries c) c)"

definition cache_keys :: "int \<Rightarrow> SegmentCache \<Rightarrow> string list \<times> SegmentCache" where
  "cache_keys now c = (let c' = evictExpired now c in (map_keys (sc_entries c'), c'))"

definition cache_size :: "int \<Rightarrow> SegmentCache \<Rightarrow> nat \<times> SegmentCache" where
  "cache_size now c = (let c' = evictExpired now c in (length (sc_entries c'), c'))"

definition cache_bytes :: "int \<Rightarrow> SegmentCache \<Rightarrow> nat \<times> SegmentCache" where
  "cache_bytes now c = (let c' = evictExpired now c in (sc_totalBytes c', c'))"

definition cache_clear :: "SegmentCache \<Rightarrow> SegmentCache" where
  "cache_clear c = fold (\<lambda>(name, e) c. remove_entry name e c) (sc_entries c) c"

section \<open>The invariant\<close>

text \<open>Objects whose bytes someone may still read: cached ones and pinned ones.\<close>

definition in_use :: "SegmentCache \<Rightarrow> nat \<Rightarrow> bool" where
  "in_use c e \<longleftrightarrow> e \<in> set (map_values (sc_entries c)) \<or> (e, False) \<in> set (sc_handles c)"

abbreviation entry_view :: "SegmentCache \<Rightarrow> nat \<Rightarrow> view" where
  "entry_view c e \<equiv> ce_data (sc_heap c e)"

definition entry_bytes :: "SegmentCache \<Rightarrow> nat \<Rightarrow> nat list" where
  "entry_bytes c e = view_bytes (sc_pool c) (entry_view c e)"

definition cache_inv :: "SegmentCache \<Rightarrow> bool" where
  "cache_inv c \<longleftrightarrow> pool_inv (sc_pool c) \<and> wf_map (sc_entries c) \<and>
     distinct (map_values (sc_entries c)) \<and>
     (\<forall>e. in_use c e \<longrightarrow> e < sc_nextEntry c \<and> live (sc_pool c) (entry_view c e)) \<and>
     (\<forall>e e'. in_use c e \<longrightarrow> in_use c e' \<longrightarrow> e \<noteq> e' \<longrightarrow>
        vw_backing (entry_view c e) \<noteq> vw_backing (entry_view c e') \<and>
        vw_id (entry_view c e) \<noteq> vw_id (entry_view c e')) \<and>
     (\<forall>e<sc_nextEntry c. ce_evicted (sc_heap c e) \<longleftrightarrow> e \<notin> set (map_values (sc_entries c))) \<and>
     (\<forall>e<sc_nextEntry c. ce_leases (sc_heap c e) = count (mset (sc_handles c)) (e, False)) \<and>
     (\<forall>(e, released)\<in>set (sc_handles c). e < sc_nextEntry c) \<and>
     sc_totalBytes c = sum_list (map (\<lambda>e. ce_allocatedBytes (sc_heap c e)) (map_values (sc_entries c)))"

text \<open>What no operation does to bytes in use: objects in use afterwards were in use before (or are
  new) and have the same bytes.\<close>

definition keeps :: "SegmentCache \<Rightarrow> SegmentCache \<Rightarrow> bool" where
  "keeps c c' \<longleftrightarrow> sc_nextEntry c \<le> sc_nextEntry c' \<and>
     (\<forall>e<sc_nextEntry c. in_use c' e \<longrightarrow> in_use c e \<and> entry_bytes c' e = entry_bytes c e)"

lemma keeps_refl [simp]: "keeps c c"
  by (simp add: keeps_def)

lemma keeps_trans: "keeps a b \<Longrightarrow> keeps b c \<Longrightarrow> keeps a c"
  by (auto simp: keeps_def)

lemma in_use_bound: "cache_inv c \<Longrightarrow> in_use c e \<Longrightarrow> e < sc_nextEntry c"
  by (simp add: cache_inv_def)

lemma entry_in_use: "map_get (sc_entries c) name = Some e \<Longrightarrow> in_use c e"
  unfolding in_use_def by (force dest: map_of_SomeD)

text \<open>Releasing the view of an object that is no longer in use.\<close>

lemma release_unused:
  assumes "pool_inv (sc_pool c)" "live (sc_pool c) v"
    and "\<And>e. in_use c e \<Longrightarrow> live (sc_pool c) (entry_view c e) \<and>
      vw_backing (entry_view c e) \<noteq> vw_backing v \<and> vw_id (entry_view c e) \<noteq> vw_id v"
  shows "pool_inv (release_view v (sc_pool c))"
    and "in_use c e \<Longrightarrow> live (release_view v (sc_pool c)) (entry_view c e) \<and>
      view_bytes (release_view v (sc_pool c)) (entry_view c e) = entry_bytes c e"
  using release_spec[OF assms(1,2)] assms(3) by (auto simp: entry_bytes_def)

text \<open>Names and objects of a map with distinct values correspond.\<close>

lemma values_delete:
  assumes "wf_map m" "distinct (map_values m)" "map_get m name = Some e"
  shows "set (map_values (map_delete m name)) = set (map_values m) - {e}"
    and "distinct (map_values (map_delete m name))"
proof -
  have eq: "add_mset e (mset (map_values (map_delete m name))) = mset (map_values m)"
    by (rule mset_values_delete[OF assms(1,3)])
  have "mset (map_values m) = mset (e # map_values (map_delete m name))" using eq by simp
  then have d: "distinct (e # map_values (map_delete m name))"
    using assms(2) mset_eq_imp_distinct_iff by blast
  have "set (map_values m) = insert e (set (map_values (map_delete m name)))"
    by (metis eq set_mset_add_mset_insert set_mset_mset)
  with d show "set (map_values (map_delete m name)) = set (map_values m) - {e}" by auto
  from d show "distinct (map_values (map_delete m name))" by simp
qed

lemma sum_values_delete:
  fixes f :: "nat \<Rightarrow> nat"
  assumes "wf_map m" "map_get m name = Some e"
  shows "sum_list (map f (map_values m)) = f e + sum_list (map f (map_values (map_delete m name)))"
proof -
  have "sum_mset (image_mset f (mset (map_values m))) =
      sum_mset (image_mset f (add_mset e (mset (map_values (map_delete m name)))))"
    by (simp only: mset_values_delete[OF assms])
  then show ?thesis by (simp add: sum_mset_sum_list[symmetric] image_mset.compositionality flip: mset_map)
qed

lemma heap_evict_fields:
  "ce_data (sc_heap (update_entry e (\<lambda>x. x\<lparr>ce_evicted := True\<rparr>) c) e') = entry_view c e'"
  "ce_leases (sc_heap (update_entry e (\<lambda>x. x\<lparr>ce_evicted := True\<rparr>) c) e') = ce_leases (sc_heap c e')"
  "ce_allocatedBytes (sc_heap (update_entry e (\<lambda>x. x\<lparr>ce_evicted := True\<rparr>) c) e') = ce_allocatedBytes (sc_heap c e')"
  by (simp_all add: update_entry_def)

lemma remove_spec:
  assumes inv: "cache_inv c" and get: "map_get (sc_entries c) name = Some e"
  shows "cache_inv (remove_entry name e c)" "keeps c (remove_entry name e c)"
    and "sc_entries (remove_entry name e c) = map_delete (sc_entries c) name"
    and "sc_totalBytes (remove_entry name e c) = sc_totalBytes c - ce_allocatedBytes (sc_heap c e)"
    and "sc_nextEntry (remove_entry name e c) = sc_nextEntry c"
    and "sc_maxBytes (remove_entry name e c) = sc_maxBytes c" "sc_handles (remove_entry name e c) = sc_handles c"
    and "sc_ttlMs (remove_entry name e c) = sc_ttlMs c"
    and "entry_view (remove_entry name e c) e' = entry_view c e'"
    and "ce_storedAt (sc_heap (remove_entry name e c) e') = ce_storedAt (sc_heap c e')"
proof -
  note i = inv[unfolded cache_inv_def]
  define c1 where "c1 = update_entry e (\<lambda>x. x\<lparr>ce_evicted := True\<rparr>)
    (c\<lparr>sc_entries := map_delete (sc_entries c) name, sc_totalBytes := sc_totalBytes c - ce_allocatedBytes (sc_heap c e)\<rparr>)"
  define c2 where "c2 = c1\<lparr>sc_pool := release_view (entry_view c1 e) (sc_pool c1)\<rparr>"
  have r: "remove_entry name e c = (if ce_leases (sc_heap c1 e) = 0 then c2 else c1)"
    using get by (simp add: remove_entry_def Let_def c1_def c2_def)
  have f1: "entry_view c1 e' = entry_view c e'" "ce_leases (sc_heap c1 e') = ce_leases (sc_heap c e')"
    "ce_allocatedBytes (sc_heap c1 e') = ce_allocatedBytes (sc_heap c e')"
    "ce_storedAt (sc_heap c1 e') = ce_storedAt (sc_heap c e')" for e'
    by (simp_all add: c1_def update_entry_def)
  have g1: "sc_pool c1 = sc_pool c" "sc_handles c1 = sc_handles c" "sc_nextEntry c1 = sc_nextEntry c"
    "sc_entries c1 = map_delete (sc_entries c) name" "sc_maxBytes c1 = sc_maxBytes c" "sc_ttlMs c1 = sc_ttlMs c"
    "sc_totalBytes c1 = sc_totalBytes c - ce_allocatedBytes (sc_heap c e)"
    by (simp_all add: c1_def update_entry_def)
  have ev1: "ce_evicted (sc_heap c1 e') \<longleftrightarrow> e' = e \<or> ce_evicted (sc_heap c e')" for e'
    by (simp add: c1_def update_entry_def)
  have wf: "wf_map (sc_entries c)" and dv: "distinct (map_values (sc_entries c))" using i by auto
  note vals = values_delete[OF wf dv get]
  have sub: "in_use c1 e' \<Longrightarrow> in_use c e'" for e' using vals(1) by (auto simp: in_use_def g1)
  have e: "in_use c e" "e < sc_nextEntry c" using entry_in_use[OF get] i by auto
  have unused: "\<not> in_use c1 e" if "ce_leases (sc_heap c1 e) = 0"
  proof -
    have "ce_leases (sc_heap c e) = count (mset (sc_handles c)) (e, False)" using i e(2) by blast
    then have "(e, False) \<notin> set (sc_handles c)" using that f1(2)[of e] by (simp add: count_eq_zero_iff)
    then show ?thesis unfolding in_use_def g1 using vals(1) by auto
  qed
  have total: "sc_totalBytes c1 = sum_list (map (\<lambda>e. ce_allocatedBytes (sc_heap c1 e)) (map_values (sc_entries c1)))"
    using sum_values_delete[OF wf get, of "\<lambda>e. ce_allocatedBytes (sc_heap c e)"] i by (simp add: g1 f1)
  have inv1: "cache_inv c1"
    unfolding cache_inv_def
  proof (intro conjI)
    show "\<forall>e'<sc_nextEntry c1. ce_evicted (sc_heap c1 e') \<longleftrightarrow> e' \<notin> set (map_values (sc_entries c1))"
      unfolding ev1 g1 vals(1) using i by auto
    show "\<forall>e<sc_nextEntry c1. ce_leases (sc_heap c1 e) = count (mset (sc_handles c1)) (e, False)"
      unfolding f1 g1 using i by blast
    show "sc_totalBytes c1 = sum_list (map (\<lambda>e. ce_allocatedBytes (sc_heap c1 e)) (map_values (sc_entries c1)))"
      by (rule total)
    show "\<forall>e e'. in_use c1 e \<longrightarrow> in_use c1 e' \<longrightarrow> e \<noteq> e' \<longrightarrow>
        vw_backing (entry_view c1 e) \<noteq> vw_backing (entry_view c1 e') \<and> vw_id (entry_view c1 e) \<noteq> vw_id (entry_view c1 e')"
      unfolding f1 using i sub by blast
    show "\<forall>e. in_use c1 e \<longrightarrow> e < sc_nextEntry c1 \<and> live (sc_pool c1) (entry_view c1 e)"
      unfolding f1 g1 using i sub by blast
  qed (use i vals(2) in \<open>simp_all add: g1\<close>)
  have keeps1: "keeps c c1" using sub by (auto simp: keeps_def entry_bytes_def f1 g1)
  have rel: "pool_inv (sc_pool c2)" "in_use c1 e' \<Longrightarrow> live (sc_pool c2) (entry_view c1 e') \<and>
      view_bytes (sc_pool c2) (entry_view c1 e') = entry_bytes c1 e'" if z: "ce_leases (sc_heap c1 e) = 0" for e'
  proof -
    have "live (sc_pool c1) (entry_view c1 e)" using i e(1) by (simp add: f1 g1)
    moreover have "live (sc_pool c1) (entry_view c1 x) \<and> vw_backing (entry_view c1 x) \<noteq> vw_backing (entry_view c1 e) \<and>
        vw_id (entry_view c1 x) \<noteq> vw_id (entry_view c1 e)" if "in_use c1 x" for x
    proof -
      have "x \<noteq> e" using unused[OF z] that by blast
      then show ?thesis using i e(1) sub[OF that] unfolding f1 g1 by blast
    qed
    moreover have "pool_inv (sc_pool c1)" using i by (simp add: g1)
    ultimately show "pool_inv (sc_pool c2)" "in_use c1 e' \<Longrightarrow> live (sc_pool c2) (entry_view c1 e') \<and>
      view_bytes (sc_pool c2) (entry_view c1 e') = entry_bytes c1 e'"
      using release_unused[of c1 "entry_view c1 e"] by (simp_all add: c2_def)
  qed
  have same2: "in_use c2 x \<longleftrightarrow> in_use c1 x" "sc_heap c2 = sc_heap c1" "sc_entries c2 = sc_entries c1"
    "sc_nextEntry c2 = sc_nextEntry c1" "sc_handles c2 = sc_handles c1" "sc_totalBytes c2 = sc_totalBytes c1"
    "sc_maxBytes c2 = sc_maxBytes c1" "sc_ttlMs c2 = sc_ttlMs c1" for x
    by (simp_all add: c2_def in_use_def)
  have inv2: "cache_inv c2" if "ce_leases (sc_heap c1 e) = 0"
    using inv1 rel[OF that] unfolding cache_inv_def same2 by blast
  have keeps2: "keeps c1 c2" if "ce_leases (sc_heap c1 e) = 0"
    using rel(2)[OF that] unfolding keeps_def same2 by (simp add: entry_bytes_def same2)
  show "cache_inv (remove_entry name e c)" "keeps c (remove_entry name e c)"
    using inv1 inv2 keeps1 keeps_trans[OF keeps1 keeps2] by (auto simp: r)
  show "sc_entries (remove_entry name e c) = map_delete (sc_entries c) name"
    "sc_totalBytes (remove_entry name e c) = sc_totalBytes c - ce_allocatedBytes (sc_heap c e)"
    "sc_nextEntry (remove_entry name e c) = sc_nextEntry c"
    "sc_maxBytes (remove_entry name e c) = sc_maxBytes c" "sc_handles (remove_entry name e c) = sc_handles c"
    "sc_ttlMs (remove_entry name e c) = sc_ttlMs c"
    "entry_view (remove_entry name e c) e' = entry_view c e'"
    "ce_storedAt (sc_heap (remove_entry name e c) e') = ce_storedAt (sc_heap c e')"
    by (simp_all add: r same2 g1 f1)
qed

lemma sum_list_mset_cong: "mset xs = mset ys \<Longrightarrow> sum_list (map f xs) = (sum_list (map f ys) :: nat)"
proof -
  assume eq: "mset xs = mset ys"
  have "sum_list (map f zs) = sum_mset (image_mset f (mset zs))" for zs
    by (simp flip: sum_mset_sum_list)
  then show ?thesis using eq by metis
qed

text \<open>An invariant cache is determined up to order by its entries.\<close>

lemma inv_reorder:
  assumes inv: "cache_inv c" and "wf_map m" "mset (map_values m) = mset (map_values (sc_entries c))"
  shows "cache_inv (c\<lparr>sc_entries := m\<rparr>)" "keeps c (c\<lparr>sc_entries := m\<rparr>)"
proof -
  note i = inv[unfolded cache_inv_def]
  have set_eq: "set (map_values m) = set (map_values (sc_entries c))" using assms(3) by (metis set_mset_mset)
  have use: "in_use (c\<lparr>sc_entries := m\<rparr>) e \<longleftrightarrow> in_use c e" for e
    unfolding in_use_def using set_eq by simp
  have dv: "distinct (map_values m)" using i assms(3) mset_eq_imp_distinct_iff by blast
  have sum: "sum_list (map (\<lambda>e. ce_allocatedBytes (sc_heap c e)) (map_values m)) =
      sum_list (map (\<lambda>e. ce_allocatedBytes (sc_heap c e)) (map_values (sc_entries c)))"
    by (rule sum_list_mset_cong[OF assms(3)])
  have same: "sc_pool (c\<lparr>sc_entries := m\<rparr>) = sc_pool c" "sc_entries (c\<lparr>sc_entries := m\<rparr>) = m"
    "sc_heap (c\<lparr>sc_entries := m\<rparr>) = sc_heap c" "sc_nextEntry (c\<lparr>sc_entries := m\<rparr>) = sc_nextEntry c"
    "sc_handles (c\<lparr>sc_entries := m\<rparr>) = sc_handles c" "sc_totalBytes (c\<lparr>sc_entries := m\<rparr>) = sc_totalBytes c"
    by simp_all
  show "cache_inv (c\<lparr>sc_entries := m\<rparr>)"
    unfolding cache_inv_def use same set_eq sum
    using i assms(2) dv by (intro conjI) (assumption | (elim conjE, assumption))+
  show "keeps c (c\<lparr>sc_entries := m\<rparr>)" by (simp add: keeps_def use entry_bytes_def)
qed

lemma touch_spec:
  assumes inv: "cache_inv c" and t: "touch name now c = (r, c')"
  shows "cache_inv c'" "keeps c c'" "sc_maxBytes c' = sc_maxBytes c" "sc_totalBytes c' \<le> sc_totalBytes c"
    "sc_nextEntry c' = sc_nextEntry c" "sc_handles c' = sc_handles c"
    and "r = (case map_get (sc_entries c) name of None \<Rightarrow> None | Some e \<Rightarrow> if isExpired c e now then None else Some e)"
    and "r = Some e \<Longrightarrow> map_get (sc_entries c') name = Some e \<and> map_get (sc_entries c) name = Some e \<and>
      entry_bytes c' e = entry_bytes c e"
proof -
  note i = inv[unfolded cache_inv_def]
  have "cache_inv c' \<and> keeps c c' \<and> sc_maxBytes c' = sc_maxBytes c \<and> sc_totalBytes c' \<le> sc_totalBytes c \<and>
    sc_nextEntry c' = sc_nextEntry c \<and> sc_handles c' = sc_handles c \<and>
    r = (case map_get (sc_entries c) name of None \<Rightarrow> None | Some e \<Rightarrow> if isExpired c e now then None else Some e) \<and>
    (\<forall>e. r = Some e \<longrightarrow> map_get (sc_entries c') name = Some e \<and> map_get (sc_entries c) name = Some e \<and>
      entry_bytes c' e = entry_bytes c e)"
  proof (cases "map_get (sc_entries c) name")
    case None
    with inv t show ?thesis by (auto simp: touch_def)
  next
    case (Some e')
    show ?thesis
    proof (cases "isExpired c e' now")
      case True
      with Some t have "r = None" "c' = remove_entry name e' c" by (auto simp: touch_def)
      with Some True remove_spec[OF inv Some] show ?thesis by simp
    next
      case False
      with Some t have rc: "r = Some e'" "c' = c\<lparr>sc_entries := map_touch (sc_entries c) name e'\<rparr>"
        by (auto simp: touch_def)
      have wf: "wf_map (sc_entries c)" using i by blast
      have "mset (map_values (map_touch (sc_entries c) name e')) = mset (map_values (sc_entries c))"
        using mset_values_delete[OF wf Some] by (simp add: map_touch_eq)
      from inv_reorder[OF inv wf_map_touch[OF wf] this] show ?thesis
        using Some False by (simp add: rc get_touch entry_bytes_def)
    qed
  qed
  note S = this
  show "cache_inv c'" "keeps c c'" "sc_maxBytes c' = sc_maxBytes c" "sc_totalBytes c' \<le> sc_totalBytes c"
    "sc_nextEntry c' = sc_nextEntry c" "sc_handles c' = sc_handles c"
    "r = (case map_get (sc_entries c) name of None \<Rightarrow> None | Some e \<Rightarrow> if isExpired c e now then None else Some e)"
    by (simp_all only: S)
  show "r = Some e \<Longrightarrow> map_get (sc_entries c') name = Some e \<and> map_get (sc_entries c) name = Some e \<and>
      entry_bytes c' e = entry_bytes c e"
    using S by iprover
qed

lemma pin_spec:
  assumes inv: "cache_inv c" and e: "e \<in> set (map_values (sc_entries c))"
  defines "c' \<equiv> (update_entry e (\<lambda>x. x\<lparr>ce_leases := ce_leases x + 1\<rparr>) c)\<lparr>sc_handles := sc_handles c @ [(e, False)]\<rparr>"
  shows "cache_inv c'" "keeps c c'"
proof -
  note i = inv[unfolded cache_inv_def]
  have f: "entry_view c' x = entry_view c x" "ce_allocatedBytes (sc_heap c' x) = ce_allocatedBytes (sc_heap c x)"
    "ce_evicted (sc_heap c' x) = ce_evicted (sc_heap c x)"
    "ce_leases (sc_heap c' x) = (if x = e then ce_leases (sc_heap c x) + 1 else ce_leases (sc_heap c x))" for x
    by (simp_all add: c'_def update_entry_def)
  have g: "sc_pool c' = sc_pool c" "sc_entries c' = sc_entries c" "sc_nextEntry c' = sc_nextEntry c"
    "sc_totalBytes c' = sc_totalBytes c" "sc_handles c' = sc_handles c @ [(e, False)]"
    by (simp_all add: c'_def update_entry_def)
  have use: "in_use c' x \<longleftrightarrow> in_use c x" for x using e by (auto simp: in_use_def g)
  show "cache_inv c'"
    unfolding cache_inv_def use f g
  proof (intro conjI)
    show "\<forall>x<sc_nextEntry c. (if x = e then ce_leases (sc_heap c x) + 1 else ce_leases (sc_heap c x)) =
        count (mset (sc_handles c @ [(e, False)])) (x, False)"
      using i by auto
    have "e < sc_nextEntry c" using i e by (auto simp: in_use_def)
    then show "\<forall>(e, released)\<in>set (sc_handles c @ [(e, False)]). e < sc_nextEntry c" using i by auto
  qed (use i in blast)+
  show "keeps c c'" by (simp add: keeps_def use entry_bytes_def f g)
qed

lemma lease_spec:
  assumes inv: "cache_inv c" and l: "cache_lease name now c = (r, c')"
  shows "cache_inv c'" "keeps c c'" "sc_maxBytes c' = sc_maxBytes c" "sc_totalBytes c' \<le> sc_totalBytes c"
proof -
  obtain q c1 where t: "touch name now c = (q, c1)" by fastforce
  note T = touch_spec[OF inv t]
  have "cache_inv c' \<and> keeps c c' \<and> sc_maxBytes c' = sc_maxBytes c \<and> sc_totalBytes c' \<le> sc_totalBytes c"
  proof (cases q)
    case None
    with l t T show ?thesis by (simp add: cache_lease_def)
  next
    case (Some e)
    then have "map_get (sc_entries c1) name = Some e" using T(8) by blast
    then have "e \<in> set (map_values (sc_entries c1))" by (force dest: map_of_SomeD)
    from pin_spec[OF T(1) this] show ?thesis
      using Some l t T(3,4) keeps_trans[OF T(2)] by (auto simp: cache_lease_def update_entry_def)
  qed
  then show "cache_inv c'" "keeps c c'" "sc_maxBytes c' = sc_maxBytes c" "sc_totalBytes c' \<le> sc_totalBytes c"
    by blast+
qed

lemma release_handle_spec:
  assumes inv: "cache_inv c"
  shows "cache_inv (lease_release h c)" "keeps c (lease_release h c)"
    "sc_maxBytes (lease_release h c) = sc_maxBytes c" "sc_totalBytes (lease_release h c) = sc_totalBytes c"
proof -
  note i = inv[unfolded cache_inv_def]
  have "cache_inv (lease_release h c) \<and> keeps c (lease_release h c) \<and>
    sc_maxBytes (lease_release h c) = sc_maxBytes c \<and> sc_totalBytes (lease_release h c) = sc_totalBytes c"
  proof (cases "h < length (sc_handles c) \<and> \<not> snd (sc_handles c ! h)")
    case False
    then have "lease_release h c = c" by (auto simp: lease_release_def split: prod.splits)
    then show ?thesis using inv by simp
  next
    case True
    then obtain e where h: "sc_handles c ! h = (e, False)" "h < length (sc_handles c)"
      by (cases "sc_handles c ! h") auto
    define c1 where "c1 = (update_entry e (\<lambda>x. x\<lparr>ce_leases := ce_leases x - 1\<rparr>) c)
      \<lparr>sc_handles := (sc_handles c)[h := (e, True)]\<rparr>"
    define c2 where "c2 = c1\<lparr>sc_pool := release_view (entry_view c1 e) (sc_pool c1)\<rparr>"
    have r: "lease_release h c = (if ce_evicted (sc_heap c1 e) \<and> ce_leases (sc_heap c1 e) = 0 then c2 else c1)"
      using h by (simp add: lease_release_def Let_def c1_def c2_def)
    have f1: "entry_view c1 x = entry_view c x" "ce_allocatedBytes (sc_heap c1 x) = ce_allocatedBytes (sc_heap c x)"
      "ce_evicted (sc_heap c1 x) = ce_evicted (sc_heap c x)"
      "ce_leases (sc_heap c1 x) = (if x = e then ce_leases (sc_heap c x) - 1 else ce_leases (sc_heap c x))" for x
      by (simp_all add: c1_def update_entry_def)
    have g1: "sc_pool c1 = sc_pool c" "sc_entries c1 = sc_entries c" "sc_nextEntry c1 = sc_nextEntry c"
      "sc_totalBytes c1 = sc_totalBytes c" "sc_maxBytes c1 = sc_maxBytes c"
      "sc_handles c1 = (sc_handles c)[h := (e, True)]"
      by (simp_all add: c1_def update_entry_def)
    have cnt: "count (mset (sc_handles c1)) (x, False) =
        (if x = e then count (mset (sc_handles c)) (x, False) - 1 else count (mset (sc_handles c)) (x, False))" for x
      unfolding g1 using h by (simp add: mset_update)
    have handles1: "set (sc_handles c1) \<subseteq> insert (e, True) (set (sc_handles c))"
      unfolding g1 by (rule set_update_subset_insert)
    have sub: "in_use c1 x \<Longrightarrow> in_use c x" for x using handles1 by (auto simp: in_use_def g1(2))
    have e: "in_use c e" "e < sc_nextEntry c"
    proof -
      have "(e, False) \<in> set (sc_handles c)" using h nth_mem by metis
      then show "in_use c e" "e < sc_nextEntry c" using i by (auto simp: in_use_def)
    qed
    have inv1: "cache_inv c1"
      unfolding cache_inv_def
    proof (intro conjI)
      show "\<forall>x<sc_nextEntry c1. ce_leases (sc_heap c1 x) = count (mset (sc_handles c1)) (x, False)"
        unfolding cnt f1 g1(3) using i by simp
      show "\<forall>(x, released)\<in>set (sc_handles c1). x < sc_nextEntry c1" unfolding g1(3) using handles1 i e(2) by blast
      show "\<forall>x y. in_use c1 x \<longrightarrow> in_use c1 y \<longrightarrow> x \<noteq> y \<longrightarrow>
          vw_backing (entry_view c1 x) \<noteq> vw_backing (entry_view c1 y) \<and> vw_id (entry_view c1 x) \<noteq> vw_id (entry_view c1 y)"
        unfolding f1 using i sub by blast
      show "\<forall>x. in_use c1 x \<longrightarrow> x < sc_nextEntry c1 \<and> live (sc_pool c1) (entry_view c1 x)"
        unfolding f1 g1 using i sub by blast
    qed (unfold g1 f1, (use i in blast)+)
    have keeps1: "keeps c c1" using sub by (auto simp: keeps_def entry_bytes_def f1 g1)
    have z: "cache_inv c2" "keeps c1 c2" if cond: "ce_evicted (sc_heap c1 e) \<and> ce_leases (sc_heap c1 e) = 0"
    proof -
      have "e \<notin> set (map_values (sc_entries c1))" using cond inv1 e(2) unfolding g1(3)[symmetric] cache_inv_def by blast
      moreover have "(e, False) \<notin> set (sc_handles c1)"
        using cond inv1 e(2) unfolding g1(3)[symmetric] cache_inv_def by (metis count_eq_zero_iff set_mset_mset)
      ultimately have unused: "\<not> in_use c1 e" by (simp add: in_use_def)
      have l: "live (sc_pool c1) (entry_view c1 e)" using i e(1) by (simp add: f1 g1)
      have o: "live (sc_pool c1) (entry_view c1 x) \<and> vw_backing (entry_view c1 x) \<noteq> vw_backing (entry_view c1 e) \<and>
          vw_id (entry_view c1 x) \<noteq> vw_id (entry_view c1 e)" if u: "in_use c1 x" for x
      proof -
        have "x \<noteq> e" using unused u by blast
        then show ?thesis using i e(1) sub[OF u] unfolding f1 g1(1) by blast
      qed
      have p: "pool_inv (sc_pool c1)" using i by (simp add: g1)
      note R = release_unused[OF p l o, folded c2_def]
      have same2: "in_use c2 x \<longleftrightarrow> in_use c1 x" "sc_heap c2 = sc_heap c1" "sc_entries c2 = sc_entries c1"
        "sc_nextEntry c2 = sc_nextEntry c1" "sc_handles c2 = sc_handles c1" "sc_totalBytes c2 = sc_totalBytes c1"
        "sc_pool c2 = release_view (entry_view c1 e) (sc_pool c1)" for x
        by (simp_all add: c2_def in_use_def)
      show "cache_inv c2" using inv1 R unfolding cache_inv_def same2 by blast
      show "keeps c1 c2" using R(2) unfolding keeps_def same2 by (simp add: entry_bytes_def same2)
    qed
    show ?thesis using inv1 z keeps1 keeps_trans[OF keeps1] by (simp add: r g1 c2_def)
  qed
  then show "cache_inv (lease_release h c)" "keeps c (lease_release h c)"
    "sc_maxBytes (lease_release h c) = sc_maxBytes c" "sc_totalBytes (lease_release h c) = sc_totalBytes c"
    by blast+
qed

definition inserted :: "string \<Rightarrow> view \<Rightarrow> BufferPool \<Rightarrow> nat \<Rightarrow> int \<Rightarrow> SegmentCache \<Rightarrow> SegmentCache" where
  "inserted name v pool allocatedBytes now c = c\<lparr>
     sc_pool := pool,
     sc_heap := (sc_heap c)(sc_nextEntry c :=
       \<lparr>ce_data = v, ce_storedAt = now, ce_allocatedBytes = allocatedBytes, ce_leases = 0, ce_evicted = False\<rparr>),
     sc_nextEntry := sc_nextEntry c + 1,
     sc_entries := map_set (sc_entries c) name (sc_nextEntry c),
     sc_totalBytes := sc_totalBytes c + allocatedBytes\<rparr>"

lemma insert_spec:
  assumes inv: "cache_inv c" and absent: "map_get (sc_entries c) name = None"
    and copy: "copy_bytes bytes (sc_pool c) = (Inr v, pool)"
  shows "cache_inv (inserted name v pool n now c)" "keeps c (inserted name v pool n now c)"
    and "sc_entries (inserted name v pool n now c) = sc_entries c @ [(name, sc_nextEntry c)]"
    and "entry_bytes (inserted name v pool n now c) (sc_nextEntry c) = bytes"
proof -
  note i = inv[unfolded cache_inv_def]
  define c' where "c' = inserted name v pool n now c"
  define e0 where "e0 = sc_nextEntry c"
  have P: "pool_inv (sc_pool c)" using i by blast
  note C = copy_spec[OF P copy]
  have fresh: "name \<notin> set (map_keys (sc_entries c))" using absent by (simp add: map_of_eq_None_iff)
  have g: "sc_entries c' = sc_entries c @ [(name, e0)]" "sc_pool c' = pool" "sc_nextEntry c' = e0 + 1"
    "sc_handles c' = sc_handles c" "sc_totalBytes c' = sc_totalBytes c + n"
    using set_fresh[OF fresh] by (simp_all add: c'_def e0_def inserted_def)
  have h: "sc_heap c' e = (if e = e0 then \<lparr>ce_data = v, ce_storedAt = now, ce_allocatedBytes = n, ce_leases = 0,
      ce_evicted = False\<rparr> else sc_heap c e)" for e
    by (simp add: c'_def e0_def inserted_def)
  have not_used: "\<not> in_use c e0" using i by (auto simp: e0_def)
  have use: "in_use c' e \<longleftrightarrow> in_use c e \<or> e = e0" for e by (auto simp: in_use_def g)
  have old: "live pool (entry_view c e) \<and> view_bytes pool (entry_view c e) = entry_bytes c e \<and>
      vw_backing (entry_view c e) \<noteq> vw_backing v \<and> vw_id (entry_view c e) \<noteq> vw_id v" if "in_use c e" for e
    using C(5)[of "entry_view c e"] i that by (simp add: entry_bytes_def)
  have vals: "e < e0" if "e \<in> set (map_values (sc_entries c))" for e using i that by (auto simp: e0_def in_use_def)
  have "cache_inv c'"
    unfolding cache_inv_def
  proof (intro conjI)
    show "pool_inv (sc_pool c')" using C(1) by (simp add: g)
    show "wf_map (sc_entries c')" using i fresh by (simp add: g wf_map_def)
    show "distinct (map_values (sc_entries c'))" using i vals by (auto simp: g)
    show "\<forall>e. in_use c' e \<longrightarrow> e < sc_nextEntry c' \<and> live (sc_pool c') (entry_view c' e)"
      using i C(2) old not_used by (auto simp: use g h e0_def less_SucI)
    show "\<forall>e e'. in_use c' e \<longrightarrow> in_use c' e' \<longrightarrow> e \<noteq> e' \<longrightarrow>
        vw_backing (entry_view c' e) \<noteq> vw_backing (entry_view c' e') \<and> vw_id (entry_view c' e) \<noteq> vw_id (entry_view c' e')"
    proof (intro allI impI)
      fix e e' assume "in_use c' e" "in_use c' e'" "e \<noteq> e'"
      then consider "e = e0" "in_use c e'" "e' \<noteq> e0" | "e' = e0" "in_use c e" "e \<noteq> e0"
        | "in_use c e" "in_use c e'" "e \<noteq> e'" "e \<noteq> e0" "e' \<noteq> e0"
        using use not_used by blast
      then show "vw_backing (entry_view c' e) \<noteq> vw_backing (entry_view c' e') \<and> vw_id (entry_view c' e) \<noteq> vw_id (entry_view c' e')"
      proof cases
        case 1 with old[of e'] show ?thesis by (simp add: h)
      next
        case 2 with old[of e] show ?thesis by (simp add: h)
      next
        case 3 with i show ?thesis by (simp add: h)
      qed
    qed
    show "\<forall>e<sc_nextEntry c'. ce_evicted (sc_heap c' e) \<longleftrightarrow> e \<notin> set (map_values (sc_entries c'))"
      using i by (auto simp: g h e0_def less_Suc_eq)
    show "\<forall>e<sc_nextEntry c'. ce_leases (sc_heap c' e) = count (mset (sc_handles c')) (e, False)"
    proof (intro allI impI)
      fix e assume "e < sc_nextEntry c'"
      moreover have "count (mset (sc_handles c)) (e0, False) = 0"
        using i by (auto simp: count_eq_zero_iff e0_def)
      ultimately show "ce_leases (sc_heap c' e) = count (mset (sc_handles c')) (e, False)"
        using i by (auto simp: g h e0_def less_Suc_eq)
    qed
    show "\<forall>(e, released)\<in>set (sc_handles c'). e < sc_nextEntry c'"
      using i by (auto simp: g e0_def less_SucI)
    have "ce_allocatedBytes (sc_heap c' e) = ce_allocatedBytes (sc_heap c e)" if "e < e0" for e
      using that by (simp add: h)
    then have eq: "map (\<lambda>e. ce_allocatedBytes (sc_heap c' e)) (map_values (sc_entries c)) =
        map (\<lambda>e. ce_allocatedBytes (sc_heap c e)) (map_values (sc_entries c))"
      using vals by (intro map_cong refl) blast
    have "sum_list (map (\<lambda>e. ce_allocatedBytes (sc_heap c' e)) (map_values (sc_entries c'))) =
        sum_list (map (\<lambda>e. ce_allocatedBytes (sc_heap c' e)) (map_values (sc_entries c))) + n"
      by (simp add: g h)
    also have "\<dots> = sc_totalBytes c + n" unfolding eq using i by metis
    finally show "sc_totalBytes c' = sum_list (map (\<lambda>e. ce_allocatedBytes (sc_heap c' e)) (map_values (sc_entries c')))"
      by (simp only: g)
  qed
  then show "cache_inv (inserted name v pool n now c)" by (simp add: c'_def)
  have "e \<noteq> e0" if "e < sc_nextEntry c" for e using that by (simp add: e0_def)
  then have "keeps c c'"
    unfolding keeps_def use using old by (auto simp: g e0_def entry_bytes_def h)
  then show "keeps c (inserted name v pool n now c)" by (simp add: c'_def)
  show "sc_entries (inserted name v pool n now c) = sc_entries c @ [(name, sc_nextEntry c)]"
    using g(1) by (simp add: c'_def e0_def)
  show "entry_bytes (inserted name v pool n now c) (sc_nextEntry c) = bytes"
    using C(4) by (simp add: entry_bytes_def inserted_def)
qed

lemma evict_over_spec:
  assumes "cache_inv c"
  shows "cache_inv (evict_over c) \<and> keeps c (evict_over c) \<and> sc_totalBytes (evict_over c) \<le> sc_maxBytes c \<and>
    sc_maxBytes (evict_over c) = sc_maxBytes c \<and> sc_nextEntry (evict_over c) = sc_nextEntry c \<and>
    sc_ttlMs (evict_over c) = sc_ttlMs c \<and> sc_handles (evict_over c) = sc_handles c"
  using assms
proof (induction c rule: evict_over.induct)
  case (1 c)
  show ?case
  proof (cases "sc_totalBytes c > sc_maxBytes c")
    case False
    with 1(2) show ?thesis by (subst (1 2 3 4 5 6 7) evict_over.simps) simp
  next
    case over: True
    have total: "sc_totalBytes c = sum_list (map (\<lambda>e. ce_allocatedBytes (sc_heap c e)) (map_values (sc_entries c)))"
      using 1(2) by (simp add: cache_inv_def)
    then obtain k e rest where es: "sc_entries c = (k, e) # rest" using over by (cases "sc_entries c") auto
    then have get: "map_get (sc_entries c) k = Some e" by simp
    note R = remove_spec[OF 1(2) get]
    have "evict_over c = evict_over (remove_entry k e c)" using over es by (subst evict_over.simps) simp
    moreover note 1(1)[OF over es refl R(1)]
    ultimately show ?thesis using R keeps_trans[OF R(2)] by simp
  qed
qed

text \<open>The newest entry survives the eviction it caused.\<close>

lemma evict_over_last:
  assumes "cache_inv c" "sc_entries c = es @ [(name, e0)]" "ce_allocatedBytes (sc_heap c e0) \<le> sc_maxBytes c"
  shows "\<exists>es'. sc_entries (evict_over c) = es' @ [(name, e0)] \<and>
    ce_storedAt (sc_heap (evict_over c) e0) = ce_storedAt (sc_heap c e0)"
  using assms
proof (induction c arbitrary: es rule: evict_over.induct)
  case (1 c)
  show ?case
  proof (cases "sc_totalBytes c > sc_maxBytes c")
    case False
    then have "evict_over c = c" by (subst evict_over.simps) simp
    with 1(3) show ?thesis by simp
  next
    case over: True
    have total: "sc_totalBytes c = sum_list (map (\<lambda>e. ce_allocatedBytes (sc_heap c e)) (map_values (sc_entries c)))"
      using 1(2) by (simp add: cache_inv_def)
    have "es \<noteq> []" using total 1(3,4) over by auto
    then obtain k e rest where es: "es = (k, e) # rest" by (cases es) auto
    then have entries: "sc_entries c = (k, e) # rest @ [(name, e0)]" using 1(3) by simp
    then have get: "map_get (sc_entries c) k = Some e" by simp
    note R = remove_spec[OF 1(2) get]
    have "wf_map (sc_entries c)" using 1(2) by (simp add: cache_inv_def)
    then have "sc_entries (remove_entry k e c) = rest @ [(name, e0)]"
      unfolding R(3) entries by (rule delete_first)
    moreover have "ce_allocatedBytes (sc_heap (remove_entry k e c) e0) = ce_allocatedBytes (sc_heap c e0)"
      using get by (simp add: remove_entry_def update_entry_def Let_def)
    moreover have "evict_over c = evict_over (remove_entry k e c)" using over entries by (subst evict_over.simps) simp
    ultimately show ?thesis using 1(1)[OF over entries refl R(1)] 1(4) R(6,10) by simp
  qed
qed

section \<open>Operations keep it\<close>

definition cache_ok :: "SegmentCache \<Rightarrow> bool" where
  "cache_ok c \<longleftrightarrow> cache_inv c \<and> sc_totalBytes c \<le> sc_maxBytes c"

text \<open>A step that keeps the invariant, the limit and the bytes in use.\<close>

definition good_step :: "SegmentCache \<Rightarrow> SegmentCache \<Rightarrow> bool" where
  "good_step c c' \<longleftrightarrow> cache_ok c' \<and> keeps c c' \<and> sc_maxBytes c' = sc_maxBytes c \<and>
     sc_ttlMs c' = sc_ttlMs c"

lemma good_refl: "cache_ok c \<Longrightarrow> good_step c c"
  by (simp add: good_step_def)

lemma good_trans: "good_step a b \<Longrightarrow> good_step b c \<Longrightarrow> good_step a c"
  by (auto simp: good_step_def intro: keeps_trans)

lemma good_ok: "good_step a b \<Longrightarrow> cache_ok b"
  by (simp add: good_step_def)

lemma remove_good:
  "cache_ok c \<Longrightarrow> map_get (sc_entries c) name = Some e \<Longrightarrow> good_step c (remove_entry name e c)"
  using remove_spec[of c name e] by (auto simp: good_step_def cache_ok_def intro: le_trans[OF diff_le_self])

lemma touch_ttl: "touch name now c = (r, c') \<Longrightarrow> cache_inv c \<Longrightarrow> sc_ttlMs c' = sc_ttlMs c"
  using remove_spec(8) by (auto simp: touch_def split: option.splits if_splits)

lemma touch_good: "cache_ok c \<Longrightarrow> touch name now c = (r, c') \<Longrightarrow> good_step c c'"
  using touch_spec[of c name now r c'] touch_ttl[of name now c r c'] by (simp add: good_step_def cache_ok_def)

lemma get_good: "cache_ok c \<Longrightarrow> good_step c (snd (cache_get name now c))"
  by (cases "touch name now c") (auto simp: cache_get_def touch_good split: option.split)

lemma lease_ttl: "cache_lease name now c = (r, c') \<Longrightarrow> cache_inv c \<Longrightarrow> sc_ttlMs c' = sc_ttlMs c"
  using touch_ttl[of name now c] by (auto simp: cache_lease_def update_entry_def split: prod.splits option.splits)

lemma lease_good: "cache_ok c \<Longrightarrow> good_step c (snd (cache_lease name now c))"
proof -
  assume ok: "cache_ok c"
  obtain r c' where l: "cache_lease name now c = (r, c')" by fastforce
  then show ?thesis
    using ok lease_spec[OF _ l] lease_ttl[OF l] by (simp add: good_step_def cache_ok_def)
qed

lemma release_good: "cache_ok c \<Longrightarrow> good_step c (lease_release h c)"
proof -
  assume ok: "cache_ok c"
  have "sc_ttlMs (lease_release h c) = sc_ttlMs c"
    by (simp add: lease_release_def update_entry_def Let_def split: prod.split)
  then show ?thesis using ok release_handle_spec[of c h] by (simp add: good_step_def cache_ok_def)
qed

lemma has_good: "cache_ok c \<Longrightarrow> good_step c (snd (cache_has name now c))"
  by (auto simp: cache_has_def remove_good good_refl split: option.split)

text \<open>Removing entries one by one while iterating over the map as it was.\<close>

lemma fold_remove_good:
  "cache_ok c \<Longrightarrow> distinct (map fst es) \<Longrightarrow> \<forall>(k, e)\<in>set es. map_get (sc_entries c) k = Some e \<Longrightarrow>
     good_step c (fold (\<lambda>(name, e) c. if P name e c then remove_entry name e c else c) es c)"
proof (induction es arbitrary: c)
  case Nil
  then show ?case by (simp add: good_refl)
next
  case (Cons p es)
  obtain k e where p: "p = (k, e)" by (cases p)
  define c1 where "c1 = (if P k e c then remove_entry k e c else c)"
  have get: "map_get (sc_entries c) k = Some e" using Cons.prems(3) p by simp
  have ok: "cache_inv c" using Cons.prems(1) by (simp add: cache_ok_def)
  have 1: "good_step c c1"
    using remove_good[OF Cons.prems(1) get] good_refl[OF Cons.prems(1)] by (simp add: c1_def)
  have "map_get (sc_entries c1) k' = Some e'" if mem: "(k', e') \<in> set es" for k' e'
  proof -
    have "k' \<noteq> k" using Cons.prems(2) mem p by force
    then show ?thesis using Cons.prems(3) mem remove_spec(3)[OF ok get] by (auto simp: c1_def get_delete)
  qed
  then have "good_step c1 (fold (\<lambda>(name, e) c. if P name e c then remove_entry name e c else c) es c1)"
    using Cons.IH[of c1] good_ok[OF 1] Cons.prems(2) p by auto
  with 1 show ?case by (simp add: p good_trans flip: c1_def)
qed

lemma entries_gets: "cache_ok c \<Longrightarrow> distinct (map fst (sc_entries c)) \<and> (\<forall>(k, e)\<in>set (sc_entries c). map_get (sc_entries c) k = Some e)"
  by (auto simp: cache_ok_def cache_inv_def wf_map_def)

lemma expired_good: "cache_ok c \<Longrightarrow> good_step c (evictExpired now c)"
  using entries_gets[of c] fold_remove_good[of c "sc_entries c" "\<lambda>name e c. isExpired c e now"]
  by (auto simp: evictExpired_def good_refl)

lemma clear_good: "cache_ok c \<Longrightarrow> good_step c (cache_clear c)"
  using entries_gets[of c] fold_remove_good[of c "sc_entries c" "\<lambda>name e c. True"]
  by (auto simp: cache_clear_def)

lemma pool_only_good:
  assumes ok: "cache_ok c" and "pool_inv pool"
    and "\<And>w. live (sc_pool c) w \<Longrightarrow> live pool w \<and> view_bytes pool w = view_bytes (sc_pool c) w"
  shows "good_step c (c\<lparr>sc_pool := pool\<rparr>)"
proof -
  have use: "in_use (c\<lparr>sc_pool := pool\<rparr>) e \<longleftrightarrow> in_use c e" for e by (simp add: in_use_def)
  have same: "sc_entries (c\<lparr>sc_pool := pool\<rparr>) = sc_entries c" "sc_heap (c\<lparr>sc_pool := pool\<rparr>) = sc_heap c"
    "sc_nextEntry (c\<lparr>sc_pool := pool\<rparr>) = sc_nextEntry c" "sc_handles (c\<lparr>sc_pool := pool\<rparr>) = sc_handles c"
    "sc_totalBytes (c\<lparr>sc_pool := pool\<rparr>) = sc_totalBytes c" "sc_pool (c\<lparr>sc_pool := pool\<rparr>) = pool"
    by simp_all
  have inv: "cache_inv c" using ok by (simp add: cache_ok_def)
  then have "cache_inv (c\<lparr>sc_pool := pool\<rparr>)"
    unfolding cache_inv_def use same using assms(2,3) by blast
  moreover have "keeps c (c\<lparr>sc_pool := pool\<rparr>)"
    using inv assms(3) by (simp add: keeps_def use entry_bytes_def cache_inv_def)
  ultimately show ?thesis using ok by (simp add: good_step_def cache_ok_def)
qed

lemma set_good:
  assumes ok: "cache_ok c" and s: "cache_set name bytes now c = (r, c')"
  shows "good_step c c'"
    and "r \<Longrightarrow> \<exists>es e. sc_entries c' = es @ [(name, e)] \<and> ce_storedAt (sc_heap c' e) = now \<and> entry_bytes c' e = bytes"
    and "sc_handles c' = sc_handles c"
proof -
  have "good_step c c' \<and> sc_handles c' = sc_handles c \<and> (r \<longrightarrow>
    (\<exists>es e. sc_entries c' = es @ [(name, e)] \<and> ce_storedAt (sc_heap c' e) = now \<and> entry_bytes c' e = bytes))"
  proof (cases "bytes = [] \<or> length bytes > sc_maxBytes c")
    case True
    with s ok show ?thesis by (auto simp: cache_set_def good_refl)
  next
    case False
    define c1 where "c1 = (case map_get (sc_entries c) name of None \<Rightarrow> c | Some e \<Rightarrow> remove_entry name e c)"
    have inv: "cache_inv c" using ok by (simp add: cache_ok_def)
    have g1: "good_step c c1" using ok by (auto simp: c1_def good_refl remove_good split: option.split)
    have h1: "sc_handles c1 = sc_handles c" using remove_spec(7)[OF inv] by (auto simp: c1_def split: option.split)
    have ok1: "cache_ok c1" and inv1: "cache_inv c1" using good_ok[OF g1] by (simp_all add: cache_ok_def)
    have absent: "map_get (sc_entries c1) name = None"
      using remove_spec(3)[OF inv] by (auto simp: c1_def get_delete split: option.split)
    obtain v pool where copy: "copy_bytes bytes (sc_pool c1) = (Inr v, pool)" using copy_succeeds False by blast
    have P: "pool_inv (sc_pool c1)" using inv1 by (simp add: cache_inv_def)
    note C = copy_spec[OF P copy]
    define n where "n = allocationSize v pool"
    define c2 where "c2 = inserted name v pool n now c1"
    have set_eq: "cache_set name bytes now c = (if n > sc_maxBytes c1 then (False, c1\<lparr>sc_pool := release_view v pool\<rparr>)
        else (True, evict_over c2))"
      using False by (simp add: cache_set_def Let_def copy c2_def inserted_def flip: c1_def n_def)
    show ?thesis
    proof (cases "n > sc_maxBytes c1")
      case True
      note R = release_spec[OF C(1,2)]
      have "good_step c1 (c1\<lparr>sc_pool := release_view v pool\<rparr>)"
        using C(5) R by (intro pool_only_good[OF ok1]) auto
      then show ?thesis using s True set_eq good_trans[OF g1] h1 by auto
    next
      case small: False
      note I = insert_spec[OF inv1 absent copy, of n now, folded c2_def]
      note E = evict_over_spec[OF I(1)]
      have max2: "sc_maxBytes c2 = sc_maxBytes c1" "sc_ttlMs c2 = sc_ttlMs c1" "sc_handles c2 = sc_handles c1"
        by (simp_all add: c2_def inserted_def)
      have good2: "good_step c1 (evict_over c2)"
        using E keeps_trans[OF I(2)] by (simp add: good_step_def cache_ok_def max2)
      have stored: "ce_storedAt (sc_heap c2 (sc_nextEntry c1)) = now"
        "ce_allocatedBytes (sc_heap c2 (sc_nextEntry c1)) = n"
        by (simp_all add: c2_def inserted_def)
      obtain es where es: "sc_entries (evict_over c2) = es @ [(name, sc_nextEntry c1)]"
        "ce_storedAt (sc_heap (evict_over c2) (sc_nextEntry c1)) = now"
        using evict_over_last[OF I(1) I(3)] small stored max2 by auto
      have "in_use (evict_over c2) (sc_nextEntry c1)" using es by (simp add: in_use_def)
      moreover have "sc_nextEntry c1 < sc_nextEntry c2" by (simp add: c2_def inserted_def)
      ultimately have "entry_bytes (evict_over c2) (sc_nextEntry c1) = bytes"
        using E I(4) by (simp add: keeps_def)
      with es good2 show ?thesis using s small set_eq good_trans[OF g1] E h1 max2 by auto
    qed
  qed
  then show "good_step c c'"
    and "r \<Longrightarrow> \<exists>es e. sc_entries c' = es @ [(name, e)] \<and> ce_storedAt (sc_heap c' e) = now \<and> entry_bytes c' e = bytes"
    and "sc_handles c' = sc_handles c"
    by blast+
qed

section \<open>Any sequence of operations\<close>

datatype cache_op =
    GetOp string
  | LeaseOp string
  | ReleaseOp nat
  | HasOp string
  | SetOp string "nat list"
  | KeysOp
  | SizeOp
  | BytesOp
  | ClearOp

fun run_op :: "cache_op \<times> int \<Rightarrow> SegmentCache \<Rightarrow> SegmentCache" where
  "run_op (GetOp name, now) c = snd (cache_get name now c)"
| "run_op (LeaseOp name, now) c = snd (cache_lease name now c)"
| "run_op (ReleaseOp h, now) c = lease_release h c"
| "run_op (HasOp name, now) c = snd (cache_has name now c)"
| "run_op (SetOp name bytes, now) c = snd (cache_set name bytes now c)"
| "run_op (KeysOp, now) c = snd (cache_keys now c)"
| "run_op (SizeOp, now) c = snd (cache_size now c)"
| "run_op (BytesOp, now) c = snd (cache_bytes now c)"
| "run_op (ClearOp, now) c = cache_clear c"

lemma run_op_good: "cache_ok c \<Longrightarrow> good_step c (run_op p c)"
proof -
  assume ok: "cache_ok c"
  obtain x now where p: "p = (x, now)" by (cases p)
  show ?thesis
  proof (cases x)
    case (SetOp name bytes)
    then show ?thesis using set_good(1)[OF ok, of name bytes now] by (cases "cache_set name bytes now c") (simp add: p)
  qed (use ok in \<open>simp_all add: p get_good lease_good release_good has_good expired_good clear_good
      cache_keys_def cache_size_def cache_bytes_def Let_def\<close>)
qed

lemma run_ops_good: "cache_ok c \<Longrightarrow> good_step c (fold run_op ops c)"
proof (induction ops arbitrary: c)
  case (Cons p ops)
  have "good_step c (run_op p c)" by (rule run_op_good[OF Cons.prems])
  with Cons.IH[OF good_ok[OF this]] show ?case by (auto intro: good_trans)
qed (simp add: good_refl)

lemma fold_remove_handles:
  "sc_handles (fold (\<lambda>(name, e) c. if P name e c then remove_entry name e c else c) es c) = sc_handles c"
  by (induction es arbitrary: c) (auto simp: remove_entry_def update_entry_def Let_def)

lemma run_op_handle:
  assumes "cache_ok c" "h < length (sc_handles c)" "fst p \<noteq> ReleaseOp h"
  shows "h < length (sc_handles (run_op p c)) \<and> sc_handles (run_op p c) ! h = sc_handles c ! h"
proof -
  have inv: "cache_inv c" using assms(1) by (simp add: cache_ok_def)
  obtain x now where p: "p = (x, now)" by (cases p)
  have touched: "sc_handles c' = sc_handles c" if "touch name now c = (r, c')" for name r c'
    using touch_spec(6)[OF inv that] .
  have expired: "sc_handles (evictExpired now c) = sc_handles c"
    using fold_remove_handles[of "\<lambda>name e c. isExpired c e now" "sc_entries c" c] by (simp add: evictExpired_def)
  have cleared: "sc_handles (cache_clear c) = sc_handles c"
    using fold_remove_handles[of "\<lambda>name e c. True" "sc_entries c" c] by (simp add: cache_clear_def)
  show ?thesis
  proof (cases x)
    case (GetOp name)
    then show ?thesis using touched assms(2) by (auto simp: p cache_get_def split: prod.split option.split)
  next
    case (LeaseOp name)
    then show ?thesis using touched assms(2)
      by (auto simp: p cache_lease_def nth_append split: prod.split option.split)
  next
    case (ReleaseOp h')
    then have "h' \<noteq> h" using assms(3) p by simp
    then show ?thesis using ReleaseOp assms(2)
      by (auto simp: p lease_release_def Let_def split: prod.split)
  next
    case (HasOp name)
    then show ?thesis using assms(2)
      by (auto simp: p cache_has_def remove_entry_def update_entry_def Let_def split: option.split)
  next
    case (SetOp name bytes)
    then show ?thesis using set_good(3)[OF assms(1), of name bytes now] assms(2)
      by (cases "cache_set name bytes now c") (simp add: p)
  qed (use assms(2) expired cleared in \<open>simp_all add: p cache_keys_def cache_size_def cache_bytes_def Let_def\<close>)
qed

lemma run_ops_handle:
  "cache_ok c \<Longrightarrow> h < length (sc_handles c) \<Longrightarrow> \<forall>p\<in>set ops. fst p \<noteq> ReleaseOp h \<Longrightarrow>
     sc_handles (fold run_op ops c) ! h = sc_handles c ! h \<and> h < length (sc_handles (fold run_op ops c))"
proof (induction ops arbitrary: c)
  case (Cons p ops)
  from run_op_handle[OF Cons.prems(1,2), of p] Cons.IH[OF good_ok[OF run_op_good[OF Cons.prems(1)]]] Cons.prems(3)
  show ?case by auto
qed simp

text \<open>The bytes a handle shows: \<^verbatim>\<open>lease.data\<close>.\<close>

definition lease_data :: "SegmentCache \<Rightarrow> nat \<Rightarrow> nat list" where
  "lease_data c h = entry_bytes c (fst (sc_handles c ! h))"

section \<open>Properties\<close>

text \<open>C8: A lease pins its bytes: whatever operations follow (stores that evict the entry and reuse
  pooled buffers, expiry, clearing, other leases coming and going), the leased bytes are
  unchanged as long as this lease is not released.\<close>

theorem lease_pins_bytes:
  assumes "cache_ok c" "h < length (sc_handles c)" "snd (sc_handles c ! h) = False"
    "list_all (\<lambda>p. fst p \<noteq> ReleaseOp h) ops"
  shows "lease_data (fold run_op ops c) h = lease_data c h"
proof -
  define c' where "c' = fold run_op ops c"
  obtain e where e: "sc_handles c ! h = (e, False)" using assms(3) by (cases "sc_handles c ! h") auto
  have h: "sc_handles c' ! h = (e, False)" "h < length (sc_handles c')"
    using run_ops_handle[OF assms(1,2), of ops] assms(4) e by (auto simp: list_all_iff c'_def)
  then have "in_use c' e" by (metis in_use_def nth_mem)
  moreover have "e < sc_nextEntry c"
  proof -
    have "(e, False) \<in> set (sc_handles c)" using e assms(2) nth_mem by metis
    then show ?thesis using assms(1) by (auto simp: cache_ok_def cache_inv_def)
  qed
  moreover have "keeps c c'" using run_ops_good[OF assms(1)] by (simp add: good_step_def c'_def)
  ultimately show ?thesis by (simp add: lease_data_def h(1) e keeps_def flip: c'_def)
qed

definition empty_cache :: SegmentCache where
  "empty_cache = \<lparr>sc_maxBytes = 4, sc_ttlMs = Infinity, sc_entries = [],
     sc_heap = (\<lambda>_. \<lparr>ce_data = \<lparr>vw_id = 0, vw_backing = 0, vw_bytes = 0\<rparr>, ce_storedAt = 0,
       ce_allocatedBytes = 0, ce_leases = 0, ce_evicted = False\<rparr>),
     sc_nextEntry = 0, sc_handles = [], sc_totalBytes = 0, sc_pool = sample_pool\<rparr>"

lemma sample_pool_inv: "pool_inv sample_pool"
  by (simp add: pool_inv_def sample_pool_def owned_def retained_def leased_def)

lemma empty_cache_ok: "cache_ok empty_cache"
  using sample_pool_inv by (simp add: cache_ok_def cache_inv_def empty_cache_def in_use_def)

definition leased_cache :: SegmentCache where
  "leased_cache = fold run_op [(SetOp ''a'' [7, 8, 9], 0), (LeaseOp ''a'', 1)] empty_cache"

lemma leased_cache_ok: "cache_ok leased_cache"
  unfolding leased_cache_def using run_ops_good[OF empty_cache_ok] by (simp only: good_step_def)

lemma leased_cache_handle: "sc_handles leased_cache = [(0, False)]"
  by code_simp

theorem lease_pins_bytes_witness:
  "lease_data (fold run_op [(SetOp ''b'' [1, 2, 3, 4], 2), (SetOp ''c'' [5], 3), (ClearOp, 4)] leased_cache) 0 =
    lease_data leased_cache 0"
  by (rule lease_pins_bytes[OF leased_cache_ok]) (simp_all add: leased_cache_handle)

text \<open>The cache never holds more than its byte limit, after any sequence of operations.\<close>

theorem peer_cache_bounded:
  assumes "cache_ok c"
  shows "sc_totalBytes (fold run_op ops c) \<le> sc_maxBytes c"
  using run_ops_good[OF assms, of ops] by (simp add: good_step_def cache_ok_def)

theorem peer_cache_bounded_witness:
  "sc_totalBytes (fold run_op [(SetOp ''a'' [1, 2, 3], 0), (SetOp ''b'' [4, 5], 1)] empty_cache) \<le> sc_maxBytes empty_cache"
  by (rule peer_cache_bounded[OF empty_cache_ok])

text \<open>A stored segment is found: when \<^verbatim>\<open>set\<close> reports success, a \<^verbatim>\<open>get\<close> within the time to
  live returns exactly the stored bytes, also after storing evicted other entries.\<close>

theorem peer_cache_get_after_set:
  assumes "cache_ok c" "cache_set name bytes now c = (True, c')" "\<not> sc_ttlMs c \<le> int_number (later - now)"
  shows "fst (cache_get name later c') = Some bytes"
proof -
  note G = set_good[OF assms(1,2)]
  obtain es e where es: "sc_entries c' = es @ [(name, e)]" "ce_storedAt (sc_heap c' e) = now" "entry_bytes c' e = bytes"
    using G(2) by auto
  have inv: "cache_inv c'" using good_ok[OF G(1)] by (simp add: cache_ok_def)
  then have "wf_map (sc_entries c')" by (simp add: cache_inv_def)
  then have get: "map_get (sc_entries c') name = Some e"
    unfolding wf_map_def by (intro map_of_is_SomeI) (simp_all add: es(1))
  have "\<not> isExpired c' e later" using G(1) assms(3) es(2) by (simp add: isExpired_def good_step_def)
  moreover obtain r c'' where t: "touch name later c' = (r, c'')" by fastforce
  ultimately have "r = Some e" using touch_spec(7)[OF inv t] get by simp
  with touch_spec(8)[OF inv t] t es(3) show ?thesis by (simp add: cache_get_def entry_bytes_def)
qed

theorem peer_cache_get_after_set_witness:
  "fst (cache_get ''a'' 5 (snd (cache_set ''a'' [7, 8, 9] 0 empty_cache))) = Some [7, 8, 9]"
proof (rule peer_cache_get_after_set[OF empty_cache_ok, of "''a''" "[7, 8, 9]" 0])
  have "fst (cache_set ''a'' [7, 8, 9] 0 empty_cache)" by code_simp
  then show "cache_set ''a'' [7, 8, 9] 0 empty_cache = (True, snd (cache_set ''a'' [7, 8, 9] 0 empty_cache))"
    by (metis (full_types) prod.collapse)
  show "\<not> sc_ttlMs empty_cache \<le> int_number (5 - 0)" by (simp add: empty_cache_def)
qed

end
