(* ===== verification/SdkCache.thy ===== *)
theory SdkCache
  imports BufferPool
begin

text \<open>
  The browser SDK's segment cache (\<^verbatim>\<open>sdk/src/cache.ts\<close>): a \<^verbatim>\<open>Map\<close> to nodes of a doubly linked
  list in a heap, most recently used first. It refines a plain list of named segments.
\<close>

section \<open>Model\<close>

record CacheNode =
  cn_key :: string
  cn_data :: "nat list"
  cn_hash :: "string option"
  cn_storedAt :: int
  cn_prev :: "nat option"
  cn_next :: "nat option"

record SdkSegmentCache =
  kc_maxBytes :: nat
  kc_map :: "(string, nat) jsmap"
  kc_nodes :: "nat \<Rightarrow> CacheNode"
  kc_fresh :: nat
  kc_head :: "nat option"
  kc_tail :: "nat option"
  kc_totalBytes :: nat

record CachedSegment =
  cs_data :: "nat list"
  cs_hash :: "string option"
  cs_storedAt :: int

definition new_sdk_cache :: "number \<Rightarrow> (nat \<Rightarrow> CacheNode) \<Rightarrow> (string, SdkSegmentCache) result" where
  "new_sdk_cache limit nodes =
     (if \<not> positive_safe limit then throw ''maxBytes must be a positive integer''
      else return \<lparr>kc_maxBytes = to_nat limit, kc_map = [], kc_nodes = nodes, kc_fresh = 0,
        kc_head = None, kc_tail = None, kc_totalBytes = 0\<rparr>)"

definition set_prev :: "nat \<Rightarrow> nat option \<Rightarrow> SdkSegmentCache \<Rightarrow> SdkSegmentCache" where
  "set_prev n v c = c\<lparr>kc_nodes := (kc_nodes c)(n := (kc_nodes c n)\<lparr>cn_prev := v\<rparr>)\<rparr>"

definition set_next :: "nat \<Rightarrow> nat option \<Rightarrow> SdkSegmentCache \<Rightarrow> SdkSegmentCache" where
  "set_next n v c = c\<lparr>kc_nodes := (kc_nodes c)(n := (kc_nodes c n)\<lparr>cn_next := v\<rparr>)\<rparr>"

definition prepend :: "nat \<Rightarrow> SdkSegmentCache \<Rightarrow> SdkSegmentCache" where
  "prepend node c =
     (let c1 = set_prev node None c;
          c2 = set_next node (kc_head c1) c1;
          c3 = (case kc_head c2 of None \<Rightarrow> c2 | Some h \<Rightarrow> set_prev h (Some node) c2);
          c4 = c3\<lparr>kc_head := Some node\<rparr> in
      if kc_tail c4 = None then c4\<lparr>kc_tail := Some node\<rparr> else c4)"

definition removeNode :: "nat \<Rightarrow> SdkSegmentCache \<Rightarrow> SdkSegmentCache" where
  "removeNode node c =
     (let c1 = (case cn_prev (kc_nodes c node) of
            None \<Rightarrow> c | Some p \<Rightarrow> set_next p (cn_next (kc_nodes c node)) c);
          c2 = (case cn_next (kc_nodes c1 node) of
            None \<Rightarrow> c1 | Some q \<Rightarrow> set_prev q (cn_prev (kc_nodes c1 node)) c1);
          c3 = (if kc_head c2 = Some node then c2\<lparr>kc_head := cn_next (kc_nodes c2 node)\<rparr> else c2);
          c4 = (if kc_tail c3 = Some node then c3\<lparr>kc_tail := cn_prev (kc_nodes c3 node)\<rparr> else c3) in
      set_next node None (set_prev node None c4))"

definition bumpToFront :: "nat \<Rightarrow> SdkSegmentCache \<Rightarrow> SdkSegmentCache" where
  "bumpToFront node c = (if kc_head c = Some node then c else prepend node (removeNode node c))"

definition evict :: "string \<Rightarrow> SdkSegmentCache \<Rightarrow> SdkSegmentCache" where
  "evict name c =
     (case map_get (kc_map c) name of
        None \<Rightarrow> c
      | Some node \<Rightarrow>
          (let c1 = removeNode node
                 (c\<lparr>kc_totalBytes := kc_totalBytes c - length (cn_data (kc_nodes c node))\<rparr>) in
           c1\<lparr>kc_map := map_delete (kc_map c1) name\<rparr>))"

definition sdk_get :: "string \<Rightarrow> SdkSegmentCache \<Rightarrow> nat list option \<times> SdkSegmentCache" where
  "sdk_get name c =
     (case map_get (kc_map c) name of
        None \<Rightarrow> (None, c)
      | Some node \<Rightarrow>
          (let c' = bumpToFront node c in (Some (cn_data (kc_nodes c' node)), c')))"

definition sdk_has :: "string \<Rightarrow> SdkSegmentCache \<Rightarrow> bool" where
  "sdk_has name c = map_has (kc_map c) name"

text \<open>\<^verbatim>\<open>while (totalBytes > maxBytes && tail) evict(tail.key)\<close>; every round removes a key. The test
  that the tail's key is in the map is not in the code, whose loop would not end otherwise: it
  always holds, by the invariant below.\<close>

lemma removeNode_map [simp]: "kc_map (removeNode n c) = kc_map c"
  by (simp add: removeNode_def Let_def set_prev_def set_next_def split: option.split)

lemma evict_shrinks: "map_get (kc_map c) name \<noteq> None \<Longrightarrow> length (kc_map (evict name c)) < length (kc_map c)"
proof -
  have "length (map_delete m name) < length m" if "map_get m name \<noteq> None" for m :: "(string, nat) jsmap"
    using that
  proof (induction m)
    case (Cons p m)
    then show ?case using length_delete_le[of name m] by (cases p) (auto split: if_splits)
  qed simp
  then show "map_get (kc_map c) name \<noteq> None \<Longrightarrow> length (kc_map (evict name c)) < length (kc_map c)"
    by (auto simp: evict_def Let_def)
qed

function evict_tail :: "SdkSegmentCache \<Rightarrow> SdkSegmentCache" where
  "evict_tail c =
     (case kc_tail c of
        None \<Rightarrow> c
      | Some t \<Rightarrow>
          if kc_totalBytes c > kc_maxBytes c \<and> map_has (kc_map c) (cn_key (kc_nodes c t))
          then evict_tail (evict (cn_key (kc_nodes c t)) c) else c)"
  by pat_completeness auto
termination
  by (relation "measure (\<lambda>c. length (kc_map c))") (auto simp: map_has_def evict_shrinks)

declare evict_tail.simps [simp del]

definition sdk_set ::
    "string \<Rightarrow> nat list \<Rightarrow> string option \<Rightarrow> int \<Rightarrow> SdkSegmentCache \<Rightarrow> bool \<times> SdkSegmentCache" where
  "sdk_set name bytes hash now c =
     (if bytes = [] \<or> length bytes > kc_maxBytes c then (False, c)
      else
        (let c1 = (case map_get (kc_map c) name of
               None \<Rightarrow> c
             | Some existing \<Rightarrow> removeNode existing
                 (c\<lparr>kc_totalBytes := kc_totalBytes c - length (cn_data (kc_nodes c existing))\<rparr>));
             node = kc_fresh c1;
             c2 = c1\<lparr>kc_fresh := node + 1,
               kc_nodes := (kc_nodes c1)(node := \<lparr>cn_key = name, cn_data = bytes, cn_hash = hash,
                 cn_storedAt = now, cn_prev = None, cn_next = None\<rparr>),
               kc_map := map_set (kc_map c1) name node\<rparr>;
             c3 = prepend node c2;
             c4 = c3\<lparr>kc_totalBytes := kc_totalBytes c3 + length bytes\<rparr> in
         (True, evict_tail c4)))"

definition sdk_keys :: "SdkSegmentCache \<Rightarrow> string list" where
  "sdk_keys c = map_keys (kc_map c)"

definition sdk_peek :: "string \<Rightarrow> SdkSegmentCache \<Rightarrow> CachedSegment option" where
  "sdk_peek name c =
     (case map_get (kc_map c) name of
        None \<Rightarrow> None
      | Some node \<Rightarrow> Some \<lparr>cs_data = cn_data (kc_nodes c node), cs_hash = cn_hash (kc_nodes c node),
          cs_storedAt = cn_storedAt (kc_nodes c node)\<rparr>)"

definition sdk_clear :: "SdkSegmentCache \<Rightarrow> SdkSegmentCache" where
  "sdk_clear c = c\<lparr>kc_map := [], kc_head := None, kc_tail := None, kc_totalBytes := 0\<rparr>"

section \<open>The list in the heap\<close>

definition first_opt :: "'a list \<Rightarrow> 'a option" where
  "first_opt xs = (case xs of [] \<Rightarrow> None | x # _ \<Rightarrow> Some x)"

definition last_opt :: "'a list \<Rightarrow> 'a option" where
  "last_opt xs = (if xs = [] then None else Some (last xs))"

lemma first_opt_simps [simp]: "first_opt [] = None" "first_opt (x # xs) = Some x"
  "first_opt (xs @ ys) = (if xs = [] then first_opt ys else first_opt xs)"
  by (auto simp: first_opt_def split: list.split)

lemma last_opt_simps [simp]: "last_opt [] = None" "last_opt (xs @ [x]) = Some x"
  "last_opt (x # xs) = (if xs = [] then Some x else last_opt xs)"
  "last_opt (xs @ ys) = (if ys = [] then last_opt xs else last_opt ys)"
  by (auto simp: last_opt_def)

lemma opt_None [simp]: "first_opt xs = None \<longleftrightarrow> xs = []" "last_opt xs = None \<longleftrightarrow> xs = []"
  by (auto simp: first_opt_def last_opt_def split: list.split)

lemma first_opt_set: "first_opt xs = Some x \<Longrightarrow> x \<in> set xs"
  by (cases xs) auto

lemma last_opt_set: "last_opt xs = Some x \<Longrightarrow> x \<in> set xs"
  by (auto simp: last_opt_def split: if_splits)

definition linked :: "(nat \<Rightarrow> CacheNode) \<Rightarrow> nat list \<Rightarrow> bool" where
  "linked h ns \<longleftrightarrow> (\<forall>xs n ys. ns = xs @ n # ys \<longrightarrow> cn_prev (h n) = last_opt xs \<and> cn_next (h n) = first_opt ys)"

definition chain :: "SdkSegmentCache \<Rightarrow> nat list \<Rightarrow> bool" where
  "chain c ns \<longleftrightarrow> distinct ns \<and> linked (kc_nodes c) ns \<and> kc_head c = first_opt ns \<and> kc_tail c = last_opt ns"

lemma linkedD: "linked h (xs @ n # ys) \<Longrightarrow> cn_prev (h n) = last_opt xs \<and> cn_next (h n) = first_opt ys"
  by (auto simp: linked_def)

text \<open>The fields a list operation does not touch.\<close>

definition same_content :: "SdkSegmentCache \<Rightarrow> SdkSegmentCache \<Rightarrow> bool" where
  "same_content c c' \<longleftrightarrow> kc_map c' = kc_map c \<and> kc_totalBytes c' = kc_totalBytes c \<and>
     kc_maxBytes c' = kc_maxBytes c \<and> kc_fresh c' = kc_fresh c \<and>
     (\<forall>n. cn_key (kc_nodes c' n) = cn_key (kc_nodes c n) \<and> cn_data (kc_nodes c' n) = cn_data (kc_nodes c n) \<and>
        cn_hash (kc_nodes c' n) = cn_hash (kc_nodes c n) \<and> cn_storedAt (kc_nodes c' n) = cn_storedAt (kc_nodes c n))"

lemma same_content_refl [simp]: "same_content c c" by (simp add: same_content_def)

lemma same_content_set [simp]: "same_content c (set_prev n v c)" "same_content c (set_next n v c)"
  by (simp_all add: same_content_def set_prev_def set_next_def)

lemma same_content_trans: "same_content a b \<Longrightarrow> same_content b c \<Longrightarrow> same_content a c"
  by (simp add: same_content_def)

lemma prepend_spec:
  assumes "chain c ns" "n \<notin> set ns"
  shows "chain (prepend n c) (n # ns)" "same_content c (prepend n c)"
proof -
  note ch = assms(1)[unfolded chain_def]
  show "same_content c (prepend n c)"
    by (simp add: prepend_def Let_def same_content_def set_prev_def set_next_def split: option.split)
  have head: "kc_head (prepend n c) = Some n" and tail: "kc_tail (prepend n c) = (if kc_tail c = None then Some n else kc_tail c)"
    by (simp_all add: prepend_def Let_def set_prev_def set_next_def split: option.split)
  have node: "kc_nodes (prepend n c) m =
      (if m = n then (kc_nodes c n)\<lparr>cn_prev := None, cn_next := kc_head c\<rparr>
       else if kc_head c = Some m then (kc_nodes c m)\<lparr>cn_prev := Some n\<rparr> else kc_nodes c m)"
    if "kc_head c \<noteq> Some n" for m
    using that by (auto simp: prepend_def Let_def set_prev_def set_next_def split: option.split)
  have hn: "kc_head c \<noteq> Some n" using ch assms(2) first_opt_set by metis
  have "linked (kc_nodes (prepend n c)) (n # ns)"
    unfolding linked_def
  proof (intro allI impI)
    fix xs m ys assume eq: "n # ns = xs @ m # ys"
    show "cn_prev (kc_nodes (prepend n c) m) = last_opt xs \<and> cn_next (kc_nodes (prepend n c) m) = first_opt ys"
    proof (cases xs)
      case Nil
      then have "m = n" "ys = ns" using eq by auto
      then show ?thesis using Nil ch by (simp add: node[OF hn])
    next
      case (Cons a as)
      then have as: "a = n" "ns = as @ m # ys" using eq by auto
      then have "m \<noteq> n" using assms(2) by auto
      moreover have "cn_prev (kc_nodes c m) = last_opt as \<and> cn_next (kc_nodes c m) = first_opt ys"
        using ch as(2) by (auto simp: linked_def)
      moreover have "kc_head c = Some m \<longleftrightarrow> as = []"
        using ch as(2) by (cases as) auto
      ultimately show ?thesis using Cons as(1) by (auto simp: node[OF hn])
    qed
  qed
  then show "chain (prepend n c) (n # ns)"
    using ch assms(2) by (cases ns) (auto simp: chain_def head tail)
qed

lemma removeNode_fields:
  assumes "cn_prev (kc_nodes c n) = p" "cn_next (kc_nodes c n) = q" "p \<noteq> Some n" "q \<noteq> Some n"
    "\<And>x. p = Some x \<Longrightarrow> q \<noteq> Some x"
  shows "kc_nodes (removeNode n c) m =
      (if m = n then (kc_nodes c n)\<lparr>cn_prev := None, cn_next := None\<rparr>
       else if p = Some m then (kc_nodes c m)\<lparr>cn_next := q\<rparr>
       else if q = Some m then (kc_nodes c m)\<lparr>cn_prev := p\<rparr> else kc_nodes c m)"
    and "kc_head (removeNode n c) = (if kc_head c = Some n then q else kc_head c)"
    and "kc_tail (removeNode n c) = (if kc_tail c = Some n then p else kc_tail c)"
proof -
  define c1 where "c1 = (case p of None \<Rightarrow> c | Some x \<Rightarrow> set_next x q c)"
  define c2 where "c2 = (case q of None \<Rightarrow> c1 | Some y \<Rightarrow> set_prev y p c1)"
  have n1: "kc_nodes c1 m = (if p = Some m then (kc_nodes c m)\<lparr>cn_next := q\<rparr> else kc_nodes c m)" for m
    by (auto simp: c1_def set_next_def split: option.split)
  have ht1: "kc_head c1 = kc_head c" "kc_tail c1 = kc_tail c" by (simp_all add: c1_def set_next_def split: option.split)
  have n2: "kc_nodes c2 m = (if q = Some m then (kc_nodes c1 m)\<lparr>cn_prev := p\<rparr> else kc_nodes c1 m)" for m
    by (auto simp: c2_def set_prev_def split: option.split)
  have ht2: "kc_head c2 = kc_head c" "kc_tail c2 = kc_tail c"
    by (simp_all add: c2_def set_prev_def ht1 split: option.split)
  have at_n: "kc_nodes c1 n = kc_nodes c n" "kc_nodes c2 n = kc_nodes c n"
    using assms(3,4) by (simp_all add: n1 n2)
  have r: "removeNode n c = set_next n None (set_prev n None
      (let c3 = (if kc_head c2 = Some n then c2\<lparr>kc_head := q\<rparr> else c2) in
       if kc_tail c3 = Some n then c3\<lparr>kc_tail := p\<rparr> else c3))"
    unfolding removeNode_def assms(1,2) Let_def c1_def[symmetric] at_n(1) c2_def[symmetric]
    by (simp add: at_n(2) assms(1,2))
  show "kc_nodes (removeNode n c) m =
      (if m = n then (kc_nodes c n)\<lparr>cn_prev := None, cn_next := None\<rparr>
       else if p = Some m then (kc_nodes c m)\<lparr>cn_next := q\<rparr>
       else if q = Some m then (kc_nodes c m)\<lparr>cn_prev := p\<rparr> else kc_nodes c m)"
    using assms(5)[of m] at_n(2) by (simp add: r set_next_def set_prev_def Let_def) (auto simp: n1 n2)
  show "kc_head (removeNode n c) = (if kc_head c = Some n then q else kc_head c)"
    "kc_tail (removeNode n c) = (if kc_tail c = Some n then p else kc_tail c)"
    by (simp_all add: r set_next_def set_prev_def Let_def ht2)
qed

lemma append_Cons_cases:
  assumes "as @ bs = xs @ m # ys"
  obtains (left) us where "as = xs @ m # us" "ys = us @ bs" | (right) us where "xs = as @ us" "bs = us @ m # ys"
  using assms by (auto simp: append_eq_append_conv2 append_eq_Cons_conv)

lemma linked_remove:
  assumes l: "linked h (as @ n # bs)" and d: "distinct (as @ n # bs)"
    and h': "\<And>m. m \<noteq> n \<Longrightarrow> h' m =
       (if last_opt as = Some m then (h m)\<lparr>cn_next := first_opt bs\<rparr>
        else if first_opt bs = Some m then (h m)\<lparr>cn_prev := last_opt as\<rparr> else h m)"
  shows "linked h' (as @ bs)"
  unfolding linked_def
proof (intro allI impI)
  fix xs m ys assume eq: "as @ bs = xs @ m # ys"
  have dis: "set as \<inter> set bs = {}" "distinct as" "distinct bs" using d by auto
  have "m \<in> set (as @ bs)" using eq by simp
  then have mn: "m \<noteq> n" using d by auto
  from eq show "cn_prev (h' m) = last_opt xs \<and> cn_next (h' m) = first_opt ys"
  proof (cases rule: append_Cons_cases)
    case (left us)
    have o: "cn_prev (h m) = last_opt xs \<and> cn_next (h m) = first_opt (us @ n # bs)"
      using l left(1) linkedD[of h xs m "us @ n # bs"] by simp
    have 1: "last_opt as = Some m \<longleftrightarrow> us = []" using left(1) dis(2) by (auto simp: last_opt_def split: if_splits)
    have "m \<in> set as" using left(1) by simp
    then have 2: "first_opt bs \<noteq> Some m" using dis(1) first_opt_set by fastforce
    show ?thesis unfolding h'[OF mn] using o 1 2 left(2) by (cases us) simp_all
  next
    case (right us)
    have o: "cn_prev (h m) = last_opt (as @ n # us) \<and> cn_next (h m) = first_opt ys"
      using l right(2) linkedD[of h "as @ n # us" m ys] by simp
    have 1: "first_opt bs = Some m \<longleftrightarrow> us = []" using right(2) dis(3) by (cases us) auto
    have "m \<in> set bs" using right(2) by simp
    then have 2: "last_opt as \<noteq> Some m" using dis(1) last_opt_set by fastforce
    show ?thesis unfolding h'[OF mn] using o 1 2 right(1) by (cases us) simp_all
  qed
qed

lemma removeNode_spec:
  assumes "chain c (as @ n # bs)"
  shows "chain (removeNode n c) (as @ bs)" "same_content c (removeNode n c)"
proof -
  note ch = assms[unfolded chain_def]
  have d: "n \<notin> set as" "n \<notin> set bs" "distinct (as @ bs)" "set as \<inter> set bs = {}" using ch by auto
  have links: "cn_prev (kc_nodes c n) = last_opt as" "cn_next (kc_nodes c n) = first_opt bs"
    using ch linkedD by blast+
  have ne: "last_opt as \<noteq> Some n" "first_opt bs \<noteq> Some n" using d first_opt_set last_opt_set by metis+
  have pq: "last_opt as = Some x \<Longrightarrow> first_opt bs \<noteq> Some x" for x
    using d(4) first_opt_set last_opt_set by (metis disjoint_iff)
  show "same_content c (removeNode n c)"
    by (simp add: removeNode_def Let_def same_content_def set_prev_def set_next_def split: option.split)
  note F = removeNode_fields[OF links ne pq]
  have "linked (kc_nodes (removeNode n c)) (as @ bs)"
    using ch by (intro linked_remove[of "kc_nodes c" as n bs]) (simp_all add: F(1))
  moreover have "kc_head c = Some n \<longleftrightarrow> as = []" using ch d(1) by (cases as) auto
  moreover have "kc_tail c = Some n \<longleftrightarrow> bs = []"
    using ch d(2) last_opt_set by (cases "bs = []") (auto simp: last_opt_def split: if_splits)
  ultimately show "chain (removeNode n c) (as @ bs)"
    using ch d(3) by (auto simp: chain_def F(2,3))
qed

section \<open>The specification: a list of named segments\<close>

type_synonym lru = "(string \<times> nat list) list"

definition lru_bytes :: "lru \<Rightarrow> nat" where
  "lru_bytes l = sum_list (map (\<lambda>p. length (snd p)) l)"

definition lru_get :: "string \<Rightarrow> lru \<Rightarrow> nat list option \<times> lru" where
  "lru_get name l = (case map_of l name of
     None \<Rightarrow> (None, l) | Some d \<Rightarrow> (Some d, (name, d) # AList.delete name l))"

text \<open>Drop least recently used segments until the rest fits.\<close>

function lru_fit :: "nat \<Rightarrow> lru \<Rightarrow> lru" where
  "lru_fit limit l = (if l \<noteq> [] \<and> lru_bytes l > limit then lru_fit limit (butlast l) else l)"
  by pat_completeness auto
termination by (relation "measure (\<lambda>(limit, l). length l)") auto

declare lru_fit.simps [simp del]

definition lru_set :: "nat \<Rightarrow> string \<Rightarrow> nat list \<Rightarrow> lru \<Rightarrow> bool \<times> lru" where
  "lru_set limit name d l =
     (if d = [] \<or> length d > limit then (False, l)
      else (True, lru_fit limit ((name, d) # AList.delete name l)))"

section \<open>Refinement\<close>

definition entry_of :: "(nat \<Rightarrow> CacheNode) \<Rightarrow> nat \<Rightarrow> string \<times> nat list" where
  "entry_of h n = (cn_key (h n), cn_data (h n))"

definition sdk_inv :: "SdkSegmentCache \<Rightarrow> nat list \<Rightarrow> bool" where
  "sdk_inv c ns \<longleftrightarrow> chain c ns \<and>
     (\<forall>k n. map_get (kc_map c) k = Some n \<longleftrightarrow> n \<in> set ns \<and> cn_key (kc_nodes c n) = k) \<and>
     (\<forall>n\<in>set ns. n < kc_fresh c) \<and>
     kc_totalBytes c = lru_bytes (map (entry_of (kc_nodes c)) ns)"

definition represents :: "SdkSegmentCache \<Rightarrow> lru \<Rightarrow> bool" where
  "represents c l \<longleftrightarrow> (\<exists>ns. sdk_inv c ns \<and> l = map (entry_of (kc_nodes c)) ns)"

lemma same_content_entry: "same_content c c' \<Longrightarrow> entry_of (kc_nodes c') = entry_of (kc_nodes c)"
  by (rule ext) (simp add: same_content_def entry_of_def)

lemma key_in_map: "sdk_inv c ns \<Longrightarrow> n \<in> set ns \<Longrightarrow> map_get (kc_map c) (cn_key (kc_nodes c n)) = Some n"
  by (simp add: sdk_inv_def)

lemma delete_filter: "AList.delete k l = filter (\<lambda>p. fst p \<noteq> k) l"
  by (induction l) auto

lemma key_unique:
  assumes "sdk_inv c ns" "m \<in> set ns" "n \<in> set ns" "cn_key (kc_nodes c m) = cn_key (kc_nodes c n)"
  shows "m = n"
  using assms unfolding sdk_inv_def by (metis option.inject)

lemma delete_entries:
  assumes "sdk_inv c (as @ n # bs)" "cn_key (kc_nodes c n) = k"
  shows "AList.delete k (map (entry_of (kc_nodes c)) (as @ n # bs)) = map (entry_of (kc_nodes c)) (as @ bs)"
proof -
  have d: "distinct (as @ n # bs)" using assms(1) by (simp add: sdk_inv_def chain_def)
  have "cn_key (kc_nodes c m) \<noteq> k" if "m \<in> set (as @ bs)" for m
    using key_unique[OF assms(1), of m n] that d assms(2) by auto
  then have "filter (\<lambda>p. fst p \<noteq> k) (map (entry_of (kc_nodes c)) (as @ bs)) = map (entry_of (kc_nodes c)) (as @ bs)"
    by (auto simp: filter_id_conv entry_of_def)
  then show ?thesis using assms(2) by (simp add: delete_filter) (simp add: entry_of_def)
qed

lemma map_of_entries:
  assumes "sdk_inv c ns"
  shows "map_of (map (entry_of (kc_nodes c)) ns) k = map_option (\<lambda>n. cn_data (kc_nodes c n)) (map_get (kc_map c) k)"
proof (cases "map_get (kc_map c) k")
  case None
  then have "k \<notin> fst ` set (map (entry_of (kc_nodes c)) ns)"
    using key_in_map[OF assms] by (auto simp: entry_of_def)
  then show ?thesis using None by (metis map_of_eq_None_iff option.simps(8))
next
  case (Some n)
  then have n: "n \<in> set ns" "cn_key (kc_nodes c n) = k" using assms by (auto simp: sdk_inv_def)
  have "distinct (map fst (map (entry_of (kc_nodes c)) ns))"
    using assms key_unique[OF assms] by (auto simp: distinct_map inj_on_def entry_of_def sdk_inv_def chain_def comp_def)
  moreover have "(k, cn_data (kc_nodes c n)) \<in> set (map (entry_of (kc_nodes c)) ns)"
    using n by (auto simp: entry_of_def)
  ultimately show ?thesis using Some by (simp add: map_of_is_SomeI)
qed

text \<open>Moving a node to the front.\<close>

lemma bump_spec:
  assumes inv: "sdk_inv c ns" and n: "n \<in> set ns"
  obtains as bs where "ns = as @ n # bs" "sdk_inv (bumpToFront n c) (n # as @ bs)" "same_content c (bumpToFront n c)"
proof -
  obtain as bs where ns: "ns = as @ n # bs" using n by (metis in_set_conv_decomp)
  have ch: "chain c (as @ n # bs)" using inv ns by (simp add: sdk_inv_def)
  have notin: "n \<notin> set (as @ bs)" using ch by (auto simp: chain_def)
  have "chain (bumpToFront n c) (n # as @ bs) \<and> same_content c (bumpToFront n c)"
  proof (cases "kc_head c = Some n")
    case True
    then have "as = []" using ch by (cases as) (auto simp: chain_def)
    then show ?thesis using True ch by (simp add: bumpToFront_def)
  next
    case False
    note R = removeNode_spec[OF ch]
    from prepend_spec[OF R(1) notin] show ?thesis
      using False same_content_trans[OF R(2)] by (simp add: bumpToFront_def)
  qed
  then have b: "chain (bumpToFront n c) (n # as @ bs)" "same_content c (bumpToFront n c)" by blast+
  have "lru_bytes (map (entry_of (kc_nodes c)) (n # as @ bs)) = lru_bytes (map (entry_of (kc_nodes c)) ns)"
    by (simp add: lru_bytes_def ns)
  then have "sdk_inv (bumpToFront n c) (n # as @ bs)"
    using inv b same_content_entry[OF b(2)]
    unfolding sdk_inv_def ns by (auto simp: same_content_def)
  with that ns b(2) show thesis by blast
qed

lemma get_refines:
  assumes "represents c l"
  shows "fst (sdk_get name c) = fst (lru_get name l)" "represents (snd (sdk_get name c)) (snd (lru_get name l))"
proof -
  obtain ns where ns: "sdk_inv c ns" "l = map (entry_of (kc_nodes c)) ns" using assms by (auto simp: represents_def)
  have m: "map_of l name = map_option (\<lambda>n. cn_data (kc_nodes c n)) (map_get (kc_map c) name)"
    using map_of_entries[OF ns(1)] ns(2) by simp
  have "fst (sdk_get name c) = fst (lru_get name l) \<and> represents (snd (sdk_get name c)) (snd (lru_get name l))"
  proof (cases "map_get (kc_map c) name")
    case None
    with m assms show ?thesis by (simp add: sdk_get_def lru_get_def)
  next
    case (Some n)
    then have n: "n \<in> set ns" "cn_key (kc_nodes c n) = name" using ns(1) by (auto simp: sdk_inv_def)
    obtain as bs where b: "ns = as @ n # bs" "sdk_inv (bumpToFront n c) (n # as @ bs)" "same_content c (bumpToFront n c)"
      using bump_spec[OF ns(1) n(1)] .
    have "represents (bumpToFront n c) (map (entry_of (kc_nodes c)) (n # as @ bs))"
      using b(2) same_content_entry[OF b(3)] by (auto simp: represents_def)
    moreover have "(name, cn_data (kc_nodes c n)) # AList.delete name l = map (entry_of (kc_nodes c)) (n # as @ bs)"
      using delete_entries[OF ns(1)[unfolded b(1)] n(2)] ns(2) b(1) n(2) by (simp add: entry_of_def)
    ultimately show ?thesis using Some m b(3) by (simp add: sdk_get_def lru_get_def same_content_def Let_def)
  qed
  then show "fst (sdk_get name c) = fst (lru_get name l)" "represents (snd (sdk_get name c)) (snd (lru_get name l))"
    by blast+
qed

text \<open>Unlinking a node together with its map entry and bytes.\<close>

lemma unlink_spec:
  assumes inv: "sdk_inv c (as @ n # bs)" and key: "cn_key (kc_nodes c n) = k"
  defines "c1 \<equiv> removeNode n (c\<lparr>kc_totalBytes := kc_totalBytes c - length (cn_data (kc_nodes c n))\<rparr>)"
  shows "sdk_inv (c1\<lparr>kc_map := map_delete (kc_map c1) k\<rparr>) (as @ bs)"
    and "entry_of (kc_nodes c1) = entry_of (kc_nodes c)" "kc_map c1 = kc_map c" "kc_maxBytes c1 = kc_maxBytes c"
    "kc_fresh c1 = kc_fresh c" "chain c1 (as @ bs)"
    "kc_totalBytes c1 = lru_bytes (map (entry_of (kc_nodes c)) (as @ bs))"
proof -
  let ?c0 = "c\<lparr>kc_totalBytes := kc_totalBytes c - length (cn_data (kc_nodes c n))\<rparr>"
  have ch0: "chain ?c0 (as @ n # bs)" using inv by (simp add: sdk_inv_def chain_def)
  note R = removeNode_spec[OF ch0, folded c1_def]
  show e: "entry_of (kc_nodes c1) = entry_of (kc_nodes c)" using same_content_entry[OF R(2)] by simp
  show f: "kc_map c1 = kc_map c" "kc_maxBytes c1 = kc_maxBytes c" "kc_fresh c1 = kc_fresh c"
    using R(2) by (simp_all add: same_content_def)
  show "chain c1 (as @ bs)" by (rule R(1))
  have "kc_totalBytes c = length (cn_data (kc_nodes c n)) + lru_bytes (map (entry_of (kc_nodes c)) (as @ bs))"
    using inv by (simp add: sdk_inv_def lru_bytes_def entry_of_def)
  then show t: "kc_totalBytes c1 = lru_bytes (map (entry_of (kc_nodes c)) (as @ bs))"
    using R(2) by (simp add: same_content_def)
  have keys: "cn_key (kc_nodes c1 m) = cn_key (kc_nodes c m)" for m using R(2) by (simp add: same_content_def)
  have d: "n \<notin> set (as @ bs)" using ch0 by (auto simp: chain_def)
  have "cn_key (kc_nodes c m) \<noteq> k" if "m \<in> set (as @ bs)" for m
    using key_unique[OF inv, of m n] that d key by auto
  then show "sdk_inv (c1\<lparr>kc_map := map_delete (kc_map c1) k\<rparr>) (as @ bs)"
    using inv R(1) t unfolding sdk_inv_def by (auto simp: chain_def f e keys get_delete key)
qed

lemma evict_tail_refines:
  "sdk_inv c ns \<Longrightarrow> \<exists>ns'. sdk_inv (evict_tail c) ns' \<and>
     map (entry_of (kc_nodes (evict_tail c))) ns' = lru_fit (kc_maxBytes c) (map (entry_of (kc_nodes c)) ns) \<and>
     kc_maxBytes (evict_tail c) = kc_maxBytes c"
proof (induction c arbitrary: ns rule: evict_tail.induct)
  case (1 c)
  note inv = 1(2)
  have total: "kc_totalBytes c = lru_bytes (map (entry_of (kc_nodes c)) ns)" using inv by (simp add: sdk_inv_def)
  have tail: "kc_tail c = last_opt ns" using inv by (simp add: sdk_inv_def chain_def)
  show ?case
  proof (cases "ns \<noteq> [] \<and> kc_totalBytes c > kc_maxBytes c")
    case False
    then have "evict_tail c = c" using tail by (subst evict_tail.simps) (auto simp: last_opt_def)
    moreover have "lru_fit (kc_maxBytes c) (map (entry_of (kc_nodes c)) ns) = map (entry_of (kc_nodes c)) ns"
      using False total by (subst lru_fit.simps) auto
    ultimately show ?thesis using inv by auto
  next
    case True
    define t where "t = last ns"
    have ns: "butlast ns @ t # [] = ns" using True by (simp add: t_def)
    have inv2: "sdk_inv c (butlast ns @ t # [])" unfolding ns by (rule inv)
    have tl: "kc_tail c = Some t" using tail True by (simp add: last_opt_def t_def)
    have get: "map_get (kc_map c) (cn_key (kc_nodes c t)) = Some t"
      using inv True by (simp add: sdk_inv_def t_def)
    then have has: "map_has (kc_map c) (cn_key (kc_nodes c t))" by (simp add: map_has_def)
    note U = unlink_spec[OF inv2 refl]
    have ev: "evict (cn_key (kc_nodes c t)) c = (let c1 = removeNode t (c\<lparr>kc_totalBytes := kc_totalBytes c -
        length (cn_data (kc_nodes c t))\<rparr>) in c1\<lparr>kc_map := map_delete (kc_map c1) (cn_key (kc_nodes c t))\<rparr>)"
      by (simp add: evict_def get)
    have inv': "sdk_inv (evict (cn_key (kc_nodes c t)) c) (butlast ns)" unfolding ev Let_def using U(1) by simp
    have ent: "entry_of (kc_nodes (evict (cn_key (kc_nodes c t)) c)) = entry_of (kc_nodes c)"
      "kc_maxBytes (evict (cn_key (kc_nodes c t)) c) = kc_maxBytes c"
      unfolding ev Let_def using U(2,4) by simp_all
    have step: "evict_tail c = evict_tail (evict (cn_key (kc_nodes c t)) c)"
      using True tl has by (subst evict_tail.simps) simp
    have fit: "lru_fit (kc_maxBytes c) (map (entry_of (kc_nodes c)) ns) =
        lru_fit (kc_maxBytes c) (map (entry_of (kc_nodes c)) (butlast ns))"
      using True total by (subst lru_fit.simps) (simp add: map_butlast)
    have cond: "kc_maxBytes c < kc_totalBytes c \<and> map_has (kc_map c) (cn_key (kc_nodes c t))" using True has by simp
    from 1(1)[OF tl cond inv'] show ?thesis unfolding step fit ent by simp
  qed
qed

lemma set_refines:
  assumes "represents c l"
  shows "fst (sdk_set name d hash now c) = fst (lru_set (kc_maxBytes c) name d l)"
    and "represents (snd (sdk_set name d hash now c)) (snd (lru_set (kc_maxBytes c) name d l))"
proof -
  obtain ns where ns: "sdk_inv c ns" "l = map (entry_of (kc_nodes c)) ns" using assms by (auto simp: represents_def)
  have "fst (sdk_set name d hash now c) = fst (lru_set (kc_maxBytes c) name d l) \<and>
    represents (snd (sdk_set name d hash now c)) (snd (lru_set (kc_maxBytes c) name d l))"
  proof (cases "d = [] \<or> length d > kc_maxBytes c")
    case True
    with assms show ?thesis by (simp add: sdk_set_def lru_set_def)
  next
    case False
    define c1 where "c1 = (case map_get (kc_map c) name of None \<Rightarrow> c
       | Some existing \<Rightarrow> removeNode existing
           (c\<lparr>kc_totalBytes := kc_totalBytes c - length (cn_data (kc_nodes c existing))\<rparr>))"
    text \<open>The list without the old segment of that name.\<close>
    obtain ms where ms: "chain c1 ms" "map (entry_of (kc_nodes c)) ms = AList.delete name l"
      "entry_of (kc_nodes c1) = entry_of (kc_nodes c)" "kc_map c1 = kc_map c" "kc_maxBytes c1 = kc_maxBytes c"
      "kc_fresh c1 = kc_fresh c" "kc_totalBytes c1 = lru_bytes (map (entry_of (kc_nodes c)) ms)"
      "set ms \<subseteq> set ns" "\<forall>n\<in>set ns. n \<in> set ms \<longleftrightarrow> cn_key (kc_nodes c n) \<noteq> name"
    proof (cases "map_get (kc_map c) name")
      case None
      then have c1: "c1 = c" by (simp add: c1_def)
      have keys: "\<forall>n\<in>set ns. cn_key (kc_nodes c n) \<noteq> name"
        using key_in_map[OF ns(1)] None by auto
      then have "AList.delete name l = l"
        unfolding ns(2) delete_filter by (auto simp: filter_id_conv entry_of_def)
      then show thesis using that[of ns] ns keys by (simp add: c1 sdk_inv_def)
    next
      case (Some n)
      then have n: "n \<in> set ns" "cn_key (kc_nodes c n) = name" using ns(1) by (auto simp: sdk_inv_def)
      then obtain as bs where split: "ns = as @ n # bs" by (metis in_set_conv_decomp)
      have inv: "sdk_inv c (as @ n # bs)" using ns(1) split by simp
      note U = unlink_spec[OF inv n(2)]
      have c1: "c1 = removeNode n (c\<lparr>kc_totalBytes := kc_totalBytes c - length (cn_data (kc_nodes c n))\<rparr>)"
        by (simp add: c1_def Some)
      have dis: "n \<notin> set (as @ bs)" using inv by (auto simp: sdk_inv_def chain_def)
      note U' = U[folded c1]
      have A: "\<forall>m\<in>set ns. m \<in> set (as @ bs) \<longleftrightarrow> cn_key (kc_nodes c m) \<noteq> name"
        using key_unique[OF ns(1), of _ n] n dis split by auto
      have B: "map (entry_of (kc_nodes c)) (as @ bs) = AList.delete name l"
        using delete_entries[OF inv n(2)] ns(2) split by simp
      have sub: "set (as @ bs) \<subseteq> set ns" using split by auto
      show thesis by (rule that[OF U'(6) B U'(2,3,4,5,7) sub A])
    qed
    define node where "node = kc_fresh c1"
    define c2 where "c2 = c1\<lparr>kc_fresh := node + 1,
      kc_nodes := (kc_nodes c1)(node := \<lparr>cn_key = name, cn_data = d, cn_hash = hash, cn_storedAt = now,
        cn_prev = None, cn_next = None\<rparr>),
      kc_map := map_set (kc_map c1) name node\<rparr>"
    define c4 where "c4 = (prepend node c2)\<lparr>kc_totalBytes := kc_totalBytes (prepend node c2) + length d\<rparr>"
    have set_eq: "sdk_set name d hash now c = (True, evict_tail c4)"
      using False by (simp add: sdk_set_def Let_def c4_def c2_def node_def flip: c1_def)
    have bound: "\<forall>n\<in>set ns. n < node" using ns(1) ms(6) by (simp add: sdk_inv_def node_def)
    then have fresh: "node \<notin> set ms" using ms(8) by auto
    have linked2: "linked (kc_nodes c2) ms"
      using ms(1) fresh by (auto simp: chain_def linked_def c2_def)
    then have "chain c2 ms" using ms(1) by (simp add: chain_def c2_def)
    note P = prepend_spec[OF this fresh]
    have old: "entry_of (kc_nodes c2) m = entry_of (kc_nodes c) m" if "m \<noteq> node" for m
      using that ms(3) by (simp add: c2_def entry_of_def fun_eq_iff)
    have new: "entry_of (kc_nodes c2) node = (name, d)" by (simp add: c2_def entry_of_def)
    have map2: "map (entry_of (kc_nodes c2)) (node # ms) = (name, d) # AList.delete name l"
    proof -
      have "map (entry_of (kc_nodes c2)) ms = map (entry_of (kc_nodes c)) ms"
        using old fresh by (intro map_cong refl) metis
      then show ?thesis by (simp add: new ms(2))
    qed
    have e4: "entry_of (kc_nodes c4) = entry_of (kc_nodes c2)" using same_content_entry[OF P(2)] by (simp add: c4_def)
    have keys4: "cn_key (kc_nodes c4 n) = (if n = node then name else cn_key (kc_nodes c n))" for n
      using fun_cong[OF e4, of n] old[of n] new by (auto simp: entry_of_def)
    have m4: "kc_map c4 = map_set (kc_map c) name node" "kc_fresh c4 = node + 1" "kc_maxBytes c4 = kc_maxBytes c"
      "kc_totalBytes c4 = lru_bytes (map (entry_of (kc_nodes c)) ms) + length d"
      using P(2) ms(4,5,7) by (simp_all add: same_content_def c4_def c2_def)
    have "sdk_inv c4 (node # ms)"
      unfolding sdk_inv_def
    proof (intro conjI allI)
      show "chain c4 (node # ms)" using P(1) by (simp add: c4_def chain_def)
      show "map_get (kc_map c4) k = Some n \<longleftrightarrow> n \<in> set (node # ms) \<and> cn_key (kc_nodes c4 n) = k" for k n
      proof -
        have "map_get (kc_map c) k = Some n \<longleftrightarrow> n \<in> set ns \<and> cn_key (kc_nodes c n) = k"
          using ns(1) by (simp add: sdk_inv_def)
        then show ?thesis using ms(8,9) bound fresh by (auto simp: m4 get_set keys4)
      qed
      show "\<forall>n\<in>set (node # ms). n < kc_fresh c4" using bound ms(8) by (auto simp: m4 less_SucI)
      show "kc_totalBytes c4 = lru_bytes (map (entry_of (kc_nodes c4)) (node # ms))"
        unfolding e4 map2 m4(4) ms(2) by (simp add: lru_bytes_def)
    qed
    from evict_tail_refines[OF this] obtain ns' where ns': "sdk_inv (evict_tail c4) ns'"
      "map (entry_of (kc_nodes (evict_tail c4))) ns' = lru_fit (kc_maxBytes c) ((name, d) # AList.delete name l)"
      unfolding e4 map2 m4 by blast
    then show ?thesis using False by (simp add: set_eq lru_set_def represents_def) (metis)
  qed
  then show "fst (sdk_set name d hash now c) = fst (lru_set (kc_maxBytes c) name d l)"
    and "represents (snd (sdk_set name d hash now c)) (snd (lru_set (kc_maxBytes c) name d l))" by blast+
qed

section \<open>Properties\<close>

text \<open>What the specification guarantees: the newest segment is kept, whatever had to go.\<close>

lemma lru_fit_bytes: "lru_bytes (lru_fit limit l) \<le> limit"
  by (induction limit l rule: lru_fit.induct) (subst lru_fit.simps, auto simp: lru_bytes_def)

lemma lru_fit_Cons: "length d \<le> limit \<Longrightarrow> \<exists>l'. lru_fit limit ((name, d) # l) = (name, d) # l'"
proof (induction "length l" arbitrary: l)
  case 0
  then show ?case by (subst lru_fit.simps) (simp add: lru_bytes_def)
next
  case (Suc n)
  show ?case
  proof (cases "lru_bytes ((name, d) # l) > limit")
    case True
    have "l \<noteq> []" using Suc(2) by auto
    then have "lru_fit limit ((name, d) # l) = lru_fit limit ((name, d) # butlast l)"
      using True by (subst lru_fit.simps) simp
    with Suc(1)[of "butlast l"] Suc(2,3) show ?thesis by simp
  next
    case False
    then show ?thesis by (subst lru_fit.simps) simp
  qed
qed

text \<open>The linked-list cache refines a plain recency list: \<^verbatim>\<open>get\<close> and \<^verbatim>\<open>set\<close> return what the list
  operations return, and the represented list after the call is the list operation's result, so
  hits move to the front and eviction takes the least recently used segments.\<close>

theorem sdk_cache_refines_lru:
  assumes "represents c l"
  shows "fst (sdk_get name c) = fst (lru_get name l) \<and> represents (snd (sdk_get name c)) (snd (lru_get name l)) \<and>
    fst (sdk_set key d hash now c) = fst (lru_set (kc_maxBytes c) key d l) \<and>
    represents (snd (sdk_set key d hash now c)) (snd (lru_set (kc_maxBytes c) key d l))"
  using get_refines[OF assms] set_refines[OF assms] by blast

definition sdk_empty :: SdkSegmentCache where
  "sdk_empty = \<lparr>kc_maxBytes = 4, kc_map = [],
     kc_nodes = (\<lambda>_. \<lparr>cn_key = [], cn_data = [], cn_hash = None, cn_storedAt = 0, cn_prev = None, cn_next = None\<rparr>),
     kc_fresh = 0, kc_head = None, kc_tail = None, kc_totalBytes = 0\<rparr>"

lemma sdk_empty_represents: "represents sdk_empty []"
  by (simp add: represents_def sdk_inv_def chain_def linked_def sdk_empty_def lru_bytes_def)

theorem sdk_cache_refines_lru_witness:
  "fst (sdk_get ''a'' sdk_empty) = fst (lru_get ''a'' []) \<and> represents (snd (sdk_get ''a'' sdk_empty)) (snd (lru_get ''a'' [])) \<and>
    fst (sdk_set ''b'' [1, 2] None 0 sdk_empty) = fst (lru_set (kc_maxBytes sdk_empty) ''b'' [1, 2] []) \<and>
    represents (snd (sdk_set ''b'' [1, 2] None 0 sdk_empty)) (snd (lru_set (kc_maxBytes sdk_empty) ''b'' [1, 2] []))"
  by (rule sdk_cache_refines_lru[OF sdk_empty_represents])

text \<open>The operations that change the cache, in any order.\<close>

datatype sdk_op = SdkGet string | SdkSet string "nat list" "string option" int | SdkClear

fun run_sdk_op :: "sdk_op \<Rightarrow> SdkSegmentCache \<Rightarrow> SdkSegmentCache" where
  "run_sdk_op (SdkGet name) c = snd (sdk_get name c)"
| "run_sdk_op (SdkSet name d hash now) c = snd (sdk_set name d hash now c)"
| "run_sdk_op SdkClear c = sdk_clear c"

fun run_lru_op :: "nat \<Rightarrow> sdk_op \<Rightarrow> lru \<Rightarrow> lru" where
  "run_lru_op limit (SdkGet name) l = snd (lru_get name l)"
| "run_lru_op limit (SdkSet name d hash now) l = snd (lru_set limit name d l)"
| "run_lru_op limit SdkClear l = []"

lemma clear_represents: "represents (sdk_clear c) []"
  by (simp add: represents_def sdk_inv_def chain_def linked_def sdk_clear_def lru_bytes_def)

lemma lru_fit_id: "lru_bytes l \<le> limit \<Longrightarrow> lru_fit limit l = l"
  by (subst lru_fit.simps) simp

lemma set_links_max [simp]: "kc_maxBytes (removeNode n c) = kc_maxBytes c" "kc_maxBytes (prepend n c) = kc_maxBytes c"
  by (simp_all add: removeNode_def prepend_def Let_def set_prev_def set_next_def split: option.split)

lemma evict_tail_max [simp]: "kc_maxBytes (evict_tail c) = kc_maxBytes c"
proof (induction c rule: evict_tail.induct)
  case (1 c)
  have "kc_maxBytes (evict k c) = kc_maxBytes c" for k by (simp add: evict_def Let_def split: option.split)
  with 1 show ?case by (subst evict_tail.simps) (auto split: option.split)
qed

lemma run_sdk_max: "kc_maxBytes (run_sdk_op x c) = kc_maxBytes c"
  by (cases x) (auto simp: sdk_get_def sdk_set_def sdk_clear_def bumpToFront_def Let_def split: option.split)

lemma run_sdk_refines: "represents c l \<Longrightarrow> represents (run_sdk_op x c) (run_lru_op (kc_maxBytes c) x l)"
  by (cases x) (simp_all add: get_refines set_refines clear_represents)

lemma delete_bytes_le: "lru_bytes (AList.delete name l) \<le> lru_bytes l"
  by (induction l) (auto simp: lru_bytes_def)

lemma delete_bytes: "map_of l name = Some d \<Longrightarrow> length d + lru_bytes (AList.delete name l) \<le> lru_bytes l"
  using delete_bytes_le[of name] by (induction l) (auto simp: lru_bytes_def split: if_splits intro: le_trans)

lemma run_lru_bounded: "lru_bytes l \<le> limit \<Longrightarrow> lru_bytes (run_lru_op limit x l) \<le> limit"
proof (cases x)
  case (SdkGet name)
  assume "lru_bytes l \<le> limit"
  then show ?thesis using SdkGet delete_bytes[of l name]
    by (auto simp: lru_get_def lru_bytes_def split: option.split intro: le_trans)
next
  case (SdkSet name d hash now)
  assume "lru_bytes l \<le> limit"
  then show ?thesis using SdkSet by (simp add: lru_set_def lru_fit_bytes)
qed (simp add: lru_bytes_def)

text \<open>C11: After any sequence of calls on a new cache it represents the list the specification
  computes for the same calls, and its byte count is that list's and within the limit.\<close>

theorem sdk_cache_sequences:
  assumes "new_sdk_cache limit nodes = Inr c"
  shows "represents (fold run_sdk_op ops c) (fold (run_lru_op (kc_maxBytes c)) ops []) \<and>
    kc_totalBytes (fold run_sdk_op ops c) = lru_bytes (fold (run_lru_op (kc_maxBytes c)) ops []) \<and>
    kc_totalBytes (fold run_sdk_op ops c) \<le> kc_maxBytes c"
proof -
  have c: "represents c []"
    using assms by (auto simp: new_sdk_cache_def represents_def sdk_inv_def chain_def linked_def lru_bytes_def split: if_splits)
  have "represents (fold run_sdk_op ops b) (fold (run_lru_op (kc_maxBytes b)) ops l) \<and>
      lru_bytes (fold (run_lru_op (kc_maxBytes b)) ops l) \<le> kc_maxBytes b"
    if "represents b l" "lru_bytes l \<le> kc_maxBytes b" for b l
    using that
  proof (induction ops arbitrary: b l)
    case (Cons x ops)
    from Cons.IH[OF run_sdk_refines[OF Cons.prems(1)]] run_lru_bounded[OF Cons.prems(2), of x]
    show ?case by (simp add: run_sdk_max)
  qed simp
  from this[OF c] have r: "represents (fold run_sdk_op ops c) (fold (run_lru_op (kc_maxBytes c)) ops [])"
    "lru_bytes (fold (run_lru_op (kc_maxBytes c)) ops []) \<le> kc_maxBytes c" by (simp_all add: lru_bytes_def)
  then have "kc_totalBytes (fold run_sdk_op ops c) = lru_bytes (fold (run_lru_op (kc_maxBytes c)) ops [])"
    by (auto simp: represents_def sdk_inv_def)
  with r show ?thesis by simp
qed

theorem sdk_cache_sequences_witness:
  "represents (fold run_sdk_op [SdkSet ''a'' [1, 2, 3] None 0, SdkGet ''a'', SdkSet ''b'' [4, 5] None 1] sdk_empty)
     (fold (run_lru_op (kc_maxBytes sdk_empty)) [SdkSet ''a'' [1, 2, 3] None 0, SdkGet ''a'', SdkSet ''b'' [4, 5] None 1] []) \<and>
    kc_totalBytes (fold run_sdk_op [SdkSet ''a'' [1, 2, 3] None 0, SdkGet ''a'', SdkSet ''b'' [4, 5] None 1] sdk_empty) =
      lru_bytes (fold (run_lru_op (kc_maxBytes sdk_empty)) [SdkSet ''a'' [1, 2, 3] None 0, SdkGet ''a'', SdkSet ''b'' [4, 5] None 1] []) \<and>
    kc_totalBytes (fold run_sdk_op [SdkSet ''a'' [1, 2, 3] None 0, SdkGet ''a'', SdkSet ''b'' [4, 5] None 1] sdk_empty)
      \<le> kc_maxBytes sdk_empty"
  by (rule sdk_cache_sequences[where limit = "Num 4" and nodes = "kc_nodes sdk_empty"])
    (simp add: new_sdk_cache_def sdk_empty_def positive_safe_def)

end
