(* ===== verification/TrackerStore.thy ===== *)
theory TrackerStore
  imports Common
begin

text \<open>
  The tracker's in-memory store (\<^verbatim>\<open>tracker/src/store.ts\<close>, \<^verbatim>\<open>tracker/src/store-utils.ts\<close>):
  broadcasts, their peers with quality metrics, inventories and traffic counters, retired
  counters, and the quorum for failure reports. Operations read one clock value in milliseconds;
  an operation that throws leaves the store unchanged.
\<close>

section \<open>Failure quorum\<close>

definition DEFAULT_FAILURE_QUORUM :: nat where "DEFAULT_FAILURE_QUORUM = 2"
definition DEFAULT_FAILURE_WINDOW_MS :: int where "DEFAULT_FAILURE_WINDOW_MS = 60000"

record PeerFailureConsensus =
  fc_quorum :: nat
  fc_windowMs :: int
  fc_observations :: "(string, (string, int) jsmap) jsmap"

definition new_consensus :: "nat \<Rightarrow> int \<Rightarrow> PeerFailureConsensus" where
  "new_consensus quorum windowMs = \<lparr>fc_quorum = quorum, fc_windowMs = windowMs, fc_observations = []\<rparr>"

fun reason_name :: "failure_reason \<Rightarrow> string" where
  "reason_name ConnectionFailure = ''connection''"
| "reason_name TimeoutFailure = ''timeout''"
| "reason_name IntegrityFailure = ''integrity''"
| "reason_name HttpFailure = ''http''"

definition observation_key :: "string \<Rightarrow> string \<Rightarrow> failure_reason \<Rightarrow> string" where
  "observation_key broadcastId peerId reason =
     broadcastId @ [CHR 0x00] @ peerId @ [CHR 0x00] @ reason_name reason"

definition observe_failure ::
    "string \<Rightarrow> string \<Rightarrow> PeerFailureReport \<Rightarrow> int \<Rightarrow> PeerFailureConsensus \<Rightarrow> bool \<times> PeerFailureConsensus" where
  "observe_failure broadcastId reportedPeerId report observedAt c =
     (if reportedPeerId = reporterId report then (False, c)
      else
        (let key = observation_key broadcastId reportedPeerId (failure_reason report);
             known = map_get (fc_observations c) key;
             reporters = filter (\<lambda>(reporter, timestamp). \<not> observedAt - timestamp \<ge> fc_windowMs c)
               (case known of None \<Rightarrow> [] | Some m \<Rightarrow> m) in
         if map_has reporters (reporterId report) then
           (False, c\<lparr>fc_observations := map_set (fc_observations c) key reporters\<rparr>)
         else
           (let reporters' = map_set reporters (reporterId report) observedAt in
            if length reporters' < fc_quorum c
            then (False, c\<lparr>fc_observations := map_set (fc_observations c) key reporters'\<rparr>)
            else (True, c\<lparr>fc_observations := map_delete (fc_observations c) key\<rparr>))))"

section \<open>Quality, counters, inventories\<close>

definition clampUnitInterval :: "number \<Rightarrow> number" where
  "clampUnitInterval v = math_min 1 (math_max 0 v)"

definition sanitizePeerTrafficStats :: "PeerTrafficStats \<Rightarrow> PeerTrafficStats" where
  "sanitizePeerTrafficStats stats =
     fold (\<lambda>key sanitized. stat_set key
        (let v = stat_get key stats in if isFinite v \<and> 0 \<le> v then math_floor v else 0) sanitized)
       peerTrafficStatKeys createEmptyPeerTrafficStats"

definition failure_penalty :: "failure_reason \<Rightarrow> number" where
  "failure_penalty reason = (if reason = IntegrityFailure then lit (35 / 100) else lit (1 / 10))"

definition penalizePeerQuality :: "Peer \<Rightarrow> failure_reason \<Rightarrow> number \<times> number" where
  "penalizePeerQuality peer reason =
     (let penalty = failure_penalty reason in
      (clampUnitInterval (peer_trustScore peer - penalty),
       clampUnitInterval (peer_successRate peer - penalty * lit (1 / 2))))"

definition MAX_INVENTORY_CHARACTERS_PER_PEER :: nat where
  "MAX_INVENTORY_CHARACTERS_PER_PEER = 128 * 1024"

text \<open>The loop of \<^verbatim>\<open>limitInventory\<close>, over the segments before \<open>start\<close>, newest first: how many
  of them are kept.\<close>

fun kept_segments :: "string list \<Rightarrow> nat \<Rightarrow> nat \<Rightarrow> nat" where
  "kept_segments [] maxSegments budget = 0"
| "kept_segments (newest # older) maxSegments budget =
     (if maxSegments = 0 \<or> length newest > budget then 0
      else Suc (kept_segments older (maxSegments - 1) (budget - length newest)))"

definition limitInventory :: "string list \<Rightarrow> nat \<Rightarrow> nat \<Rightarrow> string list" where
  "limitInventory segments maxSegments maxCharacters =
     drop (length segments - kept_segments (rev segments) maxSegments maxCharacters) segments"

section \<open>The store\<close>

record PeerState =
  ps_peer :: Peer
  ps_stats :: PeerTrafficStats

record BroadcastState =
  bs_broadcast :: Broadcast
  bs_peers :: "(string, PeerState) jsmap"
  bs_retiredStats :: PeerTrafficStats

record TrackerStore =
  ts_broadcasts :: "(string, BroadcastState) jsmap"
  ts_failureConsensus :: PeerFailureConsensus
  ts_maxSegmentsPerPeer :: nat

datatype StoreError = BroadcastNotFound string | PeerNotFound string | PeerLimitReached

fun statusCode :: "StoreError \<Rightarrow> nat" where
  "statusCode (BroadcastNotFound _) = 404"
| "statusCode (PeerNotFound _) = 404"
| "statusCode PeerLimitReached = 429"

definition new_store :: "nat \<Rightarrow> TrackerStore" where
  "new_store maxSegmentsPerPeer =
     \<lparr>ts_broadcasts = [],
      ts_failureConsensus = new_consensus DEFAULT_FAILURE_QUORUM DEFAULT_FAILURE_WINDOW_MS,
      ts_maxSegmentsPerPeer = maxSegmentsPerPeer\<rparr>"

definition requireBroadcast :: "string \<Rightarrow> TrackerStore \<Rightarrow> (StoreError, BroadcastState) result" where
  "requireBroadcast broadcastId s = (case map_get (ts_broadcasts s) broadcastId of
     None \<Rightarrow> throw (BroadcastNotFound broadcastId) | Some state \<Rightarrow> return state)"

definition requirePeer :: "string \<Rightarrow> string \<Rightarrow> TrackerStore \<Rightarrow> (StoreError, PeerState) result" where
  "requirePeer broadcastId peerId s = (case requireBroadcast broadcastId s of
     Inl e \<Rightarrow> throw e
   | Inr state \<Rightarrow> (case map_get (bs_peers state) peerId of
       None \<Rightarrow> throw (PeerNotFound peerId) | Some p \<Rightarrow> return p))"

text \<open>Assignments to the fields of a broadcast's or a peer's state object.\<close>

definition put_broadcast :: "string \<Rightarrow> BroadcastState \<Rightarrow> TrackerStore \<Rightarrow> TrackerStore" where
  "put_broadcast broadcastId state s = s\<lparr>ts_broadcasts := map_set (ts_broadcasts s) broadcastId state\<rparr>"

definition put_peer :: "string \<Rightarrow> string \<Rightarrow> PeerState \<Rightarrow> TrackerStore \<Rightarrow> TrackerStore" where
  "put_peer broadcastId peerId p s = (case map_get (ts_broadcasts s) broadcastId of
     None \<Rightarrow> s
   | Some state \<Rightarrow> put_broadcast broadcastId (state\<lparr>bs_peers := map_set (bs_peers state) peerId p\<rparr>) s)"

definition registerBroadcast ::
    "BroadcastRegistration \<Rightarrow> int \<Rightarrow> TrackerStore \<Rightarrow> (Broadcast \<times> bool) \<times> TrackerStore" where
  "registerBroadcast registration now s =
     (case map_get (ts_broadcasts s) (reg_id registration) of
        Some existing \<Rightarrow>
          (let b = (bs_broadcast existing)\<lparr>
                 bc_playlistUrl := reg_playlistUrl registration,
                 bc_metadata := (case reg_metadata registration of
                   None \<Rightarrow> bc_metadata (bs_broadcast existing) | Some m \<Rightarrow> Some m),
                 bc_updatedAt := now\<rparr> in
           ((b, False), put_broadcast (reg_id registration) (existing\<lparr>bs_broadcast := b\<rparr>) s))
      | None \<Rightarrow>
          (let b = \<lparr>bc_id = reg_id registration, bc_playlistUrl = reg_playlistUrl registration,
                    bc_metadata = reg_metadata registration, bc_createdAt = now, bc_updatedAt = now\<rparr> in
           ((b, True), put_broadcast (reg_id registration)
              \<lparr>bs_broadcast = b, bs_peers = [], bs_retiredStats = createEmptyPeerTrafficStats\<rparr> s)))"

definition listBroadcasts :: "TrackerStore \<Rightarrow> Broadcast list" where
  "listBroadcasts s = map bs_broadcast (map_values (ts_broadcasts s))"

definition getBroadcast :: "string \<Rightarrow> TrackerStore \<Rightarrow> (StoreError, Broadcast) result" where
  "getBroadcast broadcastId s = (case requireBroadcast broadcastId s of
     Inl e \<Rightarrow> throw e | Inr state \<Rightarrow> return (bs_broadcast state))"

definition unregisterBroadcast :: "string \<Rightarrow> TrackerStore \<Rightarrow> (StoreError, TrackerStore) result" where
  "unregisterBroadcast broadcastId s =
     (if \<not> map_has (ts_broadcasts s) broadcastId then throw (BroadcastNotFound broadcastId)
      else return (s\<lparr>ts_broadcasts := map_delete (ts_broadcasts s) broadcastId\<rparr>))"

definition joined_peer :: "PeerJoinRequest \<Rightarrow> PeerState option \<Rightarrow> int \<Rightarrow> Peer" where
  "joined_peer request existing now =
     \<lparr>peer_id = join_id request,
      peer_address = join_address request,
      peer_uploadBandwidthBps = join_uploadBandwidthBps request,
      peer_metadata = join_metadata request,
      peer_segments = (case existing of None \<Rightarrow> [] | Some e \<Rightarrow> peer_segments (ps_peer e)),
      peer_joinedAt = (case existing of None \<Rightarrow> now | Some e \<Rightarrow> peer_joinedAt (ps_peer e)),
      peer_lastSeenAt = now,
      peer_latencyMs = (case existing of None \<Rightarrow> 0 | Some e \<Rightarrow> peer_latencyMs (ps_peer e)),
      peer_successRate = (case existing of None \<Rightarrow> 1 | Some e \<Rightarrow> peer_successRate (ps_peer e)),
      peer_trustScore = (case existing of None \<Rightarrow> 1 | Some e \<Rightarrow> peer_trustScore (ps_peer e))\<rparr>"

definition joinPeerDetailed ::
    "string \<Rightarrow> PeerJoinRequest \<Rightarrow> number option \<Rightarrow> int \<Rightarrow> TrackerStore \<Rightarrow>
     (StoreError, (Peer \<times> bool) \<times> TrackerStore) result" where
  "joinPeerDetailed broadcastId request maxPeers now s =
     (case requireBroadcast broadcastId s of
        Inl e \<Rightarrow> throw e
      | Inr state \<Rightarrow>
          (let existing = map_get (bs_peers state) (join_id request) in
           if existing = None \<and> (case maxPeers of None \<Rightarrow> False
                | Some limit \<Rightarrow> limit \<le> nat_number (length (bs_peers state)))
           then throw PeerLimitReached
           else
             (let peer = joined_peer request existing now;
                  stats = (case existing of None \<Rightarrow> createEmptyPeerTrafficStats | Some e \<Rightarrow> ps_stats e) in
              return ((peer, existing \<noteq> None),
                put_peer broadcastId (join_id request) \<lparr>ps_peer = peer, ps_stats = stats\<rparr> s))))"

text \<open>Retiring a peer: its counters move to the broadcast's retired counters.\<close>

definition retire_peer :: "string \<Rightarrow> PeerState \<Rightarrow> BroadcastState \<Rightarrow> BroadcastState" where
  "retire_peer peerId peerState state =
     state\<lparr>bs_retiredStats := addPeerTrafficStats (bs_retiredStats state) (ps_stats peerState),
           bs_peers := map_delete (bs_peers state) peerId\<rparr>"

definition leavePeer :: "string \<Rightarrow> string \<Rightarrow> TrackerStore \<Rightarrow> (StoreError, TrackerStore) result" where
  "leavePeer broadcastId peerId s =
     (case requireBroadcast broadcastId s of
        Inl e \<Rightarrow> throw e
      | Inr state \<Rightarrow>
          (case map_get (bs_peers state) peerId of
             None \<Rightarrow> throw (PeerNotFound peerId)
           | Some peerState \<Rightarrow> return (put_broadcast broadcastId (retire_peer peerId peerState state) s)))"

definition listPeers :: "string \<Rightarrow> string option \<Rightarrow> TrackerStore \<Rightarrow> (StoreError, Peer list) result" where
  "listPeers broadcastId segment s = (case requireBroadcast broadcastId s of
     Inl e \<Rightarrow> throw e
   | Inr state \<Rightarrow> return (filter (\<lambda>p. case segment of None \<Rightarrow> True | Some x \<Rightarrow> x \<in> set (peer_segments p))
       (map ps_peer (map_values (bs_peers state)))))"

definition getPeer :: "string \<Rightarrow> string \<Rightarrow> TrackerStore \<Rightarrow> Peer option" where
  "getPeer broadcastId peerId s = (case map_get (ts_broadcasts s) broadcastId of
     None \<Rightarrow> None | Some state \<Rightarrow> map_option ps_peer (map_get (bs_peers state) peerId))"

definition listPeerStats :: "string \<Rightarrow> TrackerStore \<Rightarrow> (StoreError, PeerState list) result" where
  "listPeerStats broadcastId s = (case requireBroadcast broadcastId s of
     Inl e \<Rightarrow> throw e | Inr state \<Rightarrow> return (map_values (bs_peers state)))"

definition reportSegments ::
    "string \<Rightarrow> string \<Rightarrow> string list \<Rightarrow> bool \<Rightarrow> int \<Rightarrow> TrackerStore \<Rightarrow> (StoreError, Peer \<times> TrackerStore) result" where
  "reportSegments broadcastId peerId segments replace now s =
     (case requirePeer broadcastId peerId s of
        Inl e \<Rightarrow> throw e
      | Inr st \<Rightarrow>
          (let nextSegments = (if replace then segments else peer_segments (ps_peer st) @ segments);
               peer = (ps_peer st)\<lparr>
                 peer_segments := limitInventory (new_set nextSegments) (ts_maxSegmentsPerPeer s)
                   MAX_INVENTORY_CHARACTERS_PER_PEER,
                 peer_lastSeenAt := now\<rparr> in
           return (peer, put_peer broadcastId peerId (st\<lparr>ps_peer := peer\<rparr>) s)))"

definition applySegmentDelta ::
    "string \<Rightarrow> string \<Rightarrow> string list \<Rightarrow> string list \<Rightarrow> int \<Rightarrow> TrackerStore \<Rightarrow>
     (StoreError, Peer \<times> TrackerStore) result" where
  "applySegmentDelta broadcastId peerId added removed now s =
     (case requirePeer broadcastId peerId s of
        Inl e \<Rightarrow> throw e
      | Inr st \<Rightarrow>
          (let next_segments = fold set_add added (fold set_delete removed (new_set (peer_segments (ps_peer st))));
               peer = (ps_peer st)\<lparr>
                 peer_segments := limitInventory next_segments (ts_maxSegmentsPerPeer s)
                   MAX_INVENTORY_CHARACTERS_PER_PEER,
                 peer_lastSeenAt := now\<rparr> in
           return (peer, put_peer broadcastId peerId (st\<lparr>ps_peer := peer\<rparr>) s)))"

definition store_heartbeat ::
    "string \<Rightarrow> string \<Rightarrow> PeerHeartbeat \<Rightarrow> int \<Rightarrow> TrackerStore \<Rightarrow> (StoreError, Peer \<times> TrackerStore) result" where
  "store_heartbeat broadcastId peerId heartbeat now s =
     (case requirePeer broadcastId peerId s of
        Inl e \<Rightarrow> throw e
      | Inr st \<Rightarrow>
          (let p = ps_peer st;
               peer = p\<lparr>
                 peer_latencyMs := (case hb_latencyMs heartbeat of
                   None \<Rightarrow> peer_latencyMs p | Some v \<Rightarrow> math_max 0 v),
                 peer_uploadBandwidthBps := (case hb_uploadBandwidthBps heartbeat of
                   None \<Rightarrow> peer_uploadBandwidthBps p | Some v \<Rightarrow> Some (math_max 0 v)),
                 peer_successRate := (case hb_successRate heartbeat of
                   None \<Rightarrow> peer_successRate p | Some v \<Rightarrow> clampUnitInterval v),
                 peer_lastSeenAt := now\<rparr> in
           return (peer, put_peer broadcastId peerId (st\<lparr>ps_peer := peer\<rparr>) s)))"

definition reportStats ::
    "string \<Rightarrow> string \<Rightarrow> PeerTrafficStats \<Rightarrow> int \<Rightarrow> TrackerStore \<Rightarrow> (StoreError, TrackerStore) result" where
  "reportStats broadcastId peerId stats now s =
     (case requirePeer broadcastId peerId s of
        Inl e \<Rightarrow> throw e
      | Inr st \<Rightarrow>
          return (put_peer broadcastId peerId
            \<lparr>ps_peer = (ps_peer st)\<lparr>peer_lastSeenAt := now\<rparr>, ps_stats = sanitizePeerTrafficStats stats\<rparr> s))"

definition reportPeerFailure ::
    "string \<Rightarrow> string \<Rightarrow> PeerFailureReport \<Rightarrow> int \<Rightarrow> TrackerStore \<Rightarrow> (StoreError, Peer \<times> TrackerStore) result" where
  "reportPeerFailure broadcastId peerId report now s =
     (case requirePeer broadcastId peerId s of
        Inl e \<Rightarrow> throw e
      | Inr reported \<Rightarrow>
          (case requirePeer broadcastId (reporterId report) s of
             Inl e \<Rightarrow> throw e
           | Inr reporter \<Rightarrow>
               (case observe_failure broadcastId peerId report now (ts_failureConsensus s) of
                  (agreed, consensus) \<Rightarrow>
                    (let s' = s\<lparr>ts_failureConsensus := consensus\<rparr> in
                     if \<not> agreed then return (ps_peer reported, s')
                     else
                       (case penalizePeerQuality (ps_peer reported) (failure_reason report) of
                          (trust, success) \<Rightarrow>
                            (let peer = (ps_peer reported)\<lparr>peer_trustScore := trust, peer_successRate := success\<rparr> in
                             return (peer, put_peer broadcastId peerId (reported\<lparr>ps_peer := peer\<rparr>) s')))))))"

text \<open>The sweep of one broadcast, over its peers as they were: the retired ones and the rest.\<close>

fun sweep_peers :: "int \<Rightarrow> (string \<times> PeerState) list \<Rightarrow> BroadcastState \<Rightarrow> string list \<times> BroadcastState" where
  "sweep_peers cutoff [] state = ([], state)"
| "sweep_peers cutoff ((peerId, p) # ps) state =
     (if peer_lastSeenAt (ps_peer p) < cutoff then
        (case sweep_peers cutoff ps (retire_peer peerId p state) of
           (removed, state') \<Rightarrow> (peerId # removed, state'))
      else sweep_peers cutoff ps state)"

definition removeStalePeers :: "int \<Rightarrow> int \<Rightarrow> TrackerStore \<Rightarrow> (string \<times> string) list \<times> TrackerStore" where
  "removeStalePeers maxAgeMs now s =
     (let cutoff = now - maxAgeMs;
          swept = map (\<lambda>(broadcastId, state). (broadcastId, sweep_peers cutoff (bs_peers state) state))
            (ts_broadcasts s) in
      (concat (map (\<lambda>(broadcastId, removed, state). map (Pair broadcastId) removed) swept),
       s\<lparr>ts_broadcasts := map (\<lambda>(broadcastId, removed, state). (broadcastId, state)) swept\<rparr>))"

definition totalsFor :: "BroadcastState \<Rightarrow> PeerTrafficStats \<times> nat" where
  "totalsFor state =
     (fold (\<lambda>p totals. addPeerTrafficStats totals (ps_stats p)) (map_values (bs_peers state))
        (addPeerTrafficStats createEmptyPeerTrafficStats (bs_retiredStats state)),
      length (bs_peers state))"

definition getBroadcastStats :: "string \<Rightarrow> TrackerStore \<Rightarrow> (StoreError, PeerTrafficStats \<times> nat) result" where
  "getBroadcastStats broadcastId s = (case requireBroadcast broadcastId s of
     Inl e \<Rightarrow> throw e | Inr state \<Rightarrow> return (totalsFor state))"

record GlobalStats =
  gs_broadcasts :: nat
  gs_peers :: nat
  gs_traffic :: PeerTrafficStats

definition getGlobalStats :: "TrackerStore \<Rightarrow> GlobalStats" where
  "getGlobalStats s =
     fold (\<lambda>state g. (case totalsFor state of (traffic, peers) \<Rightarrow>
          g\<lparr>gs_peers := gs_peers g + peers, gs_traffic := addPeerTrafficStats (gs_traffic g) traffic\<rparr>))
       (map_values (ts_broadcasts s))
       \<lparr>gs_broadcasts = length (ts_broadcasts s), gs_peers = 0, gs_traffic = createEmptyPeerTrafficStats\<rparr>"

end
