(* ===== verification/TrackerSpec.thy ===== *)
theory TrackerSpec
  imports TrackerStore
begin

text \<open>
  What the tracker's store promises: inventories are cut to the newest part that fits, every
  sequence of operations keeps the peers' data in range and the peer limit, traffic counters
  survive departures, a penalty needs two recent reporters, and joins and leaves act as a
  directory of peers (locale \<open>peer_directory\<close>, interpreted on the store).
\<close>

section \<open>Inventories\<close>

lemma kept_le: "kept_segments xs m c \<le> length xs \<and> kept_segments xs m c \<le> m"
  by (induction xs m c rule: kept_segments.induct) auto

lemma kept_fits: "sum_list (map length (take (kept_segments xs m c) xs)) \<le> c"
  by (induction xs m c rule: kept_segments.induct) auto

lemma kept_maximal:
  "kept_segments xs m c < n \<Longrightarrow> n \<le> length xs \<Longrightarrow> m < n \<or> c < sum_list (map length (take n xs))"
proof (induction xs m c arbitrary: n rule: kept_segments.induct)
  case (2 newest older m c)
  obtain k where n: "n = Suc k" using 2(2) by (cases n) auto
  show ?case
  proof (cases "m = 0 \<or> length newest > c")
    case True
    then show ?thesis by (auto simp: n)
  next
    case False
    with 2(2,3) 2(1)[of k] show ?thesis by (auto simp: n)
  qed
qed simp

lemma drop_as_rev: "k \<le> length xs \<Longrightarrow> drop (length xs - k) xs = rev (take k (rev xs))"
  by (simp add: take_rev)

lemma limitInventory_eq:
  "limitInventory xs m c = rev (take (kept_segments (rev xs) m c) (rev xs))"
  using drop_as_rev[of "kept_segments (rev xs) m c" xs] kept_le[of "rev xs" m c]
  by (simp add: limitInventory_def)

lemma limitInventory_bounds:
  "length (limitInventory xs m c) \<le> m" "sum_list (map length (limitInventory xs m c)) \<le> c"
  using kept_le[of "rev xs" m c] kept_fits[of "rev xs" m c]
  by (simp_all add: limitInventory_eq rev_map[symmetric])

lemma limitInventory_subset: "set (limitInventory xs m c) \<subseteq> set xs"
  by (simp add: limitInventory_def set_drop_subset)

lemma limitInventory_distinct: "distinct xs \<Longrightarrow> distinct (limitInventory xs m c)"
  by (simp add: limitInventory_def)

lemma limitInventory_all:
  assumes "length xs \<le> m" "sum_list (map length xs) \<le> c"
  shows "limitInventory xs m c = xs"
proof -
  have "kept_segments xs m c = length xs" if "length xs \<le> m" "sum_list (map length xs) \<le> c" for xs :: "string list"
    using that by (induction xs m c rule: kept_segments.induct) auto
  from this[of "rev xs"] assms show ?thesis by (simp add: limitInventory_def rev_map[symmetric])
qed

text \<open>The kept inventory is the longest run of newest segments that fits both bounds: it is a
  suffix of the reported one, has at most the allowed entries and characters, and every longer
  suffix exceeds one of the bounds.\<close>

theorem inventory_newest_that_fit:
  "(\<exists>older. segments = older @ limitInventory segments m c) \<and>
   length (limitInventory segments m c) \<le> m \<and>
   sum_list (map length (limitInventory segments m c)) \<le> c \<and>
   list_all (\<lambda>i. m < length (drop i segments) \<or> c < sum_list (map length (drop i segments)))
     [0..<length segments - length (limitInventory segments m c)]"
proof (intro conjI limitInventory_bounds)
  show "\<exists>older. segments = older @ limitInventory segments m c"
    unfolding limitInventory_def by (metis append_take_drop_id)
  have "m < length (drop i segments) \<or> c < sum_list (map length (drop i segments))"
    if i: "i < length segments - length (limitInventory segments m c)" for i
  proof -
    let ?n = "length segments - i"
    have l: "length (limitInventory segments m c) = kept_segments (rev segments) m c"
      using kept_le[of "rev segments" m c] by (simp add: limitInventory_eq)
    have d: "drop i segments = rev (take ?n (rev segments))"
      using drop_as_rev[of ?n segments] i by simp
    have "kept_segments (rev segments) m c < ?n" using i l by linarith
    from kept_maximal[OF this] have "m < ?n \<or> c < sum_list (map length (take ?n (rev segments)))"
      by simp
    then show ?thesis unfolding d by (simp add: rev_map[symmetric])
  qed
  then show "list_all (\<lambda>i. m < length (drop i segments) \<or> c < sum_list (map length (drop i segments)))
     [0..<length segments - length (limitInventory segments m c)]"
    by (auto simp: list_all_iff)
qed

section \<open>Sequences of operations\<close>

datatype store_op =
    RegisterOp BroadcastRegistration
  | UnregisterOp string
  | JoinOp string PeerJoinRequest "number option"
  | LeaveOp string string
  | SegmentsOp string string "string list" bool
  | DeltaOp string string "string list" "string list"
  | HeartbeatOp string string PeerHeartbeat
  | StatsOp string string PeerTrafficStats
  | FailureOp string string PeerFailureReport
  | SweepOp int

text \<open>An operation that throws leaves the store as it was.\<close>

definition kept :: "('e, TrackerStore) result \<Rightarrow> TrackerStore \<Rightarrow> TrackerStore" where
  "kept r s = (case r of Inl e \<Rightarrow> s | Inr s' \<Rightarrow> s')"

fun run_store_op :: "store_op \<times> int \<Rightarrow> TrackerStore \<Rightarrow> TrackerStore" where
  "run_store_op (RegisterOp registration, now) s = snd (registerBroadcast registration now s)"
| "run_store_op (UnregisterOp b, now) s = kept (unregisterBroadcast b s) s"
| "run_store_op (JoinOp b request maxPeers, now) s =
     kept (map_sum id snd (joinPeerDetailed b request maxPeers now s)) s"
| "run_store_op (LeaveOp b p, now) s = kept (leavePeer b p s) s"
| "run_store_op (SegmentsOp b p segments replace, now) s =
     kept (map_sum id snd (reportSegments b p segments replace now s)) s"
| "run_store_op (DeltaOp b p added removed, now) s =
     kept (map_sum id snd (applySegmentDelta b p added removed now s)) s"
| "run_store_op (HeartbeatOp b p heartbeat, now) s =
     kept (map_sum id snd (store_heartbeat b p heartbeat now s)) s"
| "run_store_op (StatsOp b p stats, now) s = kept (reportStats b p stats now s) s"
| "run_store_op (FailureOp b p report, now) s =
     kept (map_sum id snd (reportPeerFailure b p report now s)) s"
| "run_store_op (SweepOp maxAgeMs, now) s = snd (removeStalePeers maxAgeMs now s)"

text \<open>What a heartbeat, a report or an agreed failure may do to one peer.\<close>

inductive peer_change :: "nat \<Rightarrow> PeerState \<Rightarrow> PeerState \<Rightarrow> bool" for m :: nat where
  inventory: "distinct segments \<Longrightarrow> peer_change m p (p\<lparr>ps_peer := (ps_peer p)\<lparr>
     peer_segments := limitInventory segments m MAX_INVENTORY_CHARACTERS_PER_PEER,
     peer_lastSeenAt := now\<rparr>\<rparr>)"
| heartbeat: "(\<And>v. hb_successRate (h :: PeerHeartbeat) = Some v \<Longrightarrow> v \<noteq> NaN) \<Longrightarrow> peer_change m p (p\<lparr>ps_peer := (ps_peer p)\<lparr>
     peer_latencyMs := latency, peer_uploadBandwidthBps := bandwidth,
     peer_successRate := (case hb_successRate h of
        None \<Rightarrow> peer_successRate (ps_peer p) | Some v \<Rightarrow> clampUnitInterval v),
     peer_lastSeenAt := now\<rparr>\<rparr>)"
| stats: "peer_change m p \<lparr>ps_peer = (ps_peer p)\<lparr>peer_lastSeenAt := now\<rparr>, ps_stats = sanitizePeerTrafficStats t\<rparr>"
| penalty: "penalizePeerQuality (ps_peer p) reason = (trust, success) \<Longrightarrow>
     peer_change m p (p\<lparr>ps_peer := (ps_peer p)\<lparr>peer_trustScore := trust, peer_successRate := success\<rparr>\<rparr>)"

inductive_cases peer_changeE: "peer_change m p p'"

text \<open>An invariant of broadcasts: what holds of every broadcast of a store after any operations.\<close>

definition each_broadcast :: "nat \<Rightarrow> (BroadcastState \<Rightarrow> bool) \<Rightarrow> TrackerStore \<Rightarrow> bool" where
  "each_broadcast m P s \<longleftrightarrow> ts_maxSegmentsPerPeer s = m \<and> wf_map (ts_broadcasts s) \<and> list_all (\<lambda>(b, state). P state) (ts_broadcasts s)"

locale broadcast_invariant =
  fixes m :: nat and allowed :: "store_op \<Rightarrow> bool" and P :: "BroadcastState \<Rightarrow> bool"
  assumes fresh: "P \<lparr>bs_broadcast = b, bs_peers = [], bs_retiredStats = createEmptyPeerTrafficStats\<rparr>"
    and metadata: "P state \<Longrightarrow> P (state\<lparr>bs_broadcast := b\<rparr>)"
    and join: "\<lbrakk>P state; allowed (JoinOp bid request maxPeers);
       \<not> (map_get (bs_peers state) (join_id request) = None \<and> (case maxPeers of None \<Rightarrow> False
            | Some limit \<Rightarrow> limit \<le> nat_number (length (bs_peers state))))\<rbrakk> \<Longrightarrow>
       P (state\<lparr>bs_peers := map_set (bs_peers state) (join_id request)
         \<lparr>ps_peer = joined_peer request (map_get (bs_peers state) (join_id request)) now,
          ps_stats = (case map_get (bs_peers state) (join_id request) of
            None \<Rightarrow> createEmptyPeerTrafficStats | Some e \<Rightarrow> ps_stats e)\<rparr>\<rparr>)"
    and change: "\<lbrakk>P state; map_get (bs_peers state) p = Some st; peer_change m st st'\<rbrakk> \<Longrightarrow>
       P (state\<lparr>bs_peers := map_set (bs_peers state) p st'\<rparr>)"
    and retire: "\<lbrakk>P state; map_get (bs_peers state) p = Some st\<rbrakk> \<Longrightarrow> P (retire_peer p st state)"
    and wf: "P state \<Longrightarrow> wf_map (bs_peers state)"
    and numbers: "allowed (HeartbeatOp bid p heartbeat) \<Longrightarrow> hb_successRate heartbeat \<noteq> Some NaN"
begin

lemma put:
  assumes "each_broadcast m P s" "P state"
  shows "each_broadcast m P (put_broadcast b state s)"
proof -
  have "set (map_set m b state) \<subseteq> insert (b, state) (set m)" for m :: "(string, BroadcastState) jsmap"
    by (induction m) auto
  then show ?thesis using assms by (fastforce simp: each_broadcast_def put_broadcast_def list_all_iff)
qed

lemma limit: "each_broadcast m P s \<Longrightarrow> ts_maxSegmentsPerPeer s = m"
  by (simp add: each_broadcast_def)

lemma consensus: "each_broadcast m P s \<Longrightarrow> each_broadcast m P (s\<lparr>ts_failureConsensus := c\<rparr>)"
  by (simp add: each_broadcast_def)

lemma got:
  assumes "each_broadcast m P s" "map_get (ts_broadcasts s) b = Some state"
  shows "P state"
  using assms map_of_SomeD[of "ts_broadcasts s" b state] by (auto simp: each_broadcast_def list_all_iff)

lemma put_changed:
  assumes "each_broadcast m P s" "requirePeer b p s = Inr st" "peer_change m st st'"
  shows "each_broadcast m P (put_peer b p st' s)"
proof -
  obtain state where "map_get (ts_broadcasts s) b = Some state" "map_get (bs_peers state) p = Some st"
    using assms(2) by (auto simp: requirePeer_def requireBroadcast_def split: option.splits)
  then show ?thesis using put[OF assms(1) change[OF got[OF assms(1)] _ assms(3)]] by (simp add: put_peer_def)
qed

lemma sweep:
  assumes "P state" "wf_map ps" "\<And>p st. (p, st) \<in> set ps \<Longrightarrow> map_get (bs_peers state) p = Some st"
  shows "P (snd (sweep_peers cutoff ps state))"
  using assms
proof (induction cutoff ps state rule: sweep_peers.induct)
  case (2 cutoff peerId p ps state)
  have "map_get (bs_peers (retire_peer peerId p state)) q = Some st" if "(q, st) \<in> set ps" for q st
    using that 2(4,5) by (auto simp: retire_peer_def get_delete wf_map_Cons image_iff)
  then show ?case using 2 by (auto simp: retire wf_map_Cons split: prod.splits)
qed simp

lemma run_sweep: "each_broadcast m P s \<Longrightarrow> each_broadcast m P (snd (removeStalePeers maxAgeMs now s))"
proof -
  assume s: "each_broadcast m P s"
  let ?f = "\<lambda>(b, state). (b, snd (sweep_peers (now - maxAgeMs) (bs_peers state) state))"
  have eq: "ts_broadcasts (snd (removeStalePeers maxAgeMs now s)) = map ?f (ts_broadcasts s)"
    by (auto simp: removeStalePeers_def Let_def split: prod.splits)
  have "P (snd (sweep_peers (now - maxAgeMs) (bs_peers state) state))" if "(b, state) \<in> set (ts_broadcasts s)" for b state
  proof -
    have "P state" using s that by (auto simp: each_broadcast_def list_all_iff)
    with wf[OF this] show ?thesis by (intro sweep) (auto simp: wf_map_def)
  qed
  moreover have "map_keys (map ?f (ts_broadcasts s)) = map_keys (ts_broadcasts s)" by (simp add: case_prod_beta)
  moreover have "ts_maxSegmentsPerPeer (snd (removeStalePeers maxAgeMs now s)) = m"
    using s by (simp add: removeStalePeers_def Let_def each_broadcast_def)
  ultimately show ?thesis
    using s unfolding each_broadcast_def wf_map_def eq by (auto simp: list_all_iff simp del: map_map)
qed

lemma run_register: "each_broadcast m P s \<Longrightarrow> each_broadcast m P (snd (registerBroadcast r now s))"
  by (auto simp: registerBroadcast_def Let_def intro!: put fresh metadata got split: option.splits)

lemma run_unregister: "each_broadcast m P s \<Longrightarrow> each_broadcast m P (kept (unregisterBroadcast b s) s)"
  using wf_map_delete[of "ts_broadcasts s" b]
  by (auto simp: unregisterBroadcast_def kept_def each_broadcast_def list_all_iff AList.delete_eq)

lemma run_join:
  assumes "each_broadcast m P s" "allowed (JoinOp b request maxPeers)"
  shows "each_broadcast m P (kept (map_sum id snd (joinPeerDetailed b request maxPeers now s)) s)"
proof (cases "joinPeerDetailed b request maxPeers now s")
  case (Inr r)
  then obtain state where state: "map_get (ts_broadcasts s) b = Some state"
    by (auto simp: joinPeerDetailed_def requireBroadcast_def split: option.splits)
  from Inr have
    "\<not> (map_get (bs_peers state) (join_id request) = None \<and> (case maxPeers of None \<Rightarrow> False
            | Some limit \<Rightarrow> limit \<le> nat_number (length (bs_peers state))))"
    by (auto simp: joinPeerDetailed_def requireBroadcast_def state Let_def split: if_splits)
  from put[OF assms(1) join[OF got[OF assms(1) state] assms(2) this]] this Inr show ?thesis
    by (auto simp: joinPeerDetailed_def requireBroadcast_def state Let_def kept_def put_peer_def)
qed (use assms in \<open>simp add: kept_def\<close>)

lemma run_leave: "each_broadcast m P s \<Longrightarrow> each_broadcast m P (kept (leavePeer b p s) s)"
  by (auto simp: leavePeer_def requireBroadcast_def kept_def split: option.splits
      intro!: put dest: retire[OF got])

lemma run_segments: "each_broadcast m P s \<Longrightarrow>
    each_broadcast m P (kept (map_sum id snd (reportSegments b p segments r now s)) s)"
  by (auto simp: reportSegments_def kept_def Let_def limit split: sum.splits
      intro!: put_changed peer_change.inventory)

lemma run_delta: "each_broadcast m P s \<Longrightarrow>
    each_broadcast m P (kept (map_sum id snd (applySegmentDelta b p added removed now s)) s)"
  by (auto simp: applySegmentDelta_def kept_def Let_def limit split: sum.splits
      intro!: put_changed peer_change.inventory distinct_fold_set_add distinct_fold_set_delete)

lemma run_heartbeat: "each_broadcast m P s \<Longrightarrow> hb_successRate h \<noteq> Some NaN \<Longrightarrow>
    each_broadcast m P (kept (map_sum id snd (store_heartbeat b p h now s)) s)"
  by (auto simp: store_heartbeat_def kept_def Let_def split: sum.splits
      intro!: put_changed peer_change.heartbeat)

lemma run_stats: "each_broadcast m P s \<Longrightarrow> each_broadcast m P (kept (reportStats b p t now s) s)"
  by (auto simp: reportStats_def kept_def split: sum.splits intro!: put_changed peer_change.stats)

lemma run_failure: "each_broadcast m P s \<Longrightarrow>
    each_broadcast m P (kept (map_sum id snd (reportPeerFailure b p report now s)) s)"
  by (auto simp: reportPeerFailure_def kept_def Let_def consensus requirePeer_def requireBroadcast_def
      split: sum.splits prod.splits option.splits
      intro!: put_changed[OF consensus] peer_change.penalty)

lemma run_op: "each_broadcast m P s \<Longrightarrow> allowed (fst op) \<Longrightarrow> each_broadcast m P (run_store_op op s)"
  using numbers
  by (cases "(op, s)" rule: run_store_op.cases)
    (auto intro: run_sweep run_register run_unregister run_join run_leave run_segments run_delta
      run_heartbeat run_stats run_failure)

lemma run_ops:
  "each_broadcast m P s \<Longrightarrow> list_all (\<lambda>op. allowed (fst op)) ops \<Longrightarrow>
     each_broadcast m P (fold run_store_op ops s)"
  by (induction ops arbitrary: s) (auto intro: run_op)

lemma new_store_ok: "each_broadcast m P (new_store m)"
  by (simp add: each_broadcast_def new_store_def)

end

section \<open>Data in range\<close>

definition peer_state_ok :: "nat \<Rightarrow> PeerState \<Rightarrow> bool" where
  "peer_state_ok m st \<longleftrightarrow>
     distinct (peer_segments (ps_peer st)) \<and> length (peer_segments (ps_peer st)) \<le> m \<and>
     sum_list (map length (peer_segments (ps_peer st))) \<le> MAX_INVENTORY_CHARACTERS_PER_PEER \<and>
     0 \<le> peer_successRate (ps_peer st) \<and> peer_successRate (ps_peer st) \<le> 1 \<and>
     0 \<le> peer_trustScore (ps_peer st) \<and> peer_trustScore (ps_peer st) \<le> 1 \<and>
     list_all (\<lambda>k. 0 \<le> stat_get k (ps_stats st)) peerTrafficStatKeys"

definition broadcast_ok :: "nat \<Rightarrow> BroadcastState \<Rightarrow> bool" where
  "broadcast_ok m state \<longleftrightarrow> wf_map (bs_peers state) \<and>
     list_all (\<lambda>(p, st). peer_id (ps_peer st) = p \<and> peer_state_ok m st) (bs_peers state) \<and>
     list_all (\<lambda>k. 0 \<le> stat_get k (bs_retiredStats state)) peerTrafficStatKeys"

fun finite_report :: "store_op \<Rightarrow> bool" where
  "finite_report (HeartbeatOp b p h) = (hb_successRate h \<noteq> Some NaN)"
| "finite_report _ = True"

lemma clampUnit_unit: "v \<noteq> NaN \<Longrightarrow> 0 \<le> clampUnitInterval v \<and> clampUnitInterval v \<le> 1"
  using clamp_unit[of v] by (simp add: clampUnitInterval_def clamp_def)

lemma sanitize_get: "stat_get k (sanitizePeerTrafficStats t) =
    (if isFinite (stat_get k t) \<and> 0 \<le> stat_get k t then math_floor (stat_get k t) else 0)"
  unfolding sanitizePeerTrafficStats_def Let_def
  using stat_get_fold_set[of peerTrafficStatKeys k "\<lambda>key _.
     if isFinite (stat_get key t) \<and> 0 \<le> stat_get key t then math_floor (stat_get key t) else 0"] by simp

lemma sanitize_nonneg: "0 \<le> stat_get k (sanitizePeerTrafficStats t)"
  by (auto simp: sanitize_get isFinite_iff)

lemma penalize_unit:
  assumes "penalizePeerQuality p reason = (trust, success)"
    "0 \<le> peer_trustScore p" "peer_trustScore p \<le> 1" "0 \<le> peer_successRate p" "peer_successRate p \<le> 1"
  shows "0 \<le> trust \<and> trust \<le> 1 \<and> 0 \<le> success \<and> success \<le> 1"
proof -
  have "isFinite (lit (35 / 100))" "isFinite (lit (1 / 10))"
    "isFinite (lit (35 / 100) * lit (1 / 2))" "isFinite (lit (1 / 10) * lit (1 / 2))"
    by code_simp+
  then have "isFinite (failure_penalty reason)" "isFinite (failure_penalty reason * lit (1 / 2))"
    by (simp_all only: failure_penalty_def split: if_split) simp_all
  then obtain a b where ab: "failure_penalty reason = Num a" "failure_penalty reason * lit (1 / 2) = Num b"
    by (auto simp only: isFinite_iff)
  have no_nan: "x - Num c \<noteq> NaN" if "0 \<le> x" "x \<le> 1" for x c
    using that by (cases x) (auto simp: minus_number_def)
  have "trust = clampUnitInterval (peer_trustScore p - Num a)" "success = clampUnitInterval (peer_successRate p - Num b)"
    using assms(1) unfolding penalizePeerQuality_def Let_def ab(2) unfolding ab(1) by simp_all
  with no_nan[OF assms(2,3), THEN clampUnit_unit] no_nan[OF assms(4,5), THEN clampUnit_unit]
  show ?thesis by simp
qed

lemma change_ok:
  assumes "peer_change m st st'" "peer_state_ok m st"
  shows "peer_state_ok m st' \<and> peer_id (ps_peer st') = peer_id (ps_peer st)"
  using assms
proof cases
  case (heartbeat h latency bandwidth now)
  then show ?thesis using assms(2)
    by (auto simp: peer_state_ok_def clampUnit_unit split: option.splits)
next
  case (penalty reason trust success)
  then show ?thesis using assms(2) penalize_unit[OF penalty(2)] by (simp add: peer_state_ok_def)
qed (use limitInventory_bounds in
  \<open>auto simp: peer_state_ok_def sanitize_nonneg limitInventory_distinct list_all_iff\<close>)

lemma stats_sum_nonneg: "0 \<le> stat_get k a \<Longrightarrow> 0 \<le> stat_get k b \<Longrightarrow> 0 \<le> stat_get k (addPeerTrafficStats a b)"
  using plus_nonneg_mono(1)[of "stat_get k a" Infinity "stat_get k b" Infinity]
  by (cases "stat_get k a"; cases "stat_get k b") auto

lemma all_map_set:
  "list_all (\<lambda>(k, v). P k v) m \<Longrightarrow> P k v \<Longrightarrow> list_all (\<lambda>(k, v). P k v) (map_set m k v)"
  by (induction m) auto

lemma all_get: "list_all (\<lambda>(k, v). P k v) m \<Longrightarrow> map_get m k = Some v \<Longrightarrow> P k v"
  by (auto simp: list_all_iff dest: map_of_SomeD)

lemma all_map_delete: "list_all (\<lambda>(k, v). P k v) m \<Longrightarrow> list_all (\<lambda>(k, v). P k v) (map_delete m k)"
  by (auto simp: list_all_iff AList.delete_eq)

interpretation peer_data: broadcast_invariant m finite_report "broadcast_ok m"
proof unfold_locales
  fix state bid maxPeers now and request :: PeerJoinRequest
  assume ok: "broadcast_ok m state"
  let ?e = "map_get (bs_peers state) (join_id request)"
  have "peer_state_ok m e" if "?e = Some e" for e
    using ok all_get[OF _ that] unfolding broadcast_ok_def by blast
  then have "peer_state_ok m \<lparr>ps_peer = joined_peer request ?e now,
      ps_stats = (case ?e of None \<Rightarrow> createEmptyPeerTrafficStats | Some e \<Rightarrow> ps_stats e)\<rparr>"
    by (cases ?e) (simp_all add: peer_state_ok_def joined_peer_def list_all_iff)
  with ok show "broadcast_ok m (state\<lparr>bs_peers := map_set (bs_peers state) (join_id request)
       \<lparr>ps_peer = joined_peer request ?e now,
        ps_stats = (case ?e of None \<Rightarrow> createEmptyPeerTrafficStats | Some e \<Rightarrow> ps_stats e)\<rparr>\<rparr>)"
    unfolding broadcast_ok_def by (auto intro!: all_map_set simp: joined_peer_def)
next
  fix state p st st'
  assume "broadcast_ok m state" "map_get (bs_peers state) p = Some st" "peer_change m st st'"
  then show "broadcast_ok m (state\<lparr>bs_peers := map_set (bs_peers state) p st'\<rparr>)"
    using change_ok[of m st st'] all_get[of _ "bs_peers state" p st]
    unfolding broadcast_ok_def by (fastforce intro!: all_map_set)
next
  fix state p st
  assume ok: "broadcast_ok m state" "map_get (bs_peers state) p = Some st"
  then have "peer_state_ok m st" using all_get[of _ "bs_peers state" p st] unfolding broadcast_ok_def by blast
  with ok show "broadcast_ok m (retire_peer p st state)"
    unfolding broadcast_ok_def retire_peer_def
    by (simp add: all_map_delete peer_state_ok_def list_all_iff[of _ peerTrafficStatKeys] stats_sum_nonneg del: stat_get_add)
qed (auto simp: broadcast_ok_def list_all_iff)

text \<open>Whatever requests the tracker serves, in any order, every peer it keeps is listed under its
  own id, has a distinct inventory within the entry and character limits, quality values between
  0 and 1 and non-negative counters. Heartbeats are assumed to carry a success rate that is a
  number, as JSON requires.\<close>

theorem store_data_in_range:
  assumes "list_all (\<lambda>op. finite_report (fst op)) ops"
  shows "each_broadcast m (broadcast_ok m) (fold run_store_op ops (new_store m))"
  by (rule peer_data.run_ops[OF peer_data.new_store_ok assms])

definition sample_registration :: BroadcastRegistration where
  "sample_registration = \<lparr>reg_id = ''live'', reg_playlistUrl = ''http://origin/live.m3u8'', reg_metadata = None\<rparr>"

definition sample_join :: "string \<Rightarrow> PeerJoinRequest" where
  "sample_join p = \<lparr>join_id = p, join_address = ''http://10.0.0.1'', join_uploadBandwidthBps = None,
     join_metadata = None\<rparr>"

definition sample_ops :: "(store_op \<times> int) list" where
  "sample_ops = [(RegisterOp sample_registration, 0), (JoinOp ''live'' (sample_join ''a'') (Some (nat_number 2)), 1),
     (JoinOp ''live'' (sample_join ''b'') (Some (nat_number 2)), 2),
     (JoinOp ''live'' (sample_join ''c'') (Some (nat_number 2)), 3),
     (SegmentsOp ''live'' ''a'' [''s1.ts'', ''s2.ts'', ''s1.ts''] False, 4)]"

theorem store_data_in_range_witness:
  "each_broadcast 2 (broadcast_ok 2) (fold run_store_op sample_ops (new_store 2))"
  by (rule store_data_in_range) (simp add: sample_ops_def)

section \<open>The peer limit\<close>

fun joins_within :: "nat \<Rightarrow> store_op \<Rightarrow> bool" where
  "joins_within n (JoinOp b request maxPeers) = (maxPeers = Some (nat_number n))"
| "joins_within n op = finite_report op"

lemma length_map_set: "length (map_set m k v) = (if map_get m k = None then Suc (length m) else length m)"
  by (induction m) auto

interpretation peer_limit: broadcast_invariant m "joins_within n" "\<lambda>state. wf_map (bs_peers state) \<and> length (bs_peers state) \<le> n"
proof unfold_locales
  fix state :: BroadcastState and p st
  assume "wf_map (bs_peers state) \<and> length (bs_peers state) \<le> n" "map_get (bs_peers state) p = Some st"
  then show "wf_map (bs_peers (retire_peer p st state)) \<and> length (bs_peers (retire_peer p st state)) \<le> n"
    using length_delete[of "bs_peers state" p] by (simp add: retire_peer_def)
qed (auto simp: length_map_set)

text \<open>With a peer limit on every join, no broadcast ever has more peers than the limit, whatever
  else happens in between.\<close>

theorem peer_limit_enforced:
  assumes "list_all (\<lambda>op. joins_within n (fst op)) ops"
  shows "each_broadcast m (\<lambda>state. wf_map (bs_peers state) \<and> length (bs_peers state) \<le> n)
    (fold run_store_op ops (new_store m))"
  by (rule peer_limit.run_ops[OF peer_limit.new_store_ok assms])

theorem peer_limit_enforced_witness:
  "each_broadcast 5 (\<lambda>state. wf_map (bs_peers state) \<and> length (bs_peers state) \<le> 2)
    (fold run_store_op sample_ops (new_store 5))"
  by (rule peer_limit_enforced) (simp add: sample_ops_def)

section \<open>Traffic counters\<close>

text \<open>A broadcast whose counters are whole numbers that add up to \<open>c\<close>, small enough to be exact.\<close>

fun sum_counts :: "(stat_key \<Rightarrow> nat) list \<Rightarrow> stat_key \<Rightarrow> nat" where
  "sum_counts [] k = 0"
| "sum_counts (c # cs) k = c k + sum_counts cs k"

definition counted :: "(stat_key \<Rightarrow> nat) \<Rightarrow> BroadcastState \<Rightarrow> bool" where
  "counted c state \<longleftrightarrow> wf_map (bs_peers state) \<and> (\<forall>k. c k \<le> 2 ^ 53) \<and>
     (\<exists>retired counts. bs_retiredStats state = nat_stats retired \<and>
        map (\<lambda>x. ps_stats (snd x)) (bs_peers state) = map nat_stats counts \<and>
        (\<forall>k. c k = retired k + sum_counts counts k))"

lemma fold_counted:
  assumes "map ps_stats ps = map nat_stats cs" "\<And>k. a k + sum_counts cs k \<le> 2 ^ 53"
  shows "fold (\<lambda>p totals. addPeerTrafficStats totals (ps_stats p)) ps (nat_stats a) =
     nat_stats (\<lambda>k. a k + sum_counts cs k)"
  using assms
proof (induction ps arbitrary: cs a)
  case (Cons p ps)
  obtain c cs' where cs: "cs = c # cs'" "ps_stats p = nat_stats c" "map ps_stats ps = map nat_stats cs'"
    using Cons.prems(1) by (cases cs) auto
  have b: "a k + c k + sum_counts cs' k \<le> 2 ^ 53" for k using Cons.prems(2)[of k] by (simp add: cs)
  have "a k + c k \<le> 2 ^ 53" for k using b[of k] by linarith
  from add_nat_stats[of a c, OF this] Cons.IH[OF cs(3), of "\<lambda>k. a k + c k", OF b]
  have "fold (\<lambda>p totals. addPeerTrafficStats totals (ps_stats p)) (p # ps) (nat_stats a) =
     nat_stats (\<lambda>k. a k + c k + sum_counts cs' k)"
    unfolding fold_Cons comp_def cs(2) by (simp only:)
  then show ?case unfolding cs(1) by (simp only: sum_counts.simps add.assoc)
qed simp

lemma totals_counted:
  assumes "counted c state"
  shows "totalsFor state = (nat_stats c, length (bs_peers state))"
proof -
  obtain r cs where r: "bs_retiredStats state = nat_stats r" "map (\<lambda>x. ps_stats (snd x)) (bs_peers state) = map nat_stats cs"
    "\<And>k. c k = r k + sum_counts cs k" "\<And>k. c k \<le> 2 ^ 53"
    using assms by (auto simp: counted_def)
  have "r k \<le> 2 ^ 53" for k using r(3,4)[of k] by linarith
  then have "addPeerTrafficStats createEmptyPeerTrafficStats (nat_stats r) = nat_stats r"
    using add_nat_stats[of "\<lambda>_. 0" r] by (simp add: nat_stats_zero)
  moreover have "fold (\<lambda>p totals. addPeerTrafficStats totals (ps_stats p)) (map_values (bs_peers state)) (nat_stats r) =
     nat_stats (\<lambda>k. r k + sum_counts cs k)"
    using r(2-4) by (intro fold_counted) (simp_all add: comp_def)
  moreover have "c = (\<lambda>k. r k + sum_counts cs k)" using r(3) by blast
  ultimately show ?thesis by (simp only: totalsFor_def r(1))
qed

lemma sum_counts_append: "sum_counts (cs @ ds) k = sum_counts cs k + sum_counts ds k"
  by (induction cs) auto

lemma counted_retire:
  assumes "counted c state" "map_get (bs_peers state) p = Some st"
  shows "counted c (retire_peer p st state)"
proof -
  obtain r cs where r: "bs_retiredStats state = nat_stats r" "map (\<lambda>x. ps_stats (snd x)) (bs_peers state) = map nat_stats cs"
    "\<And>k. c k = r k + sum_counts cs k" "\<And>k. c k \<le> 2 ^ 53" and wf: "wf_map (bs_peers state)"
    using assms(1) by (auto simp: counted_def)
  obtain before after where ba: "bs_peers state = before @ (p, st) # after" "map_delete (bs_peers state) p = before @ after"
    using map_split[OF wf assms(2)] .
  obtain cb ca d where cs: "cs = cb @ d # ca" "map (\<lambda>x. ps_stats (snd x)) before = map nat_stats cb"
    "ps_stats st = nat_stats d" "map (\<lambda>x. ps_stats (snd x)) after = map nat_stats ca"
  proof -
    from r(2) ba(1) have "map nat_stats cs = map (\<lambda>x. ps_stats (snd x)) before @ ps_stats st # map (\<lambda>x. ps_stats (snd x)) after"
      by simp
    then show ?thesis using that by (auto simp: map_eq_append_conv map_eq_Cons_conv)
  qed
  have sum: "c k = (r k + d k) + sum_counts (cb @ ca) k" for k
    using r(3)[of k] by (simp add: cs(1) sum_counts_append)
  have "r k + d k \<le> 2 ^ 53" for k using sum[of k] r(4)[of k] by linarith
  from add_nat_stats[of r d, OF this]
  have "bs_retiredStats (retire_peer p st state) = nat_stats (\<lambda>k. r k + d k)"
    by (simp add: retire_peer_def r(1) cs(3))
  moreover have "map (\<lambda>x. ps_stats (snd x)) (bs_peers (retire_peer p st state)) = map nat_stats (cb @ ca)"
    by (simp add: retire_peer_def ba(2) cs(2,4))
  moreover have "wf_map (bs_peers (retire_peer p st state))" using wf by (simp add: retire_peer_def)
  ultimately show ?thesis
    unfolding counted_def using r(4) sum by blast
qed

text \<open>The traffic a broadcast's statistics show.\<close>

definition shown_traffic :: "TrackerStore \<Rightarrow> string \<Rightarrow> PeerTrafficStats option" where
  "shown_traffic s b = (case getBroadcastStats b s of Inl e \<Rightarrow> None | Inr (traffic, peers) \<Rightarrow> Some traffic)"

definition all_counted :: "TrackerStore \<Rightarrow> bool" where
  "all_counted s \<longleftrightarrow> wf_map (ts_broadcasts s) \<and> (\<forall>(b, state) \<in> set (ts_broadcasts s). \<exists>c. counted c state)"

lemma shown_counted:
  "map_get (ts_broadcasts s) b = Some state \<Longrightarrow> counted c state \<Longrightarrow> shown_traffic s b = Some (nat_stats c)"
  by (simp add: shown_traffic_def getBroadcastStats_def requireBroadcast_def totals_counted)

lemma shown_none: "map_get (ts_broadcasts s) b = None \<Longrightarrow> shown_traffic s b = None"
  by (simp add: shown_traffic_def getBroadcastStats_def requireBroadcast_def)

lemma shown_cong:
  "map_get (ts_broadcasts s) b = map_get (ts_broadcasts s') b \<Longrightarrow> shown_traffic s b = shown_traffic s' b"
  by (simp add: shown_traffic_def getBroadcastStats_def requireBroadcast_def)

lemma sweep_counted:
  assumes "counted c state" "wf_map ps" "\<And>p st. (p, st) \<in> set ps \<Longrightarrow> map_get (bs_peers state) p = Some st"
  shows "counted c (snd (sweep_peers cutoff ps state))"
  using assms
proof (induction cutoff ps state rule: sweep_peers.induct)
  case (2 cutoff peerId p ps state)
  have "map_get (bs_peers (retire_peer peerId p state)) q = Some st" if "(q, st) \<in> set ps" for q st
    using that 2(4,5) by (auto simp: retire_peer_def get_delete wf_map_Cons image_iff)
  then show ?case using 2 by (auto simp: counted_retire wf_map_Cons split: prod.splits)
qed simp

lemma counted_of: "all_counted s \<Longrightarrow> map_get (ts_broadcasts s) b = Some state \<Longrightarrow> \<exists>c. counted c state"
  by (auto simp: all_counted_def dest!: map_of_SomeD)

lemma leave_shows:
  assumes "all_counted s" "leavePeer b p s = Inr s'"
  shows "shown_traffic s' b' = shown_traffic s b'"
proof -
  obtain state st where st: "map_get (ts_broadcasts s) b = Some state" "map_get (bs_peers state) p = Some st"
    "s' = put_broadcast b (retire_peer p st state) s"
    using assms(2) by (auto simp: leavePeer_def requireBroadcast_def split: option.splits)
  obtain c where c: "counted c state" using counted_of[OF assms(1) st(1)] by blast
  show ?thesis
  proof (cases "b' = b")
    case True
    have "map_get (ts_broadcasts s') b = Some (retire_peer p st state)" by (simp add: st(3) put_broadcast_def get_set)
    from shown_counted[OF this counted_retire[OF c st(2)]] shown_counted[OF st(1) c] True show ?thesis by simp
  qed (auto intro!: shown_cong simp: st(3) put_broadcast_def get_set)
qed

lemma map_get_map: "map_get (map (\<lambda>(k, v). (k, f v)) m) k = map_option f (map_get m k)"
  by (induction m) auto

lemma stale_shows:
  assumes "all_counted s"
  shows "shown_traffic (snd (removeStalePeers maxAgeMs now s)) b = shown_traffic s b"
proof -
  let ?sweep = "\<lambda>state. snd (sweep_peers (now - maxAgeMs) (bs_peers state) state)"
  let ?s = "snd (removeStalePeers maxAgeMs now s)"
  have eq: "ts_broadcasts ?s = map (\<lambda>(b, state). (b, ?sweep state)) (ts_broadcasts s)"
    by (auto simp: removeStalePeers_def Let_def split: prod.splits)
  have get: "map_get (ts_broadcasts ?s) b = map_option ?sweep (map_get (ts_broadcasts s) b)"
    unfolding eq by (rule map_get_map)
  show ?thesis
  proof (cases "map_get (ts_broadcasts s) b")
    case (Some state)
    obtain c where c: "counted c state" using counted_of[OF assms Some] by blast
    then have wf: "wf_map (bs_peers state)" by (simp add: counted_def)
    then have "counted c (?sweep state)" by (intro sweep_counted c) (auto simp: wf_map_def)
    with get Some c show ?thesis by (simp add: shown_counted)
  qed (simp add: get shown_none)
qed

text \<open>C12: Departures lose no traffic: when a peer leaves, or stale peers are removed, the traffic
  shown for every broadcast stays exactly the same (for counters whose totals stay within the
  integers a binary64 number holds exactly).\<close>

theorem traffic_conserved:
  assumes "all_counted s"
  shows "shown_traffic (kept (leavePeer b p s) s) b' = shown_traffic s b' \<and>
    shown_traffic (snd (removeStalePeers maxAgeMs now s)) b' = shown_traffic s b'"
  using leave_shows[OF assms] stale_shows[OF assms] by (auto simp: kept_def split: sum.split)

definition sample_state :: BroadcastState where
  "sample_state = \<lparr>bs_broadcast = \<lparr>bc_id = ''live'', bc_playlistUrl = ''u'', bc_metadata = None, bc_createdAt = 0, bc_updatedAt = 0\<rparr>,
     bs_peers = [(''a'', \<lparr>ps_peer = joined_peer (sample_join ''a'') None 0, ps_stats = nat_stats (\<lambda>_. 7)\<rparr>)],
     bs_retiredStats = nat_stats (\<lambda>_. 5)\<rparr>"

theorem traffic_conserved_witness:
  "shown_traffic (kept (leavePeer ''live'' ''a'' ((new_store 2)\<lparr>ts_broadcasts := [(''live'', sample_state)]\<rparr>))
      ((new_store 2)\<lparr>ts_broadcasts := [(''live'', sample_state)]\<rparr>)) ''live'' =
    shown_traffic ((new_store 2)\<lparr>ts_broadcasts := [(''live'', sample_state)]\<rparr>) ''live'' \<and>
    shown_traffic (snd (removeStalePeers 10 100 ((new_store 2)\<lparr>ts_broadcasts := [(''live'', sample_state)]\<rparr>))) ''live'' =
    shown_traffic ((new_store 2)\<lparr>ts_broadcasts := [(''live'', sample_state)]\<rparr>) ''live''"
proof (rule traffic_conserved)
  have "counted (\<lambda>_. 12) sample_state"
    unfolding counted_def by (auto simp: sample_state_def wf_map_def intro!: exI[of _ "\<lambda>_. 5"] exI[of _ "[\<lambda>_. 7]"])
  then show "all_counted ((new_store 2)\<lparr>ts_broadcasts := [(''live'', sample_state)]\<rparr>)"
    by (auto simp: all_counted_def wf_map_def)
qed

section \<open>Penalties need two reporters\<close>

type_synonym failure_event = "string \<times> string \<times> PeerFailureReport \<times> int"

definition observe_event :: "failure_event \<Rightarrow> PeerFailureConsensus \<Rightarrow> PeerFailureConsensus" where
  "observe_event e c = (case e of (b, p, report, t) \<Rightarrow> snd (observe_failure b p report t c))"

definition plain_ids :: "failure_event \<Rightarrow> bool" where
  "plain_ids e = (case e of (b, p, report, t) \<Rightarrow> CHR 0x00 \<notin> set b \<and> CHR 0x00 \<notin> set p)"

lemma reason_name_inject: "reason_name r = reason_name r' \<longleftrightarrow> r = r'"
  by (cases r; cases r') simp_all

lemma split_at_sep: "x \<notin> set a \<Longrightarrow> x \<notin> set b \<Longrightarrow> a @ x # c = b @ x # d \<Longrightarrow> a = b \<and> c = d"
proof (induction a arbitrary: b)
  case Nil
  then show ?case by (cases b) auto
next
  case (Cons y a)
  then show ?case by (cases b) auto
qed

lemma observation_key_inject:
  assumes "CHR 0x00 \<notin> set b" "CHR 0x00 \<notin> set p" "CHR 0x00 \<notin> set b'" "CHR 0x00 \<notin> set p'"
    "observation_key b p r = observation_key b' p' r'"
  shows "b = b' \<and> p = p' \<and> r = r'"
proof -
  from assms(5) have eq: "b @ CHR 0x00 # p @ CHR 0x00 # reason_name r = b' @ CHR 0x00 # p' @ CHR 0x00 # reason_name r'"
    by (simp add: observation_key_def)
  from split_at_sep[OF assms(1,3) this] have "b = b'" "p @ CHR 0x00 # reason_name r = p' @ CHR 0x00 # reason_name r'"
    by simp_all
  with split_at_sep[OF assms(2,4) this(2)] show ?thesis by (simp add: reason_name_inject)
qed

text \<open>Every stored observation comes from a report of the history, not about the reporter itself.\<close>

definition explained :: "failure_event list \<Rightarrow> PeerFailureConsensus \<Rightarrow> bool" where
  "explained history c \<longleftrightarrow> (\<forall>(key, reporters) \<in> set (fc_observations c). \<forall>(reporter, t) \<in> set reporters.
     \<exists>b p report. (b, p, report, t) \<in> set history \<and> key = observation_key b p (failure_reason report) \<and>
       reporterId report = reporter \<and> reporter \<noteq> p)"

lemma explained_get:
  assumes "explained history c" "(reporter, t) \<in> set (case map_get (fc_observations c) key of None \<Rightarrow> [] | Some m \<Rightarrow> m)"
  shows "\<exists>b p report. (b, p, report, t) \<in> set history \<and> key = observation_key b p (failure_reason report) \<and>
       reporterId report = reporter \<and> reporter \<noteq> p"
proof (cases "map_get (fc_observations c) key")
  case (Some m)
  with assms(2) have "(reporter, t) \<in> set m" by simp
  with assms(1) map_of_SomeD[OF Some] show ?thesis unfolding explained_def by blast
qed (use assms in simp)

lemma explained_set:
  assumes "explained history c" "\<And>reporter t. (reporter, t) \<in> set m \<Longrightarrow>
     \<exists>b p report. (b, p, report, t) \<in> set history \<and> key = observation_key b p (failure_reason report) \<and>
       reporterId report = reporter \<and> reporter \<noteq> p"
  shows "explained history (c\<lparr>fc_observations := map_set (fc_observations c) key m\<rparr>)"
proof -
  have "case x of (key', m') \<Rightarrow> \<forall>(reporter, t) \<in> set m'. \<exists>b p report. (b, p, report, t) \<in> set history \<and>
      key' = observation_key b p (failure_reason report) \<and> reporterId report = reporter \<and> reporter \<noteq> p"
    if "x \<in> insert (key, m) (set (fc_observations c))" for x
    using that
  proof
    assume "x = (key, m)"
    then show ?thesis using assms(2) by (simp add: split_def)
  next
    assume "x \<in> set (fc_observations c)"
    with assms(1) show ?thesis unfolding explained_def by (rule bspec)
  qed
  moreover have "fc_observations (c\<lparr>fc_observations := map_set (fc_observations c) key m\<rparr>) =
      map_set (fc_observations c) key m" by simp
  ultimately show ?thesis
    unfolding explained_def using set_map_set[of key m "fc_observations c"] by (metis (no_types, lifting) subsetD)
qed

lemma explained_mono:
  assumes "explained h c" "set h \<subseteq> set h'"
  shows "explained h' c"
  unfolding explained_def
proof (intro ballI, clarify)
  fix key reporters reporter t
  assume "(key, reporters) \<in> set (fc_observations c)" "(reporter, t) \<in> set reporters"
  with assms(1) have "\<exists>b p report. (b, p, report, t) \<in> set h \<and> key = observation_key b p (failure_reason report) \<and>
      reporterId report = reporter \<and> reporter \<noteq> p"
    unfolding explained_def by fastforce
  with assms(2) show "\<exists>b p report. (b, p, report, t) \<in> set h' \<and> key = observation_key b p (failure_reason report) \<and>
      reporterId report = reporter \<and> reporter \<noteq> p"
    using subsetD[OF assms(2)] by metis
qed

lemma if_both: "(c \<Longrightarrow> P x) \<Longrightarrow> (\<not> c \<Longrightarrow> P y) \<Longrightarrow> P (if c then x else y)"
  by simp

lemma explained_observe:
  assumes ex: "explained history c"
  shows "explained (e # history) (observe_event e c)"
proof -
  obtain b p report now where e: "e = (b, p, report, now)" by (cases e)
  let ?h = "e # history"
  let ?key = "observation_key b p (failure_reason report)"
  let ?rs = "filter (\<lambda>(reporter, timestamp). \<not> now - timestamp \<ge> fc_windowMs c)
               (case map_get (fc_observations c) ?key of None \<Rightarrow> [] | Some m \<Rightarrow> m)"
  have ex': "explained ?h c" using ex by (rule explained_mono) auto
  have old: "explained ?h (c\<lparr>fc_observations := map_set (fc_observations c) ?key ?rs\<rparr>)"
    by (rule explained_set[OF ex']) (use explained_get[OF ex'] in auto)
  have "\<exists>b' p' r'. (b', p', r', t) \<in> set ?h \<and> ?key = observation_key b' p' (failure_reason r') \<and>
       reporterId r' = reporter \<and> reporter \<noteq> p'"
    if "p \<noteq> reporterId report" "(reporter, t) \<in> set (map_set ?rs (reporterId report) now)" for reporter t
  proof -
    have "(reporter, t) = (reporterId report, now) \<or> (reporter, t) \<in> set ?rs"
      using that(2) set_map_set[of "reporterId report" now ?rs] by blast
    then show ?thesis
    proof
      assume "(reporter, t) = (reporterId report, now)"
      then show ?thesis using that(1) by (intro exI[of _ b] exI[of _ p] exI[of _ report]) (simp add: e)
    next
      assume "(reporter, t) \<in> set ?rs"
      then have "(reporter, t) \<in> set (case map_get (fc_observations c) ?key of None \<Rightarrow> [] | Some m \<Rightarrow> m)" by simp
      from explained_get[OF ex' this] show ?thesis .
    qed
  qed
  then have new: "p \<noteq> reporterId report \<Longrightarrow>
      explained ?h (c\<lparr>fc_observations := map_set (fc_observations c) ?key (map_set ?rs (reporterId report) now)\<rparr>)"
    by (intro explained_set[OF ex'])
  have del: "explained ?h (c\<lparr>fc_observations := map_delete (fc_observations c) ?key\<rparr>)"
    using ex' by (auto simp: explained_def AList.delete_eq)
  have obs: "observe_event e c =
     (if p = reporterId report then c
      else if map_has ?rs (reporterId report) then c\<lparr>fc_observations := map_set (fc_observations c) ?key ?rs\<rparr>
      else if length (map_set ?rs (reporterId report) now) < fc_quorum c
        then c\<lparr>fc_observations := map_set (fc_observations c) ?key (map_set ?rs (reporterId report) now)\<rparr>
      else c\<lparr>fc_observations := map_delete (fc_observations c) ?key\<rparr>)"
    unfolding observe_event_def e observe_failure_def Let_def prod.case by (simp only: if_distrib[of snd] snd_conv)
  show ?thesis unfolding obs
    by (rule if_both[where P = "explained ?h"], rule ex', rule if_both[where P = "explained ?h"], rule old,
        rule if_both[where P = "explained ?h"], rule new, assumption, rule del)
qed

lemma explained_history: "explained (rev history) (fold observe_event history (new_consensus q w))"
proof (induction history rule: rev_induct)
  case Nil
  show ?case by (simp add: explained_def new_consensus_def)
next
  case (snoc e history)
  with explained_observe[of "rev history" _ e] show ?case by simp
qed

lemma quorum_kept: "fc_quorum (fold observe_event history c) = fc_quorum c \<and>
    fc_windowMs (fold observe_event history c) = fc_windowMs c"
proof -
  have "fc_quorum (observe_event e c) = fc_quorum c \<and> fc_windowMs (observe_event e c) = fc_windowMs c" for e c
    by (auto simp: observe_event_def observe_failure_def Let_def split: prod.splits)
  then show ?thesis by (induction history arbitrary: c) auto
qed

lemma agreed_other:
  assumes "fst (observe_failure b p report now c)" "2 \<le> fc_quorum c"
  shows "p \<noteq> reporterId report \<and> (\<exists>reporter t.
    (reporter, t) \<in> set (case map_get (fc_observations c) (observation_key b p (failure_reason report)) of
       None \<Rightarrow> [] | Some m \<Rightarrow> m) \<and> now - t < fc_windowMs c \<and> reporter \<noteq> reporterId report)"
proof -
  define rs where "rs = filter (\<lambda>(reporter, timestamp). \<not> now - timestamp \<ge> fc_windowMs c)
    (case map_get (fc_observations c) (observation_key b p (failure_reason report)) of None \<Rightarrow> [] | Some m \<Rightarrow> m)"
  have p: "p \<noteq> reporterId report" and fresh: "\<not> map_has rs (reporterId report)"
    and q: "\<not> length (map_set rs (reporterId report) now) < fc_quorum c"
    using assms(1) unfolding observe_failure_def Let_def rs_def by (auto simp only: fst_conv split: if_splits)
  have "rs \<noteq> []" using q assms(2) by (cases rs) auto
  then obtain reporter t where rt: "(reporter, t) \<in> set rs" by (metis list.set_intros(1) neq_Nil_conv surj_pair)
  have "reporter \<noteq> reporterId report" using weak_map_of_SomeI[OF rt] fresh unfolding map_has_def by auto
  moreover have "(reporter, t) \<in> set (case map_get (fc_observations c) (observation_key b p (failure_reason report)) of
       None \<Rightarrow> [] | Some m \<Rightarrow> m)" and "now - t < fc_windowMs c"
    using rt unfolding rs_def by simp_all
  ultimately show ?thesis using p by blast
qed

text \<open>One reporter cannot penalise a peer: a failure report changes a peer's quality only if
  another peer reported the same kind of failure of that peer within the last minute, and
  neither report is the peer's own. Ids are assumed not to contain the NUL separator.\<close>

theorem penalty_needs_two_reporters:
  assumes "fst (observe_failure b p report now
      (fold observe_event history (new_consensus DEFAULT_FAILURE_QUORUM DEFAULT_FAILURE_WINDOW_MS)))"
    "list_all plain_ids ((b, p, report, now) # history)"
  shows "reporterId report \<noteq> p \<and> list_ex (\<lambda>(b', p', report', t). b' = b \<and> p' = p \<and>
     failure_reason report' = failure_reason report \<and> now - t < 60000 \<and>
     reporterId report' \<noteq> reporterId report \<and> reporterId report' \<noteq> p) history"
proof -
  let ?c = "fold observe_event history (new_consensus DEFAULT_FAILURE_QUORUM DEFAULT_FAILURE_WINDOW_MS)"
  have "fc_quorum ?c = 2" "fc_windowMs ?c = 60000"
    using quorum_kept[of history] by (simp_all add: new_consensus_def DEFAULT_FAILURE_QUORUM_def DEFAULT_FAILURE_WINDOW_MS_def)
  with agreed_other[OF assms(1)] obtain reporter t where
    p: "p \<noteq> reporterId report" "now - t < 60000" "reporter \<noteq> reporterId report"
    and rt: "(reporter, t) \<in> set (case map_get (fc_observations ?c) (observation_key b p (failure_reason report)) of
       None \<Rightarrow> [] | Some m \<Rightarrow> m)" by auto
  obtain b' p' report' where e: "(b', p', report', t) \<in> set history"
    "observation_key b p (failure_reason report) = observation_key b' p' (failure_reason report')"
    "reporterId report' = reporter" "reporter \<noteq> p'"
    using explained_get[OF explained_history rt] by auto
  have "plain_ids (b', p', report', t)" "plain_ids (b, p, report, now)"
    using assms(2) e(1) by (auto simp: list_all_iff)
  with observation_key_inject[OF _ _ _ _ e(2)] have "b' = b" "p' = p" "failure_reason report' = failure_reason report"
    by (auto simp: plain_ids_def)
  with p e show ?thesis by (auto simp: list_ex_iff intro!: bexI[OF _ e(1)])
qed

definition sample_failure :: "string \<Rightarrow> PeerFailureReport" where
  "sample_failure r = \<lparr>reporterId = r, failure_reason = IntegrityFailure\<rparr>"

theorem penalty_needs_two_reporters_witness:
  "reporterId (sample_failure ''c'') \<noteq> ''a'' \<and> list_ex (\<lambda>(b', p', report', t). b' = ''live'' \<and> p' = ''a'' \<and>
     failure_reason report' = failure_reason (sample_failure ''c'') \<and> (1000 :: int) - t < 60000 \<and>
     reporterId report' \<noteq> reporterId (sample_failure ''c'') \<and> reporterId report' \<noteq> ''a'')
     [(''live'', ''a'', sample_failure ''b'', 0)]"
  by (rule penalty_needs_two_reporters) 
    (simp_all add: observe_event_def observe_failure_def new_consensus_def sample_failure_def observation_key_def
      DEFAULT_FAILURE_QUORUM_def DEFAULT_FAILURE_WINDOW_MS_def map_has_def plain_ids_def)

section \<open>Joins and leaves as a directory\<close>

datatype 'r membership_op = Join 'r | Leave string

locale peer_directory =
  fixes join :: "'r \<Rightarrow> 's \<Rightarrow> 's" and leave :: "string \<Rightarrow> 's \<Rightarrow> 's" and present :: "string \<Rightarrow> 's \<Rightarrow> bool"
    and id_of :: "'r \<Rightarrow> string" and inv :: "'s \<Rightarrow> bool"
  assumes join_inv: "inv s \<Longrightarrow> inv (join r s)"
    and leave_inv: "inv s \<Longrightarrow> inv (leave p s)"
    and present_join: "inv s \<Longrightarrow> present q (join r s) \<longleftrightarrow> q = id_of r \<or> present q s"
    and present_leave: "inv s \<Longrightarrow> present q (leave p s) \<longleftrightarrow> q \<noteq> p \<and> present q s"
begin

primrec run :: "'r membership_op \<Rightarrow> 's \<Rightarrow> 's" where
  "run (Join r) s = join r s"
| "run (Leave p) s = leave p s"

primrec track :: "string \<Rightarrow> 'r membership_op \<Rightarrow> bool \<Rightarrow> bool" where
  "track q (Join r) b = (b \<or> q = id_of r)"
| "track q (Leave p) b = (b \<and> q \<noteq> p)"

lemma run_step: "inv s \<Longrightarrow> inv (run op s) \<and> present q (run op s) = track q op (present q s)"
  by (cases op) (auto simp: join_inv leave_inv present_join present_leave)

lemma run_tracked:
  "inv s \<Longrightarrow> inv (fold run ops s) \<and> present q (fold run ops s) = fold (track q) ops (present q s)"
proof (induction ops arbitrary: s)
  case (Cons op ops)
  with run_step[of s op q] Cons.IH[of "run op s"] show ?case by simp
qed simp

end

definition store_join :: "string \<Rightarrow> PeerJoinRequest \<times> int \<Rightarrow> TrackerStore \<Rightarrow> TrackerStore" where
  "store_join b r s = kept (map_sum id snd (joinPeerDetailed b (fst r) None (snd r) s)) s"

definition store_leave :: "string \<Rightarrow> string \<Rightarrow> TrackerStore \<Rightarrow> TrackerStore" where
  "store_leave b p s = kept (leavePeer b p s) s"

definition listed :: "string \<Rightarrow> string \<Rightarrow> TrackerStore \<Rightarrow> bool" where
  "listed b p s \<longleftrightarrow> getPeer b p s \<noteq> None"

lemma join_result:
  assumes "map_get (ts_broadcasts s) b = Some state"
  shows "\<exists>st. store_join b r s = put_broadcast b (state\<lparr>bs_peers := map_set (bs_peers state) (join_id (fst r)) st\<rparr>) s"
  using assms by (auto simp: store_join_def kept_def joinPeerDetailed_def requireBroadcast_def Let_def put_peer_def
      split: sum.splits option.splits if_splits)

lemma leave_result:
  assumes "map_get (ts_broadcasts s) b = Some state"
  shows "store_leave b p s = (case map_get (bs_peers state) p of None \<Rightarrow> s
     | Some st \<Rightarrow> put_broadcast b (retire_peer p st state) s)"
  using assms by (auto simp: store_leave_def kept_def leavePeer_def requireBroadcast_def split: option.splits)

interpretation store_directory: peer_directory "store_join b" "store_leave b" "listed b" "\<lambda>r. join_id (fst r)"
    "\<lambda>s. map_get (ts_broadcasts s) b \<noteq> None"
proof unfold_locales
  fix s :: TrackerStore and r p q
  assume "map_get (ts_broadcasts s) b \<noteq> None"
  then obtain state where state: "map_get (ts_broadcasts s) b = Some state" by blast
  obtain st where j: "store_join b r s = put_broadcast b (state\<lparr>bs_peers := map_set (bs_peers state) (join_id (fst r)) st\<rparr>) s"
    using join_result[OF state] by blast
  show "map_get (ts_broadcasts (store_join b r s)) b \<noteq> None"
    by (simp add: j put_broadcast_def get_set)
  show "listed b q (store_join b r s) \<longleftrightarrow> q = join_id (fst r) \<or> listed b q s"
    by (simp add: j listed_def getPeer_def put_broadcast_def get_set state)
  show "map_get (ts_broadcasts (store_leave b p s)) b \<noteq> None"
    by (simp add: leave_result[OF state] put_broadcast_def get_set state split: option.split)
  show "listed b q (store_leave b p s) \<longleftrightarrow> q \<noteq> p \<and> listed b q s"
    by (auto simp: leave_result[OF state] listed_def getPeer_def put_broadcast_def get_set get_delete retire_peer_def state
        split: option.split)
qed

text \<open>Membership is tracked exactly: after any sequence of joins and leaves of a registered
  broadcast, a peer is listed if and only if its last join came after its last leave (or it was
  listed before and never left).\<close>

theorem membership_tracked:
  assumes "map_get (ts_broadcasts s) b = Some state"
  shows "(getPeer b q (fold (\<lambda>op. case op of Join r \<Rightarrow> store_join b r | Leave p \<Rightarrow> store_leave b p) ops s) \<noteq> None) =
    fold (\<lambda>op listed. case op of Join r \<Rightarrow> listed \<or> q = join_id (fst r) | Leave p \<Rightarrow> listed \<and> q \<noteq> p) ops
      (getPeer b q s \<noteq> None)"
proof -
  have "store_directory.run b op = (case op of Join r \<Rightarrow> store_join b r | Leave p \<Rightarrow> store_leave b p)"
    "store_directory.track q op = (\<lambda>listed. case op of Join r \<Rightarrow> listed \<or> q = join_id (fst r) | Leave p \<Rightarrow> listed \<and> q \<noteq> p)" for op
    by (cases op; auto intro!: ext)+
  then have "store_directory.run b = (\<lambda>op. case op of Join r \<Rightarrow> store_join b r | Leave p \<Rightarrow> store_leave b p)"
    "store_directory.track q = (\<lambda>op listed. case op of Join r \<Rightarrow> listed \<or> q = join_id (fst r) | Leave p \<Rightarrow> listed \<and> q \<noteq> p)"
    by blast+
  with store_directory.run_tracked[where s = s and b = b and q = q and ops = ops] assms show ?thesis
    by (simp add: listed_def)
qed

theorem membership_tracked_witness:
  "(getPeer ''live'' ''a'' (fold (\<lambda>op. case op of Join r \<Rightarrow> store_join ''live'' r | Leave p \<Rightarrow> store_leave ''live'' p)
      [Leave ''a'', Join (sample_join ''b'', 3)] ((new_store 2)\<lparr>ts_broadcasts := [(''live'', sample_state)]\<rparr>)) \<noteq> None) = False"
  using membership_tracked[of "(new_store 2)\<lparr>ts_broadcasts := [(''live'', sample_state)]\<rparr>" "''live''" sample_state "''a''"
      "[Leave ''a'', Join (sample_join ''b'', 3)]"]
  by (simp add: sample_join_def)

section \<open>Joins\<close>

text \<open>A join fails exactly when the broadcast is unknown or a new peer finds it full; otherwise
  the peer is stored as returned, a rejoining peer keeps its inventory, join time, measured
  quality and counters, and no other peer of the broadcast changes.\<close>

theorem join_functional:
  "case joinPeerDetailed b request maxPeers now s of
     Inl e \<Rightarrow> (case map_get (ts_broadcasts s) b of None \<Rightarrow> e = BroadcastNotFound b
       | Some state \<Rightarrow> e = PeerLimitReached \<and> map_get (bs_peers state) (join_id request) = None \<and>
           (\<exists>limit. maxPeers = Some limit \<and> limit \<le> nat_number (length (bs_peers state))))
   | Inr ((peer, again), s') \<Rightarrow> (case map_get (ts_broadcasts s) b of None \<Rightarrow> False
       | Some state \<Rightarrow> getPeer b (join_id request) s' = Some peer \<and> peer_lastSeenAt peer = now \<and>
           peer_address peer = join_address request \<and>
           (\<forall>q. q = join_id request \<or> getPeer b q s' = getPeer b q s) \<and>
           (case map_get (bs_peers state) (join_id request) of
              None \<Rightarrow> \<not> again \<and> peer_segments peer = [] \<and> peer_joinedAt peer = now
            | Some old \<Rightarrow> again \<and> peer_segments peer = peer_segments (ps_peer old) \<and>
                peer_joinedAt peer = peer_joinedAt (ps_peer old) \<and> peer_trustScore peer = peer_trustScore (ps_peer old) \<and>
                peer_successRate peer = peer_successRate (ps_peer old) \<and> peer_latencyMs peer = peer_latencyMs (ps_peer old) \<and>
                (case map_get (ts_broadcasts s') b of None \<Rightarrow> False | Some state' \<Rightarrow>
                   map_option ps_stats (map_get (bs_peers state') (join_id request)) = Some (ps_stats old))))"
  by (auto simp: joinPeerDetailed_def requireBroadcast_def Let_def getPeer_def put_peer_def put_broadcast_def get_set
      joined_peer_def split: option.splits if_splits)

end
