(* ===== verification/TrackerAccess.thy ===== *)
theory TrackerAccess
  imports Common
begin

text \<open>
  Who talks to the tracker: the client address behind trusted proxies
  (\<^verbatim>\<open>tracker/src/client-address.ts\<close>), API keys (\<^verbatim>\<open>tracker/src/api-key.ts\<close>), peer session tokens and
  bearer headers (\<^verbatim>\<open>tracker/src/peer-session.ts\<close>), and TURN credentials
  (\<^verbatim>\<open>tracker/src/turn-credentials.ts\<close>). The keyed hashes of \<^verbatim>\<open>node:crypto\<close> and the base64url text of
  a token payload are arguments.
\<close>

section \<open>Buffers\<close>

text \<open>\<^verbatim>\<open>Buffer.from(s)\<close>: the UTF-8 bytes of a string of 8-bit code units.\<close>

definition utf8 :: "string \<Rightarrow> nat list" where
  "utf8 s = concat (map (\<lambda>c. let n = of_char c in
     if n < 128 then [n] else [192 + n div 64, 128 + n mod 64]) s)"

definition apiKeysMatch :: "string \<Rightarrow> string \<Rightarrow> bool" where
  "apiKeysMatch expected provided =
     (let expectedBytes = utf8 expected; providedBytes = utf8 provided in
      length expectedBytes = length providedBytes \<and> expectedBytes = providedBytes)"

section \<open>Client addresses\<close>

text \<open>\<^verbatim>\<open>/^\[([^\]]+)\](?::\d+)?$/\<close>\<close>

definition bracketed :: "string \<Rightarrow> string option" where
  "bracketed hop = (case hop of
     [] \<Rightarrow> None
   | c # cs \<Rightarrow>
       (let inner = takeWhile (\<lambda>x. x \<noteq> CHR '']'') cs; rest = dropWhile (\<lambda>x. x \<noteq> CHR '']'') cs in
        if c = CHR ''['' \<and> inner \<noteq> [] \<and> rest \<noteq> [] \<and>
           (case tl rest of [] \<Rightarrow> True
            | d # ds \<Rightarrow> d = CHR '':'' \<and> ds \<noteq> [] \<and> list_all is_digit ds)
        then Some inner else None))"

text \<open>\<^verbatim>\<open>/^(\d{1,3}(?:\.\d{1,3}){3}):\d+$/\<close>\<close>

definition ipv4WithPort :: "string \<Rightarrow> string option" where
  "ipv4WithPort hop = (case js_split CHR '':'' hop of
     [ip, port] \<Rightarrow>
       (let parts = js_split CHR ''.'' ip in
        if length parts = 4 \<and>
           list_all (\<lambda>p. 1 \<le> length p \<and> length p \<le> 3 \<and> list_all is_digit p) parts \<and>
           port \<noteq> [] \<and> list_all is_digit port
        then Some ip else None)
   | _ \<Rightarrow> None)"

definition withoutPort :: "string \<Rightarrow> string" where
  "withoutPort hop = (case bracketed hop of
     Some address \<Rightarrow> address
   | None \<Rightarrow> (case ipv4WithPort hop of Some address \<Rightarrow> address | None \<Rightarrow> hop))"

datatype http_header = NoHeader | OneHeader string | ManyHeaders "string list"

fun header_text :: "http_header \<Rightarrow> string" where
  "header_text NoHeader = []"
| "header_text (OneHeader s) = s"
| "header_text (ManyHeaders ss) = js_join '','' ss"

definition forwarded_hops :: "string \<Rightarrow> string list" where
  "forwarded_hops text =
     filter (\<lambda>hop. hop \<noteq> []) (map (\<lambda>hop. withoutPort (js_trim hop)) (js_split CHR '','' text))"

definition clientAddress :: "string option \<Rightarrow> http_header \<Rightarrow> nat \<Rightarrow> string" where
  "clientAddress remoteAddress forwardedFor trustedProxyHops =
     (let socketAddress = (case remoteAddress of None \<Rightarrow> ''unknown'' | Some a \<Rightarrow> a) in
      if trustedProxyHops = 0 then socketAddress
      else
        (let hops = forwarded_hops (header_text forwardedFor) in
         case at_end hops trustedProxyHops of
           Some hop \<Rightarrow> hop
         | None \<Rightarrow> (case hops of hop # _ \<Rightarrow> hop | [] \<Rightarrow> socketAddress)))"

section \<open>Peer sessions\<close>

record PeerSessionClaims =
  claim_broadcastId :: string
  claim_peerId :: string
  claim_expiresAt :: int

record PeerSessionTokenService =
  pst_secret :: string
  pst_ttlMs :: int

datatype session_error = SecretTooShort | InvalidTtl

definition new_session_service ::
    "string \<Rightarrow> number \<Rightarrow> (session_error, PeerSessionTokenService) result" where
  "new_session_service secret ttlMs =
     (if length (utf8 secret) < 32 then throw SecretTooShort
      else if \<not> isSafeInteger ttlMs \<or> ttlMs \<le> 0 then throw InvalidTtl
      else return \<lparr>pst_secret = secret,
             pst_ttlMs = (case ttlMs of Num q \<Rightarrow> \<lfloor>q\<rfloor> | _ \<Rightarrow> 0)\<rparr>)"

text \<open>The payload object, and what \<^verbatim>\<open>decodePayload\<close> accepts. \<open>decode_json\<close> stands for
  \<^verbatim>\<open>JSON.parse(Buffer.from(encoded, "base64url").toString("utf8"))\<close>, \<^theory_text>\<open>None\<close> when it throws.\<close>

definition payload_value :: "PeerSessionClaims \<Rightarrow> jsval" where
  "payload_value claims = Object
     [(''v'', Number 1), (''broadcastId'', Str (claim_broadcastId claims)),
      (''peerId'', Str (claim_peerId claims)), (''expiresAt'', Number (int_number (claim_expiresAt claims)))]"

definition decodePayload :: "(string \<Rightarrow> jsval option) \<Rightarrow> string \<Rightarrow> PeerSessionClaims option" where
  "decodePayload decode_json encoded = (case decode_json encoded of
     None \<Rightarrow> None
   | Some payload \<Rightarrow>
       if \<not> isRecord payload then None
       else
         (case (get_prop payload ''v'', get_prop payload ''broadcastId'',
                get_prop payload ''peerId'', get_prop payload ''expiresAt'') of
            (Number v, Str broadcastId, Str peerId, Number expiresAt) \<Rightarrow>
              if v \<noteq> 1 \<or> broadcastId = [] \<or> peerId = [] \<or> \<not> isSafeInteger expiresAt then None
              else Some \<lparr>claim_broadcastId = broadcastId, claim_peerId = peerId,
                     claim_expiresAt = (case expiresAt of Num q \<Rightarrow> \<lfloor>q\<rfloor> | _ \<Rightarrow> 0)\<rparr>
          | _ \<Rightarrow> None))"

text \<open>\<open>encode_json\<close> stands for base64url of \<^verbatim>\<open>JSON.stringify\<close>, \<open>hmac\<close> for the base64url
  HMAC-SHA-256 of a payload under a secret.\<close>

definition session_issue ::
    "(string \<Rightarrow> string \<Rightarrow> string) \<Rightarrow> (jsval \<Rightarrow> string) \<Rightarrow> string \<Rightarrow> string \<Rightarrow> int \<Rightarrow>
     PeerSessionTokenService \<Rightarrow> string \<times> int" where
  "session_issue hmac encode_json broadcastId peerId now service =
     (let expiresAt = now + pst_ttlMs service;
          payload = encode_json (payload_value \<lparr>claim_broadcastId = broadcastId,
            claim_peerId = peerId, claim_expiresAt = expiresAt\<rparr>) in
      (payload @ ''.'' @ hmac (pst_secret service) payload, expiresAt))"

definition session_verify ::
    "(string \<Rightarrow> string \<Rightarrow> string) \<Rightarrow> (string \<Rightarrow> jsval option) \<Rightarrow> string option \<Rightarrow> int \<Rightarrow>
     PeerSessionTokenService \<Rightarrow> PeerSessionClaims option" where
  "session_verify hmac decode_json token now service =
     (case token of
        None \<Rightarrow> None
      | Some t \<Rightarrow>
          if t = [] then None
          else (case js_split CHR ''.'' t of
            [payload, suppliedSignature] \<Rightarrow>
              if payload = [] \<or> suppliedSignature = [] then None
              else
                (let supplied = utf8 suppliedSignature;
                     expected = utf8 (hmac (pst_secret service) payload) in
                 if length supplied \<noteq> length expected \<or> supplied \<noteq> expected then None
                 else
                   (case decodePayload decode_json payload of
                      None \<Rightarrow> None
                    | Some claims \<Rightarrow> if claim_expiresAt claims \<le> now then None else Some claims))
          | _ \<Rightarrow> None))"

text \<open>\<^verbatim>\<open>/^Bearer\s+([^\s]+)$/i\<close>; a repeated header is not a string.\<close>

definition bearerToken :: "http_header \<Rightarrow> string option" where
  "bearerToken authorization = (case authorization of
     OneHeader s \<Rightarrow>
       (let rest = drop 6 s; token = dropWhile is_space rest in
        if to_lower (take 6 s) = ''bearer'' \<and> takeWhile is_space rest \<noteq> [] \<and> token \<noteq> [] \<and>
           list_all (\<lambda>c. \<not> is_space c) token
        then Some token else None)
   | _ \<Rightarrow> None)"

section \<open>TURN credentials\<close>

record TurnIceServer =
  turn_urls :: "string list"
  turn_username :: string
  turn_credential :: string

text \<open>\<open>hmac_sha1\<close> is the base64 HMAC-SHA-1.\<close>

definition issueTurnCredentials ::
    "(string \<Rightarrow> string \<Rightarrow> string) \<Rightarrow> string list \<Rightarrow> string \<Rightarrow> string \<Rightarrow> nat \<Rightarrow> TurnIceServer" where
  "issueTurnCredentials hmac_sha1 urls sharedSecret peerId expiresAtMs =
     (let username = nat_string (expiresAtMs div 1000) @ '':'' @ peerId in
      \<lparr>turn_urls = urls, turn_username = username, turn_credential = hmac_sha1 sharedSecret username\<rparr>)"

section \<open>Laws\<close>

lemma utf8_Cons: "utf8 (c # s) =
    (if of_char c < (128 :: nat) then [of_char c] else [192 + of_char c div 64, 128 + of_char c mod 64]) @ utf8 s"
  by (simp add: utf8_def Let_def)

lemma utf8_Nil [simp]: "utf8 [] = []"
  by (simp add: utf8_def)

lemma utf8_inject: "utf8 s = utf8 t \<longleftrightarrow> s = t"
proof (induction s arbitrary: t)
  case Nil
  show ?case by (cases t) (auto simp: utf8_Cons)
next
  case (Cons c s)
  show ?case
  proof (cases t)
    case (Cons d t')
    have inj: "of_char c = (of_char d :: nat) \<longleftrightarrow> c = d" by (rule of_char_eq_iff)
    have "of_char c = (of_char d :: nat)" if "\<not> of_char c < (128 :: nat)" "\<not> of_char d < (128 :: nat)"
      "(of_char c :: nat) div 64 = of_char d div 64" "(of_char c :: nat) mod 64 = of_char d mod 64"
      using that by (metis div_mult_mod_eq)
    then show ?thesis using Cons.IH[of t'] inj by (auto simp: Cons utf8_Cons)
  qed (simp add: utf8_Cons)
qed

lemma api_keys_match_iff: "apiKeysMatch expected provided \<longleftrightarrow> expected = provided"
  by (auto simp: apiKeysMatch_def utf8_inject)

lemma split_append_sep: "js_split c (s @ c # t) = js_split c s @ js_split c t"
proof (induction s)
  case (Cons x s)
  then show ?case by (cases "js_split c s") auto
qed simp

lemma forwarded_hops_append: "forwarded_hops (s @ CHR '','' # t) = forwarded_hops s @ forwarded_hops t"
  by (simp add: forwarded_hops_def split_append_sep)

lemma at_end_append: "n \<le> length ys \<Longrightarrow> at_end (xs @ ys) n = at_end ys n"
  by (auto simp: at_end_def nth_append)

text \<open>The address used for limits depends only on what the trusted proxies appended: whatever a
  client writes in front of the header's last entries, one for every trusted hop, changes nothing.\<close>

theorem forged_hops_ignored:
  assumes "trusted \<le> length (forwarded_hops appended)"
  shows "clientAddress remote (OneHeader (forged @ '','' @ appended)) trusted =
    clientAddress remote (OneHeader appended) trusted"
proof (cases "trusted = 0")
  case False
  then have "at_end (forwarded_hops appended) trusted \<noteq> None" using assms by (simp add: at_end_def)
  then show ?thesis
    using assms by (auto simp: clientAddress_def Let_def forwarded_hops_append at_end_append split: option.split)
qed (simp add: clientAddress_def)

theorem forged_hops_ignored_witness:
  "clientAddress None (OneHeader ''1.1.1.1,[::1]:80, 10.0.0.9:443'') 1 = ''10.0.0.9''"
proof -
  have "1 \<le> length (forwarded_hops '' 10.0.0.9:443'')" by code_simp
  from forged_hops_ignored[OF this, of None "''1.1.1.1,[::1]:80''"]
  have "clientAddress None (OneHeader ''1.1.1.1,[::1]:80, 10.0.0.9:443'') 1 =
      clientAddress None (OneHeader '' 10.0.0.9:443'') 1" by simp
  also have "\<dots> = ''10.0.0.9''" by code_simp
  finally show ?thesis .
qed

text \<open>C35: A token that the session service issued verifies to the broadcast and peer it was issued
  for until it expires, and to nothing from then on. Assumed are the documented behaviours of the
  library: base64url text and digests are non-empty and contain no dot, and decoding an encoded
  payload returns it.\<close>

theorem session_roundtrip:
  assumes claims: "claims = \<lparr>claim_broadcastId = broadcastId, claim_peerId = peerId,
      claim_expiresAt = now + pst_ttlMs service\<rparr>"
    and "encode_json (payload_value claims) \<noteq> []" "CHR ''.'' \<notin> set (encode_json (payload_value claims))"
    and "\<And>p. hmac (pst_secret service) p \<noteq> [] \<and> CHR ''.'' \<notin> set (hmac (pst_secret service) p)"
    and "decode_json (encode_json (payload_value claims)) = Some (payload_value claims)"
    and "broadcastId \<noteq> []" "peerId \<noteq> []" "\<bar>now + pst_ttlMs service\<bar> \<le> 2 ^ 53 - 1"
  shows "session_verify hmac decode_json (Some (fst (session_issue hmac encode_json broadcastId peerId now service)))
      later service = (if later < now + pst_ttlMs service then Some claims else None)"
proof -
  define payload where "payload = encode_json (payload_value claims)"
  define signature where "signature = hmac (pst_secret service) payload"
  have parts: "payload \<noteq> []" "signature \<noteq> []" "CHR ''.'' \<notin> set payload" "CHR ''.'' \<notin> set signature"
    using assms(2,3,4) by (auto simp: payload_def signature_def)
  have "\<bar>rat_of_int (now + pst_ttlMs service)\<bar> \<le> of_int (2 ^ 53 - 1)"
    unfolding of_int_abs[symmetric] of_int_le_iff by (rule assms(8))
  then have "isSafeInteger (int_number (claim_expiresAt claims))" by (simp add: claims)
  moreover have "decode_json payload = Some (payload_value claims)" using assms(5) by (simp add: payload_def)
  ultimately have decoded: "decodePayload decode_json payload = Some claims"
    using assms(6,7) by (simp add: decodePayload_def payload_value_def claims)
  have "js_split CHR ''.'' (payload @ CHR ''.'' # signature) = [payload, signature]"
    using parts by (simp add: js_split_append js_split_no_sep)
  moreover have "fst (session_issue hmac encode_json broadcastId peerId now service) = payload @ CHR ''.'' # signature"
    by (simp add: session_issue_def Let_def payload_def signature_def claims)
  moreover have "claim_expiresAt claims = now + pst_ttlMs service" by (simp add: claims)
  ultimately show ?thesis
    using parts(1,2) decoded by (simp add: session_verify_def Let_def signature_def[symmetric])
qed

definition sample_service :: PeerSessionTokenService where
  "sample_service = \<lparr>pst_secret = replicate 32 CHR ''k'', pst_ttlMs = 1000\<rparr>"

definition sample_claims :: PeerSessionClaims where
  "sample_claims = \<lparr>claim_broadcastId = ''b'', claim_peerId = ''p'', claim_expiresAt = 1005\<rparr>"

theorem session_roundtrip_witness:
  "session_verify (\<lambda>k p. rev (''sig'' @ p)) (\<lambda>s. if s = ''payload'' then Some (payload_value sample_claims) else None)
     (Some ''payload.daolyapgis'') 1004 sample_service = Some sample_claims"
proof -
  let ?encode = "\<lambda>v. if v = payload_value sample_claims then ''payload'' else []"
  let ?hmac = "\<lambda>k p. if p = ''payload'' then rev (''sig'' @ p) else ''none''"
  have "session_verify ?hmac (\<lambda>s. if s = ''payload'' then Some (payload_value sample_claims) else None)
      (Some (fst (session_issue ?hmac ?encode ''b'' ''p'' 5 sample_service))) 1004 sample_service = Some sample_claims"
    by (subst session_roundtrip[where claims = sample_claims])
      (simp_all add: sample_claims_def sample_service_def)
  then show ?thesis
    by (simp add: session_issue_def session_verify_def sample_service_def sample_claims_def Let_def)
qed

end
