(* ===== verification/NeighborViews.thy ===== *)
theory NeighborViews
  imports JsNumber Prelude
begin

text \<open>
  Bounded neighbor views per broadcast (\<^verbatim>\<open>tracker/src/neighbor-views.ts\<close>): which peers every
  member sees, the inverse index of watchers, and the member list that fills sample in place.
  The source of random numbers is an argument: it threads a generator state of any type and
  returns what \<^verbatim>\<open>Math.random\<close> documents, a number of the half-open unit interval.
\<close>

section \<open>State\<close>

record BroadcastViews =
  bv_views :: "(string, string list) jsmap"
  bv_watchers :: "(string, string list) jsmap"
  bv_members :: "string list"
  bv_positions :: "(string, nat) jsmap"

record NeighborViews =
  nv_size :: nat
  nv_broadcasts :: "(string, BroadcastViews) jsmap"

record NeighborViewFill =
  fill_added :: "string list"
  fill_reciprocal :: "string list"
  fill_evicted :: "(string \<times> string) list"

type_synonym 'g random = "'g \<Rightarrow> number \<times> 'g"

definition new_views :: "nat \<Rightarrow> NeighborViews" where
  "new_views limit = \<lparr>nv_size = limit, nv_broadcasts = []\<rparr>"

definition empty_fill :: NeighborViewFill where
  "empty_fill = \<lparr>fill_added = [], fill_reciprocal = [], fill_evicted = []\<rparr>"

definition views_has :: "string \<Rightarrow> NeighborViews \<Rightarrow> bool" where
  "views_has broadcastId nv = map_has (nv_broadcasts nv) broadcastId"

definition broadcastViews :: "string \<Rightarrow> NeighborViews \<Rightarrow> BroadcastViews" where
  "broadcastViews broadcastId nv = (case map_get (nv_broadcasts nv) broadcastId of
     None \<Rightarrow> \<lparr>bv_views = [], bv_watchers = [], bv_members = [], bv_positions = []\<rparr>
   | Some b \<Rightarrow> b)"

definition add_member :: "string \<Rightarrow> BroadcastViews \<Rightarrow> BroadcastViews" where
  "add_member peerId b =
     (if map_has (bv_positions b) peerId then b
      else b\<lparr>bv_positions := map_set (bv_positions b) peerId (length (bv_members b)),
             bv_members := bv_members b @ [peerId],
             bv_views := map_set (bv_views b) peerId [],
             bv_watchers := map_set (bv_watchers b) peerId []\<rparr>)"

definition views_add :: "string \<Rightarrow> string \<Rightarrow> NeighborViews \<Rightarrow> NeighborViews" where
  "views_add broadcastId peerId nv =
     nv\<lparr>nv_broadcasts := map_set (nv_broadcasts nv) broadcastId
          (add_member peerId (broadcastViews broadcastId nv))\<rparr>"

definition views_view :: "string \<Rightarrow> string \<Rightarrow> NeighborViews \<Rightarrow> string list option" where
  "views_view broadcastId peerId nv = (case map_get (nv_broadcasts nv) broadcastId of
     None \<Rightarrow> None | Some b \<Rightarrow> map_get (bv_views b) peerId)"

section \<open>Links\<close>

definition view_of :: "BroadcastViews \<Rightarrow> string \<Rightarrow> string list" where
  "view_of b peerId = (case map_get (bv_views b) peerId of None \<Rightarrow> [] | Some v \<Rightarrow> v)"

definition watchers_of :: "BroadcastViews \<Rightarrow> string \<Rightarrow> string list" where
  "watchers_of b peerId = (case map_get (bv_watchers b) peerId of None \<Rightarrow> [] | Some v \<Rightarrow> v)"

definition hasRoom :: "nat \<Rightarrow> BroadcastViews \<Rightarrow> string \<Rightarrow> bool" where
  "hasRoom limit b peerId \<longleftrightarrow> length (view_of b peerId) < limit"

definition link :: "string \<Rightarrow> string \<Rightarrow> BroadcastViews \<Rightarrow> BroadcastViews" where
  "link source target b =
     b\<lparr>bv_views := map_adjust (bv_views b) source (set_add target),
       bv_watchers := map_adjust (bv_watchers b) target (set_add source)\<rparr>"

definition unlink :: "string \<Rightarrow> string \<Rightarrow> BroadcastViews \<Rightarrow> BroadcastViews" where
  "unlink source target b =
     b\<lparr>bv_views := map_adjust (bv_views b) source (set_delete target),
       bv_watchers := map_adjust (bv_watchers b) target (set_delete source)\<rparr>"

text \<open>\<^verbatim>\<open>Math.floor(this.random() * n)\<close>\<close>

definition draw_index :: "number \<Rightarrow> nat \<Rightarrow> nat" where
  "draw_index r n = (case math_floor (r * nat_number n) of Num q \<Rightarrow> nat \<lfloor>q\<rfloor> | _ \<Rightarrow> 0)"

definition randomNeighbor :: "'g random \<Rightarrow> BroadcastViews \<Rightarrow> string \<Rightarrow> 'g \<Rightarrow> string option \<times> 'g" where
  "randomNeighbor random b peerId g =
     (let neighbors = view_of b peerId in
      case random g of (r, g') \<Rightarrow>
        (let index = draw_index r (length neighbors) in
         (if index < length neighbors then Some (neighbors ! index) else None, g')))"

section \<open>Filling a view\<close>

text \<open>The sampling loop of \<^verbatim>\<open>fill\<close>: a partial Fisher-Yates shuffle of the member list that sorts
  the candidates it meets into those with room in their own view and those without.\<close>

record 'g Sampling =
  sm_members :: "string list"
  sm_positions :: "(string, nat) jsmap"
  sm_withRoom :: "string list"
  sm_full :: "string list"
  sm_random :: 'g

definition sample_swap :: "'g random \<Rightarrow> nat \<Rightarrow> 'g Sampling \<Rightarrow> string \<times> 'g Sampling" where
  "sample_swap random index s =
     (case random (sm_random s) of (r, g) \<Rightarrow>
       (let swap = index + draw_index r (length (sm_members s) - index);
            candidate = sm_members s ! swap;
            displaced = sm_members s ! index in
        (candidate,
         s\<lparr>sm_members := (sm_members s)[swap := displaced, index := candidate],
           sm_positions := map_set (map_set (sm_positions s) displaced swap) candidate index,
           sm_random := g\<rparr>)))"

definition sample_member ::
    "'g random \<Rightarrow> nat \<Rightarrow> BroadcastViews \<Rightarrow> string \<Rightarrow> nat \<Rightarrow> 'g Sampling \<Rightarrow> 'g Sampling" where
  "sample_member random limit b peerId index s =
     (case sample_swap random index s of (candidate, s') \<Rightarrow>
        if candidate = peerId \<or> candidate \<in> set (view_of b peerId) then s'
        else if hasRoom limit b candidate then s'\<lparr>sm_withRoom := sm_withRoom s' @ [candidate]\<rparr>
        else s'\<lparr>sm_full := sm_full s' @ [candidate]\<rparr>)"

lemma sample_member_length [simp]:
  "length (sm_members (sample_member random limit b peerId index s)) = length (sm_members s)"
  by (auto simp: sample_member_def sample_swap_def Let_def split: prod.splits)

function sample_members ::
    "'g random \<Rightarrow> nat \<Rightarrow> BroadcastViews \<Rightarrow> string \<Rightarrow> nat \<Rightarrow> nat \<Rightarrow> nat \<Rightarrow> 'g Sampling \<Rightarrow> 'g Sampling" where
  "sample_members random limit b peerId wanted budget index s =
     (if index < length (sm_members s) \<and> length (sm_withRoom s) < wanted \<and> index < budget
      then sample_members random limit b peerId wanted budget (Suc index)
             (sample_member random limit b peerId index s)
      else s)"
  by pat_completeness auto
termination
  by (relation "measure (\<lambda>(_, _, _, _, _, _, index, s). length (sm_members s) - index)") auto

declare sample_members.simps [simp del]

text \<open>The linking loop of \<^verbatim>\<open>fill\<close>: every link is made mutual, a full candidate drops a random
  neighbor.\<close>

fun link_candidates ::
    "'g random \<Rightarrow> nat \<Rightarrow> string \<Rightarrow> string list \<Rightarrow> BroadcastViews \<times> NeighborViewFill \<times> 'g \<Rightarrow>
     BroadcastViews \<times> NeighborViewFill \<times> 'g" where
  "link_candidates random limit peerId [] st = st"
| "link_candidates random limit peerId (candidate # rest) (b, filled, g) =
     (if limit \<le> length (view_of b peerId) then (b, filled, g)
      else
        (let b1 = link peerId candidate b;
             filled1 = filled\<lparr>fill_added := fill_added filled @ [candidate]\<rparr> in
         link_candidates random limit peerId rest
           (if peerId \<in> set (view_of b1 candidate) then (b1, filled1, g)
            else if hasRoom limit b1 candidate then
              (link candidate peerId b1,
               filled1\<lparr>fill_reciprocal := fill_reciprocal filled1 @ [candidate]\<rparr>, g)
            else
              (case randomNeighbor random b1 candidate g of
                 (None, g') \<Rightarrow> (b1, filled1, g')
               | (Some dropped, g') \<Rightarrow>
                   (link candidate peerId (unlink candidate dropped b1),
                    filled1\<lparr>fill_evicted := fill_evicted filled1 @ [(candidate, dropped)],
                            fill_reciprocal := fill_reciprocal filled1 @ [candidate]\<rparr>, g')))))"

definition fill_budget :: "nat \<Rightarrow> nat \<Rightarrow> nat" where
  "fill_budget viewSize wanted = viewSize + 1 + max (wanted * 8) 64"

definition fill_broadcast ::
    "'g random \<Rightarrow> nat \<Rightarrow> string \<Rightarrow> BroadcastViews \<Rightarrow> 'g \<Rightarrow> BroadcastViews \<times> NeighborViewFill \<times> 'g" where
  "fill_broadcast random limit peerId b g =
     (if limit \<le> length (view_of b peerId) then (b, empty_fill, g)
      else
        (let wanted = limit - length (view_of b peerId);
             s = sample_members random limit b peerId wanted
                   (fill_budget (length (view_of b peerId)) wanted) 0
                   \<lparr>sm_members = bv_members b, sm_positions = bv_positions b, sm_withRoom = [],
                    sm_full = [], sm_random = g\<rparr> in
         link_candidates random limit peerId (sm_withRoom s @ sm_full s)
           (b\<lparr>bv_members := sm_members s, bv_positions := sm_positions s\<rparr>, empty_fill, sm_random s)))"

definition views_fill ::
    "'g random \<Rightarrow> string \<Rightarrow> string \<Rightarrow> NeighborViews \<Rightarrow> 'g \<Rightarrow> NeighborViewFill \<times> NeighborViews \<times> 'g" where
  "views_fill random broadcastId peerId nv g =
     (case map_get (nv_broadcasts nv) broadcastId of
        None \<Rightarrow> (empty_fill, nv, g)
      | Some b \<Rightarrow>
          (if map_get (bv_views b) peerId = None then (empty_fill, nv, g)
           else (case fill_broadcast random (nv_size nv) peerId b g of
             (b', filled, g') \<Rightarrow>
               (filled, nv\<lparr>nv_broadcasts := map_set (nv_broadcasts nv) broadcastId b'\<rparr>, g'))))"

section \<open>Leaving\<close>

definition drop_links :: "string \<Rightarrow> BroadcastViews \<Rightarrow> string list \<times> BroadcastViews" where
  "drop_links peerId b =
     (let b1 = b\<lparr>bv_watchers :=
            fold (\<lambda>n m. map_adjust m n (set_delete peerId)) (view_of b peerId) (bv_watchers b)\<rparr>;
          lost = watchers_of b1 peerId;
          b2 = b1\<lparr>bv_views :=
            fold (\<lambda>w m. map_adjust m w (set_delete peerId)) lost (bv_views b1)\<rparr> in
      (lost, b2\<lparr>bv_views := map_delete (bv_views b2) peerId,
                bv_watchers := map_delete (bv_watchers b2) peerId\<rparr>))"

definition drop_member :: "string \<Rightarrow> nat \<Rightarrow> BroadcastViews \<Rightarrow> BroadcastViews" where
  "drop_member peerId position b =
     (let final = last (bv_members b);
          b1 = b\<lparr>bv_members := butlast (bv_members b)\<rparr>;
          b2 = (if final \<noteq> peerId
                then b1\<lparr>bv_members := (bv_members b1)[position := final],
                        bv_positions := map_set (bv_positions b1) final position\<rparr>
                else b1) in
      b2\<lparr>bv_positions := map_delete (bv_positions b2) peerId\<rparr>)"

definition views_leave :: "string \<Rightarrow> string \<Rightarrow> NeighborViews \<Rightarrow> string list \<times> NeighborViews" where
  "views_leave broadcastId peerId nv =
     (case map_get (nv_broadcasts nv) broadcastId of
        None \<Rightarrow> ([], nv)
      | Some b \<Rightarrow>
          (case map_get (bv_positions b) peerId of
             None \<Rightarrow> ([], nv)
           | Some position \<Rightarrow>
               (case drop_links peerId b of
                  (lost, b1) \<Rightarrow>
                    (let b2 = drop_member peerId position b1 in
                     (lost, nv\<lparr>nv_broadcasts :=
                       (if bv_members b2 = [] then map_delete (nv_broadcasts nv) broadcastId
                        else map_set (nv_broadcasts nv) broadcastId b2)\<rparr>)))))"

definition views_remove :: "string \<Rightarrow> NeighborViews \<Rightarrow> NeighborViews" where
  "views_remove broadcastId nv = nv\<lparr>nv_broadcasts := map_delete (nv_broadcasts nv) broadcastId\<rparr>"

end
