(* ===== verification/NeighborSpec.thy ===== *)
theory NeighborSpec
  imports NeighborViews
begin

text \<open>
  Laws of the neighbor views: the member list and its index stay consistent under sampling, every
  view is a bounded set of other members with an exact inverse index, a fill reaches the view size
  or the whole audience, and its report is exactly the change of the links.
\<close>

section \<open>Invariants\<close>

definition random_ok :: "'g random \<Rightarrow> bool" where
  "random_ok random \<longleftrightarrow> (\<forall>g. \<exists>r. fst (random g) = Num r \<and> 0 \<le> r \<and> r \<le> 1 - 1 / 2 ^ 53)"

definition roster_ok :: "string list \<Rightarrow> (string, nat) jsmap \<Rightarrow> bool" where
  "roster_ok members positions \<longleftrightarrow> wf_map positions \<and> distinct members \<and>
     (\<forall>p i. map_get positions p = Some i \<longleftrightarrow> i < length members \<and> members ! i = p)"

definition sees :: "BroadcastViews \<Rightarrow> string \<Rightarrow> string \<Rightarrow> bool" where
  "sees b p q \<longleftrightarrow> q \<in> set (view_of b p)"

definition links_ok :: "nat \<Rightarrow> BroadcastViews \<Rightarrow> bool" where
  "links_ok limit b \<longleftrightarrow> wf_map (bv_views b) \<and> wf_map (bv_watchers b) \<and>
     set (map_keys (bv_views b)) = set (bv_members b) \<and>
     set (map_keys (bv_watchers b)) = set (bv_members b) \<and>
     (\<forall>p. distinct (view_of b p) \<and> distinct (watchers_of b p) \<and> length (view_of b p) \<le> limit) \<and>
     (\<forall>p q. sees b p q \<longleftrightarrow> p \<in> set (watchers_of b q)) \<and>
     (\<forall>p q. sees b p q \<longrightarrow> q \<in> set (bv_members b) \<and> q \<noteq> p)"

definition views_ok :: "nat \<Rightarrow> BroadcastViews \<Rightarrow> bool" where
  "views_ok limit b \<longleftrightarrow> roster_ok (bv_members b) (bv_positions b) \<and> links_ok limit b"

lemma draw_index_less:
  assumes "random_ok random" "0 < n" "n \<le> 2 ^ 53"
  shows "draw_index (fst (random g)) n < n"
proof -
  obtain r where r: "fst (random g) = Num r" "0 \<le> r" "r \<le> 1 - 1 / 2 ^ 53"
    using assms(1) unfolding random_ok_def by blast
  have "r * of_nat n \<le> of_nat n * (1 - 1 / 2 ^ 53)"
    using r(3) assms(2) by (metis mult.commute mult_left_mono of_nat_0_le_iff)
  from rnd_below[OF this assms(2,3)] have below: "rnd (r * of_nat n) < of_nat n" .
  have "0 \<le> rnd (r * of_nat n)" using r(2) by (intro rnd_nonneg) simp
  moreover have "(of_nat n :: rat) \<le> max_finite"
    using order_trans[OF _ max_finite_ge, of "of_nat n"] assms(3)
    by (metis of_nat_le_iff of_nat_numeral of_nat_power)
  ultimately have "toNumber (r * of_nat n) = Num (rnd (r * of_nat n))"
    using below by (auto simp: toNumber_def Let_def)
  then have "draw_index (fst (random g)) n = nat \<lfloor>rnd (r * of_nat n)\<rfloor>"
    by (simp add: draw_index_def r(1))
  also have "\<dots> < n"
    using below \<open>0 \<le> rnd (r * of_nat n)\<close> by (subst nat_less_iff) (simp_all add: floor_less_iff)
  finally show ?thesis .
qed

section \<open>Sampling the member list\<close>

lemma roster_swap:
  assumes "roster_ok members positions" "i \<le> j" "j < length members"
  shows "roster_ok (members[j := members ! i, i := members ! j])
    (map_set (map_set positions (members ! i) j) (members ! j) i)"
proof -
  have i: "i < length members" using assms(2,3) by simp
  have d: "distinct members" and w: "wf_map positions"
    and pos: "\<And>p k. map_get positions p = Some k \<longleftrightarrow> k < length members \<and> members ! k = p"
    using assms(1) unfolding roster_ok_def by blast+
  have "distinct (members[j := members ! i, i := members ! j])"
    using distinct_swap[OF assms(3) i, of ] d by (simp add: list_update_swap)
  moreover have "map_get (map_set (map_set positions (members ! i) j) (members ! j) i) p = Some k \<longleftrightarrow>
      k < length members \<and> members[j := members ! i, i := members ! j] ! k = p" for p k
    using d i assms(3) pos
    by (auto simp: get_set nth_list_update nth_eq_iff_index_eq split: if_splits)
  ultimately show ?thesis using w by (simp add: roster_ok_def)
qed

text \<open>What the loop knows after looking at the first \<open>i\<close> positions.\<close>

definition sampled :: "nat \<Rightarrow> BroadcastViews \<Rightarrow> string \<Rightarrow> nat \<Rightarrow> 'g Sampling \<Rightarrow> bool" where
  "sampled limit b p i s \<longleftrightarrow>
     roster_ok (sm_members s) (sm_positions s) \<and> set (sm_members s) = set (bv_members b) \<and>
     i \<le> length (sm_members s) \<and> distinct (sm_withRoom s @ sm_full s) \<and>
     set (sm_withRoom s @ sm_full s) = set (take i (sm_members s)) - insert p (set (view_of b p))"

lemma sample_member_step:
  assumes "random_ok random" "sampled limit b p i s" "i < length (sm_members s)"
    "length (sm_members s) \<le> 2 ^ 53"
  shows "sampled limit b p (Suc i) (sample_member random limit b p i s)"
proof -
  obtain r g where rg: "random (sm_random s) = (r, g)" by fastforce
  define j where "j = i + draw_index r (length (sm_members s) - i)"
  have "draw_index (fst (random (sm_random s))) (length (sm_members s) - i) < length (sm_members s) - i"
    using assms(3,4) by (intro draw_index_less[OF assms(1)]) linarith+
  then have j: "i \<le> j" "j < length (sm_members s)" by (simp_all add: j_def rg)
  define ms where "ms = (sm_members s)[j := sm_members s ! i, i := sm_members s ! j]"
  define c where "c = sm_members s ! j"
  have s: "roster_ok (sm_members s) (sm_positions s)" "set (sm_members s) = set (bv_members b)"
    "distinct (sm_withRoom s @ sm_full s)"
    "set (sm_withRoom s @ sm_full s) = set (take i (sm_members s)) - insert p (set (view_of b p))"
    using assms(2) unfolding sampled_def by blast+
  have ms_set: "set ms = set (bv_members b)" unfolding ms_def using set_swap[OF j(2) assms(3)] s(2) by simp
  have ms_take: "take (Suc i) ms = take i (sm_members s) @ [c]"
    using assms(3) j by (simp add: ms_def c_def take_Suc_conv_app_nth)
  have fresh: "c \<notin> set (take i (sm_members s))"
  proof
    assume "c \<in> set (take i (sm_members s))"
    then obtain k where "k < i" "sm_members s ! k = c" by (auto simp: in_set_conv_nth)
    then show False using s(1) j assms(3) by (auto simp: c_def roster_ok_def nth_eq_iff_index_eq)
  qed
  have step: "sample_swap random i s = (c, s\<lparr>sm_members := ms,
      sm_positions := map_set (map_set (sm_positions s) (sm_members s ! i) j) c i, sm_random := g\<rparr>)"
    by (simp add: sample_swap_def rg Let_def ms_def c_def j_def)
  have roster: "roster_ok ms (map_set (map_set (sm_positions s) (sm_members s ! i) j) c i)"
    unfolding ms_def c_def by (rule roster_swap[OF s(1) j])
  have len: "Suc i \<le> length ms" using assms(3) by (simp add: ms_def)
  show ?thesis
    using roster ms_set len s(3,4) fresh
    unfolding sample_member_def step sampled_def by (auto simp: ms_take split: if_splits)
qed

lemma sample_members_spec:
  assumes "random_ok random" "sampled limit b p i s" "length (sm_members s) \<le> 2 ^ 53"
  shows "\<exists>i'. sampled limit b p i' (sample_members random limit b p wanted budget i s) \<and>
     (let s' = sample_members random limit b p wanted budget i s in
      i' = length (sm_members s') \<or> wanted \<le> length (sm_withRoom s') \<or> budget \<le> i')"
  using assms
proof (induction random limit b p wanted budget i s rule: sample_members.induct)
  case (1 random limit b p wanted budget i s)
  show ?case
  proof (cases "i < length (sm_members s) \<and> length (sm_withRoom s) < wanted \<and> i < budget")
    case True
    have eq: "sample_members random limit b p wanted budget i s =
        sample_members random limit b p wanted budget (Suc i) (sample_member random limit b p i s)"
      using True by (subst sample_members.simps) simp
    have "sampled limit b p (Suc i) (sample_member random limit b p i s)"
      using 1(2-4) True by (intro sample_member_step) simp_all
    then show ?thesis unfolding eq using 1(1)[OF True 1(2)] 1(4) by simp
  next
    case False
    then have "i = length (sm_members s) \<or> wanted \<le> length (sm_withRoom s) \<or> budget \<le> i"
      using 1(3) unfolding sampled_def by linarith
    moreover have "sample_members random limit b p wanted budget i s = s"
      using False by (subst sample_members.simps) auto
    ultimately show ?thesis using 1(3) by (intro exI[of _ i]) (simp add: Let_def)
  qed
qed

section \<open>Linking\<close>

lemma linksD:
  assumes "links_ok limit b"
  shows "distinct (view_of b p)" "distinct (watchers_of b p)" "length (view_of b p) \<le> limit"
    "sees b p q \<longleftrightarrow> p \<in> set (watchers_of b q)" "sees b p q \<Longrightarrow> q \<in> set (bv_members b)"
    "sees b p q \<Longrightarrow> q \<noteq> p"
    "map_get (bv_views b) p = None \<longleftrightarrow> p \<notin> set (bv_members b)"
    "map_get (bv_watchers b) p = None \<longleftrightarrow> p \<notin> set (bv_members b)"
  using assms unfolding links_ok_def map_of_eq_None_iff by (auto simp: image_iff)

lemma sees_member: "links_ok limit b \<Longrightarrow> sees b p q \<Longrightarrow> p \<in> set (bv_members b)"
  using linksD(7)[of limit b p] by (force simp: sees_def view_of_def split: option.splits)

lemma link_members [simp]:
  "bv_members (link p q b) = bv_members b" "bv_positions (link p q b) = bv_positions b"
  "bv_members (unlink p q b) = bv_members b" "bv_positions (unlink p q b) = bv_positions b"
  by (simp_all add: link_def unlink_def)

lemma view_of_link:
  "view_of (link p q b) x = (if x = p \<and> map_get (bv_views b) p \<noteq> None then set_add q (view_of b x) else view_of b x)"
  by (auto simp: view_of_def link_def get_adjust split: option.split)

lemma watchers_of_link:
  "watchers_of (link p q b) x =
     (if x = q \<and> map_get (bv_watchers b) q \<noteq> None then set_add p (watchers_of b x) else watchers_of b x)"
  by (auto simp: watchers_of_def link_def get_adjust split: option.split)

lemma view_of_unlink:
  "view_of (unlink p q b) x = (if x = p then set_delete q (view_of b x) else view_of b x)"
  by (auto simp: view_of_def unlink_def get_adjust set_delete_def split: option.split)

lemma watchers_of_unlink:
  "watchers_of (unlink p q b) x = (if x = q then set_delete p (watchers_of b x) else watchers_of b x)"
  by (auto simp: watchers_of_def unlink_def get_adjust set_delete_def split: option.split)

lemma sees_link:
  assumes "links_ok limit b" "p \<in> set (bv_members b)"
  shows "sees (link p q b) x y \<longleftrightarrow> sees b x y \<or> (x = p \<and> y = q)"
  using linksD(7)[OF assms(1), of p] assms(2) by (auto simp: sees_def view_of_link)

lemma sees_unlink: "sees (unlink p q b) x y \<longleftrightarrow> sees b x y \<and> \<not> (x = p \<and> y = q)"
  by (auto simp: sees_def view_of_unlink)

lemma links_ok_link:
  assumes ok: "links_ok limit b" and "p \<in> set (bv_members b)" "q \<in> set (bv_members b)" "q \<noteq> p"
    and room: "hasRoom limit b p"
  shows "links_ok limit (link p q b)"
proof -
  have "length (view_of (link p q b) x) \<le> limit" for x
    using linksD(3)[OF ok, of x] room length_set_add[of q "view_of b p"]
    by (auto simp: view_of_link hasRoom_def)
  moreover have "sees (link p q b) x y \<longleftrightarrow> x \<in> set (watchers_of (link p q b) y)" for x y
    using linksD(4)[OF ok, of x y] linksD(8)[OF ok, of q] assms(3)
    by (auto simp: sees_link[OF ok assms(2)] watchers_of_link)
  moreover have "distinct (view_of (link p q b) x)" "distinct (watchers_of (link p q b) x)" for x
    using linksD(1,2)[OF ok] by (simp_all add: view_of_link watchers_of_link)
  moreover have "sees (link p q b) x y \<Longrightarrow> y \<in> set (bv_members b) \<and> y \<noteq> x" for x y
    using linksD(5,6)[OF ok, of x y] assms(3,4) by (auto simp: sees_link[OF ok assms(2)])
  ultimately show ?thesis
    using ok unfolding links_ok_def by (simp add: link_def keys_adjust del: map_map)
qed

lemma links_ok_unlink:
  assumes ok: "links_ok limit b"
  shows "links_ok limit (unlink p q b)"
proof -
  have "length (set_delete q xs) \<le> length xs" for xs :: "string list"
    by (simp add: set_delete_def)
  then have "length (view_of (unlink p q b) x) \<le> limit" for x
    using order_trans[OF _ linksD(3)[OF ok]] linksD(3)[OF ok] by (auto simp: view_of_unlink)
  moreover have "sees (unlink p q b) x y \<longleftrightarrow> x \<in> set (watchers_of (unlink p q b) y)" for x y
    using linksD(4)[OF ok, of x y] by (auto simp: sees_unlink watchers_of_unlink)
  moreover have "distinct (view_of (unlink p q b) x)" "distinct (watchers_of (unlink p q b) x)" for x
    using linksD(1,2)[OF ok] by (simp_all add: view_of_unlink watchers_of_unlink)
  moreover have "sees (unlink p q b) x y \<Longrightarrow> y \<in> set (bv_members b) \<and> y \<noteq> x" for x y
    using linksD(5,6)[OF ok, of x y] by (auto simp: sees_unlink)
  ultimately show ?thesis
    using ok unfolding links_ok_def by (simp add: unlink_def keys_adjust del: map_map)
qed

text \<open>A fill's report so far describes the links made and dropped since \<open>b0\<close>.\<close>

definition reported :: "BroadcastViews \<Rightarrow> string \<Rightarrow> BroadcastViews \<Rightarrow> NeighborViewFill \<Rightarrow> bool" where
  "reported b0 p b filled \<longleftrightarrow>
     (\<forall>x y. sees b x y \<longleftrightarrow> sees b0 x y \<and> (x, y) \<notin> set (fill_evicted filled) \<or>
        x = p \<and> y \<in> set (fill_added filled) \<or> y = p \<and> x \<in> set (fill_reciprocal filled)) \<and>
     (\<forall>x y. (x, y) \<in> set (fill_evicted filled) \<longrightarrow> sees b0 x y \<and> y \<noteq> p) \<and>
     (\<forall>x y. x \<noteq> p \<longrightarrow> (sees b x y \<longleftrightarrow> sees b0 x y) \<or> x \<in> set (fill_added filled)) \<and>
     (\<forall>y. y \<in> set (fill_added filled) \<longrightarrow> \<not> sees b0 p y \<and> y \<noteq> p \<and> sees b y p)"

lemma reported_refl: "reported b p b empty_fill"
  by (simp add: reported_def empty_fill_def)

lemma reported_step:
  assumes rep: "reported b0 p b filled" and c: "c \<noteq> p" "\<not> sees b0 p c" "sees b' c p"
    and sees': "\<And>x y. sees b' x y \<longleftrightarrow> sees b x y \<and> (x, y) \<notin> set ev \<or> (x = p \<and> y = c) \<or> (y = p \<and> x \<in> set rc)"
    and rc: "set rc \<subseteq> {c}" and ev: "\<And>x y. (x, y) \<in> set ev \<Longrightarrow> x = c \<and> sees b c y \<and> y \<noteq> p"
  shows "reported b0 p b' (filled\<lparr>fill_added := fill_added filled @ [c],
    fill_evicted := fill_evicted filled @ ev, fill_reciprocal := fill_reciprocal filled @ rc\<rparr>)"
proof -
  have now: "sees b x y \<longleftrightarrow> sees b0 x y \<and> (x, y) \<notin> set (fill_evicted filled) \<or>
      x = p \<and> y \<in> set (fill_added filled) \<or> y = p \<and> x \<in> set (fill_reciprocal filled)" for x y
    using rep unfolding reported_def by blast
  have old: "sees b0 x y \<and> y \<noteq> p" if "(x, y) \<in> set (fill_evicted filled)" for x y
    using rep that unfolding reported_def by blast
  define F where "F = filled\<lparr>fill_added := fill_added filled @ [c],
    fill_evicted := fill_evicted filled @ ev, fill_reciprocal := fill_reciprocal filled @ rc\<rparr>"
  have F: "set (fill_added F) = insert c (set (fill_added filled))"
    "set (fill_evicted F) = set (fill_evicted filled) \<union> set ev"
    "set (fill_reciprocal F) = set (fill_reciprocal filled) \<union> set rc"
    by (simp_all add: F_def)
  have "sees b0 x y \<and> y \<noteq> p" if "(x, y) \<in> set (fill_evicted F)" for x y
    using that ev[of x y] now[of x y] old[of x y] c(1) unfolding F by blast
  moreover have "sees b' x y \<longleftrightarrow> sees b0 x y \<and> (x, y) \<notin> set (fill_evicted F) \<or>
      x = p \<and> y \<in> set (fill_added F) \<or> y = p \<and> x \<in> set (fill_reciprocal F)" for x y
    using sees'[of x y] now[of x y] ev[of x y] c(1) unfolding F by blast
  moreover have "(sees b' x y \<longleftrightarrow> sees b0 x y) \<or> x \<in> set (fill_added F)" if "x \<noteq> p" for x y
  proof (cases "x = c")
    case False
    then have "sees b' x y \<longleftrightarrow> sees b x y" using sees'[of x y] ev[of x y] rc that by blast
    moreover have "(sees b x y \<longleftrightarrow> sees b0 x y) \<or> x \<in> set (fill_added filled)"
      using rep that unfolding reported_def by blast
    ultimately show ?thesis unfolding F by blast
  qed (simp add: F)
  moreover have "\<not> sees b0 p y \<and> y \<noteq> p \<and> sees b' y p" if "y \<in> set (fill_added F)" for y
  proof (cases "y = c")
    case False
    then have "y \<in> set (fill_added filled)" using that by (simp add: F)
    then have "\<not> sees b0 p y \<and> y \<noteq> p \<and> sees b y p" using rep unfolding reported_def by blast
    then show ?thesis using sees'[of y p] ev[of y p] by blast
  qed (use c in simp)
  ultimately show ?thesis unfolding reported_def F_def[symmetric] by blast
qed

text \<open>One turn of the linking loop.\<close>

definition link_one ::
    "'g random \<Rightarrow> nat \<Rightarrow> string \<Rightarrow> string \<Rightarrow> BroadcastViews \<times> NeighborViewFill \<times> 'g \<Rightarrow>
     BroadcastViews \<times> NeighborViewFill \<times> 'g" where
  "link_one random limit p c st = (case st of (b, filled, g) \<Rightarrow>
     link_candidates random limit p [c] (b, filled, g))"

lemma link_candidates_Cons:
  "link_candidates random limit p (c # cs) (b, filled, g) =
     (if limit \<le> length (view_of b p) then (b, filled, g)
      else link_candidates random limit p cs (link_one random limit p c (b, filled, g)))"
  by (simp add: link_one_def Let_def)

lemma link_one_spec:
  assumes random: "random_ok random" and ok: "links_ok limit b"
    and p: "p \<in> set (bv_members b)" and c: "c \<in> set (bv_members b)" "c \<noteq> p" "\<not> sees b p c" "\<not> sees b0 p c"
    and room: "length (view_of b p) < limit" and small: "length (bv_members b) \<le> 2 ^ 53"
    and rep: "reported b0 p b filled"
    and step: "link_one random limit p c (b, filled, g) = (b', filled', g')"
  shows "links_ok limit b' \<and> bv_members b' = bv_members b \<and> bv_positions b' = bv_positions b \<and>
    view_of b' p = view_of b p @ [c] \<and> reported b0 p b' filled'"
proof -
  define b1 where "b1 = link p c b"
  have ok1: "links_ok limit b1"
    unfolding b1_def using room by (intro links_ok_link[OF ok p c(1,2)]) (simp add: hasRoom_def)
  have sees1: "sees b1 x y \<longleftrightarrow> sees b x y \<or> (x = p \<and> y = c)" for x y
    unfolding b1_def by (rule sees_link[OF ok p])
  have view1: "view_of b1 p = view_of b p @ [c]" "view_of b1 c = view_of b c"
    using linksD(7)[OF ok, of p] p c(2,3) by (auto simp: b1_def view_of_link set_add_def sees_def)
  have m1: "c \<in> set (bv_members b1)" "p \<in> set (bv_members b1)" using c(1) p by (simp_all add: b1_def)
  show ?thesis
  proof (cases "sees b1 c p")
    case True
    then have b': "b' = b1" "filled' = filled\<lparr>fill_added := fill_added filled @ [c]\<rparr>"
      using step room by (auto simp: link_one_def b1_def Let_def sees_def)
    have "reported b0 p b' filled'"
      using reported_step[OF rep c(2,4) True, of "[]" "[]"] sees1 by (simp add: b')
    then show ?thesis using ok1 view1 b'(1) by (simp add: b1_def)
  next
    case False
    note unseen = this
    show ?thesis
    proof (cases "hasRoom limit b1 c")
      case True
      then have b': "b' = link c p b1" "filled' = filled\<lparr>fill_added := fill_added filled @ [c],
          fill_reciprocal := fill_reciprocal filled @ [c]\<rparr>"
        using step room unseen by (auto simp: link_one_def b1_def Let_def sees_def)
      have links: "links_ok limit b'" unfolding b' using c(2) True by (intro links_ok_link[OF ok1 m1]) auto
      have sees': "sees b' x y \<longleftrightarrow> sees b x y \<or> (x = p \<and> y = c) \<or> (x = c \<and> y = p)" for x y
        unfolding b' using sees_link[OF ok1 m1(1)] sees1 by blast
      have "reported b0 p b' filled'"
        using reported_step[OF rep c(2,4), of b' "[]" "[c]"] sees' by (auto simp: b'(2))
      with links show ?thesis using view1 c(2) by (simp add: b' b1_def view_of_link)
    next
      case False
      obtain r g2 where rg: "random g = (r, g2)" by fastforce
      define d where "d = view_of b1 c ! draw_index r (length (view_of b1 c))"
      have "set (view_of b1 c) \<subseteq> set (bv_members b)"
        using linksD(5)[OF ok1, of c] by (auto simp: sees_def b1_def)
      then have "length (view_of b1 c) \<le> length (bv_members b)"
        using linksD(1)[OF ok1, of c] by (metis card_mono card_length distinct_card finite_set le_trans)
      moreover have "0 < length (view_of b1 c)" using False room unfolding hasRoom_def by linarith
      ultimately have idx: "draw_index r (length (view_of b1 c)) < length (view_of b1 c)"
        using draw_index_less[OF random, of "length (view_of b1 c)" g] small by (simp add: rg)
      then have d: "sees b1 c d" by (simp add: d_def sees_def)
      then have dp: "d \<noteq> p" "sees b c d" using unseen sees1[of c d] c(2) by auto
      have b': "b' = link c p (unlink c d b1)" "filled' = filled\<lparr>fill_added := fill_added filled @ [c],
          fill_evicted := fill_evicted filled @ [(c, d)],
          fill_reciprocal := fill_reciprocal filled @ [c]\<rparr>"
        using step room unseen False idx
        by (auto simp: link_one_def b1_def[symmetric] Let_def sees_def randomNeighbor_def rg d_def)
      let ?u = "unlink c d b1"
      have ok2: "links_ok limit ?u" by (rule links_ok_unlink[OF ok1])
      have "length (view_of ?u c) < length (view_of b1 c)"
        using length_set_delete_less[of d "view_of b1 c"] d by (simp add: view_of_unlink sees_def)
      then have "hasRoom limit ?u c" using linksD(3)[OF ok1, of c] by (simp add: hasRoom_def)
      then have links: "links_ok limit b'" unfolding b' using c(2) m1 by (intro links_ok_link[OF ok2]) auto
      have sees': "sees b' x y \<longleftrightarrow>
          (sees b x y \<and> \<not> (x = c \<and> y = d)) \<or> (x = p \<and> y = c) \<or> (x = c \<and> y = p)" for x y
        unfolding b' using sees_link[OF ok2, of c] m1 sees1[of x y] c(2) by (auto simp: sees_unlink)
      have "reported b0 p b' filled'"
        unfolding b'(2) by (rule reported_step[OF rep c(2,4)]) (use sees' dp in auto)
      with links show ?thesis using view1 c(2) by (simp add: b' b1_def view_of_link view_of_unlink)
    qed
  qed
qed

lemma link_candidates_spec:
  assumes "random_ok random" "links_ok limit b" "p \<in> set (bv_members b)"
    and "distinct cs" "set cs \<subseteq> set (bv_members b) - insert p (set (view_of b p))"
    and "set cs \<inter> set (view_of b0 p) = {}" "length (bv_members b) \<le> 2 ^ 53" "reported b0 p b filled"
    and "link_candidates random limit p cs (b, filled, g) = (b', filled', g')"
  shows "links_ok limit b' \<and> bv_members b' = bv_members b \<and> bv_positions b' = bv_positions b \<and>
    length (view_of b' p) = min limit (length (view_of b p) + length cs) \<and> reported b0 p b' filled'"
  using assms(2-)
proof (induction cs arbitrary: b filled g)
  case Nil
  then show ?case using linksD(3)[of limit b p] by simp
next
  case (Cons c cs)
  show ?case
  proof (cases "limit \<le> length (view_of b p)")
    case True
    then show ?thesis using Cons.prems(1,7,8) linksD(3)[of limit b p] by (simp add: link_candidates_Cons)
  next
    case False
    obtain b1 filled1 g1 where one: "link_one random limit p c (b, filled, g) = (b1, filled1, g1)"
      by (metis prod_cases3)
    have step: "links_ok limit b1 \<and> bv_members b1 = bv_members b \<and> bv_positions b1 = bv_positions b \<and>
        view_of b1 p = view_of b p @ [c] \<and> reported b0 p b1 filled1"
      using False Cons.prems by (intro link_one_spec[OF assms(1) _ _ _ _ _ _ _ _ _ one]) (auto simp: sees_def)
    have "link_candidates random limit p cs (b1, filled1, g1) = (b', filled', g')"
      using Cons.prems(8) False one unfolding link_candidates_Cons by simp
    from Cons.IH[OF _ _ _ _ _ _ _ this] show ?thesis using step Cons.prems False by auto
  qed
qed

section \<open>Filling\<close>

lemma links_ok_cong:
  "links_ok limit b \<Longrightarrow> set ms = set (bv_members b) \<Longrightarrow> links_ok limit (b\<lparr>bv_members := ms, bv_positions := ps\<rparr>)"
  by (simp add: links_ok_def sees_def view_of_def watchers_of_def)

lemma fill_spec:
  assumes "random_ok random" "views_ok limit b" "p \<in> set (bv_members b)" "length (bv_members b) \<le> 2 ^ 53"
    and fill: "fill_broadcast random limit p b g = (b', filled, g')"
  shows "views_ok limit b' \<and> set (bv_members b') = set (bv_members b) \<and>
    length (view_of b' p) = min limit (length (bv_members b) - 1) \<and> reported b p b' filled"
proof -
  have roster: "roster_ok (bv_members b) (bv_positions b)" and links: "links_ok limit b"
    using assms(2) by (simp_all add: views_ok_def)
  have d: "distinct (bv_members b)" using roster by (simp add: roster_ok_def)
  have view: "set (view_of b p) \<subseteq> set (bv_members b) - {p}" "distinct (view_of b p)"
    using linksD(1,5)[OF links] linksD(6)[OF links, of p p] unfolding sees_def by blast+
  define others where "others = set (bv_members b) - insert p (set (view_of b p))"
  have count: "card others = length (bv_members b) - 1 - length (view_of b p)"
  proof -
    have "card (insert p (set (view_of b p))) = Suc (length (view_of b p))"
      using view by (subst card_insert_disjoint) (auto simp: distinct_card)
    then show ?thesis
      using card_Diff_subset[of "insert p (set (view_of b p))" "set (bv_members b)"] assms(3) d view(1)
      by (auto simp: others_def distinct_card)
  qed
  have room: "length (view_of b p) \<le> length (bv_members b) - 1"
    using card_mono[OF _ view(1)] assms(3) d view(2) by (simp add: distinct_card)
  show ?thesis
  proof (cases "limit \<le> length (view_of b p)")
    case True
    with fill have "b' = b" "filled = empty_fill" by (auto simp: fill_broadcast_def)
    then show ?thesis using assms(2) True room linksD(3)[OF links, of p] by (simp add: reported_refl)
  next
    case False
    define wanted where "wanted = limit - length (view_of b p)"
    define budget where "budget = fill_budget (length (view_of b p)) wanted"
    define s0 where "s0 = \<lparr>sm_members = bv_members b, sm_positions = bv_positions b,
      sm_withRoom = [], sm_full = [], sm_random = g\<rparr>"
    define s where "s = sample_members random limit b p wanted budget 0 s0"
    have "sampled limit b p 0 s0" by (simp add: sampled_def s0_def roster)
    with sample_members_spec[OF assms(1), of limit b p 0 s0 wanted budget] assms(4)
    obtain i where i: "sampled limit b p i s" and
      stop: "i = length (sm_members s) \<or> wanted \<le> length (sm_withRoom s) \<or> budget \<le> i"
      by (auto simp: s_def s0_def Let_def)
    define cs where "cs = sm_withRoom s @ sm_full s"
    have s: "roster_ok (sm_members s) (sm_positions s)" "set (sm_members s) = set (bv_members b)"
      "i \<le> length (sm_members s)" "distinct cs"
      "set cs = set (take i (sm_members s)) - insert p (set (view_of b p))"
      using i by (simp_all add: sampled_def cs_def)
    have dm: "distinct (sm_members s)" using s(1) by (simp add: roster_ok_def)
    have cs: "set cs \<subseteq> others" using s(2,5) set_take_subset[of i "sm_members s"] by (auto simp: others_def)
    have n: "length cs = card (set cs)" using s(4) by (simp add: distinct_card)
    have taken: "card (set (take i (sm_members s))) = i" using dm s(3) by (simp add: distinct_card)
    have "i - (1 + length (view_of b p)) \<le> length cs"
    proof -
      have "card (insert p (set (view_of b p))) \<le> 1 + length (view_of b p)"
        using card_length[of "p # view_of b p"] by simp
      then show ?thesis
        using diff_card_le_card_Diff[of "insert p (set (view_of b p))" "set (take i (sm_members s))"]
        unfolding n s(5) taken by simp
    qed
    moreover have "length cs = card others" if "i = length (sm_members s)"
      using that s(2,5) n by (simp add: others_def)
    moreover have "length cs \<le> card others" unfolding n using cs by (rule card_mono[rotated]) (simp add: others_def)
    ultimately have enough: "min wanted (card others) \<le> length cs" "length cs \<le> card others"
      using stop by (auto simp: budget_def fill_budget_def cs_def)
    define b1 where "b1 = b\<lparr>bv_members := sm_members s, bv_positions := sm_positions s\<rparr>"
    have b1: "links_ok limit b1" "view_of b1 = view_of b" "sees b1 = sees b"
      using links_ok_cong[OF links s(2)] by (simp_all add: b1_def view_of_def sees_def fun_eq_iff)
    have b1m: "bv_members b1 = sm_members s" "bv_positions b1 = sm_positions s" by (simp_all add: b1_def)
    have "link_candidates random limit p cs (b1, empty_fill, sm_random s) = (b', filled, g')"
      using fill False
      by (simp add: fill_broadcast_def Let_def b1_def cs_def s_def s0_def wanted_def budget_def)
    moreover have "reported b p b1 empty_fill"
      using reported_refl[of b p] by (simp add: reported_def b1(3))
    ultimately have "links_ok limit b' \<and> bv_members b' = bv_members b1 \<and> bv_positions b' = bv_positions b1 \<and>
        length (view_of b' p) = min limit (length (view_of b1 p) + length cs) \<and> reported b p b' filled"
      using assms(3,4) s(2,4) cs dm d distinct_card[OF dm] distinct_card[OF d]
      by (intro link_candidates_spec[OF assms(1) b1(1)]) (auto simp: b1(2) others_def b1m)
    then show ?thesis
      using s(1,2) enough count room False
      by (auto simp: views_ok_def b1m b1(2) wanted_def)
  qed
qed

section \<open>Adding and leaving\<close>

lemma roster_add:
  assumes "roster_ok members positions" "p \<notin> set members"
  shows "roster_ok (members @ [p]) (map_set positions p (length members))"
proof -
  have "map_get (map_set positions p (length members)) q = Some k \<longleftrightarrow>
      k < length (members @ [p]) \<and> (members @ [p]) ! k = q" for q k
    using assms nth_mem[of k members] unfolding roster_ok_def
    by (auto simp: get_set nth_append less_Suc_eq)
  then show ?thesis using assms by (simp add: roster_ok_def)
qed

lemma roster_has: "roster_ok members positions \<Longrightarrow> map_has positions p \<longleftrightarrow> p \<in> set members"
  unfolding roster_ok_def map_has_def in_set_conv_nth by (metis not_Some_eq)

lemma add_member_spec:
  assumes "views_ok limit b"
  shows "views_ok limit (add_member p b)" "length (bv_members (add_member p b)) \<le> Suc (length (bv_members b))"
    "set (bv_members (add_member p b)) = insert p (set (bv_members b))"
    "view_of (add_member p b) x = view_of b x"
proof -
  have roster: "roster_ok (bv_members b) (bv_positions b)" and links: "links_ok limit b"
    using assms by (simp_all add: views_ok_def)
  note present = roster_has[OF roster, of p]
  have none: "view_of b p = []" "watchers_of b p = []" if "p \<notin> set (bv_members b)"
    using that linksD(7,8)[OF links, of p] by (simp_all add: view_of_def watchers_of_def)
  show view: "view_of (add_member p b) x = view_of b x" for x
    using none present by (auto simp: add_member_def view_of_def get_set split: option.splits)
  have watchers: "watchers_of (add_member p b) x = watchers_of b x" for x
    using none present by (auto simp: add_member_def watchers_of_def get_set split: option.splits)
  show members: "set (bv_members (add_member p b)) = insert p (set (bv_members b))"
    using present by (auto simp: add_member_def)
  show "length (bv_members (add_member p b)) \<le> Suc (length (bv_members b))"
    by (simp add: add_member_def)
  have "roster_ok (bv_members (add_member p b)) (bv_positions (add_member p b))"
    using roster roster_add[OF roster] present by (simp add: add_member_def)
  moreover have "set (map_keys (bv_views (add_member p b))) = insert p (set (bv_members b))"
    "set (map_keys (bv_watchers (add_member p b))) = insert p (set (bv_members b))"
    "wf_map (bv_views (add_member p b))" "wf_map (bv_watchers (add_member p b))"
    using links present unfolding links_ok_def add_member_def
    by (auto simp: set_keys_set simp del: set_map)
  ultimately show "views_ok limit (add_member p b)"
    using links unfolding views_ok_def links_ok_def members sees_def view watchers by blast
qed

lemma view_of_fold_adjust:
  "distinct ks \<Longrightarrow> view_of (b\<lparr>bv_views := fold (\<lambda>k m. map_adjust m k (set_delete p)) ks (bv_views b)\<rparr>) x =
     (if x \<in> set ks then set_delete p (view_of b x) else view_of b x)"
  by (cases "map_get (bv_views b) x") (simp_all add: view_of_def get_fold_adjust set_delete_def)

lemma watchers_of_fold_adjust:
  "distinct ks \<Longrightarrow>
     watchers_of (b\<lparr>bv_watchers := fold (\<lambda>k m. map_adjust m k (set_delete p)) ks (bv_watchers b)\<rparr>) x =
     (if x \<in> set ks then set_delete p (watchers_of b x) else watchers_of b x)"
  by (cases "map_get (bv_watchers b) x") (simp_all add: watchers_of_def get_fold_adjust set_delete_def)

lemma drop_links_spec:
  assumes ok: "links_ok limit b" and "drop_links p b = (lost, b')"
  shows "lost = watchers_of b p" "bv_members b' = bv_members b" "bv_positions b' = bv_positions b"
    and "set ms = set (bv_members b) - {p} \<Longrightarrow> links_ok limit (b'\<lparr>bv_members := ms, bv_positions := ps\<rparr>)"
    and "sees b' x y \<longleftrightarrow> sees b x y \<and> x \<noteq> p \<and> y \<noteq> p"
proof -
  define b1 where "b1 = b\<lparr>bv_watchers :=
    fold (\<lambda>n m. map_adjust m n (set_delete p)) (view_of b p) (bv_watchers b)\<rparr>"
  define lost1 where "lost1 = watchers_of b1 p"
  define b2 where "b2 = b1\<lparr>bv_views := fold (\<lambda>w m. map_adjust m w (set_delete p)) lost1 (bv_views b1)\<rparr>"
  have res: "lost = lost1" "b' = b2\<lparr>bv_views := map_delete (bv_views b2) p,
      bv_watchers := map_delete (bv_watchers b2) p\<rparr>"
    using assms(2) by (auto simp: drop_links_def Let_def b1_def b2_def lost1_def)
  have self: "p \<notin> set (view_of b p)" using linksD(6)[OF ok, of p p] by (auto simp: sees_def)
  have w1: "watchers_of b1 x = (if x \<in> set (view_of b p) then set_delete p (watchers_of b x) else watchers_of b x)" for x
    unfolding b1_def by (rule watchers_of_fold_adjust[OF linksD(1)[OF ok]])
  show lost: "lost = watchers_of b p" using self by (simp add: res lost1_def w1)
  have v1: "view_of b1 = view_of b" by (simp add: b1_def view_of_def fun_eq_iff)
  have v2: "view_of b2 x = (if x \<in> set (watchers_of b p) then set_delete p (view_of b x) else view_of b x)" for x
    unfolding b2_def v1[symmetric] lost[unfolded res, symmetric]
    by (rule view_of_fold_adjust) (simp add: lost[unfolded res] linksD(2)[OF ok])
  have w2: "watchers_of b2 = watchers_of b1" by (simp add: b2_def watchers_of_def fun_eq_iff)
  have v: "view_of b' x = (if x = p then [] else if x \<in> set (watchers_of b p) then set_delete p (view_of b x) else view_of b x)" for x
    using v2[of x] by (simp add: res view_of_def get_delete)
  have w: "watchers_of b' x = (if x = p then [] else if x \<in> set (view_of b p) then set_delete p (watchers_of b x) else watchers_of b x)" for x
    using w1[of x] fun_cong[OF w2, of x] by (simp add: res watchers_of_def get_delete)
  show mem: "bv_members b' = bv_members b" "bv_positions b' = bv_positions b" by (simp_all add: res b2_def b1_def)
  have sym: "\<And>x y. y \<in> set (view_of b x) \<longleftrightarrow> x \<in> set (watchers_of b y)" using linksD(4)[OF ok] by (simp add: sees_def)
  show sees': "sees b' x y \<longleftrightarrow> sees b x y \<and> x \<noteq> p \<and> y \<noteq> p" for x y
    using sym by (auto simp: sees_def v)
  have "x \<in> set (watchers_of b' y) \<longleftrightarrow> x \<in> set (watchers_of b y) \<and> x \<noteq> p \<and> y \<noteq> p" for x y
    using sym by (auto simp: w)
  then have inverse: "sees b' x y \<longleftrightarrow> x \<in> set (watchers_of b' y)" for x y
    using sees'[of x y] linksD(4)[OF ok, of x y] by blast
  have "length (set_delete p xs) \<le> length xs" for xs :: "string list" by (simp add: set_delete_def)
  from order_trans[OF this linksD(3)[OF ok]] have len: "length (view_of b' x) \<le> limit" for x
    using linksD(3)[OF ok, of x] by (simp add: v)
  have keys: "set (map_keys (bv_views b')) = set (bv_members b) - {p}"
    "set (map_keys (bv_watchers b')) = set (bv_members b) - {p}"
    "wf_map (bv_views b')" "wf_map (bv_watchers b')"
    using ok unfolding links_ok_def
    by (simp_all add: res b2_def b1_def keys_delete keys_fold_adjust wf_fold_adjust del: set_map)
  assume ms: "set ms = set (bv_members b) - {p}"
  let ?b = "b'\<lparr>bv_members := ms, bv_positions := ps\<rparr>"
  have same: "view_of ?b = view_of b'" "watchers_of ?b = watchers_of b'"
    by (simp_all add: view_of_def watchers_of_def fun_eq_iff)
  have "distinct (view_of b' x)" "distinct (watchers_of b' x)" for x
    using linksD(1,2)[OF ok] by (simp_all add: v w)
  moreover have "sees b' x y \<Longrightarrow> y \<in> set ms \<and> y \<noteq> x" for x y
    using sees'[of x y] linksD(5,6)[OF ok, of x y] by (simp add: ms)
  ultimately show "links_ok limit ?b"
    using len keys inverse unfolding links_ok_def same sees_def by (simp add: ms del: set_map)
qed

lemma roster_drop:
  assumes ok: "roster_ok members positions" and at: "map_get positions p = Some i"
    and "members' = (if last members \<noteq> p then (butlast members)[i := last members] else butlast members)"
    and "positions' = map_delete (if last members \<noteq> p then map_set positions (last members) i else positions) p"
  shows "roster_ok members' positions'" "set members' = set members - {p}" "length members' \<le> length members"
proof -
  have d: "distinct members" and w: "wf_map positions"
    and pos: "\<And>q k. map_get positions q = Some k \<longleftrightarrow> k < length members \<and> members ! k = q"
    using ok unfolding roster_ok_def by blast+
  have i: "i < length members" "members ! i = p" using at pos by blast+
  then obtain ms f where m: "members = ms @ [f]" by (cases members rule: rev_cases) auto
  have at_last: "i = length ms \<longleftrightarrow> f = p" using i d unfolding m by (auto simp: nth_append less_Suc_eq)
  have "map_get positions' q = Some k \<longleftrightarrow> k < length members' \<and> members' ! k = q" for q k
  proof (cases "f = p")
    case True
    then show ?thesis using assms(3,4) pos[of q k] d at_last
      by (auto simp: m get_delete nth_append split: if_splits)
  next
    case False
    then have "i < length ms" using i at_last by (auto simp: m)
    then have mi: "ms ! i = p" using i by (simp add: m nth_append)
    have f: "f \<notin> set ms" using d by (simp add: m)
    have "ms ! k \<noteq> p" if "k < length ms" "k \<noteq> i" for k
      using that \<open>i < length ms\<close> mi d nth_eq_iff_index_eq[of ms k i] by (auto simp: m)
    moreover have "ms ! k \<noteq> f" if "k < length ms" for k using f nth_mem[OF that] by auto
    ultimately show ?thesis
      using assms(3,4) False pos[of q k] \<open>i < length ms\<close> mi
      by (auto simp: m get_delete get_set nth_append nth_list_update split: if_splits)
  qed
  moreover have "distinct members'" "set members' = set members - {p}"
  proof -
    have "distinct members' \<and> set members' = set members - {p}"
    proof (cases "f = p")
      case False
      then have il: "i < length ms" using i at_last by (auto simp: m)
      then have mi: "ms ! i = p" using i by (simp add: m nth_append)
      from il have ms: "ms = take i ms @ p # drop (Suc i) ms" using mi by (metis id_take_nth_drop)
      have "members' = take i ms @ f # drop (Suc i) ms"
        using assms(3) False il by (simp add: m upd_conv_take_nth_drop)
      moreover have "distinct (take i ms @ p # drop (Suc i) ms @ [f])" using d ms m by (metis append.assoc append_Cons)
      moreover have "set members = set (take i ms @ p # drop (Suc i) ms @ [f])" using ms m by (metis append.assoc append_Cons)
      ultimately show ?thesis by auto
    qed (use d assms(3) m in auto)
    then show "distinct members'" "set members' = set members - {p}" by blast+
  qed
  ultimately show "roster_ok members' positions'" using w assms(4) by (simp add: roster_ok_def)
  show "set members' = set members - {p}" by fact
  show "length members' \<le> length members" using assms(3) by simp
qed

lemma leave_spec:
  assumes "views_ok limit b" "map_get (bv_positions b) p = Some i" "drop_links p b = (lost, b1)"
  shows "views_ok limit (drop_member p i b1)" "set (bv_members (drop_member p i b1)) = set (bv_members b) - {p}"
    "length (bv_members (drop_member p i b1)) \<le> length (bv_members b)"
    "sees (drop_member p i b1) x y \<longleftrightarrow> sees b x y \<and> x \<noteq> p \<and> y \<noteq> p"
    "x \<in> set lost \<longleftrightarrow> sees b x p"
proof -
  have roster: "roster_ok (bv_members b) (bv_positions b)" and links: "links_ok limit b"
    using assms(1) by (simp_all add: views_ok_def)
  note dl = drop_links_spec[OF links assms(3)]
  define ms where "ms = bv_members (drop_member p i b1)"
  define ps where "ps = bv_positions (drop_member p i b1)"
  have new: "drop_member p i b1 = b1\<lparr>bv_members := ms, bv_positions := ps\<rparr>"
    by (simp add: ms_def ps_def drop_member_def Let_def)
  have ms: "ms = (if last (bv_members b) \<noteq> p then (butlast (bv_members b))[i := last (bv_members b)] else butlast (bv_members b))"
    and ps: "ps = map_delete (if last (bv_members b) \<noteq> p then map_set (bv_positions b) (last (bv_members b)) i else bv_positions b) p"
    by (simp_all add: ms_def ps_def drop_member_def Let_def dl(2,3))
  note rd = roster_drop[OF roster assms(2) ms ps]
  have "links_ok limit (b1\<lparr>bv_members := ms, bv_positions := ps\<rparr>)" by (rule dl(4)[OF rd(2)])
  with rd show "views_ok limit (drop_member p i b1)" by (simp add: new views_ok_def)
  show "set (bv_members (drop_member p i b1)) = set (bv_members b) - {p}"
    "length (bv_members (drop_member p i b1)) \<le> length (bv_members b)" using rd by (simp_all add: ms_def)
  have "sees (drop_member p i b1) = sees b1" by (simp add: new sees_def view_of_def fun_eq_iff)
  then show "sees (drop_member p i b1) x y \<longleftrightarrow> sees b x y \<and> x \<noteq> p \<and> y \<noteq> p" using dl(5)[of x y] by simp
  show "x \<in> set lost \<longleftrightarrow> sees b x p" using linksD(4)[OF links] by (simp add: dl(1))
qed

section \<open>Any sequence of operations\<close>

datatype views_op = AddView string string | FillView string string | LeaveView string string | RemoveViews string

fun run_views_op :: "'g random \<Rightarrow> views_op \<Rightarrow> NeighborViews \<times> 'g \<Rightarrow> NeighborViews \<times> 'g" where
  "run_views_op random (AddView b p) (nv, g) = (views_add b p nv, g)"
| "run_views_op random (FillView b p) (nv, g) = snd (views_fill random b p nv g)"
| "run_views_op random (LeaveView b p) (nv, g) = (snd (views_leave b p nv), g)"
| "run_views_op random (RemoveViews b) (nv, g) = (views_remove b nv, g)"

definition views_inv :: "nat \<Rightarrow> NeighborViews \<Rightarrow> bool" where
  "views_inv n nv \<longleftrightarrow> wf_map (nv_broadcasts nv) \<and>
     (\<forall>broadcastId b. map_get (nv_broadcasts nv) broadcastId = Some b \<longrightarrow>
        views_ok (nv_size nv) b \<and> length (bv_members b) \<le> n)"

lemma views_invD: "views_inv n nv \<Longrightarrow> map_get (nv_broadcasts nv) b = Some v \<Longrightarrow>
    views_ok (nv_size nv) v \<and> length (bv_members v) \<le> n"
  by (simp add: views_inv_def)

lemma views_inv_set:
  assumes "views_inv n nv" "n \<le> n'" "views_ok (nv_size nv) b" "length (bv_members b) \<le> n'"
  shows "views_inv n' (nv\<lparr>nv_broadcasts := map_set (nv_broadcasts nv) broadcastId b\<rparr>)"
  using assms unfolding views_inv_def by (auto simp: get_set split: if_splits intro: le_trans)

lemma views_inv_delete:
  "views_inv n nv \<Longrightarrow> n \<le> n' \<Longrightarrow> views_inv n' (nv\<lparr>nv_broadcasts := map_delete (nv_broadcasts nv) broadcastId\<rparr>)"
  unfolding views_inv_def by (auto simp: get_delete split: if_splits intro: le_trans)

lemma views_inv_mono: "views_inv n nv \<Longrightarrow> n \<le> n' \<Longrightarrow> views_inv n' nv"
  unfolding views_inv_def by (meson le_trans)

lemma empty_views_ok: "views_ok limit \<lparr>bv_views = [], bv_watchers = [], bv_members = [], bv_positions = []\<rparr>"
  by (simp add: views_ok_def roster_ok_def links_ok_def sees_def view_of_def watchers_of_def)

lemma views_add_inv:
  assumes "views_inv n nv"
  shows "views_inv (Suc n) (views_add broadcastId p nv)"
proof -
  have "views_ok (nv_size nv) (broadcastViews broadcastId nv) \<and> length (bv_members (broadcastViews broadcastId nv)) \<le> n"
    using views_invD[OF assms] empty_views_ok by (auto simp: broadcastViews_def split: option.split)
  then show ?thesis
    unfolding views_add_def using add_member_spec(1,2)[of "nv_size nv" "broadcastViews broadcastId nv" p] le_trans
    by (intro views_inv_set[OF assms]) auto
qed

lemma viewed_member:
  assumes "views_inv n nv" "map_get (nv_broadcasts nv) broadcastId = Some b"
  shows "map_get (bv_views b) p = None \<longleftrightarrow> p \<notin> set (bv_members b)"
  using views_invD[OF assms] linksD(7)[of "nv_size nv" b p] by (simp add: views_ok_def)

lemma views_fill_spec:
  assumes "random_ok random" "views_inv n nv" "n \<le> 2 ^ 53"
    "map_get (nv_broadcasts nv) broadcastId = Some b" "p \<in> set (bv_members b)"
  obtains b' filled g' where
    "views_fill random broadcastId p nv g =
       (filled, nv\<lparr>nv_broadcasts := map_set (nv_broadcasts nv) broadcastId b'\<rparr>, g')"
    "views_ok (nv_size nv) b'" "set (bv_members b') = set (bv_members b)"
    "length (bv_members b') = length (bv_members b)"
    "length (view_of b' p) = min (nv_size nv) (length (bv_members b) - 1)" "reported b p b' filled"
proof -
  obtain b' filled g' where fill: "fill_broadcast random (nv_size nv) p b g = (b', filled, g')"
    by (metis prod_cases3)
  note b = views_invD[OF assms(2,4)]
  then have "length (bv_members b) \<le> 2 ^ 53" using assms(3) by linarith
  note spec = fill_spec[OF assms(1) conjunct1[OF b] assms(5) this fill]
  have "distinct (bv_members b)" "distinct (bv_members b')"
    using b spec by (simp_all add: views_ok_def roster_ok_def)
  then have "length (bv_members b') = length (bv_members b)" using spec by (metis distinct_card)
  with spec fill that show ?thesis
    using assms(4,5) viewed_member[OF assms(2,4), of p] by (auto simp: views_fill_def)
qed

lemma run_views_op_inv:
  assumes "random_ok random" "views_inv n nv" "n \<le> 2 ^ 53"
  shows "views_inv (Suc n) (fst (run_views_op random op (nv, g)))"
proof (cases op)
  case (AddView b p)
  then show ?thesis using views_add_inv[OF assms(2)] by simp
next
  case (FillView bid p)
  show ?thesis
  proof (cases "\<exists>b. map_get (nv_broadcasts nv) bid = Some b \<and> p \<in> set (bv_members b)")
    case True
    then obtain b where b: "map_get (nv_broadcasts nv) bid = Some b" "p \<in> set (bv_members b)" by blast
    from views_fill_spec[OF assms b, of g] obtain b' filled g' where
      "views_fill random bid p nv g = (filled, nv\<lparr>nv_broadcasts := map_set (nv_broadcasts nv) bid b'\<rparr>, g')"
      "views_ok (nv_size nv) b'" "length (bv_members b') = length (bv_members b)" by metis
    then show ?thesis
      using views_inv_set[OF assms(2), of "Suc n" b'] views_invD[OF assms(2) b(1)] by (simp add: FillView)
  next
    case False
    then have "views_fill random bid p nv g = (empty_fill, nv, g)"
      using viewed_member[OF assms(2), of bid] by (auto simp: views_fill_def split: option.split)
    then show ?thesis using views_inv_mono[OF assms(2)] by (simp add: FillView)
  qed
next
  case (LeaveView bid p)
  show ?thesis
  proof (cases "\<exists>b i. map_get (nv_broadcasts nv) bid = Some b \<and> map_get (bv_positions b) p = Some i")
    case True
    then obtain b i where b: "map_get (nv_broadcasts nv) bid = Some b" "map_get (bv_positions b) p = Some i" by blast
    obtain lost b1 where l: "drop_links p b = (lost, b1)" by fastforce
    note v = views_invD[OF assms(2) b(1)]
    note spec = leave_spec(1,3)[OF conjunct1[OF v] b(2) l]
    show ?thesis
      using spec v views_inv_set[OF assms(2), of "Suc n" "drop_member p i b1"] views_inv_delete[OF assms(2), of "Suc n"]
      by (auto simp: LeaveView views_leave_def b l Let_def)
  next
    case False
    then have "views_leave bid p nv = ([], nv)" by (auto simp: views_leave_def split: option.split)
    then show ?thesis using views_inv_mono[OF assms(2)] by (simp add: LeaveView)
  qed
next
  case (RemoveViews b)
  then show ?thesis using views_inv_delete[OF assms(2), of "Suc n"] by (simp add: views_remove_def)
qed

lemma run_views_inv:
  assumes "random_ok random" "views_inv n nv" "n + length ops \<le> 2 ^ 53"
  shows "views_inv (n + length ops) (fst (fold (run_views_op random) ops (nv, g)))"
  using assms(2,3)
proof (induction ops arbitrary: n nv g)
  case (Cons op ops)
  obtain nv' g' where step: "run_views_op random op (nv, g) = (nv', g')" by fastforce
  have "views_inv (Suc n) nv'" using run_views_op_inv[OF assms(1) Cons.prems(1), of op g] Cons.prems(2) step by simp
  from Cons.IH[OF this, of g'] Cons.prems(2) show ?case by (simp add: step)
qed simp

section \<open>Properties\<close>

text \<open>C10: Over any sequence of additions, fills, departures and removed broadcasts, the neighbor views
  stay consistent: the member list has no duplicates and its index points at every member, each
  view is a duplicate-free set of at most the configured number of other members, and the watchers
  are exactly the inverse of the views. Draws are numbers of the half-open unit interval, and there
  are at most 2^53 operations, more members than an array can hold.\<close>

theorem neighbor_views_consistent:
  assumes "random_ok random" "length ops \<le> 2 ^ 53"
  shows "views_inv (length ops) (fst (fold (run_views_op random) ops (new_views limit, g)))"
proof -
  have "views_inv 0 (new_views limit)" by (simp add: views_inv_def new_views_def)
  from run_views_inv[OF assms(1) this] assms(2) show ?thesis by simp
qed

definition sample_random :: "nat random" where
  "sample_random g = (if even g then (Num 0, g + 1) else (Num (3 / 4), g + 1))"

lemma sample_random_ok: "random_ok sample_random"
proof -
  have "\<exists>r. fst (sample_random g) = Num r \<and> 0 \<le> r \<and> r \<le> 1 - 1 / 2 ^ 53" for g
    by (rule exI[of _ "if even g then 0 else 3 / 4"]) (simp add: sample_random_def)
  then show ?thesis unfolding random_ok_def by blast
qed

definition sample_views_ops :: "views_op list" where
  "sample_views_ops = [AddView ''b'' ''p'', AddView ''b'' ''q'', AddView ''b'' ''r'', FillView ''b'' ''p'',
     FillView ''b'' ''q'', FillView ''b'' ''r'', LeaveView ''b'' ''q'', FillView ''b'' ''p'']"

lemma sample_views_length: "length sample_views_ops = 8"
  by (simp add: sample_views_ops_def)

theorem neighbor_views_consistent_witness:
  "views_inv 8 (fst (fold (run_views_op sample_random) sample_views_ops (new_views 1, 0)))"
  using neighbor_views_consistent[OF sample_random_ok, of sample_views_ops 1 0]
  by (simp add: sample_views_length)

text \<open>C23: A fill always tops the view up: afterwards the peer sees as many members as the view size
  allows, or the whole rest of the audience if that is smaller, although the search only examines
  a bounded number of random members.\<close>

theorem fill_tops_up:
  assumes "random_ok random" "views_inv n nv" "n \<le> 2 ^ 53"
    "map_get (nv_broadcasts nv) broadcastId = Some b" "p \<in> set (bv_members b)"
  shows "case views_fill random broadcastId p nv g of (filled, nv', g') \<Rightarrow>
    map_option length (views_view broadcastId p nv') = Some (min (nv_size nv) (length (bv_members b) - 1))"
proof -
  obtain b' filled g' where fill: "views_fill random broadcastId p nv g =
       (filled, nv\<lparr>nv_broadcasts := map_set (nv_broadcasts nv) broadcastId b'\<rparr>, g')"
    "views_ok (nv_size nv) b'" "set (bv_members b') = set (bv_members b)"
    "length (view_of b' p) = min (nv_size nv) (length (bv_members b) - 1)"
    by (rule views_fill_spec[OF assms, of g]) blast
  have "map_get (bv_views b') p = Some (view_of b' p)"
    using fill(2,3) assms(5) linksD(7)[of "nv_size nv" b' p] by (auto simp: views_ok_def view_of_def split: option.split)
  with fill(1,4) show ?thesis by (simp add: views_view_def get_set)
qed

definition sample_views :: NeighborViews where
  "sample_views = fst (fold (run_views_op sample_random) (take 5 sample_views_ops) (new_views 1, 0))"

lemma sample_views_inv: "views_inv 5 sample_views"
proof -
  have "views_inv 0 (new_views 1)" by (simp add: views_inv_def new_views_def)
  from run_views_inv[OF sample_random_ok this, of "take 5 sample_views_ops" 0] show ?thesis
    by (simp add: sample_views_def sample_views_length)
qed

lemma sample_views_member:
  "map_get (nv_broadcasts sample_views) ''b'' = Some (broadcastViews ''b'' sample_views)"
  "''r'' \<in> set (bv_members (broadcastViews ''b'' sample_views))" "nv_size sample_views = 1"
  "length (bv_members (broadcastViews ''b'' sample_views)) = 3"
  by code_simp+

theorem fill_tops_up_witness:
  "case views_fill sample_random ''b'' ''r'' sample_views 7 of (filled, nv', g') \<Rightarrow>
    map_option length (views_view ''b'' ''r'' nv') = Some 1"
  using fill_tops_up[OF sample_random_ok sample_views_inv _ sample_views_member(1,2), of 7]
  unfolding sample_views_member(3,4) by simp

text \<open>C17: The report of a fill describes exactly what changed in the broadcast: afterwards a member
  sees another one if it did before and the link is not listed as evicted, or if the link is listed
  as added or reciprocal; evicted links existed before, and every added peer sees the filled peer
  back. So a tracker that announces the report leaves no client with a stale view.\<close>

theorem fill_report_exact:
  assumes "random_ok random" "views_inv n nv" "n \<le> 2 ^ 53"
    "map_get (nv_broadcasts nv) broadcastId = Some b" "p \<in> set (bv_members b)"
  shows "case views_fill random broadcastId p nv g of (filled, nv', g') \<Rightarrow>
    reported b p (broadcastViews broadcastId nv') filled"
  by (rule views_fill_spec[OF assms, of g]) (simp add: broadcastViews_def get_set)

theorem fill_report_exact_witness:
  "case views_fill sample_random ''b'' ''r'' sample_views 7 of (filled, nv', g') \<Rightarrow>
    reported (broadcastViews ''b'' sample_views) ''r'' (broadcastViews ''b'' nv') filled"
  by (rule fill_report_exact[OF sample_random_ok sample_views_inv _ sample_views_member(1,2)]) simp

end
