(* ===== verification/WireMessages.thy ===== *)
theory WireMessages
  imports Common
begin

text \<open>
  The WebSocket protocol (\<^verbatim>\<open>common/src/index.ts\<close>): messages of the tracker, inventory updates and
  WebRTC signals, and the JSON value each message is sent as. Peers inside a message are of any
  type: the tracker keeps millisecond timestamps, clients keep the text they received.
\<close>

section \<open>Messages\<close>

datatype InventoryMessage =
    SegmentAvailable (im_broadcastId: string) (im_peerId: string) (im_segments: "string list") (im_replace: bool)
  | SegmentInventoryDelta (im_broadcastId: string) (im_peerId: string) (im_added: "string list") (im_removed: "string list")

datatype SegmentInventoryUpdate =
    DeltaUpdate (update_peerId: string) "string list" "string list"
  | ReplaceUpdate (update_peerId: string) "string list"

datatype signal_type = WebRtcOffer | WebRtcAnswer

record WebRtcSignalMessage =
  sig_type :: signal_type
  sig_broadcastId :: string
  sig_peerId :: string
  sig_targetPeerId :: string
  sig_requestId :: string
  sig_sdp :: string

datatype 'p WsServerMessage =
    PeerJoined string 'p
  | PeerLeft string string
  | Inventory InventoryMessage
  | InventoryBatch string "SegmentInventoryUpdate list"
  | StatsUpdate string string jsval
  | PeerList string "'p list"
  | Signal WebRtcSignalMessage

fun message_broadcast :: "'p WsServerMessage \<Rightarrow> string" where
  "message_broadcast (PeerJoined b p) = b"
| "message_broadcast (PeerLeft b p) = b"
| "message_broadcast (Inventory m) = im_broadcastId m"
| "message_broadcast (InventoryBatch b us) = b"
| "message_broadcast (StatsUpdate b p s) = b"
| "message_broadcast (PeerList b ps) = b"
| "message_broadcast (Signal s) = sig_broadcastId s"

definition WS_FEATURE_INVENTORY_BATCH :: string where
  "WS_FEATURE_INVENTORY_BATCH = ''inventory_batch''"

definition WS_FEATURE_NEIGHBOR_VIEW :: string where
  "WS_FEATURE_NEIGHBOR_VIEW = ''neighbor_view''"

section \<open>JSON values\<close>

text \<open>What \<^verbatim>\<open>JSON.parse\<close> gives back for the \<^verbatim>\<open>JSON.stringify\<close> of a message: fields in order, absent
  ones left out. \<open>peer_json\<close> renders a peer.\<close>

definition strings_value :: "string list \<Rightarrow> jsval" where
  "strings_value ss = Array (map Str ss)"

fun optional_field :: "string \<Rightarrow> ('a \<Rightarrow> jsval) \<Rightarrow> 'a option \<Rightarrow> (string \<times> jsval) list" where
  "optional_field k f None = []"
| "optional_field k f (Some x) = [(k, f x)]"

fun update_value :: "SegmentInventoryUpdate \<Rightarrow> jsval" where
  "update_value (DeltaUpdate p added removed) =
     Object [(''peerId'', Str p), (''added'', strings_value added), (''removed'', strings_value removed)]"
| "update_value (ReplaceUpdate p segments) =
     Object [(''peerId'', Str p), (''segments'', strings_value segments), (''replace'', Boolean True)]"

fun signal_name :: "signal_type \<Rightarrow> string" where
  "signal_name WebRtcOffer = ''webrtc_offer''"
| "signal_name WebRtcAnswer = ''webrtc_answer''"

fun message_value :: "('p \<Rightarrow> jsval) \<Rightarrow> 'p WsServerMessage \<Rightarrow> jsval" where
  "message_value peer_json (PeerJoined b p) =
     Object [(''type'', Str ''peer_joined''), (''broadcastId'', Str b), (''peer'', peer_json p)]"
| "message_value peer_json (PeerLeft b p) =
     Object [(''type'', Str ''peer_left''), (''broadcastId'', Str b), (''peerId'', Str p)]"
| "message_value peer_json (Inventory (SegmentAvailable b p segments replace)) =
     Object ([(''type'', Str ''segment_available''), (''broadcastId'', Str b), (''peerId'', Str p),
       (''segments'', strings_value segments)] @ (if replace then [(''replace'', Boolean True)] else []))"
| "message_value peer_json (Inventory (SegmentInventoryDelta b p added removed)) =
     Object [(''type'', Str ''segment_inventory_delta''), (''broadcastId'', Str b), (''peerId'', Str p),
       (''added'', strings_value added), (''removed'', strings_value removed)]"
| "message_value peer_json (InventoryBatch b updates) =
     Object [(''type'', Str ''segment_inventory_batch''), (''broadcastId'', Str b),
       (''updates'', Array (map update_value updates))]"
| "message_value peer_json (StatsUpdate b p stats) =
     Object [(''type'', Str ''stats_update''), (''broadcastId'', Str b), (''peerId'', Str p),
       (''stats'', stats)]"
| "message_value peer_json (PeerList b ps) =
     Object [(''type'', Str ''peer_list''), (''broadcastId'', Str b), (''peers'', Array (map peer_json ps))]"
| "message_value peer_json (Signal s) =
     Object [(''type'', Str (signal_name (sig_type s))), (''broadcastId'', Str (sig_broadcastId s)),
       (''peerId'', Str (sig_peerId s)), (''targetPeerId'', Str (sig_targetPeerId s)),
       (''requestId'', Str (sig_requestId s)), (''sdp'', Str (sig_sdp s))]"

text \<open>\<open>toISO\<close> is \<^verbatim>\<open>new Date(ms).toISOString()\<close>.\<close>

definition metadata_value :: "metadata \<Rightarrow> jsval" where
  "metadata_value m = Object (map (\<lambda>(k, v). (k, Str v)) m)"

definition peer_value :: "(int \<Rightarrow> string) \<Rightarrow> Peer \<Rightarrow> jsval" where
  "peer_value toISO p = Object
     ([(''id'', Str (peer_id p)), (''address'', Str (peer_address p))] @
      optional_field ''uploadBandwidthBps'' Number (peer_uploadBandwidthBps p) @
      optional_field ''metadata'' metadata_value (peer_metadata p) @
      [(''segments'', strings_value (peer_segments p)),
       (''joinedAt'', Str (toISO (peer_joinedAt p))), (''lastSeenAt'', Str (toISO (peer_lastSeenAt p))),
       (''latencyMs'', Number (peer_latencyMs p)), (''successRate'', Number (peer_successRate p)),
       (''trustScore'', Number (peer_trustScore p))])"

end
