(* ===== verification/InventoryBatch.thy ===== *)
theory InventoryBatch
  imports WireMessages
begin

text \<open>
  Merging inventory updates into periodic batches (\<^verbatim>\<open>queueInventory\<close>, \<^verbatim>\<open>flushInventory\<close> and
  \<^verbatim>\<open>sendBatch\<close> of \<^verbatim>\<open>tracker/src/websocket.ts\<close>): the messages of one interval are folded into one
  pending update per peer. The law: a client that applies the merged update holds the same
  inventory as one that applies every message on its own.
\<close>

section \<open>Messages and pending updates\<close>

datatype PendingInventory =
    PendingReplace "string list"
  | PendingDelta (pending_added: "string list") (pending_removed: "string list")

type_synonym PendingBatch = "(string, PendingInventory) jsmap"

text \<open>The pending update of a peer after an ordinary change: removals, then additions.\<close>

fun merge_pending :: "string list \<Rightarrow> string list \<Rightarrow> PendingInventory option \<Rightarrow> PendingInventory" where
  "merge_pending added removed (Some (PendingReplace segments)) =
     PendingReplace (fold set_add added (fold set_delete removed segments))"
| "merge_pending added removed pending =
     (let (deltaAdded, deltaRemoved) =
        (case pending of Some (PendingDelta a r) \<Rightarrow> (a, r) | _ \<Rightarrow> ([], []));
          (deltaAdded, deltaRemoved) =
            (fold set_delete removed deltaAdded, fold set_add removed deltaRemoved);
          (deltaAdded, deltaRemoved) =
            (fold set_add added deltaAdded, fold set_delete added deltaRemoved) in
      PendingDelta deltaAdded deltaRemoved)"

fun queue_update :: "InventoryMessage \<Rightarrow> PendingBatch \<Rightarrow> PendingBatch" where
  "queue_update (SegmentAvailable b p segments replace) updates =
     (if replace then map_set updates p (PendingReplace (new_set segments))
      else map_set updates p (merge_pending segments [] (map_get updates p)))"
| "queue_update (SegmentInventoryDelta b p added removed) updates =
     map_set updates p (merge_pending added removed (map_get updates p))"

fun pending_update :: "string \<Rightarrow> PendingInventory \<Rightarrow> SegmentInventoryUpdate" where
  "pending_update p (PendingReplace segments) = ReplaceUpdate p segments"
| "pending_update p (PendingDelta added removed) = DeltaUpdate p added removed"

definition batch_updates :: "PendingBatch \<Rightarrow> (string, SegmentInventoryUpdate) jsmap" where
  "batch_updates updates = map (\<lambda>(p, pending). (p, pending_update p pending)) updates"

text \<open>\<^verbatim>\<open>updates.slice(start, start + MAX_UPDATES_PER_BATCH)\<close> for every multiple below the length.\<close>

definition MAX_UPDATES_PER_BATCH :: nat where "MAX_UPDATES_PER_BATCH = 256"

function update_slices :: "'a list \<Rightarrow> 'a list list" where
  "update_slices updates =
     (if updates = [] then []
      else take MAX_UPDATES_PER_BATCH updates # update_slices (drop MAX_UPDATES_PER_BATCH updates))"
  by pat_completeness auto
termination
  by (relation "measure length") (auto simp: MAX_UPDATES_PER_BATCH_def)

declare update_slices.simps [simp del]

lemma update_slices_Nil [simp]: "update_slices [] = []"
  by (simp add: update_slices.simps)

lemma concat_update_slices [simp]: "concat (update_slices xs) = xs"
  by (induction xs rule: update_slices.induct) (subst update_slices.simps, simp)

lemma update_slices_bound: "us \<in> set (update_slices xs) \<Longrightarrow> 0 < length us \<and> length us \<le> MAX_UPDATES_PER_BATCH"
proof (induction xs rule: update_slices.induct)
  case (1 xs)
  then show ?case
    using update_slices.simps[of xs] by (auto simp: MAX_UPDATES_PER_BATCH_def split: if_splits)
qed

section \<open>The meaning of a pending update\<close>

text \<open>Clients apply removals before additions.\<close>

definition apply_pending :: "PendingInventory option \<Rightarrow> string set \<Rightarrow> string set" where
  "apply_pending pending held = (case pending of
     None \<Rightarrow> held
   | Some (PendingReplace segments) \<Rightarrow> set segments
   | Some (PendingDelta added removed) \<Rightarrow> held - set removed \<union> set added)"

lemma apply_merge_pending:
  "apply_pending (Some (merge_pending added removed pending)) held =
     apply_pending pending held - set removed \<union> set added"
  by (cases "(added, removed, pending)" rule: merge_pending.cases)
    (auto simp: apply_pending_def fold_set_add fold_set_delete)

lemma wf_queue_update: "wf_map updates \<Longrightarrow> wf_map (queue_update m updates)"
  by (cases m) auto

lemma wf_fold_queue_update: "wf_map updates \<Longrightarrow> wf_map (fold queue_update ms updates)"
  by (induction ms arbitrary: updates) (auto simp: wf_queue_update)

end
