(* ===== verification/WebSocketHub.thy ===== *)
theory WebSocketHub
  imports TrackerStore TrackerAccess NeighborViews InventoryBatch TokenBucket
begin

text \<open>
  The tracker's WebSocket hub (\<^verbatim>\<open>tracker/src/websocket.ts\<close>): upgrades and their limits, sessions and
  subscriptions, client messages, the index of subscribers, fan-out, inventory batches and
  neighbor-view announcements. Sockets are numbers in the order of their upgrades; an operation
  appends what it sends to \<open>wh_outbox\<close> and what it closes to \<open>wh_closed\<close>. The environment decides
  whether a send fails or finds a full buffer; timers and deferred turns are events. Downstream
  listeners (server-sent events of the dashboard) do not change the hub's state and are left out.
\<close>

section \<open>State\<close>

record Subscription =
  sub_broadcastId :: string
  sub_peerId :: string
  sub_inventoryBatch :: bool
  sub_neighborView :: bool

definition EMPTY_SUBSCRIPTION :: Subscription where
  "EMPTY_SUBSCRIPTION = \<lparr>sub_broadcastId = [], sub_peerId = [], sub_inventoryBatch = False,
     sub_neighborView = False\<rparr>"

text \<open>\<open>bsu_identity\<close> tells subscriber objects apart (\<^verbatim>\<open>===\<close>).\<close>

record BroadcastSubscribers =
  bsu_identity :: nat
  bsu_immediate :: "nat list"
  bsu_batched :: "nat list"
  bsu_viewers :: "(string, nat list) jsmap"

record MessageBudget =
  mb_tokens :: number
  mb_updatedAt :: int

text \<open>A flush whose remaining viewers wait for the next event-loop turn.\<close>

record ViewerBatch =
  vb_broadcastId :: string
  vb_subscribers :: nat
  vb_updates :: "(string, SegmentInventoryUpdate) jsmap"
  vb_viewerIds :: "string list"
  vb_start :: nat

datatype close_reason =
    UnsupportedData | RateExceeded | InvalidMessage | BroadcastRemoved | SessionExpired | Terminated

record UpgradesRejected =
  ur_origin :: nat
  ur_auth :: nat
  ur_connectionLimit :: nat

record 'g Hub =
  wh_store :: TrackerStore
  wh_subscriptions :: "(nat, Subscription) jsmap"
  wh_subscribers :: "(string, BroadcastSubscribers) jsmap"
  wh_pendingInventory :: "(string, PendingBatch) jsmap"
  wh_flushing :: "string list"
  wh_flushRequested :: "string list"
  wh_turns :: "ViewerBatch list"
  wh_sessions :: "(nat, PeerSessionClaims) jsmap"
  wh_messageBudgets :: "(nat, MessageBudget) jsmap"
  wh_inventoryLimiter :: InventoryRateLimiter
  wh_connectionIps :: "(nat, string) jsmap"
  wh_connectionsPerIp :: "(string, nat) jsmap"
  wh_upgrading :: "(nat, string \<times> PeerSessionClaims) jsmap"
  wh_expiryTimers :: "nat list"
  wh_neighborViews :: "NeighborViews option"
  wh_random :: 'g
  wh_messagesSent :: nat
  wh_bytesSent :: nat
  wh_upgradesRejected :: UpgradesRejected
  wh_listening :: bool
  wh_open :: "nat list"
  wh_nextSocket :: nat
  wh_nextIdentity :: nat
  wh_attempts :: nat
  wh_outbox :: "(nat \<times> Peer WsServerMessage) list"
  wh_closed :: "(nat \<times> close_reason) list"

text \<open>What the hub is given: its options, the token service with the hash and the text decoding it
  rests on, random numbers, the size of a serialised message, and for every attempt to send the
  buffered amount of the socket and whether \<^verbatim>\<open>send\<close> throws.\<close>

record 'g HubEnv =
  he_allowedOrigins :: "string list"
  he_maxConnectionsPerIp :: nat
  he_trustProxyHops :: nat
  he_viewersPerFlushTurn :: nat
  he_peerSessions :: PeerSessionTokenService
  he_hmac :: "string \<Rightarrow> string \<Rightarrow> string"
  he_decodeJson :: "string \<Rightarrow> jsval option"
  he_drawNumber :: "'g random"
  he_byteLength :: "Peer WsServerMessage \<Rightarrow> nat"
  he_socket :: "nat \<Rightarrow> nat \<Rightarrow> nat \<times> bool"

definition MAX_BUFFERED_WEB_SOCKET_BYTES :: nat where "MAX_BUFFERED_WEB_SOCKET_BYTES = 1024 * 1024"
definition MESSAGE_RATE_PER_SECOND :: nat where "MESSAGE_RATE_PER_SECOND = 20"
definition MESSAGE_BURST :: nat where "MESSAGE_BURST = 40"
definition MAX_SUBSCRIBE_FEATURES :: nat where "MAX_SUBSCRIBE_FEATURES = 16"

definition new_hub :: "TrackerStore \<Rightarrow> InventoryRateLimiter \<Rightarrow> nat \<Rightarrow> 'g \<Rightarrow> 'g Hub" where
  "new_hub store limiter neighborViewSize g =
     \<lparr>wh_store = store, wh_subscriptions = [], wh_subscribers = [], wh_pendingInventory = [],
      wh_flushing = [], wh_flushRequested = [], wh_turns = [], wh_sessions = [],
      wh_messageBudgets = [], wh_inventoryLimiter = limiter, wh_connectionIps = [],
      wh_connectionsPerIp = [], wh_upgrading = [], wh_expiryTimers = [],
      wh_neighborViews = (if neighborViewSize > 0 then Some (new_views neighborViewSize) else None),
      wh_random = g, wh_messagesSent = 0, wh_bytesSent = 0,
      wh_upgradesRejected = \<lparr>ur_origin = 0, ur_auth = 0, ur_connectionLimit = 0\<rparr>,
      wh_listening = True, wh_open = [], wh_nextSocket = 0, wh_nextIdentity = 0, wh_attempts = 0,
      wh_outbox = [], wh_closed = []\<rparr>"

section \<open>Sockets\<close>

definition close_socket :: "close_reason \<Rightarrow> nat \<Rightarrow> 'g Hub \<Rightarrow> 'g Hub" where
  "close_socket reason socket h =
     h\<lparr>wh_open := removeAll socket (wh_open h), wh_closed := wh_closed h @ [(socket, reason)]\<rparr>"

definition sendSerialized :: "'g HubEnv \<Rightarrow> Peer WsServerMessage \<Rightarrow> nat \<Rightarrow> 'g Hub \<Rightarrow> 'g Hub" where
  "sendSerialized env message socket h =
     (if socket \<notin> set (wh_open h) then h
      else (case he_socket env socket (wh_attempts h) of
        (bufferedAmount, throws) \<Rightarrow>
          (let h1 = h\<lparr>wh_attempts := wh_attempts h + 1\<rparr> in
           if bufferedAmount > MAX_BUFFERED_WEB_SOCKET_BYTES then close_socket Terminated socket h1
           else if throws then close_socket Terminated socket h1
           else h1\<lparr>wh_outbox := wh_outbox h1 @ [(socket, message)],
                   wh_messagesSent := wh_messagesSent h1 + 1,
                   wh_bytesSent := wh_bytesSent h1 + he_byteLength env message\<rparr>)))"

text \<open>\<^verbatim>\<open>for (const socket of sockets) this.sendSerialized(socket, payload, bytes)\<close>\<close>

definition send_all :: "'g HubEnv \<Rightarrow> Peer WsServerMessage \<Rightarrow> nat list \<Rightarrow> 'g Hub \<Rightarrow> 'g Hub" where
  "send_all env message sockets h = fold (sendSerialized env message) sockets h"

definition broadcast :: "'g HubEnv \<Rightarrow> Peer WsServerMessage \<Rightarrow> 'g Hub \<Rightarrow> 'g Hub" where
  "broadcast env message h =
     (case map_get (wh_subscribers h) (message_broadcast message) of
        None \<Rightarrow> h
      | Some subscribers \<Rightarrow>
          send_all env message (bsu_batched subscribers)
            (send_all env message (bsu_immediate subscribers) h))"

definition viewer_sockets :: "string \<Rightarrow> string \<Rightarrow> 'g Hub \<Rightarrow> nat list" where
  "viewer_sockets broadcastId peerId h = (case map_get (wh_subscribers h) broadcastId of
     None \<Rightarrow> []
   | Some s \<Rightarrow> (case map_get (bsu_viewers s) peerId of None \<Rightarrow> [] | Some sockets \<Rightarrow> sockets))"

definition hasViewer :: "string \<Rightarrow> string \<Rightarrow> 'g Hub \<Rightarrow> bool" where
  "hasViewer broadcastId peerId h \<longleftrightarrow> viewer_sockets broadcastId peerId h \<noteq> []"

definition sendToViewer :: "'g HubEnv \<Rightarrow> Peer WsServerMessage \<Rightarrow> string \<Rightarrow> 'g Hub \<Rightarrow> 'g Hub" where
  "sendToViewer env message peerId h =
     send_all env message (viewer_sockets (message_broadcast message) peerId h) h"

section \<open>The index of subscribers\<close>

definition subscribersOf :: "string \<Rightarrow> 'g Hub \<Rightarrow> nat list" where
  "subscribersOf broadcastId h = (case map_get (wh_subscribers h) broadcastId of
     None \<Rightarrow> []
   | Some s \<Rightarrow> bsu_immediate s @ bsu_batched s @ concat (map_values (bsu_viewers s)))"

definition no_subscribers :: "BroadcastSubscribers \<Rightarrow> bool" where
  "no_subscribers s \<longleftrightarrow> bsu_immediate s = [] \<and> bsu_batched s = [] \<and> bsu_viewers s = []"

definition drop_subscriber :: "nat \<Rightarrow> string \<Rightarrow> BroadcastSubscribers \<Rightarrow> BroadcastSubscribers" where
  "drop_subscriber socket peerId s =
     s\<lparr>bsu_immediate := set_delete socket (bsu_immediate s),
       bsu_batched := set_delete socket (bsu_batched s),
       bsu_viewers := (case map_get (bsu_viewers s) peerId of
          None \<Rightarrow> bsu_viewers s
        | Some sockets \<Rightarrow>
            if set_delete socket sockets = [] then map_delete (bsu_viewers s) peerId
            else map_set (bsu_viewers s) peerId (set_delete socket sockets))\<rparr>"

definition unindexSubscription :: "nat \<Rightarrow> 'g Hub \<Rightarrow> 'g Hub" where
  "unindexSubscription socket h =
     (case map_get (wh_subscriptions h) socket of
        None \<Rightarrow> h
      | Some subscription \<Rightarrow>
          if sub_broadcastId subscription = [] then h
          else
            (case map_get (wh_subscribers h) (sub_broadcastId subscription) of
               None \<Rightarrow> h
             | Some s \<Rightarrow>
                 (let s' = drop_subscriber socket (sub_peerId subscription) s in
                  h\<lparr>wh_subscribers :=
                    (if no_subscribers s'
                     then map_delete (wh_subscribers h) (sub_broadcastId subscription)
                     else map_set (wh_subscribers h) (sub_broadcastId subscription) s')\<rparr>)))"

definition add_subscriber :: "nat \<Rightarrow> Subscription \<Rightarrow> BroadcastSubscribers \<Rightarrow> BroadcastSubscribers" where
  "add_subscriber socket subscription s =
     (if sub_neighborView subscription then
        s\<lparr>bsu_viewers := map_set (bsu_viewers s) (sub_peerId subscription)
            (set_add socket (case map_get (bsu_viewers s) (sub_peerId subscription) of
               None \<Rightarrow> [] | Some sockets \<Rightarrow> sockets))\<rparr>
      else if sub_inventoryBatch subscription then s\<lparr>bsu_batched := set_add socket (bsu_batched s)\<rparr>
      else s\<lparr>bsu_immediate := set_add socket (bsu_immediate s)\<rparr>)"

definition setSubscription :: "nat \<Rightarrow> Subscription \<Rightarrow> 'g Hub \<Rightarrow> 'g Hub" where
  "setSubscription socket subscription h =
     (let h1 = unindexSubscription socket h;
          h2 = h1\<lparr>wh_subscriptions := map_set (wh_subscriptions h1) socket subscription\<rparr>;
          b = sub_broadcastId subscription in
      case map_get (wh_subscribers h2) b of
        Some s \<Rightarrow> h2\<lparr>wh_subscribers := map_set (wh_subscribers h2) b (add_subscriber socket subscription s)\<rparr>
      | None \<Rightarrow>
          h2\<lparr>wh_subscribers := map_set (wh_subscribers h2) b
               (add_subscriber socket subscription
                 \<lparr>bsu_identity = wh_nextIdentity h2, bsu_immediate = [], bsu_batched = [], bsu_viewers = []\<rparr>),
             wh_nextIdentity := wh_nextIdentity h2 + 1\<rparr>)"

section \<open>Inventory batches\<close>

definition queueInventory :: "InventoryMessage \<Rightarrow> 'g Hub \<Rightarrow> 'g Hub" where
  "queueInventory message h =
     (let b = im_broadcastId message;
          batch = (case map_get (wh_pendingInventory h) b of None \<Rightarrow> [] | Some updates \<Rightarrow> updates) in
      h\<lparr>wh_pendingInventory := map_set (wh_pendingInventory h) b (queue_update message batch)\<rparr>)"

definition publishInventory :: "'g HubEnv \<Rightarrow> InventoryMessage \<Rightarrow> 'g Hub \<Rightarrow> 'g Hub" where
  "publishInventory env message h =
     (case map_get (wh_subscribers h) (im_broadcastId message) of
        None \<Rightarrow> h
      | Some s \<Rightarrow>
          (let h1 = send_all env (Inventory message) (bsu_immediate s) h in
           if bsu_batched s \<noteq> [] \<or> bsu_viewers s \<noteq> [] then queueInventory message h1 else h1))"

definition sendBatch ::
    "'g HubEnv \<Rightarrow> string \<Rightarrow> SegmentInventoryUpdate list \<Rightarrow> nat list \<Rightarrow> 'g Hub \<Rightarrow> 'g Hub" where
  "sendBatch env broadcastId updates recipients h =
     fold (\<lambda>slice. send_all env (InventoryBatch broadcastId slice) recipients) (update_slices updates) h"

text \<open>The updates a viewer receives: those of the peers it currently sees, walking whichever side is
  smaller.\<close>

definition relevant_updates ::
    "string list \<Rightarrow> (string, SegmentInventoryUpdate) jsmap \<Rightarrow> SegmentInventoryUpdate list" where
  "relevant_updates view updates =
     (if length view < length updates
      then List.map_filter (\<lambda>neighbor. map_get updates neighbor) view
      else filter (\<lambda>update. update_peerId update \<in> set view) (map_values updates))"

definition send_to_viewer_batch ::
    "'g HubEnv \<Rightarrow> string \<Rightarrow> (string, SegmentInventoryUpdate) jsmap \<Rightarrow> string \<Rightarrow> 'g Hub \<Rightarrow> 'g Hub" where
  "send_to_viewer_batch env broadcastId updates peerId h =
     (case (case map_get (wh_subscribers h) broadcastId of
              None \<Rightarrow> None | Some s \<Rightarrow> map_get (bsu_viewers s) peerId,
            case wh_neighborViews h of None \<Rightarrow> None | Some nv \<Rightarrow> views_view broadcastId peerId nv) of
        (Some sockets, Some view) \<Rightarrow>
          (let relevant = relevant_updates view updates in
           if relevant \<noteq> [] then sendBatch env broadcastId relevant sockets h else h)
      | _ \<Rightarrow> h)"

text \<open>One turn of \<^verbatim>\<open>sendViewerBatches\<close>: the batch that continues in the next turn, if any.\<close>

definition viewer_turn :: "'g HubEnv \<Rightarrow> ViewerBatch \<Rightarrow> 'g Hub \<Rightarrow> ViewerBatch option \<times> 'g Hub" where
  "viewer_turn env batch h =
     (let b = vb_broadcastId batch;
          current = (case map_get (wh_subscribers h) b of
            None \<Rightarrow> False | Some s \<Rightarrow> bsu_identity s = vb_subscribers batch);
          end' = (if current
            then min (vb_start batch + he_viewersPerFlushTurn env) (length (vb_viewerIds batch))
            else vb_start batch);
          h1 = fold (send_to_viewer_batch env b (vb_updates batch))
            (take (end' - vb_start batch) (drop (vb_start batch) (vb_viewerIds batch))) h in
      (if current \<and> end' < length (vb_viewerIds batch) then Some (batch\<lparr>vb_start := end'\<rparr>) else None, h1))"

text \<open>\<^verbatim>\<open>flushInventory\<close> after its first check: the batch of viewers to serve, if any.\<close>

definition begin_flush :: "'g HubEnv \<Rightarrow> string \<Rightarrow> 'g Hub \<Rightarrow> ViewerBatch option \<times> 'g Hub" where
  "begin_flush env broadcastId h =
     (let h1 = h\<lparr>wh_pendingInventory := map_delete (wh_pendingInventory h) broadcastId\<rparr> in
      case (map_get (wh_pendingInventory h) broadcastId, map_get (wh_subscribers h) broadcastId) of
        (Some pending, Some s) \<Rightarrow>
          if pending = [] then (None, h1)
          else
            (let updates = batch_updates pending;
                 h2 = (if bsu_batched s \<noteq> []
                   then sendBatch env broadcastId (map_values updates) (bsu_batched s) h1 else h1) in
             if bsu_viewers s = [] then (None, h2)
             else (Some \<lparr>vb_broadcastId = broadcastId, vb_subscribers = bsu_identity s,
                     vb_updates = updates, vb_viewerIds = map_keys (bsu_viewers s), vb_start = 0\<rparr>,
                   h2\<lparr>wh_flushing := set_add broadcastId (wh_flushing h2)\<rparr>))
      | _ \<Rightarrow> (None, h1))"

lemma send_frame [simp]:
  "wh_flushRequested (send_all env m ss h) = wh_flushRequested h"
  "wh_flushing (send_all env m ss h) = wh_flushing h"
  "wh_turns (send_all env m ss h) = wh_turns h"
  by (induction ss arbitrary: h)
    (simp_all add: send_all_def sendSerialized_def close_socket_def Let_def split: prod.split)

lemma sendBatch_frame [simp]:
  "wh_flushRequested (sendBatch env b us ss h) = wh_flushRequested h"
  "wh_flushing (sendBatch env b us ss h) = wh_flushing h"
  "wh_turns (sendBatch env b us ss h) = wh_turns h"
proof -
  have "wh_flushRequested (fold f slices h) = wh_flushRequested h \<and>
      wh_flushing (fold f slices h) = wh_flushing h \<and> wh_turns (fold f slices h) = wh_turns h"
    if "f = (\<lambda>slice. send_all env (InventoryBatch b slice) ss)" for f slices
    unfolding that by (induction slices arbitrary: h) simp_all
  then show "wh_flushRequested (sendBatch env b us ss h) = wh_flushRequested h"
    "wh_flushing (sendBatch env b us ss h) = wh_flushing h"
    "wh_turns (sendBatch env b us ss h) = wh_turns h" by (simp_all add: sendBatch_def)
qed

lemma viewer_batch_frame [simp]:
  "wh_flushRequested (send_to_viewer_batch env b us p h) = wh_flushRequested h"
  "wh_flushing (send_to_viewer_batch env b us p h) = wh_flushing h"
  "wh_turns (send_to_viewer_batch env b us p h) = wh_turns h"
  by (simp_all add: send_to_viewer_batch_def Let_def split: option.split)

lemma viewer_turn_frame:
  assumes "viewer_turn env batch h = (r, h')"
  shows "wh_flushRequested h' = wh_flushRequested h \<and> wh_flushing h' = wh_flushing h \<and> wh_turns h' = wh_turns h"
proof -
  have "wh_flushRequested (fold (send_to_viewer_batch env b us) ps h) = wh_flushRequested h \<and>
      wh_flushing (fold (send_to_viewer_batch env b us) ps h) = wh_flushing h \<and>
      wh_turns (fold (send_to_viewer_batch env b us) ps h) = wh_turns h" for b us ps
    by (induction ps arbitrary: h) simp_all
  then show ?thesis using assms by (auto simp: viewer_turn_def Let_def)
qed

lemma begin_flush_frame:
  "begin_flush env b h = (r, h') \<Longrightarrow> wh_flushRequested h' = wh_flushRequested h \<and> wh_turns h' = wh_turns h"
  by (auto simp: begin_flush_def Let_def split: option.splits if_splits)

function sendViewerBatches :: "'g HubEnv \<Rightarrow> ViewerBatch \<Rightarrow> 'g Hub \<Rightarrow> 'g Hub" where
  "sendViewerBatches env batch h =
     (case viewer_turn env batch h of
        (Some rest, h1) \<Rightarrow> h1\<lparr>wh_turns := wh_turns h1 @ [rest]\<rparr>
      | (None, h1) \<Rightarrow>
          (let b = vb_broadcastId batch;
               h2 = h1\<lparr>wh_flushing := set_delete b (wh_flushing h1)\<rparr> in
           if b \<in> set (wh_flushRequested h2) then
             (case begin_flush env b (h2\<lparr>wh_flushRequested := set_delete b (wh_flushRequested h2)\<rparr>) of
                (None, h3) \<Rightarrow> h3
              | (Some next_batch, h3) \<Rightarrow> sendViewerBatches env next_batch h3)
           else h2))"
  by pat_completeness auto
termination
  by (relation "measure (\<lambda>(_, _, h). length (wh_flushRequested h))")
    (auto dest!: viewer_turn_frame[OF sym] begin_flush_frame[OF sym] intro: length_set_delete_less)

declare sendViewerBatches.simps [simp del]

definition flushInventory :: "'g HubEnv \<Rightarrow> string \<Rightarrow> 'g Hub \<Rightarrow> 'g Hub" where
  "flushInventory env broadcastId h =
     (if broadcastId \<in> set (wh_flushing h)
      then h\<lparr>wh_flushRequested := set_add broadcastId (wh_flushRequested h)\<rparr>
      else (case begin_flush env broadcastId h of
        (None, h1) \<Rightarrow> h1
      | (Some batch, h1) \<Rightarrow> sendViewerBatches env batch h1))"

text \<open>The next event-loop turn runs the oldest deferred batch.\<close>

definition run_viewer_turn :: "'g HubEnv \<Rightarrow> 'g Hub \<Rightarrow> 'g Hub" where
  "run_viewer_turn env h = (case wh_turns h of
     [] \<Rightarrow> h
   | batch # turns \<Rightarrow> sendViewerBatches env batch (h\<lparr>wh_turns := turns\<rparr>))"

section \<open>Neighbor views\<close>

definition seeded_views :: "string \<Rightarrow> TrackerStore \<Rightarrow> NeighborViews \<Rightarrow> NeighborViews" where
  "seeded_views broadcastId store views =
     (if views_has broadcastId views then views
      else (case listPeers broadcastId None store of
        Inl e \<Rightarrow> views
      | Inr peers \<Rightarrow> fold (\<lambda>peer. views_add broadcastId (peer_id peer)) peers views))"

definition announceFill ::
    "'g HubEnv \<Rightarrow> string \<Rightarrow> string \<Rightarrow> NeighborViewFill \<Rightarrow> (string \<Rightarrow> Peer option) \<Rightarrow> 'g Hub \<Rightarrow> 'g Hub" where
  "announceFill env broadcastId peerId filled lookup h =
     (let h1 = (if hasViewer broadcastId peerId h
            then fold (\<lambda>added h. case lookup added of
                None \<Rightarrow> h
              | Some peer \<Rightarrow> sendToViewer env (PeerJoined broadcastId peer) peerId h) (fill_added filled) h
            else h);
          watchers = filter (\<lambda>watcher. hasViewer broadcastId watcher h1) (fill_reciprocal filled);
          h2 = (case (if watchers \<noteq> [] then lookup peerId else None) of
              None \<Rightarrow> h1
            | Some peer \<Rightarrow> fold (sendToViewer env (PeerJoined broadcastId peer)) watchers h1) in
      fold (\<lambda>(watcher, dropped). sendToViewer env (PeerLeft broadcastId dropped) watcher)
        (fill_evicted filled) h2)"

text \<open>\<^verbatim>\<open>this.announceFill(broadcastId, peerId, views.fill(broadcastId, peerId), lookup)\<close>\<close>

definition fill_and_announce ::
    "'g HubEnv \<Rightarrow> string \<Rightarrow> string \<Rightarrow> (string \<Rightarrow> Peer option) \<Rightarrow> NeighborViews \<Rightarrow> 'g Hub \<Rightarrow> 'g Hub" where
  "fill_and_announce env broadcastId peerId lookup views h =
     (case views_fill (he_drawNumber env) broadcastId peerId views (wh_random h) of
        (filled, views', g) \<Rightarrow>
          announceFill env broadcastId peerId filled lookup
            (h\<lparr>wh_neighborViews := Some views', wh_random := g\<rparr>))"

section \<open>Tracker events\<close>

definition peerJoined :: "'g HubEnv \<Rightarrow> string \<Rightarrow> Peer \<Rightarrow> 'g Hub \<Rightarrow> 'g Hub" where
  "peerJoined env broadcastId peer h =
     (let h1 = broadcast env (PeerJoined broadcastId peer) h in
      case wh_neighborViews h1 of
        None \<Rightarrow> h1
      | Some views0 \<Rightarrow>
          (let views = views_add broadcastId (peer_id peer) (seeded_views broadcastId (wh_store h1) views0) in
           fill_and_announce env broadcastId (peer_id peer)
             (\<lambda>q. if q = peer_id peer then Some peer else getPeer broadcastId q (wh_store h1)) views h1))"

definition replace_neighbor :: "'g HubEnv \<Rightarrow> string \<Rightarrow> string \<Rightarrow> string \<Rightarrow> 'g Hub \<Rightarrow> 'g Hub" where
  "replace_neighbor env broadcastId peerId watcher h =
     (let h1 = sendToViewer env (PeerLeft broadcastId peerId) watcher h in
      case wh_neighborViews h1 of
        None \<Rightarrow> h1
      | Some views \<Rightarrow> fill_and_announce env broadcastId watcher
          (\<lambda>q. getPeer broadcastId q (wh_store h1)) views h1)"

definition peerLeft :: "'g HubEnv \<Rightarrow> string \<Rightarrow> string \<Rightarrow> 'g Hub \<Rightarrow> 'g Hub" where
  "peerLeft env broadcastId peerId h =
     (let h1 = h\<lparr>wh_pendingInventory :=
            map_adjust (wh_pendingInventory h) broadcastId (\<lambda>updates. map_delete updates peerId)\<rparr>;
          h2 = broadcast env (PeerLeft broadcastId peerId) h1 in
      case wh_neighborViews h2 of
        None \<Rightarrow> h2
      | Some views \<Rightarrow>
          (case views_leave broadcastId peerId views of
             (lost, views') \<Rightarrow> fold (replace_neighbor env broadcastId peerId) lost
               (h2\<lparr>wh_neighborViews := Some views'\<rparr>)))"

definition segmentsAvailable ::
    "'g HubEnv \<Rightarrow> string \<Rightarrow> string \<Rightarrow> string list \<Rightarrow> bool \<Rightarrow> 'g Hub \<Rightarrow> 'g Hub" where
  "segmentsAvailable env broadcastId peerId segments replace h =
     publishInventory env (SegmentAvailable broadcastId peerId segments replace) h"

definition peerView :: "string \<Rightarrow> string \<Rightarrow> 'g Hub \<Rightarrow> string list option" where
  "peerView broadcastId peerId h = (case wh_neighborViews h of
     None \<Rightarrow> None | Some views \<Rightarrow> views_view broadcastId peerId views)"

definition drop_broadcast_socket :: "nat \<Rightarrow> 'g Hub \<Rightarrow> 'g Hub" where
  "drop_broadcast_socket socket h =
     (let h1 = unindexSubscription socket h in
      close_socket BroadcastRemoved socket
        (h1\<lparr>wh_subscriptions := map_set (wh_subscriptions h1) socket EMPTY_SUBSCRIPTION\<rparr>))"

definition broadcastRemoved :: "string \<Rightarrow> 'g Hub \<Rightarrow> 'g Hub" where
  "broadcastRemoved broadcastId h =
     (let h1 = h\<lparr>wh_pendingInventory := map_delete (wh_pendingInventory h) broadcastId,
                 wh_neighborViews := map_option (views_remove broadcastId) (wh_neighborViews h)\<rparr> in
      fold drop_broadcast_socket (subscribersOf broadcastId h1) h1)"

record TrackerWebSocketStats =
  wss_immediate :: nat
  wss_batched :: nat
  wss_neighborView :: nat
  wss_messagesSent :: nat
  wss_bytesSent :: nat
  wss_upgradesRejected :: UpgradesRejected

definition webSocketStats :: "'g Hub \<Rightarrow> TrackerWebSocketStats" where
  "webSocketStats h =
     (let ss = map_values (wh_subscribers h) in
      \<lparr>wss_immediate = sum_list (map (\<lambda>s. length (bsu_immediate s)) ss),
       wss_batched = sum_list (map (\<lambda>s. length (bsu_batched s)) ss),
       wss_neighborView = sum_list (map (\<lambda>s. sum_list (map length (map_values (bsu_viewers s)))) ss),
       wss_messagesSent = wh_messagesSent h, wss_bytesSent = wh_bytesSent h,
       wss_upgradesRejected = wh_upgradesRejected h\<rparr>)"

definition stop_hub :: "'g Hub \<Rightarrow> 'g Hub" where
  "stop_hub h = fold (close_socket Terminated) (wh_open h)
     (h\<lparr>wh_listening := False, wh_pendingInventory := [], wh_flushRequested := []\<rparr>)"

section \<open>Upgrades\<close>

text \<open>What the hub reads of an upgrade request; its URL comes parsed.\<close>

record UpgradeRequest =
  up_pathname :: string
  up_sessionToken :: "string option"
  up_origin :: "string option"
  up_authorization :: http_header
  up_forwardedFor :: http_header
  up_remoteAddress :: "string option"

definition isOriginAllowed :: "'g HubEnv \<Rightarrow> string option \<Rightarrow> bool" where
  "isOriginAllowed env origin = (case origin of
     None \<Rightarrow> True
   | Some value \<Rightarrow> he_allowedOrigins env = [] \<or> value \<in> set (he_allowedOrigins env))"

definition peerExists :: "PeerSessionClaims \<Rightarrow> 'g Hub \<Rightarrow> bool" where
  "peerExists claims h \<longleftrightarrow> getPeer (claim_broadcastId claims) (claim_peerId claims) (wh_store h) \<noteq> None"

definition connections :: "string \<Rightarrow> 'g Hub \<Rightarrow> nat" where
  "connections ip h = (case map_get (wh_connectionsPerIp h) ip of None \<Rightarrow> 0 | Some n \<Rightarrow> n)"

definition upgrade_token :: "UpgradeRequest \<Rightarrow> string option" where
  "upgrade_token request = (case bearerToken (up_authorization request) of
     Some token \<Rightarrow> Some token | None \<Rightarrow> up_sessionToken request)"

text \<open>An accepted upgrade reserves a connection of its address until the handshake ends.\<close>

definition handleUpgrade :: "'g HubEnv \<Rightarrow> UpgradeRequest \<Rightarrow> int \<Rightarrow> 'g Hub \<Rightarrow> 'g Hub" where
  "handleUpgrade env request now h =
     (if \<not> wh_listening h \<or> up_pathname request \<noteq> ''/ws'' then h
      else if \<not> isOriginAllowed env (up_origin request) then
        h\<lparr>wh_upgradesRejected := (wh_upgradesRejected h)\<lparr>ur_origin := ur_origin (wh_upgradesRejected h) + 1\<rparr>\<rparr>
      else
        (case session_verify (he_hmac env) (he_decodeJson env) (upgrade_token request) now (he_peerSessions env) of
           None \<Rightarrow> h\<lparr>wh_upgradesRejected :=
             (wh_upgradesRejected h)\<lparr>ur_auth := ur_auth (wh_upgradesRejected h) + 1\<rparr>\<rparr>
         | Some claims \<Rightarrow>
             if \<not> peerExists claims h then h\<lparr>wh_upgradesRejected :=
               (wh_upgradesRejected h)\<lparr>ur_auth := ur_auth (wh_upgradesRejected h) + 1\<rparr>\<rparr>
             else
               (let ip = clientAddress (up_remoteAddress request) (up_forwardedFor request) (he_trustProxyHops env) in
                if connections ip h \<ge> he_maxConnectionsPerIp env then h\<lparr>wh_upgradesRejected :=
                  (wh_upgradesRejected h)\<lparr>ur_connectionLimit := ur_connectionLimit (wh_upgradesRejected h) + 1\<rparr>\<rparr>
                else h\<lparr>wh_connectionsPerIp := map_set (wh_connectionsPerIp h) ip (connections ip h + 1),
                       wh_upgrading := map_set (wh_upgrading h) (wh_nextSocket h) (ip, claims),
                       wh_nextSocket := wh_nextSocket h + 1\<rparr>)))"

text \<open>\<^verbatim>\<open>(get(ip) ?? 1) - 1\<close>, with the entry deleted at zero.\<close>

definition release_connection :: "string \<Rightarrow> 'g Hub \<Rightarrow> 'g Hub" where
  "release_connection ip h =
     (let remaining = (case map_get (wh_connectionsPerIp h) ip of None \<Rightarrow> 1 | Some n \<Rightarrow> n) - 1 in
      h\<lparr>wh_connectionsPerIp :=
          (if remaining \<le> 0 then map_delete (wh_connectionsPerIp h) ip
           else map_set (wh_connectionsPerIp h) ip remaining)\<rparr>)"

definition handshake_failed :: "nat \<Rightarrow> 'g Hub \<Rightarrow> 'g Hub" where
  "handshake_failed socket h = (case map_get (wh_upgrading h) socket of
     None \<Rightarrow> h
   | Some (ip, claims) \<Rightarrow>
       release_connection ip (h\<lparr>wh_upgrading := map_delete (wh_upgrading h) socket\<rparr>))"

text \<open>The completed handshake, with the connection listener it triggers.\<close>

definition socket_connected :: "nat \<Rightarrow> int \<Rightarrow> 'g Hub \<Rightarrow> 'g Hub" where
  "socket_connected socket now h = (case map_get (wh_upgrading h) socket of
     None \<Rightarrow> h
   | Some (ip, claims) \<Rightarrow>
       h\<lparr>wh_upgrading := map_delete (wh_upgrading h) socket,
         wh_sessions := map_set (wh_sessions h) socket claims,
         wh_connectionIps := map_set (wh_connectionIps h) socket ip,
         wh_subscriptions := map_set (wh_subscriptions h) socket EMPTY_SUBSCRIPTION,
         wh_messageBudgets := map_set (wh_messageBudgets h) socket
           \<lparr>mb_tokens = nat_number MESSAGE_BURST, mb_updatedAt = now\<rparr>,
         wh_expiryTimers := wh_expiryTimers h @ [socket],
         wh_open := wh_open h @ [socket]\<rparr>)"

definition session_expired :: "nat \<Rightarrow> 'g Hub \<Rightarrow> 'g Hub" where
  "session_expired socket h =
     (if socket \<in> set (wh_expiryTimers h) then close_socket SessionExpired socket h else h)"

definition removeSocket :: "nat \<Rightarrow> 'g Hub \<Rightarrow> 'g Hub" where
  "removeSocket socket h =
     (let h1 = unindexSubscription socket (h\<lparr>wh_expiryTimers := removeAll socket (wh_expiryTimers h)\<rparr>);
          h2 = h1\<lparr>wh_subscriptions := map_delete (wh_subscriptions h1) socket,
                  wh_sessions := map_delete (wh_sessions h1) socket,
                  wh_messageBudgets := map_delete (wh_messageBudgets h1) socket,
                  wh_connectionIps := map_delete (wh_connectionIps h1) socket,
                  wh_open := removeAll socket (wh_open h1)\<rparr> in
      case map_get (wh_connectionIps h1) socket of
        None \<Rightarrow> h2
      | Some ip \<Rightarrow> if ip = [] then h2 else release_connection ip h2)"

section \<open>Client messages\<close>

datatype message_error =
    NotAnObject | MissingString string | SessionMismatch | BadFeatures | SubscriptionMismatch
  | BadNumber string | BadSegmentList | BadReplace | ReportRateExceeded
  | StoreFailure StoreError | StatsFailure stats_error | UnsupportedType

definition requiredString :: "jsval \<Rightarrow> string \<Rightarrow> (message_error, string) result" where
  "requiredString message key = (case get_prop message key of
     Str s \<Rightarrow> if js_trim s = [] then throw (MissingString key) else return s
   | _ \<Rightarrow> throw (MissingString key))"

definition optionalNumber :: "jsval \<Rightarrow> string \<Rightarrow> (message_error, number option) result" where
  "optionalNumber message key = (case get_prop message key of
     Undefined \<Rightarrow> return None
   | Number n \<Rightarrow> if isFinite n then return (Some n) else throw (BadNumber key)
   | _ \<Rightarrow> throw (BadNumber key))"

definition optional_in ::
    "(number \<Rightarrow> bool) \<Rightarrow> jsval \<Rightarrow> string \<Rightarrow> (message_error, number option) result" where
  "optional_in rejected message key = (case optionalNumber message key of
     Inr (Some n) \<Rightarrow> if rejected n then throw (BadNumber key) else return (Some n)
   | r \<Rightarrow> r)"

definition optionalNonNegativeNumber :: "jsval \<Rightarrow> string \<Rightarrow> (message_error, number option) result" where
  "optionalNonNegativeNumber = optional_in (\<lambda>n. n < 0)"

definition optionalUnitInterval :: "jsval \<Rightarrow> string \<Rightarrow> (message_error, number option) result" where
  "optionalUnitInterval = optional_in (\<lambda>n. n < 0 \<or> n > 1)"

definition requiredSegments :: "jsval \<Rightarrow> (message_error, string list) result" where
  "requiredSegments v = (case segmentIdList v of None \<Rightarrow> throw BadSegmentList | Some ss \<Rightarrow> return ss)"

text \<open>\<^verbatim>\<open>value ?? []\<close>\<close>

definition or_empty :: "jsval \<Rightarrow> jsval" where
  "or_empty v = (if v = Undefined \<or> v = Null then Array [] else v)"

definition consumeMessageBudget :: "nat \<Rightarrow> int \<Rightarrow> 'g Hub \<Rightarrow> bool \<times> 'g Hub" where
  "consumeMessageBudget socket now h =
     (case map_get (wh_messageBudgets h) socket of
        None \<Rightarrow> (False, h)
      | Some budget \<Rightarrow>
          (let tokens = refill (nat_number MESSAGE_BURST) (nat_number MESSAGE_RATE_PER_SECOND)
                 (mb_tokens budget) (int_number (now - mb_updatedAt budget) / Num 1000);
               store = (\<lambda>t. h\<lparr>wh_messageBudgets := map_set (wh_messageBudgets h) socket
                 \<lparr>mb_tokens = t, mb_updatedAt = now\<rparr>\<rparr>) in
           if tokens < 1 then (False, store tokens) else (True, store (tokens - 1))))"

definition matches_subscription :: "nat \<Rightarrow> string \<Rightarrow> string \<Rightarrow> 'g Hub \<Rightarrow> bool" where
  "matches_subscription socket broadcastId peerId h = (case map_get (wh_subscriptions h) socket of
     None \<Rightarrow> False
   | Some s \<Rightarrow> sub_broadcastId s = broadcastId \<and> sub_peerId s = peerId)"

definition hasSameSegments :: "string \<Rightarrow> string \<Rightarrow> string list \<Rightarrow> 'g Hub \<Rightarrow> bool" where
  "hasSameSegments broadcastId peerId segments h = (case getPeer broadcastId peerId (wh_store h) of
     None \<Rightarrow> False
   | Some peer \<Rightarrow>
       (let expected = new_set segments in
        length (peer_segments peer) = length expected \<and>
        list_all (\<lambda>s. s \<in> set expected) (peer_segments peer)))"

definition relayWebRtcSignal :: "'g HubEnv \<Rightarrow> WebRtcSignalMessage \<Rightarrow> 'g Hub \<Rightarrow> 'g Hub" where
  "relayWebRtcSignal env signal h =
     fold (\<lambda>socket h. if map_option sub_peerId (map_get (wh_subscriptions h) socket) = Some (sig_targetPeerId signal)
         then sendSerialized env (Signal signal) socket h else h)
       (subscribersOf (sig_broadcastId signal) h) h"

text \<open>The features of a subscribe message that are strings, \<^theory_text>\<open>None\<close> when they are malformed.\<close>

definition subscribe_features :: "jsval \<Rightarrow> string list option" where
  "subscribe_features v = (case v of
     Undefined \<Rightarrow> Some []
   | Array fs \<Rightarrow>
       if length fs > MAX_SUBSCRIBE_FEATURES \<or> list_ex (\<lambda>f. \<not> is_string f) fs then None
       else Some (List.map_filter to_string fs)
   | _ \<Rightarrow> None)"

text \<open>A handler returns the error it throws, if any, with the state at that point.\<close>

type_synonym 'g handled = "message_error option \<times> 'g Hub"

definition handle_subscribe ::
    "'g HubEnv \<Rightarrow> nat \<Rightarrow> string \<Rightarrow> string \<Rightarrow> jsval \<Rightarrow> 'g Hub \<Rightarrow> 'g handled" where
  "handle_subscribe env socket broadcastId peerId message h =
     (case map_get (wh_sessions h) socket of
        None \<Rightarrow> (Some SessionMismatch, h)
      | Some claims \<Rightarrow>
          if claim_broadcastId claims \<noteq> broadcastId \<or> claim_peerId claims \<noteq> peerId \<or> \<not> peerExists claims h
          then (Some SessionMismatch, h)
          else
            (case subscribe_features (get_prop message ''features'') of
               None \<Rightarrow> (Some BadFeatures, h)
             | Some features \<Rightarrow>
                 (let inventoryBatch = WS_FEATURE_INVENTORY_BATCH \<in> set features;
                      neighborView = (inventoryBatch \<and> WS_FEATURE_NEIGHBOR_VIEW \<in> set features \<and>
                        wh_neighborViews h \<noteq> None);
                      subscription = \<lparr>sub_broadcastId = broadcastId, sub_peerId = peerId,
                        sub_inventoryBatch = inventoryBatch, sub_neighborView = neighborView\<rparr> in
                  case (if neighborView then wh_neighborViews h else None) of
                    Some views0 \<Rightarrow>
                      (let views = views_add broadcastId peerId (seeded_views broadcastId (wh_store h) views0);
                           h1 = fill_and_announce env broadcastId peerId
                             (\<lambda>q. getPeer broadcastId q (wh_store h)) views h;
                           h2 = setSubscription socket subscription h1;
                           listed = peerId # (case peerView broadcastId peerId h2 of None \<Rightarrow> [] | Some v \<Rightarrow> v) in
                       (None, sendSerialized env (PeerList broadcastId
                          (List.map_filter (\<lambda>q. getPeer broadcastId q (wh_store h2)) listed)) socket h2))
                  | None \<Rightarrow>
                      (case listPeers broadcastId None (wh_store h) of
                         Inl e \<Rightarrow> (Some (StoreFailure e), h)
                       | Inr peers \<Rightarrow>
                           (None, sendSerialized env (PeerList broadcastId peers) socket
                              (setSubscription socket subscription h))))))"

definition handle_signal ::
    "'g HubEnv \<Rightarrow> signal_type \<Rightarrow> string \<Rightarrow> string \<Rightarrow> jsval \<Rightarrow> 'g Hub \<Rightarrow> 'g handled" where
  "handle_signal env type broadcastId peerId message h =
     (case (requiredString message ''targetPeerId'', requiredString message ''requestId'',
            requiredString message ''sdp'') of
        (Inr targetPeerId, Inr requestId, Inr sdp) \<Rightarrow>
          (None, relayWebRtcSignal env \<lparr>sig_type = type, sig_broadcastId = broadcastId, sig_peerId = peerId,
             sig_targetPeerId = targetPeerId, sig_requestId = requestId, sig_sdp = sdp\<rparr> h)
      | (Inl e, _, _) \<Rightarrow> (Some e, h)
      | (_, Inl e, _) \<Rightarrow> (Some e, h)
      | (_, _, Inl e) \<Rightarrow> (Some e, h))"

definition handle_heartbeat ::
    "string \<Rightarrow> string \<Rightarrow> jsval \<Rightarrow> int \<Rightarrow> 'g Hub \<Rightarrow> 'g handled" where
  "handle_heartbeat broadcastId peerId message now h =
     (case (optionalNonNegativeNumber message ''latencyMs'',
            optionalNonNegativeNumber message ''uploadBandwidthBps'',
            optionalUnitInterval message ''successRate'') of
        (Inr latencyMs, Inr uploadBandwidthBps, Inr successRate) \<Rightarrow>
          (case store_heartbeat broadcastId peerId \<lparr>hb_latencyMs = latencyMs,
               hb_uploadBandwidthBps = uploadBandwidthBps, hb_successRate = successRate\<rparr> now (wh_store h) of
             Inl e \<Rightarrow> (Some (StoreFailure e), h)
           | Inr (peer, store) \<Rightarrow> (None, h\<lparr>wh_store := store\<rparr>))
      | (Inl e, _, _) \<Rightarrow> (Some e, h)
      | (_, Inl e, _) \<Rightarrow> (Some e, h)
      | (_, _, Inl e) \<Rightarrow> (Some e, h))"

definition handle_delta ::
    "'g HubEnv \<Rightarrow> string \<Rightarrow> string \<Rightarrow> jsval \<Rightarrow> int \<Rightarrow> 'g Hub \<Rightarrow> 'g handled" where
  "handle_delta env broadcastId peerId message now h =
     (case (requiredSegments (or_empty (get_prop message ''added'')),
            requiredSegments (or_empty (get_prop message ''removed''))) of
        (Inr added, Inr removed) \<Rightarrow>
          (case inventory_consume broadcastId peerId [added, removed] now (wh_inventoryLimiter h) of
             (allowed, limiter) \<Rightarrow>
               (let h1 = h\<lparr>wh_inventoryLimiter := limiter\<rparr> in
                if \<not> allowed then (Some ReportRateExceeded, h1)
                else
                  (case applySegmentDelta broadcastId peerId added removed now (wh_store h1) of
                     Inl e \<Rightarrow> (Some (StoreFailure e), h1)
                   | Inr (peer, store) \<Rightarrow>
                       (None, publishInventory env (SegmentInventoryDelta broadcastId peerId added removed)
                          (h1\<lparr>wh_store := store\<rparr>)))))
      | (Inl e, _) \<Rightarrow> (Some e, h)
      | (_, Inl e) \<Rightarrow> (Some e, h))"

definition handle_segments ::
    "'g HubEnv \<Rightarrow> string \<Rightarrow> string \<Rightarrow> jsval \<Rightarrow> int \<Rightarrow> 'g Hub \<Rightarrow> 'g handled" where
  "handle_segments env broadcastId peerId message now h =
     (case requiredSegments (get_prop message ''segments'') of
        Inl e \<Rightarrow> (Some e, h)
      | Inr segments \<Rightarrow>
          (let given = get_prop message ''replace''; replace = (given = Boolean True) in
           if given \<noteq> Undefined \<and> given \<noteq> Boolean True \<and> given \<noteq> Boolean False then (Some BadReplace, h)
           else
             (case inventory_consume broadcastId peerId [segments] now (wh_inventoryLimiter h) of
                (allowed, limiter) \<Rightarrow>
                  (let h1 = h\<lparr>wh_inventoryLimiter := limiter\<rparr> in
                   if \<not> allowed then (Some ReportRateExceeded, h1)
                   else if replace \<and> hasSameSegments broadcastId peerId segments h1 then (None, h1)
                   else
                     (case reportSegments broadcastId peerId segments replace now (wh_store h1) of
                        Inl e \<Rightarrow> (Some (StoreFailure e), h1)
                      | Inr (peer, store) \<Rightarrow>
                          (None, segmentsAvailable env broadcastId peerId segments replace
                             (h1\<lparr>wh_store := store\<rparr>)))))))"

definition handle_stats :: "string \<Rightarrow> string \<Rightarrow> jsval \<Rightarrow> int \<Rightarrow> 'g Hub \<Rightarrow> 'g handled" where
  "handle_stats broadcastId peerId message now h =
     (case parsePeerTrafficStats (get_prop message ''stats'') of
        Inl e \<Rightarrow> (Some (StatsFailure e), h)
      | Inr stats \<Rightarrow>
          (case reportStats broadcastId peerId stats now (wh_store h) of
             Inl e \<Rightarrow> (Some (StoreFailure e), h)
           | Inr store \<Rightarrow> (None, h\<lparr>wh_store := store\<rparr>)))"

definition dispatch_message ::
    "'g HubEnv \<Rightarrow> nat \<Rightarrow> string \<Rightarrow> string \<Rightarrow> string \<Rightarrow> jsval \<Rightarrow> int \<Rightarrow> 'g Hub \<Rightarrow> 'g handled" where
  "dispatch_message env socket type broadcastId peerId message now h =
     (if type = ''subscribe'' then handle_subscribe env socket broadcastId peerId message h
      else if \<not> matches_subscription socket broadcastId peerId h then (Some SubscriptionMismatch, h)
      else if type = ''webrtc_offer'' then handle_signal env WebRtcOffer broadcastId peerId message h
      else if type = ''webrtc_answer'' then handle_signal env WebRtcAnswer broadcastId peerId message h
      else if type = ''heartbeat'' then handle_heartbeat broadcastId peerId message now h
      else if type = ''report_segments'' then
        (if get_prop message ''added'' \<noteq> Undefined \<or> get_prop message ''removed'' \<noteq> Undefined
         then handle_delta env broadcastId peerId message now h
         else handle_segments env broadcastId peerId message now h)
      else if type = ''report_stats'' then handle_stats broadcastId peerId message now h
      else (Some UnsupportedType, h))"

text \<open>\<^verbatim>\<open>handleMessage\<close>; the text is parsed, \<^theory_text>\<open>None\<close> when \<^verbatim>\<open>JSON.parse\<close> throws.\<close>

definition handleMessage :: "'g HubEnv \<Rightarrow> nat \<Rightarrow> jsval option \<Rightarrow> int \<Rightarrow> 'g Hub \<Rightarrow> 'g Hub" where
  "handleMessage env socket data now h =
     (case (case data of
        None \<Rightarrow> (Some NotAnObject, h)
      | Some message \<Rightarrow>
          if \<not> isRecord message then (Some NotAnObject, h)
          else
            (case (requiredString message ''type'', requiredString message ''broadcastId'',
                   requiredString message ''peerId'') of
               (Inr type, Inr broadcastId, Inr peerId) \<Rightarrow>
                 dispatch_message env socket type broadcastId peerId message now h
             | (Inl e, _, _) \<Rightarrow> (Some e, h)
             | (_, Inl e, _) \<Rightarrow> (Some e, h)
             | (_, _, Inl e) \<Rightarrow> (Some e, h))) of
      (None, h') \<Rightarrow> h'
    | (Some e, h') \<Rightarrow> close_socket InvalidMessage socket h')"

datatype frame = BinaryFrame | TextFrame "jsval option"

definition on_message :: "'g HubEnv \<Rightarrow> nat \<Rightarrow> frame \<Rightarrow> int \<Rightarrow> 'g Hub \<Rightarrow> 'g Hub" where
  "on_message env socket frame now h =
     (if map_get (wh_subscriptions h) socket = None then h
      else case frame of
        BinaryFrame \<Rightarrow> close_socket UnsupportedData socket h
      | TextFrame data \<Rightarrow>
          (case consumeMessageBudget socket now h of
             (allowed, h1) \<Rightarrow>
               if \<not> allowed then close_socket RateExceeded socket h1
               else handleMessage env socket data now h1))"

section \<open>Events\<close>

datatype hub_event =
    UpgradeRequested UpgradeRequest int
  | HandshakeFailed nat
  | SocketConnected nat int
  | SocketFrame nat frame int
  | SocketGone nat
  | SessionTimer nat
  | PeerJoinedEvent string Peer
  | PeerLeftEvent string string
  | SegmentsEvent string string "string list" bool
  | BroadcastRemovedEvent string
  | StoreChanged TrackerStore
  | FlushTimer string
  | NextTurn
  | HubStopped

fun hub_step :: "'g HubEnv \<Rightarrow> hub_event \<Rightarrow> 'g Hub \<Rightarrow> 'g Hub" where
  "hub_step env (UpgradeRequested request now) h = handleUpgrade env request now h"
| "hub_step env (HandshakeFailed socket) h = handshake_failed socket h"
| "hub_step env (SocketConnected socket now) h = socket_connected socket now h"
| "hub_step env (SocketFrame socket frame now) h = on_message env socket frame now h"
| "hub_step env (SocketGone socket) h = removeSocket socket h"
| "hub_step env (SessionTimer socket) h = session_expired socket h"
| "hub_step env (PeerJoinedEvent b peer) h = peerJoined env b peer h"
| "hub_step env (PeerLeftEvent b p) h = peerLeft env b p h"
| "hub_step env (SegmentsEvent b p segments replace) h = segmentsAvailable env b p segments replace h"
| "hub_step env (BroadcastRemovedEvent b) h = broadcastRemoved b h"
| "hub_step env (StoreChanged store) h = h\<lparr>wh_store := store\<rparr>"
| "hub_step env (FlushTimer b) h = flushInventory env b h"
| "hub_step env NextTurn h = run_viewer_turn env h"
| "hub_step env HubStopped h = stop_hub h"

end
