(* ===== verification/HubSpec.thy ===== *)
theory HubSpec
  imports WebSocketHub NeighborSpec TrackerSpec
begin

text \<open>
  Laws of the WebSocket hub: the index of subscribers matches the subscriptions, every subscription
  belongs to the session the socket authenticated with, what is sent stays inside the session's
  broadcast, a client changes only its own peer in the store, and connections per address and
  messages per socket stay within their limits.
\<close>

section \<open>Who is indexed where\<close>

datatype delivery = Immediate | Batched | Viewer string

definition delivery_of :: "Subscription \<Rightarrow> delivery" where
  "delivery_of s = (if sub_neighborView s then Viewer (sub_peerId s)
     else if sub_inventoryBatch s then Batched else Immediate)"

fun sockets_of :: "nat list option \<Rightarrow> nat list" where
  "sockets_of None = []"
| "sockets_of (Some sockets) = sockets"

fun recipients :: "delivery \<Rightarrow> BroadcastSubscribers \<Rightarrow> nat list" where
  "recipients Immediate s = bsu_immediate s"
| "recipients Batched s = bsu_batched s"
| "recipients (Viewer p) s = sockets_of (map_get (bsu_viewers s) p)"

definition indexed :: "(string, BroadcastSubscribers) jsmap \<Rightarrow> string \<Rightarrow> delivery \<Rightarrow> nat set" where
  "indexed S b d = (case map_get S b of None \<Rightarrow> {} | Some s \<Rightarrow> set (recipients d s))"

text \<open>Subscriber objects hold no empty parts.\<close>

definition subscribers_ok :: "BroadcastSubscribers \<Rightarrow> bool" where
  "subscribers_ok s \<longleftrightarrow> \<not> no_subscribers s \<and> wf_map (bsu_viewers s) \<and>
     (\<forall>p ss. map_get (bsu_viewers s) p = Some ss \<longrightarrow> ss \<noteq> [])"

definition index_ok :: "(string, BroadcastSubscribers) jsmap \<Rightarrow> (nat \<Rightarrow> Subscription option) \<Rightarrow> bool" where
  "index_ok S subs \<longleftrightarrow> wf_map S \<and> (\<forall>b s. map_get S b = Some s \<longrightarrow> subscribers_ok s) \<and>
     (\<forall>b d x. x \<in> indexed S b d \<longleftrightarrow>
        (\<exists>s. subs x = Some s \<and> sub_broadcastId s = b \<and> b \<noteq> [] \<and> delivery_of s = d))"

lemma indexed_set: "indexed (map_set S b s) b' d = (if b' = b then set (recipients d s) else indexed S b' d)"
  by (simp add: indexed_def get_set)

lemma indexed_delete: "indexed (map_delete S b) b' d = (if b' = b then {} else indexed S b' d)"
  by (simp add: indexed_def get_delete)

lemma recipients_drop:
  "wf_map (bsu_viewers s) \<Longrightarrow> set (recipients d (drop_subscriber x p s)) =
     (if d = Immediate \<or> d = Batched \<or> d = Viewer p then set (recipients d s) - {x} else set (recipients d s))"
proof (cases d)
  case (Viewer q)
  then show ?thesis
    by (cases "map_get (bsu_viewers s) p"; cases "p = q") (auto simp: drop_subscriber_def get_delete get_set set_delete_Nil_iff)
qed (simp_all add: drop_subscriber_def)

lemma drop_wf:
  assumes "wf_map (bsu_viewers s)" "\<forall>p ss. map_get (bsu_viewers s) p = Some ss \<longrightarrow> ss \<noteq> []"
  shows "wf_map (bsu_viewers (drop_subscriber x p s)) \<and>
    (\<forall>q ss. map_get (bsu_viewers (drop_subscriber x p s)) q = Some ss \<longrightarrow> ss \<noteq> [])"
  using assms by (auto simp: drop_subscriber_def get_delete get_set split: option.splits if_splits)

lemma no_subscribers_recipients:
  assumes "no_subscribers s"
  shows "recipients d s = []"
  using assms by (cases d) (simp_all add: no_subscribers_def)

lemma viewers_nonempty: "wf_map m \<Longrightarrow> m \<noteq> [] \<Longrightarrow> \<exists>p v. map_get m p = Some v"
  by (cases m) auto

lemma index_ok_unindex:
  assumes "index_ok (wh_subscribers h) (map_get (wh_subscriptions h))"
  shows "index_ok (wh_subscribers (unindexSubscription x h)) ((map_get (wh_subscriptions h))(x := None))"
    "wh_subscriptions (unindexSubscription x h) = wh_subscriptions h"
proof -
  let ?S = "wh_subscribers h" and ?f = "map_get (wh_subscriptions h)"
  show "wh_subscriptions (unindexSubscription x h) = wh_subscriptions h"
    by (simp add: unindexSubscription_def Let_def split: option.split)
  have ix: "\<And>b d y. y \<in> indexed ?S b d \<longleftrightarrow>
      (\<exists>s. ?f y = Some s \<and> sub_broadcastId s = b \<and> b \<noteq> [] \<and> delivery_of s = d)"
    and wf: "wf_map ?S" and shape: "\<And>b s. map_get ?S b = Some s \<Longrightarrow> subscribers_ok s"
    using assms unfolding index_ok_def by blast+
  show "index_ok (wh_subscribers (unindexSubscription x h)) (?f(x := None))"
  proof (cases "\<exists>sub. ?f x = Some sub \<and> sub_broadcastId sub \<noteq> []")
    case False
    then have "unindexSubscription x h = h" by (auto simp: unindexSubscription_def split: option.split)
    then show ?thesis using wf shape ix False unfolding index_ok_def by (auto split: if_splits)
  next
    case True
    then obtain sub where sub: "?f x = Some sub" "sub_broadcastId sub \<noteq> []" by blast
    define b where "b = sub_broadcastId sub"
    have "x \<in> indexed ?S b (delivery_of sub)" using ix[of x b "delivery_of sub"] sub by (simp add: b_def)
    then obtain s where s: "map_get ?S b = Some s" by (auto simp: indexed_def split: option.splits)
    define s' where "s' = drop_subscriber x (sub_peerId sub) s"
    have un: "wh_subscribers (unindexSubscription x h) =
        (if no_subscribers s' then map_delete ?S b else map_set ?S b s')"
      using sub s by (simp add: unindexSubscription_def b_def s'_def Let_def)
    have sok: "subscribers_ok s" using shape s by blast
    have s': "wf_map (bsu_viewers s')" "\<And>p ss. map_get (bsu_viewers s') p = Some ss \<Longrightarrow> ss \<noteq> []"
      using drop_wf[of s x "sub_peerId sub"] sok unfolding s'_def subscribers_ok_def by blast+
    have only: "x \<in> set (recipients d s) \<Longrightarrow> d = delivery_of sub" for d
      using ix[of x b d] s sub by (simp add: indexed_def)
    have rec: "set (recipients d s') = set (recipients d s) - {x}" for d
      using recipients_drop[of s d x "sub_peerId sub"] only[of d] sok
      by (auto simp: s'_def subscribers_ok_def delivery_of_def split: if_splits)
    have new: "indexed (wh_subscribers (unindexSubscription x h)) c d = indexed ?S c d - {x}" for c d
    proof (cases "c = b")
      case True
      have old: "indexed ?S b d = set (recipients d s)" using s by (simp add: indexed_def)
      have "set (recipients d s') = {}" if "no_subscribers s'" using no_subscribers_recipients[OF that] by simp
      then have "indexed (wh_subscribers (unindexSubscription x h)) b d = set (recipients d s')"
        by (simp add: un indexed_set indexed_delete)
      then show ?thesis unfolding True old rec .
    next
      case False
      then have "x \<notin> indexed ?S c d" using ix[of x c d] sub(1) unfolding b_def by force
      with False show ?thesis by (simp add: un indexed_set indexed_delete)
    qed
    have "wf_map (wh_subscribers (unindexSubscription x h))" using wf by (simp add: un)
    moreover have "subscribers_ok t" if "map_get (wh_subscribers (unindexSubscription x h)) c = Some t" for c t
    proof (cases "c = b")
      case True
      with that have "t = s'" "\<not> no_subscribers s'" by (simp_all add: un get_set get_delete split: if_splits)
      with s' show ?thesis by (simp add: subscribers_ok_def)
    next
      case False
      with that have "map_get ?S c = Some t" by (simp add: un get_set get_delete split: if_splits)
      then show ?thesis by (rule shape)
    qed
    moreover have "y \<in> indexed ?S c d - {x} \<longleftrightarrow>
        (\<exists>s. (?f(x := None)) y = Some s \<and> sub_broadcastId s = c \<and> c \<noteq> [] \<and> delivery_of s = d)" for c d y
      using ix[of y c d] by (cases "y = x") simp_all
    ultimately show ?thesis unfolding index_ok_def new by blast
  qed
qed

lemma recipients_add:
  "set (recipients d (add_subscriber x sub s)) =
     (if d = delivery_of sub then insert x (set (recipients d s)) else set (recipients d s))"
proof (cases d)
  case (Viewer q)
  then show ?thesis
    by (cases "map_get (bsu_viewers s) (sub_peerId sub)"; cases "sub_peerId sub = q")
      (simp_all add: add_subscriber_def delivery_of_def get_set)
qed (simp_all add: add_subscriber_def delivery_of_def)

lemma add_subscriber_ok:
  assumes "wf_map (bsu_viewers s)" "\<And>p ss. map_get (bsu_viewers s) p = Some ss \<Longrightarrow> ss \<noteq> []"
  shows "subscribers_ok (add_subscriber x sub s)"
proof -
  have "wf_map (bsu_viewers (add_subscriber x sub s))" using assms(1) by (simp add: add_subscriber_def)
  moreover have "ss \<noteq> []" if "map_get (bsu_viewers (add_subscriber x sub s)) p = Some ss" for p ss
  proof (cases "sub_neighborView sub \<and> p = sub_peerId sub")
    case True
    then have "x \<in> set ss" using that by (auto simp: add_subscriber_def get_set)
    then show ?thesis by auto
  next
    case False
    then show ?thesis using that assms(2)[of p ss] by (auto simp: add_subscriber_def get_set split: if_splits)
  qed
  moreover have "\<not> no_subscribers (add_subscriber x sub s)"
    using recipients_add[of "delivery_of sub" x sub s] no_subscribers_recipients[of "add_subscriber x sub s" "delivery_of sub"]
    by (metis (full_types) insert_not_empty list.set(1))
  ultimately show ?thesis by (simp add: subscribers_ok_def)
qed

lemma index_ok_add:
  assumes ok: "index_ok S (f(x := None))" and b: "sub_broadcastId sub = b" "b \<noteq> []"
    and s: "map_get S b = Some s \<or> map_get S b = None \<and> s = \<lparr>bsu_identity = i, bsu_immediate = [], bsu_batched = [], bsu_viewers = []\<rparr>"
  shows "index_ok (map_set S b (add_subscriber x sub s)) (f(x := Some sub))"
proof -
  have "wf_map (bsu_viewers s) \<and> (\<forall>p ss. map_get (bsu_viewers s) p = Some ss \<longrightarrow> ss \<noteq> [])"
    using s ok unfolding index_ok_def subscribers_ok_def by auto
  then have fresh: "subscribers_ok (add_subscriber x sub s)" by (intro add_subscriber_ok) blast+
  have old: "set (recipients d s) = indexed S b d" for d
    using s by (cases d) (auto simp: indexed_def)
  have new: "indexed (map_set S b (add_subscriber x sub s)) c d =
      (if c = b \<and> d = delivery_of sub then insert x (indexed S c d) else indexed S c d)" for c d
    by (simp add: indexed_set recipients_add old)
  have "y \<in> indexed S c d \<longleftrightarrow>
      (\<exists>s. (f(x := None)) y = Some s \<and> sub_broadcastId s = c \<and> c \<noteq> [] \<and> delivery_of s = d)" for y c d
    using ok unfolding index_ok_def by blast
  then have "y \<in> indexed (map_set S b (add_subscriber x sub s)) c d \<longleftrightarrow>
      (\<exists>s. (f(x := Some sub)) y = Some s \<and> sub_broadcastId s = c \<and> c \<noteq> [] \<and> delivery_of s = d)" for y c d
    using b by (cases "y = x") (auto simp: new)
  moreover have "subscribers_ok t" if "map_get (map_set S b (add_subscriber x sub s)) c = Some t" for c t
    using that fresh ok unfolding index_ok_def by (cases "c = b") (simp_all add: get_set)
  moreover have "wf_map (map_set S b (add_subscriber x sub s))" using ok by (simp add: index_ok_def)
  ultimately show ?thesis unfolding index_ok_def by blast
qed

lemma setSubscription_fields:
  "wh_subscriptions (setSubscription x sub h) = map_set (wh_subscriptions h) x sub"
  by (simp add: setSubscription_def unindexSubscription_def Let_def split: option.split)

lemma get_upd: "map_get (map_set m k v) = (map_get m)(k \<mapsto> v)"
  by (simp add: fun_eq_iff get_set)

lemma index_ok_setSubscription:
  assumes "index_ok (wh_subscribers h) (map_get (wh_subscriptions h))" "sub_broadcastId sub \<noteq> []"
  shows "index_ok (wh_subscribers (setSubscription x sub h)) (map_get (wh_subscriptions (setSubscription x sub h)))"
proof -
  let ?h = "unindexSubscription x h" and ?b = "sub_broadcastId sub"
  note un = index_ok_unindex(1)[OF assms(1), of x]
  define s where "s = (case map_get (wh_subscribers ?h) ?b of
     None \<Rightarrow> \<lparr>bsu_identity = wh_nextIdentity ?h, bsu_immediate = [], bsu_batched = [], bsu_viewers = []\<rparr>
   | Some s \<Rightarrow> s)"
  have "wh_subscribers (setSubscription x sub h) = map_set (wh_subscribers ?h) ?b (add_subscriber x sub s)"
    by (simp add: setSubscription_def Let_def s_def split: option.split)
  moreover have "index_ok (map_set (wh_subscribers ?h) ?b (add_subscriber x sub s))
      ((map_get (wh_subscriptions h))(x := Some sub))"
    by (rule index_ok_add[OF un refl assms(2), where i = "wh_nextIdentity ?h"])
      (simp add: s_def split: option.split)
  ultimately show ?thesis unfolding setSubscription_fields get_upd by (simp only:)
qed

lemma index_ok_empty: "index_ok S (f(x := None)) \<Longrightarrow> index_ok S (f(x := Some EMPTY_SUBSCRIPTION))"
  unfolding index_ok_def by (auto simp: EMPTY_SUBSCRIPTION_def)

section \<open>Fan-out\<close>

text \<open>Fan-out leaves everything alone that says who may do what, and sends a message only to sockets
  indexed under its broadcast.\<close>

definition core :: "'g Hub \<Rightarrow> _" where
  "core h = (wh_store h, wh_subscriptions h, wh_subscribers h, wh_sessions h, wh_messageBudgets h,
     wh_inventoryLimiter h, wh_connectionIps h, wh_connectionsPerIp h, wh_upgrading h, wh_nextSocket h)"

definition reaches :: "'g Hub \<Rightarrow> nat \<Rightarrow> Peer WsServerMessage \<Rightarrow> bool" where
  "reaches h x m \<longleftrightarrow> (\<exists>d. x \<in> indexed (wh_subscribers h) (message_broadcast m) d)"

definition fans :: "'g Hub \<Rightarrow> 'g Hub \<Rightarrow> bool" where
  "fans h h' \<longleftrightarrow> core h' = core h \<and>
     (\<exists>new. wh_outbox h' = wh_outbox h @ new \<and> list_all (\<lambda>(x, m). reaches h x m) new)"

lemma reaches_core: "core h' = core (h :: 'g Hub) \<Longrightarrow> reaches h' = reaches h"
  by (simp add: core_def reaches_def fun_eq_iff)

lemma fansI: "core h' = core h \<Longrightarrow> wh_outbox h' = wh_outbox h \<Longrightarrow> fans h h'"
  by (simp add: fans_def)

lemma fans_refl: "fans h h"
  by (simp add: fans_def)

lemma fans_trans:
  assumes "fans h h1" "fans h1 h2"
  shows "fans h h2"
proof -
  have c: "core h1 = core h" "core h2 = core h1" using assms unfolding fans_def by blast+
  obtain n1 n2 where "wh_outbox h1 = wh_outbox h @ n1" "list_all (\<lambda>(x, m). reaches h x m) n1"
    "wh_outbox h2 = wh_outbox h1 @ n2" "list_all (\<lambda>(x, m). reaches h1 x m) n2"
    using assms unfolding fans_def by blast
  then show ?thesis using c reaches_core[OF c(1)] unfolding fans_def by (intro conjI exI[of _ "n1 @ n2"]) simp_all
qed

lemma fans_core: "fans h h' \<Longrightarrow> core h' = core h"
  by (simp add: fans_def)

lemma fans_fields:
  assumes "fans h h'"
  shows "wh_store h' = wh_store h" "wh_subscriptions h' = wh_subscriptions h"
    "wh_subscribers h' = wh_subscribers h" "wh_sessions h' = wh_sessions h"
    "wh_connectionIps h' = wh_connectionIps h" "wh_connectionsPerIp h' = wh_connectionsPerIp h"
    "wh_upgrading h' = wh_upgrading h" "wh_nextSocket h' = wh_nextSocket h"
  using fans_core[OF assms] by (simp_all add: core_def)

lemma fans_then: "fans h h1 \<Longrightarrow> (core h1 = core h \<Longrightarrow> fans h1 h2) \<Longrightarrow> fans h h2"
  using fans_trans fans_core by blast

lemma fans_fold:
  fixes h :: "'g Hub"
  assumes "\<And>y (h' :: 'g Hub). y \<in> set ys \<Longrightarrow> core h' = core h \<Longrightarrow> fans h' (f y h')"
  shows "fans h (fold f ys h)"
proof -
  have "core h0 = core h \<Longrightarrow> fans h0 (fold f ys h0)" for h0 :: "'g Hub"
    using assms
  proof (induction ys arbitrary: h0)
    case (Cons y ys)
    have step: "fans h0 (f y h0)" using Cons.prems by simp
    have "fans (f y h0) (fold f ys (f y h0))"
      using Cons.prems fans_core[OF step] by (intro Cons.IH) simp_all
    with step show ?case by (auto intro: fans_trans)
  qed (simp add: fans_refl)
  then show ?thesis by simp
qed

lemma fans_send: "reaches h x m \<Longrightarrow> fans h (sendSerialized env m x h)"
proof (cases "x \<in> set (wh_open h)")
  case True
  assume reach: "reaches h x m"
  obtain n throws where net: "he_socket env x (wh_attempts h) = (n, throws)" by fastforce
  let ?h = "sendSerialized env m x h"
  have "core ?h = core h" by (simp add: sendSerialized_def close_socket_def Let_def core_def net)
  moreover have "wh_outbox ?h = wh_outbox h \<or> wh_outbox ?h = wh_outbox h @ [(x, m)]"
    by (simp add: sendSerialized_def close_socket_def Let_def net)
  ultimately show ?thesis using reach unfolding fans_def by fastforce
qed (simp add: sendSerialized_def fans_refl)

lemma fans_send_all:
  fixes h :: "'g Hub"
  assumes "\<And>x. x \<in> set ss \<Longrightarrow> reaches h x m"
  shows "fans h (send_all env m ss h)"
  unfolding send_all_def
proof (rule fans_fold)
  fix x and h' :: "'g Hub" assume x: "x \<in> set ss" and c: "core h' = core h"
  have "reaches h' x m" unfolding reaches_core[OF c] by (rule assms[OF x])
  then show "fans h' (sendSerialized env m x h')" by (rule fans_send)
qed

lemma reaches_immediate: "map_get (wh_subscribers h) (message_broadcast m) = Some s \<Longrightarrow>
    x \<in> set (bsu_immediate s) \<Longrightarrow> reaches h x m"
  unfolding reaches_def indexed_def by (rule exI[of _ Immediate]) simp

lemma reaches_batched: "map_get (wh_subscribers h) (message_broadcast m) = Some s \<Longrightarrow>
    x \<in> set (bsu_batched s) \<Longrightarrow> reaches h x m"
  unfolding reaches_def indexed_def by (rule exI[of _ Batched]) simp

lemma reaches_viewer: "map_get (wh_subscribers h) (message_broadcast m) = Some s \<Longrightarrow>
    map_get (bsu_viewers s) p = Some ss \<Longrightarrow> x \<in> set ss \<Longrightarrow> reaches h x m"
  unfolding reaches_def indexed_def by (rule exI[of _ "Viewer p"]) simp

lemma fans_broadcast:
  fixes h :: "'g Hub"
  shows "fans h (broadcast env m h)"
proof (cases "map_get (wh_subscribers h) (message_broadcast m)")
  case (Some s)
  have "fans h (send_all env m (bsu_immediate s) h)"
    by (rule fans_send_all) (rule reaches_immediate[OF Some])
  moreover have "fans h' (send_all env m (bsu_batched s) h')" if "core h' = core h" for h' :: "'g Hub"
    by (rule fans_send_all) (simp add: reaches_core[OF that] reaches_batched[OF Some])
  ultimately show ?thesis unfolding broadcast_def Some by (auto intro: fans_then)
qed (simp add: broadcast_def fans_refl)

lemma fans_viewer: "fans h (sendToViewer env m p h)"
  unfolding sendToViewer_def
proof (rule fans_send_all)
  fix x assume "x \<in> set (viewer_sockets (message_broadcast m) p h)"
  then obtain s ss where "map_get (wh_subscribers h) (message_broadcast m) = Some s"
    "map_get (bsu_viewers s) p = Some ss" "x \<in> set ss"
    unfolding viewer_sockets_def by (cases "map_get (wh_subscribers h) (message_broadcast m)")
      (auto split: option.splits dest: sym)
  then show "reaches h x m" by (rule reaches_viewer)
qed

lemma fans_batch:
  assumes "\<And>x. x \<in> set ss \<Longrightarrow> \<exists>d. x \<in> indexed (wh_subscribers h) b d"
  shows "fans (h :: 'g Hub) (sendBatch env b us ss h)"
  unfolding sendBatch_def
proof (rule fans_fold)
  fix slice and h' :: "'g Hub" assume c: "core h' = core h"
  have "reaches h' x (InventoryBatch b slice)" if "x \<in> set ss" for x
    unfolding reaches_core[OF c] using assms[OF that] by (simp add: reaches_def)
  then show "fans h' (send_all env (InventoryBatch b slice) ss h')" by (rule fans_send_all)
qed

lemma fans_viewer_batch: "fans h (send_to_viewer_batch env b us p h)"
  unfolding send_to_viewer_batch_def
  by (auto split: option.split simp: Let_def fans_refl indexed_def intro!: fans_batch)
    (metis recipients.simps(3) sockets_of.simps(2))

lemma fans_turn: "viewer_turn env batch h = (r, h') \<Longrightarrow> fans h h'"
  by (auto simp: viewer_turn_def Let_def intro!: fans_fold fans_viewer_batch)

lemma fans_begin_flush:
  fixes h :: "'g Hub"
  assumes "begin_flush env b h = (r, h')"
  shows "fans h h'"
proof -
  define h1 where "h1 = h\<lparr>wh_pendingInventory := map_delete (wh_pendingInventory h) b\<rparr>"
  have h1: "fans h h1" by (rule fansI) (simp_all add: h1_def core_def)
  show ?thesis
  proof (cases "map_get (wh_subscribers h) b")
    case (Some s)
    have send: "fans h1 (sendBatch env b us (bsu_batched s) h1)" for us
      by (rule fans_batch) (auto simp: h1_def indexed_def Some intro!: exI[of _ Batched])
    have flag: "fans h2 (h2\<lparr>wh_flushing := fs\<rparr>)" for h2 :: "'g Hub" and fs by (rule fansI) (simp_all add: core_def)
    show ?thesis
      using assms h1 fans_trans[OF h1 send] fans_trans[OF h1 flag] fans_trans[OF fans_trans[OF h1 send] flag]
      by (auto simp: begin_flush_def Let_def Some h1_def[symmetric] split: option.splits if_splits)
  qed (use assms h1 in \<open>auto simp: begin_flush_def Let_def h1_def split: option.splits\<close>)
qed

lemma fans_batches: "fans h (sendViewerBatches env batch h)"
proof (induction env batch h rule: sendViewerBatches.induct)
  case (1 env batch h)
  obtain r h1 where turn: "viewer_turn env batch h = (r, h1)" by fastforce
  have h1: "fans h h1" by (rule fans_turn[OF turn])
  show ?case
  proof (cases r)
    case (Some rest)
    have "fans h1 (h1\<lparr>wh_turns := wh_turns h1 @ [rest]\<rparr>)" by (rule fansI) (simp_all add: core_def)
    with h1 show ?thesis by (subst sendViewerBatches.simps) (auto simp: turn Some intro: fans_trans)
  next
    case None
    let ?b = "vb_broadcastId batch"
    define h2 where "h2 = h1\<lparr>wh_flushing := set_delete ?b (wh_flushing h1)\<rparr>"
    define h3 where "h3 = h2\<lparr>wh_flushRequested := set_delete ?b (wh_flushRequested h2)\<rparr>"
    have req: "wh_flushRequested h2 = wh_flushRequested h1" by (simp add: h2_def)
    have h2: "fans h h2" and h3: "fans h h3"
      using h1 by (auto simp: fans_def core_def h2_def h3_def)
    show ?thesis
    proof (cases "?b \<in> set (wh_flushRequested h2)")
      case False
      with h2 show ?thesis by (subst sendViewerBatches.simps) (simp add: turn None h2_def[symmetric] Let_def req[symmetric])
    next
      case True
      obtain r' h4 where bf: "begin_flush env ?b h3 = (r', h4)" by fastforce
      have h4: "fans h h4" using fans_trans[OF h3 fans_begin_flush[OF bf]] .
      show ?thesis
      proof (cases r')
        case None
        with h4 True bf show ?thesis
          by (subst sendViewerBatches.simps)
            (simp add: turn \<open>r = None\<close> h2_def[symmetric] h3_def[symmetric] Let_def req[symmetric])
      next
        case (Some next_batch)
        have "fans h4 (sendViewerBatches env next_batch h4)"
          using 1[OF turn[symmetric] \<open>r = None\<close> refl h2_def True bf[unfolded h3_def, symmetric] Some] .
        with h4 True bf Some show ?thesis
          by (subst sendViewerBatches.simps)
            (auto simp: turn \<open>r = None\<close> h2_def[symmetric] h3_def[symmetric] Let_def req[symmetric] intro: fans_trans)
      qed
    qed
  qed
qed

lemma fans_flush: "fans h (flushInventory env b h)"
proof (cases "b \<in> set (wh_flushing h)")
  case True
  then show ?thesis by (auto simp: flushInventory_def core_def intro!: fansI)
next
  case False
  obtain r h1 where bf: "begin_flush env b h = (r, h1)" by fastforce
  show ?thesis
    using fans_begin_flush[OF bf] fans_trans[OF fans_begin_flush[OF bf] fans_batches] False
    by (cases r) (simp_all add: flushInventory_def bf)
qed

lemma fans_run_turn: "fans h (run_viewer_turn env h)"
proof (cases "wh_turns h")
  case (Cons batch turns)
  have "fans h (h\<lparr>wh_turns := turns\<rparr>)" by (rule fansI) (simp_all add: core_def)
  from fans_trans[OF this fans_batches] show ?thesis by (simp add: run_viewer_turn_def Cons)
qed (simp add: run_viewer_turn_def fans_refl)

lemma fans_announce:
  fixes h :: "'g Hub"
  shows "fans h (announceFill env b p filled lookup h)"
proof -
  define h1 where "h1 = (if hasViewer b p h
     then fold (\<lambda>added h. case lookup added of None \<Rightarrow> h
       | Some peer \<Rightarrow> sendToViewer env (PeerJoined b peer) p h) (fill_added filled) h else h)"
  define watchers where "watchers = filter (\<lambda>w. hasViewer b w h1) (fill_reciprocal filled)"
  define h2 where "h2 = (case (if watchers \<noteq> [] then lookup p else None) of None \<Rightarrow> h1
     | Some peer \<Rightarrow> fold (sendToViewer env (PeerJoined b peer)) watchers h1)"
  have 1: "fans h h1"
    unfolding h1_def by (auto intro!: fans_fold fans_viewer fans_refl split: option.split)
  have 2: "fans h1 h2"
    unfolding h2_def by (auto intro!: fans_fold fans_viewer fans_refl split: option.split)
  have 3: "fans h2 (fold (\<lambda>(watcher, dropped). sendToViewer env (PeerLeft b dropped) watcher) (fill_evicted filled) h2)"
    by (auto intro!: fans_fold fans_viewer)
  have "announceFill env b p filled lookup h =
      fold (\<lambda>(watcher, dropped). sendToViewer env (PeerLeft b dropped) watcher) (fill_evicted filled) h2"
    by (simp only: announceFill_def Let_def h1_def[symmetric] watchers_def[symmetric] h2_def[symmetric])
  with fans_trans[OF fans_trans[OF 1 2] 3] show ?thesis by simp
qed

lemma fans_fill: "fans h (fill_and_announce env b p lookup views h)"
proof -
  obtain filled views' g where f: "views_fill (he_drawNumber env) b p views (wh_random h) = (filled, views', g)"
    by (metis prod_cases3)
  have "fans h (h\<lparr>wh_neighborViews := Some views', wh_random := g\<rparr>)" by (rule fansI) (simp_all add: core_def)
  from fans_trans[OF this fans_announce] show ?thesis by (simp add: fill_and_announce_def f)
qed

lemma fans_peerJoined: "fans h (peerJoined env b peer h)"
proof -
  have h1: "fans h (broadcast env (PeerJoined b peer) h)" by (rule fans_broadcast)
  show ?thesis
    using h1 fans_trans[OF h1 fans_fill]
    by (simp add: peerJoined_def Let_def split: option.split)
qed

lemma fans_replace: "fans h (replace_neighbor env b p w h)"
  using fans_viewer[of h env "PeerLeft b p" w] fans_trans[OF fans_viewer fans_fill]
  by (auto simp: replace_neighbor_def Let_def split: option.split)

lemma fans_peerLeft: "fans h (peerLeft env b p h)"
proof -
  define h1 where "h1 = h\<lparr>wh_pendingInventory := map_adjust (wh_pendingInventory h) b (\<lambda>u. map_delete u p)\<rparr>"
  define h2 where "h2 = broadcast env (PeerLeft b p) h1"
  have "fans h h1" by (rule fansI) (simp_all add: h1_def core_def)
  then have h2: "fans h h2" unfolding h2_def by (rule fans_trans) (rule fans_broadcast)
  show ?thesis
  proof (cases "wh_neighborViews h2")
    case (Some views)
    obtain lost views' where l: "views_leave b p views = (lost, views')" by fastforce
    have h3: "fans h (h2\<lparr>wh_neighborViews := Some views'\<rparr>)"
      using h2 by (rule fans_trans) (rule fansI; simp add: core_def)
    have "fans h (fold (replace_neighbor env b p) lost (h2\<lparr>wh_neighborViews := Some views'\<rparr>))"
      by (rule fans_trans[OF h3 fans_fold]) (rule fans_replace)
    then show ?thesis by (simp add: peerLeft_def Let_def h1_def[symmetric] h2_def[symmetric] Some l)
  qed (use h2 in \<open>simp add: peerLeft_def Let_def h1_def[symmetric] h2_def[symmetric]\<close>)
qed

lemma fans_publish: "fans h (publishInventory env m h)"
proof (cases "map_get (wh_subscribers h) (im_broadcastId m)")
  case (Some s)
  have h1: "fans h (send_all env (Inventory m) (bsu_immediate s) h)"
    by (rule fans_send_all) (rule reaches_immediate, simp add: Some)
  have "fans h1 (queueInventory m h1)" for h1 by (rule fansI) (simp_all add: queueInventory_def Let_def core_def)
  with h1 show ?thesis by (auto simp: publishInventory_def Some Let_def intro: fans_trans)
qed (simp add: publishInventory_def fans_refl)

lemma subscribersOf_indexed:
  assumes "\<And>s. map_get (wh_subscribers h) b = Some s \<Longrightarrow> wf_map (bsu_viewers s)" "x \<in> set (subscribersOf b h)"
  shows "\<exists>d. x \<in> indexed (wh_subscribers h) b d"
proof (cases "map_get (wh_subscribers h) b")
  case None
  with assms(2) show ?thesis by (simp add: subscribersOf_def)
next
  case (Some s)
  then have "x \<in> set (bsu_immediate s) \<or> x \<in> set (bsu_batched s) \<or> (\<exists>(p, ss)\<in>set (bsu_viewers s). x \<in> set ss)"
    using assms(2) by (auto simp: subscribersOf_def)
  moreover have "x \<in> set (recipients (Viewer p) s)" if "(p, ss) \<in> set (bsu_viewers s)" "x \<in> set ss" for p ss
    using that assms(1)[OF Some] by (simp add: wf_map_def)
  ultimately have "\<exists>d. x \<in> set (recipients d s)" by (metis (no_types, lifting) case_prodE recipients.simps(1,2))
  then show ?thesis by (simp add: indexed_def Some)
qed

lemma fans_relay:
  fixes h :: "'g Hub"
  assumes "index_ok (wh_subscribers h) subs"
  shows "fans h (relayWebRtcSignal env signal h)"
  unfolding relayWebRtcSignal_def
proof (rule fans_fold)
  fix x and h' :: "'g Hub"
  assume x: "x \<in> set (subscribersOf (sig_broadcastId signal) h)" and c: "core h' = core h"
  have "\<exists>d. x \<in> indexed (wh_subscribers h) (sig_broadcastId signal) d"
    using assms x by (intro subscribersOf_indexed) (auto simp: index_ok_def subscribers_ok_def)
  then have "reaches h' x (Signal signal)" unfolding reaches_core[OF c] by (simp add: reaches_def)
  then show "fans h' (if map_option sub_peerId (map_get (wh_subscriptions h') x) = Some (sig_targetPeerId signal)
      then sendSerialized env (Signal signal) x h' else h')"
    by (simp add: fans_send fans_refl)
qed

section \<open>The invariant and its steps\<close>

definition authenticated :: "'g Hub \<Rightarrow> bool" where
  "authenticated h \<longleftrightarrow> (\<forall>x s. map_get (wh_subscriptions h) x = Some s \<and> sub_broadcastId s \<noteq> [] \<longrightarrow>
     (\<exists>claims. map_get (wh_sessions h) x = Some claims \<and> claim_broadcastId claims = sub_broadcastId s \<and>
        claim_peerId claims = sub_peerId s)) \<and>
     (\<forall>x. map_get (wh_sessions h) x = None \<longleftrightarrow> map_get (wh_subscriptions h) x = None)"

text \<open>What the connection limit counts.\<close>

definition accounts :: "'g Hub \<Rightarrow> _" where
  "accounts h = (wh_connectionIps h, wh_connectionsPerIp h, wh_upgrading h, wh_nextSocket h)"

definition hub_inv :: "'g Hub \<Rightarrow> bool" where
  "hub_inv h \<longleftrightarrow> index_ok (wh_subscribers h) (map_get (wh_subscriptions h)) \<and> authenticated h"

definition own_broadcast :: "'g Hub \<Rightarrow> nat \<times> Peer WsServerMessage \<Rightarrow> bool" where
  "own_broadcast h = (\<lambda>(x, m). case map_get (wh_sessions h) x of
     None \<Rightarrow> False | Some claims \<Rightarrow> claim_broadcastId claims = message_broadcast m)"

text \<open>A step that keeps the invariant and the sessions and sends inside the sessions' broadcasts.\<close>

definition safe :: "'g Hub \<Rightarrow> 'g Hub \<Rightarrow> bool" where
  "safe h h' \<longleftrightarrow> hub_inv h' \<and> wh_sessions h' = wh_sessions h \<and> accounts h' = accounts h \<and>
     (\<exists>new. wh_outbox h' = wh_outbox h @ new \<and> list_all (own_broadcast h) new)"

lemma safe_inv: "safe h h' \<Longrightarrow> hub_inv h'" and safe_sessions: "safe h h' \<Longrightarrow> wh_sessions h' = wh_sessions h"
  and safe_accounts: "safe h h' \<Longrightarrow> accounts h' = accounts h"
  by (simp_all add: safe_def)

lemma safe_trans:
  assumes "safe h h1" "safe h1 h2"
  shows "safe h h2"
proof -
  obtain n1 n2 where n: "wh_outbox h1 = wh_outbox h @ n1" "list_all (own_broadcast h) n1"
    "wh_outbox h2 = wh_outbox h1 @ n2" "list_all (own_broadcast h1) n2"
    using assms unfolding safe_def by blast
  have "wh_sessions h1 = wh_sessions h" using assms by (simp add: safe_def)
  then have "own_broadcast h1 = own_broadcast h" by (simp add: own_broadcast_def)
  with n have "wh_outbox h2 = wh_outbox h @ n1 @ n2" "list_all (own_broadcast h) (n1 @ n2)" by simp_all
  with assms show ?thesis unfolding safe_def by auto
qed

lemma safe_same:
  "hub_inv h \<Longrightarrow> wh_subscribers h' = wh_subscribers h \<Longrightarrow> wh_subscriptions h' = wh_subscriptions h \<Longrightarrow>
     wh_sessions h' = wh_sessions h \<Longrightarrow> accounts h' = accounts h \<Longrightarrow> wh_outbox h' = wh_outbox h \<Longrightarrow> safe h h'"
  by (simp add: safe_def hub_inv_def authenticated_def)

lemma reaches_own:
  assumes "hub_inv h" "reaches h x m"
  shows "own_broadcast h (x, m)"
proof -
  obtain d s where s: "map_get (wh_subscriptions h) x = Some s" "sub_broadcastId s = message_broadcast m"
    "message_broadcast m \<noteq> []"
    using assms unfolding hub_inv_def index_ok_def reaches_def by blast
  with assms(1) obtain claims where "map_get (wh_sessions h) x = Some claims"
    "claim_broadcastId claims = sub_broadcastId s"
    unfolding hub_inv_def authenticated_def by metis
  with s show ?thesis by (simp add: own_broadcast_def)
qed

lemma safe_fans:
  assumes "hub_inv h" "fans h h'"
  shows "safe h h'"
proof -
  note f = fans_fields[OF assms(2)]
  obtain new where new: "wh_outbox h' = wh_outbox h @ new" "list_all (\<lambda>(x, m). reaches h x m) new"
    using assms(2) unfolding fans_def by blast
  have "hub_inv h'" using assms(1) by (simp add: hub_inv_def authenticated_def f)
  moreover have "accounts h' = accounts h" by (simp add: accounts_def f)
  moreover have "list_all (own_broadcast h) new"
    using new(2) reaches_own[OF assms(1)] by (auto simp: list_all_iff)
  ultimately show ?thesis using f new(1) unfolding safe_def by blast
qed

lemma safe_subscribe:
  assumes "hub_inv h" "map_get (wh_sessions h) x = Some claims" "claim_broadcastId claims = sub_broadcastId sub"
    "claim_peerId claims = sub_peerId sub" "sub_broadcastId sub \<noteq> []"
  shows "safe h (setSubscription x sub h)"
proof -
  have keep: "wh_sessions (setSubscription x sub h) = wh_sessions h" "wh_outbox (setSubscription x sub h) = wh_outbox h"
      "accounts (setSubscription x sub h) = accounts h"
    by (simp_all add: accounts_def setSubscription_def unindexSubscription_def Let_def split: option.split)
  have "index_ok (wh_subscribers (setSubscription x sub h)) (map_get (wh_subscriptions (setSubscription x sub h)))"
    using assms(1,5) by (intro index_ok_setSubscription) (simp_all add: hub_inv_def)
  moreover have "map_get (wh_subscriptions h) x \<noteq> None"
    using assms(1,2) unfolding hub_inv_def authenticated_def by (metis option.distinct(1))
  then have "authenticated (setSubscription x sub h)"
    using assms unfolding hub_inv_def authenticated_def keep setSubscription_fields by (auto simp: get_set)
  ultimately show ?thesis by (simp add: safe_def hub_inv_def keep)
qed

lemma safe_close:
  assumes "safe h h'"
  shows "safe h (close_socket reason x h')"
  by (rule safe_trans[OF assms safe_same[OF safe_inv[OF assms]]]) (simp_all add: close_socket_def accounts_def)

section \<open>Client messages\<close>

definition other_peers :: "string \<Rightarrow> string \<Rightarrow> TrackerStore \<Rightarrow> TrackerStore \<Rightarrow> bool" where
  "other_peers b p s s' \<longleftrightarrow> (\<forall>c q. (c, q) = (b, p) \<or> getPeer c q s' = getPeer c q s)"

lemma other_peers_refl [simp]: "other_peers b p s s"
  by (simp add: other_peers_def)

lemma other_put: "other_peers b p s (put_peer b p st s)"
proof -
  have "getPeer c q (put_peer b p st s) = getPeer c q s" if "(c, q) \<noteq> (b, p)" for c q
    using that by (cases "map_get (ts_broadcasts s) b")
      (auto simp: getPeer_def put_peer_def put_broadcast_def get_set)
  then show ?thesis unfolding other_peers_def by blast
qed

lemma store_ops_other:
  "store_heartbeat b p hb now s = Inr (peer, s') \<Longrightarrow> other_peers b p s s'"
  "applySegmentDelta b p added removed now s = Inr (peer, s') \<Longrightarrow> other_peers b p s s'"
  "reportSegments b p segments replace now s = Inr (peer, s') \<Longrightarrow> other_peers b p s s'"
  "reportStats b p stats now s = Inr s' \<Longrightarrow> other_peers b p s s'"
  by (auto simp: store_heartbeat_def applySegmentDelta_def reportSegments_def reportStats_def Let_def
      intro: other_put split: sum.splits)

definition handled_well :: "string \<Rightarrow> string \<Rightarrow> 'g Hub \<Rightarrow> 'g handled \<Rightarrow> bool" where
  "handled_well b p h r \<longleftrightarrow> safe h (snd r) \<and> other_peers b p (wh_store h) (wh_store (snd r))"

lemma handled_same: "hub_inv h \<Longrightarrow> handled_well b p h (e, h)"
  by (simp add: handled_well_def safe_same)

lemma handled_fans:
  assumes "hub_inv h" "fans h h'"
  shows "handled_well b p h (e, h')"
  using safe_fans[OF assms] fans_fields(1)[OF assms(2)] by (simp add: handled_well_def)

lemma handled_store:
  assumes "hub_inv h" "other_peers b p (wh_store h) store"
  shows "handled_well b p h (e, h\<lparr>wh_store := store\<rparr>)"
  unfolding handled_well_def using assms by (auto intro: safe_same simp: accounts_def)

lemma handled_publish:
  assumes "hub_inv h" "wh_subscribers h' = wh_subscribers h" "wh_subscriptions h' = wh_subscriptions h"
    "wh_sessions h' = wh_sessions h" "accounts h' = accounts h" "wh_outbox h' = wh_outbox h" "other_peers b p (wh_store h) (wh_store h')"
  shows "handled_well b p h (e, publishInventory env m h')" "handled_well b p h (e, h')"
proof -
  have s: "safe h h'" using assms(1-6) by (rule safe_same)
  have f: "fans h' (publishInventory env m h')" by (rule fans_publish)
  show "handled_well b p h (e, publishInventory env m h')"
    using safe_trans[OF s safe_fans[OF safe_inv[OF s] f]] fans_fields(1)[OF f] assms(7)
    by (simp add: handled_well_def)
  show "handled_well b p h (e, h')" using s assms(7) by (simp add: handled_well_def)
qed

lemma safe_send_own:
  assumes "hub_inv h" "own_broadcast h (x, m)"
  shows "safe h (sendSerialized env m x h)"
proof (cases "x \<in> set (wh_open h)")
  case True
  obtain n throws where net: "he_socket env x (wh_attempts h) = (n, throws)" by fastforce
  let ?h = "sendSerialized env m x h"
  have "wh_subscribers ?h = wh_subscribers h" "wh_subscriptions ?h = wh_subscriptions h"
    "wh_sessions ?h = wh_sessions h" "accounts ?h = accounts h"
    by (simp_all add: accounts_def sendSerialized_def close_socket_def Let_def net)
  moreover have "wh_outbox ?h = wh_outbox h \<or> wh_outbox ?h = wh_outbox h @ [(x, m)]"
    by (simp add: sendSerialized_def close_socket_def Let_def net)
  ultimately show ?thesis using assms unfolding safe_def hub_inv_def authenticated_def by fastforce
qed (use safe_same[OF assms(1)] in \<open>simp add: sendSerialized_def\<close>)

lemma send_store: "wh_store (sendSerialized env m x h) = wh_store h"
  by (simp add: sendSerialized_def close_socket_def Let_def split: prod.split)

lemma set_subscription_store: "wh_store (setSubscription x sub h) = wh_store h"
  "wh_sessions (setSubscription x sub h) = wh_sessions h"
  by (simp_all add: setSubscription_def unindexSubscription_def Let_def split: option.split)

lemma subscribe_handled:
  assumes "hub_inv h" "b \<noteq> []"
  shows "handled_well b p h (handle_subscribe env x b p message h)"
proof (cases "\<exists>claims. map_get (wh_sessions h) x = Some claims \<and> claim_broadcastId claims = b \<and>
    claim_peerId claims = p \<and> peerExists claims h")
  case False
  then have "handle_subscribe env x b p message h = (Some SessionMismatch, h)"
    by (auto simp: handle_subscribe_def split: option.split)
  then show ?thesis using handled_same[OF assms(1)] by simp
next
  case True
  then obtain claims where claims: "map_get (wh_sessions h) x = Some claims" "claim_broadcastId claims = b"
    "claim_peerId claims = p" "peerExists claims h" by blast
  have finish: "safe h0 (sendSerialized env (PeerList b ps) x (setSubscription x sub h0)) \<and>
      wh_store (sendSerialized env (PeerList b ps) x (setSubscription x sub h0)) = wh_store h0"
    if "safe h h0" "sub_broadcastId sub = b" "sub_peerId sub = p" for h0 sub ps
  proof -
    have s0: "wh_sessions h0 = wh_sessions h" by (rule safe_sessions[OF that(1)])
    have set: "safe h0 (setSubscription x sub h0)"
      using safe_inv[OF that(1)] claims that(2,3) assms(2) by (intro safe_subscribe) (simp_all add: s0)
    have "own_broadcast (setSubscription x sub h0) (x, PeerList b ps)"
      by (simp add: own_broadcast_def set_subscription_store s0 claims)
    from safe_trans[OF set safe_send_own[OF safe_inv[OF set] this]]
    show ?thesis by (simp add: send_store set_subscription_store)
  qed
  have fill: "safe h (fill_and_announce env b p lookup views h) \<and>
      wh_store (fill_and_announce env b p lookup views h) = wh_store h" for lookup views
    using safe_fans[OF assms(1) fans_fill] fans_fields(1)[OF fans_fill] by blast
  show ?thesis
  proof (cases "subscribe_features (get_prop message ''features'')")
    case None
    then have "handle_subscribe env x b p message h = (Some BadFeatures, h)"
      using claims by (simp add: handle_subscribe_def)
    then show ?thesis using handled_same[OF assms(1)] by simp
  next
    case (Some features)
    define batch where "batch = (WS_FEATURE_INVENTORY_BATCH \<in> set features)"
    define view where "view = (batch \<and> WS_FEATURE_NEIGHBOR_VIEW \<in> set features \<and> wh_neighborViews h \<noteq> None)"
    define sub where "sub = \<lparr>sub_broadcastId = b, sub_peerId = p, sub_inventoryBatch = batch, sub_neighborView = view\<rparr>"
    have sub: "sub_broadcastId sub = b" "sub_peerId sub = p" by (simp_all add: sub_def)
    have eq: "handle_subscribe env x b p message h = (case (if view then wh_neighborViews h else None) of
        Some views0 \<Rightarrow>
          (None, sendSerialized env (PeerList b (List.map_filter (\<lambda>q. getPeer b q (wh_store (setSubscription x sub
              (fill_and_announce env b p (\<lambda>q. getPeer b q (wh_store h))
                (views_add b p (seeded_views b (wh_store h) views0)) h))))
            (p # (case peerView b p (setSubscription x sub
              (fill_and_announce env b p (\<lambda>q. getPeer b q (wh_store h))
                (views_add b p (seeded_views b (wh_store h) views0)) h)) of None \<Rightarrow> [] | Some v \<Rightarrow> v)))) x
            (setSubscription x sub (fill_and_announce env b p (\<lambda>q. getPeer b q (wh_store h))
              (views_add b p (seeded_views b (wh_store h) views0)) h)))
      | None \<Rightarrow> (case listPeers b None (wh_store h) of
          Inl e \<Rightarrow> (Some (StoreFailure e), h)
        | Inr peers \<Rightarrow> (None, sendSerialized env (PeerList b peers) x (setSubscription x sub h))))"
      using claims Some by (simp only: handle_subscribe_def Let_def sub_def view_def batch_def option.case simp_thms if_False if_cancel)
    show ?thesis
    proof (cases "if view then wh_neighborViews h else None")
      case None
      then have "handle_subscribe env x b p message h = (case listPeers b None (wh_store h) of
          Inl e \<Rightarrow> (Some (StoreFailure e), h)
        | Inr peers \<Rightarrow> (None, sendSerialized env (PeerList b peers) x (setSubscription x sub h)))"
        unfolding eq by simp
      then show ?thesis
        using handled_same[OF assms(1)] finish[OF safe_same[OF assms(1) refl refl refl refl refl] sub]
        by (auto simp: handled_well_def split: sum.split)
    next
      case (Some views0)
      let ?views = "views_add b p (seeded_views b (wh_store h) views0)"
      define h1 where "h1 = fill_and_announce env b p (\<lambda>q. getPeer b q (wh_store h)) ?views h"
      have h1: "safe h h1" "wh_store h1 = wh_store h" using fill by (simp_all add: h1_def)
      obtain ps where "handle_subscribe env x b p message h =
          (None, sendSerialized env (PeerList b ps) x (setSubscription x sub h1))"
        unfolding eq Some h1_def by simp
      then show ?thesis
        using finish[OF h1(1) sub, of ps] h1 safe_trans[OF h1(1)] by (simp add: handled_well_def)
    qed
  qed
qed

lemma handled_report:
  assumes "hub_inv h"
  shows "other_peers b p (wh_store h) store \<Longrightarrow>
      handled_well b p h (e, publishInventory env m (h\<lparr>wh_inventoryLimiter := l, wh_store := store\<rparr>))"
    "handled_well b p h (e, h\<lparr>wh_inventoryLimiter := l\<rparr>)"
  by (rule handled_publish[OF assms]; simp add: accounts_def)+

lemma message_handled:
  assumes "hub_inv h" "b \<noteq> []"
  shows "handled_well b p h (dispatch_message env x type b p message now h)"
proof -
  have "handled_well b p h (handle_signal env k b p message h)" for k
    using handled_same[OF assms(1)] handled_fans[OF assms(1) fans_relay] assms(1)
    by (auto simp: handle_signal_def hub_inv_def split: sum.split prod.split)
  moreover have "handled_well b p h (handle_heartbeat b p message now h)"
    using handled_same[OF assms(1)] handled_store[OF assms(1) store_ops_other(1)]
    by (auto simp: handle_heartbeat_def split: sum.split prod.split)
  moreover have "handled_well b p h (handle_delta env b p message now h)"
    using handled_same[OF assms(1)] handled_report[OF assms(1)] store_ops_other(2)
    by (simp add: handle_delta_def Let_def split: sum.split prod.split)
  moreover have "handled_well b p h (handle_segments env b p message now h)"
    using handled_same[OF assms(1)] handled_report[OF assms(1)] store_ops_other(3)
    by (simp add: handle_segments_def segmentsAvailable_def Let_def split: sum.split prod.split)
  moreover have "handled_well b p h (handle_stats b p message now h)"
    using handled_same[OF assms(1)] handled_store[OF assms(1) store_ops_other(4)]
    by (auto simp: handle_stats_def split: sum.split)
  ultimately show ?thesis
    using subscribe_handled[OF assms] handled_same[OF assms(1)] by (simp add: dispatch_message_def)
qed

end
