(* ===== verification/HubEvents.thy ===== *)
theory HubEvents
  imports HubSpec
begin

text \<open>
  The WebSocket hub over whole runs: every event keeps the subscriptions authenticated and the index of
  subscribers exact, sends only inside the broadcast of the receiving session, keeps the
  connections of an address within their limit, and lets a client touch only its own peer.
\<close>

section \<open>Counting connections\<close>

definition held :: "('v \<Rightarrow> string) \<Rightarrow> string \<Rightarrow> (nat, 'v) jsmap \<Rightarrow> nat" where
  "held f ip m = length (filter (\<lambda>(k, v). f v = ip) m)"

lemma held_add:
  assumes "map_get m k = None"
  shows "held f ip (map_set m k v) = held f ip m + (if f v = ip then 1 else 0)"
proof -
  have "map_set m k v = m @ [(k, v)]" using assms by (intro set_fresh) (simp add: map_of_eq_None_iff)
  then show ?thesis by (simp add: held_def)
qed

lemma held_remove:
  assumes "wf_map m" "map_get m k = Some v"
  shows "held f ip (map_delete m k) + (if f v = ip then 1 else 0) = held f ip m"
proof -
  obtain before after where "m = before @ (k, v) # after" "map_delete m k = before @ after"
    by (rule map_split[OF assms])
  then show ?thesis by (simp add: held_def)
qed

text \<open>The connections of an address: upgrades in progress and connected sockets.\<close>

definition open_connections :: "string \<Rightarrow> 'g Hub \<Rightarrow> nat" where
  "open_connections ip h = held fst ip (wh_upgrading h) + held id ip (wh_connectionIps h)"

definition numbered :: "'g Hub \<Rightarrow> bool" where
  "numbered h \<longleftrightarrow> wf_map (wh_upgrading h) \<and> wf_map (wh_connectionIps h) \<and>
     (\<forall>x. map_get (wh_upgrading h) x \<noteq> None \<longrightarrow>
        x < wh_nextSocket h \<and> map_get (wh_sessions h) x = None) \<and>
     (\<forall>x. map_get (wh_connectionIps h) x = None \<longleftrightarrow> map_get (wh_sessions h) x = None) \<and>
     (\<forall>x. map_get (wh_sessions h) x \<noteq> None \<longrightarrow> x < wh_nextSocket h)"

definition within_limit :: "nat \<Rightarrow> 'g Hub \<Rightarrow> bool" where
  "within_limit limit h \<longleftrightarrow> (\<forall>ip. open_connections ip h \<le> connections ip h \<and> connections ip h \<le> limit \<and>
     (ip \<noteq> [] \<longrightarrow> connections ip h = open_connections ip h))"

definition hub_ok :: "nat \<Rightarrow> 'g Hub \<Rightarrow> bool" where
  "hub_ok limit h \<longleftrightarrow> hub_inv h \<and> numbered h \<and> within_limit limit h"

lemma hub_okI: "hub_inv h \<Longrightarrow> numbered h \<Longrightarrow> within_limit limit h \<Longrightarrow> hub_ok limit h"
  by (simp add: hub_ok_def)

lemma numbered_counted_cong:
  assumes "accounts h' = accounts h" "wh_sessions h' = wh_sessions h"
  shows "numbered h' = numbered h" "within_limit limit h' = within_limit limit h"
  using assms by (simp_all add: accounts_def numbered_def within_limit_def open_connections_def connections_def)

lemma hub_ok_safe:
  assumes "hub_ok limit h" "safe h h'"
  shows "hub_ok limit h'"
  using assms numbered_counted_cong[OF safe_accounts[OF assms(2)] safe_sessions[OF assms(2)]] safe_inv[OF assms(2)]
  by (simp add: hub_ok_def)

section \<open>One event\<close>

text \<open>What the hub sends in an event stays inside the broadcasts of the sessions before it.\<close>

definition sends_inside :: "'g Hub \<Rightarrow> 'g Hub \<Rightarrow> bool" where
  "sends_inside h h' \<longleftrightarrow> (\<exists>new. wh_outbox h' = wh_outbox h @ new \<and> list_all (own_broadcast h) new)"

lemma sends_insideI: "wh_outbox h' = wh_outbox h \<Longrightarrow> sends_inside h h'"
  by (simp add: sends_inside_def)

definition well_stepped :: "nat \<Rightarrow> 'g Hub \<Rightarrow> 'g Hub \<Rightarrow> bool" where
  "well_stepped limit h h' \<longleftrightarrow> hub_ok limit h' \<and> sends_inside h h'"

lemma stepped_safe: "hub_ok limit h \<Longrightarrow> safe h h' \<Longrightarrow> well_stepped limit h h'"
  by (auto simp: well_stepped_def sends_inside_def safe_def intro: hub_ok_safe)

lemma stepped_fans: "hub_ok limit h \<Longrightarrow> fans h h' \<Longrightarrow> well_stepped limit h h'"
  by (rule stepped_safe) (auto simp: hub_ok_def intro: safe_fans)

lemma stepped_refl: "hub_ok limit h \<Longrightarrow> well_stepped limit h h"
  by (simp add: well_stepped_def sends_insideI)

lemma budget_safe: "hub_inv h \<Longrightarrow> safe h (snd (consumeMessageBudget x now h))"
  by (rule safe_same) (simp_all add: consumeMessageBudget_def Let_def accounts_def split: option.split)

lemma requiredString_nonempty: "requiredString message key = Inr s \<Longrightarrow> s \<noteq> []"
  by (auto simp: requiredString_def js_trim_def split: jsval.splits if_splits)

lemma handleMessage_safe:
  assumes "hub_inv h"
  shows "safe h (handleMessage env x data now h)"
proof -
  have same: "safe h h" using assms by (rule safe_same) simp_all
  have "safe h (snd (dispatch_message env x type b p message now h))"
    if "requiredString message ''broadcastId'' = Inr b" for message type b p
    using message_handled[OF assms requiredString_nonempty[OF that]] by (simp add: handled_well_def)
  then have "safe h h' \<and> safe h (close_socket InvalidMessage x h')"
    if "dispatch_message env x type b p message now h = (e, h')"
      "requiredString message ''broadcastId'' = Inr b" for message type b p e h'
    using that by (metis safe_close snd_conv)
  then show ?thesis
    using same safe_close[OF same]
    by (auto simp: handleMessage_def split: option.split sum.split prod.split)
qed

lemma on_message_safe:
  assumes "hub_inv h"
  shows "safe h (on_message env x frame now h)"
proof -
  have same: "safe h h" using assms by (rule safe_same) simp_all
  obtain ok h1 where b: "consumeMessageBudget x now h = (ok, h1)" by fastforce
  have h1: "safe h h1" using budget_safe[OF assms, of x now] by (simp add: b)
  show ?thesis
    using same safe_close[OF same] safe_close[OF h1] safe_trans[OF h1 handleMessage_safe[OF safe_inv[OF h1]]]
    by (auto simp: on_message_def b split: frame.split)
qed

lemma release_connections:
  "connections ip (release_connection a h) = (if ip = a then connections ip h - 1 else connections ip h)"
  by (auto simp: connections_def release_connection_def Let_def get_set get_delete split: option.split)

lemma release_frame:
  "wh_subscribers (release_connection a h) = wh_subscribers h"
  "wh_subscriptions (release_connection a h) = wh_subscriptions h"
  "wh_sessions (release_connection a h) = wh_sessions h"
  "wh_connectionIps (release_connection a h) = wh_connectionIps h"
  "wh_upgrading (release_connection a h) = wh_upgrading h"
  "wh_nextSocket (release_connection a h) = wh_nextSocket h"
  "wh_outbox (release_connection a h) = wh_outbox h"
  by (simp_all add: release_connection_def Let_def)

lemma hub_inv_cong:
  assumes "hub_inv h" "wh_subscribers h' = wh_subscribers h" "wh_subscriptions h' = wh_subscriptions h"
    "wh_sessions h' = wh_sessions h"
  shows "hub_inv h'"
  using assms by (simp add: hub_inv_def authenticated_def)

lemma upgrade_stepped:
  assumes "hub_ok (he_maxConnectionsPerIp env) h"
  shows "well_stepped (he_maxConnectionsPerIp env) h (handleUpgrade env request now h)"
proof -
  let ?limit = "he_maxConnectionsPerIp env"
  define ip where "ip = clientAddress (up_remoteAddress request) (up_forwardedFor request) (he_trustProxyHops env)"
  have inv: "hub_inv h" "numbered h" "within_limit ?limit h" using assms by (simp_all add: hub_ok_def)
  have reject: "well_stepped ?limit h (h\<lparr>wh_upgradesRejected := r\<rparr>)" for r
    by (rule stepped_safe[OF assms], rule safe_same[OF inv(1)]) (simp_all add: accounts_def)
  have accept: "well_stepped ?limit h
      (h\<lparr>wh_connectionsPerIp := map_set (wh_connectionsPerIp h) ip (connections ip h + 1),
        wh_upgrading := map_set (wh_upgrading h) (wh_nextSocket h) (ip, claims),
        wh_nextSocket := wh_nextSocket h + 1\<rparr>)" (is "well_stepped _ _ ?h")
    if "connections ip h < ?limit" for claims
  proof -
    have fresh: "map_get (wh_upgrading h) (wh_nextSocket h) = None" "map_get (wh_sessions h) (wh_nextSocket h) = None"
      using inv(2) unfolding numbered_def by (metis less_irrefl)+
    have "hub_inv ?h" by (rule hub_inv_cong[OF inv(1)]) simp_all
    moreover have "numbered ?h"
      using inv(2) fresh unfolding numbered_def by (auto simp: get_set less_Suc_eq)
    moreover have "open_connections a ?h = open_connections a h + (if a = ip then 1 else 0)" for a
      by (simp add: open_connections_def held_add[OF fresh(1)])
    moreover have "connections a ?h = (if a = ip then connections ip h + 1 else connections a h)" for a
      by (simp add: connections_def get_set)
    ultimately show ?thesis
      using inv(3) that by (simp add: well_stepped_def hub_ok_def within_limit_def sends_insideI)
  qed
  show ?thesis
    using reject accept stepped_refl[OF assms]
    by (simp add: handleUpgrade_def Let_def ip_def[symmetric] split: option.split)
qed

text \<open>One connection of an address less; an empty address is not released by a closing socket.\<close>

lemma within_limit_less:
  assumes "within_limit limit h" "released \<or> ip = []"
    and less: "\<And>a. open_connections a h' + (if a = ip then 1 else 0) = open_connections a h"
    and conns: "\<And>a. connections a h' = (if a = ip \<and> released then connections a h - 1 else connections a h)"
  shows "within_limit limit h'"
  unfolding within_limit_def
proof
  fix a
  have "open_connections a h \<le> connections a h \<and> connections a h \<le> limit \<and>
      (a \<noteq> [] \<longrightarrow> connections a h = open_connections a h)" using assms(1) by (simp add: within_limit_def)
  then show "open_connections a h' \<le> connections a h' \<and> connections a h' \<le> limit \<and>
      (a \<noteq> [] \<longrightarrow> connections a h' = open_connections a h')"
    using less[of a] conns[of a] assms(2) by (cases "a = ip"; cases released) auto
qed

lemma handshake_failed_stepped:
  assumes "hub_ok limit h"
  shows "well_stepped limit h (handshake_failed x h)"
proof (cases "map_get (wh_upgrading h) x")
  case None
  then show ?thesis using stepped_refl[OF assms] by (simp add: handshake_failed_def)
next
  case (Some pair)
  obtain ip claims where up: "map_get (wh_upgrading h) x = Some (ip, claims)" using Some by (cases pair) simp
  let ?h = "release_connection ip (h\<lparr>wh_upgrading := map_delete (wh_upgrading h) x\<rparr>)"
  have inv: "hub_inv h" "numbered h" "within_limit limit h" using assms by (simp_all add: hub_ok_def)
  have "hub_inv ?h" by (rule hub_inv_cong[OF inv(1)]) (simp_all add: release_frame)
  moreover have "numbered ?h" using inv(2) unfolding numbered_def by (auto simp: release_frame get_delete)
  moreover have less: "open_connections a ?h + (if a = ip then 1 else 0) = open_connections a h" for a
    using held_remove[of "wh_upgrading h" x "(ip, claims)" fst a] up inv(2)
    by (auto simp: open_connections_def release_frame numbered_def)
  moreover have "within_limit limit ?h"
  proof (rule within_limit_less[OF inv(3), where released = True])
    show "connections a ?h = (if a = ip \<and> True then connections a h - 1 else connections a h)" for a
      unfolding release_connections by (simp add: connections_def)
  qed (simp_all only: less simp_thms)
  ultimately show ?thesis
    by (simp add: well_stepped_def hub_ok_def sends_insideI handshake_failed_def up release_frame)
qed

lemma connected_stepped:
  assumes "hub_ok limit h"
  shows "well_stepped limit h (socket_connected x now h)"
proof (cases "map_get (wh_upgrading h) x")
  case None
  then show ?thesis using stepped_refl[OF assms] by (simp add: socket_connected_def)
next
  case (Some pair)
  obtain ip claims where up: "map_get (wh_upgrading h) x = Some (ip, claims)" using Some by (cases pair) simp
  let ?h = "socket_connected x now h"
  have inv: "hub_inv h" "numbered h" "within_limit limit h" using assms by (simp_all add: hub_ok_def)
  have fresh: "map_get (wh_sessions h) x = None" "map_get (wh_connectionIps h) x = None" "x < wh_nextSocket h"
    using inv(2) up unfolding numbered_def by simp_all
  then have sub: "map_get (wh_subscriptions h) x = None"
    using inv(1) unfolding hub_inv_def authenticated_def by simp
  have ix: "index_ok (wh_subscribers h) (map_get (wh_subscriptions h))" using inv(1) by (simp add: hub_inv_def)
  have "(map_get (wh_subscriptions h))(x := None) = map_get (wh_subscriptions h)" using sub by (simp add: fun_eq_iff)
  with ix have "index_ok (wh_subscribers h) ((map_get (wh_subscriptions h))(x := Some EMPTY_SUBSCRIPTION))"
    by (intro index_ok_empty) (simp only:)
  then have "index_ok (wh_subscribers ?h) (map_get (wh_subscriptions ?h))"
    by (simp add: socket_connected_def up get_upd[symmetric])
  moreover have "authenticated ?h"
    using inv(1) unfolding hub_inv_def authenticated_def
    by (simp add: socket_connected_def up get_set EMPTY_SUBSCRIPTION_def)
  moreover have "numbered ?h"
    using inv(2) fresh unfolding numbered_def by (auto simp: socket_connected_def up get_set get_delete)
  moreover have "open_connections a ?h = open_connections a h" for a
    using held_remove[of "wh_upgrading h" x "(ip, claims)" fst a] up inv(2)
    by (auto simp: open_connections_def socket_connected_def held_add fresh numbered_def)
  moreover have "connections a ?h = connections a h" for a
    by (simp add: connections_def socket_connected_def up)
  moreover have "wh_outbox ?h = wh_outbox h" by (simp add: socket_connected_def up)
  ultimately show ?thesis
    using inv(3) by (simp add: well_stepped_def hub_ok_def hub_inv_def within_limit_def sends_insideI)
qed

lemma unindex_frame:
  "wh_subscriptions (unindexSubscription x h) = wh_subscriptions h"
  "wh_sessions (unindexSubscription x h) = wh_sessions h"
  "wh_connectionIps (unindexSubscription x h) = wh_connectionIps h"
  "wh_connectionsPerIp (unindexSubscription x h) = wh_connectionsPerIp h"
  "wh_upgrading (unindexSubscription x h) = wh_upgrading h"
  "wh_nextSocket (unindexSubscription x h) = wh_nextSocket h"
  "wh_outbox (unindexSubscription x h) = wh_outbox h"
  "wh_store (unindexSubscription x h) = wh_store h"
  by (simp_all add: unindexSubscription_def Let_def split: option.split)

text \<open>The state \<^verbatim>\<open>removeSocket\<close> leaves before it releases the connection.\<close>

definition forget_socket :: "nat \<Rightarrow> 'g Hub \<Rightarrow> 'g Hub" where
  "forget_socket x h =
     (let h1 = unindexSubscription x (h\<lparr>wh_expiryTimers := removeAll x (wh_expiryTimers h)\<rparr>) in
      h1\<lparr>wh_subscriptions := map_delete (wh_subscriptions h1) x,
         wh_sessions := map_delete (wh_sessions h1) x,
         wh_messageBudgets := map_delete (wh_messageBudgets h1) x,
         wh_connectionIps := map_delete (wh_connectionIps h1) x,
         wh_open := removeAll x (wh_open h1)\<rparr>)"

lemma removeSocket_forget:
  "removeSocket x h = (case map_get (wh_connectionIps h) x of
     None \<Rightarrow> forget_socket x h
   | Some ip \<Rightarrow> if ip = [] then forget_socket x h else release_connection ip (forget_socket x h))"
  by (simp add: removeSocket_def forget_socket_def Let_def unindex_frame split: option.split)

lemma forget_frame:
  "wh_subscriptions (forget_socket x h) = map_delete (wh_subscriptions h) x"
  "wh_sessions (forget_socket x h) = map_delete (wh_sessions h) x"
  "wh_connectionIps (forget_socket x h) = map_delete (wh_connectionIps h) x"
  "wh_connectionsPerIp (forget_socket x h) = wh_connectionsPerIp h"
  "wh_upgrading (forget_socket x h) = wh_upgrading h"
  "wh_nextSocket (forget_socket x h) = wh_nextSocket h"
  "wh_outbox (forget_socket x h) = wh_outbox h"
  by (simp_all add: forget_socket_def Let_def unindex_frame)

lemma forget_inv:
  assumes "hub_inv h"
  shows "hub_inv (forget_socket x h)"
proof -
  let ?h = "h\<lparr>wh_expiryTimers := removeAll x (wh_expiryTimers h)\<rparr>"
  have "index_ok (wh_subscribers ?h) (map_get (wh_subscriptions ?h))" using assms by (simp add: hub_inv_def)
  note index_ok_unindex(1)[OF this, of x]
  moreover have "wh_subscribers (forget_socket x h) = wh_subscribers (unindexSubscription x ?h)"
    by (simp add: forget_socket_def Let_def)
  moreover have "map_get (wh_subscriptions (forget_socket x h)) = (map_get (wh_subscriptions ?h))(x := None)"
    by (simp add: forget_frame fun_eq_iff get_delete)
  ultimately have "index_ok (wh_subscribers (forget_socket x h)) (map_get (wh_subscriptions (forget_socket x h)))"
    by (simp only:)
  moreover have "authenticated (forget_socket x h)"
    using assms unfolding hub_inv_def authenticated_def by (auto simp: forget_frame get_delete)
  ultimately show ?thesis by (simp add: hub_inv_def)
qed

lemma removed_stepped:
  assumes "hub_ok limit h"
  shows "well_stepped limit h (removeSocket x h)"
proof -
  have inv: "hub_inv h" "numbered h" "within_limit limit h" using assms by (simp_all add: hub_ok_def)
  let ?f = "forget_socket x h"
  have f: "hub_inv ?f" by (rule forget_inv[OF inv(1)])
  have n: "numbered ?f" using inv(2) unfolding numbered_def by (auto simp: forget_frame get_delete)
  have c: "connections a ?f = connections a h" for a by (simp add: connections_def forget_frame)
  show ?thesis
  proof (cases "map_get (wh_connectionIps h) x")
    case None
    then have "open_connections a ?f = open_connections a h" for a
      by (simp add: open_connections_def forget_frame delete_absent)
    then have "within_limit limit ?f" using inv(3) by (simp add: within_limit_def c)
    with f n show ?thesis
      by (simp add: well_stepped_def hub_ok_def sends_insideI removeSocket_forget None forget_frame)
  next
    case (Some ip)
    have less: "open_connections a ?f + (if a = ip then 1 else 0) = open_connections a h" for a
      using held_remove[of "wh_connectionIps h" x ip id a] Some inv(2)
      by (auto simp: open_connections_def forget_frame numbered_def)
    let ?r = "removeSocket x h"
    have r: "?r = (if ip = [] then ?f else release_connection ip ?f)" by (simp add: removeSocket_forget Some)
    have opens: "open_connections a ?r = open_connections a ?f" for a
      by (simp add: r open_connections_def release_frame)
    have "within_limit limit ?r"
    proof (rule within_limit_less[OF inv(3), where released = "ip \<noteq> []"])
      show "open_connections a ?r + (if a = ip then 1 else 0) = open_connections a h" for a
        using less[of a] by (simp only: opens)
      show "connections a ?r = (if a = ip \<and> ip \<noteq> [] then connections a h - 1 else connections a h)" for a
        by (simp add: r release_connections c)
    qed simp
    moreover have "hub_inv (release_connection ip ?f)" by (rule hub_inv_cong[OF f]) (simp_all add: release_frame)
    then have "hub_inv ?r" using f by (simp add: r)
    moreover have "numbered ?r" using n by (simp add: r numbered_def release_frame)
    moreover have "wh_outbox ?r = wh_outbox h" by (simp add: r release_frame forget_frame)
    ultimately show ?thesis by (simp add: well_stepped_def hub_ok_def sends_insideI)
  qed
qed

text \<open>A removed broadcast empties the subscriptions of its sockets and closes them.\<close>

lemma drop_safe:
  assumes "hub_inv h" "map_get (wh_subscriptions h) x \<noteq> None"
  shows "safe h (drop_broadcast_socket x h)"
proof -
  let ?u = "unindexSubscription x h" and ?d = "drop_broadcast_socket x h"
  have "index_ok (wh_subscribers h) (map_get (wh_subscriptions h))" using assms by (simp add: hub_inv_def)
  from index_ok_empty[OF index_ok_unindex(1)[OF this]]
  have "index_ok (wh_subscribers ?u) ((map_get (wh_subscriptions h))(x := Some EMPTY_SUBSCRIPTION))" .
  moreover have "wh_subscribers ?d = wh_subscribers ?u"
    by (simp add: drop_broadcast_socket_def close_socket_def Let_def)
  moreover have s: "wh_subscriptions ?d = map_set (wh_subscriptions h) x EMPTY_SUBSCRIPTION"
    by (simp add: drop_broadcast_socket_def close_socket_def Let_def unindex_frame)
  ultimately have "index_ok (wh_subscribers ?d) (map_get (wh_subscriptions ?d))" by (simp only: get_upd)
  moreover have same: "wh_sessions ?d = wh_sessions h" "accounts ?d = accounts h" "wh_outbox ?d = wh_outbox h"
    by (simp_all add: drop_broadcast_socket_def close_socket_def Let_def accounts_def unindex_frame)
  moreover have "authenticated ?d"
    using assms unfolding hub_inv_def authenticated_def by (simp add: s same get_set EMPTY_SUBSCRIPTION_def)
  ultimately show ?thesis by (simp add: safe_def hub_inv_def)
qed

lemma drop_keeps_subscriptions:
  "map_get (wh_subscriptions h) y \<noteq> None \<Longrightarrow> map_get (wh_subscriptions (drop_broadcast_socket x h)) y \<noteq> None"
  by (simp add: drop_broadcast_socket_def close_socket_def Let_def unindex_frame get_set)

lemma drops_safe:
  fixes h :: "'g Hub"
  assumes "hub_inv h" "\<forall>x\<in>set xs. map_get (wh_subscriptions h) x \<noteq> None"
  shows "safe h (fold drop_broadcast_socket xs h)"
  using assms
proof (induction xs arbitrary: h)
  case Nil
  then show ?case by (simp add: safe_same)
next
  case (Cons x xs)
  have d: "safe h (drop_broadcast_socket x h)" using Cons.prems by (intro drop_safe) simp_all
  have "\<forall>y\<in>set xs. map_get (wh_subscriptions (drop_broadcast_socket x h)) y \<noteq> None"
    using Cons.prems(2) drop_keeps_subscriptions by (metis list.set_intros(2))
  from safe_trans[OF d Cons.IH[OF safe_inv[OF d] this]] show ?case by simp
qed

lemma broadcastRemoved_safe:
  fixes h :: "'g Hub"
  assumes "hub_inv h"
  shows "safe h (broadcastRemoved b h)"
proof -
  let ?h = "h\<lparr>wh_pendingInventory := map_delete (wh_pendingInventory h) b,
      wh_neighborViews := map_option (views_remove b) (wh_neighborViews h)\<rparr>"
  have h: "safe h ?h" by (rule safe_same[OF assms]) (simp_all add: accounts_def)
  have ix: "index_ok (wh_subscribers h) (map_get (wh_subscriptions h))" using assms by (simp add: hub_inv_def)
  have "map_get (wh_subscriptions ?h) x \<noteq> None" if x: "x \<in> set (subscribersOf b ?h)" for x
  proof -
    have "wf_map (bsu_viewers s)" if "map_get (wh_subscribers h) b = Some s" for s
      using ix that by (simp add: index_ok_def subscribers_ok_def)
    then obtain d where "x \<in> indexed (wh_subscribers h) b d"
      using subscribersOf_indexed[of ?h b x] x by auto
    then show ?thesis using ix unfolding index_ok_def by auto
  qed
  then show ?thesis
    using safe_trans[OF h drops_safe[OF safe_inv[OF h]]] by (simp add: broadcastRemoved_def Let_def)
qed

lemma stop_safe:
  fixes h :: "'g Hub"
  assumes "hub_inv h"
  shows "safe h (stop_hub h)"
proof -
  let ?h = "h\<lparr>wh_listening := False, wh_pendingInventory := [], wh_flushRequested := []\<rparr>"
  have "safe h ?h" by (rule safe_same[OF assms]) (simp_all add: accounts_def)
  then have "safe h (fold (close_socket Terminated) xs h')" if "safe h h'" for xs h'
    using that by (induction xs arbitrary: h') (simp_all add: safe_close)
  with \<open>safe h ?h\<close> show ?thesis by (simp add: stop_hub_def)
qed

lemma step_stepped:
  fixes h :: "'g Hub"
  assumes "hub_ok (he_maxConnectionsPerIp env) h"
  shows "well_stepped (he_maxConnectionsPerIp env) h (hub_step env e h)"
proof -
  have inv: "hub_inv h" using assms by (simp add: hub_ok_def)
  note safe = stepped_safe[OF assms] and fans = stepped_fans[OF assms]
  have same: "safe h h" by (rule safe_same[OF inv]) simp_all
  show ?thesis
  proof (cases e)
    case (SessionTimer x)
    then show ?thesis using safe[OF same] safe[OF safe_close[OF same]] by (simp add: session_expired_def)
  next
    case (StoreChanged store)
    then show ?thesis by (auto intro!: safe safe_same[OF inv] simp: accounts_def)
  qed (simp_all add: upgrade_stepped handshake_failed_stepped connected_stepped removed_stepped assms
      safe on_message_safe broadcastRemoved_safe stop_safe inv fans fans_peerJoined fans_peerLeft fans_publish
      segmentsAvailable_def fans_flush fans_run_turn)
qed

section \<open>Runs\<close>

interpretation hub: kept_by_steps "hub_step env" "hub_ok (he_maxConnectionsPerIp env)"
  by unfold_locales (use step_stepped in \<open>auto simp: well_stepped_def\<close>)

lemma new_hub_ok: "hub_ok limit (new_hub store limiter viewSize g)"
  by (simp add: hub_ok_def hub_inv_def index_ok_def indexed_def authenticated_def numbered_def within_limit_def
      open_connections_def connections_def held_def new_hub_def)

definition hub_run :: "'g HubEnv \<Rightarrow> hub_event list \<Rightarrow> TrackerStore \<Rightarrow> InventoryRateLimiter \<Rightarrow> nat \<Rightarrow> 'g \<Rightarrow> 'g Hub" where
  "hub_run env events store limiter viewSize g = fold (hub_step env) events (new_hub store limiter viewSize g)"

lemma run_ok: "hub_ok (he_maxConnectionsPerIp env) (hub_run env events store limiter viewSize g)"
  unfolding hub_run_def by (rule hub.run[OF new_hub_ok])

lemma subscribersOf_iff:
  assumes "hub_inv h"
  shows "x \<in> set (subscribersOf b h) \<longleftrightarrow> (\<exists>d. x \<in> indexed (wh_subscribers h) b d)"
proof -
  have ix: "\<And>s. map_get (wh_subscribers h) b = Some s \<Longrightarrow> wf_map (bsu_viewers s)"
    using assms by (simp add: hub_inv_def index_ok_def subscribers_ok_def)
  have "x \<in> set (subscribersOf b h)" if x: "x \<in> indexed (wh_subscribers h) b d" for d
  proof -
    obtain s where s: "map_get (wh_subscribers h) b = Some s" "x \<in> set (recipients d s)"
      using x by (cases "map_get (wh_subscribers h) b") (simp_all add: indexed_def)
    show ?thesis
    proof (cases d)
      case (Viewer p)
      then obtain ss where ss: "map_get (bsu_viewers s) p = Some ss" "x \<in> set ss"
        using s(2) by (cases "map_get (bsu_viewers s) p") auto
      have "(p, ss) \<in> set (bsu_viewers s)" by (rule map_of_SomeD[OF ss(1)])
      then show ?thesis using ss(2) by (force simp: subscribersOf_def s(1))
    qed (use s in \<open>simp_all add: subscribersOf_def\<close>)
  qed
  with subscribersOf_indexed[OF ix] show ?thesis by blast
qed

lemma clients_message:
  fixes h :: "'g Hub"
  assumes "hub_inv h" "b \<noteq> []" "getPeer c q (wh_store (snd (dispatch_message env x type b p message now h))) \<noteq> getPeer c q (wh_store h)"
  shows "c = b \<and> q = p \<and> matches_subscription x b p h"
proof -
  have "wh_store (snd (handle_subscribe env x b p message h)) = wh_store h"
    by (auto simp: handle_subscribe_def Let_def send_store set_subscription_store fans_fields(1)[OF fans_fill]
        split: option.split sum.split)
  then have m: "matches_subscription x b p h"
    using assms(3) by (auto simp: dispatch_message_def split: if_splits)
  have "other_peers b p (wh_store h) (wh_store (snd (dispatch_message env x type b p message now h)))"
    using message_handled[OF assms(1,2), of p env x type message now] unfolding handled_well_def by blast
  then have "(c, q) = (b, p)" using assms(3) unfolding other_peers_def by metis
  with m show ?thesis by simp
qed

lemma matches_claims:
  assumes "hub_inv h" "matches_subscription x b p h" "b \<noteq> []"
  shows "\<exists>claims. map_get (wh_sessions h) x = Some claims \<and> claim_broadcastId claims = b \<and> claim_peerId claims = p"
  using assms unfolding hub_inv_def authenticated_def matches_subscription_def
  by (cases "map_get (wh_subscriptions h) x") auto

lemma handleMessage_claims:
  fixes h :: "'g Hub"
  assumes "hub_inv h" "getPeer c q (wh_store (handleMessage env x data now h)) \<noteq> getPeer c q (wh_store h)"
  shows "\<exists>claims. map_get (wh_sessions h) x = Some claims \<and> claim_broadcastId claims = c \<and> claim_peerId claims = q"
proof -
  have "wh_store (close_socket r x h') = wh_store h'" for r and h' :: "'g Hub" by (simp add: close_socket_def)
  then obtain message type b p where "requiredString message ''broadcastId'' = Inr b"
    "getPeer c q (wh_store (snd (dispatch_message env x type b p message now h))) \<noteq> getPeer c q (wh_store h)"
    using assms(2) by (auto simp: handleMessage_def split: option.splits if_splits sum.splits prod.splits)
      (metis snd_conv)+
  with clients_message[OF assms(1) requiredString_nonempty] matches_claims[OF assms(1)] requiredString_nonempty
  show ?thesis by metis
qed

section \<open>Deferred flushes\<close>

text \<open>What the deferred batches still have to serve.\<close>

definition backlog :: "'g Hub \<Rightarrow> nat" where
  "backlog h = sum_list (map (\<lambda>b. Suc (length (vb_viewerIds b) - vb_start b)) (wh_turns h))"

definition continues :: "ViewerBatch \<Rightarrow> ViewerBatch \<Rightarrow> bool" where
  "continues batch rest \<longleftrightarrow> vb_viewerIds rest = vb_viewerIds batch \<and> vb_start batch < vb_start rest \<and>
     vb_start rest < length (vb_viewerIds batch)"

lemma turn_continues:
  "viewer_turn env batch h = (Some rest, h') \<Longrightarrow> 0 < he_viewersPerFlushTurn env \<Longrightarrow> continues batch rest"
  by (auto simp: viewer_turn_def continues_def Let_def min_def split: if_splits)

lemma batches_progress:
  assumes "0 < he_viewersPerFlushTurn env"
  shows "length (wh_flushRequested (sendViewerBatches env batch h)) < length (wh_flushRequested h) \<or>
    wh_flushRequested (sendViewerBatches env batch h) = wh_flushRequested h \<and>
    (wh_turns (sendViewerBatches env batch h) = wh_turns h \<or>
     (\<exists>rest. continues batch rest \<and> wh_turns (sendViewerBatches env batch h) = wh_turns h @ [rest]))"
  using assms
proof (induction env batch h rule: sendViewerBatches.induct)
  case (1 env batch h)
  obtain r h1 where turn: "viewer_turn env batch h = (r, h1)" by fastforce
  note frame = viewer_turn_frame[OF turn]
  show ?case
  proof (cases r)
    case (Some rest)
    have "continues batch rest" using turn_continues[OF turn[unfolded Some] 1(2)] .
    then show ?thesis using frame by (subst (1 2 3 4) sendViewerBatches.simps) (simp add: turn Some)
  next
    case None
    let ?b = "vb_broadcastId batch"
    define h2 where "h2 = h1\<lparr>wh_flushing := set_delete ?b (wh_flushing h1)\<rparr>"
    define h3 where "h3 = h2\<lparr>wh_flushRequested := set_delete ?b (wh_flushRequested h2)\<rparr>"
    have req: "wh_flushRequested h2 = wh_flushRequested h" "wh_turns h2 = wh_turns h" using frame by (simp_all add: h2_def)
    show ?thesis
    proof (cases "?b \<in> set (wh_flushRequested h2)")
      case False
      then have "sendViewerBatches env batch h = h2"
        by (subst sendViewerBatches.simps) (simp add: turn None Let_def h2_def)
      with req show ?thesis by simp
    next
      case True
      have less: "length (wh_flushRequested h3) < length (wh_flushRequested h)"
        using length_set_delete_less[OF True] by (simp add: h3_def req)
      have same: "wh_flushRequested h1 = wh_flushRequested h2" by (simp add: h2_def)
      obtain n h4 where bf: "begin_flush env ?b h3 = (n, h4)" by fastforce
      have h4: "length (wh_flushRequested h4) < length (wh_flushRequested h)"
        using begin_flush_frame[OF bf] less by simp
      have eq: "sendViewerBatches env batch h = (case n of None \<Rightarrow> h4 | Some nb \<Rightarrow> sendViewerBatches env nb h4)"
        using True by (subst sendViewerBatches.simps) (simp add: turn None Let_def h2_def[symmetric] h3_def[symmetric] same bf split: option.split)
      show ?thesis
      proof (cases n)
        case None
        with h4 show ?thesis by (simp add: eq)
      next
        case (Some nb)
        have "length (wh_flushRequested (sendViewerBatches env nb h4)) \<le> length (wh_flushRequested h4)"
          using 1(1)[OF turn[symmetric] \<open>r = None\<close> refl h2_def True bf[unfolded h3_def, symmetric] Some 1(2)] by auto
        with h4 show ?thesis by (simp add: eq Some)
      qed
    qed
  qed
qed

lemma turn_shrinks:
  assumes "0 < he_viewersPerFlushTurn env" "wh_turns h \<noteq> []"
  shows "((length (wh_flushRequested (run_viewer_turn env h)), backlog (run_viewer_turn env h)),
     (length (wh_flushRequested h), backlog h)) \<in> less_than <*lex*> less_than"
proof -
  obtain batch turns where t: "wh_turns h = batch # turns" using assms(2) by (cases "wh_turns h") auto
  have r: "run_viewer_turn env h = sendViewerBatches env batch (h\<lparr>wh_turns := turns\<rparr>)"
    by (simp add: run_viewer_turn_def t)
  show ?thesis
    using batches_progress[OF assms(1), of batch "h\<lparr>wh_turns := turns\<rparr>"] unfolding r
    by (auto simp: backlog_def t continues_def)
qed

section \<open>Properties of the hub\<close>

text \<open>C3: After any sequence of upgrades, connections, client frames, closed sockets, timers and
  tracker events, the sockets the hub sends a broadcast's messages to are exactly the sockets that
  subscribed to it, and each subscribed as the peer, and to the broadcast, its session token names.\<close>

theorem hub_subscriptions_authenticated:
  "x \<in> set (subscribersOf b (hub_run env events store limiter viewSize g)) \<longleftrightarrow>
    (\<exists>s claims. map_get (wh_subscriptions (hub_run env events store limiter viewSize g)) x = Some s \<and>
       map_get (wh_sessions (hub_run env events store limiter viewSize g)) x = Some claims \<and>
       b \<noteq> [] \<and> sub_broadcastId s = b \<and> claim_broadcastId claims = b \<and> claim_peerId claims = sub_peerId s)"
proof -
  let ?h = "hub_run env events store limiter viewSize g"
  have inv: "hub_inv ?h" using run_ok[of env events store limiter viewSize g] by (simp add: hub_ok_def)
  have "x \<in> set (subscribersOf b ?h) \<longleftrightarrow>
      (\<exists>s. map_get (wh_subscriptions ?h) x = Some s \<and> sub_broadcastId s = b \<and> b \<noteq> [])"
    using inv unfolding subscribersOf_iff[OF inv] hub_inv_def index_ok_def by blast
  moreover have "\<exists>claims. map_get (wh_sessions ?h) x = Some claims \<and> claim_broadcastId claims = b \<and>
      claim_peerId claims = sub_peerId s"
    if "map_get (wh_subscriptions ?h) x = Some s" "sub_broadcastId s = b" "b \<noteq> []" for s
    using inv that unfolding hub_inv_def authenticated_def by blast
  ultimately show ?thesis by blast
qed

text \<open>C4: Whatever event comes next, everything the hub sends goes to sockets whose session token is
  for the broadcast the message is about; and earlier messages are never taken back.\<close>

theorem hub_messages_stay_in_broadcast:
  "\<exists>sent. wh_outbox (hub_step env e (hub_run env events store limiter viewSize g)) =
      wh_outbox (hub_run env events store limiter viewSize g) @ sent \<and>
    list_all (\<lambda>(x, message). map_option claim_broadcastId
        (map_get (wh_sessions (hub_run env events store limiter viewSize g)) x) = Some (message_broadcast message)) sent"
proof -
  let ?h = "hub_run env events store limiter viewSize g"
  have "sends_inside ?h (hub_step env e ?h)" using step_stepped[OF run_ok[of env events store limiter viewSize g], of e] unfolding well_stepped_def by blast
  then obtain sent where sent: "wh_outbox (hub_step env e ?h) = wh_outbox ?h @ sent" "list_all (own_broadcast ?h) sent"
    unfolding sends_inside_def by blast
  have "own_broadcast ?h y \<Longrightarrow> map_option claim_broadcastId (map_get (wh_sessions ?h) (fst y)) =
      Some (message_broadcast (snd y))" for y
    by (cases "map_get (wh_sessions ?h) (fst y)") (auto simp: own_broadcast_def)
  with sent show ?thesis by (auto simp: list_all_iff)
qed

text \<open>C36: At no time do the connected sockets and the upgrades in progress of an address exceed the
  configured number of connections, and the counter that enforces it is exact.\<close>

theorem connection_limit_enforced:
  "open_connections ip (hub_run env events store limiter viewSize g) \<le> he_maxConnectionsPerIp env \<and>
   (ip = [] \<or> connections ip (hub_run env events store limiter viewSize g) =
      open_connections ip (hub_run env events store limiter viewSize g))"
proof -
  have "within_limit (he_maxConnectionsPerIp env) (hub_run env events store limiter viewSize g)"
    using run_ok[of env events store limiter viewSize g] by (simp add: hub_ok_def)
  then show ?thesis unfolding within_limit_def by (meson le_trans)
qed

text \<open>C5: A frame from a client changes no peer in the store but the one its session token names.\<close>

theorem clients_change_only_themselves:
  "getPeer c q (wh_store (hub_step env (SocketFrame x frame now) (hub_run env events store limiter viewSize g))) =
      getPeer c q (wh_store (hub_run env events store limiter viewSize g)) \<or>
   (\<exists>claims. map_get (wh_sessions (hub_run env events store limiter viewSize g)) x = Some claims \<and>
      claim_broadcastId claims = c \<and> claim_peerId claims = q)"
proof -
  let ?h = "hub_run env events store limiter viewSize g"
  have inv: "hub_inv ?h" using run_ok[of env events store limiter viewSize g] by (simp add: hub_ok_def)
  obtain ok h1 where b: "consumeMessageBudget x now ?h = (ok, h1)" by fastforce
  have h1: "hub_inv h1" "wh_sessions h1 = wh_sessions ?h"
    using budget_safe[OF inv, of x now] by (simp_all add: b safe_def)
  have st: "wh_store h1 = wh_store ?h" using b
    by (auto simp: consumeMessageBudget_def Let_def split: option.splits if_splits)
  have "wh_store (close_socket r x h') = wh_store h'" for r and h' :: "'a Hub" by (simp add: close_socket_def)
  then show ?thesis
    using handleMessage_claims[OF h1(1), of c q env x _ now] st h1(2)
    by (auto simp: on_message_def b split: frame.split)
qed


definition sample_hub_env :: "nat HubEnv" where
  "sample_hub_env = \<lparr>he_allowedOrigins = [], he_maxConnectionsPerIp = 20, he_trustProxyHops = 0,
     he_viewersPerFlushTurn = 2, he_peerSessions = sample_service, he_hmac = (\<lambda>_ p. rev p),
     he_decodeJson = (\<lambda>_. None), he_drawNumber = (\<lambda>g. (0, g)), he_byteLength = (\<lambda>_. 10),
     he_socket = (\<lambda>_ _. (0, False))\<rparr>"

definition sample_deferred :: "nat Hub" where
  "sample_deferred = (new_hub (new_store 8) (new_inventory_limiter (Num 16384) (Num 262144)) 0 0)
     \<lparr>wh_turns := [\<lparr>vb_broadcastId = ''b'', vb_subscribers = 0, vb_updates = [],
        vb_viewerIds = [''p'', ''q'', ''r''], vb_start = 2\<rparr>], wh_flushing := [''b''], wh_flushRequested := [''b'']\<rparr>"


end
