(* ===== verification/TrackerClient.thy ===== *)
theory TrackerClient
  imports WireMessages
begin

text \<open>
  The Node peer's tracker client (\<^verbatim>\<open>peer/src/tracker.ts\<close>): parsing of tracker messages and join
  responses, the peer directory they keep, inventory reports as deltas, and the connection with
  its exponential backoff. Requests over HTTP, \<^verbatim>\<open>Date.parse\<close> and whether a socket accepts a message
  are arguments; timers are events.
\<close>

section \<open>Parsing\<close>

record DirectoryPeer =
  dp_id :: string
  dp_address :: string
  dp_segments :: "string list"
  dp_joinedAt :: string
  dp_lastSeenAt :: string
  dp_latencyMs :: number
  dp_successRate :: number
  dp_trustScore :: number
  dp_uploadBandwidthBps :: "number option"
  dp_metadata :: "metadata option"

datatype parse_error =
    InvalidJson | MissingFields | BadPeer | BadBandwidth | BadMetadata | BadPeerList | BadPeerId
  | BadSegmentUpdate | BadSegmentDelta | BadSegmentBatch | BadInventoryUpdate | BadSession

text \<open>\<^verbatim>\<open>isStringArray\<close>, with the strings.\<close>

fun string_array :: "jsval \<Rightarrow> string list option" where
  "string_array (Array vs) =
     (if list_all is_string vs then Some (List.map_filter to_string vs) else None)"
| "string_array _ = None"

fun parse_entries :: "(string \<times> jsval) list \<Rightarrow> metadata \<Rightarrow> (parse_error, metadata) result" where
  "parse_entries [] m = return m"
| "parse_entries ((k, Str v) # es) m = parse_entries es (map_set m k v)"
| "parse_entries ((k, _) # es) m = throw BadMetadata"

fun parseMetadata :: "jsval \<Rightarrow> (parse_error, metadata option) result" where
  "parseMetadata Undefined = return None"
| "parseMetadata (Object es) = map_sum id Some (parse_entries es [])"
| "parseMetadata _ = throw BadMetadata"

definition parsePeer :: "jsval \<Rightarrow> (parse_error, DirectoryPeer) result" where
  "parsePeer v =
     (if \<not> isRecord v then throw BadPeer
      else
        (case (get_prop v ''id'', get_prop v ''address'', string_array (get_prop v ''segments''),
               get_prop v ''joinedAt'', get_prop v ''lastSeenAt'', get_prop v ''latencyMs'',
               get_prop v ''successRate'', get_prop v ''trustScore'') of
           (Str pid, Str address, Some segments, Str joinedAt, Str lastSeenAt, Number latencyMs,
            Number successRate, Number trustScore) \<Rightarrow>
             if \<not> isFinite latencyMs \<or> \<not> isFinite successRate \<or> \<not> isFinite trustScore then throw BadPeer
             else if get_prop v ''uploadBandwidthBps'' \<noteq> Undefined \<and>
               \<not> is_finite_number (get_prop v ''uploadBandwidthBps'') then throw BadBandwidth
             else
               (case parseMetadata (get_prop v ''metadata'') of
                  Inl e \<Rightarrow> throw e
                | Inr m \<Rightarrow> return
                    \<lparr>dp_id = pid, dp_address = address, dp_segments = segments, dp_joinedAt = joinedAt,
                     dp_lastSeenAt = lastSeenAt, dp_latencyMs = latencyMs, dp_successRate = successRate,
                     dp_trustScore = trustScore,
                     dp_uploadBandwidthBps = (case get_prop v ''uploadBandwidthBps'' of
                       Number n \<Rightarrow> Some n | _ \<Rightarrow> None),
                     dp_metadata = m\<rparr>)
         | _ \<Rightarrow> throw BadPeer))"

text \<open>\<^verbatim>\<open>values.map(parse)\<close> for a parser that may throw: the first error wins.\<close>

fun parse_all :: "('a \<Rightarrow> ('e, 'b) result) \<Rightarrow> 'a list \<Rightarrow> ('e, 'b list) result" where
  "parse_all f [] = return []"
| "parse_all f (v # vs) = (case f v of
     Inl e \<Rightarrow> throw e | Inr x \<Rightarrow> map_sum id (Cons x) (parse_all f vs))"

definition parseInventoryUpdate :: "jsval \<Rightarrow> (parse_error, SegmentInventoryUpdate) result" where
  "parseInventoryUpdate v =
     (case get_prop v ''peerId'' of
        Str pid \<Rightarrow>
          if get_prop v ''replace'' = Boolean True then
            (case string_array (get_prop v ''segments'') of
               None \<Rightarrow> throw BadInventoryUpdate | Some segments \<Rightarrow> return (ReplaceUpdate pid segments))
          else
            (case (string_array (get_prop v ''added''), string_array (get_prop v ''removed'')) of
               (Some added, Some removed) \<Rightarrow> return (DeltaUpdate pid added removed)
             | _ \<Rightarrow> throw BadInventoryUpdate)
      | _ \<Rightarrow> throw BadInventoryUpdate)"

text \<open>\<open>None\<close> for the types a Node peer does not use. The argument is the parsed text.\<close>

definition parsePeerUpdate ::
    "jsval option \<Rightarrow> (parse_error, DirectoryPeer WsServerMessage option) result" where
  "parsePeerUpdate parsed = (case parsed of
     None \<Rightarrow> throw InvalidJson
   | Some v \<Rightarrow>
       (case (get_prop v ''type'', get_prop v ''broadcastId'') of
          (Str type, Str b) \<Rightarrow>
            if type = ''peer_list'' then
              (case get_prop v ''peers'' of
                 Array ps \<Rightarrow> map_sum id (\<lambda>ps. Some (PeerList b ps)) (parse_all parsePeer ps)
               | _ \<Rightarrow> throw BadPeerList)
            else if type = ''peer_joined'' then
              map_sum id (\<lambda>p. Some (PeerJoined b p)) (parsePeer (get_prop v ''peer''))
            else if type = ''peer_left'' then
              (case get_prop v ''peerId'' of Str p \<Rightarrow> return (Some (PeerLeft b p)) | _ \<Rightarrow> throw BadPeerId)
            else if type = ''segment_available'' then
              (case (get_prop v ''peerId'', string_array (get_prop v ''segments'')) of
                 (Str p, Some segments) \<Rightarrow> return (Some (Inventory
                   (SegmentAvailable b p segments (get_prop v ''replace'' = Boolean True))))
               | _ \<Rightarrow> throw BadSegmentUpdate)
            else if type = ''segment_inventory_delta'' then
              (case (get_prop v ''peerId'', string_array (get_prop v ''added''),
                     string_array (get_prop v ''removed'')) of
                 (Str p, Some added, Some removed) \<Rightarrow>
                   return (Some (Inventory (SegmentInventoryDelta b p added removed)))
               | _ \<Rightarrow> throw BadSegmentDelta)
            else if type = ''segment_inventory_batch'' then
              (case get_prop v ''updates'' of
                 Array us \<Rightarrow> map_sum id (\<lambda>us. Some (InventoryBatch b us)) (parse_all parseInventoryUpdate us)
               | _ \<Rightarrow> throw BadSegmentBatch)
            else return None
        | _ \<Rightarrow> throw MissingFields))"

record RTCIceServer =
  ice_urls :: "string list"
  ice_username :: "string option"
  ice_credential :: "string option"

definition string_or_absent :: "jsval \<Rightarrow> bool" where
  "string_or_absent v \<longleftrightarrow> v = Undefined \<or> is_string v"

fun valid_urls :: "jsval \<Rightarrow> string list option" where
  "valid_urls (Str u) = (if u \<noteq> [] then Some [u] else None)"
| "valid_urls (Array us) =
     (if us \<noteq> [] \<and> list_all (\<lambda>u. is_string u \<and> u \<noteq> Str []) us
      then Some (List.map_filter to_string us) else None)"
| "valid_urls _ = None"

definition parse_ice_server :: "jsval \<Rightarrow> RTCIceServer list" where
  "parse_ice_server entry =
     (if \<not> isRecord entry then []
      else (case valid_urls (get_prop entry ''urls'') of
        None \<Rightarrow> []
      | Some urls \<Rightarrow>
          if \<not> string_or_absent (get_prop entry ''username'') \<or>
             \<not> string_or_absent (get_prop entry ''credential'') then []
          else [\<lparr>ice_urls = urls, ice_username = to_string (get_prop entry ''username''),
                 ice_credential = to_string (get_prop entry ''credential'')\<rparr>]))"

fun parseIssuedIceServers :: "jsval \<Rightarrow> RTCIceServer list" where
  "parseIssuedIceServers (Array vs) = concat (map parse_ice_server vs)"
| "parseIssuedIceServers _ = []"

record PeerSession =
  pse_peer :: DirectoryPeer
  pse_sessionToken :: string
  pse_expiresAt :: number
  pse_iceServers :: "RTCIceServer list"

definition parsePeerSession ::
    "(string \<Rightarrow> number) \<Rightarrow> jsval \<Rightarrow> (parse_error, PeerSession) result" where
  "parsePeerSession dateParse v =
     (case (get_prop v ''sessionToken'', get_prop v ''expiresAt'') of
        (Str token, Str expiresAt) \<Rightarrow>
          if \<not> isFinite (dateParse expiresAt) then throw BadSession
          else
            (case parsePeer (get_prop v ''peer'') of
               Inl e \<Rightarrow> throw e
             | Inr p \<Rightarrow> return \<lparr>pse_peer = p, pse_sessionToken = token,
                 pse_expiresAt = dateParse expiresAt,
                 pse_iceServers = parseIssuedIceServers (get_prop v ''iceServers'')\<rparr>)
      | _ \<Rightarrow> throw BadSession)"

section \<open>The client\<close>

datatype WsClientMessage =
    SubscribeMessage string string "string list"
  | HeartbeatMessage string string PeerHeartbeat
  | ReportStatsMessage string string PeerTrafficStats
  | ReportSegmentsMessage string string "string list" "string list"

record TrackerClientOptions =
  tco_broadcastId :: string
  tco_peerId :: string
  tco_rendition :: "string option"
  tco_reportIntervalMs :: number
  tco_reconnectInitialMs :: number
  tco_reconnectMaxMs :: number
  tco_startupTimeoutMs :: number
  tco_requestTimeoutMs :: number

datatype client_error = NotPositiveInteger string | BackoffOrder

text \<open>The client's state. \<open>tc_socket\<close> is the identity of the current socket and whether it is open;
  \<open>tc_reconnectTimer\<close> is the delay of the pending timer; \<open>tc_sent\<close> records accepted messages.\<close>

record TrackerClient =
  tc_options :: TrackerClientOptions
  tc_peers :: "(string, DirectoryPeer) jsmap"
  tc_lastReportedSegments :: "string list"
  tc_socket :: "(nat \<times> bool) option"
  tc_nextSocket :: nat
  tc_reportTimer :: bool
  tc_reconnectTimer :: "number option"
  tc_nextReconnectMs :: number
  tc_started :: bool
  tc_sessionToken :: "string option"
  tc_sent :: "WsClientMessage list"

definition positive_integer :: "number \<Rightarrow> bool" where
  "positive_integer v \<longleftrightarrow> isSafeInteger v \<and> \<not> v \<le> 0"

definition new_tracker_client ::
    "TrackerClientOptions \<Rightarrow> string option \<Rightarrow> (client_error, TrackerClient) result" where
  "new_tracker_client opts initialSessionToken =
     (case filter (\<lambda>(label, v). \<not> positive_integer v)
        [(''Report interval'', tco_reportIntervalMs opts),
         (''Initial reconnect delay'', tco_reconnectInitialMs opts),
         (''Maximum reconnect delay'', tco_reconnectMaxMs opts),
         (''Startup timeout'', tco_startupTimeoutMs opts),
         (''Request timeout'', tco_requestTimeoutMs opts)] of
        (label, v) # _ \<Rightarrow> throw (NotPositiveInteger label)
      | [] \<Rightarrow>
          if tco_reconnectMaxMs opts < tco_reconnectInitialMs opts then throw BackoffOrder
          else return
            \<lparr>tc_options = opts, tc_peers = [], tc_lastReportedSegments = [], tc_socket = None,
             tc_nextSocket = 0, tc_reportTimer = False, tc_reconnectTimer = None,
             tc_nextReconnectMs = tco_reconnectInitialMs opts, tc_started = False,
             tc_sessionToken = initialSessionToken, tc_sent = []\<rparr>)"

text \<open>\<open>accepts\<close> tells whether \<^verbatim>\<open>socket.send\<close> returns rather than throws.\<close>

definition client_send :: "bool \<Rightarrow> WsClientMessage \<Rightarrow> TrackerClient \<Rightarrow> bool \<times> TrackerClient" where
  "client_send accepts message c = (case tc_socket c of
     Some (s, True) \<Rightarrow>
       if accepts then (True, c\<lparr>tc_sent := tc_sent c @ [message]\<rparr>) else (False, c)
   | _ \<Rightarrow> (False, c))"

definition client_reportSegments :: "bool \<Rightarrow> string list \<Rightarrow> TrackerClient \<Rightarrow> TrackerClient" where
  "client_reportSegments accepts segments c =
     (let current = new_set segments;
          added = filter (\<lambda>s. s \<notin> set (tc_lastReportedSegments c)) current;
          removed = filter (\<lambda>s. s \<notin> set current) (tc_lastReportedSegments c) in
      if added = [] \<and> removed = [] then c
      else (case client_send accepts (ReportSegmentsMessage (tco_broadcastId (tc_options c))
              (tco_peerId (tc_options c)) added removed) c of
        (sent, c') \<Rightarrow> if \<not> sent then c' else c'\<lparr>tc_lastReportedSegments := current\<rparr>))"

definition reportStatus ::
    "bool \<Rightarrow> PeerHeartbeat \<Rightarrow> PeerTrafficStats \<Rightarrow> string list \<Rightarrow> TrackerClient \<Rightarrow> TrackerClient" where
  "reportStatus accepts heartbeat stats segments c =
     (let b = tco_broadcastId (tc_options c); p = tco_peerId (tc_options c);
          c1 = snd (client_send accepts (HeartbeatMessage b p heartbeat) c);
          c2 = snd (client_send accepts (ReportStatsMessage b p stats) c1) in
      client_reportSegments accepts segments c2)"

section \<open>The directory\<close>

definition replaceInventory :: "string \<Rightarrow> string list \<Rightarrow> TrackerClient \<Rightarrow> TrackerClient" where
  "replaceInventory peerId segments c =
     c\<lparr>tc_peers := map_adjust (tc_peers c) peerId (\<lambda>p. p\<lparr>dp_segments := segments\<rparr>)\<rparr>"

definition applyInventoryDelta ::
    "string \<Rightarrow> string list \<Rightarrow> string list \<Rightarrow> TrackerClient \<Rightarrow> TrackerClient" where
  "applyInventoryDelta peerId added removed c =
     c\<lparr>tc_peers := map_adjust (tc_peers c) peerId
         (\<lambda>p. p\<lparr>dp_segments := fold set_add added (fold set_delete removed (new_set (dp_segments p)))\<rparr>)\<rparr>"

fun apply_inventory_update :: "SegmentInventoryUpdate \<Rightarrow> TrackerClient \<Rightarrow> TrackerClient" where
  "apply_inventory_update (ReplaceUpdate p segments) c = replaceInventory p segments c"
| "apply_inventory_update (DeltaUpdate p added removed) c = applyInventoryDelta p added removed c"

fun apply_message :: "DirectoryPeer WsServerMessage \<Rightarrow> TrackerClient \<Rightarrow> TrackerClient" where
  "apply_message (PeerList b ps) c =
     c\<lparr>tc_nextReconnectMs := tco_reconnectInitialMs (tc_options c),
       tc_peers := fold (\<lambda>p m. map_set m (dp_id p) p) ps []\<rparr>"
| "apply_message (PeerJoined b p) c = c\<lparr>tc_peers := map_set (tc_peers c) (dp_id p) p\<rparr>"
| "apply_message (PeerLeft b p) c = c\<lparr>tc_peers := map_delete (tc_peers c) p\<rparr>"
| "apply_message (Inventory (SegmentAvailable b p segments replace)) c =
     (if replace then replaceInventory p segments c else applyInventoryDelta p segments [] c)"
| "apply_message (Inventory (SegmentInventoryDelta b p added removed)) c =
     applyInventoryDelta p added removed c"
| "apply_message (InventoryBatch b updates) c = fold apply_inventory_update updates c"
| "apply_message _ c = c"

definition client_handleMessage :: "jsval option \<Rightarrow> TrackerClient \<Rightarrow> TrackerClient" where
  "client_handleMessage data c = (case parsePeerUpdate data of
     Inr (Some message) \<Rightarrow>
       if message_broadcast message \<noteq> tco_broadcastId (tc_options c) then c
       else apply_message message c
   | _ \<Rightarrow> c)"

definition PEER_METADATA_RENDITION :: string where
  "PEER_METADATA_RENDITION = ''rendition''"

definition sameRendition :: "TrackerClient \<Rightarrow> DirectoryPeer \<Rightarrow> bool" where
  "sameRendition c p =
     (let theirs = (case dp_metadata p of None \<Rightarrow> None | Some m \<Rightarrow> map_get m PEER_METADATA_RENDITION) in
      theirs = None \<or> tco_rendition (tc_options c) = None \<or> theirs = tco_rendition (tc_options c))"

definition client_listPeers :: "string \<Rightarrow> TrackerClient \<Rightarrow> DirectoryPeer list" where
  "client_listPeers segmentName c =
     filter (\<lambda>p. segmentName \<in> set (dp_segments p) \<and> sameRendition c p) (map_values (tc_peers c))"

definition allPeers :: "TrackerClient \<Rightarrow> DirectoryPeer list" where
  "allPeers c = filter (sameRendition c) (map_values (tc_peers c))"

section \<open>The connection\<close>

definition scheduleReconnect :: "number \<Rightarrow> TrackerClient \<Rightarrow> TrackerClient" where
  "scheduleReconnect random c =
     (if \<not> tc_started c \<or> tc_reconnectTimer c \<noteq> None then c
      else c\<lparr>tc_nextReconnectMs :=
               math_min (tc_nextReconnectMs c * Num 2) (tco_reconnectMaxMs (tc_options c)),
             tc_reconnectTimer := Some (jitteredDelay (tc_nextReconnectMs c) random)\<rparr>)"

text \<open>\<open>created\<close> tells whether the socket factory returns rather than throws.\<close>

definition openSocket :: "bool \<Rightarrow> number \<Rightarrow> TrackerClient \<Rightarrow> TrackerClient" where
  "openSocket created random c =
     (if \<not> tc_started c \<or> tc_socket c \<noteq> None then c
      else if \<not> created then scheduleReconnect random c
      else c\<lparr>tc_socket := Some (tc_nextSocket c, False), tc_nextSocket := tc_nextSocket c + 1\<rparr>)"

datatype start_result = NotJoined | AlreadyStarted | Connecting

definition client_start :: "bool \<Rightarrow> number \<Rightarrow> TrackerClient \<Rightarrow> start_result \<times> TrackerClient" where
  "client_start created random c =
     (if tc_sessionToken c = None \<or> tc_sessionToken c = Some [] then (NotJoined, c)
      else if tc_started c then (AlreadyStarted, c)
      else (Connecting, openSocket created random (c\<lparr>tc_started := True, tc_reportTimer := True\<rparr>)))"

definition client_stop :: "TrackerClient \<Rightarrow> TrackerClient" where
  "client_stop c =
     c\<lparr>tc_started := False, tc_peers := [], tc_lastReportedSegments := [], tc_reportTimer := False,
       tc_reconnectTimer := None, tc_socket := None\<rparr>"

text \<open>Socket events carry the socket they come from; events of an abandoned socket are ignored.\<close>

definition current_socket :: "nat \<Rightarrow> TrackerClient \<Rightarrow> bool" where
  "current_socket s c = (case tc_socket c of None \<Rightarrow> False | Some (s', _) \<Rightarrow> s' = s)"

definition socket_opened ::
    "nat \<Rightarrow> bool \<Rightarrow> PeerHeartbeat \<Rightarrow> PeerTrafficStats \<Rightarrow> string list \<Rightarrow> TrackerClient \<Rightarrow> TrackerClient" where
  "socket_opened s accepts heartbeat stats segments c =
     (if \<not> current_socket s c \<or> \<not> tc_started c then c
      else
        (let c0 = c\<lparr>tc_socket := Some (s, True)\<rparr>;
             c1 = snd (client_send accepts (SubscribeMessage (tco_broadcastId (tc_options c))
                    (tco_peerId (tc_options c)) [WS_FEATURE_INVENTORY_BATCH, WS_FEATURE_NEIGHBOR_VIEW]) c0) in
         reportStatus accepts heartbeat stats segments c1))"

definition socket_message :: "nat \<Rightarrow> bool \<Rightarrow> jsval option \<Rightarrow> TrackerClient \<Rightarrow> TrackerClient" where
  "socket_message s isBinary data c =
     (if current_socket s c \<and> \<not> isBinary then client_handleMessage data c else c)"

definition client_socket_closed :: "nat \<Rightarrow> number \<Rightarrow> TrackerClient \<Rightarrow> TrackerClient" where
  "client_socket_closed s random c =
     (if \<not> current_socket s c then c
      else
        (let c1 = c\<lparr>tc_socket := None, tc_peers := []\<rparr> in
         if tc_started c1 then scheduleReconnect random c1 else c1))"

definition reconnect_timer_fired :: "bool \<Rightarrow> number \<Rightarrow> TrackerClient \<Rightarrow> TrackerClient" where
  "reconnect_timer_fired created random c =
     (if tc_reconnectTimer c = None then c
      else openSocket created random (c\<lparr>tc_reconnectTimer := None\<rparr>))"

section \<open>Sessions\<close>

definition client_joined :: "PeerSession \<Rightarrow> TrackerClient \<Rightarrow> TrackerClient" where
  "client_joined session c = c\<lparr>tc_sessionToken := Some (pse_sessionToken session)\<rparr>"

definition client_left :: "TrackerClient \<Rightarrow> TrackerClient" where
  "client_left c = c\<lparr>tc_sessionToken := None\<rparr>"

definition MAX_TIMER_DELAY_MS :: nat where "MAX_TIMER_DELAY_MS = 2147483647"

text \<open>The delay of the session refresh timer, and whether the timer only continues waiting.\<close>

definition session_refresh :: "number \<Rightarrow> number \<Rightarrow> number \<times> bool" where
  "session_refresh expiresAt now =
     (let remainingMs = math_max (Num 1000) (expiresAt - now - Num 60000) in
      (math_min (nat_number MAX_TIMER_DELAY_MS) remainingMs, remainingMs > nat_number MAX_TIMER_DELAY_MS))"

datatype client_event =
    ClientJoined PeerSession
  | ClientLeft
  | ClientStart bool number
  | ClientStop
  | SocketOpened nat bool PeerHeartbeat PeerTrafficStats "string list"
  | SocketMessage nat bool "jsval option"
  | SocketClosed nat number
  | ReconnectTimer bool number
  | ReportTimer bool PeerHeartbeat PeerTrafficStats "string list"
  | ReportSegments bool "string list"

fun client_step :: "client_event \<Rightarrow> TrackerClient \<Rightarrow> TrackerClient" where
  "client_step (ClientJoined session) c = client_joined session c"
| "client_step ClientLeft c = client_left c"
| "client_step (ClientStart created random) c = snd (client_start created random c)"
| "client_step ClientStop c = client_stop c"
| "client_step (SocketOpened s accepts heartbeat stats segments) c =
     socket_opened s accepts heartbeat stats segments c"
| "client_step (SocketMessage s isBinary data) c = socket_message s isBinary data c"
| "client_step (SocketClosed s random) c = client_socket_closed s random c"
| "client_step (ReconnectTimer created random) c = reconnect_timer_fired created random c"
| "client_step (ReportTimer accepts heartbeat stats segments) c =
     (if tc_reportTimer c then reportStatus accepts heartbeat stats segments c else c)"
| "client_step (ReportSegments accepts segments) c = client_reportSegments accepts segments c"

end
