(* ===== verification/ClientSpec.thy ===== *)
theory ClientSpec
  imports TrackerClient InventoryBatch
begin

text \<open>
  Laws of the tracker client: it reads back what the tracker sends, batched inventory updates lead
  to the same directory as single ones, its deltas add up to the inventory it last reported, and
  the reconnect delay stays within its configured bounds.
\<close>

section \<open>Reading back tracker messages\<close>

lemma string_array_value [simp]: "string_array (strings_value ss) = Some ss"
  by (induction ss) (auto simp: strings_value_def list_all_iff map_filter_simps split: if_splits)

lemma parse_entries_metadata:
  "wf_map (acc @ m) \<Longrightarrow> parse_entries (map (\<lambda>(k, v). (k, Str v)) m) acc = return (acc @ m)"
proof (induction m arbitrary: acc)
  case (Cons e m)
  obtain k v where e: "e = (k, v)" by (cases e)
  have "k \<notin> set (map_keys acc)" using Cons.prems by (auto simp: wf_map_def e)
  then have "map_set acc k v = acc @ [(k, v)]" by (rule set_fresh)
  with Cons.IH[of "acc @ [(k, v)]"] Cons.prems show ?case by (simp add: e)
qed simp

lemma parse_metadata_value: "wf_map m \<Longrightarrow> parseMetadata (metadata_value m) = return (Some m)"
  using parse_entries_metadata[of "[]" m] by (simp add: metadata_value_def)

text \<open>A peer as the client keeps it, and a peer whose JSON text keeps its numbers.\<close>

definition directory_peer :: "(int \<Rightarrow> string) \<Rightarrow> Peer \<Rightarrow> DirectoryPeer" where
  "directory_peer toISO p =
     \<lparr>dp_id = peer_id p, dp_address = peer_address p, dp_segments = peer_segments p,
      dp_joinedAt = toISO (peer_joinedAt p), dp_lastSeenAt = toISO (peer_lastSeenAt p),
      dp_latencyMs = peer_latencyMs p, dp_successRate = peer_successRate p,
      dp_trustScore = peer_trustScore p, dp_uploadBandwidthBps = peer_uploadBandwidthBps p,
      dp_metadata = peer_metadata p\<rparr>"

definition sendable_peer :: "Peer \<Rightarrow> bool" where
  "sendable_peer p \<longleftrightarrow> isFinite (peer_latencyMs p) \<and> isFinite (peer_successRate p) \<and>
     isFinite (peer_trustScore p) \<and>
     (case peer_uploadBandwidthBps p of None \<Rightarrow> True | Some n \<Rightarrow> isFinite n) \<and>
     (case peer_metadata p of None \<Rightarrow> True | Some m \<Rightarrow> wf_map m)"

lemma parse_peer_value:
  assumes "sendable_peer p"
  shows "parsePeer (peer_value toISO p) = return (directory_peer toISO p)"
proof -
  have bandwidth: "get_prop (peer_value toISO p) ''uploadBandwidthBps'' =
      opt_value Number (peer_uploadBandwidthBps p)"
    and metadata: "get_prop (peer_value toISO p) ''metadata'' = opt_value metadata_value (peer_metadata p)"
    by (cases "peer_uploadBandwidthBps p"; cases "peer_metadata p"; simp add: peer_value_def)+
  have fields: "get_prop (peer_value toISO p) ''id'' = Str (peer_id p)"
    "get_prop (peer_value toISO p) ''address'' = Str (peer_address p)"
    "get_prop (peer_value toISO p) ''segments'' = strings_value (peer_segments p)"
    "get_prop (peer_value toISO p) ''joinedAt'' = Str (toISO (peer_joinedAt p))"
    "get_prop (peer_value toISO p) ''lastSeenAt'' = Str (toISO (peer_lastSeenAt p))"
    "get_prop (peer_value toISO p) ''latencyMs'' = Number (peer_latencyMs p)"
    "get_prop (peer_value toISO p) ''successRate'' = Number (peer_successRate p)"
    "get_prop (peer_value toISO p) ''trustScore'' = Number (peer_trustScore p)"
    by (cases "peer_uploadBandwidthBps p"; cases "peer_metadata p"; simp add: peer_value_def)+
  have "isRecord (peer_value toISO p)" by (simp add: peer_value_def)
  moreover have "parseMetadata (opt_value metadata_value (peer_metadata p)) = return (peer_metadata p)"
    using assms by (cases "peer_metadata p") (simp_all add: sendable_peer_def parse_metadata_value)
  ultimately show ?thesis
    using assms unfolding parsePeer_def fields bandwidth metadata
    by (cases "peer_uploadBandwidthBps p") (simp_all add: sendable_peer_def directory_peer_def)
qed

lemma parse_all_map: "(\<And>x. x \<in> set xs \<Longrightarrow> f (g x) = return (h x)) \<Longrightarrow> parse_all f (map g xs) = return (map h xs)"
  by (induction xs) auto

lemma parse_update_value: "parseInventoryUpdate (update_value u) = return u"
  by (cases u) (simp_all add: parseInventoryUpdate_def)

fun message_peers :: "'p WsServerMessage \<Rightarrow> 'p list" where
  "message_peers (PeerList b ps) = ps"
| "message_peers (PeerJoined b p) = [p]"
| "message_peers _ = []"

fun for_node_peers :: "'p WsServerMessage \<Rightarrow> bool" where
  "for_node_peers (StatsUpdate b p s) = False"
| "for_node_peers (Signal s) = False"
| "for_node_peers _ = True"

text \<open>C18: A Node peer reads back exactly what the tracker sends: parsing the JSON value of a message
  about peers and inventories gives the message with its peers as the client keeps them, and
  statistics and WebRTC signals are skipped without an error. Peers are assumed to hold finite
  numbers, which is what JSON can carry.\<close>

theorem client_reads_messages:
  assumes "list_all sendable_peer (message_peers m)"
  shows "parsePeerUpdate (Some (message_value (peer_value toISO) m)) =
    return (if for_node_peers m then Some (map_WsServerMessage (directory_peer toISO) m) else None)"
proof (cases m)
  case (Inventory im)
  then show ?thesis by (cases im) (simp_all add: parsePeerUpdate_def)
next
  case (InventoryBatch b us)
  have "parse_all parseInventoryUpdate (map update_value us) = return us"
    using parse_all_map[of us parseInventoryUpdate update_value id] by (simp add: parse_update_value)
  then show ?thesis by (simp add: InventoryBatch parsePeerUpdate_def)
next
  case (PeerList b ps)
  have "parse_all parsePeer (map (peer_value toISO) ps) = return (map (directory_peer toISO) ps)"
    using assms by (intro parse_all_map parse_peer_value) (simp add: PeerList list_all_iff)
  then show ?thesis by (simp add: PeerList parsePeerUpdate_def)
next
  case (Signal s)
  then show ?thesis by (cases "sig_type s") (simp_all add: parsePeerUpdate_def)
qed (use assms in \<open>simp_all add: parsePeerUpdate_def parse_peer_value\<close>)

definition sample_listed :: Peer where
  "sample_listed = \<lparr>peer_id = ''q'', peer_address = ''http://peer'', peer_uploadBandwidthBps = Some (Num 1000),
     peer_metadata = Some [(''rendition'', ''720p'')], peer_segments = [''s1.ts'', ''s2.ts''], peer_joinedAt = 0,
     peer_lastSeenAt = 5, peer_latencyMs = Num 30, peer_successRate = Num (1 / 2), peer_trustScore = 1\<rparr>"

theorem client_reads_messages_witness:
  "parsePeerUpdate (Some (message_value (peer_value (\<lambda>_. ''1970-01-01T00:00:00.000Z''))
     (PeerList ''b'' [sample_listed]))) =
   return (Some (PeerList ''b'' [directory_peer (\<lambda>_. ''1970-01-01T00:00:00.000Z'') sample_listed]))"
proof -
  have "sendable_peer sample_listed" by (simp add: sendable_peer_def sample_listed_def wf_map_Cons)
  then show ?thesis
    using client_reads_messages[of "PeerList ''b'' [sample_listed]" "\<lambda>_. ''1970-01-01T00:00:00.000Z''"] by simp
qed

section \<open>Batches against single messages\<close>

text \<open>What the client knows of a peer's inventory, as a set.\<close>

definition held :: "TrackerClient \<Rightarrow> string \<Rightarrow> string set option" where
  "held c p = map_option (\<lambda>d. set (dp_segments d)) (map_get (tc_peers c) p)"

definition message_effect :: "InventoryMessage \<Rightarrow> string \<Rightarrow> string set \<Rightarrow> string set" where
  "message_effect m p X = (if im_peerId m \<noteq> p then X
     else (case m of
       SegmentAvailable b q segments replace \<Rightarrow> if replace then set segments else X \<union> set segments
     | SegmentInventoryDelta b q added removed \<Rightarrow> X - set removed \<union> set added))"

lemma held_message: "held (apply_message (Inventory m) c) p = map_option (message_effect m p) (held c p)"
  by (cases m; cases "map_get (tc_peers c) p")
    (auto simp: held_def message_effect_def replaceInventory_def applyInventoryDelta_def get_adjust
      fold_set_add fold_set_delete)

lemma held_messages:
  "held (fold (\<lambda>m. apply_message (Inventory m)) ms c) p = map_option (fold (\<lambda>m. message_effect m p) ms) (held c p)"
  by (induction ms arbitrary: c) (simp_all add: held_message option.map_comp comp_def option.map_id)

lemma queue_effect:
  "apply_pending (map_get (queue_update m updates) p) X = message_effect m p (apply_pending (map_get updates p) X)"
  by (cases m) (simp_all add: get_set message_effect_def apply_merge_pending, simp add: apply_pending_def)

lemma queue_effects:
  "apply_pending (map_get (fold queue_update ms updates) p) X =
     fold (\<lambda>m. message_effect m p) ms (apply_pending (map_get updates p) X)"
  by (induction ms arbitrary: updates) (simp_all add: queue_effect)

lemma held_update:
  "held (apply_inventory_update (pending_update q pending) c) p =
     (if p = q then map_option (apply_pending (Some pending)) (held c p) else held c p)"
  by (cases pending; cases "map_get (tc_peers c) p")
    (auto simp: held_def apply_pending_def replaceInventory_def applyInventoryDelta_def get_adjust
      fold_set_add fold_set_delete)

lemma held_updates:
  "wf_map updates \<Longrightarrow>
     held (fold apply_inventory_update (map_values (batch_updates updates)) c) p =
       map_option (apply_pending (map_get updates p)) (held c p)"
proof (induction updates arbitrary: c)
  case Nil
  then show ?case by (simp add: batch_updates_def apply_pending_def option.map_ident)
next
  case (Cons e updates)
  obtain q pending where e: "e = (q, pending)" by (cases e)
  have fresh: "map_get updates q = None" and wf: "wf_map updates"
    using Cons.prems by (auto simp: e wf_map_Cons map_of_eq_None_iff)
  have none: "apply_pending None = (\<lambda>X. X)" by (simp add: apply_pending_def fun_eq_iff)
  have "fold apply_inventory_update (map_values (batch_updates (e # updates))) c =
      fold apply_inventory_update (map_values (batch_updates updates))
        (apply_inventory_update (pending_update q pending) c)"
    by (simp add: e batch_updates_def)
  then show ?case
    using Cons.IH[OF wf, of "apply_inventory_update (pending_update q pending) c"] fresh
    by (auto simp: held_update e none option.map_ident)
qed

text \<open>C14: Merging loses nothing: whatever inventory messages arrive between two flushes, for whatever
  peers and in whatever order, a client that receives the flushed batch, cut into slices, ends with
  the same inventory for every peer it knows as one that receives every message on its own.\<close>

theorem batching_preserves_inventory:
  "held (fold (\<lambda>slice. apply_message (InventoryBatch b slice))
      (update_slices (map_values (batch_updates (fold queue_update messages [])))) c) =
   held (fold (\<lambda>m. apply_message (Inventory m)) messages c)"
proof
  fix p
  have slices: "fold (\<lambda>slice. apply_message (InventoryBatch b slice)) slices c =
      fold apply_inventory_update (concat slices) c" for slices c
    by (induction slices arbitrary: c) simp_all
  have "held (fold apply_inventory_update (map_values (batch_updates (fold queue_update messages []))) c) p =
      held (fold (\<lambda>m. apply_message (Inventory m)) messages c) p"
    unfolding held_updates[OF wf_fold_queue_update[OF wf_map_Nil]] held_messages
    by (cases "held c p") (simp_all add: queue_effects apply_pending_def[of None])
  then show "held (fold (\<lambda>slice. apply_message (InventoryBatch b slice))
      (update_slices (map_values (batch_updates (fold queue_update messages [])))) c) p =
    held (fold (\<lambda>m. apply_message (Inventory m)) messages c) p"
    by (simp only: slices concat_update_slices)
qed

section \<open>Reports\<close>

text \<open>What the accepted reports of a client add up to.\<close>

fun report_effect :: "WsClientMessage \<Rightarrow> string set \<Rightarrow> string set" where
  "report_effect (ReportSegmentsMessage b p added removed) X = X - set removed \<union> set added"
| "report_effect _ X = X"

definition reported_inventory :: "TrackerClient \<Rightarrow> string set" where
  "reported_inventory c = fold report_effect (tc_sent c) {}"

fun not_stop :: "client_event \<Rightarrow> bool" where
  "not_stop ClientStop = False"
| "not_stop _ = True"

text \<open>Everything but a report leaves the reported inventory and the remembered one alone.\<close>

definition same_report :: "TrackerClient \<Rightarrow> TrackerClient \<Rightarrow> bool" where
  "same_report c c' \<longleftrightarrow> tc_lastReportedSegments c' = tc_lastReportedSegments c \<and>
     reported_inventory c' = reported_inventory c"

lemma same_reportI:
  "tc_lastReportedSegments c' = tc_lastReportedSegments c \<Longrightarrow> tc_sent c' = tc_sent c \<Longrightarrow> same_report c c'"
  by (simp add: same_report_def reported_inventory_def)

lemma send_other: "(\<And>X. report_effect m X = X) \<Longrightarrow> same_report c (snd (client_send accepts m c))"
  by (auto simp: client_send_def same_report_def reported_inventory_def split: option.split bool.split)

lemma inventory_update_fields:
  "tc_lastReportedSegments (apply_inventory_update u c) = tc_lastReportedSegments c \<and>
   tc_sent (apply_inventory_update u c) = tc_sent c \<and> tc_options (apply_inventory_update u c) = tc_options c \<and>
   tc_nextReconnectMs (apply_inventory_update u c) = tc_nextReconnectMs c \<and>
   tc_reconnectTimer (apply_inventory_update u c) = tc_reconnectTimer c"
  by (cases u) (simp_all add: replaceInventory_def applyInventoryDelta_def)

lemma apply_message_fields:
  "tc_lastReportedSegments (apply_message m c) = tc_lastReportedSegments c \<and>
   tc_sent (apply_message m c) = tc_sent c \<and> tc_options (apply_message m c) = tc_options c \<and>
   tc_reconnectTimer (apply_message m c) = tc_reconnectTimer c \<and>
   (tc_nextReconnectMs (apply_message m c) = tc_nextReconnectMs c \<or>
    tc_nextReconnectMs (apply_message m c) = tco_reconnectInitialMs (tc_options c))"
proof (cases m)
  case (InventoryBatch b us)
  have "tc_lastReportedSegments (fold apply_inventory_update us c) = tc_lastReportedSegments c \<and>
      tc_sent (fold apply_inventory_update us c) = tc_sent c \<and>
      tc_options (fold apply_inventory_update us c) = tc_options c \<and>
      tc_reconnectTimer (fold apply_inventory_update us c) = tc_reconnectTimer c \<and>
      tc_nextReconnectMs (fold apply_inventory_update us c) = tc_nextReconnectMs c"
    by (induction us arbitrary: c) (simp_all add: inventory_update_fields)
  then show ?thesis by (simp add: InventoryBatch)
next
  case (Inventory im)
  then show ?thesis by (cases im) (simp_all add: replaceInventory_def applyInventoryDelta_def)
qed simp_all

lemma reconnect_fields:
  "tc_lastReportedSegments (scheduleReconnect r c) = tc_lastReportedSegments c"
  "tc_sent (scheduleReconnect r c) = tc_sent c"
  "tc_lastReportedSegments (openSocket created r c) = tc_lastReportedSegments c"
  "tc_sent (openSocket created r c) = tc_sent c"
  by (simp_all add: scheduleReconnect_def openSocket_def)

text \<open>The client's memory of what it reported agrees with what it sent.\<close>

definition report_inv :: "TrackerClient \<Rightarrow> bool" where
  "report_inv c \<longleftrightarrow> reported_inventory c = set (tc_lastReportedSegments c)"

lemma same_report_inv: "same_report c c' \<Longrightarrow> report_inv c \<Longrightarrow> report_inv c'"
  by (simp add: same_report_def report_inv_def)

lemma send_report:
  assumes "report_inv c"
  shows "report_inv (client_reportSegments accepts segments c)"
proof (cases "client_reportSegments accepts segments c = c")
  case False
  let ?last = "tc_lastReportedSegments c"
  define added where "added = filter (\<lambda>s. s \<notin> set ?last) (new_set segments)"
  define removed where "removed = filter (\<lambda>s. s \<notin> set (new_set segments)) ?last"
  define m where "m = ReportSegmentsMessage (tco_broadcastId (tc_options c)) (tco_peerId (tc_options c)) added removed"
  obtain sent c1 where send: "client_send accepts m c = (sent, c1)" by fastforce
  with False have eq: "client_reportSegments accepts segments c =
      (if \<not> sent then c1 else c1\<lparr>tc_lastReportedSegments := new_set segments\<rparr>)"
    unfolding client_reportSegments_def Let_def added_def[symmetric] removed_def[symmetric] m_def[symmetric]
    by (auto split: if_splits)
  have c1: "c1 = (if sent then c\<lparr>tc_sent := tc_sent c @ [m]\<rparr> else c)"
    using send by (auto simp: client_send_def split: option.splits bool.splits if_splits)
  have "set ?last - set removed \<union> set added = set segments"
    by (auto simp: added_def removed_def)
  then show ?thesis
    using assms by (auto simp: eq c1 report_inv_def reported_inventory_def m_def)
qed (use assms in simp)

lemma report_status_inv: "report_inv c \<Longrightarrow> report_inv (reportStatus accepts heartbeat stats segments c)"
  unfolding reportStatus_def Let_def by (intro send_report same_report_inv[OF send_other]) simp_all

lemma client_step_report:
  assumes "report_inv c" "not_stop e"
  shows "report_inv (client_step e c)"
proof (cases e)
  case (SocketOpened s accepts heartbeat stats segments)
  then show ?thesis
    using assms(1) same_reportI[of "c\<lparr>tc_socket := Some (s, True)\<rparr>" c]
    by (auto simp: socket_opened_def Let_def intro!: report_status_inv same_report_inv[OF send_other]
        intro: same_report_inv[OF same_reportI])
next
  case (SocketMessage s isBinary data)
  have "same_report c (client_handleMessage data c)"
    by (auto simp: client_handleMessage_def apply_message_fields same_report_def reported_inventory_def
        split: sum.split option.split)
  with SocketMessage show ?thesis
    using assms(1) same_report_inv by (auto simp: socket_message_def)
qed (use assms report_status_inv send_report in \<open>auto simp: client_joined_def client_left_def client_start_def
    client_socket_closed_def reconnect_timer_fired_def reconnect_fields Let_def
    intro: same_report_inv[OF same_reportI]\<close>)

text \<open>Over any sequence of connections, messages and reports without a stop, the deltas a client
  has sent add up to exactly the inventory it remembers as reported: a tracker that applied every
  one of them knows the segments of the client's last successful report.\<close>

theorem reports_add_up:
  assumes "new_tracker_client opts token = return c" "list_all not_stop events"
  shows "reported_inventory (fold client_step events c) =
    set (tc_lastReportedSegments (fold client_step events c))"
proof -
  have "report_inv c"
    using assms(1) by (auto simp: new_tracker_client_def report_inv_def reported_inventory_def
        split: list.splits if_splits)
  with assms(2) have "report_inv (fold client_step events c)"
    by (induction events arbitrary: c) (auto simp: client_step_report)
  then show ?thesis by (simp add: report_inv_def)
qed

definition sample_options :: TrackerClientOptions where
  "sample_options = \<lparr>tco_broadcastId = ''b'', tco_peerId = ''p'', tco_rendition = None,
     tco_reportIntervalMs = Num 5000, tco_reconnectInitialMs = Num 1000, tco_reconnectMaxMs = Num 30000,
     tco_startupTimeoutMs = Num 10000, tco_requestTimeoutMs = Num 10000\<rparr>"

definition sample_client :: TrackerClient where
  "sample_client = \<lparr>tc_options = sample_options, tc_peers = [], tc_lastReportedSegments = [],
     tc_socket = None, tc_nextSocket = 0, tc_reportTimer = False, tc_reconnectTimer = None,
     tc_nextReconnectMs = Num 1000, tc_started = False, tc_sessionToken = Some ''t'', tc_sent = []\<rparr>"

lemma sample_client_new: "new_tracker_client sample_options (Some ''t'') = return sample_client"
  by code_simp

definition no_heartbeat :: PeerHeartbeat where
  "no_heartbeat = \<lparr>hb_latencyMs = None, hb_uploadBandwidthBps = None, hb_successRate = None\<rparr>"

definition sample_client_events :: "client_event list" where
  "sample_client_events = [ClientStart True 0,
     SocketOpened 0 True no_heartbeat createEmptyPeerTrafficStats [''a.ts''],
     ReportSegments True [''a.ts'', ''b.ts''], SocketClosed 0 0, ReconnectTimer True 0,
     SocketOpened 1 True no_heartbeat createEmptyPeerTrafficStats [''b.ts'']]"

lemma sample_client_remembers: "tc_lastReportedSegments (fold client_step sample_client_events sample_client) = [''b.ts'']"
  by code_simp

theorem reports_add_up_witness:
  "reported_inventory (fold client_step sample_client_events sample_client) = {''b.ts''}"
proof -
  have "list_all not_stop sample_client_events" by (simp add: sample_client_events_def)
  from reports_add_up[OF sample_client_new this] show ?thesis by (simp add: sample_client_remembers)
qed

text \<open>A new connection starts where the last one ended: when the socket of a started client closes
  and the client reconnects with an unchanged inventory, the messages it sends are the subscription,
  the heartbeat and the counters. So a tracker that lost the peer's inventory meanwhile, or closed
  the socket because it rejected a report, is not told those segments again.\<close>

theorem reconnect_omits_known_segments:
  assumes "tc_started c" "tc_socket c = Some (s, True)" "tc_reconnectTimer c = None"
    and "set segments = set (tc_lastReportedSegments c)"
  shows "tc_sent (fold client_step
      [SocketClosed s r, ReconnectTimer True r', SocketOpened (tc_nextSocket c) True heartbeat stats segments] c) =
    tc_sent c @ [SubscribeMessage (tco_broadcastId (tc_options c)) (tco_peerId (tc_options c))
        [WS_FEATURE_INVENTORY_BATCH, WS_FEATURE_NEIGHBOR_VIEW],
      HeartbeatMessage (tco_broadcastId (tc_options c)) (tco_peerId (tc_options c)) heartbeat,
      ReportStatsMessage (tco_broadcastId (tc_options c)) (tco_peerId (tc_options c)) stats]"
proof -
  have "filter (\<lambda>x. x \<notin> set (tc_lastReportedSegments c)) (new_set segments) = []"
    "filter (\<lambda>x. x \<notin> set (new_set segments)) (tc_lastReportedSegments c) = []"
    using assms(4) by (auto simp: filter_empty_conv)
  then show ?thesis
    using assms(1-3) by (simp add: client_socket_closed_def current_socket_def scheduleReconnect_def
        reconnect_timer_fired_def openSocket_def socket_opened_def client_send_def reportStatus_def
        client_reportSegments_def Let_def)
qed

theorem reconnect_omits_known_segments_witness:
  "length (tc_sent (fold client_step [SocketClosed 0 0, ReconnectTimer True 0,
      SocketOpened 1 True no_heartbeat createEmptyPeerTrafficStats [''a.ts'']]
     (fold client_step (take 2 sample_client_events) sample_client))) = 7"
proof -
  let ?c = "fold client_step (take 2 sample_client_events) sample_client"
  have c: "tc_started ?c" "tc_socket ?c = Some (0, True)" "tc_reconnectTimer ?c = None"
    "set [''a.ts''] = set (tc_lastReportedSegments ?c)" "tc_nextSocket ?c = 1" "length (tc_sent ?c) = 4"
    by code_simp+
  show ?thesis
    using reconnect_omits_known_segments[OF c(1-4), of 0 0 no_heartbeat createEmptyPeerTrafficStats]
    unfolding c(5) by (simp only: length_append c(6)) simp
qed

section \<open>Backoff\<close>

text \<open>Configured delays are positive integers up to \<open>m\<close>; the next delay is one as well, and a pending
  timer waits at least half of the smallest and at most the largest delay.\<close>

definition backoff_inv :: "nat \<Rightarrow> nat \<Rightarrow> TrackerClient \<Rightarrow> bool" where
  "backoff_inv lo hi c \<longleftrightarrow>
     tco_reconnectInitialMs (tc_options c) = nat_number lo \<and> tco_reconnectMaxMs (tc_options c) = nat_number hi \<and>
     lo \<le> hi \<and> hi \<le> 2 ^ 52 \<and>
     (\<exists>n. tc_nextReconnectMs c = nat_number n \<and> lo \<le> n \<and> n \<le> hi) \<and>
     (case tc_reconnectTimer c of None \<Rightarrow> True
      | Some d \<Rightarrow> Num (of_nat lo / 2) \<le> d \<and> d \<le> nat_number hi)"

fun unit_draws :: "client_event \<Rightarrow> bool" where
  "unit_draws (ClientStart created r) = (0 \<le> r \<and> r \<le> 1)"
| "unit_draws (SocketClosed s r) = (0 \<le> r \<and> r \<le> 1)"
| "unit_draws (ReconnectTimer created r) = (0 \<le> r \<and> r \<le> 1)"
| "unit_draws _ = True"

lemma backoff_schedule:
  assumes "backoff_inv lo hi c" "0 \<le> r" "r \<le> 1"
  shows "backoff_inv lo hi (scheduleReconnect r c)"
proof (cases "\<not> tc_started c \<or> tc_reconnectTimer c \<noteq> None")
  case True
  then have "scheduleReconnect r c = c" by (auto simp: scheduleReconnect_def)
  with assms(1) show ?thesis by simp
next
  case False
  from assms(1) obtain n where n: "tc_nextReconnectMs c = nat_number n" "lo \<le> n" "n \<le> hi" "hi \<le> 2 ^ 52"
    unfolding backoff_inv_def by blast
  then have n53: "n \<le> 2 ^ 53" "int n * 2 \<le> 2 ^ 53" by simp_all
  have r: "r \<le> Num 1" using assms(3) by (simp add: one_number_def)
  have "nat_number n * Num 2 = int_number (int n * 2)"
    using toNumber_of_int[of "int n * 2"] n53(2) by simp
  then have twice: "nat_number n * Num 2 = nat_number (n * 2)" by simp
  have "Num (of_nat lo / 2) \<le> Num (of_nat n / 2)" "nat_number n \<le> nat_number hi" using n by simp_all
  with jittered_bounds[OF n53(1) assms(2) r]
  have "Num (of_nat lo / 2) \<le> jitteredDelay (nat_number n) r" "jitteredDelay (nat_number n) r \<le> nat_number hi"
    by (blast intro: number_le_trans)+
  moreover have "math_min (nat_number n * Num 2) (nat_number hi) = nat_number (min (n * 2) hi)"
    unfolding twice by (simp add: min_def)
  ultimately show ?thesis
    using assms(1) False n unfolding backoff_inv_def scheduleReconnect_def
    by (auto intro!: exI[of _ "min (n * 2) hi"])
qed

lemma backoff_cong:
  "backoff_inv lo hi c \<Longrightarrow> tc_options c' = tc_options c \<Longrightarrow> tc_nextReconnectMs c' = tc_nextReconnectMs c \<Longrightarrow>
     tc_reconnectTimer c' \<in> {None, tc_reconnectTimer c} \<Longrightarrow> backoff_inv lo hi c'"
  unfolding backoff_inv_def by auto

lemma backoff_open:
  assumes "backoff_inv lo hi c" "0 \<le> r" "r \<le> 1"
  shows "backoff_inv lo hi (openSocket created r c)"
  using backoff_schedule[OF assms] backoff_cong[OF assms(1)] assms(1) by (auto simp: openSocket_def)

lemma send_fields:
  "tc_options (snd (client_send a m c)) = tc_options c \<and>
   tc_nextReconnectMs (snd (client_send a m c)) = tc_nextReconnectMs c \<and>
   tc_reconnectTimer (snd (client_send a m c)) = tc_reconnectTimer c"
  by (simp add: client_send_def split: option.split bool.split)

lemma report_fields:
  "tc_options (client_reportSegments a segments c) = tc_options c \<and>
   tc_nextReconnectMs (client_reportSegments a segments c) = tc_nextReconnectMs c \<and>
   tc_reconnectTimer (client_reportSegments a segments c) = tc_reconnectTimer c"
  using send_fields by (auto simp: client_reportSegments_def Let_def split: prod.split)
    (metis snd_conv)+

lemma status_fields:
  "tc_options (reportStatus a h t segments c) = tc_options c \<and>
   tc_nextReconnectMs (reportStatus a h t segments c) = tc_nextReconnectMs c \<and>
   tc_reconnectTimer (reportStatus a h t segments c) = tc_reconnectTimer c"
  by (simp add: reportStatus_def Let_def report_fields send_fields)

lemma backoff_handle:
  assumes "backoff_inv lo hi c"
  shows "backoff_inv lo hi (client_handleMessage data c)"
proof -
  have "backoff_inv lo hi (apply_message m c)" for m
    using assms apply_message_fields[of m c] unfolding backoff_inv_def by auto
  with assms show ?thesis by (simp add: client_handleMessage_def split: sum.split option.split)
qed

lemma backoff_step:
  assumes "backoff_inv lo hi c" "unit_draws e"
  shows "backoff_inv lo hi (client_step e c)"
proof (cases e)
  case (SocketClosed s r)
  have "backoff_inv lo hi (c\<lparr>tc_socket := None, tc_peers := []\<rparr>)" by (rule backoff_cong[OF assms(1)]) simp_all
  with SocketClosed assms show ?thesis by (simp add: client_socket_closed_def Let_def backoff_schedule)
next
  case (ReconnectTimer created r)
  have "backoff_inv lo hi (c\<lparr>tc_reconnectTimer := None\<rparr>)" by (rule backoff_cong[OF assms(1)]) simp_all
  with ReconnectTimer assms show ?thesis by (simp add: reconnect_timer_fired_def backoff_open)
next
  case (ClientStart created r)
  have "backoff_inv lo hi (c\<lparr>tc_started := True, tc_reportTimer := True\<rparr>)"
    by (rule backoff_cong[OF assms(1)]) simp_all
  with ClientStart assms show ?thesis by (simp add: client_start_def backoff_open)
next
  case (SocketMessage s isBinary data)
  then show ?thesis using assms backoff_handle by (simp add: socket_message_def)
qed (use assms in \<open>auto simp: client_joined_def client_left_def client_stop_def socket_opened_def Let_def
    report_fields status_fields send_fields intro: backoff_cong[OF assms(1)]\<close>)

text \<open>However often connections fail, the client waits within its configuration: every scheduled
  reconnect delay is at least half the initial delay and at most the maximum delay, for draws of
  the unit interval and delays up to 2^52 milliseconds.\<close>

theorem reconnect_delay_bounded:
  assumes "new_tracker_client opts token = return c" "list_all unit_draws events"
    and "tco_reconnectInitialMs opts = nat_number lo" "tco_reconnectMaxMs opts = nat_number hi" "hi \<le> 2 ^ 52"
  shows "case tc_reconnectTimer (fold client_step events c) of
      None \<Rightarrow> True
    | Some delay \<Rightarrow> Num (of_nat lo / 2) \<le> delay \<and> delay \<le> nat_number hi"
proof -
  have "backoff_inv lo hi c"
    using assms(1,3-5) by (auto simp: new_tracker_client_def backoff_inv_def split: list.splits if_splits)
  with assms(2) have "backoff_inv lo hi (fold client_step events c)"
    by (induction events arbitrary: c) (auto simp: backoff_step)
  then show ?thesis unfolding backoff_inv_def by blast
qed

theorem reconnect_delay_bounded_witness:
  "case tc_reconnectTimer (fold client_step (take 4 sample_client_events) sample_client) of
      None \<Rightarrow> False | Some delay \<Rightarrow> Num 500 \<le> delay \<and> delay \<le> Num 30000"
proof -
  have d: "list_all unit_draws (take 4 sample_client_events)" by (simp add: sample_client_events_def)
  have "tc_reconnectTimer (fold client_step (take 4 sample_client_events) sample_client) \<noteq> None"
    by code_simp
  then show ?thesis
    using reconnect_delay_bounded[OF sample_client_new d, of 1000 30000]
    by (auto simp: sample_options_def)
qed

end
