(* ===== verification/SegmentStore.thy ===== *)
theory SegmentStore
  imports PeerCache
begin

text \<open>
  What users of a segment cache rely on, as a locale: a hit returns bytes that were stored under
  the name, and every operation keeps or drops stored pairs, adding at most the pair just put.
  So a property of everything ever put holds of everything ever returned. The locale is
  interpreted on the Node peer's cache.
\<close>

locale segment_store =
  fixes inv :: "'c \<Rightarrow> bool" and contents :: "'c \<Rightarrow> (string \<times> nat list) set"
    and get :: "string \<Rightarrow> int \<Rightarrow> 'c \<Rightarrow> nat list option \<times> 'c"
    and put :: "string \<Rightarrow> nat list \<Rightarrow> int \<Rightarrow> 'c \<Rightarrow> bool \<times> 'c"
    and count :: "int \<Rightarrow> 'c \<Rightarrow> nat \<times> 'c"
  assumes get_step: "inv c \<Longrightarrow> get name now c = (r, c') \<Longrightarrow> inv c' \<and> contents c' \<subseteq> contents c \<and>
      (\<forall>bytes. r = Some bytes \<longrightarrow> (name, bytes) \<in> contents c)"
    and put_step: "inv c \<Longrightarrow> put name bytes now c = (stored, c') \<Longrightarrow>
      inv c' \<and> contents c' \<subseteq> insert (name, bytes) (contents c)"
    and count_step: "inv c \<Longrightarrow> count now c = (n, c') \<Longrightarrow> inv c' \<and> contents c' \<subseteq> contents c"
begin

definition holds :: "(string \<Rightarrow> nat list \<Rightarrow> bool) \<Rightarrow> 'c \<Rightarrow> bool" where
  "holds P c \<longleftrightarrow> inv c \<and> (\<forall>(name, bytes) \<in> contents c. P name bytes)"

lemma get_holds: "holds P c \<Longrightarrow> get name now c = (r, c') \<Longrightarrow> holds P c'"
  and get_hit: "holds P c \<Longrightarrow> get name now c = (Some bytes, c') \<Longrightarrow> P name bytes"
  using get_step unfolding holds_def by blast+

lemma put_holds: "holds P c \<Longrightarrow> P name bytes \<Longrightarrow> put name bytes now c = (stored, c') \<Longrightarrow> holds P c'"
  using put_step unfolding holds_def by blast

lemma count_holds: "holds P c \<Longrightarrow> count now c = (n, c') \<Longrightarrow> holds P c'"
  using count_step unfolding holds_def by blast

end

section \<open>The Node peer's cache\<close>

definition cache_contents :: "SegmentCache \<Rightarrow> (string \<times> nat list) set" where
  "cache_contents c = (\<lambda>(name, e). (name, entry_bytes c e)) ` set (sc_entries c)"

lemma contents_shrink:
  assumes "cache_ok c" "good_step c c'" "set (sc_entries c') \<subseteq> set (sc_entries c)"
  shows "cache_contents c' \<subseteq> cache_contents c"
proof
  fix x assume "x \<in> cache_contents c'"
  then obtain name e where x: "x = (name, entry_bytes c' e)" "(name, e) \<in> set (sc_entries c')"
    by (auto simp: cache_contents_def)
  with assms(3) have old: "(name, e) \<in> set (sc_entries c)" by blast
  have "in_use c' e" using x(2) by (force simp: in_use_def)
  moreover have "e < sc_nextEntry c"
    using assms(1) old by (force simp: cache_ok_def intro: in_use_bound simp: in_use_def)
  ultimately have "entry_bytes c' e = entry_bytes c e" using assms(2) by (simp add: good_step_def keeps_def)
  with x old show "x \<in> cache_contents c" by (force simp: cache_contents_def)
qed

lemma set_map_delete: "set (map_delete m k) \<subseteq> set m"
  by (auto simp: AList.delete_eq)

lemma remove_entries: "set (sc_entries (remove_entry name e c)) \<subseteq> set (sc_entries c)"
  using set_map_delete[of name "sc_entries c"] by (simp add: remove_entry_def update_entry_def Let_def)

lemma touch_entries: "touch name now c = (r, c') \<Longrightarrow> set (sc_entries c') \<subseteq> set (sc_entries c)"
proof (cases "map_get (sc_entries c) name")
  case (Some e)
  with remove_entries[of name e c] set_map_delete[of name "sc_entries c"] map_of_SomeD[OF Some]
  show "touch name now c = (r, c') \<Longrightarrow> set (sc_entries c') \<subseteq> set (sc_entries c)"
    by (auto simp: touch_def map_touch_eq split: if_splits)
qed (simp add: touch_def)

lemma evict_over_entries: "set (sc_entries (evict_over c)) \<subseteq> set (sc_entries c)"
proof (induction c rule: evict_over.induct)
  case (1 c)
  show ?case
  proof (cases "sc_totalBytes c > sc_maxBytes c \<and> sc_entries c \<noteq> []")
    case True
    then obtain k e rest where es: "sc_entries c = (k, e) # rest" by (cases "sc_entries c") auto
    from 1[OF _ es refl] True remove_entries[of k e c] show ?thesis
      by (subst evict_over.simps) (auto simp: es)
  next
    case False
    then have "evict_over c = c" by (subst evict_over.simps) (auto split: list.split)
    then show ?thesis by simp
  qed
qed

lemma cache_set_entries:
  assumes "cache_set name bytes now c = (r, c')"
  shows "set (sc_entries c') \<subseteq> (if r then insert (name, sc_nextEntry (case map_get (sc_entries c) name of
      None \<Rightarrow> c | Some e \<Rightarrow> remove_entry name e c)) (set (sc_entries c)) else set (sc_entries c))"
proof -
  define c1 where "c1 = (case map_get (sc_entries c) name of None \<Rightarrow> c | Some e \<Rightarrow> remove_entry name e c)"
  have c1: "set (sc_entries c1) \<subseteq> set (sc_entries c)"
    using remove_entries by (auto simp: c1_def split: option.split)
  have ev: "set (sc_entries (evict_over (c1\<lparr>sc_pool := pool, sc_heap := heap, sc_nextEntry := n,
      sc_entries := map_set (sc_entries c1) name e, sc_totalBytes := b\<rparr>))) \<subseteq> insert (name, e) (set (sc_entries c))"
    for pool heap n e b
    using evict_over_entries[of "c1\<lparr>sc_pool := pool, sc_heap := heap, sc_nextEntry := n,
      sc_entries := map_set (sc_entries c1) name e, sc_totalBytes := b\<rparr>"]
      set_map_set[of name e "sc_entries c1"] c1 by auto
  with assms c1 show ?thesis
    unfolding cache_set_def Let_def c1_def[symmetric]
    by (auto split: if_splits prod.splits sum.splits dest!: subsetD[OF ev])
qed

interpretation peer_store: segment_store cache_ok cache_contents cache_get cache_set cache_size
proof unfold_locales
  fix c c' name now and r :: "nat list option"
  assume ok: "cache_ok c" and g: "cache_get name now c = (r, c')"
  have good: "good_step c c'" using get_good[OF ok, of name now] by (simp add: g)
  obtain e' where t: "touch name now c = (e', c')"
    using g by (auto simp: cache_get_def split: prod.splits option.splits)
  have sub: "cache_contents c' \<subseteq> cache_contents c"
    by (rule contents_shrink[OF ok good touch_entries[OF t]])
  have "(name, bytes) \<in> cache_contents c" if rb: "r = Some bytes" for bytes
  proof -
    obtain e where e: "e' = Some e" "bytes = entry_bytes c' e"
      using g t rb by (auto simp: cache_get_def entry_bytes_def split: option.splits)
    have "cache_inv c" using ok by (simp add: cache_ok_def)
    from touch_spec(8)[OF this t e(1)] e(2) show ?thesis
      by (force simp: cache_contents_def dest: map_of_SomeD)
  qed
  with good_ok[OF good] sub show "cache_ok c' \<and> cache_contents c' \<subseteq> cache_contents c \<and>
      (\<forall>bytes. r = Some bytes \<longrightarrow> (name, bytes) \<in> cache_contents c)" by blast
next
  fix c c' name now and bytes :: "nat list" and stored
  assume ok: "cache_ok c" and s: "cache_set name bytes now c = (stored, c')"
  note G = set_good[OF ok s]
  have "cache_contents c' \<subseteq> insert (name, bytes) (cache_contents c)"
  proof (cases stored)
    case False
    with cache_set_entries[OF s] contents_shrink[OF ok G(1)] show ?thesis by auto
  next
    case True
    from G(2)[OF this] obtain es e where es: "sc_entries c' = es @ [(name, e)]" "entry_bytes c' e = bytes" by auto
    have wf: "wf_map (sc_entries c')" using good_ok[OF G(1)] by (simp add: cache_ok_def cache_inv_def)
    show ?thesis
    proof
      fix x assume "x \<in> cache_contents c'"
      then obtain name' e' where x: "x = (name', entry_bytes c' e')" "(name', e') \<in> set (sc_entries c')"
        by (auto simp: cache_contents_def)
      show "x \<in> insert (name, bytes) (cache_contents c)"
      proof (cases "name' = name")
        case True
        with wf x(2) es have "e' = e" by (force simp: wf_map_def)
        with x es True show ?thesis by simp
      next
        case False
        with cache_set_entries[OF s] x(2) \<open>stored\<close> have old: "(name', e') \<in> set (sc_entries c)" by auto
        have "in_use c' e'" using x(2) by (force simp: in_use_def)
        moreover have "e' < sc_nextEntry c"
          using ok old by (force simp: cache_ok_def intro: in_use_bound simp: in_use_def)
        ultimately have "entry_bytes c' e' = entry_bytes c e'" using G(1) by (simp add: good_step_def keeps_def)
        with x old show ?thesis by (force simp: cache_contents_def)
      qed
    qed
  qed
  with good_ok[OF G(1)] show "cache_ok c' \<and> cache_contents c' \<subseteq> insert (name, bytes) (cache_contents c)" by blast
next
  fix c c' now and n :: nat
  assume ok: "cache_ok c" and z: "cache_size now c = (n, c')"
  then have c': "c' = evictExpired now c" by (simp add: cache_size_def Let_def)
  have "set (sc_entries (fold (\<lambda>(name, e) c. if isExpired c e now then remove_entry name e c else c) es d)) \<subseteq>
      set (sc_entries d)" for es d
  proof (induction es arbitrary: d)
    case (Cons p es)
    have "set (sc_entries (case p of (name, e) \<Rightarrow> if isExpired d e now then remove_entry name e d else d)) \<subseteq> set (sc_entries d)"
      using remove_entries by (auto split: prod.split)
    with Cons.IH[of "case p of (name, e) \<Rightarrow> if isExpired d e now then remove_entry name e d else d"] show ?case
      by (auto simp: split_def)
  qed simp
  then have "set (sc_entries c') \<subseteq> set (sc_entries c)" by (simp add: c' evictExpired_def)
  from contents_shrink[OF ok _ this] expired_good[OF ok, of now]
  show "cache_ok c' \<and> cache_contents c' \<subseteq> cache_contents c" using good_ok by (auto simp: c')
qed

end
