(* ===== verification/TrafficStatistics.thy ===== *)
theory TrafficStatistics
  imports Common
begin

text \<open>
  The Node peer's traffic counters (\<^verbatim>\<open>peer/src/stats.ts\<close>): one update per recorded event, over the
  counter record of \<^verbatim>\<open>common/src/index.ts\<close>.
\<close>

definition p2pSuccessRate :: "PeerTrafficStats \<Rightarrow> number" where
  "p2pSuccessRate s = (if p2pRequests s = 0 then 1 else p2pSuccesses s / p2pRequests s)"

definition recordP2PRequest :: "PeerTrafficStats \<Rightarrow> PeerTrafficStats" where
  "recordP2PRequest s = s\<lparr>p2pRequests := p2pRequests s + 1\<rparr>"

definition recordP2PSuccess :: "number \<Rightarrow> PeerTrafficStats \<Rightarrow> PeerTrafficStats" where
  "recordP2PSuccess bytes s =
     s\<lparr>p2pSuccesses := p2pSuccesses s + 1, bytesDownloadedP2P := bytesDownloadedP2P s + bytes\<rparr>"

definition recordP2PFailure :: "PeerTrafficStats \<Rightarrow> PeerTrafficStats" where
  "recordP2PFailure s = s\<lparr>p2pFailures := p2pFailures s + 1\<rparr>"

definition recordOriginRequest :: "PeerTrafficStats \<Rightarrow> PeerTrafficStats" where
  "recordOriginRequest s = s\<lparr>originRequests := originRequests s + 1\<rparr>"

definition recordOriginBytes :: "number \<Rightarrow> PeerTrafficStats \<Rightarrow> PeerTrafficStats" where
  "recordOriginBytes bytes s = s\<lparr>bytesDownloadedOrigin := bytesDownloadedOrigin s + bytes\<rparr>"

definition recordOriginDownload :: "number \<Rightarrow> PeerTrafficStats \<Rightarrow> PeerTrafficStats" where
  "recordOriginDownload bytes s = recordOriginBytes bytes (recordOriginRequest s)"

definition recordUpload :: "number \<Rightarrow> PeerTrafficStats \<Rightarrow> PeerTrafficStats" where
  "recordUpload bytes s = s\<lparr>bytesUploadedP2P := bytesUploadedP2P s + bytes\<rparr>"

definition recordIntegrityFailure :: "PeerTrafficStats \<Rightarrow> PeerTrafficStats" where
  "recordIntegrityFailure s = s\<lparr>integrityFailures := integrityFailures s + 1\<rparr>"

definition recordFallback :: "PeerTrafficStats \<Rightarrow> PeerTrafficStats" where
  "recordFallback s = s\<lparr>fallbacks := fallbacks s + 1\<rparr>"

definition setSegmentsCached :: "number \<Rightarrow> PeerTrafficStats \<Rightarrow> PeerTrafficStats" where
  "setSegmentsCached count s = s\<lparr>segmentsCached := count\<rparr>"

end
