(* ===== verification/Fetcher.thy ===== *)
theory Fetcher
  imports PeerCache WeightedScore DeadlineAware TrafficStatistics
begin

text \<open>
  The Node peer's segment fetcher (\<^verbatim>\<open>peer/src/fetcher.ts\<close>) as an event machine. A call runs until
  its next \<^verbatim>\<open>await\<close>; every later continuation is one event: the peer list arrives, a peer or the
  Origin replies, the hedge timer fires, a consumer aborts, the fetcher stops. The network, the
  verifier and the scheduler are arguments.
\<close>

section \<open>Data\<close>

datatype delivery = FromCache | FromP2P | FromOrigin

datatype outcome = Success | Failure | AbortedOutcome

datatype fetch_error =
    Aborted | OriginRejected | OriginHttp nat | OriginIntegrity | PeerFailed failure_reason
  | BothFailed "fetch_error list"

record SchedulerOutcome =
  so_policy :: string
  so_deadlineKind :: DeadlineKind
  so_plannedStrategy :: strategy
  so_plannedMode :: plan_mode
  so_finalSource :: "delivery option"
  so_hedgeStarted :: bool
  so_outcome :: outcome

text \<open>
  What an attempt ends in: a body; a response that is not ok; a rejected request, with its
  message and whether the attempt's own controller had been aborted (time limit included); or
  another error (an unusable address, a body that breaks off, a verifier that throws).
\<close>

datatype reply = Body "nat list" | Status nat | Rejected string bool | Broken

text \<open>The delayed Origin attempt of a hedged fetch: waiting for its start, requested, or settled.\<close>

datatype origin_attempt = OriginWaiting | OriginRequested number | OriginSettled

record Hedge =
  hd_peer :: Peer
  hd_startedAt :: number
  hd_delayMs :: number
  hd_timeoutMs :: "number option"
  hd_peerPending :: bool
  hd_origin :: origin_attempt
  hd_started :: bool
  hd_failures :: "fetch_error list"

datatype phase =
    Discovering
  | AtPeer Peer number "number option"
  | Hedging Hedge
  | AtOrigin number

text \<open>A consumer is the identity of one \<^verbatim>\<open>waitForSegment\<close> call, with whether its caller records
  the source of the result.\<close>

record InFlightSegment =
  if_phase :: phase
  if_ahead :: "number option"
  if_plan :: "SegmentSchedulingPlan option"
  if_assigned :: bool
  if_aborted :: bool
  if_consumers :: "(nat \<times> bool) list"

record SegmentFetchResult =
  fr_data :: "nat list"
  fr_source :: delivery

text \<open>The scheduler's methods over its state; \<open>sch_originLatency\<close> is the estimator's \<^verbatim>\<open>observe\<close>, which
  the deadline-aware scheduler shares with the fetcher.\<close>

record ('e, 's) SegmentScheduler =
  sch_policyName :: string
  sch_planSegment :: "('e, 's) scheduler"
  sch_observePeer :: "PeerFetchObservation \<Rightarrow> 's \<Rightarrow> 's"
  sch_reconcilePeers :: "SchedulingPeer list \<Rightarrow> 's \<Rightarrow> 's"
  sch_reset :: "'s \<Rightarrow> 's"
  sch_originLatency :: "number \<Rightarrow> 's \<Rightarrow> 's"

record FetcherOptions =
  fo_selfPeerId :: string
  fo_maxParallel :: number
  fo_p2pTimeoutMs :: number
  fo_segmentDurationMs :: "number option"
  fo_deadlineSchedulingEnabled :: bool
  fo_transportManager :: bool
  fo_verify :: "string \<Rightarrow> nat list \<Rightarrow> bool"

text \<open>Callbacks, failure reports to the tracker and settled promises are logs, oldest first.\<close>

record 's HybridSegmentFetcher =
  fs_cache :: SegmentCache
  fs_stats :: PeerTrafficStats
  fs_scheduler :: 's
  fs_inFlight :: "(string, InFlightSegment) jsmap"
  fs_lastSources :: "(string, delivery) jsmap"
  fs_shutdown :: bool
  fs_decisions :: "SchedulerDecision list"
  fs_outcomes :: "SchedulerOutcome list"
  fs_reports :: "(string \<times> failure_reason) list"
  fs_results :: "(nat \<times> string \<times> (fetch_error, SegmentFetchResult) result) list"

text \<open>A clock reading: \<^verbatim>\<open>Date.now()\<close>, which the cache uses, and \<^verbatim>\<open>performance.now()\<close>.\<close>

type_synonym clock = "int \<times> number"

section \<open>Planning\<close>

definition schedulingPeersFor :: "Peer list \<Rightarrow> SchedulingPeer list" where
  "schedulingPeersFor peers = map (\<lambda>(i, peer).
     \<lparr>sp_id = peer_id peer, sp_latencyMs = peer_latencyMs peer, sp_successRate = peer_successRate peer,
      sp_uploadBandwidthBps = (case peer_uploadBandwidthBps peer of None \<Rightarrow> 0 | Some v \<Rightarrow> v),
      sp_trustScore = peer_trustScore peer, sp_segments = peer_segments peer,
      sp_originalIndex = Some i\<rparr>) (enumerate 0 peers)"

definition syntheticDeadline :: "FetcherOptions \<Rightarrow> number option \<Rightarrow> SegmentDeadline option" where
  "syntheticDeadline opts segmentsAhead =
     (if \<not> fo_deadlineSchedulingEnabled opts then None
      else (case (segmentsAhead, fo_segmentDurationMs opts) of
        (Some ahead, Some duration) \<Rightarrow>
          Some \<lparr>dl_kind = Synthetic, dl_slackMs = ahead * duration, dl_segmentDurationMs = Some duration,
                dl_bufferAheadMs = None\<rparr>
      | _ \<Rightarrow> None))"

definition peers_by_id :: "Peer list \<Rightarrow> (string, Peer) jsmap" where
  "peers_by_id peers = fold (\<lambda>p m. map_set m (peer_id p) p) peers []"

definition plan_context ::
    "FetcherOptions \<Rightarrow> Peer list \<Rightarrow> string \<Rightarrow> number option \<Rightarrow> SegmentSchedulingContext" where
  "plan_context opts peers segmentName segmentsAhead =
     \<lparr>cx_segmentId = segmentName, cx_segmentsAhead = segmentsAhead,
      cx_deadline = syntheticDeadline opts segmentsAhead, cx_candidates = schedulingPeersFor peers,
      cx_selfPeerId = fo_selfPeerId opts, cx_maximumParallelism = fo_maxParallel opts\<rparr>"

definition ordered_peers :: "SegmentSchedulingPlan \<Rightarrow> Peer list \<Rightarrow> Peer list" where
  "ordered_peers plan peers =
     List.map_filter (map_get (peers_by_id peers))
       (pl_peerIds plan @ filter (\<lambda>i. i \<notin> set (pl_peerIds plan)) (map rp_peerId (pl_rankedPeers plan)))"

definition planPeers ::
    "FetcherOptions \<Rightarrow> ('e, 's) SegmentScheduler \<Rightarrow> Peer list \<Rightarrow> string \<Rightarrow> number option \<Rightarrow>
     's HybridSegmentFetcher \<Rightarrow> (Peer list \<times> SegmentSchedulingPlan) \<times> 's HybridSegmentFetcher" where
  "planPeers opts sch peers segmentName segmentsAhead f =
     (let cx = plan_context opts peers segmentName segmentsAhead;
          s = sch_reconcilePeers sch (cx_candidates cx) (fs_scheduler f) in
      case planSegmentSafely (sch_policyName sch) (sch_planSegment sch) cx s of
        ((plan, warnings), s') \<Rightarrow>
          ((if pl_mode plan = OriginMode then [] else ordered_peers plan peers, plan),
           f\<lparr>fs_scheduler := s',
             fs_decisions := fs_decisions f @ [schedulerDecisionFor plan (length (cx_candidates cx))]\<rparr>))"

section \<open>Small steps shared by the paths\<close>

definition MAX_TRACKED_SEGMENT_SOURCES :: nat where "MAX_TRACKED_SEGMENT_SOURCES = 2000"
definition DEFAULT_P2P_TIMEOUT_MS :: number where "DEFAULT_P2P_TIMEOUT_MS = Num 2000"
definition DEFAULT_ORIGIN_TIMEOUT_MS :: number where "DEFAULT_ORIGIN_TIMEOUT_MS = Num 10000"

definition setLastSource :: "string \<Rightarrow> delivery \<Rightarrow> 's HybridSegmentFetcher \<Rightarrow> 's HybridSegmentFetcher" where
  "setLastSource segmentName source f =
     f\<lparr>fs_lastSources := drop_oldest MAX_TRACKED_SEGMENT_SOURCES (map_touch (fs_lastSources f) segmentName source)\<rparr>"

definition getLastSource :: "string \<Rightarrow> 's HybridSegmentFetcher \<Rightarrow> delivery option" where
  "getLastSource segmentName f = map_get (fs_lastSources f) segmentName"

definition fetcher_cache :: "string \<Rightarrow> nat list \<Rightarrow> int \<Rightarrow> 's HybridSegmentFetcher \<Rightarrow> 's HybridSegmentFetcher" where
  "fetcher_cache segmentName bytes now f =
     (case cache_set segmentName bytes now (fs_cache f) of
        (_, c) \<Rightarrow> (case cache_size now c of
          (n, c') \<Rightarrow> f\<lparr>fs_cache := c', fs_stats := setSegmentsCached (nat_number n) (fs_stats f)\<rparr>))"

definition with_stats :: "(PeerTrafficStats \<Rightarrow> PeerTrafficStats) \<Rightarrow> 's HybridSegmentFetcher \<Rightarrow> 's HybridSegmentFetcher" where
  "with_stats g f = f\<lparr>fs_stats := g (fs_stats f)\<rparr>"

definition observe_success ::
    "('e, 's) SegmentScheduler \<Rightarrow> Peer \<Rightarrow> number \<Rightarrow> nat list \<Rightarrow> 's HybridSegmentFetcher \<Rightarrow> 's HybridSegmentFetcher" where
  "observe_success sch peer elapsed bytes f =
     f\<lparr>fs_scheduler := sch_observePeer sch
        \<lparr>ob_peerId = peer_id peer, ob_succeeded = True, ob_latencyMs = elapsed,
         ob_bytes = nat_number (length bytes), ob_failureReason = None\<rparr> (fs_scheduler f)\<rparr>"

definition recordPeerFailure ::
    "('e, 's) SegmentScheduler \<Rightarrow> Peer \<Rightarrow> failure_reason \<Rightarrow> number \<Rightarrow> 's HybridSegmentFetcher \<Rightarrow> 's HybridSegmentFetcher" where
  "recordPeerFailure sch peer reason latencyMs f =
     f\<lparr>fs_scheduler := sch_observePeer sch
        \<lparr>ob_peerId = peer_id peer, ob_succeeded = False, ob_latencyMs = latencyMs, ob_bytes = 0,
         ob_failureReason = Some reason\<rparr> (fs_scheduler f),
       fs_stats := recordFallback (recordP2PFailure (fs_stats f)),
       fs_reports := fs_reports f @ [(peer_id peer, reason)]\<rparr>"

definition recordSchedulerOutcome ::
    "FetcherOptions \<Rightarrow> ('e, 's) SegmentScheduler \<Rightarrow> InFlightSegment \<Rightarrow> delivery option \<Rightarrow> bool \<Rightarrow> outcome \<Rightarrow>
     's HybridSegmentFetcher \<Rightarrow> 's HybridSegmentFetcher" where
  "recordSchedulerOutcome opts sch r finalSource hedgeStarted result f =
     f\<lparr>fs_outcomes := fs_outcomes f @
        [\<lparr>so_policy = (case if_plan r of None \<Rightarrow> sch_policyName sch | Some plan \<Rightarrow> pl_policy plan),
          so_deadlineKind = (case syntheticDeadline opts (if_ahead r) of
            None \<Rightarrow> UnknownDeadline | Some d \<Rightarrow> dl_kind d),
          so_plannedStrategy = (case if_plan r of
              None \<Rightarrow> LegacyP2pFirst
            | Some plan \<Rightarrow> (case pl_execution plan of Some e \<Rightarrow> ex_strategy e
                | None \<Rightarrow> if pl_mode plan = OriginMode then OriginOnly else LegacyP2pFirst)),
          so_plannedMode = (case if_plan r of None \<Rightarrow> OriginMode | Some plan \<Rightarrow> pl_mode plan),
          so_finalSource = finalSource, so_hedgeStarted = hedgeStarted, so_outcome = result\<rparr>]\<rparr>"

text \<open>\<^verbatim>\<open>/HTTP \d+/i\<close> and \<^verbatim>\<open>/timed out|abort/i\<close> on the lower-cased message.\<close>

fun mentions_http_status :: "string \<Rightarrow> bool" where
  "mentions_http_status [] = False"
| "mentions_http_status (c # cs) =
     (starts_with (c # cs) ''http '' \<and> (case drop 5 (c # cs) of [] \<Rightarrow> False | d # _ \<Rightarrow> is_digit d) \<or>
      mentions_http_status cs)"

fun mentions :: "string \<Rightarrow> string \<Rightarrow> bool" where
  "mentions needle [] = (needle = [])"
| "mentions needle (c # cs) = (starts_with (c # cs) needle \<or> mentions needle cs)"

definition transport_failure_reason :: "string \<Rightarrow> failure_reason" where
  "transport_failure_reason message =
     (let m = to_lower message in
      if mentions_http_status m then HttpFailure
      else if mentions ''timed out'' m \<or> mentions ''abort'' m then TimeoutFailure
      else ConnectionFailure)"

text \<open>The time limit of a peer attempt: transports have their own unless a budget is given.\<close>

definition attempt_timeout :: "FetcherOptions \<Rightarrow> number option \<Rightarrow> number option" where
  "attempt_timeout opts budget =
     (let standard = (if fo_transportManager opts then None else Some (fo_p2pTimeoutMs opts)) in
      case budget of None \<Rightarrow> standard
      | Some b \<Rightarrow> (case standard of None \<Rightarrow> Some b | Some t \<Rightarrow> Some (math_min t b)))"

section \<open>Replies\<close>

definition peer_reply ::
    "FetcherOptions \<Rightarrow> string \<Rightarrow> bool \<Rightarrow> reply \<Rightarrow> PeerTrafficStats \<Rightarrow>
     (failure_reason, nat list) result \<times> PeerTrafficStats" where
  "peer_reply opts segmentName accountSuccess reply stats =
     (case reply of
        Rejected message attemptAborted \<Rightarrow>
          (throw (if fo_transportManager opts then transport_failure_reason message
             else if attemptAborted then TimeoutFailure else ConnectionFailure), stats)
      | Status _ \<Rightarrow> (throw HttpFailure, stats)
      | Broken \<Rightarrow> (throw ConnectionFailure, stats)
      | Body bytes \<Rightarrow>
          if \<not> fo_verify opts segmentName bytes then (throw IntegrityFailure, recordIntegrityFailure stats)
          else (return bytes,
            if accountSuccess then recordP2PSuccess (nat_number (length bytes)) stats else stats))"

definition origin_reply ::
    "FetcherOptions \<Rightarrow> string \<Rightarrow> reply \<Rightarrow> PeerTrafficStats \<Rightarrow> (fetch_error, nat list) result \<times> PeerTrafficStats" where
  "origin_reply opts segmentName reply stats =
     (case reply of
        Status n \<Rightarrow> (throw (OriginHttp n), stats)
      | Body bytes \<Rightarrow>
          if \<not> fo_verify opts segmentName bytes then (throw OriginIntegrity, recordIntegrityFailure stats)
          else (return bytes, stats)
      | _ \<Rightarrow> (throw OriginRejected, stats))"

text \<open>\<^verbatim>\<open>fetchFromOrigin\<close> after the response: a good body also feeds the latency estimator.\<close>

definition origin_answer ::
    "FetcherOptions \<Rightarrow> ('e, 's) SegmentScheduler \<Rightarrow> string \<Rightarrow> number \<Rightarrow> reply \<Rightarrow> 's HybridSegmentFetcher \<Rightarrow>
     (fetch_error, nat list) result \<times> 's HybridSegmentFetcher" where
  "origin_answer opts sch segmentName elapsed reply f =
     (case origin_reply opts segmentName reply (fs_stats f) of
        (result, stats) \<Rightarrow>
          (result, f\<lparr>fs_stats := stats,
             fs_scheduler := (case result of Inl e \<Rightarrow> fs_scheduler f
               | Inr bytes \<Rightarrow> sch_originLatency sch elapsed (fs_scheduler f))\<rparr>))"

section \<open>Requests\<close>

definition put_request :: "string \<Rightarrow> InFlightSegment \<Rightarrow> 's HybridSegmentFetcher \<Rightarrow> 's HybridSegmentFetcher" where
  "put_request segmentName r f = f\<lparr>fs_inFlight := map_set (fs_inFlight f) segmentName r\<rparr>"

definition stopped :: "InFlightSegment \<Rightarrow> 's HybridSegmentFetcher \<Rightarrow> bool" where
  "stopped r f \<longleftrightarrow> if_aborted r \<or> fs_shutdown f"

text \<open>The request's promise settles: it leaves the map and every remaining consumer gets the result.\<close>

definition finish_request ::
    "string \<Rightarrow> InFlightSegment \<Rightarrow> (fetch_error, SegmentFetchResult) result \<Rightarrow>
     's HybridSegmentFetcher \<Rightarrow> 's HybridSegmentFetcher" where
  "finish_request segmentName r result f =
     (let f' = f\<lparr>fs_inFlight := map_delete (fs_inFlight f) segmentName,
                 fs_results := fs_results f @ map (\<lambda>(c, _). (c, segmentName, result)) (if_consumers r)\<rparr> in
      case result of Inl e \<Rightarrow> f'
      | Inr res \<Rightarrow> if list_ex snd (if_consumers r) then setLastSource segmentName (fr_source res) f' else f')"

definition succeed ::
    "FetcherOptions \<Rightarrow> ('e, 's) SegmentScheduler \<Rightarrow> string \<Rightarrow> InFlightSegment \<Rightarrow> nat list \<Rightarrow> delivery \<Rightarrow> bool \<Rightarrow>
     int \<Rightarrow> 's HybridSegmentFetcher \<Rightarrow> 's HybridSegmentFetcher" where
  "succeed opts sch segmentName r bytes source hedgeStarted now f =
     (let f1 = fetcher_cache segmentName bytes now f;
          f2 = (if if_assigned r then f1
            else recordSchedulerOutcome opts sch r (Some source) hedgeStarted Success (setLastSource segmentName source f1)) in
      finish_request segmentName r (return \<lparr>fr_data = bytes, fr_source = source\<rparr>) f2)"

definition fail_request ::
    "FetcherOptions \<Rightarrow> ('e, 's) SegmentScheduler \<Rightarrow> string \<Rightarrow> InFlightSegment \<Rightarrow> fetch_error \<Rightarrow> bool \<Rightarrow>
     's HybridSegmentFetcher \<Rightarrow> 's HybridSegmentFetcher" where
  "fail_request opts sch segmentName r e hedgeStarted f =
     (let f1 = (if if_assigned r then f
            else recordSchedulerOutcome opts sch r None hedgeStarted
              (if stopped r f then AbortedOutcome else Failure) f) in
      finish_request segmentName r (throw e) f1)"

definition start_peer ::
    "FetcherOptions \<Rightarrow> string \<Rightarrow> InFlightSegment \<Rightarrow> Peer \<Rightarrow> number \<Rightarrow> 's HybridSegmentFetcher \<Rightarrow> 's HybridSegmentFetcher" where
  "start_peer opts segmentName r peer time f =
     put_request segmentName (r\<lparr>if_phase := AtPeer peer time (attempt_timeout opts None)\<rparr>)
       (with_stats recordP2PRequest f)"

definition start_origin ::
    "string \<Rightarrow> InFlightSegment \<Rightarrow> number \<Rightarrow> 's HybridSegmentFetcher \<Rightarrow> 's HybridSegmentFetcher" where
  "start_origin segmentName r time f =
     put_request segmentName (r\<lparr>if_phase := AtOrigin time\<rparr>) (with_stats recordOriginRequest f)"

definition start_hedge ::
    "FetcherOptions \<Rightarrow> string \<Rightarrow> InFlightSegment \<Rightarrow> Peer \<Rightarrow> SegmentExecutionHints \<Rightarrow> number \<Rightarrow>
     's HybridSegmentFetcher \<Rightarrow> 's HybridSegmentFetcher" where
  "start_hedge opts segmentName r peer hints time f =
     put_request segmentName (r\<lparr>if_phase := Hedging
         \<lparr>hd_peer = peer, hd_startedAt = time,
          hd_delayMs = (case ex_originHedgeDelayMs hints of None \<Rightarrow> 0 | Some d \<Rightarrow> d),
          hd_timeoutMs = attempt_timeout opts
            (map_option (\<lambda>budget. math_max 0 ((time + budget) - time)) (ex_peerAttemptBudgetMs hints)),
          hd_peerPending = True, hd_origin = OriginWaiting, hd_started = False, hd_failures = []\<rparr>\<rparr>)
       (with_stats recordP2PRequest f)"

definition new_request :: "number option \<Rightarrow> bool \<Rightarrow> nat \<times> bool \<Rightarrow> InFlightSegment" where
  "new_request ahead assigned consumer =
     \<lparr>if_phase = Discovering, if_ahead = ahead, if_plan = None, if_assigned = assigned,
      if_aborted = False, if_consumers = [consumer]\<rparr>"

text \<open>\<^verbatim>\<open>waitForSegment\<close> on a request that is already in flight.\<close>

definition join_request :: "string \<Rightarrow> InFlightSegment \<Rightarrow> nat \<times> bool \<Rightarrow> 's HybridSegmentFetcher \<Rightarrow> 's HybridSegmentFetcher" where
  "join_request segmentName r consumer f =
     put_request segmentName (r\<lparr>if_consumers := if_consumers r @ [consumer]\<rparr>) f"

definition add_result ::
    "nat \<Rightarrow> string \<Rightarrow> (fetch_error, SegmentFetchResult) result \<Rightarrow> 's HybridSegmentFetcher \<Rightarrow> 's HybridSegmentFetcher" where
  "add_result c segmentName result f = f\<lparr>fs_results := fs_results f @ [(c, segmentName, result)]\<rparr>"

section \<open>Events\<close>

datatype event =
    Call string number nat bool
  | BatchTask string "Peer option" nat
  | PeersListed string "Peer list option"
  | PeerReplied string reply
  | OriginReplied string reply
  | HedgeTimer string
  | ConsumerAbort string nat
  | Stop

definition serve_cached ::
    "string \<Rightarrow> nat \<Rightarrow> int \<Rightarrow> 's HybridSegmentFetcher \<Rightarrow> 's HybridSegmentFetcher option \<times> 's HybridSegmentFetcher" where
  "serve_cached segmentName c now f =
     (case cache_get segmentName now (fs_cache f) of
        (None, cache) \<Rightarrow> (None, f\<lparr>fs_cache := cache\<rparr>)
      | (Some bytes, cache) \<Rightarrow>
          (let f' = f\<lparr>fs_cache := cache\<rparr> in
           (Some (add_result c segmentName (return \<lparr>fr_data = bytes, fr_source = FromCache\<rparr>)
              (setLastSource segmentName FromCache f')), f')))"

definition fetchSegment ::
    "string \<Rightarrow> number \<Rightarrow> nat \<Rightarrow> bool \<Rightarrow> int \<Rightarrow> 's HybridSegmentFetcher \<Rightarrow> 's HybridSegmentFetcher" where
  "fetchSegment segmentName segmentsAhead c alreadyAborted now f =
     (if alreadyAborted then add_result c segmentName (throw Aborted) f
      else (case serve_cached segmentName c now f of
        (Some f', _) \<Rightarrow> f'
      | (None, f') \<Rightarrow>
          (case map_get (fs_inFlight f') segmentName of
             Some r \<Rightarrow> join_request segmentName r (c, True) f'
           | None \<Rightarrow> put_request segmentName (new_request (Some segmentsAhead) False (c, False)) f')))"

definition batch_task ::
    "FetcherOptions \<Rightarrow> string \<Rightarrow> Peer option \<Rightarrow> nat \<Rightarrow> clock \<Rightarrow> 's HybridSegmentFetcher \<Rightarrow> 's HybridSegmentFetcher" where
  "batch_task opts segmentName peer c t f =
     (case serve_cached segmentName c (fst t) f of
        (Some f', _) \<Rightarrow> f'
      | (None, f') \<Rightarrow>
          (case map_get (fs_inFlight f') segmentName of
             Some r \<Rightarrow> join_request segmentName r (c, True) f'
           | None \<Rightarrow>
               (let r = new_request None True (c, True) in
                case peer of None \<Rightarrow> start_origin segmentName r (snd t) f'
                | Some p \<Rightarrow> start_peer opts segmentName r p (snd t) f')))"

text \<open>The continuation after \<^verbatim>\<open>listPeers\<close>; \<open>None\<close> when it rejects.\<close>

definition peers_listed ::
    "FetcherOptions \<Rightarrow> ('e, 's) SegmentScheduler \<Rightarrow> string \<Rightarrow> Peer list option \<Rightarrow> clock \<Rightarrow>
     's HybridSegmentFetcher \<Rightarrow> 's HybridSegmentFetcher" where
  "peers_listed opts sch segmentName listed t f =
     (case map_get (fs_inFlight f) segmentName of
        None \<Rightarrow> f
      | Some r \<Rightarrow>
          if if_phase r \<noteq> Discovering then f
          else (case listed of
             None \<Rightarrow> start_origin segmentName r (snd t) (with_stats recordFallback f)
           | Some candidates \<Rightarrow>
               (case planPeers opts sch candidates segmentName (if_ahead r) f of
                  ((peers, plan), f') \<Rightarrow>
                    (let r' = r\<lparr>if_plan := Some plan\<rparr> in
                     case peers of
                       [] \<Rightarrow> start_origin segmentName r' (snd t) f'
                     | peer # _ \<Rightarrow>
                         (case pl_execution plan of
                            None \<Rightarrow> start_peer opts segmentName r' peer (snd t) f'
                          | Some hints \<Rightarrow>
                              if ex_strategy hints = HedgedOrigin
                              then start_hedge opts segmentName r' peer hints (snd t) f'
                              else start_peer opts segmentName r' peer (snd t) f')))))"

section \<open>Hedged requests\<close>

definition hedge_origin_start ::
    "string \<Rightarrow> InFlightSegment \<Rightarrow> Hedge \<Rightarrow> number \<Rightarrow> 's HybridSegmentFetcher \<Rightarrow> 's HybridSegmentFetcher" where
  "hedge_origin_start segmentName r h time f =
     put_request segmentName (r\<lparr>if_phase := Hedging (h\<lparr>hd_started := True, hd_origin := OriginRequested time\<rparr>)\<rparr>)
       (with_stats recordOriginRequest f)"

text \<open>An attempt failed: the hedge goes on while the other one is pending. A failed peer starts a
  waiting Origin attempt at once.\<close>

definition hedge_attempt_failed ::
    "FetcherOptions \<Rightarrow> ('e, 's) SegmentScheduler \<Rightarrow> string \<Rightarrow> InFlightSegment \<Rightarrow> Hedge \<Rightarrow> number \<Rightarrow>
     's HybridSegmentFetcher \<Rightarrow> 's HybridSegmentFetcher" where
  "hedge_attempt_failed opts sch segmentName r h time f =
     (if \<not> hd_peerPending h \<and> hd_origin h = OriginSettled
      then fail_request opts sch segmentName r (BothFailed (hd_failures h)) (hd_started h) f
      else if \<not> hd_peerPending h \<and> hd_origin h = OriginWaiting
      then hedge_origin_start segmentName r h time f
      else put_request segmentName (r\<lparr>if_phase := Hedging h\<rparr>) f)"

definition hedge_peer_replied ::
    "FetcherOptions \<Rightarrow> ('e, 's) SegmentScheduler \<Rightarrow> string \<Rightarrow> InFlightSegment \<Rightarrow> Hedge \<Rightarrow> reply \<Rightarrow> clock \<Rightarrow>
     's HybridSegmentFetcher \<Rightarrow> 's HybridSegmentFetcher" where
  "hedge_peer_replied opts sch segmentName r h reply t f =
     (if \<not> hd_peerPending h then f
      else (case peer_reply opts segmentName False reply (fs_stats f) of
        (result, stats) \<Rightarrow>
          (let f1 = f\<lparr>fs_stats := stats\<rparr>; elapsed = snd t - hd_startedAt h in
           if stopped r f then fail_request opts sch segmentName r Aborted (hd_started h) f1
           else (case result of
             Inl reason \<Rightarrow>
               hedge_attempt_failed opts sch segmentName r
                 (h\<lparr>hd_peerPending := False, hd_failures := hd_failures h @ [PeerFailed reason]\<rparr>) (snd t)
                 (recordPeerFailure sch (hd_peer h) reason elapsed f1)
           | Inr bytes \<Rightarrow>
               succeed opts sch segmentName r bytes FromP2P (hd_started h) (fst t)
                 (with_stats (recordP2PSuccess (nat_number (length bytes)))
                   (observe_success sch (hd_peer h) elapsed bytes f1))))))"

text \<open>An aborted hedge that still waits for its Origin start has that wait rejected.\<close>

definition hedge_origin_replied ::
    "FetcherOptions \<Rightarrow> ('e, 's) SegmentScheduler \<Rightarrow> string \<Rightarrow> InFlightSegment \<Rightarrow> Hedge \<Rightarrow> reply \<Rightarrow> clock \<Rightarrow>
     's HybridSegmentFetcher \<Rightarrow> 's HybridSegmentFetcher" where
  "hedge_origin_replied opts sch segmentName r h reply t f =
     (case hd_origin h of
        OriginSettled \<Rightarrow> f
      | OriginWaiting \<Rightarrow>
          if stopped r f then fail_request opts sch segmentName r Aborted (hd_started h) f else f
      | OriginRequested started \<Rightarrow>
          (case origin_answer opts sch segmentName (snd t - started) reply f of
             (result, f1) \<Rightarrow>
               (if stopped r f then fail_request opts sch segmentName r Aborted (hd_started h) f1
                else (case result of
                  Inl e \<Rightarrow>
                    hedge_attempt_failed opts sch segmentName r
                      (h\<lparr>hd_origin := OriginSettled, hd_failures := hd_failures h @ [e]\<rparr>) (snd t) f1
                | Inr bytes \<Rightarrow>
                    succeed opts sch segmentName r bytes FromOrigin (hd_started h) (fst t)
                      (with_stats (recordOriginBytes (nat_number (length bytes))) f1)))))"

definition hedge_timer :: "string \<Rightarrow> number \<Rightarrow> 's HybridSegmentFetcher \<Rightarrow> 's HybridSegmentFetcher" where
  "hedge_timer segmentName time f =
     (case map_get (fs_inFlight f) segmentName of
        None \<Rightarrow> f
      | Some r \<Rightarrow> (case if_phase r of
          Hedging h \<Rightarrow>
            if hd_origin h = OriginWaiting \<and> \<not> stopped r f then hedge_origin_start segmentName r h time f else f
        | _ \<Rightarrow> f))"

section \<open>Sequential requests\<close>

definition peer_replied ::
    "FetcherOptions \<Rightarrow> ('e, 's) SegmentScheduler \<Rightarrow> string \<Rightarrow> reply \<Rightarrow> clock \<Rightarrow>
     's HybridSegmentFetcher \<Rightarrow> 's HybridSegmentFetcher" where
  "peer_replied opts sch segmentName reply t f =
     (case map_get (fs_inFlight f) segmentName of
        None \<Rightarrow> f
      | Some r \<Rightarrow> (case if_phase r of
          Hedging h \<Rightarrow> hedge_peer_replied opts sch segmentName r h reply t f
        | AtPeer peer started timeout \<Rightarrow>
            (case peer_reply opts segmentName True reply (fs_stats f) of
               (result, stats) \<Rightarrow>
                 (let f1 = f\<lparr>fs_stats := stats\<rparr>; elapsed = snd t - started in
                  case result of
                    Inr bytes \<Rightarrow>
                      succeed opts sch segmentName r bytes FromP2P False (fst t)
                        (observe_success sch peer elapsed bytes f1)
                  | Inl reason \<Rightarrow>
                      if stopped r f then fail_request opts sch segmentName r Aborted False f1
                      else start_origin segmentName r (snd t) (recordPeerFailure sch peer reason elapsed f1)))
        | _ \<Rightarrow> f))"

definition origin_replied ::
    "FetcherOptions \<Rightarrow> ('e, 's) SegmentScheduler \<Rightarrow> string \<Rightarrow> reply \<Rightarrow> clock \<Rightarrow>
     's HybridSegmentFetcher \<Rightarrow> 's HybridSegmentFetcher" where
  "origin_replied opts sch segmentName reply t f =
     (case map_get (fs_inFlight f) segmentName of
        None \<Rightarrow> f
      | Some r \<Rightarrow> (case if_phase r of
          Hedging h \<Rightarrow> hedge_origin_replied opts sch segmentName r h reply t f
        | AtOrigin started \<Rightarrow>
            (case origin_answer opts sch segmentName (snd t - started) reply f of
               (Inl e, f1) \<Rightarrow> fail_request opts sch segmentName r e False f1
             | (Inr bytes, f1) \<Rightarrow>
                 succeed opts sch segmentName r bytes FromOrigin False (fst t)
                   (with_stats (recordOriginBytes (nat_number (length bytes))) f1))
        | _ \<Rightarrow> f))"

section \<open>Aborts\<close>

text \<open>One consumer aborts; when it was the last one, the request's own controller is aborted.\<close>

definition consumer_abort :: "string \<Rightarrow> nat \<Rightarrow> 's HybridSegmentFetcher \<Rightarrow> 's HybridSegmentFetcher" where
  "consumer_abort segmentName c f =
     (case map_get (fs_inFlight f) segmentName of
        None \<Rightarrow> f
      | Some r \<Rightarrow>
          if c \<notin> fst ` set (if_consumers r) then f
          else (let rest = filter (\<lambda>(i, _). i \<noteq> c) (if_consumers r) in
                put_request segmentName (r\<lparr>if_consumers := rest, if_aborted := if_aborted r \<or> rest = []\<rparr>)
                  (add_result c segmentName (throw Aborted) f)))"

definition stop_request :: "string \<times> InFlightSegment \<Rightarrow> 's HybridSegmentFetcher \<Rightarrow> 's HybridSegmentFetcher" where
  "stop_request entry f = (case entry of (segmentName, r) \<Rightarrow>
     put_request segmentName (r\<lparr>if_consumers := [], if_aborted := True\<rparr>)
       (f\<lparr>fs_results := fs_results f @ map (\<lambda>(c, _). (c, segmentName, throw Aborted)) (if_consumers r)\<rparr>))"

definition stop_fetcher :: "('e, 's) SegmentScheduler \<Rightarrow> 's HybridSegmentFetcher \<Rightarrow> 's HybridSegmentFetcher" where
  "stop_fetcher sch f =
     (if fs_shutdown f then f
      else (let f' = fold stop_request (fs_inFlight f) (f\<lparr>fs_shutdown := True\<rparr>) in
            f'\<lparr>fs_scheduler := sch_reset sch (fs_scheduler f')\<rparr>))"

section \<open>The machine\<close>

fun fetcher_step ::
    "FetcherOptions \<Rightarrow> ('e, 's) SegmentScheduler \<Rightarrow> event \<times> clock \<Rightarrow> 's HybridSegmentFetcher \<Rightarrow> 's HybridSegmentFetcher" where
  "fetcher_step opts sch (Call segmentName ahead c alreadyAborted, t) f =
     fetchSegment segmentName ahead c alreadyAborted (fst t) f"
| "fetcher_step opts sch (BatchTask segmentName peer c, t) f = batch_task opts segmentName peer c t f"
| "fetcher_step opts sch (PeersListed segmentName listed, t) f = peers_listed opts sch segmentName listed t f"
| "fetcher_step opts sch (PeerReplied segmentName reply, t) f = peer_replied opts sch segmentName reply t f"
| "fetcher_step opts sch (OriginReplied segmentName reply, t) f = origin_replied opts sch segmentName reply t f"
| "fetcher_step opts sch (HedgeTimer segmentName, t) f = hedge_timer segmentName (snd t) f"
| "fetcher_step opts sch (ConsumerAbort segmentName c, t) f = consumer_abort segmentName c f"
| "fetcher_step opts sch (Stop, t) f = stop_fetcher sch f"

definition run_fetcher ::
    "FetcherOptions \<Rightarrow> ('e, 's) SegmentScheduler \<Rightarrow> (event \<times> clock) list \<Rightarrow> 's HybridSegmentFetcher \<Rightarrow>
     's HybridSegmentFetcher" where
  "run_fetcher opts sch events f = fold (fetcher_step opts sch) events f"

datatype fetcher_error = MaximumParallelInvalid | SegmentDurationInvalid

definition new_fetcher ::
    "FetcherOptions \<Rightarrow> SegmentCache \<Rightarrow> PeerTrafficStats \<Rightarrow> 's \<Rightarrow> (fetcher_error, 's HybridSegmentFetcher) result" where
  "new_fetcher opts cache stats s =
     (if \<not> isSafeInteger (fo_maxParallel opts) \<or> fo_maxParallel opts \<le> 0 then throw MaximumParallelInvalid
      else if (case fo_segmentDurationMs opts of None \<Rightarrow> False | Some d \<Rightarrow> \<not> isFinite d \<or> d \<le> 0)
      then throw SegmentDurationInvalid
      else return \<lparr>fs_cache = cache, fs_stats = stats, fs_scheduler = s, fs_inFlight = [], fs_lastSources = [],
        fs_shutdown = False, fs_decisions = [], fs_outcomes = [], fs_reports = [], fs_results = []\<rparr>)"

section \<open>Batches\<close>

text \<open>The tasks of one wave, for consumers numbered from \<open>c\<close>, and what its settled results add.\<close>

definition wave_tasks :: "Peer list \<Rightarrow> BatchAssignment list \<Rightarrow> nat \<Rightarrow> event list" where
  "wave_tasks peers assignments c = map (\<lambda>(i, a).
     BatchTask (ba_segmentId a)
       (case ba_peerId a of None \<Rightarrow> None | Some p \<Rightarrow> map_get (peers_by_id peers) p) i) (enumerate c assignments)"

definition collect_wave ::
    "(string \<times> (fetch_error, SegmentFetchResult) result) list \<Rightarrow>
     (string, nat list) jsmap \<times> fetch_error list \<Rightarrow> (string, nat list) jsmap \<times> fetch_error list" where
  "collect_wave settled acc = fold (\<lambda>(segmentName, result) (fetched, failures).
     case result of Inl e \<Rightarrow> (fetched, failures @ [e])
     | Inr res \<Rightarrow> (map_set fetched segmentName (fr_data res), failures)) settled acc"

end
