(* ===== verification/FetcherSpec.thy ===== *)
theory FetcherSpec
  imports Fetcher SegmentStore WeightedSpec
begin

text \<open>
  Properties of the segment fetcher over any sequence of events: what it delivers was verified,
  every consumer is settled exactly once, a fetch fails only through the Origin or an abort,
  the counters add up, and a hedge asks the Origin as soon as the peer has failed. The cache is
  used through the locale \<open>segment_store\<close> only.
\<close>

section \<open>Fields the small steps leave alone\<close>

lemma setLastSource_fields [simp]:
  "fs_cache (setLastSource s d f) = fs_cache f" "fs_results (setLastSource s d f) = fs_results f"
  "fs_inFlight (setLastSource s d f) = fs_inFlight f" "fs_shutdown (setLastSource s d f) = fs_shutdown f"
  "fs_stats (setLastSource s d f) = fs_stats f"
  by (simp_all add: setLastSource_def)

lemma with_stats_fields [simp]:
  "fs_cache (with_stats g f) = fs_cache f" "fs_results (with_stats g f) = fs_results f"
  "fs_inFlight (with_stats g f) = fs_inFlight f" "fs_shutdown (with_stats g f) = fs_shutdown f"
  "fs_stats (with_stats g f) = g (fs_stats f)"
  by (simp_all add: with_stats_def)

lemma observe_success_fields [simp]:
  "fs_cache (observe_success sch p t b f) = fs_cache f" "fs_results (observe_success sch p t b f) = fs_results f"
  "fs_inFlight (observe_success sch p t b f) = fs_inFlight f" "fs_shutdown (observe_success sch p t b f) = fs_shutdown f"
  "fs_stats (observe_success sch p t b f) = fs_stats f"
  by (simp_all add: observe_success_def)

lemma recordPeerFailure_fields [simp]:
  "fs_cache (recordPeerFailure sch p r t f) = fs_cache f" "fs_results (recordPeerFailure sch p r t f) = fs_results f"
  "fs_inFlight (recordPeerFailure sch p r t f) = fs_inFlight f" "fs_shutdown (recordPeerFailure sch p r t f) = fs_shutdown f"
  "fs_stats (recordPeerFailure sch p r t f) = recordFallback (recordP2PFailure (fs_stats f))"
  by (simp_all add: recordPeerFailure_def)

lemma recordSchedulerOutcome_fields [simp]:
  "fs_cache (recordSchedulerOutcome opts sch r d h x f) = fs_cache f"
  "fs_results (recordSchedulerOutcome opts sch r d h x f) = fs_results f"
  "fs_inFlight (recordSchedulerOutcome opts sch r d h x f) = fs_inFlight f"
  "fs_shutdown (recordSchedulerOutcome opts sch r d h x f) = fs_shutdown f"
  "fs_stats (recordSchedulerOutcome opts sch r d h x f) = fs_stats f"
  by (simp_all add: recordSchedulerOutcome_def)

lemma put_request_fields [simp]:
  "fs_cache (put_request s r f) = fs_cache f" "fs_results (put_request s r f) = fs_results f"
  "fs_inFlight (put_request s r f) = map_set (fs_inFlight f) s r" "fs_shutdown (put_request s r f) = fs_shutdown f"
  "fs_stats (put_request s r f) = fs_stats f"
  by (simp_all add: put_request_def)

lemma add_result_fields [simp]:
  "fs_cache (add_result c s x f) = fs_cache f" "fs_results (add_result c s x f) = fs_results f @ [(c, s, x)]"
  "fs_inFlight (add_result c s x f) = fs_inFlight f" "fs_shutdown (add_result c s x f) = fs_shutdown f"
  "fs_stats (add_result c s x f) = fs_stats f"
  by (simp_all add: add_result_def)

lemma finish_request_fields [simp]:
  "fs_cache (finish_request s r x f) = fs_cache f"
  "fs_results (finish_request s r x f) = fs_results f @ map (\<lambda>(c, _). (c, s, x)) (if_consumers r)"
  "fs_inFlight (finish_request s r x f) = map_delete (fs_inFlight f) s"
  "fs_shutdown (finish_request s r x f) = fs_shutdown f" "fs_stats (finish_request s r x f) = fs_stats f"
  by (simp_all add: finish_request_def Let_def split: sum.split)

lemma fetcher_cache_fields [simp]:
  "fs_results (fetcher_cache s b t f) = fs_results f" "fs_inFlight (fetcher_cache s b t f) = fs_inFlight f"
  "fs_shutdown (fetcher_cache s b t f) = fs_shutdown f"
  by (simp_all add: fetcher_cache_def split: prod.split)

lemma fail_request_fields [simp]:
  "fs_cache (fail_request opts sch s r e h f) = fs_cache f"
  "fs_results (fail_request opts sch s r e h f) = fs_results f @ map (\<lambda>(c, _). (c, s, throw e)) (if_consumers r)"
  "fs_inFlight (fail_request opts sch s r e h f) = map_delete (fs_inFlight f) s"
  "fs_shutdown (fail_request opts sch s r e h f) = fs_shutdown f"
  "fs_stats (fail_request opts sch s r e h f) = fs_stats f"
  by (simp_all add: fail_request_def Let_def)

lemma succeed_fields [simp]:
  "fs_cache (succeed opts sch s r b d h t f) = fs_cache (fetcher_cache s b t f)"
  "fs_results (succeed opts sch s r b d h t f) =
     fs_results f @ map (\<lambda>(c, _). (c, s, return \<lparr>fr_data = b, fr_source = d\<rparr>)) (if_consumers r)"
  "fs_inFlight (succeed opts sch s r b d h t f) = map_delete (fs_inFlight f) s"
  "fs_shutdown (succeed opts sch s r b d h t f) = fs_shutdown f"
  "fs_stats (succeed opts sch s r b d h t f) = fs_stats (fetcher_cache s b t f)"
  by (simp_all add: succeed_def Let_def)

lemma planPeers_fields:
  assumes "planPeers opts sch ps s ahead f = (x, f')"
  shows "fs_cache f' = fs_cache f" "fs_results f' = fs_results f" "fs_inFlight f' = fs_inFlight f"
    "fs_shutdown f' = fs_shutdown f" "fs_stats f' = fs_stats f"
  using assms by (auto simp: planPeers_def Let_def split: prod.splits)

lemma origin_answer_fields:
  assumes "origin_answer opts sch s t reply f = (x, f')"
  shows "fs_cache f' = fs_cache f" "fs_results f' = fs_results f" "fs_inFlight f' = fs_inFlight f"
    "fs_shutdown f' = fs_shutdown f"
  using assms by (auto simp: origin_answer_def split: prod.splits)

lemma serve_cached_fields:
  assumes "serve_cached s c t f = (hit, f')"
  shows "fs_results f' = fs_results f" "fs_inFlight f' = fs_inFlight f" "fs_shutdown f' = fs_shutdown f"
    "fs_stats f' = fs_stats f" "fs_cache f' = snd (cache_get s t (fs_cache f))"
    "hit = Some g \<Longrightarrow> fs_cache g = snd (cache_get s t (fs_cache f)) \<and> fs_inFlight g = fs_inFlight f \<and>
      fs_shutdown g = fs_shutdown f \<and> fs_stats g = fs_stats f \<and>
      (\<exists>b. fst (cache_get s t (fs_cache f)) = Some b \<and>
        fs_results g = fs_results f @ [(c, s, return \<lparr>fr_data = b, fr_source = FromCache\<rparr>)])"
  using assms by (auto simp: serve_cached_def Let_def split: prod.splits option.splits)

lemma peer_reply_body:
  "peer_reply opts s acc reply stats = (Inr b, stats') \<Longrightarrow> fo_verify opts s b"
  by (auto simp: peer_reply_def split: reply.splits if_splits)

lemma origin_answer_body:
  "origin_answer opts sch s t reply f = (Inr b, f') \<Longrightarrow> fo_verify opts s b"
  by (auto simp: origin_answer_def origin_reply_def split: reply.splits if_splits prod.splits)

lemmas phase_defs = hedge_attempt_failed_def hedge_origin_start_def start_peer_def start_origin_def start_hedge_def
  join_request_def

section \<open>Moves\<close>

text \<open>
  Every event is one of a few moves on the cache, the requests in flight, the settled promises and
  the peer counters. A move is labelled with the consumers it introduces.
\<close>

primrec adds :: "nat \<Rightarrow> number \<Rightarrow> number" where
  "adds 0 x = x"
| "adds (Suc n) x = adds n x + 1"

definition counts :: "nat \<Rightarrow> nat \<Rightarrow> nat \<Rightarrow> PeerTrafficStats \<Rightarrow> PeerTrafficStats \<Rightarrow> bool" where
  "counts a b c s s' \<longleftrightarrow> p2pRequests s' = adds a (p2pRequests s) \<and>
     p2pSuccesses s' = adds b (p2pSuccesses s) \<and> p2pFailures s' = adds c (p2pFailures s)"

definition cache_move :: "FetcherOptions \<Rightarrow> SegmentCache \<Rightarrow> SegmentCache \<Rightarrow> bool" where
  "cache_move opts c c' \<longleftrightarrow>
     (peer_store.holds (fo_verify opts) c \<longrightarrow> peer_store.holds (fo_verify opts) c')"

definition verified_result :: "FetcherOptions \<Rightarrow> nat \<times> string \<times> (fetch_error, SegmentFetchResult) result \<Rightarrow> bool" where
  "verified_result opts x = (case x of (c, s, Inl e) \<Rightarrow> True | (c, s, Inr res) \<Rightarrow> fo_verify opts s (fr_data res))"

text \<open>A peer attempt of the request has started and neither succeeded nor failed.\<close>

definition pending :: "InFlightSegment \<Rightarrow> nat" where
  "pending r = (case if_phase r of AtPeer p t x \<Rightarrow> 1 | Hedging h \<Rightarrow> if hd_peerPending h then 1 else 0 | _ \<Rightarrow> 0)"

fun origin_error :: "fetch_error \<Rightarrow> bool" where
  "origin_error OriginRejected = True"
| "origin_error (OriginHttp n) = True"
| "origin_error OriginIntegrity = True"
| "origin_error _ = False"

fun request_error :: "fetch_error \<Rightarrow> bool" where
  "request_error Aborted = True"
| "request_error (BothFailed es) = list_ex origin_error es"
| "request_error e = origin_error e"

definition phase_ok :: "phase \<Rightarrow> bool" where
  "phase_ok p = (case p of Hedging h \<Rightarrow>
      (hd_peerPending h \<or> hd_origin h \<notin> {OriginWaiting, OriginSettled}) \<and>
      (if hd_origin h = OriginSettled then list_ex origin_error (hd_failures h) else True)
    | _ \<Rightarrow> True)"

inductive move :: "FetcherOptions \<Rightarrow> 's HybridSegmentFetcher \<Rightarrow> nat list \<Rightarrow> 's HybridSegmentFetcher \<Rightarrow> bool"
  for opts :: FetcherOptions where
  quiet: "\<lbrakk>fs_results f' = fs_results f; fs_inFlight f' = fs_inFlight f;
    cache_move opts (fs_cache f) (fs_cache f'); counts 0 0 0 (fs_stats f) (fs_stats f')\<rbrakk> \<Longrightarrow> move opts f [] f'"
| answer: "\<lbrakk>fs_results f' = fs_results f @ [(c, s, x)]; fs_inFlight f' = fs_inFlight f;
    peer_store.holds (fo_verify opts) (fs_cache f) \<Longrightarrow> verified_result opts (c, s, x); \<And>e. x = Inl e \<Longrightarrow> e = Aborted;
    cache_move opts (fs_cache f) (fs_cache f'); counts 0 0 0 (fs_stats f) (fs_stats f')\<rbrakk> \<Longrightarrow> move opts f [c] f'"
| start: "\<lbrakk>fs_results f' = fs_results f; map_get (fs_inFlight f) s = None;
    fs_inFlight f' = map_set (fs_inFlight f) s r; map fst (if_consumers r) = [c]; phase_ok (if_phase r);
    cache_move opts (fs_cache f) (fs_cache f'); counts (pending r) 0 0 (fs_stats f) (fs_stats f')\<rbrakk> \<Longrightarrow> move opts f [c] f'"
| join: "\<lbrakk>fs_results f' = fs_results f; map_get (fs_inFlight f) s = Some r;
    fs_inFlight f' = map_set (fs_inFlight f) s (r\<lparr>if_consumers := if_consumers r @ [(c, b)]\<rparr>);
    cache_move opts (fs_cache f) (fs_cache f'); counts 0 0 0 (fs_stats f) (fs_stats f')\<rbrakk> \<Longrightarrow> move opts f [c] f'"
| progress: "\<lbrakk>fs_results f' = fs_results f; map_get (fs_inFlight f) s = Some r;
    fs_inFlight f' = map_set (fs_inFlight f) s r'; if_consumers r' = if_consumers r;
    phase_ok (if_phase r) \<Longrightarrow> phase_ok (if_phase r');
    cache_move opts (fs_cache f) (fs_cache f'); counts a b c (fs_stats f) (fs_stats f');
    pending r' + b + c \<le> pending r + a; a \<le> 1\<rbrakk> \<Longrightarrow> move opts f [] f'"
| settle: "\<lbrakk>map_get (fs_inFlight f) s = Some r; fs_inFlight f' = map_delete (fs_inFlight f) s;
    fs_results f' = fs_results f @ map (\<lambda>(c, _). (c, s, x)) (if_consumers r);
    \<And>res. x = Inr res \<Longrightarrow> fo_verify opts s (fr_data res);
    \<And>e. phase_ok (if_phase r) \<Longrightarrow> x = Inl e \<Longrightarrow> request_error e;
    cache_move opts (fs_cache f) (fs_cache f'); counts 0 b c (fs_stats f) (fs_stats f');
    b + c \<le> pending r\<rbrakk> \<Longrightarrow> move opts f [] f'"
| abort: "\<lbrakk>map_get (fs_inFlight f) s = Some r; c \<in> fst ` set (if_consumers r);
    fs_inFlight f' = map_set (fs_inFlight f) s r'; if_phase r' = if_phase r;
    if_consumers r' = filter (\<lambda>(i, _). i \<noteq> c) (if_consumers r);
    fs_results f' = fs_results f @ [(c, s, throw Aborted)];
    cache_move opts (fs_cache f) (fs_cache f'); counts 0 0 0 (fs_stats f) (fs_stats f')\<rbrakk> \<Longrightarrow> move opts f [] f'"
| stop: "\<lbrakk>fs_inFlight f' = map (\<lambda>(s, r). (s, r\<lparr>if_consumers := [], if_aborted := True\<rparr>)) (fs_inFlight f);
    fs_results f' = fs_results f @
      concat (map (\<lambda>(s, r). map (\<lambda>(c, _). (c, s, throw Aborted)) (if_consumers r)) (fs_inFlight f));
    cache_move opts (fs_cache f) (fs_cache f'); counts 0 0 0 (fs_stats f) (fs_stats f')\<rbrakk> \<Longrightarrow> move opts f [] f'"

section \<open>Events are moves\<close>

lemmas stat_defs = recordP2PRequest_def recordP2PSuccess_def recordP2PFailure_def recordOriginRequest_def
  recordOriginBytes_def recordIntegrityFailure_def recordFallback_def setSegmentsCached_def

lemma counts_refl [simp]: "counts 0 0 0 s s"
  by (simp add: counts_def)

lemma cache_move_refl [simp]: "cache_move opts c c"
  by (simp add: cache_move_def)

lemma fetcher_cache_stats [simp]:
  "p2pRequests (fs_stats (fetcher_cache s b t f)) = p2pRequests (fs_stats f)"
  "p2pSuccesses (fs_stats (fetcher_cache s b t f)) = p2pSuccesses (fs_stats f)"
  "p2pFailures (fs_stats (fetcher_cache s b t f)) = p2pFailures (fs_stats f)"
  by (simp_all add: fetcher_cache_def setSegmentsCached_def split: prod.split)

lemma cache_move_store:
  assumes "fo_verify opts s b"
  shows "cache_move opts (fs_cache f) (fs_cache (fetcher_cache s b t f))"
  using assms by (auto simp: cache_move_def fetcher_cache_def split: prod.split
      intro: peer_store.put_holds peer_store.count_holds)

lemma cache_move_get: "cache_move opts c (snd (cache_get s t c))"
  by (cases "cache_get s t c") (auto simp: cache_move_def intro: peer_store.get_holds)

lemma peer_reply_counts:
  assumes "peer_reply opts s acc reply stats = (x, stats')"
  shows "counts 0 (case x of Inl e \<Rightarrow> 0 | Inr b \<Rightarrow> of_bool acc) 0 stats stats'"
    and "p2pRequests stats' = p2pRequests stats" "p2pFailures stats' = p2pFailures stats"
    and "p2pSuccesses stats' = adds (case x of Inl e \<Rightarrow> 0 | Inr b \<Rightarrow> of_bool acc) (p2pSuccesses stats)"
  using assms by (auto simp: peer_reply_def counts_def stat_defs split: reply.splits if_splits)

lemma origin_answer_counts:
  assumes "origin_answer opts sch s t reply f = (x, f')"
  shows "p2pRequests (fs_stats f') = p2pRequests (fs_stats f)" "p2pSuccesses (fs_stats f') = p2pSuccesses (fs_stats f)"
    "p2pFailures (fs_stats f') = p2pFailures (fs_stats f)" "x = Inl e \<Longrightarrow> origin_error e"
  using assms by (auto simp: origin_answer_def origin_reply_def stat_defs split: prod.splits reply.splits if_splits)

text \<open>The two ends of a request.\<close>

lemma move_succeed:
  assumes "map_get (fs_inFlight f) s = Some r" "fs_inFlight f' = fs_inFlight f" "fs_results f' = fs_results f"
    "fs_cache f' = fs_cache f" "fo_verify opts s b" "counts 0 m 0 (fs_stats f) (fs_stats f')" "m \<le> pending r"
  shows "move opts f [] (succeed opts sch s r b d h t f')"
proof (rule move.settle[OF assms(1), where b = m and c = 0])
  show "cache_move opts (fs_cache f) (fs_cache (succeed opts sch s r b d h t f'))"
    using cache_move_store[OF assms(5), of f' t] assms(4) by simp
qed (use assms in \<open>auto simp: counts_def\<close>)

lemma move_fail:
  assumes "map_get (fs_inFlight f) s = Some r" "fs_inFlight f' = fs_inFlight f" "fs_results f' = fs_results f"
    "fs_cache f' = fs_cache f" "phase_ok (if_phase r) \<Longrightarrow> request_error e" "counts 0 0 m (fs_stats f) (fs_stats f')"
    "m \<le> pending r"
  shows "move opts f [] (fail_request opts sch s r e h f')"
  by (rule move.settle[OF assms(1), where b = 0 and c = m]) (use assms in auto)

lemma move_progress:
  assumes "map_get (fs_inFlight f) s = Some r" "fs_inFlight f' = fs_inFlight f" "fs_results f' = fs_results f"
    "fs_cache f' = fs_cache f" "if_consumers r' = if_consumers r" "phase_ok (if_phase r) \<Longrightarrow> phase_ok (if_phase r')"
    "counts a 0 c (fs_stats f) (fs_stats f')" "pending r' + c \<le> pending r + a" "a \<le> 1"
  shows "move opts f [] (put_request s r' f')"
  by (rule move.progress[OF _ assms(1), where r' = r' and a = a and b = 0 and c = c]) (use assms in auto)

lemma move_same: "move opts f [] f"
  by (rule move.quiet) simp_all

lemma move_fetchSegment: "move opts f [c] (fetchSegment s ahead c ab t f)"
proof (cases ab)
  case True
  then show ?thesis by (intro move.answer) (auto simp: fetchSegment_def verified_result_def)
next
  case False
  obtain hit f' where h: "serve_cached s c t f = (hit, f')" by fastforce
  note H = serve_cached_fields[OF h]
  show ?thesis
  proof (cases hit)
    case (Some g)
    from H(6)[OF this] obtain b where g: "fst (cache_get s t (fs_cache f)) = Some b"
      "fs_results g = fs_results f @ [(c, s, return \<lparr>fr_data = b, fr_source = FromCache\<rparr>)]" by auto
    have "fo_verify opts s b" if "peer_store.holds (fo_verify opts) (fs_cache f)"
      using peer_store.get_hit[OF that] g(1) by (metis prod.collapse)
    with H(6)[OF Some] g False show ?thesis
      by (intro move.answer[of _ _ c s "return \<lparr>fr_data = b, fr_source = FromCache\<rparr>"])
        (auto simp: fetchSegment_def h Some verified_result_def cache_move_get)
  next
    case None
    show ?thesis
    proof (cases "map_get (fs_inFlight f) s")
      case (Some r)
      with H(1-5) False None show ?thesis
        by (intro move.join[of _ _ s r c True]) (simp_all add: fetchSegment_def h join_request_def cache_move_get)
    next
      case fresh: None
      with H(1-5) False None show ?thesis
        by (intro move.start[of _ _ s "new_request (Some ahead) False (c, False)"])
          (simp_all add: fetchSegment_def h new_request_def phase_ok_def pending_def cache_move_get)
    qed
  qed
qed

lemma answer_cached:
  assumes h: "serve_cached s c t f = (Some g, f')"
  shows "move opts f [c] g"
proof -
  from serve_cached_fields(6)[OF h refl] obtain b where g: "fst (cache_get s t (fs_cache f)) = Some b"
    "fs_results g = fs_results f @ [(c, s, return \<lparr>fr_data = b, fr_source = FromCache\<rparr>)]" by auto
  have "fo_verify opts s b" if "peer_store.holds (fo_verify opts) (fs_cache f)"
    using peer_store.get_hit[OF that] g(1) by (metis prod.collapse)
  with serve_cached_fields(6)[OF h refl] g show ?thesis
    by (intro move.answer[of _ _ c s "return \<lparr>fr_data = b, fr_source = FromCache\<rparr>"])
      (auto simp: verified_result_def cache_move_get)
qed

lemma move_batch_task: "move opts f [c] (batch_task opts s peer c t f)"
proof -
  obtain hit f' where h: "serve_cached s c (fst t) f = (hit, f')" by fastforce
  note H = serve_cached_fields(1-5)[OF h]
  show ?thesis
  proof (cases hit)
    case (Some g)
    with answer_cached[of s c "fst t" f g f'] h show ?thesis by (simp add: batch_task_def)
  next
    case None
    show ?thesis
    proof (cases "map_get (fs_inFlight f) s")
      case (Some r)
      with H None show ?thesis
        by (intro move.join[of _ _ s r c True]) (simp_all add: batch_task_def h join_request_def cache_move_get)
    next
      case fresh: None
      show ?thesis
      proof (cases peer)
        case None
        with H \<open>hit = None\<close> fresh show ?thesis
          by (intro move.start[of _ _ s "(new_request None True (c, True))\<lparr>if_phase := AtOrigin (snd t)\<rparr>"])
            (simp_all add: batch_task_def h new_request_def phase_ok_def pending_def cache_move_get start_origin_def
              counts_def stat_defs)
      next
        case (Some p)
        with H \<open>hit = None\<close> fresh show ?thesis
          by (intro move.start[of _ _ s "(new_request None True (c, True))
              \<lparr>if_phase := AtPeer p (snd t) (attempt_timeout opts None)\<rparr>"])
            (simp_all add: batch_task_def h new_request_def phase_ok_def pending_def cache_move_get start_peer_def
              counts_def stat_defs)
      qed
    qed
  qed
qed

lemma start_peer_move:
  assumes "map_get (fs_inFlight f) s = Some r" "if_consumers r' = if_consumers r" "fs_inFlight f' = fs_inFlight f"
    "fs_results f' = fs_results f" "fs_cache f' = fs_cache f" "fs_stats f' = fs_stats f"
  shows "move opts f [] (start_peer opts s r' peer time f')"
  unfolding start_peer_def
  by (rule move_progress[OF assms(1), where a = 1 and c = 0])
    (use assms in \<open>simp_all add: counts_def stat_defs phase_ok_def pending_def\<close>)

lemma start_origin_move:
  assumes "map_get (fs_inFlight f) s = Some r" "if_consumers r' = if_consumers r" "fs_inFlight f' = fs_inFlight f"
    "fs_results f' = fs_results f" "fs_cache f' = fs_cache f" "counts 0 0 m (fs_stats f) (fs_stats f')" "m \<le> pending r"
  shows "move opts f [] (start_origin s r' time f')"
  unfolding start_origin_def
  by (rule move_progress[OF assms(1), where a = 0 and c = m])
    (use assms in \<open>simp_all add: counts_def stat_defs phase_ok_def pending_def\<close>)

lemma start_hedge_move:
  assumes "map_get (fs_inFlight f) s = Some r" "if_consumers r' = if_consumers r" "fs_inFlight f' = fs_inFlight f"
    "fs_results f' = fs_results f" "fs_cache f' = fs_cache f" "fs_stats f' = fs_stats f"
  shows "move opts f [] (start_hedge opts s r' peer hints time f')"
  unfolding start_hedge_def
  by (rule move_progress[OF assms(1), where a = 1 and c = 0])
    (use assms in \<open>simp_all add: counts_def stat_defs phase_ok_def pending_def\<close>)

lemma move_peers_listed: "move opts f [] (peers_listed opts sch s listed t f)"
proof (cases "map_get (fs_inFlight f) s")
  case None
  then show ?thesis by (simp add: peers_listed_def move_same)
next
  case (Some r)
  show ?thesis
  proof (cases "if_phase r = Discovering")
    case False
    with Some show ?thesis by (simp add: peers_listed_def move_same)
  next
    case True
    show ?thesis
    proof (cases listed)
      case None
      with Some True show ?thesis
        by (auto simp: peers_listed_def counts_def stat_defs intro!: start_origin_move[where m = 0])
    next
      case l: (Some candidates)
      obtain peers plan f' where p: "planPeers opts sch candidates s (if_ahead r) f = ((peers, plan), f')"
        by (metis prod.collapse)
      note P = planPeers_fields[OF p]
      show ?thesis
        using Some True l P
        by (auto simp: peers_listed_def p Let_def split: list.split option.split
            intro!: start_peer_move start_hedge_move start_origin_move[where m = 0])
    qed
  qed
qed

lemma move_attempt_failed:
  assumes "map_get (fs_inFlight f) s = Some r" "fs_inFlight f' = fs_inFlight f" "fs_results f' = fs_results f"
    "fs_cache f' = fs_cache f" "counts 0 0 m (fs_stats f) (fs_stats f')"
    "(if hd_peerPending h then 1 else 0) + m \<le> pending r"
    "phase_ok (if_phase r) \<Longrightarrow> if hd_origin h = OriginSettled then list_ex origin_error (hd_failures h) else True"
  shows "move opts f [] (hedge_attempt_failed opts sch s r h time f')"
proof -
  consider (both) "\<not> hd_peerPending h" "hd_origin h = OriginSettled"
    | (waits) "\<not> hd_peerPending h" "hd_origin h = OriginWaiting"
    | (wait) "hd_peerPending h \<or> hd_origin h \<notin> {OriginWaiting, OriginSettled}" by auto
  then show ?thesis
  proof cases
    case both
    then show ?thesis unfolding hedge_attempt_failed_def
      by simp (rule move_fail[OF assms(1), where m = m], use assms both in auto)
  next
    case waits
    then show ?thesis unfolding hedge_attempt_failed_def hedge_origin_start_def
      by simp (rule move_progress[OF assms(1), where a = 0 and c = m],
        use assms waits in \<open>auto simp: counts_def stat_defs phase_ok_def pending_def\<close>)
  next
    case wait
    have "hedge_attempt_failed opts sch s r h time f' = put_request s (r\<lparr>if_phase := Hedging h\<rparr>) f'"
      using wait by (auto simp: hedge_attempt_failed_def)
    then show ?thesis
      by simp (rule move_progress[OF assms(1), where a = 0 and c = m],
        use assms wait in \<open>auto simp: phase_ok_def pending_def\<close>)
  qed
qed

lemma move_hedge_peer:
  assumes r: "map_get (fs_inFlight f) s = Some r" "if_phase r = Hedging h"
  shows "move opts f [] (hedge_peer_replied opts sch s r h reply t f)"
proof (cases "hd_peerPending h")
  case False
  then show ?thesis by (simp add: hedge_peer_replied_def move_same)
next
  case True
  then have pend: "pending r = 1" by (simp add: pending_def r)
  obtain x stats where pr: "peer_reply opts s False reply (fs_stats f) = (x, stats)" by fastforce
  note C = peer_reply_counts[OF pr]
  show ?thesis
  proof (cases "stopped r f")
    case stop: True
    have "move opts f [] (fail_request opts sch s r Aborted (hd_started h) (f\<lparr>fs_stats := stats\<rparr>))"
      by (rule move_fail[OF r(1), where m = 0]) (use C in \<open>auto split: sum.splits\<close>)
    with stop True show ?thesis by (simp add: hedge_peer_replied_def pr)
  next
    case go: False
    show ?thesis
    proof (cases x)
      case (Inl reason)
      have "move opts f [] (hedge_attempt_failed opts sch s r
          (h\<lparr>hd_peerPending := False, hd_failures := hd_failures h @ [PeerFailed reason]\<rparr>) (snd t)
          (recordPeerFailure sch (hd_peer h) reason (snd t - hd_startedAt h) (f\<lparr>fs_stats := stats\<rparr>)))"
        by (rule move_attempt_failed[OF r(1), where m = 1])
          (use C Inl in \<open>auto simp: counts_def stat_defs pend phase_ok_def r(2) split: if_splits\<close>)
      with go True Inl show ?thesis by (simp add: hedge_peer_replied_def pr)
    next
      case (Inr b)
      have "fo_verify opts s b" using pr Inr by (auto intro: peer_reply_body)
      then have "move opts f [] (succeed opts sch s r b FromP2P (hd_started h) (fst t)
          (with_stats (recordP2PSuccess (nat_number (length b)))
            (observe_success sch (hd_peer h) (snd t - hd_startedAt h) b (f\<lparr>fs_stats := stats\<rparr>))))"
        by (intro move_succeed[OF r(1), where m = 1]) (use C Inr in \<open>auto simp: counts_def stat_defs pend\<close>)
      with go True Inr show ?thesis by (simp add: hedge_peer_replied_def pr)
    qed
  qed
qed

lemma move_hedge_origin:
  assumes r: "map_get (fs_inFlight f) s = Some r" "if_phase r = Hedging h"
  shows "move opts f [] (hedge_origin_replied opts sch s r h reply t f)"
proof (cases "hd_origin h")
  case OriginSettled
  then show ?thesis by (simp add: hedge_origin_replied_def move_same)
next
  case OriginWaiting
  have "move opts f [] (fail_request opts sch s r Aborted (hd_started h) f)"
    by (rule move_fail[OF r(1), where m = 0]) auto
  with OriginWaiting show ?thesis by (simp add: hedge_origin_replied_def move_same)
next
  case (OriginRequested started)
  obtain x f1 where oa: "origin_answer opts sch s (snd t - started) reply f = (x, f1)" by fastforce
  note F = origin_answer_fields[OF oa]
  note C = origin_answer_counts[OF oa]
  have same: "counts 0 0 0 (fs_stats f) (fs_stats f1)" using C by (simp add: counts_def)
  show ?thesis
  proof (cases "stopped r f")
    case True
    have "move opts f [] (fail_request opts sch s r Aborted (hd_started h) f1)"
      by (rule move_fail[OF r(1), where m = 0]) (use F same in auto)
    with True OriginRequested show ?thesis by (simp add: hedge_origin_replied_def oa)
  next
    case go: False
    show ?thesis
    proof (cases x)
      case (Inl e)
      have "move opts f [] (hedge_attempt_failed opts sch s r
          (h\<lparr>hd_origin := OriginSettled, hd_failures := hd_failures h @ [e]\<rparr>) (snd t) f1)"
        by (rule move_attempt_failed[OF r(1), where m = 0])
          (use F same C(4)[of e] Inl in \<open>auto simp: pending_def r(2)\<close>)
      with go OriginRequested Inl show ?thesis by (simp add: hedge_origin_replied_def oa)
    next
      case (Inr b)
      have "fo_verify opts s b" using oa Inr by (auto intro: origin_answer_body)
      then have "move opts f [] (succeed opts sch s r b FromOrigin (hd_started h) (fst t)
          (with_stats (recordOriginBytes (nat_number (length b))) f1))"
        by (intro move_succeed[OF r(1), where m = 0]) (use F C in \<open>auto simp: counts_def stat_defs\<close>)
      with go OriginRequested Inr show ?thesis by (simp add: hedge_origin_replied_def oa)
    qed
  qed
qed

lemma move_hedge_timer: "move opts f [] (hedge_timer s time f)"
proof -
  have "move opts f [] (hedge_origin_start s r h time f)"
    if "map_get (fs_inFlight f) s = Some r" "if_phase r = Hedging h" for r h
    unfolding hedge_origin_start_def
    by (rule move_progress[OF that(1), where a = 0 and c = 0])
      (use that in \<open>auto simp: counts_def stat_defs phase_ok_def pending_def\<close>)
  then show ?thesis by (auto simp: hedge_timer_def move_same split: option.split phase.split)
qed

lemma move_peer_replied: "move opts f [] (peer_replied opts sch s reply t f)"
proof (cases "map_get (fs_inFlight f) s")
  case None
  then show ?thesis by (simp add: peer_replied_def move_same)
next
  case r: (Some r)
  show ?thesis
  proof (cases "if_phase r")
    case (AtPeer peer started limit)
    obtain x stats where pr: "peer_reply opts s True reply (fs_stats f) = (x, stats)" by fastforce
    note C = peer_reply_counts[OF pr]
    have pend: "pending r = 1" by (simp add: pending_def AtPeer)
    show ?thesis
    proof (cases x)
      case (Inr b)
      have "fo_verify opts s b" using pr Inr by (auto intro: peer_reply_body)
      then have "move opts f [] (succeed opts sch s r b FromP2P False (fst t)
          (observe_success sch peer (snd t - started) b (f\<lparr>fs_stats := stats\<rparr>)))"
        by (intro move_succeed[OF r, where m = 1]) (use C Inr in \<open>auto simp: pend\<close>)
      then show ?thesis by (simp add: peer_replied_def r AtPeer pr Inr)
    next
      case (Inl reason)
      have "move opts f [] (fail_request opts sch s r Aborted False (f\<lparr>fs_stats := stats\<rparr>))"
        by (rule move_fail[OF r, where m = 0]) (use C Inl in auto)
      moreover have "move opts f [] (start_origin s r (snd t)
          (recordPeerFailure sch peer reason (snd t - started) (f\<lparr>fs_stats := stats\<rparr>)))"
        by (rule start_origin_move[OF r, where m = 1]) (use C Inl in \<open>auto simp: counts_def stat_defs pend\<close>)
      ultimately show ?thesis by (simp add: peer_replied_def r AtPeer pr Inl Let_def)
    qed
  qed (use move_hedge_peer[OF r, of _ opts sch reply t] in \<open>auto simp: peer_replied_def r move_same\<close>)
qed

lemma move_origin_replied: "move opts f [] (origin_replied opts sch s reply t f)"
proof (cases "map_get (fs_inFlight f) s")
  case None
  then show ?thesis by (simp add: origin_replied_def move_same)
next
  case r: (Some r)
  show ?thesis
  proof (cases "if_phase r")
    case (AtOrigin started)
    obtain x f1 where oa: "origin_answer opts sch s (snd t - started) reply f = (x, f1)" by fastforce
    note F = origin_answer_fields[OF oa] and C = origin_answer_counts[OF oa]
    show ?thesis
    proof (cases x)
      case (Inl e)
      then have "request_error e" using C(4)[OF Inl] by (cases e) auto
      then have "move opts f [] (fail_request opts sch s r e False f1)"
        by (intro move_fail[OF r, where m = 0]) (use F C in \<open>auto simp: counts_def\<close>)
      then show ?thesis by (simp add: origin_replied_def r AtOrigin oa Inl)
    next
      case (Inr b)
      have "fo_verify opts s b" using oa Inr by (auto intro: origin_answer_body)
      then have "move opts f [] (succeed opts sch s r b FromOrigin False (fst t)
          (with_stats (recordOriginBytes (nat_number (length b))) f1))"
        by (intro move_succeed[OF r, where m = 0]) (use F C in \<open>auto simp: counts_def stat_defs\<close>)
      then show ?thesis by (simp add: origin_replied_def r AtOrigin oa Inr)
    qed
  qed (use move_hedge_origin[OF r, of _ opts sch reply t] in \<open>auto simp: origin_replied_def r move_same\<close>)
qed

lemma move_consumer_abort: "move opts f [] (consumer_abort s c f)"
proof (cases "map_get (fs_inFlight f) s")
  case None
  then show ?thesis by (simp add: consumer_abort_def move_same)
next
  case (Some r)
  show ?thesis
  proof (cases "c \<in> fst ` set (if_consumers r)")
    case True
    let ?r = "r\<lparr>if_consumers := filter (\<lambda>(i, _). i \<noteq> c) (if_consumers r),
      if_aborted := if_aborted r \<or> filter (\<lambda>(i, _). i \<noteq> c) (if_consumers r) = []\<rparr>"
    from True Some show ?thesis
      by (intro move.abort[OF Some True, where r' = ?r]) (simp_all add: consumer_abort_def Let_def)
  qed (simp add: consumer_abort_def Some move_same)
qed

lemma map_set_middle: "s \<notin> set (map_keys before) \<Longrightarrow> map_set (before @ (s, r) # m) s r' = before @ (s, r') # m"
  by (induction before) auto

lemma fold_stop:
  assumes "fs_inFlight f = before @ m" "wf_map (before @ m)"
  shows "fs_inFlight (fold stop_request m f) =
      before @ map (\<lambda>(s, r). (s, r\<lparr>if_consumers := [], if_aborted := True\<rparr>)) m \<and>
    fs_results (fold stop_request m f) = fs_results f @
      concat (map (\<lambda>(s, r). map (\<lambda>(c, _). (c, s, throw Aborted)) (if_consumers r)) m) \<and>
    fs_cache (fold stop_request m f) = fs_cache f \<and> fs_stats (fold stop_request m f) = fs_stats f"
  using assms
proof (induction m arbitrary: f before)
  case (Cons e m)
  obtain s r where e: "e = (s, r)" by (cases e)
  let ?r = "r\<lparr>if_consumers := [], if_aborted := True\<rparr>"
  have "s \<notin> set (map_keys before)" using Cons.prems(2) by (auto simp: e wf_map_def)
  then have "fs_inFlight (stop_request e f) = (before @ [(s, ?r)]) @ m"
    using Cons.prems(1) map_set_middle[where s = s and before = before and r = r and m = m and r' = ?r] by (simp add: stop_request_def e)
  moreover have "wf_map ((before @ [(s, ?r)]) @ m)" using Cons.prems(2) by (simp add: wf_map_def e)
  ultimately show ?case using Cons.IH[of "stop_request e f" "before @ [(s, ?r)]"] by (simp add: stop_request_def e)
qed simp

lemma move_stop: "wf_map (fs_inFlight f) \<Longrightarrow> move opts f [] (stop_fetcher sch f)"
proof (cases "fs_shutdown f")
  case False
  assume "wf_map (fs_inFlight f)"
  with fold_stop[of "f\<lparr>fs_shutdown := True\<rparr>" "[]" "fs_inFlight f"] False show ?thesis
    by (intro move.stop) (simp_all add: stop_fetcher_def Let_def)
qed (simp add: stop_fetcher_def move_same)

fun introduced :: "event \<Rightarrow> nat list" where
  "introduced (Call s ahead c ab) = [c]"
| "introduced (BatchTask s p c) = [c]"
| "introduced _ = []"

lemma step_moves: "wf_map (fs_inFlight f) \<Longrightarrow> move opts f (introduced (fst e)) (fetcher_step opts sch e f)"
  by (cases "(opts, sch, e, f)" rule: fetcher_step.cases)
    (auto intro: move_fetchSegment move_batch_task move_peers_listed move_peer_replied move_origin_replied
      move_hedge_timer move_consumer_abort move_stop)

lemma wf_stop: "wf_map m \<Longrightarrow> wf_map (map (\<lambda>(s, r). (s, g r)) m)"
  by (simp add: wf_map_def case_prod_beta comp_def)

lemma move_wf: "move opts f cs f' \<Longrightarrow> wf_map (fs_inFlight f) \<Longrightarrow> wf_map (fs_inFlight f')"
  by (induction rule: move.induct) (auto simp: wf_stop)

text \<open>An invariant of the moves holds after every run.\<close>

lemma run_invariant:
  assumes "\<And>f cs f'. move opts f cs f' \<Longrightarrow> wf_map (fs_inFlight f) \<Longrightarrow> P f \<Longrightarrow> P f'"
    "wf_map (fs_inFlight f)" "P f"
  shows "P (run_fetcher opts sch events f)"
  using assms(2,3)
proof (induction events arbitrary: f)
  case (Cons e events)
  have "move opts f (introduced (fst e)) (fetcher_step opts sch e f)" by (rule step_moves[OF Cons.prems(1)])
  from move_wf[OF this] this Cons.IH[of "fetcher_step opts sch e f"] Cons.prems assms(1) show ?case
    by (simp add: run_fetcher_def)
qed (simp add: run_fetcher_def)

section \<open>Verified delivery\<close>

definition verified :: "FetcherOptions \<Rightarrow> 's HybridSegmentFetcher \<Rightarrow> bool" where
  "verified opts f \<longleftrightarrow> peer_store.holds (fo_verify opts) (fs_cache f) \<and> list_all (verified_result opts) (fs_results f)"

lemma move_verified: "move opts f cs f' \<Longrightarrow> verified opts f \<Longrightarrow> verified opts f'"
proof (induction rule: move.induct)
  case (settle f s r f' x b c)
  then show ?case by (cases x) (auto simp: verified_def cache_move_def verified_result_def list_all_iff)
qed (auto simp: verified_def cache_move_def verified_result_def list_all_iff)

text \<open>A new fetcher over an empty cache.\<close>

definition fresh_fetcher :: "FetcherOptions \<Rightarrow> 's HybridSegmentFetcher \<Rightarrow> bool" where
  "fresh_fetcher opts f \<longleftrightarrow> cache_ok (fs_cache f) \<and> sc_entries (fs_cache f) = [] \<and>
     new_fetcher opts (fs_cache f) createEmptyPeerTrafficStats (fs_scheduler f) = Inr f"

lemma fresh_fields:
  assumes "fresh_fetcher opts f"
  shows "fs_inFlight f = []" "fs_results f = []" "fs_stats f = createEmptyPeerTrafficStats"
    "fs_outcomes f = []" "fs_shutdown f = False" "peer_store.holds V (fs_cache f)"
proof -
  obtain cache s where c: "new_fetcher opts cache createEmptyPeerTrafficStats s = Inr f"
    using assms by (auto simp: fresh_fetcher_def)
  then show "fs_inFlight f = []" "fs_results f = []" "fs_stats f = createEmptyPeerTrafficStats"
    "fs_outcomes f = []" "fs_shutdown f = False"
    by (auto simp: new_fetcher_def split: if_splits)
  show "peer_store.holds V (fs_cache f)"
    using assms by (simp add: fresh_fetcher_def peer_store.holds_def cache_contents_def)
qed

text \<open>C2: Only verified bytes are delivered: whatever peers, the Origin and the tracker answer, in any
  interleaving of requests, timers, aborts and evictions, every segment handed to a consumer,
  also one served from the cache, passed the integrity check under its name.\<close>

theorem delivered_bytes_verified:
  assumes "fresh_fetcher opts f"
  shows "list_all (\<lambda>(c, s, result). case result of Inl e \<Rightarrow> True | Inr res \<Rightarrow> fo_verify opts s (fr_data res))
    (fs_results (run_fetcher opts sch events f))"
proof -
  have "verified opts f" using fresh_fields[OF assms] by (simp add: verified_def)
  moreover have "wf_map (fs_inFlight f)" using fresh_fields[OF assms] by simp
  ultimately have "verified opts (run_fetcher opts sch events f)"
    by (intro run_invariant[of opts "verified opts"]) (auto intro: move_verified)
  then show ?thesis by (auto simp: verified_def verified_result_def list_all_iff)
qed

section \<open>Every consumer is settled once\<close>

definition waiting :: "'s HybridSegmentFetcher \<Rightarrow> nat list" where
  "waiting f = concat (map (\<lambda>(s, r). map fst (if_consumers r)) (fs_inFlight f))"

text \<open>Replacing, adding and removing one entry, for anything added up over the entries.\<close>

lemma replace_entry:
  fixes g :: "'v \<Rightarrow> 'b :: comm_monoid_add"
  assumes "wf_map m" "map_get m s = Some r"
  shows "sum_list (map (\<lambda>x. g (snd x)) (map_set m s r')) + g r = sum_list (map (\<lambda>x. g (snd x)) m) + g r'"
    and "sum_list (map (\<lambda>x. g (snd x)) (map_delete m s)) + g r = sum_list (map (\<lambda>x. g (snd x)) m)"
proof -
  obtain before after where m: "m = before @ (s, r) # after" "map_delete m s = before @ after"
    using map_split[OF assms] .
  then have "s \<notin> set (map_keys before)" using assms(1) by (auto simp: wf_map_def)
  then have "map_set m s r' = before @ (s, r') # after" by (simp add: m(1) map_set_middle)
  then show "sum_list (map (\<lambda>x. g (snd x)) (map_set m s r')) + g r = sum_list (map (\<lambda>x. g (snd x)) m) + g r'"
    and "sum_list (map (\<lambda>x. g (snd x)) (map_delete m s)) + g r = sum_list (map (\<lambda>x. g (snd x)) m)"
    using m by (simp_all add: ac_simps)
qed

lemma add_entry: "map_get m s = None \<Longrightarrow> map_set m s r = m @ [(s, r)]"
  by (rule set_fresh) (simp add: map_of_eq_None_iff)

definition ids :: "InFlightSegment \<Rightarrow> nat multiset" where
  "ids r = mset (map fst (if_consumers r))"

lemma mset_waiting: "mset (waiting f) = sum_list (map (\<lambda>x. ids (snd x)) (fs_inFlight f))"
  unfolding waiting_def by (induction "fs_inFlight f" arbitrary: f rule: list.induct)
    (simp_all add: ids_def case_prod_beta mset_concat comp_def)

lemma settled_ids: "map fst (map (\<lambda>(c, _). (c, s, x)) cs) = map fst cs"
  by (induction cs) auto

lemma stop_ids: "mset (map fst (concat (map (\<lambda>(s, r). map (\<lambda>(c, _). (c, s, x)) (if_consumers r)) m))) =
    sum_list (map (\<lambda>x. ids (snd x)) m)"
  by (induction m) (auto simp only: ids_def settled_ids map_append list.map concat.simps mset_append sum_list.Cons
      sum_list.Nil snd_conv prod.case mset.simps)

lemma stopped_ids: "sum_list (map (\<lambda>x. ids (snd x)) (map (\<lambda>(s, r). (s, r\<lparr>if_consumers := [], if_aborted := True\<rparr>)) m)) = {#}"
  by (induction m) (auto simp: ids_def)

lemma filter_id:
  assumes "distinct (map fst cs)" "c \<in> fst ` set cs"
  shows "mset (map fst (filter (\<lambda>(i, _). i \<noteq> c) cs)) + {#c#} = mset (map fst cs)"
proof -
  have "map fst (filter (\<lambda>(i, _). i \<noteq> c) cs) = removeAll c (map fst cs)" by (induction cs) auto
  moreover have "c \<in> set (map fst cs)" using assms(2) by simp
  ultimately show ?thesis using assms(1)
    by (metis add_mset_add_single distinct_remove1_removeAll insert_DiffM mset_remove1 set_mset_mset)
qed

definition conserved :: "nat list \<Rightarrow> 's HybridSegmentFetcher \<Rightarrow> bool" where
  "conserved calls f \<longleftrightarrow> mset (map fst (fs_results f)) + mset (waiting f) = mset calls"

lemma distinct_submset: "mset xs \<subseteq># mset ys \<Longrightarrow> distinct ys \<Longrightarrow> distinct xs"
proof -
  assume sub: "mset xs \<subseteq># mset ys" and d: "distinct ys"
  obtain zs where "mset (ys) = mset (xs @ zs)"
    using sub by (metis ex_mset mset_append mset_subset_eq_exists_conv)
  with d have "distinct (xs @ zs)" by (metis mset_eq_imp_distinct_iff)
  then show ?thesis by simp
qed

lemma waiting_distinct:
  assumes "conserved calls f" "distinct calls" "map_get (fs_inFlight f) s = Some r" "wf_map (fs_inFlight f)"
  shows "distinct (map fst (if_consumers r))"
proof -
  have "ids r \<subseteq># mset (waiting f)"
    using replace_entry(2)[OF assms(4,3), of ids] by (metis mset_subset_eq_add_right mset_waiting)
  also have "\<dots> \<subseteq># mset calls" using assms(1) by (metis conserved_def mset_subset_eq_add_right)
  finally show ?thesis unfolding ids_def by (rule distinct_submset[OF _ assms(2)])
qed

lemma move_conserved:
  "move opts f cs f' \<Longrightarrow> wf_map (fs_inFlight f) \<Longrightarrow> conserved calls f \<Longrightarrow> distinct calls \<Longrightarrow> conserved (calls @ cs) f'"
proof (induction rule: move.induct)
  case (progress f' f s r r' a b c)
  then show ?case using replace_entry(1)[of "fs_inFlight f" s r ids r'] by (simp add: conserved_def mset_waiting ids_def)
next
  case (join f' f s r c b)
  let ?r = "r\<lparr>if_consumers := if_consumers r @ [(c, b)]\<rparr>"
  have "ids ?r = ids r + {#c#}" by (simp add: ids_def)
  with join replace_entry(1)[of "fs_inFlight f" s r ids ?r]
  show ?case by (simp add: conserved_def mset_waiting)
next
  case (settle f s r f' x b c)
  have "mset (map fst (map (\<lambda>(c, _). (c, s, x)) (if_consumers r))) = ids r" by (simp only: settled_ids ids_def)
  then have "mset (map fst (fs_results f')) + mset (waiting f') =
      mset (map fst (fs_results f)) + (sum_list (map (\<lambda>x. ids (snd x)) (map_delete (fs_inFlight f) s)) + ids r)"
    by (simp add: settle(2,3) mset_waiting add.assoc add.commute del: map_map)
  also have "\<dots> = mset (map fst (fs_results f)) + mset (waiting f)"
    unfolding replace_entry(2)[OF settle(9,1)] mset_waiting ..
  finally show ?case using settle(10) by (simp add: conserved_def)
next
  case (abort f s r c f' r')
  have d: "distinct (map fst (if_consumers r))"
    using waiting_distinct[OF abort(10,11,1,9)] .
  have "ids r' + {#c#} = ids r" unfolding ids_def abort(5) by (rule filter_id[OF d abort(2)])
  then have "(sum_list (map (\<lambda>x. ids (snd x)) (map_set (fs_inFlight f) s r')) + {#c#}) + ids r' =
      sum_list (map (\<lambda>x. ids (snd x)) (fs_inFlight f)) + ids r'"
    using replace_entry(1)[OF abort(9,1), of ids r'] by (simp only: add.assoc add.commute[of "{#c#}"])
  then have "mset (waiting f') + {#c#} = mset (waiting f)"
    unfolding mset_waiting abort(3) by (simp only: add_right_cancel)
  moreover have "mset (map fst (fs_results f')) + mset (waiting f') =
      mset (map fst (fs_results f)) + (mset (waiting f') + {#c#})" by (simp add: abort(6))
  ultimately show ?case using abort(10) by (simp add: conserved_def)
next
  case (stop f' f)
  have "mset (map fst (fs_results f')) = mset (map fst (fs_results f)) + mset (waiting f)"
    unfolding stop(2) map_append mset_append stop_ids mset_waiting ..
  moreover have "mset (waiting f') = {#}" unfolding mset_waiting stop(1) by (rule stopped_ids)
  ultimately show ?case using stop(6) by (simp add: conserved_def)
qed (auto simp: conserved_def mset_waiting add_entry ids_def)

definition calls_of :: "(event \<times> clock) list \<Rightarrow> nat list" where
  "calls_of events = concat (map (\<lambda>e. introduced (fst e)) events)"

lemma run_conserved:
  "wf_map (fs_inFlight f) \<Longrightarrow> conserved calls f \<Longrightarrow> distinct (calls @ calls_of events) \<Longrightarrow>
     conserved (calls @ calls_of events) (run_fetcher opts sch events f)"
proof (induction events arbitrary: f calls)
  case Nil
  then show ?case by (simp add: run_fetcher_def calls_of_def)
next
  case (Cons e events)
  have m: "move opts f (introduced (fst e)) (fetcher_step opts sch e f)" by (rule step_moves[OF Cons.prems(1)])
  have "conserved (calls @ introduced (fst e)) (fetcher_step opts sch e f)"
    using move_conserved[OF m Cons.prems(1,2)] Cons.prems(3) by simp
  from Cons.IH[OF move_wf[OF m Cons.prems(1)] this] Cons.prems(3) show ?case
    by (simp add: run_fetcher_def calls_of_def)
qed

text \<open>C15: No caller is forgotten or answered twice: after any run, the promises settled so far and
  the callers still attached to requests in flight are together exactly the calls made, so each
  call is settled at most once, and all are settled once nothing is in flight.\<close>

theorem callers_settled_once:
  assumes "fresh_fetcher opts f" "distinct (calls_of events)"
  shows "mset (map fst (fs_results (run_fetcher opts sch events f))) +
      mset (waiting (run_fetcher opts sch events f)) = mset (calls_of events)"
  using run_conserved[of f "[]" events opts sch] assms fresh_fields[OF assms(1)]
  by (simp add: conserved_def waiting_def)

section \<open>Failures come from the Origin\<close>

definition failures_ok :: "'s HybridSegmentFetcher \<Rightarrow> bool" where
  "failures_ok f \<longleftrightarrow> (\<forall>(s, r) \<in> set (fs_inFlight f). phase_ok (if_phase r)) \<and>
     (\<forall>(c, s, x) \<in> set (fs_results f). \<forall>e. x = Inl e \<longrightarrow> request_error e)"

lemma failures_phase: "failures_ok f \<Longrightarrow> map_get (fs_inFlight f) s = Some r \<Longrightarrow> phase_ok (if_phase r)"
  by (auto simp: failures_ok_def dest!: map_of_SomeD)

lemma set_phase:
  assumes "failures_ok f" "phase_ok (if_phase r)" "x \<in> set (map_set (fs_inFlight f) s r)"
  shows "phase_ok (if_phase (snd x))"
proof -
  have "x = (s, r) \<or> x \<in> set (fs_inFlight f)" using set_map_set[of s r "fs_inFlight f"] assms(3) by blast
  then show ?thesis using assms(1,2) by (auto simp: failures_ok_def)
qed

lemma failures_okI:
  assumes "\<And>x. x \<in> set (fs_inFlight f) \<Longrightarrow> phase_ok (if_phase (snd x))"
    "\<And>c s e. (c, s, Inl e) \<in> set (fs_results f) \<Longrightarrow> request_error e"
  shows "failures_ok f"
  using assms by (auto simp: failures_ok_def)

lemma failures_result: "failures_ok f \<Longrightarrow> (c, s, Inl e) \<in> set (fs_results f) \<Longrightarrow> request_error e"
  by (auto simp: failures_ok_def)

lemma failures_entry: "failures_ok f \<Longrightarrow> x \<in> set (fs_inFlight f) \<Longrightarrow> phase_ok (if_phase (snd x))"
  by (auto simp: failures_ok_def)

lemma move_failures: "move opts f cs f' \<Longrightarrow> failures_ok f \<Longrightarrow> failures_ok f'"
proof (induction rule: move.induct)
  case (quiet f' f)
  then show ?case by (auto intro!: failures_okI dest: failures_result failures_entry)
next
  case (answer f' f c s x)
  then show ?case by (auto intro!: failures_okI dest: failures_result failures_entry)
next
  case (start f' f s r c)
  then show ?case by (auto intro!: failures_okI dest: failures_result set_phase)
next
  case (join f' f s r c b)
  then have "phase_ok (if_phase (r\<lparr>if_consumers := if_consumers r @ [(c, b)]\<rparr>))"
    using failures_phase by simp
  from set_phase[OF join(6) this] join show ?case by (auto intro!: failures_okI dest: failures_result)
next
  case (progress f' f s r r' a b c)
  then have "phase_ok (if_phase r')" using failures_phase by blast
  with progress show ?case by (auto intro!: failures_okI dest: failures_result set_phase)
next
  case (settle f s r f' x b c)
  have "phase_ok (if_phase r)" by (rule failures_phase[OF settle(9,1)])
  with settle set_map_delete[of s "fs_inFlight f"] show ?case
    by (auto intro!: failures_okI dest: failures_result failures_entry)
next
  case (abort f s r c f' r')
  have "phase_ok (if_phase r')" using failures_phase[OF abort(9,1)] abort(4) by simp
  from set_phase[OF abort(9) this] abort show ?case by (auto intro!: failures_okI dest: failures_result)
next
  case (stop f' f)
  with failures_entry[OF stop(5)] failures_result[OF stop(5)] show ?case by (fastforce intro!: failures_okI)
qed

text \<open>Peers never make a fetch fail: after any run, every failed call either was aborted or
  failed at the Origin, and a failed hedged fetch had its Origin attempt fail. Slow, silent,
  lying or unreachable peers alone never surface as an error.\<close>

theorem failures_only_from_origin:
  assumes "fresh_fetcher opts f"
  shows "list_all (\<lambda>(c, s, result). case result of Inr res \<Rightarrow> True | Inl e \<Rightarrow>
      (case e of Aborted \<Rightarrow> True | BothFailed es \<Rightarrow> list_ex origin_error es | _ \<Rightarrow> origin_error e))
    (fs_results (run_fetcher opts sch events f))"
proof -
  have "failures_ok f" "wf_map (fs_inFlight f)" using fresh_fields[OF assms] by (simp_all add: failures_ok_def)
  then have "failures_ok (run_fetcher opts sch events f)"
    by (intro run_invariant[of opts failures_ok]) (auto intro: move_failures)
  then have "request_error e" if "(c, s, Inl e) \<in> set (fs_results (run_fetcher opts sch events f))" for c s e
    using that by (rule failures_result)
  moreover have "request_error e \<Longrightarrow> (case e of Aborted \<Rightarrow> True | BothFailed es \<Rightarrow> list_ex origin_error es | _ \<Rightarrow> origin_error e)" for e
    by (cases e) auto
  ultimately show ?thesis by (fastforce simp: list_all_iff split: sum.split)
qed

section \<open>Peer counters\<close>

definition attempts :: "'s HybridSegmentFetcher \<Rightarrow> nat" where
  "attempts f = sum_list (map (\<lambda>x. pending (snd x)) (fs_inFlight f))"

definition counted_to :: "nat \<Rightarrow> 's HybridSegmentFetcher \<Rightarrow> bool" where
  "counted_to n f \<longleftrightarrow> (\<exists>a b c. p2pRequests (fs_stats f) = nat_number a \<and> p2pSuccesses (fs_stats f) = nat_number b \<and>
     p2pFailures (fs_stats f) = nat_number c \<and> b + c + attempts f \<le> a \<and> a \<le> n)"

lemma adds_nat: "a + n \<le> 2 ^ 53 \<Longrightarrow> adds n (nat_number a) = nat_number (a + n)"
proof (induction n)
  case (Suc n)
  have "nat_number (a + n) + nat_number 1 = nat_number (a + n + 1)"
    using Suc.prems by (intro nat_number_plus) simp
  with Suc show ?case by (simp add: one_number_def)
qed simp

lemma counted_step:
  assumes "counted_to n f" "counts a b c (fs_stats f) (fs_stats f')" "a \<le> 1" "n < 2 ^ 53"
    "attempts f' + b + c \<le> attempts f + a"
  shows "counted_to (Suc n) f'"
proof -
  obtain a0 b0 c0 where e: "p2pRequests (fs_stats f) = nat_number a0" "p2pSuccesses (fs_stats f) = nat_number b0"
    "p2pFailures (fs_stats f) = nat_number c0" "b0 + c0 + attempts f \<le> a0" "a0 \<le> n"
    using assms(1) by (auto simp: counted_to_def)
  have "adds a (nat_number a0) = nat_number (a0 + a)" "adds b (nat_number b0) = nat_number (b0 + b)"
    "adds c (nat_number c0) = nat_number (c0 + c)"
    using e(4,5) assms(3,4,5) by (intro adds_nat; linarith)+
  with assms(2) e have "p2pRequests (fs_stats f') = nat_number (a0 + a)" "p2pSuccesses (fs_stats f') = nat_number (b0 + b)"
    "p2pFailures (fs_stats f') = nat_number (c0 + c)" by (simp_all add: counts_def)
  moreover have "(b0 + b) + (c0 + c) + attempts f' \<le> a0 + a" "a0 + a \<le> Suc n" using e(4,5) assms(3,5) by linarith+
  ultimately show ?thesis unfolding counted_to_def by blast
qed

lemma attempts_stop:
  "sum_list (map (\<lambda>x. pending (snd x)) (map (\<lambda>(s, r). (s, r\<lparr>if_consumers := [], if_aborted := True\<rparr>)) m)) =
   sum_list (map (\<lambda>x. pending (snd x)) m)"
  by (induction m) (auto simp: pending_def)

lemma move_counted:
  "move opts f cs f' \<Longrightarrow> wf_map (fs_inFlight f) \<Longrightarrow> counted_to n f \<Longrightarrow> n < 2 ^ 53 \<Longrightarrow> counted_to (Suc n) f'"
proof (induction rule: move.induct)
  case (start f' f s r c)
  have "pending r \<le> 1" by (simp add: pending_def split: phase.split)
  with start show ?case
    by (intro counted_step[OF start(9), where a = "pending r" and b = 0 and c = 0]) (simp_all add: attempts_def add_entry)
next
  case (join f' f s r c b)
  let ?r = "r\<lparr>if_consumers := if_consumers r @ [(c, b)]\<rparr>"
  have "pending ?r = pending r" by (simp add: pending_def)
  with join replace_entry(1)[of "fs_inFlight f" s r pending ?r] show ?case
    by (intro counted_step[OF join(7), where a = 0 and b = 0 and c = 0]) (simp_all add: attempts_def)
next
  case (progress f' f s r r' a b c)
  with replace_entry(1)[of "fs_inFlight f" s r pending r'] show ?case
    by (intro counted_step[OF progress(11), where a = a and b = b and c = c]) (simp_all add: attempts_def)
next
  case (settle f s r f' x b c)
  with replace_entry(2)[OF settle(9,1), of pending] show ?case
    by (intro counted_step[OF settle(10), where a = 0 and b = b and c = c]) (simp_all add: attempts_def)
next
  case (abort f s r c f' r')
  have "pending r' = pending r" using abort(4) by (simp add: pending_def)
  with abort replace_entry(1)[OF abort(9,1), of pending r'] show ?case
    by (intro counted_step[OF abort(10), where a = 0 and b = 0 and c = 0]) (simp_all add: attempts_def)
next
  case (stop f' f)
  have "attempts f' = attempts f" unfolding attempts_def stop(1) by (rule attempts_stop)
  with stop show ?case by (intro counted_step[OF stop(6), where a = 0 and b = 0 and c = 0]) simp_all
next
  case (quiet f' f)
  then show ?case
    by (intro counted_step[OF quiet(6), where a = 0 and b = 0 and c = 0]) (simp_all add: attempts_def)
next
  case (answer f' f c s x)
  then show ?case
    by (intro counted_step[OF answer(8), where a = 0 and b = 0 and c = 0]) (simp_all add: attempts_def)
qed

lemma run_counted:
  "wf_map (fs_inFlight f) \<Longrightarrow> counted_to n f \<Longrightarrow> n + length events \<le> 2 ^ 53 \<Longrightarrow>
     counted_to (n + length events) (run_fetcher opts sch events f)"
proof (induction events arbitrary: f n)
  case (Cons e events)
  have m: "move opts f (introduced (fst e)) (fetcher_step opts sch e f)" by (rule step_moves[OF Cons.prems(1)])
  have "counted_to (Suc n) (fetcher_step opts sch e f)"
    by (rule move_counted[OF m Cons.prems(1,2)]) (use Cons.prems(3) in simp)
  from Cons.IH[OF move_wf[OF m Cons.prems(1)] this] Cons.prems(3) show ?case by (simp add: run_fetcher_def)
qed (simp add: run_fetcher_def)

text \<open>The peer counters add up: after any run (shorter than the exact integers), requests,
  successes and failures are whole numbers, and every success or failure belongs to a request
  of its own: successes and failures and attempts under way never exceed the requests.\<close>

theorem peer_counters_add_up:
  assumes "fresh_fetcher opts f" "length events \<le> 2 ^ 53"
  shows "\<exists>requests successes failures.
    p2pRequests (fs_stats (run_fetcher opts sch events f)) = nat_number requests \<and>
    p2pSuccesses (fs_stats (run_fetcher opts sch events f)) = nat_number successes \<and>
    p2pFailures (fs_stats (run_fetcher opts sch events f)) = nat_number failures \<and>
    successes + failures + attempts (run_fetcher opts sch events f) \<le> requests"
proof -
  have "counted_to 0 f"
    using fresh_fields[OF assms(1)] by (simp add: counted_to_def attempts_def createEmptyPeerTrafficStats_def)
  with run_counted[of f 0 events opts sch] fresh_fields[OF assms(1)] assms(2) show ?thesis
    by (auto simp: counted_to_def)
qed

section \<open>Late callers and hedges\<close>

text \<open>A caller can inherit someone else's abort: when the last caller of a request has aborted but
  its peer attempt has not ended yet, a new call for the segment joins the doomed request, and
  when the attempt then fails, the new caller gets the abort error although neither it nor the
  fetcher was aborted and the Origin was never asked.\<close>

theorem late_caller_inherits_abort:
  assumes "map_get (fs_inFlight f) s = Some r" "if_phase r = AtPeer peer started limit" "if_aborted r"
    "if_consumers r = []" "\<not> fs_shutdown f" "fst (cache_get s (fst t) (fs_cache f)) = None"
  shows "case fetcher_step opts sch (PeerReplied s (Rejected message True), t')
      (fetcher_step opts sch (Call s ahead c False, t) f) of
    f' \<Rightarrow> fs_results f' = fs_results f @ [(c, s, throw Aborted)] \<and> map_get (fs_inFlight f') s = None \<and>
      originRequests (fs_stats f') = originRequests (fs_stats f)"
proof -
  obtain cache where g: "cache_get s (fst t) (fs_cache f) = (None, cache)" using assms(6) by (metis prod.collapse)
  define r' where "r' = r\<lparr>if_consumers := [(c, True)]\<rparr>"
  define f1 where "f1 = put_request s r' (f\<lparr>fs_cache := cache\<rparr>)"
  have call: "fetcher_step opts sch (Call s ahead c False, t) f = f1"
    using assms(1,4) by (simp add: fetchSegment_def serve_cached_def g join_request_def f1_def r'_def)
  have got: "map_get (fs_inFlight f1) s = Some r'" by (simp add: f1_def get_set)
  obtain x where x: "peer_reply opts s True (Rejected message True) (fs_stats f1) = (Inl x, fs_stats f1)"
    by (auto simp: peer_reply_def)
  have r': "if_phase r' = AtPeer peer started limit" "stopped r' f1" "if_consumers r' = [(c, True)]"
    using assms(2,3) by (simp_all add: r'_def stopped_def)
  have reply: "fetcher_step opts sch (PeerReplied s (Rejected message True), t') f1 =
      fail_request opts sch s r' Aborted False f1"
    by (simp add: peer_replied_def got r'(1,2) x Let_def)
  show ?thesis
    unfolding call reply by (simp add: r'(3) get_delete) (simp add: f1_def)
qed

text \<open>A hedge does not wait for nothing: when the peer attempt of a hedged fetch fails before the
  hedge delay is over, the Origin is requested in the same step; when the Origin attempt is under
  way it simply continues; and when it has failed already the fetch fails with both errors.\<close>

theorem hedge_reacts_to_peer_failure:
  assumes "map_get (fs_inFlight f) s = Some r" "if_phase r = Hedging h" "hd_peerPending h" "\<not> stopped r f"
    "fst (peer_reply opts s False reply (fs_stats f)) = Inl reason"
  shows "case fetcher_step opts sch (PeerReplied s reply, t) f of f' \<Rightarrow>
    (case hd_origin h of
       OriginWaiting \<Rightarrow> (case map_option if_phase (map_get (fs_inFlight f') s) of
           Some (Hedging h') \<Rightarrow> hd_origin h' = OriginRequested (snd t) \<and> hd_started h' | _ \<Rightarrow> False) \<and>
         originRequests (fs_stats f') = originRequests (fs_stats f) + 1
     | OriginRequested started \<Rightarrow> (case map_option if_phase (map_get (fs_inFlight f') s) of
           Some (Hedging h') \<Rightarrow> hd_origin h' = OriginRequested started \<and> \<not> hd_peerPending h' | _ \<Rightarrow> False) \<and>
         originRequests (fs_stats f') = originRequests (fs_stats f)
     | OriginSettled \<Rightarrow> map_get (fs_inFlight f') s = None \<and>
         fs_results f' = fs_results f @ map (\<lambda>(c, _). (c, s, throw (BothFailed (hd_failures h @ [PeerFailed reason]))))
           (if_consumers r)) \<and>
    fs_reports f' = fs_reports f @ [(peer_id (hd_peer h), reason)]"
proof -
  obtain stats where pr: "peer_reply opts s False reply (fs_stats f) = (Inl reason, stats)"
    using assms(5) by (metis prod.collapse)
  have stats: "originRequests stats = originRequests (fs_stats f)"
    using pr by (auto simp: peer_reply_def stat_defs split: reply.splits if_splits)
  show ?thesis
    using assms(1-4) stats
    by (simp add: peer_replied_def hedge_peer_replied_def pr Let_def hedge_attempt_failed_def hedge_origin_start_def
        get_set get_delete stat_defs fail_request_def recordSchedulerOutcome_def finish_request_def
        recordPeerFailure_def put_request_def with_stats_def split: origin_attempt.split)
qed

section \<open>Witnesses\<close>

definition sample_scheduler :: "(string, weighted_state) SegmentScheduler" where
  "sample_scheduler = \<lparr>sch_policyName = weighted_policy,
     sch_planSegment = weighted_scheduler,
     sch_observePeer = observePeer, sch_reconcilePeers = reconcilePeers, sch_reset = reset_weighted,
     sch_originLatency = (\<lambda>_ s. s)\<rparr>"

definition sample_options :: FetcherOptions where
  "sample_options = \<lparr>fo_selfPeerId = ''self'', fo_maxParallel = Num 3, fo_p2pTimeoutMs = DEFAULT_P2P_TIMEOUT_MS,
     fo_segmentDurationMs = None, fo_deadlineSchedulingEnabled = False, fo_transportManager = False,
     fo_verify = (\<lambda>name bytes. bytes \<noteq> [0])\<rparr>"

definition sample_fetcher :: "weighted_state HybridSegmentFetcher" where
  "sample_fetcher = \<lparr>fs_cache = empty_cache, fs_stats = createEmptyPeerTrafficStats, fs_scheduler = new_weighted None,
     fs_inFlight = [], fs_lastSources = [], fs_shutdown = False, fs_decisions = [], fs_outcomes = [],
     fs_reports = [], fs_results = []\<rparr>"

lemma sample_fetcher_fresh: "fresh_fetcher sample_options sample_fetcher"
  using empty_cache_ok
  by (simp add: fresh_fetcher_def sample_fetcher_def new_fetcher_def sample_options_def empty_cache_def zero_number_def)

definition sample_run :: "(event \<times> clock) list" where
  "sample_run = [(Call ''s1.ts'' (Num 3) 1 False, (0, 0)), (Call ''s1.ts'' (Num 3) 2 False, (1, Num 1)),
     (PeersListed ''s1.ts'' None, (2, Num 2)), (OriginReplied ''s1.ts'' (Body [7, 8]), (3, Num 3))]"

theorem delivered_bytes_verified_witness:
  "list_all (\<lambda>(c, s, result). case result of Inl e \<Rightarrow> True | Inr res \<Rightarrow> fo_verify sample_options s (fr_data res))
    (fs_results (run_fetcher sample_options sample_scheduler sample_run sample_fetcher))"
  by (rule delivered_bytes_verified[OF sample_fetcher_fresh])

theorem callers_settled_once_witness:
  "mset (map fst (fs_results (run_fetcher sample_options sample_scheduler sample_run sample_fetcher))) +
     mset (waiting (run_fetcher sample_options sample_scheduler sample_run sample_fetcher)) = {#1, 2#}"
  using callers_settled_once[OF sample_fetcher_fresh, of sample_run sample_scheduler]
  by (simp add: calls_of_def sample_run_def)

theorem failures_only_from_origin_witness:
  "list_all (\<lambda>(c, s, result). case result of Inr res \<Rightarrow> True | Inl e \<Rightarrow>
      (case e of Aborted \<Rightarrow> True | BothFailed es \<Rightarrow> list_ex origin_error es | _ \<Rightarrow> origin_error e))
    (fs_results (run_fetcher sample_options sample_scheduler sample_run sample_fetcher))"
  by (rule failures_only_from_origin[OF sample_fetcher_fresh])

theorem peer_counters_add_up_witness:
  "\<exists>requests successes failures.
    p2pRequests (fs_stats (run_fetcher sample_options sample_scheduler sample_run sample_fetcher)) = nat_number requests \<and>
    p2pSuccesses (fs_stats (run_fetcher sample_options sample_scheduler sample_run sample_fetcher)) = nat_number successes \<and>
    p2pFailures (fs_stats (run_fetcher sample_options sample_scheduler sample_run sample_fetcher)) = nat_number failures \<and>
    successes + failures + attempts (run_fetcher sample_options sample_scheduler sample_run sample_fetcher) \<le> requests"
  by (rule peer_counters_add_up[OF sample_fetcher_fresh]) (simp add: sample_run_def)

definition sample_tracker_peer :: Peer where
  "sample_tracker_peer = \<lparr>peer_id = ''p1'', peer_address = ''http://10.0.0.1:9000'', peer_uploadBandwidthBps = None,
     peer_metadata = None, peer_segments = [''s1.ts''], peer_joinedAt = 0, peer_lastSeenAt = 0, peer_latencyMs = 0,
     peer_successRate = 1, peer_trustScore = 1\<rparr>"

definition doomed_request :: InFlightSegment where
  "doomed_request = (new_request (Some (Num 3)) False (1, False))\<lparr>
     if_phase := AtPeer sample_tracker_peer 0 (Some (Num 2000)), if_aborted := True, if_consumers := []\<rparr>"

definition doomed_fetcher :: "weighted_state HybridSegmentFetcher" where
  "doomed_fetcher = sample_fetcher\<lparr>fs_inFlight := [(''s1.ts'', doomed_request)]\<rparr>"

theorem late_caller_inherits_abort_witness:
  "case fetcher_step sample_options sample_scheduler (PeerReplied ''s1.ts'' (Rejected ''aborted'' True), (6, Num 6))
      (fetcher_step sample_options sample_scheduler (Call ''s1.ts'' (Num 3) 2 False, (5, Num 5)) doomed_fetcher) of
    f' \<Rightarrow> fs_results f' = fs_results doomed_fetcher @ [(2, ''s1.ts'', throw Aborted)] \<and>
      map_get (fs_inFlight f') ''s1.ts'' = None \<and>
      originRequests (fs_stats f') = originRequests (fs_stats doomed_fetcher)"
  by (rule late_caller_inherits_abort[where r = doomed_request and peer = sample_tracker_peer and started = 0
        and limit = "Some (Num 2000)"])
    (simp_all add: doomed_fetcher_def doomed_request_def new_request_def sample_fetcher_def empty_cache_def
      cache_get_def touch_def)

definition sample_hedge :: Hedge where
  "sample_hedge = \<lparr>hd_peer = sample_tracker_peer, hd_startedAt = 0, hd_delayMs = Num 500,
     hd_timeoutMs = Some (Num 2000), hd_peerPending = True, hd_origin = OriginWaiting, hd_started = False,
     hd_failures = []\<rparr>"

definition hedged_fetcher :: "weighted_state HybridSegmentFetcher" where
  "hedged_fetcher = sample_fetcher\<lparr>fs_inFlight :=
     [(''s1.ts'', (new_request (Some (Num 3)) False (1, False))\<lparr>if_phase := Hedging sample_hedge\<rparr>)]\<rparr>"

theorem hedge_reacts_to_peer_failure_witness:
  "case map_option if_phase (map_get (fs_inFlight
      (fetcher_step sample_options sample_scheduler (PeerReplied ''s1.ts'' (Status 404), (6, Num 6)) hedged_fetcher)) ''s1.ts'') of
     Some (Hedging h') \<Rightarrow> hd_origin h' = OriginRequested (Num 6) \<and> hd_started h' | _ \<Rightarrow> False"
proof -
  let ?r = "(new_request (Some (Num 3)) False (1, False))\<lparr>if_phase := Hedging sample_hedge\<rparr>"
  have r: "map_get (fs_inFlight hedged_fetcher) ''s1.ts'' = Some ?r" "if_phase ?r = Hedging sample_hedge"
    "hd_peerPending sample_hedge" "\<not> stopped ?r hedged_fetcher" "hd_origin sample_hedge = OriginWaiting"
    by (simp_all add: hedged_fetcher_def sample_fetcher_def stopped_def new_request_def sample_hedge_def)
  have x: "fst (peer_reply sample_options ''s1.ts'' False (Status 404) (fs_stats hedged_fetcher)) = Inl HttpFailure"
    by (simp add: peer_reply_def)
  show ?thesis
    using hedge_reacts_to_peer_failure[OF r(1-4) x, where sch = sample_scheduler and t = "(6, Num 6)"]
    unfolding r(5) origin_attempt.case snd_conv by blast
qed

end
