(* ===== verification/JsText.thy ===== *)
theory JsText
  imports Common
begin

text \<open>
  Numbers as text: \<^verbatim>\<open>Number(text)\<close> and \<^verbatim>\<open>toFixed\<close> of ECMAScript, decimal digits and their parsing.
\<close>

section \<open>Digits\<close>

definition digits_value :: "string \<Rightarrow> nat" where
  "digits_value s = fold (\<lambda>c n. 10 * n + (of_char c - 48)) s 0"

definition digit_string :: "string \<Rightarrow> bool" where
  "digit_string s \<longleftrightarrow> s \<noteq> [] \<and> list_all is_digit s"

definition is_line_end :: "char \<Rightarrow> bool" where
  "is_line_end c \<longleftrightarrow> (of_char c :: nat) \<in> {10, 13}"

section \<open>Text to number\<close>

fun split_sign :: "string \<Rightarrow> bool \<times> string" where
  "split_sign (c # s) = (if c = CHR ''-'' then (True, s) else if c = CHR ''+'' then (False, s) else (False, c # s))"
| "split_sign [] = (False, [])"

fun exponent_part :: "string \<Rightarrow> int option" where
  "exponent_part [] = Some 0"
| "exponent_part (c # s) =
     (if c \<noteq> CHR ''e'' \<and> c \<noteq> CHR ''E'' then None
      else (case split_sign s of (negative, ds) \<Rightarrow>
        if digit_string ds then Some (if negative then - int (digits_value ds) else int (digits_value ds))
        else None))"

definition decimal_literal :: "string \<Rightarrow> rat option" where
  "decimal_literal s =
     (let whole = takeWhile is_digit s; rest = dropWhile is_digit s;
          (fraction, rest) = (case rest of
             c # r \<Rightarrow> if c = CHR ''.'' then (takeWhile is_digit r, dropWhile is_digit r) else ([], rest)
           | [] \<Rightarrow> ([], [])) in
      if whole = [] \<and> fraction = [] then None
      else map_option (\<lambda>e. of_nat (digits_value (whole @ fraction)) * 10 powi (e - int (length fraction)))
             (exponent_part rest))"

definition radix_digit :: "char \<Rightarrow> nat" where
  "radix_digit c = (if is_digit c then of_char c - 48
     else if CHR ''a'' \<le> c \<and> c \<le> CHR ''f'' then of_char c - 87
     else if CHR ''A'' \<le> c \<and> c \<le> CHR ''F'' then of_char c - 55 else 16)"

definition radix_literal :: "nat \<Rightarrow> string \<Rightarrow> number" where
  "radix_literal radix ds =
     (if ds \<noteq> [] \<and> list_all (\<lambda>c. radix_digit c < radix) ds
      then toNumber (of_nat (fold (\<lambda>c n. radix * n + radix_digit c) ds 0)) else NaN)"

definition decimal_number :: "string \<Rightarrow> number" where
  "decimal_number t = (case split_sign t of (negative, u) \<Rightarrow>
     if u = ''Infinity'' then (if negative then NegInfinity else Infinity)
     else (case decimal_literal u of
       None \<Rightarrow> NaN
     | Some q \<Rightarrow> toNumber (if negative then - q else q)))"

definition number_of_string :: "string \<Rightarrow> number" where
  "number_of_string s =
     (let t = js_trim s in
      if t = [] then 0
      else if to_lower (take 2 t) = ''0x'' then radix_literal 16 (drop 2 t)
      else if to_lower (take 2 t) = ''0o'' then radix_literal 8 (drop 2 t)
      else if to_lower (take 2 t) = ''0b'' then radix_literal 2 (drop 2 t)
      else decimal_number t)"

section \<open>Number to text\<close>

text \<open>\<^verbatim>\<open>x.toFixed(digits)\<close>; \<open>text\<close> is \<^verbatim>\<open>String(x)\<close>, which it uses for magnitudes from 10^21 on.\<close>

definition fixed_text :: "nat \<Rightarrow> rat \<Rightarrow> string" where
  "fixed_text digits q =
     (let m = nat_string (nat \<lfloor>q * 10 ^ digits + 1 / 2\<rfloor>);
          padded = replicate (Suc digits - length m) CHR ''0'' @ m in
      if digits = 0 then m
      else take (length padded - digits) padded @ ''.'' @ drop (length padded - digits) padded)"

definition to_fixed :: "(number \<Rightarrow> string) \<Rightarrow> nat \<Rightarrow> number \<Rightarrow> string" where
  "to_fixed text digits x = (case x of
     Num q \<Rightarrow>
       if \<bar>q\<bar> \<ge> 10 ^ 21 then text x
       else if q < 0 then ''-'' @ fixed_text digits (- q) else fixed_text digits q
   | _ \<Rightarrow> text x)"

section \<open>Laws\<close>

lemma digit_char_facts: "d < 10 \<Longrightarrow> is_digit (digit_char d) \<and> of_char (digit_char d) = 48 + d"
proof -
  have "list_all (\<lambda>d. is_digit (digit_char d) \<and> of_char (digit_char d) = 48 + d) [0..<10]" by code_simp
  then show "d < 10 \<Longrightarrow> is_digit (digit_char d) \<and> of_char (digit_char d) = 48 + d" by (simp add: list_all_iff)
qed

lemma digits_value_append: "digits_value (s @ [c]) = 10 * digits_value s + (of_char c - 48)"
  by (simp add: digits_value_def)

lemma nat_string_digits: "list_all is_digit (nat_string n) \<and> nat_string n \<noteq> [] \<and> digits_value (nat_string n) = n"
proof (induction n rule: nat_string.induct)
  case (1 n)
  show ?case
  proof (cases "n < 10")
    case True
    then show ?thesis using digit_char_facts[of n] by (simp add: nat_string.simps[of n] digits_value_def)
  next
    case False
    have "n mod 10 < 10" by simp
    from digit_char_facts[OF this] False 1 show ?thesis
      by (simp add: nat_string.simps[of n] digits_value_append)
  qed
qed

lemma digit_string_nat: "digit_string (nat_string n)"
  using nat_string_digits[of n] by (simp add: digit_string_def)

lemma digits_value_nat [simp]: "digits_value (nat_string n) = n"
  using nat_string_digits[of n] by simp

lemma is_digit_code: "is_digit c \<longleftrightarrow> 48 \<le> (of_char c :: nat) \<and> (of_char c :: nat) \<le> 57"
  by (simp add: is_digit_def less_eq_char_def)

lemma digit_not_space: "is_digit c \<Longrightarrow> \<not> is_space c"
  by (auto simp: is_digit_code is_space_def)

lemma trim_id: "s \<noteq> [] \<Longrightarrow> \<not> is_space (hd s) \<Longrightarrow> \<not> is_space (last s) \<Longrightarrow> js_trim s = s"
proof -
  assume s: "s \<noteq> []" "\<not> is_space (hd s)" "\<not> is_space (last s)"
  then have "dropWhile is_space s = s" "dropWhile is_space (rev s) = rev s"
    by (cases s, simp_all) (cases "rev s", auto simp: hd_rev[symmetric])
  then show ?thesis by (simp add: js_trim_def)
qed

lemma decimal_digits:
  assumes "list_all is_digit s" "s \<noteq> []"
  shows "decimal_literal s = Some (of_nat (digits_value s))"
proof -
  have eqs: "takeWhile is_digit s = s" "dropWhile is_digit s = []" using assms(1) by (auto simp: list_all_iff)
  show ?thesis unfolding decimal_literal_def Let_def eqs using assms(2) by simp
qed

text \<open>A text of digits is read as the number it writes, rounded.\<close>

lemma number_of_digits:
  assumes "digit_string s"
  shows "number_of_string s = toNumber (of_nat (digits_value s))"
proof -
  have s: "s \<noteq> []" "list_all is_digit s" using assms by (simp_all add: digit_string_def)
  then obtain c cs where c: "s = c # cs" "is_digit c" by (cases s) auto
  have trim: "js_trim s = s"
    using s digit_not_space by (intro trim_id) (auto simp: list_all_iff)
  have second: "x \<noteq> CHR ''x'' \<and> x \<noteq> CHR ''o'' \<and> x \<noteq> CHR ''b'' \<and> to_lower [x] = [x]" if "is_digit x" for x
    using that by (auto simp: is_digit_code to_lower_def less_eq_char_def)
  have "to_lower (take 2 s) \<noteq> [CHR ''0'', y]" if "y \<in> {CHR ''x'', CHR ''o'', CHR ''b''}" for y
    using that s(2) second by (cases cs) (auto simp: c(1) to_lower_def split: if_splits)
  then have no_radix: "to_lower (take 2 s) \<noteq> ''0x''" "to_lower (take 2 s) \<noteq> ''0o''" "to_lower (take 2 s) \<noteq> ''0b''"
    by simp_all
  have "c \<noteq> CHR ''-''" "c \<noteq> CHR ''+''" "c \<noteq> CHR ''I''" using c(2) by (auto simp: is_digit_code)
  then have "split_sign s = (False, s)" "s \<noteq> ''Infinity''" by (simp_all add: c(1))
  then show ?thesis
    using no_radix s by (simp add: number_of_string_def trim Let_def decimal_number_def decimal_digits)
qed

end
