(* ===== verification/Verifier.thy ===== *)
theory Verifier
  imports JsText
begin

text \<open>
  Segment verification: the sidecar parsers and digest comparisons of the Node peer
  (\<^verbatim>\<open>peer/src/verifier.ts\<close>) and of the browser (\<^verbatim>\<open>sdk/src/verifier.ts\<close>), and the Node peer's verifier
  with its cache of digests and its shared requests. SHA-256 is an argument \<open>digest\<close> that returns
  bytes; the hash function itself belongs to Node and to the browser.
\<close>

section \<open>Hexadecimal text\<close>

definition is_hex :: "char \<Rightarrow> bool" where
  "is_hex c \<longleftrightarrow> is_digit c \<or> (CHR ''a'' \<le> c \<and> c \<le> CHR ''f'') \<or> (CHR ''A'' \<le> c \<and> c \<le> CHR ''F'')"

definition hex_digit :: "nat \<Rightarrow> char" where
  "hex_digit n = ''0123456789abcdef'' ! n"

definition digit_value :: "char \<Rightarrow> nat" where
  "digit_value c = (if is_digit c then of_char c - 48
     else if CHR ''a'' \<le> c then of_char c - 87 else of_char c - 55)"

text \<open>\<^verbatim>\<open>digest("hex")\<close>, and \<^verbatim>\<open>b.toString(16).padStart(2, "0")\<close> per byte in the browser.\<close>

definition to_hex :: "nat list \<Rightarrow> string" where
  "to_hex bytes = concat (map (\<lambda>b. [hex_digit (b div 16), hex_digit (b mod 16)]) bytes)"

text \<open>\<^verbatim>\<open>Buffer.from(text, "hex")\<close>: pairs of digits up to the first that is none.\<close>

fun from_hex :: "string \<Rightarrow> nat list" where
  "from_hex (a # b # s) =
     (if is_hex a \<and> is_hex b then (16 * digit_value a + digit_value b) # from_hex s else [])"
| "from_hex _ = []"

section \<open>Sidecar text\<close>

datatype hash_error = InvalidSha256 | HashStatus nat | HashRequestFailed

text \<open>\<^verbatim>\<open>/^([a-fA-F0-9]{64})(?:\s+.+)?$/\<close> on the trimmed text: the digest alone, or followed by white
  space and a file name on the same line.\<close>

definition peer_parseSha256 :: "string \<Rightarrow> (hash_error, string) result" where
  "peer_parseSha256 content =
     (let t = js_trim content; digits = take 64 t; rest = drop 64 t in
      if length digits = 64 \<and> list_all is_hex digits \<and>
         (rest = [] \<or> takeWhile is_space rest \<noteq> [] \<and> dropWhile is_space rest \<noteq> [] \<and>
            list_all (\<lambda>c. \<not> is_line_end c) (dropWhile is_space rest))
      then return (to_lower digits) else throw InvalidSha256)"

text \<open>\<^verbatim>\<open>/^[a-fA-F0-9]{64}/u\<close>: only the first 64 characters are looked at.\<close>

definition sdk_parseSha256 :: "string \<Rightarrow> (hash_error, string) result" where
  "sdk_parseSha256 content =
     (let digits = take 64 (js_trim content) in
      if length digits = 64 \<and> list_all is_hex digits then return (to_lower digits)
      else throw InvalidSha256)"

section \<open>Comparing digests\<close>

definition peer_verifySegmentHash :: "(nat list \<Rightarrow> nat list) \<Rightarrow> nat list \<Rightarrow> string \<Rightarrow> bool" where
  "peer_verifySegmentHash digest data expectedHash =
     (let actual = from_hex (to_hex (digest data)); expected = from_hex expectedHash in
      length expected = length actual \<and> actual = expected)"

fun difference_bits :: "string \<Rightarrow> string \<Rightarrow> nat \<Rightarrow> nat" where
  "difference_bits (x # xs) (y # ys) r = difference_bits xs ys (or r (xor (of_char x) (of_char y)))"
| "difference_bits _ _ r = r"

definition constantTimeEqual :: "string \<Rightarrow> string \<Rightarrow> bool" where
  "constantTimeEqual a b = (if length a \<noteq> length b then False else difference_bits a b 0 = 0)"

record SegmentVerificationResult =
  svr_valid :: bool
  svr_actualHash :: string
  svr_expectedHash :: string

definition sdk_verifySegmentHash :: "(nat list \<Rightarrow> nat list) \<Rightarrow> nat list \<Rightarrow> string \<Rightarrow> SegmentVerificationResult" where
  "sdk_verifySegmentHash digest data expectedHash =
     (let actualHash = to_hex (digest data) in
      \<lparr>svr_valid = constantTimeEqual actualHash expectedHash, svr_actualHash = actualHash,
       svr_expectedHash = expectedHash\<rparr>)"

section \<open>The Node peer's verifier\<close>

text \<open>A verification waits with its caller's number and its data; \<open>ohv_requests\<close> counts the sidecar
  requests sent, \<open>ohv_results\<close> the answers to callers.\<close>

record OriginHashVerifier =
  ohv_maxCachedHashes :: nat
  ohv_hashes :: "(string, string) jsmap"
  ohv_pendingHashes :: "(string, (nat \<times> nat list) list) jsmap"
  ohv_requests :: "string list"
  ohv_results :: "(nat \<times> (hash_error, bool) result) list"

definition new_origin_verifier :: "number \<Rightarrow> (string, OriginHashVerifier) result" where
  "new_origin_verifier maxCachedHashes =
     (if \<not> isSafeInteger maxCachedHashes \<or> maxCachedHashes \<le> 0
      then throw ''Maximum cached hashes must be a positive integer''
      else return \<lparr>ohv_maxCachedHashes = (case maxCachedHashes of Num q \<Rightarrow> nat \<lfloor>q\<rfloor> | _ \<Rightarrow> 0),
        ohv_hashes = [], ohv_pendingHashes = [], ohv_requests = [], ohv_results = []\<rparr>)"

text \<open>\<^verbatim>\<open>const cached = this.hashes.get(segmentName); if (cached)\<close>: an empty text is no digest.\<close>

definition cached_hash :: "string \<Rightarrow> OriginHashVerifier \<Rightarrow> string option" where
  "cached_hash segmentName v = (case map_get (ohv_hashes v) segmentName of
     None \<Rightarrow> None | Some h \<Rightarrow> if h = [] then None else Some h)"

text \<open>\<^verbatim>\<open>verify\<close> up to its first wait.\<close>

definition verify :: "(nat list \<Rightarrow> nat list) \<Rightarrow> nat \<Rightarrow> string \<Rightarrow> nat list \<Rightarrow> OriginHashVerifier \<Rightarrow> OriginHashVerifier" where
  "verify digest call segmentName data v =
     (case cached_hash segmentName v of
        Some cached \<Rightarrow>
          v\<lparr>ohv_hashes := map_touch (ohv_hashes v) segmentName cached,
            ohv_results := ohv_results v @ [(call, return (peer_verifySegmentHash digest data cached))]\<rparr>
      | None \<Rightarrow>
          (case map_get (ohv_pendingHashes v) segmentName of
             Some waiting \<Rightarrow>
               v\<lparr>ohv_pendingHashes := map_set (ohv_pendingHashes v) segmentName (waiting @ [(call, data)])\<rparr>
           | None \<Rightarrow>
               v\<lparr>ohv_pendingHashes := map_set (ohv_pendingHashes v) segmentName [(call, data)],
                 ohv_requests := ohv_requests v @ [segmentName]\<rparr>))"

datatype hash_reply = HashFailed | HashResponse nat bool string

text \<open>\<^verbatim>\<open>fetchHash\<close> once the response is there.\<close>

definition fetchHash :: "string \<Rightarrow> hash_reply \<Rightarrow> OriginHashVerifier \<Rightarrow> (hash_error, string) result \<times> OriginHashVerifier" where
  "fetchHash segmentName reply v = (case reply of
     HashFailed \<Rightarrow> (throw HashRequestFailed, v)
   | HashResponse status ok text \<Rightarrow>
       if \<not> ok then (throw (HashStatus status), v)
       else (case peer_parseSha256 text of
         Inl e \<Rightarrow> (throw e, v)
       | Inr expectedHash \<Rightarrow>
           (return expectedHash,
            v\<lparr>ohv_hashes := drop_oldest (ohv_maxCachedHashes v)
                (map_set (ohv_hashes v) segmentName expectedHash)\<rparr>)))"

definition hash_replied :: "(nat list \<Rightarrow> nat list) \<Rightarrow> string \<Rightarrow> hash_reply \<Rightarrow> OriginHashVerifier \<Rightarrow> OriginHashVerifier" where
  "hash_replied digest segmentName reply v =
     (case map_get (ohv_pendingHashes v) segmentName of
        None \<Rightarrow> v
      | Some waiting \<Rightarrow>
          (case fetchHash segmentName reply v of
             (r, v1) \<Rightarrow>
               v1\<lparr>ohv_pendingHashes := map_delete (ohv_pendingHashes v1) segmentName,
                 ohv_results := ohv_results v1 @ map (\<lambda>(call, data). (call, case r of
                    Inl e \<Rightarrow> throw e
                  | Inr expectedHash \<Rightarrow> return (peer_verifySegmentHash digest data expectedHash))) waiting\<rparr>))"

datatype verifier_event = VerifyCalled nat string "nat list" | HashReplied string hash_reply

fun verifier_step :: "(nat list \<Rightarrow> nat list) \<Rightarrow> verifier_event \<Rightarrow> OriginHashVerifier \<Rightarrow> OriginHashVerifier" where
  "verifier_step digest (VerifyCalled call segmentName data) v = verify digest call segmentName data v"
| "verifier_step digest (HashReplied segmentName reply) v = hash_replied digest segmentName reply v"

section \<open>Laws\<close>

lemma hex_digit_facts: "n < 16 \<Longrightarrow> is_hex (hex_digit n) \<and> digit_value (hex_digit n) = n"
proof -
  have "list_all (\<lambda>n. is_hex (hex_digit n) \<and> digit_value (hex_digit n) = n) [0..<16]" by code_simp
  then show "n < 16 \<Longrightarrow> is_hex (hex_digit n) \<and> digit_value (hex_digit n) = n" by (simp add: list_all_iff)
qed

lemma from_to_hex: "list_all (\<lambda>b. b < 256) bytes \<Longrightarrow> from_hex (to_hex bytes) = bytes"
proof (induction bytes)
  case (Cons b bytes)
  have "b div 16 < 16" "b mod 16 < 16" using Cons.prems by (simp_all add: div_less_iff_less_mult)
  with Cons hex_digit_facts[of "b div 16"] hex_digit_facts[of "b mod 16"] show ?case by (simp add: to_hex_def)
qed (simp add: to_hex_def)

lemma xor_zero_iff: "xor a b = 0 \<longleftrightarrow> a = (b :: nat)"
  by (metis xor.assoc xor.left_neutral xor.right_neutral xor_self_eq)

lemma difference_bits_zero:
  "length a = length b \<Longrightarrow> difference_bits a b r = 0 \<longleftrightarrow> r = 0 \<and> a = b"
  by (induction a b r rule: difference_bits.induct) (auto simp: or_eq_0_iff xor_zero_iff)

text \<open>The browser's comparison, which folds the differences of all characters so that its time does
  not depend on where they differ, is equality of the two texts.\<close>

theorem constant_time_equal_iff: "constantTimeEqual a b \<longleftrightarrow> a = b"
  by (auto simp: constantTimeEqual_def difference_bits_zero)

text \<open>Whenever the Node peer accepts a sidecar text, the browser reads the same digest from it. (The
  converse fails: the browser also accepts 64 digits followed by anything.)\<close>

theorem sidecar_parsers_agree:
  "peer_parseSha256 content = return h \<Longrightarrow> sdk_parseSha256 content = return h"
  by (auto simp: peer_parseSha256_def sdk_parseSha256_def Let_def split: if_splits)

theorem sidecar_parsers_agree_witness:
  "sdk_parseSha256 (replicate 64 CHR ''A'' @ ''  0.ts'') = return (replicate 64 CHR ''a'')"
  by (rule sidecar_parsers_agree) code_simp

lemma browser_reads_longer_digests:
  "peer_parseSha256 (replicate 128 CHR ''a'') = throw InvalidSha256 \<and>
   sdk_parseSha256 (replicate 128 CHR ''a'') = return (replicate 64 CHR ''a'')"
proof -
  have a: "\<not> is_space CHR ''a''" "is_hex CHR ''a''" "to_lower (replicate n CHR ''a'') = replicate n CHR ''a''" for n
    by (simp_all add: is_space_def is_hex_def to_lower_def)
  have "js_trim (replicate 128 CHR ''a'') = replicate 128 CHR ''a''" using a(1) by (simp add: js_trim_def)
  with a show ?thesis by (simp add: peer_parseSha256_def sdk_parseSha256_def list_all_iff)
qed

text \<open>What the events so far say about digests and calls.\<close>

definition origin_said :: "verifier_event list \<Rightarrow> string \<Rightarrow> string \<Rightarrow> bool" where
  "origin_said events segmentName h \<longleftrightarrow> (\<exists>status text.
     HashReplied segmentName (HashResponse status True text) \<in> set events \<and> peer_parseSha256 text = return h)"

definition verifier_inv :: "(nat list \<Rightarrow> nat list) \<Rightarrow> verifier_event list \<Rightarrow> OriginHashVerifier \<Rightarrow> bool" where
  "verifier_inv digest events v \<longleftrightarrow> wf_map (ohv_hashes v) \<and> length (ohv_hashes v) \<le> ohv_maxCachedHashes v \<and>
     (\<forall>s h. map_get (ohv_hashes v) s = Some h \<longrightarrow> origin_said events s h) \<and>
     (\<forall>s waiting. map_get (ohv_pendingHashes v) s = Some waiting \<longrightarrow>
        (\<forall>(call, data)\<in>set waiting. VerifyCalled call s data \<in> set events)) \<and>
     (\<forall>call. (call, return True) \<in> set (ohv_results v) \<longrightarrow>
        (\<exists>s data h. VerifyCalled call s data \<in> set events \<and> origin_said events s h \<and>
           peer_verifySegmentHash digest data h))"

lemma origin_said_mono: "origin_said events s h \<Longrightarrow> origin_said (events @ [e]) s h"
  by (auto simp: origin_said_def)

lemma verifier_inv_mono:
  assumes "verifier_inv digest events v"
  shows "verifier_inv digest (events @ [e]) v"
proof -
  have said: "origin_said events s h \<Longrightarrow> origin_said (events @ [e]) s h" for s h by (rule origin_said_mono)
  have called: "x \<in> set events \<Longrightarrow> x \<in> set (events @ [e])" for x by simp
  show ?thesis
    using assms unfolding verifier_inv_def case_prod_unfold by (meson said called)
qed

lemma verify_inv:
  assumes inv: "verifier_inv digest events v" and e: "VerifyCalled call s data \<in> set events"
  shows "verifier_inv digest events (verify digest call s data v)"
proof (cases "cached_hash s v")
  case (Some h)
  then have h: "map_get (ohv_hashes v) s = Some h" by (auto simp: cached_hash_def split: option.splits if_splits)
  then have "origin_said events s h" using inv by (simp add: verifier_inv_def)
  moreover have "map_get (map_touch (ohv_hashes v) s h) = map_get (ohv_hashes v)"
    using h by (simp add: fun_eq_iff get_touch)
  moreover have "length (map_touch (ohv_hashes v) s h) = length (ohv_hashes v)"
    using length_delete[of "ohv_hashes v" s] h inv by (simp add: map_touch_eq verifier_inv_def)
  ultimately show ?thesis using inv e by (auto simp: verify_def Some verifier_inv_def)
next
  case None
  then show ?thesis
    using inv e by (auto simp: verify_def verifier_inv_def get_set split: option.split)
qed

lemma replied_inv:
  assumes inv: "verifier_inv digest events v" and e: "HashReplied s reply \<in> set events"
  shows "verifier_inv digest events (hash_replied digest s reply v)"
proof (cases "map_get (ohv_pendingHashes v) s")
  case None
  then show ?thesis using inv by (simp add: hash_replied_def)
next
  case (Some waiting)
  obtain r v1 where f: "fetchHash s reply v = (r, v1)" by fastforce
  have keep: "ohv_pendingHashes v1 = ohv_pendingHashes v" "ohv_results v1 = ohv_results v"
    "ohv_maxCachedHashes v1 = ohv_maxCachedHashes v"
    using f by (auto simp: fetchHash_def split: hash_reply.splits sum.splits if_splits)
  have said: "origin_said events s h" if "r = return h" for h
    using that f e by (auto simp: fetchHash_def origin_said_def split: hash_reply.splits sum.splits if_splits)
  have wf: "wf_map (ohv_hashes v)" using inv by (simp add: verifier_inv_def)
  have hashes: "ohv_hashes v1 = ohv_hashes v \<or>
      (\<exists>h. r = return h \<and> ohv_hashes v1 = drop_oldest (ohv_maxCachedHashes v) (map_set (ohv_hashes v) s h))"
    using f by (auto simp: fetchHash_def split: hash_reply.splits sum.splits if_splits) metis
  have hashes_ok: "wf_map (ohv_hashes v1) \<and> length (ohv_hashes v1) \<le> ohv_maxCachedHashes v"
    using hashes inv by (auto simp: verifier_inv_def inv_intros length_drop_oldest)
  have hashes_said: "origin_said events q h" if "map_get (ohv_hashes v1) q = Some h" for q h
  proof (cases "ohv_hashes v1 = ohv_hashes v")
    case True
    then show ?thesis using that inv by (simp add: verifier_inv_def)
  next
    case False
    then obtain h' where h': "r = return h'" "ohv_hashes v1 = drop_oldest (ohv_maxCachedHashes v) (map_set (ohv_hashes v) s h')"
      using hashes by blast
    then have "map_get (map_set (ohv_hashes v) s h') q = Some h"
      using get_drop_oldest_some[of "map_set (ohv_hashes v) s h'"] that wf by simp
    then show ?thesis using said[OF h'(1)] inv by (auto simp: get_set verifier_inv_def split: if_splits)
  qed
  have "VerifyCalled c s d \<in> set events" if "(c, d) \<in> set waiting" for c d
    using that Some inv unfolding verifier_inv_def by fast
  note waiting = this
  have results: "\<exists>q data h. VerifyCalled c q data \<in> set events \<and> origin_said events q h \<and>
      peer_verifySegmentHash digest data h"
    if c: "(c, return True) \<in> set (ohv_results (hash_replied digest s reply v))" for c
  proof (cases "(c, return True) \<in> set (ohv_results v)")
    case True
    then show ?thesis using inv unfolding verifier_inv_def by blast
  next
    case False
    then obtain data h where "(c, data) \<in> set waiting" "r = return h" "peer_verifySegmentHash digest data h"
      using c by (auto simp: hash_replied_def Some f keep split: sum.splits)
    then show ?thesis using waiting said by blast
  qed
  have "ohv_hashes (hash_replied digest s reply v) = ohv_hashes v1"
    "ohv_maxCachedHashes (hash_replied digest s reply v) = ohv_maxCachedHashes v"
    "ohv_pendingHashes (hash_replied digest s reply v) = map_delete (ohv_pendingHashes v) s"
    by (simp_all add: hash_replied_def Some f keep)
  moreover have "\<forall>(call, data)\<in>set w. VerifyCalled call q data \<in> set events"
    if "map_get (map_delete (ohv_pendingHashes v) s) q = Some w" for q w
    using inv that unfolding verifier_inv_def by (auto simp: get_delete split: if_splits)
  ultimately show ?thesis
    using hashes_ok hashes_said results unfolding verifier_inv_def by simp
qed

lemma verifier_run: "verifier_inv digest events v0 \<Longrightarrow> verifier_inv digest (events @ es) (fold (verifier_step digest) es v0)"
proof (induction es arbitrary: events v0)
  case (Cons e es)
  have "verifier_inv digest (events @ [e]) (verifier_step digest e v0)"
    using verifier_inv_mono[OF Cons.prems, of e] by (cases e) (auto intro: verify_inv replied_inv)
  from Cons.IH[OF this] show ?case by simp
qed simp

text \<open>C27: A verification succeeds only when the Origin answered a digest request for that segment with a
  well-formed sidecar whose digest is the digest of the bytes, however calls, shared requests, the
  cache of digests and its evictions interleave; and the cache of digests stays within its size.\<close>

theorem verified_against_origin:
  assumes "new_origin_verifier maximum = return v" "\<And>d. list_all (\<lambda>b. b < 256) (digest d)"
    and "(call, return True) \<in> set (ohv_results (fold (verifier_step digest) events v))"
  shows "\<exists>segmentName data status text h. VerifyCalled call segmentName data \<in> set events \<and>
      HashReplied segmentName (HashResponse status True text) \<in> set events \<and>
      peer_parseSha256 text = return h \<and> digest data = from_hex h \<and>
      length (ohv_hashes (fold (verifier_step digest) events v)) \<le> ohv_maxCachedHashes v"
proof -
  have max: "ohv_maxCachedHashes (fold (verifier_step digest) es w) = ohv_maxCachedHashes w" for es w
  proof (induction es arbitrary: w)
    case (Cons e es)
    have "ohv_maxCachedHashes (verifier_step digest e w) = ohv_maxCachedHashes w"
      by (cases e) (auto simp: verify_def hash_replied_def fetchHash_def
          split: option.splits prod.splits hash_reply.splits sum.splits if_splits)
    with Cons show ?case by simp
  qed simp
  have "verifier_inv digest [] v"
    using assms(1) by (auto simp: new_origin_verifier_def verifier_inv_def split: if_splits)
  from verifier_run[OF this, of events]
  have inv: "verifier_inv digest events (fold (verifier_step digest) events v)" by simp
  with assms(3) obtain s data h where "VerifyCalled call s data \<in> set events" "origin_said events s h"
    "peer_verifySegmentHash digest data h"
    unfolding verifier_inv_def by blast
  moreover from this(3) have "digest data = from_hex h"
    using from_to_hex[OF assms(2)] by (simp add: peer_verifySegmentHash_def Let_def)
  moreover from \<open>origin_said events s h\<close> obtain status body where
    "HashReplied s (HashResponse status True body) \<in> set events" "peer_parseSha256 body = return h"
    unfolding origin_said_def by blast
  moreover have "length (ohv_hashes (fold (verifier_step digest) events v)) \<le> ohv_maxCachedHashes v"
    using inv max[of events v] unfolding verifier_inv_def by simp
  ultimately show ?thesis by blast
qed

definition sample_digest :: "nat list \<Rightarrow> nat list" where
  "sample_digest data = replicate 32 (sum_list data mod 256)"

definition sample_verifier_events :: "verifier_event list" where
  "sample_verifier_events = [VerifyCalled 1 ''0.ts'' [7, 9], VerifyCalled 2 ''0.ts'' [7, 8],
     HashReplied ''0.ts'' (HashResponse 200 True (to_hex (replicate 32 16)))]"

theorem verified_against_origin_witness:
  "\<exists>v. new_origin_verifier (Num 2000) = return v \<and>
    (\<exists>segmentName data status text h. VerifyCalled 1 segmentName data \<in> set sample_verifier_events \<and>
      HashReplied segmentName (HashResponse status True text) \<in> set sample_verifier_events \<and>
      peer_parseSha256 text = return h \<and> sample_digest data = from_hex h \<and>
      length (ohv_hashes (fold (verifier_step sample_digest) sample_verifier_events v)) \<le> ohv_maxCachedHashes v)"
proof -
  define v where "v = \<lparr>ohv_maxCachedHashes = 2000, ohv_hashes = [], ohv_pendingHashes = [], ohv_requests = [],
     ohv_results = []\<rparr>"
  have v: "new_origin_verifier (Num 2000) = return v" unfolding v_def by code_simp
  have "(1, return True) \<in> set (ohv_results (fold (verifier_step sample_digest) sample_verifier_events v))"
    unfolding v_def by code_simp
  moreover have "list_all (\<lambda>b. b < 256) (sample_digest d)" for d by (simp add: sample_digest_def list_all_iff)
  ultimately show ?thesis using verified_against_origin[OF v, of sample_digest 1 sample_verifier_events] v by blast
qed

end
