(* ===== verification/LlHls.thy ===== *)
theory LlHls
  imports JsText
begin

text \<open>
  The Origin's low-latency HLS parts (\<^verbatim>\<open>origin/src/ll-hls.ts\<close>): part names, their byte ranges and the
  playlist with part tags. Sizes and indexes are natural numbers; below 2^53 the divisions of the
  code are exact.
\<close>

section \<open>Part names\<close>

text \<open>\<^verbatim>\<open>/^(.+)\.part(\d+)\.ts$/\<close>: the digits before \<^verbatim>\<open>.ts\<close> are maximal, since what precedes them ends
  with a letter.\<close>

definition parsePartName :: "string \<Rightarrow> (string \<times> nat) option" where
  "parsePartName fileName =
     (if \<not> ends_with fileName ''.ts'' then None
      else
        (let stem = take (length fileName - 3) fileName;
             digits = rev (takeWhile is_digit (rev stem));
             front = take (length stem - length digits) stem;
             base = take (length front - 5) front in
         if digits = [] \<or> \<not> ends_with front ''.part'' \<or> base = [] \<or> list_ex is_line_end base then None
         else Some (base @ ''.ts'', digits_value digits)))"

section \<open>Part ranges\<close>

definition TS_PACKET_BYTES :: nat where "TS_PACKET_BYTES = 188"
definition SEGMENTS_WITH_PARTS :: nat where "SEGMENTS_WITH_PARTS = 3"

definition boundary :: "nat \<Rightarrow> nat \<Rightarrow> nat \<Rightarrow> nat" where
  "boundary size' count part =
     (if part \<ge> count then size' else (size' div TS_PACKET_BYTES * part) div count * TS_PACKET_BYTES)"

definition partRange :: "nat \<Rightarrow> nat \<Rightarrow> nat \<Rightarrow> nat \<times> nat" where
  "partRange size' index count = (boundary size' count index, boundary size' count (index + 1))"

section \<open>Playlists\<close>

definition EXTINF :: string where "EXTINF = ''#EXTINF:''"
definition TARGETDURATION :: string where "TARGETDURATION = ''#EXT-X-TARGETDURATION:''"

text \<open>\<^verbatim>\<open>lines.findIndex((candidate, i) => i > index && candidate.trim() !== "" && !candidate.startsWith("#"))\<close>\<close>

definition uri_index :: "string list \<Rightarrow> nat \<Rightarrow> nat option" where
  "uri_index lines index =
     find (\<lambda>i. i > index \<and> js_trim (lines ! i) \<noteq> [] \<and> \<not> starts_with (lines ! i) ''#'') [0..<length lines]"

definition part_line :: "(number \<Rightarrow> string) \<Rightarrow> number \<Rightarrow> string \<Rightarrow> nat \<Rightarrow> string" where
  "part_line text duration base part =
     ''#EXT-X-PART:DURATION='' @ to_fixed text 5 duration @ '',URI='' @ [CHR 0x22] @ base @ ''.part'' @
     nat_string part @ ''.ts'' @ [CHR 0x22] @ (if part = 0 then '',INDEPENDENT=YES'' else [])"

text \<open>The part lines of a segment line, with the index of its URI, when it gets parts.\<close>

definition segment_parts :: "(number \<Rightarrow> string) \<Rightarrow> nat \<Rightarrow> string list \<Rightarrow> nat \<Rightarrow> (string list \<times> nat) option" where
  "segment_parts text partsPerSegment lines index =
     (let duration = number_of_string (hd (js_split CHR '','' (drop (length EXTINF) (lines ! index)))) in
      case uri_index lines index of
        None \<Rightarrow> None
      | Some i \<Rightarrow>
          (let uri = js_trim (lines ! i) in
           if isFinite duration \<and> ends_with uri ''.ts'' then
             Some (map (part_line text (duration / nat_number partsPerSegment) (take (length uri - 3) uri))
               [0..<partsPerSegment], i)
           else None))"

definition playlist_tags :: "(number \<Rightarrow> string) \<Rightarrow> number \<Rightarrow> string list" where
  "playlist_tags text partTarget =
     [''#EXT-X-PART-INF:PART-TARGET='' @ to_fixed text 5 partTarget,
      ''#EXT-X-SERVER-CONTROL:PART-HOLD-BACK='' @ to_fixed text 5 (partTarget * Num 3)]"

text \<open>One line of the loop: the first component is \<^verbatim>\<open>partialUntil + 1\<close>. The newest segment is listed
  only as its parts; the lines up to its URI are dropped.\<close>

definition emit_line ::
    "(number \<Rightarrow> string) \<Rightarrow> nat \<Rightarrow> string list \<Rightarrow> string \<Rightarrow> number \<Rightarrow> nat list \<Rightarrow> nat \<Rightarrow> nat \<times> string list \<Rightarrow> nat \<times> string list" where
  "emit_line text partsPerSegment lines targetLine partTarget segmentIndexes index st =
     (case st of (resume, out) \<Rightarrow>
        if index < resume then st
        else
          (let withParts = drop (length segmentIndexes - SEGMENTS_WITH_PARTS) segmentIndexes;
               line = lines ! index;
               rest = line # (if line = targetLine then playlist_tags text partTarget else []) in
           case (if index \<in> set withParts then segment_parts text partsPerSegment lines index else None) of
             Some (parts, uri) \<Rightarrow>
               if index = last segmentIndexes then (Suc uri, out @ parts) else (resume, out @ parts @ rest)
           | None \<Rightarrow> (resume, out @ rest)))"

definition addPartsToPlaylist :: "(number \<Rightarrow> string) \<Rightarrow> string \<Rightarrow> nat \<Rightarrow> string" where
  "addPartsToPlaylist text playlist partsPerSegment =
     (let lines = js_split (CHR 0x0A) playlist;
          segmentIndexes = filter (\<lambda>i. starts_with (lines ! i) EXTINF) [0..<length lines] in
      if partsPerSegment = 0 \<or> segmentIndexes = [] then playlist
      else (case find (\<lambda>line. starts_with line TARGETDURATION) lines of
        None \<Rightarrow> playlist
      | Some targetLine \<Rightarrow>
          (let targetDuration = number_of_string (drop (length TARGETDURATION) targetLine) in
           if \<not> isFinite targetDuration \<or> targetDuration \<le> 0 then playlist
           else js_join [CHR 0x0A] (snd (fold
             (emit_line text partsPerSegment lines targetLine (targetDuration / nat_number partsPerSegment) segmentIndexes)
             [0..<length lines] (0, []))))))"

section \<open>Laws\<close>

lemma boundary_mono:
  assumes "p \<le> q"
  shows "boundary n count p \<le> boundary n count q"
proof (cases "q \<ge> count")
  case True
  have "n div 188 * p div count * 188 \<le> n" if "p < count"
  proof -
    have "n div 188 * p div count \<le> n div 188 * count div count" using that by (intro div_le_mono) simp
    also have "\<dots> \<le> n div 188" using that by simp
    finally have "n div 188 * p div count * 188 \<le> n div 188 * 188" by simp
    then show ?thesis using div_times_less_eq_dividend[of n 188] by linarith
  qed
  with True show ?thesis by (simp add: boundary_def TS_PACKET_BYTES_def)
next
  case False
  with assms have "n div 188 * p div count \<le> n div 188 * q div count" by (intro div_le_mono mult_le_mono) simp_all
  with False assms show ?thesis by (simp add: boundary_def TS_PACKET_BYTES_def)
qed

lemma slices_join:
  assumes "\<And>p q. p \<le> q \<Longrightarrow> f p \<le> (f q :: nat)" "f 0 = 0"
  shows "concat (map (\<lambda>i. take (f (Suc i) - f i) (drop (f i) data)) [0..<n]) = take (f n) data"
proof (induction n)
  case (Suc n)
  have "f n \<le> f (Suc n)" by (rule assms(1)) simp
  then have "f (Suc n) = f n + (f (Suc n) - f n)" by simp
  then have "take (f (Suc n)) data = take (f n) data @ take (f (Suc n) - f n) (drop (f n) data)"
    by (metis take_add)
  with Suc show ?case by simp
qed (simp add: assms(2))

text \<open>The parts of a segment, each sent as the slice of its range, concatenate to the segment's bytes,
  and every part but the last ends on a boundary of transport stream packets.\<close>

theorem parts_make_segment:
  assumes "0 < count"
  shows "concat (map (\<lambda>i. case partRange (length data) i count of (start, stop) \<Rightarrow>
      take (stop - start) (drop start data)) [0..<count]) = data \<and>
    (\<forall>i. i + 1 < count \<longrightarrow> 188 dvd snd (partRange (length data) i count))"
proof -
  have "boundary (length data) count 0 = 0" using assms by (simp add: boundary_def)
  from slices_join[of "boundary (length data) count", OF boundary_mono this, of data count]
  have "concat (map (\<lambda>i. case partRange (length data) i count of (start, stop) \<Rightarrow>
      take (stop - start) (drop start data)) [0..<count]) = take (boundary (length data) count count) data"
    by (simp add: partRange_def)
  moreover have "188 dvd snd (partRange (length data) i count)" if "i + 1 < count" for i
    using that by (simp add: partRange_def boundary_def TS_PACKET_BYTES_def)
  ultimately show ?thesis by (simp add: boundary_def)
qed

theorem parts_make_segment_witness:
  "concat (map (\<lambda>i. case partRange 1000 i 3 of (start, stop) \<Rightarrow>
      take (stop - start) (drop start [0..<1000])) [0..<3]) = [0..<1000] \<and> partRange 1000 1 3 = (188, 564)"
proof -
  have "concat (map (\<lambda>i. case partRange (length [0..<1000]) i 3 of (start, stop) \<Rightarrow>
      take (stop - start) (drop start [0..<1000])) [0..<3]) = [0..<1000]"
    using parts_make_segment[of 3 "[0..<1000]"] by simp
  moreover have "partRange 1000 1 3 = (188, 564)" by code_simp
  ultimately show ?thesis by (simp only: length_upt diff_zero simp_thms)
qed

text \<open>The file name under which the playlist lists a part is read back as that segment and index.\<close>

theorem part_names_roundtrip:
  assumes "base \<noteq> []" "\<not> list_ex is_line_end base"
  shows "parsePartName (base @ ''.part'' @ nat_string k @ ''.ts'') = Some (base @ ''.ts'', k)"
proof -
  let ?stem = "base @ ''.part'' @ nat_string k"
  have name: "base @ ''.part'' @ nat_string k @ ''.ts'' = ?stem @ ''.ts''" by simp
  have "take (length (s @ e) - 3) (s @ e) = s" if "length e = 3" for s e :: string using that by simp
  then have stem: "take (length (?stem @ ''.ts'') - 3) (?stem @ ''.ts'') = ?stem" by (simp only: list.size)
  have "rev ?stem = rev (nat_string k) @ CHR ''t'' # rev (base @ ''.par'')" by simp
  moreover have "list_all is_digit (rev (nat_string k))" using nat_string_digits[of k] by (simp add: list_all_iff)
  moreover have "\<not> is_digit CHR ''t''" by (simp add: is_digit_def)
  ultimately have digits: "rev (takeWhile is_digit (rev ?stem)) = nat_string k"
    by (simp add: takeWhile_append list_all_iff)
  have front: "take (length ?stem - length (nat_string k)) ?stem = base @ ''.part''" by simp
  have base: "take (length (base @ ''.part'') - 5) (base @ ''.part'') = base" by simp
  have ends: "ends_with (?stem @ ''.ts'') ''.ts''" "ends_with (base @ ''.part'') ''.part''"
    by (simp_all only: ends_with_def) (blast intro: suffixI)+
  have ne: "nat_string k \<noteq> []" using nat_string_digits[of k] by blast
  show ?thesis
    unfolding name parsePartName_def Let_def stem digits front base
    using ends ne assms by simp
qed

theorem part_names_roundtrip_witness:
  "parsePartName ''s12.part3.ts'' = Some (''s12.ts'', 3)"
proof -
  have "\<not> list_ex is_line_end ''s12''" by (simp add: is_line_end_def)
  moreover have "nat_string 3 = ''3''" by code_simp
  ultimately show ?thesis using part_names_roundtrip[of "''s12''" 3] by simp
qed

end
