(* ===== verification/Playlist.thy ===== *)
theory Playlist
  imports JsText
begin

text \<open>
  The Node peer's HLS playlist reader (\<^verbatim>\<open>peer/src/playlist.ts\<close>): media segment names, variants and the
  choice of a rendition. \<open>resolve\<close> is \<^verbatim>\<open>new URL(line, playlistUrl)\<close>, \<^theory_text>\<open>None\<close> when it throws.
\<close>

datatype playlist_error = InvalidLine | UnknownRendition "string list" | NoVariants

fun resolve_all :: "(string \<Rightarrow> url option) \<Rightarrow> string list \<Rightarrow> (playlist_error, url list) result" where
  "resolve_all resolve [] = return []"
| "resolve_all resolve (line # lines) = (case resolve line of
     None \<Rightarrow> throw InvalidLine
   | Some u \<Rightarrow> (case resolve_all resolve lines of Inl e \<Rightarrow> throw e | Inr us \<Rightarrow> return (u # us)))"

definition pathName :: "url \<Rightarrow> string option" where
  "pathName u =
     (let name = last (js_split CHR ''/'' (pathname u)) in
      if name \<noteq> [] \<and> isMediaSegmentFileName name then Some name else None)"

definition playlist_lines :: "string \<Rightarrow> string list" where
  "playlist_lines playlist = map js_trim (js_split (CHR 0x0A) playlist)"

definition playlistSegments :: "(string \<Rightarrow> url option) \<Rightarrow> string \<Rightarrow> (playlist_error, string list) result" where
  "playlistSegments resolve playlist =
     (case resolve_all resolve
        (filter (\<lambda>line. line \<noteq> [] \<and> \<not> starts_with line ''#'') (playlist_lines playlist)) of
        Inl e \<Rightarrow> throw e
      | Inr us \<Rightarrow> return (List.map_filter pathName us))"

section \<open>Variants\<close>

record PlaylistVariant =
  pv_url :: url
  pv_bandwidth :: number

definition STREAM_INF :: string where "STREAM_INF = ''#EXT-X-STREAM-INF:''"

text \<open>\<^verbatim>\<open>/(?:^|[:,])BANDWIDTH=(\d+)/\<close>: the digits of the first attribute of that name.\<close>

fun bandwidth_digits :: "bool \<Rightarrow> string \<Rightarrow> string option" where
  "bandwidth_digits here [] = None"
| "bandwidth_digits here (c # s) =
     (let ds = takeWhile is_digit (drop 10 (c # s)) in
      if here \<and> starts_with (c # s) ''BANDWIDTH='' \<and> ds \<noteq> [] then Some ds
      else bandwidth_digits (c = CHR '':'' \<or> c = CHR '','') s)"

definition line_bandwidth :: "string \<Rightarrow> number" where
  "line_bandwidth line = (case bandwidth_digits True line of
     None \<Rightarrow> Infinity | Some ds \<Rightarrow> number_of_string ds)"

fun collect_variants :: "(string \<Rightarrow> url option) \<Rightarrow> string list \<Rightarrow> number option \<Rightarrow> (playlist_error, PlaylistVariant list) result" where
  "collect_variants resolve [] bandwidth = return []"
| "collect_variants resolve (line # lines) bandwidth =
     (if starts_with line STREAM_INF then collect_variants resolve lines (Some (line_bandwidth line))
      else (case bandwidth of
        None \<Rightarrow> collect_variants resolve lines None
      | Some b \<Rightarrow>
          if line = [] \<or> starts_with line ''#'' then collect_variants resolve lines bandwidth
          else (case resolve line of
            None \<Rightarrow> throw InvalidLine
          | Some u \<Rightarrow> (case collect_variants resolve lines None of
              Inl e \<Rightarrow> throw e
            | Inr vs \<Rightarrow> return (\<lparr>pv_url = u, pv_bandwidth = b\<rparr> # vs)))))"

definition playlistVariants :: "(string \<Rightarrow> url option) \<Rightarrow> string \<Rightarrow> (playlist_error, PlaylistVariant list) result" where
  "playlistVariants resolve playlist = collect_variants resolve (playlist_lines playlist) None"

definition or_empty_text :: "string option \<Rightarrow> string" where
  "or_empty_text v = (case v of None \<Rightarrow> [] | Some s \<Rightarrow> s)"

definition without_m3u8 :: "string \<Rightarrow> string" where
  "without_m3u8 name = (if ends_with name ''.m3u8'' then take (length name - 5) name else name)"

definition variantNames :: "url \<Rightarrow> string list" where
  "variantNames u =
     (let segments = js_split CHR ''/'' (pathname u) in
      filter (\<lambda>name. name \<noteq> [])
        [or_empty_text (at_end segments 2), without_m3u8 (or_empty_text (at_end segments 1))])"

definition lower_variant :: "PlaylistVariant \<Rightarrow> PlaylistVariant \<Rightarrow> PlaylistVariant" where
  "lower_variant variant lowest = (if pv_bandwidth variant < pv_bandwidth lowest then variant else lowest)"

definition selectVariant :: "PlaylistVariant list \<Rightarrow> string option \<Rightarrow> (playlist_error, PlaylistVariant) result" where
  "selectVariant variants rendition = (case rendition of
     Some name \<Rightarrow>
       (case find (\<lambda>v. name \<in> set (variantNames (pv_url v))) variants of
          None \<Rightarrow> throw (UnknownRendition (concat (map (\<lambda>v. take 1 (variantNames (pv_url v))) variants)))
        | Some v \<Rightarrow> return v)
   | None \<Rightarrow>
       (case variants of
          [] \<Rightarrow> throw NoVariants
        | first # rest \<Rightarrow> return (fold lower_variant rest first)))"

section \<open>Laws\<close>

definition usable_variant :: "PlaylistVariant \<Rightarrow> bool" where
  "usable_variant v \<longleftrightarrow> pv_bandwidth v \<noteq> NaN"

lemma bandwidth_digit_string: "bandwidth_digits here s = Some ds \<Longrightarrow> digit_string ds"
  by (induction here s rule: bandwidth_digits.induct)
    (auto simp: Let_def digit_string_def list_all_iff dest: set_takeWhileD split: if_splits)

lemma line_bandwidth_usable: "line_bandwidth line \<noteq> NaN"
  using bandwidth_digit_string[of True line]
  by (auto simp: line_bandwidth_def number_of_digits split: option.split)

lemma collect_usable:
  "collect_variants resolve lines bandwidth = return vs \<Longrightarrow> (\<forall>b. bandwidth = Some b \<longrightarrow> b \<noteq> NaN) \<Longrightarrow>
     list_all usable_variant vs"
proof (induction resolve lines bandwidth arbitrary: vs rule: collect_variants.induct)
  case (2 resolve line lines bandwidth)
  then show ?case
    using line_bandwidth_usable[of line]
    by (auto split: if_splits option.splits sum.splits simp: usable_variant_def)
qed simp

text \<open>Keeping the smaller element from the left finds the first minimum.\<close>

definition first_lowest :: "PlaylistVariant list \<Rightarrow> PlaylistVariant \<Rightarrow> bool" where
  "first_lowest variants v \<longleftrightarrow> (\<exists>before after. variants = before @ v # after \<and>
     (\<forall>u\<in>set before. pv_bandwidth v < pv_bandwidth u) \<and> (\<forall>u\<in>set after. pv_bandwidth v \<le> pv_bandwidth u))"

lemma first_lowest_snoc:
  assumes low: "first_lowest vs m" and usable: "list_all usable_variant (vs @ [w])"
  shows "first_lowest (vs @ [w]) (lower_variant w m)"
proof -
  obtain before after where split: "vs = before @ m # after"
    and b: "\<forall>u\<in>set before. pv_bandwidth m < pv_bandwidth u" and a: "\<forall>u\<in>set after. pv_bandwidth m \<le> pv_bandwidth u"
    using low unfolding first_lowest_def by blast
  have n: "pv_bandwidth w \<noteq> NaN" "pv_bandwidth m \<noteq> NaN" using usable split by (simp_all add: usable_variant_def)
  show ?thesis
  proof (cases "pv_bandwidth w < pv_bandwidth m")
    case True
    have "pv_bandwidth w < pv_bandwidth u" if "u \<in> set vs" for u
    proof -
      have "u \<in> set before \<or> u = m \<or> u \<in> set after" using that split by auto
      then have "pv_bandwidth m \<le> pv_bandwidth u" using b a number_less_imp_le number_le_refl[OF n(2)] by blast
      with True show ?thesis by (rule number_less_le_trans)
    qed
    with True show ?thesis unfolding first_lowest_def lower_variant_def by (intro exI[of _ vs] exI[of _ "[]"]) simp
  next
    case False
    then have "pv_bandwidth m \<le> pv_bandwidth w" using number_not_less[OF n] by blast
    then show ?thesis
      using split a b False unfolding first_lowest_def lower_variant_def
      by (intro exI[of _ before] exI[of _ "after @ [w]"]) simp
  qed
qed

lemma fold_first_lowest: "list_all usable_variant (v # vs) \<Longrightarrow> first_lowest (v # vs) (fold lower_variant vs v)"
proof (induction vs rule: rev_induct)
  case Nil
  show ?case unfolding first_lowest_def by (intro exI[of _ "[]"]) simp
next
  case (snoc w vs)
  then have "first_lowest (v # vs) (fold lower_variant vs v)" by simp
  from first_lowest_snoc[OF this, of w] snoc.prems show ?case by simp
qed

text \<open>Without a rendition the peer follows the first of the variants with the lowest bandwidth, so
  peers that read the same playlist pick the same one; with a rendition it follows the first variant
  whose directory or file stem is that name, and fails exactly when there is none.\<close>

theorem select_variant_choice:
  assumes "playlistVariants resolve playlist = return variants"
  shows "case rendition of
      None \<Rightarrow> (case selectVariant variants None of
          Inl e \<Rightarrow> variants = [] \<and> e = NoVariants
        | Inr v \<Rightarrow> (\<exists>before after. variants = before @ v # after \<and>
            (\<forall>u\<in>set before. pv_bandwidth v < pv_bandwidth u) \<and> (\<forall>u\<in>set after. pv_bandwidth v \<le> pv_bandwidth u)))
    | Some name \<Rightarrow> (case selectVariant variants rendition of
          Inl e \<Rightarrow> (\<forall>v\<in>set variants. name \<notin> set (variantNames (pv_url v)))
        | Inr v \<Rightarrow> name \<in> set (variantNames (pv_url v)) \<and>
            (\<exists>before after. variants = before @ v # after \<and>
              (\<forall>u\<in>set before. name \<notin> set (variantNames (pv_url u)))))"
proof (cases rendition)
  case None
  have usable: "list_all usable_variant variants"
    using assms unfolding playlistVariants_def by (rule collect_usable) simp
  show ?thesis
  proof (cases variants)
    case (Cons v vs)
    then show ?thesis
      using fold_first_lowest[of v vs] usable by (simp add: None selectVariant_def first_lowest_def)
  qed (simp add: None selectVariant_def)
next
  case (Some name)
  show ?thesis
  proof (cases "find (\<lambda>v. name \<in> set (variantNames (pv_url v))) variants")
    case None
    then have "\<forall>v\<in>set variants. name \<notin> set (variantNames (pv_url v))" by (simp add: find_None_iff)
    then show ?thesis by (simp add: Some None selectVariant_def)
  next
    case found: (Some v)
    then obtain i where i: "i < length variants" "name \<in> set (variantNames (pv_url (variants ! i)))" "v = variants ! i"
      "\<forall>j<i. name \<notin> set (variantNames (pv_url (variants ! j)))"
      by (auto simp: find_Some_iff)
    have "variants = take i variants @ v # drop (Suc i) variants" using i by (simp add: id_take_nth_drop)
    moreover have "\<forall>u\<in>set (take i variants). name \<notin> set (variantNames (pv_url u))"
      using i by (auto simp: in_set_conv_nth)
    ultimately show ?thesis using i(2,3) by (auto simp: Some found selectVariant_def)
  qed
qed

definition sample_resolve :: "string \<Rightarrow> url option" where
  "sample_resolve line = Some \<lparr>protocol = ''https:'', username = [], password = [], hostname = ''origin'',
     pathname = ''/hls/'' @ line, search = [], url_hash = []\<rparr>"

definition sample_master :: string where
  "sample_master = js_join [CHR 0x0A] [''#EXTM3U'',
     ''#EXT-X-STREAM-INF:'', ''720p/v.m3u8'', ''#EXT-X-STREAM-INF:'', ''240p/v.m3u8'']"

theorem select_variant_choice_witness:
  "case playlistVariants sample_resolve sample_master of
      Inl e \<Rightarrow> False
    | Inr variants \<Rightarrow> (case selectVariant variants (Some ''720p'') of
        Inl e \<Rightarrow> False | Inr v \<Rightarrow> ''720p'' \<in> set (variantNames (pv_url v)))"
proof -
  have "is_return (playlistVariants sample_resolve sample_master)" by code_simp
  then obtain variants where v: "playlistVariants sample_resolve sample_master = return variants"
    by (cases "playlistVariants sample_resolve sample_master") auto
  have "case playlistVariants sample_resolve sample_master of Inl e \<Rightarrow> False
      | Inr variants \<Rightarrow> is_return (selectVariant variants (Some ''720p''))" by code_simp
  then show ?thesis using select_variant_choice[OF v, of "Some ''720p''"] v
    by (auto split: sum.splits)
qed

end
