(* ===== verification/Transports.thy ===== *)
theory Transports
  imports Common
begin

text \<open>
  The Node peer's HTTP transport (\<^verbatim>\<open>peer/src/http-transport.ts\<close>) and the manager that tries WebRTC
  first and falls back to HTTP (\<^verbatim>\<open>peer/src/transport-manager.ts\<close>). The outcome of a network request, the
  verdict of the verifier and the elapsed time are arguments.
\<close>

section \<open>Statistics of a transport\<close>

record LatencyStats =
  lat_min :: number
  lat_max :: number
  lat_average :: number

record TransportStats =
  tst_segmentsFetched :: nat
  tst_segmentsFailed :: nat
  tst_bytesTransferred :: nat
  tst_latencyMs :: LatencyStats

definition empty_transport_stats :: TransportStats where
  "empty_transport_stats = \<lparr>tst_segmentsFetched = 0, tst_segmentsFailed = 0, tst_bytesTransferred = 0,
     tst_latencyMs = \<lparr>lat_min = Infinity, lat_max = 0, lat_average = 0\<rparr>\<rparr>"

definition transport_success :: "nat \<Rightarrow> number \<Rightarrow> TransportStats \<Rightarrow> TransportStats" where
  "transport_success bytes latencyMs s =
     (let count = tst_segmentsFetched s + 1; previous = tst_latencyMs s in
      s\<lparr>tst_segmentsFetched := count, tst_bytesTransferred := tst_bytesTransferred s + bytes,
        tst_latencyMs := \<lparr>lat_min = math_min (lat_min previous) latencyMs,
          lat_max = math_max (lat_max previous) latencyMs,
          lat_average = lat_average previous + (latencyMs - lat_average previous) / nat_number count\<rparr>\<rparr>)"

definition transport_failure :: "TransportStats \<Rightarrow> TransportStats" where
  "transport_failure s = s\<lparr>tst_segmentsFailed := tst_segmentsFailed s + 1\<rparr>"

section \<open>HTTP\<close>

record HttpTransport =
  htt_activePeers :: "string list"
  htt_authorizationTokens :: "(string, string) jsmap"
  htt_stats :: TransportStats

definition new_http_transport :: HttpTransport where
  "new_http_transport = \<lparr>htt_activePeers = [], htt_authorizationTokens = [], htt_stats = empty_transport_stats\<rparr>"

definition http_stop :: "HttpTransport \<Rightarrow> HttpTransport" where
  "http_stop t = t\<lparr>htt_activePeers := [], htt_authorizationTokens := []\<rparr>"

text \<open>An absent or empty token is no token.\<close>

fun given_token :: "string option \<Rightarrow> string option" where
  "given_token (Some (c # s)) = Some (c # s)"
| "given_token _ = None"

definition http_setPeers :: "(string \<times> string option) list \<Rightarrow> HttpTransport \<Rightarrow> HttpTransport" where
  "http_setPeers peers t =
     t\<lparr>htt_activePeers := map fst peers,
       htt_authorizationTokens := fold (\<lambda>(address, token) m. case given_token token of
          None \<Rightarrow> m | Some v \<Rightarrow> map_set m address v) peers []\<rparr>"

definition setPeerAuthorization :: "string \<Rightarrow> string option \<Rightarrow> HttpTransport \<Rightarrow> HttpTransport" where
  "setPeerAuthorization address token t =
     t\<lparr>htt_authorizationTokens := (case given_token token of
        Some v \<Rightarrow> map_set (htt_authorizationTokens t) address v
      | None \<Rightarrow> map_delete (htt_authorizationTokens t) address)\<rparr>"

datatype transport_error =
    BadPeerAddress peer_url_error | RequestFailed | PeerStatus nat | IntegrityRejected

text \<open>What the network answers: no response (a refused, timed out or aborted request, or a body that
  breaks off), or a status with the bytes; \<open>verdict\<close> is the verifier's answer, \<^theory_text>\<open>None\<close> when it throws.\<close>

datatype http_outcome = NoResponse | HttpResponse nat bool "nat list"

record HttpRequest =
  hrq_base :: url
  hrq_segment :: string
  hrq_authorization :: "string option"

definition http_request ::
    "(string \<Rightarrow> url option) \<Rightarrow> string \<Rightarrow> string \<Rightarrow> HttpTransport \<Rightarrow> (transport_error, HttpRequest) result" where
  "http_request parse_url peerAddress segmentName t =
     (case validatePeerHttpBaseUrl parse_url peerAddress of
        Inl e \<Rightarrow> throw (BadPeerAddress e)
      | Inr base \<Rightarrow> return \<lparr>hrq_base = base, hrq_segment = segmentName,
          hrq_authorization = map_option (\<lambda>token. ''Bearer '' @ token)
            (map_get (htt_authorizationTokens t) peerAddress)\<rparr>)"

definition http_body ::
    "(string \<Rightarrow> nat list \<Rightarrow> bool option) option \<Rightarrow> string \<Rightarrow> http_outcome \<Rightarrow> (transport_error, nat list) result" where
  "http_body verifier segmentName outcome = (case outcome of
     NoResponse \<Rightarrow> throw RequestFailed
   | HttpResponse status ok bytes \<Rightarrow>
       if \<not> ok then throw (PeerStatus status)
       else (case verifier of
         None \<Rightarrow> return bytes
       | Some check \<Rightarrow> (case check segmentName bytes of
           None \<Rightarrow> throw RequestFailed
         | Some valid \<Rightarrow> if valid then return bytes else throw IntegrityRejected)))"

definition http_requestSegment ::
    "(string \<Rightarrow> url option) \<Rightarrow> (string \<Rightarrow> nat list \<Rightarrow> bool option) option \<Rightarrow> string \<Rightarrow> string \<Rightarrow>
     (HttpRequest \<Rightarrow> http_outcome) \<Rightarrow> number \<Rightarrow> HttpTransport \<Rightarrow> (transport_error, nat list) result \<times> HttpTransport" where
  "http_requestSegment parse_url verifier peerAddress segmentName network elapsedMs t =
     (case (case http_request parse_url peerAddress segmentName t of
              Inl e \<Rightarrow> throw e
            | Inr request \<Rightarrow> http_body verifier segmentName (network request)) of
        Inl e \<Rightarrow> (throw e, t\<lparr>htt_stats := transport_failure (htt_stats t)\<rparr>)
      | Inr bytes \<Rightarrow> (return bytes, t\<lparr>htt_stats := transport_success (length bytes) elapsedMs (htt_stats t)\<rparr>))"

section \<open>The manager\<close>

datatype managed_transport = WebRtcName | HttpName

record TransportAttemptStats =
  tas_successes :: nat
  tas_failures :: nat

record TransportManagerStats =
  tms_lastTransport :: "managed_transport option"
  tms_webrtc :: TransportAttemptStats
  tms_http :: TransportAttemptStats

record TransportPeer =
  tp_id :: string
  tp_address :: string
  tp_metadata :: "metadata option"

definition MAX_TRACKED_PEERS :: nat where "MAX_TRACKED_PEERS = 2000"

definition no_attempts :: TransportAttemptStats where
  "no_attempts = \<lparr>tas_successes = 0, tas_failures = 0\<rparr>"

definition no_usage :: TransportManagerStats where
  "no_usage = \<lparr>tms_lastTransport = None, tms_webrtc = no_attempts, tms_http = no_attempts\<rparr>"

text \<open>The WebRTC adapter's state is a type parameter.\<close>

record 'w TransportManager =
  tmg_webRtcEnabled :: bool
  tmg_peerIdsByAddress :: "(string, string) jsmap"
  tmg_usage :: TransportManagerStats
  tmg_http :: HttpTransport
  tmg_webRtc :: 'w

definition new_transport_manager :: "bool \<Rightarrow> 'w \<Rightarrow> 'w TransportManager" where
  "new_transport_manager enabled webRtc =
     \<lparr>tmg_webRtcEnabled = enabled, tmg_peerIdsByAddress = [], tmg_usage = no_usage,
      tmg_http = new_http_transport, tmg_webRtc = webRtc\<rparr>"

fun record_success :: "managed_transport \<Rightarrow> TransportManagerStats \<Rightarrow> TransportManagerStats" where
  "record_success WebRtcName u = u\<lparr>tms_lastTransport := Some WebRtcName,
     tms_webrtc := (tms_webrtc u)\<lparr>tas_successes := tas_successes (tms_webrtc u) + 1\<rparr>\<rparr>"
| "record_success HttpName u = u\<lparr>tms_lastTransport := Some HttpName,
     tms_http := (tms_http u)\<lparr>tas_successes := tas_successes (tms_http u) + 1\<rparr>\<rparr>"

fun record_failure :: "managed_transport \<Rightarrow> TransportManagerStats \<Rightarrow> TransportManagerStats" where
  "record_failure WebRtcName u = u\<lparr>tms_webrtc := (tms_webrtc u)\<lparr>tas_failures := tas_failures (tms_webrtc u) + 1\<rparr>\<rparr>"
| "record_failure HttpName u = u\<lparr>tms_http := (tms_http u)\<lparr>tas_failures := tas_failures (tms_http u) + 1\<rparr>\<rparr>"

text \<open>\<open>web_rtc\<close> requests a segment from a peer id, \<open>http\<close> from an address; each returns the adapter's
  new state.\<close>

definition manager_fetchSegment ::
    "(string \<Rightarrow> string \<Rightarrow> 'w \<Rightarrow> ('e, nat list) result \<times> 'w) \<Rightarrow>
     (string \<Rightarrow> string \<Rightarrow> HttpTransport \<Rightarrow> (transport_error, nat list) result \<times> HttpTransport) \<Rightarrow>
     string \<Rightarrow> string \<Rightarrow> 'w TransportManager \<Rightarrow> (transport_error, nat list) result \<times> 'w TransportManager" where
  "manager_fetchSegment web_rtc http segmentName peerAddress m =
     (let webRtcPeerId = (case map_get (tmg_peerIdsByAddress m) peerAddress of
            None \<Rightarrow> peerAddress | Some p \<Rightarrow> p);
          (direct, w) = (if tmg_webRtcEnabled m
            then (case web_rtc webRtcPeerId segmentName (tmg_webRtc m) of
              (Inr bytes, w) \<Rightarrow> (Some bytes, w) | (Inl e, w) \<Rightarrow> (None, w))
            else (None, tmg_webRtc m)) in
      case direct of
        Some bytes \<Rightarrow>
          (return bytes, m\<lparr>tmg_webRtc := w, tmg_usage := record_success WebRtcName (tmg_usage m)\<rparr>)
      | None \<Rightarrow>
          (case http peerAddress segmentName (tmg_http m) of
             (r, h) \<Rightarrow>
               (r, m\<lparr>tmg_webRtc := w, tmg_http := h,
                     tmg_usage := (if is_return r then record_success else record_failure) HttpName
                       (record_failure WebRtcName (tmg_usage m))\<rparr>)))"

definition upload_token :: "TransportPeer \<Rightarrow> string option" where
  "upload_token p = (case tp_metadata p of None \<Rightarrow> None | Some md \<Rightarrow> map_get md ''uploadToken'')"

definition manager_setPeers :: "TransportPeer list \<Rightarrow> 'w TransportManager \<Rightarrow> 'w TransportManager" where
  "manager_setPeers peers m =
     m\<lparr>tmg_peerIdsByAddress := fold (\<lambda>p ids. map_set ids (tp_address p) (tp_id p)) peers [],
       tmg_http := http_setPeers (map (\<lambda>p. (tp_address p, upload_token p)) peers) (tmg_http m)\<rparr>"

definition registerPeer :: "TransportPeer \<Rightarrow> 'w TransportManager \<Rightarrow> 'w TransportManager" where
  "registerPeer p m =
     m\<lparr>tmg_peerIdsByAddress := drop_oldest MAX_TRACKED_PEERS
          (map_touch (tmg_peerIdsByAddress m) (tp_address p) (tp_id p)),
       tmg_http := setPeerAuthorization (tp_address p) (upload_token p) (tmg_http m)\<rparr>"

definition manager_peers :: "string list \<Rightarrow> 'w TransportManager \<Rightarrow> string list" where
  "manager_peers webRtcPeers m =
     new_set (map_keys (tmg_peerIdsByAddress m) @ webRtcPeers @ htt_activePeers (tmg_http m))"

definition manager_resetStats :: "('w \<Rightarrow> 'w) \<Rightarrow> 'w TransportManager \<Rightarrow> 'w TransportManager" where
  "manager_resetStats reset_web_rtc m =
     m\<lparr>tmg_usage := no_usage, tmg_webRtc := reset_web_rtc (tmg_webRtc m),
       tmg_http := (tmg_http m)\<lparr>htt_stats := empty_transport_stats\<rparr>\<rparr>"

definition manager_stop :: "('w \<Rightarrow> 'w) \<Rightarrow> 'w TransportManager \<Rightarrow> 'w TransportManager" where
  "manager_stop stop_web_rtc m =
     m\<lparr>tmg_webRtc := stop_web_rtc (tmg_webRtc m), tmg_http := http_stop (tmg_http m), tmg_peerIdsByAddress := []\<rparr>"

section \<open>Laws\<close>

definition attempts_of :: "TransportAttemptStats \<Rightarrow> nat" where
  "attempts_of s = tas_successes s + tas_failures s"

text \<open>A fetch returns the WebRTC bytes when WebRTC is enabled and delivers, and otherwise exactly what
  HTTP returns, success or error; HTTP is not tried (its state and counters stay) after a WebRTC
  success, every fetch counts one WebRTC attempt, and the last transport is the one that delivered.\<close>

theorem fallback_outcome:
  "case manager_fetchSegment web_rtc http segmentName peerAddress m of (r, m') \<Rightarrow>
     attempts_of (tms_webrtc (tmg_usage m')) = attempts_of (tms_webrtc (tmg_usage m)) + 1 \<and>
     (case fst (web_rtc (case map_get (tmg_peerIdsByAddress m) peerAddress of None \<Rightarrow> peerAddress | Some p \<Rightarrow> p)
              segmentName (tmg_webRtc m)) of
        Inr bytes \<Rightarrow>
          if tmg_webRtcEnabled m then
            r = return bytes \<and> tmg_http m' = tmg_http m \<and> tms_http (tmg_usage m') = tms_http (tmg_usage m) \<and>
            tms_lastTransport (tmg_usage m') = Some WebRtcName
          else r = fst (http peerAddress segmentName (tmg_http m))
      | Inl e \<Rightarrow>
          r = fst (http peerAddress segmentName (tmg_http m)) \<and>
          tmg_http m' = snd (http peerAddress segmentName (tmg_http m)) \<and>
          attempts_of (tms_http (tmg_usage m')) = attempts_of (tms_http (tmg_usage m)) + 1 \<and>
          tms_lastTransport (tmg_usage m') =
            (if is_return r then Some HttpName else tms_lastTransport (tmg_usage m)))"
  by (auto simp: manager_fetchSegment_def Let_def attempts_of_def split: option.split prod.split sum.split)

lemma register_tokens:
  assumes "distinct (map tp_address ps)" "\<And>p. p \<in> set ps \<Longrightarrow> given_token (upload_token p) \<noteq> None"
    and "\<And>p. p \<in> set ps \<Longrightarrow> tp_address p \<notin> set (map_keys (htt_authorizationTokens (tmg_http m)))"
  shows "length (htt_authorizationTokens (tmg_http (fold registerPeer ps m))) =
    length (htt_authorizationTokens (tmg_http m)) + length ps"
  using assms
proof (induction ps arbitrary: m)
  case (Cons p ps)
  obtain v where v: "given_token (upload_token p) = Some v" using Cons.prems(2)[of p] by auto
  have fresh: "tp_address p \<notin> set (map_keys (htt_authorizationTokens (tmg_http m)))" using Cons.prems(3)[of p] by simp
  have reg: "htt_authorizationTokens (tmg_http (registerPeer p m)) =
      htt_authorizationTokens (tmg_http m) @ [(tp_address p, v)]"
    using set_fresh[OF fresh] by (simp add: registerPeer_def setPeerAuthorization_def v)
  have "length (htt_authorizationTokens (tmg_http (fold registerPeer ps (registerPeer p m)))) =
      length (htt_authorizationTokens (tmg_http (registerPeer p m))) + length ps"
  proof (rule Cons.IH)
    show "tp_address q \<notin> set (map_keys (htt_authorizationTokens (tmg_http (registerPeer p m))))" if "q \<in> set ps" for q
    proof -
      have "tp_address q \<noteq> tp_address p" using Cons.prems(1) that by (auto simp: image_iff)
      moreover have "tp_address q \<notin> set (map_keys (htt_authorizationTokens (tmg_http m)))" using Cons.prems(3) that by simp
      ultimately show ?thesis by (simp add: reg)
    qed
  qed (use Cons.prems in auto)
  then show ?case by (simp add: reg)
qed simp

lemma register_ids: "length (tmg_peerIdsByAddress (registerPeer p m)) \<le> MAX_TRACKED_PEERS"
  by (simp add: registerPeer_def length_drop_oldest)

text \<open>The addresses the manager tracks stay within their limit, but the upload tokens it passes on to
  the HTTP transport do not: every peer ever registered with a token keeps it there.\<close>

theorem registered_tokens_grow:
  assumes "distinct (map tp_address ps)" "\<And>p. p \<in> set ps \<Longrightarrow> given_token (upload_token p) \<noteq> None"
  shows "length (tmg_peerIdsByAddress (fold registerPeer ps (new_transport_manager enabled w))) \<le> MAX_TRACKED_PEERS \<and>
    length (htt_authorizationTokens (tmg_http (fold registerPeer ps (new_transport_manager enabled w)))) = length ps"
proof -
  have "length (tmg_peerIdsByAddress (fold registerPeer ps m)) \<le> MAX_TRACKED_PEERS"
    if "length (tmg_peerIdsByAddress m) \<le> MAX_TRACKED_PEERS" for m :: "'a TransportManager"
    using that by (induction ps arbitrary: m) (simp_all add: register_ids)
  then show ?thesis
    using register_tokens[OF assms, of "new_transport_manager enabled w"]
    by (simp add: new_transport_manager_def new_http_transport_def)
qed

definition sample_transport_peer :: "nat \<Rightarrow> TransportPeer" where
  "sample_transport_peer n = \<lparr>tp_id = replicate n CHR ''p'', tp_address = replicate n CHR ''a'',
     tp_metadata = Some [(''uploadToken'', ''t'')]\<rparr>"

theorem registered_tokens_grow_witness:
  "length (tmg_peerIdsByAddress (fold registerPeer (map sample_transport_peer [0..<3000]) (new_transport_manager True ()))) \<le> 2000 \<and>
   length (htt_authorizationTokens (tmg_http (fold registerPeer (map sample_transport_peer [0..<3000])
     (new_transport_manager True ())))) = 3000"
proof -
  have "distinct (map tp_address (map sample_transport_peer [0..<3000]))"
    by (simp add: sample_transport_peer_def distinct_map inj_on_def comp_def)
  moreover have "given_token (upload_token p) \<noteq> None" if "p \<in> set (map sample_transport_peer [0..<3000])" for p
    using that by (auto simp: sample_transport_peer_def upload_token_def)
  ultimately show ?thesis
    using registered_tokens_grow[of "map sample_transport_peer [0..<3000]" True "()"] by (simp add: MAX_TRACKED_PEERS_def)
qed

end
