(* ===== verification/UriText.thy ===== *)
theory UriText
  imports JsText
begin

text \<open>
  Percent-encoding: \<^verbatim>\<open>encodeURIComponent\<close> and \<^verbatim>\<open>decodeURIComponent\<close> of ECMAScript, over UTF-8. A text of 8-bit code units encodes to at most two
  bytes per unit; decoding returns code points and is \<^theory_text>\<open>None\<close> where ECMAScript throws a \<^verbatim>\<open>URIError\<close>.
\<close>

section \<open>Encoding\<close>

definition uri_unreserved :: "char \<Rightarrow> bool" where
  "uri_unreserved c \<longleftrightarrow> is_alnum c \<or> c \<in> {CHR ''-'', CHR ''_'', CHR ''.'', CHR ''!'', CHR ''~'', CHR ''*'',
     CHR 0x27, CHR ''('', CHR '')''}"

definition upper_hex :: "nat \<Rightarrow> char" where
  "upper_hex n = ''0123456789ABCDEF'' ! n"

definition percent :: "nat \<Rightarrow> string" where
  "percent b = [CHR ''%'', upper_hex (b div 16), upper_hex (b mod 16)]"

definition encode_char :: "char \<Rightarrow> string" where
  "encode_char c =
     (let n = of_char c in
      if uri_unreserved c then [c]
      else if n < 128 then percent n
      else percent (192 + n div 64) @ percent (128 + n mod 64))"

definition encodeURIComponent :: "string \<Rightarrow> string" where
  "encodeURIComponent s = concat (map encode_char s)"

section \<open>Decoding\<close>

fun percent_byte :: "string \<Rightarrow> (nat \<times> string) option" where
  "percent_byte (c # a # b # s) =
     (if c = CHR ''%'' \<and> radix_digit a < 16 \<and> radix_digit b < 16
      then Some (16 * radix_digit a + radix_digit b, s) else None)"
| "percent_byte _ = None"

text \<open>\<open>n\<close> continuation bytes, shifted into the code point read so far.\<close>

fun continuation :: "nat \<Rightarrow> nat \<Rightarrow> string \<Rightarrow> (nat \<times> string) option" where
  "continuation 0 v s = Some (v, s)"
| "continuation (Suc n) v s = (case percent_byte s of
     None \<Rightarrow> None
   | Some (b, s') \<Rightarrow> if 128 \<le> b \<and> b < 192 then continuation n (64 * v + (b - 128)) s' else None)"

text \<open>One encoded character; overlong forms, surrogates and values beyond \<^verbatim>\<open>U+10FFFF\<close> are no UTF-8.\<close>

definition decode_escape :: "string \<Rightarrow> (nat \<times> string) option" where
  "decode_escape s = (case percent_byte s of
     None \<Rightarrow> None
   | Some (b, s') \<Rightarrow>
       if b < 128 then Some (b, s')
       else if 192 \<le> b \<and> b < 224 then
         (case continuation 1 (b - 192) s' of None \<Rightarrow> None
          | Some (v, t) \<Rightarrow> if 128 \<le> v then Some (v, t) else None)
       else if 224 \<le> b \<and> b < 240 then
         (case continuation 2 (b - 224) s' of None \<Rightarrow> None
          | Some (v, t) \<Rightarrow> if 2048 \<le> v \<and> \<not> (55296 \<le> v \<and> v \<le> 57343) then Some (v, t) else None)
       else if 240 \<le> b \<and> b < 248 then
         (case continuation 3 (b - 240) s' of None \<Rightarrow> None
          | Some (v, t) \<Rightarrow> if 65536 \<le> v \<and> v \<le> 1114111 then Some (v, t) else None)
       else None)"

lemma percent_byte_shorter: "percent_byte s = Some (b, t) \<Longrightarrow> length t < length s"
  by (induction s rule: percent_byte.induct) (auto split: if_splits)

lemma continuation_shorter: "continuation n v s = Some (w, t) \<Longrightarrow> length t \<le> length s"
  by (induction n v s rule: continuation.induct)
    (fastforce dest: percent_byte_shorter split: option.splits prod.splits if_splits)+

lemma decode_escape_shorter: "decode_escape s = Some (v, t) \<Longrightarrow> length t < length s"
  unfolding decode_escape_def
  by (auto dest!: percent_byte_shorter continuation_shorter split: option.splits prod.splits if_splits)

function decodeURIComponent :: "string \<Rightarrow> nat list option" where
  "decodeURIComponent [] = Some []"
| "decodeURIComponent (c # s) =
     (if c = CHR ''%'' then
        (case decode_escape (c # s) of
           None \<Rightarrow> None
         | Some (v, t) \<Rightarrow> map_option ((#) v) (decodeURIComponent t))
      else map_option ((#) (of_char c)) (decodeURIComponent s))"
  by pat_completeness auto
termination
  by (relation "measure length") (auto dest: decode_escape_shorter)

text \<open>The decoded text, when all its code points are code units of the model.\<close>

definition decoded_text :: "nat list \<Rightarrow> string option" where
  "decoded_text points = (if list_all (\<lambda>p. p < 256) points then Some (map char_of points) else None)"

section \<open>Laws\<close>

lemma upper_hex_facts: "n < 16 \<Longrightarrow> radix_digit (upper_hex n) = n"
proof -
  have "list_all (\<lambda>n. radix_digit (upper_hex n) = n) [0..<16]" by code_simp
  then show "n < 16 \<Longrightarrow> radix_digit (upper_hex n) = n" by (simp add: list_all_iff)
qed

lemma percent_byte_percent: "b < 256 \<Longrightarrow> percent_byte (percent b @ s) = Some (b, s)"
  using upper_hex_facts[of "b div 16"] upper_hex_facts[of "b mod 16"]
  by (simp add: percent_def div_less_iff_less_mult)

lemma char_code_bound: "(of_char c :: nat) < 256"
  using nat_of_char_less_256[of c] by simp

lemma decode_escape_encoded:
  assumes "\<not> uri_unreserved c"
  shows "decode_escape (encode_char c @ s) = Some (of_char c, s)"
proof -
  define n :: nat where "n = of_char c"
  have n: "n < 256" unfolding n_def by (rule char_code_bound)
  show ?thesis
  proof (cases "n < 128")
    case True
    then show ?thesis using assms
      by (simp add: encode_char_def Let_def decode_escape_def percent_byte_percent flip: n_def)
  next
    case False
    then have hi: "2 \<le> n div 64" "n div 64 < 4" using n by auto
    have lo: "128 + n mod 64 < 192" by simp
    have "percent_byte (percent (192 + n div 64) @ percent (128 + n mod 64) @ s) =
        Some (192 + n div 64, percent (128 + n mod 64) @ s)"
      using hi by (intro percent_byte_percent) simp
    moreover have "percent_byte (percent (128 + n mod 64) @ s) = Some (128 + n mod 64, s)"
      using lo by (intro percent_byte_percent) simp
    ultimately show ?thesis
      using False assms hi lo by (simp add: encode_char_def Let_def decode_escape_def numeral_2_eq_2 flip: n_def)
  qed
qed

lemma encode_char_head: "\<not> uri_unreserved c \<Longrightarrow> \<exists>t. encode_char c = CHR ''%'' # t"
  by (auto simp: encode_char_def Let_def percent_def)

lemma decode_encoded_char:
  "decodeURIComponent (encode_char c @ s) = map_option ((#) (of_char c)) (decodeURIComponent s)"
proof (cases "uri_unreserved c")
  case True
  then have "c \<noteq> CHR ''%''" by (auto simp: uri_unreserved_def is_alnum_def is_digit_def less_eq_char_def)
  with True show ?thesis by (simp add: encode_char_def Let_def)
next
  case False
  obtain t where t: "encode_char c = CHR ''%'' # t" using encode_char_head[OF False] by blast
  show ?thesis using decode_escape_encoded[OF False, of s] by (simp add: t)
qed

text \<open>What one side puts into a path, the other side reads back.\<close>

lemma decode_encoded: "decodeURIComponent (encodeURIComponent s) = Some (map of_char s)"
  by (induction s) (simp_all add: encodeURIComponent_def decode_encoded_char)

lemma decoded_text_codes: "decoded_text (map of_char s) = Some s"
  by (simp add: decoded_text_def list_all_iff char_code_bound comp_def)

lemma unreserved_no_slash: "CHR ''/'' \<notin> set (encodeURIComponent s)"
proof -
  have hex: "n < 16 \<Longrightarrow> upper_hex n \<noteq> CHR ''/''" for n
  proof -
    have "list_all (\<lambda>n. upper_hex n \<noteq> CHR ''/'') [0..<16]" by code_simp
    then show "n < 16 \<Longrightarrow> upper_hex n \<noteq> CHR ''/''" by (simp add: list_all_iff)
  qed
  have percent: "b < 256 \<Longrightarrow> CHR ''/'' \<notin> set (percent b)" for b
    using hex[of "b div 16"] hex[of "b mod 16"] by (auto simp: percent_def div_less_iff_less_mult)
  have "CHR ''/'' \<notin> set (encode_char c)" for c
  proof -
    have c: "(of_char c :: nat) < 256" by (rule char_code_bound)
    have "(of_char c :: nat) div 64 < 4" "(of_char c :: nat) mod 64 < 64"
      using c by (simp_all only: div_less_iff_less_mult[of 64] mod_less_divisor[of 64])
    then have "192 + (of_char c :: nat) div 64 < 256" "128 + (of_char c :: nat) mod 64 < 256" by linarith+
    with percent c show ?thesis
      by (auto simp: encode_char_def Let_def uri_unreserved_def is_alnum_def is_digit_def less_eq_char_def)
  qed
  then show ?thesis by (auto simp: encodeURIComponent_def)
qed

end
