(* ===== verification/Uploader.thy ===== *)
theory Uploader
  imports UriText PeerCache TokenBucket TrafficStatistics
begin

text \<open>
  The Node peer's upload server (\<^verbatim>\<open>peer/src/uploader.ts\<close>) over its segment cache, its bandwidth limiter
  and its traffic counters, as an event machine: a request runs to its first wait, and every later
  event (a timer of the limiter, a resumed grant, a drained or stalled socket) runs one upload to its
  next wait. Requests have numbers; \<open>parse_url\<close> is \<^verbatim>\<open>new URL(path, "http://peer.local")\<close>. The fixed headers of
  the responses are left out.
\<close>

section \<open>Requests and responses\<close>

record UploadRequest =
  urq_method :: "string option"
  urq_url :: "string option"
  urq_authorization :: "string option"

text \<open>A response with its status once the headers are sent, the JSON value or the bytes written, and
  what became of it.\<close>

record UploadResponse =
  urs_status :: "nat option"
  urs_json :: "jsval option"
  urs_retryAfter :: "string option"
  urs_contentType :: string
  urs_contentLength :: nat
  urs_body :: "nat list"
  urs_ended :: bool
  urs_destroyed :: bool

definition fresh_response :: UploadResponse where
  "fresh_response = \<lparr>urs_status = None, urs_json = None, urs_retryAfter = None, urs_contentType = [],
     urs_contentLength = 0, urs_body = [], urs_ended = False, urs_destroyed = False\<rparr>"

text \<open>\<^verbatim>\<open>response.end()\<close> does nothing on a destroyed response.\<close>

definition end_response :: "UploadResponse \<Rightarrow> UploadResponse" where
  "end_response r = (if urs_destroyed r then r else r\<lparr>urs_ended := True\<rparr>)"

definition sendJson :: "nat \<Rightarrow> jsval \<Rightarrow> string option \<Rightarrow> UploadResponse \<Rightarrow> UploadResponse" where
  "sendJson status v retryAfter r =
     end_response (r\<lparr>urs_status := Some status, urs_json := Some v, urs_retryAfter := retryAfter,
       urs_contentType := ''application/json; charset=utf-8''\<rparr>)"

definition error_json :: "string \<Rightarrow> jsval" where
  "error_json message = Object [(''error'', Str message)]"

section \<open>State\<close>

text \<open>Where an upload waits: for the limiter's timer, with a chunk granted but not yet written, or for
  the socket to drain or close.\<close>

datatype upload_phase = WaitingTokens nat | Granted nat | WaitingDrain

record Upload =
  upl_handle :: nat
  upl_chunkSize :: nat
  upl_offset :: nat
  upl_phase :: upload_phase

record UploadServer =
  us_maxConnections :: nat
  us_authorizationToken :: "string option"
  us_bucket :: BandwidthLimiter
  us_active :: nat
  us_cache :: SegmentCache
  us_stats :: PeerTrafficStats
  us_uploads :: "(nat, Upload) jsmap"
  us_responses :: "(nat, UploadResponse) jsmap"

definition new_upload_server ::
    "number \<Rightarrow> string option \<Rightarrow> number \<Rightarrow> number option \<Rightarrow> number \<Rightarrow> SegmentCache \<Rightarrow> PeerTrafficStats \<Rightarrow>
     (string, UploadServer) result" where
  "new_upload_server maxConnections token maxUploadSpeedBps stallTimeoutMs tick cache stats =
     (if \<not> positive_safe maxConnections then throw ''Maximum connections must be a positive integer''
      else
        (let stall = (case stallTimeoutMs of None \<Rightarrow> Num 10000 | Some t \<Rightarrow> t) in
         if \<not> isFinite stall \<or> stall \<le> 0 then throw ''Upload stall timeout must be positive''
         else (case new_bandwidth_limiter (maxUploadSpeedBps / Num 8) tick of
           Inl e \<Rightarrow> throw e
         | Inr bucket \<Rightarrow> return \<lparr>us_maxConnections = to_nat maxConnections, us_authorizationToken = token,
             us_bucket = bucket, us_active = 0, us_cache = cache, us_stats = stats,
             us_uploads = [], us_responses = []\<rparr>)))"

definition set_response :: "nat \<Rightarrow> (UploadResponse \<Rightarrow> UploadResponse) \<Rightarrow> UploadServer \<Rightarrow> UploadServer" where
  "set_response i f s = s\<lparr>us_responses := map_adjust (us_responses s) i f\<rparr>"

definition response_of :: "nat \<Rightarrow> UploadServer \<Rightarrow> UploadResponse" where
  "response_of i s = (case map_get (us_responses s) i of None \<Rightarrow> fresh_response | Some r \<Rightarrow> r)"

section \<open>Writing at the limited rate\<close>

definition chunk_bytes :: "BandwidthLimiter \<Rightarrow> nat" where
  "chunk_bytes l = to_nat (maximumChunkBytes l)"

text \<open>The end of the inner \<^verbatim>\<open>try\<close>: its \<^verbatim>\<open>finally\<close> releases the lease and the connection.\<close>

definition close_upload :: "nat \<Rightarrow> Upload \<Rightarrow> UploadServer \<Rightarrow> UploadServer" where
  "close_upload i u s = s\<lparr>us_cache := lease_release (upl_handle u) (us_cache s), us_active := us_active s - 1,
     us_uploads := map_delete (us_uploads s) i\<rparr>"

definition finish_upload :: "nat \<Rightarrow> Upload \<Rightarrow> UploadServer \<Rightarrow> UploadServer" where
  "finish_upload i u s = close_upload i u (set_response i end_response s)"

text \<open>A round of \<^verbatim>\<open>consume\<close> at the clock value \<open>tick\<close>.\<close>

definition try_consume :: "nat \<Rightarrow> Upload \<Rightarrow> nat \<Rightarrow> number \<Rightarrow> UploadServer \<Rightarrow> UploadServer" where
  "try_consume i u n tick s =
     (case bandwidth_consume (nat_number n) [(False, tick)] (us_bucket s) of
        (outcome, l) \<Rightarrow>
          s\<lparr>us_bucket := l, us_uploads := map_set (us_uploads s) i
              (u\<lparr>upl_phase := (if outcome = Consumed then Granted n else WaitingTokens n)\<rparr>)\<rparr>)"

text \<open>The head of the chunk loop of \<^verbatim>\<open>writeLimited\<close>.\<close>

definition next_chunk :: "nat \<Rightarrow> Upload \<Rightarrow> number \<Rightarrow> UploadServer \<Rightarrow> UploadServer" where
  "next_chunk i u tick s =
     (let size' = length (lease_data (us_cache s) (upl_handle u)) in
      if upl_offset u \<ge> size' \<or> urs_destroyed (response_of i s) then finish_upload i u s
      else try_consume i u (min (upl_offset u + upl_chunkSize u) size' - upl_offset u) tick s)"

definition advance :: "Upload \<Rightarrow> Upload" where
  "advance u = u\<lparr>upl_offset := upl_offset u + upl_chunkSize u\<rparr>"

text \<open>After \<^verbatim>\<open>consume\<close>: \<open>written\<close> is what \<^verbatim>\<open>response.write\<close> returns, \<^theory_text>\<open>None\<close> when it throws.\<close>

definition write_chunk :: "nat \<Rightarrow> Upload \<Rightarrow> nat \<Rightarrow> bool option \<Rightarrow> number \<Rightarrow> UploadServer \<Rightarrow> UploadServer" where
  "write_chunk i u n written tick s =
     (if urs_destroyed (response_of i s) then finish_upload i u s
      else (case written of
        None \<Rightarrow> set_response i (\<lambda>r. r\<lparr>urs_destroyed := True\<rparr>) (close_upload i u s)
      | Some canContinue \<Rightarrow>
          (let chunk = take n (drop (upl_offset u) (lease_data (us_cache s) (upl_handle u)));
               s1 = (set_response i (\<lambda>r. r\<lparr>urs_body := urs_body r @ chunk\<rparr>) s)
                 \<lparr>us_stats := recordUpload (nat_number n) (us_stats s)\<rparr> in
           if canContinue then next_chunk i (advance u) tick s1
           else s1\<lparr>us_uploads := map_set (us_uploads s1) i (u\<lparr>upl_phase := WaitingDrain\<rparr>)\<rparr>)))"

section \<open>Handling a request\<close>

text \<open>\<^verbatim>\<open>/^\/segments\/([^/]+)$/\<close>\<close>

definition segment_route :: "string \<Rightarrow> string option" where
  "segment_route path =
     (let name = drop (length ''/segments/'') path in
      if starts_with path ''/segments/'' \<and> name \<noteq> [] \<and> CHR ''/'' \<notin> set name then Some name else None)"

text \<open>The name decoded, or \<^theory_text>\<open>None\<close> where the code answers \<^verbatim>\<open>Invalid segment name\<close>.\<close>

definition decoded_segment :: "string \<Rightarrow> string option" where
  "decoded_segment part = (case decodeURIComponent part of
     None \<Rightarrow> None
   | Some points \<Rightarrow> (case decoded_text points of
       None \<Rightarrow> None
     | Some name \<Rightarrow> if isMediaSegmentFileName name then Some name else None))"

definition health_value :: "bool \<Rightarrow> nat \<Rightarrow> nat \<Rightarrow> nat \<Rightarrow> jsval" where
  "health_value ready segments bytes uploads =
     Object [(''status'', Str (if ready then ''ok'' else ''starting'')), (''service'', Str ''peer''),
       (''details'', Object [(''cachedSegments'', Number (nat_number segments)),
          (''cacheBytes'', Number (nat_number bytes)), (''activeUploads'', Number (nat_number uploads))])]"

text \<open>\<open>ready\<close> is the answer of the readiness callback, \<^theory_text>\<open>None\<close> when it throws.\<close>

definition answer_health :: "nat \<Rightarrow> bool option \<Rightarrow> int \<Rightarrow> UploadServer \<Rightarrow> UploadServer" where
  "answer_health i ready now s = (case ready of
     None \<Rightarrow> set_response i (sendJson 500 (error_json ''Internal server error'') None) s
   | Some ok \<Rightarrow>
       (case cache_size now (us_cache s) of (segments, c1) \<Rightarrow>
        (case cache_bytes now c1 of (bytes, c2) \<Rightarrow>
          set_response i (sendJson (if ok then 200 else 503) (health_value ok segments bytes (us_active s)) None)
            (s\<lparr>us_cache := c2\<rparr>))))"

definition start_upload :: "nat \<Rightarrow> bool \<Rightarrow> string \<Rightarrow> nat \<Rightarrow> number \<Rightarrow> UploadServer \<Rightarrow> UploadServer" where
  "start_upload i headOnly segmentName h tick s =
     (let u = \<lparr>upl_handle = h, upl_chunkSize = chunk_bytes (us_bucket s), upl_offset = 0, upl_phase = WaitingDrain\<rparr>;
          s1 = set_response i (\<lambda>r. r\<lparr>urs_status := Some 200,
                 urs_contentType := (if ends_with segmentName ''.m4s'' then ''video/iso.segment'' else ''video/mp2t''),
                 urs_contentLength := length (lease_data (us_cache s) h)\<rparr>)
               (s\<lparr>us_active := us_active s + 1\<rparr>) in
      if headOnly then finish_upload i u s1 else next_chunk i u tick s1)"

definition serve_segment :: "nat \<Rightarrow> bool \<Rightarrow> string \<Rightarrow> int \<Rightarrow> number \<Rightarrow> UploadServer \<Rightarrow> UploadServer" where
  "serve_segment i headOnly part now tick s =
     (if us_active s \<ge> us_maxConnections s
      then set_response i (sendJson 429 (error_json ''Upload connection limit exceeded'') (Some ''1'')) s
      else (case decoded_segment part of
        None \<Rightarrow> set_response i (sendJson 400 (error_json ''Invalid segment name'') None) s
      | Some segmentName \<Rightarrow>
          (case cache_lease segmentName now (us_cache s) of
             (None, c) \<Rightarrow> set_response i (sendJson 404 (error_json ''Segment not found'') None) (s\<lparr>us_cache := c\<rparr>)
           | (Some h, c) \<Rightarrow> start_upload i headOnly segmentName h tick (s\<lparr>us_cache := c\<rparr>))))"

definition authorized :: "string option \<Rightarrow> UploadRequest \<Rightarrow> bool" where
  "authorized token request = (case token of
     None \<Rightarrow> True
   | Some t \<Rightarrow> t = [] \<or> urq_authorization request = Some (''Bearer '' @ t))"

definition request_method :: "UploadRequest \<Rightarrow> string" where
  "request_method request = (case urq_method request of None \<Rightarrow> ''GET'' | Some m \<Rightarrow> m)"

definition handle ::
    "(string \<Rightarrow> url option) \<Rightarrow> nat \<Rightarrow> UploadRequest \<Rightarrow> bool option \<Rightarrow> int \<Rightarrow> number \<Rightarrow> UploadServer \<Rightarrow> UploadServer" where
  "handle parse_url i request ready now tick s =
     (let method = request_method request in
      case parse_url (case urq_url request of None \<Rightarrow> ''/'' | Some u \<Rightarrow> u) of
        None \<Rightarrow> set_response i (sendJson 500 (error_json ''Internal server error'') None) s
      | Some url \<Rightarrow>
          if method = ''OPTIONS'' \<and> starts_with (pathname url) ''/segments/''
          then set_response i (\<lambda>r. end_response (r\<lparr>urs_status := Some 204\<rparr>)) s
          else if method = ''GET'' \<and> pathname url = ''/health'' then answer_health i ready now s
          else (case (if method \<noteq> ''GET'' \<and> method \<noteq> ''HEAD'' then None else segment_route (pathname url)) of
            None \<Rightarrow> set_response i (sendJson 404 (error_json ''Route not found'') None) s
          | Some part \<Rightarrow>
              if \<not> authorized (us_authorizationToken s) request
              then set_response i (sendJson 401 (error_json ''Invalid peer upload token'') None) s
              else serve_segment i (method = ''HEAD'') part now tick s))"

section \<open>Events\<close>

text \<open>\<open>CacheUsed\<close> is an operation of another component on the shared cache; it can release only leases
  of its own.\<close>

datatype upload_event =
    RequestArrived nat UploadRequest "bool option" int number
  | BucketTimer nat number
  | Resumed nat "bool option" number
  | Drained nat number
  | Stalled nat number
  | ClientGone nat
  | CacheUsed cache_op int

definition held_handles :: "UploadServer \<Rightarrow> nat list" where
  "held_handles s = map upl_handle (map_values (us_uploads s))"

definition own_lease :: "UploadServer \<Rightarrow> cache_op \<Rightarrow> bool" where
  "own_lease s op = (case op of ReleaseOp h \<Rightarrow> h \<in> set (held_handles s) | _ \<Rightarrow> False)"

fun upload_step :: "(string \<Rightarrow> url option) \<Rightarrow> upload_event \<Rightarrow> UploadServer \<Rightarrow> UploadServer" where
  "upload_step parse_url (RequestArrived i request ready now tick) s =
     (if map_has (us_responses s) i then s
      else handle parse_url i request ready now tick
        (s\<lparr>us_responses := map_set (us_responses s) i fresh_response\<rparr>))"
| "upload_step parse_url (BucketTimer i tick) s = (case map_get (us_uploads s) i of
     None \<Rightarrow> s
   | Some u \<Rightarrow> (case upl_phase u of WaitingTokens n \<Rightarrow> try_consume i u n tick s | _ \<Rightarrow> s))"
| "upload_step parse_url (Resumed i written tick) s = (case map_get (us_uploads s) i of
     None \<Rightarrow> s
   | Some u \<Rightarrow> (case upl_phase u of Granted n \<Rightarrow> write_chunk i u n written tick s | _ \<Rightarrow> s))"
| "upload_step parse_url (Drained i tick) s = (case map_get (us_uploads s) i of
     None \<Rightarrow> s
   | Some u \<Rightarrow> (case upl_phase u of WaitingDrain \<Rightarrow> next_chunk i (advance u) tick s | _ \<Rightarrow> s))"
| "upload_step parse_url (Stalled i tick) s = (case map_get (us_uploads s) i of
     None \<Rightarrow> s
   | Some u \<Rightarrow> (case upl_phase u of
       WaitingDrain \<Rightarrow> next_chunk i (advance u) tick (set_response i (\<lambda>r. r\<lparr>urs_destroyed := True\<rparr>) s)
     | _ \<Rightarrow> s))"
| "upload_step parse_url (ClientGone i) s = set_response i (\<lambda>r. r\<lparr>urs_destroyed := True\<rparr>) s"
| "upload_step parse_url (CacheUsed op now) s =
     (if own_lease s op then s else s\<lparr>us_cache := run_op (op, now) (us_cache s)\<rparr>)"

end
