(* ===== verification/UploaderSpec.thy ===== *)
theory UploaderSpec
  imports Uploader SegmentStore
begin

text \<open>
  Properties of the upload server: connections are counted, bounded and hold one unreleased lease
  each; an accepted request gets the bytes the segment had, whatever else happens to the cache.
\<close>

section \<open>Leases under operations of the cache\<close>

definition pinned :: "SegmentCache \<Rightarrow> nat \<Rightarrow> bool" where
  "pinned c h \<longleftrightarrow> h < length (sc_handles c) \<and> \<not> snd (sc_handles c ! h)"

lemma pinned_run:
  assumes "cache_ok c" "pinned c h" "\<forall>p\<in>set ops. fst p \<noteq> ReleaseOp h"
  shows "pinned (fold run_op ops c) h \<and> lease_data (fold run_op ops c) h = lease_data c h"
proof -
  define c' where "c' = fold run_op ops c"
  obtain e where e: "sc_handles c ! h = (e, False)" "h < length (sc_handles c)"
    using assms(2) by (cases "sc_handles c ! h") (auto simp: pinned_def)
  have h: "sc_handles c' ! h = (e, False)" "h < length (sc_handles c')"
    using run_ops_handle[OF assms(1) e(2) assms(3)] e(1) by (simp_all add: c'_def)
  then have "in_use c' e" by (metis in_use_def nth_mem)
  moreover have "(e, False) \<in> set (sc_handles c)" using e nth_mem by metis
  then have "e < sc_nextEntry c" using assms(1) by (auto simp: cache_ok_def cache_inv_def)
  moreover have "keeps c c'" using run_ops_good[OF assms(1)] by (simp add: good_step_def c'_def)
  ultimately have "lease_data c' h = lease_data c h" by (simp add: lease_data_def h(1) e keeps_def)
  with h show ?thesis by (simp add: pinned_def c'_def)
qed

lemma run_ops_ok: "cache_ok c \<Longrightarrow> cache_ok (fold run_op ops c)"
  using run_ops_good good_ok by blast

text \<open>A lease shows the bytes a \<^verbatim>\<open>get\<close> returns, under a handle that is new.\<close>

lemma lease_get:
  assumes ok: "cache_ok c" and l: "cache_lease name now c = (Some h, c')"
  shows "h = length (sc_handles c)" "pinned c' h" "fst (cache_get name now c) = Some (lease_data c' h)"
proof -
  have inv: "cache_inv c" using ok by (simp add: cache_ok_def)
  obtain e c1 where t: "touch name now c = (Some e, c1)" "h = length (sc_handles c1)"
    "c' = (update_entry e (\<lambda>x. x\<lparr>ce_leases := ce_leases x + 1\<rparr>) c1)\<lparr>sc_handles := sc_handles c1 @ [(e, False)]\<rparr>"
    using l by (auto simp: cache_lease_def split: prod.splits option.splits)
  have handles: "sc_handles c1 = sc_handles c" using touch_spec(6)[OF inv t(1)] .
  show "h = length (sc_handles c)" using t(2) handles by simp
  show "pinned c' h" by (simp add: pinned_def t)
  show "fst (cache_get name now c) = Some (lease_data c' h)"
    by (simp add: cache_get_def t(1) lease_data_def entry_bytes_def t(2,3) update_entry_def)
qed

lemma lease_miss: "cache_lease name now c = (None, c') \<Longrightarrow> fst (cache_get name now c) = None"
  by (auto simp: cache_lease_def cache_get_def split: prod.splits option.splits)

section \<open>The invariant\<close>

definition upload_inv :: "UploadServer \<Rightarrow> bool" where
  "upload_inv s \<longleftrightarrow> cache_ok (us_cache s) \<and> wf_map (us_uploads s) \<and>
     isFinite (bl_bytesPerSecond (us_bucket s)) \<and>
     us_active s = length (us_uploads s) \<and> us_active s \<le> us_maxConnections s \<and>
     distinct (held_handles s) \<and> (\<forall>h\<in>set (held_handles s). pinned (us_cache s) h)"

text \<open>While an upload runs: the others, and the upload's own lease and connection.\<close>

definition other_handles :: "nat \<Rightarrow> UploadServer \<Rightarrow> nat list" where
  "other_handles i s = map upl_handle (map_values (map_delete (us_uploads s) i))"

definition busy_inv :: "nat \<Rightarrow> nat \<Rightarrow> UploadServer \<Rightarrow> bool" where
  "busy_inv i h s \<longleftrightarrow> cache_ok (us_cache s) \<and> wf_map (us_uploads s) \<and>
     isFinite (bl_bytesPerSecond (us_bucket s)) \<and>
     us_active s = Suc (length (map_delete (us_uploads s) i)) \<and> us_active s \<le> us_maxConnections s \<and>
     distinct (h # other_handles i s) \<and> (\<forall>g\<in>set (h # other_handles i s). pinned (us_cache s) g)"

lemma mset_handles:
  assumes "wf_map (us_uploads s)" "map_get (us_uploads s) i = Some u"
  shows "mset (held_handles s) = mset (upl_handle u # other_handles i s)"
    and "length (us_uploads s) = Suc (length (map_delete (us_uploads s) i))"
proof -
  have "mset (held_handles s) = image_mset upl_handle (mset (map_values (us_uploads s)))"
    by (simp only: held_handles_def mset_map)
  also have "\<dots> = image_mset upl_handle (add_mset u (mset (map_values (map_delete (us_uploads s) i))))"
    by (simp only: mset_values_delete[OF assms])
  finally show "mset (held_handles s) = mset (upl_handle u # other_handles i s)"
    by (simp only: other_handles_def mset_map mset.simps image_mset_add_mset)
  show "length (us_uploads s) = Suc (length (map_delete (us_uploads s) i))"
    using length_delete[OF assms(1), of i] assms(2) by simp
qed

lemma busy_of_inv:
  assumes inv: "upload_inv s" and u: "map_get (us_uploads s) i = Some u"
  shows "busy_inv i (upl_handle u) s"
proof -
  have wf: "wf_map (us_uploads s)" using inv by (simp add: upload_inv_def)
  note M = mset_handles[OF wf u]
  have "distinct (upl_handle u # other_handles i s)" "set (upl_handle u # other_handles i s) = set (held_handles s)"
    using inv M(1) mset_eq_imp_distinct_iff mset_eq_setD unfolding upload_inv_def by metis+
  with inv M(2) show ?thesis unfolding upload_inv_def busy_inv_def by simp
qed

text \<open>Storing the upload back keeps its place.\<close>

lemma inv_of_busy:
  assumes busy: "busy_inv i (upl_handle u) s"
  shows "upload_inv (s\<lparr>us_uploads := map_set (us_uploads s) i u\<rparr>)"
proof -
  define s' where "s' = s\<lparr>us_uploads := map_set (us_uploads s) i u\<rparr>"
  have wf: "wf_map (us_uploads s')" and u: "map_get (us_uploads s') i = Some u"
    using busy by (simp_all add: s'_def busy_inv_def get_set)
  have "map_delete (map_set m i u) i = map_delete m i" for m :: "(nat, Upload) jsmap"
    by (induction m) (auto simp: AList.delete_eq)
  then have del: "map_delete (us_uploads s') i = map_delete (us_uploads s) i" by (simp add: s'_def)
  have others: "other_handles i s' = other_handles i s" by (simp add: other_handles_def del)
  note M = mset_handles[OF wf u, unfolded others del]
  have "distinct (held_handles s')" "set (held_handles s') = set (upl_handle u # other_handles i s)"
    using busy M(1) mset_eq_imp_distinct_iff mset_eq_setD unfolding busy_inv_def by metis+
  then have "upload_inv s'" using busy M(2) wf unfolding upload_inv_def busy_inv_def by (simp add: s'_def)
  then show ?thesis by (simp add: s'_def)
qed

lemma release_others:
  assumes "cache_ok c" "pinned c g" "g \<noteq> h"
  shows "pinned (lease_release h c) g \<and> lease_data (lease_release h c) g = lease_data c g"
  using pinned_run[OF assms(1,2), of "[(ReleaseOp h, 0)]"] assms(3) by simp

lemma close_inv:
  assumes busy: "busy_inv i (upl_handle u) s"
  shows "upload_inv (close_upload i u s)"
proof -
  have "pinned (lease_release (upl_handle u) (us_cache s)) g" if "g \<in> set (other_handles i s)" for g
    using busy release_others[of "us_cache s" g "upl_handle u"] that unfolding busy_inv_def by auto
  moreover have "cache_ok (lease_release (upl_handle u) (us_cache s))"
    using busy release_good good_ok unfolding busy_inv_def by blast
  moreover have "held_handles (close_upload i u s) = other_handles i s"
    by (simp add: held_handles_def other_handles_def close_upload_def)
  ultimately show ?thesis using busy by (simp add: upload_inv_def busy_inv_def close_upload_def)
qed

lemma set_response_fields [simp]:
  "us_cache (set_response i f s) = us_cache s" "us_uploads (set_response i f s) = us_uploads s"
  "us_bucket (set_response i f s) = us_bucket s" "us_active (set_response i f s) = us_active s"
  "us_maxConnections (set_response i f s) = us_maxConnections s"
  "us_authorizationToken (set_response i f s) = us_authorizationToken s"
  by (simp_all add: set_response_def)

lemma upload_inv_response [simp]: "upload_inv (set_response i f s) \<longleftrightarrow> upload_inv s"
  by (simp add: upload_inv_def held_handles_def)

lemma busy_inv_response [simp]: "busy_inv i h (set_response j f s) \<longleftrightarrow> busy_inv i h s"
  by (simp add: busy_inv_def other_handles_def)

lemma finish_inv: "busy_inv i (upl_handle u) s \<Longrightarrow> upload_inv (finish_upload i u s)"
  by (simp add: finish_upload_def close_inv)

lemma consume_rate: "bandwidth_consume n rounds l = (outcome, l') \<Longrightarrow> bl_bytesPerSecond l' = bl_bytesPerSecond l"
  by (induction n rounds l rule: bandwidth_consume.induct)
    (auto simp: Let_def bandwidth_refill_def split: if_splits)

lemma busy_inv_bucket:
  "bl_bytesPerSecond l = bl_bytesPerSecond (us_bucket s) \<Longrightarrow> busy_inv i h (s\<lparr>us_bucket := l\<rparr>) \<longleftrightarrow> busy_inv i h s"
  by (simp add: busy_inv_def other_handles_def)

lemma upload_consume_inv:
  assumes "busy_inv i (upl_handle u) s"
  shows "upload_inv (try_consume i u n tick s)"
proof -
  obtain outcome l where c: "bandwidth_consume (nat_number n) [(False, tick)] (us_bucket s) = (outcome, l)" by fastforce
  have "busy_inv i (upl_handle u) (s\<lparr>us_bucket := l\<rparr>)"
    using assms busy_inv_bucket consume_rate[OF c] by blast
  with inv_of_busy[of i "u\<lparr>upl_phase := (if outcome = Consumed then Granted n else WaitingTokens n)\<rparr>" "s\<lparr>us_bucket := l\<rparr>"]
  show ?thesis by (simp add: try_consume_def c del: bandwidth_consume.simps)
qed

lemma next_chunk_inv: "busy_inv i (upl_handle u) s \<Longrightarrow> upload_inv (next_chunk i u tick s)"
  by (simp add: next_chunk_def Let_def finish_inv upload_consume_inv)

lemma advance_handle [simp]: "upl_handle (advance u) = upl_handle u" "upl_chunkSize (advance u) = upl_chunkSize u"
  by (simp_all add: advance_def)

lemma busy_inv_stats [simp]: "busy_inv i h (s\<lparr>us_stats := x\<rparr>) \<longleftrightarrow> busy_inv i h s"
  by (simp add: busy_inv_def other_handles_def)

lemma write_chunk_inv:
  assumes "busy_inv i (upl_handle u) s"
  shows "upload_inv (write_chunk i u n written tick s)"
proof (cases written)
  case None
  then show ?thesis using assms by (simp add: write_chunk_def finish_inv close_inv)
next
  case (Some can)
  define s1 where "s1 = (set_response i (\<lambda>r. r\<lparr>urs_body := urs_body r @
      take n (drop (upl_offset u) (lease_data (us_cache s) (upl_handle u)))\<rparr>) s)
    \<lparr>us_stats := recordUpload (nat_number n) (us_stats s)\<rparr>"
  have b: "busy_inv i (upl_handle u) s1" unfolding s1_def using assms by simp
  have "upload_inv (next_chunk i (advance u) tick s1)" using b by (intro next_chunk_inv) simp
  moreover have "upload_inv (s1\<lparr>us_uploads := map_set (us_uploads s1) i (u\<lparr>upl_phase := WaitingDrain\<rparr>)\<rparr>)"
    using inv_of_busy[of i "u\<lparr>upl_phase := WaitingDrain\<rparr>" s1] b by simp
  ultimately show ?thesis
    using assms by (simp add: write_chunk_def Some Let_def finish_inv flip: s1_def)
qed

section \<open>Requests\<close>

lemma upload_inv_cache:
  assumes inv: "upload_inv s" and ops: "\<forall>p\<in>set ops. \<forall>h\<in>set (held_handles s). fst p \<noteq> ReleaseOp h"
  shows "upload_inv (s\<lparr>us_cache := fold run_op ops (us_cache s)\<rparr>)"
proof -
  have "pinned (fold run_op ops (us_cache s)) h" if "h \<in> set (held_handles s)" for h
    using pinned_run[of "us_cache s" h ops] inv ops that unfolding upload_inv_def by blast
  then show ?thesis using inv run_ops_ok by (simp add: upload_inv_def held_handles_def)
qed

lemma start_inv:
  assumes inv: "upload_inv s" and fresh: "map_get (us_uploads s) i = None"
    and room: "us_active s < us_maxConnections s"
    and lease: "cache_lease segmentName now (us_cache s) = (Some h, c)"
  shows "upload_inv (start_upload i headOnly name h tick (s\<lparr>us_cache := c\<rparr>))"
proof -
  have ok: "cache_ok (us_cache s)" using inv by (simp add: upload_inv_def)
  have c: "c = fold run_op [(LeaseOp segmentName, now)] (us_cache s)" using lease by simp
  note L = lease_get[OF ok lease]
  have held: "pinned c g" if "g \<in> set (held_handles s)" for g
    using pinned_run[OF ok, of g "[(LeaseOp segmentName, now)]"] inv that unfolding c upload_inv_def by auto
  have "h \<notin> set (held_handles s)" using inv L(1) unfolding upload_inv_def pinned_def by auto
  moreover have "other_handles i s = held_handles s" "map_delete (us_uploads s) i = us_uploads s"
    using fresh by (simp_all add: other_handles_def held_handles_def delete_absent)
  moreover have "cache_ok c" unfolding c using run_ops_ok[OF ok] .
  ultimately have busy: "busy_inv i h (s\<lparr>us_cache := c, us_active := us_active s + 1\<rparr>)"
    using inv room held L(2) by (simp add: busy_inv_def upload_inv_def other_handles_def)
  define u where "u = \<lparr>upl_handle = h, upl_chunkSize = chunk_bytes (us_bucket s), upl_offset = 0, upl_phase = WaitingDrain\<rparr>"
  have "upl_handle u = h" by (simp add: u_def)
  with busy show ?thesis
    using next_chunk_inv[of i u] finish_inv[of i u] by (simp add: start_upload_def Let_def flip: u_def)
qed

lemma serve_inv:
  assumes inv: "upload_inv s" and fresh: "map_get (us_uploads s) i = None"
  shows "upload_inv (serve_segment i headOnly part now tick s)"
proof (cases "us_active s \<ge> us_maxConnections s \<or> decoded_segment part = None")
  case True
  then show ?thesis using inv by (auto simp: serve_segment_def split: option.split)
next
  case False
  then obtain name where n: "decoded_segment part = Some name" "\<not> us_active s \<ge> us_maxConnections s" by auto
  obtain r c where l: "cache_lease name now (us_cache s) = (r, c)" by fastforce
  have "upload_inv (s\<lparr>us_cache := c\<rparr>)" using upload_inv_cache[OF inv, of "[(LeaseOp name, now)]"] l by simp
  then show ?thesis
    using n l start_inv[OF inv fresh] by (cases r) (simp_all add: serve_segment_def)
qed

lemma health_inv:
  assumes "upload_inv s"
  shows "upload_inv (answer_health i ready now s)"
proof (cases ready)
  case (Some ok)
  obtain segments c1 where c1: "cache_size now (us_cache s) = (segments, c1)" by fastforce
  obtain bytes c2 where c2: "cache_bytes now c1 = (bytes, c2)" by fastforce
  have "upload_inv (s\<lparr>us_cache := c2\<rparr>)"
    using upload_inv_cache[OF assms, of "[(SizeOp, now), (BytesOp, now)]"] c1 c2 by simp
  then show ?thesis by (simp add: answer_health_def Some c1 c2)
qed (use assms in \<open>simp add: answer_health_def\<close>)

lemma handle_inv:
  assumes "upload_inv s" "map_get (us_uploads s) i = None"
  shows "upload_inv (handle parse_url i request ready now tick s)"
  using assms serve_inv[OF assms] health_inv[OF assms(1)]
  by (simp add: handle_def Let_def split: option.split)

section \<open>What a step leaves alone\<close>

text \<open>A step on upload \<open>i\<close> keeps the other uploads and responses, and the cache changes by operations that
  release no lease outside \<open>H\<close>.\<close>

definition touches_only :: "nat \<Rightarrow> nat set \<Rightarrow> UploadServer \<Rightarrow> UploadServer \<Rightarrow> bool" where
  "touches_only i H s s' \<longleftrightarrow> map_keys (us_responses s') = map_keys (us_responses s) \<and>
     (\<forall>j. j \<noteq> i \<longrightarrow> map_get (us_uploads s') j = map_get (us_uploads s) j \<and>
        map_get (us_responses s') j = map_get (us_responses s) j) \<and>
     (\<exists>ops. us_cache s' = fold run_op ops (us_cache s) \<and> (\<forall>p\<in>set ops. \<forall>h. fst p = ReleaseOp h \<longrightarrow> h \<in> H))"

lemma touches_trans:
  assumes "touches_only i H a b" "touches_only i H b c"
  shows "touches_only i H a c"
proof -
  from assms obtain ops1 ops2 where
    "us_cache c = fold run_op (ops1 @ ops2) (us_cache a)"
    "\<forall>p\<in>set (ops1 @ ops2). \<forall>h. fst p = ReleaseOp h \<longrightarrow> h \<in> H"
    unfolding touches_only_def by fastforce
  then show ?thesis using assms unfolding touches_only_def by metis
qed

lemma touches_same_cache:
  "us_cache s' = us_cache s \<Longrightarrow> map_keys (us_responses s') = map_keys (us_responses s) \<Longrightarrow>
     (\<And>j. j \<noteq> i \<Longrightarrow> map_get (us_uploads s') j = map_get (us_uploads s) j \<and>
        map_get (us_responses s') j = map_get (us_responses s) j) \<Longrightarrow> touches_only i H s s'"
  unfolding touches_only_def by (auto intro: exI[of _ "[]"])

lemma touches_refl [simp]: "touches_only i H s s"
  by (rule touches_same_cache) simp_all

lemma set_response_responses: "us_responses (set_response i f s) = map_adjust (us_responses s) i f"
  by (simp add: set_response_def)

lemma touches_response [simp]: "touches_only i H s (set_response i f s)"
  by (rule touches_same_cache) (simp_all add: set_response_responses get_adjust)

lemma touches_close: "upl_handle u \<in> H \<Longrightarrow> touches_only i H s (close_upload i u s)"
  unfolding touches_only_def close_upload_def
  by (auto simp: get_delete intro!: exI[of _ "[(ReleaseOp (upl_handle u), 0)]"])

lemma touches_finish: "upl_handle u \<in> H \<Longrightarrow> touches_only i H s (finish_upload i u s)"
  unfolding finish_upload_def by (rule touches_trans[OF touches_response touches_close])

lemma touches_consume [simp]: "touches_only i H s (try_consume i u n tick s)"
  by (rule touches_same_cache) (simp_all add: try_consume_def get_set split: prod.split)

lemma touches_next: "upl_handle u \<in> H \<Longrightarrow> touches_only i H s (next_chunk i u tick s)"
  by (simp add: next_chunk_def Let_def touches_finish)

lemma touches_write:
  assumes "upl_handle u \<in> H"
  shows "touches_only i H s (write_chunk i u n written tick s)"
proof (cases written)
  case None
  then show ?thesis using assms touches_trans[OF touches_close touches_response]
    by (simp add: write_chunk_def touches_finish)
next
  case (Some can)
  define s1 where "s1 = (set_response i (\<lambda>r. r\<lparr>urs_body := urs_body r @
      take n (drop (upl_offset u) (lease_data (us_cache s) (upl_handle u)))\<rparr>) s)
    \<lparr>us_stats := recordUpload (nat_number n) (us_stats s)\<rparr>"
  have t1: "touches_only i H s s1"
    unfolding s1_def by (rule touches_same_cache) (simp_all add: set_response_responses get_adjust)
  have "touches_only i H s1 (next_chunk i (advance u) tick s1)" using assms by (intro touches_next) simp
  moreover have "touches_only i H s1 (s1\<lparr>us_uploads := map_set (us_uploads s1) i (u\<lparr>upl_phase := WaitingDrain\<rparr>)\<rparr>)"
    by (rule touches_same_cache) (simp_all add: get_set)
  ultimately show ?thesis
    using assms touches_trans[OF t1] by (simp add: write_chunk_def Some Let_def touches_finish flip: s1_def)
qed

text \<open>A request touches only its own number and releases only the lease it takes.\<close>

lemma touches_cache:
  "us_uploads s' = us_uploads s \<Longrightarrow> us_responses s' = us_responses s \<Longrightarrow>
     us_cache s' = fold run_op ops (us_cache s) \<Longrightarrow> (\<forall>p\<in>set ops. \<forall>h. fst p = ReleaseOp h \<longrightarrow> h \<in> H) \<Longrightarrow>
     touches_only i H s s'"
  unfolding touches_only_def by auto

lemma touches_start:
  assumes "h \<in> H"
  shows "touches_only i H s (start_upload i headOnly name h tick s)"
proof -
  define u where "u = \<lparr>upl_handle = h, upl_chunkSize = chunk_bytes (us_bucket s), upl_offset = 0, upl_phase = WaitingDrain\<rparr>"
  define s1 where "s1 = set_response i (\<lambda>r. r\<lparr>urs_status := Some 200,
      urs_contentType := (if ends_with name ''.m4s'' then ''video/iso.segment'' else ''video/mp2t''),
      urs_contentLength := length (lease_data (us_cache s) h)\<rparr>) (s\<lparr>us_active := us_active s + 1\<rparr>)"
  have "touches_only i H s s1"
    unfolding s1_def by (rule touches_same_cache) (simp_all add: set_response_responses get_adjust)
  moreover have "upl_handle u \<in> H" using assms by (simp add: u_def)
  ultimately show ?thesis
    using touches_trans touches_finish[of u H i s1] touches_next[of u H i s1 tick]
    unfolding start_upload_def Let_def u_def[symmetric] s1_def[symmetric] by (metis (full_types))
qed

lemma touches_serve:
  assumes ok: "cache_ok (us_cache s)"
  shows "touches_only i {h. h \<ge> length (sc_handles (us_cache s))} s (serve_segment i headOnly part now tick s)"
    (is "touches_only i ?H _ _")
proof (cases "us_active s \<ge> us_maxConnections s \<or> decoded_segment part = None")
  case True
  then show ?thesis by (auto simp: serve_segment_def split: option.split)
next
  case False
  then obtain name where n: "decoded_segment part = Some name" "\<not> us_active s \<ge> us_maxConnections s" by auto
  obtain r c where l: "cache_lease name now (us_cache s) = (r, c)" by fastforce
  have first: "touches_only i ?H s (s\<lparr>us_cache := c\<rparr>)"
    by (rule touches_cache[of _ _ "[(LeaseOp name, now)]"]) (simp_all add: l)
  show ?thesis
  proof (cases r)
    case None
    then show ?thesis using n l touches_trans[OF first touches_response] by (simp add: serve_segment_def)
  next
    case (Some h)
    then have "h \<in> ?H" using lease_get(1)[OF ok] l by simp
    from touches_trans[OF first touches_start[OF this]] show ?thesis using n l Some by (simp add: serve_segment_def)
  qed
qed

lemma touches_health: "touches_only i H s (answer_health i ready now s)"
proof (cases ready)
  case (Some ok)
  obtain segments c1 where c1: "cache_size now (us_cache s) = (segments, c1)" by fastforce
  obtain bytes c2 where c2: "cache_bytes now c1 = (bytes, c2)" by fastforce
  have "touches_only i H s (s\<lparr>us_cache := c2\<rparr>)"
    by (rule touches_cache[of _ _ "[(SizeOp, now), (BytesOp, now)]"]) (simp_all add: c1 c2)
  from touches_trans[OF this touches_response] show ?thesis by (simp add: answer_health_def Some c1 c2)
qed (simp add: answer_health_def)

lemma touches_handle:
  "cache_ok (us_cache s) \<Longrightarrow>
     touches_only i {h. h \<ge> length (sc_handles (us_cache s))} s (handle parse_url i request ready now tick s)"
  by (simp add: handle_def Let_def touches_health touches_serve split: option.split)

section \<open>Runs\<close>

definition answered :: "UploadServer \<Rightarrow> bool" where
  "answered s \<longleftrightarrow> (\<forall>i. map_get (us_responses s) i = None \<longrightarrow> map_get (us_uploads s) i = None)"

definition server_ok :: "UploadServer \<Rightarrow> bool" where
  "server_ok s \<longleftrightarrow> upload_inv s \<and> answered s"

lemma touches_answered:
  assumes "answered s" "touches_only i H s s'" "map_get (us_responses s) i \<noteq> None"
  shows "answered s'"
proof -
  have "set (map_keys (us_responses s')) = set (map_keys (us_responses s))"
    using assms(2) by (simp only: touches_only_def)
  then have "map_get (us_responses s') j = None \<longleftrightarrow> map_get (us_responses s) j = None" for j
    by (simp add: map_of_eq_None_iff)
  with assms show ?thesis unfolding answered_def touches_only_def by metis
qed

lemma opened_ok:
  assumes "server_ok s" "map_get (us_responses s) i = None"
  shows "server_ok (s\<lparr>us_responses := map_set (us_responses s) i fresh_response\<rparr>)"
    "map_get (us_uploads (s\<lparr>us_responses := map_set (us_responses s) i fresh_response\<rparr>)) i = None"
  using assms by (auto simp: server_ok_def upload_inv_def held_handles_def answered_def get_set)

lemma own_lease_ops: "\<not> own_lease s op \<Longrightarrow> h \<in> set (held_handles s) \<Longrightarrow> op \<noteq> ReleaseOp h"
  by (auto simp: own_lease_def)

lemma upload_step_ok:
  assumes ok: "server_ok s"
  shows "server_ok (upload_step parse_url e s)"
proof -
  have inv: "upload_inv s" and ans: "answered s" using ok by (simp_all add: server_ok_def)
  have running: "server_ok (f u s)" if "map_get (us_uploads s) i = Some u" "upload_inv (f u s)"
    "touches_only i {upl_handle u} s (f u s)" for i u and f :: "Upload \<Rightarrow> UploadServer \<Rightarrow> UploadServer"
  proof -
    have "map_get (us_responses s) i \<noteq> None" using ans that(1) by (auto simp: answered_def)
    from touches_answered[OF ans that(3) this] that(2) show ?thesis by (simp add: server_ok_def)
  qed
  show ?thesis
  proof (cases e)
    case (RequestArrived i request ready now tick)
    show ?thesis
    proof (cases "map_get (us_responses s) i")
      case None
      define s1 where "s1 = s\<lparr>us_responses := map_set (us_responses s) i fresh_response\<rparr>"
      have s1: "server_ok s1" "map_get (us_uploads s1) i = None" "map_get (us_responses s1) i \<noteq> None"
        using opened_ok[OF ok None] by (simp_all add: s1_def get_set)
      then have "cache_ok (us_cache s1)" by (simp add: server_ok_def upload_inv_def)
      from touches_answered[OF _ touches_handle[OF this] s1(3)] handle_inv[OF _ s1(2)] s1(1)
      have "server_ok (handle parse_url i request ready now tick s1)" by (simp add: server_ok_def)
      then show ?thesis by (simp add: RequestArrived map_has_def None s1_def)
    qed (simp add: RequestArrived map_has_def ok)
  next
    case (BucketTimer i tick)
    then show ?thesis
      using ok running[of i _ "\<lambda>u. try_consume i u _ tick"] upload_consume_inv[OF busy_of_inv[OF inv]]
      by (auto split: option.split upload_phase.split)
  next
    case (Resumed i written tick)
    then show ?thesis
      using ok running[of i _ "\<lambda>u. write_chunk i u _ written tick"] write_chunk_inv[OF busy_of_inv[OF inv]] touches_write
      by (auto split: option.split upload_phase.split)
  next
    case (Drained i tick)
    then show ?thesis
      using ok running[of i _ "\<lambda>u. next_chunk i (advance u) tick"] next_chunk_inv[of i "advance _" s] busy_of_inv[OF inv] touches_next
      by (auto split: option.split upload_phase.split)
  next
    case (Stalled i tick)
    show ?thesis
    proof (cases "map_get (us_uploads s) i")
      case (Some u)
      define s1 where "s1 = set_response i (\<lambda>r. r\<lparr>urs_destroyed := True\<rparr>) s"
      have "busy_inv i (upl_handle (advance u)) s1" using busy_of_inv[OF inv Some] by (simp add: s1_def)
      then have "upload_inv (next_chunk i (advance u) tick s1)" by (rule next_chunk_inv)
      moreover have "touches_only i {upl_handle u} s (next_chunk i (advance u) tick s1)"
        unfolding s1_def by (rule touches_trans[OF touches_response touches_next]) simp
      ultimately show ?thesis
        using running[OF Some, of "\<lambda>u s. next_chunk i (advance u) tick (set_response i (\<lambda>r. r\<lparr>urs_destroyed := True\<rparr>) s)"] ok
        by (simp add: Stalled Some s1_def split: upload_phase.split)
    qed (simp add: Stalled ok)
  next
    case (ClientGone i)
    then show ?thesis using inv ans by (auto simp: server_ok_def answered_def set_response_responses get_adjust)
  next
    case (CacheUsed op now)
    show ?thesis
    proof (cases "own_lease s op")
      case False
      then have "upload_inv (s\<lparr>us_cache := fold run_op [(op, now)] (us_cache s)\<rparr>)"
        using own_lease_ops by (intro upload_inv_cache[OF inv]) auto
      then show ?thesis using ans by (simp add: CacheUsed False server_ok_def answered_def)
    qed (simp add: CacheUsed ok)
  qed
qed

interpretation uploads: kept_by_steps "upload_step parse_url" server_ok
  by unfold_locales (rule upload_step_ok)

section \<open>An upload from start to end\<close>

text \<open>The response and the progress of upload \<open>i\<close> of the bytes \<open>D\<close>: while it runs, what is written is the
  part before the current chunk (or with it, when waiting for the socket).\<close>

definition sent_upto :: "nat list \<Rightarrow> Upload \<Rightarrow> UploadResponse \<Rightarrow> bool" where
  "sent_upto D u r \<longleftrightarrow> (case upl_phase u of
     WaitingDrain \<Rightarrow> urs_body r = take (upl_offset u + upl_chunkSize u) D
   | WaitingTokens n \<Rightarrow> urs_body r = take (upl_offset u) D \<and> n = min (upl_offset u + upl_chunkSize u) (length D) - upl_offset u
   | Granted n \<Rightarrow> urs_body r = take (upl_offset u) D \<and> n = min (upl_offset u + upl_chunkSize u) (length D) - upl_offset u)"

definition announced :: "nat list \<Rightarrow> UploadResponse \<Rightarrow> bool" where
  "announced D r \<longleftrightarrow> urs_status r = Some 200 \<and> urs_contentLength r = length D"

definition tracks :: "nat \<Rightarrow> nat list \<Rightarrow> UploadServer \<Rightarrow> bool" where
  "tracks i D s \<longleftrightarrow> (\<exists>r. map_get (us_responses s) i = Some r \<and> announced D r \<and>
     (case map_get (us_uploads s) i of
        None \<Rightarrow> prefix (urs_body r) D \<and> (urs_ended r \<longrightarrow> urs_body r = D)
      | Some u \<Rightarrow> lease_data (us_cache s) (upl_handle u) = D \<and> \<not> urs_ended r \<and> sent_upto D u r))"

text \<open>At the head of the chunk loop.\<close>

definition sending :: "nat \<Rightarrow> nat list \<Rightarrow> Upload \<Rightarrow> UploadServer \<Rightarrow> bool" where
  "sending i D u s \<longleftrightarrow> (\<exists>r. map_get (us_responses s) i = Some r \<and> announced D r \<and> \<not> urs_ended r \<and>
     urs_body r = take (upl_offset u) D \<and> lease_data (us_cache s) (upl_handle u) = D)"

lemma finish_tracks:
  assumes "sending i D u s" "upl_offset u \<ge> length D \<or> urs_destroyed (response_of i s)"
  shows "tracks i D (finish_upload i u s)"
proof -
  obtain r where r: "map_get (us_responses s) i = Some r" "announced D r" "\<not> urs_ended r"
    "urs_body r = take (upl_offset u) D"
    using assms(1) by (auto simp: sending_def)
  have "map_get (us_responses (finish_upload i u s)) i = Some (end_response r)"
    "map_get (us_uploads (finish_upload i u s)) i = None"
    using r(1) by (simp_all add: finish_upload_def close_upload_def set_response_responses get_adjust get_delete)
  moreover have "announced D (end_response r)" "urs_body (end_response r) = take (upl_offset u) D"
    using r by (simp_all add: end_response_def announced_def)
  moreover have "urs_ended (end_response r) \<longrightarrow> length D \<le> upl_offset u"
    using assms(2) r by (auto simp: end_response_def response_of_def)
  ultimately show ?thesis by (simp add: tracks_def take_is_prefix)
qed

lemma consume_tracks:
  assumes "sending i D u s" "n = min (upl_offset u + upl_chunkSize u) (length D) - upl_offset u"
  shows "tracks i D (try_consume i u n tick s)"
proof -
  obtain outcome l where c: "bandwidth_consume (nat_number n) [(False, tick)] (us_bucket s) = (outcome, l)" by fastforce
  obtain r where r: "map_get (us_responses s) i = Some r" "announced D r" "\<not> urs_ended r"
    "urs_body r = take (upl_offset u) D" "lease_data (us_cache s) (upl_handle u) = D"
    using assms(1) by (auto simp: sending_def)
  then show ?thesis
    unfolding try_consume_def c using assms(2) by (simp add: tracks_def get_set sent_upto_def)
qed

lemma next_tracks:
  assumes "sending i D u s"
  shows "tracks i D (next_chunk i u tick s)"
proof -
  have "lease_data (us_cache s) (upl_handle u) = D" using assms by (auto simp: sending_def)
  then show ?thesis
    using finish_tracks[OF assms] consume_tracks[OF assms refl] by (simp add: next_chunk_def Let_def)
qed

lemma chunk_take: "n = min (p + k) (length D) - p \<Longrightarrow> take p D @ take n (drop p D) = take (p + k) D"
proof -
  assume n: "n = min (p + k) (length D) - p"
  have "take (p + k) D = take p D @ take k (drop p D)" by (rule take_add)
  moreover have "take k (drop p D) = take n (drop p D)"
    using n by (cases "p + k \<le> length D") (simp_all add: min_def)
  ultimately show ?thesis by simp
qed

lemma write_tracks:
  assumes s: "sending i D u s" and n: "n = min (upl_offset u + upl_chunkSize u) (length D) - upl_offset u"
  shows "tracks i D (write_chunk i u n written tick s)"
proof -
  obtain r where r: "map_get (us_responses s) i = Some r" "announced D r" "\<not> urs_ended r"
    "urs_body r = take (upl_offset u) D" "lease_data (us_cache s) (upl_handle u) = D"
    using s by (auto simp: sending_def)
  show ?thesis
  proof (cases "urs_destroyed (response_of i s)")
    case True
    then show ?thesis using finish_tracks[OF s] by (simp add: write_chunk_def)
  next
    case False
    show ?thesis
    proof (cases written)
      case None
      then show ?thesis using False r
        by (simp add: write_chunk_def tracks_def close_upload_def set_response_responses get_adjust get_delete
            announced_def take_is_prefix)
    next
      case (Some can)
      define s1 where "s1 = (set_response i (\<lambda>r. r\<lparr>urs_body := urs_body r @ take n (drop (upl_offset u) D)\<rparr>) s)
        \<lparr>us_stats := recordUpload (nat_number n) (us_stats s)\<rparr>"
      have body: "urs_body r @ take n (drop (upl_offset u) D) = take (upl_offset u + upl_chunkSize u) D"
        using chunk_take[OF n] r(4) by simp
      have "sending i D (advance u) s1"
        using r body by (simp add: sending_def s1_def set_response_responses get_adjust announced_def advance_def)
      from next_tracks[OF this] have "tracks i D (next_chunk i (advance u) tick s1)" .
      moreover have "tracks i D (s1\<lparr>us_uploads := map_set (us_uploads s1) i (u\<lparr>upl_phase := WaitingDrain\<rparr>)\<rparr>)"
        using r body by (simp add: tracks_def s1_def set_response_responses get_adjust get_set announced_def sent_upto_def)
      ultimately show ?thesis using False by (simp add: write_chunk_def Some Let_def r(5) flip: s1_def)
    qed
  qed
qed

text \<open>Steps on others.\<close>

lemma touches_tracks:
  assumes t: "tracks i D s" and ok: "upload_inv s" and o: "touches_only j H s s'" "j \<noteq> i"
    and H: "\<And>h. h \<in> H \<Longrightarrow> h \<notin> set (held_handles s) \<or> (\<exists>u. map_get (us_uploads s) j = Some u \<and> h = upl_handle u)"
  shows "tracks i D s'"
proof (cases "map_get (us_uploads s) i")
  case None
  then show ?thesis using t o unfolding tracks_def touches_only_def by auto
next
  case (Some u)
  obtain ops where ops: "us_cache s' = fold run_op ops (us_cache s)" "\<forall>p\<in>set ops. \<forall>h. fst p = ReleaseOp h \<longrightarrow> h \<in> H"
    using o(1) by (auto simp: touches_only_def)
  note busy = busy_of_inv[OF ok Some]
  have held: "upl_handle u \<in> set (held_handles s)" using Some by (force simp: held_handles_def dest: map_of_SomeD)
  have "upl_handle u \<notin> H"
  proof
    assume "upl_handle u \<in> H"
    with H held obtain v where v: "map_get (us_uploads s) j = Some v" "upl_handle u = upl_handle v" by blast
    then have "map_get (map_delete (us_uploads s) i) j = Some v" using o(2) by (simp add: get_delete)
    then have "upl_handle v \<in> set (other_handles i s)" by (force simp: other_handles_def dest: map_of_SomeD)
    with busy v show False by (simp add: busy_inv_def)
  qed
  then have "lease_data (us_cache s') (upl_handle u) = lease_data (us_cache s) (upl_handle u)"
    using pinned_run[of "us_cache s" "upl_handle u" ops] busy ops by (auto simp: busy_inv_def)
  then show ?thesis using t o Some unfolding tracks_def touches_only_def by auto
qed

lemma tracks_at:
  assumes "tracks i D s" "map_get (us_uploads s) i = Some u"
  obtains r where "map_get (us_responses s) i = Some r" "announced D r" "\<not> urs_ended r" "sent_upto D u r"
    "lease_data (us_cache s) (upl_handle u) = D"
  using assms by (auto simp: tracks_def)

lemma tracks_sending:
  assumes "tracks i D s" "map_get (us_uploads s) i = Some u"
  shows "upl_phase u = WaitingTokens n \<or> upl_phase u = Granted n \<Longrightarrow>
      sending i D u s \<and> n = min (upl_offset u + upl_chunkSize u) (length D) - upl_offset u"
    and "upl_phase u = WaitingDrain \<Longrightarrow> sending i D (advance u) s"
  by (rule tracks_at[OF assms]; auto simp: sending_def sent_upto_def advance_def)+

lemma tracks_consume:
  "tracks i D s \<Longrightarrow> map_get (us_uploads s) i = Some u \<Longrightarrow> upl_phase u = WaitingTokens n \<Longrightarrow>
     tracks i D (try_consume i u n tick s)"
  using tracks_sending(1) consume_tracks by blast

lemma tracks_write:
  "tracks i D s \<Longrightarrow> map_get (us_uploads s) i = Some u \<Longrightarrow> upl_phase u = Granted n \<Longrightarrow>
     tracks i D (write_chunk i u n written tick s)"
  using tracks_sending(1) write_tracks by blast

lemma tracks_drained:
  "tracks i D s \<Longrightarrow> map_get (us_uploads s) i = Some u \<Longrightarrow> upl_phase u = WaitingDrain \<Longrightarrow>
     tracks i D (next_chunk i (advance u) tick s)"
  using tracks_sending(2) next_tracks by blast

lemma step_tracks:
  assumes t: "tracks i D s" and ok: "server_ok s"
  shows "tracks i D (upload_step parse_url e s)"
proof -
  have inv: "upload_inv s" using ok by (simp add: server_ok_def)
  obtain r where r: "map_get (us_responses s) i = Some r" using t by (auto simp: tracks_def)
  have other: "tracks i D s'" if "touches_only j {upl_handle u} s s'" "j \<noteq> i" "map_get (us_uploads s) j = Some u" for j u s'
    using touches_tracks[OF t inv that(1,2)] that(3) by blast
  have otherw: "tracks i D (write_chunk j u n written tick s)" if "j \<noteq> i" "map_get (us_uploads s) j = Some u" for j u n written tick
    by (rule other[OF touches_write that]) simp
  have othern: "tracks i D (next_chunk j (advance u) tick s)" if "j \<noteq> i" "map_get (us_uploads s) j = Some u" for j u tick
    by (rule other[OF touches_next that]) simp
  have destroyed: "tracks i D (set_response i (\<lambda>r. r\<lparr>urs_destroyed := True\<rparr>) s)"
    using t by (auto simp: tracks_def set_response_responses get_adjust announced_def sent_upto_def
        split: option.splits upload_phase.splits)
  show ?thesis
  proof (cases e)
    case (RequestArrived j request ready now tick)
    show ?thesis
    proof (cases "map_get (us_responses s) j")
      case None
      then have j: "j \<noteq> i" using r by auto
      define s1 where "s1 = s\<lparr>us_responses := map_set (us_responses s) j fresh_response\<rparr>"
      have s1: "upload_inv s1" "tracks i D s1"
        using opened_ok[OF ok None] t j
        by (auto simp: s1_def server_ok_def tracks_def get_set split: option.splits)
      have "cache_ok (us_cache s1)" using s1(1) by (simp add: upload_inv_def)
      note touched = touches_handle[OF this, of j parse_url request ready now tick]
      have "tracks i D (handle parse_url j request ready now tick s1)"
        by (rule touches_tracks[OF s1(2,1) touched j]) (use s1(1) in \<open>auto simp: upload_inv_def pinned_def\<close>)
      then show ?thesis by (simp add: RequestArrived map_has_def None s1_def)
    qed (simp add: RequestArrived map_has_def t)
  next
    case (BucketTimer j tick)
    then show ?thesis
      using t other[of j _ "try_consume j _ _ tick s"] tracks_consume[OF t]
      by (cases "j = i") (auto split: option.split upload_phase.split)
  next
    case (Resumed j written tick)
    then show ?thesis
      using t otherw tracks_write[OF t]
      by (cases "j = i") (auto split: option.split upload_phase.split)
  next
    case (Drained j tick)
    then show ?thesis
      using t othern tracks_drained[OF t]
      by (cases "j = i") (auto split: option.split upload_phase.split)
  next
    case (Stalled j tick)
    show ?thesis
    proof (cases "map_get (us_uploads s) j")
      case (Some u)
      define s1 where "s1 = set_response j (\<lambda>r. r\<lparr>urs_destroyed := True\<rparr>) s"
      have "tracks i D (next_chunk j (advance u) tick s1)" if w: "upl_phase u = WaitingDrain"
      proof (cases "j = i")
        case True
        then have "tracks i D s1" "map_get (us_uploads s1) i = Some u" using destroyed Some by (simp_all add: s1_def)
        from tracks_sending(2)[OF this w] next_tracks show ?thesis by (simp add: True)
      next
        case False
        have "touches_only j {upl_handle u} s (next_chunk j (advance u) tick s1)"
          unfolding s1_def by (rule touches_trans[OF touches_response touches_next]) simp
        from other[OF this False Some] show ?thesis .
      qed
      then show ?thesis using t by (simp add: Stalled Some s1_def split: upload_phase.split)
    qed (simp add: Stalled t)
  next
    case (ClientGone j)
    then show ?thesis
      using destroyed touches_tracks[OF t inv touches_response[of j "{}"], of "\<lambda>r. r\<lparr>urs_destroyed := True\<rparr>"]
      by (cases "j = i") auto
  next
    case (CacheUsed op now)
    show ?thesis
    proof (cases "own_lease s op")
      case False
      have "touches_only (Suc i) {h. op = ReleaseOp h} s (s\<lparr>us_cache := run_op (op, now) (us_cache s)\<rparr>)"
        by (rule touches_cache[of _ _ "[(op, now)]"]) simp_all
      from touches_tracks[OF t inv this] False own_lease_ops show ?thesis by (simp add: CacheUsed) blast
    qed (simp add: CacheUsed t)
  qed
qed

lemma run_tracks:
  "tracks i D s \<Longrightarrow> server_ok s \<Longrightarrow> tracks i D (fold (upload_step parse_url) es s)"
  by (induction es arbitrary: s) (simp_all add: step_tracks upload_step_ok)

text \<open>The request that starts an upload.\<close>

lemma start_tracks:
  assumes "map_get (us_responses s) i = Some fresh_response"
  shows "tracks i (lease_data (us_cache s) h) (start_upload i False name h tick s)"
proof -
  define u where "u = \<lparr>upl_handle = h, upl_chunkSize = chunk_bytes (us_bucket s), upl_offset = 0, upl_phase = WaitingDrain\<rparr>"
  define s1 where "s1 = set_response i (\<lambda>r. r\<lparr>urs_status := Some 200,
      urs_contentType := (if ends_with name ''.m4s'' then ''video/iso.segment'' else ''video/mp2t''),
      urs_contentLength := length (lease_data (us_cache s) h)\<rparr>) (s\<lparr>us_active := us_active s + 1\<rparr>)"
  have "sending i (lease_data (us_cache s) h) u s1"
    using assms by (simp add: sending_def s1_def set_response_responses get_adjust fresh_response_def announced_def u_def)
  from next_tracks[OF this] show ?thesis
    unfolding start_upload_def Let_def u_def[symmetric] s1_def[symmetric] by simp
qed

definition opened :: "nat \<Rightarrow> UploadServer \<Rightarrow> UploadServer" where
  "opened i s = s\<lparr>us_responses := map_set (us_responses s) i fresh_response\<rparr>"

lemma segment_handle:
  assumes "parse_url (case urq_url request of None \<Rightarrow> ''/'' | Some u \<Rightarrow> u) = Some url"
    and "segment_route (pathname url) = Some part" "request_method request \<in> {''GET'', ''HEAD''}"
  shows "handle parse_url i request ready now tick s =
    (if \<not> authorized (us_authorizationToken s) request
     then set_response i (sendJson 401 (error_json ''Invalid peer upload token'') None) s
     else serve_segment i (request_method request = ''HEAD'') part now tick s)"
proof -
  have "pathname url \<noteq> ''/health''"
    using assms(2) by (auto simp: segment_route_def starts_with_def Let_def split: if_splits)
  with assms show ?thesis by (auto simp: handle_def Let_def)
qed

lemma tracks_sent:
  assumes "tracks i D s"
  shows "prefix (urs_body (response_of i s)) D \<and> urs_contentLength (response_of i s) = length D \<and>
    (urs_ended (response_of i s) \<longrightarrow> urs_body (response_of i s) = D)"
proof (cases "map_get (us_uploads s) i")
  case None
  then show ?thesis using assms by (auto simp: tracks_def announced_def response_of_def)
next
  case (Some u)
  show ?thesis
    by (rule tracks_at[OF assms Some])
      (cases "upl_phase u"; simp add: response_of_def announced_def sent_upto_def take_is_prefix)
qed

lemma arrived_fresh:
  "map_get (us_responses s) i = None \<Longrightarrow>
     upload_step parse_url (RequestArrived i request ready now tick) s = handle parse_url i request ready now tick (opened i s)"
  by (simp add: opened_def map_has_def)

lemma opened_fields [simp]:
  "us_cache (opened i s) = us_cache s" "us_uploads (opened i s) = us_uploads s" "us_active (opened i s) = us_active s"
  "us_maxConnections (opened i s) = us_maxConnections s" "us_bucket (opened i s) = us_bucket s"
  "us_authorizationToken (opened i s) = us_authorizationToken s"
  "map_get (us_responses (opened i s)) i = Some fresh_response"
  by (simp_all add: opened_def get_set)

lemma response_json:
  assumes "map_get (us_responses s) i = Some r" "\<not> urs_destroyed r"
  shows "response_of i (set_response i (sendJson status v retryAfter) s) =
    r\<lparr>urs_status := Some status, urs_json := Some v, urs_retryAfter := retryAfter,
      urs_contentType := ''application/json; charset=utf-8'', urs_ended := True\<rparr>"
  using assms by (simp add: response_of_def set_response_responses get_adjust sendJson_def end_response_def)

lemma start_status:
  assumes "map_get (us_responses s) i = Some fresh_response"
  shows "urs_status (response_of i (start_upload i headOnly name h tick s)) = Some 200"
proof (cases headOnly)
  case True
  then show ?thesis using assms
    by (simp add: start_upload_def Let_def finish_upload_def close_upload_def response_of_def set_response_responses
        get_adjust end_response_def)
next
  case False
  then show ?thesis using start_tracks[OF assms, of h name tick]
    by (auto simp: tracks_def announced_def response_of_def)
qed

section \<open>A sample server\<close>

definition sample_upload_server :: UploadServer where
  "sample_upload_server = \<lparr>us_maxConnections = 2, us_authorizationToken = Some ''t'', us_bucket = sample_bandwidth,
     us_active = 0, us_cache = run_op (SetOp ''0.ts'' [7, 8, 9], 0) empty_cache, us_stats = createEmptyPeerTrafficStats,
     us_uploads = [], us_responses = []\<rparr>"

definition sample_upload_request :: UploadRequest where
  "sample_upload_request = \<lparr>urq_method = None, urq_url = Some ''/segments/0.ts'', urq_authorization = Some ''Bearer t''\<rparr>"

definition sample_path :: "string \<Rightarrow> url option" where
  "sample_path path = Some \<lparr>protocol = ''http:'', username = [], password = [], hostname = ''peer.local'',
     pathname = path, search = [], url_hash = []\<rparr>"

definition sample_upload_url :: url where
  "sample_upload_url = \<lparr>protocol = ''http:'', username = [], password = [], hostname = ''peer.local'',
     pathname = ''/segments/0.ts'', search = [], url_hash = []\<rparr>"

lemma sample_server_ok: "server_ok sample_upload_server"
proof -
  have "cache_ok (run_op (SetOp ''0.ts'' [7, 8, 9], 0) empty_cache)" by (rule good_ok[OF run_op_good[OF empty_cache_ok]])
  moreover have "isFinite (bl_bytesPerSecond sample_bandwidth)" by (simp add: sample_bandwidth_def)
  ultimately show ?thesis
    by (simp add: server_ok_def upload_inv_def answered_def held_handles_def sample_upload_server_def)
qed

lemma sample_request:
  "sample_path (case urq_url sample_upload_request of None \<Rightarrow> ''/'' | Some u \<Rightarrow> u) =
    Some sample_upload_url"
  "segment_route (pathname sample_upload_url) = Some ''0.ts''"
  "request_method sample_upload_request = ''GET''"
  "decoded_segment ''0.ts'' = Some ''0.ts''"
  "fst (cache_get ''0.ts'' 5 (us_cache sample_upload_server)) = Some [7, 8, 9]"
  "urs_status (response_of 1 (upload_step sample_path (RequestArrived 1 sample_upload_request None 5 0) sample_upload_server)) = Some 200"
  by code_simp+

section \<open>Properties\<close>

text \<open>The status an authorized request for a segment should get.\<close>

definition served_status :: "string \<Rightarrow> int \<Rightarrow> UploadServer \<Rightarrow> nat" where
  "served_status part now s =
     (if us_active s \<ge> us_maxConnections s then 429
      else (case decoded_segment part of
        None \<Rightarrow> 400
      | Some name \<Rightarrow> if fst (cache_get name now (us_cache s)) = None then 404 else 200))"

text \<open>However requests, timers, writes, stalls, disconnects and other uses of the cache interleave, the
  connection count is the number of running uploads, never exceeds the limit, and every upload holds
  a lease of its own that nobody has released.\<close>

lemma max_kept: "us_maxConnections (upload_step parse_url e s) = us_maxConnections s"
proof -
  have c: "us_maxConnections (try_consume i u n tick s) = us_maxConnections s" for i u n tick s
    by (simp add: try_consume_def split: prod.split)
  have f: "us_maxConnections (finish_upload i u s) = us_maxConnections s" for i u s
    by (simp add: finish_upload_def close_upload_def)
  have n: "us_maxConnections (next_chunk i u tick s) = us_maxConnections s" for i u tick s
    by (simp add: next_chunk_def Let_def c f)
  have w: "us_maxConnections (write_chunk i u n written tick s) = us_maxConnections s" for i u n written tick s
    by (simp add: write_chunk_def Let_def n f close_upload_def split: option.split)
  have h: "us_maxConnections (handle parse_url i request ready now tick s) = us_maxConnections s" for i request ready now tick s
    by (simp add: handle_def answer_health_def serve_segment_def start_upload_def Let_def n f
        split: option.split prod.split)
  show ?thesis by (cases e) (simp_all add: c n w h split: option.split upload_phase.split)
qed

theorem uploads_hold_leases:
  assumes "new_upload_server maxConnections token speed stall tick cache stats = return s" "cache_ok cache"
  shows "case fold (upload_step parse_url) events s of s' \<Rightarrow>
    us_active s' = length (us_uploads s') \<and> us_active s' \<le> to_nat maxConnections \<and> distinct (held_handles s') \<and>
    list_all (\<lambda>h. h < length (sc_handles (us_cache s')) \<and> \<not> snd (sc_handles (us_cache s') ! h)) (held_handles s') \<and>
    sc_totalBytes (us_cache s') \<le> sc_maxBytes (us_cache s')"
proof -
  have "server_ok s"
    using assms by (auto simp: new_upload_server_def Let_def new_bandwidth_limiter_def server_ok_def upload_inv_def
        answered_def held_handles_def split: if_splits)
  from uploads.run[OF this, of parse_url events] have ok: "upload_inv (fold (upload_step parse_url) events s)"
    by (simp add: server_ok_def)
  have "us_maxConnections (fold (upload_step parse_url) es s) = us_maxConnections s" for es
    by (induction es arbitrary: s) (simp_all add: max_kept)
  moreover have "us_maxConnections s = to_nat maxConnections"
    using assms(1) by (auto simp: new_upload_server_def Let_def split: if_splits sum.splits)
  ultimately show ?thesis using ok by (simp add: upload_inv_def list_all_iff pinned_def cache_ok_def)
qed

lemma accepted:
  assumes "server_ok s" "map_get (us_responses s) i = None"
    and "parse_url (case urq_url request of None \<Rightarrow> ''/'' | Some u \<Rightarrow> u) = Some url"
    and "segment_route (pathname url) = Some part" "request_method request = ''GET''"
    and "urs_status (response_of i (upload_step parse_url (RequestArrived i request ready now tick) s)) = Some 200"
  shows "\<exists>name c h. decoded_segment part = Some name \<and> fst (cache_get name now (us_cache s)) = Some (lease_data c h) \<and>
    upload_step parse_url (RequestArrived i request ready now tick) s =
      start_upload i False name h tick ((opened i s)\<lparr>us_cache := c\<rparr>)"
proof -
  define s1 where "s1 = upload_step parse_url (RequestArrived i request ready now tick) s"
  note h = segment_handle[of parse_url request url part i ready now tick "opened i s", OF assms(3,4)]
  have s1: "s1 = (if \<not> authorized (us_authorizationToken s) request
      then set_response i (sendJson 401 (error_json ''Invalid peer upload token'') None) (opened i s)
      else serve_segment i False part now tick (opened i s))"
    using h assms(5) by (simp add: s1_def arrived_fresh[OF assms(2)] del: upload_step.simps)
  have status: "urs_status (response_of i s1) = Some 200" using assms(6) by (simp only: s1_def)
  have json: "urs_status (response_of i (set_response i (sendJson x v a) (opened i s))) = Some x" for x v a
    using response_json[of "opened i s" i fresh_response] by (simp add: fresh_response_def)
  have jsonc: "urs_status (response_of i (set_response i (sendJson x v a) (opened i s\<lparr>us_cache := c\<rparr>))) = Some x" for x v a c
    using response_json[of "opened i s\<lparr>us_cache := c\<rparr>" i fresh_response] by (simp add: fresh_response_def)
  from status obtain name where name: "decoded_segment part = Some name"
    and serve: "s1 = serve_segment i False part now tick (opened i s)" "\<not> us_active s \<ge> us_maxConnections s"
    unfolding s1 by (auto simp: json serve_segment_def split: if_splits option.splits)
  obtain q c where l: "cache_lease name now (us_cache s) = (q, c)" by fastforce
  from status serve name l obtain hd where hd: "q = Some hd"
    by (cases q) (simp_all add: serve_segment_def jsonc)
  have s1': "s1 = start_upload i False name hd tick ((opened i s)\<lparr>us_cache := c\<rparr>)"
    using serve name l hd by (simp add: serve_segment_def)
  have ok: "cache_ok (us_cache s)" using assms(1) by (simp add: server_ok_def upload_inv_def)
  have D: "fst (cache_get name now (us_cache s)) = Some (lease_data c hd)" using lease_get(3)[OF ok] l hd by simp
  with name s1' show ?thesis unfolding s1_def by blast
qed

theorem uploads_hold_leases_witness:
  "\<exists>s. new_upload_server (Num 2) None (Num 8000) None 0 empty_cache createEmptyPeerTrafficStats = return s \<and>
    (case fold (upload_step sample_path) [RequestArrived 1 sample_upload_request None 5 0, ClientGone 1] s of s' \<Rightarrow>
      us_active s' \<le> 2)"
proof -
  have "is_return (new_upload_server (Num 2) None (Num 8000) None 0 empty_cache createEmptyPeerTrafficStats)" by code_simp
  then obtain s where s: "new_upload_server (Num 2) None (Num 8000) None 0 empty_cache createEmptyPeerTrafficStats = return s"
    by (cases "new_upload_server (Num 2) None (Num 8000) None 0 empty_cache createEmptyPeerTrafficStats") auto
  show ?thesis
    using uploads_hold_leases[OF s empty_cache_ok, of sample_path "[RequestArrived 1 sample_upload_request None 5 0, ClientGone 1]"] s
    by (auto simp del: upload_step.simps fold_simps)
qed

text \<open>C24: A GET that is answered with status 200 sends, as its client reads on and whatever else happens
  to the cache meanwhile, a prefix of the bytes the segment had when the request came in, announces
  their length, and has sent all of them when the response ends.\<close>

theorem upload_sends_segment:
  assumes "server_ok s" "map_get (us_responses s) i = None"
    and "parse_url (case urq_url request of None \<Rightarrow> ''/'' | Some u \<Rightarrow> u) = Some url"
    and "segment_route (pathname url) = Some part" "request_method request = ''GET''"
    and "urs_status (response_of i (upload_step parse_url (RequestArrived i request ready now tick) s)) = Some 200"
  shows "case (decoded_segment part, response_of i (fold (upload_step parse_url) events
      (upload_step parse_url (RequestArrived i request ready now tick) s))) of
        (Some name, r) \<Rightarrow> (case fst (cache_get name now (us_cache s)) of
            Some bytes \<Rightarrow> prefix (urs_body r) bytes \<and> urs_contentLength r = length bytes \<and>
              (urs_ended r \<longrightarrow> urs_body r = bytes)
          | None \<Rightarrow> False)
      | (None, r) \<Rightarrow> False"
proof -
  define s1 where "s1 = upload_step parse_url (RequestArrived i request ready now tick) s"
  from accepted[OF assms] obtain name c h where a: "decoded_segment part = Some name"
    "fst (cache_get name now (us_cache s)) = Some (lease_data c h)"
    "s1 = start_upload i False name h tick ((opened i s)\<lparr>us_cache := c\<rparr>)"
    unfolding s1_def by blast
  have "tracks i (lease_data c h) s1"
    using start_tracks[of "(opened i s)\<lparr>us_cache := c\<rparr>" i h name tick] by (simp add: a(3))
  moreover have "server_ok s1" unfolding s1_def by (rule upload_step_ok[OF assms(1)])
  ultimately have "tracks i (lease_data c h) (fold (upload_step parse_url) events s1)" by (rule run_tracks)
  from tracks_sent[OF this] show ?thesis unfolding s1_def[symmetric] by (simp add: a)
qed

theorem upload_sends_segment_witness:
  "case (decoded_segment ''0.ts'', response_of 1 (fold (upload_step sample_path)
      [CacheUsed ClearOp 6, BucketTimer 1 (int_number 1000), Resumed 1 (Some True) (int_number 1000)]
      (upload_step sample_path (RequestArrived 1 sample_upload_request None 5 0) sample_upload_server))) of
        (Some name, r) \<Rightarrow> (case fst (cache_get name 5 (us_cache sample_upload_server)) of
            Some bytes \<Rightarrow> prefix (urs_body r) bytes \<and> urs_contentLength r = length bytes \<and>
              (urs_ended r \<longrightarrow> urs_body r = bytes)
          | None \<Rightarrow> False)
      | (None, r) \<Rightarrow> False"
  by (rule upload_sends_segment[OF sample_server_ok _ sample_request(1,2,3,6)]) (simp add: sample_upload_server_def)

text \<open>The status of a request for a segment: a wrong token gives 401, a full server 429, a name that
  does not decode to a media segment name 400, a segment the cache does not return 404, and 200 exactly
  in the remaining case.\<close>

theorem segment_request_status:
  assumes "server_ok s" "map_get (us_responses s) i = None"
    and "parse_url (case urq_url request of None \<Rightarrow> ''/'' | Some u \<Rightarrow> u) = Some url"
    and "segment_route (pathname url) = Some part" "request_method request \<in> {''GET'', ''HEAD''}"
  shows "urs_status (response_of i (upload_step parse_url (RequestArrived i request ready now tick) s)) =
    Some (case us_authorizationToken s of
        Some (c # t) \<Rightarrow> if urq_authorization request = Some (''Bearer '' @ c # t) then served_status part now s else 401
      | _ \<Rightarrow> served_status part now s)"
proof -
  note h = segment_handle[of parse_url request url part i ready now tick "opened i s", OF assms(3,4,5)]
  have json: "urs_status (response_of i (set_response i (sendJson x v a) (opened i s))) = Some x" for x v a
    using response_json[of "opened i s" i fresh_response] by (simp add: fresh_response_def)
  have jsonc: "urs_status (response_of i (set_response i (sendJson x v a) (opened i s\<lparr>us_cache := c\<rparr>))) = Some x" for x v a c
    using response_json[of "opened i s\<lparr>us_cache := c\<rparr>" i fresh_response] by (simp add: fresh_response_def)
  have ok: "cache_ok (us_cache s)" using assms(1) by (simp add: server_ok_def upload_inv_def)
  have serve: "urs_status (response_of i (serve_segment i headOnly part now tick (opened i s))) = Some (served_status part now s)"
    for headOnly
  proof (cases "us_active s \<ge> us_maxConnections s \<or> decoded_segment part = None")
    case True
    then show ?thesis by (auto simp: serve_segment_def served_status_def json split: option.split)
  next
    case False
    then obtain name where n: "decoded_segment part = Some name" "\<not> us_active s \<ge> us_maxConnections s" by auto
    obtain q c where l: "cache_lease name now (us_cache s) = (q, c)" by fastforce
    show ?thesis
    proof (cases q)
      case None
      then show ?thesis using n l lease_miss[of name now "us_cache s" c]
        by (simp add: serve_segment_def served_status_def jsonc)
    next
      case (Some hd)
      have "urs_status (response_of i (start_upload i headOnly name hd tick (opened i s\<lparr>us_cache := c\<rparr>))) = Some 200"
        by (rule start_status) simp
      then show ?thesis using n l Some lease_get(3)[OF ok, of name now hd c]
        by (simp add: serve_segment_def served_status_def)
    qed
  qed
  show ?thesis
    unfolding arrived_fresh[OF assms(2)] h
    using serve json by (auto simp: authorized_def split: option.split list.split)
qed

theorem segment_request_status_witness:
  "urs_status (response_of 1 (upload_step sample_path (RequestArrived 1 sample_upload_request None 5 0) sample_upload_server)) =
    Some (served_status ''0.ts'' 5 sample_upload_server)"
  using segment_request_status[where parse_url=sample_path and request=sample_upload_request and url=sample_upload_url, OF sample_server_ok _ sample_request(1,2), of 1 None 5 0] sample_request(3)
  by (simp add: sample_upload_server_def sample_upload_request_def del: upload_step.simps)

end
