(* ===== verification/UploadProgress.thy ===== *)
theory UploadProgress
  imports UploaderSpec
begin

text \<open>
  Uploads end: when the limiter's timer fires a second or more after its last refill and the socket
  accepts what is written, every round sends a chunk, so an upload is complete after as many rounds as
  its segment has bytes, at the latest.
\<close>

section \<open>The limiter\<close>

definition paced :: "BandwidthLimiter \<Rightarrow> bool" where
  "paced l \<longleftrightarrow> bandwidth_inv l \<and> 1 \<le> bl_bytesPerSecond l \<and> isFinite (bl_lastRefill l)"

lemma chunk_bytes_bounds:
  assumes "paced l"
  shows "1 \<le> chunk_bytes l" "n \<le> chunk_bytes l \<Longrightarrow> nat_number n \<le> bl_bytesPerSecond l"
proof -
  obtain r where r: "bl_bytesPerSecond l = Num r" "1 \<le> r"
    using assms by (auto simp: paced_def bandwidth_inv_def isFinite_iff one_number_def)
  have f: "1 \<le> \<lfloor>r\<rfloor>" using r(2) by linarith
  have "max 1 (min 65536 (rat_of_int \<lfloor>r\<rfloor>)) = rat_of_int (min 65536 \<lfloor>r\<rfloor>)" using f by (simp add: min_def max_def)
  then have c: "chunk_bytes l = nat (min 65536 \<lfloor>r\<rfloor>)"
    by (simp add: chunk_bytes_def maximumChunkBytes_def r(1) MAX_CHUNK_BYTES_def one_number_def)
  show "1 \<le> chunk_bytes l" unfolding c using f by arith
  show "nat_number n \<le> bl_bytesPerSecond l" if "n \<le> chunk_bytes l"
  proof -
    have "int n \<le> \<lfloor>r\<rfloor>" using that f unfolding c by arith
    then have "of_nat n \<le> r" by linarith
    then show ?thesis by (simp add: r(1))
  qed
qed

lemma nonneg_minus: "isFinite b \<Longrightarrow> b \<le> a \<Longrightarrow> isFinite a \<Longrightarrow> 0 \<le> a - (b :: number)"
  by (auto simp: isFinite_iff zero_le_toNumber minus_number_def)

lemma minus_le:
  assumes "0 \<le> b" "a \<le> r" "isFinite a" "isFinite b" "representable r" "isFinite r"
  shows "a - b \<le> (r :: number)"
proof -
  obtain x y z where xyz: "a = Num x" "b = Num y" "r = Num z" using assms by (auto simp: isFinite_iff)
  then have "toNumber (x - y) \<le> toNumber z" using assms by (intro toNumber_mono) simp
  also have "toNumber z = Num z" using assms(5) by (simp add: xyz representable_def toNumber_fix)
  finally show ?thesis by (simp add: xyz minus_number_def)
qed

text \<open>A round keeps the limiter in range and remembers its time; a second after the last refill it
  grants what fits into a second.\<close>

lemma round_paced:
  assumes l: "paced l" and t: "isFinite t" and c: "bandwidth_consume (nat_number n) [(False, t)] l = (outcome, l')"
  shows "paced l' \<and> bl_lastRefill l' = t \<and> bl_bytesPerSecond l' = bl_bytesPerSecond l"
proof -
  define l1 where "l1 = bandwidth_refill t l"
  have l1: "bandwidth_inv l1" "bl_lastRefill l1 = t" "bl_bytesPerSecond l1 = bl_bytesPerSecond l"
    using bandwidth_refill_inv[of l t] l t by (simp_all add: l1_def paced_def) (simp_all add: bandwidth_refill_def)
  have "isFinite (bl_tokens l1)" using l1(1) by (cases "bl_tokens l1") (auto simp: bandwidth_inv_def isFinite_iff)
  then have "bandwidth_inv (l1\<lparr>bl_tokens := bl_tokens l1 - nat_number n\<rparr>)" if "nat_number n \<le> bl_tokens l1"
    using l1(1) that nonneg_minus[of "nat_number n" "bl_tokens l1"]
      minus_le[of "nat_number n" "bl_tokens l1" "bl_bytesPerSecond l1"] by (simp add: bandwidth_inv_def)
  then show ?thesis using c l1 l t by (auto simp: Let_def paced_def simp flip: l1_def split: if_splits)
qed

section \<open>Rounds\<close>

fun spaced :: "number \<Rightarrow> number list \<Rightarrow> bool" where
  "spaced before [] = True"
| "spaced before (t # ts) = (isFinite t \<and> Num 1000 \<le> t - before \<and> spaced t ts)"

definition rounds :: "nat \<Rightarrow> number list \<Rightarrow> upload_event list" where
  "rounds i ticks = concat (map (\<lambda>t. [BucketTimer i t, Resumed i (Some True) t]) ticks)"

definition under_way :: "nat \<Rightarrow> nat list \<Rightarrow> nat \<Rightarrow> UploadServer \<Rightarrow> bool" where
  "under_way i D left s \<longleftrightarrow> tracks i D s \<and> paced (us_bucket s) \<and> \<not> urs_destroyed (response_of i s) \<and>
     (case map_get (us_uploads s) i of
        None \<Rightarrow> urs_ended (response_of i s)
      | Some u \<Rightarrow> upl_phase u \<noteq> WaitingDrain \<and> 1 \<le> upl_chunkSize u \<and> upl_chunkSize u \<le> chunk_bytes (us_bucket s) \<and>
          upl_offset u < length D \<and> length D - upl_offset u \<le> left)"

lemma chunk_bytes_rate: "bl_bytesPerSecond l = bl_bytesPerSecond l' \<Longrightarrow> chunk_bytes l = chunk_bytes l'"
  by (simp add: chunk_bytes_def maximumChunkBytes_def)

text \<open>The head of the loop at time \<open>t\<close>.\<close>

lemma next_under_way:
  assumes "sending i D u s" "paced (us_bucket s)" "isFinite t" "\<not> urs_destroyed (response_of i s)"
    and "1 \<le> upl_chunkSize u" "upl_chunkSize u \<le> chunk_bytes (us_bucket s)" "length D - upl_offset u \<le> left"
  shows "under_way i D left (next_chunk i u t s) \<and>
    (map_get (us_uploads (next_chunk i u t s)) i \<noteq> None \<longrightarrow> bl_lastRefill (us_bucket (next_chunk i u t s)) = t)"
proof -
  have t: "tracks i D (next_chunk i u t s)" by (rule next_tracks[OF assms(1)])
  have size': "lease_data (us_cache s) (upl_handle u) = D" using assms(1) by (auto simp: sending_def)
  obtain r where r: "map_get (us_responses s) i = Some r" "\<not> urs_destroyed r"
    using assms(1,4) by (auto simp: sending_def response_of_def)
  show ?thesis
  proof (cases "upl_offset u \<ge> length D")
    case True
    then have n: "next_chunk i u t s = finish_upload i u s" by (simp add: next_chunk_def size')
    have "map_get (us_uploads (finish_upload i u s)) i = None" "us_bucket (finish_upload i u s) = us_bucket s"
      "map_get (us_responses (finish_upload i u s)) i = Some (end_response r)"
      using r(1) by (simp_all add: finish_upload_def close_upload_def set_response_responses get_adjust get_delete)
    then show ?thesis using t r(2) assms(2) by (simp add: n under_way_def response_of_def end_response_def)
  next
    case False
    define n where "n = min (upl_offset u + upl_chunkSize u) (length D) - upl_offset u"
    have nx: "next_chunk i u t s = try_consume i u n t s" using False assms(4) by (simp add: next_chunk_def size' n_def)
    obtain outcome l where c: "bandwidth_consume (nat_number n) [(False, t)] (us_bucket s) = (outcome, l)" by fastforce
    have s': "try_consume i u n t s = s\<lparr>us_bucket := l, us_uploads := map_set (us_uploads s) i
        (u\<lparr>upl_phase := (if outcome = Consumed then Granted n else WaitingTokens n)\<rparr>)\<rparr>"
      unfolding try_consume_def c by simp
    show ?thesis
      using t round_paced[OF assms(2,3) c] False assms(4-7) chunk_bytes_rate[of l "us_bucket s"]
      by (simp add: nx s' under_way_def get_set response_of_def)
  qed
qed

text \<open>One round: the timer grants the chunk, the write sends it.\<close>

lemma one_round:
  fixes parse_url :: "string \<Rightarrow> url option"
  assumes w: "under_way i D (Suc left) s" and t: "isFinite t" "Num 1000 \<le> t - bl_lastRefill (us_bucket s) \<or> map_get (us_uploads s) i = None"
    and s'_def: "s' = upload_step parse_url (Resumed i (Some True) t) (upload_step parse_url (BucketTimer i t) s)"
  shows "under_way i D left s' \<and> (map_get (us_uploads s') i \<noteq> None \<longrightarrow> bl_lastRefill (us_bucket s') = t)"
proof (cases "map_get (us_uploads s) i")
  case None
  then have "s' = s" by (simp add: s'_def)
  then show ?thesis using w None by (simp add: under_way_def)
next
  case (Some u)
  note W = w[unfolded under_way_def Some option.case]
  obtain n where n: "upl_phase u = WaitingTokens n \<or> upl_phase u = Granted n" using W by (cases "upl_phase u") auto
  from W have tr: "tracks i D s" by simp
  note S = tracks_sending(1)[OF tr Some n]
  define s1 where "s1 = upload_step parse_url (BucketTimer i t) s"
  define u1 where "u1 = u\<lparr>upl_phase := Granted n\<rparr>"
  have n_le: "n \<le> chunk_bytes (us_bucket s)" using S W by linarith
  have s1: "map_get (us_uploads s1) i = Some u1 \<and> paced (us_bucket s1) \<and> us_cache s1 = us_cache s \<and>
      us_responses s1 = us_responses s \<and> chunk_bytes (us_bucket s1) = chunk_bytes (us_bucket s)"
  proof (cases "upl_phase u = Granted n")
    case True
    then have "s1 = s" "u1 = u" by (simp_all add: s1_def Some u1_def)
    then show ?thesis using Some W by simp
  next
    case False
    then have ph: "upl_phase u = WaitingTokens n" using n by simp
    obtain outcome l where c: "bandwidth_consume (nat_number n) [(False, t)] (us_bucket s) = (outcome, l)" by fastforce
    have "fst (bandwidth_consume (nat_number n) [(False, t)] (us_bucket s)) = Consumed"
      using W t(2) Some chunk_bytes_bounds(2)[of "us_bucket s" n] n_le
      by (intro upload_granted_after_second) (simp_all add: paced_def)
    then have "outcome = Consumed" by (simp only: c fst_conv)
    then have "s1 = s\<lparr>us_bucket := l, us_uploads := map_set (us_uploads s) i u1\<rparr>"
      by (simp add: s1_def Some ph try_consume_def c u1_def del: bandwidth_consume.simps)
    then show ?thesis using round_paced[OF _ t(1) c] W chunk_bytes_rate[of l "us_bucket s"] by (simp add: get_set)
  qed
  have off: "upl_offset u1 = upl_offset u" "upl_chunkSize u1 = upl_chunkSize u" "upl_handle u1 = upl_handle u"
    by (simp_all add: u1_def)
  obtain r where r: "map_get (us_responses s) i = Some r" "announced D r" "\<not> urs_ended r"
    "urs_body r = take (upl_offset u) D" "lease_data (us_cache s) (upl_handle u) = D"
    using S by (auto simp: sending_def)
  define s2 where "s2 = (set_response i (\<lambda>r. r\<lparr>urs_body := urs_body r @ take n (drop (upl_offset u) D)\<rparr>) s1)
    \<lparr>us_stats := recordUpload (nat_number n) (us_stats s1)\<rparr>"
  have alive: "\<not> urs_destroyed (response_of i s1)" using W s1 by (simp add: response_of_def)
  have "s' = next_chunk i (advance u1) t s2"
    unfolding s'_def s1_def[symmetric] using s1 alive r(5) off
    by (simp add: u1_def s2_def write_chunk_def Let_def)
  moreover have "sending i D (advance u1) s2"
    using r s1 off chunk_take[of n "upl_offset u" "upl_chunkSize u" D] S
    by (simp add: sending_def s2_def set_response_responses get_adjust announced_def advance_def)
  moreover have "\<not> urs_destroyed (response_of i s2)"
    using alive s1 r(1) by (simp add: s2_def response_of_def set_response_responses get_adjust)
  moreover have "us_bucket s2 = us_bucket s1" by (simp add: s2_def)
  moreover have "length D - upl_offset u \<le> Suc left" "1 \<le> upl_chunkSize u" using W by simp_all
  then have "length D - upl_offset (advance u1) \<le> left" by (simp add: advance_def off)
  ultimately show ?thesis
    using next_under_way[of i D "advance u1" s2 t left] s1 t(1) W off by simp
qed

lemma rounds_complete:
  "under_way i D left s \<Longrightarrow> spaced (bl_lastRefill (us_bucket s)) ticks \<or> map_get (us_uploads s) i = None \<and> list_all isFinite ticks \<Longrightarrow>
     left \<le> length ticks \<Longrightarrow> \<exists>s'. s' = fold (upload_step parse_url) (rounds i ticks) s \<and> under_way i D 0 s'"
proof (induction ticks arbitrary: left s)
  case Nil
  then show ?case by (simp add: rounds_def)
next
  case (Cons t ticks)
  define s' where "s' = upload_step parse_url (Resumed i (Some True) t) (upload_step parse_url (BucketTimer i t) s)"
  have fin: "spaced x ts \<Longrightarrow> list_all isFinite ts" for x ts by (induction x ts rule: spaced.induct) auto
  have w: "under_way i D (Suc (left - 1)) s"
    using Cons.prems(1) by (auto simp: under_way_def split: option.splits)
  have t: "isFinite t" "Num 1000 \<le> t - bl_lastRefill (us_bucket s) \<or> map_get (us_uploads s) i = None"
    "list_all isFinite ticks" "map_get (us_uploads s) i \<noteq> None \<longrightarrow> spaced t ticks"
    using Cons.prems(2) fin by auto
  note R = one_round[OF w t(1,2) s'_def]
  have "map_get (us_uploads s) i = None \<longrightarrow> map_get (us_uploads s') i = None" by (simp add: s'_def)
  then have "spaced (bl_lastRefill (us_bucket s')) ticks \<or> map_get (us_uploads s') i = None \<and> list_all isFinite ticks"
    using R t by auto
  from Cons.IH[OF conjunct1[OF R] this] Cons.prems(3) show ?case
    by (simp add: rounds_def s'_def del: upload_step.simps)
qed

section \<open>Properties\<close>

text \<open>C26: An upload that was accepted completes: with a limit of at least one byte per second and a client
  that keeps reading, rounds of the limiter's timer spaced by a second or more, as many as the
  segment has bytes, send the whole segment and end the response.\<close>

theorem upload_completes:
  assumes "server_ok s" "map_get (us_responses s) i = None"
    and "parse_url (case urq_url request of None \<Rightarrow> ''/'' | Some u \<Rightarrow> u) = Some url"
    and "segment_route (pathname url) = Some part" "request_method request = ''GET''"
    and "urs_status (response_of i (upload_step parse_url (RequestArrived i request ready now tick) s)) = Some 200"
    and "paced (us_bucket s)" "isFinite tick" "spaced tick ticks"
    and "\<And>name bytes. decoded_segment part = Some name \<Longrightarrow> fst (cache_get name now (us_cache s)) = Some bytes \<Longrightarrow>
      length bytes \<le> length ticks"
  shows "case (decoded_segment part, response_of i (fold (upload_step parse_url) (rounds i ticks)
      (upload_step parse_url (RequestArrived i request ready now tick) s))) of
        (Some name, r) \<Rightarrow> urs_ended r \<and> Some (urs_body r) = fst (cache_get name now (us_cache s))
      | (None, r) \<Rightarrow> False"
proof -
  define s1 where "s1 = upload_step parse_url (RequestArrived i request ready now tick) s"
  from accepted[OF assms(1-6)] obtain name c h where a: "decoded_segment part = Some name"
    "fst (cache_get name now (us_cache s)) = Some (lease_data c h)"
    "s1 = start_upload i False name h tick ((opened i s)\<lparr>us_cache := c\<rparr>)"
    unfolding s1_def by blast
  define D where "D = lease_data c h"
  define u where "u = \<lparr>upl_handle = h, upl_chunkSize = chunk_bytes (us_bucket s), upl_offset = 0, upl_phase = WaitingDrain\<rparr>"
  define s0 where "s0 = set_response i (\<lambda>r. r\<lparr>urs_status := Some 200,
      urs_contentType := (if ends_with name ''.m4s'' then ''video/iso.segment'' else ''video/mp2t''),
      urs_contentLength := length (lease_data c h)\<rparr>) ((opened i s)\<lparr>us_cache := c, us_active := us_active s + 1\<rparr>)"
  have s1: "s1 = next_chunk i u tick s0" by (simp add: a(3) start_upload_def Let_def u_def s0_def)
  have "sending i D u s0"
    by (simp add: sending_def s0_def set_response_responses get_adjust fresh_response_def announced_def u_def D_def)
  moreover have "\<not> urs_destroyed (response_of i s0)"
    by (simp add: s0_def response_of_def set_response_responses get_adjust fresh_response_def)
  moreover have "us_bucket s0 = us_bucket s" by (simp add: s0_def)
  ultimately have "under_way i D (length D) s1 \<and> (map_get (us_uploads s1) i \<noteq> None \<longrightarrow> bl_lastRefill (us_bucket s1) = tick)"
    unfolding s1 using assms(7,8) chunk_bytes_bounds(1)[of "us_bucket s"] by (intro next_under_way) (simp_all add: u_def)
  moreover have "list_all isFinite ticks" using assms(9) by (induction tick ticks rule: spaced.induct) auto
  moreover have "length D \<le> length ticks" unfolding D_def by (rule assms(10)[OF a(1,2)])
  ultimately have w: "under_way i D 0 (fold (upload_step parse_url) (rounds i ticks) s1)"
    using rounds_complete[of i D "length D" s1 ticks parse_url] assms(9) by auto
  then have "urs_ended (response_of i (fold (upload_step parse_url) (rounds i ticks) s1))"
    by (auto simp: under_way_def split: option.splits)
  moreover have "tracks i D (fold (upload_step parse_url) (rounds i ticks) s1)" using w by (simp add: under_way_def)
  ultimately show ?thesis
    unfolding s1_def[symmetric] using tracks_sent by (simp add: a(1,2) D_def)
qed

theorem upload_completes_witness:
  "case (decoded_segment ''0.ts'', response_of 1 (fold (upload_step sample_path) (rounds 1 [int_number 1000, int_number 2000, int_number 3000])
      (upload_step sample_path (RequestArrived 1 sample_upload_request None 5 0) sample_upload_server))) of
        (Some name, r) \<Rightarrow> urs_ended r \<and> Some (urs_body r) = fst (cache_get name 5 (us_cache sample_upload_server))
      | (None, r) \<Rightarrow> False"
proof (rule upload_completes[where parse_url=sample_path and request=sample_upload_request and url=sample_upload_url, OF sample_server_ok _ sample_request(1,2,3)])
  show "paced (us_bucket sample_upload_server)"
    using sample_bandwidth_inv by (simp add: paced_def sample_upload_server_def) (simp add: sample_bandwidth_def zero_number_def one_number_def)
  show "spaced 0 [int_number 1000, int_number 2000, int_number 3000]"
    using int_number_minus[of 1000 0] int_number_minus[of 2000 1000] int_number_minus[of 3000 2000]
    by (simp add: zero_number_def)
  show "length bytes \<le> length [int_number 1000, int_number 2000, int_number 3000]"
    if "decoded_segment ''0.ts'' = Some name" "fst (cache_get name 5 (us_cache sample_upload_server)) = Some bytes" for name bytes
    using that sample_request(4,5) by auto
qed (use sample_request(6) in \<open>simp_all add: sample_upload_server_def zero_number_def\<close>)

end
