(* ===== verification/SdkTracker.thy ===== *)
theory SdkTracker
  imports ClientSpec
begin

text \<open>
  The browser's tracker client (\<^verbatim>\<open>sdk/src/ws-client.ts\<close>): its parsers, the directory of peers, reports of
  its inventory, reconnection, and WebRTC signals. Application callbacks are recorded in order; the
  ones that supply segments and statistics are arguments, \<^theory_text>\<open>None\<close> when they throw.
\<close>

section \<open>Parsing\<close>

record PeerInfo =
  pi_id :: string
  pi_address :: string
  pi_segments :: "string list"
  pi_latencyMs :: number
  pi_successRate :: number
  pi_trustScore :: number
  pi_uploadBandwidthBps :: "number option"
  pi_metadata :: "metadata option"
  pi_joinedAt :: "string option"
  pi_lastSeenAt :: "string option"

datatype sdk_parse_error =
    NotText | NotTyped | NoBroadcastId | NotPeerObject | PeerFields | PeerBandwidth | PeerMetadata
  | PeerTimestamps | PeerListShape | PeerIdShape | AvailabilityShape | DeltaShape | BatchShape
  | UpdateShape | SignalShape | UnsupportedType string

definition sdk_parsePeer :: "jsval \<Rightarrow> (sdk_parse_error, PeerInfo) result" where
  "sdk_parsePeer v =
     (if \<not> isRecord v then throw NotPeerObject
      else
        (case (get_prop v ''id'', get_prop v ''address'', string_array (get_prop v ''segments''),
               get_prop v ''latencyMs'', get_prop v ''successRate'', get_prop v ''trustScore'') of
           (Str pid, Str address, Some segments, Number latencyMs, Number successRate, Number trustScore) \<Rightarrow>
             if \<not> isFinite latencyMs \<or> \<not> isFinite successRate \<or> \<not> isFinite trustScore then throw PeerFields
             else if get_prop v ''uploadBandwidthBps'' \<noteq> Undefined \<and>
               \<not> is_finite_number (get_prop v ''uploadBandwidthBps'') then throw PeerBandwidth
             else
               (case parseMetadata (get_prop v ''metadata'') of
                  Inl e \<Rightarrow> throw PeerMetadata
                | Inr m \<Rightarrow>
                    if \<not> string_or_absent (get_prop v ''joinedAt'') \<or> \<not> string_or_absent (get_prop v ''lastSeenAt'')
                    then throw PeerTimestamps
                    else return
                      \<lparr>pi_id = pid, pi_address = address, pi_segments = segments, pi_latencyMs = latencyMs,
                       pi_successRate = successRate, pi_trustScore = trustScore,
                       pi_uploadBandwidthBps = (case get_prop v ''uploadBandwidthBps'' of
                         Number n \<Rightarrow> Some n | _ \<Rightarrow> None),
                       pi_metadata = m, pi_joinedAt = to_string (get_prop v ''joinedAt''),
                       pi_lastSeenAt = to_string (get_prop v ''lastSeenAt'')\<rparr>)
         | _ \<Rightarrow> throw PeerFields))"

definition sdk_parseInventoryUpdate :: "jsval \<Rightarrow> (sdk_parse_error, SegmentInventoryUpdate) result" where
  "sdk_parseInventoryUpdate v =
     (case get_prop v ''peerId'' of
        Str pid \<Rightarrow>
          if get_prop v ''replace'' = Boolean True then
            (case string_array (get_prop v ''segments'') of
               None \<Rightarrow> throw UpdateShape | Some segments \<Rightarrow> return (ReplaceUpdate pid segments))
          else
            (case (string_array (get_prop v ''added''), string_array (get_prop v ''removed'')) of
               (Some added, Some removed) \<Rightarrow> return (DeltaUpdate pid added removed)
             | _ \<Rightarrow> throw UpdateShape)
      | _ \<Rightarrow> throw UpdateShape)"

definition parse_signal :: "signal_type \<Rightarrow> string \<Rightarrow> jsval \<Rightarrow> (sdk_parse_error, WebRtcSignalMessage) result" where
  "parse_signal type b v =
     (case (get_prop v ''peerId'', get_prop v ''targetPeerId'', get_prop v ''requestId'', get_prop v ''sdp'') of
        (Str p, Str target, Str requestId, Str sdp) \<Rightarrow>
          return \<lparr>sig_type = type, sig_broadcastId = b, sig_peerId = p, sig_targetPeerId = target,
            sig_requestId = requestId, sig_sdp = sdp\<rparr>
      | _ \<Rightarrow> throw SignalShape)"

text \<open>The argument is the parsed text, \<^theory_text>\<open>None\<close> when the frame is no text or no JSON.\<close>

definition parseServerMessage :: "jsval option \<Rightarrow> (sdk_parse_error, PeerInfo WsServerMessage) result" where
  "parseServerMessage parsed = (case parsed of
     None \<Rightarrow> throw NotText
   | Some v \<Rightarrow>
       (case (get_prop v ''type'', get_prop v ''broadcastId'') of
          (Str type, Str b) \<Rightarrow>
            if type = ''peer_list'' then
              (case get_prop v ''peers'' of
                 Array ps \<Rightarrow> map_sum id (PeerList b) (parse_all sdk_parsePeer ps)
               | _ \<Rightarrow> throw PeerListShape)
            else if type = ''peer_joined'' then
              map_sum id (PeerJoined b) (sdk_parsePeer (get_prop v ''peer''))
            else if type = ''peer_left'' then
              (case get_prop v ''peerId'' of Str p \<Rightarrow> return (PeerLeft b p) | _ \<Rightarrow> throw PeerIdShape)
            else if type = ''segment_available'' then
              (case (get_prop v ''peerId'', string_array (get_prop v ''segments'')) of
                 (Str p, Some segments) \<Rightarrow> return (Inventory
                   (SegmentAvailable b p segments (get_prop v ''replace'' = Boolean True)))
               | _ \<Rightarrow> throw AvailabilityShape)
            else if type = ''segment_inventory_delta'' then
              (case (get_prop v ''peerId'', string_array (get_prop v ''added''),
                     string_array (get_prop v ''removed'')) of
                 (Str p, Some added, Some removed) \<Rightarrow>
                   return (Inventory (SegmentInventoryDelta b p added removed))
               | _ \<Rightarrow> throw DeltaShape)
            else if type = ''segment_inventory_batch'' then
              (case get_prop v ''updates'' of
                 Array us \<Rightarrow> map_sum id (InventoryBatch b) (parse_all sdk_parseInventoryUpdate us)
               | _ \<Rightarrow> throw BatchShape)
            else if type = ''stats_update'' then
              (case get_prop v ''peerId'' of
                 Str p \<Rightarrow> return (StatsUpdate b p (get_prop v ''stats'')) | _ \<Rightarrow> throw PeerIdShape)
            else if type = ''webrtc_offer'' then map_sum id Signal (parse_signal WebRtcOffer b v)
            else if type = ''webrtc_answer'' then map_sum id Signal (parse_signal WebRtcAnswer b v)
            else throw (UnsupportedType type)
        | (Str type, _) \<Rightarrow> throw NoBroadcastId
        | _ \<Rightarrow> throw NotTyped))"

section \<open>The client\<close>

datatype sdk_message =
    SdkSubscribe string string "string list"
  | SdkHeartbeat string string
  | SdkStats string string PeerTrafficStats
  | SdkSegments string string "string list" "string list"
  | SdkSignal WebRtcSignalMessage

datatype sdk_callback =
    OnPeerList "PeerInfo list"
  | OnPeerJoined PeerInfo
  | OnPeerLeft string
  | OnSegmentAvailable string "string list"
  | OnWebRtcSignal WebRtcSignalMessage
  | OnConnected
  | OnDisconnected
  | OnError

record WsClientOptions =
  wco_broadcastId :: string
  wco_peerId :: string
  wco_reconnectInitialMs :: number
  wco_reconnectMaxMs :: number
  wco_reportIntervalMs :: number

text \<open>The promise of the first connection.\<close>

datatype first_connection = NoConnection | PendingConnection | ConnectedOnce

record WsTrackerClient =
  wt_options :: WsClientOptions
  wt_ws :: "(nat \<times> bool) option"
  wt_nextSocket :: nat
  wt_reportTimer :: bool
  wt_reconnectTimer :: "number option"
  wt_nextReconnectMs :: number
  wt_started :: bool
  wt_firstConnect :: first_connection
  wt_reportPeerState :: bool
  wt_sessionToken :: "string option"
  wt_peers :: "(string, PeerInfo) jsmap"
  wt_lastReportedSegments :: "string list"
  wt_sent :: "sdk_message list"
  wt_callbacks :: "sdk_callback list"

datatype sdk_client_error =
    EmptyBroadcastId | EmptyPeerId | InvalidTrackerUrl | TrackerUrlScheme | NotPositive string | DelayOrder
  | NoSessionToken | EmptySessionToken | SignalMismatch | SocketNotOpen

definition new_ws_client ::
    "(string \<Rightarrow> url option) \<Rightarrow> string \<Rightarrow> WsClientOptions \<Rightarrow> bool \<Rightarrow> (sdk_client_error, WsTrackerClient) result" where
  "new_ws_client parse_url trackerUrl opts reportPeerState =
     (if js_trim (wco_broadcastId opts) = [] then throw EmptyBroadcastId
      else if js_trim (wco_peerId opts) = [] then throw EmptyPeerId
      else (case parse_url trackerUrl of
        None \<Rightarrow> throw InvalidTrackerUrl
      | Some url \<Rightarrow>
          if protocol url \<notin> {''http:'', ''https:'', ''ws:'', ''wss:''} then throw TrackerUrlScheme
          else (case filter (\<lambda>(label, v). \<not> positive_integer v)
              [(''Report interval'', wco_reportIntervalMs opts),
               (''Initial reconnect delay'', wco_reconnectInitialMs opts),
               (''Maximum reconnect delay'', wco_reconnectMaxMs opts)] of
            (label, v) # _ \<Rightarrow> throw (NotPositive label)
          | [] \<Rightarrow>
              if wco_reconnectMaxMs opts < wco_reconnectInitialMs opts then throw DelayOrder
              else return \<lparr>wt_options = opts, wt_ws = None, wt_nextSocket = 0, wt_reportTimer = False,
                wt_reconnectTimer = None, wt_nextReconnectMs = wco_reconnectInitialMs opts, wt_started = False,
                wt_firstConnect = NoConnection, wt_reportPeerState = reportPeerState, wt_sessionToken = None,
                wt_peers = [], wt_lastReportedSegments = [], wt_sent = [], wt_callbacks = []\<rparr>)))"

definition call_back :: "sdk_callback \<Rightarrow> WsTrackerClient \<Rightarrow> WsTrackerClient" where
  "call_back cb c = c\<lparr>wt_callbacks := wt_callbacks c @ [cb]\<rparr>"

text \<open>\<open>accepts\<close>: the socket is still open and its \<^verbatim>\<open>send\<close> returns.\<close>

definition sdk_send :: "bool \<Rightarrow> sdk_message \<Rightarrow> WsTrackerClient \<Rightarrow> bool \<times> WsTrackerClient" where
  "sdk_send accepts message c = (case wt_ws c of
     Some (s, True) \<Rightarrow>
       if accepts then (True, c\<lparr>wt_sent := wt_sent c @ [message]\<rparr>) else (False, c)
   | _ \<Rightarrow> (False, c))"

definition sdk_reportSegments :: "bool \<Rightarrow> string list option \<Rightarrow> WsTrackerClient \<Rightarrow> WsTrackerClient" where
  "sdk_reportSegments accepts getSegments c =
     (if \<not> wt_reportPeerState c then c
      else (case getSegments of
        None \<Rightarrow> c
      | Some listed \<Rightarrow>
          (let segments = new_set listed;
               added = filter (\<lambda>s. s \<notin> set (wt_lastReportedSegments c)) segments;
               removed = filter (\<lambda>s. s \<notin> set segments) (wt_lastReportedSegments c) in
           if added = [] \<and> removed = [] then c
           else (case sdk_send accepts (SdkSegments (wco_broadcastId (wt_options c)) (wco_peerId (wt_options c))
                   added removed) c of
             (sent, c') \<Rightarrow> if \<not> sent then c' else c'\<lparr>wt_lastReportedSegments := segments\<rparr>))))"

text \<open>\<open>getStats\<close> is \<^theory_text>\<open>None\<close> when the callback throws, which ends the report.\<close>

definition sdk_reportStatus ::
    "bool \<Rightarrow> PeerTrafficStats option option \<Rightarrow> string list option \<Rightarrow> WsTrackerClient \<Rightarrow> WsTrackerClient" where
  "sdk_reportStatus accepts getStats getSegments c =
     (let b = wco_broadcastId (wt_options c); p = wco_peerId (wt_options c);
          c1 = snd (sdk_send accepts (SdkHeartbeat b p) c) in
      case getStats of
        None \<Rightarrow> c1
      | Some None \<Rightarrow> sdk_reportSegments accepts getSegments c1
      | Some (Some stats) \<Rightarrow>
          sdk_reportSegments accepts getSegments (snd (sdk_send accepts (SdkStats b p stats) c1)))"

definition startReportTimer :: "WsTrackerClient \<Rightarrow> WsTrackerClient" where
  "startReportTimer c =
     (if \<not> wt_started c \<or> \<not> wt_reportPeerState c \<or> wt_reportTimer c then c else c\<lparr>wt_reportTimer := True\<rparr>)"

definition enablePeerStateReporting ::
    "bool \<Rightarrow> PeerTrafficStats option option \<Rightarrow> string list option \<Rightarrow> WsTrackerClient \<Rightarrow> WsTrackerClient" where
  "enablePeerStateReporting accepts getStats getSegments c =
     (if wt_reportPeerState c then c
      else sdk_reportStatus accepts getStats getSegments (startReportTimer (c\<lparr>wt_reportPeerState := True\<rparr>)))"

definition sendWebRtcSignal ::
    "bool \<Rightarrow> WebRtcSignalMessage \<Rightarrow> WsTrackerClient \<Rightarrow> (sdk_client_error, unit) result \<times> WsTrackerClient" where
  "sendWebRtcSignal accepts message c =
     (if sig_broadcastId message \<noteq> wco_broadcastId (wt_options c) \<or> sig_peerId message \<noteq> wco_peerId (wt_options c)
      then (throw SignalMismatch, c)
      else (case wt_ws c of
        Some (s, True) \<Rightarrow> (return (), snd (sdk_send accepts (SdkSignal message) c))
      | _ \<Rightarrow> (throw SocketNotOpen, c)))"

section \<open>The directory\<close>

definition sdk_replaceInventory :: "string \<Rightarrow> string list \<Rightarrow> WsTrackerClient \<Rightarrow> WsTrackerClient" where
  "sdk_replaceInventory peerId segments c = call_back (OnSegmentAvailable peerId segments)
     (c\<lparr>wt_peers := map_adjust (wt_peers c) peerId (\<lambda>p. p\<lparr>pi_segments := segments\<rparr>)\<rparr>)"

definition sdk_applyInventoryDelta ::
    "string \<Rightarrow> string list \<Rightarrow> string list \<Rightarrow> WsTrackerClient \<Rightarrow> WsTrackerClient" where
  "sdk_applyInventoryDelta peerId added removed c = call_back (OnSegmentAvailable peerId added)
     (c\<lparr>wt_peers := map_adjust (wt_peers c) peerId
         (\<lambda>p. p\<lparr>pi_segments := fold set_add added (fold set_delete removed (new_set (pi_segments p)))\<rparr>)\<rparr>)"

fun sdk_apply_update :: "SegmentInventoryUpdate \<Rightarrow> WsTrackerClient \<Rightarrow> WsTrackerClient" where
  "sdk_apply_update (ReplaceUpdate p segments) c = sdk_replaceInventory p segments c"
| "sdk_apply_update (DeltaUpdate p added removed) c = sdk_applyInventoryDelta p added removed c"

fun sdk_apply :: "PeerInfo WsServerMessage \<Rightarrow> WsTrackerClient \<Rightarrow> WsTrackerClient" where
  "sdk_apply (PeerList b ps) c =
     (let peers = fold (\<lambda>p m. map_set m (pi_id p) p) ps [] in
      call_back (OnPeerList (map_values peers))
        (c\<lparr>wt_nextReconnectMs := wco_reconnectInitialMs (wt_options c), wt_peers := peers\<rparr>))"
| "sdk_apply (PeerJoined b p) c = call_back (OnPeerJoined p) (c\<lparr>wt_peers := map_set (wt_peers c) (pi_id p) p\<rparr>)"
| "sdk_apply (PeerLeft b p) c = call_back (OnPeerLeft p) (c\<lparr>wt_peers := map_delete (wt_peers c) p\<rparr>)"
| "sdk_apply (Inventory (SegmentAvailable b p segments replace)) c =
     (if replace then sdk_replaceInventory p segments c else sdk_applyInventoryDelta p segments [] c)"
| "sdk_apply (Inventory (SegmentInventoryDelta b p added removed)) c = sdk_applyInventoryDelta p added removed c"
| "sdk_apply (InventoryBatch b updates) c = fold sdk_apply_update updates c"
| "sdk_apply (StatsUpdate b p stats) c = c"
| "sdk_apply (Signal s) c =
     (if sig_targetPeerId s = wco_peerId (wt_options c) then call_back (OnWebRtcSignal s) c else c)"

definition sdk_handleMessage :: "jsval option \<Rightarrow> WsTrackerClient \<Rightarrow> WsTrackerClient" where
  "sdk_handleMessage data c = (case parseServerMessage data of
     Inr message \<Rightarrow>
       if message_broadcast message \<noteq> wco_broadcastId (wt_options c) then c else sdk_apply message c
   | Inl e \<Rightarrow> c)"

definition getAllPeers :: "WsTrackerClient \<Rightarrow> PeerInfo list" where
  "getAllPeers c = map_values (wt_peers c)"

definition getPeersWithSegment :: "string \<Rightarrow> WsTrackerClient \<Rightarrow> PeerInfo list" where
  "getPeersWithSegment segmentName c = filter (\<lambda>p. segmentName \<in> set (pi_segments p)) (map_values (wt_peers c))"

section \<open>The connection\<close>

definition sdk_scheduleReconnect :: "number \<Rightarrow> WsTrackerClient \<Rightarrow> WsTrackerClient" where
  "sdk_scheduleReconnect random c =
     (if \<not> wt_started c \<or> wt_reconnectTimer c \<noteq> None then c
      else c\<lparr>wt_nextReconnectMs :=
               math_min (wt_nextReconnectMs c * Num 2) (wco_reconnectMaxMs (wt_options c)),
             wt_reconnectTimer := Some (jitteredDelay (wt_nextReconnectMs c) random)\<rparr>)"

definition sdk_openSocket :: "bool \<Rightarrow> number \<Rightarrow> WsTrackerClient \<Rightarrow> WsTrackerClient" where
  "sdk_openSocket created random c =
     (if \<not> wt_started c \<or> wt_ws c \<noteq> None then c
      else if \<not> created then sdk_scheduleReconnect random c
      else c\<lparr>wt_ws := Some (wt_nextSocket c, False), wt_nextSocket := wt_nextSocket c + 1\<rparr>)"

definition sdk_start :: "bool \<Rightarrow> number \<Rightarrow> WsTrackerClient \<Rightarrow> (sdk_client_error, first_connection) result \<times> WsTrackerClient" where
  "sdk_start created random c =
     (if wt_sessionToken c = None \<or> wt_sessionToken c = Some [] then (throw NoSessionToken, c)
      else if wt_started c then (return (wt_firstConnect c), c)
      else
        (let c1 = startReportTimer (c\<lparr>wt_started := True\<rparr>) in
         (return PendingConnection, sdk_openSocket created random (c1\<lparr>wt_firstConnect := PendingConnection\<rparr>))))"

definition setSessionToken :: "string \<Rightarrow> WsTrackerClient \<Rightarrow> (sdk_client_error, unit) result \<times> WsTrackerClient" where
  "setSessionToken token c =
     (if js_trim token = [] then (throw EmptySessionToken, c) else (return (), c\<lparr>wt_sessionToken := Some token\<rparr>))"

definition sdk_stop :: "WsTrackerClient \<Rightarrow> WsTrackerClient" where
  "sdk_stop c =
     c\<lparr>wt_started := False, wt_peers := [], wt_lastReportedSegments := [], wt_reportTimer := False,
       wt_reconnectTimer := None, wt_firstConnect := NoConnection, wt_ws := None\<rparr>"

definition sdk_current :: "nat \<Rightarrow> WsTrackerClient \<Rightarrow> bool" where
  "sdk_current s c = (case wt_ws c of None \<Rightarrow> False | Some (s', _) \<Rightarrow> s' = s)"

definition sdk_opened ::
    "nat \<Rightarrow> bool \<Rightarrow> PeerTrafficStats option option \<Rightarrow> string list option \<Rightarrow> WsTrackerClient \<Rightarrow> WsTrackerClient" where
  "sdk_opened s accepts getStats getSegments c =
     (if \<not> sdk_current s c \<or> \<not> wt_started c then c
      else
        (let c1 = snd (sdk_send accepts (SdkSubscribe (wco_broadcastId (wt_options c)) (wco_peerId (wt_options c))
                 [WS_FEATURE_INVENTORY_BATCH, WS_FEATURE_NEIGHBOR_VIEW]) (c\<lparr>wt_ws := Some (s, True)\<rparr>));
             c2 = (if wt_reportPeerState c1 then sdk_reportStatus accepts getStats getSegments c1 else c1) in
         call_back OnConnected (c2\<lparr>wt_firstConnect :=
           (if wt_firstConnect c2 = PendingConnection then ConnectedOnce else wt_firstConnect c2)\<rparr>)))"

definition sdk_closed :: "nat \<Rightarrow> number \<Rightarrow> WsTrackerClient \<Rightarrow> WsTrackerClient" where
  "sdk_closed s random c =
     (if \<not> sdk_current s c then c
      else
        (let c1 = call_back OnDisconnected (c\<lparr>wt_ws := None, wt_peers := []\<rparr>) in
         if wt_started c1 then sdk_scheduleReconnect random c1 else c1))"

definition sdk_timer :: "bool \<Rightarrow> number \<Rightarrow> WsTrackerClient \<Rightarrow> WsTrackerClient" where
  "sdk_timer created random c =
     (if wt_reconnectTimer c = None then c
      else sdk_openSocket created random (c\<lparr>wt_reconnectTimer := None\<rparr>))"

datatype sdk_event =
    SdkToken string
  | SdkStart bool number
  | SdkStop
  | SdkOpened nat bool "PeerTrafficStats option option" "string list option"
  | SdkMessage nat "jsval option"
  | SdkErrored nat
  | SdkClosed nat number
  | SdkReconnect bool number
  | SdkReportTimer bool "PeerTrafficStats option option" "string list option"
  | SdkReport bool "string list option"
  | SdkEnable bool "PeerTrafficStats option option" "string list option"
  | SdkSend bool WebRtcSignalMessage

fun sdk_client_step :: "sdk_event \<Rightarrow> WsTrackerClient \<Rightarrow> WsTrackerClient" where
  "sdk_client_step (SdkToken token) c = snd (setSessionToken token c)"
| "sdk_client_step (SdkStart created random) c = snd (sdk_start created random c)"
| "sdk_client_step SdkStop c = sdk_stop c"
| "sdk_client_step (SdkOpened s accepts getStats getSegments) c = sdk_opened s accepts getStats getSegments c"
| "sdk_client_step (SdkMessage s data) c = (if sdk_current s c then sdk_handleMessage data c else c)"
| "sdk_client_step (SdkErrored s) c = (if sdk_current s c \<and> wt_started c then call_back OnError c else c)"
| "sdk_client_step (SdkClosed s random) c = sdk_closed s random c"
| "sdk_client_step (SdkReconnect created random) c = sdk_timer created random c"
| "sdk_client_step (SdkReportTimer accepts getStats getSegments) c =
     (if wt_reportTimer c then sdk_reportStatus accepts getStats getSegments c else c)"
| "sdk_client_step (SdkReport accepts getSegments) c = sdk_reportSegments accepts getSegments c"
| "sdk_client_step (SdkEnable accepts getStats getSegments) c =
     enablePeerStateReporting accepts getStats getSegments c"
| "sdk_client_step (SdkSend accepts message) c = snd (sendWebRtcSignal accepts message c)"

end
