(* ===== verification/SdkTrackerSpec.thy ===== *)
theory SdkTrackerSpec
  imports SdkTracker
begin

text \<open>
  Properties of the browser's tracker client: it reads what the tracker sends, its directory is that of a
  Node peer which gets the same frames, and it speaks only for itself.
\<close>

section \<open>Parsers of browser and Node peer\<close>

definition info_of :: "DirectoryPeer \<Rightarrow> PeerInfo" where
  "info_of p = \<lparr>pi_id = dp_id p, pi_address = dp_address p, pi_segments = dp_segments p,
     pi_latencyMs = dp_latencyMs p, pi_successRate = dp_successRate p, pi_trustScore = dp_trustScore p,
     pi_uploadBandwidthBps = dp_uploadBandwidthBps p, pi_metadata = dp_metadata p,
     pi_joinedAt = Some (dp_joinedAt p), pi_lastSeenAt = Some (dp_lastSeenAt p)\<rparr>"

lemma info_of_fields [simp]: "pi_id (info_of p) = dp_id p" "pi_segments (info_of p) = dp_segments p"
  by (simp_all add: info_of_def)

lemma parse_peer_fields:
  assumes "parsePeer v = return p"
  shows "isRecord v \<and> get_prop v ''id'' = Str (dp_id p) \<and> get_prop v ''address'' = Str (dp_address p) \<and>
    string_array (get_prop v ''segments'') = Some (dp_segments p) \<and>
    get_prop v ''joinedAt'' = Str (dp_joinedAt p) \<and> get_prop v ''lastSeenAt'' = Str (dp_lastSeenAt p) \<and>
    get_prop v ''latencyMs'' = Number (dp_latencyMs p) \<and> get_prop v ''successRate'' = Number (dp_successRate p) \<and>
    get_prop v ''trustScore'' = Number (dp_trustScore p) \<and> isFinite (dp_latencyMs p) \<and> isFinite (dp_successRate p) \<and>
    isFinite (dp_trustScore p) \<and>
    (get_prop v ''uploadBandwidthBps'' = Undefined \<or> is_finite_number (get_prop v ''uploadBandwidthBps'')) \<and>
    dp_uploadBandwidthBps p = (case get_prop v ''uploadBandwidthBps'' of Number n \<Rightarrow> Some n | _ \<Rightarrow> None) \<and>
    parseMetadata (get_prop v ''metadata'') = return (dp_metadata p)"
  using assms unfolding parsePeer_def
  by (auto split: if_splits jsval.splits option.splits sum.splits)

lemma sdk_parse_peer: "parsePeer v = return p \<Longrightarrow> sdk_parsePeer v = return (info_of p)"
  using parse_peer_fields[of v p] by (auto simp: sdk_parsePeer_def string_or_absent_def info_of_def)

lemma sdk_parse_update: "parseInventoryUpdate v = return u \<Longrightarrow> sdk_parseInventoryUpdate v = return u"
  unfolding parseInventoryUpdate_def sdk_parseInventoryUpdate_def
  by (auto split: jsval.splits option.splits if_splits)

lemma map_sum_return: "map_sum id f r = return y \<longleftrightarrow> (\<exists>x. r = return x \<and> y = f x)"
  by (cases r) auto

lemma parse_all_transfer:
  "(\<And>v x. f v = return x \<Longrightarrow> g v = return (h x)) \<Longrightarrow> parse_all f vs = return xs \<Longrightarrow>
     parse_all g vs = return (map h xs)"
  by (induction vs arbitrary: xs) (auto simp: map_sum_return split: sum.splits)

text \<open>What the Node peer's parser accepts, the browser's reads alike; messages the Node peer skips do not
  concern the directory.\<close>

lemma sdk_parse_message:
  assumes "parsePeerUpdate data = return (Some m)"
  shows "parseServerMessage data = return (map_WsServerMessage info_of m)"
proof -
  obtain v type b where v: "data = Some v" "get_prop v ''type'' = Str type" "get_prop v ''broadcastId'' = Str b"
    using assms by (auto simp: parsePeerUpdate_def split: option.splits jsval.splits)
  note parse_all_transfer[of parsePeer sdk_parsePeer info_of, OF sdk_parse_peer]
    parse_all_transfer[of parseInventoryUpdate sdk_parseInventoryUpdate id, OF sdk_parse_update[folded id_apply]]
  then show ?thesis
    using assms v unfolding parsePeerUpdate_def parseServerMessage_def
    by (auto simp: map_sum_return sdk_parse_peer split: if_splits jsval.splits option.splits)
qed

section \<open>Directories\<close>

definition shown :: "(string, DirectoryPeer) jsmap \<Rightarrow> (string, PeerInfo) jsmap" where
  "shown m = map (\<lambda>(k, p). (k, info_of p)) m"

lemma shown_get: "map_get (shown m) k = map_option info_of (map_get m k)"
  by (induction m) (auto simp: shown_def)

lemma shown_set: "shown (map_set m k p) = map_set (shown m) k (info_of p)"
  by (induction m) (auto simp: shown_def)

lemma shown_delete: "shown (map_delete m k) = map_delete (shown m) k"
  by (induction m) (auto simp: shown_def AList.delete_eq)

lemma shown_adjust:
  "(\<And>p. info_of (f p) = g (info_of p)) \<Longrightarrow> shown (map_adjust m k f) = map_adjust (shown m) k g"
  by (auto simp: map_adjust_def shown_get shown_set split: option.split)

lemma shown_list: "fold (\<lambda>p m. map_set m (pi_id p) p) (map info_of ps) (shown m) = shown (fold (\<lambda>p m. map_set m (dp_id p) p) ps m)"
  by (induction ps arbitrary: m) (simp_all flip: shown_set)

lemma call_back_fields [simp]:
  "wt_peers (call_back cb c) = wt_peers c" "wt_options (call_back cb c) = wt_options c"
  "wt_sent (call_back cb c) = wt_sent c" "wt_lastReportedSegments (call_back cb c) = wt_lastReportedSegments c"
  "wt_callbacks (call_back cb c) = wt_callbacks c @ [cb]" "wt_ws (call_back cb c) = wt_ws c"
  "wt_started (call_back cb c) = wt_started c" "wt_reconnectTimer (call_back cb c) = wt_reconnectTimer c"
  "wt_reportPeerState (call_back cb c) = wt_reportPeerState c" "wt_nextSocket (call_back cb c) = wt_nextSocket c"
  by (simp_all add: call_back_def)

text \<open>A browser client and a Node client whose directories agree.\<close>

definition same_directory :: "WsTrackerClient \<Rightarrow> TrackerClient \<Rightarrow> bool" where
  "same_directory d c \<longleftrightarrow> wt_peers d = shown (tc_peers c) \<and>
     wco_broadcastId (wt_options d) = tco_broadcastId (tc_options c)"

lemma replace_same: "same_directory d c \<Longrightarrow> same_directory (sdk_replaceInventory p ss d) (replaceInventory p ss c)"
proof -
  have "shown (map_adjust m p (\<lambda>p. p\<lparr>dp_segments := ss\<rparr>)) = map_adjust (shown m) p (\<lambda>p. p\<lparr>pi_segments := ss\<rparr>)" for m
    by (rule shown_adjust) (simp add: info_of_def)
  then show "same_directory d c \<Longrightarrow> same_directory (sdk_replaceInventory p ss d) (replaceInventory p ss c)"
    by (simp add: same_directory_def sdk_replaceInventory_def replaceInventory_def)
qed

lemma delta_same:
  "same_directory d c \<Longrightarrow> same_directory (sdk_applyInventoryDelta p added removed d) (applyInventoryDelta p added removed c)"
proof -
  have "shown (map_adjust m p (\<lambda>p. p\<lparr>dp_segments := fold set_add added (fold set_delete removed (new_set (dp_segments p)))\<rparr>)) =
      map_adjust (shown m) p (\<lambda>p. p\<lparr>pi_segments := fold set_add added (fold set_delete removed (new_set (pi_segments p)))\<rparr>)" for m
    by (rule shown_adjust) (simp add: info_of_def)
  then show "same_directory d c \<Longrightarrow> same_directory (sdk_applyInventoryDelta p added removed d) (applyInventoryDelta p added removed c)"
    by (simp add: same_directory_def sdk_applyInventoryDelta_def applyInventoryDelta_def)
qed

lemma updates_same:
  "same_directory d c \<Longrightarrow> same_directory (fold sdk_apply_update us d) (fold apply_inventory_update us c)"
proof (induction us arbitrary: d c)
  case (Cons u us)
  have "same_directory (sdk_apply_update u d) (apply_inventory_update u c)"
    using Cons.prems by (cases u) (simp_all add: replace_same delta_same)
  from Cons.IH[OF this] show ?case by simp
qed simp

lemma apply_same:
  assumes same: "same_directory d c"
  shows "same_directory (sdk_apply (map_WsServerMessage info_of m) d) (apply_message m c)"
proof (cases m)
  case (Inventory im)
  then show ?thesis using same by (cases im) (simp_all add: replace_same delta_same)
next
  case (InventoryBatch b us)
  then show ?thesis using updates_same[OF same] by simp
next
  case (PeerList b ps)
  have "shown [] = []" by (simp add: shown_def)
  then show ?thesis using same shown_list[of ps "[]"] by (simp add: PeerList same_directory_def Let_def)
qed (use same in \<open>auto simp: same_directory_def shown_set shown_delete info_of_def\<close>)

lemma broadcast_map: "message_broadcast (map_WsServerMessage f m) = message_broadcast m"
  by (cases m) simp_all

text \<open>Frames without a message for the directory leave it as it is.\<close>

lemma skipped_same:
  assumes "parsePeerUpdate data = return None"
  shows "wt_peers (sdk_handleMessage data d) = wt_peers d \<and> wt_options (sdk_handleMessage data d) = wt_options d"
proof -
  obtain v type b where v: "data = Some v" "get_prop v ''type'' = Str type" "get_prop v ''broadcastId'' = Str b"
    using assms by (auto simp: parsePeerUpdate_def split: option.splits jsval.splits)
  have "type \<noteq> ''peer_list''"
  proof
    assume "type = ''peer_list''"
    with v have "parsePeerUpdate data \<noteq> return None"
      by (simp add: parsePeerUpdate_def map_sum_return split: jsval.split option.split)
    with assms show False by simp
  qed
  moreover have "type \<noteq> ''peer_joined''"
  proof
    assume "type = ''peer_joined''"
    with v have "parsePeerUpdate data \<noteq> return None"
      by (simp add: parsePeerUpdate_def map_sum_return split: jsval.split option.split)
    with assms show False by simp
  qed
  moreover have "type \<noteq> ''peer_left''"
  proof
    assume "type = ''peer_left''"
    with v have "parsePeerUpdate data \<noteq> return None"
      by (simp add: parsePeerUpdate_def map_sum_return split: jsval.split option.split)
    with assms show False by simp
  qed
  moreover have "type \<noteq> ''segment_available''"
  proof
    assume "type = ''segment_available''"
    with v have "parsePeerUpdate data \<noteq> return None"
      by (simp add: parsePeerUpdate_def map_sum_return split: jsval.split option.split)
    with assms show False by simp
  qed
  moreover have "type \<noteq> ''segment_inventory_delta''"
  proof
    assume "type = ''segment_inventory_delta''"
    with v have "parsePeerUpdate data \<noteq> return None"
      by (simp add: parsePeerUpdate_def map_sum_return split: jsval.split option.split)
    with assms show False by simp
  qed
  moreover have "type \<noteq> ''segment_inventory_batch''"
  proof
    assume "type = ''segment_inventory_batch''"
    with v have "parsePeerUpdate data \<noteq> return None"
      by (simp add: parsePeerUpdate_def map_sum_return split: jsval.split option.split)
    with assms show False by simp
  qed
  ultimately have "parseServerMessage data = return m \<Longrightarrow> (\<exists>s. m = Signal s) \<or> (\<exists>b p s. m = StatsUpdate b p s)" for m
    using v by (auto simp: parseServerMessage_def map_sum_return split: if_splits jsval.splits)
  then show ?thesis by (cases "parseServerMessage data") (auto simp: sdk_handleMessage_def)
qed

lemma handle_same:
  assumes same: "same_directory d c" and ok: "is_return (parsePeerUpdate data)"
  shows "same_directory (sdk_handleMessage data d) (client_handleMessage data c)"
proof (cases "parsePeerUpdate data")
  case (Inr q)
  show ?thesis
  proof (cases q)
    case None
    then show ?thesis
      using skipped_same[of data d] Inr same by (simp add: same_directory_def client_handleMessage_def)
  next
    case (Some m)
    then have "parseServerMessage data = return (map_WsServerMessage info_of m)" using Inr by (intro sdk_parse_message) simp
    then show ?thesis
      using apply_same[OF same, of m] same Inr Some
      by (simp add: sdk_handleMessage_def client_handleMessage_def broadcast_map same_directory_def)
  qed
qed (use ok in simp)

section \<open>Properties\<close>

text \<open>C28: A browser and a Node peer that get the same frames keep the same directory: whatever frames the
  Node peer's parser accepts, in any order, the browser's peers are the Node peer's with the same
  order, inventories and measurements.\<close>

theorem browser_follows_node:
  assumes "wco_broadcastId (wt_options d) = tco_broadcastId (tc_options c)"
    and "wt_peers d = map (\<lambda>(k, p). (k, info_of p)) (tc_peers c)"
    and "list_all (\<lambda>frame. is_return (parsePeerUpdate frame)) frames"
  shows "wt_peers (fold sdk_handleMessage frames d) =
    map (\<lambda>(k, p). (k, info_of p)) (tc_peers (fold client_handleMessage frames c))"
proof -
  have "same_directory d c" using assms(1,2) by (simp add: same_directory_def shown_def)
  then have "same_directory (fold sdk_handleMessage frames d) (fold client_handleMessage frames c)"
    using assms(3) by (induction frames arbitrary: d c) (simp_all add: handle_same)
  then show ?thesis by (simp add: same_directory_def shown_def)
qed

definition sample_ws_options :: WsClientOptions where
  "sample_ws_options = \<lparr>wco_broadcastId = ''b'', wco_peerId = ''w'', wco_reconnectInitialMs = Num 1000,
     wco_reconnectMaxMs = Num 30000, wco_reportIntervalMs = Num 5000\<rparr>"

definition sample_ws_client :: WsTrackerClient where
  "sample_ws_client = \<lparr>wt_options = sample_ws_options, wt_ws = None, wt_nextSocket = 0, wt_reportTimer = False,
     wt_reconnectTimer = None, wt_nextReconnectMs = Num 1000, wt_started = False, wt_firstConnect = NoConnection,
     wt_reportPeerState = True, wt_sessionToken = None, wt_peers = [], wt_lastReportedSegments = [], wt_sent = [],
     wt_callbacks = []\<rparr>"

definition sample_tracker_url :: "string \<Rightarrow> url option" where
  "sample_tracker_url s = Some \<lparr>protocol = ''ws:'', username = [], password = [], hostname = ''tracker'',
     pathname = ''/ws'', search = [], url_hash = []\<rparr>"

lemma sample_ws_client_new:
  "new_ws_client sample_tracker_url ''ws://tracker/ws'' sample_ws_options True = return sample_ws_client"
  by code_simp

definition sample_frame :: "jsval option" where
  "sample_frame = Some (message_value (peer_value (\<lambda>_. ''t'')) (PeerList ''b'' [sample_listed]))"

theorem browser_follows_node_witness:
  "wt_peers (fold sdk_handleMessage [sample_frame] sample_ws_client) =
    map (\<lambda>(k, p). (k, info_of p)) (tc_peers (fold client_handleMessage [sample_frame] sample_client))"
proof (rule browser_follows_node)
  have "sendable_peer sample_listed" by (simp add: sendable_peer_def sample_listed_def wf_map_Cons)
  then have "parse_all parsePeer [peer_value (\<lambda>_. ''t'') sample_listed] = return [directory_peer (\<lambda>_. ''t'') sample_listed]"
    by (simp add: parse_peer_value)
  then show "list_all (\<lambda>frame. is_return (parsePeerUpdate frame)) [sample_frame]"
    by (simp add: sample_frame_def parsePeerUpdate_def)
qed (simp_all add: sample_ws_client_def sample_client_def sample_ws_options_def sample_options_def)

section \<open>Reading messages\<close>

lemma sdk_parse_peer_value:
  "sendable_peer p \<Longrightarrow> sdk_parsePeer (peer_value toISO p) = return (info_of (directory_peer toISO p))"
  by (rule sdk_parse_peer[OF parse_peer_value])

lemma sdk_parse_update_value: "sdk_parseInventoryUpdate (update_value u) = return u"
  by (rule sdk_parse_update[OF parse_update_value])

text \<open>The browser reads back every message the tracker sends, statistics and WebRTC offers and answers
  included.\<close>

theorem browser_reads_messages:
  assumes "list_all sendable_peer (message_peers m)"
  shows "parseServerMessage (Some (message_value (peer_value toISO) m)) =
    return (map_WsServerMessage (\<lambda>p. info_of (directory_peer toISO p)) m)"
proof (cases m)
  case (Inventory im)
  then show ?thesis by (cases im) (simp_all add: parseServerMessage_def)
next
  case (InventoryBatch b us)
  have "parse_all sdk_parseInventoryUpdate (map update_value us) = return us"
    using parse_all_map[of us sdk_parseInventoryUpdate update_value id] by (simp add: sdk_parse_update_value)
  then show ?thesis by (simp add: InventoryBatch parseServerMessage_def)
next
  case (PeerList b ps)
  have "parse_all sdk_parsePeer (map (peer_value toISO) ps) = return (map (\<lambda>p. info_of (directory_peer toISO p)) ps)"
    using assms by (intro parse_all_map sdk_parse_peer_value) (simp add: PeerList list_all_iff)
  then show ?thesis by (simp add: PeerList parseServerMessage_def)
next
  case (Signal s)
  then show ?thesis by (cases "sig_type s") (simp_all add: parseServerMessage_def parse_signal_def)
qed (use assms in \<open>simp_all add: parseServerMessage_def sdk_parse_peer_value\<close>)

theorem browser_reads_messages_witness:
  "parseServerMessage (Some (message_value (peer_value (\<lambda>_. ''t'')) (PeerJoined ''b'' sample_listed))) =
    return (PeerJoined ''b'' (info_of (directory_peer (\<lambda>_. ''t'') sample_listed)))"
proof -
  have "sendable_peer sample_listed" by (simp add: sendable_peer_def sample_listed_def wf_map_Cons)
  then show ?thesis using browser_reads_messages[of "PeerJoined ''b'' sample_listed" "\<lambda>_. ''t''"] by simp
qed

section \<open>Identity\<close>

fun speaks_for :: "string \<Rightarrow> string \<Rightarrow> sdk_message \<Rightarrow> bool" where
  "speaks_for b p (SdkSubscribe b' p' features) \<longleftrightarrow> b' = b \<and> p' = p"
| "speaks_for b p (SdkHeartbeat b' p') \<longleftrightarrow> b' = b \<and> p' = p"
| "speaks_for b p (SdkStats b' p' stats) \<longleftrightarrow> b' = b \<and> p' = p"
| "speaks_for b p (SdkSegments b' p' added removed) \<longleftrightarrow> b' = b \<and> p' = p"
| "speaks_for b p (SdkSignal s) \<longleftrightarrow> sig_broadcastId s = b \<and> sig_peerId s = p"

fun addressed_to :: "string \<Rightarrow> string \<Rightarrow> sdk_callback \<Rightarrow> bool" where
  "addressed_to b p (OnWebRtcSignal s) \<longleftrightarrow> sig_broadcastId s = b \<and> sig_targetPeerId s = p"
| "addressed_to b p _ \<longleftrightarrow> True"

definition identity_kept :: "WsTrackerClient \<Rightarrow> bool" where
  "identity_kept c \<longleftrightarrow>
     list_all (speaks_for (wco_broadcastId (wt_options c)) (wco_peerId (wt_options c))) (wt_sent c) \<and>
     list_all (addressed_to (wco_broadcastId (wt_options c)) (wco_peerId (wt_options c))) (wt_callbacks c)"

text \<open>A step that keeps the options and adds only own messages and callbacks.\<close>

definition own_step :: "WsTrackerClient \<Rightarrow> WsTrackerClient \<Rightarrow> bool" where
  "own_step c c' \<longleftrightarrow> wt_options c' = wt_options c \<and> (identity_kept c \<longrightarrow> identity_kept c')"

lemma own_refl [simp]: "own_step c c"
  by (simp add: own_step_def)

lemma own_trans: "own_step a b \<Longrightarrow> own_step b c \<Longrightarrow> own_step a c"
  by (simp add: own_step_def)

lemma own_same:
  "wt_options c' = wt_options c \<Longrightarrow> wt_sent c' = wt_sent c \<Longrightarrow> wt_callbacks c' = wt_callbacks c \<Longrightarrow> own_step c c'"
  by (simp add: own_step_def identity_kept_def)

lemma own_callback:
  "addressed_to (wco_broadcastId (wt_options c)) (wco_peerId (wt_options c)) cb \<Longrightarrow> own_step c (call_back cb c)"
  by (simp add: own_step_def identity_kept_def)

lemma own_send:
  "speaks_for (wco_broadcastId (wt_options c)) (wco_peerId (wt_options c)) m \<Longrightarrow> own_step c (snd (sdk_send a m c))"
  by (auto simp: sdk_send_def own_step_def identity_kept_def split: option.split bool.split)

lemma own_report: "own_step c (sdk_reportSegments a segments c)"
proof (cases "sdk_reportSegments a segments c = c")
  case False
  then have "wt_reportPeerState c \<and> segments \<noteq> None"
    by (cases "wt_reportPeerState c"; cases segments) (simp_all add: sdk_reportSegments_def)
  then obtain listed where l: "segments = Some listed" "wt_reportPeerState c" by auto
  define added removed where "added = filter (\<lambda>s. s \<notin> set (wt_lastReportedSegments c)) (new_set listed)"
    and "removed = filter (\<lambda>s. s \<notin> set (new_set listed)) (wt_lastReportedSegments c)"
  define m where "m = SdkSegments (wco_broadcastId (wt_options c)) (wco_peerId (wt_options c)) added removed"
  obtain sent c' where s: "sdk_send a m c = (sent, c')" by fastforce
  have "own_step c (snd (sdk_send a m c))" by (rule own_send) (simp add: m_def)
  then have "own_step c c'" by (simp add: s)
  moreover have "own_step c' (c'\<lparr>wt_lastReportedSegments := new_set listed\<rparr>)" by (rule own_same) simp_all
  moreover have "sdk_reportSegments a segments c \<in> {c', c'\<lparr>wt_lastReportedSegments := new_set listed\<rparr>}"
  proof -
    have "sdk_reportSegments a segments c = (if added = [] \<and> removed = [] then c
        else (case sdk_send a m c of (sent, c') \<Rightarrow> if \<not> sent then c' else c'\<lparr>wt_lastReportedSegments := new_set listed\<rparr>))"
      by (simp only: sdk_reportSegments_def l Let_def added_def removed_def m_def option.case not_True_eq_False if_False)
    with False show ?thesis by (auto simp: s split: if_splits)
  qed
  ultimately show ?thesis using own_trans by auto
qed simp

lemma own_status: "own_step c (sdk_reportStatus a stats segments c)"
proof -
  define b where "b = wco_broadcastId (wt_options c)"
  define p where "p = wco_peerId (wt_options c)"
  define c1 where "c1 = snd (sdk_send a (SdkHeartbeat b p) c)"
  have 1: "own_step c c1" unfolding c1_def by (rule own_send) (simp add: b_def p_def)
  have 2: "own_step c1 (snd (sdk_send a (SdkStats b p s) c1))" for s
    by (rule own_send) (use 1 in \<open>simp add: own_step_def b_def p_def\<close>)
  show ?thesis
    unfolding sdk_reportStatus_def Let_def b_def[symmetric] p_def[symmetric] c1_def[symmetric]
    using own_trans[OF 1 own_report] own_trans[OF own_trans[OF 1 2] own_report] 1 by (simp split: option.split)
qed

lemma own_update: "own_step c (sdk_apply_update u c)"
  by (cases u) (auto simp: sdk_replaceInventory_def sdk_applyInventoryDelta_def
      intro: own_trans[OF own_same own_callback])

lemma own_updates: "own_step c (fold sdk_apply_update us c)"
  by (induction us arbitrary: c) (auto intro: own_trans[OF own_update])

lemma own_apply: "message_broadcast m = wco_broadcastId (wt_options c) \<Longrightarrow> own_step c (sdk_apply m c)"
proof (cases m)
  case (Inventory im)
  then show ?thesis
    using own_update[of c "ReplaceUpdate p s" for p s] own_update[of c "DeltaUpdate p a r" for p a r]
    by (cases im) auto
qed (auto simp: own_updates Let_def intro: own_trans[OF own_same own_callback] own_callback)

lemma own_schedule: "own_step c (sdk_scheduleReconnect random c)"
  by (auto simp: sdk_scheduleReconnect_def intro: own_same)

lemma own_open: "own_step c (sdk_openSocket created random c)"
  by (auto simp: sdk_openSocket_def own_schedule intro: own_same)

lemma own_event: "own_step c (sdk_client_step e c)"
proof (cases e)
  case (SdkToken token)
  then show ?thesis by (auto simp: setSessionToken_def intro: own_same)
next
  case (SdkStart created random)
  have "own_step c (startReportTimer (c\<lparr>wt_started := True\<rparr>)\<lparr>wt_firstConnect := PendingConnection\<rparr>)"
    by (rule own_same) (simp_all add: startReportTimer_def)
  from own_trans[OF this own_open] show ?thesis by (simp add: SdkStart sdk_start_def Let_def)
next
  case SdkStop
  then show ?thesis by (auto simp: sdk_stop_def intro: own_same)
next
  case (SdkOpened s accepts stats segments)
  define c1 where "c1 = snd (sdk_send accepts (SdkSubscribe (wco_broadcastId (wt_options c)) (wco_peerId (wt_options c))
      [WS_FEATURE_INVENTORY_BATCH, WS_FEATURE_NEIGHBOR_VIEW]) (c\<lparr>wt_ws := Some (s, True)\<rparr>))"
  define c2 where "c2 = (if wt_reportPeerState c1 then sdk_reportStatus accepts stats segments c1 else c1)"
  have "own_step c c1" unfolding c1_def by (rule own_trans[OF own_same own_send]) simp_all
  then have "own_step c c2" using own_trans[OF _ own_status] by (simp add: c2_def)
  moreover have "own_step c2 (call_back OnConnected (c2\<lparr>wt_firstConnect := x\<rparr>))" for x
    by (rule own_trans[OF own_same own_callback]) simp_all
  ultimately have "own_step c (call_back OnConnected (c2\<lparr>wt_firstConnect := x\<rparr>))" for x
    using own_trans by blast
  then show ?thesis by (simp add: SdkOpened sdk_opened_def Let_def flip: c1_def c2_def)
next
  case (SdkMessage s data)
  have "own_step c (sdk_handleMessage data c)"
  proof (cases "parseServerMessage data")
    case (Inr m)
    then show ?thesis using own_apply[of m c] by (simp add: sdk_handleMessage_def)
  qed (simp add: sdk_handleMessage_def)
  then show ?thesis by (simp add: SdkMessage)
next
  case (SdkErrored s)
  then show ?thesis by (auto intro: own_callback)
next
  case (SdkClosed s random)
  have "own_step c (call_back OnDisconnected (c\<lparr>wt_ws := None, wt_peers := []\<rparr>))"
    by (rule own_trans[OF own_same own_callback]) simp_all
  then show ?thesis using own_trans[OF _ own_schedule] by (simp add: SdkClosed sdk_closed_def Let_def)
next
  case (SdkReconnect created random)
  have "own_step c (c\<lparr>wt_reconnectTimer := None\<rparr>)" by (rule own_same) simp_all
  from own_trans[OF this own_open] show ?thesis by (simp add: SdkReconnect sdk_timer_def)
next
  case (SdkEnable accepts stats segments)
  have "own_step c (startReportTimer (c\<lparr>wt_reportPeerState := True\<rparr>))"
    by (rule own_same) (simp_all add: startReportTimer_def)
  from own_trans[OF this own_status] show ?thesis by (simp add: SdkEnable enablePeerStateReporting_def)
next
  case (SdkSend accepts message)
  then show ?thesis by (auto simp: sendWebRtcSignal_def own_send split: option.split prod.split bool.split)
qed (simp_all add: own_status own_report)

interpretation sdk_identity: kept_by_steps sdk_client_step identity_kept
  using own_event by unfold_locales (auto simp: own_step_def)

text \<open>C29: Whatever the tracker sends and the application asks for, every message the browser sends names
  its own broadcast and peer, and every WebRTC signal handed to the application is of its broadcast and
  addressed to it.\<close>

theorem browser_speaks_for_itself:
  assumes "new_ws_client parse_url trackerUrl opts reportPeerState = return c"
  shows "list_all (speaks_for (wco_broadcastId opts) (wco_peerId opts)) (wt_sent (fold sdk_client_step events c)) \<and>
    list_all (addressed_to (wco_broadcastId opts) (wco_peerId opts)) (wt_callbacks (fold sdk_client_step events c))"
proof -
  have c: "wt_options c = opts" "wt_sent c = []" "wt_callbacks c = []"
    using assms by (auto simp: new_ws_client_def split: if_splits option.splits list.splits)
  then have "identity_kept c" by (simp add: identity_kept_def)
  from sdk_identity.run[OF this, of events] have "identity_kept (fold sdk_client_step events c)" .
  moreover have "wt_options (fold sdk_client_step events d) = wt_options d" for d
    using own_event by (induction events arbitrary: d) (simp_all add: own_step_def)
  ultimately show ?thesis by (simp add: identity_kept_def c)
qed

definition sample_sdk_events :: "sdk_event list" where
  "sample_sdk_events = [SdkToken ''t'', SdkStart True 0, SdkOpened 0 True (Some None) (Some [''a.ts''])]"

theorem browser_speaks_for_itself_witness:
  "list_all (speaks_for ''b'' ''w'') (wt_sent (fold sdk_client_step sample_sdk_events sample_ws_client)) \<and>
    length (wt_sent (fold sdk_client_step sample_sdk_events sample_ws_client)) = 3"
proof -
  have "length (wt_sent (fold sdk_client_step sample_sdk_events sample_ws_client)) = 3" by code_simp
  then show ?thesis
    using browser_speaks_for_itself[OF sample_ws_client_new, of sample_sdk_events] by (simp add: sample_ws_options_def)
qed

text \<open>Like the Node peer's client, the browser's omits after a reconnect what it reported before.\<close>

lemma sdk_reconnect_omits_segments:
  assumes "wt_started c" "wt_ws c = Some (s, True)" "wt_reconnectTimer c = None" "wt_reportPeerState c"
    and "set segments = set (wt_lastReportedSegments c)"
  shows "wt_sent (fold sdk_client_step
      [SdkClosed s r, SdkReconnect True r', SdkOpened (wt_nextSocket c) True (Some None) (Some segments)] c) =
    wt_sent c @ [SdkSubscribe (wco_broadcastId (wt_options c)) (wco_peerId (wt_options c))
        [WS_FEATURE_INVENTORY_BATCH, WS_FEATURE_NEIGHBOR_VIEW],
      SdkHeartbeat (wco_broadcastId (wt_options c)) (wco_peerId (wt_options c))]"
  using assms
  by (simp add: sdk_closed_def sdk_current_def Let_def sdk_scheduleReconnect_def sdk_timer_def sdk_openSocket_def
      sdk_opened_def sdk_send_def sdk_reportStatus_def sdk_reportSegments_def filter_empty_conv)

end
