(* ===== verification/TrackerRequests.thy ===== *)
theory TrackerRequests
  imports WebSocketHub UriText
begin

text \<open>
  What the tracker's REST API reads from a request (\<^verbatim>\<open>tracker/src/server.ts\<close>): the JSON body with its size
  limit, the fields of the bodies, metadata, peer identifiers and addresses, and the path. Parsing JSON and
  URLs, and the text that a list of decoded code points is, are arguments.
\<close>

section \<open>Errors\<close>

text \<open>One constructor per message of \<^verbatim>\<open>RequestError\<close>.\<close>

datatype request_error =
    MissingApiKey | InvalidApiKey | BadPeerSession
  | RateLimited number | StatsUnavailable | ReportRateLimited | PeerLimit
  | BodyTooLarge | BodyNotObject
  | EmptyField string | NotFinite string | NegativeField string | NotUnitInterval string | NotBoolean string
  | FieldTooLong string nat | BadIdentifier
  | MetadataNotStrings | MetadataEntries | MetadataKey | MetadataValue | MetadataTotal
  | BadPercentEncoding | BadSegments | BadStats stats_error | BadReason
  | BadAddress | BadAddressUrl peer_url_error

fun request_status :: "request_error \<Rightarrow> nat" where
  "request_status MissingApiKey = 401"
| "request_status InvalidApiKey = 401"
| "request_status BadPeerSession = 401"
| "request_status (RateLimited _) = 429"
| "request_status ReportRateLimited = 429"
| "request_status PeerLimit = 429"
| "request_status StatsUnavailable = 503"
| "request_status BodyTooLarge = 413"
| "request_status _ = 400"

text \<open>The \<^verbatim>\<open>retry-after\<close> header.\<close>

fun retry_after :: "request_error \<Rightarrow> number option" where
  "retry_after (RateLimited seconds) = Some seconds"
| "retry_after PeerLimit = Some 1"
| "retry_after _ = None"

section \<open>Bodies\<close>

definition MAX_BODY_BYTES :: nat where "MAX_BODY_BYTES = 1000000"

text \<open>The chunks are the bytes of the body, each as a code unit; the stream may fail after them
  (\<open>ended\<close> is false), which is no \<^verbatim>\<open>RequestError\<close>: then the result is \<^theory_text>\<open>None\<close>.\<close>

fun read_chunks :: "string list \<Rightarrow> nat \<Rightarrow> bool \<Rightarrow> (request_error, string list) result option" where
  "read_chunks [] bytes ended = (if ended then Some (return []) else None)"
| "read_chunks (chunk # chunks) bytes ended =
     (if bytes + length chunk > MAX_BODY_BYTES then Some (throw BodyTooLarge)
      else (case read_chunks chunks (bytes + length chunk) ended of
        Some (Inr rest) \<Rightarrow> Some (return (chunk # rest))
      | r \<Rightarrow> r))"

definition readJson ::
    "(string \<Rightarrow> jsval option) \<Rightarrow> string list \<Rightarrow> bool \<Rightarrow> (request_error, jsval) result option" where
  "readJson parse_json chunks ended = map_option (\<lambda>r. and_then r (\<lambda>read.
     if read = [] then return (Object [])
     else (case parse_json (concat read) of
       None \<Rightarrow> throw BodyNotObject
     | Some v \<Rightarrow> if isRecord v then return v else throw BodyNotObject))) (read_chunks chunks 0 ended)"

section \<open>Fields\<close>

definition MAX_PEER_ID_LENGTH :: nat where "MAX_PEER_ID_LENGTH = 128"
definition MAX_PEER_ADDRESS_LENGTH :: nat where "MAX_PEER_ADDRESS_LENGTH = 2048"

definition boundedString :: "string \<Rightarrow> string \<Rightarrow> nat \<Rightarrow> (request_error, string) result" where
  "boundedString v key maxLength =
     (if length v > maxLength then throw (FieldTooLong key maxLength) else return v)"

text \<open>The control characters \<^verbatim>\<open>\p{Cc}\<close> among the 8-bit code units.\<close>

definition is_control :: "char \<Rightarrow> bool" where
  "is_control c \<longleftrightarrow> (of_char c :: nat) < 32 \<or> 127 \<le> (of_char c :: nat) \<and> (of_char c :: nat) < 160"

definition peer_id_pattern :: "string \<Rightarrow> bool" where
  "peer_id_pattern v \<longleftrightarrow> v \<noteq> [] \<and> list_all (\<lambda>c. \<not> is_space c \<and> \<not> is_control c) v"

definition peerIdentifier :: "string \<Rightarrow> (request_error, string) result" where
  "peerIdentifier v = and_then (boundedString v ''id'' MAX_PEER_ID_LENGTH) (\<lambda>_.
     if peer_id_pattern v then return v else throw BadIdentifier)"

definition rest_requiredString :: "jsval \<Rightarrow> string \<Rightarrow> (request_error, string) result" where
  "rest_requiredString body key = (case get_prop body key of
     Str s \<Rightarrow> if js_trim s = [] then throw (EmptyField key) else return s
   | _ \<Rightarrow> throw (EmptyField key))"

definition rest_optionalNumber :: "jsval \<Rightarrow> string \<Rightarrow> (request_error, number option) result" where
  "rest_optionalNumber body key = (case get_prop body key of
     Undefined \<Rightarrow> return None
   | Number n \<Rightarrow> if isFinite n then return (Some n) else throw (NotFinite key)
   | _ \<Rightarrow> throw (NotFinite key))"

definition rest_optionalNonNegativeNumber :: "jsval \<Rightarrow> string \<Rightarrow> (request_error, number option) result" where
  "rest_optionalNonNegativeNumber body key = and_then (rest_optionalNumber body key) (\<lambda>v.
     case v of Some n \<Rightarrow> if n < 0 then throw (NegativeField key) else return v | None \<Rightarrow> return v)"

definition rest_optionalUnitInterval :: "jsval \<Rightarrow> string \<Rightarrow> (request_error, number option) result" where
  "rest_optionalUnitInterval body key = and_then (rest_optionalNumber body key) (\<lambda>v.
     case v of Some n \<Rightarrow> if n < 0 \<or> n > 1 then throw (NotUnitInterval key) else return v | None \<Rightarrow> return v)"

definition rest_optionalBoolean :: "jsval \<Rightarrow> string \<Rightarrow> (request_error, bool option) result" where
  "rest_optionalBoolean body key = (case get_prop body key of
     Undefined \<Rightarrow> return None
   | Boolean b \<Rightarrow> return (Some b)
   | _ \<Rightarrow> throw (NotBoolean key))"

section \<open>Metadata\<close>

definition MAX_METADATA_ENTRIES :: nat where "MAX_METADATA_ENTRIES = 32"
definition MAX_METADATA_VALUE_LENGTH :: nat where "MAX_METADATA_VALUE_LENGTH = 1024"
definition MAX_METADATA_TOTAL_LENGTH :: nat where "MAX_METADATA_TOTAL_LENGTH = 4096"

text \<open>\<^verbatim>\<open>/^[A-Za-z0-9_.:-]{1,64}$/\<close>\<close>

definition metadata_key :: "string \<Rightarrow> bool" where
  "metadata_key key \<longleftrightarrow> key \<noteq> [] \<and> length key \<le> 64 \<and>
     list_all (\<lambda>c. is_alnum c \<or> c \<in> set ''_.:-'') key"

text \<open>\<^verbatim>\<open>metadata[key] = item\<close>: assigning a string to \<^verbatim>\<open>__proto__\<close> of an object literal does nothing.\<close>

definition set_property :: "metadata \<Rightarrow> string \<Rightarrow> string \<Rightarrow> metadata" where
  "set_property metadata key item = (if key = ''__proto__'' then metadata else map_set metadata key item)"

fun metadata_loop ::
    "(string \<times> jsval) list \<Rightarrow> nat \<Rightarrow> metadata \<Rightarrow> (request_error, nat \<times> metadata) result" where
  "metadata_loop [] totalLength metadata = return (totalLength, metadata)"
| "metadata_loop ((key, Str item) # entries) totalLength metadata =
     (if \<not> metadata_key key then throw MetadataKey
      else if length item > MAX_METADATA_VALUE_LENGTH then throw MetadataValue
      else metadata_loop entries (totalLength + (length key + length item)) (set_property metadata key item))"
| "metadata_loop ((key, item) # entries) totalLength metadata = throw MetadataNotStrings"

definition optionalMetadata :: "jsval \<Rightarrow> (request_error, metadata option) result" where
  "optionalMetadata body = (case get_prop body ''metadata'' of
     Undefined \<Rightarrow> return None
   | Object entries \<Rightarrow>
       if length entries > MAX_METADATA_ENTRIES then throw MetadataEntries
       else and_then (metadata_loop entries 0 []) (\<lambda>(totalLength, metadata).
         if totalLength > MAX_METADATA_TOTAL_LENGTH then throw MetadataTotal else return (Some metadata))
   | _ \<Rightarrow> throw MetadataNotStrings)"

section \<open>Paths and addresses\<close>

definition decodedPathComponent :: "(nat list \<Rightarrow> string) \<Rightarrow> string \<Rightarrow> (request_error, string) result" where
  "decodedPathComponent text_of v = (case decodeURIComponent v of
     None \<Rightarrow> throw BadPercentEncoding | Some points \<Rightarrow> return (text_of points))"

text \<open>\<^verbatim>\<open>validatePeerAddress\<close>, with the caller's translation of what it throws.\<close>

definition validatePeerAddress ::
    "(string \<Rightarrow> url option) \<Rightarrow> (nat list \<Rightarrow> string) \<Rightarrow> string \<Rightarrow> string \<Rightarrow> (request_error, unit) result" where
  "validatePeerAddress parse_url text_of address peerId =
     (case parse_url address of
        None \<Rightarrow> throw (BadAddressUrl InvalidUrl)
      | Some u \<Rightarrow>
          if protocol u = ''http:'' \<or> protocol u = ''https:'' then
            (case validatePeerHttpBaseUrl parse_url address of
               Inl e \<Rightarrow> throw (BadAddressUrl e) | Inr _ \<Rightarrow> return ())
          else if protocol u \<noteq> ''webrtc:'' then throw BadAddress
          else
            (case decodeURIComponent (hostname u) of
               None \<Rightarrow> throw BadPercentEncoding
             | Some points \<Rightarrow>
                 if text_of points \<noteq> peerId \<or> pathname u \<noteq> [] \<or> search u \<noteq> [] \<or> url_hash u \<noteq> []
                 then throw BadAddress else return ()))"

section \<open>Laws\<close>

text \<open>What the checks let through.\<close>

lemma rest_requiredString_accepts:
  "rest_requiredString body key = return s \<longleftrightarrow> get_prop body key = Str s \<and> js_trim s \<noteq> []"
  by (auto simp: rest_requiredString_def split: jsval.split)

lemma boundedString_accepts: "boundedString v key n = return s \<longleftrightarrow> s = v \<and> length v \<le> n"
  by (auto simp: boundedString_def)

lemma peerIdentifier_accepts:
  "peerIdentifier v = return s \<longleftrightarrow> s = v \<and> length v \<le> MAX_PEER_ID_LENGTH \<and> peer_id_pattern v"
  by (auto simp: peerIdentifier_def boundedString_def)

lemma rest_optionalNumber_accepts:
  "rest_optionalNumber body key = return v \<longleftrightarrow>
     (case v of None \<Rightarrow> get_prop body key = Undefined
      | Some n \<Rightarrow> get_prop body key = Number n \<and> isFinite n)"
  by (auto simp: rest_optionalNumber_def split: jsval.split option.split)

lemma nonnegative_accepts:
  "rest_optionalNonNegativeNumber body key = return (Some n) \<Longrightarrow> isFinite n \<and> \<not> n < 0"
  by (auto simp: rest_optionalNonNegativeNumber_def and_then_return rest_optionalNumber_accepts
      split: option.splits if_splits)

lemma unit_interval_accepts:
  "rest_optionalUnitInterval body key = return (Some n) \<Longrightarrow> isFinite n \<and> \<not> n < 0 \<and> \<not> n > 1"
  by (auto simp: rest_optionalUnitInterval_def and_then_return rest_optionalNumber_accepts
      split: option.splits if_splits)

text \<open>Accepted metadata is small: its entries and their characters are bounded.\<close>

definition metadata_size :: "metadata \<Rightarrow> nat" where
  "metadata_size m = sum_list (map (\<lambda>(key, item). length key + length item) m)"

definition metadata_entry :: "string \<times> string \<Rightarrow> bool" where
  "metadata_entry = (\<lambda>(key, item). metadata_key key \<and> length item \<le> MAX_METADATA_VALUE_LENGTH)"

lemma metadata_size_set: "metadata_size (map_set m k v) \<le> metadata_size m + (length k + length v)"
  by (induction m) (auto simp: metadata_size_def)

lemma length_map_set_le: "length (map_set m k v) \<le> Suc (length m)"
  by (induction m) auto

lemma metadata_loop_small:
  assumes "metadata_loop entries bytes m = return (bytes', m')" "metadata_size m \<le> bytes"
    and "list_all metadata_entry m"
  shows "metadata_size m' \<le> bytes' \<and> length m' \<le> length m + length entries \<and> list_all metadata_entry m'"
  using assms
proof (induction entries bytes m rule: metadata_loop.induct)
  case (2 key item entries bytes m)
  let ?m = "set_property m key item"
  have "metadata_key key" "length item \<le> MAX_METADATA_VALUE_LENGTH"
    and rest: "metadata_loop entries (bytes + (length key + length item)) ?m = return (bytes', m')"
    using "2.prems"(1) by (auto split: if_splits)
  moreover have "metadata_size ?m \<le> bytes + (length key + length item)"
    using "2.prems"(2) metadata_size_set[of key item m] by (simp add: set_property_def)
  moreover have "list_all metadata_entry ?m"
    using "2.prems"(3) calculation(1,2) set_map_set[of key item m]
    by (auto simp: set_property_def list_all_iff metadata_entry_def)
  ultimately have "metadata_size m' \<le> bytes'" "length m' \<le> length ?m + length entries"
    "list_all metadata_entry m'" using "2.IH" by simp_all
  moreover have "length ?m \<le> Suc (length m)" by (simp add: set_property_def length_map_set_le)
  ultimately show ?case by simp
qed simp_all

lemma optionalMetadata_small:
  assumes "optionalMetadata body = return (Some m)"
  shows "length m \<le> MAX_METADATA_ENTRIES \<and> metadata_size m \<le> MAX_METADATA_TOTAL_LENGTH \<and>
    list_all metadata_entry m"
proof -
  obtain entries bytes where "length entries \<le> MAX_METADATA_ENTRIES"
    and "metadata_loop entries 0 [] = return (bytes, m)" "bytes \<le> MAX_METADATA_TOTAL_LENGTH"
    using assms by (auto simp: optionalMetadata_def and_then_return not_less split: jsval.splits if_splits)
  then show ?thesis using metadata_loop_small[of entries 0 "[]" bytes m] by (simp add: metadata_size_def)
qed

text \<open>A body that is read is no longer than the limit.\<close>

lemma read_chunks_small:
  "read_chunks chunks bytes ended = Some (return read) \<Longrightarrow> bytes + length (concat read) \<le> max bytes MAX_BODY_BYTES
     \<and> read = chunks \<and> ended"
  by (induction chunks bytes ended arbitrary: read rule: read_chunks.induct)
    (fastforce split: if_splits option.splits sum.splits)+

lemma readJson_small:
  "readJson parse_json chunks ended = Some (return v) \<Longrightarrow> length (concat chunks) \<le> MAX_BODY_BYTES \<and> isRecord v"
  using read_chunks_small[of chunks 0 ended]
  by (fastforce simp: readJson_def and_then_return split: if_splits option.splits)

end
