(* ===== verification/TrackerMetrics.thy ===== *)
theory TrackerMetrics
  imports WebSocketHub JsText
begin

text \<open>
  The Prometheus collector of \<^verbatim>\<open>tracker/src/server.ts\<close>: counters of the process, the traffic counters
  followed from the store, the response and duration statistics, and the text of a scrape. The percentiles of the
  event-loop delay and the text of a number are arguments.
\<close>

section \<open>State\<close>

record TrafficCounters =
  tc_p2pRequests :: number
  tc_originRequests :: number
  tc_p2pSuccesses :: number
  tc_integrityFailures :: number
  tc_fallbacks :: number

definition no_traffic :: TrafficCounters where
  "no_traffic = \<lparr>tc_p2pRequests = 0, tc_originRequests = 0, tc_p2pSuccesses = 0,
     tc_integrityFailures = 0, tc_fallbacks = 0\<rparr>"

definition REQUEST_DURATION_BUCKETS_MS :: "nat list" where
  "REQUEST_DURATION_BUCKETS_MS = [1, 5, 10, 25, 50, 100, 250, 500, 1000, 2500, 5000]"

record TrackerMetrics =
  tm_startedAtMs :: int
  tm_broadcastsTotal :: nat
  tm_peersTotal :: nat
  tm_rateLimitedRequestsTotal :: nat
  tm_responsesByClass :: "(string, nat) jsmap"
  tm_httpAuthFailuresTotal :: nat
  tm_traffic :: TrafficCounters
  tm_lastReportedTraffic :: TrafficCounters
  tm_requestDurationCount :: nat
  tm_requestDurationSumMs :: number
  tm_requestDurationBuckets :: "nat list"

definition new_metrics :: "int \<Rightarrow> TrackerMetrics" where
  "new_metrics now = \<lparr>tm_startedAtMs = now, tm_broadcastsTotal = 0, tm_peersTotal = 0,
     tm_rateLimitedRequestsTotal = 0, tm_responsesByClass = [], tm_httpAuthFailuresTotal = 0,
     tm_traffic = no_traffic, tm_lastReportedTraffic = no_traffic, tm_requestDurationCount = 0,
     tm_requestDurationSumMs = 0, tm_requestDurationBuckets = map (\<lambda>_. 0) REQUEST_DURATION_BUCKETS_MS\<rparr>"

section \<open>Operations\<close>

definition metrics_broadcastCreated :: "TrackerMetrics \<Rightarrow> TrackerMetrics" where
  "metrics_broadcastCreated m = m\<lparr>tm_broadcastsTotal := tm_broadcastsTotal m + 1\<rparr>"

definition metrics_peerJoined :: "TrackerMetrics \<Rightarrow> TrackerMetrics" where
  "metrics_peerJoined m = m\<lparr>tm_peersTotal := tm_peersTotal m + 1\<rparr>"

definition requestRateLimited :: "TrackerMetrics \<Rightarrow> TrackerMetrics" where
  "requestRateLimited m = m\<lparr>tm_rateLimitedRequestsTotal := tm_rateLimitedRequestsTotal m + 1\<rparr>"

definition observeResponse :: "nat \<Rightarrow> bool \<Rightarrow> TrackerMetrics \<Rightarrow> TrackerMetrics" where
  "observeResponse status isRestRequest m =
     (let m1 = (if status = 401 \<or> status = 403
            then m\<lparr>tm_httpAuthFailuresTotal := tm_httpAuthFailuresTotal m + 1\<rparr> else m);
          statusClass = nat_string (status div 100) @ ''xx'' in
      if \<not> isRestRequest then m1
      else m1\<lparr>tm_responsesByClass := map_set (tm_responsesByClass m1) statusClass
        ((case map_get (tm_responsesByClass m1) statusClass of None \<Rightarrow> 0 | Some n \<Rightarrow> n) + 1)\<rparr>)"

definition observeRestRequest :: "number \<Rightarrow> TrackerMetrics \<Rightarrow> TrackerMetrics" where
  "observeRestRequest durationMs m =
     (let duration = math_max 0 durationMs in
      m\<lparr>tm_requestDurationCount := tm_requestDurationCount m + 1,
        tm_requestDurationSumMs := tm_requestDurationSumMs m + duration,
        tm_requestDurationBuckets := map2 (\<lambda>limit n. if duration \<le> nat_number limit then n + 1 else n)
          REQUEST_DURATION_BUCKETS_MS (tm_requestDurationBuckets m)\<rparr>)"

text \<open>The counters of the store the collector follows.\<close>

definition current_traffic :: "TrackerStore \<Rightarrow> TrafficCounters" where
  "current_traffic store = (let stats = gs_traffic (getGlobalStats store) in
     \<lparr>tc_p2pRequests = p2pRequests stats, tc_originRequests = originRequests stats,
      tc_p2pSuccesses = p2pSuccesses stats, tc_integrityFailures = integrityFailures stats,
      tc_fallbacks = fallbacks stats\<rparr>)"

definition advance :: "number \<Rightarrow> number \<Rightarrow> number \<Rightarrow> number" where
  "advance counter current last_reported = counter + math_max 0 (current - last_reported)"

definition advance_traffic :: "TrafficCounters \<Rightarrow> TrafficCounters \<Rightarrow> TrafficCounters \<Rightarrow> TrafficCounters" where
  "advance_traffic counters current reported =
     \<lparr>tc_p2pRequests = advance (tc_p2pRequests counters) (tc_p2pRequests current) (tc_p2pRequests reported),
      tc_originRequests = advance (tc_originRequests counters) (tc_originRequests current) (tc_originRequests reported),
      tc_p2pSuccesses = advance (tc_p2pSuccesses counters) (tc_p2pSuccesses current) (tc_p2pSuccesses reported),
      tc_integrityFailures = advance (tc_integrityFailures counters) (tc_integrityFailures current)
        (tc_integrityFailures reported),
      tc_fallbacks = advance (tc_fallbacks counters) (tc_fallbacks current) (tc_fallbacks reported)\<rparr>"

definition synchronizeTraffic :: "TrackerStore \<Rightarrow> TrackerMetrics \<Rightarrow> TrackerMetrics" where
  "synchronizeTraffic store m = m\<lparr>
     tm_traffic := advance_traffic (tm_traffic m) (current_traffic store) (tm_lastReportedTraffic m),
     tm_lastReportedTraffic := current_traffic store\<rparr>"

section \<open>Scrapes\<close>

datatype metric_kind = CounterMetric | GaugeMetric | HistogramMetric

fun kind_name :: "metric_kind \<Rightarrow> string" where
  "kind_name CounterMetric = ''counter''"
| "kind_name GaugeMetric = ''gauge''"
| "kind_name HistogramMetric = ''histogram''"

definition metric_header :: "string \<Rightarrow> metric_kind \<Rightarrow> string \<Rightarrow> string list" where
  "metric_header name kind help =
     [''# HELP '' @ name @ '' '' @ help, ''# TYPE '' @ name @ '' '' @ kind_name kind]"

definition metric_lines :: "string \<Rightarrow> metric_kind \<Rightarrow> string \<Rightarrow> string \<Rightarrow> string list" where
  "metric_lines name kind help v = metric_header name kind help @ [name @ '' '' @ v]"

definition labelled :: "string \<Rightarrow> string \<Rightarrow> string \<Rightarrow> string \<Rightarrow> string" where
  "labelled name label tag v = name @ ''{'' @ label @ ''='' @ [CHR 0x22] @ tag @ [CHR 0x22] @ ''} '' @ v"

definition traffic_lines :: "(number \<Rightarrow> string) \<Rightarrow> TrackerMetrics \<Rightarrow> string list" where
  "traffic_lines show_number m =
     metric_lines ''openstreamgrid_broadcasts_total'' CounterMetric
       ''Broadcasts registered since tracker startup.'' (nat_string (tm_broadcastsTotal m)) @
     metric_lines ''openstreamgrid_peers_total'' CounterMetric
       ''Peer joins since tracker startup.'' (nat_string (tm_peersTotal m)) @
     metric_lines ''openstreamgrid_p2p_requests_total'' CounterMetric
       ''P2P segment requests reported by peers.'' (show_number (tc_p2pRequests (tm_traffic m))) @
     metric_lines ''openstreamgrid_origin_requests_total'' CounterMetric
       ''Origin segment requests reported by peers.'' (show_number (tc_originRequests (tm_traffic m))) @
     metric_lines ''openstreamgrid_p2p_successes_total'' CounterMetric
       ''Successful P2P segment requests reported by peers.'' (show_number (tc_p2pSuccesses (tm_traffic m))) @
     metric_lines ''openstreamgrid_integrity_failures_total'' CounterMetric
       ''Segment integrity failures reported by peers.'' (show_number (tc_integrityFailures (tm_traffic m))) @
     metric_lines ''openstreamgrid_fallbacks_total'' CounterMetric
       ''Origin fallbacks reported by peers.'' (show_number (tc_fallbacks (tm_traffic m))) @
     metric_lines ''openstreamgrid_rate_limited_requests_total'' CounterMetric
       ''REST requests rejected by tracker limits.'' (nat_string (tm_rateLimitedRequestsTotal m))"

definition gauge_lines :: "(number \<Rightarrow> string) \<Rightarrow> int \<Rightarrow> GlobalStats \<Rightarrow> TrackerMetrics \<Rightarrow> string list" where
  "gauge_lines show_number now stats m =
     metric_lines ''openstreamgrid_active_broadcasts'' GaugeMetric
       ''Currently active broadcasts.'' (nat_string (gs_broadcasts stats)) @
     metric_lines ''openstreamgrid_active_peers'' GaugeMetric
       ''Currently active peers.'' (nat_string (gs_peers stats)) @
     metric_lines ''openstreamgrid_tracker_uptime_seconds'' GaugeMetric
       ''Tracker process uptime in seconds.''
       (show_number (math_max 0 (int_number (now - tm_startedAtMs m) / Num 1000)))"

definition web_socket_lines :: "TrackerWebSocketStats option \<Rightarrow> string list" where
  "web_socket_lines webSocket = (case webSocket of
     None \<Rightarrow> []
   | Some stats \<Rightarrow>
       metric_lines ''openstreamgrid_ws_messages_sent_total'' CounterMetric
         ''WebSocket messages sent to peers.'' (nat_string (wss_messagesSent stats)) @
       metric_lines ''openstreamgrid_ws_bytes_sent_total'' CounterMetric
         ''WebSocket payload bytes sent to peers.'' (nat_string (wss_bytesSent stats)) @
       metric_header ''openstreamgrid_ws_subscribers'' GaugeMetric
         ''Subscribed WebSocket connections by inventory delivery mode.'' @
       [labelled ''openstreamgrid_ws_subscribers'' ''mode'' ''immediate'' (nat_string (wss_immediate stats)),
        labelled ''openstreamgrid_ws_subscribers'' ''mode'' ''batched'' (nat_string (wss_batched stats)),
        labelled ''openstreamgrid_ws_subscribers'' ''mode'' ''neighbor_view''
          (nat_string (wss_neighborView stats))])"

definition response_lines :: "TrackerWebSocketStats option \<Rightarrow> TrackerMetrics \<Rightarrow> string list" where
  "response_lines webSocket m =
     metric_header ''openstreamgrid_http_responses_total'' CounterMetric ''REST responses by status class.'' @
     map (\<lambda>statusClass. labelled ''openstreamgrid_http_responses_total'' ''class'' statusClass
         (nat_string (case map_get (tm_responsesByClass m) statusClass of None \<Rightarrow> 0 | Some n \<Rightarrow> n)))
       [''2xx'', ''3xx'', ''4xx'', ''5xx''] @
     metric_header ''openstreamgrid_auth_failures_total'' CounterMetric
       ''Requests refused for missing or invalid credentials (HTTP 401 or 403, or a bad session on WebSocket upgrade).'' @
     [labelled ''openstreamgrid_auth_failures_total'' ''interface'' ''http''
        (nat_string (tm_httpAuthFailuresTotal m)),
      labelled ''openstreamgrid_auth_failures_total'' ''interface'' ''websocket''
        (nat_string (case webSocket of None \<Rightarrow> 0 | Some stats \<Rightarrow> ur_auth (wss_upgradesRejected stats)))] @
     (case webSocket of
        None \<Rightarrow> []
      | Some stats \<Rightarrow>
          metric_header ''openstreamgrid_ws_upgrades_rejected_total'' CounterMetric
            ''WebSocket upgrades refused, by reason.'' @
          map (\<lambda>(reason, count). labelled ''openstreamgrid_ws_upgrades_rejected_total'' ''reason'' reason
              (nat_string count))
            [(''origin'', ur_origin (wss_upgradesRejected stats)), (''auth'', ur_auth (wss_upgradesRejected stats)),
             (''connection_limit'', ur_connectionLimit (wss_upgradesRejected stats))])"

text \<open>\<open>delay\<close>: the percentiles of the event-loop delay in nanoseconds by name, \<^theory_text>\<open>None\<close> before the first
  sample.\<close>

definition delay_lines :: "(number \<Rightarrow> string) \<Rightarrow> (string \<Rightarrow> number) option \<Rightarrow> string list" where
  "delay_lines show_number delay = (case delay of
     None \<Rightarrow> []
   | Some percentile \<Rightarrow> concat (map (\<lambda>name.
       metric_lines (''openstreamgrid_event_loop_delay_'' @ name @ ''_seconds'') GaugeMetric
         (''Event-loop delay '' @ name @ '' since the previous scrape.'')
         (show_number (percentile name / Num (10 ^ 9)))) [''p50'', ''p90'', ''p99'', ''max'']))"

definition duration_lines :: "(number \<Rightarrow> string) \<Rightarrow> TrackerMetrics \<Rightarrow> string list" where
  "duration_lines show_number m =
     metric_header ''openstreamgrid_request_duration_ms'' HistogramMetric ''REST request duration in milliseconds.'' @
     map2 (\<lambda>limit n. labelled ''openstreamgrid_request_duration_ms_bucket'' ''le'' (nat_string limit) (nat_string n))
       REQUEST_DURATION_BUCKETS_MS (tm_requestDurationBuckets m) @
     [labelled ''openstreamgrid_request_duration_ms_bucket'' ''le'' ''+Inf'' (nat_string (tm_requestDurationCount m)),
      ''openstreamgrid_request_duration_ms_sum '' @ show_number (tm_requestDurationSumMs m),
      ''openstreamgrid_request_duration_ms_count '' @ nat_string (tm_requestDurationCount m),
      []]"

definition render ::
    "(number \<Rightarrow> string) \<Rightarrow> (string \<Rightarrow> number) option \<Rightarrow> TrackerWebSocketStats option \<Rightarrow> int \<Rightarrow>
     TrackerStore \<Rightarrow> TrackerMetrics \<Rightarrow> string \<times> TrackerMetrics" where
  "render show_number delay webSocket now store m0 =
     (let m = synchronizeTraffic store m0;
          stats = getGlobalStats store in
      (js_join [CHR 0x0A]
         (traffic_lines show_number m @ gauge_lines show_number now stats m @ web_socket_lines webSocket @
          response_lines webSocket m @ delay_lines show_number delay @ duration_lines show_number m), m))"

section \<open>Laws\<close>

text \<open>The duration histogram is cumulative: the buckets of a scrape grow with their limits, up to the number
  of requests.\<close>

definition histogram_ok :: "TrackerMetrics \<Rightarrow> bool" where
  "histogram_ok m \<longleftrightarrow> length (tm_requestDurationBuckets m) = length REQUEST_DURATION_BUCKETS_MS \<and>
     sorted (tm_requestDurationBuckets m) \<and>
     list_all (\<lambda>n. n \<le> tm_requestDurationCount m) (tm_requestDurationBuckets m)"

lemma nat_number_le: "m \<le> n \<Longrightarrow> nat_number m \<le> nat_number n"
  by (simp add: less_eq_number_def) linarith

lemma sorted_counted:
  assumes "sorted limits" "sorted counts" "length counts = length limits"
    and "\<And>a b. a \<le> b \<Longrightarrow> P a \<Longrightarrow> P b"
  shows "sorted (map2 (\<lambda>limit n. if P limit then n + (1::nat) else n) limits counts)"
  using assms(1-3)
proof (induction limits arbitrary: counts)
  case (Cons l ls)
  then obtain c cs where counts: "counts = c # cs" by (cases counts) auto
  let ?f = "\<lambda>limit n. if P limit then n + (1::nat) else n"
  have "?f l c \<le> y" if member: "y \<in> set (map2 ?f ls cs)" for y
  proof -
    obtain l' c' where pair: "(l', c') \<in> set (zip ls cs)" and y: "y = ?f l' c'" using member by auto
    have "l \<le> l'" using Cons.prems(1) set_zip_leftD[OF pair] by simp
    moreover have "c \<le> c'" using Cons.prems(2) set_zip_rightD[OF pair] by (simp add: counts)
    ultimately show ?thesis using assms(4)[of l l'] by (auto simp: y)
  qed
  moreover have "sorted (map2 (\<lambda>limit n. if P limit then n + 1 else n) ls cs)"
    using Cons by (simp add: counts)
  ultimately show ?case by (simp add: counts)
qed simp

lemma histogram_new: "histogram_ok (new_metrics now)"
  by (simp add: histogram_ok_def new_metrics_def REQUEST_DURATION_BUCKETS_MS_def)

lemma histogram_observe:
  assumes "histogram_ok m"
  shows "histogram_ok (observeRestRequest durationMs m)"
proof -
  let ?d = "math_max 0 durationMs"
  have "sorted (map2 (\<lambda>limit n. if ?d \<le> nat_number limit then n + 1 else n)
      REQUEST_DURATION_BUCKETS_MS (tm_requestDurationBuckets m))"
    using assms by (intro sorted_counted)
      (auto simp: histogram_ok_def REQUEST_DURATION_BUCKETS_MS_def intro: number_le_trans nat_number_le)
  moreover have "list_all (\<lambda>n. n \<le> tm_requestDurationCount m + 1)
      (map2 (\<lambda>limit n. if ?d \<le> nat_number limit then n + 1 else n)
      REQUEST_DURATION_BUCKETS_MS (tm_requestDurationBuckets m))"
    using assms by (fastforce simp: histogram_ok_def list_all_iff dest: set_zip_rightD)
  ultimately show ?thesis using assms by (simp add: histogram_ok_def observeRestRequest_def Let_def)
qed

lemma histogram_kept:
  "histogram_ok m \<Longrightarrow> histogram_ok (observeResponse status rest m)"
  "histogram_ok m \<Longrightarrow> histogram_ok (synchronizeTraffic store m)"
  "histogram_ok m \<Longrightarrow> histogram_ok (metrics_broadcastCreated m)"
  "histogram_ok m \<Longrightarrow> histogram_ok (metrics_peerJoined m)"
  "histogram_ok m \<Longrightarrow> histogram_ok (requestRateLimited m)"
  by (simp_all add: histogram_ok_def observeResponse_def synchronizeTraffic_def metrics_broadcastCreated_def
      metrics_peerJoined_def requestRateLimited_def Let_def)

text \<open>Counters of whole numbers advance exactly.\<close>

lemma advance_exact:
  assumes "c + (n - l) \<le> 2 ^ 53" "n \<le> 2 ^ 53" "l \<le> 2 ^ 53"
  shows "advance (nat_number c) (nat_number n) (nat_number l) = nat_number (c + (n - l))"
proof -
  have "nat_number n - nat_number l = int_number (int n - int l)"
    using int_number_minus[of "int n" "int l"] assms(2,3) by simp
  then have "math_max 0 (nat_number n - nat_number l) = int_number (int (n - l))"
    by (auto simp: math_max_def zero_number_def of_nat_diff)
  then show ?thesis
    using int_number_plus[of "int c" "int (n - l)"] assms(1) by (simp add: advance_def)
qed

text \<open>A sweep unregisters a broadcast with an expired lease without synchronizing. Here 100 requests were counted,
  the broadcast went, and 50 requests of another one were reported before the next scrape: it still shows 100.\<close>

lemma unsynchronized_expiry_undercounts:
  assumes "tc_p2pRequests (tm_traffic m) = nat_number 100" "tc_p2pRequests (tm_lastReportedTraffic m) = nat_number 100"
    and "p2pRequests (gs_traffic (getGlobalStats store)) = nat_number 50"
  shows "tc_p2pRequests (tm_traffic (synchronizeTraffic store m)) = nat_number 100"
  using assms advance_exact[of 100 50 100]
  by (simp add: synchronizeTraffic_def advance_traffic_def current_traffic_def Let_def)

end
