(* ===== verification/StatsEvents.thy ===== *)
theory StatsEvents
  imports TrackerStore
begin

text \<open>
  The dashboard's event stream (\<^verbatim>\<open>TrackerStatsSse\<close> of \<^verbatim>\<open>tracker/src/server.ts\<close>): its clients, the snapshot
  of the store an event carries, and the coalescing of publishes. Clients have numbers; an event is kept as its
  name, its id and its snapshot, in the order of the writes.
\<close>

section \<open>Snapshots\<close>

definition DASHBOARD_MESH_PEERS :: nat where "DASHBOARD_MESH_PEERS = 24"
definition STATS_EVENT_INTERVAL_MS :: int where "STATS_EVENT_INTERVAL_MS = 3000"
definition STATS_EVENT_MIN_INTERVAL_MS :: int where "STATS_EVENT_MIN_INTERVAL_MS = 1000"

record BroadcastSnapshot =
  sn_broadcast :: Broadcast
  sn_stats :: "PeerTrafficStats \<times> nat"
  sn_peers :: "PeerState list"

record TrackerStatsSnapshot =
  sn_generatedAt :: int
  sn_global :: GlobalStats
  sn_broadcasts :: "BroadcastSnapshot list"

definition without_segments :: "PeerState \<Rightarrow> PeerState" where
  "without_segments entry = entry\<lparr>ps_peer := (ps_peer entry)\<lparr>peer_segments := []\<rparr>\<rparr>"

definition mesh_peers :: "PeerState list \<Rightarrow> PeerState list" where
  "mesh_peers entries =
     take DASHBOARD_MESH_PEERS entries @ map without_segments (drop DASHBOARD_MESH_PEERS entries)"

text \<open>The entry of a listed broadcast. The store lists it under its own id, so that neither call throws there.\<close>

definition broadcast_snapshot :: "TrackerStore \<Rightarrow> Broadcast \<Rightarrow> BroadcastSnapshot option" where
  "broadcast_snapshot store b = (case (getBroadcastStats (bc_id b) store, listPeerStats (bc_id b) store) of
     (Inr stats, Inr peers) \<Rightarrow>
       Some \<lparr>sn_broadcast = b, sn_stats = stats, sn_peers = mesh_peers peers\<rparr>
   | _ \<Rightarrow> None)"

definition snapshot :: "int \<Rightarrow> TrackerStore \<Rightarrow> TrackerStatsSnapshot" where
  "snapshot now store = \<lparr>sn_generatedAt = now, sn_global = getGlobalStats store,
     sn_broadcasts = List.map_filter (broadcast_snapshot store) (listBroadcasts store)\<rparr>"

section \<open>State\<close>

datatype StatsEventName = BroadcastsEvent | StatsEvent

text \<open>\<open>sse_pendingTimer\<close> is the time the armed timer is due, \<open>sse_lastPublishedAt\<close> is \<^theory_text>\<open>None\<close> before
  the first publish (minus infinity), \<open>sse_writes\<close> counts the attempts to write.\<close>

record TrackerStatsSse =
  sse_clients :: "nat list"
  sse_eventSequence :: nat
  sse_publishTimer :: bool
  sse_pendingEvent :: "StatsEventName option"
  sse_pendingTimer :: "int option"
  sse_lastPublishedAt :: "int option"
  sse_writes :: nat
  sse_outbox :: "(nat \<times> StatsEventName \<times> nat \<times> TrackerStatsSnapshot) list"
  sse_endedClients :: "nat list"

definition new_stats_events :: TrackerStatsSse where
  "new_stats_events = \<lparr>sse_clients = [], sse_eventSequence = 0, sse_publishTimer = False,
     sse_pendingEvent = None, sse_pendingTimer = None, sse_lastPublishedAt = None, sse_writes = 0,
     sse_outbox = [], sse_endedClients = []\<rparr>"

text \<open>The smallest interval between event-driven publishes, and for every attempt to write whether the response
  is destroyed or ended, and whether it needs to drain.\<close>

record SseEnv =
  sv_minIntervalMs :: int
  sv_gone :: "nat \<Rightarrow> bool"
  sv_needDrain :: "nat \<Rightarrow> bool"

section \<open>Publishing\<close>

definition writeEvent ::
    "SseEnv \<Rightarrow> StatsEventName \<Rightarrow> nat \<Rightarrow> TrackerStatsSnapshot \<Rightarrow> nat \<Rightarrow> TrackerStatsSse \<Rightarrow> TrackerStatsSse" where
  "writeEvent env eventName eventId payload client s0 =
     (let n = sse_writes s0; s = s0\<lparr>sse_writes := n + 1\<rparr> in
      if sv_gone env n then s\<lparr>sse_clients := removeAll client (sse_clients s)\<rparr>
      else if sv_needDrain env n then s
      else s\<lparr>sse_outbox := sse_outbox s @ [(client, eventName, eventId, payload)]\<rparr>)"

definition publish :: "SseEnv \<Rightarrow> StatsEventName \<Rightarrow> TrackerStore \<Rightarrow> int \<Rightarrow> TrackerStatsSse \<Rightarrow> TrackerStatsSse" where
  "publish env eventName store now s =
     (if sse_clients s = [] then s
      else
        (let eventId = sse_eventSequence s + 1 in
         fold (writeEvent env eventName eventId (snapshot now store)) (sse_clients s)
           (s\<lparr>sse_lastPublishedAt := Some now, sse_eventSequence := eventId\<rparr>)))"

definition publishTo :: "SseEnv \<Rightarrow> nat \<Rightarrow> TrackerStore \<Rightarrow> int \<Rightarrow> TrackerStatsSse \<Rightarrow> TrackerStatsSse" where
  "publishTo env client store now s =
     (let eventId = sse_eventSequence s + 1 in
      writeEvent env StatsEvent eventId (snapshot now store) client (s\<lparr>sse_eventSequence := eventId\<rparr>))"

definition publishPending :: "SseEnv \<Rightarrow> TrackerStore \<Rightarrow> int \<Rightarrow> TrackerStatsSse \<Rightarrow> TrackerStatsSse" where
  "publishPending env store now s =
     (let s' = s\<lparr>sse_pendingEvent := None\<rparr> in
      case sse_pendingEvent s of None \<Rightarrow> s' | Some eventName \<Rightarrow> publish env eventName store now s')"

definition requestPublish ::
    "SseEnv \<Rightarrow> StatsEventName \<Rightarrow> TrackerStore \<Rightarrow> int \<Rightarrow> TrackerStatsSse \<Rightarrow> TrackerStatsSse" where
  "requestPublish env eventName store now s =
     (if sse_clients s = [] then s
      else
        (let s1 = (if sse_pendingEvent s \<noteq> Some BroadcastsEvent
               then s\<lparr>sse_pendingEvent := Some eventName\<rparr> else s) in
         if sse_pendingTimer s1 \<noteq> None then s1
         else
           (case sse_lastPublishedAt s1 of
              None \<Rightarrow> publishPending env store now s1
            | Some published \<Rightarrow>
                if published + sv_minIntervalMs env - now \<le> 0 then publishPending env store now s1
                else s1\<lparr>sse_pendingTimer := Some (published + sv_minIntervalMs env)\<rparr>)))"

section \<open>Events\<close>

definition sse_connect :: "SseEnv \<Rightarrow> nat \<Rightarrow> TrackerStore \<Rightarrow> int \<Rightarrow> TrackerStatsSse \<Rightarrow> TrackerStatsSse" where
  "sse_connect env client store now s =
     (publishTo env client store now (s\<lparr>sse_clients := set_add client (sse_clients s)\<rparr>))\<lparr>sse_publishTimer := True\<rparr>"

definition sse_closed :: "nat \<Rightarrow> TrackerStatsSse \<Rightarrow> TrackerStatsSse" where
  "sse_closed client s =
     (let s1 = s\<lparr>sse_clients := set_delete client (sse_clients s)\<rparr> in
      if sse_clients s1 = [] then s1\<lparr>sse_publishTimer := False\<rparr> else s1)"

text \<open>The pending timer fires once it is due.\<close>

definition pending_timer :: "SseEnv \<Rightarrow> TrackerStore \<Rightarrow> int \<Rightarrow> TrackerStatsSse \<Rightarrow> TrackerStatsSse" where
  "pending_timer env store now s = (case sse_pendingTimer s of
     None \<Rightarrow> s
   | Some due \<Rightarrow> if now < due then s else publishPending env store now (s\<lparr>sse_pendingTimer := None\<rparr>))"

definition publish_tick :: "SseEnv \<Rightarrow> TrackerStore \<Rightarrow> int \<Rightarrow> TrackerStatsSse \<Rightarrow> TrackerStatsSse" where
  "publish_tick env store now s = (if sse_publishTimer s then publish env StatsEvent store now s else s)"

definition sse_stop :: "TrackerStatsSse \<Rightarrow> TrackerStatsSse" where
  "sse_stop s = s\<lparr>sse_publishTimer := False, sse_pendingTimer := None, sse_pendingEvent := None,
     sse_endedClients := sse_endedClients s @ sse_clients s, sse_clients := []\<rparr>"

text \<open>An event with the store and the clock it finds.\<close>

datatype sse_event =
    SseConnected nat
  | SseClosed nat
  | PublishRequested StatsEventName
  | PendingTimerFired
  | PublishTick
  | SseStopped

fun sse_step :: "SseEnv \<Rightarrow> sse_event \<times> TrackerStore \<times> int \<Rightarrow> TrackerStatsSse \<Rightarrow> TrackerStatsSse" where
  "sse_step env (SseConnected client, store, now) s = sse_connect env client store now s"
| "sse_step env (SseClosed client, store, now) s = sse_closed client s"
| "sse_step env (PublishRequested eventName, store, now) s = requestPublish env eventName store now s"
| "sse_step env (PendingTimerFired, store, now) s = pending_timer env store now s"
| "sse_step env (PublishTick, store, now) s = publish_tick env store now s"
| "sse_step env (SseStopped, store, now) s = sse_stop s"

section \<open>Laws\<close>

text \<open>What writing leaves alone.\<close>

definition schedule :: "TrackerStatsSse \<Rightarrow> nat \<times> StatsEventName option \<times> int option \<times> int option" where
  "schedule s = (sse_eventSequence s, sse_pendingEvent s, sse_pendingTimer s, sse_lastPublishedAt s)"

lemma schedule_write: "schedule (writeEvent env e n payload client s) = schedule s"
  by (simp add: schedule_def writeEvent_def Let_def)

lemma schedule_writes: "schedule (fold (writeEvent env e n payload) clients s) = schedule s"
  by (induction clients arbitrary: s) (simp_all add: schedule_write)

lemma schedule_publish:
  "schedule (publish env e store now s) =
     (if sse_clients s = [] then schedule s
      else (sse_eventSequence s + 1, sse_pendingEvent s, sse_pendingTimer s, Some now))"
  using schedule_writes[of env e "sse_eventSequence s + 1" "snapshot now store" "sse_clients s"
      "s\<lparr>sse_lastPublishedAt := Some now, sse_eventSequence := sse_eventSequence s + 1\<rparr>"]
  by (simp add: publish_def Let_def) (simp add: schedule_def)

lemma schedule_publishTo:
  "schedule (publishTo env client store now s) =
     (sse_eventSequence s + 1, sse_pendingEvent s, sse_pendingTimer s, sse_lastPublishedAt s)"
  by (simp add: publishTo_def Let_def schedule_write) (simp add: schedule_def)

text \<open>The next event-driven publish comes no earlier than \<open>bound\<close>: the last publish and an armed timer keep
  it off.\<close>

definition held_off :: "int \<Rightarrow> int \<Rightarrow> TrackerStatsSse \<Rightarrow> bool" where
  "held_off minimum published s \<longleftrightarrow>
     (case sse_lastPublishedAt s of None \<Rightarrow> False | Some t \<Rightarrow> published \<le> t) \<and>
     (case sse_pendingTimer s of None \<Rightarrow> True | Some due \<Rightarrow> published + minimum \<le> due)"

lemma held_off_schedule:
  "schedule s = (n, p, timer, Some t) \<Longrightarrow> held_off m a s \<longleftrightarrow>
     a \<le> t \<and> (case timer of None \<Rightarrow> True | Some due \<Rightarrow> a + m \<le> due)"
  by (simp add: held_off_def schedule_def)

lemma held_off_cong: "schedule s' = schedule s \<Longrightarrow> held_off m a s' = held_off m a s"
  by (simp add: held_off_def schedule_def)

lemma held_off_publish: "held_off m a s \<Longrightarrow> a \<le> now \<Longrightarrow> held_off m a (publish env e store now s)"
  using schedule_publish[of env e store now s]
  by (cases "sse_clients s = []") (simp_all add: held_off_def schedule_def)

lemma held_off_event [simp]: "held_off m a (s\<lparr>sse_pendingEvent := p\<rparr>) = held_off m a s"
  by (simp add: held_off_def)

lemma held_off_pending: "held_off m a s \<Longrightarrow> a \<le> now \<Longrightarrow> held_off m a (publishPending env store now s)"
  by (cases "sse_pendingEvent s") (simp_all add: publishPending_def Let_def held_off_publish)

definition event_driven :: "sse_event \<Rightarrow> bool" where
  "event_driven e \<longleftrightarrow> e = PendingTimerFired \<or> (\<exists>name. e = PublishRequested name)"

lemma held_off_step:
  assumes "held_off (sv_minIntervalMs env) a s" "a \<le> now"
  shows "held_off (sv_minIntervalMs env) a (sse_step env (e, store, now) s)"
proof (cases e)
  case (SseConnected client)
  then show ?thesis
    using assms schedule_publishTo[of env client store now "s\<lparr>sse_clients := set_add client (sse_clients s)\<rparr>"]
    by (simp add: sse_connect_def held_off_def schedule_def)
next
  case (PublishRequested name)
  let ?s = "if sse_pendingEvent s \<noteq> Some BroadcastsEvent then s\<lparr>sse_pendingEvent := Some name\<rparr> else s"
  have s: "held_off (sv_minIntervalMs env) a ?s" using assms(1) by simp
  obtain t where t: "sse_lastPublishedAt s = Some t" "a \<le> t"
    using assms(1) by (auto simp: held_off_def split: option.splits)
  have "held_off (sv_minIntervalMs env) a (x\<lparr>sse_pendingTimer := Some (t + sv_minIntervalMs env)\<rparr>)"
    if "sse_lastPublishedAt x = Some t" for x :: TrackerStatsSse
    using t that by (simp add: held_off_def)
  then show ?thesis using PublishRequested assms(1,2) s t
    by (simp add: requestPublish_def Let_def held_off_pending)
next
  case PendingTimerFired
  have "held_off (sv_minIntervalMs env) a (s\<lparr>sse_pendingTimer := None\<rparr>)"
    using assms(1) by (simp add: held_off_def)
  then show ?thesis using PendingTimerFired assms
    by (simp add: pending_timer_def held_off_pending split: option.split)
next
  case PublishTick
  then show ?thesis using assms by (simp add: publish_tick_def held_off_publish)
qed (use assms in \<open>auto simp: sse_closed_def sse_stop_def held_off_def Let_def\<close>)

lemma held_off_run:
  assumes "held_off (sv_minIntervalMs env) a s" "list_all (\<lambda>(e, store, now). a \<le> now) events"
  shows "held_off (sv_minIntervalMs env) a (fold (sse_step env) events s)"
  using assms
proof (induction events arbitrary: s)
  case (Cons event events)
  obtain e store now where event: "event = (e, store, now)" by (cases event)
  with Cons show ?case by (simp add: held_off_step)
qed simp

end
