(* ===== verification/TrackerHttp.thy ===== *)
theory TrackerHttp
  imports TrackerRequests TrackerMetrics StatsEvents
begin

text \<open>
  The tracker's REST API (\<^verbatim>\<open>createTrackerHandler\<close> of \<^verbatim>\<open>tracker/src/server.ts\<close>) over the store and the WebSocket
  hub, with the events \<^verbatim>\<open>TrackerServer\<close> connects it to. A request is handled in one turn, or in two around the
  reading of its body: the checks of the first turn are kept with the request until its body has arrived.
\<close>

section \<open>Requests and responses\<close>

record HttpRequest =
  rq_method :: "string option"
  rq_url :: "string option"
  rq_apiKey :: http_header
  rq_authorization :: http_header
  rq_forwardedFor :: http_header
  rq_remoteAddress :: "string option"

datatype http_error = RequestFailure request_error | StoreRefusal StoreError | InternalError

fun error_status :: "http_error \<Rightarrow> nat" where
  "error_status (RequestFailure e) = request_status e"
| "error_status (StoreRefusal e) = statusCode e"
| "error_status InternalError = 500"

datatype http_body =
    EmptyBody
  | ErrorBody http_error
  | RouteNotFound
  | HealthBody
  | MetricsBody string
  | DashboardBody string
  | StatsBody GlobalStats
  | EventStreamBody
  | BroadcastBody Broadcast
  | BroadcastsBody "Broadcast list"
  | BroadcastStatsBody "PeerTrafficStats \<times> nat"
  | PeerBody Peer
  | JoinBody Peer string int "TurnIceServer option"
  | PeersBody "Peer list"
  | BroadcastPeersBody Broadcast "Peer list"

record HttpResponse =
  rs_status :: nat
  rs_body :: http_body

text \<open>The header \<^verbatim>\<open>retry-after\<close> of an error response.\<close>

fun response_retry_after :: "http_body \<Rightarrow> number option" where
  "response_retry_after (ErrorBody (RequestFailure e)) = retry_after e"
| "response_retry_after _ = None"

abbreviation respond :: "nat \<Rightarrow> http_body \<Rightarrow> HttpResponse" where
  "respond status body \<equiv> \<lparr>rs_status = status, rs_body = body\<rparr>"

section \<open>State\<close>

datatype peer_action = SegmentsAction | HeartbeatAction | StatsAction | ReportsAction

datatype body_route =
    RegisterRoute
  | ActionRoute peer_action string string string
  | JoinRoute string

record PendingRequest =
  pr_route :: body_route
  pr_isRest :: bool
  pr_hasAdminAccess :: bool
  pr_session :: "PeerSessionClaims option"

record 'g Tracker =
  tr_hub :: "'g Hub"
  tr_rateLimiter :: IpRateLimiter
  tr_metrics :: TrackerMetrics
  tr_statsEvents :: TrackerStatsSse
  tr_pending :: "(nat, PendingRequest) jsmap"
  tr_nextRequest :: nat
  tr_responses :: "(nat \<times> HttpResponse) list"

text \<open>The configuration and what the handler is given: URL and JSON parsing, the text of decoded code points,
  the hashes and encodings of tokens, the dashboard page (\<^theory_text>\<open>None\<close> when it cannot be read), the text of numbers and
  the event-loop delay.\<close>

record 'g HttpEnv =
  ht_hub :: "'g HubEnv"
  ht_sse :: SseEnv
  ht_apiKey :: "string option"
  ht_turn :: "(string list \<times> string) option"
  ht_maxPeersPerBroadcast :: nat
  ht_parseTarget :: "string \<Rightarrow> (string \<times> string option) option"
  ht_parseUrl :: "string \<Rightarrow> url option"
  ht_parseJson :: "string \<Rightarrow> jsval option"
  ht_textOf :: "nat list \<Rightarrow> string"
  ht_encodeJson :: "jsval \<Rightarrow> string"
  ht_hmacSha1 :: "string \<Rightarrow> string \<Rightarrow> string"
  ht_dashboard :: "string option"
  ht_showNumber :: "number \<Rightarrow> string"
  ht_eventLoopDelay :: "(string \<Rightarrow> number) option"

abbreviation tr_store :: "'g Tracker \<Rightarrow> TrackerStore" where
  "tr_store t \<equiv> wh_store (tr_hub t)"

definition update_store :: "TrackerStore \<Rightarrow> 'g Tracker \<Rightarrow> 'g Tracker" where
  "update_store store t = t\<lparr>tr_hub := (tr_hub t)\<lparr>wh_store := store\<rparr>\<rparr>"

definition update_metrics :: "(TrackerMetrics \<Rightarrow> TrackerMetrics) \<Rightarrow> 'g Tracker \<Rightarrow> 'g Tracker" where
  "update_metrics f t = t\<lparr>tr_metrics := f (tr_metrics t)\<rparr>"

definition synchronize :: "'g Tracker \<Rightarrow> 'g Tracker" where
  "synchronize t = update_metrics (synchronizeTraffic (tr_store t)) t"

section \<open>Events\<close>

text \<open>The events of \<^verbatim>\<open>TrackerServer\<close>: the hub's, then those of the event stream downstream of it.\<close>

definition stats_event :: "'g HttpEnv \<Rightarrow> StatsEventName \<Rightarrow> int \<Rightarrow> 'g Tracker \<Rightarrow> 'g Tracker" where
  "stats_event env name now t =
     t\<lparr>tr_statsEvents := requestPublish (ht_sse env) name (tr_store t) now (tr_statsEvents t)\<rparr>"

definition event_broadcastListChanged :: "'g HttpEnv \<Rightarrow> int \<Rightarrow> 'g Tracker \<Rightarrow> 'g Tracker" where
  "event_broadcastListChanged env now t = stats_event env BroadcastsEvent now t"

definition event_peerJoined :: "'g HttpEnv \<Rightarrow> string \<Rightarrow> Peer \<Rightarrow> int \<Rightarrow> 'g Tracker \<Rightarrow> 'g Tracker" where
  "event_peerJoined env broadcastId peer now t =
     stats_event env BroadcastsEvent now (t\<lparr>tr_hub := peerJoined (ht_hub env) broadcastId peer (tr_hub t)\<rparr>)"

definition event_peerLeft :: "'g HttpEnv \<Rightarrow> string \<Rightarrow> string \<Rightarrow> int \<Rightarrow> 'g Tracker \<Rightarrow> 'g Tracker" where
  "event_peerLeft env broadcastId peerId now t =
     stats_event env BroadcastsEvent now (t\<lparr>tr_hub := peerLeft (ht_hub env) broadcastId peerId (tr_hub t)\<rparr>)"

definition event_segmentsAvailable ::
    "'g HttpEnv \<Rightarrow> string \<Rightarrow> string \<Rightarrow> string list \<Rightarrow> 'g Tracker \<Rightarrow> 'g Tracker" where
  "event_segmentsAvailable env broadcastId peerId segments t =
     t\<lparr>tr_hub := segmentsAvailable (ht_hub env) broadcastId peerId segments True (tr_hub t)\<rparr>"

definition event_statsUpdated :: "'g HttpEnv \<Rightarrow> int \<Rightarrow> 'g Tracker \<Rightarrow> 'g Tracker" where
  "event_statsUpdated env now t = stats_event env StatsEvent now (synchronize t)"

text \<open>The event stream has no handler for this one.\<close>

definition event_broadcastRemoved :: "string \<Rightarrow> 'g Tracker \<Rightarrow> 'g Tracker" where
  "event_broadcastRemoved broadcastId t = t\<lparr>tr_hub := broadcastRemoved broadcastId (tr_hub t)\<rparr>"

section \<open>Access\<close>

definition hasAdminAccess :: "'g HttpEnv \<Rightarrow> HttpRequest \<Rightarrow> bool" where
  "hasAdminAccess env request = (case ht_apiKey env of
     None \<Rightarrow> True
   | Some apiKey \<Rightarrow>
       (case rq_apiKey request of OneHeader provided \<Rightarrow> apiKeysMatch apiKey provided | _ \<Rightarrow> False) \<or>
       (case bearerToken (rq_authorization request) of
          Some provided \<Rightarrow> apiKeysMatch apiKey provided | None \<Rightarrow> False))"

definition request_session :: "'g HttpEnv \<Rightarrow> HttpRequest \<Rightarrow> int \<Rightarrow> PeerSessionClaims option" where
  "request_session env request now =
     session_verify (he_hmac (ht_hub env)) (he_decodeJson (ht_hub env))
       (bearerToken (rq_authorization request)) now (he_peerSessions (ht_hub env))"

definition requireAdminAccess :: "bool \<Rightarrow> HttpRequest \<Rightarrow> (http_error, unit) result" where
  "requireAdminAccess admin request =
     (if admin then return ()
      else throw (RequestFailure
        (if rq_apiKey request = NoHeader \<and> bearerToken (rq_authorization request) = None
         then MissingApiKey else InvalidApiKey)))"

definition MAX_SAFE_INTEGER :: int where "MAX_SAFE_INTEGER = 2 ^ 53 - 1"

definition requirePeerSession ::
    "bool \<Rightarrow> PeerSessionClaims option \<Rightarrow> string \<Rightarrow> string option \<Rightarrow> (http_error, PeerSessionClaims) result" where
  "requirePeerSession admin session broadcastId peerId =
     (if admin then return \<lparr>claim_broadcastId = broadcastId,
        claim_peerId = (case peerId of None \<Rightarrow> ''admin'' | Some p \<Rightarrow> p), claim_expiresAt = MAX_SAFE_INTEGER\<rparr>
      else (case session of
        None \<Rightarrow> throw (RequestFailure BadPeerSession)
      | Some claims \<Rightarrow>
          if claim_broadcastId claims \<noteq> broadcastId \<or>
             (case peerId of None \<Rightarrow> False | Some p \<Rightarrow> claim_peerId claims \<noteq> p)
          then throw (RequestFailure BadPeerSession) else return claims))"

definition visiblePeers ::
    "bool \<Rightarrow> string \<Rightarrow> PeerSessionClaims \<Rightarrow> string option \<Rightarrow> 'g Tracker \<Rightarrow> (StoreError, Peer list) result" where
  "visiblePeers admin broadcastId claims segment t =
     (case (if admin then None else peerView broadcastId (claim_peerId claims) (tr_hub t)) of
        None \<Rightarrow> listPeers broadcastId segment (tr_store t)
      | Some [] \<Rightarrow> listPeers broadcastId segment (tr_store t)
      | Some view \<Rightarrow> return (filter
          (\<lambda>peer. case segment of None \<Rightarrow> True | Some x \<Rightarrow> x \<in> set (peer_segments peer))
          (List.map_filter (\<lambda>q. getPeer broadcastId q (tr_store t)) (claim_peerId claims # view))))"

section \<open>Routes with a body\<close>

text \<open>A handler returns its response or what it throws, with the state then.\<close>

type_synonym 'g served = "(http_error, HttpResponse) result \<times> 'g Tracker"

definition refused :: "request_error \<Rightarrow> 'g Tracker \<Rightarrow> 'g served" where
  "refused e t = (throw (RequestFailure e), t)"

definition serve_register :: "'g HttpEnv \<Rightarrow> jsval \<Rightarrow> int \<Rightarrow> 'g Tracker \<Rightarrow> 'g served" where
  "serve_register env body now t =
     (case and_then (optionalMetadata body) (\<lambda>metadata.
           and_then (rest_requiredString body ''id'') (\<lambda>id.
           and_then (rest_requiredString body ''playlistUrl'') (\<lambda>playlistUrl.
             return \<lparr>reg_id = id, reg_playlistUrl = playlistUrl, reg_metadata = metadata\<rparr>))) of
        Inl e \<Rightarrow> refused e t
      | Inr registration \<Rightarrow>
          (case registerBroadcast registration now (tr_store t) of
             ((registered, created), store) \<Rightarrow>
               (let t1 = update_store store t;
                    t2 = (if created then update_metrics metrics_broadcastCreated t1 else t1) in
                (return (respond (if created then 201 else 200) (BroadcastBody registered)),
                 event_broadcastListChanged env now t2))))"

definition serve_segments ::
    "'g HttpEnv \<Rightarrow> string \<Rightarrow> string \<Rightarrow> jsval \<Rightarrow> int \<Rightarrow> 'g Tracker \<Rightarrow> 'g served" where
  "serve_segments env broadcastId peerId body now t =
     (case rest_optionalBoolean body ''replace'' of
        Inl e \<Rightarrow> refused e t
      | Inr replace \<Rightarrow>
          (case segmentIdList (get_prop body ''segments'') of
             None \<Rightarrow> refused BadSegments t
           | Some segments \<Rightarrow>
               (case inventory_consume broadcastId peerId [segments] now (wh_inventoryLimiter (tr_hub t)) of
                  (allowed, limiter) \<Rightarrow>
                    (let t1 = t\<lparr>tr_hub := (tr_hub t)\<lparr>wh_inventoryLimiter := limiter\<rparr>\<rparr> in
                     if \<not> allowed then refused ReportRateLimited t1
                     else
                       (case reportSegments broadcastId peerId segments
                            (case replace of None \<Rightarrow> False | Some b \<Rightarrow> b) now (tr_store t1) of
                          Inl e \<Rightarrow> (throw (StoreRefusal e), t1)
                        | Inr (peer, store) \<Rightarrow>
                            (return (respond 200 (PeerBody peer)),
                             event_segmentsAvailable env broadcastId peerId segments
                               (update_store store t1)))))))"

text \<open>\<^verbatim>\<open>peerListChanged\<close> reaches neither the hub's sockets nor the event stream.\<close>

definition serve_heartbeat ::
    "string \<Rightarrow> string \<Rightarrow> jsval \<Rightarrow> int \<Rightarrow> 'g Tracker \<Rightarrow> 'g served" where
  "serve_heartbeat broadcastId peerId body now t =
     (case and_then (rest_optionalNonNegativeNumber body ''latencyMs'') (\<lambda>latencyMs.
           and_then (rest_optionalNonNegativeNumber body ''uploadBandwidthBps'') (\<lambda>uploadBandwidthBps.
           and_then (rest_optionalUnitInterval body ''successRate'') (\<lambda>successRate.
             return \<lparr>hb_latencyMs = latencyMs, hb_uploadBandwidthBps = uploadBandwidthBps,
               hb_successRate = successRate\<rparr>))) of
        Inl e \<Rightarrow> refused e t
      | Inr heartbeat \<Rightarrow>
          (case store_heartbeat broadcastId peerId heartbeat now (tr_store t) of
             Inl e \<Rightarrow> (throw (StoreRefusal e), t)
           | Inr (peer, store) \<Rightarrow> (return (respond 200 (PeerBody peer)), update_store store t)))"

definition serve_stats ::
    "'g HttpEnv \<Rightarrow> string \<Rightarrow> string \<Rightarrow> jsval \<Rightarrow> int \<Rightarrow> 'g Tracker \<Rightarrow> 'g served" where
  "serve_stats env broadcastId peerId body now t =
     (case parsePeerTrafficStats (get_prop body ''stats'') of
        Inl e \<Rightarrow> refused (BadStats e) t
      | Inr stats \<Rightarrow>
          (case reportStats broadcastId peerId stats now (tr_store t) of
             Inl e \<Rightarrow> (throw (StoreRefusal e), t)
           | Inr store \<Rightarrow>
               (return (respond 204 EmptyBody),
                event_statsUpdated env now (synchronize (update_store store t)))))"

definition failure_reason_of :: "jsval \<Rightarrow> failure_reason option" where
  "failure_reason_of v =
     (if v = Str ''connection'' then Some ConnectionFailure
      else if v = Str ''timeout'' then Some TimeoutFailure
      else if v = Str ''integrity'' then Some IntegrityFailure
      else if v = Str ''http'' then Some HttpFailure else None)"

definition serve_report ::
    "bool \<Rightarrow> PeerSessionClaims option \<Rightarrow> string \<Rightarrow> string \<Rightarrow> jsval \<Rightarrow> int \<Rightarrow> 'g Tracker \<Rightarrow> 'g served" where
  "serve_report admin session broadcastId peerId body now t =
     (case failure_reason_of (get_prop body ''reason'') of
        None \<Rightarrow> refused BadReason t
      | Some reason \<Rightarrow>
          (case rest_requiredString body ''reporterId'' of
             Inl e \<Rightarrow> refused e t
           | Inr reporter \<Rightarrow>
               (case requirePeerSession admin session broadcastId (Some reporter) of
                  Inl e \<Rightarrow> (throw e, t)
                | Inr _ \<Rightarrow>
                    (case reportPeerFailure broadcastId peerId
                         \<lparr>reporterId = reporter, failure_reason = reason\<rparr> now (tr_store t) of
                       Inl e \<Rightarrow> (throw (StoreRefusal e), t)
                     | Inr (peer, store) \<Rightarrow> (return (respond 200 (PeerBody peer)), update_store store t)))))"

text \<open>A method the action does not have falls through every later route.\<close>

definition serve_action ::
    "'g HttpEnv \<Rightarrow> bool \<Rightarrow> PeerSessionClaims option \<Rightarrow> peer_action \<Rightarrow> string \<Rightarrow> string \<Rightarrow> string \<Rightarrow>
     jsval \<Rightarrow> int \<Rightarrow> 'g Tracker \<Rightarrow> 'g served" where
  "serve_action env admin session action httpMethod broadcastId peerId body now t =
     (let with_session = (\<lambda>serve. case requirePeerSession admin session broadcastId (Some peerId) of
            Inl e \<Rightarrow> (throw e, t) | Inr _ \<Rightarrow> serve t) in
      if action = SegmentsAction \<and> httpMethod = ''POST''
      then with_session (serve_segments env broadcastId peerId body now)
      else if action = HeartbeatAction \<and> httpMethod = ''PUT''
      then with_session (serve_heartbeat broadcastId peerId body now)
      else if action = StatsAction \<and> httpMethod = ''POST''
      then with_session (serve_stats env broadcastId peerId body now)
      else if action = ReportsAction \<and> httpMethod = ''POST''
      then serve_report admin session broadcastId peerId body now t
      else (return (respond 404 RouteNotFound), t))"

definition parse_join :: "'g HttpEnv \<Rightarrow> jsval \<Rightarrow> (request_error, PeerJoinRequest) result" where
  "parse_join env body =
     and_then (rest_optionalNonNegativeNumber body ''uploadBandwidthBps'') (\<lambda>uploadBandwidthBps.
     and_then (optionalMetadata body) (\<lambda>metadata.
     and_then (and_then (rest_requiredString body ''id'') peerIdentifier) (\<lambda>id.
     and_then (and_then (rest_requiredString body ''address'')
         (\<lambda>address. boundedString address ''address'' MAX_PEER_ADDRESS_LENGTH)) (\<lambda>address.
     and_then (validatePeerAddress (ht_parseUrl env) (ht_textOf env) address id) (\<lambda>_.
       return \<lparr>join_id = id, join_address = address, join_uploadBandwidthBps = uploadBandwidthBps,
         join_metadata = metadata\<rparr>)))))"

definition TURN_CREDENTIAL_GRACE_MS :: int where "TURN_CREDENTIAL_GRACE_MS = 600000"

text \<open>The largest time value of a \<^verbatim>\<open>Date\<close>: beyond it \<^verbatim>\<open>toISOString()\<close> throws a \<^verbatim>\<open>RangeError\<close>.\<close>

definition MAX_DATE_MS :: int where "MAX_DATE_MS = 8640000000000000"

definition ice_servers :: "'g HttpEnv \<Rightarrow> string \<Rightarrow> int \<Rightarrow> TurnIceServer option" where
  "ice_servers env peerId expiresAt = map_option (\<lambda>(urls, sharedSecret).
     issueTurnCredentials (ht_hmacSha1 env) urls sharedSecret peerId
       (nat (expiresAt + TURN_CREDENTIAL_GRACE_MS))) (ht_turn env)"

definition issue_session ::
    "'g HttpEnv \<Rightarrow> string \<Rightarrow> Peer \<Rightarrow> bool \<Rightarrow> int \<Rightarrow> 'g Tracker \<Rightarrow> 'g served" where
  "issue_session env broadcastId peer alreadyJoined now t =
     (case session_issue (he_hmac (ht_hub env)) (ht_encodeJson env) broadcastId (peer_id peer) now
          (he_peerSessions (ht_hub env)) of
        (token, expiresAt) \<Rightarrow>
          if expiresAt > MAX_DATE_MS then (throw InternalError, t)
          else
            (return (respond (if alreadyJoined then 200 else 201)
               (JoinBody peer token expiresAt (ice_servers env (peer_id peer) expiresAt))),
             if alreadyJoined then t
             else event_peerJoined env broadcastId peer now (update_metrics metrics_peerJoined t)))"

definition serve_join ::
    "'g HttpEnv \<Rightarrow> bool \<Rightarrow> PeerSessionClaims option \<Rightarrow> string \<Rightarrow> jsval \<Rightarrow> int \<Rightarrow> 'g Tracker \<Rightarrow> 'g served" where
  "serve_join env admin session broadcastId body now t =
     (case parse_join env body of
        Inl e \<Rightarrow> refused e t
      | Inr join \<Rightarrow>
          (let allowed = requirePeerSession admin session broadcastId (Some (join_id join)) in
           case (if getPeer broadcastId (join_id join) (tr_store t) \<noteq> None
                 then map_sum id (\<lambda>_. ()) allowed else return ()) of
             Inl e \<Rightarrow> (throw e, t)
           | Inr _ \<Rightarrow>
               (case joinPeerDetailed broadcastId join (Some (nat_number (ht_maxPeersPerBroadcast env))) now
                    (tr_store t) of
                  Inl e \<Rightarrow>
                    if statusCode e = 429 then refused PeerLimit (update_metrics requestRateLimited t)
                    else (throw (StoreRefusal e), t)
                | Inr ((peer, alreadyJoined), store) \<Rightarrow>
                    (let t1 = update_store store t in
                     case (if alreadyJoined then map_sum id (\<lambda>_. ()) allowed else return ()) of
                       Inl e \<Rightarrow> (throw e, t1)
                     | Inr _ \<Rightarrow> issue_session env broadcastId peer alreadyJoined now t1))))"

definition serve_body :: "'g HttpEnv \<Rightarrow> PendingRequest \<Rightarrow> jsval \<Rightarrow> int \<Rightarrow> 'g Tracker \<Rightarrow> 'g served" where
  "serve_body env pending body now t =
     (case pr_route pending of
        RegisterRoute \<Rightarrow> serve_register env body now t
      | ActionRoute action httpMethod broadcastId peerId \<Rightarrow>
          serve_action env (pr_hasAdminAccess pending) (pr_session pending) action httpMethod broadcastId peerId
            body now t
      | JoinRoute broadcastId \<Rightarrow>
          serve_join env (pr_hasAdminAccess pending) (pr_session pending) broadcastId body now t)"

section \<open>Routes without a body\<close>

definition serve_metrics :: "'g HttpEnv \<Rightarrow> int \<Rightarrow> 'g Tracker \<Rightarrow> 'g served" where
  "serve_metrics env now t =
     (case render (ht_showNumber env) (ht_eventLoopDelay env) (Some (webSocketStats (tr_hub t))) now
          (tr_store t) (tr_metrics t) of
        (body, m) \<Rightarrow> (return (respond 200 (MetricsBody body)), t\<lparr>tr_metrics := m\<rparr>))"

definition serve_peers ::
    "bool \<Rightarrow> PeerSessionClaims option \<Rightarrow> string \<Rightarrow> string option \<Rightarrow> 'g Tracker \<Rightarrow> 'g served" where
  "serve_peers admin session broadcastId segment t =
     (case requirePeerSession admin session broadcastId None of
        Inl e \<Rightarrow> (throw e, t)
      | Inr claims \<Rightarrow>
          (case visiblePeers admin broadcastId claims segment t of
             Inl e \<Rightarrow> (throw (StoreRefusal e), t)
           | Inr peers \<Rightarrow> (return (respond 200 (PeersBody peers)), t)))"

definition serve_leave ::
    "'g HttpEnv \<Rightarrow> bool \<Rightarrow> PeerSessionClaims option \<Rightarrow> string \<Rightarrow> string \<Rightarrow> int \<Rightarrow> 'g Tracker \<Rightarrow> 'g served" where
  "serve_leave env admin session broadcastId peerId now t =
     (case requirePeerSession admin session broadcastId (Some peerId) of
        Inl e \<Rightarrow> (throw e, t)
      | Inr _ \<Rightarrow>
          (case leavePeer broadcastId peerId (tr_store t) of
             Inl e \<Rightarrow> (throw (StoreRefusal e), t)
           | Inr store \<Rightarrow>
               (return (respond 204 EmptyBody), event_peerLeft env broadcastId peerId now (update_store store t))))"

definition serve_broadcast :: "bool \<Rightarrow> PeerSessionClaims option \<Rightarrow> string \<Rightarrow> 'g Tracker \<Rightarrow> 'g served" where
  "serve_broadcast admin session broadcastId t =
     (case requirePeerSession admin session broadcastId None of
        Inl e \<Rightarrow> (throw e, t)
      | Inr claims \<Rightarrow>
          (case getBroadcast broadcastId (tr_store t) of
             Inl e \<Rightarrow> (throw (StoreRefusal e), t)
           | Inr registered \<Rightarrow>
               (case visiblePeers admin broadcastId claims None t of
                  Inl e \<Rightarrow> (throw (StoreRefusal e), t)
                | Inr peers \<Rightarrow> (return (respond 200 (BroadcastPeersBody registered peers)), t))))"

definition serve_unregister :: "'g HttpEnv \<Rightarrow> string \<Rightarrow> int \<Rightarrow> 'g Tracker \<Rightarrow> 'g served" where
  "serve_unregister env broadcastId now t =
     (let t1 = synchronize t in
      case unregisterBroadcast broadcastId (tr_store t1) of
        Inl e \<Rightarrow> (throw (StoreRefusal e), t1)
      | Inr store \<Rightarrow>
          (return (respond 204 EmptyBody),
           event_broadcastListChanged env now
             (event_broadcastRemoved broadcastId (synchronize (update_store store t1)))))"

section \<open>Routing\<close>

definition action_of :: "string \<Rightarrow> peer_action option" where
  "action_of s =
     (if s = ''segments'' then Some SegmentsAction
      else if s = ''heartbeat'' then Some HeartbeatAction
      else if s = ''stats'' then Some StatsAction
      else if s = ''reports'' then Some ReportsAction else None)"

text \<open>The components of a path below \<^verbatim>\<open>/api/v1/broadcasts\<close>, by the patterns of the code, in their order.\<close>

datatype broadcast_route =
    StatsRoute string
  | PeerActionRoute string string peer_action
  | PeersRoute string
  | PeerRoute string string
  | BroadcastRoute string
  | NoRoute

definition broadcast_route :: "string \<Rightarrow> broadcast_route" where
  "broadcast_route path = (case js_split CHR ''/'' path of
     [e, api, version, broadcasts, b] \<Rightarrow>
       if e = [] \<and> api = ''api'' \<and> version = ''v1'' \<and> broadcasts = ''broadcasts'' \<and> b \<noteq> []
       then BroadcastRoute b else NoRoute
   | [e, api, version, broadcasts, b, x] \<Rightarrow>
       if e = [] \<and> api = ''api'' \<and> version = ''v1'' \<and> broadcasts = ''broadcasts'' \<and> b \<noteq> []
       then (if x = ''stats'' then StatsRoute b else if x = ''peers'' then PeersRoute b else NoRoute)
       else NoRoute
   | [e, api, version, broadcasts, b, peers, p] \<Rightarrow>
       if e = [] \<and> api = ''api'' \<and> version = ''v1'' \<and> broadcasts = ''broadcasts'' \<and> b \<noteq> [] \<and>
          peers = ''peers'' \<and> p \<noteq> []
       then PeerRoute b p else NoRoute
   | [e, api, version, broadcasts, b, peers, p, x] \<Rightarrow>
       if e = [] \<and> api = ''api'' \<and> version = ''v1'' \<and> broadcasts = ''broadcasts'' \<and> b \<noteq> [] \<and>
          peers = ''peers'' \<and> p \<noteq> []
       then (case action_of x of None \<Rightarrow> NoRoute | Some action \<Rightarrow> PeerActionRoute b p action)
       else NoRoute
   | _ \<Rightarrow> NoRoute)"

text \<open>What the first turn of a request comes to: an answer, or waiting for the body.\<close>

datatype 'g turn = Answered "(http_error, HttpResponse) result" "'g Tracker" | AwaitsBody body_route "'g Tracker"

abbreviation answered :: "'g served \<Rightarrow> 'g turn" where
  "answered r \<equiv> Answered (fst r) (snd r)"

definition when_allowed :: "(http_error, 'a) result \<Rightarrow> 'g Tracker \<Rightarrow> ('a \<Rightarrow> 'g turn) \<Rightarrow> 'g turn" where
  "when_allowed check t next_step = (case check of Inl e \<Rightarrow> Answered (throw e) t | Inr x \<Rightarrow> next_step x)"

definition decoded :: "'g HttpEnv \<Rightarrow> string \<Rightarrow> (http_error, string) result" where
  "decoded env v = map_sum RequestFailure id (decodedPathComponent (ht_textOf env) v)"

definition not_found :: "'g Tracker \<Rightarrow> 'g turn" where
  "not_found t = Answered (return (respond 404 RouteNotFound)) t"

definition route_broadcast ::
    "'g HttpEnv \<Rightarrow> HttpRequest \<Rightarrow> string \<Rightarrow> string \<Rightarrow> string option \<Rightarrow> int \<Rightarrow> 'g Tracker \<Rightarrow> 'g turn" where
  "route_broadcast env request httpMethod path segment now t =
     (let admin = hasAdminAccess env request;
          session = request_session env request now in
      case broadcast_route path of
        StatsRoute b \<Rightarrow>
          if httpMethod = ''GET'' then
            when_allowed (requireAdminAccess admin request) t (\<lambda>_.
            when_allowed (decoded env b) t (\<lambda>broadcastId.
              Answered (case getBroadcastStats broadcastId (tr_store t) of
                Inl e \<Rightarrow> throw (StoreRefusal e)
              | Inr stats \<Rightarrow> return (respond 200 (BroadcastStatsBody stats))) t))
          else not_found t
      | PeerActionRoute b p action \<Rightarrow>
          when_allowed (decoded env b) t (\<lambda>broadcastId.
          when_allowed (decoded env p) t (\<lambda>peerId.
            AwaitsBody (ActionRoute action httpMethod broadcastId peerId) t))
      | PeersRoute b \<Rightarrow>
          when_allowed (decoded env b) t (\<lambda>broadcastId.
            if httpMethod = ''POST'' then AwaitsBody (JoinRoute broadcastId) t
            else if httpMethod = ''GET'' then answered (serve_peers admin session broadcastId segment t)
            else not_found t)
      | PeerRoute b p \<Rightarrow>
          when_allowed (decoded env b) t (\<lambda>broadcastId.
            if httpMethod = ''DELETE'' then
              when_allowed (decoded env p) t (\<lambda>peerId.
                answered (serve_leave env admin session broadcastId peerId now t))
            else not_found t)
      | BroadcastRoute b \<Rightarrow>
          when_allowed (decoded env b) t (\<lambda>broadcastId.
            if httpMethod = ''GET'' then answered (serve_broadcast admin session broadcastId t)
            else if httpMethod = ''DELETE'' then
              when_allowed (requireAdminAccess admin request) t (\<lambda>_.
                answered (serve_unregister env broadcastId now t))
            else not_found t)
      | NoRoute \<Rightarrow> not_found t)"

text \<open>The rate limit of the methods that change something.\<close>

definition consume_rate ::
    "'g HttpEnv \<Rightarrow> HttpRequest \<Rightarrow> string \<Rightarrow> int \<Rightarrow> 'g Tracker \<Rightarrow> number option \<times> 'g Tracker" where
  "consume_rate env request httpMethod now t =
     (if httpMethod = ''POST'' \<or> httpMethod = ''PUT'' \<or> httpMethod = ''DELETE'' then
        (case ip_consume (clientAddress (rq_remoteAddress request) (rq_forwardedFor request)
             (he_trustProxyHops (ht_hub env))) now (tr_rateLimiter t) of
           (None, limiter) \<Rightarrow> (None, t\<lparr>tr_rateLimiter := limiter\<rparr>)
         | (Some seconds, limiter) \<Rightarrow>
             (Some seconds, update_metrics requestRateLimited (t\<lparr>tr_rateLimiter := limiter\<rparr>)))
      else (None, t))"

text \<open>The routes with a fixed path, after the rate limit; the number of the request is that of its response.\<close>

definition route_request ::
    "'g HttpEnv \<Rightarrow> nat \<Rightarrow> HttpRequest \<Rightarrow> string \<Rightarrow> string \<Rightarrow> string option \<Rightarrow> int \<Rightarrow> 'g Tracker \<Rightarrow> 'g turn" where
  "route_request env i request httpMethod path segment now t =
     (let allowed = requireAdminAccess (hasAdminAccess env request) request in
      if httpMethod = ''GET'' \<and> path = ''/dashboard'' then
        when_allowed allowed t (\<lambda>_. Answered (case ht_dashboard env of
          None \<Rightarrow> throw InternalError | Some page \<Rightarrow> return (respond 200 (DashboardBody page))) t)
      else if httpMethod = ''GET'' \<and> path = ''/api/v1/stats'' then
        when_allowed allowed t (\<lambda>_. Answered (return (respond 200 (StatsBody (getGlobalStats (tr_store t))))) t)
      else if httpMethod = ''GET'' \<and> path = ''/api/v1/stats/events'' then
        when_allowed allowed t (\<lambda>_. Answered (return (respond 200 EventStreamBody))
          (t\<lparr>tr_statsEvents := sse_connect (ht_sse env) i (tr_store t) now (tr_statsEvents t)\<rparr>))
      else if path = ''/api/v1/broadcasts'' \<and> httpMethod = ''POST'' then
        when_allowed allowed t (\<lambda>_. AwaitsBody RegisterRoute t)
      else if path = ''/api/v1/broadcasts'' \<and> httpMethod = ''GET'' then
        when_allowed allowed t (\<lambda>_. Answered (return (respond 200 (BroadcastsBody (listBroadcasts (tr_store t))))) t)
      else route_broadcast env request httpMethod path segment now t)"

definition first_turn ::
    "'g HttpEnv \<Rightarrow> nat \<Rightarrow> HttpRequest \<Rightarrow> string \<Rightarrow> string option \<Rightarrow> int \<Rightarrow> 'g Tracker \<Rightarrow> 'g turn" where
  "first_turn env i request path segment now t =
     (let httpMethod = (case rq_method request of None \<Rightarrow> ''GET'' | Some m \<Rightarrow> m) in
      if starts_with path ''/api/'' \<and> httpMethod = ''OPTIONS'' then
        Answered (return (respond 204 EmptyBody)) t
      else if httpMethod = ''GET'' \<and> path = ''/health'' then
        Answered (return (respond 200 HealthBody)) t
      else if httpMethod = ''GET'' \<and> path = ''/metrics'' then
        when_allowed (requireAdminAccess (hasAdminAccess env request) request) t (\<lambda>_.
          answered (serve_metrics env now t))
      else
        (case (if path = ''/health'' then (None, t) else consume_rate env request httpMethod now t) of
           (Some seconds, t1) \<Rightarrow> Answered (throw (RequestFailure (RateLimited seconds))) t1
         | (None, t1) \<Rightarrow> route_request env i request httpMethod path segment now t1))"

section \<open>Answers\<close>

text \<open>The handler's \<^verbatim>\<open>catch\<close> and \<^verbatim>\<open>finally\<close>: an error becomes a response, and the collector sees the
  response and, for a REST request, how long it took.\<close>

definition error_response :: "(http_error, HttpResponse) result \<Rightarrow> HttpResponse" where
  "error_response r = (case r of Inl e \<Rightarrow> respond (error_status e) (ErrorBody e) | Inr response \<Rightarrow> response)"

definition finish_request ::
    "nat \<Rightarrow> bool \<Rightarrow> number \<Rightarrow> (http_error, HttpResponse) result \<Rightarrow> 'g Tracker \<Rightarrow> 'g Tracker" where
  "finish_request i isRest durationMs r t =
     (let response = error_response r;
          t1 = update_metrics (observeResponse (rs_status response) isRest) t;
          t2 = (if isRest then update_metrics (observeRestRequest durationMs) t1 else t1) in
      t2\<lparr>tr_responses := tr_responses t2 @ [(i, response)]\<rparr>)"

definition request_arrived ::
    "'g HttpEnv \<Rightarrow> HttpRequest \<Rightarrow> int \<Rightarrow> number \<Rightarrow> 'g Tracker \<Rightarrow> 'g Tracker" where
  "request_arrived env request now durationMs t0 =
     (let i = tr_nextRequest t0; t = t0\<lparr>tr_nextRequest := i + 1\<rparr> in
      case ht_parseTarget env (case rq_url request of None \<Rightarrow> ''/'' | Some u \<Rightarrow> u) of
        None \<Rightarrow> finish_request i False durationMs (throw InternalError) t
      | Some (path, segment) \<Rightarrow>
          (let isRest = starts_with path ''/api/'' in
           case first_turn env i request path segment now t of
             Answered r t1 \<Rightarrow> finish_request i isRest durationMs r t1
           | AwaitsBody route t1 \<Rightarrow> t1\<lparr>tr_pending := map_set (tr_pending t1) i
               \<lparr>pr_route = route, pr_isRest = isRest, pr_hasAdminAccess = hasAdminAccess env request,
                pr_session = request_session env request now\<rparr>\<rparr>))"

definition body_ended ::
    "'g HttpEnv \<Rightarrow> nat \<Rightarrow> string list \<Rightarrow> bool \<Rightarrow> int \<Rightarrow> number \<Rightarrow> 'g Tracker \<Rightarrow> 'g Tracker" where
  "body_ended env i chunks ended now durationMs t0 =
     (case map_get (tr_pending t0) i of
        None \<Rightarrow> t0
      | Some pending \<Rightarrow>
          (let t = t0\<lparr>tr_pending := map_delete (tr_pending t0) i\<rparr> in
           case readJson (ht_parseJson env) chunks ended of
             None \<Rightarrow> finish_request i (pr_isRest pending) durationMs (throw InternalError) t
           | Some (Inl e) \<Rightarrow> finish_request i (pr_isRest pending) durationMs (throw (RequestFailure e)) t
           | Some (Inr body) \<Rightarrow>
               (case serve_body env pending body now t of
                  (r, t1) \<Rightarrow> finish_request i (pr_isRest pending) durationMs r t1)))"

end
