(* ===== verification/TrackerServer.thy ===== *)
theory TrackerServer
  imports TrackerHttp
begin

text \<open>
  The tracker process (\<^verbatim>\<open>tracker/src/server.ts\<close>): its configuration from the environment, the choice of the
  store, one step per event of \<^verbatim>\<open>TrackerServer\<close> (requests and their bodies, sockets, the event stream, the cleanup
  timer), and the starting and stopping of the server.
\<close>

section \<open>Configuration\<close>

datatype config_error =
    BadInteger string
  | BadAllowedOrigin string
  | TurnUrlsMissing
  | TurnSecretMissing
  | BadTurnUrl string
  | TurnSecretShort
  | EmptyHost
  | EmptyApiKey
  | SessionSecretShort

definition MAX_NEIGHBOR_VIEW_SIZE :: int where "MAX_NEIGHBOR_VIEW_SIZE = 1000"
definition MAX_TRUST_PROXY_HOPS :: int where "MAX_TRUST_PROXY_HOPS = 10"
definition MIN_TURN_SHARED_SECRET_BYTES :: nat where "MIN_TURN_SHARED_SECRET_BYTES = 16"

definition parseInteger :: "string \<Rightarrow> string \<Rightarrow> int \<Rightarrow> int \<Rightarrow> (config_error, int) result" where
  "parseInteger v label minimum maximum =
     (let parsed = number_of_string v in
      if \<not> isSafeInteger parsed \<or> parsed < int_number minimum \<or> parsed > int_number maximum
      then throw (BadInteger label)
      else return (case parsed of Num q \<Rightarrow> \<lfloor>q\<rfloor> | _ \<Rightarrow> 0))"

text \<open>\<^verbatim>\<open>url.origin\<close> is an argument beside the parser.\<close>

definition parseAllowedOrigin ::
    "(string \<Rightarrow> url option) \<Rightarrow> (string \<Rightarrow> string) \<Rightarrow> string \<Rightarrow> (config_error, string) result" where
  "parseAllowedOrigin parse_url origin_of v = (case parse_url v of
     None \<Rightarrow> throw (BadAllowedOrigin v)
   | Some u \<Rightarrow>
       if protocol u \<noteq> ''http:'' \<and> protocol u \<noteq> ''https:'' \<or> username u \<noteq> [] \<or> password u \<noteq> [] \<or>
          pathname u \<noteq> ''/'' \<or> search u \<noteq> [] \<or> url_hash u \<noteq> []
       then throw (BadAllowedOrigin v) else return (origin_of v))"

text \<open>The parts of \<^verbatim>\<open>TURN_URL_PATTERN\<close>: what follows the scheme, the host, the port and the transport.\<close>

definition turn_rest :: "string \<Rightarrow> string option" where
  "turn_rest url =
     (if starts_with url ''turn:'' then Some (drop 5 url)
      else if starts_with url ''turns:'' then Some (drop 6 url) else None)"

definition is_hex :: "char \<Rightarrow> bool" where
  "is_hex c \<longleftrightarrow> is_hex_lower c \<or> CHR ''A'' \<le> c \<and> c \<le> CHR ''F''"

definition host_char :: "char \<Rightarrow> bool" where
  "host_char c \<longleftrightarrow> is_alnum c \<or> c = CHR ''.'' \<or> c = CHR ''-''"

definition after_turn_host :: "string \<Rightarrow> string option" where
  "after_turn_host s = (case s of
     [] \<Rightarrow> None
   | c # cs \<Rightarrow>
       if c = CHR ''['' then
         (let literal = takeWhile (\<lambda>x. is_hex x \<or> x = CHR '':'' \<or> x = CHR ''.'') cs;
              rest = drop (length literal) cs in
          if literal \<noteq> [] \<and> rest \<noteq> [] \<and> hd rest = CHR '']'' then Some (tl rest) else None)
       else
         (let host = takeWhile host_char s in
          if is_alnum c \<and> is_alnum (last host) then Some (drop (length host) s) else None))"

text \<open>The port, if there is one (at most five digits), and what follows it.\<close>

definition turn_port :: "string \<Rightarrow> (string option \<times> string) option" where
  "turn_port s = (case s of
     c # cs \<Rightarrow>
       if c = CHR '':'' then
         (let port = takeWhile is_digit cs in
          if 1 \<le> length port \<and> length port \<le> 5 then Some (Some port, drop (length port) cs) else None)
       else Some (None, s)
   | [] \<Rightarrow> Some (None, []))"

definition isValidTurnUrl :: "string \<Rightarrow> bool" where
  "isValidTurnUrl url = (case Option.bind (Option.bind (turn_rest url) after_turn_host) turn_port of
     None \<Rightarrow> False
   | Some (port, rest) \<Rightarrow>
       rest \<in> {[], ''?transport=udp'', ''?transport=tcp''} \<and>
       (case port of None \<Rightarrow> True
        | Some p \<Rightarrow> 1 \<le> number_of_string p \<and> number_of_string p \<le> Num 65535))"

definition parseList :: "string option \<Rightarrow> string list" where
  "parseList v = filter (\<lambda>entry. entry \<noteq> [])
     (map js_trim (js_split CHR '','' (case v of None \<Rightarrow> [] | Some s \<Rightarrow> s)))"

type_synonym environment = "string \<Rightarrow> string option"

definition parseTurnConfiguration :: "environment \<Rightarrow> (config_error, (string list \<times> string) option) result" where
  "parseTurnConfiguration environment =
     (let urls = parseList (environment ''TURN_URLS'');
          sharedSecret = (case environment ''TURN_SHARED_SECRET'' of
            None \<Rightarrow> None | Some s \<Rightarrow> if js_trim s = [] then None else Some s) in
      case sharedSecret of
        None \<Rightarrow> if urls = [] then return None else throw TurnSecretMissing
      | Some secret \<Rightarrow>
          if urls = [] then throw TurnUrlsMissing
          else (case find (\<lambda>url. \<not> isValidTurnUrl url) urls of
            Some url \<Rightarrow> throw (BadTurnUrl url)
          | None \<Rightarrow>
              if length (utf8 secret) < MIN_TURN_SHARED_SECRET_BYTES then throw TurnSecretShort
              else return (Some (urls, secret))))"

record TrackerConfiguration =
  cf_port :: int
  cf_host :: string
  cf_stalePeerMs :: int
  cf_trackerApiKey :: "string option"
  cf_peerSessionSecret :: "string option"
  cf_peerSessionTtlMs :: int
  cf_rateLimitRps :: int
  cf_rateLimitBurst :: int
  cf_maxPeersPerBroadcast :: int
  cf_wsAllowedOrigins :: "string list option"
  cf_wsMaxConnectionsPerIp :: int
  cf_trustProxyHops :: int
  cf_turn :: "(string list \<times> string) option"
  cf_neighborViewSize :: int

definition integer_setting ::
    "environment \<Rightarrow> string \<Rightarrow> string \<Rightarrow> int \<Rightarrow> int \<Rightarrow> (config_error, int) result" where
  "integer_setting environment label default_text minimum maximum =
     parseInteger (case environment label of None \<Rightarrow> default_text | Some v \<Rightarrow> v) label minimum maximum"

definition parseTrackerConfiguration ::
    "(string \<Rightarrow> url option) \<Rightarrow> (string \<Rightarrow> string) \<Rightarrow> environment \<Rightarrow> (config_error, TrackerConfiguration) result" where
  "parseTrackerConfiguration parse_url origin_of environment =
     (let host = (case environment ''HOST'' of None \<Rightarrow> ''0.0.0.0'' | Some h \<Rightarrow> h);
          apiKey = environment ''TRACKER_API_KEY'';
          secret = environment ''PEER_SESSION_SECRET'' in
      if js_trim host = [] then throw EmptyHost
      else if apiKey \<noteq> None \<and> js_trim (the apiKey) = [] then throw EmptyApiKey
      else if secret \<noteq> None \<and> length (utf8 (the secret)) < 32 then throw SessionSecretShort
      else
        and_then (map_result (parseAllowedOrigin parse_url origin_of)
          (parseList (environment ''TRACKER_WS_ALLOWED_ORIGINS''))) (\<lambda>origins.
        and_then (parseTurnConfiguration environment) (\<lambda>turn.
        and_then (integer_setting environment ''PORT'' ''7070'' 1 65535) (\<lambda>port.
        and_then (integer_setting environment ''PEER_SESSION_TTL_MS'' ''3600000'' 1000 MAX_SAFE_INTEGER) (\<lambda>ttl.
        and_then (integer_setting environment ''STALE_PEER_MS'' ''30000'' 1 MAX_SAFE_INTEGER) (\<lambda>stale.
        and_then (integer_setting environment ''RATE_LIMIT_RPS'' ''100'' 1 MAX_SAFE_INTEGER) (\<lambda>rps.
        and_then (integer_setting environment ''RATE_LIMIT_BURST'' ''200'' 1 MAX_SAFE_INTEGER) (\<lambda>burst.
        and_then (integer_setting environment ''MAX_PEERS_PER_BROADCAST'' ''500'' 1 MAX_SAFE_INTEGER) (\<lambda>maxPeers.
        and_then (integer_setting environment ''TRACKER_WS_MAX_CONNECTIONS_PER_IP'' ''20'' 1 MAX_SAFE_INTEGER)
          (\<lambda>perIp.
        and_then (integer_setting environment ''TRUST_PROXY_HOPS'' ''0'' 0 MAX_TRUST_PROXY_HOPS) (\<lambda>hops.
        and_then (integer_setting environment ''TRACKER_NEIGHBOR_VIEW_SIZE'' ''64'' 0 MAX_NEIGHBOR_VIEW_SIZE)
          (\<lambda>viewSize.
          return \<lparr>cf_port = port, cf_host = js_trim host, cf_stalePeerMs = stale, cf_trackerApiKey = apiKey,
            cf_peerSessionSecret = secret, cf_peerSessionTtlMs = ttl, cf_rateLimitRps = rps,
            cf_rateLimitBurst = burst, cf_maxPeersPerBroadcast = maxPeers,
            cf_wsAllowedOrigins = (if origins = [] then None else Some origins),
            cf_wsMaxConnectionsPerIp = perIp, cf_trustProxyHops = hops, cf_turn = turn,
            cf_neighborViewSize = viewSize\<rparr>))))))))))))"

text \<open>Which store \<^verbatim>\<open>createConfiguredStore\<close> opens.\<close>

datatype store_choice = MemoryStore | SqliteStore "string option"
datatype store_choice_error = EmptyDbPath | UnsupportedStoreType

definition createConfiguredStore :: "environment \<Rightarrow> (store_choice_error, store_choice) result" where
  "createConfiguredStore environment =
     (let storeType = to_lower (js_trim (case environment ''STORE_TYPE'' of None \<Rightarrow> ''sqlite'' | Some s \<Rightarrow> s)) in
      if storeType = ''memory'' then return MemoryStore
      else if storeType = ''sqlite'' then
        (case environment ''DB_PATH'' of
           None \<Rightarrow> return (SqliteStore None)
         | Some path \<Rightarrow> if js_trim path = [] then throw EmptyDbPath else return (SqliteStore (Some path)))
      else throw UnsupportedStoreType)"

section \<open>Cleanup\<close>

text \<open>\<^verbatim>\<open>Date.parse\<close> is an argument, \<^theory_text>\<open>None\<close> when it returns \<^verbatim>\<open>NaN\<close>.\<close>

definition lease_expired :: "(string \<Rightarrow> int option) \<Rightarrow> int \<Rightarrow> Broadcast \<Rightarrow> bool" where
  "lease_expired parse_date now b = (case bc_metadata b of
     None \<Rightarrow> False
   | Some metadata \<Rightarrow>
       map_get metadata ''owner'' = Some ''origin'' \<and>
       (case map_get metadata ''leaseExpiresAt'' of
          None \<Rightarrow> False
        | Some lease \<Rightarrow> lease \<noteq> [] \<and>
            (case parse_date lease of None \<Rightarrow> False | Some expiry \<Rightarrow> expiry \<le> now)))"

fun expire_leases ::
    "'g HttpEnv \<Rightarrow> (string \<Rightarrow> int option) \<Rightarrow> int \<Rightarrow> Broadcast list \<Rightarrow> 'g Tracker \<Rightarrow> 'g Tracker" where
  "expire_leases env parse_date now [] t = t"
| "expire_leases env parse_date now (b # bs) t =
     (if lease_expired parse_date now b then
        (case unregisterBroadcast (bc_id b) (tr_store t) of
           Inl e \<Rightarrow> t
         | Inr store \<Rightarrow> expire_leases env parse_date now bs
             (event_broadcastListChanged env now (event_broadcastRemoved (bc_id b) (update_store store t))))
      else expire_leases env parse_date now bs t)"

definition server_removeStalePeers ::
    "'g HttpEnv \<Rightarrow> (string \<Rightarrow> int option) \<Rightarrow> int \<Rightarrow> int \<Rightarrow> 'g Tracker \<Rightarrow> 'g Tracker" where
  "server_removeStalePeers env parse_date stalePeerMs now t =
     (case removeStalePeers stalePeerMs now (tr_store t) of
        (removed, store) \<Rightarrow>
          (let t1 = fold (\<lambda>(broadcastId, peerId). event_peerLeft env broadcastId peerId now) removed
                 (update_store store t) in
           expire_leases env parse_date now (listBroadcasts (tr_store t1)) t1))"

section \<open>Events of the server\<close>

text \<open>What the sockets and the hub's timers bring; a statistics report that a socket's frame makes reaches the
  event stream.\<close>

fun socket_event :: "hub_event \<Rightarrow> bool" where
  "socket_event (UpgradeRequested _ _) = True"
| "socket_event (HandshakeFailed _) = True"
| "socket_event (SocketConnected _ _) = True"
| "socket_event (SocketFrame _ _ _) = True"
| "socket_event (SocketGone _) = True"
| "socket_event (SessionTimer _) = True"
| "socket_event (FlushTimer _) = True"
| "socket_event NextTurn = True"
| "socket_event _ = False"

definition reports_stats :: "nat \<Rightarrow> frame \<Rightarrow> int \<Rightarrow> 'g Hub \<Rightarrow> bool" where
  "reports_stats socket frame now h = (case frame of
     TextFrame (Some message) \<Rightarrow>
       map_get (wh_subscriptions h) socket \<noteq> None \<and> isRecord message \<and>
       (case consumeMessageBudget socket now h of (allowed, h1) \<Rightarrow>
          allowed \<and>
          (case (requiredString message ''type'', requiredString message ''broadcastId'',
                 requiredString message ''peerId'') of
             (Inr type, Inr broadcastId, Inr peerId) \<Rightarrow>
               type = ''report_stats'' \<and> matches_subscription socket broadcastId peerId h1 \<and>
               fst (handle_stats broadcastId peerId message now h1) = None
           | _ \<Rightarrow> False))
   | _ \<Rightarrow> False)"

definition hub_event :: "'g HttpEnv \<Rightarrow> hub_event \<Rightarrow> 'g Tracker \<Rightarrow> 'g Tracker" where
  "hub_event env e t =
     (if \<not> socket_event e then t
      else
        (let t1 = t\<lparr>tr_hub := hub_step (ht_hub env) e (tr_hub t)\<rparr> in
         case e of
           SocketFrame socket frame now \<Rightarrow>
             if reports_stats socket frame now (tr_hub t) then stats_event env StatsEvent now t1 else t1
         | _ \<Rightarrow> t1))"

datatype tracker_event =
    RequestArrived HttpRequest int number
  | BodyEnded nat "string list" bool int number
  | HubInput hub_event
  | StreamClosed nat
  | StreamTimer int
  | StreamTick int
  | CleanupTimer int
  | Stopping

text \<open>\<open>Stopping\<close> is the part of \<^verbatim>\<open>stopOnce\<close> that ends the event stream and stops the hub.\<close>

fun tracker_step ::
    "'g HttpEnv \<Rightarrow> (string \<Rightarrow> int option) \<Rightarrow> int \<Rightarrow> tracker_event \<Rightarrow> 'g Tracker \<Rightarrow> 'g Tracker" where
  "tracker_step env parse_date stalePeerMs (RequestArrived request now durationMs) t =
     request_arrived env request now durationMs t"
| "tracker_step env parse_date stalePeerMs (BodyEnded i chunks ended now durationMs) t =
     body_ended env i chunks ended now durationMs t"
| "tracker_step env parse_date stalePeerMs (HubInput e) t = hub_event env e t"
| "tracker_step env parse_date stalePeerMs (StreamClosed client) t =
     t\<lparr>tr_statsEvents := sse_closed client (tr_statsEvents t)\<rparr>"
| "tracker_step env parse_date stalePeerMs (StreamTimer now) t =
     t\<lparr>tr_statsEvents := pending_timer (ht_sse env) (tr_store t) now (tr_statsEvents t)\<rparr>"
| "tracker_step env parse_date stalePeerMs (StreamTick now) t =
     t\<lparr>tr_statsEvents := publish_tick (ht_sse env) (tr_store t) now (tr_statsEvents t)\<rparr>"
| "tracker_step env parse_date stalePeerMs (CleanupTimer now) t =
     server_removeStalePeers env parse_date stalePeerMs now t"
| "tracker_step env parse_date stalePeerMs Stopping t =
     t\<lparr>tr_statsEvents := sse_stop (tr_statsEvents t), tr_hub := stop_hub (tr_hub t)\<rparr>"

definition new_tracker :: "TrackerStore \<Rightarrow> nat \<Rightarrow> number \<Rightarrow> number \<Rightarrow> int \<Rightarrow> 'g \<Rightarrow> 'g Tracker" where
  "new_tracker store viewSize rps burst now g =
     \<lparr>tr_hub = new_hub store (new_inventory_limiter (nat_number INVENTORY_CHARACTERS_PER_SECOND)
        (nat_number INVENTORY_BURST_CHARACTERS)) viewSize g,
      tr_rateLimiter = new_ip_limiter rps burst, tr_metrics = new_metrics now,
      tr_statsEvents = new_stats_events, tr_pending = [], tr_nextRequest = 0, tr_responses = []\<rparr>"

section \<open>Starting and stopping\<close>

text \<open>\<^verbatim>\<open>startPromise\<close> and \<^verbatim>\<open>stopPromise\<close> by how far they have come; \<open>lc_storeCloses\<close> counts \<^verbatim>\<open>store.close()\<close>.\<close>

datatype start_phase = NotStarted | Listening | StartedAt nat
datatype stop_phase = NotStopping | AwaitingStart | ClosingSockets | ClosingServer | StopFinished bool

record Lifecycle =
  lc_start :: start_phase
  lc_stop :: stop_phase
  lc_listening :: bool
  lc_cleanupTimer :: bool
  lc_rollupTimer :: bool
  lc_statsStopped :: bool
  lc_storeCloses :: nat

definition new_lifecycle :: Lifecycle where
  "new_lifecycle = \<lparr>lc_start = NotStarted, lc_stop = NotStopping, lc_listening = False,
     lc_cleanupTimer = False, lc_rollupTimer = False, lc_statsStopped = False, lc_storeCloses = 0\<rparr>"

datatype lifecycle_error = AlreadyStopped

text \<open>\<^verbatim>\<open>start\<close>: a running or finished start is shared.\<close>

definition server_start :: "Lifecycle \<Rightarrow> (lifecycle_error, Lifecycle) result" where
  "server_start l =
     (if lc_stop l \<noteq> NotStopping then throw AlreadyStopped
      else if lc_start l \<noteq> NotStarted then return l
      else return (l\<lparr>lc_start := Listening\<rparr>))"

definition stop_continues :: "Lifecycle \<Rightarrow> Lifecycle" where
  "stop_continues l0 =
     (let l = l0\<lparr>lc_cleanupTimer := False, lc_rollupTimer := False\<rparr> in
      if \<not> lc_listening l
      then l\<lparr>lc_stop := StopFinished True, lc_storeCloses := lc_storeCloses l + 1\<rparr>
      else l\<lparr>lc_stop := ClosingSockets, lc_statsStopped := True\<rparr>)"

definition start_settled :: "Lifecycle \<Rightarrow> Lifecycle" where
  "start_settled l = (if lc_stop l = AwaitingStart then stop_continues l else l)"

definition server_stop :: "Lifecycle \<Rightarrow> Lifecycle" where
  "server_stop l =
     (if lc_stop l \<noteq> NotStopping then l
      else if lc_start l = Listening then l\<lparr>lc_stop := AwaitingStart\<rparr>
      else stop_continues l)"

text \<open>The callbacks: \<^verbatim>\<open>listen\<close> succeeds (for a SQLite store, its first rollup may throw) or fails; the hub has
  stopped or failed to; the HTTP server has closed, or reported an error.\<close>

datatype lifecycle_event =
    ListenSucceeded nat bool bool
  | ListenFailed
  | SocketsStopped bool
  | ServerClosed bool

fun lifecycle_step :: "lifecycle_event \<Rightarrow> Lifecycle \<Rightarrow> Lifecycle" where
  "lifecycle_step (ListenSucceeded port sqlite rollup_ok) l =
     (if lc_start l \<noteq> Listening then l
      else
        (let l1 = l\<lparr>lc_listening := True, lc_cleanupTimer := True\<rparr> in
         if sqlite \<and> \<not> rollup_ok then start_settled (l1\<lparr>lc_start := NotStarted\<rparr>)
         else start_settled (l1\<lparr>lc_rollupTimer := sqlite, lc_start := StartedAt port\<rparr>)))"
| "lifecycle_step ListenFailed l =
     (if lc_start l \<noteq> Listening then l else start_settled (l\<lparr>lc_start := NotStarted\<rparr>))"
| "lifecycle_step (SocketsStopped ok) l =
     (if lc_stop l \<noteq> ClosingSockets then l
      else if ok then l\<lparr>lc_stop := ClosingServer\<rparr>
      else l\<lparr>lc_stop := StopFinished False, lc_storeCloses := lc_storeCloses l + 1\<rparr>)"
| "lifecycle_step (ServerClosed ok) l =
     (if lc_stop l \<noteq> ClosingServer then l
      else l\<lparr>lc_stop := StopFinished ok, lc_listening := False, lc_storeCloses := lc_storeCloses l + 1\<rparr>)"

end
