(* ===== verification/TrackerHttpSpec.thy ===== *)
theory TrackerHttpSpec
  imports TrackerServer HubEvents
begin

text \<open>
  What the REST API promises: a request without the API key acts only for the peer its session names, sees
  no more than that session may, and changes nothing when it is refused; every request is answered once; the
  collector's statistics agree with the answers.
\<close>

section \<open>Reading the store\<close>

definition peer_entry :: "string \<Rightarrow> string \<Rightarrow> TrackerStore \<Rightarrow> PeerState option" where
  "peer_entry b p s = (case map_get (ts_broadcasts s) b of
     None \<Rightarrow> None | Some state \<Rightarrow> map_get (bs_peers state) p)"

definition broadcast_of :: "string \<Rightarrow> TrackerStore \<Rightarrow> Broadcast option" where
  "broadcast_of b s = map_option bs_broadcast (map_get (ts_broadcasts s) b)"

lemma getPeer_entry: "getPeer b p s = map_option ps_peer (peer_entry b p s)"
  by (simp add: getPeer_def peer_entry_def split: option.split)

lemma entry_put:
  "peer_entry c q (put_peer b p st s) =
     (if c = b \<and> q = p \<and> map_get (ts_broadcasts s) b \<noteq> None then Some st else peer_entry c q s)"
  by (cases "map_get (ts_broadcasts s) b")
    (auto simp: peer_entry_def put_peer_def put_broadcast_def get_set)

lemma broadcast_put: "broadcast_of c (put_peer b p st s) = broadcast_of c s"
  by (cases "map_get (ts_broadcasts s) b") (auto simp: broadcast_of_def put_peer_def put_broadcast_def get_set)

lemma requirePeer_entry: "requirePeer b p s = Inr st \<Longrightarrow> peer_entry b p s = Some st \<and> map_get (ts_broadcasts s) b \<noteq> None"
  by (auto simp: requirePeer_def requireBroadcast_def peer_entry_def split: option.splits)

text \<open>What a session may change: its own peer, the quality values of the peers of its broadcast, and anyone may
  add a peer that is not there.\<close>

definition names :: "PeerSessionClaims option \<Rightarrow> string \<Rightarrow> string \<Rightarrow> bool" where
  "names session b p \<longleftrightarrow> (\<exists>claims. session = Some claims \<and> claim_broadcastId claims = b \<and> claim_peerId claims = p)"

definition in_broadcast :: "PeerSessionClaims option \<Rightarrow> string \<Rightarrow> bool" where
  "in_broadcast session b \<longleftrightarrow> (\<exists>claims. session = Some claims \<and> claim_broadcastId claims = b)"

definition quality_only :: "PeerState \<Rightarrow> PeerState \<Rightarrow> bool" where
  "quality_only st st' \<longleftrightarrow> (\<exists>trust success. st' = st\<lparr>ps_peer := (ps_peer st)\<lparr>
     peer_trustScore := trust, peer_successRate := success\<rparr>\<rparr>)"

definition peer_change_allowed ::
    "PeerSessionClaims option \<Rightarrow> string \<Rightarrow> string \<Rightarrow> PeerState option \<Rightarrow> PeerState option \<Rightarrow> bool" where
  "peer_change_allowed session b p before after \<longleftrightarrow> after = before \<or> names session b p \<or>
     (case (before, after) of
        (None, _) \<Rightarrow> True
      | (Some st, Some st') \<Rightarrow> in_broadcast session b \<and> quality_only st st'
      | (Some _, None) \<Rightarrow> False)"

definition within_session :: "PeerSessionClaims option \<Rightarrow> TrackerStore \<Rightarrow> TrackerStore \<Rightarrow> bool" where
  "within_session session s s' \<longleftrightarrow> (\<forall>b. broadcast_of b s' = broadcast_of b s) \<and>
     (\<forall>b p. peer_change_allowed session b p (peer_entry b p s) (peer_entry b p s'))"

lemma within_refl [simp]: "within_session session s s"
  by (simp add: within_session_def peer_change_allowed_def)

lemma within_put:
  "peer_change_allowed session b p (peer_entry b p s) (Some st) \<Longrightarrow> within_session session s (put_peer b p st s)"
  by (auto simp: within_session_def broadcast_put entry_put peer_change_allowed_def)

lemma within_put_own: "names session b p \<Longrightarrow> within_session session s (put_peer b p st s)"
  by (rule within_put) (simp add: peer_change_allowed_def)

lemma store_reports_within:
  assumes "names session b p"
  shows "store_heartbeat b p hb now s = Inr (peer, s') \<Longrightarrow> within_session session s s'"
    "reportSegments b p segments replace now s = Inr (peer, s') \<Longrightarrow> within_session session s s'"
    "reportStats b p stats now s = Inr s' \<Longrightarrow> within_session session s s'"
  using within_put_own[OF assms]
  by (auto simp: store_heartbeat_def reportSegments_def reportStats_def Let_def split: sum.splits)

lemma failure_within:
  assumes "reportPeerFailure b p report now s = Inr (peer, s')" "in_broadcast session b"
  shows "within_session session s s'"
proof -
  obtain st agreed consensus where st: "requirePeer b p s = Inr st"
    and "observe_failure b p report now (ts_failureConsensus s) = (agreed, consensus)"
    and s': "s' = s\<lparr>ts_failureConsensus := consensus\<rparr> \<or> (\<exists>trust success. s' = put_peer b p
        (st\<lparr>ps_peer := (ps_peer st)\<lparr>peer_trustScore := trust, peer_successRate := success\<rparr>\<rparr>)
        (s\<lparr>ts_failureConsensus := consensus\<rparr>))"
    using assms(1) unfolding reportPeerFailure_def Let_def
    by (auto split: sum.splits prod.splits if_splits)
  have same: "peer_entry c q (s\<lparr>ts_failureConsensus := consensus\<rparr>) = peer_entry c q s"
    "broadcast_of c (s\<lparr>ts_failureConsensus := consensus\<rparr>) = broadcast_of c s" for c q
    by (simp_all add: peer_entry_def broadcast_of_def)
  from s' show ?thesis
  proof
    assume "s' = s\<lparr>ts_failureConsensus := consensus\<rparr>"
    then show ?thesis by (simp add: within_session_def same peer_change_allowed_def)
  next
    assume "\<exists>trust success. s' = put_peer b p
        (st\<lparr>ps_peer := (ps_peer st)\<lparr>peer_trustScore := trust, peer_successRate := success\<rparr>\<rparr>)
        (s\<lparr>ts_failureConsensus := consensus\<rparr>)"
    then obtain trust success where s': "s' = put_peer b p
        (st\<lparr>ps_peer := (ps_peer st)\<lparr>peer_trustScore := trust, peer_successRate := success\<rparr>\<rparr>)
        (s\<lparr>ts_failureConsensus := consensus\<rparr>)" by blast
    have "within_session session (s\<lparr>ts_failureConsensus := consensus\<rparr>) s'"
      unfolding s' using assms(2) requirePeer_entry[OF st]
      by (intro within_put) (auto simp: same peer_change_allowed_def quality_only_def)
    then show ?thesis by (simp add: within_session_def same)
  qed
qed

lemma leave_within:
  assumes "leavePeer b p s = Inr s'" "names session b p"
  shows "within_session session s s'"
proof -
  obtain state st where "map_get (ts_broadcasts s) b = Some state" "map_get (bs_peers state) p = Some st"
    and s': "s' = put_broadcast b (retire_peer p st state) s"
    using assms(1) by (auto simp: leavePeer_def requireBroadcast_def split: option.splits)
  then show ?thesis using assms(2)
    by (auto simp: within_session_def peer_change_allowed_def broadcast_of_def peer_entry_def put_broadcast_def
        retire_peer_def get_set get_delete)
qed

lemma join_shape:
  assumes "joinPeerDetailed b request limit now s = Inr ((peer, already), s')"
  shows "already \<longleftrightarrow> getPeer b (join_id request) s \<noteq> None" "peer_id peer = join_id request"
    "\<exists>stats. s' = put_peer b (join_id request) \<lparr>ps_peer = peer, ps_stats = stats\<rparr> s"
  using assms by (auto simp: joinPeerDetailed_def requireBroadcast_def Let_def getPeer_def joined_peer_def
      split: option.splits if_splits)

lemma join_within:
  assumes "joinPeerDetailed b request limit now s = Inr ((peer, already), s')"
    and "already \<Longrightarrow> names session b (join_id request)"
  shows "within_session session s s'"
proof -
  obtain stats where s': "s' = put_peer b (join_id request) \<lparr>ps_peer = peer, ps_stats = stats\<rparr> s" using join_shape(3)[OF assms(1)] by blast
  show ?thesis unfolding s'
  proof (rule within_put)
    show "peer_change_allowed session b (join_id request) (peer_entry b (join_id request) s)
        (Some \<lparr>ps_peer = peer, ps_stats = stats\<rparr>)"
      using assms(2) join_shape(1)[OF assms(1)]
      by (cases "peer_entry b (join_id request) s") (auto simp: peer_change_allowed_def getPeer_entry)
  qed
qed

section \<open>What the events leave alone\<close>

lemma removed_store:
  fixes h :: "'g Hub"
  shows "wh_store (broadcastRemoved b h) = wh_store h"
proof -
  have "wh_store (fold drop_broadcast_socket xs h) = wh_store h" for xs and h :: "'g Hub"
    by (induction xs arbitrary: h)
      (simp_all add: drop_broadcast_socket_def unindexSubscription_def close_socket_def Let_def split: option.split)
  then show ?thesis by (simp add: broadcastRemoved_def Let_def)
qed

lemma event_stores [simp]:
  "tr_store (stats_event env name now t) = tr_store t"
  "tr_store (event_broadcastListChanged env now t) = tr_store t"
  "tr_store (event_peerJoined env b peer now t) = tr_store t"
  "tr_store (event_peerLeft env b p now t) = tr_store t"
  "tr_store (event_segmentsAvailable env b p segments t) = tr_store t"
  "tr_store (event_statsUpdated env now t) = tr_store t"
  "tr_store (event_broadcastRemoved b t) = tr_store t"
  "tr_store (update_metrics f t) = tr_store t"
  "tr_store (synchronize t) = tr_store t"
  "tr_store (update_store s t) = s"
  by (simp_all add: stats_event_def event_broadcastListChanged_def event_peerJoined_def event_peerLeft_def
      event_segmentsAvailable_def event_statsUpdated_def event_broadcastRemoved_def update_metrics_def
      synchronize_def update_store_def segmentsAvailable_def removed_store
      fans_fields(1)[OF fans_peerJoined] fans_fields(1)[OF fans_peerLeft] fans_fields(1)[OF fans_publish])

section \<open>Handlers\<close>

definition refused_result :: "(http_error, HttpResponse) result \<Rightarrow> bool" where
  "refused_result r \<longleftrightarrow> 400 \<le> rs_status (error_response r)"

lemma refused_return [simp]: "refused_result (Inr response) \<longleftrightarrow> 400 \<le> rs_status response"
  by (simp add: refused_result_def error_response_def)

text \<open>A handler that acts for \<open>session\<close> when the caller is no administrator, and keeps the store when it refuses;
  \<open>ok\<close> says that the tokens it issues expire at a representable date.\<close>

definition well_served :: "bool \<Rightarrow> bool \<Rightarrow> PeerSessionClaims option \<Rightarrow> 'g Tracker \<Rightarrow> 'g served \<Rightarrow> bool" where
  "well_served ok admin session t r \<longleftrightarrow>
     (admin \<or> within_session session (tr_store t) (tr_store (snd r))) \<and>
     (ok \<and> refused_result (fst r) \<longrightarrow> tr_store (snd r) = tr_store t)"

lemma served_same: "tr_store t' = tr_store t \<Longrightarrow> well_served ok admin session t (r, t')"
  by (simp add: well_served_def)

lemma served_throw: "tr_store t' = tr_store t \<Longrightarrow> well_served ok admin session t (Inl e, t')"
  by (rule served_same)

lemma served_refused [simp]: "well_served ok admin session t (refused e t)"
  by (simp add: refused_def served_same)

lemma served_return:
  "rs_status response < 400 \<Longrightarrow> (\<not> admin \<Longrightarrow> within_session session (tr_store t) (tr_store t')) \<Longrightarrow>
     well_served ok admin session t (return response, t')"
  by (auto simp: well_served_def)

lemma session_names:
  "requirePeerSession admin session b (Some p) = Inr claims \<Longrightarrow> \<not> admin \<Longrightarrow> names session b p"
  by (auto simp: requirePeerSession_def names_def split: option.splits if_splits)

lemma session_in_broadcast:
  "requirePeerSession admin session b q = Inr claims \<Longrightarrow> \<not> admin \<Longrightarrow>
     session = Some claims \<and> claim_broadcastId claims = b"
  by (auto simp: requirePeerSession_def split: option.splits if_splits)

lemma session_broadcast:
  "requirePeerSession admin session b q = Inr claims \<Longrightarrow> \<not> admin \<Longrightarrow> in_broadcast session b"
  by (drule (1) session_in_broadcast) (simp add: in_broadcast_def)

lemma segments_served:
  assumes "\<not> admin \<Longrightarrow> names session b p"
  shows "well_served ok admin session t (serve_segments env b p body now t)"
  using assms
  by (auto simp: serve_segments_def refused_def Let_def intro!: served_return served_throw
      dest: store_reports_within(2) split: sum.split option.split prod.split)

lemma heartbeat_served:
  assumes "\<not> admin \<Longrightarrow> names session b p"
  shows "well_served ok admin session t (serve_heartbeat b p body now t)"
  using assms
  by (auto simp: serve_heartbeat_def intro!: served_return served_throw
      dest: store_reports_within(1) split: sum.split)

lemma stats_served:
  assumes "\<not> admin \<Longrightarrow> names session b p"
  shows "well_served ok admin session t (serve_stats env b p body now t)"
  using assms
  by (auto simp: serve_stats_def intro!: served_return served_throw
      dest: store_reports_within(3) split: sum.split)

lemma report_served: "well_served ok admin session t (serve_report admin session b p body now t)"
  by (auto simp: serve_report_def intro!: served_return served_throw
      intro: failure_within session_broadcast split: sum.split option.split)

lemma action_served: "well_served ok admin session t (serve_action env admin session action m b p body now t)"
  by (auto simp: serve_action_def Let_def report_served
      intro!: segments_served heartbeat_served stats_served served_throw intro: served_same
      dest: session_names split: sum.split)

definition tokens_expire :: "'g HttpEnv \<Rightarrow> int \<Rightarrow> bool" where
  "tokens_expire env now \<longleftrightarrow> now + pst_ttlMs (he_peerSessions (ht_hub env)) \<le> MAX_DATE_MS"

lemma issue_expires:
  "session_issue hmac encode b p now service = (token, expiresAt) \<Longrightarrow> expiresAt = now + pst_ttlMs service"
  by (auto simp: session_issue_def Let_def)

lemma issue_store: "tr_store (snd (issue_session env b peer already now t)) = tr_store t"
  by (simp add: issue_session_def split: prod.split)

lemma issue_succeeds:
  assumes "tokens_expire env now"
  shows "\<exists>response. fst (issue_session env b peer already now t) = return response \<and> rs_status response < 400"
  using assms by (auto simp: issue_session_def tokens_expire_def dest!: issue_expires split: prod.split)

lemma join_served:
  assumes "ok \<longrightarrow> tokens_expire env now"
  shows "well_served ok admin session t (serve_join env admin session b body now t)"
proof (cases "parse_join env body")
  case (Inr join)
  let ?p = "join_id join" and ?limit = "Some (nat_number (ht_maxPeersPerBroadcast env))"
  let ?allowed = "requirePeerSession admin session b (Some ?p)"
  show ?thesis
  proof (cases "getPeer b ?p (tr_store t) \<noteq> None \<and> (\<exists>e. ?allowed = Inl e)")
    case True
    then show ?thesis by (auto simp: serve_join_def Inr Let_def intro: served_same)
  next
    case peek: False
    show ?thesis
    proof (cases "joinPeerDetailed b join ?limit now (tr_store t)")
      case (Inl e)
      with peek show ?thesis
        by (cases ?allowed) (auto simp: serve_join_def Inr Let_def refused_def intro: served_same)
    next
      case joined: (Inr r)
      obtain peer already store where r: "r = ((peer, already), store)" by (metis prod.exhaust)
      note join = joined[unfolded r]
      have own: "names session b ?p" if "already" "\<not> admin"
        using that peek join_shape(1)[OF join] session_names[of admin session b ?p]
        by (cases ?allowed) auto
      have within: "\<not> admin \<Longrightarrow> within_session session (tr_store t) store"
        using join_within[OF join] own by blast
      have serve: "serve_join env admin session b body now t =
          issue_session env b peer already now (update_store store t)"
        using peek join_shape(1)[OF join] join
        by (cases ?allowed) (auto simp: serve_join_def Inr Let_def r)
      show ?thesis unfolding serve well_served_def issue_store
        using within issue_succeeds[of env now b peer already "update_store store t"] assms by fastforce
    qed
  qed
qed (simp add: serve_join_def)

lemma body_served:
  assumes "ok \<longrightarrow> tokens_expire env now" "pr_route pending = RegisterRoute \<Longrightarrow> pr_hasAdminAccess pending"
  shows "well_served ok (pr_hasAdminAccess pending) (pr_session pending) t (serve_body env pending body now t)"
proof (cases "pr_route pending")
  case RegisterRoute
  then show ?thesis using assms(2)
    by (auto simp: serve_body_def serve_register_def Let_def intro!: served_return split: sum.split prod.split)
qed (simp_all add: serve_body_def action_served join_served assms(1))

text \<open>The routes without a body.\<close>

lemma peers_served: "well_served ok admin session t (serve_peers admin session b segment t)"
  by (auto simp: serve_peers_def intro: served_same split: sum.split)

lemma broadcast_served: "well_served ok admin session t (serve_broadcast admin session b t)"
  by (auto simp: serve_broadcast_def intro: served_same split: sum.split)

lemma leave_served: "well_served ok admin session t (serve_leave env admin session b p now t)"
  by (auto simp: serve_leave_def intro!: served_return served_throw leave_within
      dest: session_names split: sum.split)

lemma unregister_served: "well_served ok True session t (serve_unregister env b now t)"
  by (auto simp: serve_unregister_def Let_def well_served_def refused_result_def error_response_def split: sum.split)

lemma metrics_served: "well_served ok admin session t (serve_metrics env now t)"
  by (auto simp: serve_metrics_def intro: served_same split: prod.split)

section \<open>First turns\<close>

definition well_turned :: "bool \<Rightarrow> bool \<Rightarrow> PeerSessionClaims option \<Rightarrow> 'g Tracker \<Rightarrow> 'g turn \<Rightarrow> bool" where
  "well_turned ok admin session t turn = (case turn of
     Answered r t1 \<Rightarrow> well_served ok admin session t (r, t1)
   | AwaitsBody route t1 \<Rightarrow> tr_store t1 = tr_store t \<and> (route = RegisterRoute \<longrightarrow> admin))"

lemma turned_answered: "well_turned ok admin session t (answered r) = well_served ok admin session t r"
  by (simp add: well_turned_def)

lemma turned_answer: "well_turned ok admin session t (Answered r t)"
  by (simp add: well_turned_def served_same)

lemma turned_throw: "tr_store t1 = tr_store t \<Longrightarrow> well_turned ok admin session t (Answered (Inl e) t1)"
  by (simp add: well_turned_def served_throw)

lemma turned_events: "well_turned ok admin session t (Answered r (t\<lparr>tr_statsEvents := e\<rparr>))"
  by (simp add: well_turned_def served_same)

lemma turned_if:
  "well_turned ok admin session t x \<Longrightarrow> well_turned ok admin session t y \<Longrightarrow>
     well_turned ok admin session t (if c then x else y)"
  by simp

lemma turned_wait: "tr_store t1 = tr_store t \<Longrightarrow> route \<noteq> RegisterRoute \<or> admin \<Longrightarrow>
    well_turned ok admin session t (AwaitsBody route t1)"
  by (auto simp: well_turned_def)

lemma turned_not_found: "well_turned ok admin session t (not_found t)"
  by (simp add: not_found_def turned_answer)

lemma turned_allowed:
  "(\<And>x. check = Inr x \<Longrightarrow> well_turned ok admin session t (next_step x)) \<Longrightarrow>
     well_turned ok admin session t (when_allowed check t next_step)"
  by (cases check) (simp_all add: when_allowed_def turned_throw)

lemma admin_required: "requireAdminAccess admin request = Inr x \<Longrightarrow> admin"
  by (simp add: requireAdminAccess_def split: if_splits)

lemma unregister_turned:
  "requireAdminAccess admin request = Inr x \<Longrightarrow> well_served ok admin session t (serve_unregister env b now t)"
  by (drule admin_required) (simp add: unregister_served)

lemma broadcast_turned:
  fixes env :: "'g HttpEnv"
  defines "admin \<equiv> hasAdminAccess env" and "session \<equiv> request_session env"
  shows "well_turned ok (admin request) (session request now) t
    (route_broadcast env request httpMethod path segment now t)"
  unfolding route_broadcast_def Let_def admin_def[symmetric] session_def[symmetric]
  by (auto simp: turned_not_found turned_answered peers_served leave_served broadcast_served unregister_turned
      intro!: turned_allowed turned_answer turned_wait split: broadcast_route.split)

lemma route_turned:
  "well_turned ok (hasAdminAccess env request) (request_session env request now) t
    (route_request env i request httpMethod path segment now t)"
  unfolding route_request_def Let_def
  by (intro turned_if turned_allowed turned_answer turned_events broadcast_turned turned_wait)
    (auto dest: admin_required)

lemma turned_cong:
  "tr_store t' = tr_store t \<Longrightarrow> well_turned ok admin session t' turn = well_turned ok admin session t turn"
  by (cases turn) (simp_all add: well_turned_def well_served_def)

lemma rate_store: "consume_rate env request m now t = (r, t1) \<Longrightarrow> tr_store t1 = tr_store t"
  by (auto simp: consume_rate_def split: if_splits prod.splits option.splits)

lemma turn_turned:
  "well_turned ok (hasAdminAccess env request) (request_session env request now) t
    (first_turn env i request path segment now t)"
proof -
  let ?m = "case rq_method request of None \<Rightarrow> ''GET'' | Some m \<Rightarrow> m"
  obtain r t1 where limit: "(if path = ''/health'' then (None, t) else consume_rate env request ?m now t) = (r, t1)"
    by fastforce
  have store: "tr_store t1 = tr_store t" using limit by (auto dest: rate_store split: if_splits)
  have "well_turned ok (hasAdminAccess env request) (request_session env request now) t
      (route_request env i request ?m path segment now t1)"
    unfolding turned_cong[OF store, symmetric] by (rule route_turned)
  with store show ?thesis unfolding first_turn_def Let_def limit
    by (cases r; intro turned_if; simp add: turned_answer turned_throw)
      (auto simp: turned_answered metrics_served intro: turned_allowed)
qed

section \<open>The rest of the state\<close>

text \<open>What only the handler's frame touches: the requests, the responses and the response statistics.\<close>

definition bookkeeping :: "'g Tracker \<Rightarrow> _" where
  "bookkeeping t = (tr_pending t, tr_nextRequest t, tr_responses t, tm_httpAuthFailuresTotal (tr_metrics t),
     tm_responsesByClass (tr_metrics t), tm_requestDurationCount (tr_metrics t),
     tm_requestDurationBuckets (tr_metrics t))"

lemma bookkeeping_hub [simp]: "bookkeeping (t\<lparr>tr_hub := h\<rparr>) = bookkeeping t"
  and bookkeeping_events [simp]: "bookkeeping (t\<lparr>tr_statsEvents := e\<rparr>) = bookkeeping t"
  and bookkeeping_limiter [simp]: "bookkeeping (t\<lparr>tr_rateLimiter := l\<rparr>) = bookkeeping t"
  and bookkeeping_store [simp]: "bookkeeping (update_store s t) = bookkeeping t"
  and bookkeeping_limited [simp]: "bookkeeping (update_metrics requestRateLimited t) = bookkeeping t"
  and bookkeeping_joined [simp]: "bookkeeping (update_metrics metrics_peerJoined t) = bookkeeping t"
  and bookkeeping_created [simp]: "bookkeeping (update_metrics metrics_broadcastCreated t) = bookkeeping t"
  and bookkeeping_synchronize [simp]: "bookkeeping (synchronize t) = bookkeeping t"
  by (simp_all add: bookkeeping_def update_store_def update_metrics_def requestRateLimited_def
      metrics_peerJoined_def metrics_broadcastCreated_def synchronize_def synchronizeTraffic_def)

lemma bookkeeping_stats_event [simp]: "bookkeeping (stats_event env name now t) = bookkeeping t"
  by (simp add: stats_event_def)

lemma bookkeeping_server_events [simp]:
  "bookkeeping (event_broadcastListChanged env now t) = bookkeeping t"
  "bookkeeping (event_peerJoined env b peer now t) = bookkeeping t"
  "bookkeeping (event_peerLeft env b p now t) = bookkeeping t"
  "bookkeeping (event_segmentsAvailable env b p segments t) = bookkeeping t"
  "bookkeeping (event_statsUpdated env now t) = bookkeeping t"
  "bookkeeping (event_broadcastRemoved b t) = bookkeeping t"
  by (simp_all add: event_broadcastListChanged_def event_peerJoined_def event_peerLeft_def
      event_segmentsAvailable_def event_statsUpdated_def event_broadcastRemoved_def)

lemma bookkeeping_actions [simp]:
  "bookkeeping (snd (serve_segments env b p body now t)) = bookkeeping t"
  "bookkeeping (snd (serve_heartbeat b p body now t)) = bookkeeping t"
  "bookkeeping (snd (serve_stats env b p body now t)) = bookkeeping t"
  "bookkeeping (snd (serve_report admin session b p body now t)) = bookkeeping t"
  by (simp_all add: serve_segments_def serve_heartbeat_def serve_stats_def serve_report_def refused_def Let_def
      split: sum.split option.split prod.split)

lemma bookkeeping_action [simp]:
  "bookkeeping (snd (serve_action env admin session action m b p body now t)) = bookkeeping t"
  by (simp add: serve_action_def Let_def split: sum.split)

lemma bookkeeping_issue [simp]: "bookkeeping (snd (issue_session env b peer already now t)) = bookkeeping t"
  by (simp add: issue_session_def split: prod.split)

lemma bookkeeping_join [simp]: "bookkeeping (snd (serve_join env admin session b body now t)) = bookkeeping t"
  by (simp add: serve_join_def Let_def refused_def split: sum.split prod.split)

lemma bookkeeping_register [simp]: "bookkeeping (snd (serve_register env body now t)) = bookkeeping t"
  by (simp add: serve_register_def Let_def refused_def split: sum.split prod.split)

lemma bookkeeping_body: "bookkeeping (snd (serve_body env pending body now t)) = bookkeeping t"
  by (simp add: serve_body_def split: body_route.split)

lemma bookkeeping_routes [simp]:
  "bookkeeping (snd (serve_peers admin session b segment t)) = bookkeeping t"
  "bookkeeping (snd (serve_broadcast admin session b t)) = bookkeeping t"
  "bookkeeping (snd (serve_leave env admin session b p now t)) = bookkeeping t"
  "bookkeeping (snd (serve_unregister env b now t)) = bookkeeping t"
  by (simp_all add: serve_peers_def serve_broadcast_def serve_leave_def serve_unregister_def Let_def
      split: sum.split)

lemma bookkeeping_metrics [simp]: "bookkeeping (snd (serve_metrics env now t)) = bookkeeping t"
  by (simp add: serve_metrics_def render_def Let_def) (simp add: bookkeeping_def synchronizeTraffic_def)

fun turn_state :: "'g turn \<Rightarrow> 'g Tracker" where
  "turn_state (Answered r t) = t"
| "turn_state (AwaitsBody route t) = t"

lemma turn_state_allowed:
  "(\<And>x. bookkeeping (turn_state (next_step x)) = bookkeeping t) \<Longrightarrow>
     bookkeeping (turn_state (when_allowed check t next_step)) = bookkeeping t"
  by (cases check) (simp_all add: when_allowed_def)

lemma turn_state_if:
  "bookkeeping (turn_state x) = k \<Longrightarrow> bookkeeping (turn_state y) = k \<Longrightarrow>
     bookkeeping (turn_state (if c then x else y)) = k"
  by simp

lemma bookkeeping_rate: "consume_rate env request m now t = (r, t1) \<Longrightarrow> bookkeeping t1 = bookkeeping t"
  by (auto simp: consume_rate_def split: if_splits prod.splits option.splits)

lemma bookkeeping_broadcast:
  "bookkeeping (turn_state (route_broadcast env request m path segment now t)) = bookkeeping t"
  by (auto simp: route_broadcast_def Let_def not_found_def intro!: turn_state_allowed split: broadcast_route.split)

lemma bookkeeping_route:
  "bookkeeping (turn_state (route_request env i request m path segment now t)) = bookkeeping t"
  unfolding route_request_def Let_def
  by (intro turn_state_if turn_state_allowed bookkeeping_broadcast) simp_all

lemma bookkeeping_turn: "bookkeeping (turn_state (first_turn env i request path segment now t)) = bookkeeping t"
proof -
  let ?m = "case rq_method request of None \<Rightarrow> ''GET'' | Some m \<Rightarrow> m"
  obtain r t1 where limit: "(if path = ''/health'' then (None, t) else consume_rate env request ?m now t) = (r, t1)"
    by fastforce
  have "bookkeeping t1 = bookkeeping t" using limit by (auto dest: bookkeeping_rate split: if_splits)
  then show ?thesis unfolding first_turn_def Let_def limit
    by (cases r; intro turn_state_if turn_state_allowed; simp add: bookkeeping_route)
qed

end
