(* ===== verification/TrackerDisclosure.thy ===== *)
theory TrackerDisclosure
  imports TrackerHttpSpec
begin

text \<open>
  What the REST API shows to a caller without the API key: the peers its session may see, the peer it joined,
  reported on or changed, and nothing of the administration.
\<close>

section \<open>The policy\<close>

definition peers_of :: "string \<Rightarrow> TrackerStore \<Rightarrow> Peer list" where
  "peers_of b s = (case map_get (ts_broadcasts s) b of
     None \<Rightarrow> [] | Some state \<Rightarrow> map ps_peer (map_values (bs_peers state)))"

text \<open>A listing shows the viewer and its neighbors, once it has any.\<close>

definition listing_allowed :: "PeerSessionClaims option \<Rightarrow> 'g Hub \<Rightarrow> Peer list \<Rightarrow> bool" where
  "listing_allowed session h peers = (case session of
     None \<Rightarrow> False
   | Some claims \<Rightarrow>
       (let b = claim_broadcastId claims; self = claim_peerId claims in
        case peerView b self h of
          Some (v # vs) \<Rightarrow> list_all (\<lambda>peer. list_ex (\<lambda>q. getPeer b q (wh_store h) = Some peer) (self # v # vs)) peers
        | _ \<Rightarrow> list_all (\<lambda>peer. peer \<in> set (peers_of b (wh_store h))) peers))"

fun disclosed :: "PeerSessionClaims option \<Rightarrow> 'g Hub \<Rightarrow> TrackerStore \<Rightarrow> http_body \<Rightarrow> bool" where
  "disclosed session h after EmptyBody = True"
| "disclosed session h after (ErrorBody e) = True"
| "disclosed session h after RouteNotFound = True"
| "disclosed session h after HealthBody = True"
| "disclosed session h after (PeersBody peers) = listing_allowed session h peers"
| "disclosed session h after (BroadcastPeersBody b peers) =
     (listing_allowed session h peers \<and> (case session of None \<Rightarrow> False
        | Some claims \<Rightarrow> broadcast_of (claim_broadcastId claims) (wh_store h) = Some b))"
| "disclosed session h after (PeerBody peer) = (case session of None \<Rightarrow> False
     | Some claims \<Rightarrow> peer \<in> set (peers_of (claim_broadcastId claims) after))"
| "disclosed session h after (JoinBody peer token expiresAt ice) = (\<exists>b. getPeer b (peer_id peer) after = Some peer)"
| "disclosed session h after body = False"

definition discreet :: "bool \<Rightarrow> PeerSessionClaims option \<Rightarrow> 'g Hub \<Rightarrow> 'g served \<Rightarrow> bool" where
  "discreet admin session h r \<longleftrightarrow> admin \<or> (case fst r of
     Inl e \<Rightarrow> True | Inr response \<Rightarrow> disclosed session h (tr_store (snd r)) (rs_body response))"

lemma discreet_throw [simp]: "discreet admin session h (Inl e, t)"
  by (simp add: discreet_def)

lemma discreet_refused [simp]: "discreet admin session h (refused e t)"
  by (simp add: refused_def)

lemma discreet_return:
  "(\<not> admin \<Longrightarrow> disclosed session h (tr_store t) (rs_body response)) \<Longrightarrow> discreet admin session h (return response, t)"
  by (auto simp: discreet_def)

section \<open>Handlers\<close>

lemma getPeer_listed: "getPeer b q s = Some peer \<Longrightarrow> peer \<in> set (peers_of b s)"
  by (force simp: getPeer_def peers_of_def dest: map_of_SomeD split: option.splits)

lemma listed_peers: "listPeers b segment s = Inr peers \<Longrightarrow> set peers \<subseteq> set (peers_of b s)"
  by (auto simp: listPeers_def requireBroadcast_def peers_of_def split: option.splits)

lemma map_filter_member: "y \<in> set (List.map_filter f xs) \<Longrightarrow> \<exists>x\<in>set xs. f x = Some y"
  by (induction xs) (auto split: option.splits)

lemma visible_allowed:
  assumes "visiblePeers False b claims segment t = Inr peers" "claim_broadcastId claims = b"
  shows "listing_allowed (Some claims) (tr_hub t) peers"
proof (cases "peerView b (claim_peerId claims) (tr_hub t)")
  case None
  then show ?thesis using assms listed_peers[of b segment "tr_store t" peers]
    by (auto simp: visiblePeers_def listing_allowed_def list_all_iff)
next
  case (Some view)
  show ?thesis
  proof (cases view)
    case Nil
    then show ?thesis using assms Some listed_peers[of b segment "tr_store t" peers]
      by (auto simp: visiblePeers_def listing_allowed_def list_all_iff)
  next
    case (Cons v vs)
    let ?seen = "List.map_filter (\<lambda>q. getPeer b q (tr_store t)) (claim_peerId claims # view)"
    have "set peers \<subseteq> set ?seen" using assms(1) Some Cons by (auto simp: visiblePeers_def)
    moreover have "\<exists>q\<in>set (claim_peerId claims # view). getPeer b q (tr_store t) = Some peer"
      if "peer \<in> set ?seen" for peer
      by (rule map_filter_member[OF that])
    ultimately have "list_all (\<lambda>peer. list_ex (\<lambda>q. getPeer b q (tr_store t) = Some peer)
        (claim_peerId claims # view)) peers"
      unfolding list_all_iff list_ex_iff by blast
    then show ?thesis using assms(2) Some Cons by (simp add: listing_allowed_def)
  qed
qed

lemma peers_discreet: "discreet admin session (tr_hub t) (serve_peers admin session b segment t)"
proof (cases admin)
  case False
  then show ?thesis
    by (auto simp: serve_peers_def intro!: discreet_return visible_allowed dest: session_in_broadcast split: sum.split)
qed (simp add: discreet_def)

lemma broadcast_discreet: "discreet admin session (tr_hub t) (serve_broadcast admin session b t)"
proof (cases admin)
  case False
  then show ?thesis
    by (auto simp: serve_broadcast_def broadcast_of_def getBroadcast_def requireBroadcast_def
        intro!: discreet_return visible_allowed dest: session_in_broadcast split: sum.split option.splits)
qed (simp add: discreet_def)

lemma leave_discreet: "discreet admin session h (serve_leave env admin session b p now t)"
  by (auto simp: serve_leave_def intro!: discreet_return split: sum.split)

lemma reported_listed:
  "reportSegments b p segments replace now s = Inr (peer, s') \<Longrightarrow> getPeer b p s' = Some peer"
  "store_heartbeat b p hb now s = Inr (peer, s') \<Longrightarrow> getPeer b p s' = Some peer"
  by (auto simp: reportSegments_def store_heartbeat_def Let_def getPeer_entry entry_put
      dest: requirePeer_entry split: sum.splits)

lemma failure_listed:
  assumes "reportPeerFailure b p report now s = Inr (peer, s')"
  shows "getPeer b p s' = Some peer"
proof -
  have "getPeer b p (s\<lparr>ts_failureConsensus := c\<rparr>) = getPeer b p s" for c by (simp add: getPeer_def)
  then show ?thesis using assms
    by (auto simp: reportPeerFailure_def Let_def getPeer_entry entry_put
        dest!: requirePeer_entry split: sum.splits prod.splits if_splits)
qed

lemma segments_discreet:
  assumes "\<not> admin \<Longrightarrow> in_broadcast session b"
  shows "discreet admin session h (serve_segments env b p body now t)"
  using assms
  by (auto simp: serve_segments_def refused_def Let_def in_broadcast_def intro!: discreet_return
      dest!: reported_listed[THEN getPeer_listed] split: sum.split option.split prod.split)

lemma heartbeat_discreet:
  assumes "\<not> admin \<Longrightarrow> in_broadcast session b"
  shows "discreet admin session h (serve_heartbeat b p body now t)"
  using assms
  by (auto simp: serve_heartbeat_def in_broadcast_def intro!: discreet_return
      dest!: reported_listed[THEN getPeer_listed] split: sum.split)

lemma report_discreet: "discreet admin session h (serve_report admin session b p body now t)"
  by (auto simp: serve_report_def intro!: discreet_return dest!: session_in_broadcast
      dest: failure_listed[THEN getPeer_listed] split: sum.split option.split)

lemma stats_discreet: "discreet admin session h (serve_stats env b p body now t)"
  by (auto simp: serve_stats_def intro!: discreet_return split: sum.split)

lemma action_discreet: "discreet admin session h (serve_action env admin session action m b p body now t)"
  by (auto simp: serve_action_def Let_def report_discreet stats_discreet
      intro!: segments_discreet heartbeat_discreet intro: session_broadcast discreet_return split: sum.split)

lemma issue_discreet:
  assumes "getPeer b (peer_id peer) (tr_store t) = Some peer"
  shows "discreet admin session h (issue_session env b peer already now t)"
  using assms by (auto simp: issue_session_def intro!: discreet_return exI[of _ b] split: prod.split)

lemma join_discreet: "discreet admin session h (serve_join env admin session b body now t)"
proof (cases "parse_join env body")
  case (Inr join)
  let ?p = "join_id join" and ?limit = "Some (nat_number (ht_maxPeersPerBroadcast env))"
  show ?thesis
  proof (cases "joinPeerDetailed b join ?limit now (tr_store t)")
    case joined: (Inr r)
    obtain peer already store where r: "r = ((peer, already), store)" by (metis prod.exhaust)
    note shape = join_shape[OF joined[unfolded r]]
    have "map_get (ts_broadcasts (tr_store t)) b \<noteq> None"
      using joined by (auto simp: joinPeerDetailed_def requireBroadcast_def split: option.splits)
    then have "getPeer b (peer_id peer) store = Some peer"
      using shape(2,3) by (auto simp: getPeer_entry entry_put)
    then show ?thesis using joined
      by (auto simp: serve_join_def Inr Let_def r intro!: issue_discreet split: sum.split)
  qed (auto simp: serve_join_def Inr Let_def split: sum.split)
qed (simp add: serve_join_def)

lemma body_discreet:
  assumes "pr_route pending = RegisterRoute \<Longrightarrow> pr_hasAdminAccess pending"
  shows "discreet (pr_hasAdminAccess pending) (pr_session pending) h (serve_body env pending body now t)"
  using assms
  by (cases "pr_route pending") (simp_all add: serve_body_def action_discreet join_discreet, simp add: discreet_def)

section \<open>First turns\<close>

definition discreet_turn :: "bool \<Rightarrow> PeerSessionClaims option \<Rightarrow> 'g Hub \<Rightarrow> 'g turn \<Rightarrow> bool" where
  "discreet_turn admin session h turn = (case turn of
     Answered r t1 \<Rightarrow> discreet admin session h (r, t1) | AwaitsBody route t1 \<Rightarrow> True)"

lemma discreet_answered: "discreet admin session h r \<Longrightarrow> discreet_turn admin session h (answered r)"
  by (simp add: discreet_turn_def)

lemma discreet_wait: "discreet_turn admin session h (AwaitsBody route t1)"
  by (simp add: discreet_turn_def)

lemma discreet_fail: "discreet_turn admin session h (Answered (Inl e) t1)"
  by (simp add: discreet_turn_def)

lemma discreet_plain:
  "body = EmptyBody \<or> body = HealthBody \<or> body = RouteNotFound \<Longrightarrow>
     discreet_turn admin session h (Answered (return (respond status body)) t1)"
  by (auto simp: discreet_turn_def discreet_def)

lemma discreet_not_found: "discreet_turn admin session h (not_found t)"
  unfolding not_found_def by (rule discreet_plain) simp

lemma discreet_if:
  "discreet_turn admin session h x \<Longrightarrow> discreet_turn admin session h y \<Longrightarrow>
     discreet_turn admin session h (if c then x else y)"
  by simp

lemma discreet_allowed:
  "(\<And>x. check = Inr x \<Longrightarrow> discreet_turn admin session h (next_step x)) \<Longrightarrow>
     discreet_turn admin session h (when_allowed check t next_step)"
  by (cases check) (simp_all add: when_allowed_def discreet_fail)

lemma discreet_admin:
  "requireAdminAccess admin request = Inr x \<Longrightarrow> discreet_turn admin session h turn"
  by (drule admin_required) (simp add: discreet_turn_def discreet_def split: turn.split)

lemma discreet_administration:
  "discreet_turn admin session h (when_allowed (requireAdminAccess admin request) t next_step)"
  by (intro discreet_allowed) (erule discreet_admin)

lemma broadcast_route_discreet:
  fixes env :: "'g HttpEnv"
  shows "discreet_turn (hasAdminAccess env request) (request_session env request now) (tr_hub t)
    (route_broadcast env request httpMethod path segment now t)"
  unfolding route_broadcast_def Let_def
  by (cases "broadcast_route path"; simp only: broadcast_route.case;
      (rule discreet_administration discreet_if discreet_allowed discreet_not_found discreet_wait
        discreet_answered peers_discreet leave_discreet broadcast_discreet)+)

lemma route_discreet:
  "discreet_turn (hasAdminAccess env request) (request_session env request now) (tr_hub t)
    (route_request env i request httpMethod path segment now t)"
  unfolding route_request_def Let_def
  by (intro discreet_if discreet_allowed broadcast_route_discreet discreet_wait) (erule discreet_admin)+

lemma rate_hub: "consume_rate env request m now t = (r, t1) \<Longrightarrow> tr_hub t1 = tr_hub t"
  by (auto simp: consume_rate_def update_metrics_def split: if_splits prod.splits option.splits)

lemma turn_discreet:
  "discreet_turn (hasAdminAccess env request) (request_session env request now) (tr_hub t)
    (first_turn env i request path segment now t)"
proof -
  let ?m = "case rq_method request of None \<Rightarrow> ''GET'' | Some m \<Rightarrow> m"
  obtain r t1 where limit: "(if path = ''/health'' then (None, t) else consume_rate env request ?m now t) = (r, t1)"
    by fastforce
  have hub: "tr_hub t1 = tr_hub t" using limit by (auto dest: rate_hub split: if_splits)
  have route: "discreet_turn (hasAdminAccess env request) (request_session env request now) (tr_hub t)
      (route_request env i request ?m path segment now t1)"
    using route_discreet[of env request now t1 i ?m path segment] by (simp add: hub)
  show ?thesis unfolding first_turn_def Let_def limit
    by (cases r; intro discreet_if discreet_allowed)
      (simp_all add: discreet_plain discreet_fail route discreet_admin)
qed

end
