(* ===== verification/TrackerRuns.thy ===== *)
theory TrackerRuns
  imports TrackerDisclosure
begin

text \<open>
  The tracker over whole runs: what a request changes and discloses, which answers it gets, and what the
  collector counts.
\<close>

section \<open>Answers\<close>

lemma finish_fields [simp]:
  "tr_hub (finish_request i rest d r t) = tr_hub t"
  "tr_pending (finish_request i rest d r t) = tr_pending t"
  "tr_nextRequest (finish_request i rest d r t) = tr_nextRequest t"
  "tr_responses (finish_request i rest d r t) = tr_responses t @ [(i, error_response r)]"
  "tr_statsEvents (finish_request i rest d r t) = tr_statsEvents t"
  by (simp_all add: finish_request_def update_metrics_def Let_def)

lemma bookkeeping_fields:
  assumes "bookkeeping t' = bookkeeping t"
  shows "tr_pending t' = tr_pending t" "tr_nextRequest t' = tr_nextRequest t" "tr_responses t' = tr_responses t"
    "tm_httpAuthFailuresTotal (tr_metrics t') = tm_httpAuthFailuresTotal (tr_metrics t)"
    "tm_responsesByClass (tr_metrics t') = tm_responsesByClass (tr_metrics t)"
    "tm_requestDurationCount (tr_metrics t') = tm_requestDurationCount (tr_metrics t)"
    "tm_requestDurationBuckets (tr_metrics t') = tm_requestDurationBuckets (tr_metrics t)"
  using assms by (simp_all add: bookkeeping_def)

text \<open>The two shapes of a step of a request: it is answered, or it waits for its body.\<close>

lemma arrived_shape:
  obtains (answered) rest r t1 where
      "request_arrived env request now d t = finish_request (tr_nextRequest t) rest d r t1"
      "bookkeeping t1 = bookkeeping (t\<lparr>tr_nextRequest := tr_nextRequest t + 1\<rparr>)"
      "well_served ok (hasAdminAccess env request) (request_session env request now) t (r, t1)"
      "discreet (hasAdminAccess env request) (request_session env request now) (tr_hub t) (r, t1)"
  | (waits) pending t1 where
      "request_arrived env request now d t =
         t1\<lparr>tr_pending := map_set (tr_pending t) (tr_nextRequest t) pending\<rparr>"
      "bookkeeping t1 = bookkeeping (t\<lparr>tr_nextRequest := tr_nextRequest t + 1\<rparr>)"
      "tr_store t1 = tr_store t" "pr_hasAdminAccess pending = hasAdminAccess env request"
      "pr_session pending = request_session env request now"
      "pr_route pending = RegisterRoute \<longrightarrow> pr_hasAdminAccess pending"
proof (cases "ht_parseTarget env (case rq_url request of None \<Rightarrow> ''/'' | Some u \<Rightarrow> u)")
  case None
  then show ?thesis by (intro answered) (auto simp: request_arrived_def Let_def intro: served_throw)
next
  case (Some target)
  obtain path segment where target: "target = (path, segment)" by (cases target)
  let ?i = "tr_nextRequest t" and ?t = "t\<lparr>tr_nextRequest := tr_nextRequest t + 1\<rparr>"
  have turned: "well_turned ok (hasAdminAccess env request) (request_session env request now) t
      (first_turn env ?i request path segment now ?t)"
    using turn_turned[of ok env request now ?t ?i path segment] turned_cong[of ?t t] by simp
  have discreet: "discreet_turn (hasAdminAccess env request) (request_session env request now) (tr_hub t)
      (first_turn env ?i request path segment now ?t)"
    using turn_discreet[of env request now ?t ?i path segment] by simp
  have book: "bookkeeping (turn_state (first_turn env ?i request path segment now ?t)) = bookkeeping ?t"
    by (rule bookkeeping_turn)
  show ?thesis
  proof (cases "first_turn env ?i request path segment now ?t")
    case (Answered r t1)
    then show ?thesis using turned discreet book Some target
      by (intro answered) (simp_all add: request_arrived_def Let_def well_turned_def discreet_turn_def)
  next
    case (AwaitsBody route t1)
    moreover have "tr_pending t1 = tr_pending t"
      using bookkeeping_fields(1)[OF book[unfolded AwaitsBody turn_state.simps]] by simp
    ultimately show ?thesis using turned book Some target
      by (intro waits[of "\<lparr>pr_route = route, pr_isRest = starts_with path ''/api/'',
          pr_hasAdminAccess = hasAdminAccess env request, pr_session = request_session env request now\<rparr>" t1])
        (simp_all add: request_arrived_def Let_def well_turned_def)
  qed
qed

lemma body_shape:
  assumes "map_get (tr_pending t) i = Some pending"
    and "pr_route pending = RegisterRoute \<Longrightarrow> pr_hasAdminAccess pending" "ok \<longrightarrow> tokens_expire env now"
  obtains r t1 where "body_ended env i chunks ended now d t = finish_request i (pr_isRest pending) d r t1"
    "bookkeeping t1 = bookkeeping (t\<lparr>tr_pending := map_delete (tr_pending t) i\<rparr>)"
    "well_served ok (pr_hasAdminAccess pending) (pr_session pending) t (r, t1)"
    "discreet (pr_hasAdminAccess pending) (pr_session pending) (tr_hub t) (r, t1)"
proof -
  let ?t = "t\<lparr>tr_pending := map_delete (tr_pending t) i\<rparr>"
  show ?thesis
  proof (cases "readJson (ht_parseJson env) chunks ended")
    case None
    then show ?thesis using assms(1) by (intro that) (auto simp: body_ended_def Let_def intro: served_throw)
  next
    case (Some result)
    show ?thesis
    proof (cases result)
      case (Inl e)
      then show ?thesis using assms(1) Some by (intro that) (auto simp: body_ended_def Let_def intro: served_throw)
    next
      case (Inr body)
      obtain r t1 where served: "serve_body env pending body now ?t = (r, t1)" by (cases "serve_body env pending body now ?t")
      have "well_served ok (pr_hasAdminAccess pending) (pr_session pending) ?t (r, t1)"
        using body_served[of ok env now pending ?t body] assms(2,3) by (simp add: served)
      then have "well_served ok (pr_hasAdminAccess pending) (pr_session pending) t (r, t1)"
        by (simp add: well_served_def)
      moreover have "discreet (pr_hasAdminAccess pending) (pr_session pending) (tr_hub t) (r, t1)"
        using body_discreet[of pending "tr_hub t" env body now ?t] assms(2) by (simp add: served)
      moreover have "bookkeeping t1 = bookkeeping ?t" using bookkeeping_body[of env pending body now ?t] by (simp add: served)
      ultimately show ?thesis using assms(1) Some Inr served
        by (intro that) (simp_all add: body_ended_def Let_def)
    qed
  qed
qed

section \<open>Invariants\<close>

text \<open>Only an administrator's request waits to register a broadcast.\<close>

definition pending_ok :: "'g Tracker \<Rightarrow> bool" where
  "pending_ok t \<longleftrightarrow> (\<forall>i pending. map_get (tr_pending t) i = Some pending \<longrightarrow>
     pr_route pending = RegisterRoute \<longrightarrow> pr_hasAdminAccess pending)"

text \<open>Every request so far is waiting for its body or has one answer.\<close>

definition requests_ok :: "'g Tracker \<Rightarrow> bool" where
  "requests_ok t \<longleftrightarrow> wf_map (tr_pending t) \<and> distinct (map fst (tr_responses t) @ map_keys (tr_pending t)) \<and>
     set (map fst (tr_responses t) @ map_keys (tr_pending t)) = {..<tr_nextRequest t}"

definition refusals :: "'g Tracker \<Rightarrow> nat" where
  "refusals t = length (filter (\<lambda>(i, r). rs_status r = 401 \<or> rs_status r = 403) (tr_responses t))"

definition statistics_ok :: "'g Tracker \<Rightarrow> bool" where
  "statistics_ok t \<longleftrightarrow> histogram_ok (tr_metrics t) \<and> tm_httpAuthFailuresTotal (tr_metrics t) = refusals t \<and>
     sum_list (map_values (tm_responsesByClass (tr_metrics t))) = tm_requestDurationCount (tr_metrics t)"

definition tracker_ok :: "'g Tracker \<Rightarrow> bool" where
  "tracker_ok t \<longleftrightarrow> pending_ok t \<and> requests_ok t \<and> statistics_ok t"

lemma tracker_ok_book:
  assumes "bookkeeping t' = bookkeeping t"
  shows "tracker_ok t' = tracker_ok t"
  using bookkeeping_fields[OF assms]
  by (simp add: tracker_ok_def pending_ok_def requests_ok_def statistics_ok_def histogram_ok_def refusals_def)

lemma sum_count_one:
  "sum_list (map_values (map_set m k ((case map_get m k of None \<Rightarrow> 0 | Some n \<Rightarrow> n) + 1))) =
     Suc (sum_list (map_values m))"
  by (induction m) auto

lemma finish_statistics:
  assumes "statistics_ok t"
  shows "statistics_ok (finish_request i rest d r t)"
proof -
  let ?status = "rs_status (error_response r)"
  let ?m = "observeResponse ?status rest (tr_metrics t)"
  let ?m' = "if rest then observeRestRequest d ?m else ?m"
  have m: "tr_metrics (finish_request i rest d r t) = ?m'"
    by (simp add: finish_request_def update_metrics_def Let_def)
  have "histogram_ok ?m'" using assms histogram_observe histogram_kept(1) by (auto simp: statistics_ok_def)
  moreover have "tm_httpAuthFailuresTotal ?m' = refusals (finish_request i rest d r t)"
    using assms by (simp add: statistics_ok_def refusals_def observeResponse_def observeRestRequest_def Let_def)
  moreover have "sum_list (map_values (tm_responsesByClass ?m')) = tm_requestDurationCount ?m'"
    using assms sum_count_one[of "nat_string (?status div 100) @ ''xx''" "tm_responsesByClass (tr_metrics t)"]
    by (simp add: statistics_ok_def observeResponse_def observeRestRequest_def Let_def)
  ultimately show ?thesis by (simp add: statistics_ok_def m)
qed

lemma finish_ok:
  assumes ok: "pending_ok t1" "statistics_ok t1" and wf: "wf_map (tr_pending t1)"
    and fresh: "distinct (i # map fst (tr_responses t1) @ map_keys (tr_pending t1))"
    and ids: "insert i (set (map fst (tr_responses t1) @ map_keys (tr_pending t1))) = {..<tr_nextRequest t1}"
  shows "tracker_ok (finish_request i rest d r t1)"
  unfolding tracker_ok_def
proof (intro conjI finish_statistics ok)
  show "pending_ok (finish_request i rest d r t1)" using ok(1) by (simp add: pending_ok_def)
  show "requests_ok (finish_request i rest d r t1)" using wf fresh ids by (auto simp: requests_ok_def)
qed

lemma request_ok:
  fixes t :: "'g Tracker"
  assumes "tracker_ok t"
  shows "tracker_ok (request_arrived env request now d t)"
proof -
  let ?i = "tr_nextRequest t" and ?t = "t\<lparr>tr_nextRequest := tr_nextRequest t + 1\<rparr>"
  have p: "pending_ok t" and s: "statistics_ok t" and wf: "wf_map (tr_pending t)"
    and d: "distinct (map fst (tr_responses t) @ map_keys (tr_pending t))"
    and ids: "set (map fst (tr_responses t) @ map_keys (tr_pending t)) = {..<?i}"
    using assms by (simp_all add: tracker_ok_def requests_ok_def)
  have fresh: "?i \<notin> set (map fst (tr_responses t) @ map_keys (tr_pending t))" unfolding ids by simp
  have lift: "pending_ok t1 = pending_ok t" "statistics_ok t1 = statistics_ok t"
    if "bookkeeping t1 = bookkeeping ?t" for t1
    using bookkeeping_fields[OF that] by (simp_all add: pending_ok_def statistics_ok_def histogram_ok_def refusals_def)
  show ?thesis
  proof (cases rule: arrived_shape[of env request now d t False])
    case (answered rest r t1)
    note f = bookkeeping_fields[OF answered(2)]
    show ?thesis unfolding answered(1)
      using p s wf d fresh ids lift[OF answered(2)] by (intro finish_ok) (auto simp: f lessThan_Suc)
  next
    case (waits pending t1)
    note f = bookkeeping_fields[OF waits(2)]
    let ?t' = "t1\<lparr>tr_pending := map_set (tr_pending t) ?i pending\<rparr>"
    have set_end: "map_set (tr_pending t) ?i pending = tr_pending t @ [(?i, pending)]"
      using fresh by (intro set_fresh) simp
    have "pending_ok ?t'" using p waits(6) by (simp add: pending_ok_def get_set)
    moreover have "statistics_ok ?t'" using s lift(2)[OF waits(2)]
      by (simp add: statistics_ok_def refusals_def)
    moreover have "requests_ok ?t'" using wf d fresh ids f
      by (auto simp: requests_ok_def set_end lessThan_Suc wf_map_set[OF wf, of ?i pending, unfolded set_end])
    ultimately show ?thesis by (simp add: tracker_ok_def waits(1))
  qed
qed

lemma body_ok:
  fixes t :: "'g Tracker"
  assumes "tracker_ok t"
  shows "tracker_ok (body_ended env i chunks ended now d t)"
proof (cases "map_get (tr_pending t) i")
  case None
  then show ?thesis using assms by (simp add: body_ended_def)
next
  case (Some pending)
  let ?t = "t\<lparr>tr_pending := map_delete (tr_pending t) i\<rparr>"
  have p: "pending_ok t" and s: "statistics_ok t" and wf: "wf_map (tr_pending t)"
    and d: "distinct (map fst (tr_responses t) @ map_keys (tr_pending t))"
    and ids: "set (map fst (tr_responses t) @ map_keys (tr_pending t)) = {..<tr_nextRequest t}"
    using assms by (simp_all add: tracker_ok_def requests_ok_def)
  have key: "i \<in> set (map_keys (tr_pending t))" using Some by (metis domI dom_map_of_conv_image_fst set_map)
  have admin: "pr_route pending = RegisterRoute \<Longrightarrow> pr_hasAdminAccess pending"
    using p Some by (auto simp: pending_ok_def)
  obtain r t1 where shape: "body_ended env i chunks ended now d t = finish_request i (pr_isRest pending) d r t1"
    and book: "bookkeeping t1 = bookkeeping ?t"
    by (rule body_shape[OF Some admin, of False env now chunks ended d]) auto
  note f = bookkeeping_fields[OF book]
  have "pending_ok t1" using p by (auto simp: pending_ok_def f get_delete)
  moreover have "statistics_ok t1" using s by (simp add: statistics_ok_def histogram_ok_def refusals_def f)
  ultimately show ?thesis unfolding shape
    using wf d ids key by (intro finish_ok) (auto simp: f keys_delete distinct_removeAll)
qed

lemma sse_and_hub_book [simp]:
  "bookkeeping (hub_event env e t) = bookkeeping t"
  "bookkeeping (expire_leases env parse_date now bs t) = bookkeeping t"
  "bookkeeping (server_removeStalePeers env parse_date stalePeerMs now t) = bookkeeping t"
proof -
  show "bookkeeping (hub_event env e t) = bookkeeping t"
    by (auto simp: hub_event_def Let_def split: hub_event.split)
  have expire: "bookkeeping (expire_leases env parse_date now bs t) = bookkeeping t" for bs and t :: "'a Tracker"
    by (induction bs arbitrary: t) (simp_all split: sum.split)
  then show "bookkeeping (expire_leases env parse_date now bs t) = bookkeeping t" .
  have "bookkeeping (fold (\<lambda>(b, p). event_peerLeft env b p now) removed t) = bookkeeping t" for removed and t :: "'a Tracker"
    by (induction removed arbitrary: t) auto
  then show "bookkeeping (server_removeStalePeers env parse_date stalePeerMs now t) = bookkeeping t"
    by (simp add: server_removeStalePeers_def Let_def expire split: prod.split)
qed

interpretation tracker: kept_by_steps "tracker_step env parse_date stalePeerMs" tracker_ok
proof
  fix t :: "'a Tracker" and e
  assume ok: "tracker_ok t"
  show "tracker_ok (tracker_step env parse_date stalePeerMs e t)"
    by (cases e) (simp_all add: ok request_ok body_ok tracker_ok_book[of _ t])
qed

lemma new_tracker_ok: "tracker_ok (new_tracker store viewSize rps burst start g)"
  by (simp add: tracker_ok_def pending_ok_def requests_ok_def statistics_ok_def new_tracker_def refusals_def
      histogram_new) (simp add: new_metrics_def)

definition tracker_run ::
    "'g HttpEnv \<Rightarrow> (string \<Rightarrow> int option) \<Rightarrow> int \<Rightarrow> tracker_event list \<Rightarrow> TrackerStore \<Rightarrow> nat \<Rightarrow>
     number \<Rightarrow> number \<Rightarrow> int \<Rightarrow> 'g \<Rightarrow> 'g Tracker" where
  "tracker_run env parse_date stalePeerMs events store viewSize rps burst start g =
     fold (tracker_step env parse_date stalePeerMs) events (new_tracker store viewSize rps burst start g)"

lemma run_snoc: "tracker_run env parse_date stale (events @ [e]) store viewSize rps burst start g =
    tracker_step env parse_date stale e (tracker_run env parse_date stale events store viewSize rps burst start g)"
  by (simp add: tracker_run_def)

lemma tracker_run_ok:
  "tracker_ok (tracker_run env parse_date stalePeerMs events store viewSize rps burst start g)"
  unfolding tracker_run_def by (rule tracker.run[OF new_tracker_ok])

section \<open>Access\<close>

text \<open>The session a step of a request acts for, unless its caller is an administrator; a body nobody waits for
  acts for none. \<open>answers_since\<close> are the answers given between two states.\<close>

fun acting :: "'g HttpEnv \<Rightarrow> tracker_event \<Rightarrow> 'g Tracker \<Rightarrow> PeerSessionClaims option option" where
  "acting env (RequestArrived request now d) t =
     (if hasAdminAccess env request then None else Some (request_session env request now))"
| "acting env (BodyEnded i chunks ended now d) t = (case map_get (tr_pending t) i of
     None \<Rightarrow> Some None
   | Some pending \<Rightarrow> if pr_hasAdminAccess pending then None else Some (pr_session pending))"
| "acting env e t = None"

fun event_time :: "tracker_event \<Rightarrow> int" where
  "event_time (RequestArrived request now d) = now"
| "event_time (BodyEnded i chunks ended now d) = now"
| "event_time e = 0"

definition answers_since :: "'g Tracker \<Rightarrow> 'g Tracker \<Rightarrow> (nat \<times> HttpResponse) list" where
  "answers_since t t' = drop (length (tr_responses t)) (tr_responses t')"

lemma answers_finish:
  "tr_responses t1 = tr_responses t \<Longrightarrow> answers_since t (finish_request i rest d r t1) = [(i, error_response r)]"
  by (simp add: answers_since_def)

lemma body_admin:
  "tracker_ok t \<Longrightarrow> map_get (tr_pending t) i = Some pending \<Longrightarrow> pr_route pending = RegisterRoute \<Longrightarrow> pr_hasAdminAccess pending"
  unfolding tracker_ok_def pending_ok_def by blast

lemma step_within:
  assumes "tracker_ok t" "acting env e t = Some session"
  shows "within_session session (tr_store t) (tr_store (tracker_step env parse_date stale e t))"
proof (cases e)
  case (RequestArrived request now d)
  show ?thesis using assms(2) unfolding RequestArrived
    by (cases rule: arrived_shape[of env request now d t False])
      (auto simp: well_served_def split: if_splits)
next
  case (BodyEnded i chunks ended now d)
  show ?thesis
  proof (cases "map_get (tr_pending t) i")
    case (Some pending)
    obtain r t1 where "body_ended env i chunks ended now d t = finish_request i (pr_isRest pending) d r t1"
      "well_served False (pr_hasAdminAccess pending) (pr_session pending) t (r, t1)"
      by (rule body_shape[OF Some body_admin[OF assms(1) Some], of False env now chunks ended d]) auto
    then show ?thesis using assms(2) Some BodyEnded by (auto simp: well_served_def split: if_splits)
  qed (simp add: BodyEnded body_ended_def)
qed (use assms(2) in simp_all)

lemma step_discreet:
  assumes "tracker_ok t" "acting env e t = Some session" and t': "t' = tracker_step env parse_date stale e t"
  shows "list_all (\<lambda>(i, response). disclosed session (tr_hub t) (tr_store t') (rs_body response)) (answers_since t t')"
proof (cases e)
  case (RequestArrived request now d)
  note t' = t'[unfolded RequestArrived tracker_step.simps]
  have acts: "\<not> hasAdminAccess env request" "session = request_session env request now"
    using assms(2) by (simp_all add: RequestArrived split: if_splits)
  show ?thesis
  proof (cases rule: arrived_shape[of env request now d t False])
    case (answered rest r t1)
    note f = bookkeeping_fields[OF answered(2)]
    show ?thesis unfolding t' answered(1) using answered(4) acts f(3)
      by (cases r) (auto simp: discreet_def error_response_def answers_finish)
  next
    case (waits pending t1)
    show ?thesis unfolding t' waits(1) using bookkeeping_fields[OF waits(2)] by (simp add: answers_since_def)
  qed
next
  case (BodyEnded i chunks ended now d)
  note t' = t'[unfolded BodyEnded tracker_step.simps]
  show ?thesis
  proof (cases "map_get (tr_pending t) i")
    case (Some pending)
    obtain r t1 where shape: "body_ended env i chunks ended now d t = finish_request i (pr_isRest pending) d r t1"
      and book: "bookkeeping t1 = bookkeeping (t\<lparr>tr_pending := map_delete (tr_pending t) i\<rparr>)"
      and discreet: "discreet (pr_hasAdminAccess pending) (pr_session pending) (tr_hub t) (r, t1)"
      by (rule body_shape[OF Some body_admin[OF assms(1) Some], of False env now chunks ended d]) auto
    have acts: "\<not> pr_hasAdminAccess pending" "session = pr_session pending"
      using assms(2) by (simp_all add: BodyEnded Some split: if_splits)
    show ?thesis unfolding t' shape using discreet acts bookkeeping_fields(3)[OF book]
      by (cases r) (auto simp: discreet_def error_response_def answers_finish)
  qed (simp add: t' body_ended_def answers_since_def)
qed (use assms(2) in simp_all)

lemma step_refused:
  assumes "tracker_ok t" "tokens_expire env (event_time e)" and t': "t' = tracker_step env parse_date stale e t"
  shows "list_all (\<lambda>(i, response). rs_status response < 400 \<or> tr_store t' = tr_store t) (answers_since t t')"
proof (cases e)
  case (RequestArrived request now d)
  note t' = t'[unfolded RequestArrived tracker_step.simps]
  show ?thesis
  proof (cases rule: arrived_shape[of env request now d t True])
    case (answered rest r t1)
    show ?thesis unfolding t' answered(1) using answered(3) bookkeeping_fields(3)[OF answered(2)]
      by (auto simp: well_served_def refused_result_def answers_finish not_le)
  next
    case (waits pending t1)
    show ?thesis unfolding t' waits(1) using bookkeeping_fields[OF waits(2)] by (simp add: answers_since_def)
  qed
next
  case (BodyEnded i chunks ended now d)
  note t' = t'[unfolded BodyEnded tracker_step.simps]
  have time: "True \<longrightarrow> tokens_expire env now" using assms(2) by (simp add: BodyEnded)
  show ?thesis
  proof (cases "map_get (tr_pending t) i")
    case (Some pending)
    obtain r t1 where shape: "body_ended env i chunks ended now d t = finish_request i (pr_isRest pending) d r t1"
      and book: "bookkeeping t1 = bookkeeping (t\<lparr>tr_pending := map_delete (tr_pending t) i\<rparr>)"
      and served: "well_served True (pr_hasAdminAccess pending) (pr_session pending) t (r, t1)"
      by (rule body_shape[OF Some body_admin[OF assms(1) Some] time, of chunks ended d]) auto
    show ?thesis unfolding t' shape using served bookkeeping_fields(3)[OF book]
      by (auto simp: well_served_def refused_result_def answers_finish not_le)
  qed (simp add: t' body_ended_def answers_since_def)
next
  case (HubInput he)
  then show ?thesis using t' bookkeeping_fields(3)[of "hub_event env he t" t] by (simp add: answers_since_def)
next
  case (CleanupTimer now)
  then show ?thesis using t' bookkeeping_fields(3)[of "server_removeStalePeers env parse_date stale now t" t]
    by (simp add: answers_since_def)
qed (use t' in \<open>simp_all add: answers_since_def\<close>)

section \<open>Theorems\<close>

text \<open>C6: Whatever has happened before, a request without the API key changes the store only for its session: it
  changes or removes no peer but the one its session names, except for the quality values of peers of the session's
  broadcast (failure reports); it may add peers that were not there; it never changes a broadcast.\<close>

theorem rest_acts_for_session:
  "case acting env e (tracker_run env parse_date stale events store viewSize rps burst start g) of
     None \<Rightarrow> True
   | Some session \<Rightarrow> within_session session
       (tr_store (tracker_run env parse_date stale events store viewSize rps burst start g))
       (tr_store (tracker_run env parse_date stale (events @ [e]) store viewSize rps burst start g))"
  using step_within[OF tracker_run_ok] by (auto simp: run_snoc split: option.split)


text \<open>C32: A request answered with an error status leaves the store as it was, as long as the tokens the tracker
  issues expire at a date that can be represented.\<close>

theorem refused_requests_keep_store:
  assumes "tokens_expire env (event_time e)"
  shows "let run = (\<lambda>events. tracker_run env parse_date stale events store viewSize rps burst start g) in
    list_all (\<lambda>(i, response). rs_status response < 400 \<or> tr_store (run (events @ [e])) = tr_store (run events))
    (answers_since (run events) (run (events @ [e])))"
  using step_refused[OF tracker_run_ok assms refl] by (simp add: Let_def run_snoc)



definition sample_http_env :: "nat HttpEnv" where
  "sample_http_env = \<lparr>ht_hub = sample_hub_env, ht_sse = \<lparr>sv_minIntervalMs = 1000, sv_gone = (\<lambda>_. False),
     sv_needDrain = (\<lambda>_. False)\<rparr>, ht_apiKey = Some ''key'', ht_turn = None, ht_maxPeersPerBroadcast = 500,
     ht_parseTarget = (\<lambda>u. Some (u, None)), ht_parseUrl = (\<lambda>u. Some \<lparr>protocol = ''http:'', username = [],
       password = [], hostname = u, pathname = ''/'', search = [], url_hash = []\<rparr>),
     ht_parseJson = (\<lambda>_. None), ht_textOf = map char_of, ht_encodeJson = (\<lambda>_. ''x''),
     ht_hmacSha1 = (\<lambda>_ p. p), ht_dashboard = None, ht_showNumber = (\<lambda>_. ''0''), ht_eventLoopDelay = None\<rparr>"

definition sample_request :: "string \<Rightarrow> string \<Rightarrow> HttpRequest" where
  "sample_request httpMethod url = \<lparr>rq_method = Some httpMethod, rq_url = Some url, rq_apiKey = NoHeader,
     rq_authorization = NoHeader, rq_forwardedFor = NoHeader, rq_remoteAddress = Some ''10.0.0.1''\<rparr>"

theorem refused_requests_keep_store_witness:
  "let run = (\<lambda>events. tracker_run sample_http_env (\<lambda>_. None) 30000 events (new_store 8) 0 (Num 100) (Num 200) 0 0);
       e = RequestArrived (sample_request ''GET'' ''/x'') 5 1 in
   list_all (\<lambda>(i, response). rs_status response < 400 \<or> tr_store (run ([] @ [e])) = tr_store (run []))
     (answers_since (run []) (run ([] @ [e])))"
  using refused_requests_keep_store[of sample_http_env "RequestArrived (sample_request ''GET'' ''/x'') 5 1"
      "\<lambda>_. None" 30000 "new_store 8" 0 "Num 100" "Num 200" 0 0 "[]"]
  by (simp add: tokens_expire_def sample_http_env_def sample_hub_env_def sample_service_def MAX_DATE_MS_def)

section \<open>Observations\<close>

text \<open>A report that adds segments over REST is announced to the viewers as the whole inventory of the peer.\<close>

lemma additive_report_announced_as_replacement:
  assumes "serve_segments env b p body now t = (return response, t')" "getPeer b p (tr_store t) = Some peer"
    and "rest_optionalBoolean body ''replace'' \<noteq> return (Some True)"
  shows "\<exists>segments h. segmentIdList (get_prop body ''segments'') = Some segments \<and>
    map_option peer_segments (getPeer b p (tr_store t')) =
      Some (limitInventory (new_set (peer_segments peer @ segments)) (ts_maxSegmentsPerPeer (tr_store t))
        MAX_INVENTORY_CHARACTERS_PER_PEER) \<and>
    tr_hub t' = publishInventory (ht_hub env) (SegmentAvailable b p segments True) h"
proof -
  obtain replace segments limiter peer' store where
    replace: "rest_optionalBoolean body ''replace'' = return replace"
    and segments: "segmentIdList (get_prop body ''segments'') = Some segments"
    and report: "reportSegments b p segments (case replace of None \<Rightarrow> False | Some r \<Rightarrow> r) now (tr_store t) = Inr (peer', store)"
    and t': "t' = event_segmentsAvailable env b p segments
        (update_store store (t\<lparr>tr_hub := (tr_hub t)\<lparr>wh_inventoryLimiter := limiter\<rparr>\<rparr>))"
    using assms(1) by (auto simp: serve_segments_def refused_def Let_def split: sum.splits option.splits prod.splits if_splits)
  have additive: "\<not> (case replace of None \<Rightarrow> False | Some r \<Rightarrow> r)"
    using assms(3) replace by (cases replace) auto
  have "peer_segments peer' = limitInventory (new_set (peer_segments peer @ segments)) (ts_maxSegmentsPerPeer (tr_store t))
      MAX_INVENTORY_CHARACTERS_PER_PEER"
    using report additive assms(2)
    by (auto simp: reportSegments_def Let_def getPeer_entry dest!: requirePeer_entry split: sum.splits)
  moreover have "map_option peer_segments (getPeer b p (tr_store t')) = Some (peer_segments peer')" using reported_listed(1)[OF report] by (simp add: t')
  moreover have "tr_hub t' = publishInventory (ht_hub env) (SegmentAvailable b p segments True)
      (tr_hub (update_store store (t\<lparr>tr_hub := (tr_hub t)\<lparr>wh_inventoryLimiter := limiter\<rparr>\<rparr>)))"
    by (simp add: t' event_segmentsAvailable_def segmentsAvailable_def)
  ultimately show ?thesis using segments by metis
qed

text \<open>With a token lifetime beyond the last date, which the configuration accepts, a join registers its peer and
  is answered with status 500.\<close>

lemma endless_sessions_break_joins:
  assumes "\<not> tokens_expire env now" "parse_join env body = return join" "getPeer b (join_id join) (tr_store t) = None"
    and "joinPeerDetailed b join (Some (nat_number (ht_maxPeersPerBroadcast env))) now (tr_store t) = Inr ((peer, already), store)"
  shows "fst (serve_join env admin session b body now t) = throw InternalError \<and>
    tr_store (snd (serve_join env admin session b body now t)) = store"
proof -
  have "\<not> already" using join_shape(1)[OF assms(4)] assms(3) by simp
  then show ?thesis using assms
    by (auto simp: serve_join_def issue_session_def tokens_expire_def Let_def dest: issue_expires split: prod.split)
qed

end
