(* ===== verification/TrackerStoreRuns.thy ===== *)
theory TrackerStoreRuns
  imports TrackerRuns TrackerSpec
begin

text \<open>
  The store inside the tracker: whatever requests, socket messages and cleanups the tracker serves, its store goes
  through a sequence of store operations, so that the invariants of the store hold of the whole tracker.
\<close>

section \<open>Sequences of store operations\<close>

definition store_runs :: "nat \<Rightarrow> TrackerStore \<Rightarrow> TrackerStore \<Rightarrow> bool" where
  "store_runs n s s' \<longleftrightarrow> (\<exists>ops. list_all (\<lambda>op. joins_within n (fst op)) ops \<and> s' = fold run_store_op ops s)"

lemma runs_refl [simp]: "store_runs n s s"
  unfolding store_runs_def by (rule exI[of _ "[]"]) simp

lemma runs_trans:
  assumes "store_runs n s s1" "store_runs n s1 s2"
  shows "store_runs n s s2"
proof -
  obtain ops1 ops2 where "list_all (\<lambda>op. joins_within n (fst op)) ops1" "s1 = fold run_store_op ops1 s"
    "list_all (\<lambda>op. joins_within n (fst op)) ops2" "s2 = fold run_store_op ops2 s1"
    using assms unfolding store_runs_def by blast
  then show ?thesis unfolding store_runs_def by (intro exI[of _ "ops1 @ ops2"]) simp
qed

lemma runs_op: "joins_within n (fst op) \<Longrightarrow> store_runs n s (run_store_op op s)"
  unfolding store_runs_def by (rule exI[of _ "[op]"]) simp

lemma runs_ops:
  "store_runs n s (snd (registerBroadcast registration now s))"
  "unregisterBroadcast b s = Inr s' \<Longrightarrow> store_runs n s s'"
  "joinPeerDetailed b request (Some (nat_number n)) now s = Inr (r, s') \<Longrightarrow> store_runs n s s'"
  "leavePeer b p s = Inr s' \<Longrightarrow> store_runs n s s'"
  "reportSegments b p segments replace now s = Inr (peer, s') \<Longrightarrow> store_runs n s s'"
  "applySegmentDelta b p added removed now s = Inr (peer, s') \<Longrightarrow> store_runs n s s'"
  "store_heartbeat b p heartbeat now s = Inr (peer, s') \<Longrightarrow> hb_successRate heartbeat \<noteq> Some NaN \<Longrightarrow> store_runs n s s'"
  "reportStats b p stats now s = Inr s' \<Longrightarrow> store_runs n s s'"
  "reportPeerFailure b p report now s = Inr (peer, s') \<Longrightarrow> store_runs n s s'"
  "store_runs n s (snd (removeStalePeers age now s))"
  using runs_op[of n "(RegisterOp registration, now)" s] runs_op[of n "(UnregisterOp b, now)" s]
    runs_op[of n "(JoinOp b request (Some (nat_number n)), now)" s] runs_op[of n "(LeaveOp b p, now)" s]
    runs_op[of n "(SegmentsOp b p segments replace, now)" s] runs_op[of n "(DeltaOp b p added removed, now)" s]
    runs_op[of n "(HeartbeatOp b p heartbeat, now)" s] runs_op[of n "(StatsOp b p stats, now)" s]
    runs_op[of n "(FailureOp b p report, now)" s] runs_op[of n "(SweepOp age, now)" s]
  by (simp_all add: kept_def)

section \<open>Requests\<close>

lemma unit_interval_number: "rest_optionalUnitInterval body key = return v \<Longrightarrow> v \<noteq> Some NaN"
  using unit_interval_accepts[of body key NaN] by auto

lemma heartbeat_runs:
  "rest_optionalUnitInterval body key = return rate \<Longrightarrow>
     store_heartbeat b p \<lparr>hb_latencyMs = latency, hb_uploadBandwidthBps = bandwidth, hb_successRate = rate\<rparr> now s =
       Inr (peer, s') \<Longrightarrow> store_runs n s s'"
  by (rule runs_ops(7)) (auto dest: unit_interval_number)

definition serves :: "nat \<Rightarrow> 'g Tracker \<Rightarrow> 'g served \<Rightarrow> bool" where
  "serves n t r \<longleftrightarrow> store_runs n (tr_store t) (tr_store (snd r))"

lemma serves_same [simp]: "serves n t (r, t)"
  by (simp add: serves_def)

lemma serves_refused [simp]: "serves n t (refused e t)"
  by (simp add: refused_def)

lemma heartbeat_serves: "serves n t (serve_heartbeat b p body now t)"
  by (auto simp: serve_heartbeat_def and_then_return serves_def refused_def
      intro: heartbeat_runs split: sum.split)

lemma actions_serve:
  "serves n t (serve_segments env b p body now t)"
  "serves n t (serve_stats env b p body now t)"
  "serves n t (serve_report admin session b p body now t)"
  by (auto simp: serve_segments_def serve_stats_def serve_report_def refused_def serves_def Let_def
      intro: runs_ops split: sum.split option.split prod.split)

lemma action_serves: "serves n t (serve_action env admin session action m b p body now t)"
  by (simp add: serve_action_def Let_def heartbeat_serves actions_serve split: sum.split)

lemma join_serves: "serves (ht_maxPeersPerBroadcast env) t (serve_join env admin session b body now t)"
  by (auto simp: serve_join_def serves_def refused_def Let_def issue_store
      intro: runs_ops(3) split: sum.split prod.split)

lemma register_serves: "serves n t (serve_register env body now t)"
proof -
  have "store_runs n (tr_store t) store" if "registerBroadcast r now (tr_store t) = (x, store)" for r x store
    using runs_ops(1)[of n "tr_store t" r now] that by simp
  then show ?thesis
    by (auto simp: serve_register_def serves_def refused_def Let_def split: sum.split prod.split)
qed

lemma body_serves: "serves (ht_maxPeersPerBroadcast env) t (serve_body env pending body now t)"
  by (simp add: serve_body_def action_serves join_serves register_serves split: body_route.split)

definition turn_serves :: "nat \<Rightarrow> 'g Tracker \<Rightarrow> 'g turn \<Rightarrow> bool" where
  "turn_serves n t turn \<longleftrightarrow> store_runs n (tr_store t) (tr_store (turn_state turn))"

lemma turn_serves_allowed:
  "(\<And>x. turn_serves n t (next_step x)) \<Longrightarrow> turn_serves n t (when_allowed check t next_step)"
  by (cases check) (simp_all add: when_allowed_def turn_serves_def)

lemma turn_serves_if:
  "turn_serves n t x \<Longrightarrow> turn_serves n t y \<Longrightarrow> turn_serves n t (if c then x else y)"
  by simp

lemma turn_serves_plain: "turn_serves n t (Answered r t)" "turn_serves n t (AwaitsBody route t)"
    "turn_serves n t (Answered r (t\<lparr>tr_statsEvents := e\<rparr>))" "turn_serves n t (not_found t)"
  by (simp_all add: turn_serves_def not_found_def)

lemma turn_serves_leave: "turn_serves n t (answered (serve_leave env admin session b p now t))"
  by (auto simp: turn_serves_def serve_leave_def intro: runs_ops(4) split: sum.split)

lemma turn_serves_unregister: "turn_serves n t (answered (serve_unregister env b now t))"
  by (auto simp: turn_serves_def serve_unregister_def Let_def intro: runs_ops(2) split: sum.split)

lemma turn_serves_reads:
  "turn_serves n t (answered (serve_peers admin session b segment t))"
  "turn_serves n t (answered (serve_broadcast admin session b t))"
  "turn_serves n t (answered (serve_metrics env now t))"
  by (simp_all add: turn_serves_def serve_peers_def serve_broadcast_def serve_metrics_def split: sum.split prod.split)

lemma broadcast_turn_serves: "turn_serves n t (route_broadcast env request m path segment now t)"
  unfolding route_broadcast_def Let_def
  by (cases "broadcast_route path"; simp only: broadcast_route.case;
      (rule turn_serves_if turn_serves_allowed turn_serves_plain turn_serves_leave turn_serves_unregister
        turn_serves_reads)+)

lemma route_turn_serves: "turn_serves n t (route_request env i request m path segment now t)"
  unfolding route_request_def Let_def
  by (rule turn_serves_if turn_serves_allowed turn_serves_plain broadcast_turn_serves)+

lemma first_turn_serves: "turn_serves n t (first_turn env i request path segment now t)"
proof -
  let ?m = "case rq_method request of None \<Rightarrow> ''GET'' | Some m \<Rightarrow> m"
  obtain r t1 where limit: "(if path = ''/health'' then (None, t) else consume_rate env request ?m now t) = (r, t1)"
    by fastforce
  have store: "tr_store t1 = tr_store t" using limit by (auto dest: rate_store split: if_splits)
  have route: "turn_serves n t (route_request env i request ?m path segment now t1)"
    "turn_serves n t (Answered e t1)" for e
    using route_turn_serves[of n t1 env i request ?m path segment now] by (simp_all add: turn_serves_def store)
  show ?thesis unfolding first_turn_def Let_def limit
    by (cases r; simp only: prod.case option.case;
        (rule turn_serves_if turn_serves_allowed turn_serves_plain turn_serves_reads route)+)
qed

lemma arrived_serves: "store_runs n (tr_store t) (tr_store (request_arrived env request now d t))"
  using first_turn_serves[of n "t\<lparr>tr_nextRequest := tr_nextRequest t + 1\<rparr>" env "tr_nextRequest t" request]
  by (auto simp: request_arrived_def Let_def turn_serves_def split: option.split prod.split turn.split)
    (metis turn_state.simps)+

lemma body_ended_serves:
  "store_runs (ht_maxPeersPerBroadcast env) (tr_store t) (tr_store (body_ended env i chunks ended now d t))"
proof -
  have "store_runs (ht_maxPeersPerBroadcast env) (tr_store t) (tr_store t1)"
    if "serve_body env pending body now (t\<lparr>tr_pending := p\<rparr>) = (r, t1)" for pending body r t1 p
    using body_serves[of env "t\<lparr>tr_pending := p\<rparr>" pending body now] that by (simp add: serves_def)
  then show ?thesis
    by (auto simp: body_ended_def Let_def split: option.split sum.split prod.split)
qed

section \<open>Sockets\<close>

lemma relay_store:
  fixes h :: "'g Hub"
  shows "wh_store (relayWebRtcSignal env signal h) = wh_store h"
proof -
  have "wh_store (fold (\<lambda>x h. if map_option sub_peerId (map_get (wh_subscriptions h) x) = p
      then sendSerialized env m x h else h) xs h) = wh_store h" for p m xs and h :: "'g Hub"
    by (induction xs arbitrary: h) (simp_all add: send_store)
  then show ?thesis unfolding relayWebRtcSignal_def .
qed

lemma hub_unit_interval: "optionalUnitInterval message key = Inr v \<Longrightarrow> v \<noteq> Some NaN"
  by (auto simp: optionalUnitInterval_def optional_in_def optionalNumber_def
      split: sum.splits option.splits jsval.splits if_splits)

lemma hub_heartbeat_runs:
  "optionalUnitInterval message key = return rate \<Longrightarrow>
     store_heartbeat b p \<lparr>hb_latencyMs = latency, hb_uploadBandwidthBps = bandwidth, hb_successRate = rate\<rparr> now s =
       Inr (peer, s') \<Longrightarrow> store_runs n s s'"
  by (rule runs_ops(7)) (auto dest: hub_unit_interval)

lemma dispatch_store: "store_runs n (wh_store h) (wh_store (snd (dispatch_message env x type b p message now h)))"
proof -
  have "wh_store (snd (handle_subscribe env x b p message h)) = wh_store h"
    by (auto simp: handle_subscribe_def Let_def send_store set_subscription_store fans_fields(1)[OF fans_fill]
        split: option.split sum.split)
  moreover have "wh_store (snd (handle_signal env s b p message h)) = wh_store h" for s
    by (auto simp: handle_signal_def relay_store split: sum.split)
  moreover have "store_runs n (wh_store h) (wh_store (snd (handle_heartbeat b p message now h)))"
    by (auto simp: handle_heartbeat_def intro: hub_heartbeat_runs split: sum.split)
  moreover have "store_runs n (wh_store h) (wh_store (snd (handle_delta env b p message now h)))"
    by (auto simp: handle_delta_def Let_def fans_fields(1)[OF fans_publish] intro: runs_ops(6)
        split: sum.split prod.split)
  moreover have "store_runs n (wh_store h) (wh_store (snd (handle_segments env b p message now h)))"
    by (auto simp: handle_segments_def segmentsAvailable_def Let_def fans_fields(1)[OF fans_publish]
        intro: runs_ops(5) split: sum.split prod.split)
  moreover have "store_runs n (wh_store h) (wh_store (snd (handle_stats b p message now h)))"
    by (auto simp: handle_stats_def intro: runs_ops(8) split: sum.split)
  ultimately show ?thesis by (simp add: dispatch_message_def)
qed

lemma budget_store: "wh_store (snd (consumeMessageBudget x now h)) = wh_store h"
  by (simp add: consumeMessageBudget_def Let_def split: option.split)

lemma close_store: "wh_store (close_socket r x h) = wh_store h"
  by (simp add: close_socket_def)

lemma message_store: "store_runs n (wh_store h) (wh_store (handleMessage env x data now h))"
proof -
  have "store_runs n (wh_store h) (wh_store h')"
    if "dispatch_message env x type b p message now h = (e, h')" for type b p message e h'
    using dispatch_store[of n h env x type b p message now] that by simp
  then show ?thesis
    by (auto simp: handleMessage_def close_store split: option.split prod.split sum.split if_splits)
qed

lemma frame_store: "store_runs n (wh_store h) (wh_store (on_message env x frame now h))"
proof -
  obtain allowed h1 where budget: "consumeMessageBudget x now h = (allowed, h1)" by fastforce
  have h1: "wh_store h1 = wh_store h" using budget_store[of x now h] by (simp add: budget)
  have "store_runs n (wh_store h) (wh_store (handleMessage env x data now h1))" for data
    using message_store[of n h1 env x data now] by (simp add: h1)
  then show ?thesis by (cases frame) (simp_all add: on_message_def close_store budget h1)
qed

lemma unindex_store: "wh_store (unindexSubscription x h) = wh_store h"
  by (simp add: unindexSubscription_def Let_def split: option.split)

lemma plumbing_stores:
  "wh_store (handleUpgrade env request now h) = wh_store h"
  "wh_store (handshake_failed x h) = wh_store h"
  "wh_store (socket_connected x now h) = wh_store h"
  "wh_store (session_expired x h) = wh_store h"
  "wh_store (removeSocket x h) = wh_store h"
  subgoal by (simp add: handleUpgrade_def Let_def split: option.split)
  subgoal by (simp add: handshake_failed_def release_connection_def Let_def split: option.split)
  subgoal by (simp add: socket_connected_def Let_def split: option.split)
  subgoal by (simp add: session_expired_def close_store)
  subgoal by (simp add: removeSocket_def release_connection_def unindex_store Let_def split: option.split)
  done

lemma socket_store: "socket_event e \<Longrightarrow> store_runs n (wh_store h) (wh_store (hub_step env e h))"
proof (cases e)
  case (FlushTimer b)
  then show ?thesis by (simp add: fans_fields(1)[OF fans_flush])
next
  case NextTurn
  then show ?thesis by (simp add: fans_fields(1)[OF fans_run_turn])
next
  case (SocketFrame x frame now)
  then show ?thesis by (simp add: frame_store)
qed (simp_all add: plumbing_stores)

section \<open>The tracker\<close>

lemma expire_store: "store_runs n (tr_store t) (tr_store (expire_leases env parse_date now bs t))"
proof (induction bs arbitrary: t)
  case (Cons b bs)
  show ?case
  proof (cases "unregisterBroadcast (bc_id b) (tr_store t)")
    case (Inr store)
    let ?t = "event_broadcastListChanged env now (event_broadcastRemoved (bc_id b) (update_store store t))"
    have "store_runs n (tr_store t) (tr_store ?t)" using runs_ops(2)[OF Inr] by simp
    from runs_trans[OF this Cons.IH[of ?t]] show ?thesis by (simp add: Inr Cons.IH)
  qed (simp add: Cons.IH)
qed simp

lemma left_store: "tr_store (fold (\<lambda>(b, p). event_peerLeft env b p now) removed t) = tr_store t"
  by (induction removed arbitrary: t) auto

lemma cleanup_store: "store_runs n (tr_store t) (tr_store (server_removeStalePeers env parse_date stale now t))"
proof -
  obtain removed store where sweep: "removeStalePeers stale now (tr_store t) = (removed, store)" by fastforce
  let ?t = "fold (\<lambda>(b, p). event_peerLeft env b p now) removed (update_store store t)"
  have "store_runs n (tr_store t) (tr_store ?t)"
    using runs_ops(10)[of n "tr_store t" stale now] by (simp add: sweep left_store)
  from runs_trans[OF this expire_store[of n ?t env parse_date now "listBroadcasts (tr_store ?t)"]]
  show ?thesis by (simp add: server_removeStalePeers_def sweep Let_def)
qed

lemma stop_store:
  fixes h :: "'g Hub"
  shows "wh_store (stop_hub h) = wh_store h"
proof -
  have "wh_store (fold (close_socket Terminated) xs h) = wh_store h" for xs and h :: "'g Hub"
    by (induction xs arbitrary: h) (simp_all add: close_store)
  then show ?thesis by (simp add: stop_hub_def)
qed

lemma step_store:
  "store_runs (ht_maxPeersPerBroadcast env) (tr_store t) (tr_store (tracker_step env parse_date stale e t))"
proof (cases e)
  case (HubInput he)
  then show ?thesis using socket_store[of he "ht_maxPeersPerBroadcast env" "tr_hub t" "ht_hub env"]
    by (auto simp: hub_event_def Let_def split: hub_event.split)
qed (simp_all add: arrived_serves body_ended_serves cleanup_store stop_store)

lemma run_store:
  "store_runs (ht_maxPeersPerBroadcast env) store
     (tr_store (tracker_run env parse_date stale events store viewSize rps burst start g))"
proof (induction events rule: rev_induct)
  case Nil
  then show ?case by (simp add: tracker_run_def new_tracker_def new_hub_def)
next
  case (snoc e events)
  from runs_trans[OF this step_store] show ?case unfolding run_snoc .
qed

lemma joins_report: "joins_within n op \<Longrightarrow> finite_report op"
  by (cases op) simp_all

lemma run_in_range:
  "each_broadcast m (\<lambda>state. broadcast_ok m state \<and> length (bs_peers state) \<le> ht_maxPeersPerBroadcast env)
     (tr_store (tracker_run env parse_date stale events (new_store m) viewSize rps burst start g))"
proof -
  obtain ops where ops: "list_all (\<lambda>op. joins_within (ht_maxPeersPerBroadcast env) (fst op)) ops"
    and s: "tr_store (tracker_run env parse_date stale events (new_store m) viewSize rps burst start g) =
      fold run_store_op ops (new_store m)"
    using run_store[where env = env and store = "new_store m" and parse_date = parse_date and stale = stale
        and events = events and viewSize = viewSize and rps = rps and burst = burst and start = start and g = g]
    unfolding store_runs_def by blast
  have "list_all (\<lambda>op. finite_report (fst op)) ops" using ops by (auto simp: list_all_iff intro: joins_report)
  then have "each_broadcast m (broadcast_ok m) (fold run_store_op ops (new_store m))"
    by (rule peer_data.run_ops[OF peer_data.new_store_ok])
  moreover have "each_broadcast m (\<lambda>state. wf_map (bs_peers state) \<and> length (bs_peers state) \<le> ht_maxPeersPerBroadcast env)
      (fold run_store_op ops (new_store m))"
    by (rule peer_limit.run_ops[OF peer_limit.new_store_ok ops])
  ultimately show ?thesis unfolding s by (auto simp: each_broadcast_def list_all_iff)
qed

text \<open>C19: Whatever requests, socket messages and timers the tracker sees, every peer it keeps is listed under its own
  id, with a distinct inventory within the entry and character limits, quality values between 0 and 1 and non-negative
  counters, and no broadcast has more peers than the configured limit.\<close>

theorem tracker_store_in_range:
  "each_broadcast m (\<lambda>state. broadcast_ok m state \<and> length (bs_peers state) \<le> ht_maxPeersPerBroadcast env)
     (tr_store (tracker_run env parse_date stale events (new_store m) viewSize rps burst start g))"
  by (rule run_in_range)

section \<open>Cleanup\<close>

definition ids_ok :: "TrackerStore \<Rightarrow> bool" where
  "ids_ok s \<longleftrightarrow> (\<forall>b x. broadcast_of b s = Some x \<longrightarrow> bc_id x = b)"

lemma sweep_broadcast: "bs_broadcast (snd (sweep_peers cutoff ps state)) = bs_broadcast state"
  by (induction cutoff ps state rule: sweep_peers.induct) (auto simp: retire_peer_def split: prod.splits)

lemma sweep_lookup:
  "map_get (bs_peers (snd (sweep_peers cutoff ps state))) q =
     (if list_ex (\<lambda>(p, st). p = q \<and> peer_lastSeenAt (ps_peer st) < cutoff) ps then None else map_get (bs_peers state) q)"
  by (induction cutoff ps state rule: sweep_peers.induct)
    (auto simp: retire_peer_def get_delete split: prod.splits)

lemma stale_lookup:
  "map_get (ts_broadcasts (snd (removeStalePeers age now s))) b =
     map_option (\<lambda>state. snd (sweep_peers (now - age) (bs_peers state) state)) (map_get (ts_broadcasts s) b)"
proof -
  have "ts_broadcasts (snd (removeStalePeers age now s)) =
      map (\<lambda>(b, state). (b, snd (sweep_peers (now - age) (bs_peers state) state))) (ts_broadcasts s)"
    by (auto simp: removeStalePeers_def Let_def split: prod.splits)
  then show ?thesis by (simp add: map_get_map)
qed

lemma stale_broadcast: "broadcast_of b (snd (removeStalePeers age now s)) = broadcast_of b s"
  by (simp add: broadcast_of_def stale_lookup option.map_comp comp_def sweep_broadcast)

lemma op_broadcasts:
  "joinPeerDetailed b request limit now s = Inr ((peer, already), s') \<Longrightarrow> broadcast_of c s' = broadcast_of c s"
  "reportSegments b p segments replace now s = Inr (peer, s') \<Longrightarrow> broadcast_of c s' = broadcast_of c s"
  "applySegmentDelta b p added removed now s = Inr (peer, s') \<Longrightarrow> broadcast_of c s' = broadcast_of c s"
  "store_heartbeat b p heartbeat now s = Inr (peer, s') \<Longrightarrow> broadcast_of c s' = broadcast_of c s"
  "reportStats b p stats now s = Inr s' \<Longrightarrow> broadcast_of c s' = broadcast_of c s"
  "reportPeerFailure b p report now s = Inr (peer, s') \<Longrightarrow> broadcast_of c s' = broadcast_of c s"
  "leavePeer b p s = Inr s' \<Longrightarrow> broadcast_of c s' = broadcast_of c s"
  subgoal using join_shape(3)[of b request limit now s peer already s'] by (auto simp: broadcast_put)
  subgoal by (auto simp: reportSegments_def Let_def broadcast_put split: sum.splits)
  subgoal by (auto simp: applySegmentDelta_def Let_def broadcast_put split: sum.splits)
  subgoal by (auto simp: store_heartbeat_def Let_def broadcast_put split: sum.splits)
  subgoal by (auto simp: reportStats_def broadcast_put split: sum.splits)
  subgoal using failure_within[of b p report now s peer s' "Some \<lparr>claim_broadcastId = b, claim_peerId = p, claim_expiresAt = 0\<rparr>"]
    by (simp add: within_session_def in_broadcast_def)
  subgoal using leave_within[of b p s s' "Some \<lparr>claim_broadcastId = b, claim_peerId = p, claim_expiresAt = 0\<rparr>"]
    by (simp add: within_session_def names_def)
  done

lemma ids_kept:
  "ids_ok s \<Longrightarrow> (\<And>s' c. r = Inr s' \<Longrightarrow> broadcast_of c s' = broadcast_of c s) \<Longrightarrow> ids_ok (kept r s)"
  by (cases r) (simp_all add: kept_def ids_ok_def)

lemma map_sum_snd: "map_sum id snd r = Inr y \<Longrightarrow> \<exists>x. r = Inr (x, y)"
  by (cases r) auto

lemma ids_okD: "ids_ok s \<Longrightarrow> map_get (ts_broadcasts s) b = Some state \<Longrightarrow> bc_id (bs_broadcast state) = b"
  unfolding ids_ok_def broadcast_of_def by (metis option.simps(9))

lemma ids_okI:
  "(\<And>b state. map_get (ts_broadcasts s) b = Some state \<Longrightarrow> bc_id (bs_broadcast state) = b) \<Longrightarrow> ids_ok s"
  unfolding ids_ok_def broadcast_of_def by fastforce

lemma registered_ids:
  assumes "ids_ok s"
  shows "ids_ok (snd (registerBroadcast r now s))"
proof (cases "map_get (ts_broadcasts s) (reg_id r)")
  case (Some state)
  then show ?thesis using ids_okD[OF assms]
    by (intro ids_okI) (auto simp: registerBroadcast_def Let_def put_broadcast_def get_set split: if_splits)
next
  case None
  then show ?thesis using ids_okD[OF assms]
    by (intro ids_okI) (auto simp: registerBroadcast_def Let_def put_broadcast_def get_set split: if_splits)
qed

lemma op_ids:
  assumes "ids_ok s"
  shows "ids_ok (run_store_op op s)"
proof -
  obtain f now where op: "op = (f, now)" by (cases op)
  show ?thesis
  proof (cases f)
    case (RegisterOp r)
    then show ?thesis using registered_ids[OF assms] by (simp add: op)
  next
    case (UnregisterOp b)
    then show ?thesis using ids_okD[OF assms]
      by (intro ids_okI) (auto simp: op kept_def unregisterBroadcast_def get_delete split: if_splits)
  next
    case (SweepOp age)
    show ?thesis unfolding op SweepOp run_store_op.simps using assms unfolding ids_ok_def stale_broadcast .
  next
    case (JoinOp b request limit)
    show ?thesis unfolding op JoinOp run_store_op.simps
      by (rule ids_kept[OF assms]) (drule map_sum_snd, auto intro: op_broadcasts(1))
  next
    case (SegmentsOp b p segments replace)
    show ?thesis unfolding op SegmentsOp run_store_op.simps
      by (rule ids_kept[OF assms]) (drule map_sum_snd, auto dest: op_broadcasts(2))
  next
    case (DeltaOp b p added removed)
    show ?thesis unfolding op DeltaOp run_store_op.simps
      by (rule ids_kept[OF assms]) (drule map_sum_snd, auto dest: op_broadcasts(3))
  next
    case (HeartbeatOp b p heartbeat)
    show ?thesis unfolding op HeartbeatOp run_store_op.simps
      by (rule ids_kept[OF assms]) (drule map_sum_snd, auto dest: op_broadcasts(4))
  next
    case (StatsOp b p stats)
    show ?thesis unfolding op StatsOp run_store_op.simps
      by (rule ids_kept[OF assms]) (rule op_broadcasts(5))
  next
    case (FailureOp b p report)
    show ?thesis unfolding op FailureOp run_store_op.simps
      by (rule ids_kept[OF assms]) (drule map_sum_snd, auto dest: op_broadcasts(6))
  next
    case (LeaveOp b p)
    show ?thesis unfolding op LeaveOp run_store_op.simps
      by (rule ids_kept[OF assms]) (rule op_broadcasts(7))
  qed
qed

lemma runs_ids: "store_runs n s s' \<Longrightarrow> ids_ok s \<Longrightarrow> ids_ok s'"
proof -
  have "ids_ok (fold run_store_op ops s)" if "ids_ok s" for ops
    using that by (induction ops arbitrary: s) (simp_all add: op_ids)
  then show "store_runs n s s' \<Longrightarrow> ids_ok s \<Longrightarrow> ids_ok s'" unfolding store_runs_def by blast
qed

lemma expire_lookup:
  assumes "list_all (\<lambda>b. map_get (ts_broadcasts (tr_store t)) (bc_id b) \<noteq> None) bs" "distinct (map bc_id bs)"
  shows "map_get (ts_broadcasts (tr_store (expire_leases env parse_date now bs t))) c =
    (if list_ex (\<lambda>b. bc_id b = c \<and> lease_expired parse_date now b) bs then None
     else map_get (ts_broadcasts (tr_store t)) c)"
  using assms
proof (induction bs arbitrary: t)
  case (Cons b bs)
  show ?case
  proof (cases "lease_expired parse_date now b")
    case True
    let ?store = "(tr_store t)\<lparr>ts_broadcasts := map_delete (ts_broadcasts (tr_store t)) (bc_id b)\<rparr>"
    let ?t = "event_broadcastListChanged env now (event_broadcastRemoved (bc_id b) (update_store ?store t))"
    have removed: "unregisterBroadcast (bc_id b) (tr_store t) = Inr ?store"
      using Cons.prems(1) by (simp add: unregisterBroadcast_def map_has_def)
    have other: "\<forall>x\<in>set bs. bc_id x \<noteq> bc_id b" using Cons.prems(2) by (metis distinct.simps(2) image_eqI list.simps(9) set_map)
    from removed have step: "expire_leases env parse_date now (b # bs) t = expire_leases env parse_date now bs ?t"
      using True by simp
    have "list_all (\<lambda>b. map_get (ts_broadcasts (tr_store ?t)) (bc_id b) \<noteq> None) bs"
      using Cons.prems(1) other by (simp add: list_all_iff get_delete)
    from Cons.IH[OF this] Cons.prems show ?thesis unfolding step
      by (auto simp: get_delete True list_all_iff list_ex_iff)
  qed (use Cons in simp)
qed simp

text \<open>When the lease of an Origin ends, and what is left of a broadcast and of a peer by a cleanup.\<close>

definition lease_end :: "(string \<Rightarrow> int option) \<Rightarrow> Broadcast \<Rightarrow> int option" where
  "lease_end parse_date b = Option.bind (bc_metadata b) (\<lambda>metadata.
     if map_get metadata ''owner'' \<noteq> Some ''origin'' then None
     else Option.bind (map_get metadata ''leaseExpiresAt'') (\<lambda>lease. if lease = [] then None else parse_date lease))"

lemma lease_expired_iff: "lease_expired parse_date now b \<longleftrightarrow> (\<exists>expiry. lease_end parse_date b = Some expiry \<and> expiry \<le> now)"
  by (auto simp: lease_expired_def lease_end_def split: option.splits)

definition kept_broadcast :: "(string \<Rightarrow> int option) \<Rightarrow> int \<Rightarrow> Broadcast option \<Rightarrow> Broadcast option" where
  "kept_broadcast parse_date now b = (case b of
     None \<Rightarrow> None
   | Some x \<Rightarrow> (case lease_end parse_date x of
       None \<Rightarrow> Some x | Some expiry \<Rightarrow> if expiry \<le> now then None else Some x))"

definition kept_peer :: "int \<Rightarrow> PeerState option \<Rightarrow> PeerState option" where
  "kept_peer cutoff p = (case p of
     None \<Rightarrow> None | Some st \<Rightarrow> if peer_lastSeenAt (ps_peer st) < cutoff then None else Some st)"

lemma stale_entry:
  assumes "map_get (ts_broadcasts s) b = Some state" "wf_map (bs_peers state)"
  shows "peer_entry b p (snd (removeStalePeers age now s)) = kept_peer (now - age) (peer_entry b p s)"
proof -
  have "list_ex (\<lambda>(q, st). q = p \<and> peer_lastSeenAt (ps_peer st) < now - age) (bs_peers state) \<longleftrightarrow>
      (\<exists>st. map_get (bs_peers state) p = Some st \<and> peer_lastSeenAt (ps_peer st) < now - age)"
    using assms(2) by (auto simp: list_ex_iff wf_map_def intro: map_of_SomeD)
  then show ?thesis using assms(1)
    by (auto simp: peer_entry_def stale_lookup sweep_lookup kept_peer_def split: option.splits)
qed

lemma cleanup_lookup:
  fixes t :: "'g Tracker"
  assumes "wf_map (ts_broadcasts (tr_store t))" "ids_ok (tr_store t)"
  shows "map_get (ts_broadcasts (tr_store (server_removeStalePeers env parse_date stale now t))) c =
    (if kept_broadcast parse_date now (broadcast_of c (tr_store t)) = None then None
     else map_get (ts_broadcasts (snd (removeStalePeers stale now (tr_store t)))) c)"
proof -
  obtain removed store where sweep: "removeStalePeers stale now (tr_store t) = (removed, store)" by fastforce
  let ?t = "fold (\<lambda>(b, p). event_peerLeft env b p now) removed (update_store store t)"
  have store: "tr_store ?t = store" by (simp add: left_store)
  have broadcasts: "broadcast_of b store = broadcast_of b (tr_store t)" for b
    using stale_broadcast[of b stale now "tr_store t"] by (simp add: sweep)
  have ids: "ids_ok store" using assms(2) unfolding ids_ok_def broadcasts .
  have keys: "map_keys (ts_broadcasts store) = map_keys (ts_broadcasts (tr_store t))"
    using sweep by (auto simp: removeStalePeers_def Let_def split: prod.splits)
  have wf: "wf_map (ts_broadcasts store)" using assms(1) unfolding wf_map_def keys .
  have listed: "b \<in> set (listBroadcasts store) \<longleftrightarrow> broadcast_of (bc_id b) store = Some b" for b
  proof
    assume "b \<in> set (listBroadcasts store)"
    then obtain c state where "(c, state) \<in> set (ts_broadcasts store)" "b = bs_broadcast state"
      by (auto simp: listBroadcasts_def)
    then have "map_get (ts_broadcasts store) c = Some state" using wf by (simp add: wf_map_def map_of_is_SomeI)
    with ids_okD[OF ids this] \<open>b = bs_broadcast state\<close> show "broadcast_of (bc_id b) store = Some b"
      by (simp add: broadcast_of_def)
  next
    assume "broadcast_of (bc_id b) store = Some b"
    then show "b \<in> set (listBroadcasts store)"
      by (force simp: broadcast_of_def listBroadcasts_def dest: map_of_SomeD)
  qed
  have "map bc_id (listBroadcasts store) = map_keys (ts_broadcasts store)"
    using ids_okD[OF ids] wf by (auto simp: listBroadcasts_def wf_map_def intro: map_of_is_SomeI)
  then have distinct: "distinct (map bc_id (listBroadcasts store))" using wf by (simp add: wf_map_def)
  have "list_all (\<lambda>b. map_get (ts_broadcasts (tr_store ?t)) (bc_id b) \<noteq> None) (listBroadcasts store)"
    unfolding list_all_iff store using listed unfolding broadcast_of_def by fastforce
  from expire_lookup[OF this distinct, of env parse_date now c]
  have "map_get (ts_broadcasts (tr_store (server_removeStalePeers env parse_date stale now t))) c =
      (if list_ex (\<lambda>b. bc_id b = c \<and> lease_expired parse_date now b) (listBroadcasts store) then None
       else map_get (ts_broadcasts store) c)"
    by (simp add: server_removeStalePeers_def sweep Let_def left_store)
  moreover have "list_ex (\<lambda>b. bc_id b = c \<and> lease_expired parse_date now b) (listBroadcasts store) \<longleftrightarrow>
      (\<exists>b. broadcast_of c store = Some b \<and> lease_expired parse_date now b)"
    unfolding list_ex_iff using listed ids unfolding ids_ok_def by blast
  moreover have "map_get (ts_broadcasts store) c = None" if "broadcast_of c store = None"
    using that by (simp add: broadcast_of_def)
  ultimately show ?thesis
    by (auto simp: kept_broadcast_def lease_expired_iff broadcasts[symmetric] sweep split: option.splits)
qed

lemma run_ids: "ids_ok (tr_store (tracker_run env parse_date stale events (new_store m) viewSize rps burst start g))"
  by (rule runs_ids[OF run_store]) (simp add: ids_ok_def broadcast_of_def new_store_def)

text \<open>C30: A cleanup removes exactly the peers that have not been heard of for the configured time and the broadcasts of
  Origins whose lease has expired, with all their peers; every other broadcast and peer stays as it was.\<close>

theorem cleanup_removes_expired:
  "let t = tracker_run env parse_date stale events (new_store m) viewSize rps burst start g;
       t' = server_removeStalePeers env parse_date stale now t in
   broadcast_of b (tr_store t') = kept_broadcast parse_date now (broadcast_of b (tr_store t)) \<and>
   peer_entry b p (tr_store t') =
     (if broadcast_of b (tr_store t') = None then None else kept_peer (now - stale) (peer_entry b p (tr_store t)))"
proof -
  let ?t = "tracker_run env parse_date stale events (new_store m) viewSize rps burst start g"
  let ?s = "tr_store ?t" and ?s' = "tr_store (server_removeStalePeers env parse_date stale now ?t)"
  have range: "each_broadcast m (\<lambda>state. broadcast_ok m state \<and> length (bs_peers state) \<le> ht_maxPeersPerBroadcast env) ?s"
    by (rule run_in_range)
  then have wf: "wf_map (ts_broadcasts ?s)" by (simp add: each_broadcast_def)
  have peers: "wf_map (bs_peers state)" if "map_get (ts_broadcasts ?s) b = Some state" for state
    using range map_of_SomeD[OF that] by (auto simp: each_broadcast_def list_all_iff broadcast_ok_def)
  note get = cleanup_lookup[OF wf run_ids, of env parse_date stale now b]
  have "broadcast_of b ?s' = kept_broadcast parse_date now (broadcast_of b ?s)"
    using stale_broadcast[of b stale now ?s] unfolding broadcast_of_def get
    by (auto simp: kept_broadcast_def broadcast_of_def split: option.splits if_splits)
  moreover have "peer_entry b p ?s' = (if broadcast_of b ?s' = None then None else kept_peer (now - stale) (peer_entry b p ?s))"
  proof (cases "map_get (ts_broadcasts ?s) b")
    case (Some state)
    show ?thesis using stale_entry[OF Some peers[OF Some], of p stale now] calculation
      unfolding peer_entry_def get by (simp split: option.splits)
  next
    case None
    then show ?thesis unfolding peer_entry_def broadcast_of_def get by (simp add: kept_broadcast_def broadcast_of_def)
  qed
  ultimately show ?thesis by (simp add: Let_def)
qed

end
