(* ===== verification/TrackerServerSpec.thy ===== *)
theory TrackerServerSpec
  imports TrackerServer
begin

text \<open>
  What the tracker process relies on: a configuration that parses is in range, the dashboard's event stream is
  coalesced, and a stopped server holds no timer and has closed its store once.
\<close>

section \<open>Configuration\<close>

definition turn_ok :: "(string list \<times> string) option \<Rightarrow> bool" where
  "turn_ok turn = (case turn of None \<Rightarrow> True
   | Some (urls, secret) \<Rightarrow> urls \<noteq> [] \<and> list_all isValidTurnUrl urls \<and> 16 \<le> length (utf8 secret))"

definition configuration_ok :: "TrackerConfiguration \<Rightarrow> bool" where
  "configuration_ok c \<longleftrightarrow>
     cf_host c \<noteq> [] \<and> js_trim (cf_host c) = cf_host c \<and>
     (case cf_trackerApiKey c of None \<Rightarrow> True | Some key \<Rightarrow> key \<noteq> []) \<and>
     (case cf_peerSessionSecret c of None \<Rightarrow> True
      | Some secret \<Rightarrow> is_return (new_session_service secret (int_number (cf_peerSessionTtlMs c)))) \<and>
     1 \<le> cf_port c \<and> cf_port c \<le> 65535 \<and>
     1000 \<le> cf_peerSessionTtlMs c \<and> cf_peerSessionTtlMs c \<le> MAX_SAFE_INTEGER \<and>
     1 \<le> cf_stalePeerMs c \<and> cf_stalePeerMs c \<le> MAX_SAFE_INTEGER \<and>
     1 \<le> cf_rateLimitRps c \<and> cf_rateLimitRps c \<le> MAX_SAFE_INTEGER \<and>
     1 \<le> cf_rateLimitBurst c \<and> cf_rateLimitBurst c \<le> MAX_SAFE_INTEGER \<and>
     1 \<le> cf_maxPeersPerBroadcast c \<and> cf_maxPeersPerBroadcast c \<le> MAX_SAFE_INTEGER \<and>
     1 \<le> cf_wsMaxConnectionsPerIp c \<and> cf_wsMaxConnectionsPerIp c \<le> MAX_SAFE_INTEGER \<and>
     0 \<le> cf_trustProxyHops c \<and> cf_trustProxyHops c \<le> 10 \<and>
     0 \<le> cf_neighborViewSize c \<and> cf_neighborViewSize c \<le> 1000 \<and>
     turn_ok (cf_turn c) \<and> cf_wsAllowedOrigins c \<noteq> Some []"

lemma parseInteger_range:
  assumes "parseInteger v label minimum maximum = return n"
  shows "minimum \<le> n \<and> n \<le> maximum"
proof -
  obtain q where q: "number_of_string v = Num q" "of_int \<lfloor>q\<rfloor> = q" "n = \<lfloor>q\<rfloor>"
    and "\<not> Num q < int_number minimum" "\<not> int_number maximum < Num q"
    using assms by (cases "number_of_string v") (auto simp: parseInteger_def Let_def split: if_splits)
  then have "of_int minimum \<le> (of_int n :: rat)" "(of_int n :: rat) \<le> of_int maximum" by auto
  then show ?thesis by simp
qed

lemma setting_range: "integer_setting environment label d minimum maximum = return n \<Longrightarrow> minimum \<le> n \<and> n \<le> maximum"
  by (auto simp: integer_setting_def dest: parseInteger_range)

lemma turn_configured: "parseTurnConfiguration environment = return turn \<Longrightarrow> turn_ok turn"
  by (auto simp: parseTurnConfiguration_def Let_def turn_ok_def MIN_TURN_SHARED_SECRET_BYTES_def list_all_iff
      find_None_iff split: option.splits if_splits)

lemma dropWhile_stuck: "xs = [] \<or> \<not> P (hd xs) \<Longrightarrow> dropWhile P xs = xs"
  by (cases xs) auto

lemma dropWhile_shape: "dropWhile P xs = [] \<or> \<not> P (hd (dropWhile P xs))"
  using hd_dropWhile[of P xs] by blast

lemma js_trim_idem: "js_trim (js_trim s) = js_trim s"
proof -
  let ?a = "dropWhile is_space s" and ?b = "dropWhile is_space (rev (dropWhile is_space s))"
  have "rev ?b = [] \<or> \<not> is_space (hd (rev ?b))"
  proof (cases ?b)
    case (Cons c cs)
    obtain pre where "rev ?a = pre @ ?b" using takeWhile_dropWhile_id[of is_space "rev ?a"] by metis
    then have a: "?a = rev ?b @ rev pre" by (metis rev_append rev_rev_ident)
    then have "hd (rev ?b) = hd ?a" "?a \<noteq> []" using Cons by (auto simp: hd_append)
    then show ?thesis using dropWhile_shape[of is_space s] by auto
  qed simp
  then have "dropWhile is_space (rev ?b) = rev ?b" by (rule dropWhile_stuck)
  moreover have "dropWhile is_space ?b = ?b" by (rule dropWhile_stuck[OF dropWhile_shape])
  ultimately show ?thesis by (simp add: js_trim_def)
qed

lemma secret_accepted:
  assumes "32 \<le> length (utf8 secret)" "1000 \<le> ttl" "ttl \<le> MAX_SAFE_INTEGER"
  shows "is_return (new_session_service secret (int_number ttl))"
  using assms by (simp add: new_session_service_def MAX_SAFE_INTEGER_def zero_number_def less_eq_number_def)

text \<open>C34: A configuration that parses is in range: a port, positive limits that are exact numbers, at most ten proxies
  and a thousand neighbors, valid TURN URLs with a secret of at least 16 bytes; the host is not blank, and a configured
  session secret is one the token service accepts with the configured lifetime.\<close>

theorem configuration_well_formed:
  "case parseTrackerConfiguration parse_url origin_of environment of
     Inl e \<Rightarrow> True | Inr c \<Rightarrow> configuration_ok c"
proof (cases "parseTrackerConfiguration parse_url origin_of environment")
  case (Inr c)
  let ?host = "case environment ''HOST'' of None \<Rightarrow> ''0.0.0.0'' | Some h \<Rightarrow> h"
  let ?int = "integer_setting environment"
  have host: "js_trim ?host \<noteq> []"
    and key: "environment ''TRACKER_API_KEY'' = None \<or> js_trim (the (environment ''TRACKER_API_KEY'')) \<noteq> []"
    and secret: "environment ''PEER_SESSION_SECRET'' = None \<or> 32 \<le> length (utf8 (the (environment ''PEER_SESSION_SECRET'')))"
    using Inr unfolding parseTrackerConfiguration_def Let_def by (auto split: if_splits)
  obtain turn where turn: "parseTurnConfiguration environment = return turn" "cf_turn c = turn"
    and ints: "?int ''PORT'' ''7070'' 1 65535 = return (cf_port c)"
      "?int ''PEER_SESSION_TTL_MS'' ''3600000'' 1000 MAX_SAFE_INTEGER = return (cf_peerSessionTtlMs c)"
      "?int ''STALE_PEER_MS'' ''30000'' 1 MAX_SAFE_INTEGER = return (cf_stalePeerMs c)"
      "?int ''RATE_LIMIT_RPS'' ''100'' 1 MAX_SAFE_INTEGER = return (cf_rateLimitRps c)"
      "?int ''RATE_LIMIT_BURST'' ''200'' 1 MAX_SAFE_INTEGER = return (cf_rateLimitBurst c)"
      "?int ''MAX_PEERS_PER_BROADCAST'' ''500'' 1 MAX_SAFE_INTEGER = return (cf_maxPeersPerBroadcast c)"
      "?int ''TRACKER_WS_MAX_CONNECTIONS_PER_IP'' ''20'' 1 MAX_SAFE_INTEGER = return (cf_wsMaxConnectionsPerIp c)"
      "?int ''TRUST_PROXY_HOPS'' ''0'' 0 MAX_TRUST_PROXY_HOPS = return (cf_trustProxyHops c)"
      "?int ''TRACKER_NEIGHBOR_VIEW_SIZE'' ''64'' 0 MAX_NEIGHBOR_VIEW_SIZE = return (cf_neighborViewSize c)"
    and rest: "cf_host c = js_trim ?host" "cf_trackerApiKey c = environment ''TRACKER_API_KEY''"
      "cf_peerSessionSecret c = environment ''PEER_SESSION_SECRET''" "cf_wsAllowedOrigins c \<noteq> Some []"
    using Inr host key secret unfolding parseTrackerConfiguration_def Let_def
    by (auto simp: and_then_return split: if_splits)
  note ranges = ints[THEN setting_range]
  have "case cf_trackerApiKey c of None \<Rightarrow> True | Some k \<Rightarrow> k \<noteq> []"
    using key by (auto simp: rest js_trim_def split: option.split)
  moreover have "case cf_peerSessionSecret c of None \<Rightarrow> True
      | Some s \<Rightarrow> is_return (new_session_service s (int_number (cf_peerSessionTtlMs c)))"
    using secret ranges(2) by (auto simp: rest split: option.split intro: secret_accepted)
  ultimately show ?thesis
    using Inr host ranges turn_configured[OF turn(1)]
    by (simp add: configuration_ok_def rest turn(2) js_trim_idem MAX_TRUST_PROXY_HOPS_def MAX_NEIGHBOR_VIEW_SIZE_def)
qed simp

section \<open>The event stream\<close>

lemma publish_times:
  "sse_pendingTimer (publish env name store now s) = sse_pendingTimer s"
  "sse_eventSequence (publish env name store now s) \<noteq> sse_eventSequence s \<Longrightarrow>
     sse_lastPublishedAt (publish env name store now s) = Some now"
  using schedule_publish[of env name store now s] by (auto simp: schedule_def split: if_splits)

lemma published_step:
  assumes "event_driven e" "sse_eventSequence (sse_step env (e, store, now) s) \<noteq> sse_eventSequence s"
  shows "held_off minimum now (sse_step env (e, store, now) s)"
    "held_off (sv_minIntervalMs env) published s \<Longrightarrow> published + sv_minIntervalMs env \<le> now"
proof -
  have pending: "held_off minimum now (publishPending env store now x) \<and> sse_eventSequence x = sse_eventSequence s"
    if "sse_pendingTimer x = None" "sse_eventSequence (publishPending env store now x) \<noteq> sse_eventSequence s"
      "sse_eventSequence x = sse_eventSequence s" for x
    using that publish_times[of env _ store now "x\<lparr>sse_pendingEvent := None\<rparr>"]
    by (cases "sse_pendingEvent x") (simp_all add: publishPending_def Let_def held_off_def)
  show "held_off minimum now (sse_step env (e, store, now) s)"
    using assms pending
    by (auto simp: event_driven_def requestPublish_def pending_timer_def Let_def split: option.splits if_splits)
  show "held_off (sv_minIntervalMs env) published s \<Longrightarrow> published + sv_minIntervalMs env \<le> now"
    using assms
    by (auto simp: event_driven_def requestPublish_def pending_timer_def held_off_def Let_def
        split: option.splits if_splits)
qed

text \<open>Two publishes to the dashboard that changes of the tracker caused are at least the minimum interval apart,
  whatever happens on the stream in between (connections, the regular publishes, further changes).\<close>

theorem dashboard_publishes_spaced:
  assumes "event_driven e" "sse_eventSequence (sse_step env (e, store, a) s) \<noteq> sse_eventSequence s"
    and "list_all (\<lambda>(e, store, now). a \<le> now) events"
    and "event_driven e'"
    and "sse_eventSequence (sse_step env (e', store', b) (fold (sse_step env) events (sse_step env (e, store, a) s)))
      \<noteq> sse_eventSequence (fold (sse_step env) events (sse_step env (e, store, a) s))"
  shows "a + sv_minIntervalMs env \<le> b"
proof (rule published_step(2)[OF assms(4,5)])
  show "held_off (sv_minIntervalMs env) a (fold (sse_step env) events (sse_step env (e, store, a) s))"
    by (rule held_off_run[OF published_step(1)[OF assms(1,2)] assms(3)])
qed

definition sample_sse :: SseEnv where
  "sample_sse = \<lparr>sv_minIntervalMs = 1000, sv_gone = (\<lambda>_. False), sv_needDrain = (\<lambda>_. False)\<rparr>"

definition sample_stream :: TrackerStatsSse where
  "sample_stream = new_stats_events\<lparr>sse_clients := [1]\<rparr>"

theorem dashboard_publishes_spaced_witness: "(5::int) + sv_minIntervalMs sample_sse \<le> 1005"
  by (rule dashboard_publishes_spaced[where e = "PublishRequested StatsEvent" and env = sample_sse and s = sample_stream
        and store = "new_store 8" and store' = "new_store 8" and e' = PendingTimerFired
        and events = "[(PublishRequested BroadcastsEvent, new_store 8, 7)]"])
    (simp_all add: event_driven_def sample_sse_def sample_stream_def new_stats_events_def requestPublish_def
      publishPending_def publish_def writeEvent_def pending_timer_def Let_def)

section \<open>Starting and stopping\<close>

datatype lifecycle_op = StartCalled | StopCalled | Callback lifecycle_event

fun lifecycle_run :: "lifecycle_op \<Rightarrow> Lifecycle \<Rightarrow> Lifecycle" where
  "lifecycle_run StartCalled l = (case server_start l of Inl e \<Rightarrow> l | Inr l' \<Rightarrow> l')"
| "lifecycle_run StopCalled l = server_stop l"
| "lifecycle_run (Callback e) l = lifecycle_step e l"

definition lifecycle_ok :: "Lifecycle \<Rightarrow> bool" where
  "lifecycle_ok l \<longleftrightarrow>
     (case lc_stop l of
        NotStopping \<Rightarrow> lc_storeCloses l = 0
      | AwaitingStart \<Rightarrow> lc_storeCloses l = 0 \<and> lc_start l = Listening
      | StopFinished _ \<Rightarrow> lc_storeCloses l = 1 \<and> lc_start l \<noteq> Listening \<and> \<not> lc_cleanupTimer l \<and> \<not> lc_rollupTimer l
      | _ \<Rightarrow> lc_storeCloses l = 0 \<and> lc_start l \<noteq> Listening \<and> \<not> lc_cleanupTimer l \<and> \<not> lc_rollupTimer l)"

interpretation lifecycle: kept_by_steps lifecycle_run lifecycle_ok
proof
  fix l op
  assume ok: "lifecycle_ok l"
  show "lifecycle_ok (lifecycle_run op l)"
  proof (cases op)
    case StartCalled
    then show ?thesis using ok by (cases "lc_stop l") (auto simp: server_start_def lifecycle_ok_def)
  next
    case StopCalled
    then show ?thesis using ok
      by (auto simp: server_stop_def stop_continues_def lifecycle_ok_def Let_def split: stop_phase.splits)
  next
    case (Callback e)
    show ?thesis
    proof (cases e)
      case (ListenSucceeded port sqlite ok)
      then show ?thesis using \<open>lifecycle_ok l\<close> Callback
        by (cases "lc_stop l") (auto simp: start_settled_def stop_continues_def lifecycle_ok_def Let_def)
    next
      case ListenFailed
      then show ?thesis using ok Callback
        by (cases "lc_stop l") (auto simp: start_settled_def stop_continues_def lifecycle_ok_def Let_def)
    qed (use ok Callback in \<open>auto simp: lifecycle_ok_def split: stop_phase.splits\<close>)
  qed
qed

text \<open>However starts, stops and their callbacks interleave, the store is closed at most once and only when the server
  has stopped, and then no cleanup or rollup timer is left running.\<close>

theorem stopped_server_released:
  "case lc_stop (fold lifecycle_run ops new_lifecycle) of
     StopFinished _ \<Rightarrow> lc_storeCloses (fold lifecycle_run ops new_lifecycle) = 1 \<and>
       \<not> lc_cleanupTimer (fold lifecycle_run ops new_lifecycle) \<and>
       \<not> lc_rollupTimer (fold lifecycle_run ops new_lifecycle)
   | _ \<Rightarrow> lc_storeCloses (fold lifecycle_run ops new_lifecycle) = 0"
proof -
  have "lifecycle_ok (fold lifecycle_run ops new_lifecycle)"
    by (rule lifecycle.run) (simp add: lifecycle_ok_def new_lifecycle_def)
  then show ?thesis by (auto simp: lifecycle_ok_def split: stop_phase.splits)
qed

end
