(* ===== verification/SqliteTables.thy ===== *)
theory SqliteTables
  imports TrackerAccess TrackerStore
begin

text \<open>
  The database of the tracker's SQLite store: its tables, the statements that \<^verbatim>\<open>prepareStatements\<close> prepares
  (\<^verbatim>\<open>tracker/src/sqlite-store.ts\<close>) and the migrations of its schema (\<^verbatim>\<open>tracker/src/sqlite-migration.ts\<close>).
  A table with a primary key is a map from keys to the other columns, in the order of \<^verbatim>\<open>rowid\<close>: an insertion
  appends, an update keeps the place. A statement that violates a constraint of the schema fails and changes
  nothing. The arithmetic of SQL on counters and \<^verbatim>\<open>JSON\<close> are arguments; times are milliseconds, whose order is that
  of their ISO text.
\<close>

section \<open>Tables\<close>

record BroadcastRow =
  br_playlist_url :: string
  br_metadata :: "string option"
  br_created_at :: int
  br_updated_at :: int

record PeerRow =
  pe_address :: string
  pe_upload_bandwidth_bps :: "number option"
  pe_metadata :: "string option"
  pe_joined_at :: int
  pe_last_seen_at :: int
  pe_latency_ms :: number
  pe_success_rate :: number
  pe_trust_score :: number

record StatsHistoryEntry =
  sh_timestamp :: int
  sh_broadcastId :: string
  sh_peers :: nat
  sh_p2pBytes :: number
  sh_originBytes :: number
  sh_p2pSuccessRate :: number

record Tables =
  t_broadcasts :: "(string, BroadcastRow) jsmap"
  t_peers :: "(string \<times> string, PeerRow) jsmap"
  t_segments :: "(string \<times> string \<times> string) list"
  t_stats :: "(string \<times> string, PeerTrafficStats) jsmap"
  t_retired :: "(string, PeerTrafficStats) jsmap"
  t_history :: "StatsHistoryEntry list"

definition no_tables :: Tables where
  "no_tables = \<lparr>t_broadcasts = [], t_peers = [], t_segments = [], t_stats = [], t_retired = [], t_history = []\<rparr>"

text \<open>The engine's \<^verbatim>\<open>+\<close> and \<^verbatim>\<open>SUM\<close>, and \<^verbatim>\<open>JSON.stringify\<close> and \<^verbatim>\<open>JSON.parse\<close>.\<close>

record SqlEngine =
  sql_plus :: "number \<Rightarrow> number \<Rightarrow> number"
  sql_sum :: "number list \<Rightarrow> number"
  sql_stringify :: "metadata \<Rightarrow> string"
  sql_parse :: "string \<Rightarrow> jsval option"

section \<open>Constraints\<close>

text \<open>\<^verbatim>\<open>NOT NULL\<close> and \<^verbatim>\<open>CHECK\<close>: \<^verbatim>\<open>NaN\<close> is bound as \<^verbatim>\<open>NULL\<close>, which no column but the bandwidth admits.\<close>

definition bound :: "number option \<Rightarrow> number option" where
  "bound v = (if v = Some NaN then None else v)"

definition peer_row_ok :: "PeerRow \<Rightarrow> bool" where
  "peer_row_ok row \<longleftrightarrow> (case pe_upload_bandwidth_bps row of None \<Rightarrow> True | Some v \<Rightarrow> 0 \<le> v) \<and>
     0 \<le> pe_latency_ms row \<and> 0 \<le> pe_success_rate row \<and> pe_success_rate row \<le> 1 \<and>
     0 \<le> pe_trust_score row \<and> pe_trust_score row \<le> 1"

definition stats_row_ok :: "PeerTrafficStats \<Rightarrow> bool" where
  "stats_row_ok stats \<longleftrightarrow> list_all (\<lambda>key. 0 \<le> stat_get key stats) peerTrafficStatKeys"

text \<open>The foreign keys of peers, inventories, counters and retired counters.\<close>

definition references_ok :: "Tables \<Rightarrow> bool" where
  "references_ok t \<longleftrightarrow> list_all (\<lambda>((b, p), _). map_has (t_broadcasts t) b) (t_peers t) \<and>
     list_all (\<lambda>(b, p, _). map_has (t_peers t) (b, p)) (t_segments t) \<and>
     list_all (\<lambda>(key, _). map_has (t_peers t) key) (t_stats t) \<and>
     list_all (\<lambda>(b, _). map_has (t_broadcasts t) b) (t_retired t)"

definition constraints_ok :: "Tables \<Rightarrow> bool" where
  "constraints_ok t \<longleftrightarrow> references_ok t \<and> list_all peer_row_ok (map_values (t_peers t)) \<and>
     list_all stats_row_ok (map_values (t_stats t)) \<and> list_all stats_row_ok (map_values (t_retired t))"

datatype sqlite_error = Refused StoreError | ConstraintViolated | InvalidMetadata

definition checked :: "Tables \<Rightarrow> (sqlite_error, Tables) result" where
  "checked t = (if constraints_ok t then return t else throw ConstraintViolated)"

section \<open>Order of text\<close>

text \<open>The \<^verbatim>\<open>BINARY\<close> collation compares UTF-8 bytes.\<close>

fun bytes_less :: "nat list \<Rightarrow> nat list \<Rightarrow> bool" where
  "bytes_less xs [] = False"
| "bytes_less [] (y # ys) = True"
| "bytes_less (x # xs) (y # ys) = (x < y \<or> x = y \<and> bytes_less xs ys)"

definition text_less :: "string \<Rightarrow> string \<Rightarrow> bool" where
  "text_less a b = bytes_less (utf8 a) (utf8 b)"

section \<open>Statements on broadcasts\<close>

definition st_listBroadcasts :: "Tables \<Rightarrow> (string \<times> BroadcastRow) list" where
  "st_listBroadcasts t = sort_by (\<lambda>(b, x) (c, y).
     br_created_at y < br_created_at x \<or> br_created_at x = br_created_at y \<and> text_less c b) (t_broadcasts t)"

definition st_insertBroadcast :: "string \<Rightarrow> BroadcastRow \<Rightarrow> Tables \<Rightarrow> Tables" where
  "st_insertBroadcast broadcastId row t = t\<lparr>t_broadcasts := map_set (t_broadcasts t) broadcastId row\<rparr>"

definition st_updateBroadcast ::
    "string \<Rightarrow> string \<Rightarrow> string option \<Rightarrow> bool \<Rightarrow> int \<Rightarrow> Tables \<Rightarrow> Tables" where
  "st_updateBroadcast broadcastId playlistUrl metadata hasMetadata updatedAt t =
     t\<lparr>t_broadcasts := map_adjust (t_broadcasts t) broadcastId (\<lambda>row. row\<lparr>br_playlist_url := playlistUrl,
       br_metadata := (if hasMetadata then metadata else br_metadata row), br_updated_at := updatedAt\<rparr>)\<rparr>"

definition st_deleteBroadcastSegments :: "string \<Rightarrow> Tables \<Rightarrow> Tables" where
  "st_deleteBroadcastSegments broadcastId t = t\<lparr>t_segments := filter (\<lambda>(b, _). b \<noteq> broadcastId) (t_segments t)\<rparr>"

definition st_deleteBroadcastPeerStats :: "string \<Rightarrow> Tables \<Rightarrow> Tables" where
  "st_deleteBroadcastPeerStats broadcastId t =
     t\<lparr>t_stats := filter (\<lambda>((b, _), _). b \<noteq> broadcastId) (t_stats t)\<rparr>"

definition st_deleteBroadcastRetiredStats :: "string \<Rightarrow> Tables \<Rightarrow> Tables" where
  "st_deleteBroadcastRetiredStats broadcastId t = t\<lparr>t_retired := map_delete (t_retired t) broadcastId\<rparr>"

text \<open>Deletions cascade to the rows that refer to the deleted ones.\<close>

definition st_deleteBroadcastPeers :: "string \<Rightarrow> Tables \<Rightarrow> Tables" where
  "st_deleteBroadcastPeers broadcastId t =
     (let t1 = st_deleteBroadcastPeerStats broadcastId (st_deleteBroadcastSegments broadcastId t) in
      t1\<lparr>t_peers := filter (\<lambda>((b, _), _). b \<noteq> broadcastId) (t_peers t1)\<rparr>)"

definition st_deleteBroadcast :: "string \<Rightarrow> Tables \<Rightarrow> Tables" where
  "st_deleteBroadcast broadcastId t =
     (let t1 = st_deleteBroadcastPeers broadcastId (st_deleteBroadcastRetiredStats broadcastId t) in
      t1\<lparr>t_broadcasts := map_delete (t_broadcasts t1) broadcastId\<rparr>)"

section \<open>Statements on peers\<close>

definition peers_of_broadcast :: "string \<Rightarrow> Tables \<Rightarrow> (string, PeerRow) jsmap" where
  "peers_of_broadcast broadcastId t =
     map (\<lambda>((b, p), row). (p, row)) (filter (\<lambda>((b, p), row). b = broadcastId) (t_peers t))"

text \<open>\<^verbatim>\<open>ORDER BY joined_at, peer_id\<close>\<close>

definition by_join :: "(string, PeerRow) jsmap \<Rightarrow> (string, PeerRow) jsmap" where
  "by_join rows = sort_by (\<lambda>(p, x) (q, y).
     pe_joined_at y < pe_joined_at x \<or> pe_joined_at x = pe_joined_at y \<and> text_less q p) rows"

definition st_listPeers :: "string \<Rightarrow> Tables \<Rightarrow> (string, PeerRow) jsmap" where
  "st_listPeers broadcastId t = by_join (peers_of_broadcast broadcastId t)"

definition st_countPeers :: "string \<Rightarrow> Tables \<Rightarrow> nat" where
  "st_countPeers broadcastId t = length (peers_of_broadcast broadcastId t)"

definition st_listPeersWithSegment :: "string \<Rightarrow> string \<Rightarrow> Tables \<Rightarrow> (string, PeerRow) jsmap" where
  "st_listPeersWithSegment broadcastId segment t =
     by_join (filter (\<lambda>(p, row). (broadcastId, p, segment) \<in> set (t_segments t)) (peers_of_broadcast broadcastId t))"

definition st_upsertPeer :: "string \<times> string \<Rightarrow> PeerRow \<Rightarrow> Tables \<Rightarrow> Tables" where
  "st_upsertPeer key excluded t = t\<lparr>t_peers := map_set (t_peers t) key
     (case map_get (t_peers t) key of
        None \<Rightarrow> excluded
      | Some row \<Rightarrow> row\<lparr>pe_address := pe_address excluded,
          pe_upload_bandwidth_bps := pe_upload_bandwidth_bps excluded,
          pe_metadata := pe_metadata excluded, pe_last_seen_at := pe_last_seen_at excluded\<rparr>)\<rparr>"

definition st_updatePeerLastSeen :: "string \<times> string \<Rightarrow> int \<Rightarrow> Tables \<Rightarrow> Tables" where
  "st_updatePeerLastSeen key lastSeenAt t =
     t\<lparr>t_peers := map_adjust (t_peers t) key (\<lambda>row. row\<lparr>pe_last_seen_at := lastSeenAt\<rparr>)\<rparr>"

definition st_updatePeerHealth :: "string \<times> string \<Rightarrow> PeerRow \<Rightarrow> Tables \<Rightarrow> Tables" where
  "st_updatePeerHealth key updated t =
     t\<lparr>t_peers := map_adjust (t_peers t) key (\<lambda>row. row\<lparr>
        pe_upload_bandwidth_bps := bound (pe_upload_bandwidth_bps updated),
        pe_latency_ms := pe_latency_ms updated, pe_success_rate := pe_success_rate updated,
        pe_last_seen_at := pe_last_seen_at updated\<rparr>)\<rparr>"

definition st_updatePeerTrust :: "string \<times> string \<Rightarrow> number \<Rightarrow> number \<Rightarrow> Tables \<Rightarrow> Tables" where
  "st_updatePeerTrust key trustScore successRate t =
     t\<lparr>t_peers := map_adjust (t_peers t) key (\<lambda>row. row\<lparr>pe_trust_score := trustScore, pe_success_rate := successRate\<rparr>)\<rparr>"

text \<open>\<^verbatim>\<open>ORDER BY broadcast_id, peer_id\<close>\<close>

definition st_listStalePeers :: "int \<Rightarrow> Tables \<Rightarrow> (string \<times> string) list" where
  "st_listStalePeers cutoff t = sort_by (\<lambda>(b, p) (c, q). text_less c b \<or> b = c \<and> text_less q p)
     (map fst (filter (\<lambda>(key, row). pe_last_seen_at row < cutoff) (t_peers t)))"

section \<open>Statements on inventories\<close>

definition st_getSegments :: "string \<times> string \<Rightarrow> Tables \<Rightarrow> string list" where
  "st_getSegments key t = map (\<lambda>(b, p, segment). segment) (filter (\<lambda>(b, p, segment). (b, p) = key) (t_segments t))"

text \<open>\<^verbatim>\<open>ORDER BY peer_id, rowid\<close>\<close>

definition by_peer :: "(string \<times> string) list \<Rightarrow> (string \<times> string) list" where
  "by_peer rows = sort_by (\<lambda>(p, _) (q, _). text_less q p) rows"

definition st_listBroadcastSegments :: "string \<Rightarrow> Tables \<Rightarrow> (string \<times> string) list" where
  "st_listBroadcastSegments broadcastId t = by_peer (map snd (filter (\<lambda>(b, _). b = broadcastId) (t_segments t)))"

definition st_listSegmentsOfPeersWithSegment :: "string \<Rightarrow> string \<Rightarrow> Tables \<Rightarrow> (string \<times> string) list" where
  "st_listSegmentsOfPeersWithSegment broadcastId segment t = by_peer (map snd (filter
     (\<lambda>(b, p, _). b = broadcastId \<and> (broadcastId, p, segment) \<in> set (t_segments t)) (t_segments t)))"

definition st_deletePeerSegments :: "string \<times> string \<Rightarrow> Tables \<Rightarrow> Tables" where
  "st_deletePeerSegments key t = t\<lparr>t_segments := filter (\<lambda>(b, p, _). (b, p) \<noteq> key) (t_segments t)\<rparr>"

definition st_deletePeerSegment :: "string \<times> string \<Rightarrow> string \<Rightarrow> Tables \<Rightarrow> Tables" where
  "st_deletePeerSegment key segment t = t\<lparr>t_segments := set_delete (fst key, snd key, segment) (t_segments t)\<rparr>"

definition st_insertPeerSegment :: "string \<times> string \<Rightarrow> string \<Rightarrow> Tables \<Rightarrow> Tables" where
  "st_insertPeerSegment key segment t = t\<lparr>t_segments := set_add (fst key, snd key, segment) (t_segments t)\<rparr>"

section \<open>Statements on counters\<close>

definition st_listPeerStats :: "string \<Rightarrow> Tables \<Rightarrow> (string, PeerTrafficStats) jsmap" where
  "st_listPeerStats broadcastId t = sort_by (\<lambda>(p, _) (q, _). text_less q p)
     (map (\<lambda>((b, p), stats). (p, stats)) (filter (\<lambda>((b, p), stats). b = broadcastId) (t_stats t)))"

definition st_insertEmptyPeerStats :: "string \<times> string \<Rightarrow> Tables \<Rightarrow> Tables" where
  "st_insertEmptyPeerStats key t = (if map_has (t_stats t) key then t
     else t\<lparr>t_stats := map_set (t_stats t) key createEmptyPeerTrafficStats\<rparr>)"

definition st_replacePeerStats :: "string \<times> string \<Rightarrow> PeerTrafficStats \<Rightarrow> Tables \<Rightarrow> Tables" where
  "st_replacePeerStats key stats t = t\<lparr>t_stats := map_set (t_stats t) key stats\<rparr>"

definition plus_stats :: "(number \<Rightarrow> number \<Rightarrow> number) \<Rightarrow> PeerTrafficStats \<Rightarrow> PeerTrafficStats \<Rightarrow> PeerTrafficStats" where
  "plus_stats add retired excluded =
     fold (\<lambda>key stats. stat_set key (add (stat_get key stats) (stat_get key excluded)) stats)
       peerTrafficStatKeys retired"

definition st_accumulateRetiredStats :: "SqlEngine \<Rightarrow> string \<times> string \<Rightarrow> Tables \<Rightarrow> Tables" where
  "st_accumulateRetiredStats engine key t = (case map_get (t_stats t) key of
     None \<Rightarrow> t
   | Some excluded \<Rightarrow> t\<lparr>t_retired := map_set (t_retired t) (fst key)
       (case map_get (t_retired t) (fst key) of
          None \<Rightarrow> excluded | Some retired \<Rightarrow> plus_stats (sql_plus engine) retired excluded)\<rparr>)"

definition st_deletePeerStats :: "string \<times> string \<Rightarrow> Tables \<Rightarrow> Tables" where
  "st_deletePeerStats key t = t\<lparr>t_stats := map_delete (t_stats t) key\<rparr>"

definition st_deletePeer :: "string \<times> string \<Rightarrow> Tables \<Rightarrow> Tables" where
  "st_deletePeer key t =
     (let t1 = st_deletePeerStats key (st_deletePeerSegments key t) in
      t1\<lparr>t_peers := map_delete (t_peers t1) key\<rparr>)"

text \<open>\<^verbatim>\<open>COALESCE(SUM(...), 0)\<close> of every counter: \<^verbatim>\<open>SUM\<close> of no rows is \<^verbatim>\<open>NULL\<close>.\<close>

definition summed :: "SqlEngine \<Rightarrow> PeerTrafficStats list \<Rightarrow> PeerTrafficStats" where
  "summed engine rows = fold (\<lambda>key stats. stat_set key
       (if rows = [] then 0 else sql_sum engine (map (stat_get key) rows)) stats)
     peerTrafficStatKeys createEmptyPeerTrafficStats"

definition counter_rows :: "string \<Rightarrow> Tables \<Rightarrow> PeerTrafficStats list" where
  "counter_rows broadcastId t = map snd (filter (\<lambda>((b, p), stats). b = broadcastId) (t_stats t)) @
     map snd (filter (\<lambda>(b, stats). b = broadcastId) (t_retired t))"

definition st_getBroadcastStats :: "SqlEngine \<Rightarrow> string \<Rightarrow> Tables \<Rightarrow> PeerTrafficStats \<times> nat" where
  "st_getBroadcastStats engine broadcastId t =
     (summed engine (counter_rows broadcastId t), st_countPeers broadcastId t)"

definition st_getGlobalStats :: "SqlEngine \<Rightarrow> Tables \<Rightarrow> GlobalStats" where
  "st_getGlobalStats engine t = \<lparr>gs_broadcasts = length (t_broadcasts t), gs_peers = length (t_peers t),
     gs_traffic = summed engine (map_values (t_stats t) @ map_values (t_retired t))\<rparr>"

section \<open>Statements on the history\<close>

definition st_insertStatsHistory :: "StatsHistoryEntry \<Rightarrow> Tables \<Rightarrow> Tables" where
  "st_insertStatsHistory entry t = t\<lparr>t_history := t_history t @ [entry]\<rparr>"

definition st_listStatsHistory :: "Tables \<Rightarrow> StatsHistoryEntry list" where
  "st_listStatsHistory t = sort_by (\<lambda>x y. sh_timestamp y < sh_timestamp x \<or>
     sh_timestamp x = sh_timestamp y \<and> text_less (sh_broadcastId y) (sh_broadcastId x)) (t_history t)"

definition st_listBroadcastStatsHistory :: "string \<Rightarrow> Tables \<Rightarrow> StatsHistoryEntry list" where
  "st_listBroadcastStatsHistory broadcastId t = sort_by (\<lambda>x y. sh_timestamp y < sh_timestamp x)
     (filter (\<lambda>entry. sh_broadcastId entry = broadcastId) (t_history t))"

definition st_deleteStatsHistoryBefore :: "int \<Rightarrow> Tables \<Rightarrow> nat \<times> Tables" where
  "st_deleteStatsHistoryBefore cutoff t =
     (length (filter (\<lambda>entry. sh_timestamp entry < cutoff) (t_history t)),
      t\<lparr>t_history := filter (\<lambda>entry. \<not> sh_timestamp entry < cutoff) (t_history t)\<rparr>)"

section \<open>Migrations\<close>

text \<open>A database file: its schema version and its tables, of which version 0 has none and version 1 lacks the
  retired counters. Version 3 copies every table into one with constraints; the order in which the inventory is
  copied is the engine's, an argument.\<close>

record Database =
  db_user_version :: jsval
  db_tables :: Tables

definition LATEST_SCHEMA_VERSION :: int where "LATEST_SCHEMA_VERSION = 3"

datatype migration_error = InvalidSchemaVersion | NewerSchemaVersion int | CopyViolatesConstraint

definition migrate_to :: "((string \<times> string \<times> string) list \<Rightarrow> (string \<times> string \<times> string) list) \<Rightarrow> int \<Rightarrow>
    Tables \<Rightarrow> (migration_error, Tables) result" where
  "migrate_to copy version t =
     (if version = 1 then return no_tables
      else if version = 2 then return (t\<lparr>t_retired := []\<rparr>)
      else (let t3 = t\<lparr>t_segments := copy (t_segments t)\<rparr> in
        if constraints_ok t3 then return t3 else throw CopyViolatesConstraint))"

fun migrations_from :: "((string \<times> string \<times> string) list \<Rightarrow> (string \<times> string \<times> string) list) \<Rightarrow> int \<Rightarrow>
    int list \<Rightarrow> Tables \<Rightarrow> (migration_error, Tables) result" where
  "migrations_from copy currentVersion [] t = return t"
| "migrations_from copy currentVersion (version # versions) t =
     (if version \<le> currentVersion then migrations_from copy currentVersion versions t
      else and_then (migrate_to copy version t) (migrations_from copy currentVersion versions))"

fun safe_version :: "jsval \<Rightarrow> int option" where
  "safe_version (Number (Num q)) = (if isSafeInteger (Num q) \<and> 0 \<le> q then Some \<lfloor>q\<rfloor> else None)"
| "safe_version _ = None"

text \<open>The migrations run in one transaction: after an error the file is as it was.\<close>

definition runSQLiteMigrations :: "((string \<times> string \<times> string) list \<Rightarrow> (string \<times> string \<times> string) list) \<Rightarrow>
    Database \<Rightarrow> (migration_error, Database) result" where
  "runSQLiteMigrations copy db = (case safe_version (db_user_version db) of
     None \<Rightarrow> throw InvalidSchemaVersion
   | Some currentVersion \<Rightarrow>
       if currentVersion > LATEST_SCHEMA_VERSION then throw (NewerSchemaVersion currentVersion)
       else and_then (migrations_from copy currentVersion [1, 2, 3] (db_tables db)) (\<lambda>t.
         return \<lparr>db_user_version = Number (int_number LATEST_SCHEMA_VERSION), db_tables = t\<rparr>))"

end
