(* ===== verification/SqliteStore.thy ===== *)
theory SqliteStore
  imports SqliteTables
begin

text \<open>
  The operations of \<^verbatim>\<open>SQLiteStore\<close> (\<^verbatim>\<open>tracker/src/sqlite-store.ts\<close>) over the tables: reading rows back, transactions
  and savepoints, the group commit of per-message writes, and the rollups. An operation returns its result or what
  it throws with the store then; the engine, and the clock in milliseconds, are arguments.
\<close>

section \<open>State\<close>

text \<open>The tables as the connection sees them and as they were at the last commit. A crash loses the difference.\<close>

record SqliteStore =
  sq_tables :: Tables
  sq_committed :: Tables
  sq_inTransaction :: bool
  sq_failureConsensus :: PeerFailureConsensus
  sq_maxSegmentsPerPeer :: nat

definition open_store :: "nat \<Rightarrow> Tables \<Rightarrow> SqliteStore" where
  "open_store maxSegmentsPerPeer t = \<lparr>sq_tables = t, sq_committed = t, sq_inTransaction = False,
     sq_failureConsensus = new_consensus DEFAULT_FAILURE_QUORUM DEFAULT_FAILURE_WINDOW_MS,
     sq_maxSegmentsPerPeer = maxSegmentsPerPeer\<rparr>"

type_synonym 'a answer = "(sqlite_error, 'a) result \<times> SqliteStore"

text \<open>\<^verbatim>\<open>database.transaction(f)()\<close>, and a statement of its own: a transaction, or a savepoint of the open one.\<close>

definition transaction :: "(Tables \<Rightarrow> (sqlite_error, 'a \<times> Tables) result) \<Rightarrow> SqliteStore \<Rightarrow> 'a answer" where
  "transaction f s = (case f (sq_tables s) of
     Inl e \<Rightarrow> (throw e, s)
   | Inr (x, t) \<Rightarrow>
       (return x, s\<lparr>sq_tables := t, sq_committed := (if sq_inTransaction s then sq_committed s else t)\<rparr>))"

text \<open>A write, then what is read from the store.\<close>

definition then_read :: "'a answer \<Rightarrow> (SqliteStore \<Rightarrow> (sqlite_error, 'b) result) \<Rightarrow> 'b answer" where
  "then_read r f = (case r of (Inl e, s) \<Rightarrow> (throw e, s) | (Inr _, s) \<Rightarrow> (f s, s))"

text \<open>The first write of a turn opens a transaction, which the next turn commits.\<close>

definition groupWrites :: "SqliteStore \<Rightarrow> SqliteStore" where
  "groupWrites s = s\<lparr>sq_inTransaction := True\<rparr>"

definition commitGroupedWrites :: "SqliteStore \<Rightarrow> SqliteStore" where
  "commitGroupedWrites s =
     (if sq_inTransaction s then s\<lparr>sq_committed := sq_tables s, sq_inTransaction := False\<rparr> else s)"

text \<open>\<^verbatim>\<open>close\<close> commits what is grouped; the file is left to the engine.\<close>

definition sq_close :: "SqliteStore \<Rightarrow> SqliteStore" where
  "sq_close = commitGroupedWrites"

text \<open>The process dies and opens the file again.\<close>

definition crash :: "SqliteStore \<Rightarrow> SqliteStore" where
  "crash s = open_store (sq_maxSegmentsPerPeer s) (sq_committed s)"

section \<open>Rows\<close>

fun metadata_entries :: "(string \<times> jsval) list \<Rightarrow> (sqlite_error, metadata) result" where
  "metadata_entries [] = return []"
| "metadata_entries ((key, item) # entries) = (case item of
     Str v \<Rightarrow> and_then (metadata_entries entries) (\<lambda>m. return ((key, v) # m))
   | _ \<Rightarrow> throw InvalidMetadata)"

definition parseMetadata :: "SqlEngine \<Rightarrow> string option \<Rightarrow> (sqlite_error, metadata option) result" where
  "parseMetadata engine v = (case v of
     None \<Rightarrow> return None
   | Some text_value \<Rightarrow> (case sql_parse engine text_value of
       Some (Object entries) \<Rightarrow> and_then (metadata_entries entries) (\<lambda>m. return (Some m))
     | _ \<Rightarrow> throw InvalidMetadata))"

definition mapBroadcast :: "SqlEngine \<Rightarrow> string \<times> BroadcastRow \<Rightarrow> (sqlite_error, Broadcast) result" where
  "mapBroadcast engine = (\<lambda>(broadcastId, row). and_then (parseMetadata engine (br_metadata row)) (\<lambda>metadata.
     return \<lparr>bc_id = broadcastId, bc_playlistUrl = br_playlist_url row, bc_metadata = metadata,
       bc_createdAt = br_created_at row, bc_updatedAt = br_updated_at row\<rparr>))"

definition mapPeer :: "SqlEngine \<Rightarrow> string \<Rightarrow> PeerRow \<Rightarrow> string list \<Rightarrow> (sqlite_error, Peer) result" where
  "mapPeer engine peerId row segments = and_then (parseMetadata engine (pe_metadata row)) (\<lambda>metadata.
     return \<lparr>peer_id = peerId, peer_address = pe_address row,
       peer_uploadBandwidthBps = pe_upload_bandwidth_bps row, peer_metadata = metadata,
       peer_segments = segments, peer_joinedAt = pe_joined_at row, peer_lastSeenAt = pe_last_seen_at row,
       peer_latencyMs = pe_latency_ms row, peer_successRate = pe_success_rate row,
       peer_trustScore = pe_trust_score row\<rparr>)"

definition findBroadcast :: "SqlEngine \<Rightarrow> string \<Rightarrow> Tables \<Rightarrow> (sqlite_error, Broadcast option) result" where
  "findBroadcast engine broadcastId t = (case map_get (t_broadcasts t) broadcastId of
     None \<Rightarrow> return None
   | Some row \<Rightarrow> and_then (mapBroadcast engine (broadcastId, row)) (\<lambda>b. return (Some b)))"

definition sq_requireBroadcast :: "SqlEngine \<Rightarrow> string \<Rightarrow> Tables \<Rightarrow> (sqlite_error, Broadcast) result" where
  "sq_requireBroadcast engine broadcastId t = and_then (findBroadcast engine broadcastId t) (\<lambda>found.
     case found of None \<Rightarrow> throw (Refused (BroadcastNotFound broadcastId)) | Some b \<Rightarrow> return b)"

definition findPeer :: "string \<Rightarrow> string \<Rightarrow> Tables \<Rightarrow> PeerRow option" where
  "findPeer broadcastId peerId t = map_get (t_peers t) (broadcastId, peerId)"

definition requirePeerRow :: "SqlEngine \<Rightarrow> string \<Rightarrow> string \<Rightarrow> Tables \<Rightarrow> (sqlite_error, PeerRow) result" where
  "requirePeerRow engine broadcastId peerId t = (case findPeer broadcastId peerId t of
     Some row \<Rightarrow> return row
   | None \<Rightarrow> and_then (sq_requireBroadcast engine broadcastId t) (\<lambda>_. throw (Refused (PeerNotFound peerId))))"

definition sq_requirePeer :: "SqlEngine \<Rightarrow> string \<Rightarrow> string \<Rightarrow> Tables \<Rightarrow> (sqlite_error, Peer) result" where
  "sq_requirePeer engine broadcastId peerId t = and_then (sq_requireBroadcast engine broadcastId t) (\<lambda>_.
     case findPeer broadcastId peerId t of
       None \<Rightarrow> throw (Refused (PeerNotFound peerId))
     | Some row \<Rightarrow> mapPeer engine peerId row (st_getSegments (broadcastId, peerId) t))"

section \<open>Broadcasts\<close>

definition sq_registerBroadcast ::
    "SqlEngine \<Rightarrow> BroadcastRegistration \<Rightarrow> int \<Rightarrow> SqliteStore \<Rightarrow> (Broadcast \<times> bool) answer" where
  "sq_registerBroadcast engine registration now = transaction (\<lambda>t.
     and_then (findBroadcast engine (reg_id registration) t) (\<lambda>existing.
       let metadata = map_option (sql_stringify engine) (reg_metadata registration) in
       and_then (checked (case existing of
           Some _ \<Rightarrow> st_updateBroadcast (reg_id registration) (reg_playlistUrl registration) metadata
             (reg_metadata registration \<noteq> None) now t
         | None \<Rightarrow> st_insertBroadcast (reg_id registration) \<lparr>br_playlist_url = reg_playlistUrl registration,
             br_metadata = metadata, br_created_at = now, br_updated_at = now\<rparr> t)) (\<lambda>t1.
         and_then (sq_requireBroadcast engine (reg_id registration) t1) (\<lambda>b.
           return ((b, existing = None), t1)))))"

definition sq_listBroadcasts :: "SqlEngine \<Rightarrow> SqliteStore \<Rightarrow> (sqlite_error, Broadcast list) result" where
  "sq_listBroadcasts engine s = map_result (mapBroadcast engine) (st_listBroadcasts (sq_tables s))"

definition sq_getBroadcast :: "SqlEngine \<Rightarrow> string \<Rightarrow> SqliteStore \<Rightarrow> (sqlite_error, Broadcast) result" where
  "sq_getBroadcast engine broadcastId s = sq_requireBroadcast engine broadcastId (sq_tables s)"

definition sq_unregisterBroadcast :: "SqlEngine \<Rightarrow> string \<Rightarrow> SqliteStore \<Rightarrow> unit answer" where
  "sq_unregisterBroadcast engine broadcastId s =
     (case sq_requireBroadcast engine broadcastId (sq_tables s) of
        Inl e \<Rightarrow> (throw e, s)
      | Inr _ \<Rightarrow> transaction (\<lambda>t. and_then (checked (st_deleteBroadcast broadcastId
          (st_deleteBroadcastPeers broadcastId (st_deleteBroadcastRetiredStats broadcastId
          (st_deleteBroadcastPeerStats broadcastId (st_deleteBroadcastSegments broadcastId t))))))
          (\<lambda>t1. return ((), t1))) s)"

section \<open>Peers\<close>

definition join_row :: "SqlEngine \<Rightarrow> PeerJoinRequest \<Rightarrow> PeerRow option \<Rightarrow> int \<Rightarrow> PeerRow" where
  "join_row engine request existing now =
     \<lparr>pe_address = join_address request,
      pe_upload_bandwidth_bps = bound (join_uploadBandwidthBps request),
      pe_metadata = map_option (sql_stringify engine) (join_metadata request),
      pe_joined_at = (case existing of None \<Rightarrow> now | Some row \<Rightarrow> pe_joined_at row),
      pe_last_seen_at = now,
      pe_latency_ms = (case existing of None \<Rightarrow> 0 | Some row \<Rightarrow> pe_latency_ms row),
      pe_success_rate = (case existing of None \<Rightarrow> 1 | Some row \<Rightarrow> pe_success_rate row),
      pe_trust_score = (case existing of None \<Rightarrow> 1 | Some row \<Rightarrow> pe_trust_score row)\<rparr>"

definition sq_joinPeerDetailed ::
    "SqlEngine \<Rightarrow> string \<Rightarrow> PeerJoinRequest \<Rightarrow> number option \<Rightarrow> int \<Rightarrow> SqliteStore \<Rightarrow> (Peer \<times> bool) answer" where
  "sq_joinPeerDetailed engine broadcastId request maxPeers now s =
     (case sq_requireBroadcast engine broadcastId (sq_tables s) of
        Inl e \<Rightarrow> (throw e, s)
      | Inr _ \<Rightarrow> transaction (\<lambda>t.
          let key = (broadcastId, join_id request);
              existing = findPeer broadcastId (join_id request) t in
          if existing = None \<and> (case maxPeers of None \<Rightarrow> False
               | Some limit \<Rightarrow> limit \<le> nat_number (st_countPeers broadcastId t))
          then throw (Refused PeerLimitReached)
          else
            and_then (checked (st_upsertPeer key (join_row engine request existing now) t)) (\<lambda>t1.
            and_then (checked (st_insertEmptyPeerStats key t1)) (\<lambda>t2.
            and_then (sq_requirePeer engine broadcastId (join_id request) t2) (\<lambda>peer.
              return ((peer, existing \<noteq> None), t2))))) s)"

definition sq_joinPeer ::
    "SqlEngine \<Rightarrow> string \<Rightarrow> PeerJoinRequest \<Rightarrow> number option \<Rightarrow> int \<Rightarrow> SqliteStore \<Rightarrow> Peer answer" where
  "sq_joinPeer engine broadcastId request maxPeers now s =
     (case sq_joinPeerDetailed engine broadcastId request maxPeers now s of
        (Inl e, s1) \<Rightarrow> (throw e, s1) | (Inr (peer, alreadyJoined), s1) \<Rightarrow> (return peer, s1))"

definition retirePeer :: "SqlEngine \<Rightarrow> string \<times> string \<Rightarrow> Tables \<Rightarrow> (sqlite_error, Tables) result" where
  "retirePeer engine key t =
     and_then (checked (st_accumulateRetiredStats engine key t)) (\<lambda>t1.
     and_then (checked (st_deletePeerStats key t1)) (\<lambda>t2.
     and_then (checked (st_deletePeerSegments key t2)) (\<lambda>t3.
       checked (st_deletePeer key t3))))"

definition sq_leavePeer :: "SqlEngine \<Rightarrow> string \<Rightarrow> string \<Rightarrow> SqliteStore \<Rightarrow> unit answer" where
  "sq_leavePeer engine broadcastId peerId s =
     (case and_then (sq_requireBroadcast engine broadcastId (sq_tables s)) (\<lambda>_.
          sq_requirePeer engine broadcastId peerId (sq_tables s)) of
        Inl e \<Rightarrow> (throw e, s)
      | Inr _ \<Rightarrow> transaction (\<lambda>t. and_then (retirePeer engine (broadcastId, peerId) t) (\<lambda>t1. return ((), t1))) s)"

text \<open>The inventories of the listed peers, by the rows of one query.\<close>

definition add_segment_row :: "string \<times> string \<Rightarrow> (string, string list) jsmap \<Rightarrow> (string, string list) jsmap" where
  "add_segment_row = (\<lambda>(peerId, segment) m. map_set m peerId
     (case map_get m peerId of None \<Rightarrow> [segment] | Some segments \<Rightarrow> segments @ [segment]))"

definition sq_listPeers ::
    "SqlEngine \<Rightarrow> string \<Rightarrow> string option \<Rightarrow> SqliteStore \<Rightarrow> (sqlite_error, Peer list) result" where
  "sq_listPeers engine broadcastId segment s =
     (let t = sq_tables s in
      and_then (sq_requireBroadcast engine broadcastId t) (\<lambda>_.
        let rows = (case segment of
              None \<Rightarrow> st_listPeers broadcastId t | Some x \<Rightarrow> st_listPeersWithSegment broadcastId x t);
            segmentRows = (case segment of
              None \<Rightarrow> st_listBroadcastSegments broadcastId t
            | Some x \<Rightarrow> st_listSegmentsOfPeersWithSegment broadcastId x t);
            segmentsByPeer = fold add_segment_row segmentRows [] in
        if rows = [] then return []
        else map_result (\<lambda>(peerId, row). mapPeer engine peerId row
          (case map_get segmentsByPeer peerId of None \<Rightarrow> [] | Some segments \<Rightarrow> segments)) rows))"

definition sq_getPeer :: "SqlEngine \<Rightarrow> string \<Rightarrow> string \<Rightarrow> SqliteStore \<Rightarrow> (sqlite_error, Peer option) result" where
  "sq_getPeer engine broadcastId peerId s = (case findPeer broadcastId peerId (sq_tables s) of
     None \<Rightarrow> return None
   | Some row \<Rightarrow> and_then (mapPeer engine peerId row (st_getSegments (broadcastId, peerId) (sq_tables s)))
       (\<lambda>peer. return (Some peer)))"

definition sq_listPeerStats :: "SqlEngine \<Rightarrow> string \<Rightarrow> SqliteStore \<Rightarrow> (sqlite_error, PeerState list) result" where
  "sq_listPeerStats engine broadcastId s =
     (let statsByPeer = st_listPeerStats broadcastId (sq_tables s) in
      and_then (sq_listPeers engine broadcastId None s) (\<lambda>peers. return (map (\<lambda>peer.
        \<lparr>ps_peer = peer, ps_stats = (case map_get statsByPeer (peer_id peer) of
           None \<Rightarrow> createEmptyPeerTrafficStats | Some stats \<Rightarrow> stats)\<rparr>) peers)))"

section \<open>Reports\<close>

text \<open>Deleting the rows that are not kept and inserting the new ones.\<close>

definition store_segments ::
    "string \<times> string \<Rightarrow> string list \<Rightarrow> string list \<Rightarrow> Tables \<Rightarrow> (sqlite_error, Tables) result" where
  "store_segments key existing nextSegments t = checked
     (fold (st_insertPeerSegment key) (filter (\<lambda>segment. segment \<notin> set existing) nextSegments)
       (fold (st_deletePeerSegment key) (filter (\<lambda>segment. segment \<notin> set nextSegments) existing) t))"

definition sq_reportSegments ::
    "SqlEngine \<Rightarrow> string \<Rightarrow> string \<Rightarrow> string list \<Rightarrow> bool \<Rightarrow> int \<Rightarrow> SqliteStore \<Rightarrow> Peer answer" where
  "sq_reportSegments engine broadcastId peerId segments replace now s0 =
     (let s = groupWrites s0; key = (broadcastId, peerId) in
      case sq_requirePeer engine broadcastId peerId (sq_tables s) of
        Inl e \<Rightarrow> (throw e, s)
      | Inr _ \<Rightarrow>
          (let existing = st_getSegments key (sq_tables s);
               nextSegments = limitInventory (new_set (if replace then segments else existing @ segments))
                 (sq_maxSegmentsPerPeer s) MAX_INVENTORY_CHARACTERS_PER_PEER in
           then_read (transaction (\<lambda>t. and_then (store_segments key existing nextSegments t) (\<lambda>t1.
               and_then (checked (st_updatePeerLastSeen key now t1)) (\<lambda>t2. return ((), t2)))) s)
             (\<lambda>s1. sq_requirePeer engine broadcastId peerId (sq_tables s1))))"

definition sq_applySegmentDelta ::
    "SqlEngine \<Rightarrow> string \<Rightarrow> string \<Rightarrow> string list \<Rightarrow> string list \<Rightarrow> int \<Rightarrow> SqliteStore \<Rightarrow> Peer answer" where
  "sq_applySegmentDelta engine broadcastId peerId added removed now s0 =
     (let s = groupWrites s0; key = (broadcastId, peerId) in
      case requirePeerRow engine broadcastId peerId (sq_tables s) of
        Inl e \<Rightarrow> (throw e, s)
      | Inr row \<Rightarrow> transaction (\<lambda>t.
          let existing = st_getSegments key t;
              nextSegments = limitInventory (fold set_add added (fold set_delete removed (new_set existing)))
                (sq_maxSegmentsPerPeer s) MAX_INVENTORY_CHARACTERS_PER_PEER;
              stored = filter (\<lambda>segment. segment \<in> set nextSegments) existing @
                filter (\<lambda>segment. segment \<notin> set existing) nextSegments in
          and_then (store_segments key existing nextSegments t) (\<lambda>t1.
          and_then (checked (st_updatePeerLastSeen key now t1)) (\<lambda>t2.
          and_then (mapPeer engine peerId (row\<lparr>pe_last_seen_at := now\<rparr>) stored) (\<lambda>peer.
            return (peer, t2))))) s)"

definition sq_heartbeat ::
    "SqlEngine \<Rightarrow> string \<Rightarrow> string \<Rightarrow> PeerHeartbeat \<Rightarrow> int \<Rightarrow> SqliteStore \<Rightarrow> Peer answer" where
  "sq_heartbeat engine broadcastId peerId heartbeat now s0 =
     (let s = groupWrites s0; key = (broadcastId, peerId) in
      case requirePeerRow engine broadcastId peerId (sq_tables s) of
        Inl e \<Rightarrow> (throw e, s)
      | Inr row \<Rightarrow>
          (let updated = row\<lparr>
                 pe_upload_bandwidth_bps := (case hb_uploadBandwidthBps heartbeat of
                   None \<Rightarrow> pe_upload_bandwidth_bps row | Some v \<Rightarrow> Some (math_max 0 v)),
                 pe_latency_ms := (case hb_latencyMs heartbeat of
                   None \<Rightarrow> pe_latency_ms row | Some v \<Rightarrow> math_max 0 v),
                 pe_success_rate := (case hb_successRate heartbeat of
                   None \<Rightarrow> pe_success_rate row | Some v \<Rightarrow> clampUnitInterval v),
                 pe_last_seen_at := now\<rparr> in
           then_read (transaction (\<lambda>t. and_then (checked (st_updatePeerHealth key updated t)) (\<lambda>t1.
               return ((), t1))) s)
             (\<lambda>s1. mapPeer engine peerId updated (st_getSegments key (sq_tables s1)))))"

definition sq_reportStats ::
    "SqlEngine \<Rightarrow> string \<Rightarrow> string \<Rightarrow> PeerTrafficStats \<Rightarrow> int \<Rightarrow> SqliteStore \<Rightarrow> unit answer" where
  "sq_reportStats engine broadcastId peerId stats now s0 =
     (let s = groupWrites s0; key = (broadcastId, peerId) in
      case requirePeerRow engine broadcastId peerId (sq_tables s) of
        Inl e \<Rightarrow> (throw e, s)
      | Inr _ \<Rightarrow> transaction (\<lambda>t.
          and_then (checked (st_replacePeerStats key (sanitizePeerTrafficStats stats) t)) (\<lambda>t1.
          and_then (checked (st_updatePeerLastSeen key now t1)) (\<lambda>t2. return ((), t2)))) s)"

definition sq_reportPeerFailure ::
    "SqlEngine \<Rightarrow> string \<Rightarrow> string \<Rightarrow> PeerFailureReport \<Rightarrow> int \<Rightarrow> SqliteStore \<Rightarrow> Peer answer" where
  "sq_reportPeerFailure engine broadcastId peerId report now s =
     (case and_then (sq_requirePeer engine broadcastId peerId (sq_tables s)) (\<lambda>reported.
          and_then (sq_requirePeer engine broadcastId (reporterId report) (sq_tables s)) (\<lambda>_. return reported)) of
        Inl e \<Rightarrow> (throw e, s)
      | Inr reported \<Rightarrow>
          (case observe_failure broadcastId peerId report now (sq_failureConsensus s) of
             (agreed, consensus) \<Rightarrow>
               (let s1 = s\<lparr>sq_failureConsensus := consensus\<rparr> in
                if \<not> agreed then (return reported, s1)
                else
                  (case penalizePeerQuality reported (failure_reason report) of
                     (trustScore, successRate) \<Rightarrow>
                       then_read (transaction (\<lambda>t. and_then (checked (st_updatePeerTrust (broadcastId, peerId)
                            trustScore successRate t)) (\<lambda>t1. return ((), t1))) s1)
                         (\<lambda>s2. sq_requirePeer engine broadcastId peerId (sq_tables s2))))))"

fun retire_all :: "SqlEngine \<Rightarrow> (string \<times> string) list \<Rightarrow> Tables \<Rightarrow> (sqlite_error, Tables) result" where
  "retire_all engine [] t = return t"
| "retire_all engine (key # keys) t = and_then (retirePeer engine key t) (retire_all engine keys)"

definition sq_removeStalePeers :: "SqlEngine \<Rightarrow> int \<Rightarrow> int \<Rightarrow> SqliteStore \<Rightarrow> (string \<times> string) list answer" where
  "sq_removeStalePeers engine maxAgeMs now s =
     (let stalePeers = st_listStalePeers (now - maxAgeMs) (sq_tables s) in
      transaction (\<lambda>t. and_then (retire_all engine stalePeers t) (\<lambda>t1. return (stalePeers, t1))) s)"

section \<open>Statistics\<close>

definition sq_getBroadcastStats ::
    "SqlEngine \<Rightarrow> string \<Rightarrow> Tables \<Rightarrow> (sqlite_error, PeerTrafficStats \<times> nat) result" where
  "sq_getBroadcastStats engine broadcastId t = and_then (sq_requireBroadcast engine broadcastId t) (\<lambda>_.
     return (st_getBroadcastStats engine broadcastId t))"

definition sq_getGlobalStats :: "SqlEngine \<Rightarrow> SqliteStore \<Rightarrow> GlobalStats" where
  "sq_getGlobalStats engine s = st_getGlobalStats engine (sq_tables s)"

definition history_entry :: "int \<Rightarrow> string \<Rightarrow> PeerTrafficStats \<times> nat \<Rightarrow> StatsHistoryEntry" where
  "history_entry timestamp broadcastId = (\<lambda>(totals, peers).
     \<lparr>sh_timestamp = timestamp, sh_broadcastId = broadcastId, sh_peers = peers,
      sh_p2pBytes = bytesDownloadedP2P totals, sh_originBytes = bytesDownloadedOrigin totals,
      sh_p2pSuccessRate = (if p2pRequests totals = 0 then 0
        else clampUnitInterval (p2pSuccesses totals / p2pRequests totals))\<rparr>)"

fun rollup_broadcasts ::
    "SqlEngine \<Rightarrow> int \<Rightarrow> Broadcast list \<Rightarrow> Tables \<Rightarrow> (sqlite_error, StatsHistoryEntry list \<times> Tables) result" where
  "rollup_broadcasts engine timestamp [] t = return ([], t)"
| "rollup_broadcasts engine timestamp (b # bs) t =
     and_then (sq_getBroadcastStats engine (bc_id b) t) (\<lambda>totals.
       let entry = history_entry timestamp (bc_id b) totals in
       and_then (rollup_broadcasts engine timestamp bs (st_insertStatsHistory entry t)) (\<lambda>(entries, t1).
         return (entry # entries, t1)))"

definition rollupStats :: "SqlEngine \<Rightarrow> int \<Rightarrow> SqliteStore \<Rightarrow> StatsHistoryEntry list answer" where
  "rollupStats engine timestamp = transaction (\<lambda>t.
     and_then (map_result (mapBroadcast engine) (st_listBroadcasts t)) (\<lambda>bs.
       rollup_broadcasts engine timestamp bs t))"

definition getStatsHistory :: "string option \<Rightarrow> SqliteStore \<Rightarrow> StatsHistoryEntry list" where
  "getStatsHistory broadcastId s = (case broadcastId of
     None \<Rightarrow> st_listStatsHistory (sq_tables s) | Some b \<Rightarrow> st_listBroadcastStatsHistory b (sq_tables s))"

definition pruneStatsHistory :: "int \<Rightarrow> SqliteStore \<Rightarrow> nat answer" where
  "pruneStatsHistory cutoff = transaction (\<lambda>t. return (st_deleteStatsHistoryBefore cutoff t))"

end
