(* ===== verification/SqliteInvariant.thy ===== *)
theory SqliteInvariant
  imports SqliteStore TrackerSpec
begin

text \<open>
  What holds of the SQLite store in any run of operations, rollups, commits and crashes: its tables satisfy the
  constraints of the schema, every peer has its row of counters, metadata can be read back, and a crash leaves
  the tables of a moment no earlier than the last commit of grouped writes.
\<close>

section \<open>Sound tables\<close>

definition readable :: "SqlEngine \<Rightarrow> string option \<Rightarrow> bool" where
  "readable engine v \<longleftrightarrow> is_return (parseMetadata engine v)"

definition keyed :: "Tables \<Rightarrow> bool" where
  "keyed t \<longleftrightarrow> wf_map (t_broadcasts t) \<and> wf_map (t_peers t) \<and> distinct (t_segments t) \<and> wf_map (t_stats t) \<and>
     wf_map (t_retired t)"

definition counted_peers :: "Tables \<Rightarrow> bool" where
  "counted_peers t \<longleftrightarrow> (\<forall>key. map_has (t_peers t) key = map_has (t_stats t) key)"

definition rows_readable :: "SqlEngine \<Rightarrow> Tables \<Rightarrow> bool" where
  "rows_readable engine t \<longleftrightarrow>
     (\<forall>b row. map_get (t_broadcasts t) b = Some row \<longrightarrow> readable engine (br_metadata row)) \<and>
     (\<forall>key row. map_get (t_peers t) key = Some row \<longrightarrow> readable engine (pe_metadata row))"

definition tables_ok :: "SqlEngine \<Rightarrow> Tables \<Rightarrow> bool" where
  "tables_ok engine t \<longleftrightarrow> keyed t \<and> constraints_ok t \<and> counted_peers t \<and> rows_readable engine t"

definition store_ok :: "SqlEngine \<Rightarrow> SqliteStore \<Rightarrow> bool" where
  "store_ok engine s \<longleftrightarrow> tables_ok engine (sq_tables s) \<and> tables_ok engine (sq_committed s)"

lemma no_tables_ok: "tables_ok engine no_tables"
  by (simp add: tables_ok_def keyed_def constraints_ok_def references_ok_def counted_peers_def rows_readable_def
      no_tables_def map_has_def)

lemma checked_return: "checked t = Inr t' \<longleftrightarrow> t' = t \<and> constraints_ok t"
  by (auto simp: checked_def)

lemma map_has_simps [simp]:
  "map_has (map_set m k v) k' \<longleftrightarrow> k' = k \<or> map_has m k'"
  "map_has (map_adjust m k f) k' = map_has m k'"
  "map_has (map_delete m k) k' \<longleftrightarrow> k' \<noteq> k \<and> map_has m k'"
  by (auto simp: map_has_def get_set get_adjust get_delete)

lemma map_has_filter_keys: "map_has (filter (\<lambda>(k, v). P k) m) k \<longleftrightarrow> P k \<and> map_has m k"
  by (simp add: map_has_def get_filter_keys)

lemma get_filter_pairs: "map_get (filter (\<lambda>((a, b), v). P a) m) k = (if P (fst k) then map_get m k else None)"
  by (induction m) auto

lemma map_has_filter_pairs: "map_has (filter (\<lambda>((a, b), v). P a) m) k \<longleftrightarrow> P (fst k) \<and> map_has m k"
  by (simp add: map_has_def get_filter_pairs)

lemma set_entry: "(k, v) \<in> set (map_set m k v)"
  by (induction m) auto

section \<open>Transactions\<close>

definition keeps :: "SqlEngine \<Rightarrow> (Tables \<Rightarrow> (sqlite_error, 'a \<times> Tables) result) \<Rightarrow> bool" where
  "keeps engine f \<longleftrightarrow> (\<forall>t x t'. tables_ok engine t \<longrightarrow> f t = Inr (x, t') \<longrightarrow> tables_ok engine t')"

lemma transaction_ok: "keeps engine f \<Longrightarrow> store_ok engine s \<Longrightarrow> store_ok engine (snd (transaction f s))"
  by (auto simp: transaction_def store_ok_def keeps_def split: sum.split)

lemma grouped_ok: "store_ok engine s \<Longrightarrow> store_ok engine (groupWrites s)"
  by (simp add: store_ok_def groupWrites_def)

lemma transaction_error: "fst (transaction f s) = Inl e \<Longrightarrow> snd (transaction f s) = s"
  by (auto simp: transaction_def split: sum.splits)

section \<open>Statements\<close>

lemmas statement_defs = st_insertBroadcast_def st_updateBroadcast_def st_deleteBroadcastSegments_def
  st_deleteBroadcastPeerStats_def st_deleteBroadcastRetiredStats_def st_deleteBroadcastPeers_def st_deleteBroadcast_def
  st_upsertPeer_def st_updatePeerLastSeen_def st_updatePeerHealth_def st_updatePeerTrust_def
  st_deletePeerSegments_def st_deletePeerSegment_def st_insertPeerSegment_def st_insertEmptyPeerStats_def
  st_replacePeerStats_def st_deletePeerStats_def st_deletePeer_def st_insertStatsHistory_def
  st_deleteStatsHistoryBefore_def

lemma keyed_statements:
  assumes "keyed t"
  shows "keyed (st_insertBroadcast b brow t)" "keyed (st_updateBroadcast b url md has now t)"
    "keyed (st_deleteBroadcastSegments b t)" "keyed (st_deleteBroadcastPeerStats b t)"
    "keyed (st_deleteBroadcastRetiredStats b t)" "keyed (st_deleteBroadcastPeers b t)" "keyed (st_deleteBroadcast b t)"
    "keyed (st_upsertPeer key prow t)" "keyed (st_updatePeerLastSeen key now t)" "keyed (st_updatePeerHealth key prow t)"
    "keyed (st_updatePeerTrust key x y t)" "keyed (st_deletePeerSegments key t)" "keyed (st_deletePeerSegment key g t)"
    "keyed (st_insertPeerSegment key g t)" "keyed (st_insertEmptyPeerStats key t)" "keyed (st_replacePeerStats key st t)"
    "keyed (st_accumulateRetiredStats engine key t)" "keyed (st_deletePeerStats key t)" "keyed (st_deletePeer key t)"
    "keyed (st_insertStatsHistory entry t)"
  using assms unfolding keyed_def
  by (auto simp: statement_defs st_accumulateRetiredStats_def Let_def intro: wf_map_filter split: option.split)

lemma keyed_folds:
  "keyed t \<Longrightarrow> keyed (fold (st_deletePeerSegment key) xs t)"
  "keyed t \<Longrightarrow> keyed (fold (st_insertPeerSegment key) xs t)"
  by (induction xs arbitrary: t) (simp_all add: keyed_statements)

text \<open>A statement that touches only inventories or the history.\<close>

lemma segment_statements [simp]:
  "t_broadcasts (st_deletePeerSegment key g t) = t_broadcasts t" "t_peers (st_deletePeerSegment key g t) = t_peers t"
  "t_stats (st_deletePeerSegment key g t) = t_stats t" "t_retired (st_deletePeerSegment key g t) = t_retired t"
  "t_broadcasts (st_insertPeerSegment key g t) = t_broadcasts t" "t_peers (st_insertPeerSegment key g t) = t_peers t"
  "t_stats (st_insertPeerSegment key g t) = t_stats t" "t_retired (st_insertPeerSegment key g t) = t_retired t"
  by (simp_all add: statement_defs)

lemma segment_folds [simp]:
  "t_broadcasts (fold (st_deletePeerSegment key) xs t) = t_broadcasts t"
  "t_peers (fold (st_deletePeerSegment key) xs t) = t_peers t"
  "t_stats (fold (st_deletePeerSegment key) xs t) = t_stats t"
  "t_retired (fold (st_deletePeerSegment key) xs t) = t_retired t"
  "t_broadcasts (fold (st_insertPeerSegment key) xs t) = t_broadcasts t"
  "t_peers (fold (st_insertPeerSegment key) xs t) = t_peers t"
  "t_stats (fold (st_insertPeerSegment key) xs t) = t_stats t"
  "t_retired (fold (st_insertPeerSegment key) xs t) = t_retired t"
  by (induction xs arbitrary: t) simp_all

lemma tables_same_rows:
  assumes "tables_ok engine t" "keyed t'" "constraints_ok t'" "t_broadcasts t' = t_broadcasts t"
    "\<And>key. map_has (t_peers t') key = map_has (t_peers t) key" "\<And>key. map_has (t_stats t') key = map_has (t_stats t) key"
    "\<And>key row. map_get (t_peers t') key = Some row \<Longrightarrow>
       \<exists>row'. map_get (t_peers t) key = Some row' \<and> pe_metadata row = pe_metadata row'"
  shows "tables_ok engine t'"
  using assms unfolding tables_ok_def counted_peers_def rows_readable_def by metis

lemma get_adjust_row:
  "map_get (map_adjust m k f) k' = Some row \<Longrightarrow> (\<And>r. md (f r) = md r) \<Longrightarrow>
     \<exists>row'. map_get m k' = Some row' \<and> md row = md row'"
  by (auto simp: get_adjust split: if_splits)

lemma adjusted_rows_ok:
  assumes "tables_ok engine t" "constraints_ok (t\<lparr>t_peers := map_adjust (t_peers t) key f\<rparr>)"
    and "\<And>row. pe_metadata (f row) = pe_metadata row"
  shows "tables_ok engine (t\<lparr>t_peers := map_adjust (t_peers t) key f\<rparr>)"
  by (rule tables_same_rows[OF assms(1) _ assms(2)])
    (use assms(1) in \<open>auto simp: tables_ok_def keyed_def assms(3) dest!: get_adjust_row[where md = pe_metadata]\<close>)

lemma update_statements_ok:
  "tables_ok engine t \<Longrightarrow> constraints_ok (st_updatePeerLastSeen key now t) \<Longrightarrow> tables_ok engine (st_updatePeerLastSeen key now t)"
  "tables_ok engine t \<Longrightarrow> constraints_ok (st_updatePeerHealth key prow t) \<Longrightarrow> tables_ok engine (st_updatePeerHealth key prow t)"
  "tables_ok engine t \<Longrightarrow> constraints_ok (st_updatePeerTrust key x y t) \<Longrightarrow> tables_ok engine (st_updatePeerTrust key x y t)"
  unfolding statement_defs by (erule adjusted_rows_ok, assumption, simp)+

lemma replace_stats_ok:
  assumes "tables_ok engine t" "constraints_ok (st_replacePeerStats key stats t)"
  shows "tables_ok engine (st_replacePeerStats key stats t)"
proof -
  have "map_has (t_peers t) key"
    using assms(2) set_entry[of key stats "t_stats t"]
    by (auto simp: constraints_ok_def references_ok_def st_replacePeerStats_def list_all_iff)
  moreover have "keyed t" "counted_peers t" using assms(1) by (simp_all add: tables_ok_def)
  ultimately show ?thesis
    by (intro tables_same_rows[OF assms(1) _ assms(2)])
      (simp_all add: keyed_statements, auto simp: counted_peers_def st_replacePeerStats_def)
qed

lemma segments_ok:
  assumes "tables_ok engine t" "store_segments key existing nextSegments t = Inr t'"
  shows "tables_ok engine t'"
  using assms by (intro tables_same_rows[OF assms(1)])
    (auto simp: store_segments_def checked_return keyed_folds tables_ok_def)

section \<open>Operations\<close>

lemma readable_return: "readable engine v \<longleftrightarrow> (\<exists>m. parseMetadata engine v = Inr m)"
  by (cases "parseMetadata engine v") (simp_all add: readable_def)

lemma requireBroadcast_return:
  "sq_requireBroadcast engine b t = Inr x \<Longrightarrow>
     \<exists>row. map_get (t_broadcasts t) b = Some row \<and> readable engine (br_metadata row)"
  by (auto simp: sq_requireBroadcast_def findBroadcast_def mapBroadcast_def and_then_return readable_return
      split: option.splits)

lemma requirePeer_return:
  "sq_requirePeer engine b p t = Inr x \<Longrightarrow>
     \<exists>row. map_get (t_peers t) (b, p) = Some row \<and> readable engine (pe_metadata row)"
  by (auto simp: sq_requirePeer_def findPeer_def mapPeer_def and_then_return readable_return split: option.splits)

lemma register_ok: "store_ok engine s \<Longrightarrow> store_ok engine (snd (sq_registerBroadcast engine registration now s))"
  unfolding sq_registerBroadcast_def
proof (rule transaction_ok)
  let ?b = "reg_id registration"
  let ?f = "\<lambda>t. and_then (findBroadcast engine ?b t) (\<lambda>existing.
       let metadata = map_option (sql_stringify engine) (reg_metadata registration) in
       and_then (checked (case existing of
           Some _ \<Rightarrow> st_updateBroadcast ?b (reg_playlistUrl registration) metadata
             (reg_metadata registration \<noteq> None) now t
         | None \<Rightarrow> st_insertBroadcast ?b \<lparr>br_playlist_url = reg_playlistUrl registration,
             br_metadata = metadata, br_created_at = now, br_updated_at = now\<rparr> t)) (\<lambda>t1.
         and_then (sq_requireBroadcast engine ?b t1) (\<lambda>b. return ((b, existing = None), t1))))"
  have "tables_ok engine t'" if ok: "tables_ok engine t" and ran: "?f t = Inr (x, t')" for t x t'
  proof -
    obtain b where c: "constraints_ok t'" and b: "sq_requireBroadcast engine ?b t' = Inr b"
      using ran by (auto simp: and_then_return Let_def checked_return split: option.splits)
    have rest: "keyed t'" "t_peers t' = t_peers t" "t_stats t' = t_stats t"
      "\<And>b' row. map_get (t_broadcasts t') b' = Some row \<Longrightarrow> b' \<noteq> ?b \<Longrightarrow> map_get (t_broadcasts t) b' = Some row"
      using ran ok
      by (auto simp: and_then_return Let_def checked_return tables_ok_def keyed_statements split: option.splits)
        (auto simp: st_insertBroadcast_def st_updateBroadcast_def get_set get_adjust)
    show ?thesis
      using ok c rest requireBroadcast_return[OF b] unfolding tables_ok_def counted_peers_def rows_readable_def
      by (metis option.inject)
  qed
  then show "keeps engine ?f" unfolding keeps_def by blast
qed

lemma join_ok:
  "store_ok engine s \<Longrightarrow> store_ok engine (snd (sq_joinPeerDetailed engine broadcastId request maxPeers now s))"
  unfolding sq_joinPeerDetailed_def
proof (split sum.split, intro conjI allI impI)
  fix b assume ok: "store_ok engine s"
  let ?k = "(broadcastId, join_id request)"
  let ?f = "\<lambda>t. let key = ?k; existing = findPeer broadcastId (join_id request) t in
          if existing = None \<and> (case maxPeers of None \<Rightarrow> False
               | Some limit \<Rightarrow> limit \<le> nat_number (st_countPeers broadcastId t))
          then throw (Refused PeerLimitReached)
          else
            and_then (checked (st_upsertPeer key (join_row engine request existing now) t)) (\<lambda>t1.
            and_then (checked (st_insertEmptyPeerStats key t1)) (\<lambda>t2.
            and_then (sq_requirePeer engine broadcastId (join_id request) t2) (\<lambda>peer.
              return ((peer, existing \<noteq> None), t2))))"
  have "tables_ok engine t'" if ok: "tables_ok engine t" and ran: "?f t = Inr (x, t')" for t x t'
  proof -
    obtain row peer where t': "t' = st_insertEmptyPeerStats ?k (st_upsertPeer ?k row t)" and c: "constraints_ok t'"
      and peer: "sq_requirePeer engine broadcastId (join_id request) t' = Inr peer"
      using ran by (auto simp: and_then_return Let_def checked_return split: if_splits)
    have "keyed t'" using ok by (simp add: t' keyed_statements tables_ok_def)
    moreover have "counted_peers t'" using ok
      by (auto simp: t' tables_ok_def counted_peers_def st_insertEmptyPeerStats_def st_upsertPeer_def)
    moreover have "t_broadcasts t' = t_broadcasts t"
      "\<And>key r. map_get (t_peers t') key = Some r \<Longrightarrow> key \<noteq> ?k \<Longrightarrow> map_get (t_peers t) key = Some r"
      by (auto simp: t' st_insertEmptyPeerStats_def st_upsertPeer_def get_set split: if_splits)
    ultimately show ?thesis
      using ok c requirePeer_return[OF peer] unfolding tables_ok_def rows_readable_def by (metis option.inject)
  qed
  then have "keeps engine ?f" unfolding keeps_def by blast
  then show "store_ok engine (snd (transaction ?f s))" using ok by (rule transaction_ok)
qed simp

lemma retire_tables_ok:
  assumes "tables_ok engine t" "retirePeer engine key t = Inr t'"
  shows "tables_ok engine t'"
proof -
  have t': "t' = st_deletePeer key (st_deletePeerSegments key (st_deletePeerStats key (st_accumulateRetiredStats engine key t)))"
    and c: "constraints_ok t'" using assms(2) by (auto simp: retirePeer_def and_then_return checked_return)
  have "t_broadcasts t' = t_broadcasts t" "t_peers t' = map_delete (t_peers t) key"
    "t_stats t' = map_delete (map_delete (t_stats t) key) key"
    by (simp_all add: t' statement_defs st_accumulateRetiredStats_def Let_def split: option.split)
  with assms(1) c show ?thesis
    by (auto simp: tables_ok_def counted_peers_def rows_readable_def get_delete keyed_statements t' split: if_splits)
qed

lemma retire_all_ok: "tables_ok engine t \<Longrightarrow> retire_all engine keys t = Inr t' \<Longrightarrow> tables_ok engine t'"
  by (induction keys arbitrary: t) (auto simp: and_then_return dest: retire_tables_ok)

lemma unregister_ok: "store_ok engine s \<Longrightarrow> store_ok engine (snd (sq_unregisterBroadcast engine b s))"
proof -
  let ?g = "\<lambda>t. st_deleteBroadcast b (st_deleteBroadcastPeers b (st_deleteBroadcastRetiredStats b
          (st_deleteBroadcastPeerStats b (st_deleteBroadcastSegments b t))))"
  assume ok: "store_ok engine s"
  have "tables_ok engine (?g t)" if "tables_ok engine t" "constraints_ok (?g t)" for t
  proof -
    have "keyed (?g t)" using that(1) by (simp add: keyed_statements tables_ok_def)
    with that show ?thesis
      by (simp add: tables_ok_def)
        (auto simp: counted_peers_def rows_readable_def statement_defs Let_def get_delete get_filter_pairs
          map_has_filter_pairs split: if_splits)
  qed
  then have "keeps engine (\<lambda>t. and_then (checked (?g t)) (\<lambda>t1. return ((), t1)))"
    unfolding keeps_def by (auto simp: and_then_return checked_return)
  from transaction_ok[OF this ok] ok show ?thesis by (simp add: sq_unregisterBroadcast_def split: sum.split)
qed

lemma leave_ok: "store_ok engine s \<Longrightarrow> store_ok engine (snd (sq_leavePeer engine b p s))"
  unfolding sq_leavePeer_def
  by (auto split: sum.split intro!: transaction_ok simp: keeps_def and_then_return dest: retire_tables_ok)

lemma stale_ok: "store_ok engine s \<Longrightarrow> store_ok engine (snd (sq_removeStalePeers engine age now s))"
  unfolding sq_removeStalePeers_def Let_def
  by (auto intro!: transaction_ok simp: keeps_def and_then_return dest: retire_all_ok)

lemma then_read_store [simp]: "snd (then_read r f) = snd r"
  by (auto simp: then_read_def split: prod.split sum.split)

lemma segments_report_ok: "store_ok engine s \<Longrightarrow> store_ok engine (snd (sq_reportSegments engine b p segments r now s))"
proof -
  assume ok: "store_ok engine s"
  have "keeps engine (\<lambda>t. and_then (store_segments k old new t) (\<lambda>t1.
      and_then (checked (st_updatePeerLastSeen k now t1)) (\<lambda>t2. return ((), t2))))" for k old new
    by (auto simp: keeps_def and_then_return checked_return intro!: update_statements_ok elim: segments_ok)
  from transaction_ok[OF this grouped_ok[OF ok]] grouped_ok[OF ok] show ?thesis
    unfolding sq_reportSegments_def Let_def by (simp split: sum.split)
qed

lemma delta_ok: "store_ok engine s \<Longrightarrow> store_ok engine (snd (sq_applySegmentDelta engine b p added removed now s))"
  unfolding sq_applySegmentDelta_def Let_def
  by (auto split: sum.split intro!: transaction_ok grouped_ok update_statements_ok
      simp: keeps_def and_then_return checked_return elim: segments_ok)

lemma heartbeat_ok: "store_ok engine s \<Longrightarrow> store_ok engine (snd (sq_heartbeat engine b p h now s))"
proof -
  assume ok: "store_ok engine s"
  have "keeps engine (\<lambda>t. and_then (checked (st_updatePeerHealth k row t)) (\<lambda>t1. return ((), t1)))" for k row
    by (auto simp: keeps_def and_then_return checked_return intro!: update_statements_ok)
  from transaction_ok[OF this grouped_ok[OF ok]] grouped_ok[OF ok] show ?thesis
    unfolding sq_heartbeat_def Let_def by (simp split: sum.split)
qed

lemma stats_ok: "store_ok engine s \<Longrightarrow> store_ok engine (snd (sq_reportStats engine b p st now s))"
  unfolding sq_reportStats_def Let_def
  by (auto split: sum.split intro!: transaction_ok grouped_ok update_statements_ok replace_stats_ok
      simp: keeps_def and_then_return checked_return)

lemma failure_ok: "store_ok engine s \<Longrightarrow> store_ok engine (snd (sq_reportPeerFailure engine b p report now s))"
proof -
  assume ok: "store_ok engine s"
  then have same: "store_ok engine (s\<lparr>sq_failureConsensus := c\<rparr>)" for c by (simp add: store_ok_def)
  have "keeps engine (\<lambda>t. and_then (checked (st_updatePeerTrust k x y t)) (\<lambda>t1. return ((), t1)))" for k x y
    by (auto simp: keeps_def and_then_return checked_return intro!: update_statements_ok)
  from transaction_ok[OF this same] ok same show ?thesis
    unfolding sq_reportPeerFailure_def Let_def by (simp split: sum.split prod.split)
qed

end
