(* ===== verification/SqliteRuns.thy ===== *)
theory SqliteRuns
  imports SqliteInvariant
begin

text \<open>
  Runs of the SQLite store: operations as the tracker calls them, rollups, the ends of turns that commit grouped
  writes, and crashes.
\<close>

section \<open>Calls and their replies\<close>

datatype StoreReply =
    DoneReply
  | BroadcastReply Broadcast bool
  | PeerReply Peer
  | JoinReply Peer bool
  | RemovedReply "(string \<times> string) list"
  | RefusedReply StoreError
  | FailedReply

definition reply_of :: "('a \<Rightarrow> StoreReply) \<Rightarrow> 'a answer \<Rightarrow> StoreReply \<times> SqliteStore" where
  "reply_of f r = (case r of
     (Inl (Refused e), s) \<Rightarrow> (RefusedReply e, s) | (Inl _, s) \<Rightarrow> (FailedReply, s) | (Inr x, s) \<Rightarrow> (f x, s))"

fun sqlite_do :: "SqlEngine \<Rightarrow> store_op \<times> int \<Rightarrow> SqliteStore \<Rightarrow> StoreReply \<times> SqliteStore" where
  "sqlite_do engine (RegisterOp registration, now) s =
     reply_of (\<lambda>(b, created). BroadcastReply b created) (sq_registerBroadcast engine registration now s)"
| "sqlite_do engine (UnregisterOp b, now) s = reply_of (\<lambda>_. DoneReply) (sq_unregisterBroadcast engine b s)"
| "sqlite_do engine (JoinOp b request maxPeers, now) s =
     reply_of (\<lambda>(peer, joined). JoinReply peer joined) (sq_joinPeerDetailed engine b request maxPeers now s)"
| "sqlite_do engine (LeaveOp b p, now) s = reply_of (\<lambda>_. DoneReply) (sq_leavePeer engine b p s)"
| "sqlite_do engine (SegmentsOp b p segments replace, now) s =
     reply_of PeerReply (sq_reportSegments engine b p segments replace now s)"
| "sqlite_do engine (DeltaOp b p added removed, now) s =
     reply_of PeerReply (sq_applySegmentDelta engine b p added removed now s)"
| "sqlite_do engine (HeartbeatOp b p heartbeat, now) s = reply_of PeerReply (sq_heartbeat engine b p heartbeat now s)"
| "sqlite_do engine (StatsOp b p stats, now) s = reply_of (\<lambda>_. DoneReply) (sq_reportStats engine b p stats now s)"
| "sqlite_do engine (FailureOp b p report, now) s =
     reply_of PeerReply (sq_reportPeerFailure engine b p report now s)"
| "sqlite_do engine (SweepOp maxAgeMs, now) s = reply_of RemovedReply (sq_removeStalePeers engine maxAgeMs now s)"

lemma reply_store [simp]: "snd (reply_of f r) = snd r"
  by (auto simp: reply_of_def split: prod.split sum.split sqlite_error.split)

fun error_reply :: "StoreReply \<Rightarrow> bool" where
  "error_reply (RefusedReply e) = True"
| "error_reply FailedReply = True"
| "error_reply _ = False"

lemma reply_error: "(\<And>x. \<not> error_reply (f x)) \<Longrightarrow> error_reply (fst (reply_of f r)) \<longleftrightarrow> \<not> is_return (fst r)"
  by (auto simp: reply_of_def split: prod.split sum.split sqlite_error.split)

lemma reply_errors [simp]:
  "error_reply (fst (reply_of (\<lambda>(b, created). BroadcastReply b created) r1)) \<longleftrightarrow> \<not> is_return (fst r1)"
  "error_reply (fst (reply_of (\<lambda>_. DoneReply) r2)) \<longleftrightarrow> \<not> is_return (fst r2)"
  "error_reply (fst (reply_of (\<lambda>(peer, joined). JoinReply peer joined) r3)) \<longleftrightarrow> \<not> is_return (fst r3)"
  "error_reply (fst (reply_of PeerReply r4)) \<longleftrightarrow> \<not> is_return (fst r4)"
  "error_reply (fst (reply_of RemovedReply r5)) \<longleftrightarrow> \<not> is_return (fst r5)"
  by (rule reply_error; auto)+

section \<open>Events\<close>

datatype sqlite_event =
    StoreCall store_op int
  | RollupTick int
  | HistoryPruned int
  | TurnEnded
  | Crashed

fun sqlite_step :: "SqlEngine \<Rightarrow> sqlite_event \<Rightarrow> SqliteStore \<Rightarrow> SqliteStore" where
  "sqlite_step engine (StoreCall op now) s = snd (sqlite_do engine (op, now) s)"
| "sqlite_step engine (RollupTick now) s = snd (rollupStats engine now s)"
| "sqlite_step engine (HistoryPruned cutoff) s = snd (pruneStatsHistory cutoff s)"
| "sqlite_step engine TurnEnded s = commitGroupedWrites s"
| "sqlite_step engine Crashed s = crash s"

lemma history_ok: "tables_ok engine (t\<lparr>t_history := h\<rparr>) = tables_ok engine t"
  by (simp add: tables_ok_def keyed_def constraints_ok_def references_ok_def counted_peers_def rows_readable_def)

lemma rollup_tables:
  "tables_ok engine t \<Longrightarrow> rollup_broadcasts engine now bs t = Inr (entries, t') \<Longrightarrow> tables_ok engine t'"
proof (induction bs arbitrary: t entries)
  case (Cons b bs)
  then show ?case
    using history_ok[where t = t] by (auto simp: and_then_return Let_def st_insertStatsHistory_def)
qed simp

lemma call_ok: "store_ok engine s \<Longrightarrow> store_ok engine (snd (sqlite_do engine (op, now) s))"
  by (cases op) (simp_all add: register_ok unregister_ok join_ok leave_ok segments_report_ok delta_ok heartbeat_ok
      stats_ok failure_ok stale_ok)

lemma step_ok: "store_ok engine s \<Longrightarrow> store_ok engine (sqlite_step engine e s)"
proof (cases e)
  case (RollupTick now)
  assume "store_ok engine s"
  then show ?thesis
    by (auto simp: RollupTick rollupStats_def keeps_def and_then_return intro!: transaction_ok dest: rollup_tables)
next
  case (HistoryPruned cutoff)
  assume "store_ok engine s"
  then show ?thesis
    by (auto simp: HistoryPruned pruneStatsHistory_def keeps_def st_deleteStatsHistoryBefore_def history_ok
        intro!: transaction_ok)
qed (auto simp: call_ok, auto simp: store_ok_def commitGroupedWrites_def crash_def open_store_def)

interpretation sqlite: kept_by_steps "sqlite_step engine" "store_ok engine"
  by unfold_locales (rule step_ok)

definition sqlite_run :: "SqlEngine \<Rightarrow> sqlite_event list \<Rightarrow> nat \<Rightarrow> SqliteStore" where
  "sqlite_run engine events m = fold (sqlite_step engine) events (open_store m no_tables)"

lemma sqlite_run_ok: "store_ok engine (sqlite_run engine events m)"
  unfolding sqlite_run_def by (rule sqlite.run) (simp add: store_ok_def open_store_def no_tables_ok)

lemma sqlite_run_snoc: "sqlite_run engine (events @ [e]) m = sqlite_step engine e (sqlite_run engine events m)"
  by (simp add: sqlite_run_def)

text \<open>C20: Whatever operations, rollups, commits and crashes the SQLite store sees, its tables satisfy every
  constraint of the schema: keys are unique, references point to rows that exist, quality values lie between 0 and 1,
  counters are not negative; each peer has its row of counters, and all stored metadata can be read back.\<close>

theorem sqlite_tables_sound:
  "tables_ok engine (sq_tables (sqlite_run engine events m)) \<and>
   tables_ok engine (sq_committed (sqlite_run engine events m))"
  using sqlite_run_ok[of engine events m] by (simp add: store_ok_def)

section \<open>Crashes\<close>

lemma transaction_committed:
  "sq_committed (snd (transaction f s)) = sq_committed s \<and> sq_inTransaction s \<or>
   sq_committed (snd (transaction f s)) = sq_tables (snd (transaction f s)) \<and> \<not> sq_inTransaction s \<or>
   snd (transaction f s) = s"
  by (auto simp: transaction_def split: sum.split)

text \<open>Outside a transaction everything is committed.\<close>

definition settled :: "SqliteStore \<Rightarrow> bool" where
  "settled s \<longleftrightarrow> sq_inTransaction s \<or> sq_committed s = sq_tables s"

text \<open>An operation leaves what is committed alone, or commits everything.\<close>

definition commits :: "SqliteStore \<Rightarrow> SqliteStore \<Rightarrow> bool" where
  "commits s s' \<longleftrightarrow> settled s' \<and> (sq_committed s' = sq_committed s \<or> sq_committed s' = sq_tables s')"

lemma commits_transaction: "settled s \<Longrightarrow> commits s (snd (transaction f s))"
  by (auto simp: commits_def settled_def transaction_def split: sum.split)

lemma commits_refl: "settled s \<Longrightarrow> commits s s"
  by (simp add: commits_def)

lemma commits_grouped: "commits (groupWrites s) s' \<Longrightarrow> commits s s'" and settled_grouped: "settled (groupWrites s)"
  by (simp_all add: commits_def settled_def groupWrites_def)

lemma commits_consensus: "commits (s\<lparr>sq_failureConsensus := c\<rparr>) s' \<Longrightarrow> commits s s'"
  by (simp add: commits_def settled_def)

lemma settled_consensus: "settled s \<Longrightarrow> settled (s\<lparr>sq_failureConsensus := c\<rparr>)"
  by (simp add: settled_def)

lemmas commit_intros = commits_transaction commits_refl settled_grouped

lemma grouped_commits:
  assumes "settled s"
  shows "commits s (snd (sq_reportSegments engine b p segments r now s))"
    "commits s (snd (sq_applySegmentDelta engine b p added removed now s))"
    "commits s (snd (sq_heartbeat engine b p h now s))" "commits s (snd (sq_reportStats engine b p st now s))"
  unfolding sq_reportSegments_def sq_applySegmentDelta_def sq_heartbeat_def sq_reportStats_def Let_def
  by (rule commits_grouped, simp add: commit_intros split: sum.split)+

lemma failure_commits:
  assumes "settled s"
  shows "commits s (snd (sq_reportPeerFailure engine b p report now s))"
proof -
  have "commits s (s\<lparr>sq_failureConsensus := c\<rparr>)"
    "commits s (snd (transaction f (s\<lparr>sq_failureConsensus := c\<rparr>)))" for c and f :: "Tables \<Rightarrow> (sqlite_error, unit \<times> Tables) result"
    using settled_consensus[OF assms] by (auto intro: commits_consensus commit_intros)
  with assms show ?thesis
    by (simp add: sq_reportPeerFailure_def Let_def commit_intros split: sum.split prod.split)
qed

lemma call_commits: "settled s \<Longrightarrow> commits s (snd (sqlite_do engine (op, now) s))"
  by (cases op) (simp_all add: grouped_commits failure_commits sq_registerBroadcast_def sq_unregisterBroadcast_def
      sq_joinPeerDetailed_def sq_leavePeer_def sq_removeStalePeers_def commit_intros Let_def split: sum.split)

lemma step_commits: "settled s \<Longrightarrow> e \<noteq> TurnEnded \<Longrightarrow> commits s (sqlite_step engine e s)"
proof (cases e)
  case Crashed
  then show ?thesis by (simp add: commits_def settled_def crash_def open_store_def)
qed (simp_all add: call_commits rollupStats_def pruneStatsHistory_def commits_transaction)

lemma turn_commits: "settled s \<Longrightarrow> sq_committed (commitGroupedWrites s) = sq_tables (commitGroupedWrites s)"
  by (auto simp: commitGroupedWrites_def settled_def)

lemma committed_prefix:
  "settled (sqlite_run engine events m) \<and> (\<exists>n. TurnEnded \<notin> set (drop n events) \<and>
     sq_committed (sqlite_run engine events m) = sq_tables (sqlite_run engine (take n events) m))"
proof (induction events rule: rev_induct)
  case Nil
  show ?case by (simp add: sqlite_run_def open_store_def settled_def)
next
  case (snoc e events)
  let ?s = "sqlite_run engine events m" and ?s' = "sqlite_run engine (events @ [e]) m"
  from snoc obtain n where settled: "settled ?s" and n: "TurnEnded \<notin> set (drop n events)"
    "sq_committed ?s = sq_tables (sqlite_run engine (take n events) m)" by blast
  have all: "\<exists>n. TurnEnded \<notin> set (drop n (events @ [e])) \<and>
      sq_committed ?s' = sq_tables (sqlite_run engine (take n (events @ [e])) m)" if "sq_committed ?s' = sq_tables ?s'"
    using that by (intro exI[of _ "length (events @ [e])"]) simp
  show ?case
  proof (cases "e = TurnEnded")
    case True
    then have "sq_committed ?s' = sq_tables ?s'" using turn_commits[OF settled] by (simp add: sqlite_run_snoc)
    with all show ?thesis by (simp add: settled_def)
  next
    case False
    have commits: "commits ?s ?s'" using step_commits[OF settled False] by (simp add: sqlite_run_snoc)
    show ?thesis
    proof (cases "sq_committed ?s' = sq_tables ?s'")
      case True
      with all show ?thesis by (simp add: settled_def)
    next
      case diff: False
      with commits have same: "sq_committed ?s' = sq_committed ?s" by (simp add: commits_def)
      let ?n = "min n (length events)"
      have "TurnEnded \<notin> set (drop ?n (events @ [e]))" using n(1) False by (auto simp: min_def)
      moreover have "take ?n (events @ [e]) = take n events" by (simp add: min_def)
      ultimately show ?thesis using commits same n(2) by (auto simp: commits_def)
    qed
  qed
qed

text \<open>C21: A crash loses no more than the current turn: the tables found again are those of some earlier moment of the run,
  after which no turn had ended.\<close>

theorem sqlite_crash_loses_turn:
  "\<exists>n. TurnEnded \<notin> set (drop n events) \<and>
     sq_tables (crash (sqlite_run engine events m)) = sq_tables (sqlite_run engine (take n events) m)"
  using committed_prefix[of engine events m] by (simp add: crash_def open_store_def)

section \<open>Errors\<close>

lemma requirePeer_total:
  assumes "tables_ok engine t" "map_has (t_peers t) (b, p)"
  shows "is_return (sq_requirePeer engine b p t)"
proof -
  obtain row where row: "map_get (t_peers t) (b, p) = Some row" using assms(2) by (auto simp: map_has_def)
  then have member: "((b, p), row) \<in> set (t_peers t)" by (rule map_of_SomeD)
  have references: "references_ok t" using assms(1) by (simp add: tables_ok_def constraints_ok_def)
  have "map_has (t_broadcasts t) b" using references member unfolding references_ok_def by (fastforce simp: list_all_iff)
  then obtain brow where brow: "map_get (t_broadcasts t) b = Some brow" by (auto simp: map_has_def)
  have "readable engine (br_metadata brow)" "readable engine (pe_metadata row)"
    using assms(1) row brow by (auto simp: tables_ok_def rows_readable_def)
  with row brow show ?thesis
    by (auto simp: sq_requirePeer_def sq_requireBroadcast_def findBroadcast_def mapBroadcast_def findPeer_def mapPeer_def
        readable_return)
qed

lemma transaction_return: "is_return (fst (transaction f s)) \<Longrightarrow>
    \<exists>x. f (sq_tables s) = Inr (x, sq_tables (snd (transaction f s)))"
  by (auto simp: transaction_def split: sum.splits)

lemma then_read_error:
  assumes "\<not> is_return (fst (then_read r f))" "is_return (fst r) \<Longrightarrow> is_return (f (snd r))"
    "\<not> is_return (fst r) \<Longrightarrow> snd r = s"
  shows "snd r = s"
  using assms by (auto simp: then_read_def split: prod.splits sum.splits)

lemma transaction_undone: "\<not> is_return (fst (transaction f s)) \<Longrightarrow> snd (transaction f s) = s"
  by (auto simp: transaction_def split: sum.splits)

lemma then_read_undone:
  "\<not> is_return (fst (then_read (transaction f s) g)) \<Longrightarrow>
     (is_return (fst (transaction f s)) \<Longrightarrow> is_return (g (snd (transaction f s)))) \<Longrightarrow> snd (transaction f s) = s"
  by (rule then_read_error[OF _ _ transaction_undone])

lemma report_written:
  "and_then (store_segments k old new t) (\<lambda>t1. and_then (checked (st_updatePeerLastSeen k now t1)) (\<lambda>t2. return ((), t2))) =
     Inr (u, t') \<Longrightarrow> map_has (t_peers t') k' = map_has (t_peers t) k'"
  by (auto simp: and_then_return checked_return store_segments_def st_updatePeerLastSeen_def)

lemma trust_written:
  "and_then (checked (st_updatePeerTrust k x y t)) (\<lambda>t1. return ((), t1)) = Inr (u, t') \<Longrightarrow>
     map_has (t_peers t') k' = map_has (t_peers t) k'"
  by (auto simp: and_then_return checked_return st_updatePeerTrust_def)

lemma report_undone:
  assumes "store_ok engine s" "\<not> is_return (fst (sq_reportSegments engine b p segments r now s))"
  shows "sq_tables (snd (sq_reportSegments engine b p segments r now s)) = sq_tables s"
proof (cases "sq_requirePeer engine b p (sq_tables (groupWrites s))")
  case (Inr peer)
  let ?k = "(b, p)"
  let ?next = "limitInventory (new_set (if r then segments else st_getSegments ?k (sq_tables (groupWrites s)) @ segments))
    (sq_maxSegmentsPerPeer (groupWrites s)) MAX_INVENTORY_CHARACTERS_PER_PEER"
  let ?f = "\<lambda>t. and_then (store_segments ?k (st_getSegments ?k (sq_tables (groupWrites s))) ?next t) (\<lambda>t1.
    and_then (checked (st_updatePeerLastSeen ?k now t1)) (\<lambda>t2. return ((), t2)))"
  let ?w = "transaction ?f (groupWrites s)"
  have report: "sq_reportSegments engine b p segments r now s =
      then_read ?w (\<lambda>s1. sq_requirePeer engine b p (sq_tables s1))"
    using Inr by (simp add: sq_reportSegments_def Let_def)
  have "keeps engine ?f"
    by (auto simp: keeps_def and_then_return checked_return intro!: update_statements_ok elim: segments_ok)
  from transaction_ok[OF this grouped_ok[OF assms(1)]] have ok: "tables_ok engine (sq_tables (snd ?w))"
    unfolding store_ok_def by (rule conjunct1)
  have "is_return (sq_requirePeer engine b p (sq_tables (snd ?w)))" if "is_return (fst ?w)"
  proof (rule requirePeer_total[OF ok])
    from transaction_return[OF that] obtain u where "?f (sq_tables (groupWrites s)) = Inr (u, sq_tables (snd ?w))" by blast
    from report_written[OF this] requirePeer_return[OF Inr] show "map_has (t_peers (sq_tables (snd ?w))) ?k"
      by (auto simp: map_has_def)
  qed
  from then_read_undone[OF assms(2)[unfolded report] this] have "snd ?w = groupWrites s" .
  then show ?thesis by (simp add: report groupWrites_def)
qed (simp add: sq_reportSegments_def Let_def groupWrites_def)

lemma heartbeat_undone:
  assumes "store_ok engine s" "\<not> is_return (fst (sq_heartbeat engine b p h now s))"
  shows "sq_tables (snd (sq_heartbeat engine b p h now s)) = sq_tables s"
proof (cases "requirePeerRow engine b p (sq_tables (groupWrites s))")
  case (Inr row)
  then have row: "map_get (t_peers (sq_tables s)) (b, p) = Some row"
    by (auto simp: requirePeerRow_def findPeer_def groupWrites_def and_then_return split: option.splits)
  then have "readable engine (pe_metadata row)"
    using assms(1) by (auto simp: store_ok_def tables_ok_def rows_readable_def)
  then have read: "is_return (mapPeer engine p row' segments)" if "pe_metadata row' = pe_metadata row" for row' segments
    using that by (auto simp: mapPeer_def readable_return)
  show ?thesis using Inr assms(2) read
    by (auto simp: sq_heartbeat_def Let_def then_read_def transaction_def groupWrites_def split: sum.splits prod.splits)
qed (simp add: sq_heartbeat_def Let_def groupWrites_def)

lemma failure_undone:
  assumes "store_ok engine s" "\<not> is_return (fst (sq_reportPeerFailure engine b p report now s))"
  shows "sq_tables (snd (sq_reportPeerFailure engine b p report now s)) = sq_tables s"
proof (cases "and_then (sq_requirePeer engine b p (sq_tables s)) (\<lambda>reported.
    and_then (sq_requirePeer engine b (reporterId report) (sq_tables s)) (\<lambda>_. return reported))")
  case (Inr reported)
  obtain agreed c x y where parts: "observe_failure b p report now (sq_failureConsensus s) = (agreed, c)"
    "penalizePeerQuality reported (failure_reason report) = (x, y)" by (metis surj_pair)
  let ?s = "s\<lparr>sq_failureConsensus := c\<rparr>"
  let ?f = "\<lambda>t. and_then (checked (st_updatePeerTrust (b, p) x y t)) (\<lambda>t1. return ((), t1))"
  let ?w = "transaction ?f ?s"
  have keeps: "keeps engine ?f" by (auto simp: keeps_def and_then_return checked_return intro!: update_statements_ok)
  have "store_ok engine ?s" using assms(1) by (simp add: store_ok_def)
  from transaction_ok[OF keeps this] have ok: "tables_ok engine (sq_tables (snd ?w))"
    unfolding store_ok_def by (rule conjunct1)
  have read: "is_return (sq_requirePeer engine b p (sq_tables (snd ?w)))" if "is_return (fst ?w)"
  proof (rule requirePeer_total[OF ok])
    from Inr have "map_has (t_peers (sq_tables s)) (b, p)"
      by (auto simp: and_then_return map_has_def dest!: requirePeer_return)
    moreover from transaction_return[OF that] obtain u where "?f (sq_tables ?s) = Inr (u, sq_tables (snd ?w))" by blast
    from trust_written[OF this] have "map_has (t_peers (sq_tables (snd ?w))) (b, p) = map_has (t_peers (sq_tables s)) (b, p)"
      by simp
    ultimately show "map_has (t_peers (sq_tables (snd ?w))) (b, p)" by simp
  qed
  show ?thesis
  proof (cases agreed)
    case True
    then have report: "sq_reportPeerFailure engine b p report now s =
        then_read ?w (\<lambda>s1. sq_requirePeer engine b p (sq_tables s1))"
      using Inr parts by (simp add: sq_reportPeerFailure_def Let_def)
    from then_read_undone[OF assms(2)[unfolded report] read] have "snd ?w = ?s" .
    then show ?thesis by (simp add: report)
  qed (use Inr parts in \<open>simp add: sq_reportPeerFailure_def Let_def\<close>)
qed (simp add: sq_reportPeerFailure_def)

lemma call_undone:
  assumes "store_ok engine s" "error_reply (fst (sqlite_do engine (op, now) s))"
  shows "sq_tables (snd (sqlite_do engine (op, now) s)) = sq_tables s"
proof -
  show ?thesis
    using assms
    by (cases op) (auto simp: report_undone heartbeat_undone failure_undone sq_registerBroadcast_def
        sq_unregisterBroadcast_def sq_joinPeerDetailed_def sq_leavePeer_def sq_removeStalePeers_def
        sq_applySegmentDelta_def sq_reportStats_def groupWrites_def Let_def transaction_undone
        split: sum.splits)
qed

text \<open>C31: An operation of the SQLite store that throws leaves the tables as they were, also in the middle of a group of
  writes and whatever happened before.\<close>

theorem sqlite_errors_undone:
  "let s = sqlite_run engine events m in
   if error_reply (fst (sqlite_do engine (op, now) s)) then sq_tables (snd (sqlite_do engine (op, now) s)) = sq_tables s
   else True"
  using call_undone[OF sqlite_run_ok] by (simp add: Let_def)

end
