(* ===== verification/SqliteRefinement.thy ===== *)
theory SqliteRefinement
  imports SqliteRuns "HOL-Library.Multiset"
begin

text \<open>
  The SQLite store implements the in-memory one: read as the state of the in-memory store, its tables change under
  every operation as that state does, with the same replies and errors, up to the order of inventories.
\<close>

section \<open>The state the tables stand for\<close>

definition read_metadata :: "SqlEngine \<Rightarrow> string option \<Rightarrow> metadata option" where
  "read_metadata engine v = (case parseMetadata engine v of Inl e \<Rightarrow> None | Inr m \<Rightarrow> m)"

definition abs_broadcast :: "SqlEngine \<Rightarrow> string \<Rightarrow> BroadcastRow \<Rightarrow> Broadcast" where
  "abs_broadcast engine b row = \<lparr>bc_id = b, bc_playlistUrl = br_playlist_url row,
     bc_metadata = read_metadata engine (br_metadata row), bc_createdAt = br_created_at row, bc_updatedAt = br_updated_at row\<rparr>"

definition abs_peer :: "SqlEngine \<Rightarrow> string \<Rightarrow> PeerRow \<Rightarrow> string list \<Rightarrow> Peer" where
  "abs_peer engine p row segments = \<lparr>peer_id = p, peer_address = pe_address row,
     peer_uploadBandwidthBps = pe_upload_bandwidth_bps row, peer_metadata = read_metadata engine (pe_metadata row),
     peer_segments = segments, peer_joinedAt = pe_joined_at row, peer_lastSeenAt = pe_last_seen_at row,
     peer_latencyMs = pe_latency_ms row, peer_successRate = pe_success_rate row, peer_trustScore = pe_trust_score row\<rparr>"

definition stats_of :: "('k, PeerTrafficStats) jsmap \<Rightarrow> 'k \<Rightarrow> PeerTrafficStats" where
  "stats_of m key = (case map_get m key of None \<Rightarrow> createEmptyPeerTrafficStats | Some stats \<Rightarrow> stats)"

definition abs_entry :: "SqlEngine \<Rightarrow> Tables \<Rightarrow> string \<Rightarrow> string \<Rightarrow> PeerRow \<Rightarrow> PeerState" where
  "abs_entry engine t b p row =
     \<lparr>ps_peer = abs_peer engine p row (st_getSegments (b, p) t), ps_stats = stats_of (t_stats t) (b, p)\<rparr>"

definition abs_state :: "SqlEngine \<Rightarrow> Tables \<Rightarrow> string \<Rightarrow> BroadcastRow \<Rightarrow> BroadcastState" where
  "abs_state engine t b row = \<lparr>bs_broadcast = abs_broadcast engine b row,
     bs_peers = map (\<lambda>(p, r). (p, abs_entry engine t b p r)) (peers_of_broadcast b t),
     bs_retiredStats = stats_of (t_retired t) b\<rparr>"

definition abs_tables :: "SqlEngine \<Rightarrow> Tables \<Rightarrow> (string, BroadcastState) jsmap" where
  "abs_tables engine t = map (\<lambda>(b, row). (b, abs_state engine t b row)) (t_broadcasts t)"

definition abs_store :: "SqlEngine \<Rightarrow> SqliteStore \<Rightarrow> TrackerStore" where
  "abs_store engine s = \<lparr>ts_broadcasts = abs_tables engine (sq_tables s),
     ts_failureConsensus = sq_failureConsensus s, ts_maxSegmentsPerPeer = sq_maxSegmentsPerPeer s\<rparr>"

section \<open>Maps\<close>

lemma get_map_keyed: "map_get (map (\<lambda>(k, v). (k, f k v)) m) k = map_option (f k) (map_get m k)"
  by (induction m) auto

lemma set_map_keyed:
  assumes "wf_map m" "\<And>k' v. k' \<noteq> k \<Longrightarrow> f' k' v = f k' v"
  shows "map (\<lambda>(k, v). (k, f' k v)) (map_set m k v) = map_set (map (\<lambda>(k, v). (k, f k v)) m) k (f' k v)"
  using assms(1)
proof (induction m)
  case (Cons x m)
  have "map (\<lambda>(k, v). (k, f' k v)) m = map (\<lambda>(k, v). (k, f k v)) m" if "k \<notin> set (map_keys m)"
    using that assms(2) by (force intro!: map_cong)
  with Cons show ?case by (cases x) (auto simp: wf_map_Cons assms(2))
qed simp

lemma replace_map_keyed:
  assumes "wf_map m" "map_get m k = Some v" "\<And>k' v'. k' \<noteq> k \<Longrightarrow> f' k' v' = f k' v'"
  shows "map (\<lambda>(k, v). (k, f' k v)) m = map_set (map (\<lambda>(k, v). (k, f k v)) m) k (f' k v)"
proof -
  have "map_set m k v = m" using assms(1,2) by (induction m) (auto simp: wf_map_Cons split: if_splits)
  with set_map_keyed[where f' = f' and f = f and v = v and k = k, OF assms(1,3)] show ?thesis by simp
qed

lemma delete_map_keyed: "map (\<lambda>(k, v). (k, f k v)) (map_delete m k) = map_delete (map (\<lambda>(k, v). (k, f k v)) m) k"
  by (induction m) auto

lemma adjust_as_set: "map_get m k = Some v \<Longrightarrow> map_adjust m k f = map_set m k (f v)"
  by (simp add: map_adjust_def)

lemma get_peers_of: "map_get (peers_of_broadcast b t) p = map_get (t_peers t) (b, p)"
proof -
  have "map_get (map (\<lambda>((b', p), row). (p, row)) (filter (\<lambda>((b', p), row). b' = b) m)) p = map_get m (b, p)"
    for m :: "(string \<times> string, PeerRow) jsmap"
    by (induction m) auto
  then show ?thesis by (simp add: peers_of_broadcast_def)
qed

lemma keys_peers_of: "p \<in> set (map_keys (peers_of_broadcast b t)) \<longleftrightarrow> (b, p) \<in> set (map_keys (t_peers t))"
  by (force simp: peers_of_broadcast_def)

lemma wf_peers_of: "wf_map (t_peers t) \<Longrightarrow> wf_map (peers_of_broadcast b t)"
proof -
  have "wf_map (map (\<lambda>((b', p), row). (p, row)) (filter (\<lambda>((b', p), row). b' = b) m))" if "wf_map m"
    for m :: "(string \<times> string, PeerRow) jsmap"
    using that by (induction m) (force simp: wf_map_def)+
  then show "wf_map (t_peers t) \<Longrightarrow> ?thesis" by (simp add: peers_of_broadcast_def)
qed

lemma peers_of_set:
  assumes "t_peers t' = map_set (t_peers t) (b, p) row"
  shows "peers_of_broadcast b' t' = (if b' = b then map_set (peers_of_broadcast b t) p row else peers_of_broadcast b' t)"
proof -
  have "map (\<lambda>((b, p), row). (p, row)) (filter (\<lambda>((c, p), row). c = b') (map_set m (b, p) row)) =
      (let rows = map (\<lambda>((b, p), row). (p, row)) (filter (\<lambda>((c, p), row). c = b') m) in
       if b' = b then map_set rows p row else rows)" for m :: "(string \<times> string, PeerRow) jsmap"
    by (induction m) (auto simp: Let_def split: if_splits)
  then show ?thesis by (simp add: peers_of_broadcast_def assms Let_def)
qed

lemma peers_of_delete:
  assumes "t_peers t' = map_delete (t_peers t) (b, p)"
  shows "peers_of_broadcast b' t' = (if b' = b then map_delete (peers_of_broadcast b t) p else peers_of_broadcast b' t)"
proof -
  have "map (\<lambda>((b, p), row). (p, row)) (filter (\<lambda>((c, p), row). c = b') (map_delete m (b, p))) =
      (let rows = map (\<lambda>((b, p), row). (p, row)) (filter (\<lambda>((c, p), row). c = b') m) in
       if b' = b then map_delete rows p else rows)" for m :: "(string \<times> string, PeerRow) jsmap"
    by (induction m) (auto simp: Let_def split: if_splits)
  then show ?thesis by (simp add: peers_of_broadcast_def assms Let_def)
qed

section \<open>Reading the tables\<close>

lemma get_abs: "map_get (abs_tables engine t) b = map_option (abs_state engine t b) (map_get (t_broadcasts t) b)"
  by (simp add: abs_tables_def get_map_keyed)

lemma get_abs_peer:
  "map_get (bs_peers (abs_state engine t b row)) p = map_option (abs_entry engine t b p) (map_get (t_peers t) (b, p))"
  by (simp add: abs_state_def get_map_keyed get_peers_of)

lemma parse_readable: "readable engine v \<Longrightarrow> parseMetadata engine v = Inr (read_metadata engine v)"
  by (auto simp: readable_return read_metadata_def)

lemma mapPeer_abs: "readable engine (pe_metadata row) \<Longrightarrow> mapPeer engine p row segments = Inr (abs_peer engine p row segments)"
  by (simp add: mapPeer_def parse_readable abs_peer_def)

lemma mapBroadcast_abs: "readable engine (br_metadata row) \<Longrightarrow> mapBroadcast engine (b, row) = Inr (abs_broadcast engine b row)"
  by (simp add: mapBroadcast_def parse_readable abs_broadcast_def)

lemma keys_ok:
  assumes "tables_ok engine t"
  shows "wf_map (t_broadcasts t)" "wf_map (t_peers t)" "distinct (t_segments t)" "wf_map (t_stats t)" "wf_map (t_retired t)"
  using assms by (auto simp: tables_ok_def keyed_def)

lemma row_readable:
  assumes "tables_ok engine t"
  shows "map_get (t_broadcasts t) b = Some brow \<Longrightarrow> readable engine (br_metadata brow)"
    "map_get (t_peers t) key = Some row \<Longrightarrow> readable engine (pe_metadata row)"
  using assms unfolding tables_ok_def rows_readable_def by blast+

lemma peer_broadcast:
  assumes "tables_ok engine t" "map_get (t_peers t) (b, p) = Some row"
  shows "\<exists>brow. map_get (t_broadcasts t) b = Some brow"
proof -
  from map_of_SomeD[OF assms(2)] have "map_has (t_broadcasts t) b"
    using assms(1) by (fastforce simp: tables_ok_def constraints_ok_def references_ok_def list_all_iff)
  then show ?thesis by (auto simp: map_has_def)
qed

lemma peer_counted:
  assumes "tables_ok engine t" "map_get (t_peers t) key = Some row"
  shows "\<exists>stats. map_get (t_stats t) key = Some stats"
proof -
  have "map_has (t_peers t) key = map_has (t_stats t) key" using assms(1) unfolding tables_ok_def counted_peers_def by blast
  with assms(2) show ?thesis by (auto simp: map_has_def)
qed

lemma no_peer_rows:
  assumes "tables_ok engine t" "map_get (t_peers t) (b, p) = None"
  shows "map_get (t_stats t) (b, p) = None" "st_getSegments (b, p) t = []"
proof -
  have "map_has (t_peers t) (b, p) = map_has (t_stats t) (b, p)"
    using assms(1) unfolding tables_ok_def counted_peers_def by blast
  with assms(2) show "map_get (t_stats t) (b, p) = None" by (auto simp: map_has_def)
  have "map_has (t_peers t) (b', p')" if "(b', p', g) \<in> set (t_segments t)" for b' p' g
    using assms(1) that by (fastforce simp: tables_ok_def constraints_ok_def references_ok_def list_all_iff)
  with assms(2) show "st_getSegments (b, p) t = []" by (force simp: st_getSegments_def filter_empty_conv map_has_def)
qed

lemma no_broadcast_rows:
  assumes "tables_ok engine t" "map_get (t_broadcasts t) b = None"
  shows "peers_of_broadcast b t = []" "map_get (t_retired t) b = None"
proof -
  have none: "map_get (t_peers t) (b, p) = None" for p
    using peer_broadcast[OF assms(1), of b p] assms(2) by (cases "map_get (t_peers t) (b, p)") auto
  show "peers_of_broadcast b t = []"
  proof (cases "peers_of_broadcast b t")
    case (Cons x xs)
    then have "map_get (peers_of_broadcast b t) (fst x) = Some (snd x)" by simp
    with none show ?thesis by (simp add: get_peers_of)
  qed simp
  show "map_get (t_retired t) b = None"
  proof (rule ccontr)
    assume "map_get (t_retired t) b \<noteq> None"
    then obtain stats where "(b, stats) \<in> set (t_retired t)" using map_of_SomeD by fastforce
    then have "map_has (t_broadcasts t) b"
      using assms(1) by (fastforce simp: tables_ok_def constraints_ok_def references_ok_def list_all_iff)
    with assms(2) show False by (simp add: map_has_def)
  qed
qed

lemma findBroadcast_abs:
  "tables_ok engine t \<Longrightarrow>
    findBroadcast engine b t = Inr (map_option (abs_broadcast engine b) (map_get (t_broadcasts t) b))"
  using row_readable(1)[of engine t b] by (auto simp: findBroadcast_def mapBroadcast_abs split: option.split)

lemma requireBroadcast_abs:
  "tables_ok engine t \<Longrightarrow> sq_requireBroadcast engine b t = (case map_get (t_broadcasts t) b of
     None \<Rightarrow> throw (Refused (BroadcastNotFound b)) | Some row \<Rightarrow> return (abs_broadcast engine b row))"
  by (auto simp: sq_requireBroadcast_def findBroadcast_abs split: option.split)

lemma requirePeer_abs:
  "tables_ok engine t \<Longrightarrow> sq_requirePeer engine b p t = (case map_get (t_broadcasts t) b of
     None \<Rightarrow> throw (Refused (BroadcastNotFound b))
   | Some brow \<Rightarrow> (case map_get (t_peers t) (b, p) of
       None \<Rightarrow> throw (Refused (PeerNotFound p))
     | Some row \<Rightarrow> return (abs_peer engine p row (st_getSegments (b, p) t))))"
  using row_readable(2)[of engine t "(b, p)"]
  by (auto simp: sq_requirePeer_def requireBroadcast_abs findPeer_def mapPeer_abs split: option.split)

lemma requirePeerRow_abs:
  "tables_ok engine t \<Longrightarrow> requirePeerRow engine b p t = (case map_get (t_broadcasts t) b of
     None \<Rightarrow> throw (Refused (BroadcastNotFound b))
   | Some brow \<Rightarrow> (case map_get (t_peers t) (b, p) of
       None \<Rightarrow> throw (Refused (PeerNotFound p)) | Some row \<Rightarrow> return row))"
  using peer_broadcast[of engine t b p]
  by (auto simp: requirePeerRow_def requireBroadcast_abs findPeer_def split: option.split)

section \<open>Up to the order of inventories\<close>

definition same_peer :: "Peer \<Rightarrow> Peer \<Rightarrow> bool" where
  "same_peer p q \<longleftrightarrow> p\<lparr>peer_segments := []\<rparr> = q\<lparr>peer_segments := []\<rparr> \<and> set (peer_segments p) = set (peer_segments q)"

fun same_reply :: "StoreReply \<Rightarrow> StoreReply \<Rightarrow> bool" where
  "same_reply (PeerReply p) (PeerReply q) = same_peer p q"
| "same_reply (JoinReply p joined) (JoinReply q joined') = (same_peer p q \<and> joined = joined')"
| "same_reply (RemovedReply xs) (RemovedReply ys) = (mset xs = mset ys)"
| "same_reply r r' = (r = r')"

lemma same_peer_refl [simp]: "same_peer p p"
  by (simp add: same_peer_def)

lemma same_reply_refl [simp]: "same_reply r r"
  by (cases r) simp_all

definition view_entry :: "PeerState \<Rightarrow> PeerState \<times> string set" where
  "view_entry st = (st\<lparr>ps_peer := (ps_peer st)\<lparr>peer_segments := []\<rparr>\<rparr>, set (peer_segments (ps_peer st)))"

definition view_state :: "BroadcastState \<Rightarrow> Broadcast \<times> (string \<times> PeerState \<times> string set) list \<times> PeerTrafficStats" where
  "view_state state =
     (bs_broadcast state, map (\<lambda>(p, st). (p, view_entry st)) (bs_peers state), bs_retiredStats state)"

definition view_store ::
    "TrackerStore \<Rightarrow> (string \<times> Broadcast \<times> (string \<times> PeerState \<times> string set) list \<times> PeerTrafficStats) list \<times>
       PeerFailureConsensus \<times> nat" where
  "view_store s = (map (\<lambda>(b, state). (b, view_state state)) (ts_broadcasts s), ts_failureConsensus s, ts_maxSegmentsPerPeer s)"

definition refines :: "SqlEngine \<Rightarrow> StoreReply \<times> SqliteStore \<Rightarrow> StoreReply \<times> TrackerStore \<Rightarrow> bool" where
  "refines engine r r' \<longleftrightarrow> same_reply (fst r) (fst r') \<and> view_store (abs_store engine (snd r)) = view_store (snd r')"

lemma map_values_set: "map (\<lambda>(k, v). (k, f v)) (map_set m k v) = map_set (map (\<lambda>(k, v). (k, f v)) m) k (f v)"
  by (induction m) auto

lemma view_put:
  assumes "view_entry st = view_entry st'"
  shows "view_store (put_peer b p st s) = view_store (put_peer b p st' s)"
  using assms by (auto simp: view_store_def put_peer_def put_broadcast_def view_state_def map_values_set split: option.split)

lemma same_entry: "same_peer (ps_peer st) (ps_peer st') \<Longrightarrow> ps_stats st = ps_stats st' \<Longrightarrow> view_entry st = view_entry st'"
  by (simp add: view_entry_def same_peer_def)

section \<open>Changing one peer\<close>

lemma abs_state_put:
  assumes "tables_ok engine t"
    "t_peers t' = map_set (t_peers t) (b, p) row" "t_retired t' = t_retired t"
    "\<And>key. key \<noteq> (b, p) \<Longrightarrow> st_getSegments key t' = st_getSegments key t"
    "\<And>key. key \<noteq> (b, p) \<Longrightarrow> map_get (t_stats t') key = map_get (t_stats t) key"
  shows "abs_state engine t' b brow = (abs_state engine t b brow)\<lparr>
      bs_peers := map_set (bs_peers (abs_state engine t b brow)) p (abs_entry engine t' b p row)\<rparr>"
    "c \<noteq> b \<Longrightarrow> abs_state engine t' c brow = abs_state engine t c brow"
proof -
  have entry: "abs_entry engine t' c q r = abs_entry engine t c q r" if "(c, q) \<noteq> (b, p)" for c q r
    using assms(4,5)[OF that] by (simp add: abs_entry_def stats_of_def)
  have "map (\<lambda>(q, r). (q, abs_entry engine t' b q r)) (map_set (peers_of_broadcast b t) p row) =
      map_set (map (\<lambda>(q, r). (q, abs_entry engine t b q r)) (peers_of_broadcast b t)) p (abs_entry engine t' b p row)"
    by (rule set_map_keyed[OF wf_peers_of[OF keys_ok(2)[OF assms(1)]]]) (rule entry, simp)
  then show "abs_state engine t' b brow = (abs_state engine t b brow)\<lparr>
      bs_peers := map_set (bs_peers (abs_state engine t b brow)) p (abs_entry engine t' b p row)\<rparr>"
    using peers_of_set[OF assms(2), of b] by (simp add: abs_state_def assms(3))
  assume "c \<noteq> b"
  then show "abs_state engine t' c brow = abs_state engine t c brow"
    using peers_of_set[OF assms(2), of c] entry by (auto simp: abs_state_def assms(3))
qed

lemma abs_tables_put:
  assumes "tables_ok engine t" "map_get (t_broadcasts t) b = Some brow" "t_broadcasts t' = t_broadcasts t"
    "\<And>c brow. c \<noteq> b \<Longrightarrow> abs_state engine t' c brow = abs_state engine t c brow"
  shows "abs_tables engine t' = map_set (abs_tables engine t) b (abs_state engine t' b brow)"
  unfolding abs_tables_def assms(3)
  by (rule replace_map_keyed[OF keys_ok(1)[OF assms(1)] assms(2)]) (rule assms(4))

lemma abs_put:
  assumes "tables_ok engine (sq_tables s)" "map_get (t_broadcasts (sq_tables s)) b = Some brow"
    "t_broadcasts (sq_tables s') = t_broadcasts (sq_tables s)"
    "t_peers (sq_tables s') = map_set (t_peers (sq_tables s)) (b, p) row"
    "t_retired (sq_tables s') = t_retired (sq_tables s)"
    "\<And>key. key \<noteq> (b, p) \<Longrightarrow> st_getSegments key (sq_tables s') = st_getSegments key (sq_tables s)"
    "\<And>key. key \<noteq> (b, p) \<Longrightarrow> map_get (t_stats (sq_tables s')) key = map_get (t_stats (sq_tables s)) key"
    "sq_failureConsensus s' = sq_failureConsensus s" "sq_maxSegmentsPerPeer s' = sq_maxSegmentsPerPeer s"
  shows "abs_store engine s' = put_peer b p (abs_entry engine (sq_tables s') b p row) (abs_store engine s)"
proof -
  note state = abs_state_put[OF assms(1,4,5,6,7)]
  have "abs_tables engine (sq_tables s') =
      map_set (abs_tables engine (sq_tables s)) b (abs_state engine (sq_tables s') b brow)"
    by (rule abs_tables_put[OF assms(1,2,3)]) (rule state(2))
  then show ?thesis
    by (simp add: abs_store_def put_peer_def put_broadcast_def get_abs assms(2,8,9) state(1))
qed

section \<open>Constraints\<close>

lemma has_key: "map_has m k \<longleftrightarrow> k \<in> set (map_keys m)"
  by (simp add: map_has_def map_of_eq_None_iff)

lemma references_iff:
  "references_ok t \<longleftrightarrow> fst ` set (map_keys (t_peers t)) \<subseteq> set (map_keys (t_broadcasts t)) \<and>
     (\<lambda>(b, p, g). (b, p)) ` set (t_segments t) \<subseteq> set (map_keys (t_peers t)) \<and>
     set (map_keys (t_stats t)) \<subseteq> set (map_keys (t_peers t)) \<and>
     set (map_keys (t_retired t)) \<subseteq> set (map_keys (t_broadcasts t))"
  by (simp add: references_ok_def has_key list_all_iff image_subset_iff split_beta)

lemma keys_of_set: "fst ` set (map_set m k v) = insert k (fst ` set m)"
  using set_keys_set[of k v m] by simp

lemma all_values_set: "list_all P (map_values m) \<Longrightarrow> P v \<Longrightarrow> list_all P (map_values (map_set m k v))"
  by (induction m) auto

lemma all_values_get: "list_all P (map_values m) \<Longrightarrow> map_get m k = Some v \<Longrightarrow> P v"
  by (force simp: list_all_iff dest: map_of_SomeD)

lemma constraints_set_peer:
  assumes "constraints_ok t" "t_peers t' = map_set (t_peers t) (b, p) row" "map_has (t_broadcasts t) b"
    "peer_row_ok row" "t_broadcasts t' = t_broadcasts t" "t_segments t' = t_segments t" "t_stats t' = t_stats t"
    "t_retired t' = t_retired t"
  shows "constraints_ok t'"
proof -
  have "references_ok t'"
    using assms(1,3) unfolding constraints_ok_def references_iff has_key by (simp add: assms(2,5-8) keys_of_set) blast
  then show ?thesis using assms(1,4) by (simp add: constraints_ok_def assms(2,7,8) all_values_set)
qed

lemma constraints_adjust:
  assumes "constraints_ok t" "map_get (t_peers t) (b, p) = Some row" "peer_row_ok (f row)"
  shows "constraints_ok (t\<lparr>t_peers := map_adjust (t_peers t) (b, p) f\<rparr>)"
proof (rule constraints_set_peer[where row = "f row" and b = b and p = p, OF assms(1)])
  from map_of_SomeD[OF assms(2)] show "map_has (t_broadcasts t) b"
    using assms(1) by (fastforce simp: constraints_ok_def references_ok_def list_all_iff)
qed (use assms(3) in \<open>simp_all add: adjust_as_set[OF assms(2)]\<close>)

lemma row_ok: "tables_ok engine t \<Longrightarrow> map_get (t_peers t) key = Some row \<Longrightarrow> peer_row_ok row"
  by (auto simp: tables_ok_def constraints_ok_def intro: all_values_get)

section \<open>Inventories\<close>

lemma get_deleted:
  "st_getSegments key' (fold (st_deletePeerSegment key) xs t) =
     (if key' = key then filter (\<lambda>g. g \<notin> set xs) (st_getSegments key t) else st_getSegments key' t)"
proof (induction xs arbitrary: t)
  case (Cons x xs)
  have "map (\<lambda>(b, p, g). g) (filter (\<lambda>(b, p, g). (b, p) = key') (set_delete (fst key, snd key, x) rows)) =
      (if key' = key then filter (\<lambda>g. g \<noteq> x) else id) (map (\<lambda>(b, p, g). g) (filter (\<lambda>(b, p, g). (b, p) = key') rows))"
    for rows :: "(string \<times> string \<times> string) list"
    by (induction rows) (auto simp: set_delete_def)
  then have one: "st_getSegments key' (st_deletePeerSegment key x t) =
      (if key' = key then filter (\<lambda>g. g \<noteq> x) (st_getSegments key t) else st_getSegments key' t)" for t
    by (simp add: st_getSegments_def st_deletePeerSegment_def)
  show ?case using Cons[of "st_deletePeerSegment key x t"] one by (auto simp: conj_commute intro: filter_cong)
qed simp

lemma get_inserted:
  "st_getSegments key' (fold (st_insertPeerSegment key) xs t) =
     (if key' = key then fold set_add xs (st_getSegments key t) else st_getSegments key' t)"
proof (induction xs arbitrary: t)
  case (Cons x xs)
  have "st_getSegments key' (st_insertPeerSegment key x t) =
      (if key' = key then set_add x (st_getSegments key t) else st_getSegments key' t)" for key' t
    by (cases key) (force simp: st_getSegments_def st_insertPeerSegment_def set_add_def)
  then show ?case using Cons by simp
qed simp

lemma segments_stored:
  assumes "tables_ok engine t" "map_has (t_peers t) key"
  obtains t1 where "store_segments key (st_getSegments key t) nextSegments t = Inr t1"
    "t_broadcasts t1 = t_broadcasts t" "t_peers t1 = t_peers t" "t_stats t1 = t_stats t" "t_retired t1 = t_retired t"
    "\<forall>key'. key' \<noteq> key \<longrightarrow> st_getSegments key' t1 = st_getSegments key' t"
    "set (st_getSegments key t1) = set nextSegments" "constraints_ok t1"
proof -
  let ?old = "st_getSegments key t"
  let ?t = "fold (st_insertPeerSegment key) (filter (\<lambda>g. g \<notin> set ?old) nextSegments)
      (fold (st_deletePeerSegment key) (filter (\<lambda>g. g \<notin> set nextSegments) ?old) t)"
  have deleted: "set (t_segments (fold (st_deletePeerSegment key) xs t)) \<subseteq> set (t_segments t)" for xs t
    by (induction xs arbitrary: t) (force simp: st_deletePeerSegment_def)+
  have inserted: "set (t_segments (fold (st_insertPeerSegment key) xs t)) \<subseteq>
      set (t_segments t) \<union> (\<lambda>g. (fst key, snd key, g)) ` set xs" for xs t
    by (induction xs arbitrary: t) (force simp: st_insertPeerSegment_def)+
  have "set (t_segments ?t) \<subseteq> set (t_segments t) \<union> range (\<lambda>g. (fst key, snd key, g))"
    using inserted[of "filter (\<lambda>g. g \<notin> set ?old) nextSegments" "fold (st_deletePeerSegment key) (filter (\<lambda>g. g \<notin> set nextSegments) ?old) t"]
      deleted[of "filter (\<lambda>g. g \<notin> set nextSegments) ?old" t] by blast
  moreover have "\<forall>(b, p, g) \<in> set (t_segments t). map_has (t_peers t) (b, p)"
    using assms(1) by (simp add: tables_ok_def constraints_ok_def references_ok_def list_all_iff)
  ultimately have "list_all (\<lambda>(b, p, g). map_has (t_peers t) (b, p)) (t_segments ?t)"
    using assms(2) unfolding list_all_iff by fastforce
  then have c: "constraints_ok ?t"
    using assms(1) by (simp add: tables_ok_def constraints_ok_def references_ok_def)
  moreover have "set (st_getSegments key ?t) = set nextSegments"
    by (auto simp: get_inserted get_deleted fold_set_add)
  ultimately show ?thesis
    by (intro that[of ?t]) (simp_all add: store_segments_def checked_def get_inserted get_deleted)
qed

end
