(* ===== verification/SqliteSimulation.thy ===== *)
theory SqliteSimulation
  imports SqliteRefinement
begin

text \<open>
  Every operation of the SQLite store simulates the operation of the in-memory store.
\<close>

section \<open>The in-memory store\<close>

definition memory_reply :: "('a \<Rightarrow> StoreReply) \<Rightarrow> (StoreError, 'a \<times> TrackerStore) result \<Rightarrow> TrackerStore \<Rightarrow> StoreReply \<times> TrackerStore" where
  "memory_reply f r s = (case r of Inl e \<Rightarrow> (RefusedReply e, s) | Inr (x, s') \<Rightarrow> (f x, s'))"

definition with_unit :: "('e, TrackerStore) result \<Rightarrow> ('e, unit \<times> TrackerStore) result" where
  "with_unit r = map_sum id (Pair ()) r"

fun memory_do :: "store_op \<times> int \<Rightarrow> TrackerStore \<Rightarrow> StoreReply \<times> TrackerStore" where
  "memory_do (RegisterOp registration, now) s = (case registerBroadcast registration now s of
     ((b, created), s') \<Rightarrow> (BroadcastReply b created, s'))"
| "memory_do (UnregisterOp b, now) s = memory_reply (\<lambda>_. DoneReply) (with_unit (unregisterBroadcast b s)) s"
| "memory_do (JoinOp b request maxPeers, now) s =
     memory_reply (\<lambda>(peer, joined). JoinReply peer joined) (joinPeerDetailed b request maxPeers now s) s"
| "memory_do (LeaveOp b p, now) s = memory_reply (\<lambda>_. DoneReply) (with_unit (leavePeer b p s)) s"
| "memory_do (SegmentsOp b p segments replace, now) s =
     memory_reply PeerReply (reportSegments b p segments replace now s) s"
| "memory_do (DeltaOp b p added removed, now) s =
     memory_reply PeerReply (applySegmentDelta b p added removed now s) s"
| "memory_do (HeartbeatOp b p heartbeat, now) s = memory_reply PeerReply (store_heartbeat b p heartbeat now s) s"
| "memory_do (StatsOp b p stats, now) s = memory_reply (\<lambda>_. DoneReply) (with_unit (reportStats b p stats now s)) s"
| "memory_do (FailureOp b p report, now) s = memory_reply PeerReply (reportPeerFailure b p report now s) s"
| "memory_do (SweepOp maxAgeMs, now) s = (case removeStalePeers maxAgeMs now s of (removed, s') \<Rightarrow> (RemovedReply removed, s'))"

lemma memory_store: "snd (memory_do op s) = run_store_op op s"
  by (cases "(op, s)" rule: run_store_op.cases)
    (auto simp: memory_reply_def kept_def with_unit_def split: prod.split sum.split)

text \<open>What an operation carries fits the columns: bandwidths are not negative, no measurement is \<^verbatim>\<open>NaN\<close>, and metadata
  survives \<^verbatim>\<open>JSON.stringify\<close> and \<^verbatim>\<open>JSON.parse\<close>.\<close>

definition json_kept :: "SqlEngine \<Rightarrow> metadata option \<Rightarrow> bool" where
  "json_kept engine metadata = (case metadata of
     None \<Rightarrow> True
   | Some m \<Rightarrow> sql_parse engine (sql_stringify engine m) = Some (Object (map (\<lambda>(k, v). (k, Str v)) m)))"

fun op_fits :: "SqlEngine \<Rightarrow> store_op \<Rightarrow> bool" where
  "op_fits engine (RegisterOp registration) = json_kept engine (reg_metadata registration)"
| "op_fits engine (JoinOp b request maxPeers) = (json_kept engine (join_metadata request) \<and>
     (case join_uploadBandwidthBps request of None \<Rightarrow> True | Some v \<Rightarrow> 0 \<le> v))"
| "op_fits engine (HeartbeatOp b p h) = (hb_latencyMs h \<noteq> Some NaN \<and> hb_uploadBandwidthBps h \<noteq> Some NaN \<and>
     hb_successRate h \<noteq> Some NaN)"
| "op_fits engine _ = True"

lemma entries_kept: "metadata_entries (map (\<lambda>(k, v). (k, Str v)) m) = Inr m"
  by (induction m) auto

lemma json_read: "json_kept engine metadata \<Longrightarrow>
    parseMetadata engine (map_option (sql_stringify engine) metadata) = Inr metadata"
  by (cases metadata) (simp_all add: json_kept_def parseMetadata_def entries_kept)

lemma json_abs: "json_kept engine metadata \<Longrightarrow> read_metadata engine (map_option (sql_stringify engine) metadata) = metadata"
  by (simp add: json_read read_metadata_def)

section \<open>Common steps\<close>

lemma abs_grouped [simp]: "abs_store engine (groupWrites s) = abs_store engine s"
  by (simp add: abs_store_def groupWrites_def)

lemma grouped_tables [simp]: "sq_tables (groupWrites s) = sq_tables s"
  "sq_maxSegmentsPerPeer (groupWrites s) = sq_maxSegmentsPerPeer s"
  "sq_failureConsensus (groupWrites s) = sq_failureConsensus s"
  by (simp_all add: groupWrites_def)

lemma requireBroadcast_memory:
  "requireBroadcast b (abs_store engine s) = (case map_get (t_broadcasts (sq_tables s)) b of
     None \<Rightarrow> throw (BroadcastNotFound b) | Some row \<Rightarrow> return (abs_state engine (sq_tables s) b row))"
  by (simp add: requireBroadcast_def abs_store_def get_abs split: option.split)

lemma requirePeer_memory:
  "requirePeer b p (abs_store engine s) = (case map_get (t_broadcasts (sq_tables s)) b of
     None \<Rightarrow> throw (BroadcastNotFound b)
   | Some brow \<Rightarrow> (case map_get (t_peers (sq_tables s)) (b, p) of
       None \<Rightarrow> throw (PeerNotFound p) | Some row \<Rightarrow> return (abs_entry engine (sq_tables s) b p row)))"
  by (simp add: requirePeer_def requireBroadcast_memory get_abs_peer split: option.split)

lemma written:
  assumes "f (sq_tables s) = Inr (x, t')"
  obtains s' where "transaction f s = (return x, s')" "sq_tables s' = t'" "sq_failureConsensus s' = sq_failureConsensus s"
    "sq_maxSegmentsPerPeer s' = sq_maxSegmentsPerPeer s"
  using assms by (simp add: transaction_def)

lemma checked_ok: "constraints_ok t \<Longrightarrow> checked t = Inr t"
  by (simp add: checked_def)

lemma last_seen_row:
  assumes "map_get (t_peers t) key = Some row"
  shows "st_updatePeerLastSeen key now t = t\<lparr>t_peers := map_set (t_peers t) key (row\<lparr>pe_last_seen_at := now\<rparr>)\<rparr>"
  by (simp add: st_updatePeerLastSeen_def adjust_as_set[OF assms])

lemma last_seen_constraints:
  "constraints_ok t \<Longrightarrow> map_get (t_peers t) (b, p) = Some row \<Longrightarrow> peer_row_ok row \<Longrightarrow>
     constraints_ok (st_updatePeerLastSeen (b, p) now t)"
  unfolding st_updatePeerLastSeen_def by (rule constraints_adjust) (simp_all add: peer_row_ok_def)

lemma segments_of_peers_update: "st_getSegments key (t\<lparr>t_peers := x\<rparr>) = st_getSegments key t"
  by (simp add: st_getSegments_def)

section \<open>Inventories\<close>

text \<open>What both inventory reports do to the tables once the peer is found.\<close>

lemma inventory_written:
  assumes "store_ok engine s" "map_get (t_broadcasts (sq_tables s)) b = Some brow"
    "map_get (t_peers (sq_tables s)) (b, p) = Some row"
  obtains t2 where
    "and_then (store_segments (b, p) (st_getSegments (b, p) (sq_tables s)) nextSegments (sq_tables s)) (\<lambda>t1.
       checked (st_updatePeerLastSeen (b, p) now t1)) = Inr t2"
    "\<And>s'. sq_tables s' = t2 \<Longrightarrow> sq_failureConsensus s' = sq_failureConsensus s \<Longrightarrow>
       sq_maxSegmentsPerPeer s' = sq_maxSegmentsPerPeer s \<Longrightarrow>
       abs_store engine s' = put_peer b p (abs_entry engine t2 b p (row\<lparr>pe_last_seen_at := now\<rparr>)) (abs_store engine s)"
    "set (st_getSegments (b, p) t2) = set nextSegments" "t_stats t2 = t_stats (sq_tables s)"
    "t_broadcasts t2 = t_broadcasts (sq_tables s)"
    "map_get (t_peers t2) (b, p) = Some (row\<lparr>pe_last_seen_at := now\<rparr>)"
proof -
  let ?t = "sq_tables s"
  have ok: "tables_ok engine ?t" using assms(1) by (simp add: store_ok_def)
  have "map_has (t_peers ?t) (b, p)" using assms(3) by (simp add: map_has_def)
  from segments_stored[OF ok this, of nextSegments] obtain t1 where
    t1: "store_segments (b, p) (st_getSegments (b, p) ?t) nextSegments ?t = Inr t1"
      "t_broadcasts t1 = t_broadcasts ?t" "t_peers t1 = t_peers ?t" "t_stats t1 = t_stats ?t" "t_retired t1 = t_retired ?t"
      "\<forall>key'. key' \<noteq> (b, p) \<longrightarrow> st_getSegments key' t1 = st_getSegments key' ?t"
      "set (st_getSegments (b, p) t1) = set nextSegments" "constraints_ok t1" .
  have row: "map_get (t_peers t1) (b, p) = Some row" by (simp add: t1(3) assms(3))
  let ?t2 = "st_updatePeerLastSeen (b, p) now t1"
  have c: "constraints_ok ?t2" by (rule last_seen_constraints[OF t1(8) row row_ok[OF ok assms(3)]])
  note t2 = last_seen_row[OF row, of now]
  show ?thesis
  proof (rule that[of ?t2])
    show "and_then (store_segments (b, p) (st_getSegments (b, p) ?t) nextSegments ?t)
        (\<lambda>t1. checked (st_updatePeerLastSeen (b, p) now t1)) = Inr ?t2"
      by (simp add: t1(1) checked_ok[OF c])
    show "abs_store engine s' = put_peer b p (abs_entry engine ?t2 b p (row\<lparr>pe_last_seen_at := now\<rparr>)) (abs_store engine s)"
      if s': "sq_tables s' = ?t2" "sq_failureConsensus s' = sq_failureConsensus s"
        "sq_maxSegmentsPerPeer s' = sq_maxSegmentsPerPeer s" for s'
      unfolding s'(1)[symmetric]
      by (rule abs_put[OF ok assms(2)]) (simp_all add: s' t2 t1 segments_of_peers_update)
  qed (simp_all add: t2 t1 segments_of_peers_update get_set)
qed

lemma refines_put:
  assumes "r = (PeerReply q, s')" "r' = (PeerReply q', put_peer b p st' m)" "abs_store engine s' = put_peer b p st m"
    "same_peer q q'" "view_entry st = view_entry st'"
  shows "refines engine r r'"
  using view_put[OF assms(5), of b p m] assms(4) by (simp add: refines_def assms(1-3))

lemma after_write:
  "store_ok engine s \<Longrightarrow> tables_ok engine (sq_tables (sqlite_step engine (StoreCall op now) s))"
  using step_ok[of engine s "StoreCall op now"] by (simp add: store_ok_def)

lemma segments_refines:
  assumes "store_ok engine s"
  shows "refines engine (sqlite_do engine (SegmentsOp b p segments replace, now) s)
    (memory_do (SegmentsOp b p segments replace, now) (abs_store engine s))"
proof (cases "map_get (t_broadcasts (sq_tables s)) b")
  case None
  then show ?thesis using assms
    by (simp add: store_ok_def refines_def sq_reportSegments_def reportSegments_def Let_def requirePeer_abs requirePeer_memory
        reply_of_def memory_reply_def)
next
  case broadcast: (Some brow)
  have ok: "tables_ok engine (sq_tables s)" using assms by (simp add: store_ok_def)
  show ?thesis
  proof (cases "map_get (t_peers (sq_tables s)) (b, p)")
    case None
    then show ?thesis using ok broadcast
      by (simp add: refines_def sq_reportSegments_def reportSegments_def Let_def requirePeer_abs requirePeer_memory
          reply_of_def memory_reply_def)
  next
    case (Some row)
    let ?old = "st_getSegments (b, p) (sq_tables s)"
    let ?next = "limitInventory (new_set (if replace then segments else ?old @ segments)) (sq_maxSegmentsPerPeer s)
      MAX_INVENTORY_CHARACTERS_PER_PEER"
    let ?row = "row\<lparr>pe_last_seen_at := now\<rparr>"
    have grouped: "store_ok engine (groupWrites s)" using assms by (rule grouped_ok)
    from inventory_written[OF grouped, of b brow p row ?next now] broadcast Some obtain t2 where
      t2: "and_then (store_segments (b, p) ?old ?next (sq_tables s)) (\<lambda>t1. checked (st_updatePeerLastSeen (b, p) now t1)) = Inr t2"
      and put: "\<And>s'. sq_tables s' = t2 \<Longrightarrow> sq_failureConsensus s' = sq_failureConsensus s \<Longrightarrow>
        sq_maxSegmentsPerPeer s' = sq_maxSegmentsPerPeer s \<Longrightarrow>
        abs_store engine s' = put_peer b p (abs_entry engine t2 b p ?row) (abs_store engine s)"
      and rest: "set (st_getSegments (b, p) t2) = set ?next" "t_stats t2 = t_stats (sq_tables s)"
        "t_broadcasts t2 = t_broadcasts (sq_tables s)" "map_get (t_peers t2) (b, p) = Some ?row" by auto
    let ?f = "\<lambda>t. and_then (store_segments (b, p) ?old ?next t) (\<lambda>t1.
               and_then (checked (st_updatePeerLastSeen (b, p) now t1)) (\<lambda>t2. return ((), t2)))"
    have "?f (sq_tables (groupWrites s)) = Inr ((), t2)" using t2 by (auto simp: and_then_return)
    from written[where f = ?f, OF this] obtain s' where s': "transaction ?f (groupWrites s) = (return (), s')" "sq_tables s' = t2"
      "sq_failureConsensus s' = sq_failureConsensus s" "sq_maxSegmentsPerPeer s' = sq_maxSegmentsPerPeer s" by auto
    have call: "sq_reportSegments engine b p segments replace now s = (sq_requirePeer engine b p t2, s')"
      using ok broadcast Some s' by (simp add: sq_reportSegments_def Let_def requirePeer_abs then_read_def)
    with after_write[OF assms, of "SegmentsOp b p segments replace" now] have "tables_ok engine t2" by (simp add: s'(2))
    from requirePeer_abs[OF this, of b p] rest broadcast
    have reply: "sq_requirePeer engine b p t2 = return (abs_peer engine p ?row (st_getSegments (b, p) t2))" by simp
    let ?entry = "abs_entry engine (sq_tables s) b p row"
    let ?peer = "(ps_peer ?entry)\<lparr>peer_segments := ?next, peer_lastSeenAt := now\<rparr>"
    have memory: "memory_do (SegmentsOp b p segments replace, now) (abs_store engine s) =
        (PeerReply ?peer, put_peer b p (?entry\<lparr>ps_peer := ?peer\<rparr>) (abs_store engine s))"
      by (simp add: reportSegments_def requirePeer_memory broadcast Some memory_reply_def Let_def
          abs_entry_def abs_peer_def, simp add: abs_store_def)
    have same: "same_peer (abs_peer engine p ?row (st_getSegments (b, p) t2)) ?peer"
      by (simp add: same_peer_def abs_peer_def abs_entry_def rest(1))
    have "view_entry (abs_entry engine t2 b p ?row) = view_entry (?entry\<lparr>ps_peer := ?peer\<rparr>)"
      by (rule same_entry) (use same in \<open>simp_all add: abs_entry_def rest(2)\<close>)
    with same show ?thesis
      by (intro refines_put[OF _ memory put[OF s'(2-4)]]) (simp add: call reply reply_of_def)
  qed
qed

text \<open>A call that finds no broadcast or no peer.\<close>

lemma missing_refines:
  assumes "store_ok engine s" "\<forall>brow row. map_get (t_broadcasts (sq_tables s)) b = Some brow \<longrightarrow> map_get (t_peers (sq_tables s)) (b, p) \<noteq> Some row"
  shows "refines engine (sqlite_do engine (DeltaOp b p added removed, now) s)
      (memory_do (DeltaOp b p added removed, now) (abs_store engine s))"
    "refines engine (sqlite_do engine (HeartbeatOp b p h, now) s) (memory_do (HeartbeatOp b p h, now) (abs_store engine s))"
    "refines engine (sqlite_do engine (StatsOp b p stats, now) s) (memory_do (StatsOp b p stats, now) (abs_store engine s))"
  using assms
  by (auto simp: store_ok_def refines_def sq_applySegmentDelta_def applySegmentDelta_def sq_heartbeat_def store_heartbeat_def
      sq_reportStats_def reportStats_def Let_def requirePeerRow_abs requirePeer_memory reply_of_def memory_reply_def
      with_unit_def split: option.split)

lemma delta_refines:
  assumes "store_ok engine s"
  shows "refines engine (sqlite_do engine (DeltaOp b p added removed, now) s)
    (memory_do (DeltaOp b p added removed, now) (abs_store engine s))"
proof (cases "\<exists>brow row. map_get (t_broadcasts (sq_tables s)) b = Some brow \<and> map_get (t_peers (sq_tables s)) (b, p) = Some row")
  case True
  then obtain brow row where broadcast: "map_get (t_broadcasts (sq_tables s)) b = Some brow"
    and row: "map_get (t_peers (sq_tables s)) (b, p) = Some row" by blast
  have ok: "tables_ok engine (sq_tables s)" using assms by (simp add: store_ok_def)
  let ?old = "st_getSegments (b, p) (sq_tables s)"
  let ?next = "limitInventory (fold set_add added (fold set_delete removed (new_set ?old))) (sq_maxSegmentsPerPeer s)
    MAX_INVENTORY_CHARACTERS_PER_PEER"
  let ?stored = "filter (\<lambda>g. g \<in> set ?next) ?old @ filter (\<lambda>g. g \<notin> set ?old) ?next"
  let ?row = "row\<lparr>pe_last_seen_at := now\<rparr>"
  have grouped: "store_ok engine (groupWrites s)" using assms by (rule grouped_ok)
  from inventory_written[OF grouped, of b brow p row ?next now] broadcast row obtain t2 where
    t2: "and_then (store_segments (b, p) ?old ?next (sq_tables s)) (\<lambda>t1. checked (st_updatePeerLastSeen (b, p) now t1)) = Inr t2"
    and put: "\<And>s'. sq_tables s' = t2 \<Longrightarrow> sq_failureConsensus s' = sq_failureConsensus s \<Longrightarrow>
      sq_maxSegmentsPerPeer s' = sq_maxSegmentsPerPeer s \<Longrightarrow>
      abs_store engine s' = put_peer b p (abs_entry engine t2 b p ?row) (abs_store engine s)"
    and rest: "set (st_getSegments (b, p) t2) = set ?next" "t_stats t2 = t_stats (sq_tables s)"
      "t_broadcasts t2 = t_broadcasts (sq_tables s)" "map_get (t_peers t2) (b, p) = Some ?row" by auto
  have read: "mapPeer engine p ?row g = return (abs_peer engine p ?row g)" for g
    using row_readable(2)[OF ok row] by (simp add: mapPeer_abs)
  let ?f = "\<lambda>t. let existing = st_getSegments (b, p) t;
              nextSegments = limitInventory (fold set_add added (fold set_delete removed (new_set existing)))
                (sq_maxSegmentsPerPeer (groupWrites s)) MAX_INVENTORY_CHARACTERS_PER_PEER;
              stored = filter (\<lambda>segment. segment \<in> set nextSegments) existing @
                filter (\<lambda>segment. segment \<notin> set existing) nextSegments in
          and_then (store_segments (b, p) existing nextSegments t) (\<lambda>t1.
          and_then (checked (st_updatePeerLastSeen (b, p) now t1)) (\<lambda>t2.
          and_then (mapPeer engine p ?row stored) (\<lambda>peer. return (peer, t2))))"
  have "?f (sq_tables (groupWrites s)) = Inr (abs_peer engine p ?row ?stored, t2)"
    using t2 by (auto simp: and_then_return Let_def read)
  from written[where f = ?f, OF this] obtain s' where
    s': "transaction ?f (groupWrites s) = (return (abs_peer engine p ?row ?stored), s')" "sq_tables s' = t2"
    "sq_failureConsensus s' = sq_failureConsensus s" "sq_maxSegmentsPerPeer s' = sq_maxSegmentsPerPeer s" by auto
  have call: "sqlite_do engine (DeltaOp b p added removed, now) s = (PeerReply (abs_peer engine p ?row ?stored), s')"
    using ok broadcast row s'(1)[unfolded Let_def]
    by (simp add: sq_applySegmentDelta_def Let_def requirePeerRow_abs reply_of_def)
  let ?entry = "abs_entry engine (sq_tables s) b p row"
  let ?peer = "(ps_peer ?entry)\<lparr>peer_segments := ?next, peer_lastSeenAt := now\<rparr>"
  have memory: "memory_do (DeltaOp b p added removed, now) (abs_store engine s) =
      (PeerReply ?peer, put_peer b p (?entry\<lparr>ps_peer := ?peer\<rparr>) (abs_store engine s))"
    by (simp add: applySegmentDelta_def requirePeer_memory broadcast row memory_reply_def Let_def
        abs_entry_def abs_peer_def, simp add: abs_store_def)
  have "set ?stored = set ?next" by auto
  then have same: "same_peer (abs_peer engine p ?row ?stored) ?peer"
    by (simp add: same_peer_def abs_peer_def abs_entry_def del: set_append)
  have "view_entry (abs_entry engine t2 b p ?row) = view_entry (?entry\<lparr>ps_peer := ?peer\<rparr>)"
    by (rule same_entry) (simp_all add: same_peer_def abs_peer_def abs_entry_def rest)
  with same show ?thesis by (intro refines_put[OF call memory put[OF s'(2-4)]])
qed (use missing_refines[OF assms] in blast)

section \<open>Measurements\<close>

text \<open>A write that changes only the row of one peer.\<close>

lemma row_written:
  assumes "store_ok engine s" "map_get (t_broadcasts (sq_tables s)) b = Some brow"
    "map_get (t_peers (sq_tables s)) (b, p) = Some row"
    "sq_tables s' = (sq_tables s)\<lparr>t_peers := map_adjust (t_peers (sq_tables s)) (b, p) f\<rparr>"
    "sq_failureConsensus s' = sq_failureConsensus s" "sq_maxSegmentsPerPeer s' = sq_maxSegmentsPerPeer s"
  shows "abs_store engine s' = put_peer b p (abs_entry engine (sq_tables s) b p (f row)) (abs_store engine s)"
proof -
  have entry: "abs_entry engine (sq_tables s') b p (f row) = abs_entry engine (sq_tables s) b p (f row)"
    by (simp add: abs_entry_def assms(4) segments_of_peers_update)
  show ?thesis unfolding entry[symmetric]
    by (rule abs_put[OF _ assms(2)])
      (use assms(1) in \<open>simp_all add: store_ok_def assms(4-6) adjust_as_set[OF assms(3)] segments_of_peers_update\<close>)
qed

lemma nonneg_max: "v \<noteq> NaN \<Longrightarrow> 0 \<le> math_max 0 v \<and> math_max 0 v \<noteq> NaN"
  by (cases v) (auto simp: math_max_def zero_number_def less_eq_number_def)

lemma nonneg_number: "0 \<le> v \<Longrightarrow> v \<noteq> NaN"
  by (auto simp: zero_number_def less_eq_number_def)

lemma heartbeat_refines:
  assumes "store_ok engine s" "op_fits engine (HeartbeatOp b p h)"
  shows "refines engine (sqlite_do engine (HeartbeatOp b p h, now) s) (memory_do (HeartbeatOp b p h, now) (abs_store engine s))"
proof (cases "\<exists>brow row. map_get (t_broadcasts (sq_tables s)) b = Some brow \<and> map_get (t_peers (sq_tables s)) (b, p) = Some row")
  case True
  then obtain brow row where broadcast: "map_get (t_broadcasts (sq_tables s)) b = Some brow"
    and row: "map_get (t_peers (sq_tables s)) (b, p) = Some row" by blast
  have ok: "tables_ok engine (sq_tables s)" using assms by (simp add: store_ok_def)
  let ?updated = "row\<lparr>
                 pe_upload_bandwidth_bps := (case hb_uploadBandwidthBps h of
                   None \<Rightarrow> pe_upload_bandwidth_bps row | Some v \<Rightarrow> Some (math_max 0 v)),
                 pe_latency_ms := (case hb_latencyMs h of
                   None \<Rightarrow> pe_latency_ms row | Some v \<Rightarrow> math_max 0 v),
                 pe_success_rate := (case hb_successRate h of
                   None \<Rightarrow> pe_success_rate row | Some v \<Rightarrow> clampUnitInterval v),
                 pe_last_seen_at := now\<rparr>"
  note rowok = row_ok[OF ok row]
  have bandwidth: "bound (pe_upload_bandwidth_bps ?updated) = pe_upload_bandwidth_bps ?updated"
    using assms(2) rowok nonneg_max nonneg_number
    by (cases "hb_uploadBandwidthBps h"; cases "pe_upload_bandwidth_bps row") (auto simp: bound_def peer_row_ok_def)
  let ?g = "\<lambda>r. r\<lparr>pe_upload_bandwidth_bps := bound (pe_upload_bandwidth_bps ?updated),
        pe_latency_ms := pe_latency_ms ?updated, pe_success_rate := pe_success_rate ?updated,
        pe_last_seen_at := pe_last_seen_at ?updated\<rparr>"
  have g: "?g row = ?updated" unfolding bandwidth by simp
  have "case pe_upload_bandwidth_bps ?updated of None \<Rightarrow> True | Some v \<Rightarrow> 0 \<le> v"
    using assms(2) rowok nonneg_max by (cases "hb_uploadBandwidthBps h") (simp_all add: peer_row_ok_def)
  moreover have "0 \<le> pe_latency_ms ?updated"
    using assms(2) rowok nonneg_max by (cases "hb_latencyMs h") (simp_all add: peer_row_ok_def)
  moreover have "0 \<le> pe_success_rate ?updated" "pe_success_rate ?updated \<le> 1"
    using assms(2) rowok clampUnit_unit by (cases "hb_successRate h", simp_all add: peer_row_ok_def)+
  moreover have "0 \<le> pe_trust_score ?updated" "pe_trust_score ?updated \<le> 1"
    using rowok by (simp_all add: peer_row_ok_def)
  ultimately have "peer_row_ok ?updated" unfolding peer_row_ok_def by (intro conjI)
  then have c: "constraints_ok (st_updatePeerHealth (b, p) ?updated (sq_tables s))"
    unfolding st_updatePeerHealth_def
    by (intro constraints_adjust[where row = row]) (use ok row g in \<open>simp_all add: tables_ok_def\<close>)
  let ?f = "\<lambda>t. and_then (checked (st_updatePeerHealth (b, p) ?updated t)) (\<lambda>t1. return ((), t1))"
  have "?f (sq_tables (groupWrites s)) = Inr ((), st_updatePeerHealth (b, p) ?updated (sq_tables s))"
    by (simp add: checked_ok[OF c])
  from written[where f = ?f, OF this] obtain s' where s': "transaction ?f (groupWrites s) = (return (), s')"
    "sq_tables s' = st_updatePeerHealth (b, p) ?updated (sq_tables s)"
    "sq_failureConsensus s' = sq_failureConsensus s" "sq_maxSegmentsPerPeer s' = sq_maxSegmentsPerPeer s" by auto
  have read: "mapPeer engine p ?updated g = return (abs_peer engine p ?updated g)" for g
    using row_readable(2)[OF ok row] by (simp add: mapPeer_abs)
  let ?old = "st_getSegments (b, p) (sq_tables s)"
  have segments: "st_getSegments (b, p) (sq_tables s') = ?old"
    by (simp add: s'(2) st_updatePeerHealth_def segments_of_peers_update)
  have call: "sqlite_do engine (HeartbeatOp b p h, now) s = (PeerReply (abs_peer engine p ?updated ?old), s')"
    using ok broadcast row s'(1)
    by (simp add: sq_heartbeat_def Let_def requirePeerRow_abs reply_of_def then_read_def read segments)
  let ?entry = "abs_entry engine (sq_tables s) b p ?updated"
  have memory: "memory_do (HeartbeatOp b p h, now) (abs_store engine s) =
      (PeerReply (ps_peer ?entry), put_peer b p ?entry (abs_store engine s))"
    by (simp add: store_heartbeat_def requirePeer_memory broadcast row memory_reply_def Let_def abs_entry_def abs_peer_def
        split: option.split)
  have put: "abs_store engine s' = put_peer b p ?entry (abs_store engine s)"
    using row_written[OF assms(1) broadcast row, of s' ?g] s'(2-4) unfolding st_updatePeerHealth_def g by blast
  show ?thesis by (rule refines_put[OF call memory put]) (simp_all add: abs_entry_def)
qed (use missing_refines[OF assms(1)] in blast)

lemma replace_constraints:
  assumes "constraints_ok t" "map_has (t_peers t) key"
  shows "constraints_ok (st_replacePeerStats key (sanitizePeerTrafficStats stats) t)"
proof -
  have "stats_row_ok (sanitizePeerTrafficStats stats)"
    by (simp add: stats_row_ok_def list_all_iff sanitize_nonneg)
  moreover have "references_ok (st_replacePeerStats key (sanitizePeerTrafficStats stats) t)"
    using assms unfolding constraints_ok_def references_iff has_key st_replacePeerStats_def
    by (simp add: keys_of_set)
  ultimately show ?thesis
    using assms(1) by (simp add: constraints_ok_def st_replacePeerStats_def all_values_set)
qed

lemma stats_refines:
  assumes "store_ok engine s"
  shows "refines engine (sqlite_do engine (StatsOp b p stats, now) s) (memory_do (StatsOp b p stats, now) (abs_store engine s))"
proof (cases "\<exists>brow row. map_get (t_broadcasts (sq_tables s)) b = Some brow \<and> map_get (t_peers (sq_tables s)) (b, p) = Some row")
  case True
  then obtain brow row where broadcast: "map_get (t_broadcasts (sq_tables s)) b = Some brow"
    and row: "map_get (t_peers (sq_tables s)) (b, p) = Some row" by blast
  have ok: "tables_ok engine (sq_tables s)" using assms by (simp add: store_ok_def)
  let ?stats = "sanitizePeerTrafficStats stats" and ?row = "row\<lparr>pe_last_seen_at := now\<rparr>"
  let ?t1 = "st_replacePeerStats (b, p) ?stats (sq_tables s)"
  let ?t2 = "st_updatePeerLastSeen (b, p) now ?t1"
  have c1: "constraints_ok ?t1" using ok row by (intro replace_constraints) (simp_all add: tables_ok_def map_has_def)
  have row1: "map_get (t_peers ?t1) (b, p) = Some row" by (simp add: st_replacePeerStats_def row)
  have c2: "constraints_ok ?t2" by (rule last_seen_constraints[OF c1 row1 row_ok[OF ok row]])
  let ?f = "\<lambda>t. and_then (checked (st_replacePeerStats (b, p) ?stats t)) (\<lambda>t1.
          and_then (checked (st_updatePeerLastSeen (b, p) now t1)) (\<lambda>t2. return ((), t2)))"
  have "?f (sq_tables (groupWrites s)) = Inr ((), ?t2)" by (simp add: checked_ok[OF c1] checked_ok[OF c2])
  from written[where f = ?f, OF this] obtain s' where s': "transaction ?f (groupWrites s) = (return (), s')"
    "sq_tables s' = ?t2" "sq_failureConsensus s' = sq_failureConsensus s"
    "sq_maxSegmentsPerPeer s' = sq_maxSegmentsPerPeer s" by auto
  have call: "sqlite_do engine (StatsOp b p stats, now) s = (DoneReply, s')"
    using ok broadcast row s'(1) by (simp add: sq_reportStats_def Let_def requirePeerRow_abs reply_of_def)
  let ?entry = "\<lparr>ps_peer = (ps_peer (abs_entry engine (sq_tables s) b p row))\<lparr>peer_lastSeenAt := now\<rparr>, ps_stats = ?stats\<rparr>"
  have memory: "memory_do (StatsOp b p stats, now) (abs_store engine s) = (DoneReply, put_peer b p ?entry (abs_store engine s))"
    by (simp add: reportStats_def requirePeer_memory broadcast row memory_reply_def with_unit_def)
  have t2: "?t2 = (sq_tables s)\<lparr>t_stats := map_set (t_stats (sq_tables s)) (b, p) ?stats,
      t_peers := map_set (t_peers (sq_tables s)) (b, p) ?row\<rparr>"
    unfolding last_seen_row[OF row1] by (simp add: st_replacePeerStats_def)
  have entry: "abs_entry engine ?t2 b p ?row = ?entry"
    unfolding t2 by (simp add: abs_entry_def st_getSegments_def stats_of_def abs_peer_def get_set)
  have "abs_store engine s' = put_peer b p ?entry (abs_store engine s)"
    unfolding entry[symmetric] s'(2)[symmetric]
    by (rule abs_put[OF ok broadcast])
      (simp_all add: s'(2-4) t2 st_getSegments_def get_set)
  then show ?thesis unfolding call memory refines_def by simp
qed (use missing_refines[OF assms] in blast)

section \<open>Failure reports\<close>

lemma consensus_abs: "abs_store engine (s\<lparr>sq_failureConsensus := c\<rparr>) = (abs_store engine s)\<lparr>ts_failureConsensus := c\<rparr>"
  by (simp add: abs_store_def)

lemma consensus_ok: "store_ok engine s \<Longrightarrow> store_ok engine (s\<lparr>sq_failureConsensus := c\<rparr>)"
  by (simp add: store_ok_def)

lemma penalty_refines:
  assumes "store_ok engine s" "map_get (t_broadcasts (sq_tables s)) b = Some brow"
    "map_get (t_peers (sq_tables s)) (b, p) = Some row"
    "penalizePeerQuality (abs_peer engine p row g) reason = (x, y)"
  obtains s' where "transaction (\<lambda>t. and_then (checked (st_updatePeerTrust (b, p) x y t)) (\<lambda>t1. return ((), t1))) s = (return (), s')"
    "abs_store engine s' = put_peer b p (abs_entry engine (sq_tables s) b p
       (row\<lparr>pe_trust_score := x, pe_success_rate := y\<rparr>)) (abs_store engine s)"
    "sq_requirePeer engine b p (sq_tables s') = return (abs_peer engine p
       (row\<lparr>pe_trust_score := x, pe_success_rate := y\<rparr>) (st_getSegments (b, p) (sq_tables s)))"
proof -
  have ok: "tables_ok engine (sq_tables s)" using assms(1) by (simp add: store_ok_def)
  let ?row = "row\<lparr>pe_trust_score := x, pe_success_rate := y\<rparr>"
  let ?t = "st_updatePeerTrust (b, p) x y (sq_tables s)"
  have "0 \<le> x \<and> x \<le> 1 \<and> 0 \<le> y \<and> y \<le> 1"
    using row_ok[OF ok assms(3)] by (intro penalize_unit[OF assms(4)]) (simp_all add: abs_peer_def peer_row_ok_def)
  then have "peer_row_ok ?row" using row_ok[OF ok assms(3)] by (simp add: peer_row_ok_def)
  then have c: "constraints_ok ?t" unfolding st_updatePeerTrust_def
    by (intro constraints_adjust[where row = row]) (use ok assms(3) in \<open>simp_all add: tables_ok_def\<close>)
  let ?f = "\<lambda>t. and_then (checked (st_updatePeerTrust (b, p) x y t)) (\<lambda>t1. return ((), t1))"
  have "?f (sq_tables s) = Inr ((), ?t)" by (simp add: checked_ok[OF c])
  from written[where f = ?f, OF this] obtain s' where s': "transaction ?f s = (return (), s')" "sq_tables s' = ?t"
    "sq_failureConsensus s' = sq_failureConsensus s" "sq_maxSegmentsPerPeer s' = sq_maxSegmentsPerPeer s" by auto
  have put: "abs_store engine s' = put_peer b p (abs_entry engine (sq_tables s) b p ?row) (abs_store engine s)"
    by (rule row_written[OF assms(1-3)]) (simp_all add: s' st_updatePeerTrust_def)
  have "tables_ok engine ?t" by (rule update_statements_ok(3)[OF ok c])
  from requirePeer_abs[OF this, of b p]
  have "sq_requirePeer engine b p ?t = return (abs_peer engine p ?row (st_getSegments (b, p) (sq_tables s)))"
    by (simp add: st_updatePeerTrust_def assms(2,3) get_adjust segments_of_peers_update)
  from this[folded s'(2)] show ?thesis by (rule that[OF s'(1) put])
qed

lemma failure_refines:
  assumes "store_ok engine s"
  shows "refines engine (sqlite_do engine (FailureOp b p report, now) s)
    (memory_do (FailureOp b p report, now) (abs_store engine s))"
proof (cases "\<exists>brow row reporter. map_get (t_broadcasts (sq_tables s)) b = Some brow \<and>
    map_get (t_peers (sq_tables s)) (b, p) = Some row \<and> map_get (t_peers (sq_tables s)) (b, reporterId report) = Some reporter")
  case True
  then obtain brow row reporter where rows: "map_get (t_broadcasts (sq_tables s)) b = Some brow"
    "map_get (t_peers (sq_tables s)) (b, p) = Some row" "map_get (t_peers (sq_tables s)) (b, reporterId report) = Some reporter"
    by blast
  have ok: "tables_ok engine (sq_tables s)" using assms by (simp add: store_ok_def)
  let ?g = "st_getSegments (b, p) (sq_tables s)"
  obtain agreed c where observed: "observe_failure b p report now (sq_failureConsensus s) = (agreed, c)" by fastforce
  obtain x y where quality: "penalizePeerQuality (abs_peer engine p row ?g) (failure_reason report) = (x, y)" by fastforce
  let ?s = "s\<lparr>sq_failureConsensus := c\<rparr>"
  have consensus: "ts_failureConsensus (abs_store engine s) = sq_failureConsensus s" by (simp add: abs_store_def)
  show ?thesis
  proof (cases agreed)
    case False
    then show ?thesis
      using ok rows observed
      by (simp add: refines_def sq_reportPeerFailure_def reportPeerFailure_def requirePeer_abs requirePeer_memory Let_def
          reply_of_def memory_reply_def consensus consensus_abs abs_entry_def)
  next
    case True
    from penalty_refines[OF consensus_ok[OF assms, where c = c], of b brow p row ?g "failure_reason report" x y] rows quality
    obtain s' where s': "transaction (\<lambda>t. and_then (checked (st_updatePeerTrust (b, p) x y t)) (\<lambda>t1. return ((), t1))) ?s = (return (), s')"
      "abs_store engine s' = put_peer b p (abs_entry engine (sq_tables s) b p
         (row\<lparr>pe_trust_score := x, pe_success_rate := y\<rparr>)) (abs_store engine ?s)"
      "sq_requirePeer engine b p (sq_tables s') = return (abs_peer engine p
         (row\<lparr>pe_trust_score := x, pe_success_rate := y\<rparr>) ?g)" by auto
    have call: "sqlite_do engine (FailureOp b p report, now) s =
        (PeerReply (abs_peer engine p (row\<lparr>pe_trust_score := x, pe_success_rate := y\<rparr>) ?g), s')"
      using ok rows observed True quality s'
      by (simp add: sq_reportPeerFailure_def requirePeer_abs Let_def reply_of_def then_read_def)
    have memory: "memory_do (FailureOp b p report, now) (abs_store engine s) =
        (PeerReply (abs_peer engine p (row\<lparr>pe_trust_score := x, pe_success_rate := y\<rparr>) ?g),
         put_peer b p (abs_entry engine (sq_tables s) b p (row\<lparr>pe_trust_score := x, pe_success_rate := y\<rparr>)) (abs_store engine ?s))"
      using rows observed True quality
      by (simp add: reportPeerFailure_def requirePeer_memory Let_def memory_reply_def consensus consensus_abs abs_entry_def)
        (simp add: abs_peer_def)
    show ?thesis by (rule refines_put[OF call memory s'(2)]) simp_all
  qed
next
  case False
  then show ?thesis using assms
    by (auto simp: store_ok_def refines_def sq_reportPeerFailure_def reportPeerFailure_def requirePeer_abs requirePeer_memory
        reply_of_def memory_reply_def split: option.split)
qed

end
