(* ===== verification/SqliteDepartures.thy ===== *)
theory SqliteDepartures
  imports SqliteSimulation
begin

text \<open>
  The operations of the SQLite store that add or remove rows simulate those of the in-memory store: registration,
  joining, leaving, the removal of a broadcast and the sweep of stale peers.
\<close>

section \<open>Registration\<close>

lemma abs_tables_set:
  assumes "tables_ok engine t" "t_broadcasts t' = map_set (t_broadcasts t) b row" "t_peers t' = t_peers t"
    "t_segments t' = t_segments t" "t_stats t' = t_stats t" "t_retired t' = t_retired t"
  shows "abs_tables engine t' = map_set (abs_tables engine t) b (abs_state engine t b row)"
proof -
  have state: "abs_state engine t' = abs_state engine t"
    by (intro ext) (simp add: abs_state_def abs_entry_def peers_of_broadcast_def st_getSegments_def assms)
  show ?thesis unfolding abs_tables_def assms(2) state
    by (rule set_map_keyed[OF keys_ok(1)[OF assms(1)]]) simp
qed

lemma constraints_set_broadcast:
  assumes "constraints_ok t"
  shows "constraints_ok (t\<lparr>t_broadcasts := map_set (t_broadcasts t) b row\<rparr>)"
  using assms by (auto simp: constraints_ok_def references_ok_def list_all_iff)

lemma register_refines:
  assumes "store_ok engine s" "op_fits engine (RegisterOp registration)"
  shows "refines engine (sqlite_do engine (RegisterOp registration, now) s)
    (memory_do (RegisterOp registration, now) (abs_store engine s))"
proof -
  let ?t = "sq_tables s" and ?b = "reg_id registration"
  have ok: "tables_ok engine ?t" using assms by (simp add: store_ok_def)
  let ?md = "map_option (sql_stringify engine) (reg_metadata registration)"
  note kept = json_read[of engine "reg_metadata registration"] json_abs[of engine "reg_metadata registration"]
  show ?thesis
  proof (cases "map_get (t_broadcasts ?t) ?b")
    case None
    let ?row = "\<lparr>br_playlist_url = reg_playlistUrl registration, br_metadata = ?md, br_created_at = now, br_updated_at = now\<rparr>"
    let ?t1 = "st_insertBroadcast ?b ?row ?t"
    have t1: "?t1 = ?t\<lparr>t_broadcasts := map_set (t_broadcasts ?t) ?b ?row\<rparr>" by (simp add: st_insertBroadcast_def)
    have c: "constraints_ok ?t1" unfolding t1 by (rule constraints_set_broadcast) (use ok in \<open>simp add: tables_ok_def\<close>)
    have read: "sq_requireBroadcast engine ?b ?t1 = return (abs_broadcast engine ?b ?row)"
      using assms(2) kept
      by (simp add: t1 sq_requireBroadcast_def findBroadcast_def get_set mapBroadcast_def abs_broadcast_def)
    have call: "sqlite_do engine (RegisterOp registration, now) s = (BroadcastReply (abs_broadcast engine ?b ?row) True,
        s\<lparr>sq_tables := ?t1, sq_committed := (if sq_inTransaction s then sq_committed s else ?t1)\<rparr>)"
      using None by (simp add: sq_registerBroadcast_def transaction_def findBroadcast_def checked_ok[OF c] read reply_of_def)
    have "abs_state engine ?t ?b ?row = \<lparr>bs_broadcast = abs_broadcast engine ?b ?row, bs_peers = [],
        bs_retiredStats = createEmptyPeerTrafficStats\<rparr>"
      using no_broadcast_rows[OF ok None] by (simp add: abs_state_def stats_of_def)
    with abs_tables_set[OF ok, of ?t1 ?b ?row] have "abs_tables engine ?t1 = map_set (abs_tables engine ?t) ?b
        \<lparr>bs_broadcast = abs_broadcast engine ?b ?row, bs_peers = [], bs_retiredStats = createEmptyPeerTrafficStats\<rparr>"
      by (simp add: t1)
    moreover have "abs_broadcast engine ?b ?row = \<lparr>bc_id = ?b, bc_playlistUrl = reg_playlistUrl registration,
        bc_metadata = reg_metadata registration, bc_createdAt = now, bc_updatedAt = now\<rparr>"
      using assms(2) kept by (simp add: abs_broadcast_def)
    ultimately show ?thesis unfolding call
      by (simp add: refines_def registerBroadcast_def abs_store_def get_abs None put_broadcast_def Let_def)
  next
    case (Some row)
    let ?row = "row\<lparr>br_playlist_url := reg_playlistUrl registration,
        br_metadata := (if reg_metadata registration \<noteq> None then ?md else br_metadata row), br_updated_at := now\<rparr>"
    let ?t1 = "st_updateBroadcast ?b (reg_playlistUrl registration) ?md (reg_metadata registration \<noteq> None) now ?t"
    have t1: "?t1 = ?t\<lparr>t_broadcasts := map_set (t_broadcasts ?t) ?b ?row\<rparr>"
      unfolding st_updateBroadcast_def adjust_as_set[OF Some] ..
    have c: "constraints_ok ?t1" unfolding t1 by (rule constraints_set_broadcast) (use ok in \<open>simp add: tables_ok_def\<close>)
    have md: "parseMetadata engine (br_metadata ?row) = Inr (case reg_metadata registration of
        None \<Rightarrow> read_metadata engine (br_metadata row) | Some m \<Rightarrow> Some m)"
      using assms(2) kept parse_readable[OF row_readable(1)[OF ok Some]] by (cases "reg_metadata registration") simp_all
    then have read: "sq_requireBroadcast engine ?b ?t1 = return (abs_broadcast engine ?b ?row)"
      unfolding t1 by (simp add: sq_requireBroadcast_def findBroadcast_def get_set mapBroadcast_def abs_broadcast_def
        read_metadata_def)
    have found: "findBroadcast engine ?b ?t = Inr (Some (abs_broadcast engine ?b row))"
      using findBroadcast_abs[OF ok, of ?b] Some by simp
    have call: "sqlite_do engine (RegisterOp registration, now) s = (BroadcastReply (abs_broadcast engine ?b ?row) False,
        s\<lparr>sq_tables := ?t1, sq_committed := (if sq_inTransaction s then sq_committed s else ?t1)\<rparr>)"
      by (simp only: sqlite_do.simps sq_registerBroadcast_def transaction_def Let_def found and_then_simps option.case
          checked_ok[OF c] read option.distinct sum.case prod.case reply_of_def)
    have state: "abs_state engine ?t ?b ?row = (abs_state engine ?t ?b row)\<lparr>bs_broadcast := abs_broadcast engine ?b ?row\<rparr>"
      by (simp add: abs_state_def)
    have "abs_tables engine ?t1 = map_set (abs_tables engine ?t) ?b
        ((abs_state engine ?t ?b row)\<lparr>bs_broadcast := abs_broadcast engine ?b ?row\<rparr>)"
      unfolding t1 state[symmetric] by (rule abs_tables_set[OF ok]) simp_all
    moreover obtain B where B: "B = abs_broadcast engine ?b ?row" by simp
    moreover have "B = (bs_broadcast (abs_state engine ?t ?b row))\<lparr>bc_playlistUrl := reg_playlistUrl registration,
        bc_metadata := (case reg_metadata registration of
          None \<Rightarrow> bc_metadata (bs_broadcast (abs_state engine ?t ?b row)) | Some m \<Rightarrow> Some m), bc_updatedAt := now\<rparr>"
      using md by (cases "reg_metadata registration") (simp_all add: B abs_broadcast_def abs_state_def read_metadata_def)
    then have "memory_do (RegisterOp registration, now) (abs_store engine s) = (BroadcastReply B False,
        (abs_store engine s)\<lparr>ts_broadcasts := map_set (abs_tables engine ?t) ?b
          ((abs_state engine ?t ?b row)\<lparr>bs_broadcast := B\<rparr>)\<rparr>)"
      by (simp add: registerBroadcast_def abs_store_def get_abs Some put_broadcast_def Let_def)
    ultimately show ?thesis unfolding call by (simp only: refines_def) (simp add: abs_store_def)
  qed
qed

section \<open>Joining\<close>

lemma join_refines:
  assumes "store_ok engine s" "op_fits engine (JoinOp b request maxPeers)"
  shows "refines engine (sqlite_do engine (JoinOp b request maxPeers, now) s)
    (memory_do (JoinOp b request maxPeers, now) (abs_store engine s))"
proof (cases "map_get (t_broadcasts (sq_tables s)) b")
  case None
  then show ?thesis using assms
    by (simp add: store_ok_def refines_def sq_joinPeerDetailed_def joinPeerDetailed_def requireBroadcast_abs
        requireBroadcast_memory reply_of_def memory_reply_def)
next
  case broadcast: (Some brow)
  let ?t = "sq_tables s" and ?p = "join_id request"
  let ?existing = "map_get (t_peers ?t) (b, ?p)"
  have ok: "tables_ok engine ?t" using assms(1) by (simp add: store_ok_def)
  have count: "length (bs_peers (abs_state engine ?t b brow)) = st_countPeers b ?t"
    by (simp add: abs_state_def st_countPeers_def)
  have existing: "map_get (bs_peers (abs_state engine ?t b brow)) ?p = map_option (abs_entry engine ?t b ?p) ?existing"
    by (rule get_abs_peer)
  show ?thesis
  proof (cases "?existing = None \<and> (case maxPeers of None \<Rightarrow> False | Some limit \<Rightarrow> limit \<le> nat_number (st_countPeers b ?t))")
    case True
    then show ?thesis using ok broadcast
      by (cases maxPeers) (simp_all add: refines_def sq_joinPeerDetailed_def joinPeerDetailed_def requireBroadcast_abs
          requireBroadcast_memory reply_of_def memory_reply_def transaction_def findPeer_def get_abs_peer count)
  next
    case admitted: False
    let ?row = "join_row engine request ?existing now"
    let ?t1 = "st_upsertPeer (b, ?p) ?row ?t"
    let ?t2 = "st_insertEmptyPeerStats (b, ?p) ?t1"
    have t1: "?t1 = ?t\<lparr>t_peers := map_set (t_peers ?t) (b, ?p) ?row\<rparr>"
    proof -
      have "(case ?existing of None \<Rightarrow> ?row | Some row \<Rightarrow> row\<lparr>pe_address := pe_address ?row,
          pe_upload_bandwidth_bps := pe_upload_bandwidth_bps ?row, pe_metadata := pe_metadata ?row,
          pe_last_seen_at := pe_last_seen_at ?row\<rparr>) = ?row"
        by (cases ?existing) (auto simp: join_row_def intro!: PeerRow.equality)
      then show ?thesis by (simp only: st_upsertPeer_def)
    qed
    have fits: "json_kept engine (join_metadata request)"
      "case join_uploadBandwidthBps request of None \<Rightarrow> True | Some v \<Rightarrow> 0 \<le> v" using assms(2) by simp_all
    then have bandwidth: "bound (join_uploadBandwidthBps request) = join_uploadBandwidthBps request"
      using nonneg_number by (auto simp: bound_def)
    have "peer_row_ok ?row"
      using fits(2) row_ok[OF ok, of "(b, ?p)"]
      by (cases ?existing) (simp_all add: join_row_def peer_row_ok_def bandwidth)
    then have c1: "constraints_ok ?t1" using ok broadcast
      by (auto simp: t1 tables_ok_def map_has_def
          intro!: constraints_set_peer[where t = ?t and b = b and p = ?p and row = ?row] \<open>peer_row_ok ?row\<close>)
    have "stats_row_ok createEmptyPeerTrafficStats" by (simp add: stats_row_ok_def list_all_iff)
    then have c2: "constraints_ok ?t2"
      using c1 unfolding constraints_ok_def references_iff
      by (auto simp: st_insertEmptyPeerStats_def t1 all_values_set set_keys_set keys_of_set)
    let ?entry = "\<lparr>ps_peer = joined_peer request (map_option (abs_entry engine ?t b ?p) ?existing) now,
       ps_stats = (case ?existing of None \<Rightarrow> createEmptyPeerTrafficStats | Some row \<Rightarrow> stats_of (t_stats ?t) (b, ?p))\<rparr>"
    have stored: "t_broadcasts ?t2 = t_broadcasts ?t" "t_peers ?t2 = map_set (t_peers ?t) (b, ?p) ?row"
      "t_segments ?t2 = t_segments ?t" "t_retired ?t2 = t_retired ?t"
      "key \<noteq> (b, ?p) \<Longrightarrow> map_get (t_stats ?t2) key = map_get (t_stats ?t) key" for key
      by (simp_all add: st_insertEmptyPeerStats_def t1 get_set)
    have segments: "st_getSegments key ?t2 = st_getSegments key ?t" for key by (simp add: st_getSegments_def stored)
    have "t_stats ?t1 = t_stats ?t" unfolding t1 by simp
    then have "stats_of (t_stats ?t2) (b, ?p) = stats_of (t_stats ?t) (b, ?p)"
      by (auto simp: st_insertEmptyPeerStats_def stats_of_def get_set map_has_def split: option.split)
    then have stats: "stats_of (t_stats ?t2) (b, ?p) = ps_stats ?entry"
      using no_peer_rows(1)[OF ok, of b ?p] by (cases ?existing) (simp_all add: stats_of_def)
    have "abs_peer engine ?p ?row (st_getSegments (b, ?p) ?t) = ps_peer ?entry"
      using fits(1) no_peer_rows(2)[OF ok, of b ?p]
      by (cases ?existing) (simp_all add: abs_peer_def join_row_def joined_peer_def json_abs bandwidth abs_entry_def)
    with stats have entry: "abs_entry engine ?t2 b ?p ?row = ?entry" by (simp add: abs_entry_def segments)
    let ?f = "\<lambda>t. let key = (b, ?p); existing = findPeer b ?p t in
          if existing = None \<and> (case maxPeers of None \<Rightarrow> False | Some limit \<Rightarrow> limit \<le> nat_number (st_countPeers b t))
          then throw (Refused PeerLimitReached)
          else and_then (checked (st_upsertPeer key (join_row engine request existing now) t)) (\<lambda>t1.
            and_then (checked (st_insertEmptyPeerStats key t1)) (\<lambda>t2.
            and_then (sq_requirePeer engine b ?p t2) (\<lambda>peer. return ((peer, existing \<noteq> None), t2))))"
    have brow: "sq_requireBroadcast engine b ?t2 = return (abs_broadcast engine b brow)"
      using requireBroadcast_abs[OF ok, of b] broadcast
      by (simp add: sq_requireBroadcast_def findBroadcast_def stored(1))
    have "mapPeer engine ?p ?row (st_getSegments (b, ?p) ?t2) = Inr (ps_peer ?entry)"
    proof -
      have "readable engine (pe_metadata ?row)"
        using fits(1) by (simp add: readable_return join_row_def json_read)
      from mapPeer_abs[OF this] entry show ?thesis by (simp add: abs_entry_def)
    qed
    then have read: "sq_requirePeer engine b ?p ?t2 = Inr (ps_peer ?entry)"
      by (simp add: sq_requirePeer_def brow findPeer_def stored(2) get_set)
    have "?f ?t = Inr ((ps_peer ?entry, ?existing \<noteq> None), ?t2)"
      using admitted unfolding Let_def findPeer_def
      by (simp only: if_False and_then_simps checked_ok[OF c1] checked_ok[OF c2] read)
    from written[where f = ?f, OF this] obtain s' where s': "transaction ?f s = (return (ps_peer ?entry, ?existing \<noteq> None), s')"
      "sq_tables s' = ?t2" "sq_failureConsensus s' = sq_failureConsensus s"
      "sq_maxSegmentsPerPeer s' = sq_maxSegmentsPerPeer s" by blast
    have call: "sqlite_do engine (JoinOp b request maxPeers, now) s = (JoinReply (ps_peer ?entry) (?existing \<noteq> None), s')"
      using requireBroadcast_abs[OF ok, of b] broadcast s'(1)
      by (simp add: sq_joinPeerDetailed_def reply_of_def)
    have memory: "memory_do (JoinOp b request maxPeers, now) (abs_store engine s) =
        (JoinReply (ps_peer ?entry) (?existing \<noteq> None), put_peer b ?p ?entry (abs_store engine s))"
      using admitted by (cases ?existing; cases maxPeers)
        (simp_all add: joinPeerDetailed_def requireBroadcast_memory broadcast get_abs_peer count memory_reply_def Let_def
          abs_entry_def del: de_Morgan_conj)
    have "abs_store engine s' = put_peer b ?p ?entry (abs_store engine s)"
      unfolding entry[symmetric] s'(2)[symmetric]
      by (rule abs_put[OF ok broadcast]) (simp_all add: s'(2-4) stored segments)
    then show ?thesis unfolding call memory refines_def by simp
  qed
qed

section \<open>Removing a broadcast\<close>

lemma unregister_refines:
  assumes "store_ok engine s"
  shows "refines engine (sqlite_do engine (UnregisterOp b, now) s) (memory_do (UnregisterOp b, now) (abs_store engine s))"
proof (cases "map_get (t_broadcasts (sq_tables s)) b")
  case None
  then show ?thesis using assms
    by (simp add: store_ok_def refines_def sq_unregisterBroadcast_def unregisterBroadcast_def requireBroadcast_abs
        reply_of_def memory_reply_def with_unit_def map_has_def abs_store_def get_abs)
next
  case broadcast: (Some brow)
  let ?t = "sq_tables s"
  have ok: "tables_ok engine ?t" using assms by (simp add: store_ok_def)
  let ?g = "\<lambda>t. st_deleteBroadcast b (st_deleteBroadcastPeers b (st_deleteBroadcastRetiredStats b
          (st_deleteBroadcastPeerStats b (st_deleteBroadcastSegments b t))))"
  have g: "?g ?t = ?t\<lparr>t_broadcasts := map_delete (t_broadcasts ?t) b,
      t_peers := filter (\<lambda>((b', _), _). b' \<noteq> b) (t_peers ?t), t_segments := filter (\<lambda>(b', _). b' \<noteq> b) (t_segments ?t),
      t_stats := filter (\<lambda>((b', _), _). b' \<noteq> b) (t_stats ?t), t_retired := map_delete (t_retired ?t) b\<rparr>"
    by (simp add: statement_defs Let_def AList.delete_idem)
  have c: "constraints_ok (?g ?t)"
  proof -
    have old: "constraints_ok ?t" using ok by (simp add: tables_ok_def)
    have rest: "list_all P (map_values (filter (\<lambda>((b', _), _). b' \<noteq> b) m))" if "list_all P (map_values m)"
      for P and m :: "(string \<times> string, 'a) jsmap" using that by (auto simp: list_all_iff)
    have deleted: "list_all P (map_values (map_delete m b))" if "list_all P (map_values m)"
      for P and m :: "(string, 'a) jsmap" using that by (induction m) auto
    have "references_ok (?g ?t)"
      using old unfolding constraints_ok_def references_ok_def g list_all_iff
      by (auto simp: map_has_filter_pairs map_has_filter_keys AList.delete_eq)
    with old show ?thesis unfolding constraints_ok_def g by (simp add: rest deleted)
  qed
  let ?f = "\<lambda>t. and_then (checked (?g t)) (\<lambda>t1. return ((), t1))"
  have "?f ?t = Inr ((), ?g ?t)" by (simp only: and_then_simps checked_ok[OF c])
  from written[where f = ?f, OF this] obtain s' where s': "transaction ?f s = (return (), s')" "sq_tables s' = ?g ?t"
    "sq_failureConsensus s' = sq_failureConsensus s" "sq_maxSegmentsPerPeer s' = sq_maxSegmentsPerPeer s" by blast
  have call: "sqlite_do engine (UnregisterOp b, now) s = (DoneReply, s')"
    using requireBroadcast_abs[OF ok, of b] broadcast s'(1) by (simp add: sq_unregisterBroadcast_def reply_of_def)
  have memory: "memory_do (UnregisterOp b, now) (abs_store engine s) =
      (DoneReply, (abs_store engine s)\<lparr>ts_broadcasts := map_delete (abs_tables engine ?t) b\<rparr>)"
    by (simp add: unregisterBroadcast_def map_has_def abs_store_def get_abs broadcast memory_reply_def with_unit_def)
  have other: "abs_state engine (?g ?t) c row = abs_state engine ?t c row" if "c \<noteq> b" for c row
  proof -
    have "peers_of_broadcast c (?g ?t) = peers_of_broadcast c ?t"
      using that by (auto simp: g peers_of_broadcast_def intro!: arg_cong[where f = "map _"] filter_cong)
    moreover have "st_getSegments (c, p) (?g ?t) = st_getSegments (c, p) ?t" for p
      using that by (auto simp: g st_getSegments_def intro!: arg_cong[where f = "map _"] filter_cong)
    moreover have "map_get (t_stats (?g ?t)) (c, p) = map_get (t_stats ?t) (c, p)" for p
      using that by (simp add: g get_filter_pairs)
    moreover have "map_get (t_retired (?g ?t)) c = map_get (t_retired ?t) c" using that by (simp add: g get_delete)
    ultimately show ?thesis by (simp add: abs_state_def abs_entry_def stats_of_def)
  qed
  have "abs_tables engine (?g ?t) = map (\<lambda>(c, row). (c, abs_state engine ?t c row)) (map_delete (t_broadcasts ?t) b)"
  proof -
    have "t_broadcasts (?g ?t) = map_delete (t_broadcasts ?t) b" unfolding g by simp
    then show ?thesis unfolding abs_tables_def AList.delete_eq
      by (auto simp only: set_filter mem_Collect_eq prod.case intro!: map_cong other)
  qed
  then have "abs_store engine s' = (abs_store engine s)\<lparr>ts_broadcasts := map_delete (abs_tables engine ?t) b\<rparr>"
    by (simp add: abs_store_def s' delete_map_keyed abs_tables_def)
  then show ?thesis unfolding call memory refines_def by simp
qed

section \<open>Retiring a peer\<close>

text \<open>The engine adds whole numbers exactly, as \<^verbatim>\<open>+\<close> does on integers of 64 bits.\<close>

definition adds_exactly :: "SqlEngine \<Rightarrow> bool" where
  "adds_exactly engine \<longleftrightarrow>
     (\<forall>x y. x + y \<le> 2 ^ 53 \<longrightarrow> sql_plus engine (nat_number x) (nat_number y) = nat_number (x + y))"

lemma plus_stats_nat:
  assumes "adds_exactly engine" "\<And>k. c k + d k \<le> 2 ^ 53"
  shows "plus_stats (sql_plus engine) (nat_stats c) (nat_stats d) = nat_stats (\<lambda>k. c k + d k)"
proof (rule stats_eqI)
  fix k
  have "stat_get k (plus_stats add a b) = add (stat_get k a) (stat_get k b)" for add a b
    unfolding plus_stats_def
    using stat_get_fold_set[of peerTrafficStatKeys k "\<lambda>key v. add v (stat_get key b)" a] by simp
  then show "stat_get k (plus_stats (sql_plus engine) (nat_stats c) (nat_stats d)) = stat_get k (nat_stats (\<lambda>k. c k + d k))"
    using assms by (simp add: adds_exactly_def)
qed

lemma nat_stats_ok: "stats_row_ok (nat_stats c)"
  by (simp add: stats_row_ok_def list_all_iff zero_number_def)

lemma deleted_values: "list_all P (map_values m) \<Longrightarrow> list_all P (map_values (map_delete m k))"
  by (induction m) auto

lemma state_eqI: "bs_broadcast x = bs_broadcast y \<Longrightarrow> bs_peers x = bs_peers y \<Longrightarrow>
    bs_retiredStats x = bs_retiredStats y \<Longrightarrow> x = (y :: BroadcastState)"
  by simp

lemma retire_fields:
  "bs_broadcast (retire_peer p st state) = bs_broadcast state"
  "bs_peers (retire_peer p st state) = map_delete (bs_peers state) p"
  "bs_retiredStats (retire_peer p st state) = addPeerTrafficStats (bs_retiredStats state) (ps_stats st)"
  by (simp_all add: retire_peer_def)

text \<open>What \<^verbatim>\<open>retirePeer\<close> does to the tables and to the state they stand for.\<close>

lemma retire_abs:
  assumes "tables_ok engine t" "map_get (t_broadcasts t) b = Some brow" "map_get (t_peers t) (b, p) = Some row"
    "adds_exactly engine" "counted c (abs_state engine t b brow)"
  obtains t' where "retirePeer engine (b, p) t = Inr t'" "tables_ok engine t'"
    "abs_tables engine t' = map_set (abs_tables engine t) b (retire_peer p (abs_entry engine t b p row) (abs_state engine t b brow))"
    "t_peers t' = map_delete (t_peers t) (b, p)" "t_broadcasts t' = t_broadcasts t"
proof -
  let ?state = "abs_state engine t b brow"
  obtain stats where stats: "map_get (t_stats t) (b, p) = Some stats" using peer_counted[OF assms(1,3)] by blast
  obtain r cs where r: "bs_retiredStats ?state = nat_stats r"
    "map (\<lambda>x. ps_stats (snd x)) (bs_peers ?state) = map nat_stats cs" "\<And>k. c k = r k + sum_counts cs k" "\<And>k. c k \<le> 2 ^ 53"
    using assms(5) by (auto simp: counted_def)
  have entry: "map_get (bs_peers ?state) p = Some (abs_entry engine t b p row)" by (simp add: get_abs_peer assms(3))
  have own: "ps_stats (abs_entry engine t b p row) = stats" by (simp add: abs_entry_def stats_of_def stats)
  then have "stats \<in> set (map (\<lambda>x. ps_stats (snd x)) (bs_peers ?state))" using map_of_SomeD[OF entry] by force
  then obtain d where d: "stats = nat_stats d" "d \<in> set cs" unfolding r(2) by auto
  have "d k \<le> sum_counts cs k" for k using d(2) by (induction cs) auto
  with r(3,4) have small: "r k + d k \<le> 2 ^ 53" for k using order_trans[of "r k + d k" "c k"] by simp
  let ?retired = "nat_stats (\<lambda>k. r k + d k)"
  let ?t1 = "t\<lparr>t_retired := map_set (t_retired t) b ?retired\<rparr>"
  have t1: "st_accumulateRetiredStats engine (b, p) t = ?t1"
  proof (cases "map_get (t_retired t) b")
    case None
    with r(1) have "nat_stats r = nat_stats (\<lambda>_. 0)" by (simp add: abs_state_def stats_of_def nat_stats_zero)
    then have "r = (\<lambda>_. 0)" by (simp only: nat_stats_inject)
    with None show ?thesis by (simp add: st_accumulateRetiredStats_def stats d(1))
  next
    case (Some x)
    with r(1) have "x = nat_stats r" by (simp add: abs_state_def stats_of_def)
    with Some plus_stats_nat[OF assms(4), of r d, OF small] show ?thesis
      by (simp add: st_accumulateRetiredStats_def stats d(1))
  qed
  let ?t2 = "?t1\<lparr>t_stats := map_delete (t_stats t) (b, p)\<rparr>"
  let ?t3 = "?t2\<lparr>t_segments := filter (\<lambda>(b', p', _). (b', p') \<noteq> (b, p)) (t_segments t)\<rparr>"
  let ?t4 = "?t3\<lparr>t_peers := map_delete (t_peers t) (b, p)\<rparr>"
  have steps: "st_deletePeerStats (b, p) ?t1 = ?t2" "st_deletePeerSegments (b, p) ?t2 = ?t3" "st_deletePeer (b, p) ?t3 = ?t4"
    by (simp_all add: statement_defs Let_def AList.delete_idem del: prod.inject)
  have old: "constraints_ok t" using assms(1) by (simp add: tables_ok_def)
  have refs: "references_ok ?t1" "references_ok ?t2" "references_ok ?t3" "references_ok ?t4"
    using old assms(2) unfolding constraints_ok_def references_ok_def list_all_iff
    by (auto simp: map_has_def AList.delete_eq get_filter_keys dest!: set_map_set[THEN subsetD])
  have c: "constraints_ok ?t1" "constraints_ok ?t2" "constraints_ok ?t3" "constraints_ok ?t4"
    using old refs by (simp_all add: constraints_ok_def all_values_set deleted_values nat_stats_ok)
  have ran: "retirePeer engine (b, p) t = Inr ?t4"
    by (simp only: retirePeer_def t1 steps and_then_simps checked_ok[OF c(1)] checked_ok[OF c(2)] checked_ok[OF c(3)]
        checked_ok[OF c(4)])
  have ok: "tables_ok engine ?t4" by (rule retire_tables_ok[OF assms(1) ran])
  have other: "abs_entry engine ?t4 c q r = abs_entry engine t c q r" if "(c, q) \<noteq> (b, p)" for c q r
  proof -
    have "st_getSegments (c, q) ?t4 = st_getSegments (c, q) t"
      using that by (auto simp: st_getSegments_def intro!: arg_cong[where f = "map _"] filter_cong)
    moreover have "map_get (t_stats ?t4) (c, q) = map_get (t_stats t) (c, q)" using that by (auto simp: get_delete)
    ultimately show ?thesis by (simp add: abs_entry_def stats_of_def)
  qed
  have peers: "peers_of_broadcast c ?t4 = (if c = b then map_delete (peers_of_broadcast b t) p else peers_of_broadcast c t)" for c
    by (rule peers_of_delete) simp
  have "map (\<lambda>(q, r). (q, abs_entry engine ?t4 b q r)) (map_delete (peers_of_broadcast b t) p) =
      map_delete (bs_peers ?state) p"
  proof -
    have same: "abs_entry engine ?t4 b q r = abs_entry engine t b q r" if "p \<noteq> q" for q r
      using that by (intro other) simp
    have "map (\<lambda>(q, r). (q, abs_entry engine ?t4 b q r)) (map_delete (peers_of_broadcast b t) p) =
        map (\<lambda>(q, r). (q, abs_entry engine t b q r)) (map_delete (peers_of_broadcast b t) p)"
      unfolding AList.delete_eq[of p]
      by (auto simp only: set_filter mem_Collect_eq prod.case intro!: map_cong same)
    then show ?thesis by (simp add: delete_map_keyed abs_state_def)
  qed
  then have "bs_peers (abs_state engine ?t4 b brow) = map_delete (bs_peers ?state) p"
    by (simp only: abs_state_def BroadcastState.select_convs peers simp_thms if_True)
  moreover have "addPeerTrafficStats (nat_stats r) stats = ?retired" unfolding d(1) by (rule add_nat_stats) (rule small)
  moreover have "bs_retiredStats (abs_state engine ?t4 b brow) = ?retired" by (simp add: abs_state_def stats_of_def get_set)
  moreover have "bs_broadcast (abs_state engine ?t4 b brow) = bs_broadcast ?state" by (simp add: abs_state_def)
  ultimately have here: "abs_state engine ?t4 b brow = retire_peer p (abs_entry engine t b p row) ?state"
    by (intro state_eqI) (simp_all only: retire_fields own r(1))
  have there: "abs_state engine ?t4 c row' = abs_state engine t c row'" if "c \<noteq> b" for c row'
  proof -
    have "peers_of_broadcast c ?t4 = peers_of_broadcast c t" using peers[of c] that by (simp only: if_False)
    moreover have "abs_entry engine ?t4 c q r = abs_entry engine t c q r" for q r using that by (intro other) simp
    moreover have "map_get (t_retired ?t4) c = map_get (t_retired t) c" using that by (simp add: get_set)
    ultimately show ?thesis by (simp only: abs_state_def stats_of_def)
  qed
  have "abs_tables engine ?t4 = map_set (abs_tables engine t) b (abs_state engine ?t4 b brow)"
    by (rule abs_tables_put[OF assms(1,2)]) (use there in simp_all)
  with ran ok here show ?thesis by (intro that[of ?t4]) simp_all
qed

lemma abs_counted:
  assumes "all_counted (abs_store engine s)" "map_get (t_broadcasts (sq_tables s)) b = Some brow"
  obtains c where "counted c (abs_state engine (sq_tables s) b brow)"
  using counted_of[OF assms(1), of b] assms(2) by (auto simp: abs_store_def get_abs)

lemma leave_refines:
  assumes "store_ok engine s" "adds_exactly engine" "all_counted (abs_store engine s)"
  shows "refines engine (sqlite_do engine (LeaveOp b p, now) s) (memory_do (LeaveOp b p, now) (abs_store engine s))"
proof -
  let ?t = "sq_tables s"
  have ok: "tables_ok engine ?t" using assms by (simp add: store_ok_def)
  consider (missing) "\<not> (\<exists>brow row. map_get (t_broadcasts ?t) b = Some brow \<and> map_get (t_peers ?t) (b, p) = Some row)"
    | (found) brow row where "map_get (t_broadcasts ?t) b = Some brow" "map_get (t_peers ?t) (b, p) = Some row" by blast
  then show ?thesis
  proof cases
    case missing
    then show ?thesis using ok
      by (cases "map_get (t_broadcasts ?t) b")
        (auto simp: refines_def sq_leavePeer_def leavePeer_def requireBroadcast_abs requirePeer_abs requireBroadcast_memory
          get_abs_peer reply_of_def memory_reply_def with_unit_def split: option.split)
  next
    case found
    obtain c where c: "counted c (abs_state engine ?t b brow)" using abs_counted[OF assms(3) found(1)] .
    obtain t' where t': "retirePeer engine (b, p) ?t = Inr t'" "abs_tables engine t' = map_set (abs_tables engine ?t) b
        (retire_peer p (abs_entry engine ?t b p row) (abs_state engine ?t b brow))"
      using retire_abs[OF ok found assms(2) c] by metis
    let ?f = "\<lambda>t. and_then (retirePeer engine (b, p) t) (\<lambda>t1. return ((), t1))"
    have "?f ?t = Inr ((), t')" by (simp add: t'(1))
    from written[where f = ?f, OF this] obtain s' where s': "transaction ?f s = (return (), s')" "sq_tables s' = t'"
      "sq_failureConsensus s' = sq_failureConsensus s" "sq_maxSegmentsPerPeer s' = sq_maxSegmentsPerPeer s" by blast
    have call: "sqlite_do engine (LeaveOp b p, now) s = (DoneReply, s')"
      using requireBroadcast_abs[OF ok, of b] requirePeer_abs[OF ok, of b p] found s'(1)
      by (simp add: sq_leavePeer_def reply_of_def)
    have memory: "memory_do (LeaveOp b p, now) (abs_store engine s) = (DoneReply, put_broadcast b
        (retire_peer p (abs_entry engine ?t b p row) (abs_state engine ?t b brow)) (abs_store engine s))"
      by (simp add: leavePeer_def requireBroadcast_memory found get_abs_peer memory_reply_def with_unit_def)
    have "abs_store engine s' = put_broadcast b (retire_peer p (abs_entry engine ?t b p row) (abs_state engine ?t b brow))
        (abs_store engine s)"
      by (simp add: abs_store_def put_broadcast_def s'(2-4) t'(2))
    then show ?thesis unfolding call memory refines_def by simp
  qed
qed

section \<open>The sweep\<close>

text \<open>What remains of the broadcasts after some peers are retired: the others, in order, and counters that add up to
  what they added up to before. No two states fit this description.\<close>

definition after_retiring ::
    "(string \<times> string) set \<Rightarrow> (string, BroadcastState) jsmap \<Rightarrow> (string, BroadcastState) jsmap \<Rightarrow> bool" where
  "after_retiring gone m m' \<longleftrightarrow> map_keys m' = map_keys m \<and> (\<forall>b state. map_get m b = Some state \<longrightarrow>
     (\<exists>state'. map_get m' b = Some state' \<and> bs_broadcast state' = bs_broadcast state \<and>
        bs_peers state' = filter (\<lambda>(p, st). (b, p) \<notin> gone) (bs_peers state) \<and>
        (\<forall>c. counted c state \<longrightarrow> counted c state')))"

lemma retiring_nobody: "after_retiring {} m m"
  by (simp add: after_retiring_def split_beta)

lemma retiring_more:
  assumes "after_retiring gone m m'" "after_retiring gone' m' m''"
  shows "after_retiring (gone \<union> gone') m m''"
  unfolding after_retiring_def
proof (intro conjI allI impI)
  show "map_keys m'' = map_keys m" using assms by (simp add: after_retiring_def)
  fix b state assume "map_get m b = Some state"
  with assms(1) obtain state' where s': "map_get m' b = Some state'" "bs_broadcast state' = bs_broadcast state"
    "bs_peers state' = filter (\<lambda>(p, st). (b, p) \<notin> gone) (bs_peers state)" "\<forall>c. counted c state \<longrightarrow> counted c state'"
    unfolding after_retiring_def by blast
  from assms(2) s'(1) obtain state'' where "map_get m'' b = Some state''" "bs_broadcast state'' = bs_broadcast state'"
    "bs_peers state'' = filter (\<lambda>(p, st). (b, p) \<notin> gone') (bs_peers state')" "\<forall>c. counted c state' \<longrightarrow> counted c state''"
    unfolding after_retiring_def by blast
  with s' show "\<exists>state'. map_get m'' b = Some state' \<and> bs_broadcast state' = bs_broadcast state \<and>
      bs_peers state' = filter (\<lambda>(p, st). (b, p) \<notin> gone \<union> gone') (bs_peers state) \<and> (\<forall>c. counted c state \<longrightarrow> counted c state')"
    by (auto simp: case_prod_unfold conj_commute)
qed

lemma counted_unique:
  assumes "counted c x" "counted c y" "bs_peers x = bs_peers y" "bs_broadcast x = bs_broadcast y"
  shows "x = (y :: BroadcastState)"
proof -
  obtain r cs where r: "bs_retiredStats x = nat_stats r" "map (\<lambda>x. ps_stats (snd x)) (bs_peers x) = map nat_stats cs"
    "\<And>k. c k = r k + sum_counts cs k" using assms(1) by (auto simp: counted_def)
  obtain r' cs' where r': "bs_retiredStats y = nat_stats r'" "map (\<lambda>x. ps_stats (snd x)) (bs_peers y) = map nat_stats cs'"
    "\<And>k. c k = r' k + sum_counts cs' k" using assms(2) by (auto simp: counted_def)
  have "map nat_stats cs = map nat_stats cs'" using r(2) r'(2) assms(3) by simp
  then have "cs = cs'" by (rule map_injective) (simp add: inj_def nat_stats_inject)
  with r(3) r'(3) have "r k = r' k" for k by (metis add_right_cancel)
  then have "bs_retiredStats x = bs_retiredStats y" by (simp add: r(1) r'(1) nat_stats_inject fun_eq_iff)
  with assms(3,4) show ?thesis by (intro state_eqI) simp_all
qed

lemma maps_equal: "wf_map m \<Longrightarrow> map_keys m = map_keys m' \<Longrightarrow> (\<And>k. map_get m k = map_get m' k) \<Longrightarrow> m = m'"
proof (induction m arbitrary: m')
  case (Cons x m)
  obtain k v where x: "x = (k, v)" by (cases x)
  with Cons.prems(2) obtain v' m2 where m': "m' = (k, v') # m2" "map_keys m = map_keys m2" by (cases m') auto
  have fresh: "k \<notin> fst ` set m" "k \<notin> fst ` set m2"
    using Cons.prems(1) arg_cong[OF m'(2), of set] by (auto simp: x wf_map_Cons)
  have "map_get m k2 = map_get m2 k2" for k2
  proof (cases "k2 = k")
    case True
    with fresh show ?thesis by (metis map_of_eq_None_iff)
  next
    case False
    with Cons.prems(3)[of k2] show ?thesis by (simp add: x m'(1))
  qed
  with Cons.IH[of m2] Cons.prems(1) m'(2) have "m = m2" by (simp add: x wf_map_Cons)
  with Cons.prems(3)[of k] show ?case by (simp add: x m'(1))
qed simp

lemma retiring_unique:
  assumes "wf_map m" "\<forall>(b, state) \<in> set m. \<exists>c. counted c state" "after_retiring gone m m1" "after_retiring gone m m2"
  shows "m1 = m2"
proof (rule maps_equal)
  have keys: "map_keys m1 = map_keys m" "map_keys m2 = map_keys m" using assms(3,4) by (auto simp: after_retiring_def)
  then show "wf_map m1" "map_keys m1 = map_keys m2" using assms(1) by (simp_all add: wf_map_def)
  fix b
  show "map_get m1 b = map_get m2 b"
  proof (cases "map_get m b")
    case None
    then have "b \<notin> fst ` set m1" "b \<notin> fst ` set m2"
      using keys[THEN arg_cong, of set] by (auto simp: map_of_eq_None_iff)
    then show ?thesis by (metis map_of_eq_None_iff)
  next
    case (Some state)
    then obtain c where c: "counted c state" using assms(2) map_of_SomeD by fastforce
    from assms(3,4) Some obtain x y where xy: "map_get m1 b = Some x" "map_get m2 b = Some y"
      "bs_broadcast x = bs_broadcast y" "bs_peers x = bs_peers y" "counted c x" "counted c y"
      unfolding after_retiring_def using c by metis
    then show ?thesis using counted_unique[of c x y] by simp
  qed
qed

text \<open>The SQLite sweep retires the listed peers one by one.\<close>

lemma filter_key: "filter (\<lambda>(p', st). (b', p') \<notin> {(b, p)}) m = (if b' = b then map_delete m p else m)"
proof (cases "b' = b")
  case True
  then show ?thesis by (auto simp: AList.delete_eq intro: filter_cong)
qed (simp add: split_beta)

lemma retiring_one:
  assumes "wf_map m" "map_get m b = Some state" "map_get (bs_peers state) p = Some st"
  shows "after_retiring {(b, p)} m (map_set m b (retire_peer p st state))"
  unfolding after_retiring_def filter_key
proof (intro conjI allI impI)
  have "b \<in> set (map_keys m)" using assms(2) by (force dest: map_of_SomeD)
  then show "map_keys (map_set m b (retire_peer p st state)) = map_keys m" by (simp add: keys_set)
  fix b' state' assume state': "map_get m b' = Some state'"
  show "\<exists>after. map_get (map_set m b (retire_peer p st state)) b' = Some after \<and> bs_broadcast after = bs_broadcast state' \<and>
      bs_peers after = (if b' = b then map_delete (bs_peers state') p else bs_peers state') \<and>
      (\<forall>c. counted c state' \<longrightarrow> counted c after)"
    using state' assms(2,3) by (cases "b' = b") (simp_all add: get_set retire_fields counted_retire)
qed

lemma wf_abs: "tables_ok engine t \<Longrightarrow> wf_map (abs_tables engine t)"
  using keys_ok(1)[of engine t] by (simp add: wf_map_def abs_tables_def comp_def split_beta)

lemma retire_all_abs:
  assumes "tables_ok engine t" "adds_exactly engine" "\<forall>(b, state) \<in> set (abs_tables engine t). \<exists>c. counted c state"
    "distinct keys" "\<forall>key \<in> set keys. map_has (t_peers t) key"
  shows "\<exists>t'. retire_all engine keys t = Inr t' \<and> after_retiring (set keys) (abs_tables engine t) (abs_tables engine t')"
  using assms
proof (induction keys arbitrary: t)
  case (Cons key keys)
  obtain b p where key: "key = (b, p)" by (cases key)
  with Cons.prems(5) obtain row where row: "map_get (t_peers t) (b, p) = Some row" by (auto simp: map_has_def)
  obtain brow where brow: "map_get (t_broadcasts t) b = Some brow" using peer_broadcast[OF Cons.prems(1) row] by blast
  have state: "map_get (abs_tables engine t) b = Some (abs_state engine t b brow)" by (simp add: get_abs brow)
  from map_of_SomeD[OF this] Cons.prems(3) obtain c where c: "counted c (abs_state engine t b brow)" by blast
  obtain t1 where t1: "retirePeer engine (b, p) t = Inr t1" "tables_ok engine t1" "abs_tables engine t1 =
      map_set (abs_tables engine t) b (retire_peer p (abs_entry engine t b p row) (abs_state engine t b brow))"
    "t_peers t1 = map_delete (t_peers t) (b, p)"
    using retire_abs[OF Cons.prems(1) brow row Cons.prems(2) c] by metis
  have entry: "map_get (bs_peers (abs_state engine t b brow)) p = Some (abs_entry engine t b p row)"
    by (simp add: get_abs_peer row)
  have one: "after_retiring {(b, p)} (abs_tables engine t) (abs_tables engine t1)"
    unfolding t1(3) by (rule retiring_one[OF wf_abs[OF Cons.prems(1)] state entry])
  have "\<exists>c. counted c state'" if "(b', state') \<in> set (abs_tables engine t1)" for b' state'
    using that Cons.prems(3) set_map_set[of b _ "abs_tables engine t"] counted_retire[OF c entry] unfolding t1(3) by blast
  then have "\<exists>t'. retire_all engine keys t1 = Inr t' \<and> after_retiring (set keys) (abs_tables engine t1) (abs_tables engine t')"
    using Cons.prems(4,5) by (intro Cons.IH[OF t1(2) Cons.prems(2)]) (auto simp: key t1(4))
  with retiring_more[OF one] show ?case by (auto simp: key t1(1) insert_is_Un[symmetric])
qed (simp add: retiring_nobody)

text \<open>The sweep of the in-memory store.\<close>

definition stale_in :: "int \<Rightarrow> BroadcastState \<Rightarrow> string list" where
  "stale_in cutoff state = map fst (filter (\<lambda>(p, st). peer_lastSeenAt (ps_peer st) < cutoff) (bs_peers state))"

lemma swept:
  assumes "wf_map ps"
  shows "fst (sweep_peers cutoff ps state) =
      map fst (filter (\<lambda>(p, st). peer_lastSeenAt (ps_peer st) < cutoff) ps)"
    "bs_broadcast (snd (sweep_peers cutoff ps state)) = bs_broadcast state"
    "bs_peers (snd (sweep_peers cutoff ps state)) =
      filter (\<lambda>(p, st). p \<notin> set (fst (sweep_peers cutoff ps state))) (bs_peers state)"
proof -
  have "fst (sweep_peers cutoff ps state) = map fst (filter (\<lambda>(p, st). peer_lastSeenAt (ps_peer st) < cutoff) ps) \<and>
      bs_broadcast (snd (sweep_peers cutoff ps state)) = bs_broadcast state \<and>
      bs_peers (snd (sweep_peers cutoff ps state)) =
        filter (\<lambda>(p, st). p \<notin> set (fst (sweep_peers cutoff ps state))) (bs_peers state)"
    by (induction cutoff ps state rule: sweep_peers.induct)
      (auto simp: retire_fields AList.delete_eq case_prod_unfold intro!: filter_cong)
  then show "fst (sweep_peers cutoff ps state) =
      map fst (filter (\<lambda>(p, st). peer_lastSeenAt (ps_peer st) < cutoff) ps)"
    "bs_broadcast (snd (sweep_peers cutoff ps state)) = bs_broadcast state"
    "bs_peers (snd (sweep_peers cutoff ps state)) =
      filter (\<lambda>(p, st). p \<notin> set (fst (sweep_peers cutoff ps state))) (bs_peers state)" by blast+
qed

lemma sweep_retires:
  assumes "wf_map m" "\<forall>(b, state) \<in> set m. wf_map (bs_peers state)"
    "\<forall>(b, state) \<in> set m. \<forall>p \<in> fst ` set (bs_peers state). (b, p) \<in> gone \<longleftrightarrow> p \<in> set (stale_in cutoff state)"
  shows "after_retiring gone m (map (\<lambda>(b, state). (b, snd (sweep_peers cutoff (bs_peers state) state))) m)"
  unfolding after_retiring_def
proof (intro conjI allI impI)
  show "map_keys (map (\<lambda>(b, state). (b, snd (sweep_peers cutoff (bs_peers state) state))) m) = map_keys m"
    by (induction m) auto
  fix b state assume state: "map_get m b = Some state"
  from map_of_SomeD[OF state] assms(2,3) have wf: "wf_map (bs_peers state)"
    and gone: "\<forall>p \<in> fst ` set (bs_peers state). (b, p) \<in> gone \<longleftrightarrow> p \<in> set (stale_in cutoff state)" by blast+
  let ?after = "snd (sweep_peers cutoff (bs_peers state) state)"
  have "bs_peers ?after = filter (\<lambda>(p, st). (b, p) \<notin> gone) (bs_peers state)"
    unfolding swept(3)[OF wf] swept(1)[OF wf] using gone by (intro filter_cong) (force simp: stale_in_def)+
  moreover have "counted c ?after" if "counted c state" for c
    by (rule sweep_counted[OF that wf]) (use wf in \<open>auto simp: wf_map_def\<close>)
  ultimately show "\<exists>state'. map_get (map (\<lambda>(b, state). (b, snd (sweep_peers cutoff (bs_peers state) state))) m) b = Some state' \<and>
      bs_broadcast state' = bs_broadcast state \<and> bs_peers state' = filter (\<lambda>(p, st). (b, p) \<notin> gone) (bs_peers state) \<and>
      (\<forall>c. counted c state \<longrightarrow> counted c state')"
    by (simp add: map_get_map state swept(2)[OF wf])
qed

lemma stale_rows:
  assumes "(b, state) \<in> set (abs_tables engine t)"
  shows "p \<in> set (stale_in cutoff state) \<longleftrightarrow> (b, p) \<in> set (st_listStalePeers cutoff t)"
proof -
  from assms obtain brow where "state = abs_state engine t b brow" by (auto simp: abs_tables_def)
  then show ?thesis
    by (force simp: stale_in_def st_listStalePeers_def abs_state_def abs_entry_def abs_peer_def peers_of_broadcast_def)
qed

lemma distinct_pairs:
  "wf_map m \<Longrightarrow> (\<And>b x. (b, x) \<in> set m \<Longrightarrow> distinct (f b x)) \<Longrightarrow> distinct (concat (map (\<lambda>(b, x). map (Pair b) (f b x)) m))"
proof (induction m)
  case (Cons y m)
  obtain b x where y: "y = (b, x)" by (cases y)
  have "distinct (map (Pair b) (f b x))" using Cons.prems(2)[of b x] by (simp add: y distinct_map inj_on_def)
  moreover have "b \<notin> fst ` set m" using Cons.prems(1) by (simp add: y wf_map_Cons)
  moreover have "distinct (concat (map (\<lambda>(b, x). map (Pair b) (f b x)) m))"
    using Cons.prems by (intro Cons.IH) (simp_all add: y wf_map_Cons)
  ultimately show ?case by (force simp: y)
qed simp

lemma sweep_refines:
  assumes "store_ok engine s" "adds_exactly engine" "all_counted (abs_store engine s)"
  shows "refines engine (sqlite_do engine (SweepOp maxAgeMs, now) s) (memory_do (SweepOp maxAgeMs, now) (abs_store engine s))"
proof -
  let ?t = "sq_tables s" and ?cutoff = "now - maxAgeMs"
  let ?keys = "st_listStalePeers ?cutoff ?t" and ?m = "abs_tables engine ?t"
  let ?swept = "map (\<lambda>(b, state). (b, snd (sweep_peers ?cutoff (bs_peers state) state))) ?m"
  have ok: "tables_ok engine ?t" using assms by (simp add: store_ok_def)
  have counted: "\<forall>(b, state) \<in> set ?m. \<exists>c. counted c state"
    using assms(3) by (simp add: all_counted_def abs_store_def)
  have wf: "\<forall>(b, state) \<in> set ?m. wf_map (bs_peers state)" using counted by (fastforce simp: counted_def)
  have distinct: "distinct ?keys"
    using keys_ok(2)[OF ok] distinct_map_sort_by[of id]
    by (auto simp: st_listStalePeers_def wf_map_def intro: distinct_map_filter)
  have present: "\<forall>key \<in> set ?keys. map_has (t_peers ?t) key" by (force simp: st_listStalePeers_def has_key)
  obtain t' where t': "retire_all engine ?keys ?t = Inr t'" "after_retiring (set ?keys) ?m (abs_tables engine t')"
    using retire_all_abs[OF ok assms(2) counted distinct present] by blast
  have "after_retiring (set ?keys) ?m ?swept"
    by (rule sweep_retires[OF wf_abs[OF ok] wf]) (use stale_rows in blast)
  from retiring_unique[OF wf_abs[OF ok] counted t'(2) this] have same: "abs_tables engine t' = ?swept" .
  let ?f = "\<lambda>t. and_then (retire_all engine ?keys t) (\<lambda>t1. return (?keys, t1))"
  have "?f ?t = Inr (?keys, t')" by (simp add: t'(1))
  from written[where f = ?f, OF this] obtain s' where s': "transaction ?f s = (return ?keys, s')" "sq_tables s' = t'"
    "sq_failureConsensus s' = sq_failureConsensus s" "sq_maxSegmentsPerPeer s' = sq_maxSegmentsPerPeer s" by blast
  have call: "sqlite_do engine (SweepOp maxAgeMs, now) s = (RemovedReply ?keys, s')"
    using s'(1) by (simp add: sq_removeStalePeers_def Let_def reply_of_def)
  let ?removed = "concat (map (\<lambda>(b, state). map (Pair b) (stale_in ?cutoff state)) ?m)"
  have "concat (map (\<lambda>(b, removed, state). map (Pair b) removed)
      (map (\<lambda>(b, state). (b, sweep_peers ?cutoff (bs_peers state) state)) ?m)) = ?removed"
    using wf swept(1) by (auto simp: stale_in_def split_beta intro!: arg_cong[where f = concat])
  then have memory: "memory_do (SweepOp maxAgeMs, now) (abs_store engine s) =
      (RemovedReply ?removed, (abs_store engine s)\<lparr>ts_broadcasts := ?swept\<rparr>)"
    by (simp add: removeStalePeers_def Let_def abs_store_def comp_def split_beta)
  have distinct': "distinct ?removed"
    by (rule distinct_pairs[OF wf_abs[OF ok]]) (use wf in \<open>auto simp: stale_in_def wf_map_def intro: distinct_map_filter\<close>)
  have sets: "set ?keys = set ?removed"
  proof -
    have "\<exists>state. (b, state) \<in> set ?m" if "(b, p) \<in> set ?keys" for b p
    proof -
      from present that obtain row where "map_get (t_peers ?t) (b, p) = Some row" by (auto simp: map_has_def)
      from peer_broadcast[OF ok this] obtain brow where "map_get (t_broadcasts ?t) b = Some brow" by blast
      from map_of_SomeD[OF this] show ?thesis by (force simp: abs_tables_def)
    qed
    then show ?thesis using stale_rows[of _ _ engine ?t _ ?cutoff] by fastforce
  qed
  have "mset ?keys = mset ?removed" by (rule iffD1[OF set_eq_iff_mset_eq_distinct[OF distinct distinct'] sets])
  moreover have "abs_store engine s' = (abs_store engine s)\<lparr>ts_broadcasts := ?swept\<rparr>"
    by (simp add: abs_store_def s'(2-4) same)
  ultimately show ?thesis unfolding call memory refines_def by simp
qed

end
