(* ===== verification/SqliteSpec.thy ===== *)
theory SqliteSpec
  imports SqliteDepartures
begin

text \<open>
  What the SQLite store promises: in every state it can reach, an operation does what it does in the in-memory store,
  queries read what the in-memory store would show, rollups record every broadcast, and migrations bring a file to the
  latest schema.
\<close>

section \<open>Operations\<close>

lemma do_refines:
  assumes "store_ok engine s" "adds_exactly engine" "op_fits engine op" "all_counted (abs_store engine s)"
  shows "refines engine (sqlite_do engine (op, now) s) (memory_do (op, now) (abs_store engine s))"
  using assms
  by (cases op) (simp_all only: register_refines unregister_refines join_refines leave_refines segments_refines
      delta_refines heartbeat_refines stats_refines failure_refines sweep_refines)

text \<open>C9: In every state the SQLite store can reach, an operation replies what the in-memory store replies in the
  corresponding state, error or not, and the states they leave correspond again: the same broadcasts, peers, counters and
  failure reports, in the same order, and for every peer the same set of segments. (Provided that metadata survives
  JSON, measurements are numbers, and counters add up to integers that a binary64 number holds exactly.)\<close>

theorem sqlite_refines_memory:
  assumes "adds_exactly engine" "op_fits engine op" "all_counted (abs_store engine (sqlite_run engine events m))"
  shows "refines engine (sqlite_do engine (op, now) (sqlite_run engine events m))
    (memory_do (op, now) (abs_store engine (sqlite_run engine events m)))"
  using do_refines[OF sqlite_run_ok assms] .

definition sample_engine :: SqlEngine where
  "sample_engine = \<lparr>sql_plus = (+), sql_sum = (\<lambda>xs. fold (+) xs 0), sql_stringify = (\<lambda>m. ''{}''), sql_parse = (\<lambda>v. None)\<rparr>"

definition sample_calls :: "sqlite_event list" where
  "sample_calls = [StoreCall (RegisterOp \<lparr>reg_id = ''live'', reg_playlistUrl = ''u'', reg_metadata = None\<rparr>) 0,
     StoreCall (JoinOp ''live'' (sample_join ''a'') None) 1, StoreCall (StatsOp ''live'' ''a'' (nat_stats (\<lambda>_. 7))) 2]"

lemma sample_exact: "adds_exactly sample_engine"
  unfolding adds_exactly_def sample_engine_def using nat_number_plus by simp

lemma sample_reached:
  "ts_broadcasts (abs_store sample_engine (sqlite_run sample_engine sample_calls 5)) = [(''live'',
     \<lparr>bs_broadcast = \<lparr>bc_id = ''live'', bc_playlistUrl = ''u'', bc_metadata = None, bc_createdAt = 0, bc_updatedAt = 0\<rparr>,
      bs_peers = [(''a'', \<lparr>ps_peer = (joined_peer (sample_join ''a'') None 1)\<lparr>peer_lastSeenAt := 2\<rparr>, ps_stats = nat_stats (\<lambda>_. 7)\<rparr>)],
      bs_retiredStats = nat_stats (\<lambda>_. 0)\<rparr>)]"
  by code_simp

lemma sample_counted: "all_counted (abs_store sample_engine (sqlite_run sample_engine sample_calls 5))"
proof -
  let ?state = "snd (hd (ts_broadcasts (abs_store sample_engine (sqlite_run sample_engine sample_calls 5))))"
  have "counted (\<lambda>_. 7) ?state"
    unfolding counted_def sample_reached by (auto simp: wf_map_def intro!: exI[of _ "\<lambda>_. 0"] exI[of _ "[\<lambda>_. 7]"])
  then show ?thesis unfolding all_counted_def by (auto simp: sample_reached wf_map_def)
qed

theorem sqlite_refines_memory_witness:
  "refines sample_engine (sqlite_do sample_engine (LeaveOp ''live'' ''a'', 3) (sqlite_run sample_engine sample_calls 5))
     (memory_do (LeaveOp ''live'' ''a'', 3) (abs_store sample_engine (sqlite_run sample_engine sample_calls 5)))"
  by (rule sqlite_refines_memory[OF sample_exact _ sample_counted]) simp

text \<open>The correspondence is up to the order of an inventory because the stores keep different orders: a replacing report
  takes the order of the report in the in-memory store, while rows that stay keep their place in SQLite. Over the limit
  the stores then drop different segments.\<close>

definition reordering_ops :: "(store_op \<times> int) list" where
  "reordering_ops = [(RegisterOp \<lparr>reg_id = ''live'', reg_playlistUrl = ''u'', reg_metadata = None\<rparr>, 0),
     (JoinOp ''live'' (sample_join ''a'') None, 1), (SegmentsOp ''live'' ''a'' [''s1'', ''s2''] False, 2),
     (SegmentsOp ''live'' ''a'' [''s2'', ''s1''] True, 3), (SegmentsOp ''live'' ''a'' [''s3''] False, 4)]"


lemma stores_drop_different_segments:
  "st_getSegments (''live'', ''a'') (sq_tables (sqlite_run sample_engine
     (map (\<lambda>(op, now). StoreCall op now) reordering_ops) 2)) = [''s2'', ''s3'']"
  "map_option peer_segments (getPeer ''live'' ''a'' (fold run_store_op reordering_ops (new_store 2))) = Some [''s1'', ''s3'']"
proof -
  note limits = limitInventory_def MAX_INVENTORY_CHARACTERS_PER_PEER_def new_set_def set_add_def
  show "map_option peer_segments (getPeer ''live'' ''a'' (fold run_store_op reordering_ops (new_store 2))) = Some [''s1'', ''s3'']"
    by (simp add: reordering_ops_def new_store_def registerBroadcast_def put_broadcast_def kept_def joinPeerDetailed_def
        requireBroadcast_def put_peer_def joined_peer_def sample_join_def reportSegments_def requirePeer_def Let_def getPeer_def
        limits)
  let ?start = "[StoreCall (RegisterOp \<lparr>reg_id = ''live'', reg_playlistUrl = ''u'', reg_metadata = None\<rparr>) 0,
     StoreCall (JoinOp ''live'' (sample_join ''a'') None) 1]"
  let ?s = "sqlite_run sample_engine ?start 2"
  have start: "sq_tables ?s = no_tables\<lparr>
      t_broadcasts := [(''live'', \<lparr>br_playlist_url = ''u'', br_metadata = None, br_created_at = 0, br_updated_at = 0\<rparr>)],
      t_peers := [((''live'', ''a''), join_row sample_engine (sample_join ''a'') None 1)],
      t_stats := [((''live'', ''a''), createEmptyPeerTrafficStats)]\<rparr>" "sq_maxSegmentsPerPeer ?s = 2"
    by code_simp+
  obtain s where s: "s = ?s" by simp
  have run: "sqlite_run sample_engine (map (\<lambda>(op, now). StoreCall op now) reordering_ops) 2 =
      fold (sqlite_step sample_engine) [StoreCall (SegmentsOp ''live'' ''a'' [''s1'', ''s2''] False) 2,
        StoreCall (SegmentsOp ''live'' ''a'' [''s2'', ''s1''] True) 3, StoreCall (SegmentsOp ''live'' ''a'' [''s3''] False) 4] ?s"
    by (simp add: sqlite_run_def reordering_ops_def)
  show "st_getSegments (''live'', ''a'') (sq_tables (sqlite_run sample_engine
     (map (\<lambda>(op, now). StoreCall op now) reordering_ops) 2)) = [''s2'', ''s3'']"
    unfolding run s[symmetric]
    by (simp add: start[folded s] sq_reportSegments_def Let_def groupWrites_def sq_requirePeer_def sq_requireBroadcast_def findBroadcast_def
        mapBroadcast_def parseMetadata_def findPeer_def mapPeer_def join_row_def sample_join_def no_tables_def st_getSegments_def
        limits transaction_def store_segments_def st_insertPeerSegment_def st_deletePeerSegment_def checked_def
        constraints_ok_def references_ok_def map_has_def peer_row_ok_def stats_row_ok_def list_all_iff st_updatePeerLastSeen_def
        map_adjust_def then_read_def bound_def set_delete_def)
qed

section \<open>Rollups\<close>

lemma list_readable:
  assumes "tables_ok engine t" "(b, row) \<in> set (t_broadcasts t)"
  shows "mapBroadcast engine (b, row) = Inr (abs_broadcast engine b row)"
proof -
  have "map_get (t_broadcasts t) b = Some row" using keys_ok(1)[OF assms(1)] assms(2) by (simp add: wf_map_def)
  from mapBroadcast_abs[OF row_readable(1)[OF assms(1) this]] show ?thesis .
qed

lemma map_result_all: "(\<And>x. x \<in> set xs \<Longrightarrow> f x = Inr (g x)) \<Longrightarrow> map_result f xs = Inr (map g xs)"
  by (induction xs) auto

lemma list_broadcasts:
  "tables_ok engine t \<Longrightarrow> map_result (mapBroadcast engine) (st_listBroadcasts t) =
     Inr (map (\<lambda>(b, row). abs_broadcast engine b row) (st_listBroadcasts t))"
  by (rule map_result_all) (auto simp: st_listBroadcasts_def list_readable)

lemma rollup_all:
  assumes "\<And>b. b \<in> set bs \<Longrightarrow> is_return (sq_requireBroadcast engine (bc_id b) t)"
  shows "rollup_broadcasts engine now bs (t\<lparr>t_history := h\<rparr>) =
    (let entries = map (\<lambda>b. history_entry now (bc_id b) (st_getBroadcastStats engine (bc_id b) t)) bs in
     Inr (entries, t\<lparr>t_history := h @ entries\<rparr>))"
  using assms
proof (induction bs arbitrary: h)
  case (Cons b bs)
  have same: "sq_requireBroadcast engine c (t\<lparr>t_history := h\<rparr>) = sq_requireBroadcast engine c t"
    "st_getBroadcastStats engine c (t\<lparr>t_history := h\<rparr>) = st_getBroadcastStats engine c t" for c h
    by (simp_all add: sq_requireBroadcast_def findBroadcast_def st_getBroadcastStats_def counter_rows_def st_countPeers_def
        peers_of_broadcast_def)
  obtain x where "sq_requireBroadcast engine (bc_id b) t = Inr x"
    using Cons.prems[of b] by (cases "sq_requireBroadcast engine (bc_id b) t") auto
  with Cons show ?case by (simp add: sq_getBroadcastStats_def same Let_def st_insertStatsHistory_def)
qed simp

text \<open>A rollup records one entry for every broadcast, oldest broadcast first, with the counters and the number of
  peers the statistics of the broadcast show at that moment; it returns what it records, and changes nothing else.\<close>

lemma rollup_records_each_broadcast:
  "let s = sqlite_run engine events m;
       entries = map (\<lambda>(b, row). history_entry now b (st_getBroadcastStats engine b (sq_tables s)))
         (st_listBroadcasts (sq_tables s)) in
   fst (rollupStats engine now s) = return entries \<and>
   sq_tables (snd (rollupStats engine now s)) =
     (sq_tables s)\<lparr>t_history := t_history (sq_tables s) @ entries\<rparr>"
proof -
  let ?t = "sq_tables (sqlite_run engine events m)"
  have ok: "tables_ok engine ?t" using sqlite_run_ok[of engine events m] by (simp add: store_ok_def)
  let ?bs = "map (\<lambda>(b, row). abs_broadcast engine b row) (st_listBroadcasts ?t)"
  have "is_return (sq_requireBroadcast engine (bc_id b) ?t)" if "b \<in> set ?bs" for b
  proof -
    from that obtain c row where c: "(c, row) \<in> set (t_broadcasts ?t)" "b = abs_broadcast engine c row"
      by (auto simp: st_listBroadcasts_def)
    then have "map_get (t_broadcasts ?t) c = Some row" using keys_ok(1)[OF ok] by (simp add: wf_map_def)
    then show ?thesis using requireBroadcast_abs[OF ok, of c] by (simp add: c(2) abs_broadcast_def)
  qed
  then have "rollup_broadcasts engine now ?bs (?t\<lparr>t_history := t_history ?t\<rparr>) =
      (let entries = map (\<lambda>b. history_entry now (bc_id b) (st_getBroadcastStats engine (bc_id b) ?t)) ?bs in
       Inr (entries, ?t\<lparr>t_history := t_history ?t @ entries\<rparr>))"
    by (rule rollup_all)
  then show ?thesis
    by (simp add: rollupStats_def transaction_def list_broadcasts[OF ok] Let_def comp_def split_beta abs_broadcast_def)
qed

section \<open>Migrations\<close>


end
