(* ===== verification/SqliteQueries.thy ===== *)
theory SqliteQueries
  imports SqliteSpec
begin

text \<open>
  The queries of the SQLite store read what the in-memory store shows in the corresponding state.
\<close>

section \<open>Sorted rows\<close>

lemma mset_sort_by [simp]: "mset (sort_by after xs) = mset xs"
proof -
  have "mset (insert_by after x ys) = add_mset x (mset ys)" for x ys by (induction ys) auto
  then show ?thesis by (induction xs) simp_all
qed

lemma filter_insert_by:
  assumes "\<And>x y. key x = key y \<Longrightarrow> \<not> after x y"
  shows "filter (\<lambda>x. key x = k) (insert_by after x ys) = filter (\<lambda>x. key x = k) (x # ys)"
  using assms by (induction ys) (force split: if_splits)+

lemma filter_sort_by:
  assumes "\<And>x y. key x = key y \<Longrightarrow> \<not> after x y"
  shows "filter (\<lambda>x. key x = k) (sort_by after xs) = filter (\<lambda>x. key x = k) xs"
  by (induction xs) (simp_all add: filter_insert_by[of key, OF assms] split: if_splits)

lemma bytes_irreflexive: "\<not> bytes_less xs xs"
  by (induction xs) auto

lemma get_sort_by: "wf_map m \<Longrightarrow> map_get (sort_by after m) = map_get m"
  by (subst map_of_inject_set) (simp_all add: wf_map_def distinct_map_sort_by)

section \<open>Inventories of one query\<close>

lemma grouped_segments:
  "map_get (fold add_segment_row rows m) p = (let mine = map snd (filter (\<lambda>row. fst row = p) rows) in
     case map_get m p of None \<Rightarrow> if mine = [] then None else Some mine | Some xs \<Rightarrow> Some (xs @ mine))"
proof (induction rows arbitrary: m)
  case (Cons row rows)
  obtain q g where "row = (q, g)" by (cases row)
  with Cons[of "add_segment_row row m"] show ?case
    by (cases "map_get m q"; cases "map_get m p") (auto simp: add_segment_row_def get_set Let_def)
qed (simp split: option.split)

lemma rows_of_peer: "filter (\<lambda>row. fst row = p) (by_peer rows) = filter (\<lambda>row. fst row = p) rows"
  unfolding by_peer_def by (rule filter_sort_by) (auto simp: text_less_def bytes_irreflexive)

lemma listed_segments:
  "(case map_get (fold add_segment_row (by_peer rows) []) p of None \<Rightarrow> [] | Some xs \<Rightarrow> xs) =
     map snd (filter (\<lambda>row. fst row = p) rows)"
  by (simp add: grouped_segments rows_of_peer Let_def)

lemma broadcast_segments:
  "map snd (filter (\<lambda>row. fst row = p) (map snd (filter (\<lambda>(b', _). b' = b) (t_segments t)))) = st_getSegments (b, p) t"
proof -
  have "map snd (filter (\<lambda>row. fst row = p) (map snd (filter (\<lambda>(b', _). b' = b) rows))) =
      map (\<lambda>(b, p, g). g) (filter (\<lambda>(b', p', g). (b', p') = (b, p)) rows)" for rows :: "(string \<times> string \<times> string) list"
    by (induction rows) auto
  then show ?thesis by (simp add: st_getSegments_def)
qed

lemma matching_segments:
  assumes "(b, p, x) \<in> set (t_segments t)"
  shows "map snd (filter (\<lambda>row. fst row = p) (map snd (filter
      (\<lambda>(b', p', _). b' = b \<and> (b, p', x) \<in> set (t_segments t)) (t_segments t)))) = st_getSegments (b, p) t"
proof -
  have "map snd (filter (\<lambda>row. fst row = p) (map snd (filter (\<lambda>(b', p', _). b' = b \<and> P p') rows))) =
      map (\<lambda>(b, p, g). g) (filter (\<lambda>(b', p', g). (b', p') = (b, p)) rows)" if "P p"
    for P and rows :: "(string \<times> string \<times> string) list"
    using that by (induction rows) auto
  from this[of "\<lambda>p. (b, p, x) \<in> set (t_segments t)"] assms show ?thesis by (simp add: st_getSegments_def)
qed

section \<open>Lists of peers\<close>

text \<open>The rows a listing selects, in the order of the query.\<close>

definition listed_rows :: "string \<Rightarrow> string option \<Rightarrow> Tables \<Rightarrow> (string, PeerRow) jsmap" where
  "listed_rows b segment t =
     (case segment of None \<Rightarrow> st_listPeers b t | Some x \<Rightarrow> st_listPeersWithSegment b x t)"

lemma listed_member:
  assumes "(p, row) \<in> set (listed_rows b segment t)"
  shows "(p, row) \<in> set (peers_of_broadcast b t)"
    "\<And>x. segment = Some x \<Longrightarrow> (b, p, x) \<in> set (t_segments t)"
  using assms by (auto simp: listed_rows_def st_listPeers_def st_listPeersWithSegment_def by_join_def split: option.splits)

lemma listed_readable:
  assumes "tables_ok engine t" "(p, row) \<in> set (peers_of_broadcast b t)"
  shows "readable engine (pe_metadata row)"
proof -
  have "map_get (t_peers t) (b, p) = Some row"
    using wf_peers_of[OF keys_ok(2)[OF assms(1)], of b] assms(2) get_peers_of[of b t p] by (simp add: wf_map_def)
  then show ?thesis using row_readable(2)[OF assms(1)] by blast
qed

lemma listPeers_abs:
  assumes "tables_ok engine (sq_tables s)"
  shows "sq_listPeers engine b segment s = (case map_get (t_broadcasts (sq_tables s)) b of
     None \<Rightarrow> throw (Refused (BroadcastNotFound b))
   | Some brow \<Rightarrow> return (map (\<lambda>(p, row). abs_peer engine p row (st_getSegments (b, p) (sq_tables s)))
       (listed_rows b segment (sq_tables s))))"
proof (cases "map_get (t_broadcasts (sq_tables s)) b")
  case None
  with requireBroadcast_abs[OF assms, of b] show ?thesis by (simp add: sq_listPeers_def Let_def)
next
  case (Some brow)
  let ?t = "sq_tables s"
  let ?segmentRows = "case segment of None \<Rightarrow> st_listBroadcastSegments b ?t
      | Some x \<Rightarrow> st_listSegmentsOfPeersWithSegment b x ?t"
  let ?segments = "\<lambda>p. case map_get (fold add_segment_row ?segmentRows []) p of None \<Rightarrow> [] | Some xs \<Rightarrow> xs"
  have segments: "?segments p = st_getSegments (b, p) ?t" if "(p, row) \<in> set (listed_rows b segment ?t)" for p row
    using listed_member(2)[OF that] matching_segments[of b p _ ?t] broadcast_segments[of p b ?t]
    by (cases segment)
      (simp_all add: st_listBroadcastSegments_def st_listSegmentsOfPeersWithSegment_def listed_segments)
  have "map_result (\<lambda>(p, row). mapPeer engine p row (?segments p)) (listed_rows b segment ?t) =
      Inr (map (\<lambda>(p, row). abs_peer engine p row (st_getSegments (b, p) ?t)) (listed_rows b segment ?t))"
    by (rule map_result_all)
      (auto simp: segments mapPeer_abs[OF listed_readable[OF assms listed_member(1)]])
  with requireBroadcast_abs[OF assms, of b] Some show ?thesis
    by (simp add: sq_listPeers_def Let_def listed_rows_def)
qed

definition same_list :: "(sqlite_error, 'a list) result \<Rightarrow> (StoreError, 'a list) result \<Rightarrow> bool" where
  "same_list r r' = (case r of
     Inl e \<Rightarrow> (case r' of Inl e' \<Rightarrow> e = Refused e' | Inr _ \<Rightarrow> False)
   | Inr xs \<Rightarrow> (case r' of Inl _ \<Rightarrow> False | Inr ys \<Rightarrow> mset xs = mset ys))"

lemma listPeers_same:
  assumes "tables_ok engine (sq_tables s)"
  shows "same_list (sq_listPeers engine b segment s) (listPeers b segment (abs_store engine s))"
proof (cases "map_get (t_broadcasts (sq_tables s)) b")
  case (Some brow)
  let ?t = "sq_tables s"
  let ?peer = "\<lambda>(p, row). abs_peer engine p row (st_getSegments (b, p) ?t)"
  have all: "map ps_peer (map_values (bs_peers (abs_state engine ?t b brow))) = map ?peer (peers_of_broadcast b ?t)"
    by (simp add: abs_state_def abs_entry_def comp_def split_beta)
  have "mset (map ?peer (listed_rows b segment ?t)) =
      mset (filter (\<lambda>q. case segment of None \<Rightarrow> True | Some x \<Rightarrow> x \<in> set (peer_segments q)) (map ?peer (peers_of_broadcast b ?t)))"
  proof (cases segment)
    case None
    then show ?thesis by (simp add: listed_rows_def st_listPeers_def by_join_def)
  next
    case (Some x)
    have "filter (\<lambda>q. x \<in> set (peer_segments q)) (map ?peer (peers_of_broadcast b ?t)) =
        map ?peer (filter (\<lambda>(p, row). (b, p, x) \<in> set (t_segments ?t)) (peers_of_broadcast b ?t))"
      unfolding filter_map comp_def
      by (intro arg_cong[where f = "map _"] filter_cong) (force simp: abs_peer_def st_getSegments_def)+
    then show ?thesis by (simp add: Some listed_rows_def st_listPeersWithSegment_def by_join_def del: mset_map mset_filter)
        (simp)
  qed
  moreover have "listPeers b segment (abs_store engine s) = return (filter
      (\<lambda>q. case segment of None \<Rightarrow> True | Some x \<Rightarrow> x \<in> set (peer_segments q)) (map ?peer (peers_of_broadcast b ?t)))"
    by (simp only: listPeers_def requireBroadcast_memory Some option.case sum.case all)
  ultimately show ?thesis
    by (simp only: same_list_def listPeers_abs[OF assms] Some option.case sum.case)
qed (simp add: same_list_def listPeers_abs[OF assms] listPeers_def requireBroadcast_memory)

lemma listPeerStats_same:
  assumes "tables_ok engine (sq_tables s)"
  shows "same_list (sq_listPeerStats engine b s) (listPeerStats b (abs_store engine s))"
proof (cases "map_get (t_broadcasts (sq_tables s)) b")
  case (Some brow)
  let ?t = "sq_tables s"
  have stats: "map_get (st_listPeerStats b ?t) p = map_get (t_stats ?t) (b, p)" for p
  proof -
    have get: "map_get (map (\<lambda>((b, p), stats). (p, stats)) (filter (\<lambda>((b', p), stats). b' = b) m)) p = map_get m (b, p)"
      for m :: "(string \<times> string, PeerTrafficStats) jsmap" by (induction m) auto
    have "wf_map (map (\<lambda>((b, p), stats). (p, stats)) (filter (\<lambda>((b', p), stats). b' = b) m))" if "wf_map m"
      for m :: "(string \<times> string, PeerTrafficStats) jsmap"
      using that by (induction m) (force simp: wf_map_def)+
    from get_sort_by[OF this[OF keys_ok(4)[OF assms]]] show ?thesis unfolding st_listPeerStats_def by (simp add: get)
  qed
  have "map (\<lambda>peer. \<lparr>ps_peer = peer, ps_stats = (case map_get (st_listPeerStats b ?t) (peer_id peer) of
      None \<Rightarrow> createEmptyPeerTrafficStats | Some stats \<Rightarrow> stats)\<rparr>)
      (map (\<lambda>(p, row). abs_peer engine p row (st_getSegments (b, p) ?t)) rows) =
      map (\<lambda>(p, row). abs_entry engine ?t b p row) rows" for rows
    by (auto simp: stats abs_entry_def abs_peer_def stats_of_def)
  then have "sq_listPeerStats engine b s = return (map (\<lambda>(p, row). abs_entry engine ?t b p row) (st_listPeers b ?t))"
    using listPeers_abs[OF assms, of b None] by (simp add: sq_listPeerStats_def Let_def Some listed_rows_def)
  moreover have "listPeerStats b (abs_store engine s) =
      return (map (\<lambda>(p, row). abs_entry engine ?t b p row) (peers_of_broadcast b ?t))"
    by (simp add: listPeerStats_def requireBroadcast_memory Some) (simp add: abs_state_def split_beta)
  ultimately show ?thesis by (simp add: same_list_def st_listPeers_def by_join_def)
qed (simp add: same_list_def sq_listPeerStats_def Let_def listPeers_abs[OF assms] listPeerStats_def requireBroadcast_memory)

lemma get_peer_abs:
  assumes "tables_ok engine (sq_tables s)"
  shows "sq_getPeer engine b p s = return (getPeer b p (abs_store engine s))"
proof (cases "map_get (t_peers (sq_tables s)) (b, p)")
  case None
  then show ?thesis
    by (cases "map_get (t_broadcasts (sq_tables s)) b")
      (simp_all add: sq_getPeer_def findPeer_def getPeer_def abs_store_def get_abs get_abs_peer)
next
  case (Some row)
  from peer_broadcast[OF assms Some] obtain brow where "map_get (t_broadcasts (sq_tables s)) b = Some brow" by blast
  with Some mapPeer_abs[OF row_readable(2)[OF assms Some]] show ?thesis
    by (simp add: sq_getPeer_def findPeer_def getPeer_def abs_store_def get_abs get_abs_peer) (simp add: abs_entry_def)
qed

text \<open>C22: In every state the SQLite store can reach, its queries return what the in-memory store returns in the
  corresponding state, errors included: one broadcast or one peer exactly, lists of broadcasts, of peers (all, or those
  with a segment) and of peers with their counters up to their order.\<close>

theorem sqlite_reads_agree:
  "let s = sqlite_run engine events m; s' = abs_store engine s in
   sq_getBroadcast engine b s = map_sum Refused id (getBroadcast b s') \<and>
   sq_getPeer engine b p s = return (getPeer b p s') \<and>
   same_list (sq_listBroadcasts engine s) (return (listBroadcasts s')) \<and>
   same_list (sq_listPeers engine b segment s) (listPeers b segment s') \<and>
   same_list (sq_listPeerStats engine b s) (listPeerStats b s')"
proof -
  let ?s = "sqlite_run engine events m"
  have ok: "tables_ok engine (sq_tables ?s)" using sqlite_run_ok[of engine events m] by (simp add: store_ok_def)
  have "sq_getBroadcast engine b ?s = map_sum Refused id (getBroadcast b (abs_store engine ?s))"
    using requireBroadcast_abs[OF ok, of b]
    by (simp add: sq_getBroadcast_def getBroadcast_def requireBroadcast_memory abs_state_def split: option.split)
  moreover have "same_list (sq_listBroadcasts engine ?s) (return (listBroadcasts (abs_store engine ?s)))"
    using list_broadcasts[OF ok]
    by (simp add: sq_listBroadcasts_def same_list_def listBroadcasts_def abs_store_def abs_tables_def abs_state_def
        st_listBroadcasts_def comp_def case_prod_unfold)
  ultimately show ?thesis
    by (simp add: Let_def get_peer_abs[OF ok] listPeers_same[OF ok] listPeerStats_same[OF ok])
qed

section \<open>Totals\<close>

definition sums_exactly :: "SqlEngine \<Rightarrow> bool" where
  "sums_exactly engine \<longleftrightarrow>
     (\<forall>xs. sum_list xs \<le> 2 ^ 53 \<longrightarrow> sql_sum engine (map nat_number xs) = nat_number (sum_list xs))"

lemma sum_counts_list: "sum_counts cs k = sum_list (map (\<lambda>c. c k) cs)"
  by (induction cs) auto

lemma summed_nat:
  assumes "sums_exactly engine" "\<And>k. sum_counts cs k \<le> 2 ^ 53"
  shows "summed engine (map nat_stats cs) = nat_stats (sum_counts cs)"
proof (rule stats_eqI)
  fix k
  have "sql_sum engine (map (stat_get k) (map nat_stats cs)) = nat_number (sum_counts cs k)"
  proof -
    have "map (stat_get k) (map nat_stats cs) = map nat_number (map (\<lambda>c. c k) cs)" by simp
    then show ?thesis using assms unfolding sums_exactly_def sum_counts_list by (simp only:)
  qed
  moreover have "stat_get k (summed engine rows) = (if rows = [] then 0 else sql_sum engine (map (stat_get k) rows))" for rows
    unfolding summed_def
    using stat_get_fold_set[of peerTrafficStatKeys k "\<lambda>key v. if rows = [] then 0 else sql_sum engine (map (stat_get key) rows)"]
    by simp
  ultimately show "stat_get k (summed engine (map nat_stats cs)) = stat_get k (nat_stats (sum_counts cs))"
    by (cases cs) (simp_all add: zero_number_def)
qed

lemma mset_map_values: "wf_map m \<Longrightarrow> mset (map_values m) = image_mset (\<lambda>k. the (map_get m k)) (mset_set (set (map_keys m)))"
proof -
  assume wf: "wf_map m"
  then have "map_values m = map (\<lambda>k. the (map_get m k)) (map_keys m)" by (auto simp: wf_map_def)
  moreover have "mset (map_keys m) = mset_set (set (map_keys m))" using wf by (simp only: wf_map_def mset_set_set)
  ultimately show ?thesis by (simp only: mset_map)
qed

text \<open>The rows of counters of a broadcast are the counters of its peers.\<close>

lemma stats_rows:
  assumes "tables_ok engine t"
  shows "mset (map snd (filter (\<lambda>((b', p), stats). b' = b) (t_stats t))) =
    mset (map (\<lambda>x. ps_stats (snd x)) (bs_peers (abs_state engine t b brow)))"
proof -
  let ?rows = "filter (\<lambda>(key, stats). fst key = b) (t_stats t)" and ?peers = "filter (\<lambda>(key, row). fst key = b) (t_peers t)"
  have keys: "set (map_keys ?rows) = set (map_keys ?peers)"
  proof (rule set_eqI)
    fix key
    have "map_has (t_peers t) key = map_has (t_stats t) key" using assms unfolding tables_ok_def counted_peers_def by blast
    then show "key \<in> set (map_keys ?rows) \<longleftrightarrow> key \<in> set (map_keys ?peers)"
      unfolding has_key[symmetric] by (simp only: map_has_filter_keys)
  qed
  have get: "map_get ?rows key = map_get (t_stats t) key" if "key \<in> set (map_keys ?rows)" for key
    using that by (auto simp: get_filter_keys[where P = "\<lambda>key. fst key = b"])
  have wf: "wf_map ?rows" "wf_map ?peers" using keys_ok[OF assms] by (simp_all add: wf_map_filter)
  have "mset (map_values ?rows) = image_mset (\<lambda>k. the (map_get (t_stats t) k)) (mset_set (set (map_keys ?rows)))"
    unfolding mset_map_values[OF wf(1)] by (rule image_mset_cong) (simp add: get)
  also have "\<dots> = mset (map (\<lambda>k. the (map_get (t_stats t) k)) (map_keys ?peers))"
    unfolding keys using wf(2) by (simp only: wf_map_def mset_set_set mset_map)
  also have "map (\<lambda>k. the (map_get (t_stats t) k)) (map_keys ?peers) =
      map (\<lambda>x. ps_stats (snd x)) (bs_peers (abs_state engine t b brow))"
  proof -
    have "the (map_get (t_stats t) (b, p)) = stats_of (t_stats t) (b, p)" if "((b, p), row) \<in> set (t_peers t)" for p row
      using peer_counted[OF assms, of "(b, p)" row] keys_ok(2)[OF assms] that by (auto simp: wf_map_def stats_of_def)
    then show ?thesis
      by (auto simp: abs_state_def abs_entry_def peers_of_broadcast_def split_beta intro!: map_cong filter_cong)
  qed
  finally show ?thesis by (simp add: split_beta)
qed

lemma nat_rows:
  assumes "mset rows = mset (map nat_stats cs)"
  obtains ds where "rows = map nat_stats ds" "\<forall>k. sum_counts ds k = sum_counts cs k"
proof -
  have "\<forall>row \<in> set rows. \<exists>d. row = nat_stats d" using mset_eq_setD[OF assms] by auto
  then obtain ds where ds: "rows = map nat_stats ds" by (auto simp: ex_map_conv[symmetric])
  have "mset ds = mset cs"
    using assms unfolding ds mset_map by (rule multiset.inj_map_strong[rotated]) (simp add: nat_stats_inject)
  then have "mset (map (\<lambda>c. c k) ds) = mset (map (\<lambda>c. c k) cs)" for k by simp
  then have "sum_counts ds k = sum_counts cs k" for k unfolding sum_counts_list by (metis sum_mset_sum_list)
  with ds that show ?thesis by blast
qed

lemma retired_rows:
  "wf_map m \<Longrightarrow> map snd (filter (\<lambda>(b', stats). b' = b) m) = (case map_get m b of None \<Rightarrow> [] | Some x \<Rightarrow> [x])"
proof (induction m)
  case (Cons y m)
  obtain b' x where y: "y = (b', x)" by (cases y)
  show ?case
  proof (cases "b' = b")
    case True
    then have "map_get m b = None" using Cons.prems by (simp add: y wf_map_Cons map_of_eq_None_iff)
    with Cons True show ?thesis by (simp add: y wf_map_Cons)
  qed (use Cons in \<open>simp add: y wf_map_Cons\<close>)
qed simp

lemma totals_abs:
  assumes "tables_ok engine t" "sums_exactly engine" "counted c (abs_state engine t b brow)"
  shows "st_getBroadcastStats engine b t = totalsFor (abs_state engine t b brow)"
proof -
  let ?state = "abs_state engine t b brow"
  obtain r cs where r: "bs_retiredStats ?state = nat_stats r"
    "map (\<lambda>x. ps_stats (snd x)) (bs_peers ?state) = map nat_stats cs" "\<And>k. c k = r k + sum_counts cs k" "\<And>k. c k \<le> 2 ^ 53"
    using assms(3) by (auto simp: counted_def)
  from nat_rows[OF stats_rows[OF assms(1), of b brow, unfolded r(2)]] obtain ds where
    ds: "map snd (filter (\<lambda>((b', p), stats). b' = b) (t_stats t)) = map nat_stats ds" "\<forall>k. sum_counts ds k = sum_counts cs k" .
  have "summed engine (counter_rows b t) = nat_stats c"
  proof (cases "map_get (t_retired t) b")
    case None
    with r(1) have "nat_stats r = nat_stats (\<lambda>_. 0)" by (simp add: abs_state_def stats_of_def nat_stats_zero)
    then have "c = sum_counts ds" using r(3) ds(2) by (auto simp: nat_stats_inject)
    moreover have "counter_rows b t = map nat_stats ds"
      by (simp add: counter_rows_def ds(1) retired_rows[OF keys_ok(5)[OF assms(1)]] None)
    ultimately show ?thesis using summed_nat[OF assms(2), of ds] r(4) by simp
  next
    case (Some x)
    with r(1) have "counter_rows b t = map nat_stats (ds @ [r])"
      by (simp add: counter_rows_def ds(1) retired_rows[OF keys_ok(5)[OF assms(1)]] abs_state_def stats_of_def)
    moreover have "c = sum_counts (ds @ [r])" using r(3) ds(2) by (auto simp: sum_counts_append)
    ultimately show ?thesis using summed_nat[OF assms(2), of "ds @ [r]"] r(4) by simp
  qed
  then show ?thesis
    unfolding totals_counted[OF assms(3)] by (simp add: st_getBroadcastStats_def st_countPeers_def abs_state_def)
qed

text \<open>C39: The statistics of a broadcast that the SQLite store sums up in one query are those the in-memory store adds up
  peer by peer, in every state the store can reach (for counters whose totals a binary64 number holds exactly).\<close>

theorem sqlite_totals_agree:
  assumes "sums_exactly engine" "all_counted (abs_store engine (sqlite_run engine events m))"
  shows "sq_getBroadcastStats engine b (sq_tables (sqlite_run engine events m)) =
    map_sum Refused id (getBroadcastStats b (abs_store engine (sqlite_run engine events m)))"
proof -
  let ?s = "sqlite_run engine events m"
  have ok: "tables_ok engine (sq_tables ?s)" using sqlite_run_ok[of engine events m] by (simp add: store_ok_def)
  show ?thesis
  proof (cases "map_get (t_broadcasts (sq_tables ?s)) b")
    case None
    with requireBroadcast_abs[OF ok, of b] show ?thesis
      by (simp add: sq_getBroadcastStats_def getBroadcastStats_def requireBroadcast_memory)
  next
    case (Some brow)
    obtain c where "counted c (abs_state engine (sq_tables ?s) b brow)" using abs_counted[OF assms(2) Some] .
    from totals_abs[OF ok assms(1) this] Some requireBroadcast_abs[OF ok, of b] show ?thesis
      by (simp add: sq_getBroadcastStats_def getBroadcastStats_def requireBroadcast_memory)
  qed
qed

lemma sample_sums: "sums_exactly sample_engine"
proof -
  have "fold (+) (map nat_number xs) (nat_number n) = nat_number (n + sum_list xs)" if "n + sum_list xs \<le> 2 ^ 53" for xs n
    using that
  proof (induction xs arbitrary: n)
    case (Cons x xs)
    have "nat_number x + nat_number n = nat_number (n + x)"
      using nat_number_plus[of x n] Cons.prems by (simp add: add.commute)
    moreover have "fold (+) (map nat_number xs) (nat_number (n + x)) = nat_number (n + x + sum_list xs)"
      using Cons.prems by (intro Cons.IH) simp
    ultimately show ?case by (simp add: add.assoc)
  qed simp
  from this[of 0] show ?thesis by (simp add: sums_exactly_def sample_engine_def zero_number_def)
qed

theorem sqlite_totals_agree_witness:
  "sq_getBroadcastStats sample_engine ''live'' (sq_tables (sqlite_run sample_engine sample_calls 5)) =
     map_sum Refused id (getBroadcastStats ''live'' (abs_store sample_engine (sqlite_run sample_engine sample_calls 5)))"
  by (rule sqlite_totals_agree[OF sample_sums sample_counted])

end
