(* ===== verification/Spec2Isabelle.thy ===== *)
theory Spec2Isabelle
  imports SchedulerSpec WeightedSpec DeadlineAware TrustLatency OriginLatency TokenBucket BufferPool
    PeerCache SdkCache TrackerSpec TrackerAccess NeighborSpec HubEvents ClientSpec SegmentStore
    TrafficStatistics FetcherSpec Verifier LlHls Playlist Transports UploadProgress SdkTrackerSpec
    TrackerStoreRuns TrackerServerSpec SqliteQueries
begin

text \<open>
  OpenStreamGrid delivers live and on-demand video segments from an Origin server and from other
  viewers. A tracker (\<^verbatim>\<open>src/tracker\<close>) knows which peers watch a broadcast and which segments they
  hold; Node peers (\<^verbatim>\<open>src/peer\<close>) and browser players (\<^verbatim>\<open>src/sdk\<close>) fetch segments from peers or the
  Origin, chosen by schedulers; \<^verbatim>\<open>src/common\<close> holds the contracts they share. This development
  models that logic and proves what each part promises.

  \<^bold>\<open>Foundations.\<close> \<^verbatim>\<open>Prelude\<close>: insertion-ordered maps and sets of JavaScript as association lists and
  distinct lists with their laws, results with errors as values, stable sorting, and the locale
  \<open>kept_by_steps\<close> of event-driven components. \<^verbatim>\<open>JsNumber\<close>: the numbers of JavaScript, binary64 with
  rounding to nearest even on rationals, infinities and NaN. \<^verbatim>\<open>JsValue\<close>: JSON values and the string
  operations the parsers use. \<^verbatim>\<open>Common\<close> and \<^verbatim>\<open>WireMessages\<close>: the records, messages, parsers and path
  rules of \<^verbatim>\<open>common/src/index.ts\<close>.

  \<^bold>\<open>Scheduling.\<close> \<^verbatim>\<open>SchedulerPlan\<close> is \<^verbatim>\<open>common/src/scheduler.ts\<close>: plans, their validator, the Origin
  fallback, safe planning and batch planning; \<^verbatim>\<open>SchedulerSpec\<close> shows that the validator accepts exactly
  the admissible plans, that safe planning hands on an accepted plan whatever the scheduler does, and
  that batches assign every segment once, no peer twice in a wave. It declares the contract
  \<open>segment_scheduler\<close>, which \<^verbatim>\<open>WeightedScore\<close> and \<^verbatim>\<open>WeightedSpec\<close> (\<^verbatim>\<open>peer/src/weighted-score-scheduler.ts\<close>),
  \<^verbatim>\<open>DeadlineAware\<close> (the wrappers in \<^verbatim>\<open>peer/src\<close> and \<^verbatim>\<open>sdk/src\<close>) and \<^verbatim>\<open>TrustLatency\<close>
  (\<^verbatim>\<open>sdk/src/trust-latency-probe-scheduler.ts\<close>) satisfy. \<^verbatim>\<open>OriginLatency\<close> is the latency estimate.

  \<^bold>\<open>Storage and limits.\<close> \<^verbatim>\<open>BufferPool\<close>, \<^verbatim>\<open>PeerCache\<close> and \<^verbatim>\<open>SegmentStore\<close>: the pooled buffers and the leased
  segment cache of a Node peer, with buffers as backings that views alias; leased bytes never change,
  the cache stays within its size, and its users see it through the locale \<open>segment_store\<close>.
  \<^verbatim>\<open>SdkCache\<close>: the browser's cache as a heap of linked nodes that refines a recency list.
  \<^verbatim>\<open>TokenBucket\<close>: the inventory, REST and upload limiters behind the locale \<open>token_bucket\<close>.

  \<^bold>\<open>Tracker.\<close> \<^verbatim>\<open>TrackerStore\<close> is \<^verbatim>\<open>store.ts\<close> with the failure quorum of \<^verbatim>\<open>store-utils.ts\<close>; \<^verbatim>\<open>TrackerSpec\<close>
  proves its data in range, its traffic conserved, its limits and membership. \<^verbatim>\<open>NeighborViews\<close> and
  \<^verbatim>\<open>NeighborSpec\<close>: the bounded views of \<^verbatim>\<open>neighbor-views.ts\<close>, mutual with their watchers, and the reports
  of fills as exact differences. \<^verbatim>\<open>TrackerAccess\<close>: client addresses, session tokens, API keys, TURN
  credentials. \<^verbatim>\<open>WebSocketHub\<close> is \<^verbatim>\<open>websocket.ts\<close>: upgrades, subscriptions, client messages, fan-out,
  inventory batches (\<^verbatim>\<open>InventoryBatch\<close>) and deferred flushes as one step function over events.
  \<^verbatim>\<open>HubSpec\<close> proves the laws of its operations and \<^verbatim>\<open>HubEvents\<close> the properties of its runs:
  subscriptions are authenticated, messages stay in their broadcast, clients change only themselves,
  connections stay within their limit, deferred flushes drain. \<^verbatim>\<open>TrackerRequests\<close>, \<^verbatim>\<open>TrackerMetrics\<close>,
  \<^verbatim>\<open>StatsEvents\<close>, \<^verbatim>\<open>TrackerHttp\<close> and \<^verbatim>\<open>TrackerServer\<close> are \<^verbatim>\<open>server.ts\<close>: the fields of request bodies, the
  Prometheus collector, the dashboard stream, every route of the REST API as two events (a request arrives, its
  body ends), configuration, cleanup, start and stop. \<^verbatim>\<open>TrackerHttpSpec\<close>, \<^verbatim>\<open>TrackerDisclosure\<close> and \<^verbatim>\<open>TrackerRuns\<close>
  show what a run of the whole tracker (requests, sockets, timers) guarantees: without the API key a request acts only
  for its session and shows only what the session may see, refused requests keep the store, every request is
  answered once. \<^verbatim>\<open>TrackerStoreRuns\<close>: the stored data stays in range, cleanup removes exactly what has expired.
  \<^verbatim>\<open>TrackerServerSpec\<close>: configurations in range, spaced dashboard publishes, an orderly stop.

  \<^bold>\<open>SQLite store.\<close> \<^verbatim>\<open>SqliteTables\<close> holds the tables of \<^verbatim>\<open>sqlite-store.ts\<close> with the constraints of their schema, every
  prepared statement and the migrations of \<^verbatim>\<open>sqlite-migration.ts\<close>; \<^verbatim>\<open>SqliteStore\<close> the operations over them, with
  transactions, the group commit of per-message writes and crashes. \<^verbatim>\<open>SqliteInvariant\<close> and \<^verbatim>\<open>SqliteRuns\<close>: in every
  run the tables satisfy the schema, a crash loses at most the current turn, errors are undone. The store refines
  the one of \<^verbatim>\<open>store.ts\<close>: \<^verbatim>\<open>SqliteRefinement\<close> reads its tables as the state of the in-memory store,
  \<^verbatim>\<open>SqliteSimulation\<close> and \<^verbatim>\<open>SqliteDepartures\<close> prove the simulation of every operation, \<^verbatim>\<open>SqliteSpec\<close> sums it up and
  treats rollups and migrations, \<^verbatim>\<open>SqliteQueries\<close> shows that queries agree. The addition and sums of SQL, JSON
  and the order in which a migration copies inventories are arguments; pragmas and the file are the engine's.

  \<^bold>\<open>Node peer.\<close> \<^verbatim>\<open>TrackerClient\<close> and \<^verbatim>\<open>ClientSpec\<close>: the tracker client of \<^verbatim>\<open>peer/src/tracker.ts\<close>, which reads
  back what the hub sends, applies batches as it would the separate messages, reports its inventory
  incrementally and reconnects with bounded delays. \<^verbatim>\<open>TrafficStatistics\<close>: the traffic counters.
  \<^verbatim>\<open>Fetcher\<close> is \<^verbatim>\<open>peer/src/fetcher.ts\<close> as an event machine over calls, peer replies, Origin replies,
  hedge timers and aborts; \<^verbatim>\<open>FetcherSpec\<close> shows that delivered bytes are verified, that every call is
  settled once and that counters add up. \<^verbatim>\<open>Verifier\<close>: sidecar digests, their parsers and comparison in
  Node and browser, and the verifier that shares requests and caches digests. \<^verbatim>\<open>Playlist\<close>:
  \<^verbatim>\<open>peer/src/playlist.ts\<close>, names and variants of a playlist and the choice of a rendition. \<^verbatim>\<open>Transports\<close>:
  the HTTP transport and the manager that prefers WebRTC (\<^verbatim>\<open>http-transport.ts\<close>,
  \<^verbatim>\<open>transport-manager.ts\<close>). \<^verbatim>\<open>Uploader\<close> is \<^verbatim>\<open>peer/src/uploader.ts\<close> as an event machine over requests, limiter
  timers, writes, stalls and disconnects; \<^verbatim>\<open>UploaderSpec\<close> shows that uploads are bounded, hold their leases
  and send the leased bytes, \<^verbatim>\<open>UploadProgress\<close> that they end. \<^verbatim>\<open>UriText\<close>: percent-encoding.

  \<^bold>\<open>Browser.\<close> \<^verbatim>\<open>SdkTracker\<close> is \<^verbatim>\<open>sdk/src/ws-client.ts\<close>; \<^verbatim>\<open>SdkTrackerSpec\<close> shows that it reads what the
  tracker sends, keeps the directory a Node peer keeps and speaks only for itself.

  \<^bold>\<open>Origin.\<close> \<^verbatim>\<open>LlHls\<close> is \<^verbatim>\<open>origin/src/ll-hls.ts\<close>: the parts of a segment concatenate to its bytes and
  are found again by their names. \<^verbatim>\<open>JsText\<close> holds the conversions between numbers and text it uses.

  \<^bold>\<open>Conventions.\<close> An operation that changes an object returns the changed record; throwing is the left
  side of a sum; callbacks, clocks, random numbers, hashes, the network and third-party schedulers
  are arguments. Asynchronous code is a step function over events: each event runs the code between
  two suspension points. Loops end by structural recursion or a measure (the sampling loop of a fill
  by the members left, doubling in the buffer pool by the distance to the request, chained flushes by
  the flushes requested), so no fuel is used.

  \<^bold>\<open>Not modelled.\<close> The HTTP server of the Origin is routing and response writing over Node's libraries; WebRTC transports, FFmpeg and the player plugins drive
  third-party objects; log lines, fixed response headers and the process entry points have no effect on the
  modelled state. The tracker
  client's HTTP requests and the late effects of a hedged attempt that already lost are left out.
\<close>

end
